(* ===== verification/Apollo_Prelude.thy ===== *)
theory Apollo_Prelude
  imports Main "HOL-Library.Word" "HOL-Library.Monad_Syntax"
begin

text \<open>
  Shared vocabulary of the development: the C integer types as words, bounds-checked array
  accesses (an access outside the array, undefined behaviour in C, is \<open>None\<close>), block
  moves on byte memories, and the generic facts on lists and words that the components use.
\<close>

unbundle bit_operations_syntax

section \<open>C integer types\<close>

type_synonym u8 = "8 word"
type_synonym u16 = "16 word"
type_synonym u32 = "32 word"

named_theorems c_arr \<open>rewriting of bounds-checked array operations\<close>

section \<open>Bounds-checked arrays\<close>

definition arr_get :: "'a list \<Rightarrow> nat \<Rightarrow> 'a option" where
  "arr_get xs i = (if i < length xs then Some (xs ! i) else None)"

definition arr_set :: "'a list \<Rightarrow> nat \<Rightarrow> 'a \<Rightarrow> 'a list option" where
  "arr_set xs i v = (if i < length xs then Some (xs[i := v]) else None)"

text \<open>The loop \<open>for (i = 0; i < n; i++) xs[off + i] = v;\<close>.\<close>

fun arr_fill :: "'a list \<Rightarrow> nat \<Rightarrow> nat \<Rightarrow> 'a \<Rightarrow> 'a list option" where
  "arr_fill xs off 0 v = Some xs"
| "arr_fill xs off (Suc n) v =
     (case arr_set xs off v of None \<Rightarrow> None | Some ys \<Rightarrow> arr_fill ys (Suc off) n v)"

lemma arr_get_Some [c_arr]: "i < length xs \<Longrightarrow> arr_get xs i = Some (xs ! i)"
  by (simp add: arr_get_def)

lemma arr_set_Some [c_arr]: "i < length xs \<Longrightarrow> arr_set xs i v = Some (xs[i := v])"
  by (simp add: arr_set_def)

lemma arr_get_SomeD: "arr_get xs i = Some v \<Longrightarrow> i < length xs \<and> v = xs ! i"
  by (auto simp: arr_get_def split: if_splits)

lemma arr_set_SomeD: "arr_set xs i v = Some ys \<Longrightarrow> i < length xs \<and> ys = xs[i := v]"
  by (auto simp: arr_set_def split: if_splits)

lemma arr_fill_Some:
  "off + n \<le> length xs \<Longrightarrow>
     arr_fill xs off n v = Some (take off xs @ replicate n v @ drop (off + n) xs)"
proof (induction n arbitrary: xs off)
  case 0
  then show ?case by simp
next
  case (Suc n)
  then have off: "off < length xs" by simp
  have "arr_fill (xs[off := v]) (Suc off) n v =
          Some (take (Suc off) (xs[off := v]) @ replicate n v @ drop (Suc off + n) (xs[off := v]))"
    using Suc by simp
  then show ?case
    using off by (simp add: arr_set_Some take_Suc_conv_app_nth replicate_append_same)
qed

lemma arr_fill_length: "arr_fill xs off n v = Some ys \<Longrightarrow> length ys = length xs"
  by (induction n arbitrary: xs off) (auto split: option.splits dest: arr_set_SomeD)

lemma arr_fill_None: "length xs < off + n \<Longrightarrow> 0 < n \<Longrightarrow> arr_fill xs off n v = None"
proof (induction n arbitrary: xs off)
  case 0
  then show ?case by simp
next
  case (Suc n)
  show ?case
  proof (cases "n = 0")
    case True
    with Suc.prems show ?thesis by (simp add: arr_set_def)
  next
    case False
    have "length (xs[off := v]) < Suc off + n" using Suc.prems by simp
    with False have "arr_fill (xs[off := v]) (Suc off) n v = None" using Suc.IH by blast
    then show ?thesis by (simp add: arr_set_def)
  qed
qed

section \<open>Byte memories\<close>

text \<open>
  A byte memory maps addresses to bytes; addresses are 32 bits wide and wrap, as pointer
  arithmetic on the target does.
\<close>

type_synonym mem = "u32 \<Rightarrow> u8"

definition mem_bytes :: "mem \<Rightarrow> u32 \<Rightarrow> nat \<Rightarrow> u8 list" where
  "mem_bytes m a n = map (\<lambda>i. m (a + of_nat i)) [0..<n]"

lemma length_mem_bytes [simp]: "length (mem_bytes m a n) = n"
  by (simp add: mem_bytes_def)

lemma mem_bytes_0 [simp]: "mem_bytes m a 0 = []"
  by (simp add: mem_bytes_def)

lemma mem_bytes_Suc: "mem_bytes m a (Suc n) = m a # mem_bytes m (a + 1) n"
  unfolding mem_bytes_def by (subst map_upt_Suc) (simp add: algebra_simps)

lemma nth_mem_bytes: "i < n \<Longrightarrow> mem_bytes m a n ! i = m (a + of_nat i)"
  by (simp add: mem_bytes_def)

text \<open>A buffer is stored from address \<open>a\<close> on.\<close>

fun mem_store :: "mem \<Rightarrow> u32 \<Rightarrow> u8 list \<Rightarrow> mem" where
  "mem_store m a [] = m"
| "mem_store m a (b # bs) = mem_store (m(a := b)) (a + 1) bs"

section \<open>Words\<close>

lemma unat_lt_2p: "unat (w :: 'a::len word) < 2 ^ LENGTH('a)"
  by simp

lemma unat_of_nat_small: "n < 2 ^ LENGTH('a) \<Longrightarrow> unat (of_nat n :: 'a::len word) = n"
  by (simp add: unat_of_nat take_bit_nat_eq_self)

lemma unat_u32_less: "unat (w :: u32) < 4294967296"
  using unat_lt_2p [of w] by simp

lemma unat_u16_less: "unat (w :: u16) < 65536"
  using unat_lt_2p [of w] by simp

lemma unat_u8_less: "unat (w :: u8) < 256"
  using unat_lt_2p [of w] by simp

lemma unat_ucast_up [simp]:
  "unat (ucast (b :: u8) :: u16) = unat b" "unat (ucast b :: u32) = unat b"
  "unat (ucast (w :: u16) :: u32) = unat w"
  using unat_u8_less [of b] unat_u16_less [of w] by (simp_all add: unsigned_ucast_eq take_bit_nat_eq_self)

lemma unat_ucast_low: "unat (w :: u32) < 65536 \<Longrightarrow> unat (ucast w :: u16) = unat w"
  by (simp add: unsigned_ucast_eq take_bit_nat_eq_self)

lemma word_of_nat_inj_small:
  "m < 2 ^ LENGTH('a) \<Longrightarrow> n < 2 ^ LENGTH('a) \<Longrightarrow>
     (of_nat m = (of_nat n :: 'a::len word)) = (m = n)"
  by (metis unat_of_nat_small)

lemma of_nat_add_neq_u32:
  "i < n \<Longrightarrow> n \<le> 2 ^ 32 \<Longrightarrow> j < n \<Longrightarrow> i \<noteq> j \<Longrightarrow>
     (a :: u32) + of_nat i \<noteq> a + of_nat j"
  using word_of_nat_inj_small [of i j, where 'a = 32] by simp

lemma word_of_unat: "unat (w :: 'a :: len word) = k \<Longrightarrow> w = of_nat k"
  by auto

lemma bit_0x80: "bit (0x80 :: u8) n \<longleftrightarrow> n = 7"
proof -
  have "(0x80 :: u8) = push_bit 7 1" by simp
  then show ?thesis by (simp only: bit_push_bit_iff bit_1_iff) auto
qed

lemma and_0x80: "b AND 0x80 \<noteq> 0 \<longleftrightarrow> bit (b :: u8) 7"
proof -
  have "bit (b AND 0x80) n \<longleftrightarrow> n = 7 \<and> bit b 7" for n unfolding bit_and_iff bit_0x80 by auto
  moreover have "b AND 0x80 \<noteq> 0 \<longleftrightarrow> (\<exists>n. bit (b AND 0x80) n)" by (metis bit_0_eq bot_apply bot_bool_def bit_eqI)
  ultimately show ?thesis by simp
qed

lemma mem_store_other:
  "(\<And>j. j < length bs \<Longrightarrow> x \<noteq> a + of_nat j) \<Longrightarrow> mem_store m a bs x = m x"
proof (induction bs arbitrary: m a)
  case (Cons b bs)
  have "x \<noteq> a + 1 + of_nat j" if "j < length bs" for j using Cons.prems [of "Suc j"] that by (simp add: add.assoc)
  from Cons.IH [OF this] Cons.prems [of 0] show ?case by simp
qed simp

lemma mem_store_nth:
  assumes "length bs \<le> 2 ^ 32" "i < length bs"
  shows "mem_store m a bs (a + of_nat i) = bs ! i"
  using assms
proof (induction bs arbitrary: m a i)
  case (Cons b bs)
  show ?case
  proof (cases i)
    case 0
    have "a \<noteq> a + 1 + of_nat j" if "j < length bs" for j
      using of_nat_add_neq_u32 [of 0 "length (b # bs)" "Suc j" a] that Cons.prems(1) by (simp add: add.assoc)
    from mem_store_other [OF this] 0 show ?thesis by simp
  next
    case (Suc k)
    then show ?thesis using Cons.IH [of k "m(a := b)" "a + 1"] Cons.prems by (simp add: add.assoc del: fun_upd_apply)
  qed
qed simp

lemma mem_bytes_store:
  assumes "length bs \<le> n" "n \<le> 2 ^ 32"
  shows "mem_bytes (mem_store m a bs) a n = bs @ drop (length bs) (mem_bytes m a n)"
proof (rule nth_equalityI)
  show "length (mem_bytes (mem_store m a bs) a n) = length (bs @ drop (length bs) (mem_bytes m a n))" using assms(1) by simp
  fix i assume "i < length (mem_bytes (mem_store m a bs) a n)"
  then have i: "i < n" by simp
  show "mem_bytes (mem_store m a bs) a n ! i = (bs @ drop (length bs) (mem_bytes m a n)) ! i"
  proof (cases "i < length bs")
    case True
    then show ?thesis using i assms mem_store_nth [of bs i m a] by (simp add: nth_mem_bytes nth_append)
  next
    case False
    have "a + of_nat i \<noteq> a + of_nat j" if "j < length bs" for j
      using of_nat_add_neq_u32 [OF i assms(2), of j a] that False assms(1) by simp
    then have "mem_store m a bs (a + of_nat i) = m (a + of_nat i)" by (rule mem_store_other)
    then show ?thesis using i False assms(1) by (simp add: nth_mem_bytes nth_append)
  qed
qed

end
