(* ===== verification/Alloc_Interface.thy ===== *)
theory Alloc_Interface
  imports Apollo_Prelude
begin

text \<open>
  The contract between a block allocator and its clients: what allocation and release do to
  the set of live blocks (start, length). The client of the contract is any sequence of
  requests that releases live blocks only.
\<close>

definition blocks_apart :: "nat \<times> nat \<Rightarrow> nat \<times> nat \<Rightarrow> bool" where
  "blocks_apart x y \<longleftrightarrow> fst x + snd x \<le> fst y \<or> fst y + snd y \<le> fst x"

definition all_apart :: "(nat \<times> nat) set \<Rightarrow> bool" where
  "all_apart L \<longleftrightarrow> (\<forall>x\<in>L. \<forall>y\<in>L. x \<noteq> y \<longrightarrow> blocks_apart x y)"

inductive client_step ::
  "('r \<Rightarrow> 's \<Rightarrow> 's) \<Rightarrow> (nat \<Rightarrow> 's \<Rightarrow> 's) \<Rightarrow> ('s \<Rightarrow> (nat \<times> nat) set) \<Rightarrow> 's \<Rightarrow> 's \<Rightarrow> bool"
  for alloc release live where
  request: "client_step alloc release live s (alloc r s)"
| give_back: "(p, n) \<in> live s \<Longrightarrow> client_step alloc release live s (release p s)"

inductive_cases client_stepE: "client_step alloc release live s t"

lemma blocks_apart_sym: "blocks_apart x y = blocks_apart y x"
  by (auto simp: blocks_apart_def)

lemma all_apart_insert:
  "all_apart L \<Longrightarrow> \<forall>y\<in>L. blocks_apart x y \<Longrightarrow> all_apart (insert x L)"
  unfolding all_apart_def by (metis blocks_apart_sym insert_iff)

lemma all_apart_subset: "all_apart L \<Longrightarrow> M \<subseteq> L \<Longrightarrow> all_apart M"
  unfolding all_apart_def by blast

locale block_allocator =
  fixes inv :: "'s \<Rightarrow> bool"
    and live :: "'s \<Rightarrow> (nat \<times> nat) set"
    and cap :: nat
    and alloc :: "'r \<Rightarrow> 's \<Rightarrow> 's"
    and release :: "nat \<Rightarrow> 's \<Rightarrow> 's"
  assumes alloc_inv: "inv s \<Longrightarrow> inv (alloc r s)"
    and alloc_live: "inv s \<Longrightarrow>
      live (alloc r s) = live s \<or>
      (\<exists>p n. live (alloc r s) = insert (p, n) (live s) \<and> p + n \<le> cap \<and>
             (\<forall>y\<in>live s. blocks_apart (p, n) y))"
    and release_inv: "inv s \<Longrightarrow> (p, n) \<in> live s \<Longrightarrow> inv (release p s)"
    and release_live: "inv s \<Longrightarrow> (p, n) \<in> live s \<Longrightarrow> live (release p s) = live s - {(p, n)}"
begin

definition sound :: "'s \<Rightarrow> bool" where
  "sound s \<longleftrightarrow> inv s \<and> all_apart (live s) \<and> (\<forall>(p, n)\<in>live s. p + n \<le> cap)"

lemma step_sound:
  assumes "client_step alloc release live s t" and "sound s"
  shows "sound t"
  using assms(1)
proof (cases rule: client_step.cases)
  case (request r)
  have inv: "inv s" using assms(2) by (simp add: sound_def)
  from alloc_live [OF inv, of r] show ?thesis
  proof (elim disjE exE conjE)
    assume "live (alloc r s) = live s"
    with assms(2) alloc_inv [OF inv, of r] request show ?thesis by (simp add: sound_def)
  next
    fix p n
    assume new: "live (alloc r s) = insert (p, n) (live s)" "p + n \<le> cap"
      "\<forall>y\<in>live s. blocks_apart (p, n) y"
    have "all_apart (insert (p, n) (live s))"
      using assms(2) new(3) by (intro all_apart_insert) (simp_all add: sound_def)
    with assms(2) new alloc_inv [OF inv, of r] request show ?thesis by (simp add: sound_def)
  qed
next
  case (give_back p n)
  have inv: "inv s" using assms(2) by (simp add: sound_def)
  have "all_apart (live s)" "\<forall>(p, n)\<in>live s. p + n \<le> cap"
    using assms(2) by (simp_all add: sound_def)
  then have "all_apart (live s - {(p, n)})" "\<forall>(p, n)\<in>live s - {(p, n)}. p + n \<le> cap"
    using all_apart_subset Diff_subset by blast+
  then show ?thesis
    using release_inv [OF inv give_back(2)] release_live [OF inv give_back(2)] give_back(1)
    by (simp add: sound_def)
qed

lemma steps_sound:
  "(client_step alloc release live)\<^sup>*\<^sup>* s t \<Longrightarrow> sound s \<Longrightarrow> sound t"
  by (induction rule: rtranclp_induct) (auto intro: step_sound)

lemma client_apart:
  assumes "(client_step alloc release live)\<^sup>*\<^sup>* s t" and "inv s" and "live s = {}"
  shows "all_apart (live t)" and "\<forall>(p, n)\<in>live t. p + n \<le> cap" and "inv t"
proof -
  have "sound s" using assms(2,3) by (simp add: sound_def all_apart_def)
  with assms(1) have "sound t" by (rule steps_sound)
  then show "all_apart (live t)" "\<forall>(p, n)\<in>live t. p + n \<le> cap" "inv t"
    by (simp_all add: sound_def)
qed

end

end
