(* ===== verification/Malloc.thy ===== *)
theory Malloc
  imports Alloc_Interface
begin

text \<open>
  The block allocator \<open>Middlewares/MALLOC/malloc.c\<close>. Three pools (\<open>SRAMIN\<close>,
  \<open>SRAMCCM\<close>, \<open>SRAMEX\<close>), each with a table \<open>memmap\<close> of one \<open>uint32_t\<close> per 64-byte block: 0 for
  a free block, and the number of blocks of the allocation in every block of an allocation.
  The abstract view of a table is a list of segments (a free block, or an allocation of
  \<open>n\<close> blocks), parsed from the table; the refinement lemmas say what allocation and release
  do to that list.
\<close>

section \<open>Data\<close>

text \<open>\<open>memx\<close>: the three values of a \<open>uint8_t\<close> that index the three-element arrays.\<close>

datatype sram = SRAMIN | SRAMCCM | SRAMEX

primrec memsize :: "sram \<Rightarrow> u32" where
  "memsize SRAMIN = 50 * 1024"
| "memsize SRAMCCM = 60 * 1024"
| "memsize SRAMEX = 28912 * 1024"

primrec memblksize :: "sram \<Rightarrow> u32" where
  "memblksize SRAMIN = 64"
| "memblksize SRAMCCM = 64"
| "memblksize SRAMEX = 64"

definition memtblsize :: "sram \<Rightarrow> u32" where
  "memtblsize memx = memsize memx div memblksize memx"

record mallco_dev =
  membase :: "sram \<Rightarrow> u32"
  memmap :: "sram \<Rightarrow> u32 list"
  memrdy :: "sram \<Rightarrow> u8"

text \<open>The allocator's controller and the byte memory that pointers address.\<close>

record heap = mallco_dev +
  ram :: mem

section \<open>Operations\<close>

fun my_mem_copy :: "mem \<Rightarrow> u32 \<Rightarrow> u32 \<Rightarrow> nat \<Rightarrow> mem" where
  "my_mem_copy m xdes xsrc 0 = m"
| "my_mem_copy m xdes xsrc (Suc n) = my_mem_copy (m(xdes := m xsrc)) (xdes + 1) (xsrc + 1) n"

fun my_mem_set :: "mem \<Rightarrow> u32 \<Rightarrow> u8 \<Rightarrow> nat \<Rightarrow> mem" where
  "my_mem_set m xs c 0 = m"
| "my_mem_set m xs c (Suc count) = my_mem_set (m(xs := c)) (xs + 1) c count"

text \<open>The table is zeroed whole: \<open>memtblsize[memx] * 4\<close> bytes are its \<open>memtblsize\<close> entries.\<close>

definition my_mem_init :: "sram \<Rightarrow> heap \<Rightarrow> heap" where
  "my_mem_init memx s =
     s\<lparr>memmap := (memmap s)(memx := replicate (unat (memtblsize memx)) 0),
       memrdy := (memrdy s)(memx := 1)\<rparr>"

definition my_mem_perused :: "sram \<Rightarrow> heap \<Rightarrow> u16" where
  "my_mem_perused memx s =
     (let used = fold (\<lambda>e used. if e \<noteq> 0 then used + 1 else used)
                   (take (unat (memtblsize memx)) (memmap s memx)) (0 :: u32)
      in ucast ((used * 1000) div memtblsize memx))"

definition nmemb_of :: "sram \<Rightarrow> u32 \<Rightarrow> u32" where
  "nmemb_of memx sz =
     (let nmemb = sz div memblksize memx
      in if sz mod memblksize memx \<noteq> 0 then nmemb + 1 else nmemb)"

text \<open>
  The search from the top of the table: \<open>malloc_scan tbl nmemb cmemb (Suc offset)\<close> looks at
  entry \<open>offset\<close>, with \<open>cmemb\<close> free blocks right above it. \<open>Some None\<close> is a search without success,
  \<open>None\<close> an access outside the table.
\<close>

fun malloc_scan :: "u32 list \<Rightarrow> u32 \<Rightarrow> u32 \<Rightarrow> nat \<Rightarrow> nat option option" where
  "malloc_scan tbl nmemb cmemb 0 = Some None"
| "malloc_scan tbl nmemb cmemb (Suc offset) =
     (case arr_get tbl offset of
        None \<Rightarrow> None
      | Some e \<Rightarrow>
          let cmemb' = (if e = 0 then cmemb + 1 else 0)
          in if cmemb' = nmemb then Some (Some offset) else malloc_scan tbl nmemb cmemb' offset)"

definition my_mem_malloc :: "sram \<Rightarrow> u32 \<Rightarrow> heap \<Rightarrow> (u32 \<times> heap) option" where
  "my_mem_malloc memx sz s0 =
     (let s = (if memrdy s0 memx = 0 then my_mem_init memx s0 else s0)
      in if sz = 0 then Some (0xFFFFFFFF, s)
         else
           let nmemb = nmemb_of memx sz in
           (case malloc_scan (memmap s memx) nmemb 0 (unat (memtblsize memx)) of
              None \<Rightarrow> None
            | Some None \<Rightarrow> Some (0xFFFFFFFF, s)
            | Some (Some offset) \<Rightarrow>
                (case arr_fill (memmap s memx) offset (unat nmemb) nmemb of
                   None \<Rightarrow> None
                 | Some tbl \<Rightarrow>
                     Some (of_nat offset * memblksize memx,
                           s\<lparr>memmap := (memmap s)(memx := tbl)\<rparr>))))"

text \<open>
  \<open>None\<close> is an access outside the table. \<open>nmemb\<close> is a C \<open>int\<close>: a table entry above
  \<open>INT_MAX\<close> reads as a negative number of blocks.
\<close>

definition my_mem_free :: "sram \<Rightarrow> u32 \<Rightarrow> heap \<Rightarrow> (u8 \<times> heap) option" where
  "my_mem_free memx offset s =
     (if memrdy s memx = 0 then Some (1, my_mem_init memx s)
      else if offset < memsize memx then
        (let index = unat (offset div memblksize memx) in
         (case arr_get (memmap s memx) index of
            None \<Rightarrow> None
          | Some e \<Rightarrow>
              (case arr_fill (memmap s memx) index (nat (sint e)) 0 of
                 None \<Rightarrow> None
               | Some tbl \<Rightarrow> Some (0, s\<lparr>memmap := (memmap s)(memx := tbl)\<rparr>))))
      else Some (2, s))"

definition myfree :: "sram \<Rightarrow> u32 \<Rightarrow> heap \<Rightarrow> heap option" where
  "myfree memx ptr s =
     (if ptr = 0 then Some s
      else map_option snd (my_mem_free memx (ptr - membase s memx) s))"

definition mymalloc :: "sram \<Rightarrow> u32 \<Rightarrow> heap \<Rightarrow> (u32 \<times> heap) option" where
  "mymalloc memx sz s =
     (case my_mem_malloc memx sz s of
        None \<Rightarrow> None
      | Some (offset, s') \<Rightarrow>
          if offset = 0xFFFFFFFF then Some (0, s')
          else Some (membase s' memx + offset, s'))"

definition myrealloc :: "sram \<Rightarrow> u32 \<Rightarrow> u32 \<Rightarrow> heap \<Rightarrow> (u32 \<times> heap) option" where
  "myrealloc memx ptr sz s =
     (case my_mem_malloc memx sz s of
        None \<Rightarrow> None
      | Some (offset, s') \<Rightarrow>
          if offset = 0xFFFFFFFF then Some (0, s')
          else
            let s'' = s'\<lparr>ram := my_mem_copy (ram s') (membase s' memx + offset) ptr (unat sz)\<rparr>
            in (case myfree memx ptr s'' of
                  None \<Rightarrow> None
                | Some s3 \<Rightarrow> Some (membase s3 memx + offset, s3)))"

section \<open>Parameters of the pools\<close>

lemma memblksize_64 [simp]: "memblksize b = 64"
  by (cases b) simp_all

lemma unat_memtblsize:
  "unat (memtblsize b) = (case b of SRAMIN \<Rightarrow> 800 | SRAMCCM \<Rightarrow> 960 | SRAMEX \<Rightarrow> 462592)"
  by (cases b) (simp_all add: memtblsize_def unat_div_distrib)

lemma unat_memsize: "unat (memsize b) = unat (memtblsize b) * 64"
  by (cases b) (simp_all add: unat_memtblsize)

lemma memtblsize_bound: "unat (memtblsize b) \<le> 462592"
  by (cases b) (simp_all add: unat_memtblsize)

lemma memtblsize_pos: "0 < unat (memtblsize b)"
  by (cases b) (simp_all add: unat_memtblsize)

lemma ceil_div_64:
  "((n::nat) + 63) div 64 = (if n mod 64 = 0 then n div 64 else n div 64 + 1)"
proof -
  have "(n + 63) div 64 = n div 64 + (n mod 64 + 63) div 64"
    using div_add1_eq [of n 63 64] by simp
  moreover have "n mod 64 < 64" by simp
  moreover have "(k + 63) div 64 = (if k = 0 then 0 else 1)" if "k < 64" for k :: nat
    using that by (auto simp: div_nat_eqI)
  ultimately show ?thesis by simp
qed

lemma unat_nmemb_of: "unat (nmemb_of b sz) = (unat sz + 63) div 64"
proof -
  have d: "unat (sz div 64) = unat sz div 64" by (simp add: unat_div_distrib)
  have "unat (sz mod 64) = unat sz mod 64" by (simp add: unat_mod_distrib)
  then have m: "(sz mod 64 = 0) = (unat sz mod 64 = 0)" by (metis unat_eq_zero)
  have "unat (sz div 64 + 1) = unat sz div 64 + 1"
    using d unat_u32_less [of sz] by (simp add: unat_word_ariths)
  then show ?thesis
    unfolding ceil_div_64 nmemb_of_def Let_def memblksize_64 m by (simp add: d)
qed

lemma nmemb_of_pos: "sz \<noteq> 0 \<Longrightarrow> 0 < unat (nmemb_of b sz)"
  using unat_gt_0 [of sz] by (simp add: unat_nmemb_of)

section \<open>The search\<close>

definition zero_run :: "u32 list \<Rightarrow> nat \<Rightarrow> nat \<Rightarrow> bool" where
  "zero_run tbl off k \<longleftrightarrow> off + k \<le> length tbl \<and> (\<forall>i. off \<le> i \<and> i < off + k \<longrightarrow> tbl ! i = 0)"

lemma zero_run_0 [simp]: "zero_run tbl off 0 = (off \<le> length tbl)"
  by (auto simp: zero_run_def)

lemma zero_run_Suc:
  "zero_run tbl off (Suc k) \<longleftrightarrow> off < length tbl \<and> tbl ! off = 0 \<and> zero_run tbl (Suc off) k"
  (is "?l \<longleftrightarrow> ?r")
proof
  assume ?l
  then show ?r by (simp add: zero_run_def)
next
  assume r: ?r
  have "tbl ! i = 0" if "off \<le> i" "i < off + Suc k" for i
    using r that by (cases "i = off") (auto simp: zero_run_def)
  with r show ?l by (simp add: zero_run_def)
qed

lemma zero_run_mono: "zero_run tbl off k \<Longrightarrow> j \<le> k \<Longrightarrow> zero_run tbl off j"
  by (auto simp: zero_run_def)

lemma zero_run_shift:
  "zero_run tbl r n \<Longrightarrow> r \<le> off \<Longrightarrow> off \<le> r + n \<Longrightarrow> zero_run tbl off (r + n - off)"
  by (auto simp: zero_run_def)

definition run_at :: "u32 list \<Rightarrow> nat \<Rightarrow> nat \<Rightarrow> bool" where
  "run_at tbl off c \<longleftrightarrow> zero_run tbl off c \<and> (\<forall>k. zero_run tbl off k \<longrightarrow> k \<le> c)"

lemma run_at_step:
  assumes "run_at tbl (Suc off) c" and "off < length tbl"
  shows "run_at tbl off (if tbl ! off = 0 then Suc c else 0)"
  unfolding run_at_def
proof (intro conjI allI impI)
  show "zero_run tbl off (if tbl ! off = 0 then Suc c else 0)"
    using assms by (simp add: run_at_def zero_run_Suc)
next
  fix k assume k: "zero_run tbl off k"
  show "k \<le> (if tbl ! off = 0 then Suc c else 0)"
  proof (cases k)
    case 0
    then show ?thesis by simp
  next
    case (Suc j)
    with k have "tbl ! off = 0" "zero_run tbl (Suc off) j" by (simp_all add: zero_run_Suc)
    with assms Suc show ?thesis by (simp add: run_at_def)
  qed
qed

lemma unat_scan_count:
  "unat (c :: u32) < unat (nm :: u32) \<Longrightarrow> unat (if z then c + 1 else 0) = (if z then Suc (unat c) else 0)"
  using unat_u32_less [of nm] by (auto simp: unat_word_ariths)

text \<open>The search in a table that is long enough.\<close>

fun table_scan :: "u32 list \<Rightarrow> u32 \<Rightarrow> u32 \<Rightarrow> nat \<Rightarrow> nat option" where
  "table_scan tbl nmemb cmemb 0 = None"
| "table_scan tbl nmemb cmemb (Suc offset) =
     (let cmemb' = (if tbl ! offset = 0 then cmemb + 1 else 0)
      in if cmemb' = nmemb then Some offset else table_scan tbl nmemb cmemb' offset)"

lemma malloc_scan_table: "off \<le> length tbl \<Longrightarrow> malloc_scan tbl nm c off = Some (table_scan tbl nm c off)"
  by (induction off arbitrary: c) (simp_all add: arr_get_Some Let_def)

lemma table_scan_Some:
  assumes "table_scan tbl nm c off = Some r"
    and "run_at tbl off (unat c)" and "unat c < unat nm" and "off \<le> length tbl"
  shows "r < off \<and> zero_run tbl r (unat nm)"
  using assms
proof (induction off arbitrary: c)
  case 0
  then show ?case by simp
next
  case (Suc off)
  define c' where "c' = (if tbl ! off = 0 then c + 1 else 0)"
  have uc: "unat c' = (if tbl ! off = 0 then Suc (unat c) else 0)"
    using Suc.prems(3) unfolding c'_def by (rule unat_scan_count)
  have run: "run_at tbl off (unat c')"
    using run_at_step [OF Suc.prems(2)] Suc.prems(4) by (simp add: uc)
  show ?case
  proof (cases "c' = nm")
    case True
    with Suc.prems(1) run show ?thesis by (simp add: c'_def [symmetric] run_at_def)
  next
    case False
    then have "unat c' < unat nm"
      using uc Suc.prems(3) by (metis Suc_leI le_neq_implies_less not_gr_zero not_less0
          word_unat_eq_iff)
    with False Suc.prems run Suc.IH [of c'] show ?thesis
      by (simp add: c'_def [symmetric])
  qed
qed

lemma table_scan_None:
  assumes "table_scan tbl nm c off = None"
    and "run_at tbl off (unat c)" and "unat c < unat nm" and "off \<le> length tbl"
    and "r < off"
  shows "\<not> zero_run tbl r (unat nm)"
  using assms
proof (induction off arbitrary: c)
  case 0
  then show ?case by simp
next
  case (Suc off)
  define c' where "c' = (if tbl ! off = 0 then c + 1 else 0)"
  have uc: "unat c' = (if tbl ! off = 0 then Suc (unat c) else 0)"
    using Suc.prems(3) unfolding c'_def by (rule unat_scan_count)
  have run: "run_at tbl off (unat c')"
    using run_at_step [OF Suc.prems(2)] Suc.prems(4) by (simp add: uc)
  have ne: "c' \<noteq> nm" and rest: "table_scan tbl nm c' off = None"
    using Suc.prems(1) by (auto simp: c'_def [symmetric] Let_def split: if_splits)
  then have lt: "unat c' < unat nm"
    using uc Suc.prems(3) by (metis Suc_leI le_neq_implies_less not_gr_zero not_less0
        word_unat_eq_iff)
  show ?case
  proof (cases "r = off")
    case True
    with run lt show ?thesis by (auto simp: run_at_def)
  next
    case False
    with Suc.prems(4,5) show ?thesis
      by (intro Suc.IH [OF rest run lt]) auto
  qed
qed

lemma run_at_top: "run_at tbl (length tbl) 0"
  by (auto simp: run_at_def zero_run_def)

section \<open>The abstract view of a table\<close>

datatype seg = Free | Used nat

primrec seg_cells :: "seg \<Rightarrow> u32 list" where
  "seg_cells Free = [0]"
| "seg_cells (Used n) = replicate n (of_nat n)"

primrec seg_len :: "seg \<Rightarrow> nat" where
  "seg_len Free = 1"
| "seg_len (Used n) = n"

definition render :: "seg list \<Rightarrow> u32 list" where
  "render segs = concat (map seg_cells segs)"

text \<open>The segments of a table; on a damaged table the result renders to another table.\<close>

function parse_segs :: "u32 list \<Rightarrow> seg list" where
  "parse_segs [] = []"
| "parse_segs (x # xs) =
     (if x = 0 then Free # parse_segs xs
      else Used (unat x) # parse_segs (drop (unat x - 1) xs))"
  by pat_completeness auto
termination by (relation "measure length") auto

definition seg_ok :: "seg \<Rightarrow> bool" where
  "seg_ok g \<longleftrightarrow> (case g of Free \<Rightarrow> True | Used n \<Rightarrow> 0 < n \<and> n < 2 ^ 31)"

definition wf_table :: "u32 list \<Rightarrow> bool" where
  "wf_table tbl \<longleftrightarrow> list_all seg_ok (parse_segs tbl) \<and> render (parse_segs tbl) = tbl"

lemma render_simps [simp]:
  "render [] = []"
  "render (g # segs) = seg_cells g @ render segs"
  "render (xs @ ys) = render xs @ render ys"
  by (simp_all add: render_def)

lemma length_seg_cells [simp]: "length (seg_cells g) = seg_len g"
  by (cases g) simp_all

lemma render_replicate_Free [simp]: "render (replicate n Free) = replicate n 0"
  by (induction n) simp_all

lemma parse_render: "list_all seg_ok segs \<Longrightarrow> parse_segs (render segs) = segs"
proof (induction segs)
  case Nil
  then show ?case by simp
next
  case (Cons g segs)
  show ?case
  proof (cases g)
    case Free
    with Cons show ?thesis by simp
  next
    case (Used n)
    with Cons.prems have n: "0 < n" "n < 2 ^ 31" by (simp_all add: seg_ok_def)
    then have u: "unat (of_nat n :: u32) = n" by (simp add: unat_of_nat_small)
    then have "(of_nat n :: u32) \<noteq> 0" using n by (metis less_irrefl unat_0)
    with Used n u Cons show ?thesis by (cases n) simp_all
  qed
qed

lemma wf_table_render: "list_all seg_ok segs \<Longrightarrow> wf_table (render segs)"
  by (simp add: wf_table_def parse_render)

lemma wf_tableE:
  assumes "wf_table tbl"
  obtains segs where "list_all seg_ok segs" "tbl = render segs" "parse_segs tbl = segs"
  using assms by (metis wf_table_def)

lemma wf_table_zero: "wf_table (replicate n 0)"
  using wf_table_render [of "replicate n Free"] by (simp add: list_all_iff seg_ok_def)

lemma used_cell_nonzero:
  assumes "0 < n" and "n < 2 ^ 31"
  shows "(of_nat n :: u32) \<noteq> 0"
proof
  assume "(of_nat n :: u32) = 0"
  moreover have "unat (of_nat n :: u32) = n"
    using assms(2) by (intro unat_of_nat_small) simp
  ultimately show False using assms(1) by simp
qed

lemma zero_run_append: "zero_run (xs @ ys) (length xs) n = zero_run ys 0 n"
proof -
  have "(\<forall>i. length xs \<le> i \<and> i < length xs + n \<longrightarrow> (xs @ ys) ! i = 0) \<longleftrightarrow>
          (\<forall>i. i < n \<longrightarrow> ys ! i = 0)"
    by (metis add_diff_cancel_left' le_add1 le_add_diff_inverse nat_add_left_cancel_less
        nth_append_length_plus)
  then show ?thesis by (simp add: zero_run_def)
qed

lemma render_zero_cell:
  "list_all seg_ok segs \<Longrightarrow> off < length (render segs) \<Longrightarrow> render segs ! off = 0 \<Longrightarrow>
     \<exists>a c. segs = a @ Free # c \<and> length (render a) = off"
proof (induction segs arbitrary: off)
  case Nil
  then show ?case by simp
next
  case (Cons g segs)
  have ok: "list_all seg_ok segs" "seg_ok g" using Cons.prems by simp_all
  show ?case
  proof (cases "off < seg_len g")
    case True
    have "g = Free"
    proof (cases g)
      case (Used n)
      with True ok(2) Cons.prems(3) show ?thesis
        by (simp add: nth_append seg_ok_def used_cell_nonzero)
    qed simp
    with True show ?thesis by (intro exI [of _ "[]"] exI [of _ segs]) simp
  next
    case False
    with Cons.prems have "off - seg_len g < length (render segs)"
      "render segs ! (off - seg_len g) = 0"
      by (simp_all add: nth_append)
    with Cons.IH ok obtain a c where "segs = a @ Free # c" "length (render a) = off - seg_len g"
      by blast
    with False show ?thesis by (intro exI [of _ "g # a"] exI [of _ c]) simp
  qed
qed

lemma render_zero_prefix:
  "list_all seg_ok segs \<Longrightarrow> zero_run (render segs) 0 n \<Longrightarrow> \<exists>c. segs = replicate n Free @ c"
proof (induction n arbitrary: segs)
  case 0
  then show ?case by simp
next
  case (Suc n)
  have first: "0 < length (render segs)" "render segs ! 0 = 0"
    using Suc.prems(2) by (simp_all add: zero_run_Suc)
  then obtain a c where ac: "segs = a @ Free # c" "length (render a) = 0"
    using render_zero_cell [OF Suc.prems(1)] by blast
  moreover have "a = []"
  proof (cases a)
    case (Cons g a')
    with ac Suc.prems(1) show ?thesis by (cases g) (auto simp: seg_ok_def)
  qed simp
  ultimately have segs: "segs = Free # c" by simp
  have "zero_run ([0] @ render c) (length [0 :: u32]) n"
    using Suc.prems(2) segs by (simp add: zero_run_Suc)
  then have "zero_run (render c) 0 n" by (simp only: zero_run_append)
  with Suc.IH [of c] Suc.prems(1) segs show ?case by auto
qed

lemma render_zero_run:
  assumes "list_all seg_ok segs" and "zero_run (render segs) off n" and "0 < n"
  shows "\<exists>a c. segs = a @ replicate n Free @ c \<and> length (render a) = off"
proof -
  have "off < length (render segs)" "render segs ! off = 0"
    using assms(2,3) by (auto simp: zero_run_def)
  then obtain a c where ac: "segs = a @ Free # c" "length (render a) = off"
    using render_zero_cell [OF assms(1)] by blast
  then have "zero_run (render (Free # c)) 0 n"
    using assms(2) zero_run_append [of "render a" "render (Free # c)" n] by simp
  moreover have "list_all seg_ok (Free # c)" using assms(1) ac by simp
  ultimately obtain d where "Free # c = replicate n Free @ d"
    using render_zero_prefix by blast
  with ac show ?thesis by auto
qed

lemma zero_run_render:
  "zero_run (render (a @ replicate n Free @ c)) (length (render a)) n"
  by (simp add: zero_run_append) (simp add: zero_run_def nth_append)

section \<open>Allocation and release on the abstract view\<close>

definition heap_inv :: "heap \<Rightarrow> bool" where
  "heap_inv s \<longleftrightarrow>
     (\<forall>b. length (memmap s b) = unat (memtblsize b) \<and>
          (memrdy s b \<noteq> 0 \<longrightarrow> wf_table (memmap s b)))"

definition ready :: "sram \<Rightarrow> heap \<Rightarrow> heap" where
  "ready b s = (if memrdy s b = 0 then my_mem_init b s else s)"

lemma heap_inv_length: "heap_inv s \<Longrightarrow> length (memmap s b) = unat (memtblsize b)"
  by (simp add: heap_inv_def)

lemma ready_inv:
  assumes "heap_inv s"
  shows "heap_inv (ready b s)" and "memrdy (ready b s) b \<noteq> 0" and "wf_table (memmap (ready b s) b)"
  using assms by (auto simp: heap_inv_def ready_def my_mem_init_def wf_table_zero)

lemma heap_inv_update:
  assumes "heap_inv s" and "list_all seg_ok segs" and "length (render segs) = unat (memtblsize b)"
  shows "heap_inv (s\<lparr>memmap := (memmap s)(b := render segs)\<rparr>)"
  using assms by (simp add: heap_inv_def wf_table_render)

lemma seg_ok_mark:
  assumes "zero_run tbl off n" and "length tbl = unat (memtblsize b)" and "0 < n"
  shows "seg_ok (Used n)" and "off * 64 + n * 64 \<le> unat (memsize b)"
proof -
  have "off + n \<le> unat (memtblsize b)" using assms by (simp add: zero_run_def)
  then show "seg_ok (Used n)" "off * 64 + n * 64 \<le> unat (memsize b)"
    using memtblsize_bound [of b] assms(3) by (simp_all add: seg_ok_def unat_memsize)
qed

lemma unat_block_offset:
  assumes "off \<le> unat (memtblsize b)"
  shows "unat (of_nat off * 64 :: u32) = off * 64"
proof -
  have "off * 64 < 2 ^ 32" using assms memtblsize_bound [of b] by simp
  then have "unat (of_nat (off * 64) :: u32) = off * 64" using unat_of_nat_small [of "off * 64", where 'a = 32] by simp
  then show ?thesis by simp
qed

text \<open>What a search that succeeds does to the table, and that it fails only when it must.\<close>

lemma malloc_mark:
  assumes inv: "heap_inv s" and sz: "sz \<noteq> 0"
    and scan: "table_scan (memmap (ready b s) b) (nmemb_of b sz) 0 (unat (memtblsize b)) = Some off"
  defines "n \<equiv> unat (nmemb_of b sz)"
  obtains a c where
    "parse_segs (memmap (ready b s) b) = a @ replicate n Free @ c"
    "list_all seg_ok (a @ Used n # c)" "length (render a) = off"
    "off + n \<le> unat (memtblsize b)"
    "arr_fill (memmap (ready b s) b) off n (nmemb_of b sz) = Some (render (a @ Used n # c))"
proof -
  define tbl where "tbl = memmap (ready b s) b"
  have len: "length tbl = unat (memtblsize b)"
    using ready_inv(1) [OF inv] by (simp add: tbl_def heap_inv_length)
  obtain segs where segs: "list_all seg_ok segs" "tbl = render segs" "parse_segs tbl = segs"
    using ready_inv(3) [OF inv, of b] by (auto simp: tbl_def elim: wf_tableE)
  have n: "0 < n" unfolding n_def using sz by (rule nmemb_of_pos)
  have run: "zero_run tbl off n"
    using table_scan_Some [OF scan [folded tbl_def]] run_at_top [of tbl] len n
    by (simp add: n_def)
  then obtain a c where ac: "segs = a @ replicate n Free @ c" "length (render a) = off"
    using render_zero_run [OF segs(1)] segs(2) n by blast
  have ok: "seg_ok (Used n)" using seg_ok_mark(1) [OF run len n] .
  have fill: "arr_fill tbl off n (nmemb_of b sz) = Some (render (a @ Used n # c))"
    using arr_fill_Some [of off n tbl "nmemb_of b sz"] run segs(2) ac
    by (simp add: zero_run_def n_def)
  show thesis
    by (rule that [of a c]) (use segs ac ok fill run len in \<open>auto simp: tbl_def zero_run_def\<close>)
qed

lemma malloc_none:
  assumes "heap_inv s" and "sz \<noteq> 0"
    and "table_scan (memmap (ready b s) b) (nmemb_of b sz) 0 (unat (memtblsize b)) = None"
  shows "\<not> zero_run (memmap (ready b s) b) r (unat (nmemb_of b sz))"
proof -
  define tbl where "tbl = memmap (ready b s) b"
  have len: "length tbl = unat (memtblsize b)"
    using ready_inv(1) [OF assms(1)] by (simp add: tbl_def heap_inv_length)
  have n: "0 < unat (nmemb_of b sz)" using assms(2) by (rule nmemb_of_pos)
  show ?thesis
  proof (cases "r < length tbl")
    case True
    with assms(3) len n run_at_top [of tbl] show ?thesis
      by (intro table_scan_None [of _ _ 0 "length tbl"]) (simp_all add: tbl_def)
  next
    case False
    with n show ?thesis by (simp add: zero_run_def tbl_def)
  qed
qed

lemma my_mem_malloc_0: "my_mem_malloc b 0 s = Some (0xFFFFFFFF, ready b s)"
  by (simp add: my_mem_malloc_def ready_def)

lemma my_mem_malloc_unfold:
  "sz \<noteq> 0 \<Longrightarrow> length (memmap (ready b s) b) = unat (memtblsize b) \<Longrightarrow> my_mem_malloc b sz s =
     (case table_scan (memmap (ready b s) b) (nmemb_of b sz) 0 (unat (memtblsize b)) of
        None \<Rightarrow> Some (0xFFFFFFFF, ready b s)
      | Some off \<Rightarrow>
          map_option (\<lambda>tbl. (of_nat off * 64, (ready b s)\<lparr>memmap := (memmap (ready b s))(b := tbl)\<rparr>))
            (arr_fill (memmap (ready b s) b) off (unat (nmemb_of b sz)) (nmemb_of b sz)))"
  by (simp add: my_mem_malloc_def malloc_scan_table ready_def [symmetric] Let_def split: option.splits)

text \<open>Release of a live allocation: its segment becomes free blocks, nothing else changes.\<close>

lemma sint_used_cell: "n < 2 ^ 31 \<Longrightarrow> nat (sint (of_nat n :: u32)) = n"
  by (simp add: signed_of_nat signed_take_bit_int_eq_self)

lemma my_mem_free_live:
  assumes inv: "heap_inv s" and rdy: "memrdy s b \<noteq> 0"
    and segs: "parse_segs (memmap s b) = a @ Used n # c"
    and off: "unat offset div 64 = length (render a)"
  shows "my_mem_free b offset s =
           Some (0, s\<lparr>memmap := (memmap s)(b := render (a @ replicate n Free @ c))\<rparr>)"
    and "list_all seg_ok (a @ replicate n Free @ c)"
proof -
  have len: "length (memmap s b) = unat (memtblsize b)" using inv by (rule heap_inv_length)
  have wf: "list_all seg_ok (a @ Used n # c)" "memmap s b = render (a @ Used n # c)"
    using inv rdy segs by (auto simp: heap_inv_def wf_table_def)
  have n: "0 < n" "n < 2 ^ 31" using wf(1) by (simp_all add: seg_ok_def)
  have idx: "length (render a) < unat (memtblsize b)" "length (render a) + n \<le> unat (memtblsize b)"
    using len wf(2) n by simp_all
  have "unat offset < unat (memtblsize b) * 64"
    using idx(1) off by (simp add: div_less_iff_less_mult [symmetric])
  then have lt: "offset < memsize b" by (simp add: word_less_nat_alt unat_memsize)
  have index: "unat (offset div 64) = length (render a)" using off by (simp add: unat_div_distrib)
  have cell: "render (a @ Used n # c) ! length (render a) = of_nat n"
    using n by (simp add: nth_append)
  have get: "arr_get (memmap s b) (length (render a)) = Some (of_nat n)"
    using idx(1) len cell wf(2) by (simp add: arr_get_def)
  have fill: "arr_fill (memmap s b) (length (render a)) n 0 =
                Some (render (a @ replicate n Free @ c))"
    using arr_fill_Some [of "length (render a)" n "memmap s b" 0] idx(2) len wf(2) by simp
  show "my_mem_free b offset s =
          Some (0, s\<lparr>memmap := (memmap s)(b := render (a @ replicate n Free @ c))\<rparr>)"
    using rdy lt by (simp add: my_mem_free_def index get fill sint_used_cell [OF n(2)])
  show "list_all seg_ok (a @ replicate n Free @ c)"
    using wf(1) by (simp add: list_all_iff seg_ok_def)
qed

section \<open>Live blocks\<close>

fun allocs_from :: "nat \<Rightarrow> seg list \<Rightarrow> (nat \<times> nat) list" where
  "allocs_from i [] = []"
| "allocs_from i (Free # segs) = allocs_from (i + 1) segs"
| "allocs_from i (Used n # segs) = (i, n) # allocs_from (i + n) segs"

definition live :: "sram \<Rightarrow> heap \<Rightarrow> (nat \<times> nat) set" where
  "live b s = (if memrdy s b = 0 then {} else set (allocs_from 0 (parse_segs (memmap s b))))"

lemma allocs_from_append:
  "allocs_from i (xs @ ys) = allocs_from i xs @ allocs_from (i + length (render xs)) ys"
  by (induction i xs rule: allocs_from.induct) (simp_all add: add.assoc)

lemma allocs_from_replicate [simp]: "allocs_from i (replicate n Free) = []"
  by (induction n arbitrary: i) simp_all

lemma split_at_used:
  "(\<exists>a c. g # segs = a @ Used n # c \<and> p = i + length (render a)) \<longleftrightarrow>
     (g = Used n \<and> p = i) \<or>
     (\<exists>a c. segs = a @ Used n # c \<and> p = i + seg_len g + length (render a))"
  (is "?l \<longleftrightarrow> ?r")
proof
  assume ?l
  then obtain a c where ac: "g # segs = a @ Used n # c" "p = i + length (render a)" by blast
  then show ?r by (cases a) auto
next
  assume ?r
  then show ?l
  proof
    assume "g = Used n \<and> p = i"
    then show ?l by (intro exI [of _ "[]"] exI [of _ segs]) simp
  next
    assume "\<exists>a c. segs = a @ Used n # c \<and> p = i + seg_len g + length (render a)"
    then obtain a c where "segs = a @ Used n # c" "p = i + seg_len g + length (render a)" by blast
    then show ?l by (intro exI [of _ "g # a"] exI [of _ c]) simp
  qed
qed

lemma allocs_from_mem:
  "(p, n) \<in> set (allocs_from i segs) \<longleftrightarrow>
     (\<exists>a c. segs = a @ Used n # c \<and> p = i + length (render a))"
proof (induction i segs rule: allocs_from.induct)
  case (1 i)
  then show ?case by simp
next
  case (2 i segs)
  then show ?case using split_at_used [of Free segs n p i] by simp
next
  case (3 i m segs)
  then show ?case using split_at_used [of "Used m" segs n p i] by auto
qed

lemma allocs_from_bounds:
  "(p, n) \<in> set (allocs_from i segs) \<Longrightarrow> i \<le> p \<and> p + n \<le> i + length (render segs)"
  by (auto simp: allocs_from_mem)

lemma live_render:
  "memrdy s b \<noteq> 0 \<Longrightarrow> memmap s b = render segs \<Longrightarrow> list_all seg_ok segs \<Longrightarrow>
     live b s = set (allocs_from 0 segs)"
  by (simp add: live_def parse_render)

lemma live_ready: "live b (ready b s) = live b s"
proof (cases "memrdy s b = 0")
  case True
  have "list_all seg_ok (replicate k Free)" for k by (simp add: list_all_iff seg_ok_def)
  with True show ?thesis
    using live_render [of "ready b s" b "replicate (unat (memtblsize b)) Free"]
    by (simp add: ready_def my_mem_init_def live_def)
qed (simp add: ready_def)

lemma live_ram [simp]: "live b (s\<lparr>ram := m\<rparr>) = live b s"
  by (simp add: live_def)

lemma heap_inv_ram [simp]: "heap_inv (s\<lparr>ram := m\<rparr>) = heap_inv s"
  by (simp add: heap_inv_def)

text \<open>The two operations as state transformers, for the allocator contract.\<close>

definition heap_alloc :: "sram \<Rightarrow> u32 \<Rightarrow> heap \<Rightarrow> heap" where
  "heap_alloc b sz s = (case my_mem_malloc b sz s of None \<Rightarrow> s | Some (_, s') \<Rightarrow> s')"

definition heap_release :: "sram \<Rightarrow> nat \<Rightarrow> heap \<Rightarrow> heap" where
  "heap_release b p s =
     (case my_mem_free b (of_nat p * memblksize b) s of None \<Rightarrow> s | Some (_, s') \<Rightarrow> s')"

lemma malloc_cases:
  assumes inv: "heap_inv s"
  obtains (fail) "my_mem_malloc b sz s = Some (0xFFFFFFFF, ready b s)"
    "sz = 0 \<or> (\<forall>r. \<not> zero_run (memmap (ready b s) b) r (unat (nmemb_of b sz)))"
  | (found) a c n where "n = unat (nmemb_of b sz)" "sz \<noteq> 0"
    "parse_segs (memmap (ready b s) b) = a @ replicate n Free @ c"
    "memmap (ready b s) b = render (a @ replicate n Free @ c)"
    "list_all seg_ok (a @ Used n # c)" "length (render a) + n \<le> unat (memtblsize b)"
    "my_mem_malloc b sz s =
       Some (of_nat (length (render a)) * 64,
             (ready b s)\<lparr>memmap := (memmap (ready b s))(b := render (a @ Used n # c))\<rparr>)"
proof (cases "sz = 0")
  case True
  then show thesis by (intro fail) (simp_all add: my_mem_malloc_0)
next
  case sz: False
  note unfold = my_mem_malloc_unfold [OF sz heap_inv_length [OF ready_inv(1) [OF inv]]]
  show thesis
  proof (cases "table_scan (memmap (ready b s) b) (nmemb_of b sz) 0 (unat (memtblsize b))")
    case None
    with malloc_none [OF inv sz None] sz show thesis
      by (intro fail) (simp_all add: unfold)
  next
    case (Some off)
    obtain a c where ac:
      "parse_segs (memmap (ready b s) b) = a @ replicate (unat (nmemb_of b sz)) Free @ c"
      "list_all seg_ok (a @ Used (unat (nmemb_of b sz)) # c)" "length (render a) = off"
      "off + unat (nmemb_of b sz) \<le> unat (memtblsize b)"
      "arr_fill (memmap (ready b s) b) off (unat (nmemb_of b sz)) (nmemb_of b sz)
         = Some (render (a @ Used (unat (nmemb_of b sz)) # c))"
      using malloc_mark [OF inv sz Some] by blast
    have "memmap (ready b s) b = render (a @ replicate (unat (nmemb_of b sz)) Free @ c)"
      using ready_inv(3) [OF inv, of b] ac(1) by (metis wf_table_def)
    with sz Some ac show thesis
      by (intro found [of "unat (nmemb_of b sz)" a c])
        (simp_all add: unfold)
  qed
qed

lemma heap_alloc_inv:
  assumes "heap_inv s"
  shows "heap_inv (heap_alloc b sz s)"
  using assms
proof (cases rule: malloc_cases [where b = b and sz = sz])
  case fail
  with ready_inv(1) [OF assms] show ?thesis by (simp add: heap_alloc_def)
next
  case (found a c n)
  have "length (render (a @ Used n # c)) = length (memmap (ready b s) b)"
    unfolding found(4) by simp
  then have "length (render (a @ Used n # c)) = unat (memtblsize b)"
    using ready_inv(1) [OF assms] by (simp add: heap_inv_length)
  from heap_inv_update [OF ready_inv(1) [OF assms] found(5) this] found(7)
  show ?thesis by (simp add: heap_alloc_def)
qed

lemma malloc_live:
  assumes inv: "heap_inv s" and tbl: "memmap (ready b s) b = render (a @ replicate n Free @ c)"
    and ok: "list_all seg_ok (a @ Used n # c)"
  shows "live b ((ready b s)\<lparr>memmap := (memmap (ready b s))(b := render (a @ Used n # c))\<rparr>)
           = insert (length (render a), n) (live b s)"
    and "\<forall>y\<in>live b s. blocks_apart (length (render a), n) y"
proof -
  have free: "list_all seg_ok (a @ replicate n Free @ c)"
    using ok by (simp add: list_all_iff seg_ok_def)
  have old: "live b s = set (allocs_from 0 a) \<union> set (allocs_from (length (render a) + n) c)"
    using live_render [OF ready_inv(2) [OF inv, of b] tbl free]
    by (simp add: live_ready allocs_from_append)
  show "live b ((ready b s)\<lparr>memmap := (memmap (ready b s))(b := render (a @ Used n # c))\<rparr>)
          = insert (length (render a), n) (live b s)"
    using live_render [OF _ _ ok, of "(ready b s)\<lparr>memmap := (memmap (ready b s))
        (b := render (a @ Used n # c))\<rparr>" b] ready_inv(2) [OF inv, of b]
    unfolding old by (simp add: allocs_from_append)
  show "\<forall>y\<in>live b s. blocks_apart (length (render a), n) y"
    unfolding old by (auto simp: blocks_apart_def dest: allocs_from_bounds)
qed

lemma heap_alloc_live:
  assumes "heap_inv s"
  shows "live b (heap_alloc b sz s) = live b s \<or>
    (\<exists>p n. live b (heap_alloc b sz s) = insert (p, n) (live b s) \<and>
           p + n \<le> unat (memtblsize b) \<and> (\<forall>y\<in>live b s. blocks_apart (p, n) y))"
  using assms
proof (cases rule: malloc_cases [where b = b and sz = sz])
  case fail
  then show ?thesis by (simp add: heap_alloc_def live_ready)
next
  case (found a c n)
  from malloc_live [OF assms found(4,5)] found(6,7) show ?thesis
    unfolding heap_alloc_def by auto
qed

lemma live_used:
  assumes "heap_inv s" and "(p, n) \<in> live b s"
  obtains a c where "memrdy s b \<noteq> 0" "parse_segs (memmap s b) = a @ Used n # c"
    "memmap s b = render (a @ Used n # c)" "list_all seg_ok (a @ Used n # c)"
    "length (render a) = p" "p + n \<le> unat (memtblsize b)" "0 < n"
proof -
  have rdy: "memrdy s b \<noteq> 0" and mem: "(p, n) \<in> set (allocs_from 0 (parse_segs (memmap s b)))"
    using assms(2) by (auto simp: live_def split: if_splits)
  then obtain a c where ac: "parse_segs (memmap s b) = a @ Used n # c" "p = length (render a)"
    by (auto simp: allocs_from_mem)
  moreover have wf: "list_all seg_ok (a @ Used n # c)" "memmap s b = render (a @ Used n # c)"
    using assms(1) rdy ac by (auto simp: heap_inv_def wf_table_def)
  moreover have "p + n \<le> unat (memtblsize b)"
    using heap_inv_length [OF assms(1), of b] ac(2) unfolding wf(2) by simp
  ultimately show thesis using rdy by (intro that) (auto simp: seg_ok_def)
qed

lemma heap_release_live_eq:
  assumes inv: "heap_inv s" and mem: "(p, n) \<in> live b s"
    and off: "unat offset div 64 = p"
  obtains s' where "my_mem_free b offset s = Some (0, s')" "heap_inv s'"
    "live b s' = live b s - {(p, n)}" "ram s' = ram s" "membase s' = membase s"
    "memrdy s' = memrdy s" "\<forall>b'. b' \<noteq> b \<longrightarrow> memmap s' b' = memmap s b'"
proof -
  obtain a c where ac: "memrdy s b \<noteq> 0" "parse_segs (memmap s b) = a @ Used n # c"
    "memmap s b = render (a @ Used n # c)" "list_all seg_ok (a @ Used n # c)"
    "length (render a) = p" "p + n \<le> unat (memtblsize b)" "0 < n"
    using live_used [OF inv mem] .
  let ?s' = "s\<lparr>memmap := (memmap s)(b := render (a @ replicate n Free @ c))\<rparr>"
  have off': "unat offset div 64 = length (render a)" using off ac(5) by simp
  note free = my_mem_free_live [OF inv ac(1,2) off']
  have inv': "heap_inv ?s'"
    using heap_inv_length [OF inv, of b] ac(3)
    by (intro heap_inv_update [OF inv free(2)]) simp
  have "live b ?s' = set (allocs_from 0 a) \<union> set (allocs_from (p + n) c)"
    using live_render [of ?s' b "a @ replicate n Free @ c"] ac(1,5) free(2)
    by (simp add: allocs_from_append)
  moreover have "live b s = insert (p, n) (set (allocs_from 0 a) \<union> set (allocs_from (p + n) c))"
    using live_render [OF ac(1,3,4)] ac(5) by (simp add: allocs_from_append)
  moreover have "(p, n) \<notin> set (allocs_from 0 a) \<union> set (allocs_from (p + n) c)"
    using ac(5,7) by (auto dest!: allocs_from_bounds)
  ultimately have "live b ?s' = live b s - {(p, n)}" by simp
  with free(1) inv' show thesis by (intro that [of ?s']) simp_all
qed

lemma heap_release_eq:
  assumes "heap_inv s" and "(p, n) \<in> live b s"
  shows "heap_inv (heap_release b p s)" and "live b (heap_release b p s) = live b s - {(p, n)}"
proof -
  have "p + n \<le> unat (memtblsize b)" using live_used [OF assms] by blast
  then have "unat (of_nat p * 64 :: u32) = p * 64" by (intro unat_block_offset [where b = b]) simp
  then have "unat (of_nat p * 64 :: u32) div 64 = p" by simp
  then obtain s' where "my_mem_free b (of_nat p * 64) s = Some (0, s')" "heap_inv s'"
    "live b s' = live b s - {(p, n)}"
    using heap_release_live_eq [OF assms] by metis
  then show "heap_inv (heap_release b p s)" "live b (heap_release b p s) = live b s - {(p, n)}"
    by (simp_all add: heap_release_def)
qed

interpretation pool: block_allocator heap_inv "live b" "unat (memtblsize b)" "heap_alloc b"
  "heap_release b" for b
  by unfold_locales (rule heap_alloc_inv heap_alloc_live heap_release_eq, assumption+)+

section \<open>Copying\<close>

lemma my_mem_copy_frame:
  "(\<And>j. j < n \<Longrightarrow> x \<noteq> d + of_nat j) \<Longrightarrow> my_mem_copy m d p n x = m x"
proof (induction n arbitrary: m d p)
  case 0
  then show ?case by simp
next
  case (Suc n)
  have "x \<noteq> d + 1 + of_nat j" if "j < n" for j
    using Suc.prems [of "Suc j"] that by (simp add: add.assoc)
  moreover have "x \<noteq> d" using Suc.prems [of 0] by simp
  ultimately show ?case using Suc.IH [of "d + 1"] by simp
qed

lemma my_mem_copy_nth:
  "i < n \<Longrightarrow> n \<le> 2 ^ 32 \<Longrightarrow> (\<And>j. j < i \<Longrightarrow> d + of_nat j \<noteq> p + of_nat i) \<Longrightarrow>
     my_mem_copy m d p n (d + of_nat i) = m (p + of_nat i)"
proof (induction n arbitrary: m d p i)
  case 0
  then show ?case by simp
next
  case (Suc n)
  show ?case
  proof (cases i)
    case 0
    have "d \<noteq> d + 1 + of_nat j" if "j < n" for j
      using of_nat_add_neq_u32 [of 0 "Suc n" "Suc j" d] that Suc.prems(2)
      by (simp add: add.assoc)
    then have "my_mem_copy (m(d := m p)) (d + 1) (p + 1) n d = (m(d := m p)) d"
      by (rule my_mem_copy_frame)
    with 0 show ?thesis by simp
  next
    case (Suc k)
    have "d + 1 + of_nat j \<noteq> p + 1 + of_nat k" if "j < k" for j
      using Suc.prems(3) [of "Suc j"] that Suc by (simp add: add.assoc)
    then have "my_mem_copy (m(d := m p)) (d + 1) (p + 1) n (d + 1 + of_nat k) =
                 (m(d := m p)) (p + 1 + of_nat k)"
      using Suc.prems(1,2) Suc by (intro Suc.IH) auto
    moreover have "p + 1 + of_nat k \<noteq> d"
      using Suc.prems(3) [of 0] Suc by (simp add: add.assoc)
    ultimately show ?thesis using Suc by (simp add: add.assoc)
  qed
qed

text \<open>Addresses of a pool whose end does not pass the top of the address space.\<close>

definition pool_placed :: "sram \<Rightarrow> heap \<Rightarrow> bool" where
  "pool_placed b s \<longleftrightarrow> membase s b \<noteq> 0 \<and> unat (membase s b) + unat (memsize b) \<le> 2 ^ 32"

lemma unat_pool_addr:
  "pool_placed b s \<Longrightarrow> k < unat (memsize b) \<Longrightarrow>
     unat (membase s b + of_nat k) = unat (membase s b) + k"
  by (simp add: pool_placed_def unat_word_ariths unat_of_nat)

lemma pool_addr_neq:
  assumes "pool_placed b s" and "k < unat (memsize b)" and "j < unat (memsize b)" and "j \<noteq> k"
  shows "membase s b + of_nat k \<noteq> membase s b + of_nat j"
  using unat_pool_addr [OF assms(1,2)] unat_pool_addr [OF assms(1,3)] assms(4) by auto

lemma pool_block_neq:
  assumes "pool_placed b s" and "blocks_apart (p, n) (r, m)"
    and "i < n * 64" and "j < m * 64"
    and "p + n \<le> unat (memtblsize b)" and "r + m \<le> unat (memtblsize b)"
  shows "membase s b + of_nat (p * 64) + of_nat i \<noteq> membase s b + of_nat (r * 64) + of_nat j"
proof -
  have "p * 64 + i < unat (memsize b)" "r * 64 + j < unat (memsize b)" "r * 64 + j \<noteq> p * 64 + i"
    using assms(2-6) by (auto simp: blocks_apart_def unat_memsize)
  from pool_addr_neq [OF assms(1) this] show ?thesis by (simp add: add.assoc)
qed

lemma pool_addr_nonzero:
  assumes "pool_placed b s" and "k < unat (memsize b)"
  shows "membase s b + of_nat k \<noteq> 0"
proof -
  have "0 < unat (membase s b)" using assms(1) by (simp add: pool_placed_def unat_gt_0)
  then have "0 < unat (membase s b + of_nat k)" using unat_pool_addr [OF assms] by simp
  then show ?thesis by auto
qed

section \<open>A block that was handed out\<close>

lemma block_offset_valid:
  assumes "k + n \<le> unat (memtblsize b)"
  shows "of_nat k * 64 \<noteq> (0xFFFFFFFF :: u32)"
proof
  assume "of_nat k * 64 = (0xFFFFFFFF :: u32)"
  moreover have "unat (of_nat k * 64 :: u32) = k * 64" using assms by (intro unat_block_offset [of _ b]) simp
  ultimately have "k * 64 = 4294967295" by simp
  then show False by presburger
qed

text \<open>Where it lies, what it is apart from, and its release, whatever was stored to the memory since.\<close>

lemma mymalloc_block:
  assumes inv: "heap_inv s" and rdy: "memrdy s b \<noteq> 0" and placed: "pool_placed b s"
    and alloc: "mymalloc b sz s = Some (p, s')" and ok: "p \<noteq> 0"
  obtains k n where "n = unat (nmemb_of b sz)" "p = membase s b + of_nat (k * 64)" "unat p = unat (membase s b) + k * 64"
    "k + n \<le> unat (memtblsize b)" "unat sz \<le> n * 64" "0 < n" "ram s' = ram s" "membase s' = membase s"
    "live b s' = insert (k, n) (live b s)" "\<forall>y\<in>live b s. blocks_apart (k, n) y"
    "\<And>m. myfree b p (s'\<lparr>ram := m\<rparr>) = Some (s\<lparr>ram := m\<rparr>)"
proof -
  have r: "ready b s = s" using rdy by (simp add: ready_def)
  from inv show thesis
  proof (cases rule: malloc_cases [where b = b and sz = sz])
    case fail
    with alloc ok show ?thesis by (simp add: mymalloc_def)
  next
    case (found a c n)
    let ?k = "length (render a)"
    let ?s' = "s\<lparr>memmap := (memmap s)(b := render (a @ Used n # c))\<rparr>"
    have n: "0 < n" using found(5) by (simp add: seg_ok_def)
    have uoff: "unat (of_nat ?k * 64 :: u32) = ?k * 64"
      using found(6) by (intro unat_block_offset [of _ b]) simp
    have ne: "of_nat ?k * 64 \<noteq> (0xFFFFFFFF :: u32)" by (rule block_offset_valid [OF found(6)])
    have lt: "?k * 64 < unat (memsize b)" using found(6) n unfolding unat_memsize by linarith
    have p: "p = membase s b + of_nat (?k * 64)" and s': "s' = ?s'"
      using alloc ne by (simp_all add: mymalloc_def found(7) r)
    have "length (render (a @ Used n # c)) = unat (memtblsize b)"
      using arg_cong [OF found(4), of length] heap_inv_length [OF inv, of b] by (simp add: r)
    then have inv': "heap_inv ?s'" by (intro heap_inv_update inv found(5)) simp
    have diff: "p - membase s b = of_nat ?k * 64" by (simp add: p)
    have tbl: "(memmap s)(b := render (a @ replicate n Free @ c)) = memmap s"
      using found(4) by (metis fun_upd_triv r)
    have free: "myfree b p (s'\<lparr>ram := m\<rparr>) = Some (s\<lparr>ram := m\<rparr>)" for m
    proof -
      have "my_mem_free b (of_nat ?k * 64) (?s'\<lparr>ram := m\<rparr>) =
          Some (0, (?s'\<lparr>ram := m\<rparr>)\<lparr>memmap := (memmap (?s'\<lparr>ram := m\<rparr>))(b := render (a @ replicate n Free @ c))\<rparr>)"
        using uoff rdy inv' by (intro my_mem_free_live) (simp_all add: parse_render [OF found(5), simplified])
      then show ?thesis using ok tbl by (simp add: myfree_def s' diff)
    qed
    have "unat sz \<le> n * 64" using found(1) by (simp add: unat_nmemb_of)
    moreover have "unat p = unat (membase s b) + ?k * 64" unfolding p using placed lt by (rule unat_pool_addr)
    moreover have "live b s' = insert (?k, n) (live b s)" "\<forall>y\<in>live b s. blocks_apart (?k, n) y"
      using malloc_live [OF inv found(4,5)] by (simp_all add: s' r)
    ultimately show ?thesis using that [of n ?k] found(1,6) p n free s' by simp
  qed
qed

lemma myfree_live:
  assumes inv: "heap_inv s" and kn: "(k, n) \<in> live b s" and placed: "pool_placed b s"
  obtains t where "myfree b (membase s b + of_nat (k * 64)) s = Some t" "heap_inv t" "live b t = live b s - {(k, n)}"
    "ram t = ram s" "membase t = membase s" "memrdy t = memrdy s"
proof -
  have kb: "k + n \<le> unat (memtblsize b)" "0 < n" using live_used [OF inv kn] by metis+
  then have lt: "k * 64 < unat (memsize b)" unfolding unat_memsize by linarith
  have "unat (of_nat (k * 64) :: u32) = k * 64" using unat_block_offset [of k b] kb(1) by simp
  then have "unat (of_nat (k * 64) :: u32) div 64 = k" by simp
  from heap_release_live_eq [OF inv kn this] obtain t where "my_mem_free b (of_nat (k * 64)) s = Some (0, t)" "heap_inv t"
    "live b t = live b s - {(k, n)}" "ram t = ram s" "membase t = membase s" "memrdy t = memrdy s" by metis
  then show thesis using that [of t] pool_addr_nonzero [OF placed lt] by (simp add: myfree_def)
qed

lemma mymalloc_fails:
  assumes inv: "heap_inv s" and rdy: "memrdy s b \<noteq> 0" and placed: "pool_placed b s"
  shows "\<exists>dzk p. mymalloc b sz s = Some (dzk, p) \<and> (dzk = 0 \<longrightarrow> p = s)"
proof -
  have r: "ready b s = s" using rdy by (simp add: ready_def)
  from inv show ?thesis
  proof (cases rule: malloc_cases [where b = b and sz = sz])
    case fail
    then show ?thesis by (simp add: mymalloc_def r)
  next
    case (found a c n)
    have "0 < n" using found(5) by (simp add: seg_ok_def)
    then have lt: "length (render a) * 64 < unat (memsize b)" using found(6) unfolding unat_memsize by linarith
    have "membase s b + of_nat (length (render a) * 64) \<noteq> 0" using pool_addr_nonzero [OF placed lt] .
    then show ?thesis using block_offset_valid [OF found(6)] by (simp add: mymalloc_def found(7) r)
  qed
qed

section \<open>Blocks a caller owns\<close>

definition heap_ok :: "sram \<Rightarrow> heap \<Rightarrow> bool" where
  "heap_ok b h \<longleftrightarrow> heap_inv h \<and> memrdy h b \<noteq> 0 \<and> pool_placed b h"

lemma heap_ok_ram [simp]: "heap_ok b (h\<lparr>ram := m\<rparr>) = heap_ok b h"
  by (simp add: heap_ok_def heap_inv_def pool_placed_def)

text \<open>The pointer to a block, or the null pointer when there was none.\<close>

fun block_ptr :: "heap \<Rightarrow> sram \<Rightarrow> (nat \<times> nat) option \<Rightarrow> u32" where
  "block_ptr h b None = 0"
| "block_ptr h b (Some (k, n)) = membase h b + of_nat (k * 64)"

lemma block_ptr_cong: "membase h = membase h' \<Longrightarrow> block_ptr h b x = block_ptr h' b x"
  by (cases x) auto

lemma mymalloc_own:
  assumes ok: "heap_ok b h" and m: "mymalloc b sz h = Some (p, h')"
  obtains x where "p = block_ptr h b x" "heap_ok b h'" "membase h' = membase h" "ram h' = ram h"
    "live b h' = set_option x \<union> live b h" "set_option x \<inter> live b h = {}"
proof (cases "p = 0")
  case True
  have "h' = h" using mymalloc_fails [of h b sz] ok m True by (auto simp: heap_ok_def)
  then show thesis using that [of None] True ok by simp
next
  case False
  note inv = ok [unfolded heap_ok_def, THEN conjunct1] ok [unfolded heap_ok_def, THEN conjunct2, THEN conjunct1]
    ok [unfolded heap_ok_def, THEN conjunct2, THEN conjunct2]
  obtain k n where k: "p = membase h b + of_nat (k * 64)" "ram h' = ram h" "membase h' = membase h"
    "live b h' = insert (k, n) (live b h)" "\<forall>y\<in>live b h. blocks_apart (k, n) y" "0 < n"
    using mymalloc_block [OF inv m False] by metis
  have h': "h' = heap_alloc b sz h" using m by (auto simp: mymalloc_def heap_alloc_def split: option.splits if_splits)
  have r: "ready b h = h" using inv(2) by (simp add: ready_def)
  from inv(1) have "memrdy h' b \<noteq> 0" unfolding h'
    by (cases rule: malloc_cases [where b = b and sz = sz]) (use inv(2) r in \<open>simp_all add: heap_alloc_def\<close>)
  then have "heap_ok b h'" using heap_alloc_inv [OF inv(1), of b sz] inv(3) k(3) h' by (simp add: heap_ok_def pool_placed_def)
  moreover have "(k, n) \<notin> live b h" using k(5,6) by (auto simp: blocks_apart_def)
  ultimately show thesis using that [of "Some (k, n)"] k by simp
qed

lemma myfree_own:
  assumes ok: "heap_ok b h" and x: "set_option x \<subseteq> live b h" and p: "p = block_ptr h b x"
  obtains h' where "myfree b p h = Some h'" "heap_ok b h'" "membase h' = membase h" "ram h' = ram h" "live b h' = live b h - set_option x"
proof (cases x)
  case None
  then show thesis using that [of h] ok p by (simp add: myfree_def)
next
  case (Some kn)
  obtain k n where kn: "kn = (k, n)" by fastforce
  show thesis
    by (rule myfree_live [of h k n b]) (use ok x p Some kn that in \<open>auto simp: heap_ok_def pool_placed_def\<close>)
qed

text \<open>Blocks are given back in any order, also those that could not be had.\<close>

fun myfree_all :: "sram \<Rightarrow> u32 list \<Rightarrow> heap \<Rightarrow> heap option" where
  "myfree_all b [] h = Some h"
| "myfree_all b (p # ps) h = do { h' \<leftarrow> myfree b p h; myfree_all b ps h' }"

lemma myfree_all_own:
  "heap_ok b h \<Longrightarrow> (\<Union>x\<in>set xs. set_option x) \<subseteq> live b h \<Longrightarrow> distinct (filter (\<lambda>x. x \<noteq> None) xs) \<Longrightarrow> ps = map (block_ptr h b) xs \<Longrightarrow>
     \<exists>h'. myfree_all b ps h = Some h' \<and> heap_ok b h' \<and> membase h' = membase h \<and> ram h' = ram h \<and>
       live b h' = live b h - (\<Union>x\<in>set xs. set_option x)"
proof (induction xs arbitrary: h ps)
  case (Cons x xs)
  obtain h1 where h1: "myfree b (block_ptr h b x) h = Some h1" "heap_ok b h1" "membase h1 = membase h" "ram h1 = ram h"
    "live b h1 = live b h - set_option x"
    by (rule myfree_own [of b h x "block_ptr h b x"]) (use Cons.prems in auto)
  have "(\<Union>x\<in>set xs. set_option x) \<subseteq> live b h1" using Cons.prems(2,3) h1(5) by (cases x) auto
  moreover have "distinct (filter (\<lambda>x. x \<noteq> None) xs)" using Cons.prems(3) by (auto split: if_splits)
  moreover have "map (block_ptr h b) xs = map (block_ptr h1 b) xs" using block_ptr_cong [OF h1(3)] by simp
  ultimately obtain h' where "myfree_all b (map (block_ptr h b) xs) h1 = Some h'" "heap_ok b h'" "membase h' = membase h1" "ram h' = ram h1"
    "live b h' = live b h1 - (\<Union>x\<in>set xs. set_option x)"
    using Cons.IH [OF h1(2)] by blast
  then show ?case using h1 Cons.prems(4) by auto
qed simp

lemma two_blocks:
  assumes ok: "heap_ok b s" and m1: "mymalloc b sz1 s = Some (p, h1)" and m2: "mymalloc b sz2 h1 = Some (q, h2)"
  obtains h3 h4 where "myfree b p (h2\<lparr>ram := m\<rparr>) = Some h3" "myfree b q h3 = Some h4" "heap_ok b h4"
    "live b h4 = live b s" "ram h4 = m" "membase h4 = membase s"
proof -
  obtain x where x: "p = block_ptr s b x" "heap_ok b h1" "membase h1 = membase s" "live b h1 = set_option x \<union> live b s"
    "set_option x \<inter> live b s = {}" by (rule mymalloc_own [OF ok m1])
  obtain y where y: "q = block_ptr h1 b y" "heap_ok b h2" "membase h2 = membase h1" "live b h2 = set_option y \<union> live b h1"
    "set_option y \<inter> live b h1 = {}" by (rule mymalloc_own [OF x(2) m2])
  have "\<exists>h'. myfree_all b [p, q] (h2\<lparr>ram := m\<rparr>) = Some h' \<and> heap_ok b h' \<and> membase h' = membase (h2\<lparr>ram := m\<rparr>) \<and> ram h' = ram (h2\<lparr>ram := m\<rparr>) \<and>
      live b h' = live b (h2\<lparr>ram := m\<rparr>) - (\<Union>x\<in>set [x, y]. set_option x)"
  proof (rule myfree_all_own)
    show "distinct (filter (\<lambda>x. x \<noteq> None) [x, y])" using x(4,5) y(4,5) by auto
    show "[p, q] = map (block_ptr (h2\<lparr>ram := m\<rparr>) b) [x, y]"
      using x(1,3) y(1,3) by (simp add: block_ptr_cong [of "h2\<lparr>ram := m\<rparr>" s] block_ptr_cong [of h1 s])
  qed (use x y in auto)
  moreover have "live b h2 - (\<Union>x\<in>set [x, y]. set_option x) = live b s" using x(4,5) y(4,5) by auto
  ultimately show thesis using that x(3) y(3) by (auto split: Option.bind_splits)
qed

lemma three_blocks:
  assumes ok: "heap_ok b s" and m: "mymalloc b sz1 s = Some (p, h1)" "mymalloc b sz2 h1 = Some (q, h2)" "mymalloc b sz3 h2 = Some (r, h3)"
  obtains g1 g2 g3 where "myfree b p (h3\<lparr>ram := m\<rparr>) = Some g1" "myfree b q g1 = Some g2" "myfree b r g2 = Some g3" "heap_ok b g3"
    "live b g3 = live b s" "ram g3 = m" "membase g3 = membase s"
proof -
  obtain x where x: "p = block_ptr s b x" "heap_ok b h1" "membase h1 = membase s" "live b h1 = set_option x \<union> live b s"
    "set_option x \<inter> live b s = {}" by (rule mymalloc_own [OF ok m(1)])
  obtain y where y: "q = block_ptr h1 b y" "heap_ok b h2" "membase h2 = membase h1" "live b h2 = set_option y \<union> live b h1"
    "set_option y \<inter> live b h1 = {}" by (rule mymalloc_own [OF x(2) m(2)])
  obtain z where z: "r = block_ptr h2 b z" "heap_ok b h3" "membase h3 = membase h2" "live b h3 = set_option z \<union> live b h2"
    "set_option z \<inter> live b h2 = {}" by (rule mymalloc_own [OF y(2) m(3)])
  let ?h = "h3\<lparr>ram := m\<rparr>"
  have "\<exists>h'. myfree_all b [p, q, r] ?h = Some h' \<and> heap_ok b h' \<and> membase h' = membase ?h \<and> ram h' = ram ?h \<and>
      live b h' = live b ?h - (\<Union>w\<in>set [x, y, z]. set_option w)"
  proof (rule myfree_all_own)
    have "set_option x \<inter> set_option y = {}" "set_option x \<inter> set_option z = {}" "set_option y \<inter> set_option z = {}"
      using x(4) y(4,5) z(5) by blast+
    then show "distinct (filter (\<lambda>w. w \<noteq> None) [x, y, z])" by (cases x; cases y; cases z; simp)
    have "block_ptr ?h b = block_ptr s b" "block_ptr h1 b = block_ptr s b" "block_ptr h2 b = block_ptr s b"
      by (rule ext, rule block_ptr_cong, simp add: x(3) y(3) z(3))+
    then show "[p, q, r] = map (block_ptr ?h b) [x, y, z]" by (simp only: x(1) y(1) z(1) list.map)
  qed (use x y z in auto)
  moreover have "live b h3 - (\<Union>w\<in>set [x, y, z]. set_option w) = live b s" using x(4,5) y(4,5) z(4,5) by auto
  ultimately show thesis using that x(3) y(3) z(3) by (auto split: Option.bind_splits)
qed

text \<open>\<open>myrealloc\<close> as a request, a copy and a release.\<close>

lemma heap_alloc_mymalloc: "mymalloc b sz s = Some (a, s') \<Longrightarrow> heap_alloc b sz s = s'"
  by (auto simp: mymalloc_def heap_alloc_def split: option.splits if_splits)

lemma mymalloc_block_nonzero:
  assumes "heap_inv s" "memrdy s b \<noteq> 0" "pool_placed b s" "my_mem_malloc b sz s = Some (off, s1)" "off \<noteq> 0xFFFFFFFF"
  shows "membase s1 b + off \<noteq> 0"
  using assms(1)
proof (cases rule: malloc_cases [where b = b and sz = sz])
  case (found a c n)
  have "length (render a) * 64 < unat (memsize b)" using found(5,6) by (simp add: unat_memsize seg_ok_def)
  from pool_addr_nonzero [OF assms(3) this] show ?thesis using assms(2,4) found(7) by (auto simp: ready_def)
qed (use assms(4,5) in simp)

lemma myfree_membase: "myfree b p s = Some t \<Longrightarrow> membase t = membase s"
  by (auto simp: myfree_def my_mem_free_def my_mem_init_def Let_def split: option.splits if_splits)

lemma myrealloc_parts:
  assumes "heap_inv s" "memrdy s b \<noteq> 0" "pool_placed b s" "mymalloc b sz s = Some (a, s1)"
  shows "myrealloc b ptr sz s =
    (if a = 0 then Some (0, s1)
     else map_option (Pair a) (myfree b ptr (s1\<lparr>ram := my_mem_copy (ram s1) a ptr (unat sz)\<rparr>)))"
proof (cases "a = 0")
  case True
  then have "my_mem_malloc b sz s = Some (0xFFFFFFFF, s1)"
    using assms(4) mymalloc_block_nonzero [OF assms(1-3)] by (auto simp: mymalloc_def split: option.splits if_splits)
  then show ?thesis using True by (simp add: myrealloc_def)
next
  case False
  then obtain off where off: "my_mem_malloc b sz s = Some (off, s1)" "off \<noteq> 0xFFFFFFFF" "a = membase s1 b + off"
    using assms(4) by (auto simp: mymalloc_def split: option.splits if_splits)
  then show ?thesis using False myfree_membase by (auto simp: myrealloc_def Let_def split: option.split)
qed

lemma copy_to_block:
  assumes "pool_placed b s" "blocks_apart (k, l) (p, n)" "k + l \<le> unat (memtblsize b)" "p + n \<le> unat (memtblsize b)" "unat sz \<le> l * 64"
  shows "i < unat sz \<Longrightarrow> i < n * 64 \<Longrightarrow>
      my_mem_copy m (membase s b + of_nat (k * 64)) (membase s b + of_nat (p * 64)) (unat (sz :: u32)) (membase s b + of_nat (k * 64) + of_nat i) =
      m (membase s b + of_nat (p * 64) + of_nat i)"
    and "i < n * 64 \<Longrightarrow> my_mem_copy m (membase s b + of_nat (k * 64)) src (unat sz) (membase s b + of_nat (p * 64) + of_nat i) =
      m (membase s b + of_nat (p * 64) + of_nat i)"
proof -
  have neq: "membase s b + of_nat (k * 64) + of_nat j \<noteq> membase s b + of_nat (p * 64) + of_nat i" if "j < unat sz" "i < n * 64" for i j
    using pool_block_neq [OF assms(1,2), of j i] assms(3-5) that by simp
  show "i < unat sz \<Longrightarrow> i < n * 64 \<Longrightarrow>
      my_mem_copy m (membase s b + of_nat (k * 64)) (membase s b + of_nat (p * 64)) (unat sz) (membase s b + of_nat (k * 64) + of_nat i) =
      m (membase s b + of_nat (p * 64) + of_nat i)"
    using unat_u32_less [of sz] neq by (intro my_mem_copy_nth) simp_all
  show "i < n * 64 \<Longrightarrow> my_mem_copy m (membase s b + of_nat (k * 64)) src (unat sz) (membase s b + of_nat (p * 64) + of_nat i) =
      m (membase s b + of_nat (p * 64) + of_nat i)"
    using neq by (intro my_mem_copy_frame) (simp add: eq_commute)
qed

text \<open>The live blocks determine the table.\<close>

lemma render_live:
  "(k, n) \<in> set (allocs_from i segs) \<Longrightarrow> k \<le> i + j \<Longrightarrow> i + j < k + n \<Longrightarrow> render segs ! j = of_nat n"
proof (induction i segs arbitrary: j rule: allocs_from.induct)
  case (2 i segs)
  have "i + 1 \<le> k" using 2(2) by (auto dest: allocs_from_bounds)
  then have "j \<noteq> 0" using 2(3) by simp
  with 2 show ?case by (cases j) simp_all
next
  case (3 i m segs)
  show ?case
  proof (cases "k = i \<and> n = m")
    case True
    then show ?thesis using 3(4) by (simp add: nth_append)
  next
    case False
    then have m: "(k, n) \<in> set (allocs_from (i + m) segs)" using 3(2) by auto
    then have "i + m \<le> k" by (auto dest: allocs_from_bounds)
    then have "m \<le> j" using 3(3) by simp
    then show ?thesis using 3(1) [OF m, of "j - m"] 3(3,4) by (simp add: nth_append)
  qed
qed simp

lemma render_not_live:
  "j < length (render segs) \<Longrightarrow> \<forall>(k, n)\<in>set (allocs_from i segs). \<not> (k \<le> i + j \<and> i + j < k + n) \<Longrightarrow> render segs ! j = 0"
proof (induction i segs arbitrary: j rule: allocs_from.induct)
  case (2 i segs)
  then show ?case by (cases j) auto
next
  case (3 i m segs)
  have "m \<le> j" using 3(3) by auto
  then show ?case using 3(1) [of "j - m"] 3(2,3) by (auto simp: nth_append)
qed simp

lemma live_table:
  assumes "heap_ok b s" "heap_ok b t" "live b s = live b t"
  shows "memmap s b = memmap t b"
proof -
  obtain xs ys where xs: "list_all seg_ok xs" "memmap s b = render xs" and ys: "list_all seg_ok ys" "memmap t b = render ys"
    using assms(1,2) by (auto simp: heap_ok_def heap_inv_def elim!: wf_tableE)
  have l: "live b s = set (allocs_from 0 xs)" "live b t = set (allocs_from 0 ys)"
    using assms(1,2) xs ys by (simp_all add: heap_ok_def live_render)
  show ?thesis
  proof (rule nth_equalityI)
    show len: "length (memmap s b) = length (memmap t b)" using assms(1,2) by (simp add: heap_ok_def heap_inv_def)
    fix j assume j: "j < length (memmap s b)"
    show "memmap s b ! j = memmap t b ! j"
    proof (cases "\<exists>(k, n)\<in>live b s. k \<le> j \<and> j < k + n")
      case True
      then obtain k n where "(k, n) \<in> live b s" "k \<le> j" "j < k + n" by blast
      then show ?thesis using render_live [of k n 0 xs j] render_live [of k n 0 ys j] assms(3) l xs ys by simp
    next
      case False
      then have n: "\<forall>(k, n)\<in>live b s. \<not> (k \<le> 0 + j \<and> 0 + j < k + n)" by auto
      have "render xs ! j = 0" by (rule render_not_live [OF _ n [unfolded l(1)]]) (use j xs(2) in simp)
      moreover have "render ys ! j = 0"
        by (rule render_not_live [OF _ n [unfolded assms(3) l(2)]]) (use j len ys(2) in simp)
      ultimately show ?thesis using xs(2) ys(2) by simp
    qed
  qed
qed

lemma mymalloc_frame:
  assumes "mymalloc b sz s = Some (p, t)" "memrdy s b \<noteq> 0"
  shows "memrdy t = memrdy s" "c \<noteq> b \<Longrightarrow> memmap t c = memmap s c"
  using assms by (auto simp: mymalloc_def my_mem_malloc_def Let_def split: option.splits if_splits)

lemma myfree_frame:
  assumes "myfree b p s = Some t" "memrdy s b \<noteq> 0"
  shows "memrdy t = memrdy s" "c \<noteq> b \<Longrightarrow> memmap t c = memmap s c"
  using assms by (auto simp: myfree_def my_mem_free_def Let_def split: option.splits if_splits)

text \<open>Two blocks given back leave the heap as it was, but for what was stored.\<close>

lemma two_blocks_exact:
  assumes ok: "heap_ok b s" and m: "mymalloc b sz1 s = Some (p, h1)" "mymalloc b sz2 h1 = Some (q, h2)"
  obtains h3 where "myfree b p (h2\<lparr>ram := m\<rparr>) = Some h3" "myfree b q h3 = Some (s\<lparr>ram := m\<rparr>)"
proof -
  obtain h3 h4 where h: "myfree b p (h2\<lparr>ram := m\<rparr>) = Some h3" "myfree b q h3 = Some h4" "heap_ok b h4"
    "live b h4 = live b s" "ram h4 = m" "membase h4 = membase s" by (rule two_blocks [OF ok m])
  have r: "memrdy s b \<noteq> 0" using ok by (simp add: heap_ok_def)
  note f1 = mymalloc_frame [OF m(1) r]
  have r1: "memrdy h1 b \<noteq> 0" using r f1(1) by simp
  note f2 = mymalloc_frame [OF m(2) r1]
  have r2: "memrdy (h2\<lparr>ram := m\<rparr>) b \<noteq> 0" using r1 f2(1) by simp
  note f3 = myfree_frame [OF h(1) r2]
  have r3: "memrdy h3 b \<noteq> 0" using r2 f3(1) by simp
  note f4 = myfree_frame [OF h(2) r3]
  have "memmap h4 = memmap s"
  proof
    fix c
    show "memmap h4 c = memmap s c"
      using live_table [OF h(3) ok h(4)] f1(2) [of c] f2(2) [of c] f3(2) [of c] f4(2) [of c] by (cases "c = b") simp_all
  qed
  moreover have "memrdy h4 = memrdy s" using f1(1) f2(1) f3(1) f4(1) by simp
  ultimately have "h4 = s\<lparr>ram := m\<rparr>" using h(5,6) by simp
  then show thesis using that h(1,2) by simp
qed

text \<open>What is stored in the memory does not matter for a request.\<close>

lemma my_mem_malloc_ram:
  "my_mem_malloc b sz (p\<lparr>ram := m\<rparr>) = map_option (\<lambda>(a, q). (a, q\<lparr>ram := m\<rparr>)) (my_mem_malloc b sz p)"
  by (cases "memrdy p b = 0") (simp_all add: my_mem_malloc_def my_mem_init_def Let_def split: option.split)

lemma mymalloc_ram:
  "mymalloc b sz (p\<lparr>ram := m\<rparr>) = map_option (\<lambda>(a, q). (a, q\<lparr>ram := m\<rparr>)) (mymalloc b sz p)"
  by (cases "my_mem_malloc b sz p") (auto simp: mymalloc_def my_mem_malloc_ram)

section \<open>Releasing a pointer into the middle of a block, and the usage figure\<close>

lemma render_used_nth:
  "j < n \<Longrightarrow> render (a @ Used n # c) ! (length (render a) + j) = of_nat n"
  by (simp add: nth_append)

lemma fold_count:
  "fold (\<lambda>e used. if e \<noteq> 0 then used + 1 else used) xs (u :: u32) =
     u + of_nat (length (filter (\<lambda>e. e \<noteq> 0) xs))" for xs :: "u32 list"
  by (induction xs arbitrary: u) (simp_all add: algebra_simps)

lemma count_used_render:
  "list_all seg_ok segs \<Longrightarrow>
     length (filter (\<lambda>e. e \<noteq> 0) (render segs)) = sum_list (map snd (allocs_from i segs))"
proof (induction i segs rule: allocs_from.induct)
  case (3 i n segs)
  then show ?case by (simp add: seg_ok_def used_cell_nonzero)
qed simp_all

text \<open>A heap for the closed examples: all pools initialised and empty.\<close>

definition demo_heap :: heap where
  "demo_heap = \<lparr>membase = (\<lambda>_. 0x10000000), memmap = (\<lambda>b. replicate (unat (memtblsize b)) 0),
     memrdy = (\<lambda>_. 1), ram = (\<lambda>_. 0)\<rparr>"

lemma demo_fields [simp]:
  "membase demo_heap b = 0x10000000" "memrdy demo_heap b = 1" "ram demo_heap x = 0"
  "memmap demo_heap b = replicate (unat (memtblsize b)) 0"
  by (simp_all add: demo_heap_def)

lemma demo_heap_inv: "heap_inv demo_heap"
  by (simp add: heap_inv_def demo_heap_def wf_table_zero)

lemma demo_ready: "memrdy demo_heap b \<noteq> 0" "pool_placed SRAMIN demo_heap"
  by (simp_all add: demo_heap_def pool_placed_def)

lemma demo_heap_ok: "heap_ok SRAMIN demo_heap"
  by (simp add: heap_ok_def demo_heap_inv demo_ready)

lemma demo_live: "live b demo_heap = {}"
  using live_render [of demo_heap b "replicate (unat (memtblsize b)) Free"]
  by (simp add: demo_heap_def list_all_iff seg_ok_def)

lemma demo_scan: "table_scan (replicate 800 0) 2 0 800 = Some 798"
proof -
  have "table_scan (replicate 800 0) 2 0 (Suc (Suc 798)) = Some 798"
    unfolding table_scan.simps Let_def by simp
  then show ?thesis by simp
qed

lemma demo_malloc:
  "my_mem_malloc SRAMIN 100 demo_heap =
     Some (51072, demo_heap\<lparr>memmap := (memmap demo_heap)
       (SRAMIN := render (replicate 798 Free @ [Used 2]))\<rparr>)"
proof -
  have map: "memmap demo_heap SRAMIN = replicate 800 0"
    by (simp add: demo_heap_def unat_memtblsize)
  have "arr_fill (replicate 800 0) 798 2 2 = Some (render (replicate 798 Free @ [Used 2]))"
    using arr_fill_Some [of 798 2 "replicate 800 (0 :: u32)" 2]
    by (simp add: numeral_2_eq_2)
  moreover have "ready SRAMIN demo_heap = demo_heap" using demo_ready by (simp add: ready_def)
  ultimately show ?thesis
    by (simp add: my_mem_malloc_unfold nmemb_of_def unat_memtblsize map demo_scan)
qed

lemma demo_segs_ok: "list_all seg_ok (replicate 798 Free @ [Used 2])"
  by (simp add: list_all_iff seg_ok_def)

lemma demo_alloc:
  "heap_alloc SRAMIN 100 demo_heap = demo_heap\<lparr>memmap := (memmap demo_heap)
     (SRAMIN := render (replicate 798 Free @ [Used 2]))\<rparr>"
  by (simp add: heap_alloc_def demo_malloc)

lemma demo_alloc_live: "live SRAMIN (heap_alloc SRAMIN 100 demo_heap) = {(798, 2)}"
  using live_render [OF _ _ demo_segs_ok, of "heap_alloc SRAMIN 100 demo_heap" SRAMIN] demo_ready(1)
  by (simp add: demo_alloc allocs_from_append)

lemma demo_scan2: "table_scan (replicate 798 0 @ [2, 2]) 2 0 800 = Some 796"
proof -
  have "table_scan (replicate 798 0 @ [2, 2]) 2 0 (Suc (Suc (Suc (Suc 796)))) = Some 796"
    unfolding table_scan.simps Let_def by (simp add: nth_append)
  then show ?thesis by simp
qed

lemma demo_realloc:
  "\<exists>s'. myrealloc SRAMIN (0x10000000 + of_nat (798 * 64)) 100 (heap_alloc SRAMIN 100 demo_heap) =
          Some (0x1000C700, s')"
proof -
  let ?s = "heap_alloc SRAMIN 100 demo_heap"
  have map: "memmap ?s SRAMIN = replicate 798 0 @ [2, 2]" "memrdy ?s SRAMIN = 1"
    "membase ?s SRAMIN = 0x10000000"
    by (simp_all add: demo_alloc numeral_2_eq_2)
  have fill: "arr_fill (replicate 798 0 @ [2, 2 :: u32]) 796 2 2 = Some (replicate 796 0 @ [2, 2, 2, 2])"
    using arr_fill_Some [of 796 2 "replicate 798 (0 :: u32) @ [2, 2]" 2]
    by (simp add: numeral_2_eq_2)
  have fill2: "arr_fill (replicate 796 0 @ [2, 2, 2, 2 :: u32]) 798 2 0 = Some (replicate 796 0 @ [2, 2, 0, 0])"
    using arr_fill_Some [of 798 2 "replicate 796 (0 :: u32) @ [2, 2, 2, 2]" 0]
    by (simp add: numeral_2_eq_2)
  have get: "arr_get (replicate 796 0 @ [2, 2, 2, 2 :: u32]) 798 = Some 2"
    by (simp add: arr_get_def nth_append)
  have rdy: "ready SRAMIN ?s = ?s" using map(2) by (simp add: ready_def)
  have m: "my_mem_malloc SRAMIN 100 ?s = Some (50944,
     ?s\<lparr>memmap := (memmap ?s)(SRAMIN := replicate 796 0 @ [2, 2, 2, 2])\<rparr>)"
    by (simp add: my_mem_malloc_unfold nmemb_of_def unat_memtblsize rdy map(1) demo_scan2 fill)
  show ?thesis
    by (simp add: myrealloc_def m myfree_def my_mem_free_def map get fill2)
qed

section \<open>Properties\<close>

text \<open>C2: in a consistent heap an allocation request never touches the table out of bounds and
  keeps the heap consistent. When it succeeds it returns a block-aligned offset of a block that
  lies in the pool, holds the requested bytes and is apart from every live block; it fails only
  for size 0 or when no run of free blocks is long enough.\<close>

theorem malloc_correct:
  assumes "heap_inv s"
  shows "case my_mem_malloc b sz s of
           None \<Rightarrow> False
         | Some (off, s') \<Rightarrow>
             heap_inv s' \<and>
             (if off = 0xFFFFFFFF
              then live b s' = live b s \<and>
                   (sz = 0 \<or> (\<forall>r. \<not> zero_run (memmap s' b) r (unat (nmemb_of b sz))))
              else live b s' = insert (unat off div 64, unat (nmemb_of b sz)) (live b s) \<and>
                   unat off mod 64 = 0 \<and> unat off + unat sz \<le> unat (memsize b) \<and>
                   (\<forall>y\<in>live b s. blocks_apart (unat off div 64, unat (nmemb_of b sz)) y))"
  using assms
proof (cases rule: malloc_cases [where b = b and sz = sz])
  case fail
  then show ?thesis using ready_inv(1) [OF assms] by (simp add: live_ready)
next
  case (found a c n)
  let ?p = "length (render a)"
  let ?off = "of_nat ?p * 64 :: u32"
  have uoff: "unat ?off = ?p * 64" using found(6) by (intro unat_block_offset [of _ b]) simp
  then have "unat ?off mod 64 = 0" by simp
  then have ne: "?off \<noteq> 0xFFFFFFFF" by auto
  have fit: "unat ?off + unat sz \<le> unat (memsize b)"
    using found(1,6) uoff unfolding unat_nmemb_of unat_memsize by linarith
  show ?thesis
    using heap_alloc_inv [OF assms, of b sz] malloc_live [OF assms found(4,5)] ne fit uoff
    unfolding heap_alloc_def found(7) by (simp add: found(1))
qed

theorem malloc_correct_witness:
  "heap_inv demo_heap \<and>
   (case my_mem_malloc SRAMIN 100 demo_heap of
      None \<Rightarrow> False
    | Some (off, s') \<Rightarrow> off = 51072 \<and> heap_inv s' \<and> live SRAMIN s' = {(798, 2)})"
  using malloc_correct [OF demo_heap_inv, of SRAMIN 100] demo_heap_inv
  by (simp add: demo_malloc demo_live nmemb_of_def)

text \<open>C10: in a heap whose pool is initialised and placed below the top of the address space, a
  pointer that \<open>mymalloc\<close> returns addresses a block inside the pool, and \<open>myfree\<close> of that pointer
  restores the heap exactly.\<close>

theorem mymalloc_myfree:
  assumes inv: "heap_inv s" and rdy: "memrdy s b \<noteq> 0" and placed: "pool_placed b s"
    and alloc: "mymalloc b sz s = Some (p, s')" and ok: "p \<noteq> 0"
  shows "myfree b p s' = Some s \<and> unat (membase s b) \<le> unat p \<and>
         unat p + unat sz \<le> unat (membase s b) + unat (memsize b)"
proof -
  obtain k n where kn: "unat p = unat (membase s b) + k * 64" "k + n \<le> unat (memtblsize b)" "unat sz \<le> n * 64"
    "ram s' = ram s" "\<And>m. myfree b p (s'\<lparr>ram := m\<rparr>) = Some (s\<lparr>ram := m\<rparr>)"
    using mymalloc_block [OF assms] by metis
  have "s'\<lparr>ram := ram s\<rparr> = s'" unfolding kn(4) [symmetric] by simp
  with kn(5) [of "ram s"] have "myfree b p s' = Some s" by simp
  then show ?thesis using kn(1-3) unfolding unat_memsize by simp
qed

theorem mymalloc_myfree_witness:
  "\<exists>s'. mymalloc SRAMIN 100 demo_heap = Some (0x1000C780, s') \<and>
        myfree SRAMIN 0x1000C780 s' = Some demo_heap"
proof -
  obtain s' where alloc: "mymalloc SRAMIN 100 demo_heap = Some (0x1000C780, s')"
    by (simp add: mymalloc_def demo_malloc)
  from mymalloc_myfree [OF demo_heap_inv demo_ready alloc] alloc show ?thesis by simp
qed

text \<open>C38: \<open>myrealloc\<close> of a live block, when it succeeds, moves the bytes of the old block (as many
  as the new size asks for) to the new block, releases the old block and leaves the bytes of every
  other live block alone; when it fails, memory and live blocks are unchanged.\<close>

theorem myrealloc_moves:
  assumes inv: "heap_inv s" and mem: "(p, n) \<in> live b s" and placed: "pool_placed b s"
    and ptr: "ptr = membase s b + of_nat (p * 64)"
    and re: "myrealloc b ptr sz s = Some (q, s')"
  shows "heap_inv s' \<and>
    (if q = 0 then s' = s
     else live b s' = insert (unat (q - membase s b) div 64, unat (nmemb_of b sz)) (live b s - {(p, n)}) \<and>
          (\<forall>i. i < unat sz \<and> i < n * 64 \<longrightarrow> ram s' (q + of_nat i) = ram s (ptr + of_nat i)) \<and>
          (\<forall>(r, m)\<in>live b s. \<forall>i. i < m * 64 \<longrightarrow>
             ram s' (membase s b + of_nat (r * 64 + i)) = ram s (membase s b + of_nat (r * 64 + i))))"
proof -
  have old: "memrdy s b \<noteq> 0" "p + n \<le> unat (memtblsize b)" "0 < n" using live_used [OF inv mem] by blast+
  have ptr0: "ptr \<noteq> 0" unfolding ptr using placed by (rule pool_addr_nonzero) (use old in \<open>simp add: unat_memsize\<close>)
  obtain a s1 where a: "mymalloc b sz s = Some (a, s1)" using mymalloc_fails [OF inv old(1) placed] by blast
  show ?thesis
  proof (cases "a = 0")
    case True
    then show ?thesis using mymalloc_fails [OF inv old(1) placed, of sz] a re inv myrealloc_parts [OF inv old(1) placed a, of ptr] by simp
  next
    case False
    obtain k l where kl: "l = unat (nmemb_of b sz)" "a = membase s b + of_nat (k * 64)" "k + l \<le> unat (memtblsize b)" "unat sz \<le> l * 64" "0 < l"
      "ram s1 = ram s" "membase s1 = membase s" "live b s1 = insert (k, l) (live b s)" "\<forall>y\<in>live b s. blocks_apart (k, l) y"
      "heap_inv s1" using mymalloc_block [OF inv old(1) placed a False] heap_alloc_inv [OF inv, of b sz] a by (metis heap_alloc_mymalloc)
    let ?s2 = "s1\<lparr>ram := my_mem_copy (ram s) a ptr (unat sz)\<rparr>"
    have "heap_inv ?s2" "(p, n) \<in> live b ?s2" "pool_placed b ?s2" using kl mem placed by (simp_all add: pool_placed_def)
    from myfree_live [OF this] obtain t where t: "myfree b ptr ?s2 = Some t" "heap_inv t" "live b t = live b s1 - {(p, n)}"
      "ram t = ram ?s2" "membase t = membase s" using kl(7) ptr by auto
    have res: "q = a" "s' = t" using re myrealloc_parts [OF inv old(1) placed a, of ptr] False t(1) kl(6) by simp_all
    have apart: "blocks_apart (k, l) (p, n)" using kl(9) mem by blast
    have "(k, l) \<noteq> (p, n)" using apart old(3) by (auto simp: blocks_apart_def)
    then have "live b t = insert (k, l) (live b s - {(p, n)})" unfolding t(3) kl(8) by blast
    moreover have "unat (a - membase s b) div 64 = k"
      using unat_block_offset [of k b] kl(3,5) by (simp add: kl(2))
    moreover have "ram t (a + of_nat i) = ram s (ptr + of_nat i)" if "i < unat sz \<and> i < n * 64" for i
      using copy_to_block(1) [OF placed apart kl(3) old(2) kl(4)] that unfolding t(4) kl(2) ptr by simp
    moreover have "ram t (membase s b + of_nat (r * 64 + i)) = ram s (membase s b + of_nat (r * 64 + i))"
      if "(r, m) \<in> live b s" "i < m * 64" for r m i
    proof -
      have "blocks_apart (k, l) (r, m)" "r + m \<le> unat (memtblsize b)" using kl(9) that(1) live_used [OF inv that(1)] by blast+
      from copy_to_block(2) [OF placed this(1) kl(3) this(2) kl(4) that(2)] show ?thesis unfolding t(4) kl(2) by (simp add: add.assoc)
    qed
    ultimately show ?thesis using t(2) False unfolding res kl(1) [symmetric] by auto
  qed
qed

theorem myrealloc_moves_witness:
  "\<exists>s s'. (798, 2) \<in> live SRAMIN s \<and>
     myrealloc SRAMIN (0x10000000 + of_nat (798 * 64)) 100 s = Some (0x1000C700, s') \<and>
     live SRAMIN s' = {(796, 2)} \<and>
     ram s' 0x1000C705 = ram s 0x1000C785"
proof -
  let ?s = "heap_alloc SRAMIN 100 demo_heap"
  have base: "membase ?s SRAMIN = 0x10000000" by (simp add: demo_alloc)
  have placed: "pool_placed SRAMIN ?s" by (simp add: demo_alloc pool_placed_def)
  have mem: "(798, 2) \<in> live SRAMIN ?s" by (simp add: demo_alloc_live)
  obtain s' where re: "myrealloc SRAMIN (0x10000000 + of_nat (798 * 64)) 100 ?s = Some (0x1000C700, s')"
    using demo_realloc by blast
  have moves: "live SRAMIN s' = {(796, 2)} \<and>
      (\<forall>i. i < 100 \<and> i < 128 \<longrightarrow> ram s' (0x1000C700 + of_nat i) = ram ?s (0x1000C780 + of_nat i))"
    using myrealloc_moves [OF heap_alloc_inv [OF demo_heap_inv] mem placed _ re] base
    by (simp add: demo_alloc_live nmemb_of_def)
  then have "ram s' 0x1000C705 = ram ?s 0x1000C785" by (auto dest: spec [of _ 5])
  with moves mem re show ?thesis by blast
qed

text \<open>\<open>my_mem_free\<close> does not check that the offset starts a block. An offset \<open>j > 0\<close> blocks into
  an allocation of \<open>n\<close> blocks clears \<open>n\<close> table entries from there on: the first \<open>j\<close> stay marked, the
  following blocks are cleared whoever owns them, and past the end of the table the write is out of
  bounds.\<close>

theorem interior_free:
  assumes "heap_inv s" and "memrdy s b \<noteq> 0"
    and "parse_segs (memmap s b) = a @ Used n # c" and "0 < j" and "j < n"
    and "unat offset div 64 = length (render a) + j"
  shows "my_mem_free b offset s =
    (if length (render a) + j + n \<le> unat (memtblsize b)
     then Some (0, s\<lparr>memmap := (memmap s)
            (b := render a @ replicate j (of_nat n) @ replicate n 0 @ drop j (render c))\<rparr>)
     else None)"
proof -
  let ?i = "length (render a) + j"
  have len: "length (memmap s b) = unat (memtblsize b)" using assms(1) by (rule heap_inv_length)
  have wf: "list_all seg_ok (a @ Used n # c)" "memmap s b = render (a @ Used n # c)"
    using assms(1-3) by (auto simp: heap_inv_def wf_table_def)
  have n: "0 < n" "n < 2 ^ 31" using wf(1) by (simp_all add: seg_ok_def)
  have lt: "?i < unat (memtblsize b)" using len assms(5) unfolding wf(2) by simp
  then have "unat offset < unat (memtblsize b) * 64"
    using assms(6) by (simp add: div_less_iff_less_mult [symmetric])
  then have "offset < memsize b" by (simp add: word_less_nat_alt unat_memsize)
  moreover have "unat (offset div 64) = ?i" using assms(6) by (simp add: unat_div_distrib)
  moreover have "arr_get (memmap s b) ?i = Some (of_nat n)"
    unfolding wf(2) using lt len render_used_nth [OF assms(5), of a c] unfolding wf(2)
    by (simp add: arr_get_def)
  moreover have "arr_fill (memmap s b) ?i n 0 =
    (if ?i + n \<le> unat (memtblsize b)
     then Some (render a @ replicate j (of_nat n) @ replicate n 0 @ drop j (render c)) else None)"
    using arr_fill_Some [of ?i n "memmap s b" 0] arr_fill_None [of "memmap s b" ?i n 0] n(1) len
      assms(5) unfolding wf(2) by (auto simp: take_replicate min_def)
  ultimately show ?thesis
    using assms(2) by (simp add: my_mem_free_def sint_used_cell [OF n(2)])
qed

theorem interior_free_witness:
  "my_mem_free SRAMIN (799 * 64) (heap_alloc SRAMIN 100 demo_heap) = None"
proof -
  have "parse_segs (memmap (heap_alloc SRAMIN 100 demo_heap) SRAMIN) = replicate 798 Free @ Used 2 # []"
    using parse_render [OF demo_segs_ok] by (simp add: demo_alloc del: render_simps)
  from interior_free [OF heap_alloc_inv [OF demo_heap_inv] _ this, of 1 "799 * 64"] show ?thesis
    by (simp add: demo_alloc demo_ready unat_memtblsize)
qed

text \<open>\<open>my_mem_perused\<close> of an initialised pool is the number of blocks in live allocations,
  in thousandths of the pool, rounded down; it never exceeds 1000.\<close>

theorem perused_correct:
  assumes "heap_inv s" and "memrdy s b \<noteq> 0"
  shows "unat (my_mem_perused b s) =
           sum_list (map snd (allocs_from 0 (parse_segs (memmap s b)))) * 1000 div unat (memtblsize b)
         \<and> unat (my_mem_perused b s) \<le> 1000"
proof -
  define t where "t = unat (memtblsize b)"
  define used where "used = length (filter (\<lambda>e. e \<noteq> 0) (memmap s b))"
  have len: "length (memmap s b) = t" using assms(1) by (simp add: heap_inv_length t_def)
  have wf: "list_all seg_ok (parse_segs (memmap s b))" "render (parse_segs (memmap s b)) = memmap s b"
    using assms by (auto simp: heap_inv_def wf_table_def)
  have used: "used = sum_list (map snd (allocs_from 0 (parse_segs (memmap s b))))"
    using count_used_render [OF wf(1), of 0] wf(2) by (simp add: used_def)
  have le: "used \<le> t" unfolding used_def len [symmetric] by (rule length_filter_le)
  have t: "0 < t" "t \<le> 462592" using memtblsize_pos memtblsize_bound by (simp_all add: t_def)
  have "unat (of_nat used * 1000 :: u32) = used * 1000"
    using le t unat_of_nat_small [of "used * 1000", where 'a = 32] by simp
  then have q: "unat (of_nat used * 1000 div memtblsize b) = used * 1000 div t"
    by (simp add: unat_div_distrib t_def)
  have b: "used * 1000 div t \<le> 1000"
    using le t(1) by (metis div_le_mono mult.commute mult_le_mono2 nonzero_mult_div_cancel_left
        less_numeral_extra(3))
  have "my_mem_perused b s = ucast (of_nat used * 1000 div memtblsize b)"
    using len by (simp add: my_mem_perused_def fold_count t_def used_def)
  then have "unat (my_mem_perused b s) = used * 1000 div t"
    using q b by (simp add: unsigned_ucast_eq take_bit_nat_eq_self)
  with b used show ?thesis by (simp add: t_def)
qed

theorem perused_correct_witness:
  "unat (my_mem_perused SRAMIN demo_heap) \<le> 1000 \<and> memrdy demo_heap SRAMIN \<noteq> 0"
  using perused_correct [OF demo_heap_inv demo_ready(1)] demo_ready(1) by blast

end
