(* ===== verification/Heap_Clients.thy ===== *)
theory Heap_Clients
  imports Malloc
begin

text \<open>
  The clients of a pool, who know nothing of its table: each keeps the pointers it was given and the sizes
  it asked for, writes to the memory, and gives pointers back in any order.
\<close>

section \<open>What the clients do\<close>

datatype client_op = Request u32 | Give_back nat | Store mem

text \<open>The pointers that are held, with their sizes; a request that fails gives none.\<close>

fun client_do :: "sram \<Rightarrow> client_op \<Rightarrow> heap \<times> (u32 \<times> u32) list \<Rightarrow> (heap \<times> (u32 \<times> u32) list) option" where
  "client_do b (Request sz) (h, held) = do {
     (p, h') \<leftarrow> mymalloc b sz h;
     Some (h', if p = 0 then held else held @ [(p, sz)])
   }"
| "client_do b (Give_back i) (h, held) =
     (if i < length held then do {
        h' \<leftarrow> myfree b (fst (held ! i)) h;
        Some (h', take i held @ drop (Suc i) held)
      }
      else Some (h, held))"
| "client_do b (Store m) (h, held) = Some (h\<lparr>ram := m\<rparr>, held)"

fun client_run :: "sram \<Rightarrow> client_op list \<Rightarrow> heap \<times> (u32 \<times> u32) list \<Rightarrow> (heap \<times> (u32 \<times> u32) list) option" where
  "client_run b [] s = Some s"
| "client_run b (x # xs) s = do { s' \<leftarrow> client_do b x s; client_run b xs s' }"

section \<open>The pointers and the blocks of the table\<close>

definition holds_block :: "sram \<Rightarrow> heap \<Rightarrow> u32 \<times> u32 \<Rightarrow> nat \<times> nat \<Rightarrow> bool" where
  "holds_block b h x y \<longleftrightarrow> fst x = membase h b + of_nat (fst y * 64) \<and> unat (snd x) \<le> snd y * 64 \<and> snd x \<noteq> 0"

definition ledger :: "sram \<Rightarrow> heap \<Rightarrow> (u32 \<times> u32) list \<Rightarrow> bool" where
  "ledger b h held \<longleftrightarrow> heap_ok b h \<and> pool.sound b h \<and>
     (\<exists>ys. list_all2 (holds_block b h) held ys \<and> distinct ys \<and> set ys = live b h)"

lemma ledger_request:
  assumes l: "ledger b h held" and m: "mymalloc b sz h = Some (p, h')"
  shows "ledger b h' (if p = 0 then held else held @ [(p, sz)])" "membase h' = membase h"
proof -
  have ok: "heap_ok b h" using l by (simp add: ledger_def)
  then have inv: "heap_inv h" "memrdy h b \<noteq> 0" "pool_placed b h" by (simp_all add: heap_ok_def)
  obtain x where own: "heap_ok b h'" "membase h' = membase h" "live b h' = set_option x \<union> live b h" by (rule mymalloc_own [OF ok m])
  show "membase h' = membase h" by (fact own(2))
  show "ledger b h' (if p = 0 then held else held @ [(p, sz)])"
  proof (cases "p = 0")
    case True
    have "h' = h" using mymalloc_fails [OF inv, of sz] m True by auto
    then show ?thesis using True l by simp
  next
    case False
    obtain k n where kn: "p = membase h b + of_nat (k * 64)" "unat sz \<le> n * 64" "0 < n" "live b h' = insert (k, n) (live b h)"
      "\<forall>y\<in>live b h. blocks_apart (k, n) y" using mymalloc_block [OF inv m False] by metis
    obtain ys where ys: "list_all2 (holds_block b h) held ys" "distinct ys" "set ys = live b h" using l by (auto simp: ledger_def)
    have new: "(k, n) \<notin> live b h" using kn(3,5) by (auto simp: blocks_apart_def)
    have "h' = heap_alloc b sz h" using m False by (auto simp: mymalloc_def heap_alloc_def split: option.splits if_splits)
    then have sound: "pool.sound b h'"
      using pool.step_sound [OF client_step.request, of b h] l by (simp add: ledger_def)
    have "sz \<noteq> 0" using m False by (auto simp: mymalloc_def my_mem_malloc_0)
    then have "list_all2 (holds_block b h') (held @ [(p, sz)]) (ys @ [(k, n)])"
      using ys(1) kn(1,2) own(2) by (auto simp: holds_block_def [abs_def] intro!: list_all2_appendI)
    moreover have "distinct (ys @ [(k, n)])" "set (ys @ [(k, n)]) = live b h'" using ys(2,3) kn(4) new by auto
    ultimately show ?thesis unfolding ledger_def using own(1) sound False by auto
  qed
qed

lemma ledger_give_back:
  assumes l: "ledger b h held" and i: "i < length held"
  shows "\<exists>h'. myfree b (fst (held ! i)) h = Some h' \<and> ledger b h' (take i held @ drop (Suc i) held) \<and> membase h' = membase h"
proof -
  obtain ys where ys: "list_all2 (holds_block b h) held ys" "distinct ys" "set ys = live b h" using l by (auto simp: ledger_def)
  have iy: "i < length ys" using ys(1) i by (simp add: list_all2_lengthD)
  obtain k n where kn: "ys ! i = (k, n)" by fastforce
  have inv: "heap_inv h" "pool_placed b h" and kl: "(k, n) \<in> live b h"
    using l ys(3) nth_mem [OF iy] kn by (auto simp: ledger_def heap_ok_def)
  have p: "fst (held ! i) = membase h b + of_nat (k * 64)" using list_all2_nthD [OF ys(1) i] kn by (simp add: holds_block_def)
  obtain h' where h': "myfree b (fst (held ! i)) h = Some h'" "heap_inv h'" "live b h' = live b h - {(k, n)}" "membase h' = membase h"
    "memrdy h' = memrdy h" unfolding p by (rule myfree_live [OF inv(1) kl inv(2)])
  let ?ys = "take i ys @ drop (Suc i) ys"
  have split: "ys = take i ys @ (k, n) # drop (Suc i) ys" using id_take_nth_drop [OF iy] kn by simp
  then have "distinct (take i ys @ (k, n) # drop (Suc i) ys)" "set (take i ys @ (k, n) # drop (Suc i) ys) = live b h"
    using ys(2,3) by metis+
  then have d: "distinct ?ys" "set ?ys = live b h'" using h'(3) by auto
  have "list_all2 (holds_block b h') held ys" using ys(1) h'(4) by (simp add: holds_block_def [abs_def])
  then have "list_all2 (holds_block b h') (take i held @ drop (Suc i) held) ?ys"
    by (intro list_all2_appendI list_all2_takeI list_all2_dropI)
  moreover have "pool.sound b h'"
    using pool.step_sound [OF client_step.give_back [of k n "live b" h, OF kl]] heap_release_eq [OF inv(1) kl] l h'(2,3)
    by (simp add: ledger_def pool.sound_def)
  moreover have "heap_ok b h'" using l h'(2,4,5) by (simp add: ledger_def heap_ok_def pool_placed_def)
  ultimately show ?thesis using h'(1,4) d unfolding ledger_def by blast
qed

lemma ledger_store: "ledger b h held \<Longrightarrow> ledger b (h\<lparr>ram := m\<rparr>) held"
  by (simp add: ledger_def pool.sound_def holds_block_def [abs_def])

lemma ledger_do:
  assumes "ledger b h held"
  shows "\<exists>h' held'. client_do b x (h, held) = Some (h', held') \<and> ledger b h' held' \<and> membase h' = membase h"
proof (cases x)
  case (Request sz)
  obtain p h' where m: "mymalloc b sz h = Some (p, h')"
    using mymalloc_fails [of h b sz] assms by (auto simp: ledger_def heap_ok_def)
  then show ?thesis using ledger_request [OF assms m] Request by simp
next
  case (Give_back i)
  then show ?thesis using ledger_give_back [OF assms, of i] assms by auto
next
  case (Store m)
  then show ?thesis using ledger_store [OF assms] by simp
qed

lemma ledger_run:
  "ledger b h held \<Longrightarrow> \<exists>h' held'. client_run b xs (h, held) = Some (h', held') \<and> ledger b h' held' \<and> membase h' = membase h"
proof (induction xs arbitrary: h held)
  case (Cons x xs)
  obtain h1 held1 where "client_do b x (h, held) = Some (h1, held1)" "ledger b h1 held1" "membase h1 = membase h"
    using ledger_do [OF Cons.prems] by blast
  then show ?case using Cons.IH [of h1 held1] by simp
qed simp

text \<open>Where the pointers that are held lie, in bytes.\<close>

definition byte_range :: "u32 \<times> u32 \<Rightarrow> nat \<times> nat" where
  "byte_range x = (unat (fst x), unat (snd x))"

lemma ledger_ranges:
  assumes l: "ledger b h held" and i: "i < length held"
  shows "0 < snd (byte_range (held ! i))" "unat (membase h b) \<le> fst (byte_range (held ! i))"
    "fst (byte_range (held ! i)) + snd (byte_range (held ! i)) \<le> unat (membase h b) + unat (memsize b)"
    "j < length held \<Longrightarrow> j \<noteq> i \<Longrightarrow> blocks_apart (byte_range (held ! i)) (byte_range (held ! j))"
proof -
  obtain ys where ys: "list_all2 (holds_block b h) held ys" "distinct ys" "set ys = live b h" using l by (auto simp: ledger_def)
  have inv: "heap_inv h" "pool_placed b h" using l by (simp_all add: ledger_def heap_ok_def)
  have len: "length ys = length held" using ys(1) by (simp add: list_all2_lengthD)
  have at: "unat (fst (held ! m)) = unat (membase h b) + fst (ys ! m) * 64" "unat (snd (held ! m)) \<le> snd (ys ! m) * 64"
    "snd (held ! m) \<noteq> 0" "fst (ys ! m) + snd (ys ! m) \<le> unat (memtblsize b)" if m: "m < length held" for m
  proof -
    have h: "fst (held ! m) = membase h b + of_nat (fst (ys ! m) * 64)" "unat (snd (held ! m)) \<le> snd (ys ! m) * 64" "snd (held ! m) \<noteq> 0"
      using list_all2_nthD [OF ys(1) m] by (simp_all add: holds_block_def)
    obtain k n where kn: "ys ! m = (k, n)" by fastforce
    have "(k, n) \<in> live b h" using nth_mem [of m ys] m len kn ys(3) by simp
    then have b: "k + n \<le> unat (memtblsize b)" "0 < n" using live_used [OF inv(1)] by metis+
    then have lt: "k * 64 < unat (memsize b)" by (simp add: unat_memsize)
    show "unat (fst (held ! m)) = unat (membase h b) + fst (ys ! m) * 64" by (simp only: h(1) kn fst_conv unat_pool_addr [OF inv(2) lt])
    show "fst (ys ! m) + snd (ys ! m) \<le> unat (memtblsize b)" using b(1) kn by simp
  qed (use list_all2_nthD [OF ys(1) m] in \<open>simp_all add: holds_block_def\<close>)
  show "0 < snd (byte_range (held ! i))" using at(3) [OF i] by (simp add: byte_range_def unat_gt_0)
  show "unat (membase h b) \<le> fst (byte_range (held ! i))" using at(1) [OF i] by (simp add: byte_range_def)
  show "fst (byte_range (held ! i)) + snd (byte_range (held ! i)) \<le> unat (membase h b) + unat (memsize b)"
    using at [OF i] by (simp add: byte_range_def unat_memsize)
  assume j: "j < length held" "j \<noteq> i"
  then have "ys ! i \<noteq> ys ! j" using ys(2) i len by (simp add: nth_eq_iff_index_eq)
  then have "blocks_apart (ys ! i) (ys ! j)"
    using l ys(3) nth_mem [of i ys] nth_mem [of j ys] i j(1) len by (simp add: ledger_def pool.sound_def all_apart_def)
  then show "blocks_apart (byte_range (held ! i)) (byte_range (held ! j))"
    using at [OF i] at [OF j(1)] by (auto simp: blocks_apart_def byte_range_def)
qed

section \<open>Property\<close>

text \<open>C29: The clients of a pool that was set up and in which nothing is allocated make any sequence of requests,
  stores and releases of pointers they hold. No operation fails by an access outside of the table; at
  any time each pointer that is held names as many bytes of the pool as were asked for, no two of these
  ranges overlap, and when all pointers have been given back nothing is allocated in the pool.\<close>

theorem clients_keep_blocks_apart:
  assumes "heap_ok b s" "live b s = {}"
  shows "\<exists>h held. client_run b xs (s, []) = Some (h, held) \<and>
    (\<forall>i<length held. 0 < snd (byte_range (held ! i)) \<and> unat (membase s b) \<le> fst (byte_range (held ! i)) \<and>
       fst (byte_range (held ! i)) + snd (byte_range (held ! i)) \<le> unat (membase s b) + unat (memsize b) \<and>
       (\<forall>j<length held. j \<noteq> i \<longrightarrow> blocks_apart (byte_range (held ! i)) (byte_range (held ! j)))) \<and>
    (held = [] \<longrightarrow> memmap h b = memmap s b)"
proof -
  have "ledger b s []" using assms by (simp add: ledger_def heap_ok_def pool.sound_def all_apart_def)
  from ledger_run [OF this] obtain h held where h: "client_run b xs (s, []) = Some (h, held)" "ledger b h held" "membase h = membase s" by blast
  have "memmap h b = memmap s b" if "held = []"
    using h(2) that assms live_table [of b h s] by (simp add: ledger_def)
  then show ?thesis using h ledger_ranges [OF h(2)] by (intro exI [of _ h] exI [of _ held]) simp
qed

lemma clients_keep_blocks_apart_witness:
  "\<exists>h held. client_run SRAMIN [Request 100, Request 64, Give_back 0] (demo_heap, []) = Some (h, held) \<and>
     (\<forall>i<length held. unat (membase demo_heap SRAMIN) \<le> fst (byte_range (held ! i)))"
  using clients_keep_blocks_apart [OF demo_heap_ok demo_live, of "[Request 100, Request 64, Give_back 0]"] by fast

end
