(* ===== verification/Usmart_Str.thy ===== *)
theory Usmart_Str
  imports Apollo_Prelude "HOL-Library.Char_ord"
begin

text \<open>
  The string routines of the serial debug shell, \<open>Middlewares/USMART/usmart_str.c\<close>. A C string
  is the list of its characters before the terminator, a \<open>char *\<close> into it the suffix from that
  position on, so that \<open>[]\<close> is a pointer to the terminator; \<open>char\<close> is unsigned on the target.
  Reading past the terminator, and writing outside a fixed-size array, is \<open>None\<close>.
\<close>

section \<open>Constants\<close>

definition MAX_FNAME_LEN :: nat where "MAX_FNAME_LEN = 30"
definition MAX_PARM :: nat where "MAX_PARM = 10"
definition PARM_LEN :: nat where "PARM_LEN = 200"

definition USMART_OK :: u8 where "USMART_OK = 0"
definition USMART_FUNCERR :: u8 where "USMART_FUNCERR = 1"
definition USMART_PARMERR :: u8 where "USMART_PARMERR = 2"
definition USMART_PARMOVER :: u8 where "USMART_PARMOVER = 3"
definition USMART_NOFUNCFIND :: u8 where "USMART_NOFUNCFIND = 4"

lemmas usmart_codes = USMART_OK_def USMART_FUNCERR_def USMART_PARMERR_def USMART_PARMOVER_def
  USMART_NOFUNCFIND_def MAX_FNAME_LEN_def MAX_PARM_def PARM_LEN_def

text \<open>\<open>*p\<close>: the character at a position, NUL at the terminator.\<close>

definition peek :: "string \<Rightarrow> char" where
  "peek p = (case p of [] \<Rightarrow> CHR 0x00 | c # _ \<Rightarrow> c)"

lemma peek_simps [simp]: "peek [] = CHR 0x00" "peek (c # p) = c"
  by (simp_all add: peek_def)

section \<open>Comparison, copy, length, power\<close>

fun usmart_strcmp :: "string \<Rightarrow> string \<Rightarrow> u8" where
  "usmart_strcmp [] [] = 0"
| "usmart_strcmp [] (b # bs) = 1"
| "usmart_strcmp (a # as) [] = 1"
| "usmart_strcmp (a # as) (b # bs) = (if a \<noteq> b then 1 else usmart_strcmp as bs)"

text \<open>\<open>dst\<close> is position \<open>i\<close> of the byte array it points into.\<close>

fun usmart_strcopy :: "string \<Rightarrow> u8 list \<Rightarrow> nat \<Rightarrow> u8 list option" where
  "usmart_strcopy [] dst i = arr_set dst i 0"
| "usmart_strcopy (c # src) dst i =
     (case arr_set dst i (of_char c) of None \<Rightarrow> None | Some dst' \<Rightarrow> usmart_strcopy src dst' (Suc i))"

fun strlen_loop :: "string \<Rightarrow> u8 \<Rightarrow> u8" where
  "strlen_loop [] len = len"
| "strlen_loop (c # str) len = strlen_loop str (len + 1)"

definition usmart_strlen :: "string \<Rightarrow> u8" where
  "usmart_strlen str = strlen_loop str 0"

fun pow_loop :: "u8 \<Rightarrow> nat \<Rightarrow> u32 \<Rightarrow> u32" where
  "pow_loop m 0 result = result"
| "pow_loop m (Suc n) result = pow_loop m n (result * ucast m)"

definition usmart_pow :: "u8 \<Rightarrow> u8 \<Rightarrow> u32" where
  "usmart_pow m n = pow_loop m (unat n) 1"

section \<open>Numbers\<close>

definition is_dec :: "char \<Rightarrow> bool" where
  "is_dec c \<longleftrightarrow> CHR ''0'' \<le> c \<and> c \<le> CHR ''9''"

definition is_hex_upper :: "char \<Rightarrow> bool" where
  "is_hex_upper c \<longleftrightarrow> CHR ''A'' \<le> c \<and> c \<le> CHR ''F''"

text \<open>
  The first loop checks the characters and counts the digits. \<open>p\<close> moves over the text, \<open>str\<close>
  over the leading signs only; both start at the same place, so that at the terminator the sign
  test is false. \<open>None\<close> is the \<open>return 1\<close> for a character that is not allowed.
\<close>

fun str2num_scan :: "string \<Rightarrow> string \<Rightarrow> u8 \<Rightarrow> u8 \<Rightarrow> u8 \<Rightarrow> (string \<times> u8 \<times> u8 \<times> u8) option" where
  "str2num_scan [] str bnum hexdec flag = Some (str, bnum, hexdec, flag)"
| "str2num_scan (c # p) str bnum hexdec flag =
     (if is_dec c \<or> ((peek str = CHR ''-'' \<or> peek str = CHR ''+'') \<and> bnum = 0)
         \<or> is_hex_upper c \<or> (c = CHR ''X'' \<and> bnum = 1)
      then
        let hexdec' = (if CHR ''A'' \<le> c then 16 else hexdec)
        in if peek str = CHR ''-'' then str2num_scan p (tl str) bnum hexdec' 2
           else if peek str = CHR ''+'' then str2num_scan p (tl str) bnum hexdec' 1
           else str2num_scan p str (bnum + 1) hexdec' flag
      else None)"

text \<open>The conversion loop reads at least one character; at the terminator it would run on.\<close>

fun str2num_conv :: "string \<Rightarrow> u8 \<Rightarrow> u8 \<Rightarrow> u32 \<Rightarrow> u32 option" where
  "str2num_conv [] bnum hexdec res = None"
| "str2num_conv (c # p) bnum hexdec res =
     (let bnum' = (if bnum \<noteq> 0 then bnum - 1 else bnum);
          t = (if is_dec c then of_char c - of_char CHR ''0''
               else of_char c - of_char CHR ''A'' + 10 :: u32);
          res' = res + t * usmart_pow hexdec bnum'
      in if p = [] then Some res' else str2num_conv p bnum' hexdec res')"

text \<open>The status code and \<open>*res\<close>.\<close>

definition usmart_str2num :: "string \<Rightarrow> (u8 \<times> u32) option" where
  "usmart_str2num str0 =
     (case str2num_scan str0 str0 0 10 0 of
        None \<Rightarrow> Some (1, 0)
      | Some (str, bnum, hexdec, flag) \<Rightarrow>
          let finish = (\<lambda>p bnum.
                map_option (\<lambda>res. (0, if flag = 2 then - res else res)) (str2num_conv p bnum hexdec 0))
          in if hexdec = 16 then
               if bnum < 3 then Some (2, 0)
               else if peek str = CHR ''0'' \<and> peek (tl str) = CHR ''X''
                    then finish (drop 2 str) (bnum - 2)
                    else Some (3, 0)
             else if bnum = 0 then Some (4, 0)
             else finish str bnum)"

section \<open>Command and function names\<close>

fun cmdname_loop :: "string \<Rightarrow> string \<Rightarrow> u8 \<Rightarrow> u8 \<Rightarrow> u8 \<times> string \<times> u8" where
  "cmdname_loop [] name nlen maxlen = (0, name, nlen)"
| "cmdname_loop (c # str) name nlen maxlen =
     (if c = CHR '' '' then (0, name, nlen)
      else let name' = name @ [c]; nlen' = nlen + 1
           in if nlen' \<ge> maxlen then (1, name', nlen') else cmdname_loop str name' nlen' maxlen)"

text \<open>Status, the characters written to \<open>cmdname\<close> (without the terminator), and \<open>*nlen\<close>.\<close>

definition usmart_get_cmdname :: "string \<Rightarrow> u8 \<Rightarrow> u8 \<times> string \<times> u8" where
  "usmart_get_cmdname str maxlen = cmdname_loop str [] 0 maxlen"

definition usmart_search_nextc :: "string \<Rightarrow> char option" where
  "usmart_search_nextc str =
     (case str of [] \<Rightarrow> None | c # rest \<Rightarrow> Some (peek (dropWhile (\<lambda>c. c = CHR '' '') rest)))"

text \<open>
  The first loop of \<open>usmart_get_fname\<close> collects the return type: up to five non-blank characters
  into \<open>fpname\<close>, a fifth one only if it is a star; \<open>pcnt\<close> counts them, with bit 7 set.
\<close>

fun rettype_loop :: "string \<Rightarrow> string \<Rightarrow> u8 \<Rightarrow> string \<times> u8" where
  "rettype_loop [] fpname pcnt = (fpname, pcnt)"
| "rettype_loop (c # strtemp) fpname pcnt =
     (if c \<noteq> CHR '' '' \<and> (pcnt AND 0x7F) < 5
      then let pcnt' = (if pcnt = 0 then pcnt OR 0x80 else pcnt)
           in if (pcnt' AND 0x7F) = 4 \<and> c \<noteq> CHR ''*'' then (fpname, pcnt')
              else rettype_loop strtemp (fpname @ [c]) (pcnt' + 1)
      else if pcnt = 0x85 then (fpname, pcnt)
      else rettype_loop strtemp fpname pcnt)"

text \<open>The second loop finds the last blank or star before the name proper.\<close>

fun name_start :: "string \<Rightarrow> u8 \<Rightarrow> u8 \<Rightarrow> u8" where
  "name_start [] res offset = offset"
| "name_start (c # strtemp) res offset =
     (if c = CHR ''('' then offset
      else
        let res' = res + 1;
            offset' =
              (if peek strtemp = CHR '' '' \<or> peek strtemp = CHR ''*''
               then (case usmart_search_nextc strtemp of
                       None \<Rightarrow> offset
                     | Some nchar \<Rightarrow>
                         if nchar \<noteq> CHR ''('' \<and> nchar \<noteq> CHR ''*'' then res' else offset)
               else offset)
        in name_start strtemp res' offset')"

text \<open>The locals of the third loop: bracket depth, string flag, name, parameter counters.\<close>

record fn_st =
  l_fover :: u8
  l_nchar :: bool
  l_fname :: string
  l_temp :: u8
  l_pcnt :: u8
  l_fplcnt :: u8
  l_fpname :: string
  l_parmnum :: u8

definition fname_char :: "char \<Rightarrow> fn_st \<Rightarrow> fn_st" where
  "fname_char c st =
     (if l_fover st = 0
      then if c \<noteq> CHR '' '' then st\<lparr>l_fname := l_fname st @ [c]\<rparr> else st
      else
        let st1 =
              (if c = CHR '','' then st\<lparr>l_temp := 1, l_pcnt := l_pcnt st + 1\<rparr>
               else if c \<noteq> CHR '' '' \<and> c \<noteq> CHR ''(''
               then let st2 = (if l_pcnt st = 0 \<and> l_fplcnt st < 5
                               then st\<lparr>l_fpname := l_fpname st @ [c], l_fplcnt := l_fplcnt st + 1\<rparr>
                               else st)
                    in st2\<lparr>l_temp := l_temp st2 + 1\<rparr>
               else st)
        in if l_fover st1 = 1 \<and> l_temp st1 = 2
           then st1\<lparr>l_temp := l_temp st1 + 1, l_parmnum := l_parmnum st1 + 1\<rparr>
           else st1)"

fun fname_loop :: "string \<Rightarrow> fn_st \<Rightarrow> u8 \<times> fn_st" where
  "fname_loop [] st = (USMART_FUNCERR, st)"
| "fname_loop (c # strtemp) st =
     (if c = CHR ''('' \<and> \<not> l_nchar st
      then fname_loop strtemp (fname_char c (st\<lparr>l_fover := l_fover st + 1\<rparr>))
      else if c = CHR '')'' \<and> \<not> l_nchar st
      then if l_fover st \<noteq> 0
           then if l_fover st - 1 = 0 then (0, st\<lparr>l_fover := 0\<rparr>)
                else fname_loop strtemp (fname_char c (st\<lparr>l_fover := l_fover st - 1\<rparr>))
           else (USMART_FUNCERR, st)
      else if c = CHR 0x22 then fname_loop strtemp (fname_char c (st\<lparr>l_nchar := \<not> l_nchar st\<rparr>))
      else fname_loop strtemp (fname_char c st))"

definition fn_init :: fn_st where
  "fn_init = \<lparr>l_fover = 0, l_nchar = False, l_fname = [], l_temp = 1, l_pcnt = 0, l_fplcnt = 0,
     l_fpname = [], l_parmnum = 0\<rparr>"

text \<open>
  Status, the characters written to \<open>fname\<close> (without the terminator; the function does not know
  the size of the buffer), \<open>*pnum\<close>, and \<open>*rval\<close>, which keeps its old value \<open>rval0\<close> when the text
  has no character but blanks.
\<close>

definition usmart_get_fname :: "string \<Rightarrow> u8 \<Rightarrow> u8 \<times> string \<times> u8 \<times> u8" where
  "usmart_get_fname str rval0 =
     (let (fp, pc) = rettype_loop str [] 0;
          rval = (if pc \<noteq> 0 then if usmart_strcmp fp ''void'' = 0 then 0 else 1 else rval0);
          offset = name_start str 0 0;
          strtemp = (if offset \<noteq> 0 then drop (unat offset + 1) str else str);
          (res, st) = fname_loop strtemp fn_init;
          pn = (if l_parmnum st = 1 \<and> usmart_strcmp (l_fpname st) ''void'' = 0 then 0 else l_parmnum st)
      in (res, l_fname st, pn, rval))"

section \<open>Parameters\<close>

definition is_num_char :: "char \<Rightarrow> bool" where
  "is_num_char c \<longleftrightarrow> is_dec c \<or> c = CHR ''-'' \<or> c = CHR ''+'' \<or>
     (CHR ''a'' \<le> c \<and> c \<le> CHR ''f'') \<or> is_hex_upper c \<or> c = CHR ''X'' \<or> c = CHR ''x''"

definition num_upper :: "char \<Rightarrow> char" where
  "num_upper c = (if CHR ''a'' \<le> c then char_of (of_char c - 0x20 :: nat) else c)"

text \<open>
  Offset \<open>i\<close> of the next parameter, the characters written to \<open>fparm\<close>, and \<open>*ptype\<close>. A string
  literal that is not closed makes the loop read past the terminator: \<open>None\<close>.
\<close>

fun aparm_loop :: "string \<Rightarrow> u8 \<Rightarrow> bool \<Rightarrow> u8 \<Rightarrow> bool \<Rightarrow> string \<Rightarrow> (u8 \<times> string \<times> u8) option" where
  "aparm_loop [] i enout type instr fparm =
     (if \<not> instr then Some (i, fparm, type) else None)"
| "aparm_loop (c # str) i enout type instr fparm =
     (let enout' = (if c = CHR '','' \<and> \<not> instr then True else enout)
      in if c = CHR '')'' \<and> \<not> instr then Some (i, fparm, type)
         else if type = 0 then
           if is_num_char c then
             if enout' then Some (i, fparm, type)
             else aparm_loop str (i + 1) enout' type instr (fparm @ [num_upper c])
           else if c = CHR 0x22 then
             if enout' then Some (i, fparm, type)
             else aparm_loop str (i + 1) enout' 1 True fparm
           else if c \<noteq> CHR '' '' \<and> c \<noteq> CHR '','' then Some (i, fparm, 0xFF)
           else aparm_loop str (i + 1) enout' type instr fparm
         else
           let instr' = (if c = CHR 0x22 then False else instr)
           in if enout' then Some (i, fparm, type)
              else if instr' then
                if c = CHR 0x5C then
                  (case str of
                     [] \<Rightarrow> None
                   | d # str' \<Rightarrow> aparm_loop str' (i + 2) enout' type instr' (fparm @ [d]))
                else aparm_loop str (i + 1) enout' type instr' (fparm @ [c])
              else aparm_loop str (i + 1) enout' type instr' fparm)"

definition usmart_get_aparm :: "string \<Rightarrow> (u8 \<times> string \<times> u8) option" where
  "usmart_get_aparm str = aparm_loop str 0 False 0 False []"

section \<open>The shell's state and the parameters of a call\<close>

record usmart_dev =
  funs :: "(u32 \<times> string) list"
  fnum :: u8
  pnum :: u8
  func_id :: u8
  sptype :: u8
  parmtype :: u16
  plentbl :: "u8 list"
  parm :: "u8 list"
  runtimeflag :: u8
  runtime :: u32

fun parmpos_loop :: "u8 list \<Rightarrow> nat \<Rightarrow> nat \<Rightarrow> u8 \<Rightarrow> u8 option" where
  "parmpos_loop tbl i 0 temp = Some temp"
| "parmpos_loop tbl i (Suc k) temp =
     (case arr_get tbl i of None \<Rightarrow> None | Some l \<Rightarrow> parmpos_loop tbl (Suc i) k (temp + l))"

definition usmart_get_parmpos :: "u8 \<Rightarrow> usmart_dev \<Rightarrow> u8 option" where
  "usmart_get_parmpos num dev = parmpos_loop (plentbl dev) 0 (unat num) 0"

text \<open>A 32-bit store at a byte position, little-endian as on the target.\<close>

fun bytes_le :: "nat \<Rightarrow> u32 \<Rightarrow> u8 list" where
  "bytes_le 0 v = []"
| "bytes_le (Suc k) v = ucast v # bytes_le k (drop_bit 8 v)"

fun store_bytes :: "u8 list \<Rightarrow> nat \<Rightarrow> u8 list \<Rightarrow> u8 list option" where
  "store_bytes arr i [] = Some arr"
| "store_bytes arr i (b # bs) =
     (case arr_set arr i b of None \<Rightarrow> None | Some arr' \<Rightarrow> store_bytes arr' (Suc i) bs)"

text \<open>
  \<open>plentbl\<close> is followed by \<open>parm\<close> in the structure, without a gap: a length that is stored behind the
  end of the one lands in the other.
\<close>

definition set_plen :: "u8 \<Rightarrow> u8 \<Rightarrow> usmart_dev \<Rightarrow> usmart_dev option" where
  "set_plen n len dev =
     (case arr_set (plentbl dev) (unat n) len of
        Some tbl \<Rightarrow> Some (dev\<lparr>plentbl := tbl\<rparr>)
      | None \<Rightarrow> map_option (\<lambda>pm. dev\<lparr>parm := pm\<rparr>) (arr_set (parm dev) (unat n - length (plentbl dev)) len))"

definition store_num :: "u8 \<Rightarrow> u32 \<Rightarrow> usmart_dev \<Rightarrow> usmart_dev option" where
  "store_num n res dev = do {
     pos \<leftarrow> usmart_get_parmpos n dev;
     pm \<leftarrow> store_bytes (parm dev) (unat pos) (bytes_le 4 res);
     set_plen n 4 (dev\<lparr>parm := pm, parmtype := parmtype dev AND NOT (push_bit (unat n) 1)\<rparr>)
   }"

definition store_str :: "u8 \<Rightarrow> string \<Rightarrow> usmart_dev \<Rightarrow> usmart_dev option" where
  "store_str n tstr dev = do {
     pos \<leftarrow> usmart_get_parmpos n dev;
     pm \<leftarrow> usmart_strcopy tstr (parm dev) (unat pos);
     set_plen n (usmart_strlen tstr + 1) (dev\<lparr>parm := pm, parmtype := parmtype dev OR push_bit (unat n) 1\<rparr>)
   }"

text \<open>
  One round of the loop: \<open>Inl\<close> is a return with its code, \<open>Inr\<close> the position, the number of
  parameters and the state the round ends with. \<open>tstr\<close> holds \<open>PARM_LEN\<close> characters and the
  terminator.
\<close>

definition fparam_round ::
  "string \<Rightarrow> u8 \<Rightarrow> usmart_dev \<Rightarrow> ((u8 \<times> usmart_dev) + (string \<times> u8 \<times> usmart_dev)) option" where
  "fparam_round str n dev = do {
     (i, tstr, type) \<leftarrow> usmart_get_aparm str;
     if PARM_LEN < length tstr then None
     else
       let str' = drop (unat i) str in
       if type = 0 then
         if tstr \<noteq> [] then do {
           (st, res) \<leftarrow> usmart_str2num tstr;
           if st \<noteq> 0 then Some (Inl (USMART_PARMERR, dev))
           else do {
             dev' \<leftarrow> store_num n res dev;
             if n + 1 > of_nat MAX_PARM then Some (Inl (USMART_PARMOVER, dev'))
             else Some (Inr (str', n + 1, dev'))
           }
         }
         else Some (Inr (str', n, dev))
       else if type = 1 then do {
         dev' \<leftarrow> store_str n tstr dev;
         if n + 1 > of_nat MAX_PARM then Some (Inl (USMART_PARMOVER, dev'))
         else Some (Inr (str', n + 1, dev'))
       }
       else Some (Inl (USMART_PARMERR, dev))
   }"

partial_function (option) fparam_loop ::
  "string \<Rightarrow> u8 \<Rightarrow> usmart_dev \<Rightarrow> (u8 \<times> u8 \<times> usmart_dev) option" where
  "fparam_loop str n dev =
     (case fparam_round str n dev of
        None \<Rightarrow> None
      | Some (Inl (code, dev')) \<Rightarrow> Some (code, n, dev')
      | Some (Inr (str', n', dev')) \<Rightarrow>
          if str' = [] \<or> peek str' = CHR '')'' then Some (USMART_OK, n', dev')
          else fparam_loop str' n' dev')"

declare fparam_loop.simps [code]

text \<open>Status, \<open>*parn\<close> (written on success only), and the state.\<close>

definition usmart_get_fparam :: "string \<Rightarrow> usmart_dev \<Rightarrow> (u8 \<times> u8 \<times> usmart_dev) option" where
  "usmart_get_fparam str dev0 =
     (let dev = dev0\<lparr>plentbl := replicate MAX_PARM 0\<rparr>
      in case dropWhile (\<lambda>c. c \<noteq> CHR ''('') str of
           [] \<Rightarrow> if str = [] then None else Some (USMART_FUNCERR, 0, dev)
         | _ # str' \<Rightarrow> fparam_loop str' 0 dev)"

section \<open>Facts on the elementary routines\<close>

lemma usmart_strcmp_iff: "usmart_strcmp s t = 0 \<longleftrightarrow> s = t"
  by (induction s t rule: usmart_strcmp.induct) simp_all

lemma strlen_loop_eq: "strlen_loop s l = l + of_nat (length s)"
  by (induction s arbitrary: l) (simp_all add: algebra_simps)

lemma usmart_strlen_eq: "usmart_strlen s = of_nat (length s)"
  by (simp add: usmart_strlen_def strlen_loop_eq)

lemma pow_loop_eq: "pow_loop m n r = r * ucast m ^ n"
  by (induction n arbitrary: r) (simp_all add: algebra_simps)

lemma usmart_pow_eq: "usmart_pow m n = ucast m ^ unat n"
  by (simp add: usmart_pow_def pow_loop_eq)

section \<open>Reading numbers\<close>

definition digit :: "char \<Rightarrow> nat" where
  "digit c = (if is_dec c then of_char c - 48 else of_char c - 55)"

text \<open>The value of a digit string, most significant digit first.\<close>

fun num_val :: "nat \<Rightarrow> string \<Rightarrow> nat" where
  "num_val base [] = 0"
| "num_val base (c # cs) = digit c * base ^ length cs + num_val base cs"

lemma is_dec_nat: "is_dec c \<longleftrightarrow> 48 \<le> (of_char c :: nat) \<and> (of_char c :: nat) \<le> 57"
  by (simp add: is_dec_def less_eq_char_def)

lemma is_hex_upper_nat: "is_hex_upper c \<longleftrightarrow> 65 \<le> (of_char c :: nat) \<and> (of_char c :: nat) \<le> 70"
  by (simp add: is_hex_upper_def less_eq_char_def)

lemma letter_nat: "CHR ''A'' \<le> c \<longleftrightarrow> 65 \<le> (of_char c :: nat)"
  by (simp add: less_eq_char_def)

lemma of_char_u32: "(of_char c :: u32) = of_nat (of_char c)"
  by (simp only: of_nat_of_char)

lemma digit_dec:
  assumes "is_dec c"
  shows "(of_char c - of_char CHR ''0'' :: u32) = of_nat (digit c)"
proof -
  have "48 \<le> (of_char c :: nat)" using assms by (simp add: is_dec_nat)
  then have "(of_nat (of_char c - 48) :: u32) = of_nat (of_char c) - of_nat 48"
    by (rule of_nat_diff)
  then show ?thesis using assms by (simp add: digit_def of_char_u32)
qed

lemma digit_hex:
  assumes "is_hex_upper c"
  shows "(of_char c - of_char CHR ''A'' + 10 :: u32) = of_nat (digit c)"
proof -
  have "55 \<le> (of_char c :: nat)" "\<not> is_dec c"
    using assms by (auto simp: is_dec_nat is_hex_upper_nat)
  moreover from this(1) have "(of_nat (of_char c - 55) :: u32) = of_nat (of_char c) - of_nat 55"
    by (rule of_nat_diff)
  ultimately show ?thesis by (simp add: digit_def of_char_u32)
qed

lemma conv_eq:
  assumes "list_all (\<lambda>c. is_dec c \<or> is_hex_upper c) ds" and "ds \<noteq> []" and "length ds < 256"
  shows "str2num_conv ds (of_nat (length ds)) base res =
           Some (res + of_nat (num_val (unat base) ds))"
  using assms
proof (induction ds arbitrary: res)
  case Nil
  then show ?case by simp
next
  case (Cons c cs)
  have b: "of_nat (length (c # cs)) \<noteq> (0 :: u8)"
    using word_of_nat_inj_small [of "length (c # cs)" 0, where 'a = 8] Cons.prems(3) by auto
  have len: "unat (of_nat (length cs) :: u8) = length cs"
    using Cons.prems(3) by (intro unat_of_nat_small) simp
  have t: "(if is_dec c then of_char c - of_char CHR ''0''
      else of_char c - of_char CHR ''A'' + 10 :: u32) = of_nat (digit c)"
    using Cons.prems(1) digit_dec digit_hex by auto
  have base: "(ucast base :: u32) = of_nat (unat base)" by simp
  have step: "of_nat (length (c # cs)) - 1 = (of_nat (length cs) :: u8)" by simp
  show ?case
  proof (cases "cs = []")
    case True
    then show ?thesis using b t by (simp add: usmart_pow_eq)
  next
    case False
    then have "str2num_conv cs (of_nat (length cs)) base
                 (res + of_nat (digit c) * usmart_pow base (of_nat (length cs))) =
               Some (res + of_nat (digit c) * usmart_pow base (of_nat (length cs)) +
                     of_nat (num_val (unat base) cs))"
      using Cons by simp
    moreover have "usmart_pow base (of_nat (length cs)) = of_nat (unat base ^ length cs)"
      using len base by (simp add: usmart_pow_eq)
    ultimately show ?thesis
      using False b t step by (simp add: algebra_simps)
  qed
qed

definition is_sign :: "char \<Rightarrow> bool" where
  "is_sign c \<longleftrightarrow> c = CHR ''-'' \<or> c = CHR ''+''"

definition sign_flag :: "string \<Rightarrow> u8" where
  "sign_flag signs = (if signs = [] then 0 else if last signs = CHR ''-'' then 2 else 1)"

lemma scan_signs:
  "list_all is_sign signs \<Longrightarrow>
     str2num_scan (signs @ ds) (signs @ ds) 0 10 f =
     str2num_scan ds ds 0 10 (if signs = [] then f else sign_flag signs)"
proof (induction signs arbitrary: f)
  case Nil
  then show ?case by simp
next
  case (Cons c signs)
  then show ?case by (auto simp: is_sign_def sign_flag_def less_eq_char_def)
qed

text \<open>Over digits the scan counts; a letter makes the number hexadecimal.\<close>

lemma scan_digits:
  "list_all (\<lambda>c. is_dec c \<or> is_hex_upper c) ds \<Longrightarrow> \<not> is_sign (peek str) \<Longrightarrow>
     str2num_scan ds str b h f =
       Some (str, b + of_nat (length ds), if list_all is_dec ds then h else 16, f)"
proof (induction ds arbitrary: b h)
  case Nil
  then show ?case by simp
next
  case (Cons c ds)
  have "CHR ''A'' \<le> c \<longleftrightarrow> \<not> is_dec c"
    using Cons.prems(1) by (auto simp: letter_nat is_dec_nat is_hex_upper_nat)
  with Cons show ?case by (auto simp: is_sign_def Let_def)
qed

lemma dec_not_sign: "is_dec c \<Longrightarrow> \<not> is_sign c"
  by (auto simp: is_dec_def is_sign_def)

lemma of_nat_u8_nonzero: "0 < n \<Longrightarrow> n < 256 \<Longrightarrow> (of_nat n :: u8) \<noteq> 0"
  using word_of_nat_inj_small [of n 0, where 'a = 8] by auto

lemma scan_signs0:
  "list_all is_sign signs \<Longrightarrow>
     str2num_scan (signs @ ds) (signs @ ds) 0 10 0 = str2num_scan ds ds 0 10 (sign_flag signs)"
  by (subst scan_signs) (simp_all add: sign_flag_def)

lemma sign_flag_2: "sign_flag signs = 2 \<longleftrightarrow> signs \<noteq> [] \<and> last signs = CHR ''-''"
  by (simp add: sign_flag_def)

definition signed_val :: "string \<Rightarrow> nat \<Rightarrow> u32" where
  "signed_val signs v =
     (if signs \<noteq> [] \<and> last signs = CHR ''-'' then - of_nat v else of_nat v)"

lemma decimal_value:
  assumes "list_all is_sign signs" and "list_all is_dec ds" and "ds \<noteq> []" and "length ds < 256"
  shows "usmart_str2num (signs @ ds) = Some (0, signed_val signs (num_val 10 ds))"
proof -
  have mixed: "list_all (\<lambda>c. is_dec c \<or> is_hex_upper c) ds"
    using assms(2) by (auto simp: list_all_iff)
  have "\<not> is_sign (peek ds)"
    using assms(2,3) by (cases ds) (simp_all add: dec_not_sign)
  then have "str2num_scan (signs @ ds) (signs @ ds) 0 10 0 =
      Some (ds, of_nat (length ds), 10, sign_flag signs)"
    using scan_signs0 [OF assms(1), of ds] scan_digits [OF mixed, of ds 0 10 "sign_flag signs"]
      assms(2) by simp
  moreover have "(of_nat (length ds) :: u8) \<noteq> 0"
    using assms(3,4) by (intro of_nat_u8_nonzero) simp_all
  ultimately show ?thesis
    using conv_eq [OF mixed assms(3,4), of 10 0]
    by (simp add: usmart_str2num_def sign_flag_2 signed_val_def)
qed

lemma scan_then_conv:
  "list_all is_dec ds \<Longrightarrow> ds \<noteq> [] \<Longrightarrow> length ds < 256 \<Longrightarrow>
     usmart_str2num ds = Some (0, of_nat (num_val 10 ds))"
  using decimal_value [of "[]" ds] by (simp add: signed_val_def)

text \<open>a decimal text, any leading signs followed by at least one and fewer than 256 digits, is
  read as its value modulo \<open>2 ^ 32\<close>, negated when the last sign is a minus.\<close>

theorem str2num_decimal:
  assumes "list_all is_sign signs" and "list_all is_dec ds" and "ds \<noteq> []" and "length ds < 256"
  shows "usmart_str2num (signs @ ds) = Some (0, signed_val signs (num_val 10 ds))"
  using assms by (rule decimal_value)

theorem str2num_decimal_witness: "usmart_str2num ''-4294967290'' = Some (0, 6)"
  using str2num_decimal [of "''-''" "''4294967290''"]
  by (simp add: is_sign_def is_dec_def digit_def signed_val_def)

text \<open>a hexadecimal text, any leading signs, the prefix \<open>0X\<close> and at least one and fewer than 254
  digits or capital letters A to F, is read as its value modulo \<open>2 ^ 32\<close>, negated when the last sign
  is a minus.\<close>

theorem str2num_hexadecimal:
  assumes "list_all is_sign signs" and "list_all (\<lambda>c. is_dec c \<or> is_hex_upper c) hs"
    and "hs \<noteq> []" and "length hs < 254"
  shows "usmart_str2num (signs @ ''0X'' @ hs) = Some (0, signed_val signs (num_val 16 hs))"
proof -
  let ?n = "length hs"
  let ?b = "2 + of_nat ?n :: u8"
  have "str2num_scan hs (''0X'' @ hs) 2 16 (sign_flag signs) =
          Some (''0X'' @ hs, ?b, 16, sign_flag signs)"
    using scan_digits [OF assms(2), of "''0X'' @ hs" 2 16 "sign_flag signs"] by (simp add: is_sign_def)
  then have scan: "str2num_scan (signs @ ''0X'' @ hs) (signs @ ''0X'' @ hs) 0 10 0 =
      Some (''0X'' @ hs, ?b, 16, sign_flag signs)"
    unfolding scan_signs0 [OF assms(1)] by (simp add: is_dec_def)
  have n: "0 < ?n" using assms(3) by simp
  have "?b = of_nat (?n + 2)" by simp
  then have "unat ?b = ?n + 2"
    using assms(4) unat_of_nat_small [of "?n + 2", where 'a = 8] by (simp del: of_nat_add)
  then have "\<not> ?b < 3" using n by (simp add: word_less_nat_alt)
  moreover have "?b - 2 = of_nat ?n" by simp
  moreover have "str2num_conv hs (of_nat ?n) 16 0 = Some (of_nat (num_val 16 hs))"
    using conv_eq [OF assms(2,3), of 16 0] assms(4) by simp
  ultimately show ?thesis
    using scan by (simp add: usmart_str2num_def sign_flag_2 signed_val_def)
qed

theorem str2num_hexadecimal_witness: "usmart_str2num ''0X1F'' = Some (0, 31)"
  using str2num_hexadecimal [of "[]" "''1F''"]
  by (simp add: is_dec_def is_hex_upper_def digit_def signed_val_def)

section \<open>Reading one parameter\<close>

text \<open>A text as a string literal: quotes and backslashes escaped.\<close>

definition escape :: "string \<Rightarrow> string" where
  "escape s = concat (map (\<lambda>c. if c = CHR 0x22 \<or> c = CHR 0x5C then [CHR 0x5C, c] else [c]) s)"

lemma escape_simps [simp]:
  "escape [] = []"
  "escape (c # s) = (if c = CHR 0x22 \<or> c = CHR 0x5C then CHR 0x5C # c # escape s else c # escape s)"
  by (simp_all add: escape_def)

lemma aparm_escaped:
  "aparm_loop (escape s @ CHR 0x22 # rest) i False 1 True acc =
     aparm_loop (CHR 0x22 # rest) (i + of_nat (length (escape s))) False 1 True (acc @ s)"
  by (induction s arbitrary: i acc) (simp_all add: Let_def add.commute add.left_commute)

text \<open>reading a string literal gives back the text it quotes, whatever characters it has, with
  type 1 and the offset of the character after the closing quote.\<close>

theorem aparm_string_roundtrip:
  "usmart_get_aparm (CHR 0x22 # escape s @ CHR 0x22 # CHR '')'' # rest) =
     Some (of_nat (length (escape s)) + 2, s, 1)"
  using aparm_escaped [of s "CHR '')'' # rest" 1 "[]"]
  by (simp add: usmart_get_aparm_def Let_def is_num_char_def is_dec_def is_hex_upper_def)

text \<open>a string literal that is never closed makes the reader run past the end of the input.\<close>

theorem aparm_unterminated:
  assumes "CHR 0x22 \<notin> set s"
  shows "usmart_get_aparm (CHR 0x22 # s) = None"
proof -
  have "aparm_loop s i False 1 True acc = None" for i acc
    using assms
  proof (induction s arbitrary: i acc rule: length_induct)
    case (1 s)
    show ?case
    proof (cases s)
      case Nil
      then show ?thesis by simp
    next
      case (Cons c t)
      have c: "c \<noteq> CHR 0x22" and t: "aparm_loop t i' False 1 True acc' = None" for i' acc'
        using 1 Cons by auto
      show ?thesis
      proof (cases "c = CHR 0x5C")
        case True
        have "aparm_loop u i' False 1 True acc' = None" if "t = d # u" for d u i' acc'
          using 1 Cons that by auto
        with True show ?thesis unfolding Cons by (auto simp: Let_def split: list.split)
      next
        case False
        with c t show ?thesis unfolding Cons by (auto simp: Let_def)
      qed
    qed
  qed
  then show ?thesis
    using assms by (simp add: usmart_get_aparm_def Let_def is_num_char_def is_dec_def is_hex_upper_def)
qed

theorem aparm_unterminated_witness: "usmart_get_aparm [CHR 0x22, CHR ''a''] = None"
  using aparm_unterminated [of "''a''"] by simp

section \<open>Reading the parameters of a call\<close>

text \<open>The text of a list of parameters, up to the closing bracket.\<close>

fun args_text :: "string list \<Rightarrow> string" where
  "args_text [] = '')''"
| "args_text [t] = t @ '')''"
| "args_text (t # ts) = t @ '','' @ args_text ts"

definition dec_token :: "string \<Rightarrow> bool" where
  "dec_token t \<longleftrightarrow> list_all is_dec t \<and> t \<noteq> [] \<and> length t \<le> PARM_LEN"

lemma parmpos_loop_eq:
  "i + k \<le> length tbl \<Longrightarrow> parmpos_loop tbl i k t = Some (t + sum_list (take k (drop i tbl)))"
proof (induction k arbitrary: i t)
  case 0
  then show ?case by simp
next
  case (Suc k)
  then have "drop i tbl = tbl ! i # drop (Suc i) tbl" by (simp add: Cons_nth_drop_Suc)
  with Suc show ?case by (simp add: arr_get_def add.assoc)
qed

lemma store_bytes_eq:
  "i + length bs \<le> length arr \<Longrightarrow>
     store_bytes arr i bs = Some (take i arr @ bs @ drop (i + length bs) arr)"
proof (induction bs arbitrary: i arr)
  case Nil
  then show ?case by simp
next
  case (Cons b bs)
  then have "i < length arr" by simp
  with Cons show ?case by (simp add: arr_set_def take_Suc_conv_app_nth)
qed

lemma length_bytes_le [simp]: "length (bytes_le k v) = k"
  by (induction k arbitrary: v) simp_all

text \<open>The state after the numbers \<open>vs\<close> have been stored.\<close>

definition with_numbers :: "u32 list \<Rightarrow> usmart_dev \<Rightarrow> usmart_dev" where
  "with_numbers vs dev =
     dev\<lparr>plentbl := replicate (length vs) 4 @ replicate (MAX_PARM - length vs) 0,
         parm := concat (map (bytes_le 4) vs) @ drop (4 * length vs) (parm dev),
         parmtype := fold (\<lambda>i t. t AND NOT (push_bit i 1)) [0..<length vs] (parmtype dev)\<rparr>"

text \<open>The state after one number too many: its length has replaced the first byte of the parameters.\<close>

definition with_too_many :: "u32 list \<Rightarrow> usmart_dev \<Rightarrow> usmart_dev" where
  "with_too_many vs dev =
     (with_numbers vs dev)\<lparr>plentbl := replicate MAX_PARM 4, parm := (parm (with_numbers vs dev))[0 := 4]\<rparr>"

lemma length_concat_bytes_le [simp]: "length (concat (map (bytes_le 4) vs)) = 4 * length vs"
  by (induction vs) simp_all

lemma sum_list_replicate_u8: "sum_list (replicate k (4 :: u8)) = of_nat (4 * k)"
  by (induction k) (simp_all add: algebra_simps)

lemma get_parmpos_numbers:
  assumes "length vs \<le> MAX_PARM"
  shows "usmart_get_parmpos (of_nat (length vs)) (with_numbers vs dev) = Some (of_nat (4 * length vs))"
proof -
  have "unat (of_nat (length vs) :: u8) = length vs"
    using assms by (intro unat_of_nat_small) (simp add: MAX_PARM_def)
  then show ?thesis
    using parmpos_loop_eq [of 0 "length vs" "replicate (length vs) 4 @ replicate (MAX_PARM - length vs) 0" 0]
    by (simp add: usmart_get_parmpos_def with_numbers_def sum_list_replicate_u8)
qed

lemma store_num_numbers:
  assumes "length vs \<le> MAX_PARM" and "length (parm dev) = PARM_LEN"
  shows "store_num (of_nat (length vs)) v (with_numbers vs dev) =
           Some (if length vs < MAX_PARM then with_numbers (vs @ [v]) dev else with_too_many (vs @ [v]) dev)"
proof -
  let ?k = "length vs"
  have k: "?k \<le> 10" using assms(1) by (simp add: MAX_PARM_def)
  have u: "unat (of_nat ?k :: u8) = ?k"
    using k by (simp add: unat_of_nat_small)
  have u4: "unat (of_nat (4 * ?k) :: u8) = 4 * ?k"
    using k by (intro unat_of_nat_small) simp
  have pos: "usmart_get_parmpos (of_nat ?k) (with_numbers vs dev) = Some (of_nat (4 * ?k))"
    by (rule get_parmpos_numbers [OF assms(1)])
  have plen: "plentbl (with_numbers vs dev) = replicate ?k 4 @ replicate (10 - ?k) 0"
    and pm: "parm (with_numbers vs dev) = concat (map (bytes_le 4) vs) @ drop (4 * ?k) (parm dev)"
    by (simp_all add: with_numbers_def MAX_PARM_def)
  have bytes: "store_bytes (parm (with_numbers vs dev)) (4 * ?k) (bytes_le 4 v) =
      Some (concat (map (bytes_le 4) (vs @ [v])) @ drop (4 * length (vs @ [v])) (parm dev))"
    using assms(2) k unfolding pm
    by (subst store_bytes_eq) (simp_all add: PARM_LEN_def add.commute)
  show ?thesis
  proof (cases "?k < 10")
    case True
    have "(replicate ?k (4 :: u8) @ replicate (10 - ?k) 0)[?k := 4] =
            replicate (Suc ?k) 4 @ replicate (10 - Suc ?k) 0"
    proof -
      obtain j where j: "10 - ?k = Suc j" using True by (cases "10 - ?k") simp_all
      then have "10 - Suc ?k = j" by simp
      with j show ?thesis
        by (simp add: list_update_append replicate_app_Cons_same)
    qed
    with True show ?thesis
      unfolding store_num_def pos Option.bind.simps u4 bytes plen
      by (simp add: set_plen_def u arr_set_def MAX_PARM_def with_numbers_def)
  next
    case False
    then have "length vs = 10" using k by simp
    moreover have "[0..<11] = [0..<10] @ [10 :: nat]" using upt_Suc [of 0 10] by simp
    ultimately show ?thesis
      using assms(2) unfolding store_num_def pos Option.bind.simps u4 bytes plen
      by (simp add: set_plen_def u arr_set_def MAX_PARM_def PARM_LEN_def with_numbers_def with_too_many_def)
  qed
qed

lemma num_upper_dec: "is_dec c \<Longrightarrow> num_upper c = c"
  by (auto simp: num_upper_def is_dec_def dest: order_trans)

lemma dec_plain:
  assumes "is_dec c"
  shows "c \<noteq> CHR '','' \<and> c \<noteq> CHR '')'' \<and> c \<noteq> CHR ''('' \<and> c \<noteq> CHR 0x22"
  using assms by (auto simp: is_dec_def)

lemma aparm_digits:
  "list_all is_dec t \<Longrightarrow>
     aparm_loop (t @ rest) i False 0 False acc =
     aparm_loop rest (i + of_nat (length t)) False 0 False (acc @ t)"
proof (induction t arbitrary: i acc)
  case Nil
  then show ?case by simp
next
  case (Cons c t)
  then show ?case
    using dec_plain [of c] by (simp add: Let_def is_num_char_def num_upper_dec add.assoc)
qed

lemma aparm_token:
  assumes t: "dec_token t"
    and rest: "(rest = CHR '')'' # r \<and> skip = 0) \<or> (rest = CHR '','' # d # r \<and> is_dec d \<and> skip = 1)"
  shows "usmart_get_aparm (t @ rest) = Some (of_nat (length t + skip), t, 0)"
proof -
  have "list_all is_dec t" using t by (simp add: dec_token_def)
  from aparm_digits [OF this, of rest 0 "[]"] rest dec_plain [of d] show ?thesis
    by (auto simp: usmart_get_aparm_def Let_def is_num_char_def is_dec_def is_hex_upper_def)
qed

lemma fparam_round_number:
  assumes t: "dec_token t"
    and rest: "(rest = CHR '')'' # r \<and> skip = 0) \<or> (rest = CHR '','' # d # r \<and> is_dec d \<and> skip = 1)"
    and store: "store_num n (of_nat (num_val 10 t)) dev = Some dev'"
    and n: "unat n < MAX_PARM"
  shows "fparam_round (t @ rest) n dev = Some (Inr (drop skip rest, n + 1, dev'))"
proof -
  have ds: "list_all is_dec t" "t \<noteq> []" "length t \<le> 200"
    using t by (simp_all add: dec_token_def PARM_LEN_def)
  note ap = aparm_token [OF t rest]
  have skip: "skip \<le> 1" using rest by auto
  have u: "unat (of_nat (length t + skip) :: u8) = length t + skip"
    using ds(3) skip by (intro unat_of_nat_small) simp
  have num: "usmart_str2num t = Some (0, of_nat (num_val 10 t))"
    using scan_then_conv [OF ds(1,2)] ds(3) by simp
  have "unat (n + 1) = unat n + 1" using n by (simp add: unat_word_ariths MAX_PARM_def)
  then have "\<not> n + 1 > of_nat MAX_PARM" using n by (simp add: word_less_nat_alt MAX_PARM_def)
  then show ?thesis
    using ds(2,3) store u by (simp add: fparam_round_def ap num PARM_LEN_def)
qed

lemma fparam_round_overflow:
  assumes t: "dec_token t"
    and rest: "(rest = CHR '')'' # r \<and> skip = 0) \<or> (rest = CHR '','' # d # r \<and> is_dec d \<and> skip = (1 :: nat))"
    and store: "store_num n (of_nat (num_val 10 t)) dev = Some dev'" and n: "n = of_nat MAX_PARM"
  shows "fparam_round (t @ rest) n dev = Some (Inl (USMART_PARMOVER, dev'))"
proof -
  have ds: "list_all is_dec t" "t \<noteq> []" "length t \<le> 200"
    using t by (simp_all add: dec_token_def PARM_LEN_def)
  show ?thesis
    using ds store scan_then_conv [OF ds(1,2)] n
    by (simp add: fparam_round_def aparm_token [OF t rest] PARM_LEN_def MAX_PARM_def)
qed

lemma args_text_head:
  "ts \<noteq> [] \<Longrightarrow> list_all dec_token ts \<Longrightarrow> \<exists>d r. args_text ts = d # r \<and> is_dec d"
  by (induction ts rule: args_text.induct) (auto simp: dec_token_def neq_Nil_conv)

lemma fparam_loop_numbers:
  assumes "list_all dec_token ts" and "ts \<noteq> []" and "length (parm dev) = PARM_LEN"
    and "length vs \<le> MAX_PARM"
  shows "fparam_loop (args_text ts) (of_nat (length vs)) (with_numbers vs dev) =
    (if length vs + length ts \<le> MAX_PARM
     then Some (USMART_OK, of_nat (length vs + length ts),
                with_numbers (vs @ map (\<lambda>t. of_nat (num_val 10 t)) ts) dev)
     else Some (USMART_PARMOVER, of_nat MAX_PARM,
                with_too_many (take (Suc MAX_PARM) (vs @ map (\<lambda>t. of_nat (num_val 10 t)) ts)) dev))"
  using assms
proof (induction ts arbitrary: vs)
  case Nil
  then show ?case by simp
next
  case (Cons t ts)
  let ?v = "of_nat (num_val 10 t) :: u32"
  define rest where "rest = (if ts = [] then '')'' else '','' @ args_text ts)"
  have shape: "args_text (t # ts) = t @ rest"
    by (cases ts) (simp_all add: rest_def)
  have t: "dec_token t" and ts: "list_all dec_token ts" using Cons.prems(1) by simp_all
  obtain skip r d where form:
    "(rest = CHR '')'' # r \<and> skip = 0) \<or> (rest = CHR '','' # d # r \<and> is_dec d \<and> skip = 1)"
    and skipped: "drop skip rest = (if ts = [] then '')'' else args_text ts)"
  proof (cases "ts = []")
    case True
    then show thesis by (intro that [of "[]" 0]) (simp_all add: rest_def)
  next
    case False
    then obtain d r where "args_text ts = d # r" "is_dec d" using args_text_head ts by blast
    with False show thesis by (intro that [of r 1 d]) (simp_all add: rest_def)
  qed
  have u: "unat (of_nat (length vs) :: u8) = length vs"
    using Cons.prems(4) by (intro unat_of_nat_small) (simp add: MAX_PARM_def)
  note store = store_num_numbers [OF Cons.prems(4,3), of ?v]
  show ?case
  proof (cases "length vs < MAX_PARM")
    case False
    then have len: "length vs = MAX_PARM" using Cons.prems(4) by simp
    have "fparam_round (t @ rest) (of_nat (length vs)) (with_numbers vs dev) =
        Some (Inl (USMART_PARMOVER, with_too_many (vs @ [?v]) dev))"
      using fparam_round_overflow [OF t form, of "of_nat (length vs)"] store len by simp
    with len show ?thesis
      unfolding shape by (simp add: fparam_loop.simps [of "t @ rest"])
  next
    case True
    have next_n: "of_nat (length vs) + 1 = (of_nat (length (vs @ [?v])) :: u8)" by simp
    have round: "fparam_round (t @ rest) (of_nat (length vs)) (with_numbers vs dev) =
        Some (Inr (drop skip rest, of_nat (length (vs @ [?v])), with_numbers (vs @ [?v]) dev))"
      using fparam_round_number [OF t form] store True u unfolding next_n by simp
    show ?thesis
    proof (cases "ts = []")
      case ts_nil: True
      with True round skipped show ?thesis
        unfolding shape by (simp add: fparam_loop.simps [of "t @ rest"])
    next
      case False
      then obtain d' r' where head: "args_text ts = d' # r'" "is_dec d'"
        using args_text_head ts by blast
      then have "fparam_loop (t @ rest) (of_nat (length vs)) (with_numbers vs dev) =
          fparam_loop (args_text ts) (of_nat (length (vs @ [?v]))) (with_numbers (vs @ [?v]) dev)"
        using round skipped False dec_plain [OF head(2)]
        by (simp add: fparam_loop.simps [of "t @ rest"])
      also have "\<dots> = (if length (vs @ [?v]) + length ts \<le> MAX_PARM
          then Some (USMART_OK, of_nat (length (vs @ [?v]) + length ts),
                with_numbers ((vs @ [?v]) @ map (\<lambda>t. of_nat (num_val 10 t)) ts) dev)
          else Some (USMART_PARMOVER, of_nat MAX_PARM,
                with_too_many (take (Suc MAX_PARM) ((vs @ [?v]) @ map (\<lambda>t. of_nat (num_val 10 t)) ts)) dev))"
        using True by (intro Cons.IH ts False Cons.prems(3)) simp
      finally show ?thesis unfolding shape by simp
    qed
  qed
qed

lemma fparam_numbers':
  assumes "list_all dec_token ts" and "ts \<noteq> []" and "CHR ''('' \<notin> set name"
    and "length (parm dev) = PARM_LEN"
  shows "usmart_get_fparam (name @ CHR ''('' # args_text ts) dev =
    (if length ts \<le> MAX_PARM
     then Some (USMART_OK, of_nat (length ts), with_numbers (map (\<lambda>t. of_nat (num_val 10 t)) ts) dev)
     else Some (USMART_PARMOVER, of_nat MAX_PARM, with_too_many (take (Suc MAX_PARM) (map (\<lambda>t. of_nat (num_val 10 t)) ts)) dev))"
proof -
  have "dropWhile (\<lambda>c. c \<noteq> CHR ''('') (name @ CHR ''('' # args_text ts) = CHR ''('' # args_text ts"
    using assms(3) by (induction name) auto
  moreover have "dev\<lparr>plentbl := replicate MAX_PARM 0\<rparr> = with_numbers [] dev"
    by (simp add: with_numbers_def)
  ultimately show ?thesis
    using fparam_loop_numbers [OF assms(1,2,4), of "[]"]
    by (simp add: usmart_get_fparam_def)
qed

text \<open>C35: A call whose parameters are decimal numbers is read completely: up to ten parameters are
  counted and stored as 32-bit words one after the other, with their lengths in \<open>plentbl\<close> and their
  type bits cleared. With more the result is \<open>USMART_PARMOVER\<close>, but it comes one parameter late: the
  eleventh has been stored too, and its length, written behind the end of \<open>plentbl\<close>, has replaced
  the first byte of the parameters.\<close>

theorem fparam_numbers:
  assumes "list_all dec_token ts" and "ts \<noteq> []" and "CHR ''('' \<notin> set name"
    and "length (parm dev) = PARM_LEN"
  shows "usmart_get_fparam (name @ CHR ''('' # args_text ts) dev =
    (if length ts \<le> MAX_PARM
     then Some (USMART_OK, of_nat (length ts), with_numbers (map (\<lambda>t. of_nat (num_val 10 t)) ts) dev)
     else Some (USMART_PARMOVER, of_nat MAX_PARM, with_too_many (take (Suc MAX_PARM) (map (\<lambda>t. of_nat (num_val 10 t)) ts)) dev))"
  using assms by (rule fparam_numbers')

theorem fparam_numbers_witness:
  "map_option (\<lambda>(st, n, dev). (st, n, take 8 (parm dev)))
     (usmart_get_fparam ''lcd_fill(1,258)''
       \<lparr>funs = [], fnum = 0, pnum = 0, func_id = 0, sptype = 1, parmtype = 0,
        plentbl = replicate 10 0, parm = replicate 200 0, runtimeflag = 0, runtime = 0\<rparr>) =
   Some (USMART_OK, 2, [1, 0, 0, 0, 2, 1, 0, 0])"
proof -
  let ?dev = "\<lparr>funs = [], fnum = 0, pnum = 0, func_id = 0, sptype = 1, parmtype = 0,
      plentbl = replicate 10 0, parm = replicate 200 0, runtimeflag = 0, runtime = 0\<rparr>"
  have "usmart_get_fparam (''lcd_fill'' @ CHR ''('' # args_text [''1'', ''258'']) ?dev =
      Some (USMART_OK, 2, with_numbers [1, 258] ?dev)"
    by (subst fparam_numbers) (simp_all add: dec_token_def is_dec_def PARM_LEN_def MAX_PARM_def digit_def)
  moreover have "take 8 (parm (with_numbers [1, 258] ?dev)) = [1, 0, 0, 0, 2, 1, 0, 0]"
    by code_simp
  ultimately show ?thesis by simp
qed

section \<open>The name of a command\<close>

lemma cmdname_short:
  "CHR '' '' \<notin> set w \<Longrightarrow> length acc + length w < unat maxlen \<Longrightarrow>
     cmdname_loop (w @ rest) acc (of_nat (length acc)) maxlen =
     cmdname_loop rest (acc @ w) (of_nat (length acc + length w)) maxlen"
proof (induction w arbitrary: acc)
  case Nil
  then show ?case by simp
next
  case (Cons c w)
  have "length acc + 1 < 256" using Cons.prems(2) unat_u8_less [of maxlen] by simp
  then have "unat (of_nat (length acc) + 1 :: u8) = length acc + 1"
    using unat_of_nat_small [of "length acc + 1", where 'a = 8] by (simp add: add.commute)
  then have "\<not> maxlen \<le> of_nat (length acc) + 1"
    using Cons.prems(2) by (simp add: word_le_nat_alt)
  then show ?case
    using Cons.IH [of "acc @ [c]"] Cons.prems by (auto simp: Let_def add.commute)
qed

text \<open>A first word shorter than the limit is the name.\<close>

lemma get_cmdname_word:
  assumes "CHR '' '' \<notin> set w" and "length w < unat maxlen" and "rest = [] \<or> peek rest = CHR '' ''"
  shows "usmart_get_cmdname (w @ rest) maxlen = (0, w, of_nat (length w))"
proof -
  have "cmdname_loop rest w n maxlen = (0, w, n)" for n
    using assms(3) by (cases rest) (auto simp: peek_def)
  then show ?thesis
    using cmdname_short [OF assms(1), of "[]" maxlen rest] assms(2)
    by (simp add: usmart_get_cmdname_def)
qed

end
