(* ===== verification/Event_Machine.thy ===== *)
theory Event_Machine
  imports Apollo_Prelude
begin

text \<open>
  Interrupt-driven components: a state that one handler after another updates. The contract of
  such a component is an invariant that every handler keeps, in which no handler accesses memory
  outside its arrays, and an abstract machine that the handlers follow.
\<close>

fun run_events :: "('s \<Rightarrow> 'e \<Rightarrow> 's option) \<Rightarrow> 's \<Rightarrow> 'e list \<Rightarrow> 's option" where
  "run_events handler s [] = Some s"
| "run_events handler s (e # es) =
     (case handler s e of None \<Rightarrow> None | Some s' \<Rightarrow> run_events handler s' es)"

lemma run_events_append:
  "run_events handler s (es @ fs) =
     (case run_events handler s es of None \<Rightarrow> None | Some s' \<Rightarrow> run_events handler s' fs)"
  by (induction es arbitrary: s) (simp_all split: option.split)

locale event_machine =
  fixes handler :: "'s \<Rightarrow> 'e \<Rightarrow> 's option"
    and inv :: "'s \<Rightarrow> bool"
  assumes handler_safe: "inv s \<Longrightarrow> \<exists>s'. handler s e = Some s' \<and> inv s'"
begin

lemma run_safe: "inv s \<Longrightarrow> \<exists>s'. run_events handler s es = Some s' \<and> inv s'"
proof (induction es arbitrary: s)
  case Nil
  then show ?case by simp
next
  case (Cons e es)
  from handler_safe [OF Cons.prems, of e] obtain s1 where "handler s e = Some s1" "inv s1" by blast
  with Cons.IH [of s1] show ?case by simp
qed

end

locale refined_machine = event_machine handler inv
  for handler :: "'s \<Rightarrow> 'e \<Rightarrow> 's option" and inv :: "'s \<Rightarrow> bool" +
  fixes abs_state :: "'s \<Rightarrow> 'a"
    and abs_step :: "'a \<Rightarrow> 'e \<Rightarrow> 'a"
  assumes handler_refines:
    "inv s \<Longrightarrow> handler s e = Some s' \<Longrightarrow> abs_state s' = abs_step (abs_state s) e"
begin

lemma run_refines:
  "inv s \<Longrightarrow> \<exists>s'. run_events handler s es = Some s' \<and> inv s' \<and>
     abs_state s' = foldl abs_step (abs_state s) es"
proof (induction es arbitrary: s)
  case Nil
  then show ?case by simp
next
  case (Cons e es)
  from handler_safe [OF Cons.prems, of e] obtain s1 where s1: "handler s e = Some s1" "inv s1" by blast
  then have "abs_state s1 = abs_step (abs_state s) e" using handler_refines Cons.prems by blast
  with s1 Cons.IH [of s1] show ?case by simp
qed

end

end
