(* ===== verification/Usart.thy ===== *)
theory Usart
  imports Event_Machine
begin

text \<open>
  The serial receiver of \<open>usart.c\<close>: the receive callback, which collects a line ended by CR LF
  in \<open>g_usart_rx_buf\<close> and keeps its progress in the 16 bits of \<open>g_usart_rx_sta\<close>, the
  interrupt handler around it, and \<open>usmart_get_input_string\<close> of \<open>usmart_port.c\<close>, which
  takes a finished line out of the buffer. The abstract receiver says what is promised: a line
  in one of three phases.
\<close>

definition USART_REC_LEN :: nat where "USART_REC_LEN = 200"

record usart =
  g_usart_rx_buf :: "u8 list"
  g_usart_rx_sta :: u16

definition usart_reset :: usart where
  "usart_reset = \<lparr>g_usart_rx_buf = replicate USART_REC_LEN 0, g_usart_rx_sta = 0\<rparr>"

text \<open>
  The callback, with the received byte of \<open>g_rx_buffer[0]\<close> as its argument and the test of the
  \<open>Instance\<close> field as \<open>is_ux\<close>.
\<close>

definition HAL_UART_RxCpltCallback :: "bool \<Rightarrow> u8 \<Rightarrow> usart \<Rightarrow> usart option" where
  "HAL_UART_RxCpltCallback is_ux b s =
     (if is_ux then
        if g_usart_rx_sta s AND 0x8000 = 0 then
          if g_usart_rx_sta s AND 0x4000 \<noteq> 0 then
            if b \<noteq> 0x0A then Some (s\<lparr>g_usart_rx_sta := 0\<rparr>)
            else Some (s\<lparr>g_usart_rx_sta := g_usart_rx_sta s OR 0x8000\<rparr>)
          else if b = 0x0D then Some (s\<lparr>g_usart_rx_sta := g_usart_rx_sta s OR 0x4000\<rparr>)
          else do {
            buf \<leftarrow> arr_set (g_usart_rx_buf s) (unat (g_usart_rx_sta s AND 0x3FFF)) b;
            let sta = g_usart_rx_sta s + 1;
            Some (s\<lparr>g_usart_rx_buf := buf,
                    g_usart_rx_sta := (if unat sta > USART_REC_LEN - 1 then 0 else sta)\<rparr>)
          }
        else Some s
      else Some s)"

text \<open>
  \<open>usmart_get_input_string\<close>: the line of the finished reception, with its terminator, or nothing.
  The length goes through an 8-bit variable.
\<close>

definition usmart_get_input_string :: "usart \<Rightarrow> (u8 list option \<times> usart) option" where
  "usmart_get_input_string s =
     (if g_usart_rx_sta s AND 0x8000 \<noteq> 0 then do {
        let len = (ucast (g_usart_rx_sta s AND 0x3FFF) :: u8);
        buf \<leftarrow> arr_set (g_usart_rx_buf s) (unat len) 0;
        Some (Some (takeWhile (\<lambda>b. b \<noteq> 0) buf), s\<lparr>g_usart_rx_buf := buf, g_usart_rx_sta := 0\<rparr>)
      }
      else Some (None, s))"

text \<open>
  The interrupt handler: the HAL handler, which calls the callback, then two loops that poll the
  HAL until it answers or \<open>maxDelay\<close> polls have failed. The HAL is a parameter: each call maps its
  state to a new one and an answer.
\<close>

fun poll_until :: "('w \<Rightarrow> 'w \<times> bool) \<Rightarrow> nat \<Rightarrow> 'w \<Rightarrow> 'w" where
  "poll_until poll 0 w = fst (poll w)"
| "poll_until poll (Suc k) w = (case poll w of (w', ok) \<Rightarrow> if ok then w' else poll_until poll k w')"

record 'w uart_hal =
  hal_uart_irq :: "'w \<Rightarrow> 'w"
  hal_uart_ready :: "'w \<Rightarrow> 'w \<times> bool"
  hal_uart_receive_it :: "'w \<Rightarrow> 'w \<times> bool"

definition USART_UX_IRQHandler :: "'w uart_hal \<Rightarrow> 'w \<Rightarrow> 'w" where
  "USART_UX_IRQHandler hal w =
     poll_until (hal_uart_receive_it hal) 0x1FFFF
       (poll_until (hal_uart_ready hal) 0x1FFFF (hal_uart_irq hal w))"

section \<open>The abstract receiver\<close>

datatype line = Filling "u8 list" | GotCR "u8 list" | Complete "u8 list"

datatype serial_event = Received u8 | Polled

fun line_step :: "line \<Rightarrow> serial_event \<Rightarrow> line" where
  "line_step (Filling l) (Received b) =
     (if b = 0x0D then GotCR l
      else if length l + 1 < USART_REC_LEN then Filling (l @ [b]) else Filling [])"
| "line_step (GotCR l) (Received b) = (if b = 0x0A then Complete l else Filling [])"
| "line_step (Complete l) (Received b) = Complete l"
| "line_step (Complete l) Polled = Filling []"
| "line_step l Polled = l"

definition serial_handler :: "usart \<Rightarrow> serial_event \<Rightarrow> usart option" where
  "serial_handler s e =
     (case e of
        Received b \<Rightarrow> HAL_UART_RxCpltCallback True b s
      | Polled \<Rightarrow> map_option snd (usmart_get_input_string s))"

definition rx_count :: "usart \<Rightarrow> nat" where
  "rx_count s = unat (g_usart_rx_sta s AND 0x3FFF)"

definition abs_line :: "usart \<Rightarrow> line" where
  "abs_line s =
     (let l = take (rx_count s) (g_usart_rx_buf s)
      in if bit (g_usart_rx_sta s) 15 then Complete l
         else if bit (g_usart_rx_sta s) 14 then GotCR l else Filling l)"

definition usart_inv :: "usart \<Rightarrow> bool" where
  "usart_inv s \<longleftrightarrow> length (g_usart_rx_buf s) = USART_REC_LEN \<and> rx_count s < USART_REC_LEN"

lemma sta_masks:
  "(0x8000 :: u16) = push_bit 15 1" "(0x4000 :: u16) = push_bit 14 1" "(0x3FFF :: u16) = mask 14"
  by (simp_all add: mask_eq_exp_minus_1)

lemma and_flag_zero:
  "w AND 0x8000 = 0 \<longleftrightarrow> \<not> bit (w :: u16) 15" "w AND 0x4000 = 0 \<longleftrightarrow> \<not> bit (w :: u16) 14"
  unfolding sta_masks by (simp_all add: bit_iff_and_push_bit_not_eq_0)

lemma bit_sta_masks:
  "bit (0x8000 :: u16) n \<longleftrightarrow> n = 15" "bit (0x4000 :: u16) n \<longleftrightarrow> n = 14"
  "bit (0x3FFF :: u16) n \<longleftrightarrow> n < 14"
  unfolding sta_masks bit_push_bit_iff bit_mask_iff by (auto simp: bit_1_iff)

lemma bit_or_flag:
  "bit (w OR 0x8000) n \<longleftrightarrow> bit (w :: u16) n \<or> n = 15"
  "bit (w OR 0x4000) n \<longleftrightarrow> bit (w :: u16) n \<or> n = 14"
  unfolding bit_or_iff bit_sta_masks by (rule refl)+

lemma count_or_flag:
  "(w OR 0x8000) AND 0x3FFF = (w :: u16) AND 0x3FFF"
  "(w OR 0x4000) AND 0x3FFF = (w :: u16) AND 0x3FFF"
  by (rule bit_word_eqI, unfold bit_or_iff bit_and_iff bit_sta_masks, force)+

lemma count_filling:
  assumes "\<not> bit (w :: u16) 15" and "\<not> bit w 14"
  shows "w AND 0x3FFF = w"
proof (rule bit_word_eqI)
  fix n assume "n < LENGTH(16)"
  then have "n < 14 \<or> n = 14 \<or> n = 15" by auto
  then show "bit (w AND 0x3FFF) n = bit w n"
    using assms unfolding bit_and_iff bit_sta_masks by blast
qed

lemma bits_small:
  assumes "unat (w :: u16) < 2 ^ 14"
  shows "\<not> bit w 15 \<and> \<not> bit w 14"
proof -
  have "\<not> bit (unat w) 15 \<and> \<not> bit (unat w) 14" using assms by (simp add: bit_iff_odd)
  then show ?thesis by (simp add: bit_unsigned_iff)
qed

lemma handler_step:
  assumes "usart_inv s"
  shows "\<exists>s'. serial_handler s e = Some s' \<and> usart_inv s' \<and> abs_line s' = line_step (abs_line s) e"
proof -
  let ?sta = "g_usart_rx_sta s" and ?buf = "g_usart_rx_buf s"
  have len: "length ?buf = 200" and n: "unat (?sta AND 0x3FFF) < 200"
    using assms by (simp_all add: usart_inv_def rx_count_def USART_REC_LEN_def)
  show ?thesis
  proof (cases e)
    case Polled
    have "unat (ucast (?sta AND 0x3FFF) :: u8) = unat (?sta AND 0x3FFF)"
      using n by (simp add: unsigned_ucast_eq take_bit_nat_eq_self)
    then show ?thesis
      using len n Polled
      by (auto simp: serial_handler_def usmart_get_input_string_def and_flag_zero arr_set_Some
          usart_inv_def rx_count_def USART_REC_LEN_def abs_line_def Let_def)
  next
    case (Received b)
    note defs = serial_handler_def HAL_UART_RxCpltCallback_def and_flag_zero count_or_flag
      bit_or_flag usart_inv_def rx_count_def USART_REC_LEN_def abs_line_def
    consider "bit ?sta 15" | "\<not> bit ?sta 15" "bit ?sta 14"
      | "\<not> bit ?sta 15" "\<not> bit ?sta 14" "b = 0x0D"
      | "\<not> bit ?sta 15" "\<not> bit ?sta 14" "b \<noteq> 0x0D" by blast
    then show ?thesis
    proof cases
      case 1
      then show ?thesis using len n Received by (simp add: defs Let_def)
    next
      case 2
      then show ?thesis using len n Received by (simp add: defs Let_def)
    next
      case 3
      then show ?thesis using len n Received by (simp add: defs Let_def)
    next
      case 4
      then have fill: "?sta AND 0x3FFF = ?sta" by (intro count_filling) simp_all
      then have k: "unat ?sta < 200" using n by simp
      then have k1: "unat (?sta + 1) = unat ?sta + 1" by (simp add: unat_word_ariths)
      have small: "\<not> bit (?sta + 1) 15 \<and> \<not> bit (?sta + 1) 14"
        using k k1 by (intro bits_small) simp
      have cnt: "(?sta + 1) AND 0x3FFF = ?sta + 1" using small by (intro count_filling) simp_all
      show ?thesis
        using 4 len k k1 small cnt fill Received
        by (simp add: defs arr_set_Some Let_def take_Suc_conv_app_nth)
    qed
  qed
qed

interpretation serial: refined_machine serial_handler usart_inv abs_line line_step
proof
  fix s e
  assume "usart_inv s"
  from handler_step [OF this, of e] show "\<exists>s'. serial_handler s e = Some s' \<and> usart_inv s'" by blast
next
  fix s e s'
  assume "usart_inv s" and "serial_handler s e = Some s'"
  with handler_step [of s e] show "abs_line s' = line_step (abs_line s) e" by auto
qed

lemma usart_reset_inv: "usart_inv usart_reset" "abs_line usart_reset = Filling []"
  by (simp_all add: usart_inv_def usart_reset_def rx_count_def USART_REC_LEN_def abs_line_def)

lemma filling_line:
  "0x0D \<notin> set l \<Longrightarrow> length acc + length l < USART_REC_LEN \<Longrightarrow>
     foldl line_step (Filling acc) (map Received l) = Filling (acc @ l)"
  by (induction l arbitrary: acc) auto

text \<open>C8: whatever bytes arrive and whenever the buffer is polled, the receiver never writes outside
  \<open>g_usart_rx_buf\<close> and always holds the line that the abstract receiver holds.\<close>

theorem serial_follows_line:
  "\<exists>s. run_events serial_handler usart_reset es = Some s \<and>
     abs_line s = foldl line_step (Filling []) es"
  using serial.run_refines [OF usart_reset_inv(1), of es] usart_reset_inv(2) by auto

text \<open>C36: a line of fewer than 200 bytes without a carriage return, sent with CR LF, is what the
  shell's \<open>usmart_get_input_string\<close> returns, up to its first NUL, also when further bytes arrive
  before it is called; and the receiver is then ready for the next line.\<close>

theorem line_delivered:
  assumes "0x0D \<notin> set l" and "length l < USART_REC_LEN"
  shows "\<exists>s s'. run_events serial_handler usart_reset
            (map Received l @ [Received 0x0D, Received 0x0A] @ map Received late) = Some s \<and>
          usmart_get_input_string s = Some (Some (takeWhile (\<lambda>b. b \<noteq> 0) l), s') \<and>
          abs_line s' = Filling []"
proof -
  let ?es = "map Received l @ [Received 0x0D, Received 0x0A] @ map Received late"
  have late: "foldl line_step (Complete l) (map Received late) = Complete l" by (induction late) simp_all
  have "foldl line_step (Filling []) ?es = Complete l"
    using filling_line [OF assms(1), of "[]"] assms(2) late by simp
  then obtain s where s: "run_events serial_handler usart_reset ?es = Some s" "usart_inv s"
      "abs_line s = Complete l"
    using serial.run_refines [OF usart_reset_inv(1), of ?es] usart_reset_inv(2) by auto
  let ?sta = "g_usart_rx_sta s" and ?buf = "g_usart_rx_buf s"
  let ?n = "unat (?sta AND 0x3FFF)"
  have n: "?n < 200" and len: "length ?buf = 200" and b: "bit ?sta 15" and l: "take ?n ?buf = l"
    using s(2,3)
    by (auto simp: usart_inv_def abs_line_def rx_count_def USART_REC_LEN_def Let_def split: if_splits)
  have u: "unat (ucast (?sta AND 0x3FFF) :: u8) = ?n"
    using n by (simp add: unsigned_ucast_eq take_bit_nat_eq_self)
  have "?buf[?n := 0] = l @ 0 # drop (Suc ?n) ?buf"
    using n len l by (simp add: upd_conv_take_nth_drop)
  then have "takeWhile (\<lambda>b. b \<noteq> 0) (?buf[?n := 0]) = takeWhile (\<lambda>b. b \<noteq> 0) l"
    by (simp only: takeWhile_tail simp_thms)
  then have "usmart_get_input_string s = Some (Some (takeWhile (\<lambda>b. b \<noteq> 0) l),
      s\<lparr>g_usart_rx_buf := ?buf[?n := 0], g_usart_rx_sta := 0\<rparr>)"
    using u n len b
    by (simp add: usmart_get_input_string_def and_flag_zero arr_set_Some Let_def)
  with s(1) show ?thesis by (auto simp: abs_line_def rx_count_def)
qed

theorem line_delivered_witness:
  "\<exists>s s'. run_events serial_handler usart_reset
            [Received 105, Received 100, Received 0x0D, Received 0x0A, Received 7] = Some s \<and>
          usmart_get_input_string s = Some (Some [105, 100], s') \<and> abs_line s' = Filling []"
  using line_delivered [of "[105, 100]" "[7]"] by (simp add: USART_REC_LEN_def)

end
