(* ===== verification/Usmart.thy ===== *)
theory Usmart
  imports Usmart_Str Usart
begin

text \<open>
  The shell itself: \<open>usmart.c\<close>, the name table and the initial state of \<open>usmart_config.c\<close>, and
  the timer part of \<open>usmart_port.c\<close>. Printed text is a list of printf calls (format and
  arguments; the fixed Chinese lines are named). The functions of the table, with the world they
  change, are a parameter; so is the content of uninitialised locals. The two name buffers of 30
  bytes are checked: a name that does not fit is \<open>None\<close>.
\<close>

definition SP_TYPE_DEC :: u8 where "SP_TYPE_DEC = 0"
definition SP_TYPE_HEX :: u8 where "SP_TYPE_HEX = 1"

datatype parg = Str string | Chr char | U32 u32

datatype notice = Help_page | List_header | Id_header | Hex_display | Dec_display
  | Function_error | Parameter_error | Too_many_parameters | No_such_function

datatype printed = Printf string "parg list" | Notice notice

definition crlf :: string where "crlf = [CHR 0x0D, CHR 0x0A]"

definition sys_cmd_tab :: "string list" where
  "sys_cmd_tab = [''?'', ''help'', ''list'', ''id'', ''hex'', ''dec'', ''runtime'']"

section \<open>System commands\<close>

text \<open>The index at which the search loop stops, the length of the table when nothing matches.\<close>

fun find_cmd :: "string \<Rightarrow> string list \<Rightarrow> nat" where
  "find_cmd name [] = 0"
| "find_cmd name (c # cs) = (if usmart_strcmp name c = 0 then 0 else Suc (find_cmd name cs))"

text \<open>A loop over the first \<open>fnum\<close> entries of the table.\<close>

fun each_fun ::
  "((u32 \<times> string) \<Rightarrow> printed list option) \<Rightarrow> (u32 \<times> string) list \<Rightarrow> nat \<Rightarrow> nat \<Rightarrow> printed list option" where
  "each_fun body tab i 0 = Some []"
| "each_fun body tab i (Suc k) =
     (case arr_get tab i of
        None \<Rightarrow> None
      | Some f \<Rightarrow> do { o1 \<leftarrow> body f; o2 \<leftarrow> each_fun body tab (Suc i) k; Some (o1 @ o2) })"

definition list_line :: "(u32 \<times> string) \<Rightarrow> printed list option" where
  "list_line f = Some [Printf (''%s'' @ crlf) [Str (snd f)]]"

definition id_line :: "(u32 \<times> string) \<Rightarrow> printed list option" where
  "id_line f =
     (case usmart_get_fname (snd f) 0 of
        (_, sfname, _, _) \<Rightarrow>
          if length sfname < MAX_FNAME_LEN
          then Some [Printf (''%s id is:'' @ crlf @ ''0X%08X'' @ crlf) [Str sfname, U32 (fst f)]]
          else None)"

text \<open>
  The argument of \<open>hex\<close>, \<open>dec\<close> and \<open>runtime\<close>, read into \<open>sfname\<close>: its type, the status of the
  conversion and the value.
\<close>

definition cmd_arg :: "string \<Rightarrow> (u8 \<times> u8 \<times> u32) option" where
  "cmd_arg str = do {
     (_, tstr, type) \<leftarrow> usmart_get_aparm str;
     if length tstr < MAX_FNAME_LEN then
       if type = 0 then do { (st, res) \<leftarrow> usmart_str2num tstr; Some (type, st, res) }
       else Some (type, 0, 0)
     else None
   }"

definition usmart_sys_cmd_exe :: "string \<Rightarrow> usmart_dev \<Rightarrow> (u8 \<times> usmart_dev \<times> printed list) option" where
  "usmart_sys_cmd_exe str0 dev =
     (case usmart_get_cmdname str0 (of_nat MAX_FNAME_LEN) of (st, sfname, i) \<Rightarrow>
        if st \<noteq> 0 then Some (USMART_FUNCERR, dev, [])
        else
          let str = drop (unat i) str0;
              cmd = find_cmd sfname sys_cmd_tab;
              nl = Printf crlf []
          in if cmd = 0 \<or> cmd = 1 then Some (0, dev, [nl, Notice Help_page])
             else if cmd = 2 then do {
               ls \<leftarrow> each_fun list_line (funs dev) 0 (unat (fnum dev));
               Some (0, dev, [nl, Notice List_header] @ ls @ [nl])
             }
             else if cmd = 3 then do {
               ls \<leftarrow> each_fun id_line (funs dev) 0 (unat (fnum dev));
               Some (0, dev, [nl, Notice Id_header] @ ls @ [nl])
             }
             else if cmd = 4 then do {
               (type, st, res) \<leftarrow> cmd_arg str;
               if type \<noteq> 0 then Some (USMART_PARMERR, dev, [nl])
               else if st = 0 then Some (0, dev, [nl, Printf (''HEX:0X%X'' @ crlf) [U32 res], nl])
               else if st \<noteq> 4 then Some (USMART_PARMERR, dev, [nl])
               else Some (0, dev\<lparr>sptype := SP_TYPE_HEX\<rparr>, [nl, Notice Hex_display, nl])
             }
             else if cmd = 5 then do {
               (type, st, res) \<leftarrow> cmd_arg str;
               if type \<noteq> 0 then Some (USMART_PARMERR, dev, [nl])
               else if st = 0 then Some (0, dev, [nl, Printf (''DEC:%lu'' @ crlf) [U32 res], nl])
               else if st \<noteq> 4 then Some (USMART_PARMERR, dev, [nl])
               else Some (0, dev\<lparr>sptype := SP_TYPE_DEC\<rparr>, [nl, Notice Dec_display, nl])
             }
             else if cmd = 6 then do {
               (type, st, res) \<leftarrow> cmd_arg str;
               if type \<noteq> 0 then Some (USMART_PARMERR, dev, [nl])
               else if st \<noteq> 0 then Some (USMART_PARMERR, dev, [nl])
               else
                 let flag = (ucast res :: u8);
                     msg = (if flag \<noteq> 0 then ''Run Time Calculation ON'' else ''Run Time Calculation OFF'')
                 in Some (0, dev\<lparr>runtimeflag := flag\<rparr>, [nl, Printf (msg @ crlf) [], nl])
             }
             else Some (USMART_FUNCERR, dev, []))"

section \<open>Recognising a call\<close>

text \<open>The search loop from index \<open>i\<close> with \<open>k\<close> entries left: an error, or the index it stops at.\<close>

fun rec_loop :: "(u32 \<times> string) list \<Rightarrow> string \<Rightarrow> u8 \<Rightarrow> nat \<Rightarrow> nat \<Rightarrow> (u8 + nat) option" where
  "rec_loop tab rfname rpnum i 0 = Some (Inr i)"
| "rec_loop tab rfname rpnum i (Suc k) =
     (case arr_get tab i of
        None \<Rightarrow> None
      | Some f \<Rightarrow>
          (case usmart_get_fname (snd f) 0 of
             (sta, sfname, spnum, _) \<Rightarrow>
               if \<not> length sfname < MAX_FNAME_LEN then None
               else if sta \<noteq> 0 then Some (Inl sta)
               else if usmart_strcmp sfname rfname = 0 then
                 if spnum > rpnum then Some (Inl USMART_PARMERR) else Some (Inr i)
               else rec_loop tab rfname rpnum (Suc i) k))"

definition usmart_cmd_rec :: "string \<Rightarrow> usmart_dev \<Rightarrow> (u8 \<times> usmart_dev) option" where
  "usmart_cmd_rec str dev =
     (case usmart_get_fname str 0 of (sta, rfname, rpnum, _) \<Rightarrow>
        if \<not> length rfname < MAX_FNAME_LEN then None
        else if sta \<noteq> 0 then Some (sta, dev)
        else do {
          found \<leftarrow> rec_loop (funs dev) rfname rpnum 0 (unat (fnum dev));
          case found of
            Inl err \<Rightarrow> Some (err, dev)
          | Inr i \<Rightarrow>
              if i = unat (fnum dev) then Some (USMART_NOFUNCFIND, dev)
              else do {
                (st, n, dev') \<leftarrow> usmart_get_fparam str (dev\<lparr>func_id := of_nat i\<rparr>);
                if st \<noteq> 0 then Some (st, dev') else Some (USMART_OK, dev'\<lparr>pnum := n\<rparr>)
              }
        })"

section \<open>Running a call\<close>

text \<open>
  The name table; \<open>link\<close> gives the address of a function. The state the program starts with.
\<close>

definition usmart_nametab :: "(string \<Rightarrow> u32) \<Rightarrow> (u32 \<times> string) list" where
  "usmart_nametab link =
    [(link ''read_addr'', ''uint32_t read_addr(uint32_t addr)''),
     (link ''write_addr'', ''void write_addr(uint32_t addr,uint32_t val)''),
     (link ''delay_ms'', ''void delay_ms(uint16_t nms)''),
     (link ''delay_us'', ''void delay_us(uint32_t nus)''),
     (link ''lcd_clear'', ''void lcd_clear(uint16_t color)''),
     (link ''lcd_fill'', ''void lcd_fill(uint16_t sx, uint16_t sy, uint16_t ex, uint16_t ey, uint16_t color)''),
     (link ''lcd_draw_line'', ''void lcd_draw_line(uint16_t x1, uint16_t y1, uint16_t x2, uint16_t y2, uint16_t color)''),
     (link ''lcd_draw_circle'', ''void lcd_draw_circle(uint16_t x0, uint16_t y0, uint8_t r, uint16_t color)''),
     (link ''lcd_draw_rectangle'', ''void lcd_draw_rectangle(uint16_t x1, uint16_t y1, uint16_t x2, uint16_t y2, uint16_t color)''),
     (link ''lcd_show_num'', ''void lcd_show_num(uint16_t x, uint16_t y, uint32_t num, uint8_t len, uint8_t size, uint16_t color)''),
     (link ''lcd_show_xnum'', ''void lcd_show_xnum(uint16_t x, uint16_t y, uint32_t num, uint8_t len, uint8_t size, uint8_t mode, uint16_t color)''),
     (link ''lcd_show_string'', ''void lcd_show_string(uint16_t x, uint16_t y, uint16_t width, uint16_t height, uint8_t size, char *p, uint16_t color)''),
     (link ''lcd_draw_point'', ''void lcd_draw_point(uint16_t x, uint16_t y, uint16_t color)''),
     (link ''lcd_read_point'', ''uint16_t lcd_read_point(uint16_t x, uint16_t y)''),
     (link ''lcd_display_dir'', ''void lcd_display_dir(uint8_t dir)''),
     (link ''ltdc_switch'', ''void ltdc_switch(uint8_t sw)''),
     (link ''ltdc_layer_switch'', ''void ltdc_layer_switch(uint8_t layerx, uint8_t sw)''),
     (link ''ltdc_select_layer'', ''void ltdc_select_layer(uint8_t layerx)''),
     (link ''ltdc_display_dir'', ''void ltdc_display_dir(uint8_t dir)''),
     (link ''ltdc_draw_point'', ''void ltdc_draw_point(uint16_t x, uint16_t y, uint32_t color)''),
     (link ''ltdc_read_point'', ''uint32_t ltdc_read_point(uint16_t x, uint16_t y)''),
     (link ''ltdc_fill'', ''void ltdc_fill(uint16_t sx, uint16_t sy, uint16_t ex, uint16_t ey, uint32_t color)''),
     (link ''ltdc_layer_window_config'', ''void ltdc_layer_window_config(uint8_t layerx, uint16_t sx, uint16_t sy, uint16_t width, uint16_t height)''),
     (link ''ltdc_clear'', ''void ltdc_clear(uint32_t color)''),
     (link ''read_addr'', ''uint32_t read_addr(uint32_t addr)''),
     (link ''write_addr'', ''void write_addr(uint32_t addr, uint32_t val)''),
     (link ''delay_ms'', ''void delay_ms(uint16_t nms)''),
     (link ''delay_us'', ''void delay_us(uint32_t nus)''),
     (link ''mymalloc'', ''void *mymalloc(uint8_t memx, uint32_t size)''),
     (link ''myfree'', ''void myfree(uint8_t memx, void *ptr)'')]"

definition usmart_dev_init :: "(string \<Rightarrow> u32) \<Rightarrow> usmart_dev" where
  "usmart_dev_init link =
     \<lparr>funs = usmart_nametab link, fnum = of_nat (length (usmart_nametab link)), pnum = 0, func_id = 0,
      sptype = 1, parmtype = 0, plentbl = replicate MAX_PARM 0, parm = replicate PARM_LEN 0,
      runtimeflag = 0, runtime = 0\<rparr>"

text \<open>The timer: update flag, reload value, counter.\<close>

record timx =
  tim_update :: bool
  tim_reload :: u16
  tim_counter :: u16

definition usmart_timx_reset_time :: "timx \<Rightarrow> usmart_dev \<Rightarrow> timx \<times> usmart_dev" where
  "usmart_timx_reset_time tim dev =
     (tim\<lparr>tim_update := False, tim_reload := 0xFFFF, tim_counter := 0\<rparr>, dev\<lparr>runtime := 0\<rparr>)"

definition usmart_timx_get_time :: "timx \<Rightarrow> usmart_dev \<Rightarrow> u32 \<times> usmart_dev" where
  "usmart_timx_get_time tim dev0 =
     (let dev1 = (if tim_update tim then dev0\<lparr>runtime := runtime dev0 + 0xFFFF\<rparr> else dev0);
          dev2 = dev1\<lparr>runtime := runtime dev1 + ucast (tim_counter tim)\<rparr>
      in (runtime dev2, dev2))"

definition usmart_init :: "u16 \<Rightarrow> usmart_dev \<Rightarrow> (u16 \<times> u16) \<times> usmart_dev" where
  "usmart_init tclk dev = ((1000, tclk * 100 - 1), dev\<lparr>sptype := 1\<rparr>)"

text \<open>A C string and a little-endian word in the parameter memory.\<close>

fun c_string :: "u8 list \<Rightarrow> string option" where
  "c_string [] = None"
| "c_string (b # bs) = (if b = 0 then Some [] else map_option (Cons (char_of (unat b))) (c_string bs))"

fun load_le :: "u8 list \<Rightarrow> nat \<Rightarrow> nat \<Rightarrow> u32 option" where
  "load_le arr i 0 = Some 0"
| "load_le arr i (Suc k) = do {
     b \<leftarrow> arr_get arr i;
     v \<leftarrow> load_le arr (Suc i) k;
     Some (ucast b OR push_bit 8 v)
   }"

text \<open>
  The argument loop: \<open>temp\<close> is the local array, \<open>base\<close> the address of \<open>usmart_dev.parm\<close>. Each
  round prints one argument and stores it.
\<close>

fun exe_args ::
  "u32 \<Rightarrow> usmart_dev \<Rightarrow> nat \<Rightarrow> nat \<Rightarrow> u32 list \<Rightarrow> (u32 list \<times> printed list) option" where
  "exe_args base dev i 0 temp = Some (temp, [])"
| "exe_args base dev i (Suc k) temp = do {
     pos \<leftarrow> usmart_get_parmpos (of_nat i) dev;
     (v, ps) \<leftarrow>
       (if bit (parmtype dev) i then do {
          s \<leftarrow> c_string (drop (unat pos) (parm dev));
          Some (base + ucast pos,
            [Printf ''%c'' [Chr CHR 0x22], Printf ''%s'' [Str s], Printf ''%c'' [Chr CHR 0x22]])
        }
        else do {
          v \<leftarrow> load_le (parm dev) (unat pos) 4;
          Some (v, [Printf (if sptype dev = SP_TYPE_DEC then ''%ld'' else ''0X%X'') [U32 v]])
        });
     temp' \<leftarrow> arr_set temp i v;
     (temp'', qs) \<leftarrow> exe_args base dev (Suc i) k temp';
     Some (temp'', ps @ (if k \<noteq> 0 then [Printf '','' []] else []) @ qs)
   }"

text \<open>Locals without an initial value: the argument array, the result, the return flag.\<close>

record locals =
  l_args :: "u32 list"
  l_res :: u32
  l_rval :: u8

text \<open>
  \<open>call f args (w, tim)\<close> runs the function at address \<open>f\<close> in the world \<open>w\<close>; the timer counts
  meanwhile.
\<close>

definition usmart_exe ::
  "(u32 \<Rightarrow> u32 list \<Rightarrow> 'w \<times> timx \<Rightarrow> ('w \<times> timx) \<times> u32) \<Rightarrow> u32 \<Rightarrow> locals \<Rightarrow>
   usmart_dev \<Rightarrow> 'w \<times> timx \<Rightarrow> (usmart_dev \<times> ('w \<times> timx) \<times> printed list) option" where
  "usmart_exe call base junk dev wt0 =
     (if func_id dev \<ge> fnum dev then Some (dev, wt0, [])
      else do {
        f \<leftarrow> arr_get (funs dev) (unat (func_id dev));
        (case usmart_get_fname (snd f) (l_rval junk) of (_, sfname, np, rval) \<Rightarrow>
           if \<not> length sfname < MAX_FNAME_LEN then None
           else do {
             (temp, ps) \<leftarrow> exe_args base dev 0 (unat np) (l_args junk);
             let (tim1, dev1) = usmart_timx_reset_time (snd wt0) dev;
             let (wt, res) = (if unat (pnum dev) \<le> MAX_PARM
                              then call (fst f) (take (unat (pnum dev)) temp) (fst wt0, tim1)
                              else ((fst wt0, tim1), l_res junk));
             let dev2 = snd (usmart_timx_get_time (snd wt) dev1);
             Some (dev2, wt,
               [Printf (crlf @ ''%s('') [Str sfname]] @ ps @ [Printf '')'' []] @
               (if rval = 1
                then [Printf ((if sptype dev = SP_TYPE_DEC then ''=%lu;'' else ''=0X%X;'') @ crlf) [U32 res]]
                else [Printf ('';'' @ crlf) []]) @
               (if runtimeflag dev2 \<noteq> 0
                then [Printf (''Function Run Time:%d.%1dms'' @ crlf)
                        [U32 (runtime dev2 div 10), U32 (runtime dev2 mod 10)]]
                else []))
           })
      })"

definition scan_error :: "u8 \<Rightarrow> printed list" where
  "scan_error sta =
     (if sta = USMART_FUNCERR then [Notice Function_error]
      else if sta = USMART_PARMERR then [Notice Parameter_error]
      else if sta = USMART_PARMOVER then [Notice Too_many_parameters]
      else if sta = USMART_NOFUNCFIND then [Notice No_such_function]
      else [])"

definition usmart_scan ::
  "(u32 \<Rightarrow> u32 list \<Rightarrow> 'w \<times> timx \<Rightarrow> ('w \<times> timx) \<times> u32) \<Rightarrow> u32 \<Rightarrow> locals \<Rightarrow>
   usart \<Rightarrow> usmart_dev \<Rightarrow> 'w \<times> timx \<Rightarrow>
   (usart \<times> usmart_dev \<times> ('w \<times> timx) \<times> printed list) option" where
  "usmart_scan call base junk ser dev wt = do {
     (pbuf, ser') \<leftarrow> usmart_get_input_string ser;
     (case pbuf of
        None \<Rightarrow> Some (ser', dev, wt, [])
      | Some bytes \<Rightarrow> do {
          let str = map (\<lambda>b. char_of (unat b)) bytes;
          (sta, dev1) \<leftarrow> usmart_cmd_rec str dev;
          if sta = 0 then do {
            (dev2, wt', ps) \<leftarrow> usmart_exe call base junk dev1 wt;
            Some (ser', dev2, wt', ps)
          }
          else do {
            (len, dev2, ps) \<leftarrow> usmart_sys_cmd_exe str dev1;
            let sta' = (if len \<noteq> USMART_FUNCERR then len else sta);
            Some (ser', dev2, wt, ps @ (if sta' \<noteq> 0 then scan_error sta' else []))
          }
        })
   }"

text \<open>The timer interrupt, which runs the shell; \<open>enabled\<close> is the interrupt source.\<close>

definition USMART_TIMX_IRQHandler ::
  "(u32 \<Rightarrow> u32 list \<Rightarrow> 'w \<times> timx \<Rightarrow> ('w \<times> timx) \<times> u32) \<Rightarrow> u32 \<Rightarrow> locals \<Rightarrow> bool \<Rightarrow>
   usart \<Rightarrow> usmart_dev \<Rightarrow> 'w \<times> timx \<Rightarrow>
   (usart \<times> usmart_dev \<times> ('w \<times> timx) \<times> printed list) option" where
  "USMART_TIMX_IRQHandler call base junk enabled ser dev wt = do {
     (ser', dev', (w, tim), ps) \<leftarrow>
       (if enabled then
          map_option (\<lambda>(ser', dev', (w, tim), ps).
              (ser', dev', (w, tim\<lparr>tim_counter := 0, tim_reload := 100\<rparr>), ps))
            (usmart_scan call base junk ser dev wt)
        else Some (ser, dev, wt, []));
     Some (ser', dev', (w, tim\<lparr>tim_update := False\<rparr>), ps)
   }"

text \<open>The two functions that give the shell access to memory, on a word-addressed view of it.\<close>

definition read_addr :: "u32 \<Rightarrow> (u32 \<Rightarrow> u32) \<Rightarrow> u32" where
  "read_addr addr mem = mem addr"

definition write_addr :: "u32 \<Rightarrow> u32 \<Rightarrow> (u32 \<Rightarrow> u32) \<Rightarrow> (u32 \<Rightarrow> u32)" where
  "write_addr addr val mem = mem(addr := val)"

section \<open>The name of a call\<close>

definition plain_name :: "string \<Rightarrow> bool" where
  "plain_name nm \<longleftrightarrow> list_all (\<lambda>c. c \<noteq> CHR ''('' \<and> c \<noteq> CHR '')'' \<and> c \<noteq> CHR 0x22 \<and> c \<noteq> CHR '' '' \<and>
     c \<noteq> CHR ''*'' \<and> c \<noteq> CHR 0x00) nm"

lemma name_start_plain:
  "plain_name nm \<Longrightarrow> name_start (nm @ CHR ''('' # rest) res offset = offset"
proof (induction nm arbitrary: res)
  case Nil
  then show ?case by simp
next
  case (Cons c nm)
  then show ?case by (cases nm) (simp_all add: plain_name_def Let_def)
qed

lemma fname_plain:
  "plain_name nm \<Longrightarrow> l_fover st = 0 \<Longrightarrow> \<not> l_nchar st \<Longrightarrow>
     fname_loop (nm @ rest) st = fname_loop rest (st\<lparr>l_fname := l_fname st @ nm\<rparr>)"
  by (induction nm arbitrary: st) (simp_all add: plain_name_def fname_char_def)

text \<open>Inside the brackets with only digits in the text of the first parameter.\<close>

definition in_args :: "string \<Rightarrow> nat \<Rightarrow> fn_st \<Rightarrow> bool" where
  "in_args nm k st \<longleftrightarrow> l_fover st = 1 \<and> \<not> l_nchar st \<and> l_fname st = nm \<and> l_parmnum st = of_nat k \<and>
     list_all is_dec (l_fpname st)"

lemma fname_digits:
  "list_all is_dec ds \<Longrightarrow> in_args nm k st \<Longrightarrow> l_temp st = of_nat j \<Longrightarrow> 3 \<le> j \<Longrightarrow>
     j + length ds < 256 \<Longrightarrow>
     \<exists>st'. fname_loop (ds @ rest) st = fname_loop rest st' \<and> in_args nm k st'"
proof (induction ds arbitrary: st j)
  case Nil
  then show ?case by auto
next
  case (Cons c ds)
  let ?st = "fname_char c st"
  have c: "c \<noteq> CHR '','' \<and> c \<noteq> CHR '')'' \<and> c \<noteq> CHR ''('' \<and> c \<noteq> CHR 0x22 \<and> c \<noteq> CHR '' ''"
    using Cons.prems(1) dec_plain [of c] by (auto simp: is_dec_def)
  have two: "(of_nat j + 1 :: u8) \<noteq> 2"
    using word_of_nat_inj_small [of "j + 1" 2, where 'a = 8] Cons.prems(4,5) by (simp add: add.commute)
  have "in_args nm k ?st" "l_temp ?st = of_nat (j + 1)"
    using Cons.prems(1-3) c two by (auto simp: in_args_def fname_char_def Let_def add.commute)
  from Cons.IH [OF _ this] Cons.prems(1,4,5) c show ?case using Cons.prems(2) by (simp add: in_args_def)
qed

lemma fname_token:
  assumes "dec_token t" and "in_args nm k st" and "l_temp st = 1"
  shows "\<exists>st'. fname_loop (t @ rest) st = fname_loop rest st' \<and> in_args nm (Suc k) st'"
proof -
  obtain c ds where t: "t = c # ds" "is_dec c" "list_all is_dec ds" "length ds < 200"
    using assms(1) by (cases t) (auto simp: dec_token_def PARM_LEN_def)
  let ?st = "fname_char c st"
  have c: "c \<noteq> CHR '','' \<and> c \<noteq> CHR '')'' \<and> c \<noteq> CHR ''('' \<and> c \<noteq> CHR 0x22 \<and> c \<noteq> CHR '' ''"
    using t(2) dec_plain [of c] by (auto simp: is_dec_def)
  have "in_args nm (Suc k) ?st" "l_temp ?st = of_nat 3"
    using assms(2,3) c t(2) by (auto simp: in_args_def fname_char_def Let_def)
  from fname_digits [OF t(3) this, of rest] t(1,4) c assms(2) show ?thesis
    by (simp add: in_args_def)
qed

lemma fname_args:
  "list_all dec_token ts \<Longrightarrow> ts \<noteq> [] \<Longrightarrow> in_args nm k st \<Longrightarrow> l_temp st = 1 \<Longrightarrow>
     \<exists>st'. fname_loop (args_text ts) st = (0, st') \<and> l_fname st' = nm \<and>
       l_parmnum st' = of_nat (k + length ts) \<and> list_all is_dec (l_fpname st')"
proof (induction ts arbitrary: st k)
  case Nil
  then show ?case by simp
next
  case (Cons t ts)
  have t: "dec_token t" using Cons.prems(1) by simp
  show ?case
  proof (cases "ts = []")
    case True
    from fname_token [OF t Cons.prems(3,4), of "'')''"] obtain st' where
      "fname_loop (t @ '')'') st = fname_loop '')'' st'" "in_args nm (Suc k) st'" by blast
    with True show ?thesis by (auto simp: in_args_def add.commute)
  next
    case False
    then have shape: "args_text (t # ts) = t @ '','' @ args_text ts" by (cases ts) simp_all
    from fname_token [OF t Cons.prems(3,4), of "'','' @ args_text ts"] obtain st1 where st1:
      "fname_loop (t @ '','' @ args_text ts) st = fname_loop ('','' @ args_text ts) st1"
      "in_args nm (Suc k) st1" by blast
    let ?st2 = "fname_char CHR '','' st1"
    have st2: "fname_loop ('','' @ args_text ts) st1 = fname_loop (args_text ts) ?st2" by simp
    have "in_args nm (Suc k) ?st2" "l_temp ?st2 = 1"
      using st1(2) by (simp_all add: in_args_def fname_char_def Let_def)
    from Cons.IH [OF _ False this] Cons.prems(1) st1(1) st2 shape show ?thesis by simp
  qed
qed

lemma fname_call:
  assumes "plain_name nm" and "list_all dec_token ts" and "ts \<noteq> []"
  shows "\<exists>rv. usmart_get_fname (nm @ CHR ''('' # args_text ts) r = (0, nm, of_nat (length ts), rv)"
proof -
  let ?str = "nm @ CHR ''('' # args_text ts"
  let ?st = "fn_init\<lparr>l_fname := nm, l_fover := 1\<rparr>"
  have start: "name_start ?str 0 0 = 0" by (rule name_start_plain [OF assms(1)])
  have "fname_loop ?str fn_init = fname_loop (args_text ts) ?st"
    using fname_plain [OF assms(1), of fn_init] by (simp add: fn_init_def fname_char_def Let_def)
  moreover have "in_args nm 0 ?st" "l_temp ?st = 1" by (simp_all add: in_args_def fn_init_def)
  ultimately obtain st' where st': "fname_loop ?str fn_init = (0, st')" "l_fname st' = nm"
      "l_parmnum st' = of_nat (length ts)" "list_all is_dec (l_fpname st')"
    using fname_args [OF assms(2,3), of nm 0 ?st] by auto
  have "usmart_strcmp (l_fpname st') ''void'' \<noteq> 0"
    using st'(4) by (auto simp: usmart_strcmp_iff is_dec_def)
  then show ?thesis
    using st'(1-3) start by (auto simp: usmart_get_fname_def Let_def split: prod.split)
qed

section \<open>The name table\<close>

lemma rettype_rval:
  "snd (rettype_loop str [] 0) \<noteq> 0 \<Longrightarrow> usmart_get_fname str r = usmart_get_fname str 0"
  by (cases "rettype_loop str [] 0") (simp add: usmart_get_fname_def Let_def)

text \<open>An entry of the table is read without error, into the buffer, whatever the locals hold.\<close>

definition parses :: "u32 \<times> string \<Rightarrow> string \<Rightarrow> u8 \<Rightarrow> u8 \<Rightarrow> bool" where
  "parses f nm np rv \<longleftrightarrow>
     (\<forall>r. usmart_get_fname (snd f) r = (0, nm, np, rv)) \<and> length nm < MAX_FNAME_LEN"

lemma parsesD: "parses f nm np rv \<Longrightarrow> usmart_get_fname (snd f) r = (0, nm, np, rv) \<and> length nm < MAX_FNAME_LEN"
  by (simp add: parses_def)

text \<open>Name, number of parameters and result flag of the functions the shell offers.\<close>

definition nametab_entries :: "(string \<times> u8 \<times> u8) list" where
  "nametab_entries =
    [(''read_addr'', 1, 1), (''write_addr'', 2, 0), (''delay_ms'', 1, 0), (''delay_us'', 1, 0),
     (''lcd_clear'', 1, 0), (''lcd_fill'', 5, 0), (''lcd_draw_line'', 5, 0),
     (''lcd_draw_circle'', 4, 0), (''lcd_draw_rectangle'', 5, 0), (''lcd_show_num'', 6, 0),
     (''lcd_show_xnum'', 7, 0), (''lcd_show_string'', 7, 0), (''lcd_draw_point'', 3, 0),
     (''lcd_read_point'', 2, 1), (''lcd_display_dir'', 1, 0), (''ltdc_switch'', 1, 0),
     (''ltdc_layer_switch'', 2, 0), (''ltdc_select_layer'', 1, 0), (''ltdc_display_dir'', 1, 0),
     (''ltdc_draw_point'', 3, 0), (''ltdc_read_point'', 2, 1), (''ltdc_fill'', 5, 0),
     (''ltdc_layer_window_config'', 5, 0), (''ltdc_clear'', 1, 0), (''read_addr'', 1, 1),
     (''write_addr'', 2, 0), (''delay_ms'', 1, 0), (''delay_us'', 1, 0), (''mymalloc'', 2, 1),
     (''myfree'', 2, 0)]"

lemma nametab_fname:
  "list_all2 (\<lambda>f (nm, np, rv). usmart_get_fname (snd f) 0 = (0, nm, np, rv) \<and> length nm < MAX_FNAME_LEN)
     (usmart_nametab (\<lambda>_. 0)) nametab_entries"
  by code_simp

lemma nametab_rettype:
  "list_all (\<lambda>f. snd (rettype_loop (snd f) [] 0) \<noteq> 0) (usmart_nametab (\<lambda>_. 0))"
  by code_simp

lemma nametab_texts: "map snd (usmart_nametab link) = map snd (usmart_nametab (\<lambda>_. 0))"
  by (simp add: usmart_nametab_def)

lemma length_nametab: "length (usmart_nametab link) = length nametab_entries"
  by (simp add: usmart_nametab_def nametab_entries_def)

lemma nametab_parses:
  assumes "i < length nametab_entries" and "nametab_entries ! i = (nm, np, rv)"
  shows "parses (usmart_nametab link ! i) nm np rv"
proof -
  have len: "i < length (usmart_nametab l)" for l using assms(1) by (simp only: length_nametab)
  have same: "snd (usmart_nametab link ! i) = snd (usmart_nametab (\<lambda>_. 0) ! i)"
    using nametab_texts [of link] len by (metis nth_map)
  have "usmart_get_fname (snd (usmart_nametab (\<lambda>_. 0) ! i)) 0 = (0, nm, np, rv) \<and> length nm < MAX_FNAME_LEN"
    using list_all2_nthD [OF nametab_fname len] assms(2) by simp
  moreover have "snd (rettype_loop (snd (usmart_nametab (\<lambda>_. 0) ! i)) [] 0) \<noteq> 0"
    using nametab_rettype len unfolding list_all_length by blast
  ultimately show ?thesis using same rettype_rval unfolding parses_def by metis
qed

text \<open>every entry of the name table is read without error into its function's name, number of
  parameters and result flag, and every name fits the 30-byte buffers.\<close>

theorem nametab_recognised:
  "list_all2 (\<lambda>f (nm, np, rv). parses f nm np rv) (usmart_nametab link) nametab_entries"
  unfolding list_all2_conv_all_nth
  using nametab_parses [of _ _ _ _ link] length_nametab [of link] by (auto split: prod.split)

section \<open>Recognising and running calls\<close>

text \<open>The name \<open>nm\<close> is found at index \<open>i\<close> of the table: no earlier entry has it.\<close>

definition found_at :: "(u32 \<times> string) list \<Rightarrow> nat \<Rightarrow> string \<Rightarrow> u8 \<Rightarrow> u8 \<Rightarrow> bool" where
  "found_at tab i nm np rv \<longleftrightarrow> i < length tab \<and> parses (tab ! i) nm np rv \<and>
     (\<forall>j<i. \<exists>nm' np' rv'. parses (tab ! j) nm' np' rv' \<and> nm' \<noteq> nm)"

lemma rec_loop_skip:
  "(\<And>j. j0 \<le> j \<Longrightarrow> j < j0 + k \<Longrightarrow> \<exists>nm' np' rv'. parses (tab ! j) nm' np' rv' \<and> nm' \<noteq> nm) \<Longrightarrow>
     j0 + k \<le> length tab \<Longrightarrow>
     rec_loop tab nm rp j0 (k + m) = rec_loop tab nm rp (j0 + k) m"
proof (induction k arbitrary: j0)
  case 0
  then show ?case by simp
next
  case (Suc k)
  from Suc.prems(1) [of j0] obtain nm' np' rv' where e: "parses (tab ! j0) nm' np' rv'" "nm' \<noteq> nm"
    by auto
  have "rec_loop tab nm rp j0 (Suc (k + m)) = rec_loop tab nm rp (Suc j0) (k + m)"
    using parsesD [OF e(1), of 0] e(2) Suc.prems(2) by (simp add: arr_get_Some usmart_strcmp_iff)
  with Suc.IH [of "Suc j0"] Suc.prems show ?case by simp
qed

lemma rec_loop_found:
  assumes "found_at tab i nm np rv" and "i < n"
  shows "rec_loop tab nm rp 0 n = Some (if np > rp then Inl USMART_PARMERR else Inr i)"
proof -
  obtain m where n: "n = i + Suc m" using less_imp_Suc_add [OF assms(2)] by auto
  have i: "i < length tab" and p: "parses (tab ! i) nm np rv" using assms(1) by (simp_all add: found_at_def)
  have "rec_loop tab nm rp 0 n = rec_loop tab nm rp i (Suc m)"
    using assms(1) rec_loop_skip [of 0 i tab nm rp "Suc m"] unfolding n by (simp add: found_at_def)
  then show ?thesis
    using parsesD [OF p, of 0] i by (simp add: arr_get_Some usmart_strcmp_iff)
qed

definition arg_values :: "string list \<Rightarrow> u32 list" where
  "arg_values ts = map (\<lambda>t. of_nat (num_val 10 t)) ts"

lemma cmd_rec_call:
  assumes "found_at (funs dev) i nm np rv" and "i < unat (fnum dev)" and "plain_name nm"
    and "list_all dec_token ts" and "ts \<noteq> []" and "length ts \<le> MAX_PARM" and "length (parm dev) = PARM_LEN"
  shows "usmart_cmd_rec (nm @ CHR ''('' # args_text ts) dev =
    Some (if unat np > length ts then (USMART_PARMERR, dev)
          else (USMART_OK, (with_numbers (arg_values ts) (dev\<lparr>func_id := of_nat i\<rparr>))\<lparr>pnum := of_nat (length ts)\<rparr>))"
proof -
  let ?str = "nm @ CHR ''('' # args_text ts"
  obtain rv' where fname: "usmart_get_fname ?str 0 = (0, nm, of_nat (length ts), rv')"
    using fname_call [OF assms(3-5)] by blast
  have "length nm < MAX_FNAME_LEN" using assms(1) by (simp add: found_at_def parses_def)
  moreover have "np > of_nat (length ts) \<longleftrightarrow> unat np > length ts"
    using assms(6) by (simp add: word_less_nat_alt unat_of_nat_small MAX_PARM_def)
  moreover have "CHR ''('' \<notin> set nm" using assms(3) by (auto simp: plain_name_def list_all_iff)
  moreover have "i \<noteq> unat (fnum dev)" using assms(2) by simp
  ultimately show ?thesis
    using fparam_numbers' [OF assms(4,5) _ , of nm "dev\<lparr>func_id := of_nat i\<rparr>"] assms(6,7)
      rec_loop_found [OF assms(1,2)] fname
    by (simp add: usmart_cmd_rec_def arg_values_def USMART_OK_def)
qed

text \<open>Reading back a stored word.\<close>

lemma load_bytes_le:
  "load_le (xs @ bytes_le k v @ ys) (length xs) k = Some (take_bit (8 * k) v)"
proof (induction k arbitrary: xs v)
  case 0
  then show ?case by simp
next
  case (Suc k)
  have "load_le ((xs @ [ucast v]) @ bytes_le k (drop_bit 8 v) @ ys) (length (xs @ [ucast v])) k =
      Some (take_bit (8 * k) (drop_bit 8 v))"
    by (rule Suc.IH)
  moreover have "(ucast (ucast v :: u8) :: u32) OR push_bit 8 (take_bit (8 * k) (drop_bit 8 v)) =
      take_bit (8 * Suc k) v"
    by (rule bit_word_eqI) (auto simp: bit_simps)
  ultimately show ?case by (simp add: arr_get_def)
qed

lemma load_number:
  assumes "i < length vs"
  shows "load_le (concat (map (bytes_le 4) vs) @ rest) (4 * i) 4 = Some (vs ! i)"
proof -
  have split: "concat (map (bytes_le 4) vs) @ rest =
      concat (map (bytes_le 4) (take i vs)) @ bytes_le 4 (vs ! i) @
      concat (map (bytes_le 4) (drop (Suc i) vs)) @ rest"
    by (subst id_take_nth_drop [OF assms]) simp
  have "length (concat (map (bytes_le 4) (take i vs))) = 4 * i"
    using assms by (simp add: min_def)
  then show ?thesis
    using load_bytes_le [of "concat (map (bytes_le 4) (take i vs))" 4 "vs ! i"
        "concat (map (bytes_le 4) (drop (Suc i) vs)) @ rest"]
    unfolding split by (simp add: take_bit_word_eq_self)
qed

lemma cleared_bits:
  "n \<le> 16 \<Longrightarrow> bit (fold (\<lambda>i t. t AND NOT (push_bit i 1)) [0..<n] (t :: u16)) j \<longleftrightarrow> bit t j \<and> n \<le> j"
  by (induction n) (auto simp: bit_and_iff bit_not_iff bit_exp_iff possible_bit_word dest: bit_imp_le_length)

text \<open>What is printed for the numbers of a call.\<close>

fun show_args :: "u8 \<Rightarrow> u32 list \<Rightarrow> printed list" where
  "show_args sp [] = []"
| "show_args sp (v # vs) =
     Printf (if sp = SP_TYPE_DEC then ''%ld'' else ''0X%X'') [U32 v] #
     (if vs \<noteq> [] then [Printf '','' []] else []) @ show_args sp vs"

lemma get_parmpos_prefix:
  assumes "i \<le> length vs" and "length vs \<le> MAX_PARM"
  shows "usmart_get_parmpos (of_nat i) (with_numbers vs dev) = Some (of_nat (4 * i))"
proof -
  have "unat (of_nat i :: u8) = i"
    using assms by (intro unat_of_nat_small) (simp add: MAX_PARM_def)
  then show ?thesis
    using assms parmpos_loop_eq [of 0 i "replicate (length vs) 4 @ replicate (MAX_PARM - length vs) 0" 0]
    by (simp add: usmart_get_parmpos_def with_numbers_def sum_list_replicate_u8 min_def)
qed

lemma exe_args_numbers:
  assumes "length vs \<le> MAX_PARM"
  shows "i + k \<le> length vs \<Longrightarrow> i + k \<le> length temp \<Longrightarrow>
    exe_args base (with_numbers vs dev) i k temp =
      Some (take i temp @ take k (drop i vs) @ drop (i + k) temp,
            show_args (sptype dev) (take k (drop i vs)))"
proof (induction k arbitrary: i temp)
  case 0
  then show ?case by simp
next
  case (Suc k)
  have i: "i < length vs" "i < length temp" and len: "length vs \<le> 10" using Suc.prems assms by (simp_all add: MAX_PARM_def)
  have pos: "usmart_get_parmpos (of_nat i) (with_numbers vs dev) = Some (of_nat (4 * i))"
    using get_parmpos_prefix [of i vs dev] i assms by simp
  have u: "unat (of_nat (4 * i) :: u8) = 4 * i"
    using i len by (intro unat_of_nat_small) simp
  have nobit: "\<not> bit (parmtype (with_numbers vs dev)) i"
    using i len cleared_bits [of "length vs" "parmtype dev" i] by (simp add: with_numbers_def)
  have load: "load_le (parm (with_numbers vs dev)) (4 * i) 4 = Some (vs ! i)"
    using load_number [OF i(1)] by (simp add: with_numbers_def)
  have sp: "sptype (with_numbers vs dev) = sptype dev" by (simp add: with_numbers_def)
  have IH: "exe_args base (with_numbers vs dev) (Suc i) k (temp[i := vs ! i]) =
      Some (take (Suc i) (temp[i := vs ! i]) @ take k (drop (Suc i) vs) @ drop (Suc i + k) (temp[i := vs ! i]),
            show_args (sptype dev) (take k (drop (Suc i) vs)))"
    using Suc.prems by (intro Suc.IH) simp_all
  have vs: "take (Suc k) (drop i vs) = vs ! i # take k (drop (Suc i) vs)"
    using i by (metis Cons_nth_drop_Suc take_Suc_Cons)
  have more: "take k (drop (Suc i) vs) \<noteq> [] \<longleftrightarrow> k \<noteq> 0" using Suc.prems by auto
  show ?case
    unfolding exe_args.simps pos Option.bind.simps u load
    using nobit i IH more
    by (simp add: vs sp arr_set_Some take_Suc_conv_app_nth)
qed

text \<open>The text that one call prints.\<close>

definition call_text :: "usmart_dev \<Rightarrow> string \<Rightarrow> u8 \<Rightarrow> u32 list \<Rightarrow> u32 \<Rightarrow> u32 \<Rightarrow> printed list" where
  "call_text dev nm rv vs res time =
     [Printf (crlf @ ''%s('') [Str nm]] @ show_args (sptype dev) vs @ [Printf '')'' []] @
     (if rv = 1
      then [Printf ((if sptype dev = SP_TYPE_DEC then ''=%lu;'' else ''=0X%X;'') @ crlf) [U32 res]]
      else [Printf ('';'' @ crlf) []]) @
     (if runtimeflag dev \<noteq> 0
      then [Printf (''Function Run Time:%d.%1dms'' @ crlf) [U32 (time div 10), U32 (time mod 10)]]
      else [])"

definition elapsed :: "timx \<Rightarrow> u32" where
  "elapsed tim = (if tim_update tim then 0xFFFF else 0) + ucast (tim_counter tim)"

lemma exe_numbers:
  assumes "found_at (funs dev) i nm (of_nat (length vs)) rv" and "i < unat (fnum dev)"
    and "length vs \<le> MAX_PARM" and "length (l_args junk) = MAX_PARM"
    and "call (fst (funs dev ! i)) vs (w, tim\<lparr>tim_update := False, tim_reload := 0xFFFF, tim_counter := 0\<rparr>) =
           ((w', tim'), res)"
  shows "usmart_exe call base junk
      ((with_numbers vs (dev\<lparr>func_id := of_nat i\<rparr>))\<lparr>pnum := of_nat (length vs)\<rparr>) (w, tim) =
    Some ((with_numbers vs (dev\<lparr>func_id := of_nat i\<rparr>))
            \<lparr>pnum := of_nat (length vs), runtime := elapsed tim'\<rparr>,
          (w', tim'), call_text dev nm rv vs res (elapsed tim'))"
proof -
  let ?dev = "with_numbers vs (dev\<lparr>func_id := of_nat i, pnum := of_nat (length vs)\<rparr>)"
  have same: "(with_numbers vs (dev\<lparr>func_id := of_nat i\<rparr>))\<lparr>pnum := of_nat (length vs)\<rparr> = ?dev"
    "(with_numbers vs (dev\<lparr>func_id := of_nat i\<rparr>))
       \<lparr>pnum := of_nat (length vs), runtime := r\<rparr> = ?dev\<lparr>runtime := r\<rparr>" for r
    by (simp_all add: with_numbers_def)
  have id: "unat (of_nat i :: u8) = i" using assms(2) unat_u8_less [of "fnum dev"]
    by (intro unat_of_nat_small) simp
  then have lt: "\<not> fnum dev \<le> of_nat i" using assms(2) by (simp add: word_le_nat_alt)
  have n: "unat (of_nat (length vs) :: u8) = length vs"
    using assms(3) by (intro unat_of_nat_small) (simp add: MAX_PARM_def)
  have i: "i < length (funs dev)" and p: "parses (funs dev ! i) nm (of_nat (length vs)) rv"
    using assms(1) by (simp_all add: found_at_def)
  have args: "exe_args base ?dev 0 (length vs) (l_args junk) =
      Some (vs @ drop (length vs) (l_args junk), show_args (sptype dev) vs)"
    using exe_args_numbers [of vs 0 "length vs" "l_args junk" base "dev\<lparr>func_id := of_nat i, pnum := of_nat (length vs)\<rparr>"]
      assms(3,4) by simp
  have fields: "func_id ?dev = of_nat i" "fnum ?dev = fnum dev" "funs ?dev = funs dev"
    "pnum ?dev = of_nat (length vs)" "sptype ?dev = sptype dev" "runtimeflag ?dev = runtimeflag dev"
    by (simp_all add: with_numbers_def)
  show ?thesis
    unfolding same usmart_exe_def fields id arr_get_Some [OF i] Option.bind.simps
    using parsesD [OF p, of "l_rval junk"] lt args n assms(3,5)
    by (simp add: usmart_timx_reset_time_def usmart_timx_get_time_def Let_def call_text_def elapsed_def
        fields)
qed

definition text_bytes :: "string \<Rightarrow> u8 list" where
  "text_bytes s = map (\<lambda>c. of_nat (of_char c)) s"

lemma chars_of_text [simp]: "map (\<lambda>b. char_of (unat b)) (text_bytes s) = s"
proof (induction s)
  case Nil
  then show ?case by (simp add: text_bytes_def)
next
  case (Cons c s)
  have "(of_char c :: nat) < 256" by (rule nat_of_char_less_256)
  then have "unat (of_nat (of_char c) :: u8) = of_char c" by (intro unat_of_nat_small) simp
  with Cons show ?case by (simp add: text_bytes_def)
qed

text \<open>C4: a line that calls a function of the table with as many decimal numbers as its declaration
  has parameters (one to ten) makes the shell call that function, once, with those values modulo
  \<open>2 ^ 32\<close>, at the address in the first entry with that name, and print the call, the result when the
  function has one, and the measured time when that is switched on.\<close>

theorem scan_runs_call:
  assumes line: "usmart_get_input_string ser = Some (Some (text_bytes (nm @ CHR ''('' # args_text ts)), ser')"
    and entry: "found_at (funs dev) i nm (of_nat (length ts)) rv" "i < unat (fnum dev)"
    and toks: "plain_name nm" "list_all dec_token ts" "ts \<noteq> []" "length ts \<le> MAX_PARM"
    and arrays: "length (parm dev) = PARM_LEN" "length (l_args junk) = MAX_PARM"
    and run: "call (fst (funs dev ! i)) (arg_values ts)
        (w, tim\<lparr>tim_update := False, tim_reload := 0xFFFF, tim_counter := 0\<rparr>) = ((w', tim'), res)"
  shows "usmart_scan call base junk ser dev (w, tim) =
    Some (ser', (with_numbers (arg_values ts) (dev\<lparr>func_id := of_nat i\<rparr>))
            \<lparr>pnum := of_nat (length ts), runtime := elapsed tim'\<rparr>,
          (w', tim'), call_text dev nm rv (arg_values ts) res (elapsed tim'))"
proof -
  have len: "length (arg_values ts) = length ts" by (simp add: arg_values_def)
  have np: "unat (of_nat (length ts) :: u8) = length ts"
    using toks(4) by (intro unat_of_nat_small) (simp add: MAX_PARM_def)
  note rec = cmd_rec_call [OF entry toks(1-4) arrays(1)]
  note exe = exe_numbers [where vs = "arg_values ts" and call = call and junk = junk and w = w and tim = tim and
      w' = w' and tim' = tim' and res = res, unfolded len, OF entry toks(4) arrays(2) run, of base]
  show ?thesis
    unfolding usmart_scan_def line Option.bind.simps prod.case option.case chars_of_text Let_def rec np
    using exe by (simp add: USMART_OK_def)
qed

lemma nametab_found:
  assumes "i < length nametab_entries" and "nametab_entries ! i = (nm, np, rv)"
    and "nm \<notin> fst ` set (take i nametab_entries)"
  shows "found_at (usmart_nametab link) i nm np rv"
proof -
  have "\<exists>nm' np' rv'. parses (usmart_nametab link ! j) nm' np' rv' \<and> nm' \<noteq> nm" if j: "j < i" for j
  proof -
    obtain nm' np' rv' where e: "nametab_entries ! j = (nm', np', rv')"
      by (cases "nametab_entries ! j") auto
    then have "(nm', np', rv') \<in> set (take i nametab_entries)"
      using j assms(1) by (metis in_set_conv_nth length_take min.absorb4 nth_take)
    then have "nm' \<noteq> nm" using assms(3) by force
    with nametab_parses [OF _ e] j assms(1) show ?thesis by fastforce
  qed
  moreover have "i < length (usmart_nametab link)" using assms(1) by (simp only: length_nametab)
  ultimately show ?thesis using nametab_parses [OF assms(1,2)] by (simp add: found_at_def)
qed

theorem scan_runs_call_witness:
  "map_option (\<lambda>(ser, dev, (w, tim), ps). (w, ps))
     (usmart_scan (\<lambda>f args (w, tim). ((args # w, tim), 0)) 0
        \<lparr>l_args = replicate 10 0, l_res = 0, l_rval = 0\<rparr>
        \<lparr>g_usart_rx_buf = text_bytes ''delay_ms(500)'' @ replicate 187 0, g_usart_rx_sta = 0xC00D\<rparr>
        (usmart_dev_init (\<lambda>_. 0)) ([], \<lparr>tim_update = True, tim_reload = 100, tim_counter = 3\<rparr>)) =
   Some ([[500]], call_text (usmart_dev_init (\<lambda>_. 0)) ''delay_ms'' 0 [500] 0 0)"
proof -
  let ?dev = "usmart_dev_init (\<lambda>_. 0)"
  let ?junk = "\<lparr>l_args = replicate 10 0, l_res = 0, l_rval = 0\<rparr>"
  let ?ser = "\<lparr>g_usart_rx_buf = text_bytes ''delay_ms(500)'' @ replicate 187 0, g_usart_rx_sta = 0xC00D\<rparr>"
  let ?ser' = "\<lparr>g_usart_rx_buf = text_bytes ''delay_ms(500)'' @ replicate 187 0, g_usart_rx_sta = 0\<rparr>"
  let ?call = "\<lambda>f args (w, tim :: timx). ((args # w, tim), 0)"
  have zeros: "replicate 187 (0 :: u8) = 0 # replicate 186 0"
    using replicate_Suc [of 186 "0 :: u8"] by (simp del: replicate_Suc)
  have line: "usmart_get_input_string ?ser =
      Some (Some (text_bytes (''delay_ms'' @ CHR ''('' # args_text [''500''])), ?ser')"
    by (simp add: usmart_get_input_string_def arr_set_def text_bytes_def list_update_append zeros)
  have entry: "found_at (funs ?dev) 2 ''delay_ms'' (of_nat (length [''500''])) 0"
    using nametab_found [of 2 "''delay_ms''" 1 0 "\<lambda>_. 0"]
    by (simp add: usmart_dev_init_def nametab_entries_def)
  have fnum: "2 < unat (fnum ?dev)" by (simp add: usmart_dev_init_def length_nametab nametab_entries_def)
  have plain: "plain_name ''delay_ms''" by (simp add: plain_name_def)
  have toks: "list_all dec_token [''500'']" by (simp add: dec_token_def is_dec_def PARM_LEN_def)
  have vals: "arg_values [''500''] = [500]" by (simp add: arg_values_def digit_def is_dec_def)
  show ?thesis
    using scan_runs_call [OF line entry fnum plain toks, of ?junk ?call "[]"
        "\<lparr>tim_update = True, tim_reload = 100, tim_counter = 3\<rparr>" "[[500]]"
        "\<lparr>tim_update = False, tim_reload = 0xFFFF, tim_counter = 0\<rparr>" 0 0]
    by (simp add: MAX_PARM_def PARM_LEN_def usmart_dev_init_def vals elapsed_def)
qed

section \<open>The number conversion commands\<close>

lemma cmd_arg_digits:
  assumes "list_all is_dec t" and "t \<noteq> []" and "length t < 256"
  shows "cmd_arg (CHR '' '' # t) =
    (if length t < MAX_FNAME_LEN then Some (0, 0, of_nat (num_val 10 t)) else None)"
proof -
  have "usmart_get_aparm (CHR '' '' # t) = Some (1 + of_nat (length t), t, 0)"
    using aparm_digits [OF assms(1), of "[]" 1 "[]"]
    by (simp add: usmart_get_aparm_def Let_def is_num_char_def is_dec_def is_hex_upper_def)
  then show ?thesis using scan_then_conv [OF assms] by (simp add: cmd_arg_def)
qed

lemma convert_command:
  assumes "nm \<in> {''hex'', ''dec''}"
  shows "usmart_get_cmdname (nm @ CHR '' '' # t) (of_nat MAX_FNAME_LEN) = (0, nm, 3)"
    and "drop 3 (nm @ CHR '' '' # t) = CHR '' '' # t"
  using assms get_cmdname_word [of nm "of_nat MAX_FNAME_LEN" "CHR '' '' # t"]
  by (auto simp: MAX_FNAME_LEN_def)

text \<open>the commands \<open>hex\<close> and \<open>dec\<close> followed by a blank and a decimal number print that number,
  modulo \<open>2 ^ 32\<close>, in the other notation and change no setting; from 30 digits on, the copy of the
  number in the 30-byte local buffer overflows it.\<close>

theorem convert_numbers:
  assumes "list_all is_dec t" and "t \<noteq> []" and "length t < 256"
  shows "usmart_sys_cmd_exe (''hex '' @ t) dev =
      (if length t < 30 then Some (0, dev, [Printf crlf [],
         Printf (''HEX:0X%X'' @ crlf) [U32 (of_nat (num_val 10 t))], Printf crlf []]) else None) \<and>
    usmart_sys_cmd_exe (''dec '' @ t) dev =
      (if length t < 30 then Some (0, dev, [Printf crlf [],
         Printf (''DEC:%lu'' @ crlf) [U32 (of_nat (num_val 10 t))], Printf crlf []]) else None)"
proof -
  note name = convert_command [of _ t]
  have find: "find_cmd ''hex'' sys_cmd_tab = 4" "find_cmd ''dec'' sys_cmd_tab = 5"
    by (simp_all add: sys_cmd_tab_def usmart_strcmp_iff)
  show ?thesis
    using name [of "''hex''"] name [of "''dec''"] find cmd_arg_digits [OF assms]
    by (simp add: usmart_sys_cmd_exe_def Let_def MAX_FNAME_LEN_def)
qed

theorem convert_numbers_witness:
  "usmart_sys_cmd_exe ''hex 100'' (usmart_dev_init (\<lambda>_. 0)) =
     Some (0, usmart_dev_init (\<lambda>_. 0), [Printf crlf [], Printf (''HEX:0X%X'' @ crlf) [U32 100], Printf crlf []])"
  using convert_numbers [of "''100''" "usmart_dev_init (\<lambda>_. 0)"] by (simp add: is_dec_def digit_def)

text \<open>a comma inside a string counts as a separator when the parameters of a call are counted but
  not when they are read, so a call with one string parameter is accepted for \<open>write_addr\<close>, which
  takes two, and it is then run with one argument.\<close>

theorem string_comma_accepted:
  "map_option (\<lambda>(sta, dev). (sta, func_id dev, pnum dev))
     (usmart_cmd_rec (''write_addr('' @ [CHR 0x22] @ ''1,2'' @ [CHR 0x22] @ '')'')
        (usmart_dev_init (\<lambda>_. 0))) = Some (USMART_OK, 1, 1) \<and>
   nametab_entries ! 1 = (''write_addr'', 2, 0)"
  by code_simp

end
