(* ===== verification/Remote.thy ===== *)
theory Remote
  imports Event_Machine
begin

text \<open>
  The infrared decoder of \<open>remote.c\<close>: the timer overflow and the capture callbacks, which measure
  the high phases of the NEC code, and \<open>remote_scan\<close>, which checks a received frame. The handle
  test is an argument, so are the pin level and the captured count that the HAL delivers; the
  capture polarity and the reset of the counter are part of the state.
\<close>

definition REMOTE_ID :: u8 where "REMOTE_ID = 0"

record remote =
  g_remote_sta :: u8
  g_remote_data :: u32
  g_remote_cnt :: u8
  capture_falling :: bool
  timer_count :: u16

definition remote_reset :: remote where
  "remote_reset = \<lparr>g_remote_sta = 0, g_remote_data = 0, g_remote_cnt = 0,
     capture_falling = False, timer_count = 0\<rparr>"

definition overflow_sta :: "u8 \<Rightarrow> u8" where
  "overflow_sta sta0 =
     (let sta1 = sta0 AND NOT 0x10;
          sta2 = (if sta1 AND 0x0F = 0 then sta1 OR push_bit 6 1 else sta1)
      in if sta2 AND 0x0F < 14 then sta2 + 1
         else (sta2 AND NOT (push_bit 7 1)) AND 0xF0)"

definition HAL_TIM_PeriodElapsedCallback :: "bool \<Rightarrow> remote \<Rightarrow> remote" where
  "HAL_TIM_PeriodElapsedCallback is_timx s =
     (if is_timx \<and> g_remote_sta s AND 0x80 \<noteq> 0
      then s\<lparr>g_remote_sta := overflow_sta (g_remote_sta s)\<rparr> else s)"

text \<open>The measurement of one high phase, with \<open>dval\<close> microseconds.\<close>

definition remote_pulse :: "u16 \<Rightarrow> remote \<Rightarrow> remote" where
  "remote_pulse dval s =
     (if g_remote_sta s AND 0x80 \<noteq> 0 then
        if dval > 300 \<and> dval < 800 then
          s\<lparr>g_remote_data := drop_bit 1 (g_remote_data s) AND NOT 0x80000000\<rparr>
        else if dval > 1400 \<and> dval < 1800 then
          s\<lparr>g_remote_data := drop_bit 1 (g_remote_data s) OR 0x80000000\<rparr>
        else if dval > 2000 \<and> dval < 3000 then
          s\<lparr>g_remote_cnt := g_remote_cnt s + 1, g_remote_sta := g_remote_sta s AND 0xF0\<rparr>
        else s
      else if dval > 4200 \<and> dval < 4700 then
        s\<lparr>g_remote_sta := g_remote_sta s OR push_bit 7 1, g_remote_cnt := 0\<rparr>
      else s)"

definition HAL_TIM_IC_CaptureCallback :: "bool \<Rightarrow> bool \<Rightarrow> u16 \<Rightarrow> remote \<Rightarrow> remote" where
  "HAL_TIM_IC_CaptureCallback is_timx rdata dval s =
     (if is_timx then
        if rdata then
          s\<lparr>capture_falling := True, timer_count := 0, g_remote_sta := g_remote_sta s OR 0x10\<rparr>
        else
          let s1 = s\<lparr>capture_falling := False\<rparr>;
              s2 = (if g_remote_sta s1 AND 0x10 \<noteq> 0 then remote_pulse dval s1 else s1)
          in s2\<lparr>g_remote_sta := g_remote_sta s2 AND NOT (push_bit 4 1)\<rparr>
      else s)"

definition remote_scan :: "remote \<Rightarrow> u8 \<times> remote" where
  "remote_scan s =
     (if g_remote_sta s AND push_bit 6 1 \<noteq> 0 then
        let a1 = (ucast (g_remote_data s) :: u8);
            a2 = (ucast (drop_bit 8 (g_remote_data s) AND 0xFF) :: u8);
            k1 = (ucast (drop_bit 16 (g_remote_data s) AND 0xFF) :: u8);
            k2 = (ucast (drop_bit 24 (g_remote_data s) AND 0xFF) :: u8);
            sta = (if a1 = NOT a2 \<and> a1 = REMOTE_ID then if k1 = NOT k2 then k1 else 0 else 0)
        in if sta = 0 \<or> g_remote_sta s AND 0x80 = 0
           then (sta, s\<lparr>g_remote_sta := g_remote_sta s AND NOT (push_bit 6 1), g_remote_cnt := 0\<rparr>)
           else (sta, s)
      else (0, s))"

datatype remote_event = Overflow | Rising | Falling u16 | Scan

definition remote_handler :: "remote \<Rightarrow> remote_event \<Rightarrow> remote option" where
  "remote_handler s e =
     Some (case e of
        Overflow \<Rightarrow> HAL_TIM_PeriodElapsedCallback True s
      | Rising \<Rightarrow> HAL_TIM_IC_CaptureCallback True True 0 s
      | Falling d \<Rightarrow> HAL_TIM_IC_CaptureCallback True False d s
      | Scan \<Rightarrow> snd (remote_scan s))"

section \<open>The states of the decoder\<close>

text \<open>
  Without the leader flag the overflow counter is zero; with it, it is at most 14. Bit 5 is
  never set.
\<close>

definition idle_stas :: "u8 list" where "idle_stas = [0, 0x10, 0x40, 0x50]"

definition busy_stas :: "u8 list" where
  "busy_stas = concat (map (\<lambda>n. [0x80 + n, 0x90 + n, 0xC0 + n, 0xD0 + n])
     [0, 1, 2, 3, 4, 5, 6, 7, 8, 9, 10, 11, 12, 13, 14])"

definition sta_ok :: "u8 \<Rightarrow> bool" where
  "sta_ok w \<longleftrightarrow> w \<in> set (idle_stas @ busy_stas)"

definition remote_inv :: "remote \<Rightarrow> bool" where
  "remote_inv s \<longleftrightarrow> sta_ok (g_remote_sta s)"

lemma idle_no_leader: "list_all (\<lambda>w. w AND 0x80 = 0) idle_stas" by code_simp
lemma busy_leader: "list_all (\<lambda>w. w AND 0x80 \<noteq> 0) busy_stas" by code_simp

lemma busy_overflow: "list_all (\<lambda>w. overflow_sta w \<in> set (idle_stas @ busy_stas)) busy_stas"
  by code_simp

lemma closed_rising: "list_all (\<lambda>w. w OR 0x10 \<in> set (idle_stas @ busy_stas)) (idle_stas @ busy_stas)"
  by code_simp

lemma closed_falling: "list_all (\<lambda>w. w AND NOT (push_bit 4 1) \<in> set (idle_stas @ busy_stas)) (idle_stas @ busy_stas)"
  by code_simp

lemma closed_scan: "list_all (\<lambda>w. w AND NOT (push_bit 6 1) \<in> set (idle_stas @ busy_stas)) (idle_stas @ busy_stas)"
  by code_simp

lemma closed_repeat: "list_all (\<lambda>w. w AND 0xF0 \<in> set (idle_stas @ busy_stas)) (idle_stas @ busy_stas)"
  by code_simp

lemma closed_leader: "list_all (\<lambda>w. w OR push_bit 7 1 \<in> set (idle_stas @ busy_stas)) (idle_stas @ busy_stas)"
  by code_simp

lemma sta_closed:
  assumes "sta_ok w"
  shows "sta_ok (w OR 0x10)" "sta_ok (w AND NOT (push_bit 4 1))" "sta_ok (w AND NOT (push_bit 6 1))"
    "sta_ok (w AND 0xF0)" "sta_ok (w OR push_bit 7 1)"
  using assms closed_rising closed_falling closed_scan closed_repeat closed_leader
  unfolding sta_ok_def list_all_iff by blast+

lemmas sta_closed_simps = sta_closed [simplified]

lemma inv_idle_or_busy:
  "remote_inv s \<Longrightarrow> if g_remote_sta s AND 0x80 = 0 then g_remote_sta s \<in> set idle_stas
     else g_remote_sta s \<in> set busy_stas"
  using idle_no_leader busy_leader by (auto simp: remote_inv_def sta_ok_def list_all_iff)

lemma overflow_sta_ok: "w \<in> set busy_stas \<Longrightarrow> sta_ok (overflow_sta w)"
  using busy_overflow by (simp add: list_all_iff sta_ok_def)

lemma overflow_inv: "remote_inv s \<Longrightarrow> remote_inv (HAL_TIM_PeriodElapsedCallback b s)"
  using inv_idle_or_busy [of s] overflow_sta_ok
  by (auto simp: HAL_TIM_PeriodElapsedCallback_def remote_inv_def split: if_splits)

lemma pulse_inv: "remote_inv s \<Longrightarrow> remote_inv (remote_pulse d s)"
  unfolding remote_pulse_def remote_inv_def by (simp add: sta_closed_simps)

lemma capture_inv: "remote_inv s \<Longrightarrow> remote_inv (HAL_TIM_IC_CaptureCallback b r d s)"
  using pulse_inv [of "s\<lparr>capture_falling := False\<rparr>" d]
  unfolding HAL_TIM_IC_CaptureCallback_def remote_inv_def Let_def
  by (simp add: sta_closed_simps)

lemma scan_inv: "remote_inv s \<Longrightarrow> remote_inv (snd (remote_scan s))"
  unfolding remote_scan_def remote_inv_def Let_def by (simp add: sta_closed_simps)

interpretation decoder: event_machine remote_handler remote_inv
  by unfold_locales
    (auto simp: remote_handler_def overflow_inv capture_inv scan_inv split: remote_event.split)

lemma remote_reset_inv: "remote_inv remote_reset"
  by (simp add: remote_inv_def remote_reset_def sta_ok_def idle_stas_def)

section \<open>A frame\<close>

text \<open>A pulse length that the decoder takes as a bit, and the bit.\<close>

definition pulse_bit :: "u16 \<Rightarrow> bool option" where
  "pulse_bit d = (if d > 300 \<and> d < 800 then Some False
                  else if d > 1400 \<and> d < 1800 then Some True else None)"

definition bits_word :: "bool list \<Rightarrow> u32" where
  "bits_word bs = horner_sum of_bool 2 bs"

lemma bit_bits_word: "bit (bits_word bs) n \<longleftrightarrow> n < 32 \<and> n < length bs \<and> bs ! n"
  by (simp add: bits_word_def bit_horner_sum_bit_iff)

text \<open>The data register shifts the bits in from the left, first bit lowest.\<close>

definition shift_bit :: "bool \<Rightarrow> u32 \<Rightarrow> u32" where
  "shift_bit b w = (if b then drop_bit 1 w OR 0x80000000 else drop_bit 1 w AND NOT 0x80000000)"

lemma bit_top: "bit (0x80000000 :: u32) n \<longleftrightarrow> n = 31"
proof -
  have "(0x80000000 :: u32) = push_bit 31 1" by simp
  then show ?thesis by (simp only: bit_push_bit_iff bit_1_iff) auto
qed

lemma bit_shift_bit: "bit (shift_bit b w) n \<longleftrightarrow> (if n = 31 then b else bit w (Suc n))"
  unfolding shift_bit_def
  by (auto simp only: bit_or_iff bit_and_iff bit_not_iff bit_drop_bit_eq bit_top comp_def split: if_splits)
    (auto dest: bit_imp_le_length)

lemma shift_bits:
  "length bs \<le> 32 \<Longrightarrow> n < 32 \<Longrightarrow>
     bit (fold shift_bit bs w) n \<longleftrightarrow>
       (if n + length bs < 32 then bit w (n + length bs) else bs ! (n + length bs - 32))"
proof (induction bs arbitrary: w)
  case Nil
  then show ?case by simp
next
  case (Cons b bs)
  then show ?case by (auto simp: bit_shift_bit nth_Cons' Suc_diff_le)
qed

lemma shift_word: "length bs = 32 \<Longrightarrow> fold shift_bit bs w = bits_word bs"
  by (rule bit_word_eqI) (simp add: shift_bits bit_bits_word)

lemma run_leader:
  assumes "g_remote_sta s \<in> set idle_stas" and "4200 < d" and "d < 4700"
  shows "\<exists>s'. run_events remote_handler s [Rising, Falling d] = Some s' \<and>
    g_remote_sta s' \<in> {0x80, 0xC0} \<and> g_remote_cnt s' = 0 \<and> g_remote_data s' = g_remote_data s"
  using assms
  by (auto simp: idle_stas_def remote_handler_def HAL_TIM_IC_CaptureCallback_def remote_pulse_def Let_def)

lemma run_bit:
  assumes "g_remote_sta s \<in> {0x80, 0xC0}" and "pulse_bit d = Some b"
  shows "\<exists>s'. run_events remote_handler s [Rising, Falling d] = Some s' \<and>
    g_remote_sta s' = g_remote_sta s \<and> g_remote_cnt s' = g_remote_cnt s \<and>
    g_remote_data s' = shift_bit b (g_remote_data s)"
  using assms
  by (auto simp: pulse_bit_def remote_handler_def HAL_TIM_IC_CaptureCallback_def remote_pulse_def
      shift_bit_def Let_def split: if_splits)

definition pulses :: "u16 list \<Rightarrow> remote_event list" where
  "pulses ds = concat (map (\<lambda>d. [Rising, Falling d]) ds)"

lemma run_bits:
  "g_remote_sta s \<in> {0x80, 0xC0} \<Longrightarrow> map pulse_bit ds = map Some bs \<Longrightarrow>
     \<exists>s'. run_events remote_handler s (pulses ds) = Some s' \<and>
       g_remote_sta s' = g_remote_sta s \<and> g_remote_cnt s' = g_remote_cnt s \<and>
       g_remote_data s' = fold shift_bit bs (g_remote_data s)"
proof (induction ds arbitrary: s bs)
  case Nil
  then show ?case by (simp add: pulses_def)
next
  case (Cons d ds)
  then obtain b bs' where bs: "bs = b # bs'" "pulse_bit d = Some b" "map pulse_bit ds = map Some bs'"
    by (cases bs) auto
  from run_bit [OF Cons.prems(1) bs(2)] obtain s1 where s1:
    "run_events remote_handler s [Rising, Falling d] = Some s1" "g_remote_sta s1 = g_remote_sta s"
    "g_remote_cnt s1 = g_remote_cnt s" "g_remote_data s1 = shift_bit b (g_remote_data s)" by blast
  have "run_events remote_handler s (pulses (d # ds)) = run_events remote_handler s1 (pulses ds)"
    using s1(1) run_events_append [of remote_handler s "[Rising, Falling d]" "pulses ds"]
    by (simp add: pulses_def)
  with Cons.IH [of s1 bs'] Cons.prems(1) s1 bs show ?case by simp
qed

lemma run_frame:
  assumes "g_remote_sta s \<in> set idle_stas" and "4200 < d" and "d < 4700"
    and "map pulse_bit ds = map Some bs" and "length bs = 32"
  shows "\<exists>s'. run_events remote_handler s ([Rising, Falling d] @ pulses ds @ [Rising, Overflow]) = Some s' \<and>
    g_remote_sta s' = 0xC1 \<and> g_remote_cnt s' = 0 \<and> g_remote_data s' = bits_word bs"
proof -
  from run_leader [OF assms(1-3)] obtain s1 where s1:
    "run_events remote_handler s [Rising, Falling d] = Some s1" "g_remote_sta s1 \<in> {0x80, 0xC0}"
    "g_remote_cnt s1 = 0" by blast
  from run_bits [OF s1(2) assms(4)] obtain s2 where s2:
    "run_events remote_handler s1 (pulses ds) = Some s2" "g_remote_sta s2 \<in> {0x80, 0xC0}"
    "g_remote_cnt s2 = 0" "g_remote_data s2 = bits_word bs"
    using s1(2,3) shift_word [OF assms(5)] by auto
  have "\<exists>s'. run_events remote_handler s2 [Rising, Overflow] = Some s' \<and> g_remote_sta s' = 0xC1 \<and>
      g_remote_cnt s' = 0 \<and> g_remote_data s' = bits_word bs"
    using s2(2-4)
    by (auto simp: remote_handler_def HAL_TIM_IC_CaptureCallback_def HAL_TIM_PeriodElapsedCallback_def
        overflow_sta_def Let_def)
  then show ?thesis using s1(1) s2(1) by (simp only: run_events_append option.case)
qed

text \<open>The word of a NEC frame: address, its complement, command, its complement, lowest bit first.\<close>

definition nec_bits :: "u8 \<Rightarrow> u8 \<Rightarrow> bool list" where
  "nec_bits addr cmd = concat (map (\<lambda>b. map (bit b) [0..<8]) [addr, NOT addr, cmd, NOT cmd])"

lemma length_nec_bits [simp]: "length (nec_bits a c) = 32"
  by (simp add: nec_bits_def)

lemma nth_nec_bits:
  "n < 8 \<Longrightarrow> nec_bits a c ! n = bit a n"
  "n < 8 \<Longrightarrow> nec_bits a c ! (8 + n) = bit (NOT a) n"
  "n < 8 \<Longrightarrow> nec_bits a c ! (16 + n) = bit c n"
  "n < 8 \<Longrightarrow> nec_bits a c ! (24 + n) = bit (NOT c) n"
  by (simp_all add: nec_bits_def nth_append del: upt_Suc upt_rec_numeral)

lemma byte_of_word:
  assumes "\<And>n. n < 8 \<Longrightarrow> bit (w :: u32) (k + n) = bit (b :: u8) n"
  shows "ucast (drop_bit k w AND 0xFF) = b"
proof (rule bit_word_eqI)
  fix n assume n: "n < LENGTH(8)"
  have "(0xFF :: u32) = mask 8" by (simp add: mask_eq_exp_minus_1)
  then have "bit (0xFF :: u32) n \<longleftrightarrow> n < 8" by (simp only: bit_mask_iff) auto
  then show "bit (ucast (drop_bit k w AND 0xFF) :: u8) n = bit b n"
    using n assms [of n] by (simp only: bit_ucast_iff bit_and_iff bit_drop_bit_eq comp_def) auto
qed

lemma nec_bytes:
  "(ucast (bits_word (nec_bits a c)) :: u8) = a"
  "ucast (drop_bit 8 (bits_word (nec_bits a c)) AND 0xFF) = NOT a"
  "ucast (drop_bit 16 (bits_word (nec_bits a c)) AND 0xFF) = c"
  "ucast (drop_bit 24 (bits_word (nec_bits a c)) AND 0xFF) = NOT c"
proof -
  show "(ucast (bits_word (nec_bits a c)) :: u8) = a"
    by (rule bit_word_eqI) (simp add: bit_ucast_iff bit_bits_word nth_nec_bits)
qed (rule byte_of_word; simp add: bit_bits_word nth_nec_bits)+

text \<open>C9: from any reachable state without the leader flag, the pulses of a frame, each length within
  the decoder's tolerance, followed by one timer overflow make \<open>remote_scan\<close> return the command of
  the frame when the address is the receiver's, and zero otherwise; the repeat counter is zero.\<close>

theorem remote_frame_decoded:
  assumes "run_events remote_handler remote_reset before = Some s" and "g_remote_sta s AND 0x80 = 0"
    and "4200 < d" and "d < 4700" and "map pulse_bit ds = map Some (nec_bits addr cmd)"
  shows "\<exists>s'. run_events remote_handler s ([Rising, Falling d] @ pulses ds @ [Rising, Overflow]) = Some s' \<and>
    fst (remote_scan s') = (if addr = REMOTE_ID then cmd else 0) \<and> g_remote_cnt s' = 0"
proof -
  have "remote_inv s" using decoder.run_safe [OF remote_reset_inv, of before] assms(1) by auto
  then have "g_remote_sta s \<in> set idle_stas" using inv_idle_or_busy assms(2) by auto
  from run_frame [OF this assms(3-5)] obtain s' where s':
    "run_events remote_handler s ([Rising, Falling d] @ pulses ds @ [Rising, Overflow]) = Some s'"
    "g_remote_sta s' = 0xC1" "g_remote_cnt s' = 0" "g_remote_data s' = bits_word (nec_bits addr cmd)"
    by auto
  have "fst (remote_scan s') = (if addr = REMOTE_ID then cmd else 0)"
    unfolding remote_scan_def Let_def s'(2,4) nec_bytes by simp
  with s' show ?thesis by blast
qed

lemma nominal_pulse: "pulse_bit (if b then 1680 else 560) = Some b"
  by (simp add: pulse_bit_def)

theorem remote_frame_decoded_witness:
  "\<exists>s'. run_events remote_handler remote_reset
      ([Rising, Falling 4500] @ pulses (map (\<lambda>b. if b then 1680 else 560) (nec_bits 0 162)) @
       [Rising, Overflow]) = Some s' \<and>
    fst (remote_scan s') = 162 \<and> g_remote_cnt s' = 0"
  using remote_frame_decoded [of "[]" remote_reset 4500
      "map (\<lambda>b. if b then 1680 else 560) (nec_bits 0 162)" 0 162]
  by (simp add: remote_reset_def REMOTE_ID_def nominal_pulse comp_def)

lemma busy_counts:
  "list_all (\<lambda>w. unat (w AND 0x0F) \<le> 14 \<and>
     (overflow_sta w AND 0x80 = 0 \<or> unat (overflow_sta w AND 0x0F) = Suc (unat (w AND 0x0F)))) busy_stas"
  by code_simp

lemma run_overflows:
  "remote_inv s \<Longrightarrow> \<exists>s'. run_events remote_handler s (replicate n Overflow) = Some s' \<and> remote_inv s' \<and>
     (g_remote_sta s' AND 0x80 = 0 \<or>
      n + unat (g_remote_sta s AND 0x0F) = unat (g_remote_sta s' AND 0x0F))"
proof (induction n arbitrary: s)
  case 0
  then show ?case by simp
next
  case (Suc n)
  define s1 where "s1 = HAL_TIM_PeriodElapsedCallback True s"
  have inv1: "remote_inv s1" unfolding s1_def by (rule overflow_inv [OF Suc.prems])
  have step: "run_events remote_handler s (replicate (Suc n) Overflow) =
      run_events remote_handler s1 (replicate n Overflow)"
    by (simp add: remote_handler_def s1_def)
  have stays: "\<exists>t'. run_events remote_handler t (replicate m Overflow) = Some t' \<and> remote_inv t' \<and>
      g_remote_sta t' AND 0x80 = 0" if "remote_inv t" "g_remote_sta t AND 0x80 = 0" for t m
    using that
    by (induction m) (simp_all add: remote_handler_def HAL_TIM_PeriodElapsedCallback_def)
  show ?case
  proof (cases "g_remote_sta s1 AND 0x80 = 0")
    case True
    then show ?thesis unfolding step using stays [OF inv1 True, of n] by blast
  next
    case False
    then have "g_remote_sta s AND 0x80 \<noteq> 0"
      by (auto simp: s1_def HAL_TIM_PeriodElapsedCallback_def split: if_splits)
    then have "g_remote_sta s \<in> set busy_stas" "g_remote_sta s1 = overflow_sta (g_remote_sta s)"
      using inv_idle_or_busy [OF Suc.prems] by (simp_all add: s1_def HAL_TIM_PeriodElapsedCallback_def)
    then have "unat (g_remote_sta s1 AND 0x0F) = Suc (unat (g_remote_sta s AND 0x0F))"
      using busy_counts False by (auto simp: list_all_iff)
    then show ?thesis unfolding step using Suc.IH [OF inv1] by auto
  qed
qed

text \<open>C39: a key that is released is noticed: after 15 timer overflows without a pulse, from any
  reachable state, the leader flag is clear, and the next \<open>remote_scan\<close> leaves the decoder without a
  pending frame.\<close>

theorem remote_release_noticed:
  assumes "run_events remote_handler remote_reset before = Some s"
  shows "\<exists>s'. run_events remote_handler s (replicate 15 Overflow) = Some s' \<and>
    g_remote_sta s' AND 0x80 = 0 \<and> fst (remote_scan (snd (remote_scan s'))) = 0"
proof -
  have "remote_inv s" using decoder.run_safe [OF remote_reset_inv, of before] assms by auto
  from run_overflows [OF this, of 15] obtain s' where s':
    "run_events remote_handler s (replicate 15 Overflow) = Some s'" "remote_inv s'"
    "g_remote_sta s' AND 0x80 = 0 \<or>
      15 + unat (g_remote_sta s AND 0x0F) = unat (g_remote_sta s' AND 0x0F)" by blast
  have clear: "g_remote_sta s' AND 0x80 = 0"
  proof (rule ccontr)
    assume no: "g_remote_sta s' AND 0x80 \<noteq> 0"
    then have "g_remote_sta s' \<in> set busy_stas" using inv_idle_or_busy [OF s'(2)] by simp
    then have "unat (g_remote_sta s' AND 0x0F) \<le> 14" using busy_counts by (auto simp: list_all_iff)
    with s'(3) no show False by simp
  qed
  then have "g_remote_sta s' \<in> set idle_stas" using inv_idle_or_busy [OF s'(2)] by simp
  then have "fst (remote_scan (snd (remote_scan s'))) = 0"
    by (auto simp: remote_scan_def Let_def idle_stas_def)
  with s'(1) clear show ?thesis by blast
qed

theorem remote_release_noticed_witness:
  "\<exists>s'. run_events remote_handler remote_reset (replicate 15 Overflow) = Some s' \<and>
    g_remote_sta s' AND 0x80 = 0 \<and> fst (remote_scan (snd (remote_scan s'))) = 0"
  using remote_release_noticed [of "[]" remote_reset] by simp

end
