(* ===== verification/Key.thy ===== *)
theory Key
  imports Event_Machine
begin

text \<open>
  The key scanner of \<open>key.c\<close>: \<open>key_scan\<close> with its static flag \<open>key_up\<close>. The four pins are read
  twice, before and after the debounce delay, so their levels are two arguments: a key can be
  pressed or released in between.
\<close>

record pins =
  key0 :: bool
  key1 :: bool
  key2 :: bool
  wk_up :: bool

definition KEY0_PRES :: u8 where "KEY0_PRES = 1"
definition KEY1_PRES :: u8 where "KEY1_PRES = 2"
definition KEY2_PRES :: u8 where "KEY2_PRES = 3"
definition WKUP_PRES :: u8 where "WKUP_PRES = 4"

text \<open>The pin levels before the delay are \<open>p\<close>, those after it \<open>q\<close>; key pins are active low.\<close>

definition key_scan :: "bool \<Rightarrow> pins \<Rightarrow> pins \<Rightarrow> bool \<Rightarrow> u8 \<times> bool" where
  "key_scan mode p q key_up0 =
     (let key_up = (if mode then True else key_up0)
      in if key_up \<and> (\<not> key0 p \<or> \<not> key1 p \<or> \<not> key2 p \<or> wk_up p) then
           let v0 = (0 :: u8);
               v1 = (if \<not> key0 q then KEY0_PRES else v0);
               v2 = (if \<not> key1 q then KEY1_PRES else v1);
               v3 = (if \<not> key2 q then KEY2_PRES else v2);
               v4 = (if wk_up q then WKUP_PRES else v3)
           in (v4, False)
         else if key0 p \<and> key1 p \<and> key2 p \<and> \<not> wk_up p then (0, True)
         else (0, key_up))"

text \<open>The two halves of a scan, before the delay and after it, for callers that something can interrupt in between.\<close>

definition pressed :: "pins \<Rightarrow> u8" where
  "pressed p = (if wk_up p then WKUP_PRES else if \<not> key2 p then KEY2_PRES
                else if \<not> key1 p then KEY1_PRES else if \<not> key0 p then KEY0_PRES else 0)"

lemma pressed_zero: "pressed p = 0 \<longleftrightarrow> key0 p \<and> key1 p \<and> key2 p \<and> \<not> wk_up p"
  by (auto simp: pressed_def KEY0_PRES_def KEY1_PRES_def KEY2_PRES_def WKUP_PRES_def)

lemma key_scan_halves:
  "key_scan mode p q up =
     (if (mode \<or> up) \<and> pressed p \<noteq> 0 then (pressed q, False) else (0, if pressed p = 0 then True else mode \<or> up))"
proof -
  have "(if wk_up q then WKUP_PRES else if \<not> key2 q then KEY2_PRES else if \<not> key1 q then KEY1_PRES else if \<not> key0 q then KEY0_PRES else 0) = pressed q"
    by (simp add: pressed_def)
  then show ?thesis by (simp add: key_scan_def pressed_zero Let_def)
qed

text \<open>The values of a sequence of scans, each with the pins before and after its delay.\<close>

fun key_scans :: "bool \<Rightarrow> (pins \<times> pins) list \<Rightarrow> bool \<Rightarrow> u8 list" where
  "key_scans mode [] key_up = []"
| "key_scans mode ((p, q) # ps) key_up =
     (case key_scan mode p q key_up of (v, key_up') \<Rightarrow> v # key_scans mode ps key_up')"

text \<open>C40: Without repetition a scan reports when it is the first that sees a key after one that saw none;
  it reports the key that is down after the delay of 10 ms, with the priority WK_UP, KEY2, KEY1, KEY0, and
  0 when the keys have been released in the delay: then that press is lost. All other scans report 0. With
  repetition every scan that sees a key reports the one after the delay.\<close>

theorem key_scans_reports:
  "key_scans False ps True =
     map2 (\<lambda>released (p, q). if released \<and> pressed p \<noteq> 0 then pressed q else 0) (True # map (\<lambda>(p, q). pressed p = 0) ps) ps \<and>
   key_scans True ps up = map (\<lambda>(p, q). if pressed p = 0 then 0 else pressed q) ps"
proof
  have "key_scans False ps up =
      map2 (\<lambda>released (p, q). if released \<and> pressed p \<noteq> 0 then pressed q else 0) (up # map (\<lambda>(p, q). pressed p = 0) ps) ps" for up
    by (induction ps arbitrary: up) (auto simp: key_scan_halves)
  then show "key_scans False ps True =
      map2 (\<lambda>released (p, q). if released \<and> pressed p \<noteq> 0 then pressed q else 0) (True # map (\<lambda>(p, q). pressed p = 0) ps) ps" .
  show "key_scans True ps up = map (\<lambda>(p, q). if pressed p = 0 then 0 else pressed q) ps"
    by (induction ps arbitrary: up) (auto simp: key_scan_halves)
qed

end
