(* ===== verification/Iic.thy ===== *)
theory Iic
  imports Apollo_Prelude
begin

text \<open>
  The bit-banged I2C master \<open>myiic.c\<close>. The two lines and the delay are the parameter \<open>port\<close>, acting on
  a hardware state of any type. A bus monitor, which turns line changes into start, stop and
  clocked bits, says what each routine puts on the wires.
\<close>

record 's iic_port =
  IIC_SCL :: "bool \<Rightarrow> 's \<Rightarrow> 's"
  IIC_SDA :: "bool \<Rightarrow> 's \<Rightarrow> 's"
  IIC_READ_SDA :: "'s \<Rightarrow> bool \<times> 's"
  delay_us :: "nat \<Rightarrow> 's \<Rightarrow> 's"
  delay_ms :: "nat \<Rightarrow> 's \<Rightarrow> 's"

definition iic_delay :: "'s iic_port \<Rightarrow> 's \<Rightarrow> 's" where
  "iic_delay port = delay_us port 2"

definition iic_start :: "'s iic_port \<Rightarrow> 's \<Rightarrow> 's" where
  "iic_start port s0 =
     (let s1 = IIC_SDA port True s0;
          s2 = iic_delay port (IIC_SCL port True s1);
          s3 = iic_delay port (IIC_SDA port False s2)
      in iic_delay port (IIC_SCL port False s3))"

definition iic_stop :: "'s iic_port \<Rightarrow> 's \<Rightarrow> 's" where
  "iic_stop port s0 =
     (let s1 = iic_delay port (IIC_SDA port False s0);
          s2 = iic_delay port (IIC_SCL port True s1)
      in iic_delay port (IIC_SDA port True s2))"

text \<open>The acknowledge loop with \<open>k\<close> more readings allowed before it gives up.\<close>

fun ack_loop :: "'s iic_port \<Rightarrow> nat \<Rightarrow> 's \<Rightarrow> u8 \<times> 's" where
  "ack_loop port k s =
     (case IIC_READ_SDA port s of (sda, s') \<Rightarrow>
        if sda then (case k of 0 \<Rightarrow> (1, iic_stop port s') | Suc k' \<Rightarrow> ack_loop port k' s')
        else (0, s'))"

definition iic_wait_ack :: "'s iic_port \<Rightarrow> 's \<Rightarrow> u8 \<times> 's" where
  "iic_wait_ack port s0 =
     (let s1 = iic_delay port (IIC_SDA port True s0);
          s2 = iic_delay port (IIC_SCL port True s1);
          (rack, s3) = ack_loop port 250 s2
      in (rack, iic_delay port (IIC_SCL port False s3)))"

definition iic_ack :: "'s iic_port \<Rightarrow> 's \<Rightarrow> 's" where
  "iic_ack port s0 =
     (let s1 = iic_delay port (IIC_SDA port False s0);
          s2 = iic_delay port (IIC_SCL port True s1);
          s3 = iic_delay port (IIC_SCL port False s2)
      in iic_delay port (IIC_SDA port True s3))"

definition iic_nack :: "'s iic_port \<Rightarrow> 's \<Rightarrow> 's" where
  "iic_nack port s0 =
     (let s1 = iic_delay port (IIC_SDA port True s0);
          s2 = iic_delay port (IIC_SCL port True s1)
      in iic_delay port (IIC_SCL port False s2))"

fun send_bits :: "'s iic_port \<Rightarrow> nat \<Rightarrow> u8 \<Rightarrow> 's \<Rightarrow> 's" where
  "send_bits port 0 data s = s"
| "send_bits port (Suc k) data s =
     (let s1 = iic_delay port (IIC_SDA port (drop_bit 7 (data AND 0x80) \<noteq> 0) s);
          s2 = iic_delay port (IIC_SCL port True s1);
          s3 = IIC_SCL port False s2
      in send_bits port k (push_bit 1 data) s3)"

definition iic_send_byte :: "'s iic_port \<Rightarrow> u8 \<Rightarrow> 's \<Rightarrow> 's" where
  "iic_send_byte port data s = IIC_SDA port True (send_bits port 8 data s)"

fun read_bits :: "'s iic_port \<Rightarrow> nat \<Rightarrow> u8 \<Rightarrow> 's \<Rightarrow> u8 \<times> 's" where
  "read_bits port 0 receive s = (receive, s)"
| "read_bits port (Suc k) receive s =
     (let r1 = push_bit 1 receive;
          s1 = iic_delay port (IIC_SCL port True s);
          (sda, s2) = IIC_READ_SDA port s1;
          r2 = (if sda then r1 + 1 else r1)
      in read_bits port k r2 (iic_delay port (IIC_SCL port False s2)))"

definition iic_read_byte :: "'s iic_port \<Rightarrow> bool \<Rightarrow> 's \<Rightarrow> u8 \<times> 's" where
  "iic_read_byte port ack s =
     (case read_bits port 8 0 s of (receive, s') \<Rightarrow>
        (receive, if \<not> ack then iic_nack port s' else iic_ack port s'))"

section \<open>Bits of a byte\<close>

lemma msb_test: "drop_bit 7 (b AND 0x80) \<noteq> 0 \<longleftrightarrow> bit (b :: u8) 7"
proof -
  have "drop_bit 7 (b AND 0x80) = of_bool (bit b 7)"
    by (rule bit_word_eqI) (unfold bit_drop_bit_eq bit_and_iff comp_def bit_0x80, auto simp: bit_1_iff intro: gr0I)
  then show ?thesis by simp
qed

lemma msb_test_simp: "drop_bit 7 b AND 1 = 0 \<longleftrightarrow> \<not> bit (b :: u8) 7"
  by (simp add: and_one_eq bit_iff_odd_drop_bit even_iff_mod_2_eq_zero)

lemma bit_shifted: "bit (push_bit k b :: u8) 7 \<longleftrightarrow> k \<le> 7 \<and> bit b (7 - k)"
  by (simp add: bit_push_bit_iff)

text \<open>The bits of a byte in the order in which they are sent.\<close>

definition byte_bits :: "u8 \<Rightarrow> bool list" where
  "byte_bits b = map (\<lambda>k. bit b (7 - k)) [0..<8]"

definition bits_byte :: "bool list \<Rightarrow> u8" where
  "bits_byte bs = foldl (\<lambda>w b. if b then push_bit 1 w + 1 else push_bit 1 w) 0 bs"

lemma bit_double: "bit (w * 2 :: u8) n \<longleftrightarrow> 0 < n \<and> n < 8 \<and> bit w (n - 1)"
proof -
  have "w * 2 = push_bit 1 w" by simp
  then show ?thesis by (simp only: bit_push_bit_iff) auto
qed

lemma bit_shift_in: "bit (if b then push_bit 1 w + 1 else push_bit 1 w :: u8) n \<longleftrightarrow>
    (if n = 0 then b else n < 8 \<and> bit w (n - 1))"
proof -
  have "even (push_bit 1 w)" by simp
  then have "push_bit 1 w + 1 = push_bit 1 w OR 1" by (simp add: even_or_iff disjunctive_add or_one_eq)
  then show ?thesis by (auto simp: bit_or_iff bit_double bit_1_iff)
qed

lemma bits_byte_bits: "bits_byte (byte_bits b) = b"
proof (rule bit_word_eqI)
  fix n assume "n < LENGTH(8)"
  then have "n \<in> {0, 1, 2, 3, 4, 5, 6, 7}" by auto
  then show "bit (bits_byte (byte_bits b)) n = bit b n"
    by (auto simp: bits_byte_def byte_bits_def bit_shift_in upt_rec)
qed

section \<open>The bus monitor\<close>

datatype bus_event = Start | Stop | Bit bool

text \<open>
  The lines and what was seen on them: a clock edge with the level of the data line, a change of
  the data line while the clock is high. The acknowledge slot is always answered.
\<close>

record wires =
  scl :: bool
  sda :: bool
  seen :: "bus_event list"

definition drive_scl :: "bool \<Rightarrow> wires \<Rightarrow> wires" where
  "drive_scl x w = w\<lparr>scl := x, seen := seen w @ (if x \<and> \<not> scl w then [Bit (sda w)] else [])\<rparr>"

definition drive_sda :: "bool \<Rightarrow> wires \<Rightarrow> wires" where
  "drive_sda x w = w\<lparr>sda := x,
     seen := seen w @ (if scl w \<and> x \<noteq> sda w then [if x then Stop else Start] else [])\<rparr>"

definition monitor :: "wires iic_port" where
  "monitor = \<lparr>IIC_SCL = drive_scl, IIC_SDA = drive_sda, IIC_READ_SDA = (\<lambda>w. (False, w)),
     delay_us = (\<lambda>n w. w), delay_ms = (\<lambda>n w. w)\<rparr>"

lemma monitor_simps [simp]:
  "IIC_SCL monitor = drive_scl" "IIC_SDA monitor = drive_sda" "IIC_READ_SDA monitor w = (False, w)"
  "delay_us monitor n w = w" "delay_ms monitor n w = w" "iic_delay monitor w = w"
  by (simp_all add: monitor_def iic_delay_def)

lemma send_bits_seen:
  "\<not> scl w \<Longrightarrow> k \<le> 8 \<Longrightarrow> \<exists>d. send_bits monitor k data w =
     \<lparr>scl = False, sda = d, seen = seen w @ map (\<lambda>i. Bit (bit data (7 - i))) [0..<k]\<rparr>"
proof (induction k arbitrary: data w)
  case 0
  then show ?case by (cases w) auto
next
  case (Suc k)
  have shift: "map (\<lambda>i. Bit (bit (push_bit 1 data) (7 - i))) [0..<k] =
      map (\<lambda>i. Bit (bit data (7 - i))) [1..<Suc k]"
    using Suc.prems(2) by (auto simp: bit_double map_Suc_upt [symmetric] simp del: map_Suc_upt upt_Suc)
  have "[0..<Suc k] = 0 # [1..<Suc k]" by (simp add: upt_rec)
  with Suc.IH [of "drive_scl False (drive_scl True (drive_sda (bit data 7) w))" "push_bit 1 data"]
    Suc.prems shift
  show ?case by (cases w) (simp add: msb_test_simp drive_scl_def drive_sda_def del: upt_Suc)
qed

lemma send_byte_seen:
  "\<not> scl w \<Longrightarrow> iic_send_byte monitor data w =
     \<lparr>scl = False, sda = True, seen = seen w @ map Bit (byte_bits data)\<rparr>"
  using send_bits_seen [of w 8 data]
  by (auto simp: iic_send_byte_def drive_sda_def byte_bits_def simp del: upt_rec_numeral)

lemma wait_ack_seen:
  "\<not> scl w \<Longrightarrow> iic_wait_ack monitor w = (0, \<lparr>scl = False, sda = True, seen = seen w @ [Bit True]\<rparr>)"
  by (cases w) (simp add: iic_wait_ack_def Let_def drive_scl_def drive_sda_def)

lemma start_seen:
  "iic_start monitor w =
     \<lparr>scl = False, sda = False, seen = seen w @
        (if scl w then (if sda w then [] else [Stop]) else [Bit True]) @ [Start]\<rparr>"
  by (cases w) (auto simp: iic_start_def Let_def drive_scl_def drive_sda_def)

lemma stop_seen:
  "\<not> scl w \<Longrightarrow> iic_stop monitor w =
     \<lparr>scl = True, sda = True, seen = seen w @ [Bit False, Stop]\<rparr>"
  by (cases w) (auto simp: iic_stop_def Let_def drive_scl_def drive_sda_def)

end
