(* ===== verification/Byte_Store.thy ===== *)
theory Byte_Store
  imports Apollo_Prelude
begin

text \<open>
  The contract of the storage devices: a device whose elements - bytes or sectors - can be read and
  written in runs at any position, and that keeps all other elements. Clients see a plain array,
  or a family of independent arrays behind one interface.
\<close>

definition window :: "(nat \<Rightarrow> 'a) \<Rightarrow> nat \<Rightarrow> nat \<Rightarrow> 'a list" where
  "window f a n = map f [a..<a + n]"

definition overwrite :: "(nat \<Rightarrow> 'a) \<Rightarrow> nat \<Rightarrow> 'a list \<Rightarrow> nat \<Rightarrow> 'a" where
  "overwrite f a bs x = (if a \<le> x \<and> x < a + length bs then bs ! (x - a) else f x)"

lemma length_window [simp]: "length (window f a n) = n"
  by (simp add: window_def)

lemma nth_window [simp]: "i < n \<Longrightarrow> window f a n ! i = f (a + i)"
  by (simp add: window_def)

lemma window_Suc: "window f a (Suc n) = f a # window f (Suc a) n"
  by (rule nth_equalityI) (simp_all add: nth_Cons split: nat.split)

lemma overwrite_Nil [simp]: "overwrite f a [] = f"
  by (rule ext) (auto simp: overwrite_def)

lemma overwrite_one: "overwrite f a [b] = f(a := b)"
  by (rule ext) (auto simp: overwrite_def)

lemma overwrite_append: "overwrite (overwrite f a bs) (a + length bs) cs = overwrite f a (bs @ cs)"
  by (rule ext) (auto simp: overwrite_def nth_append)

lemma overwrite_outside: "x < a \<or> a + length bs \<le> x \<Longrightarrow> overwrite f a bs x = f x"
  by (auto simp: overwrite_def)

lemma window_overwrite [simp]: "window (overwrite f a bs) a (length bs) = bs"
  by (rule nth_equalityI) (simp_all add: overwrite_def)

lemma window_apart: "a + n \<le> b \<or> b + length bs \<le> a \<Longrightarrow> window (overwrite f b bs) a n = window f a n"
  by (rule nth_equalityI) (auto simp: overwrite_def)

lemma overwrite_window: "overwrite f a (window f a n) = f"
  by (rule ext) (auto simp: overwrite_def less_diff_conv2)

lemma window_take: "k \<le> n \<Longrightarrow> take k (window f a n) = window f a k"
  by (rule nth_equalityI) simp_all

lemma window_drop: "k \<le> n \<Longrightarrow> drop k (window f a n) = window f (a + k) (n - k)"
  by (rule nth_equalityI) (simp_all add: add.assoc)

datatype 'a request = Fetch nat nat | Store nat "'a list"

fun request_ok :: "nat \<Rightarrow> nat \<Rightarrow> 'a request \<Rightarrow> bool" where
  "request_ok limit cap (Fetch a n) \<longleftrightarrow> 0 < n \<and> n \<le> limit \<and> a + n \<le> cap"
| "request_ok limit cap (Store a bs) \<longleftrightarrow> bs \<noteq> [] \<and> length bs \<le> limit \<and> a + length bs \<le> cap"

text \<open>A condition on the elements a request stores.\<close>

fun stores_only :: "('a \<Rightarrow> bool) \<Rightarrow> 'a request \<Rightarrow> bool" where
  "stores_only P (Fetch a n) \<longleftrightarrow> True"
| "stores_only P (Store a bs) \<longleftrightarrow> list_all P bs"

lemma stores_any [simp]: "stores_only (\<lambda>_. True) r"
  by (cases r) (simp_all add: list_all_iff)

text \<open>The answers of a plain array to a list of requests, and the array at the end.\<close>

fun array_session :: "'a request list \<Rightarrow> (nat \<Rightarrow> 'a) \<Rightarrow> 'a list list \<times> (nat \<Rightarrow> 'a)" where
  "array_session [] f = ([], f)"
| "array_session (Fetch a n # rs) f = (case array_session rs f of (as, g) \<Rightarrow> (window f a n # as, g))"
| "array_session (Store a bs # rs) f = array_session rs (overwrite f a bs)"

text \<open>The same requests to a device given by its two operations.\<close>

fun device_session ::
  "(nat \<Rightarrow> nat \<Rightarrow> 's \<Rightarrow> ('a list \<times> 's) option) \<Rightarrow> (nat \<Rightarrow> 'a list \<Rightarrow> 's \<Rightarrow> 's option) \<Rightarrow>
   'a request list \<Rightarrow> 's \<Rightarrow> ('a list list \<times> 's) option" where
  "device_session fetch store [] s = Some ([], s)"
| "device_session fetch store (Fetch a n # rs) s = do {
     (bs, s1) \<leftarrow> fetch a n s;
     (as, s2) \<leftarrow> device_session fetch store rs s1;
     Some (bs # as, s2)
   }"
| "device_session fetch store (Store a bs # rs) s = do {
     s1 \<leftarrow> store a bs s;
     device_session fetch store rs s1
   }"

text \<open>
  A device that behaves like an array of elements: the contract of the storage drivers. The
  elements that may be stored are those with \<open>storable\<close>.
\<close>

locale array_store =
  fixes valid :: "'s \<Rightarrow> bool"
    and capacity :: "'s \<Rightarrow> nat"
    and content :: "'s \<Rightarrow> nat \<Rightarrow> 'a"
    and fetch :: "nat \<Rightarrow> nat \<Rightarrow> 's \<Rightarrow> ('a list \<times> 's) option"
    and store :: "nat \<Rightarrow> 'a list \<Rightarrow> 's \<Rightarrow> 's option"
    and limit :: nat
    and storable :: "'a \<Rightarrow> bool"
  assumes fetch_law:
    "valid s \<Longrightarrow> 0 < n \<Longrightarrow> n \<le> limit \<Longrightarrow> a + n \<le> capacity s \<Longrightarrow>
       \<exists>s'. fetch a n s = Some (window (content s) a n, s') \<and> valid s' \<and>
         capacity s' = capacity s \<and> content s' = content s"
    and store_law:
    "valid s \<Longrightarrow> bs \<noteq> [] \<Longrightarrow> length bs \<le> limit \<Longrightarrow> a + length bs \<le> capacity s \<Longrightarrow> list_all storable bs \<Longrightarrow>
       \<exists>s'. store a bs s = Some s' \<and> valid s' \<and> capacity s' = capacity s \<and>
         content s' = overwrite (content s) a bs"
begin

lemma session_law:
  "valid s \<Longrightarrow> list_all (request_ok limit (capacity s)) rs \<Longrightarrow> list_all (stores_only storable) rs \<Longrightarrow>
     \<exists>s'. device_session fetch store rs s = Some (fst (array_session rs (content s)), s') \<and>
       valid s' \<and> content s' = snd (array_session rs (content s))"
proof (induction rs arbitrary: s)
  case Nil
  then show ?case by simp
next
  case (Cons r rs)
  show ?case
  proof (cases r)
    case (Fetch a n)
    with Cons.prems fetch_law [of s n a] obtain s1 where s1:
      "fetch a n s = Some (window (content s) a n, s1)" "valid s1" "capacity s1 = capacity s"
      "content s1 = content s" by auto
    with Cons.IH [of s1] Cons.prems Fetch show ?thesis by (auto split: prod.split)
  next
    case (Store a bs)
    with Cons.prems store_law [of s bs a] obtain s1 where s1:
      "store a bs s = Some s1" "valid s1" "capacity s1 = capacity s"
      "content s1 = overwrite (content s) a bs" by auto
    with Cons.IH [of s1] Cons.prems Store show ?thesis by auto
  qed
qed

end

text \<open>Devices of bytes, which store any byte.\<close>

locale byte_store = array_store valid capacity content fetch store limit "\<lambda>_. True"
  for valid :: "'s \<Rightarrow> bool" and capacity :: "'s \<Rightarrow> nat" and content :: "'s \<Rightarrow> nat \<Rightarrow> u8"
    and fetch :: "nat \<Rightarrow> nat \<Rightarrow> 's \<Rightarrow> (u8 list \<times> 's) option" and store :: "nat \<Rightarrow> u8 list \<Rightarrow> 's \<Rightarrow> 's option"
    and limit :: nat
begin

lemma byte_session_law:
  "valid s \<Longrightarrow> list_all (request_ok limit (capacity s)) rs \<Longrightarrow>
     \<exists>s'. device_session fetch store rs s = Some (fst (array_session rs (content s)), s') \<and>
       valid s' \<and> content s' = snd (array_session rs (content s))"
  using session_law [of s rs] by (simp add: list_all_iff)

end

section \<open>Several devices behind one interface\<close>

text \<open>Requests to the members of a family of arrays, and to the devices that stand for them.\<close>

fun arrays_session :: "('d \<times> 'a request) list \<Rightarrow> ('d \<Rightarrow> nat \<Rightarrow> 'a) \<Rightarrow> 'a list list \<times> ('d \<Rightarrow> nat \<Rightarrow> 'a)" where
  "arrays_session [] c = ([], c)"
| "arrays_session ((d, Fetch a n) # rs) c = (case arrays_session rs c of (as, g) \<Rightarrow> (window (c d) a n # as, g))"
| "arrays_session ((d, Store a bs) # rs) c = arrays_session rs (c(d := overwrite (c d) a bs))"

fun family_session ::
  "('d \<Rightarrow> nat \<Rightarrow> nat \<Rightarrow> 's \<Rightarrow> ('a list \<times> 's) option) \<Rightarrow> ('d \<Rightarrow> nat \<Rightarrow> 'a list \<Rightarrow> 's \<Rightarrow> 's option) \<Rightarrow>
   ('d \<times> 'a request) list \<Rightarrow> 's \<Rightarrow> ('a list list \<times> 's) option" where
  "family_session fetch store [] s = Some ([], s)"
| "family_session fetch store ((d, Fetch a n) # rs) s = do {
     (bs, s1) \<leftarrow> fetch d a n s;
     (as, s2) \<leftarrow> family_session fetch store rs s1;
     Some (bs # as, s2)
   }"
| "family_session fetch store ((d, Store a bs) # rs) s = do {
     s1 \<leftarrow> store d a bs s;
     family_session fetch store rs s1
   }"

text \<open>A store to one member leaves the others alone.\<close>

locale store_family =
  fixes valid :: "'s \<Rightarrow> bool"
    and capacity :: "'d \<Rightarrow> 's \<Rightarrow> nat"
    and content :: "'d \<Rightarrow> 's \<Rightarrow> nat \<Rightarrow> 'a"
    and fetch :: "'d \<Rightarrow> nat \<Rightarrow> nat \<Rightarrow> 's \<Rightarrow> ('a list \<times> 's) option"
    and store :: "'d \<Rightarrow> nat \<Rightarrow> 'a list \<Rightarrow> 's \<Rightarrow> 's option"
    and limit :: nat
    and storable :: "'d \<Rightarrow> 'a \<Rightarrow> bool"
  assumes family_fetch:
    "valid s \<Longrightarrow> 0 < n \<Longrightarrow> n \<le> limit \<Longrightarrow> a + n \<le> capacity d s \<Longrightarrow>
       \<exists>s'. fetch d a n s = Some (window (content d s) a n, s') \<and> valid s' \<and>
         (\<forall>e. capacity e s' = capacity e s \<and> content e s' = content e s)"
    and family_store:
    "valid s \<Longrightarrow> bs \<noteq> [] \<Longrightarrow> length bs \<le> limit \<Longrightarrow> a + length bs \<le> capacity d s \<Longrightarrow> list_all (storable d) bs \<Longrightarrow>
       \<exists>s'. store d a bs s = Some s' \<and> valid s' \<and>
         (\<forall>e. capacity e s' = capacity e s \<and>
           content e s' = (if e = d then overwrite (content d s) a bs else content e s))"
begin

lemma family_law:
  "valid s \<Longrightarrow> \<forall>(d, r)\<in>set rs. request_ok limit (capacity d s) r \<and> stores_only (storable d) r \<Longrightarrow>
     \<exists>s'. family_session fetch store rs s = Some (fst (arrays_session rs (\<lambda>d. content d s)), s') \<and>
       valid s' \<and> (\<lambda>d. content d s') = snd (arrays_session rs (\<lambda>d. content d s))"
proof (induction rs arbitrary: s)
  case Nil
  then show ?case by simp
next
  case (Cons x rs)
  obtain d r where x: "x = (d, r)" by fastforce
  show ?case
  proof (cases r)
    case (Fetch a n)
    with Cons.prems x family_fetch [of s n a d] obtain s1 where s1:
      "fetch d a n s = Some (window (content d s) a n, s1)" "valid s1" "\<forall>e. capacity e s1 = capacity e s"
      "(\<lambda>e. content e s1) = (\<lambda>e. content e s)" by auto
    with Cons.IH [of s1] Cons.prems Fetch x show ?thesis by (auto split: prod.split)
  next
    case (Store a bs)
    with Cons.prems x family_store [of s bs a d] obtain s1 where s1:
      "store d a bs s = Some s1" "valid s1" "\<forall>e. capacity e s1 = capacity e s"
      "(\<lambda>e. content e s1) = (\<lambda>e. content e s)(d := overwrite (content d s) a bs)" by (auto simp: fun_eq_iff)
    with Cons.IH [of s1] Cons.prems Store x show ?thesis by auto
  qed
qed

end

sublocale store_family \<subseteq> member: array_store valid "capacity d" "content d" "fetch d" "store d" limit "storable d" for d
proof
  fix s n a assume "valid s" "0 < n" "n \<le> limit" "a + n \<le> capacity d s"
  from family_fetch [OF this] show "\<exists>s'. fetch d a n s = Some (window (content d s) a n, s') \<and> valid s' \<and>
      capacity d s' = capacity d s \<and> content d s' = content d s" by metis
next
  fix s bs a assume "valid s" "bs \<noteq> []" "length bs \<le> limit" "a + length bs \<le> capacity d s" "list_all (storable d) bs"
  from family_store [OF this] show "\<exists>s'. store d a bs s = Some s' \<and> valid s' \<and> capacity d s' = capacity d s \<and>
      content d s' = overwrite (content d s) a bs" by metis
qed

end
