(* ===== verification/At24cxx.thy ===== *)
theory At24cxx
  imports Iic Byte_Store
begin

text \<open>
  The EEPROM driver \<open>24cxx.c\<close> on the I2C master, for the device the board has (\<open>EE_TYPE\<close>), and its
  use as a byte store. What the driver relies on is stated for the two transactions of the
  device's data sheet, byte write and random read; a device at the level of the wires shows that
  these can hold.
\<close>

definition AT24C02 :: u16 where "AT24C02 = 255"
definition AT24C16 :: u16 where "AT24C16 = 2047"
definition EE_TYPE :: u16 where "EE_TYPE = AT24C02"

definition at24cxx_init :: "'s iic_port \<Rightarrow> 's \<Rightarrow> 's" where
  "at24cxx_init port s = iic_stop port s"

text \<open>Sending the device and memory address, common to the two routines.\<close>

definition send_mem_address :: "'s iic_port \<Rightarrow> u16 \<Rightarrow> 's \<Rightarrow> 's" where
  "send_mem_address port addr s0 =
     (let s1 = iic_start port s0;
          s2 = (if EE_TYPE > AT24C16 then
                  let s = snd (iic_wait_ack port (iic_send_byte port 0xA0 s1))
                  in iic_send_byte port (ucast (drop_bit 8 addr)) s
                else iic_send_byte port (ucast (0xA0 + push_bit 1 (drop_bit 8 addr))) s1);
          s3 = snd (iic_wait_ack port s2);
          s4 = iic_send_byte port (ucast (addr mod 256)) s3
      in snd (iic_wait_ack port s4))"

definition at24cxx_read_one_byte :: "'s iic_port \<Rightarrow> u16 \<Rightarrow> 's \<Rightarrow> u8 \<times> 's" where
  "at24cxx_read_one_byte port addr s0 =
     (let s1 = send_mem_address port addr s0;
          s2 = iic_start port s1;
          s3 = snd (iic_wait_ack port (iic_send_byte port 0xA1 s2));
          (b, s4) = iic_read_byte port False s3
      in (b, iic_stop port s4))"

definition at24cxx_write_one_byte :: "'s iic_port \<Rightarrow> u16 \<Rightarrow> u8 \<Rightarrow> 's \<Rightarrow> 's" where
  "at24cxx_write_one_byte port addr data s0 =
     (let s1 = send_mem_address port addr s0;
          s2 = snd (iic_wait_ack port (iic_send_byte port data s1))
      in delay_ms port 10 (iic_stop port s2))"

definition at24cxx_check :: "'s iic_port \<Rightarrow> 's \<Rightarrow> u8 \<times> 's" where
  "at24cxx_check port s0 =
     (let addr = EE_TYPE;
          (b, s1) = at24cxx_read_one_byte port addr s0
      in if b = 0x55 then (0, s1)
         else
           let s2 = at24cxx_write_one_byte port addr 0x55 s1;
               (b', s3) = at24cxx_read_one_byte port 255 s2
           in if b' = 0x55 then (0, s3) else (1, s3))"

fun read_each :: "'s iic_port \<Rightarrow> u16 \<Rightarrow> nat \<Rightarrow> 's \<Rightarrow> u8 list \<times> 's" where
  "read_each port addr 0 s = ([], s)"
| "read_each port addr (Suc k) s =
     (case at24cxx_read_one_byte port addr s of (b, s1) \<Rightarrow>
        case read_each port (addr + 1) k s1 of (bs, s2) \<Rightarrow> (b # bs, s2))"

definition at24cxx_read :: "'s iic_port \<Rightarrow> u16 \<Rightarrow> u16 \<Rightarrow> 's \<Rightarrow> u8 list \<times> 's" where
  "at24cxx_read port addr datalen s = read_each port addr (unat datalen) s"

text \<open>The loop takes its bytes from \<open>pbuf\<close>; past its end the result is \<open>None\<close>.\<close>

fun write_each :: "'s iic_port \<Rightarrow> u16 \<Rightarrow> u8 list \<Rightarrow> nat \<Rightarrow> 's \<Rightarrow> 's option" where
  "write_each port addr pbuf 0 s = Some s"
| "write_each port addr pbuf (Suc k) s =
     (case pbuf of
        [] \<Rightarrow> None
      | b # bs \<Rightarrow> write_each port (addr + 1) bs k (at24cxx_write_one_byte port addr b s))"

definition at24cxx_write :: "'s iic_port \<Rightarrow> u16 \<Rightarrow> u8 list \<Rightarrow> u16 \<Rightarrow> 's \<Rightarrow> 's option" where
  "at24cxx_write port addr pbuf datalen s = write_each port addr pbuf (unat datalen) s"

section \<open>On the wires\<close>

text \<open>A byte and its acknowledge slot.\<close>

definition frame :: "u8 \<Rightarrow> bus_event list" where
  "frame b = map Bit (byte_bits b) @ [Bit True]"

lemma send_ack_seen:
  "\<not> scl w \<Longrightarrow> snd (iic_wait_ack monitor (iic_send_byte monitor b w)) =
     \<lparr>scl = False, sda = True, seen = seen w @ frame b\<rparr>"
  by (simp add: send_byte_seen wait_ack_seen frame_def)

definition idle_bus :: wires where
  "idle_bus = \<lparr>scl = True, sda = True, seen = []\<rparr>"

text \<open>C34: on the bus a byte write to the EEPROM is a start condition, the device address 0xA0 with the
  address bits 8 to 10 in place of the chip selects, the low address byte, the data byte, each sent
  highest bit first and followed by an acknowledge slot with the line released, and a stop condition; the data
  line never changes while the clock is high otherwise.\<close>

theorem eeprom_write_on_bus:
  "seen (at24cxx_write_one_byte monitor addr d idle_bus) =
     [Start] @ frame (ucast (0xA0 + push_bit 1 (drop_bit 8 addr))) @ frame (ucast (addr mod 256)) @
     frame d @ [Bit False, Stop]"
proof -
  have type: "\<not> EE_TYPE > AT24C16" by (simp add: EE_TYPE_def AT24C02_def AT24C16_def)
  show ?thesis
    by (simp add: at24cxx_write_one_byte_def send_mem_address_def Let_def type start_seen idle_bus_def
        send_ack_seen stop_seen del: push_bit_of_1)
qed

section \<open>The driver as a byte store\<close>

text \<open>The bus with what is known of the device: its bytes, and whether it is ready.\<close>

record 's eeprom_env =
  ee_port :: "'s iic_port"
  ee_cells :: "'s \<Rightarrow> nat \<Rightarrow> u8"
  ee_ready :: "'s \<Rightarrow> bool"

definition send_ack :: "'s iic_port \<Rightarrow> u8 \<Rightarrow> 's \<Rightarrow> 's" where
  "send_ack port b s = snd (iic_wait_ack port (iic_send_byte port b s))"

definition byte_write_law :: "'s eeprom_env \<Rightarrow> bool" where
  "byte_write_law e \<longleftrightarrow>
     (\<forall>s a d. ee_ready e s \<longrightarrow>
        (let p = ee_port e;
             s' = delay_ms p 10 (iic_stop p (send_ack p d (send_ack p a (send_ack p 0xA0 (iic_start p s)))))
         in ee_ready e s' \<and> ee_cells e s' = (ee_cells e s)(unat a := d)))"

definition random_read_law :: "'s eeprom_env \<Rightarrow> bool" where
  "random_read_law e \<longleftrightarrow>
     (\<forall>s a. ee_ready e s \<longrightarrow>
        (let p = ee_port e;
             s1 = send_ack p a (send_ack p 0xA0 (iic_start p s));
             (b, s2) = iic_read_byte p False (send_ack p 0xA1 (iic_start p s1));
             s' = iic_stop p s2
         in b = ee_cells e s (unat a) \<and> ee_ready e s' \<and> ee_cells e s' = ee_cells e s))"

lemma mem_address:
  assumes "addr < 256"
  shows "send_mem_address port addr s = send_ack port (ucast addr) (send_ack port 0xA0 (iic_start port s))"
proof -
  have type: "\<not> EE_TYPE > AT24C16" by (simp add: EE_TYPE_def AT24C02_def AT24C16_def)
  have lt: "unat addr < 256" using assms by (simp add: word_less_nat_alt)
  then have "drop_bit 8 addr = 0" "addr mod 256 = addr"
    by (simp_all add: word_unat_eq_iff unat_drop_bit_eq drop_bit_eq_div unat_mod_distrib unat_div_distrib)
  then show ?thesis by (simp add: send_mem_address_def type send_ack_def Let_def)
qed

lemma write_one_ok:
  assumes "byte_write_law e" and "ee_ready e s" and "a < 256"
  shows "ee_ready e (at24cxx_write_one_byte (ee_port e) (of_nat a) d s) \<and>
    ee_cells e (at24cxx_write_one_byte (ee_port e) (of_nat a) d s) = (ee_cells e s)(a := d)"
proof -
  have u: "unat (of_nat a :: u16) = a" using assms(3) by (intro unat_of_nat_small) simp
  then have "(of_nat a :: u16) < 256" using assms(3) by (simp add: word_less_nat_alt)
  note addr = mem_address [OF this]
  have "unat (ucast (of_nat a :: u16) :: u8) = a"
    using u assms(3) by (simp add: unsigned_ucast_eq take_bit_nat_eq_self)
  with assms(1,2) show ?thesis
    unfolding byte_write_law_def at24cxx_write_one_byte_def addr Let_def by (metis send_ack_def)
qed

lemma read_one_ok:
  assumes "random_read_law e" and "ee_ready e s" and "a < 256"
  shows "\<exists>s'. at24cxx_read_one_byte (ee_port e) (of_nat a) s = (ee_cells e s a, s') \<and>
    ee_ready e s' \<and> ee_cells e s' = ee_cells e s"
proof -
  have u: "unat (of_nat a :: u16) = a" using assms(3) by (intro unat_of_nat_small) simp
  then have "(of_nat a :: u16) < 256" using assms(3) by (simp add: word_less_nat_alt)
  note addr = mem_address [OF this]
  have c: "unat (ucast (of_nat a :: u16) :: u8) = a"
    using u assms(3) by (simp add: unsigned_ucast_eq take_bit_nat_eq_self)
  define p where "p = ee_port e"
  obtain b s2 where read: "iic_read_byte p False (send_ack p 0xA1 (iic_start p
      (send_ack p (ucast (of_nat a :: u16)) (send_ack p 0xA0 (iic_start p s))))) = (b, s2)" by fastforce
  have "b = ee_cells e s a \<and> ee_ready e (iic_stop p s2) \<and> ee_cells e (iic_stop p s2) = ee_cells e s"
    using assms(1) [unfolded random_read_law_def, rule_format, OF assms(2), of "ucast (of_nat a :: u16)"] read c
    by (simp add: p_def Let_def)
  then show ?thesis
    using read by (simp add: at24cxx_read_one_byte_def addr Let_def p_def send_ack_def)
qed

lemma write_each_ok:
  assumes "byte_write_law e"
  shows "ee_ready e s \<Longrightarrow> a + length bs \<le> 256 \<Longrightarrow>
    \<exists>s'. write_each (ee_port e) (of_nat a) bs (length bs) s = Some s' \<and> ee_ready e s' \<and>
      ee_cells e s' = overwrite (ee_cells e s) a bs"
proof (induction bs arbitrary: a s)
  case Nil
  then show ?case by simp
next
  case (Cons b bs)
  let ?s = "at24cxx_write_one_byte (ee_port e) (of_nat a) b s"
  have s: "ee_ready e ?s" "ee_cells e ?s = (ee_cells e s)(a := b)"
    using write_one_ok [OF assms Cons.prems(1), of a b] Cons.prems(2) by simp_all
  have f: "overwrite ((ee_cells e s)(a := b)) (Suc a) bs = overwrite (ee_cells e s) a (b # bs)"
    by (rule ext) (auto simp: overwrite_def nth_Cons' less_Suc_eq_le Suc_le_eq)
  from Cons.IH [OF s(1), of "Suc a", unfolded s(2) f] Cons.prems(2) show ?case
    by (simp add: add.commute)
qed

lemma read_each_ok:
  assumes "random_read_law e"
  shows "ee_ready e s \<Longrightarrow> a + n \<le> 256 \<Longrightarrow>
    \<exists>s'. read_each (ee_port e) (of_nat a) n s = (window (ee_cells e s) a n, s') \<and> ee_ready e s' \<and>
      ee_cells e s' = ee_cells e s"
proof (induction n arbitrary: a s)
  case 0
  then show ?case by (simp add: window_def)
next
  case (Suc n)
  from read_one_ok [OF assms Suc.prems(1), of a] Suc.prems(2) obtain s1 where s1:
    "at24cxx_read_one_byte (ee_port e) (of_nat a) s = (ee_cells e s a, s1)" "ee_ready e s1"
    "ee_cells e s1 = ee_cells e s" by auto
  from Suc.IH [OF s1(2), of "Suc a"] Suc.prems(2) s1 show ?case
    by (auto simp: window_Suc add.commute)
qed

definition ee_valid :: "'s eeprom_env \<times> 's \<Rightarrow> bool" where
  "ee_valid es \<longleftrightarrow> byte_write_law (fst es) \<and> random_read_law (fst es) \<and> ee_ready (fst es) (snd es)"

definition ee_content :: "'s eeprom_env \<times> 's \<Rightarrow> nat \<Rightarrow> u8" where
  "ee_content es = ee_cells (fst es) (snd es)"

definition ee_fetch :: "nat \<Rightarrow> nat \<Rightarrow> 's eeprom_env \<times> 's \<Rightarrow> (u8 list \<times> 's eeprom_env \<times> 's) option" where
  "ee_fetch a n es =
     (case at24cxx_read (ee_port (fst es)) (of_nat a) (of_nat n) (snd es) of (bs, s) \<Rightarrow> Some (bs, fst es, s))"

definition ee_store :: "nat \<Rightarrow> u8 list \<Rightarrow> 's eeprom_env \<times> 's \<Rightarrow> ('s eeprom_env \<times> 's) option" where
  "ee_store a bs es =
     map_option (Pair (fst es)) (at24cxx_write (ee_port (fst es)) (of_nat a) bs (of_nat (length bs)) (snd es))"

interpretation eeprom: byte_store ee_valid "\<lambda>_. 256" ee_content ee_fetch ee_store 256
proof
  fix es :: "'s eeprom_env \<times> 's" and n a :: nat
  assume v: "ee_valid es" and n: "0 < n" "n \<le> 256" and a: "a + n \<le> 256"
  have k: "unat (of_nat n :: u16) = n" using n by (intro unat_of_nat_small) simp
  from read_each_ok [of "fst es" "snd es" a n] v a obtain s' where
    "read_each (ee_port (fst es)) (of_nat a) n (snd es) = (window (ee_cells (fst es) (snd es)) a n, s')"
    "ee_ready (fst es) s'" "ee_cells (fst es) s' = ee_cells (fst es) (snd es)"
    by (auto simp: ee_valid_def)
  with v k show "\<exists>s'. ee_fetch a n es = Some (window (ee_content es) a n, s') \<and> ee_valid s' \<and>
      256 = 256 \<and> ee_content s' = ee_content es"
    by (auto simp: ee_fetch_def at24cxx_read_def ee_valid_def ee_content_def)
next
  fix es :: "'s eeprom_env \<times> 's" and bs :: "u8 list" and a :: nat
  assume v: "ee_valid es" and bs: "bs \<noteq> []" "length bs \<le> 256" and a: "a + length bs \<le> 256"
  have k: "unat (of_nat (length bs) :: u16) = length bs" using bs by (intro unat_of_nat_small) simp
  from write_each_ok [of "fst es" "snd es" a bs] v a obtain s' where
    "write_each (ee_port (fst es)) (of_nat a) bs (length bs) (snd es) = Some s'"
    "ee_ready (fst es) s'" "ee_cells (fst es) s' = overwrite (ee_cells (fst es) (snd es)) a bs"
    by (auto simp: ee_valid_def)
  with v k show "\<exists>s'. ee_store a bs es = Some s' \<and> ee_valid s' \<and> 256 = 256 \<and>
      ee_content s' = overwrite (ee_content es) a bs"
    by (auto simp: ee_store_def at24cxx_write_def ee_valid_def ee_content_def)
qed

section \<open>A device on the wires\<close>

text \<open>
  The lines as the master drives them, the bits of the byte in progress, the bytes received since the
  start condition, whether the device answers a read, its address counter and its memory.
\<close>

record chip24 =
  c_scl :: bool
  c_sda :: bool
  active :: bool
  shift :: "bool list"
  got :: "u8 list"
  talk :: bool
  pos :: u8
  c_mem :: "nat \<Rightarrow> u8"

definition accept_byte :: "u8 \<Rightarrow> chip24 \<Rightarrow> chip24" where
  "accept_byte b s =
     s\<lparr>shift := [], got := got s @ [b], talk := (got s = [] \<and> b = 0xA1),
       pos := (if got s = [0xA0] then b else pos s)\<rparr>"

definition chip_scl :: "bool \<Rightarrow> chip24 \<Rightarrow> chip24" where
  "chip_scl x s =
     (if x \<and> \<not> c_scl s then s\<lparr>c_scl := True, shift := shift s @ [c_sda s]\<rparr>
      else if \<not> x \<and> c_scl s then
        let s1 = s\<lparr>c_scl := False\<rparr>
        in if active s1 \<and> length (shift s1) = 9 then
             if talk s1 then s1\<lparr>shift := [], active := \<not> shift s1 ! 8, talk := \<not> shift s1 ! 8\<rparr>
             else accept_byte (bits_byte (take 8 (shift s1))) s1
           else s1
      else s)"

definition chip_sda :: "bool \<Rightarrow> chip24 \<Rightarrow> chip24" where
  "chip_sda x s =
     (if c_scl s \<and> x \<noteq> c_sda s then
        if x then
          s\<lparr>c_sda := x, active := False, shift := [], talk := False,
            c_mem := (if active s \<and> length (got s) = 3 \<and> hd (got s) = 0xA0
                      then (c_mem s)(unat (pos s) := got s ! 2) else c_mem s)\<rparr>
        else s\<lparr>c_sda := x, active := True, shift := [], got := [], talk := False\<rparr>
      else s\<lparr>c_sda := x\<rparr>)"

definition chip_level :: "chip24 \<Rightarrow> bool" where
  "chip_level s =
     (c_sda s \<and>
      (if active s \<and> talk s \<and> 0 < length (shift s) \<and> length (shift s) \<le> 8
       then bit (c_mem s (unat (pos s))) (8 - length (shift s))
       else if active s \<and> \<not> talk s \<and> length (shift s) = 9 then False
       else True))"

definition chip_port :: "chip24 iic_port" where
  "chip_port = \<lparr>IIC_SCL = chip_scl, IIC_SDA = chip_sda, IIC_READ_SDA = (\<lambda>s. (chip_level s, s)),
     delay_us = (\<lambda>n s. s), delay_ms = (\<lambda>n s. s)\<rparr>"

definition chip_env :: "chip24 eeprom_env" where
  "chip_env = \<lparr>ee_port = chip_port, ee_cells = c_mem, ee_ready = (\<lambda>s. c_scl s \<and> c_sda s)\<rparr>"

lemma chip_port_simps [simp]:
  "IIC_SCL chip_port = chip_scl" "IIC_SDA chip_port = chip_sda" "IIC_READ_SDA chip_port s = (chip_level s, s)"
  "delay_us chip_port n s = s" "delay_ms chip_port n s = s" "iic_delay chip_port s = s"
  by (simp_all add: chip_port_def iic_delay_def)

text \<open>Waiting for a byte: selected, receiving, between bytes.\<close>

definition listening :: "chip24 \<Rightarrow> bool" where
  "listening s \<longleftrightarrow> \<not> c_scl s \<and> active s \<and> \<not> talk s \<and> shift s = []"

lemma chip_start:
  "c_scl s \<longrightarrow> c_sda s \<Longrightarrow> iic_start chip_port s =
     s\<lparr>c_scl := False, c_sda := False, active := True, shift := [], got := [], talk := False\<rparr>"
proof -
  assume idle: "c_scl s \<longrightarrow> c_sda s"
  define t where "t = s\<lparr>c_scl := True, c_sda := False, active := True, shift := [], got := [], talk := False\<rparr>"
  have up: "chip_sda False (chip_scl True (chip_sda True s)) = t"
  proof (cases "c_scl s")
    case True
    then have "chip_scl True (chip_sda True s) = s\<lparr>c_sda := True\<rparr>"
      using idle by (simp add: chip_sda_def chip_scl_def)
    then show ?thesis using True by (simp add: chip_sda_def t_def)
  next
    case False
    then have "chip_scl True (chip_sda True s) = s\<lparr>c_sda := True, c_scl := True, shift := shift s @ [True]\<rparr>"
      by (simp add: chip_sda_def chip_scl_def)
    then show ?thesis by (simp add: chip_sda_def t_def)
  qed
  have "chip_scl False t = t\<lparr>c_scl := False\<rparr>" by (simp add: chip_scl_def t_def Let_def)
  with up show ?thesis by (simp add: iic_start_def Let_def t_def)
qed

lemma chip_send_bits:
  "\<not> c_scl s \<Longrightarrow> length (shift s) + k \<le> 8 \<Longrightarrow>
     \<exists>d. send_bits chip_port k data s =
       s\<lparr>c_sda := d, shift := shift s @ map (\<lambda>i. bit data (7 - i)) [0..<k]\<rparr>"
proof (induction k arbitrary: data s)
  case 0
  then show ?case by (cases s) auto
next
  case (Suc k)
  have shift: "map (\<lambda>i. bit (push_bit 1 data) (7 - i)) [0..<k] = map (\<lambda>i. bit data (7 - i)) [1..<Suc k]"
    using Suc.prems(2) by (auto simp: bit_double map_Suc_upt [symmetric] simp del: map_Suc_upt upt_Suc)
  have upt: "[0..<Suc k] = 0 # [1..<Suc k]" by (simp add: upt_rec)
  let ?s = "s\<lparr>c_sda := bit data 7, shift := shift s @ [bit data 7]\<rparr>"
  have step: "chip_scl False (chip_scl True (chip_sda (bit data 7) s)) = ?s"
    using Suc.prems by (cases s) (simp add: chip_scl_def chip_sda_def)
  from Suc.IH [of ?s "push_bit 1 data"] Suc.prems obtain d where
    "send_bits chip_port k (push_bit 1 data) ?s =
       ?s\<lparr>c_sda := d, shift := shift ?s @ map (\<lambda>i. bit (push_bit 1 data) (7 - i)) [0..<k]\<rparr>" by auto
  then have "send_bits chip_port (Suc k) data s =
      ?s\<lparr>c_sda := d, shift := shift ?s @ map (\<lambda>i. bit (push_bit 1 data) (7 - i)) [0..<k]\<rparr>"
    using step by (simp add: msb_test_simp)
  then show ?case unfolding shift upt by (cases s) auto
qed

lemma chip_send_ack:
  assumes "listening s"
  shows "send_ack chip_port b s = accept_byte b (s\<lparr>c_sda := True\<rparr>)"
proof -
  have s: "\<not> c_scl s" "active s" "\<not> talk s" "shift s = []" using assms by (simp_all add: listening_def)
  obtain d where "send_bits chip_port 8 b s = s\<lparr>c_sda := d, shift := byte_bits b\<rparr>"
    using chip_send_bits [of s 8 b] s by (auto simp: byte_bits_def simp del: upt_rec_numeral)
  then have "iic_send_byte chip_port b s = s\<lparr>c_sda := True, shift := byte_bits b\<rparr>"
    using s by (simp add: iic_send_byte_def chip_sda_def)
  define t where "t = s\<lparr>c_sda := True, shift := byte_bits b\<rparr>"
  have sent: "iic_send_byte chip_port b s = t"
    using \<open>iic_send_byte chip_port b s = _\<close> by (simp add: t_def)
  have len: "length (byte_bits b) = 8" by (simp add: byte_bits_def)
  have release: "chip_sda True t = t" using s by (simp add: chip_sda_def t_def)
  have rise: "chip_scl True t = t\<lparr>c_scl := True, shift := byte_bits b @ [True]\<rparr>"
    using s by (simp add: chip_scl_def t_def)
  have low: "\<not> chip_level (t\<lparr>c_scl := True, shift := byte_bits b @ [True]\<rparr>)"
    using s len by (simp add: chip_level_def t_def)
  have fall: "chip_scl False (t\<lparr>c_scl := True, shift := byte_bits b @ [True]\<rparr>) =
      accept_byte b (s\<lparr>c_sda := True\<rparr>)"
    using s len by (simp add: chip_scl_def t_def accept_byte_def bits_byte_bits Let_def)
  show ?thesis
    using low by (simp add: send_ack_def iic_wait_ack_def sent release rise fall Let_def)
qed

lemma chip_read_bits:
  "\<not> c_scl s \<Longrightarrow> c_sda s \<Longrightarrow> active s \<Longrightarrow> talk s \<Longrightarrow> length (shift s) + k = 8 \<Longrightarrow>
     read_bits chip_port k r s =
       (foldl (\<lambda>w b. if b then push_bit 1 w + 1 else push_bit 1 w) r
          (map (\<lambda>i. bit (c_mem s (unat (pos s))) (k - 1 - i)) [0..<k]),
        s\<lparr>shift := shift s @ replicate k True\<rparr>)"
proof (induction k arbitrary: r s)
  case 0
  then show ?case by (cases s) simp
next
  case (Suc k)
  let ?m = "c_mem s (unat (pos s))"
  let ?s = "s\<lparr>shift := shift s @ [True]\<rparr>"
  have level: "chip_level (chip_scl True s) = bit ?m k"
  proof -
    have "8 - Suc (length (shift s)) = k" using Suc.prems(5) by simp
    then show ?thesis using Suc.prems by (simp add: chip_scl_def chip_level_def)
  qed
  have step: "chip_scl False (chip_scl True s) = ?s"
    using Suc.prems by (cases s) (simp add: chip_scl_def)
  have upt: "[0..<Suc k] = 0 # map Suc [0..<k]" by (simp add: upt_conv_Cons map_Suc_upt del: upt_Suc)
  have "read_bits chip_port (Suc k) r s =
      read_bits chip_port k (if bit ?m k then push_bit 1 r + 1 else push_bit 1 r) ?s"
    using level step by simp
  also have "\<dots> = (foldl (\<lambda>w b. if b then push_bit 1 w + 1 else push_bit 1 w)
        (if bit ?m k then push_bit 1 r + 1 else push_bit 1 r) (map (\<lambda>i. bit ?m (k - 1 - i)) [0..<k]),
      ?s\<lparr>shift := shift ?s @ replicate k True\<rparr>)"
    using Suc.IH [of ?s] Suc.prems by simp
  finally show ?case unfolding upt by (simp add: comp_def)
qed

lemma chip_read:
  assumes "\<not> c_scl s" "c_sda s" "active s" "talk s" "shift s = []"
  shows "\<exists>s'. iic_read_byte chip_port False s = (c_mem s (unat (pos s)), s') \<and>
    \<not> c_scl s' \<and> c_mem s' = c_mem s \<and> \<not> active s'"
proof -
  let ?m = "c_mem s (unat (pos s))"
  have "map (\<lambda>i. bit ?m (8 - 1 - i)) [0..<8] = byte_bits ?m" by (simp add: byte_bits_def)
  then have "read_bits chip_port 8 0 s = (?m, s\<lparr>shift := replicate 8 True\<rparr>)"
    using chip_read_bits [of s 8 0] assms bits_byte_bits [of ?m] by (simp add: bits_byte_def del: upt_rec_numeral)
  moreover define t where "t = s\<lparr>shift := replicate 8 True\<rparr>"
  moreover have "chip_sda True t = t" "chip_scl True t = t\<lparr>c_scl := True, shift := replicate 9 True\<rparr>"
    using assms by (simp_all add: chip_sda_def chip_scl_def t_def replicate_append_same flip: replicate_Suc)
  moreover have "chip_scl False (t\<lparr>c_scl := True, shift := replicate 9 True\<rparr>) =
      s\<lparr>shift := [], active := False, talk := False\<rparr>"
    using assms by (simp add: chip_scl_def t_def Let_def)
  ultimately show ?thesis
    using assms by (simp add: iic_read_byte_def iic_nack_def Let_def)
qed

lemma chip_stop:
  "\<not> c_scl s \<Longrightarrow> c_scl (iic_stop chip_port s) \<and> c_sda (iic_stop chip_port s) \<and>
     c_mem (iic_stop chip_port s) =
       (if active s \<and> length (got s) = 3 \<and> hd (got s) = 0xA0
        then (c_mem s)(unat (pos s) := got s ! 2) else c_mem s)"
  by (cases s) (simp add: iic_stop_def chip_sda_def chip_scl_def Let_def)

lemma chip_address:
  assumes "c_scl s \<longrightarrow> c_sda s"
  shows "send_ack chip_port a (send_ack chip_port 0xA0 (iic_start chip_port s)) =
    s\<lparr>c_scl := False, c_sda := True, active := True, shift := [], got := [0xA0, a], talk := False, pos := a\<rparr>"
  using assms by (cases s) (simp add: chip_start chip_send_ack listening_def accept_byte_def)

lemma chip_laws: "byte_write_law chip_env" "random_read_law chip_env"
proof -
  have "let p = ee_port chip_env;
             s' = delay_ms p 10 (iic_stop p (send_ack p d (send_ack p a (send_ack p 0xA0 (iic_start p s)))))
         in ee_ready chip_env s' \<and> ee_cells chip_env s' = (ee_cells chip_env s)(unat a := d)"
    if "ee_ready chip_env s" for s a d
  proof -
    let ?t = "s\<lparr>c_scl := False, c_sda := True, active := True, shift := [], got := [0xA0, a], talk := False, pos := a\<rparr>"
    have ready: "c_scl s \<longrightarrow> c_sda s" using that by (simp add: chip_env_def)
    have "send_ack chip_port d ?t = ?t\<lparr>got := [0xA0, a, d]\<rparr>"
      by (cases s) (simp add: chip_send_ack listening_def accept_byte_def)
    then show ?thesis
      using chip_stop [of "?t\<lparr>got := [0xA0, a, d]\<rparr>"]
      by (simp add: chip_env_def Let_def chip_address [OF ready])
  qed
  then show "byte_write_law chip_env" unfolding byte_write_law_def by blast
  have "let p = ee_port chip_env;
             s1 = send_ack p a (send_ack p 0xA0 (iic_start p s));
             (b, s2) = iic_read_byte p False (send_ack p 0xA1 (iic_start p s1));
             s' = iic_stop p s2
         in b = ee_cells chip_env s (unat a) \<and> ee_ready chip_env s' \<and> ee_cells chip_env s' = ee_cells chip_env s"
    if "ee_ready chip_env s" for s a
  proof -
    let ?t = "s\<lparr>c_scl := False, c_sda := True, active := True, shift := [], got := [0xA1], talk := True, pos := a\<rparr>"
    have ready: "c_scl s \<longrightarrow> c_sda s" using that by (simp add: chip_env_def)
    have t: "send_ack chip_port 0xA1 (iic_start chip_port
        (send_ack chip_port a (send_ack chip_port 0xA0 (iic_start chip_port s)))) = ?t"
      unfolding chip_address [OF ready] by (simp add: chip_start chip_send_ack listening_def accept_byte_def)
    from chip_read [of ?t] obtain s' where
      "iic_read_byte chip_port False ?t = (c_mem s (unat a), s')" "\<not> c_scl s'" "c_mem s' = c_mem s" "\<not> active s'"
      by auto
    with t chip_stop [of s'] show ?thesis by (simp add: chip_env_def Let_def)
  qed
  then show "random_read_law chip_env" unfolding random_read_law_def by blast
qed

definition fresh_chip :: chip24 where
  "fresh_chip = \<lparr>c_scl = True, c_sda = True, active = False, shift = [], got = [], talk = False, pos = 0,
     c_mem = (\<lambda>_. 0xFF)\<rparr>"

text \<open>C33: on a device with the two transactions of its data sheet, any sequence of reads and writes
  through the EEPROM driver inside its 256 bytes gives the answers of a plain array of bytes, and
  the device holds the array's content at the end.\<close>

theorem eeprom_is_array:
  assumes "ee_valid es" and "list_all (request_ok 256 256) rs"
  shows "\<exists>es'. device_session ee_fetch ee_store rs es = Some (fst (array_session rs (ee_content es)), es') \<and>
    ee_content es' = snd (array_session rs (ee_content es))"
  using eeprom.byte_session_law [of es rs] assms by auto

theorem eeprom_is_array_witness:
  "\<exists>es'. device_session ee_fetch ee_store [Store 10 [7, 8], Store 11 [9], Fetch 9 4] (chip_env, fresh_chip) =
    Some ([[0xFF, 7, 9, 0xFF]], es')"
  using eeprom_is_array [of "(chip_env, fresh_chip)" "[Store 10 [7, 8], Store 11 [9], Fetch 9 4]"] chip_laws
  by (auto simp: ee_valid_def fresh_chip_def chip_env_def ee_content_def window_def overwrite_def upt_rec)

end
