(* ===== verification/Pcf8574.thy ===== *)
theory Pcf8574
  imports At24cxx
begin

text \<open>
  The I/O expander \<open>pcf8574.c\<close> on the I2C master: byte and bit access. What is relied on is that the
  expander keeps the byte that was written and gives back its pins; a bit is written by reading
  all pins and writing them back.
\<close>

definition PCF8574_ADDR :: u8 where "PCF8574_ADDR = 0x40"

definition pcf8574_write_byte :: "'s iic_port \<Rightarrow> u8 \<Rightarrow> 's \<Rightarrow> 's" where
  "pcf8574_write_byte port data s0 =
     (let s1 = iic_start port s0;
          s2 = snd (iic_wait_ack port (iic_send_byte port (PCF8574_ADDR OR 0x00) s1));
          s3 = snd (iic_wait_ack port (iic_send_byte port data s2))
      in delay_ms port 10 (iic_stop port s3))"

definition pcf8574_read_byte :: "'s iic_port \<Rightarrow> 's \<Rightarrow> u8 \<times> 's" where
  "pcf8574_read_byte port s0 =
     (let s1 = iic_start port s0;
          s2 = snd (iic_wait_ack port (iic_send_byte port (PCF8574_ADDR OR 0x01) s1));
          (b, s3) = iic_read_byte port False s2
      in (b, iic_stop port s3))"

text \<open>The initialisation after the pin set-up; \<open>iic_init\<close> ends with a stop condition.\<close>

definition pcf8574_init :: "'s iic_port \<Rightarrow> 's \<Rightarrow> u8 \<times> 's" where
  "pcf8574_init port s0 =
     (let s1 = iic_start port (iic_stop port s0);
          (ack, s2) = iic_wait_ack port (iic_send_byte port PCF8574_ADDR s1);
          s3 = iic_stop port s2
      in (ack, pcf8574_write_byte port 0xFF s3))"

definition pcf8574_write_bit :: "'s iic_port \<Rightarrow> u8 \<Rightarrow> u8 \<Rightarrow> 's \<Rightarrow> 's" where
  "pcf8574_write_bit port n sta s0 =
     (let (data, s1) = pcf8574_read_byte port s0;
          data' = (if sta = 0 then data AND NOT (push_bit (unat n) 1) else data OR push_bit (unat n) 1)
      in pcf8574_write_byte port data' s1)"

definition pcf8574_read_bit :: "'s iic_port \<Rightarrow> u8 \<Rightarrow> 's \<Rightarrow> u8 \<times> 's" where
  "pcf8574_read_bit port n s0 =
     (let (data, s1) = pcf8574_read_byte port s0
      in (if data AND push_bit (unat n) 1 \<noteq> 0 then 1 else 0, s1))"

section \<open>Bits of the port\<close>

text \<open>The port with its pins; both transactions take the bus from ready to ready.\<close>

record 's expander_env =
  ex_port :: "'s iic_port"
  ex_pins :: "'s \<Rightarrow> u8"
  ex_ready :: "'s \<Rightarrow> bool"

definition expander_laws :: "'s expander_env \<Rightarrow> bool" where
  "expander_laws e \<longleftrightarrow>
     (\<forall>s d. ex_ready e s \<longrightarrow>
        (let p = ex_port e; s' = delay_ms p 10 (iic_stop p (send_ack p d (send_ack p 0x40 (iic_start p s))))
         in ex_ready e s' \<and> ex_pins e s' = d)) \<and>
     (\<forall>s. ex_ready e s \<longrightarrow>
        (let p = ex_port e; (b, s1) = iic_read_byte p False (send_ack p 0x41 (iic_start p s));
             s' = iic_stop p s1
         in b = ex_pins e s \<and> ex_ready e s' \<and> ex_pins e s' = ex_pins e s))"

lemma write_byte_ok:
  assumes "expander_laws e" and "ex_ready e s"
  shows "ex_ready e (pcf8574_write_byte (ex_port e) d s) \<and> ex_pins e (pcf8574_write_byte (ex_port e) d s) = d"
  using assms
  by (simp add: expander_laws_def pcf8574_write_byte_def send_ack_def PCF8574_ADDR_def Let_def)

lemma read_byte_ok:
  assumes "expander_laws e" and "ex_ready e s"
  shows "\<exists>s'. pcf8574_read_byte (ex_port e) s = (ex_pins e s, s') \<and> ex_ready e s' \<and> ex_pins e s' = ex_pins e s"
proof -
  let ?p = "ex_port e"
  obtain b s1 where read: "iic_read_byte ?p False (send_ack ?p 0x41 (iic_start ?p s)) = (b, s1)" by fastforce
  then have "b = ex_pins e s \<and> ex_ready e (iic_stop ?p s1) \<and> ex_pins e (iic_stop ?p s1) = ex_pins e s"
    using assms(1) [unfolded expander_laws_def, THEN conjunct2, rule_format, OF assms(2)]
    by (simp add: Let_def)
  with read show ?thesis by (simp add: pcf8574_read_byte_def send_ack_def PCF8574_ADDR_def Let_def)
qed

text \<open>Writing one bit changes that pin and no other.\<close>

lemma write_bit_pins:
  assumes "expander_laws e" and "ex_ready e s" and "n < 8" and "k < 8"
  shows "bit (ex_pins e (pcf8574_write_bit (ex_port e) (of_nat n) sta s)) k \<longleftrightarrow>
    (if k = n then sta \<noteq> 0 else bit (ex_pins e s) k)"
proof -
  have n: "unat (of_nat n :: u8) = n" using assms(3) by (intro unat_of_nat_small) simp
  from read_byte_ok [OF assms(1,2)] obtain s1 where s1:
    "pcf8574_read_byte (ex_port e) s = (ex_pins e s, s1)" "ex_ready e s1" by blast
  define d where "d = (if sta = 0 then ex_pins e s AND NOT (push_bit n 1) else ex_pins e s OR push_bit n 1)"
  have "ex_pins e (pcf8574_write_bit (ex_port e) (of_nat n) sta s) = d"
    using s1(1) write_byte_ok [OF assms(1) s1(2), THEN conjunct2] n
    by (simp add: pcf8574_write_bit_def Let_def d_def)
  moreover have "bit d k \<longleftrightarrow> (if k = n then sta \<noteq> 0 else bit (ex_pins e s) k)"
    using assms(3,4)
    by (auto simp: d_def bit_or_iff bit_and_iff bit_not_iff bit_exp_iff)
  ultimately show ?thesis by simp
qed

end
