(* ===== verification/Norflash.thy ===== *)
theory Norflash
  imports Byte_Store
begin

text \<open>
  The SPI NOR flash driver \<open>norflash.c\<close>. The chip select line and the byte exchange of the SPI
  peripheral (\<open>NORFLASH_CS\<close>, \<open>spi5_read_write_byte\<close>) are the parameter \<open>dev\<close>, acting on a hardware
  state of any type; everything above them is translated. The loops that wait for the chip are
  partial functions, so that a driver that hangs is \<open>None\<close>; accesses outside a buffer are too.
\<close>

record 's spi5 =
  NORFLASH_CS :: "bool \<Rightarrow> 's \<Rightarrow> 's"
  spi5_read_write_byte :: "u8 \<Rightarrow> 's \<Rightarrow> u8 \<times> 's"

text \<open>The driver's globals and the hardware.\<close>

record 's norflash =
  g_norflash_type :: u16
  g_norflash_buf :: "u8 list"
  hw :: 's

definition W25Q256 :: u16 where "W25Q256 = 0xEF18"
definition BY25Q256 :: u16 where "BY25Q256 = 0x6818"
definition FLASH_WriteEnable :: u8 where "FLASH_WriteEnable = 0x06"
definition FLASH_ReadStatusReg1 :: u8 where "FLASH_ReadStatusReg1 = 0x05"
definition FLASH_ReadStatusReg2 :: u8 where "FLASH_ReadStatusReg2 = 0x35"
definition FLASH_ReadStatusReg3 :: u8 where "FLASH_ReadStatusReg3 = 0x15"
definition FLASH_WriteStatusReg1 :: u8 where "FLASH_WriteStatusReg1 = 0x01"
definition FLASH_WriteStatusReg2 :: u8 where "FLASH_WriteStatusReg2 = 0x31"
definition FLASH_WriteStatusReg3 :: u8 where "FLASH_WriteStatusReg3 = 0x11"
definition FLASH_ReadData :: u8 where "FLASH_ReadData = 0x03"
definition FLASH_PageProgram :: u8 where "FLASH_PageProgram = 0x02"
definition FLASH_SectorErase :: u8 where "FLASH_SectorErase = 0x20"
definition FLASH_ChipErase :: u8 where "FLASH_ChipErase = 0xC7"
definition FLASH_ManufactDeviceID :: u8 where "FLASH_ManufactDeviceID = 0x90"
definition FLASH_Enable4ByteAddr :: u8 where "FLASH_Enable4ByteAddr = 0xB7"

text \<open>A run of byte exchanges, with the bytes received.\<close>

fun spi_bytes :: "'s spi5 \<Rightarrow> u8 list \<Rightarrow> 's \<Rightarrow> u8 list \<times> 's" where
  "spi_bytes dev [] s = ([], s)"
| "spi_bytes dev (b # bs) s =
     (case spi5_read_write_byte dev b s of (r, s1) \<Rightarrow>
        case spi_bytes dev bs s1 of (rs, s2) \<Rightarrow> (r # rs, s2))"

text \<open>A run of byte exchanges between selecting the chip and releasing it.\<close>

definition spi_tx :: "'s spi5 \<Rightarrow> u8 list \<Rightarrow> 's \<Rightarrow> u8 list \<times> 's" where
  "spi_tx dev bs s =
     (case spi_bytes dev bs (NORFLASH_CS dev False s) of (rs, s') \<Rightarrow> (rs, NORFLASH_CS dev True s'))"

section \<open>Commands\<close>

definition norflash_write_enable :: "'s spi5 \<Rightarrow> 's \<Rightarrow> 's" where
  "norflash_write_enable dev s =
     (let s1 = NORFLASH_CS dev False s;
          s2 = snd (spi5_read_write_byte dev FLASH_WriteEnable s1)
      in NORFLASH_CS dev True s2)"

definition norflash_send_address :: "'s spi5 \<Rightarrow> u16 \<Rightarrow> u32 \<Rightarrow> 's \<Rightarrow> 's" where
  "norflash_send_address dev type address s0 =
     (let s1 = (if type = W25Q256 \<or> type = BY25Q256
                then snd (spi5_read_write_byte dev (ucast (drop_bit 24 address)) s0) else s0);
          s2 = snd (spi5_read_write_byte dev (ucast (drop_bit 16 address)) s1);
          s3 = snd (spi5_read_write_byte dev (ucast (drop_bit 8 address)) s2)
      in snd (spi5_read_write_byte dev (ucast address) s3))"

definition norflash_read_sr :: "'s spi5 \<Rightarrow> u8 \<Rightarrow> 's \<Rightarrow> u8 \<times> 's" where
  "norflash_read_sr dev regno s =
     (let command = (if regno = 1 then FLASH_ReadStatusReg1 else if regno = 2 then FLASH_ReadStatusReg2
                     else if regno = 3 then FLASH_ReadStatusReg3 else FLASH_ReadStatusReg1);
          s1 = NORFLASH_CS dev False s;
          s2 = snd (spi5_read_write_byte dev command s1);
          (byte, s3) = spi5_read_write_byte dev 0xFF s2
      in (byte, NORFLASH_CS dev True s3))"

definition norflash_write_sr :: "'s spi5 \<Rightarrow> u8 \<Rightarrow> u8 \<Rightarrow> 's \<Rightarrow> 's" where
  "norflash_write_sr dev regno sr s =
     (let command = (if regno = 1 then FLASH_WriteStatusReg1 else if regno = 2 then FLASH_WriteStatusReg2
                     else if regno = 3 then FLASH_WriteStatusReg3 else FLASH_WriteStatusReg1);
          s1 = NORFLASH_CS dev False s;
          s2 = snd (spi5_read_write_byte dev command s1);
          s3 = snd (spi5_read_write_byte dev sr s2)
      in NORFLASH_CS dev True s3)"

partial_function (option) norflash_wait_busy :: "'s spi5 \<Rightarrow> 's \<Rightarrow> 's option" where
  "norflash_wait_busy dev s =
     (case norflash_read_sr dev 1 s of (sr, s') \<Rightarrow>
        if sr AND 0x01 = 0x01 then norflash_wait_busy dev s' else Some s')"

declare norflash_wait_busy.simps [code]

definition norflash_read_id :: "'s spi5 \<Rightarrow> 's \<Rightarrow> u16 \<times> 's" where
  "norflash_read_id dev s =
     (let s1 = NORFLASH_CS dev False s;
          s2 = snd (spi5_read_write_byte dev FLASH_ManufactDeviceID s1);
          s3 = snd (spi5_read_write_byte dev 0 s2);
          s4 = snd (spi5_read_write_byte dev 0 s3);
          s5 = snd (spi5_read_write_byte dev 0 s4);
          (hi, s6) = spi5_read_write_byte dev 0xFF s5;
          (lo, s7) = spi5_read_write_byte dev 0xFF s6
      in (push_bit 8 (ucast hi) OR ucast lo, NORFLASH_CS dev True s7))"

text \<open>The initialisation after the pins and the SPI peripheral are set up.\<close>

definition norflash_init :: "'s spi5 \<Rightarrow> 's norflash \<Rightarrow> 's norflash" where
  "norflash_init dev n =
     (let s1 = NORFLASH_CS dev True (hw n);
          (id, s2) = norflash_read_id dev s1
      in if id = W25Q256 \<or> id = BY25Q256 then
           let (sr, s3) = norflash_read_sr dev 3 s2
           in if sr AND 0x01 = 0 then
                let s4 = norflash_write_enable dev s3;
                    s5 = norflash_write_sr dev 3 (sr OR push_bit 1 1) s4;
                    s6 = NORFLASH_CS dev False s5;
                    s7 = snd (spi5_read_write_byte dev FLASH_Enable4ByteAddr s6)
                in n\<lparr>g_norflash_type := id, hw := NORFLASH_CS dev True s7\<rparr>
              else n\<lparr>g_norflash_type := id, hw := s3\<rparr>
         else n\<lparr>g_norflash_type := id, hw := s2\<rparr>)"

section \<open>Reading and writing\<close>

text \<open>The bytes that are stored to \<open>pbuf\<close>.\<close>

definition norflash_read :: "'s spi5 \<Rightarrow> u16 \<Rightarrow> u32 \<Rightarrow> u16 \<Rightarrow> 's \<Rightarrow> u8 list \<times> 's" where
  "norflash_read dev type addr datalen s =
     (let s1 = NORFLASH_CS dev False s;
          s2 = snd (spi5_read_write_byte dev FLASH_ReadData s1);
          s3 = norflash_send_address dev type addr s2;
          (bs, s4) = spi_bytes dev (replicate (unat datalen) 0xFF) s3
      in (bs, NORFLASH_CS dev True s4))"

fun send_buffer :: "'s spi5 \<Rightarrow> u8 list \<Rightarrow> nat \<Rightarrow> nat \<Rightarrow> 's \<Rightarrow> 's option" where
  "send_buffer dev pbuf i 0 s = Some s"
| "send_buffer dev pbuf i (Suc k) s =
     (case arr_get pbuf i of
        None \<Rightarrow> None
      | Some b \<Rightarrow> send_buffer dev pbuf (Suc i) k (snd (spi5_read_write_byte dev b s)))"

definition norflash_write_page ::
  "'s spi5 \<Rightarrow> u16 \<Rightarrow> u8 list \<Rightarrow> u32 \<Rightarrow> u16 \<Rightarrow> 's \<Rightarrow> 's option" where
  "norflash_write_page dev type pbuf addr datalen s0 = do {
     let s1 = norflash_write_enable dev s0;
     let s2 = NORFLASH_CS dev False s1;
     let s3 = snd (spi5_read_write_byte dev FLASH_PageProgram s2);
     let s4 = norflash_send_address dev type addr s3;
     s5 \<leftarrow> send_buffer dev pbuf 0 (unat datalen) s4;
     norflash_wait_busy dev (NORFLASH_CS dev True s5)
   }"

partial_function (option) nocheck_loop ::
  "'s spi5 \<Rightarrow> u16 \<Rightarrow> u8 list \<Rightarrow> u32 \<Rightarrow> u16 \<Rightarrow> u16 \<Rightarrow> 's \<Rightarrow> 's option" where
  "nocheck_loop dev type pbuf addr datalen pageremain s =
     Option.bind (norflash_write_page dev type pbuf addr pageremain s) (\<lambda>s'.
       if datalen = pageremain then Some s'
       else
         let datalen' = datalen - pageremain
         in nocheck_loop dev type (drop (unat pageremain) pbuf) (addr + ucast pageremain) datalen'
              (if datalen' > 256 then 256 else datalen') s')"

declare nocheck_loop.simps [code]

definition norflash_write_nocheck ::
  "'s spi5 \<Rightarrow> u16 \<Rightarrow> u8 list \<Rightarrow> u32 \<Rightarrow> u16 \<Rightarrow> 's \<Rightarrow> 's option" where
  "norflash_write_nocheck dev type pbuf addr datalen s =
     (let pageremain = ucast (256 - addr mod 256)
      in nocheck_loop dev type pbuf addr datalen (if datalen \<le> pageremain then datalen else pageremain) s)"

definition norflash_erase_chip :: "'s spi5 \<Rightarrow> 's \<Rightarrow> 's option" where
  "norflash_erase_chip dev s = do {
     s1 \<leftarrow> norflash_wait_busy dev (norflash_write_enable dev s);
     let s2 = snd (spi5_read_write_byte dev FLASH_ChipErase (NORFLASH_CS dev False s1));
     norflash_wait_busy dev (NORFLASH_CS dev True s2)
   }"

definition norflash_erase_sector :: "'s spi5 \<Rightarrow> u16 \<Rightarrow> u32 \<Rightarrow> 's \<Rightarrow> 's option" where
  "norflash_erase_sector dev type saddr s = do {
     s1 \<leftarrow> norflash_wait_busy dev (norflash_write_enable dev s);
     let s2 = snd (spi5_read_write_byte dev FLASH_SectorErase (NORFLASH_CS dev False s1));
     let s3 = norflash_send_address dev type (saddr * 4096) s2;
     norflash_wait_busy dev (NORFLASH_CS dev True s3)
   }"

text \<open>
  The loops of \<open>norflash_write\<close> over one sector: the first byte that is not erased, from \<open>i\<close> on with
  \<open>k\<close> bytes to look at, and the copy of the new bytes into the buffer.
\<close>

fun check_erased :: "u8 list \<Rightarrow> nat \<Rightarrow> nat \<Rightarrow> nat \<Rightarrow> nat option" where
  "check_erased buf off i 0 = Some i"
| "check_erased buf off i (Suc k) =
     (case arr_get buf (off + i) of
        None \<Rightarrow> None
      | Some b \<Rightarrow> if b \<noteq> 0xFF then Some i else check_erased buf off (Suc i) k)"

fun copy_into :: "u8 list \<Rightarrow> u8 list \<Rightarrow> nat \<Rightarrow> nat \<Rightarrow> nat \<Rightarrow> u8 list option" where
  "copy_into pbuf buf off i 0 = Some buf"
| "copy_into pbuf buf off i (Suc k) = do {
     b \<leftarrow> arr_get pbuf i;
     buf' \<leftarrow> arr_set buf (i + off) b;
     copy_into pbuf buf' off (Suc i) k
   }"

definition write_sector ::
  "'s spi5 \<Rightarrow> u8 list \<Rightarrow> u32 \<Rightarrow> u32 \<Rightarrow> u16 \<Rightarrow> u16 \<Rightarrow> 's norflash \<Rightarrow> 's norflash option" where
  "write_sector dev pbuf addr secpos secoff secremain n =
     (case norflash_read dev (g_norflash_type n) (secpos * 4096) 4096 (hw n) of (buf, s1) \<Rightarrow> do {
        i \<leftarrow> check_erased buf (unat secoff) 0 (unat secremain);
        if i < unat secremain then do {
          s2 \<leftarrow> norflash_erase_sector dev (g_norflash_type n) secpos s1;
          buf' \<leftarrow> copy_into pbuf buf (unat secoff) 0 (unat secremain);
          s3 \<leftarrow> norflash_write_nocheck dev (g_norflash_type n) buf' (secpos * 4096) 4096 s2;
          Some (n\<lparr>g_norflash_buf := buf', hw := s3\<rparr>)
        }
        else do {
          s2 \<leftarrow> norflash_write_nocheck dev (g_norflash_type n) pbuf addr secremain s1;
          Some (n\<lparr>g_norflash_buf := buf, hw := s2\<rparr>)
        }
      })"

partial_function (option) write_loop ::
  "'s spi5 \<Rightarrow> u8 list \<Rightarrow> u32 \<Rightarrow> u16 \<Rightarrow> u32 \<Rightarrow> u16 \<Rightarrow> u16 \<Rightarrow> 's norflash \<Rightarrow> 's norflash option" where
  "write_loop dev pbuf addr datalen secpos secoff secremain n =
     Option.bind (write_sector dev pbuf addr secpos secoff secremain n) (\<lambda>n'.
       if datalen = secremain then Some n'
       else
         let datalen' = datalen - secremain
         in write_loop dev (drop (unat secremain) pbuf) (addr + ucast secremain) datalen' (secpos + 1) 0
              (if datalen' > 4096 then 4096 else datalen') n')"

declare write_loop.simps [code]

definition norflash_write ::
  "'s spi5 \<Rightarrow> u8 list \<Rightarrow> u32 \<Rightarrow> u16 \<Rightarrow> 's norflash \<Rightarrow> 's norflash option" where
  "norflash_write dev pbuf addr datalen n =
     (let secpos = addr div 4096;
          secoff = ucast (addr mod 4096);
          secremain = 4096 - secoff
      in write_loop dev pbuf addr datalen secpos secoff
           (if datalen \<le> secremain then datalen else secremain) n)"

section \<open>Transactions\<close>

lemma spi_bytes_append:
  "spi_bytes dev (xs @ ys) s =
     (case spi_bytes dev xs s of (rs, s1) \<Rightarrow> case spi_bytes dev ys s1 of (qs, s2) \<Rightarrow> (rs @ qs, s2))"
  by (induction xs arbitrary: s) (simp_all split: prod.split)

lemma length_spi_bytes: "length (fst (spi_bytes dev bs s)) = length bs"
  by (induction bs arbitrary: s) (simp_all split: prod.split, metis fst_conv)

definition four_byte :: "u16 \<Rightarrow> bool" where
  "four_byte type \<longleftrightarrow> type = W25Q256 \<or> type = BY25Q256"

definition addr_bytes :: "u16 \<Rightarrow> u32 \<Rightarrow> u8 list" where
  "addr_bytes type a =
     (if four_byte type then [ucast (drop_bit 24 a)] else []) @
     [ucast (drop_bit 16 a), ucast (drop_bit 8 a), ucast a]"

lemma send_address_bytes:
  "norflash_send_address dev type a s = snd (spi_bytes dev (addr_bytes type a) s)"
  by (simp add: norflash_send_address_def addr_bytes_def four_byte_def split: prod.split)

lemma write_enable_tx: "norflash_write_enable dev s = snd (spi_tx dev [FLASH_WriteEnable] s)"
  by (simp add: norflash_write_enable_def spi_tx_def Let_def split: prod.split)

lemma read_sr_tx:
  "norflash_read_sr dev 1 s =
     (case spi_tx dev [FLASH_ReadStatusReg1, 0xFF] s of (rs, s') \<Rightarrow> (rs ! 1, s'))"
  by (simp add: norflash_read_sr_def spi_tx_def Let_def split: prod.split)

lemma read_tx:
  "norflash_read dev type a n s =
     (case spi_tx dev (FLASH_ReadData # addr_bytes type a @ replicate (unat n) 0xFF) s of
        (rs, s') \<Rightarrow> (drop (Suc (length (addr_bytes type a))) rs, s'))"
  by (simp add: norflash_read_def spi_tx_def Let_def send_address_bytes spi_bytes_append split_beta
      length_spi_bytes)

lemma send_buffer_bytes:
  "i + k \<le> length pbuf \<Longrightarrow>
     send_buffer dev pbuf i k s = Some (snd (spi_bytes dev (take k (drop i pbuf)) s))"
proof (induction k arbitrary: i s)
  case 0
  then show ?case by simp
next
  case (Suc k)
  then have "take (Suc k) (drop i pbuf) = pbuf ! i # take k (drop (Suc i) pbuf)"
    by (metis Cons_nth_drop_Suc Suc_le_lessD add_Suc_right le_add1 le_trans less_le_trans not_less take_Suc_Cons)
  with Suc show ?case by (simp add: arr_get_Some split: prod.split)
qed

lemma write_page_tx:
  assumes "unat n \<le> length pbuf"
  shows "norflash_write_page dev type pbuf a n s =
    norflash_wait_busy dev
      (snd (spi_tx dev (FLASH_PageProgram # addr_bytes type a @ take (unat n) pbuf)
         (norflash_write_enable dev s)))"
  using assms
  by (simp add: norflash_write_page_def spi_tx_def send_address_bytes send_buffer_bytes
      spi_bytes_append Let_def split_beta)

lemma erase_sector_tx:
  "norflash_erase_sector dev type sa s =
     Option.bind (norflash_wait_busy dev (norflash_write_enable dev s)) (\<lambda>s1.
       norflash_wait_busy dev (snd (spi_tx dev (FLASH_SectorErase # addr_bytes type (sa * 4096)) s1)))"
  by (simp add: norflash_erase_sector_def spi_tx_def send_address_bytes Let_def split_beta)

section \<open>What the driver relies on\<close>

text \<open>
  A view of the chip's state: its bytes, the write enable latch, and for how many more status reads it
  stays busy. The hypotheses are the documented reactions of the chip to the commands of the
  driver: while it is not busy, a read gives the bytes from the address on; a page program with the
  latch set clears bits inside one page of 256 bytes; a sector erase with the latch set makes the
  4096 bytes of the sector 0xFF; program and erase clear the latch and leave the chip busy for a
  finite time.
\<close>

record 's chip_view =
  flash :: "'s \<Rightarrow> nat \<Rightarrow> u8"
  wel :: "'s \<Rightarrow> bool"
  busy :: "'s \<Rightarrow> nat"

definition program :: "(nat \<Rightarrow> u8) \<Rightarrow> nat \<Rightarrow> u8 list \<Rightarrow> nat \<Rightarrow> u8" where
  "program f a bs x = (if a \<le> x \<and> x < a + length bs then f x AND bs ! (x - a) else f x)"

definition erased :: "(nat \<Rightarrow> u8) \<Rightarrow> nat \<Rightarrow> nat \<Rightarrow> u8" where
  "erased f a x = (if a \<le> x \<and> x < a + 4096 then 0xFF else f x)"

definition status_law :: "'s spi5 \<Rightarrow> 's chip_view \<Rightarrow> bool" where
  "status_law dev v \<longleftrightarrow>
     (\<forall>s. case spi_tx dev [FLASH_ReadStatusReg1, 0xFF] s of (rs, s') \<Rightarrow>
        (rs ! 1 AND 0x01 = 0x01 \<longleftrightarrow> 0 < busy v s) \<and> busy v s' = busy v s - 1 \<and>
        flash v s' = flash v s \<and> wel v s' = wel v s)"

definition enable_law :: "'s spi5 \<Rightarrow> 's chip_view \<Rightarrow> bool" where
  "enable_law dev v \<longleftrightarrow>
     (\<forall>s. busy v s = 0 \<longrightarrow> (let s' = snd (spi_tx dev [FLASH_WriteEnable] s)
        in wel v s' \<and> busy v s' = 0 \<and> flash v s' = flash v s))"

definition read_law :: "'s spi5 \<Rightarrow> 's chip_view \<Rightarrow> u16 \<Rightarrow> nat \<Rightarrow> bool" where
  "read_law dev v type cap \<longleftrightarrow>
     (\<forall>s a n. busy v s = 0 \<longrightarrow> a + n \<le> cap \<longrightarrow>
        (case spi_tx dev (FLASH_ReadData # addr_bytes type (of_nat a) @ replicate n 0xFF) s of (rs, s') \<Rightarrow>
           drop (Suc (length (addr_bytes type (of_nat a)))) rs = window (flash v s) a n \<and>
           busy v s' = 0 \<and> flash v s' = flash v s))"

definition program_law :: "'s spi5 \<Rightarrow> 's chip_view \<Rightarrow> u16 \<Rightarrow> nat \<Rightarrow> bool" where
  "program_law dev v type cap \<longleftrightarrow>
     (\<forall>s a bs. busy v s = 0 \<longrightarrow> wel v s \<longrightarrow> bs \<noteq> [] \<longrightarrow> a mod 256 + length bs \<le> 256 \<longrightarrow>
        a + length bs \<le> cap \<longrightarrow>
        flash v (snd (spi_tx dev (FLASH_PageProgram # addr_bytes type (of_nat a) @ bs) s)) =
          program (flash v s) a bs)"

definition erase_law :: "'s spi5 \<Rightarrow> 's chip_view \<Rightarrow> u16 \<Rightarrow> nat \<Rightarrow> bool" where
  "erase_law dev v type cap \<longleftrightarrow>
     (\<forall>s a. busy v s = 0 \<longrightarrow> wel v s \<longrightarrow> 4096 dvd a \<longrightarrow> a < cap \<longrightarrow>
        flash v (snd (spi_tx dev (FLASH_SectorErase # addr_bytes type (of_nat a)) s)) =
          erased (flash v s) a)"

definition nor_chip :: "'s spi5 \<Rightarrow> 's chip_view \<Rightarrow> u16 \<Rightarrow> nat \<Rightarrow> bool" where
  "nor_chip dev v type cap \<longleftrightarrow> status_law dev v \<and> enable_law dev v \<and> read_law dev v type cap \<and>
     program_law dev v type cap \<and> erase_law dev v type cap \<and> 4096 dvd cap \<and> cap \<le> 2 ^ 32"

lemma wait_ready:
  assumes "status_law dev v"
  shows "\<exists>s'. norflash_wait_busy dev s = Some s' \<and> busy v s' = 0 \<and> flash v s' = flash v s \<and> wel v s' = wel v s"
proof (induction "busy v s" arbitrary: s)
  case 0
  obtain rs s' where tx: "spi_tx dev [FLASH_ReadStatusReg1, 0xFF] s = (rs, s')" by fastforce
  with assms 0 have "rs ! 1 AND 0x01 \<noteq> 0x01" "busy v s' = 0" "flash v s' = flash v s" "wel v s' = wel v s"
    unfolding status_law_def by (auto split: prod.splits)
  then show ?case by (subst norflash_wait_busy.simps) (simp add: read_sr_tx tx)
next
  case (Suc k)
  obtain rs s' where tx: "spi_tx dev [FLASH_ReadStatusReg1, 0xFF] s = (rs, s')" by fastforce
  with assms Suc have s': "rs ! 1 AND 0x01 = 0x01" "busy v s' = k" "flash v s' = flash v s" "wel v s' = wel v s"
    unfolding status_law_def by (fastforce split: prod.splits)+
  have "norflash_wait_busy dev s = norflash_wait_busy dev s'"
    using s'(1) by (subst norflash_wait_busy.simps) (simp add: read_sr_tx tx)
  with Suc(1) [of s'] s' show ?case by simp
qed

lemma nor_chipD:
  assumes "nor_chip dev v type cap"
  shows "status_law dev v" "enable_law dev v" "read_law dev v type cap" "program_law dev v type cap"
    "erase_law dev v type cap" "4096 dvd cap" "cap \<le> 2 ^ 32"
  using assms by (simp_all add: nor_chip_def)

lemma enable_ready:
  assumes "nor_chip dev v type cap" and "busy v s = 0"
  shows "wel v (norflash_write_enable dev s) \<and> busy v (norflash_write_enable dev s) = 0 \<and>
    flash v (norflash_write_enable dev s) = flash v s"
  using nor_chipD(2) [OF assms(1)] assms(2) by (simp add: enable_law_def write_enable_tx Let_def)

lemma program_append: "program (program f a bs) (a + length bs) cs = program f a (bs @ cs)"
  by (rule ext) (auto simp: program_def nth_append)

lemma write_page_ok:
  assumes chip: "nor_chip dev v type cap" and "busy v s = 0" and n: "0 < unat n" "unat n \<le> length pbuf"
    and page: "a mod 256 + unat n \<le> 256" and "a + unat n \<le> cap"
  shows "\<exists>s'. norflash_write_page dev type pbuf (of_nat a) n s = Some s' \<and> busy v s' = 0 \<and>
    flash v s' = program (flash v s) a (take (unat n) pbuf)"
proof -
  let ?s1 = "norflash_write_enable dev s"
  let ?bs = "take (unat n) pbuf"
  have s1: "wel v ?s1" "busy v ?s1 = 0" "flash v ?s1 = flash v s"
    using enable_ready [OF chip assms(2)] by simp_all
  have len: "length ?bs = unat n" using n by simp
  then have "?bs \<noteq> []" using n by auto
  then have "flash v (snd (spi_tx dev (FLASH_PageProgram # addr_bytes type (of_nat a) @ ?bs) ?s1)) =
      program (flash v s) a ?bs"
    using nor_chipD(4) [OF chip] s1 page assms(6) len by (simp add: program_law_def)
  then show ?thesis
    using wait_ready [OF nor_chipD(1) [OF chip]] n by (simp add: write_page_tx) metis
qed

lemma nocheck_loop_ok:
  assumes chip: "nor_chip dev v type cap"
  shows "busy v s = 0 \<Longrightarrow> 0 < unat pageremain \<Longrightarrow> unat pageremain \<le> unat datalen \<Longrightarrow>
    unat datalen \<le> length pbuf \<Longrightarrow> a + unat datalen \<le> cap \<Longrightarrow>
    a mod 256 + unat pageremain \<le> 256 \<Longrightarrow>
    (unat pageremain < unat datalen \<longrightarrow> a mod 256 + unat pageremain = 256) \<Longrightarrow>
    \<exists>s'. nocheck_loop dev type pbuf (of_nat a) datalen pageremain s = Some s' \<and> busy v s' = 0 \<and>
      flash v s' = program (flash v s) a (take (unat datalen) pbuf)"
proof (induction "unat datalen" arbitrary: datalen pageremain pbuf a s rule: less_induct)
  case less
  let ?r = "unat pageremain" and ?n = "unat datalen"
  from write_page_ok [OF chip less.prems(1,2) _ less.prems(6), of pbuf] less.prems(3-5)
  obtain s1 where s1: "norflash_write_page dev type pbuf (of_nat a) pageremain s = Some s1" "busy v s1 = 0"
    "flash v s1 = program (flash v s) a (take ?r pbuf)" by auto
  show ?case
  proof (cases "datalen = pageremain")
    case True
    with s1 show ?thesis by (subst nocheck_loop.simps) simp
  next
    case False
    let ?d = "datalen - pageremain"
    let ?p = "if ?d > 256 then 256 else ?d"
    have lt: "?r < ?n" using False less.prems(3) by (simp add: word_unat_eq_iff)
    have d: "unat ?d = ?n - ?r" using less.prems(3) by (intro unat_sub) (simp add: word_le_nat_alt)
    have p: "unat ?p = min 256 (?n - ?r)" using d by (simp add: word_less_nat_alt min_def)
    have next_page: "(a + ?r) mod 256 = 0" using less.prems(7) lt
      by (metis add.commute mod_add_left_eq mod_self)
    have "\<exists>s'. nocheck_loop dev type (drop ?r pbuf) (of_nat (a + ?r)) ?d ?p s1 = Some s' \<and> busy v s' = 0 \<and>
        flash v s' = program (flash v s1) (a + ?r) (take (unat ?d) (drop ?r pbuf))"
      using less.prems(2,4,5) lt d p next_page s1(2) by (intro less.hyps) auto
    then obtain s' where s': "nocheck_loop dev type (drop ?r pbuf) (of_nat (a + ?r)) ?d ?p s1 = Some s'"
      "busy v s' = 0" "flash v s' = program (flash v s1) (a + ?r) (take (?n - ?r) (drop ?r pbuf))"
      using d by auto
    have run: "nocheck_loop dev type pbuf (of_nat a) datalen pageremain s = Some s'"
      using s1(1) s'(1) False by (subst nocheck_loop.simps) (simp add: Let_def)
    have "take ?r pbuf @ take (?n - ?r) (drop ?r pbuf) = take ?n pbuf"
      using lt by (metis le_add_diff_inverse less_imp_le take_add)
    moreover have "length (take ?r pbuf) = ?r" using less.prems(3,4) by simp
    ultimately have "flash v s' = program (flash v s) a (take ?n pbuf)"
      using s'(3) s1(3) program_append [of "flash v s" a "take ?r pbuf" "take (?n - ?r) (drop ?r pbuf)"]
      by simp
    with run s'(2) show ?thesis by blast
  qed
qed

lemma nocheck_ok:
  assumes chip: "nor_chip dev v type cap" and "busy v s = 0" and "0 < unat datalen"
    and "unat datalen \<le> length pbuf" and "a + unat datalen \<le> cap"
  shows "\<exists>s'. norflash_write_nocheck dev type pbuf (of_nat a) datalen s = Some s' \<and> busy v s' = 0 \<and>
    flash v s' = program (flash v s) a (take (unat datalen) pbuf)"
proof -
  have "a < 2 ^ 32" using assms(3,5) nor_chipD(7) [OF chip] by simp
  then have "unat (of_nat a :: u32) = a" by (intro unat_of_nat_small) simp
  then have "unat ((of_nat a :: u32) mod 256) = a mod 256" by (simp add: unat_mod_distrib)
  then have "unat (256 - (of_nat a :: u32) mod 256) = 256 - a mod 256"
    by (subst unat_sub) (simp_all add: word_le_nat_alt)
  then have "unat (ucast (256 - (of_nat a :: u32) mod 256) :: u16) = 256 - a mod 256"
    by (simp add: unsigned_ucast_eq take_bit_nat_eq_self)
  then show ?thesis
    unfolding norflash_write_nocheck_def Let_def
    using assms(2-5) by (intro nocheck_loop_ok [OF chip]) (auto simp: word_le_nat_alt)
qed

lemma erase_sector_ok:
  assumes chip: "nor_chip dev v type cap" and "busy v s = 0" and "sec * 4096 < cap"
  shows "\<exists>s'. norflash_erase_sector dev type (of_nat sec) s = Some s' \<and> busy v s' = 0 \<and>
    flash v s' = erased (flash v s) (sec * 4096)"
proof -
  let ?s1 = "norflash_write_enable dev s"
  have s1: "wel v ?s1" "busy v ?s1 = 0" "flash v ?s1 = flash v s"
    using enable_ready [OF chip assms(2)] by simp_all
  from wait_ready [OF nor_chipD(1) [OF chip], of ?s1] obtain s2 where s2:
    "norflash_wait_busy dev ?s1 = Some s2" "busy v s2 = 0" "flash v s2 = flash v s" "wel v s2"
    using s1 by auto
  have "flash v (snd (spi_tx dev (FLASH_SectorErase # addr_bytes type (of_nat (sec * 4096))) s2)) =
      erased (flash v s) (sec * 4096)"
    using nor_chipD(5) [OF chip] s2 assms(3) unfolding erase_law_def by (metis dvd_triv_right)
  then show ?thesis
    using s2(1) wait_ready [OF nor_chipD(1) [OF chip]] by (simp add: erase_sector_tx) metis
qed

lemma read_ok:
  assumes chip: "nor_chip dev v type cap" and "busy v s = 0" and "a + unat n \<le> cap"
  shows "\<exists>s'. norflash_read dev type (of_nat a) n s = (window (flash v s) a (unat n), s') \<and>
    busy v s' = 0 \<and> flash v s' = flash v s"
proof -
  obtain rs s' where tx: "spi_tx dev (FLASH_ReadData # addr_bytes type (of_nat a) @ replicate (unat n) 0xFF) s = (rs, s')"
    by fastforce
  have "case spi_tx dev (FLASH_ReadData # addr_bytes type (of_nat a) @ replicate (unat n) 0xFF) s of (rs, s') \<Rightarrow>
      drop (Suc (length (addr_bytes type (of_nat a)))) rs = window (flash v s) a (unat n) \<and>
      busy v s' = 0 \<and> flash v s' = flash v s"
    by (rule nor_chipD(3) [OF chip, unfolded read_law_def, rule_format, OF assms(2,3)])
  with tx show ?thesis by (simp add: read_tx)
qed

section \<open>Writing across sectors\<close>

lemma check_erased_eq:
  "off + i + k \<le> length buf \<Longrightarrow>
     check_erased buf off i k = Some (i + length (takeWhile (\<lambda>b. b = 0xFF) (take k (drop (off + i) buf))))"
proof (induction k arbitrary: i)
  case 0
  then show ?case by simp
next
  case (Suc k)
  then have "take (Suc k) (drop (off + i) buf) = buf ! (off + i) # take k (drop (off + Suc i) buf)"
    by (simp add: take_Suc_conv_app_nth flip: Cons_nth_drop_Suc)
  with Suc show ?case by (simp add: arr_get_Some)
qed

lemma copy_into_eq:
  "i + k \<le> length pbuf \<Longrightarrow> off + i + k \<le> length buf \<Longrightarrow>
     copy_into pbuf buf off i k =
       Some (take (off + i) buf @ take k (drop i pbuf) @ drop (off + i + k) buf)"
proof (induction k arbitrary: i buf)
  case 0
  then show ?case by simp
next
  case (Suc k)
  let ?buf = "buf[i + off := pbuf ! i]"
  have "copy_into pbuf ?buf off (Suc i) k =
      Some (take (off + Suc i) ?buf @ take k (drop (Suc i) pbuf) @ drop (off + Suc i + k) ?buf)"
    using Suc.prems by (intro Suc.IH) simp_all
  moreover have "take (Suc k) (drop i pbuf) = pbuf ! i # take k (drop (Suc i) pbuf)"
    using Suc.prems by (simp flip: Cons_nth_drop_Suc)
  moreover have "take (off + Suc i) ?buf = take (off + i) buf @ [pbuf ! i]"
    using Suc.prems by (simp add: take_Suc_conv_app_nth add.commute)
  ultimately show ?case using Suc.prems by (simp add: arr_get_Some arr_set_Some)
qed

lemma ff_and [simp]: "(0xFF :: u8) AND w = w"
proof -
  have "(0xFF :: u8) = - 1" by simp
  then show ?thesis by (metis and.left_neutral)
qed

lemma takeWhile_full: "length xs \<le> length (takeWhile P xs) \<Longrightarrow> xs = takeWhile P xs"
  by (induction xs) (auto split: if_splits)

lemma program_erased:
  assumes "base + off = a" and "off + length bs \<le> 4096"
  shows "program (erased f base) base
      (take off (window f base 4096) @ bs @ drop (off + length bs) (window f base 4096)) = overwrite f a bs"
proof (rule ext)
  fix x
  let ?b = "take off (window f base 4096) @ bs @ drop (off + length bs) (window f base 4096)"
  have len: "length ?b = 4096" using assms by simp
  show "program (erased f base) base ?b x = overwrite f a bs x"
  proof (cases "base \<le> x \<and> x < base + 4096")
    case False
    then show ?thesis using assms len by (auto simp: program_def erased_def overwrite_def)
  next
    case True
    then obtain i where i: "x = base + i" "i < 4096" by (metis add_less_cancel_left le_Suc_ex)
    have "program (erased f base) base ?b x = ?b ! i"
      using i len by (simp add: program_def erased_def del: length_append)
    also have "\<dots> = overwrite f a bs x"
      using i assms by (auto simp: overwrite_def nth_append)
    finally show ?thesis .
  qed
qed

lemma program_blank:
  assumes "\<And>x. a \<le> x \<Longrightarrow> x < a + length bs \<Longrightarrow> f x = 0xFF"
  shows "program f a bs = overwrite f a bs"
  using assms by (auto simp: program_def overwrite_def fun_eq_iff)

lemma write_sector_ok:
  assumes chip: "nor_chip dev v (g_norflash_type n) cap" and "busy v (hw n) = 0"
    and r: "0 < unat secremain" "unat secremain \<le> length pbuf" "a mod 4096 + unat secremain \<le> 4096"
    and "a + unat secremain \<le> cap"
  shows "\<exists>n'. write_sector dev pbuf (of_nat a) (of_nat (a div 4096)) (of_nat (a mod 4096)) secremain n = Some n' \<and>
    busy v (hw n') = 0 \<and> g_norflash_type n' = g_norflash_type n \<and> length (g_norflash_buf n') = 4096 \<and>
    flash v (hw n') = overwrite (flash v (hw n)) a (take (unat secremain) pbuf)"
proof -
  let ?t = "g_norflash_type n" and ?r = "unat secremain"
  define off sec where "off = a mod 4096" and "sec = a div 4096"
  define f where "f = flash v (hw n)"
  let ?w = "window f (sec * 4096) 4096"
  have a: "a = sec * 4096 + off" by (simp add: off_def sec_def)
  obtain m where m: "cap = 4096 * m" using nor_chipD(6) [OF chip] by blast
  have r': "0 < ?r" "off + ?r \<le> 4096" using r off_def by auto
  have "sec * 4096 < 4096 * m" using assms(6) r'(1) a m by simp
  then have "Suc sec \<le> m" by simp
  then have sec: "sec * 4096 + 4096 \<le> cap" using m by simp
  have off: "unat (of_nat off :: u16) = off" by (intro unat_of_nat_small) (simp add: off_def)
  have pos: "of_nat sec * 4096 = (of_nat (sec * 4096) :: u32)" by simp
  have u4096: "unat (4096 :: u16) = 4096" by simp
  from read_ok [OF chip assms(2), of "sec * 4096" 4096] sec obtain s1 where s1:
    "norflash_read dev ?t (of_nat sec * 4096) 4096 (hw n) = (?w, s1)" "busy v s1 = 0" "flash v s1 = f"
    unfolding pos u4096 f_def by auto
  define blank where "blank = takeWhile (\<lambda>b. b = 0xFF) (take ?r (drop off ?w))"
  have chk: "check_erased ?w off 0 ?r = Some (length blank)"
    using r' by (simp add: check_erased_eq blank_def)
  have copy: "copy_into pbuf ?w off 0 ?r = Some (take off ?w @ take ?r pbuf @ drop (off + ?r) ?w)"
    using r r' by (simp add: copy_into_eq)
  show ?thesis
  proof (cases "length blank < ?r")
    case True
    define buf where "buf = take off ?w @ take ?r pbuf @ drop (off + ?r) ?w"
    have len: "length buf = 4096" using r r' by (simp add: buf_def)
    from erase_sector_ok [OF chip s1(2), of sec] sec obtain s2 where s2:
      "norflash_erase_sector dev ?t (of_nat sec) s1 = Some s2" "busy v s2 = 0"
      "flash v s2 = erased f (sec * 4096)" using s1(3) by auto
    from nocheck_ok [OF chip s2(2), of 4096 buf "sec * 4096"] sec len obtain s3 where s3:
      "norflash_write_nocheck dev ?t buf (of_nat sec * 4096) 4096 s2 = Some s3" "busy v s3 = 0"
      "flash v s3 = program (erased f (sec * 4096)) (sec * 4096) buf"
      unfolding pos u4096 s2(3) by auto
    have "length (take ?r pbuf) = ?r" using r by simp
    then have "flash v s3 = overwrite f a (take ?r pbuf)"
      using s3(3) program_erased [of "sec * 4096" off a "take ?r pbuf" f] r' a by (simp add: buf_def)
    then show ?thesis
      using s1(1) chk copy [folded buf_def] s2(1) s3(1,2) True len f_def
      by (simp add: write_sector_def off flip: off_def sec_def)
  next
    case False
    moreover have "length (take ?r (drop off ?w)) = ?r" using r' by simp
    ultimately have all: "take ?r (drop off ?w) = blank"
      unfolding blank_def using takeWhile_full by (metis not_less)
    have ff: "f x = 0xFF" if "a \<le> x" "x < a + length (take ?r pbuf)" for x
    proof -
      have "x - a < length (take ?r (drop off ?w))" using that r r' by simp
      then have "take ?r (drop off ?w) ! (x - a) \<in> set blank" using all nth_mem by metis
      then have "take ?r (drop off ?w) ! (x - a) = 0xFF"
        unfolding blank_def by (auto dest: set_takeWhileD)
      moreover have "off + (x - a) < 4096" using that r r' by simp
      ultimately show ?thesis using that r r' a by simp
    qed
    from nocheck_ok [OF chip s1(2) r(1,2) assms(6)] obtain s2 where s2:
      "norflash_write_nocheck dev ?t pbuf (of_nat a) secremain s1 = Some s2" "busy v s2 = 0"
      "flash v s2 = program f a (take ?r pbuf)" using s1(3) by auto
    moreover have "program f a (take ?r pbuf) = overwrite f a (take ?r pbuf)"
      by (rule program_blank) (rule ff)
    ultimately show ?thesis
      using s1(1) chk False f_def
      by (simp add: write_sector_def off flip: off_def sec_def)
  qed
qed

lemma write_loop_ok:
  assumes chip: "nor_chip dev v type cap"
  shows "busy v (hw n) = 0 \<Longrightarrow> g_norflash_type n = type \<Longrightarrow>
    0 < unat secremain \<Longrightarrow> unat secremain \<le> unat datalen \<Longrightarrow>
    unat datalen \<le> length pbuf \<Longrightarrow> a + unat datalen \<le> cap \<Longrightarrow>
    a mod 4096 + unat secremain \<le> 4096 \<Longrightarrow>
    (unat secremain < unat datalen \<longrightarrow> a mod 4096 + unat secremain = 4096) \<Longrightarrow>
    \<exists>n'. write_loop dev pbuf (of_nat a) datalen (of_nat (a div 4096)) (of_nat (a mod 4096)) secremain n = Some n' \<and>
      busy v (hw n') = 0 \<and> g_norflash_type n' = type \<and>
      flash v (hw n') = overwrite (flash v (hw n)) a (take (unat datalen) pbuf)"
proof (induction "unat datalen" arbitrary: datalen secremain pbuf a n rule: less_induct)
  case less
  let ?r = "unat secremain" and ?n = "unat datalen"
  have "a + ?r \<le> cap" using less.prems(4,6) by simp
  with write_sector_ok [of dev v n cap secremain pbuf a] chip less.prems obtain n1 where n1:
    "write_sector dev pbuf (of_nat a) (of_nat (a div 4096)) (of_nat (a mod 4096)) secremain n = Some n1"
    "busy v (hw n1) = 0" "g_norflash_type n1 = type"
    "flash v (hw n1) = overwrite (flash v (hw n)) a (take ?r pbuf)" by auto
  show ?case
  proof (cases "datalen = secremain")
    case True
    with n1 show ?thesis by (subst write_loop.simps) simp
  next
    case False
    let ?d = "datalen - secremain"
    let ?p = "if ?d > 4096 then 4096 else ?d"
    have lt: "?r < ?n" using False less.prems(4) by (simp add: word_unat_eq_iff)
    have d: "unat ?d = ?n - ?r" using less.prems(4) by (intro unat_sub) (simp add: word_le_nat_alt)
    have p: "unat ?p = min 4096 (?n - ?r)" using d by (simp add: word_less_nat_alt min_def)
    have edge: "a mod 4096 + ?r = 4096" using less.prems(8) lt by simp
    have split: "a + ?r = 4096 * (a div 4096 + 1)"
      using edge mult_div_mod_eq [of 4096 a] unfolding distrib_left mult_1_right by (metis add.assoc)
    have next_sec: "(a + ?r) mod 4096 = 0" "(a + ?r) div 4096 = a div 4096 + 1"
      unfolding split by simp_all
    have "\<exists>n'. write_loop dev (drop ?r pbuf) (of_nat (a + ?r)) ?d (of_nat ((a + ?r) div 4096))
          (of_nat ((a + ?r) mod 4096)) ?p n1 = Some n' \<and>
        busy v (hw n') = 0 \<and> g_norflash_type n' = type \<and>
        flash v (hw n') = overwrite (flash v (hw n1)) (a + ?r) (take (unat ?d) (drop ?r pbuf))"
      using less.prems(3,5,6) lt d p next_sec(1) n1(2,3) by (intro less.hyps) auto
    then obtain n' where n': "write_loop dev (drop ?r pbuf) (of_nat (a + ?r)) ?d
        (of_nat (a div 4096 + 1)) 0 ?p n1 = Some n'"
      "busy v (hw n') = 0" "g_norflash_type n' = type"
      "flash v (hw n') = overwrite (flash v (hw n1)) (a + ?r) (take (?n - ?r) (drop ?r pbuf))"
      unfolding next_sec d by auto
    have run: "write_loop dev pbuf (of_nat a) datalen (of_nat (a div 4096)) (of_nat (a mod 4096)) secremain n = Some n'"
      using n1(1) n'(1) False by (subst write_loop.simps) (simp add: Let_def add.commute)
    have "take ?r pbuf @ take (?n - ?r) (drop ?r pbuf) = take ?n pbuf"
      using lt by (metis le_add_diff_inverse less_imp_le take_add)
    moreover have "length (take ?r pbuf) = ?r" using less.prems(4,5) by simp
    ultimately have "flash v (hw n') = overwrite (flash v (hw n)) a (take ?n pbuf)"
      using n'(4) n1(4) overwrite_append [of "flash v (hw n)" a "take ?r pbuf" "take (?n - ?r) (drop ?r pbuf)"]
      by simp
    with run n'(2,3) show ?thesis by blast
  qed
qed

lemma norflash_write_part:
  assumes chip: "nor_chip dev v (g_norflash_type n) cap" and "busy v (hw n) = 0"
    and "0 < k" and "k < 65536" and "a + k \<le> cap" and "k \<le> length bs"
  shows "\<exists>n'. norflash_write dev bs (of_nat a) (of_nat k) n = Some n' \<and>
    busy v (hw n') = 0 \<and> g_norflash_type n' = g_norflash_type n \<and>
    flash v (hw n') = overwrite (flash v (hw n)) a (take k bs)"
proof -
  let ?len = "of_nat k :: u16"
  have len: "unat ?len = k" using assms(4) by (intro unat_of_nat_small) simp
  have "a < 2 ^ 32" using assms(3,5) nor_chipD(7) [OF chip] by simp
  then have a: "unat (of_nat a :: u32) = a" by (intro unat_of_nat_small) simp
  have pos: "(of_nat a :: u32) div 4096 = of_nat (a div 4096)"
    using a unat_of_nat_small [of "a div 4096", where 'a = 32] \<open>a < 2 ^ 32\<close>
    by (simp add: word_unat_eq_iff unat_div_distrib)
  have m: "unat ((of_nat a :: u32) mod 4096) = a mod 4096" using a by (simp add: unat_mod_distrib)
  have off: "(ucast ((of_nat a :: u32) mod 4096) :: u16) = of_nat (a mod 4096)"
    using m by (simp add: word_unat_eq_iff unsigned_ucast_eq unat_of_nat take_bit_eq_mod)
  have "a mod 4096 < 4096" by simp
  then have o: "unat (of_nat (a mod 4096) :: u16) = a mod 4096" by (intro unat_of_nat_small) simp
  have rem: "unat (4096 - of_nat (a mod 4096) :: u16) = 4096 - a mod 4096"
    using o by (subst unat_sub) (simp_all add: word_le_nat_alt)
  define p where "p = (if ?len \<le> 4096 - of_nat (a mod 4096) then ?len else 4096 - of_nat (a mod 4096))"
  have p: "unat p = min k (4096 - a mod 4096)"
    using len rem by (simp add: p_def word_le_nat_alt min_def)
  have "\<exists>n'. write_loop dev bs (of_nat a) ?len (of_nat (a div 4096)) (of_nat (a mod 4096)) p n = Some n' \<and>
      busy v (hw n') = 0 \<and> g_norflash_type n' = g_norflash_type n \<and>
      flash v (hw n') = overwrite (flash v (hw n)) a (take (unat ?len) bs)"
    using assms(2,3,5,6) len p by (intro write_loop_ok [OF chip]) auto
  then show ?thesis
    unfolding norflash_write_def Let_def pos off len p_def by simp
qed

lemma norflash_write_ok:
  assumes chip: "nor_chip dev v (g_norflash_type n) cap" and "busy v (hw n) = 0"
    and "bs \<noteq> []" and "length bs < 65536" and "a + length bs \<le> cap"
  shows "\<exists>n'. norflash_write dev bs (of_nat a) (of_nat (length bs)) n = Some n' \<and>
    busy v (hw n') = 0 \<and> g_norflash_type n' = g_norflash_type n \<and>
    flash v (hw n') = overwrite (flash v (hw n)) a bs"
  using norflash_write_part [OF chip assms(2), of "length bs" a bs] assms(3-5) by simp

section \<open>The driver as a byte store\<close>

text \<open>The chip with what is known of it, and the driver's state.\<close>

record 's nor_env =
  nor_dev :: "'s spi5"
  nor_view :: "'s chip_view"
  nor_size :: nat

definition nor_valid :: "'s nor_env \<times> 's norflash \<Rightarrow> bool" where
  "nor_valid en \<longleftrightarrow> (case en of (e, n) \<Rightarrow>
     nor_chip (nor_dev e) (nor_view e) (g_norflash_type n) (nor_size e) \<and> busy (nor_view e) (hw n) = 0)"

definition nor_content :: "'s nor_env \<times> 's norflash \<Rightarrow> nat \<Rightarrow> u8" where
  "nor_content en = flash (nor_view (fst en)) (hw (snd en))"

definition nor_fetch ::
  "nat \<Rightarrow> nat \<Rightarrow> 's nor_env \<times> 's norflash \<Rightarrow> (u8 list \<times> 's nor_env \<times> 's norflash) option" where
  "nor_fetch a k en = (case en of (e, n) \<Rightarrow>
     case norflash_read (nor_dev e) (g_norflash_type n) (of_nat a) (of_nat k) (hw n) of
       (bs, s) \<Rightarrow> Some (bs, e, n\<lparr>hw := s\<rparr>))"

definition nor_store ::
  "nat \<Rightarrow> u8 list \<Rightarrow> 's nor_env \<times> 's norflash \<Rightarrow> ('s nor_env \<times> 's norflash) option" where
  "nor_store a bs en = (case en of (e, n) \<Rightarrow>
     map_option (Pair e) (norflash_write (nor_dev e) bs (of_nat a) (of_nat (length bs)) n))"

interpretation nor: byte_store nor_valid "nor_size \<circ> fst" nor_content nor_fetch nor_store 65535
proof
  fix en :: "'s nor_env \<times> 's norflash" and n a :: nat
  assume v: "nor_valid en" and n: "0 < n" "n \<le> 65535" and a: "a + n \<le> (nor_size \<circ> fst) en"
  obtain e d where en: "en = (e, d)" by fastforce
  have k: "unat (of_nat n :: u16) = n" using n by (intro unat_of_nat_small) simp
  from read_ok [of "nor_dev e" "nor_view e" "g_norflash_type d" "nor_size e" "hw d" a "of_nat n"] v a k
  obtain s' where "norflash_read (nor_dev e) (g_norflash_type d) (of_nat a) (of_nat n) (hw d) =
      (window (flash (nor_view e) (hw d)) a n, s')" "busy (nor_view e) s' = 0"
    "flash (nor_view e) s' = flash (nor_view e) (hw d)"
    unfolding en nor_valid_def by auto
  with v show "\<exists>s'. nor_fetch a n en = Some (window (nor_content en) a n, s') \<and> nor_valid s' \<and>
      (nor_size \<circ> fst) s' = (nor_size \<circ> fst) en \<and> nor_content s' = nor_content en"
    by (auto simp: en nor_fetch_def nor_valid_def nor_content_def)
next
  fix en :: "'s nor_env \<times> 's norflash" and bs :: "u8 list" and a :: nat
  assume v: "nor_valid en" and bs: "bs \<noteq> []" "length bs \<le> 65535" and a: "a + length bs \<le> (nor_size \<circ> fst) en"
  obtain e d where en: "en = (e, d)" by fastforce
  from norflash_write_ok [of "nor_dev e" "nor_view e" d "nor_size e" bs a] v bs a
  obtain d' where "norflash_write (nor_dev e) bs (of_nat a) (of_nat (length bs)) d = Some d'"
    "busy (nor_view e) (hw d') = 0" "g_norflash_type d' = g_norflash_type d"
    "flash (nor_view e) (hw d') = overwrite (flash (nor_view e) (hw d)) a bs"
    unfolding en nor_valid_def by auto
  with v show "\<exists>s'. nor_store a bs en = Some s' \<and> nor_valid s' \<and>
      (nor_size \<circ> fst) s' = (nor_size \<circ> fst) en \<and> nor_content s' = overwrite (nor_content en) a bs"
    by (auto simp: en nor_store_def nor_valid_def nor_content_def)
qed

section \<open>A chip\<close>

text \<open>
  An executable chip with four address bytes that reacts as the hypotheses say: the bytes received
  since it was selected, its memory, the latch, and the number of status reads it stays busy.
\<close>

record sim =
  rx :: "u8 list"
  cells :: "nat \<Rightarrow> u8"
  latch :: bool
  left :: nat

definition addr_word :: "u8 \<Rightarrow> u8 \<Rightarrow> u8 \<Rightarrow> u8 \<Rightarrow> u32" where
  "addr_word a b c d = push_bit 24 (ucast a) OR push_bit 16 (ucast b) OR push_bit 8 (ucast c) OR ucast d"

definition sim_out :: "sim \<Rightarrow> u8" where
  "sim_out s =
     (case rx s of
        [cmd] \<Rightarrow> if cmd = FLASH_ReadStatusReg1 \<and> 0 < left s then 1 else 0
      | cmd # a # b # c # d # tail \<Rightarrow>
          if cmd = FLASH_ReadData \<and> left s = 0 then cells s (unat (addr_word a b c d) + length tail) else 0
      | _ \<Rightarrow> 0)"

definition sim_xfer :: "u8 \<Rightarrow> sim \<Rightarrow> u8 \<times> sim" where
  "sim_xfer byte s = (sim_out s, s\<lparr>rx := rx s @ [byte]\<rparr>)"

definition sim_exec :: "sim \<Rightarrow> sim" where
  "sim_exec s =
     (case rx s of
        [cmd] \<Rightarrow> if cmd = FLASH_WriteEnable \<and> left s = 0 then s\<lparr>latch := True\<rparr> else s
      | [cmd, x] \<Rightarrow> if cmd = FLASH_ReadStatusReg1 then s\<lparr>left := left s - 1\<rparr> else s
      | cmd # a # b # c # d # tail \<Rightarrow>
          let adr = unat (addr_word a b c d)
          in if cmd = FLASH_PageProgram \<and> latch s \<and> left s = 0 \<and> tail \<noteq> []
             then s\<lparr>cells := program (cells s) adr tail, latch := False, left := 2\<rparr>
             else if cmd = FLASH_SectorErase \<and> latch s \<and> left s = 0 \<and> tail = []
             then s\<lparr>cells := erased (cells s) (adr div 4096 * 4096), latch := False, left := 5\<rparr>
             else s
      | _ \<Rightarrow> s)"

definition sim_cs :: "bool \<Rightarrow> sim \<Rightarrow> sim" where
  "sim_cs high s = (if high then sim_exec s else s\<lparr>rx := []\<rparr>)"

definition sim_dev :: "sim spi5" where
  "sim_dev = \<lparr>NORFLASH_CS = sim_cs, spi5_read_write_byte = sim_xfer\<rparr>"

definition sim_view :: "sim chip_view" where
  "sim_view = \<lparr>flash = cells, wel = latch, busy = left\<rparr>"

lemma sim_bytes: "snd (spi_bytes sim_dev bs s) = s\<lparr>rx := rx s @ bs\<rparr>"
  by (induction bs arbitrary: s) (simp_all add: sim_dev_def sim_xfer_def split_beta)

lemma sim_tx: "snd (spi_tx sim_dev bs s) = sim_exec (s\<lparr>rx := bs\<rparr>)"
proof -
  have "snd (spi_tx sim_dev bs s) = sim_cs True (snd (spi_bytes sim_dev bs (sim_cs False s)))"
    by (simp add: spi_tx_def sim_dev_def split_beta)
  then show ?thesis by (simp add: sim_bytes sim_cs_def)
qed

lemma addr_word_bytes:
  "addr_word (ucast (drop_bit 24 w)) (ucast (drop_bit 16 w)) (ucast (drop_bit 8 w)) (ucast w) = w"
proof (rule bit_word_eqI)
  fix n assume "n < LENGTH(32)"
  then have "n < 8 \<or> (\<exists>m<8. n = 8 + m) \<or> (\<exists>m<8. n = 16 + m) \<or> (\<exists>m<8. n = 24 + m)" by simp presburger
  then show "bit (addr_word (ucast (drop_bit 24 w)) (ucast (drop_bit 16 w)) (ucast (drop_bit 8 w)) (ucast w)) n =
      bit w n"
    unfolding addr_word_def by (elim disjE exE conjE) (simp_all add: bit_simps)
qed

lemma sim_addr:
  "addr_bytes W25Q256 w = [ucast (drop_bit 24 w), ucast (drop_bit 16 w), ucast (drop_bit 8 w), ucast w]"
  by (simp add: addr_bytes_def four_byte_def)

lemma sim_read_more:
  "rx s = FLASH_ReadData # a # b # c # d # tail \<Longrightarrow> left s = 0 \<Longrightarrow>
     fst (spi_bytes sim_dev (replicate n 0xFF) s) =
       window (cells s) (unat (addr_word a b c d) + length tail) n"
proof (induction n arbitrary: s tail)
  case 0
  then show ?case by (simp add: window_def)
next
  case (Suc n)
  let ?s = "s\<lparr>rx := rx s @ [0xFF]\<rparr>"
  have "fst (spi_bytes sim_dev (replicate n 0xFF) ?s) =
      window (cells s) (Suc (unat (addr_word a b c d) + length tail)) n"
    using Suc.IH [of ?s "tail @ [0xFF]"] Suc.prems by simp
  then show ?case
    using Suc.prems by (simp add: sim_dev_def sim_xfer_def sim_out_def window_Suc split_beta)
qed

lemma sim_nor_chip: "nor_chip sim_dev sim_view W25Q256 (2 ^ 25)"
proof -
  have u: "unat (of_nat a :: u32) = a" if "a < 2 ^ 25" for a :: nat
    using that by (intro unat_of_nat_small) simp
  have status: "status_law sim_dev sim_view"
    unfolding status_law_def
  proof
    fix s
    let ?bs = "[FLASH_ReadStatusReg1, 0xFF]"
    have "fst (spi_tx sim_dev ?bs s) ! 1 = (if 0 < left s then 1 else 0)"
      by (simp add: spi_tx_def sim_dev_def sim_cs_def sim_xfer_def sim_out_def)
    moreover have "snd (spi_tx sim_dev ?bs s) = s\<lparr>rx := ?bs, left := left s - 1\<rparr>"
      by (simp add: sim_tx sim_exec_def)
    ultimately show "case spi_tx sim_dev ?bs s of (rs, s') \<Rightarrow>
        (rs ! 1 AND 0x01 = 0x01 \<longleftrightarrow> 0 < busy sim_view s) \<and> busy sim_view s' = busy sim_view s - 1 \<and>
        flash sim_view s' = flash sim_view s \<and> wel sim_view s' = wel sim_view s"
      by (simp add: split_beta sim_view_def)
  qed
  have enable: "enable_law sim_dev sim_view"
    by (simp add: enable_law_def sim_tx sim_exec_def sim_view_def Let_def)
  have read: "read_law sim_dev sim_view W25Q256 (2 ^ 25)"
    unfolding read_law_def
  proof (intro allI impI)
    fix s :: sim and a n :: nat
    assume idle: "busy sim_view s = 0" and fits: "a + n \<le> 2 ^ 25"
    let ?w = "of_nat a :: u32"
    let ?bs = "FLASH_ReadData # addr_bytes W25Q256 ?w @ replicate n 0xFF"
    let ?s1 = "s\<lparr>rx := FLASH_ReadData # addr_bytes W25Q256 ?w\<rparr>"
    have "a < 2 ^ 32" using fits by simp
    then have ua: "unat ?w = a" by (intro unat_of_nat_small) simp
    have "drop 5 (fst (spi_tx sim_dev ?bs s)) = fst (spi_bytes sim_dev (replicate n 0xFF) ?s1)"
      using sim_bytes [of "FLASH_ReadData # addr_bytes W25Q256 ?w" "s\<lparr>rx := []\<rparr>"]
        length_spi_bytes [of sim_dev "FLASH_ReadData # addr_bytes W25Q256 ?w" "s\<lparr>rx := []\<rparr>"]
        spi_bytes_append [of sim_dev "FLASH_ReadData # addr_bytes W25Q256 ?w" "replicate n 0xFF" "s\<lparr>rx := []\<rparr>"]
      by (simp add: spi_tx_def sim_addr split_beta sim_cs_def sim_dev_def)
    also have "\<dots> = window (cells s) a n"
      using sim_read_more [of ?s1 _ _ _ _ "[]" n] idle ua
      by (simp add: sim_addr addr_word_bytes sim_view_def)
    finally have data: "drop 5 (fst (spi_tx sim_dev ?bs s)) = window (cells s) a n" .
    have "snd (spi_tx sim_dev ?bs s) = s\<lparr>rx := ?bs\<rparr>" "left s = 0" using idle
      by (simp_all add: sim_tx sim_exec_def sim_addr FLASH_ReadData_def FLASH_PageProgram_def
          FLASH_SectorErase_def sim_view_def Let_def)
    with data have "drop 5 (fst (spi_tx sim_dev ?bs s)) = window (cells s) a n"
      "snd (spi_tx sim_dev ?bs s) = s\<lparr>rx := ?bs\<rparr>" "left s = 0" by blast+
    moreover have len: "Suc (length (addr_bytes W25Q256 ?w)) = 5" by (simp add: sim_addr)
    ultimately show "case spi_tx sim_dev ?bs s of (rs, s') \<Rightarrow>
        drop (Suc (length (addr_bytes W25Q256 ?w))) rs = window (flash sim_view s) a n \<and>
        busy sim_view s' = 0 \<and> flash sim_view s' = flash sim_view s"
      by (simp add: split_beta sim_view_def len)
  qed
  have "program_law sim_dev sim_view W25Q256 (2 ^ 25)"
    unfolding program_law_def
  proof (intro allI impI)
    fix s :: sim and a :: nat and bs :: "u8 list"
    assume "busy sim_view s = 0" "wel sim_view s" "bs \<noteq> []" "a + length bs \<le> 2 ^ 25"
    moreover from this have "a < 2 ^ 25" by (cases bs) simp_all
    ultimately show "flash sim_view (snd (spi_tx sim_dev (FLASH_PageProgram # addr_bytes W25Q256 (of_nat a) @ bs) s)) =
        program (flash sim_view s) a bs"
      using u by (simp add: sim_tx sim_exec_def sim_addr addr_word_bytes sim_view_def)
  qed
  moreover have "erase_law sim_dev sim_view W25Q256 (2 ^ 25)"
    unfolding erase_law_def
  proof (intro allI impI)
    fix s :: sim and a :: nat
    assume "busy sim_view s = 0" "wel sim_view s" "4096 dvd a" "a < 2 ^ 25"
    then show "flash sim_view (snd (spi_tx sim_dev (FLASH_SectorErase # addr_bytes W25Q256 (of_nat a)) s)) =
        erased (flash sim_view s) a"
      using u by (auto simp: sim_tx sim_exec_def sim_addr addr_word_bytes sim_view_def
          FLASH_PageProgram_def FLASH_SectorErase_def Let_def elim!: dvdE)
  qed
  ultimately show ?thesis using status enable read by (simp add: nor_chip_def)
qed

text \<open>C3: on a chip that reacts as documented, \<open>norflash_write\<close> terminates and leaves exactly the
  given bytes at the given address and every other byte of the chip as it was, for every alignment
  and every length from 1 to 65535 inside the chip, whether or not sectors had to be erased; the
  chip is ready again.\<close>

theorem norflash_write_correct:
  assumes "nor_chip dev v (g_norflash_type n) cap" and "busy v (hw n) = 0"
    and "bs \<noteq> []" and "length bs < 65536" and "a + length bs \<le> cap"
  shows "\<exists>n'. norflash_write dev bs (of_nat a) (of_nat (length bs)) n = Some n' \<and>
    busy v (hw n') = 0 \<and> flash v (hw n') = overwrite (flash v (hw n)) a bs"
  using norflash_write_ok [OF assms] by blast

definition blank_flash :: "sim norflash" where
  "blank_flash = \<lparr>g_norflash_type = W25Q256, g_norflash_buf = replicate 4096 0,
     hw = \<lparr>rx = [], cells = (\<lambda>_. 0x5A), latch = False, left = 0\<rparr>\<rparr>"

theorem norflash_write_correct_witness:
  "\<exists>n'. norflash_write sim_dev [1, 2, 3] 4095 3 blank_flash = Some n' \<and>
    left (hw n') = 0 \<and> cells (hw n') = overwrite (\<lambda>_. 0x5A) 4095 [1, 2, 3]"
  using norflash_write_correct [of sim_dev sim_view blank_flash "2 ^ 25" "[1, 2, 3]" 4095] sim_nor_chip
  by (simp add: blank_flash_def sim_view_def)

text \<open>Any sequence of reads and writes through the driver, each inside the chip and of 1 to 65535
  bytes, gives the answers of a plain array of bytes, and the chip holds the array's content at the
  end.\<close>

theorem norflash_is_array:
  assumes "nor_valid en" and "list_all (request_ok 65535 (nor_size (fst en))) rs"
  shows "\<exists>en'. device_session nor_fetch nor_store rs en = Some (fst (array_session rs (nor_content en)), en') \<and>
    nor_content en' = snd (array_session rs (nor_content en))"
  using nor.byte_session_law [of en rs] assms by auto

theorem norflash_is_array_witness:
  "\<exists>en'. device_session nor_fetch nor_store [Store 10 [7, 8], Store 11 [9], Fetch 9 4]
      (\<lparr>nor_dev = sim_dev, nor_view = sim_view, nor_size = 2 ^ 25\<rparr>, blank_flash) =
    Some ([[0x5A, 7, 9, 0x5A]], en')"
  using norflash_is_array [of "(\<lparr>nor_dev = sim_dev, nor_view = sim_view, nor_size = 2 ^ 25\<rparr>, blank_flash)"
      "[Store 10 [7, 8], Store 11 [9], Fetch 9 4]"] sim_nor_chip
  by (auto simp: nor_valid_def blank_flash_def sim_view_def nor_content_def window_def overwrite_def upt_rec)

text \<open>erasing a sector sets its 4096 bytes to 0xFF and changes no other byte.\<close>

theorem norflash_erase_sector_correct:
  assumes "nor_chip dev v type cap" and "busy v s = 0" and "sec * 4096 < cap"
  shows "\<exists>s'. norflash_erase_sector dev type (of_nat sec) s = Some s' \<and> busy v s' = 0 \<and>
    flash v s' = erased (flash v s) (sec * 4096)"
  using assms by (rule erase_sector_ok)

theorem norflash_erase_sector_correct_witness:
  "\<exists>s'. norflash_erase_sector sim_dev W25Q256 1 (hw blank_flash) = Some s' \<and> left s' = 0 \<and>
    cells s' = erased (\<lambda>_. 0x5A) 4096"
  using norflash_erase_sector_correct [of sim_dev sim_view W25Q256 "2 ^ 25" "hw blank_flash" 1] sim_nor_chip
  by (simp add: blank_flash_def sim_view_def)

end
