(* ===== verification/Nand_Ecc.thy ===== *)
theory Nand_Ecc
  imports Apollo_Prelude
begin

text \<open>
  The error correction of the NAND driver: \<open>nand_ecc_get_oe\<close> and \<open>nand_ecc_correction\<close> of
  \<open>nand.c\<close>. The 24-bit code itself is computed by the memory controller and is a parameter \<open>ecc\<close>;
  what is relied on is its documented layout: for each of the 12 bits of a bit position in a
  sector of 512 bytes, one parity of the data bits at positions with that bit set and one of those
  with it clear.
\<close>

definition nand_ecc_get_oe :: "u8 \<Rightarrow> u32 \<Rightarrow> u16" where
  "nand_ecc_get_oe oe eccval =
     fold (\<lambda>i ecctemp.
         if of_nat i mod 2 = oe \<and> drop_bit i eccval AND 0x01 \<noteq> 0
         then ecctemp + push_bit (i div 2) 1 else ecctemp) [0..<24] 0"

definition nand_ecc_correction :: "u8 list \<Rightarrow> u32 \<Rightarrow> u32 \<Rightarrow> (u8 \<times> u8 list) option" where
  "nand_ecc_correction data_buf eccrd ecccl =
     (let eccrdo = nand_ecc_get_oe 1 eccrd;
          eccrde = nand_ecc_get_oe 0 eccrd;
          eccclo = nand_ecc_get_oe 1 ecccl;
          ecccle = nand_ecc_get_oe 0 ecccl;
          eccchk = eccrdo XOR eccrde XOR eccclo XOR ecccle
      in if eccchk = 0xFFF then
           let errorpos = eccrdo XOR eccclo;
               bytepos = unat (errorpos div 8)
           in do {
                b \<leftarrow> arr_get data_buf bytepos;
                buf \<leftarrow> arr_set data_buf bytepos (b XOR push_bit (unat (errorpos mod 8)) 1);
                Some (0, buf)
              }
         else Some (1, data_buf))"

section \<open>The odd and even bits of a code\<close>

lemma test_bit: "drop_bit i v AND 0x01 \<noteq> 0 \<longleftrightarrow> bit (v :: u32) i"
  by (simp add: and_one_eq bit_iff_odd_drop_bit even_iff_mod_2_eq_zero)

lemma get_oe_loop:
  assumes "n \<le> 24" and "p < 2"
  shows "bit (fold (\<lambda>i t. if of_nat i mod 2 = (of_nat p :: u8) \<and> drop_bit i v AND 0x01 \<noteq> 0
       then t + push_bit (i div 2) 1 else t) [0..<n] (0 :: u16)) k \<longleftrightarrow> 2 * k + p < n \<and> bit (v :: u32) (2 * k + p)"
  using assms
proof (induction n arbitrary: k)
  case 0
  then show ?case by simp
next
  case (Suc n)
  let ?f = "\<lambda>i (t :: u16). if of_nat i mod 2 = (of_nat p :: u8) \<and> drop_bit i v AND 0x01 \<noteq> 0
       then t + push_bit (i div 2) 1 else t"
  let ?t = "fold ?f [0..<n] 0"
  have IH: "bit ?t j \<longleftrightarrow> 2 * j + p < n \<and> bit v (2 * j + p)" for j using Suc by simp
  have par: "of_nat n mod 2 = (of_nat p :: u8) \<longleftrightarrow> n mod 2 = p"
  proof -
    have "unat (of_nat n mod 2 :: u8) = n mod 2"
      using Suc.prems(1) by (simp add: unat_mod_distrib unat_of_nat_small)
    moreover have "unat (of_nat p :: u8) = p" using Suc.prems(2) by (intro unat_of_nat_small) simp
    ultimately show ?thesis by (metis word_unat_eq_iff)
  qed
  show ?case
  proof (cases "n mod 2 = p \<and> bit v n")
    case False
    then have "fold ?f [0..<Suc n] 0 = ?t" using par test_bit by auto
    moreover have "2 * k + p < Suc n \<and> bit v (2 * k + p) \<longleftrightarrow> 2 * k + p < n \<and> bit v (2 * k + p)"
      using False Suc.prems(2) by (auto simp: less_Suc_eq)
    ultimately show ?thesis using IH by simp
  next
    case True
    have n: "n = 2 * (n div 2) + p" using conjunct1 [OF True] by presburger
    have free: "\<not> bit ?t (n div 2)" using IH n by simp
    have "fold ?f [0..<Suc n] 0 = ?t + push_bit (n div 2) 1" using True par test_bit by auto
    also have "\<dots> = ?t OR push_bit (n div 2) 1"
      using free by (intro disjunctive_add) (auto simp: bit_exp_iff)
    finally have eq: "fold ?f [0..<Suc n] 0 = ?t OR push_bit (n div 2) 1" .
    have "bit (push_bit (n div 2) 1 :: u16) k \<longleftrightarrow> k = n div 2"
      using Suc.prems(1) by (auto simp: bit_push_bit_iff bit_1_iff simp del: push_bit_of_1)
    then have "bit (fold ?f [0..<Suc n] 0) k \<longleftrightarrow> bit ?t k \<or> k = n div 2"
      unfolding eq bit_or_iff by blast
    also have "\<dots> \<longleftrightarrow> 2 * k + p < Suc n \<and> bit v (2 * k + p)"
    proof -
      have "2 * k + p = n \<longleftrightarrow> k = n div 2" using n by linarith
      then show ?thesis unfolding IH less_Suc_eq using True by metis
    qed
    finally show ?thesis .
  qed
qed

lemma bit_get_odd: "bit (nand_ecc_get_oe 1 v) k \<longleftrightarrow> k < 12 \<and> bit v (Suc (2 * k))"
  using get_oe_loop [of 24 1 v k] by (auto simp: nand_ecc_get_oe_def)

lemma bit_get_even: "bit (nand_ecc_get_oe 0 v) k \<longleftrightarrow> k < 12 \<and> bit v (2 * k)"
  using get_oe_loop [of 24 0 v k] by (auto simp: nand_ecc_get_oe_def)

section \<open>The code\<close>

definition data_bit :: "u8 list \<Rightarrow> nat \<Rightarrow> bool" where
  "data_bit data p = bit (data ! (p div 8)) (p mod 8)"

definition ecc_parity :: "u8 list \<Rightarrow> (nat \<Rightarrow> bool) \<Rightarrow> bool" where
  "ecc_parity data sel = odd (length (filter (\<lambda>p. data_bit data p \<and> sel p) [0..<4096]))"

definition ecc_law :: "(u8 list \<Rightarrow> u32) \<Rightarrow> bool" where
  "ecc_law ecc \<longleftrightarrow> (\<forall>data. length data = 512 \<longrightarrow>
     (\<forall>k<12. (bit (ecc data) (2 * k + 1) \<longleftrightarrow> ecc_parity data (\<lambda>p. bit p k)) \<and>
            (bit (ecc data) (2 * k) \<longleftrightarrow> ecc_parity data (\<lambda>p. \<not> bit p k))))"

text \<open>One bit of a sector inverted.\<close>

definition flip :: "nat \<Rightarrow> u8 list \<Rightarrow> u8 list" where
  "flip q data = data[q div 8 := data ! (q div 8) XOR push_bit (q mod 8) 1]"

lemma length_flip [simp]: "length (flip q data) = length data"
  by (simp add: flip_def)

lemma data_bit_flip:
  "length data = 512 \<Longrightarrow> p < 4096 \<Longrightarrow> q < 4096 \<Longrightarrow>
     data_bit (flip q data) p \<longleftrightarrow> data_bit data p \<noteq> (p = q)"
proof -
  assume a: "length data = 512" "p < 4096" "q < 4096"
  have "p = q \<longleftrightarrow> p div 8 = q div 8 \<and> p mod 8 = q mod 8" by (metis div_mult_mod_eq)
  moreover have "q div 8 < 512" using a by simp
  ultimately show ?thesis
    using a by (auto simp: data_bit_def flip_def nth_list_update bit_xor_iff bit_exp_iff)
qed

lemma filter_flip:
  "distinct xs \<Longrightarrow>
     odd (length (filter (\<lambda>p. (A p \<noteq> (p = q)) \<and> S p) xs)) \<longleftrightarrow>
     (odd (length (filter (\<lambda>p. A p \<and> S p) xs)) \<noteq> (q \<in> set xs \<and> S q))"
  by (induction xs) auto

lemma parity_flip:
  assumes "length data = 512" and "q < 4096"
  shows "ecc_parity (flip q data) S \<longleftrightarrow> ecc_parity data S \<noteq> S q"
proof -
  have "filter (\<lambda>p. data_bit (flip q data) p \<and> S p) [0..<4096] =
      filter (\<lambda>p. (data_bit data p \<noteq> (p = q)) \<and> S p) [0..<4096]"
    using assms by (intro filter_cong) (auto simp: data_bit_flip)
  then show ?thesis
    using filter_flip [of "[0..<4096]" "data_bit data" q S] assms(2) by (simp add: ecc_parity_def)
qed

lemma flip_flip: "length data = 512 \<Longrightarrow> q < 4096 \<Longrightarrow> flip q (flip q data) = data"
  by (rule nth_equalityI) (auto simp: flip_def nth_list_update xor.assoc)

section \<open>Correction\<close>

lemma ecc_bits:
  assumes "ecc_law ecc" and "length data = 512" and "k < 12"
  shows "bit (ecc data) (Suc (2 * k)) \<longleftrightarrow> ecc_parity data (\<lambda>p. bit p k)"
    and "bit (ecc data) (2 * k) \<longleftrightarrow> ecc_parity data (\<lambda>p. \<not> bit p k)"
  using assms by (simp_all add: ecc_law_def)

lemma bit_0xFFF: "bit (0xFFF :: u16) k \<longleftrightarrow> k < 12"
proof -
  have "(0xFFF :: u16) = mask 12" by (simp add: mask_eq_exp_minus_1)
  then show ?thesis by (simp only: bit_mask_iff) auto
qed

lemma position_bits:
  assumes "ecc_law ecc" and "length data = 512" and "q < 4096"
  shows "nand_ecc_get_oe 1 (ecc data) XOR nand_ecc_get_oe 1 (ecc (flip q data)) = of_nat q"
    and "nand_ecc_get_oe 0 (ecc data) XOR nand_ecc_get_oe 0 (ecc (flip q data)) = 0xFFF XOR of_nat q"
proof -
  have q: "bit (of_nat q :: u16) k \<longleftrightarrow> k < 12 \<and> bit q k" for k
  proof (cases "k < 12")
    case True
    then show ?thesis by (simp add: bit_of_nat_iff)
  next
    case False
    have "(2 :: nat) ^ 12 \<le> 2 ^ k" using False by (intro power_increasing) auto
    then have "q < 2 ^ k" using assms(3) by simp
    then have "\<not> bit q k" by (simp add: bit_iff_odd)
    then show ?thesis by (simp add: bit_of_nat_iff False)
  qed
  show "nand_ecc_get_oe 1 (ecc data) XOR nand_ecc_get_oe 1 (ecc (flip q data)) = of_nat q"
    by (rule bit_word_eqI)
      (auto simp: bit_xor_iff bit_get_odd q ecc_bits [OF assms(1)] assms(2) parity_flip [OF assms(2,3)])
  show "nand_ecc_get_oe 0 (ecc data) XOR nand_ecc_get_oe 0 (ecc (flip q data)) = 0xFFF XOR of_nat q"
    by (rule bit_word_eqI, unfold bit_xor_iff bit_0xFFF)
      (auto simp: bit_get_even q ecc_bits [OF assms(1)] assms(2) parity_flip [OF assms(2,3)])
qed

lemma xor_halves: "(of_nat q :: u16) XOR (0xFFF XOR of_nat q) = 0xFFF"
  by (rule bit_word_eqI) (auto simp: bit_xor_iff)

lemma xor_chain: "a XOR b = x \<Longrightarrow> b XOR c = y \<Longrightarrow> a XOR c = x XOR (y :: u16)"
  by (rule bit_word_eqI) (auto simp: bit_xor_iff)

lemma correct_one_bit:
  assumes "ecc_law ecc" and "length data = 512" and "q < 4096"
  shows "nand_ecc_correction (flip q data) (ecc data) (ecc (flip q data)) = Some (0, data)"
proof -
  let ?o = "nand_ecc_get_oe 1 (ecc data)" and ?e = "nand_ecc_get_oe 0 (ecc data)"
  let ?o' = "nand_ecc_get_oe 1 (ecc (flip q data))" and ?e' = "nand_ecc_get_oe 0 (ecc (flip q data))"
  note pos = position_bits [OF assms]
  have "?o XOR ?e XOR ?o' XOR ?e' = (?o XOR ?o') XOR (?e XOR ?e')"
    by (simp add: xor.assoc xor.left_commute)
  then have chk: "?o XOR ?e XOR ?o' XOR ?e' = 0xFFF" unfolding pos xor_halves .
  have q: "unat (of_nat q :: u16) = q" using assms(3) by (intro unat_of_nat_small) simp
  have idx: "unat ((of_nat q :: u16) div 8) = q div 8" "unat ((of_nat q :: u16) mod 8) = q mod 8"
    using q by (simp_all add: unat_div_distrib unat_mod_distrib)
  have "q div 8 < length (flip q data)" using assms(2,3) by simp
  then show ?thesis
    using flip_flip [OF assms(2,3)]
    by (simp add: nand_ecc_correction_def chk pos(1) idx arr_get_Some arr_set_Some Let_def flip_def [symmetric])
      (simp add: flip_def)
qed

lemma two_bits_noticed:
  assumes "ecc_law ecc" and "length data = 512" and "p < 4096" and "q < 4096" and "p \<noteq> q"
  shows "nand_ecc_correction (flip p (flip q data)) (ecc data) (ecc (flip p (flip q data))) =
    Some (1, flip p (flip q data))"
proof -
  let ?d = "flip q data" and ?d' = "flip p (flip q data)"
  let ?o = "nand_ecc_get_oe 1 (ecc data)" and ?e = "nand_ecc_get_oe 0 (ecc data)"
  let ?o' = "nand_ecc_get_oe 1 (ecc ?d')" and ?e' = "nand_ecc_get_oe 0 (ecc ?d')"
  have len: "length ?d = 512" using assms(2) by simp
  have odd: "?o XOR ?o' = of_nat q XOR of_nat p"
    using xor_chain [OF position_bits(1) [OF assms(1,2,4)] position_bits(1) [OF assms(1) len assms(3)]]
    by simp
  have even: "?e XOR ?e' = of_nat q XOR of_nat p"
    using xor_chain [OF position_bits(2) [OF assms(1,2,4)] position_bits(2) [OF assms(1) len assms(3)]]
    by (simp add: xor.assoc xor.left_commute)
  have "?o XOR ?e XOR ?o' XOR ?e' = (?o XOR ?o') XOR (?e XOR ?e')"
    by (simp add: xor.assoc xor.left_commute)
  then have "?o XOR ?e XOR ?o' XOR ?e' = 0" unfolding odd even by simp
  then show ?thesis by (simp add: nand_ecc_correction_def Let_def)
qed

text \<open>The two halves of a code together give the parity of all bits of the sector.\<close>

lemma parity_halves:
  "(ecc_parity data S \<noteq> ecc_parity data (\<lambda>p. \<not> S p)) \<longleftrightarrow>
     odd (length (filter (data_bit data) [0..<4096]))"
proof -
  have split: "length (filter (\<lambda>p. A p \<and> S p) xs) + length (filter (\<lambda>p. A p \<and> \<not> S p) xs) =
      length (filter A xs)" for A and xs :: "nat list"
    by (induction xs) auto
  show ?thesis unfolding ecc_parity_def split [of "data_bit data" "[0..<4096]", symmetric] even_add by blast
qed

definition blank_sector :: "u8 list" where "blank_sector = replicate 512 0xFF"

lemma length_blank [simp]: "length blank_sector = 512"
  by (simp add: blank_sector_def)

text \<open>A sector that was never programmed, whose stored code reads as all ones.\<close>

lemma correct_blank:
  assumes "ecc_law ecc"
  shows "nand_ecc_correction blank_sector 0xFFFFFFFF (ecc blank_sector) = Some (1, blank_sector)"
proof -
  have ones: "bit (0xFF :: u8) j" if "j < 8" for j
  proof -
    have "(0xFF :: u8) = - 1" by simp
    then show ?thesis using that by (simp only: bit_minus_1_iff possible_bit_word) simp
  qed
  have "data_bit blank_sector p" if "p < 4096" for p
  proof -
    have "p div 8 < 512" "p mod 8 < 8" using that by auto
    then show ?thesis using ones by (simp add: data_bit_def blank_sector_def)
  qed
  then have "filter (data_bit blank_sector) [0..<4096] = [0..<4096]" by (simp add: filter_id_conv)
  then have "even (length (filter (data_bit blank_sector) [0..<4096]))" by simp
  then have same: "ecc_parity blank_sector S = ecc_parity blank_sector (\<lambda>p. \<not> S p)" for S
    using parity_halves [of blank_sector S] by blast
  have ff: "bit (0xFFFFFFFF :: u32) k" if "k < 32" for k
  proof -
    have "(0xFFFFFFFF :: u32) = - 1" by simp
    then show ?thesis using that by (simp only: bit_minus_1_iff possible_bit_word) simp
  qed
  have "nand_ecc_get_oe 1 (ecc blank_sector) = nand_ecc_get_oe 0 (ecc blank_sector)"
    using ecc_bits [OF assms length_blank] same by (intro bit_word_eqI) (auto simp: bit_get_odd bit_get_even)
  moreover have "nand_ecc_get_oe 1 0xFFFFFFFF = nand_ecc_get_oe 0 0xFFFFFFFF"
  proof (rule bit_word_eqI)
    fix k
    have "k < 12 \<Longrightarrow> bit (0xFFFFFFFF :: u32) (Suc (2 * k)) \<and> bit (0xFFFFFFFF :: u32) (2 * k)"
      by (intro conjI ff) simp_all
    then show "bit (nand_ecc_get_oe 1 0xFFFFFFFF) k = bit (nand_ecc_get_oe 0 0xFFFFFFFF) k"
      unfolding bit_get_odd bit_get_even by blast
  qed
  ultimately have "nand_ecc_get_oe 1 0xFFFFFFFF XOR nand_ecc_get_oe 0 0xFFFFFFFF XOR
      nand_ecc_get_oe 1 (ecc blank_sector) XOR nand_ecc_get_oe 0 (ecc blank_sector) = 0"
    by simp
  then show ?thesis by (simp add: nand_ecc_correction_def Let_def)
qed

lemma oe_less: "p < 2 \<Longrightarrow> unat (nand_ecc_get_oe (of_nat p) v XOR nand_ecc_get_oe (of_nat p) w) < 4096"
proof -
  assume "p < 2"
  let ?x = "nand_ecc_get_oe (of_nat p) v XOR nand_ecc_get_oe (of_nat p) w"
  have "take_bit 12 ?x = ?x"
    using \<open>p < 2\<close> less_2_cases [of p]
    by (intro bit_word_eqI) (auto simp: bit_take_bit_iff bit_xor_iff bit_get_even bit_get_odd)
  then have "unat ?x = take_bit 12 (unat ?x)" by (metis unsigned_take_bit_eq)
  then show ?thesis using take_bit_nat_less_exp [of 12 "unat ?x"] by simp
qed

text \<open>The correction reaches no further than the sector.\<close>

lemma correction_append:
  assumes "length d = 512"
  shows "nand_ecc_correction (d @ cs) r h =
    map_option (\<lambda>(res, d'). (res, d' @ cs)) (nand_ecc_correction d r h)"
proof -
  let ?p = "nand_ecc_get_oe 1 r XOR nand_ecc_get_oe 1 h"
  have "unat (?p div 8) < 512" using oe_less [of 1 r h] by (simp add: unat_div_distrib)
  then show ?thesis
    using assms by (simp add: nand_ecc_correction_def Let_def arr_get_Some arr_set_Some nth_append list_update_append)
qed

lemma correction_length: "nand_ecc_correction d r h = Some (res, d') \<Longrightarrow> length d' = length d"
  by (auto simp: nand_ecc_correction_def Let_def arr_set_def Option.bind_eq_Some_conv split: if_splits)

text \<open>C5: with the controller's code, the correction repairs a sector of 512 bytes in which any single
  bit was read wrong and reports success; when any two bits were read wrong it reports an error and
  leaves the data alone.\<close>

theorem ecc_corrects:
  assumes "ecc_law ecc" and "length data = 512" and "q < 4096"
  shows "nand_ecc_correction (flip q data) (ecc data) (ecc (flip q data)) = Some (0, data) \<and>
    (\<forall>p<4096. p \<noteq> q \<longrightarrow>
       nand_ecc_correction (flip p (flip q data)) (ecc data) (ecc (flip p (flip q data))) =
         Some (1, flip p (flip q data)))"
  using correct_one_bit [OF assms] two_bits_noticed [OF assms(1,2) _ assms(3)] by blast

text \<open>A code with that layout.\<close>

definition hamming :: "u8 list \<Rightarrow> u32" where
  "hamming data = horner_sum of_bool 2
     (concat (map (\<lambda>k. [ecc_parity data (\<lambda>p. \<not> bit p k), ecc_parity data (\<lambda>p. bit p k)]) [0..<12]))"

lemma length_pairs: "length (concat (map (\<lambda>k. [f k, g k]) [0..<n])) = 2 * n"
  by (induction n) simp_all

lemma nth_pairs:
  "k < n \<Longrightarrow> concat (map (\<lambda>k. [f k, g k]) [0..<n]) ! (2 * k) = f k"
  "k < n \<Longrightarrow> concat (map (\<lambda>k. [f k, g k]) [0..<n]) ! Suc (2 * k) = g k"
proof (induction n)
  case 0
  { case 1 then show ?case by simp }
  { case 2 then show ?case by simp }
next
  case (Suc n)
  { case 1 then show ?case using Suc by (cases "k = n") (auto simp: nth_append length_pairs) }
  { case 2 then show ?case using Suc by (cases "k = n") (auto simp: nth_append length_pairs) }
qed

lemma hamming_law: "ecc_law hamming"
  unfolding ecc_law_def hamming_def
  by (simp add: bit_horner_sum_bit_iff length_pairs nth_pairs del: upt_rec_numeral)

theorem ecc_corrects_witness:
  "nand_ecc_correction (flip 4095 (replicate 512 0x55)) (hamming (replicate 512 0x55))
     (hamming (flip 4095 (replicate 512 0x55))) = Some (0, replicate 512 0x55)"
  using ecc_corrects [of hamming "replicate 512 0x55" 4095] hamming_law by simp

text \<open>when the data were read correctly but one bit of the stored code was not, the correction
  reports an error that cannot be repaired, as it does for two wrong data bits.\<close>

theorem ecc_bit_of_code:
  assumes "length data = 512" and "j < 24"
  shows "nand_ecc_correction data (ecc data XOR push_bit j 1) (ecc data) = Some (1, data)"
proof -
  define w v where "w = ecc data" and "v = ecc data XOR push_bit j 1"
  have v: "bit v n \<longleftrightarrow> bit w n \<noteq> (n = j)" for n
    using assms(2) by (auto simp: v_def w_def bit_xor_iff bit_exp_iff possible_bit_word)
  let ?x = "nand_ecc_get_oe 1 v XOR nand_ecc_get_oe 0 v XOR nand_ecc_get_oe 1 w XOR nand_ecc_get_oe 0 w"
  have x: "bit ?x k \<longleftrightarrow> k < 12 \<and> k = j div 2" for k
  proof -
    have "(Suc (2 * k) = j) \<noteq> (2 * k = j) \<longleftrightarrow> k = j div 2" by presburger
    then show ?thesis unfolding bit_xor_iff bit_get_odd bit_get_even v by blast
  qed
  have "?x \<noteq> 0xFFF"
  proof
    assume "?x = 0xFFF"
    then have "bit ?x k" if "k < 12" for k using that bit_0xFFF [of k] by metis
    from this [of 0] this [of 1] show False unfolding x by simp
  qed
  then show ?thesis by (simp add: nand_ecc_correction_def Let_def v_def w_def)
qed

theorem ecc_bit_of_code_witness:
  "nand_ecc_correction (replicate 512 0) (hamming (replicate 512 0) XOR push_bit 5 1)
     (hamming (replicate 512 0)) = Some (1, replicate 512 0)"
  using ecc_bit_of_code [of "replicate 512 0" 5 hamming] by simp

end
