(* ===== verification/Nand.thy ===== *)
theory Nand
  imports Nand_Ecc
begin

text \<open>
  The NAND flash driver \<open>nand.c\<close>. The memory controller is the parameter \<open>bus\<close>: byte and word
  accesses to the command, address and data windows, the ready line, the code unit and the
  delays, acting on a hardware state of any type. Loops that poll with a counter run at most as
  often as the source says; the loop that waits for the FIFO has no counter and is a partial
  function. An access outside an array is \<open>None\<close>. Diagnostic prints are left out.
\<close>

record 's fmc =
  fmc_cmd :: "u8 \<Rightarrow> 's \<Rightarrow> 's"
  fmc_addr :: "u8 \<Rightarrow> 's \<Rightarrow> 's"
  fmc_out :: "u8 \<Rightarrow> 's \<Rightarrow> 's"
  fmc_in :: "'s \<Rightarrow> u8 \<times> 's"
  fmc_out32 :: "u32 \<Rightarrow> 's \<Rightarrow> 's"
  fmc_in32 :: "'s \<Rightarrow> u32 \<times> 's"
  fmc_rb :: "'s \<Rightarrow> u8 \<times> 's"
  fmc_ecc_enable :: "bool \<Rightarrow> 's \<Rightarrow> 's"
  fmc_fifo_empty :: "'s \<Rightarrow> bool \<times> 's"
  fmc_eccr :: "'s \<Rightarrow> u32 \<times> 's"
  fmc_delay_us :: "nat \<Rightarrow> 's \<Rightarrow> 's"
  fmc_delay_ms :: "nat \<Rightarrow> 's \<Rightarrow> 's"

text \<open>The driver's structure and the hardware; \<open>lut\<close> is the table at the address \<open>lut_ptr\<close>.\<close>

record 's nand =
  page_totalsize :: u16
  page_mainsize :: u16
  page_sparesize :: u16
  block_pagenum :: u8
  plane_blocknum :: u16
  block_totalnum :: u16
  good_blocknum :: u16
  valid_blocknum :: u16
  nand_id :: u32
  lut_ptr :: u32
  lut :: "u16 list"
  ecc_hdbuf :: "u32 list"
  ecc_rdbuf :: "u32 list"
  nhw :: 's

definition NAND_ECC_SECTOR_SIZE :: nat where "NAND_ECC_SECTOR_SIZE = 512"
definition NSTA_READY :: u8 where "NSTA_READY = 0x40"
definition NSTA_ERROR :: u8 where "NSTA_ERROR = 0x01"
definition NSTA_TIMEOUT :: u8 where "NSTA_TIMEOUT = 0x02"
definition NSTA_ECC1BITERR :: u8 where "NSTA_ECC1BITERR = 0x03"
definition NSTA_ECC2BITERR :: u8 where "NSTA_ECC2BITERR = 0x04"
definition MT29F4G08ABADA :: u32 where "MT29F4G08ABADA = 0xDC909556"
definition MT29F16G08ABABA :: u32 where "MT29F16G08ABABA = 0x48002689"

section \<open>Status and identification\<close>

fun nand_delay :: "nat \<Rightarrow> 's \<Rightarrow> 's" where
  "nand_delay 0 s = s"
| "nand_delay (Suc i) s = nand_delay i s"

definition nand_readstatus :: "'s fmc \<Rightarrow> 's \<Rightarrow> u8 \<times> 's" where
  "nand_readstatus bus s = fmc_in bus (nand_delay 25 (fmc_cmd bus 0x70 s))"

fun ready_loop :: "'s fmc \<Rightarrow> nat \<Rightarrow> 's \<Rightarrow> u8 \<times> 's" where
  "ready_loop bus 0 s = (NSTA_TIMEOUT, s)"
| "ready_loop bus (Suc k) s =
     (case nand_readstatus bus s of (status, s') \<Rightarrow>
        if status AND NSTA_READY \<noteq> 0 then (NSTA_READY, s') else ready_loop bus k s')"

definition nand_wait_for_ready :: "'s fmc \<Rightarrow> 's \<Rightarrow> u8 \<times> 's" where
  "nand_wait_for_ready bus s = ready_loop bus 0x1FFFFFFF s"

definition nand_modeset :: "'s fmc \<Rightarrow> u8 \<Rightarrow> 's \<Rightarrow> u8 \<times> 's" where
  "nand_modeset bus mode s0 =
     (let s1 = fmc_addr bus 0x01 (fmc_cmd bus 0xEF s0);
          s2 = fmc_out bus 0 (fmc_out bus 0 (fmc_out bus 0 (fmc_out bus mode s1)));
          (sta, s3) = nand_wait_for_ready bus s2
      in (if sta = NSTA_READY then 0 else 1, s3))"

definition nand_readid :: "'s fmc \<Rightarrow> 's \<Rightarrow> u32 \<times> 's" where
  "nand_readid bus s0 =
     (let s1 = fmc_addr bus 0x00 (fmc_cmd bus 0x90 s0);
          (d0, s2) = fmc_in bus s1;
          (d1, s3) = fmc_in bus s2;
          (d2, s4) = fmc_in bus s3;
          (d3, s5) = fmc_in bus s4;
          (d4, s6) = fmc_in bus s5
      in (push_bit 24 (ucast d1) OR push_bit 16 (ucast d2) OR push_bit 8 (ucast d3) OR ucast d4, s6))"

definition nand_reset :: "'s fmc \<Rightarrow> 's \<Rightarrow> u8 \<times> 's" where
  "nand_reset bus s0 =
     (let (sta, s1) = nand_wait_for_ready bus (fmc_cmd bus 0xFF s0)
      in (if sta = NSTA_READY then 0 else 1, s1))"

fun waitrb_loop :: "'s fmc \<Rightarrow> nat \<Rightarrow> u8 \<Rightarrow> 's \<Rightarrow> u8 \<times> 's" where
  "waitrb_loop bus 0 rb s = (1, s)"
| "waitrb_loop bus (Suc k) rb s =
     (case fmc_rb bus s of (level, s') \<Rightarrow> if level = rb then (0, s') else waitrb_loop bus k rb s')"

definition nand_waitrb :: "'s fmc \<Rightarrow> u8 \<Rightarrow> 's \<Rightarrow> u8 \<times> 's" where
  "nand_waitrb bus rb s = waitrb_loop bus 0x1FFFFFF rb s"

text \<open>The initialisation after the controller has been set up.\<close>

definition nand_init :: "'s fmc \<Rightarrow> 's nand \<Rightarrow> u8 \<times> 's nand" where
  "nand_init bus n =
     (let s1 = fmc_delay_ms bus 100 (snd (nand_reset bus (nhw n)));
          (i, s2) = nand_readid bus s1;
          s3 = snd (nand_modeset bus 4 s2);
          n1 = n\<lparr>nand_id := i, nhw := s3\<rparr>
      in if i = MT29F16G08ABABA then
           (0, n1\<lparr>page_totalsize := 4320, page_mainsize := 4096, page_sparesize := 224,
                  block_pagenum := 128, plane_blocknum := 2048, block_totalnum := 4096\<rparr>)
         else if i = MT29F4G08ABADA then
           (0, n1\<lparr>page_totalsize := 2112, page_mainsize := 2048, page_sparesize := 64,
                  block_pagenum := 64, plane_blocknum := 2048, block_totalnum := 4096\<rparr>)
         else (1, n1))"

section \<open>Pages\<close>

definition page_address :: "'s fmc \<Rightarrow> u16 \<Rightarrow> u32 \<Rightarrow> 's \<Rightarrow> 's" where
  "page_address bus colnum pagenum s0 =
     (let s1 = fmc_addr bus (ucast colnum) s0;
          s2 = fmc_addr bus (ucast (drop_bit 8 colnum)) s1;
          s3 = fmc_addr bus (ucast pagenum) s2;
          s4 = fmc_addr bus (ucast (drop_bit 8 pagenum)) s3
      in fmc_addr bus (ucast (drop_bit 16 pagenum)) s4)"

text \<open>Waiting for the ready line to fall and to rise; an error code or zero.\<close>

definition wait_pulse :: "'s fmc \<Rightarrow> 's \<Rightarrow> u8 \<times> 's" where
  "wait_pulse bus s0 =
     (let (r0, s1) = nand_waitrb bus 0 s0
      in if r0 \<noteq> 0 then (NSTA_TIMEOUT, s1)
         else let (r1, s2) = nand_waitrb bus 1 s1
              in if r1 \<noteq> 0 then (NSTA_TIMEOUT, s2) else (0, s2))"

fun in_bytes :: "'s fmc \<Rightarrow> nat \<Rightarrow> 's \<Rightarrow> u8 list \<times> 's" where
  "in_bytes bus 0 s = ([], s)"
| "in_bytes bus (Suc k) s =
     (case fmc_in bus s of (b, s1) \<Rightarrow> case in_bytes bus k s1 of (bs, s2) \<Rightarrow> (b # bs, s2))"

fun out_bytes :: "'s fmc \<Rightarrow> u8 list \<Rightarrow> nat \<Rightarrow> 's \<Rightarrow> 's option" where
  "out_bytes bus pbuffer 0 s = Some s"
| "out_bytes bus pbuffer (Suc k) s =
     (case pbuffer of [] \<Rightarrow> None | b # bs \<Rightarrow> out_bytes bus bs k (fmc_out bus b s))"

partial_function (option) wait_fifo :: "'s fmc \<Rightarrow> 's \<Rightarrow> 's option" where
  "wait_fifo bus s =
     (case fmc_fifo_empty bus s of (e, s') \<Rightarrow> if e then Some s' else wait_fifo bus s')"

declare wait_fifo.simps [code]

text \<open>Reading sectors with the code unit on; codes go to \<open>ecc_hdbuf\<close> from index \<open>j\<close> on.\<close>

fun in_sectors :: "'s fmc \<Rightarrow> nat \<Rightarrow> nat \<Rightarrow> u32 list \<Rightarrow> 's \<Rightarrow> (u8 list \<times> u32 list \<times> 's) option" where
  "in_sectors bus 0 j hdbuf s = Some ([], hdbuf, s)"
| "in_sectors bus (Suc k) j hdbuf s =
     (case in_bytes bus NAND_ECC_SECTOR_SIZE (fmc_ecc_enable bus True s) of (bs, s1) \<Rightarrow> do {
        s2 \<leftarrow> wait_fifo bus s1;
        let (v, s3) = fmc_eccr bus s2;
        hdbuf' \<leftarrow> arr_set hdbuf j v;
        (cs, hdbuf'', s4) \<leftarrow> in_sectors bus k (Suc j) hdbuf' (fmc_ecc_enable bus False s3);
        Some (bs @ cs, hdbuf'', s4)
      })"

fun word_le :: "u8 list \<Rightarrow> u32" where
  "word_le [] = 0"
| "word_le (b # bs) = ucast b OR push_bit 8 (word_le bs)"

fun in_codes :: "'s fmc \<Rightarrow> nat \<Rightarrow> nat \<Rightarrow> u32 list \<Rightarrow> 's \<Rightarrow> (u32 list \<times> 's) option" where
  "in_codes bus 0 j rdbuf s = Some (rdbuf, s)"
| "in_codes bus (Suc k) j rdbuf s =
     (case in_bytes bus 4 s of (bs, s1) \<Rightarrow> do {
        rdbuf' \<leftarrow> arr_set rdbuf j (word_le bs);
        in_codes bus k (Suc j) rdbuf' s1
      })"

text \<open>The comparison of the codes, sector \<open>i\<close> of the data with the codes at index \<open>i + start\<close>.\<close>

fun check_codes :: "nat \<Rightarrow> nat \<Rightarrow> nat \<Rightarrow> u32 list \<Rightarrow> u32 list \<Rightarrow> u8 list \<Rightarrow> u8 \<Rightarrow> (u8 list \<times> u8) option" where
  "check_codes start i 0 rds hds data errsta = Some (data, errsta)"
| "check_codes start i (Suc k) rds hds data errsta = do {
     r \<leftarrow> arr_get rds (i + start);
     h \<leftarrow> arr_get hds (i + start);
     if r \<noteq> h then do {
       (res, part) \<leftarrow> nand_ecc_correction (drop (NAND_ECC_SECTOR_SIZE * i) data) r h;
       check_codes start (Suc i) k rds hds (take (NAND_ECC_SECTOR_SIZE * i) data @ part)
         (if res \<noteq> 0 then NSTA_ECC2BITERR else NSTA_ECC1BITERR)
     }
     else check_codes start (Suc i) k rds hds data errsta
   }"

text \<open>The code, the bytes stored to \<open>pbuffer\<close>, and the state.\<close>

definition nand_readpage ::
  "'s fmc \<Rightarrow> u32 \<Rightarrow> u16 \<Rightarrow> u16 \<Rightarrow> 's nand \<Rightarrow> (u8 \<times> u8 list \<times> 's nand) option" where
  "nand_readpage bus pagenum colnum numbyte_to_read n =
     (let s1 = fmc_cmd bus 0x30 (page_address bus colnum pagenum (fmc_cmd bus 0x00 (nhw n)));
          (res, s2) = wait_pulse bus s1
      in if res \<noteq> 0 then Some (NSTA_TIMEOUT, [], n\<lparr>nhw := s2\<rparr>)
         else do {
           (data, errsta, n1) \<leftarrow>
             (if unat numbyte_to_read mod NAND_ECC_SECTOR_SIZE \<noteq> 0 then
                (case in_bytes bus (unat numbyte_to_read) s2 of (bs, s3) \<Rightarrow> Some (bs, 0, n\<lparr>nhw := s3\<rparr>))
              else do {
                let eccnum = unat numbyte_to_read div NAND_ECC_SECTOR_SIZE;
                let eccstart = unat colnum div NAND_ECC_SECTOR_SIZE;
                (bs, hdbuf, s3) \<leftarrow> in_sectors bus eccnum eccstart (ecc_hdbuf n) s2;
                let i = page_mainsize n + 0x10 + of_nat eccstart * 4;
                let s4 = fmc_cmd bus 0x05 (nand_delay 35 s3);
                let s5 = fmc_addr bus (ucast (drop_bit 8 i)) (fmc_addr bus (ucast i) s4);
                let s6 = nand_delay 25 (fmc_cmd bus 0xE0 s5);
                (rdbuf, s7) \<leftarrow> in_codes bus eccnum eccstart (ecc_rdbuf n) s6;
                (bs', errsta) \<leftarrow> check_codes eccstart 0 eccnum rdbuf hdbuf bs 0;
                Some (bs', errsta, n\<lparr>ecc_hdbuf := hdbuf, ecc_rdbuf := rdbuf, nhw := s7\<rparr>)
              });
           let (sta, s8) = nand_wait_for_ready bus (nhw n1);
           Some (if sta \<noteq> NSTA_READY then NSTA_ERROR else errsta, data, n1\<lparr>nhw := s8\<rparr>)
         })"

text \<open>The comparison loop: the number of words equal to \<open>cmpval\<close> from the start on.\<close>

fun compare_words :: "'s fmc \<Rightarrow> u32 \<Rightarrow> nat \<Rightarrow> 's \<Rightarrow> nat \<times> 's" where
  "compare_words bus cmpval 0 s = (0, s)"
| "compare_words bus cmpval (Suc k) s =
     (case fmc_in32 bus s of (v, s1) \<Rightarrow>
        if v \<noteq> cmpval then (0, s1)
        else case compare_words bus cmpval k s1 of (i, s2) \<Rightarrow> (Suc i, s2))"

text \<open>The code, \<open>*numbyte_equal\<close> (not written on a timeout), and the state.\<close>

definition nand_readpagecomp ::
  "'s fmc \<Rightarrow> u32 \<Rightarrow> u16 \<Rightarrow> u32 \<Rightarrow> u16 \<Rightarrow> 's nand \<Rightarrow> u8 \<times> u16 option \<times> 's nand" where
  "nand_readpagecomp bus pagenum colnum cmpval numbyte_to_read n =
     (let s1 = fmc_cmd bus 0x30 (page_address bus colnum pagenum (fmc_cmd bus 0x00 (nhw n)));
          (res, s2) = wait_pulse bus s1
      in if res \<noteq> 0 then (NSTA_TIMEOUT, None, n\<lparr>nhw := s2\<rparr>)
         else let (i, s3) = compare_words bus cmpval (unat numbyte_to_read) s2;
                  (sta, s4) = nand_wait_for_ready bus s3
              in (if sta \<noteq> NSTA_READY then NSTA_ERROR else 0, Some (of_nat i), n\<lparr>nhw := s4\<rparr>))"

text \<open>Writing the data of a page, with or without codes; shared by the two routines that do so.\<close>

fun out_sectors :: "'s fmc \<Rightarrow> u8 list \<Rightarrow> nat \<Rightarrow> nat \<Rightarrow> u32 list \<Rightarrow> 's \<Rightarrow> (u32 list \<times> 's) option" where
  "out_sectors bus pbuffer 0 j hdbuf s = Some (hdbuf, s)"
| "out_sectors bus pbuffer (Suc k) j hdbuf s = do {
     s1 \<leftarrow> out_bytes bus pbuffer NAND_ECC_SECTOR_SIZE (fmc_ecc_enable bus True s);
     s2 \<leftarrow> wait_fifo bus s1;
     let (v, s3) = fmc_eccr bus s2;
     hdbuf' \<leftarrow> arr_set hdbuf j v;
     out_sectors bus (drop NAND_ECC_SECTOR_SIZE pbuffer) k (Suc j) hdbuf' (fmc_ecc_enable bus False s3)
   }"

fun code_bytes :: "nat \<Rightarrow> u32 \<Rightarrow> u8 list" where
  "code_bytes 0 v = []"
| "code_bytes (Suc k) v = ucast v # code_bytes k (drop_bit 8 v)"

fun out_codes :: "'s fmc \<Rightarrow> nat \<Rightarrow> nat \<Rightarrow> u32 list \<Rightarrow> 's \<Rightarrow> 's option" where
  "out_codes bus 0 j hdbuf s = Some s"
| "out_codes bus (Suc k) j hdbuf s = do {
     v \<leftarrow> arr_get hdbuf j;
     s1 \<leftarrow> out_bytes bus (code_bytes 4 v) 4 s;
     out_codes bus k (Suc j) hdbuf s1
   }"

definition write_data :: "'s fmc \<Rightarrow> u16 \<Rightarrow> u8 list \<Rightarrow> u16 \<Rightarrow> 's nand \<Rightarrow> 's \<Rightarrow> 's nand option" where
  "write_data bus colnum pbuffer numbyte_to_write n s0 =
     (if unat numbyte_to_write mod NAND_ECC_SECTOR_SIZE \<noteq> 0 then do {
        s1 \<leftarrow> out_bytes bus pbuffer (unat numbyte_to_write) s0;
        Some (n\<lparr>nhw := s1\<rparr>)
      }
      else do {
        let eccnum = unat numbyte_to_write div NAND_ECC_SECTOR_SIZE;
        let eccstart = unat colnum div NAND_ECC_SECTOR_SIZE;
        (hdbuf, s1) \<leftarrow> out_sectors bus pbuffer eccnum eccstart (ecc_hdbuf n) s0;
        let i = page_mainsize n + 0x10 + of_nat eccstart * 4;
        let s2 = fmc_cmd bus 0x85 (nand_delay 30 s1);
        let s3 = nand_delay 30 (fmc_addr bus (ucast (drop_bit 8 i)) (fmc_addr bus (ucast i) s2));
        s4 \<leftarrow> out_codes bus eccnum eccstart hdbuf s3;
        Some (n\<lparr>ecc_hdbuf := hdbuf, nhw := s4\<rparr>)
      })"

text \<open>The confirmation of a program operation.\<close>

definition program_confirm :: "'s fmc \<Rightarrow> 's nand \<Rightarrow> u8 \<times> 's nand" where
  "program_confirm bus n =
     (let (sta, s) = nand_wait_for_ready bus (fmc_delay_us bus 200 (fmc_cmd bus 0x10 (nhw n)))
      in (if sta \<noteq> NSTA_READY then NSTA_ERROR else 0, n\<lparr>nhw := s\<rparr>))"

definition nand_writepage ::
  "'s fmc \<Rightarrow> u32 \<Rightarrow> u16 \<Rightarrow> u8 list \<Rightarrow> u16 \<Rightarrow> 's nand \<Rightarrow> (u8 \<times> 's nand) option" where
  "nand_writepage bus pagenum colnum pbuffer numbyte_to_write n =
     (let s1 = nand_delay 30 (page_address bus colnum pagenum (fmc_cmd bus 0x80 (nhw n)))
      in map_option (program_confirm bus) (write_data bus colnum pbuffer numbyte_to_write n s1))"

definition nand_write_pageconst ::
  "'s fmc \<Rightarrow> u32 \<Rightarrow> u16 \<Rightarrow> u32 \<Rightarrow> u16 \<Rightarrow> 's nand \<Rightarrow> u8 \<times> 's nand" where
  "nand_write_pageconst bus pagenum colnum cval numbyte_to_write n =
     (let s1 = nand_delay 30 (page_address bus colnum pagenum (fmc_cmd bus 0x80 (nhw n)));
          s2 = (fmc_out32 bus cval ^^ unat numbyte_to_write) s1
      in program_confirm bus (n\<lparr>nhw := s2\<rparr>))"

text \<open>The first half of a copy inside the chip, up to the address of the destination page.\<close>

definition same_plane :: "u32 \<Rightarrow> u32 \<Rightarrow> 's nand \<Rightarrow> bool option" where
  "same_plane source_pagenum dest_pagenum n =
     (if block_pagenum n = 0 then None
      else
        let source_block = (ucast (source_pagenum div ucast (block_pagenum n)) :: u16);
            dest_block = (ucast (dest_pagenum div ucast (block_pagenum n)) :: u16)
        in Some (source_block mod 2 = dest_block mod 2))"

definition nand_copypage_withoutwrite :: "'s fmc \<Rightarrow> u32 \<Rightarrow> u32 \<Rightarrow> 's nand \<Rightarrow> (u8 \<times> 's nand) option" where
  "nand_copypage_withoutwrite bus source_pagenum dest_pagenum n = do {
     same \<leftarrow> same_plane source_pagenum dest_pagenum n;
     Some (if \<not> same then (NSTA_ERROR, n)
      else
        let s1 = fmc_cmd bus 0x35 (page_address bus 0 source_pagenum (fmc_cmd bus 0x00 (nhw n)));
            (res, s2) = wait_pulse bus s1
        in if res \<noteq> 0 then (NSTA_TIMEOUT, n\<lparr>nhw := s2\<rparr>)
           else program_confirm bus (n\<lparr>nhw := page_address bus 0 dest_pagenum (fmc_cmd bus 0x85 s2)\<rparr>))
   }"

definition nand_copypage_withwrite ::
  "'s fmc \<Rightarrow> u32 \<Rightarrow> u32 \<Rightarrow> u16 \<Rightarrow> u8 list \<Rightarrow> u16 \<Rightarrow> 's nand \<Rightarrow> (u8 \<times> 's nand) option" where
  "nand_copypage_withwrite bus source_pagenum dest_pagenum colnum pbuffer numbyte_to_write n = do {
     same \<leftarrow> same_plane source_pagenum dest_pagenum n;
     (if \<not> same then Some (NSTA_ERROR, n)
      else
        let s1 = fmc_cmd bus 0x35 (page_address bus 0 source_pagenum (fmc_cmd bus 0x00 (nhw n)));
            (res, s2) = wait_pulse bus s1
        in if res \<noteq> 0 then Some (NSTA_TIMEOUT, n\<lparr>nhw := s2\<rparr>)
           else
             let s3 = nand_delay 30 (page_address bus colnum dest_pagenum (fmc_cmd bus 0x85 s2))
             in map_option (program_confirm bus) (write_data bus colnum pbuffer numbyte_to_write n s3))
   }"

section \<open>Spare area and blocks\<close>

definition spare_length :: "u16 \<Rightarrow> u16 \<Rightarrow> 's nand \<Rightarrow> u16" where
  "spare_length colnum numbyte n =
     (let remainbyte = (ucast (page_sparesize n - colnum) :: u8)
      in if numbyte > ucast remainbyte then ucast remainbyte else numbyte)"

definition nand_readspare ::
  "'s fmc \<Rightarrow> u32 \<Rightarrow> u16 \<Rightarrow> u16 \<Rightarrow> 's nand \<Rightarrow> (u8 \<times> u8 list \<times> 's nand) option" where
  "nand_readspare bus pagenum colnum numbyte_to_read n =
     nand_readpage bus pagenum (colnum + page_mainsize n) (spare_length colnum numbyte_to_read n) n"

definition nand_writespare ::
  "'s fmc \<Rightarrow> u32 \<Rightarrow> u16 \<Rightarrow> u8 list \<Rightarrow> u16 \<Rightarrow> 's nand \<Rightarrow> (u8 \<times> 's nand) option" where
  "nand_writespare bus pagenum colnum pbuffer numbyte_to_write n =
     nand_writepage bus pagenum (colnum + page_mainsize n) pbuffer (spare_length colnum numbyte_to_write n) n"

definition nand_eraseblock :: "'s fmc \<Rightarrow> u32 \<Rightarrow> 's nand \<Rightarrow> u8 \<times> 's nand" where
  "nand_eraseblock bus blocknum0 n =
     (let blocknum = (if nand_id n = MT29F16G08ABABA then push_bit 7 blocknum0
                      else if nand_id n = MT29F4G08ABADA then push_bit 6 blocknum0 else blocknum0);
          s1 = fmc_cmd bus 0x60 (nhw n);
          s2 = fmc_addr bus (ucast blocknum) s1;
          s3 = fmc_addr bus (ucast (drop_bit 8 blocknum)) s2;
          s4 = fmc_addr bus (ucast (drop_bit 16 blocknum)) s3;
          s5 = fmc_delay_ms bus 4 (fmc_cmd bus 0xD0 s4);
          (sta, s6) = nand_wait_for_ready bus s5
      in (if sta \<noteq> NSTA_READY then NSTA_ERROR else 0, n\<lparr>nhw := s6\<rparr>))"

fun erase_blocks :: "'s fmc \<Rightarrow> nat \<Rightarrow> u16 \<Rightarrow> 's nand \<Rightarrow> 's nand" where
  "erase_blocks bus 0 i n = n"
| "erase_blocks bus (Suc k) i n = erase_blocks bus k (i + 1) (snd (nand_eraseblock bus (ucast i) n))"

definition nand_erasechip :: "'s fmc \<Rightarrow> 's nand \<Rightarrow> 's nand" where
  "nand_erasechip bus n = erase_blocks bus (unat (block_totalnum n)) 0 n"

end
