(* ===== verification/Ftl.thy ===== *)
theory Ftl
  imports Nand Malloc
begin

text \<open>
  The block translation layer \<open>ftl.c\<close> on top of the NAND driver. Its state is the driver's
  structure with the logical-to-physical table \<open>lut\<close>, the static variable of
  \<open>ftl_find_same_plane_unused_block\<close>, and the allocator the table comes from. A buffer that a
  read leaves untouched keeps its contents; reading a byte of it that was never written, an
  access outside an array and a division by zero are \<open>None\<close>. The loops that end only when the
  chip stops failing are partial functions. Diagnostic prints are left out.
\<close>

record 's ftl =
  dev :: "'s nand"
  curblock :: u32
  pool :: heap

definition NO_BLOCK :: u32 where "NO_BLOCK = 0xFFFFFFFF"

text \<open>What a read leaves in its buffer.\<close>

definition stored :: "u8 list \<Rightarrow> u8 list \<Rightarrow> u8 list" where
  "stored bs buf = bs @ drop (length bs) buf"

text \<open>The page with offset \<open>i\<close> in a block.\<close>

definition page_of :: "'s nand \<Rightarrow> u32 \<Rightarrow> u32 \<Rightarrow> u32" where
  "page_of n blocknum i = blocknum * ucast (block_pagenum n) + i"

section \<open>Marks of blocks\<close>

definition ftl_badblock_mark :: "'s fmc \<Rightarrow> u32 \<Rightarrow> 's nand \<Rightarrow> 's nand option" where
  "ftl_badblock_mark bus blocknum n = do {
     let temp = replicate 4 0xAA;
     (_, n1) \<leftarrow> nand_writespare bus (page_of n blocknum 0) 0 temp 4 n;
     (_, n2) \<leftarrow> nand_writespare bus (page_of n1 blocknum 1) 0 temp 4 n1;
     Some n2
   }"

definition ftl_check_badblock :: "'s fmc \<Rightarrow> u32 \<Rightarrow> 's nand \<Rightarrow> (u8 \<times> 's nand) option" where
  "ftl_check_badblock bus blocknum n = do {
     (_, bs, n1) \<leftarrow> nand_readspare bus (page_of n blocknum 0) 0 1 n;
     flag \<leftarrow> arr_get (stored bs [0]) 0;
     if flag = 0xFF then do {
       (_, cs, n2) \<leftarrow> nand_readspare bus (page_of n1 blocknum 1) 0 1 n1;
       flag' \<leftarrow> arr_get (stored cs [flag]) 0;
       Some (if flag' = 0xFF then 0 else 1, n2)
     }
     else Some (2, n1)
   }"

definition ftl_used_blockmark :: "'s fmc \<Rightarrow> u32 \<Rightarrow> 's nand \<Rightarrow> (u8 \<times> 's nand) option" where
  "ftl_used_blockmark bus blocknum n = nand_writespare bus (page_of n blocknum 0) 1 [0xCC] 1 n"

section \<open>Unused blocks\<close>

text \<open>The search from \<open>blocknum - 1\<close> down; \<open>temp\<close> is the word the spare bytes are read into.\<close>

fun unused_loop :: "'s fmc \<Rightarrow> u8 \<Rightarrow> u8 list \<Rightarrow> nat \<Rightarrow> 's nand \<Rightarrow> (u32 \<times> 's nand) option" where
  "unused_loop bus flag temp 0 n = Some (NO_BLOCK, n)"
| "unused_loop bus flag temp (Suc k) n =
     (if k mod 2 = unat flag then do {
        (_, bs, n1) \<leftarrow> nand_readspare bus (page_of n (of_nat k) 0) 0 4 n;
        let temp' = stored bs temp;
        if temp' = replicate 4 0xFF then Some (of_nat k, n1) else unused_loop bus flag temp' k n1
      }
      else unused_loop bus flag temp k n)"

definition ftl_find_unused_block :: "'s fmc \<Rightarrow> u32 \<Rightarrow> u8 \<Rightarrow> 's nand \<Rightarrow> (u32 \<times> 's nand) option" where
  "ftl_find_unused_block bus sblock flag n =
     unused_loop bus flag (replicate 4 0) (unat (sblock + 1)) n"

definition ftl_find_same_plane_unused_block :: "'s fmc \<Rightarrow> u32 \<Rightarrow> 's ftl \<Rightarrow> (u32 \<times> 's ftl) option" where
  "ftl_find_same_plane_unused_block bus sblock f =
     (let last_block = ucast (block_totalnum (dev f)) - 1;
          flag = ucast (sblock mod 2);
          cur = (if curblock f > last_block then last_block else curblock f)
      in do {
        (unusedblock, n1) \<leftarrow> ftl_find_unused_block bus cur flag (dev f);
        (unusedblock', cur', n2) \<leftarrow>
          (if unusedblock = NO_BLOCK \<and> cur < last_block
           then map_option (\<lambda>(u, n2). (u, last_block, n2)) (ftl_find_unused_block bus last_block flag n1)
           else Some (unusedblock, cur, n1));
        if unusedblock' = NO_BLOCK then Some (NO_BLOCK, f\<lparr>dev := n2, curblock := cur'\<rparr>)
        else Some (unusedblock', f\<lparr>dev := n2, curblock := unusedblock'\<rparr>)
      })"

section \<open>The table\<close>

text \<open>The scan of the spare areas; \<open>buf\<close> holds the bytes of \<open>buf[4]\<close> written so far.\<close>

definition lut_read :: "'s fmc \<Rightarrow> u8 \<Rightarrow> u8 list \<Rightarrow> u32 \<Rightarrow> 's nand \<Rightarrow> (u8 list \<times> 's nand) option" where
  "lut_read bus mode buf i n = do {
     (_, bs, n1) \<leftarrow> nand_readspare bus (page_of n i 0) 0 4 n;
     let buf1 = stored bs buf;
     b0 \<leftarrow> arr_get buf1 0;
     if b0 = 0xFF \<and> mode \<noteq> 0 then do {
       (_, cs, n2) \<leftarrow> nand_readspare bus (page_of n1 i 1) 0 1 n1;
       Some (stored cs buf1, n2)
     }
     else Some (buf1, n1)
   }"

definition lut_block :: "'s fmc \<Rightarrow> u8 \<Rightarrow> u8 list \<Rightarrow> u32 \<Rightarrow> 's nand \<Rightarrow> (u8 list \<times> 's nand) option" where
  "lut_block bus mode buf i n = do {
     (buf2, n2) \<leftarrow> lut_read bus mode buf i n;
     b0 \<leftarrow> arr_get buf2 0;
     if b0 = 0xFF then do {
       b3 \<leftarrow> arr_get buf2 3;
       b2 \<leftarrow> arr_get buf2 2;
       let lbnnum = (push_bit 8 (ucast b3) + ucast b2 :: u32);
       n3 \<leftarrow>
         (if lbnnum < ucast (block_totalnum n2) then do {
            t \<leftarrow> arr_set (lut n2) (unat lbnnum) (ucast i);
            Some (n2\<lparr>lut := t\<rparr>)
          }
          else Some n2);
       Some (buf2, n3\<lparr>good_blocknum := good_blocknum n3 + 1\<rparr>)
     }
     else Some (buf2, n2)
   }"

fun lut_scan :: "'s fmc \<Rightarrow> u8 \<Rightarrow> u8 list \<Rightarrow> nat \<Rightarrow> nat \<Rightarrow> 's nand \<Rightarrow> 's nand option" where
  "lut_scan bus mode buf i 0 n = Some n"
| "lut_scan bus mode buf i (Suc k) n = do {
     (buf', n') \<leftarrow> lut_block bus mode buf (of_nat i) n;
     lut_scan bus mode buf' (Suc i) k n'
   }"

text \<open>The first entry that names no block; \<open>None\<close> inside when every entry names one.\<close>

fun first_invalid :: "u16 \<Rightarrow> u16 list \<Rightarrow> nat \<Rightarrow> nat \<Rightarrow> nat option option" where
  "first_invalid lim t i 0 = Some None"
| "first_invalid lim t i (Suc k) = do {
     v \<leftarrow> arr_get t i;
     if v \<ge> lim then Some (Some i) else first_invalid lim t (Suc i) k
   }"

definition ftl_create_lut :: "'s fmc \<Rightarrow> u8 \<Rightarrow> 's nand \<Rightarrow> (u8 \<times> 's nand) option" where
  "ftl_create_lut bus mode n = do {
     let count = unat (block_totalnum n);
     t \<leftarrow> arr_fill (lut n) 0 count 0xFFFF;
     n1 \<leftarrow> lut_scan bus mode [] 0 count (n\<lparr>lut := t, good_blocknum := 0\<rparr>);
     v \<leftarrow> first_invalid (block_totalnum n1) (lut n1) 0 count;
     let n2 = (case v of None \<Rightarrow> n1 | Some i \<Rightarrow> n1\<lparr>valid_blocknum := of_nat i\<rparr>);
     Some (if valid_blocknum n2 < 100 then 2 else 0, n2)
   }"

definition ftl_lbn_to_pbn :: "u32 \<Rightarrow> 's nand \<Rightarrow> u16 option" where
  "ftl_lbn_to_pbn lbnnum n =
     (if lbnnum > ucast (valid_blocknum n) then Some 0xFFFF else arr_get (lut n) (unat lbnnum))"

section \<open>Moving a block\<close>

text \<open>
  The pages from offset \<open>i\<close> on, \<open>k\<close> of them. The result is the code of the first page that
  failed, or zero, with what is left to be written: the column, the buffer and the length.
\<close>

fun copy_pages ::
  "'s fmc \<Rightarrow> u32 \<Rightarrow> u32 \<Rightarrow> u32 \<Rightarrow> nat \<Rightarrow> nat \<Rightarrow> u16 \<times> u8 list \<times> u32 \<Rightarrow> 's nand \<Rightarrow>
     (u8 \<times> (u16 \<times> u8 list \<times> u32) \<times> 's nand) option" where
  "copy_pages bus source unused pageoffset i 0 job n = Some (0, job, n)"
| "copy_pages bus source unused pageoffset i (Suc k) (colnum, pbuffer, numbyte) n = do {
     (temp, job', n1) \<leftarrow>
       (if of_nat i \<ge> pageoffset \<and> numbyte \<noteq> 0 then do {
          let left_in_page = page_mainsize n - colnum;
          let wrlen = (if numbyte > ucast (page_mainsize n) - ucast colnum then left_in_page else ucast numbyte);
          (temp, n1) \<leftarrow> nand_copypage_withwrite bus (page_of n source (of_nat i)) (page_of n unused (of_nat i))
            colnum pbuffer wrlen n;
          Some (temp, (0, drop (unat wrlen) pbuffer, numbyte - ucast wrlen), n1)
        }
        else do {
          (temp, n1) \<leftarrow> nand_copypage_withoutwrite bus (page_of n source (of_nat i)) (page_of n unused (of_nat i)) n;
          Some (temp, (colnum, pbuffer, numbyte), n1)
        });
     if temp \<noteq> 0 then Some (temp, job', n1)
     else copy_pages bus source unused pageoffset (Suc i) k job' n1
   }"

fun lut_replace :: "u32 \<Rightarrow> u32 \<Rightarrow> nat \<Rightarrow> nat \<Rightarrow> u16 list \<Rightarrow> u16 list option" where
  "lut_replace source unused i 0 t = Some t"
| "lut_replace source unused i (Suc k) t = do {
     v \<leftarrow> arr_get t i;
     if ucast v = source then arr_set t i (ucast unused) else lut_replace source unused (Suc i) k t
   }"

text \<open>The part from the label \<open>retry\<close> on.\<close>

partial_function (option) copy_retry ::
  "'s fmc \<Rightarrow> u32 \<Rightarrow> u32 \<Rightarrow> u16 \<times> u8 list \<times> u32 \<Rightarrow> 's ftl \<Rightarrow> (u8 \<times> 's ftl) option" where
  "copy_retry bus source_block pageoffset job f = do {
     (unusedblock, f1) \<leftarrow> ftl_find_same_plane_unused_block bus source_block f;
     if unusedblock > ucast (block_totalnum (dev f1)) then Some (1, f1)
     else do {
       (temp, job', n2) \<leftarrow> copy_pages bus source_block unusedblock pageoffset 0
         (unat (block_pagenum (dev f1))) job (dev f1);
       if temp \<noteq> 0 then do {
         n3 \<leftarrow> ftl_badblock_mark bus unusedblock n2;
         (_, n4) \<leftarrow> ftl_create_lut bus 1 n3;
         copy_retry bus source_block pageoffset job' (f1\<lparr>dev := n4\<rparr>)
       }
       else do {
         (_, n3) \<leftarrow> ftl_used_blockmark bus unusedblock n2;
         let n4 = snd (nand_eraseblock bus source_block n3);
         t \<leftarrow> lut_replace source_block unusedblock 0 (unat (block_totalnum n4)) (lut n4);
         Some (0, f1\<lparr>dev := n4\<lparr>lut := t\<rparr>\<rparr>)
       }
     }
   }"

declare copy_retry.simps [code]

definition ftl_copy_and_write_to_block ::
  "'s fmc \<Rightarrow> u32 \<Rightarrow> u16 \<Rightarrow> u8 list \<Rightarrow> u32 \<Rightarrow> 's ftl \<Rightarrow> (u8 \<times> 's ftl) option" where
  "ftl_copy_and_write_to_block bus source_pagenum colnum pbuffer numbyte_to_write f =
     (let pages = ucast (block_pagenum (dev f))
      in if pages = 0 then None
         else copy_retry bus (source_pagenum div pages) (source_pagenum mod pages)
                (colnum, pbuffer, numbyte_to_write) f)"

section \<open>Sectors\<close>

text \<open>
  The position of a logical sector: its block, the offset in the block, the page and the offset
  in the page. A division by zero is \<open>None\<close>.
\<close>

definition sectors_per_block :: "u16 \<Rightarrow> 's nand \<Rightarrow> u32" where
  "sectors_per_block sectorsize n =
     ucast (block_pagenum n) * (ucast (page_mainsize n) div ucast sectorsize)"

definition sector_block :: "u32 \<Rightarrow> u16 \<Rightarrow> 's nand \<Rightarrow> u32 option" where
  "sector_block sectorno sectorsize n =
     (if sectorsize = 0 \<or> sectors_per_block sectorsize n = 0 then None
      else Some (sectorno div sectors_per_block sectorsize n))"

definition block_offset :: "u32 \<Rightarrow> u16 \<Rightarrow> 's nand \<Rightarrow> u32" where
  "block_offset sectorno sectorsize n = (sectorno mod sectors_per_block sectorsize n) * ucast sectorsize"

text \<open>
  One round of the write loop at sector \<open>i\<close>: the code to return, or the sectors written, the
  bytes of the buffer they took, the marked block and the state.
\<close>

definition write_round ::
  "'s fmc \<Rightarrow> u8 list \<Rightarrow> u32 \<Rightarrow> u16 \<Rightarrow> u32 \<Rightarrow> u32 \<Rightarrow> u32 \<Rightarrow> 's ftl \<Rightarrow>
     ((u8 + (u16 \<times> u32 \<times> u32)) \<times> 's ftl) option" where
  "write_round bus pbuffer sectorno sectorsize sectorcount i markdpbn f = do {
     lbnno \<leftarrow> sector_block (sectorno + i) sectorsize (dev f);
     p \<leftarrow> ftl_lbn_to_pbn lbnno (dev f);
     let pbnno = (ucast p :: u32);
     if pbnno \<ge> ucast (block_totalnum (dev f)) then Some (Inl 1, f)
     else do {
       let main = (ucast (page_mainsize (dev f)) :: u32);
       let blockoffset = block_offset (sectorno + i) sectorsize (dev f);
       let phypageno = page_of (dev f) pbnno (blockoffset div main);
       let pageoffset = blockoffset mod main;
       let temp = ucast (main - pageoffset) div sectorsize;
       let left = ucast (sectorcount - i);
       let wsecs = (if left \<ge> temp then temp else left);
       let wlen = (ucast wsecs * ucast sectorsize :: u32);
       let (flag, equal, n1) = nand_readpagecomp bus phypageno (ucast pageoffset) 0xFFFFFFFF (ucast (wlen div 4)) (dev f);
       if flag \<noteq> 0 then Some (Inl 2, f\<lparr>dev := n1\<rparr>)
       else do {
         (flag1, n2) \<leftarrow>
           (if ucast (case equal of Some e \<Rightarrow> e | None \<Rightarrow> temp) = wlen div 4
            then nand_writepage bus phypageno (ucast pageoffset) pbuffer (ucast wlen) n1
            else Some (1, n1));
         (flag2, markdpbn', n3) \<leftarrow>
           (if flag1 = 0 \<and> markdpbn \<noteq> pbnno
            then map_option (\<lambda>(fl, n3). (fl, pbnno, n3)) (ftl_used_blockmark bus pbnno n2)
            else Some (flag1, markdpbn, n2));
         if flag2 \<noteq> 0 then do {
           let temp2 = ucast ((ucast (block_pagenum n3) * main - blockoffset) div ucast sectorsize);
           let wsecs2 = (if left \<ge> temp2 then temp2 else left);
           let wlen2 = (ucast wsecs2 * ucast sectorsize :: u32);
           (flag3, f4) \<leftarrow> ftl_copy_and_write_to_block bus phypageno (ucast pageoffset) pbuffer wlen2 (f\<lparr>dev := n3\<rparr>);
           Some (if flag3 \<noteq> 0 then Inl 3 else Inr (wsecs2, wlen2, markdpbn'), f4)
         }
         else Some (Inr (wsecs, wlen, markdpbn'), f\<lparr>dev := n3\<rparr>)
       }
     }
   }"

partial_function (option) write_sectors_loop ::
  "'s fmc \<Rightarrow> u8 list \<Rightarrow> u32 \<Rightarrow> u16 \<Rightarrow> u32 \<Rightarrow> u32 \<Rightarrow> u32 \<Rightarrow> 's ftl \<Rightarrow> (u8 \<times> 's ftl) option" where
  "write_sectors_loop bus pbuffer sectorno sectorsize sectorcount i markdpbn f =
     (if i < sectorcount then do {
        (r, f1) \<leftarrow> write_round bus pbuffer sectorno sectorsize sectorcount i markdpbn f;
        (case r of
           Inl code \<Rightarrow> Some (code, f1)
         | Inr (wsecs, wlen, markdpbn') \<Rightarrow>
             write_sectors_loop bus (drop (unat wlen) pbuffer) sectorno sectorsize sectorcount
               (i + (ucast wsecs - 1) + 1) markdpbn' f1)
      }
      else Some (0, f))"

declare write_sectors_loop.simps [code]

definition ftl_write_sectors :: "'s fmc \<Rightarrow> u8 list \<Rightarrow> u32 \<Rightarrow> u16 \<Rightarrow> u32 \<Rightarrow> 's ftl \<Rightarrow> (u8 \<times> 's ftl) option" where
  "ftl_write_sectors bus pbuffer sectorno sectorsize sectorcount f =
     write_sectors_loop bus pbuffer sectorno sectorsize sectorcount 0 NO_BLOCK f"

text \<open>
  The comparison of a block with a constant. As the code does, each of its rounds reads the first
  page of the block. \<open>k\<close> is the counter the read stores to, nothing before the first store.
\<close>

fun compare_pages :: "'s fmc \<Rightarrow> u32 \<Rightarrow> u32 \<Rightarrow> nat \<Rightarrow> u16 option \<Rightarrow> 's nand \<Rightarrow> (bool \<times> u16 option \<times> 's nand) option" where
  "compare_pages bus blockx cmpval 0 k n = Some (True, k, n)"
| "compare_pages bus blockx cmpval (Suc j) k n =
     (let (_, equal, n1) = nand_readpagecomp bus (page_of n blockx 0) 0 cmpval (page_mainsize n div 4) n;
          k' = (case equal of None \<Rightarrow> k | Some e \<Rightarrow> Some e)
      in do {
        v \<leftarrow> k';
        if v \<noteq> page_mainsize n1 div 4 then Some (False, k', n1)
        else compare_pages bus blockx cmpval j k' n1
      })"

text \<open>Writing a constant to \<open>k\<close> pages of a block from offset \<open>j\<close> on.\<close>

fun fill_pages :: "'s fmc \<Rightarrow> u32 \<Rightarrow> u32 \<Rightarrow> nat \<Rightarrow> nat \<Rightarrow> 's nand \<Rightarrow> 's nand" where
  "fill_pages bus blockx cval j 0 n = n"
| "fill_pages bus blockx cval j (Suc k) n =
     fill_pages bus blockx cval (Suc j) k
       (snd (nand_write_pageconst bus (page_of n blockx (of_nat j)) 0 cval (page_mainsize n div 4) n))"

fun compare_tries :: "'s fmc \<Rightarrow> u32 \<Rightarrow> u32 \<Rightarrow> nat \<Rightarrow> u16 option \<Rightarrow> 's nand \<Rightarrow> (u8 \<times> 's nand) option" where
  "compare_tries bus blockx cmpval 0 k n = Some (1, n)"
| "compare_tries bus blockx cmpval (Suc i) k n = do {
     (equal, k1, n1) \<leftarrow> compare_pages bus blockx cmpval (unat (block_pagenum n)) k n;
     if equal then Some (0, n1)
     else do {
       let (res, n2) = nand_eraseblock bus blockx n1;
       (if res \<noteq> 0 \<or> cmpval = 0xFFFFFFFF then compare_tries bus blockx cmpval i k1 n2
        else compare_tries bus blockx cmpval i (Some (ucast (block_pagenum n2)))
               (fill_pages bus blockx 0 0 (unat (block_pagenum n2)) n2))
     }
   }"

definition ftl_blockcompare :: "'s fmc \<Rightarrow> u32 \<Rightarrow> u32 \<Rightarrow> 's nand \<Rightarrow> (u8 \<times> 's nand) option" where
  "ftl_blockcompare bus blockx cmpval n = compare_tries bus blockx cmpval 3 None n"

text \<open>What is done about a page whose data had to be corrected twice in a row.\<close>

definition rescue_block :: "'s fmc \<Rightarrow> u32 \<Rightarrow> u16 \<Rightarrow> u8 list \<Rightarrow> u32 \<Rightarrow> 's ftl \<Rightarrow> 's ftl option" where
  "rescue_block bus phypageno colnum pbuffer numbyte f = do {
     (_, f1) \<leftarrow> ftl_copy_and_write_to_block bus phypageno colnum pbuffer numbyte f;
     let blocknum = phypageno div ucast (block_pagenum (dev f1));
     (flag, n2) \<leftarrow> ftl_blockcompare bus blocknum 0xFFFFFFFF (dev f1);
     (flag', n3) \<leftarrow>
       (if flag = 0 then do {
          (fl, n3) \<leftarrow> ftl_blockcompare bus blocknum 0x00 n2;
          Some (fl, snd (nand_eraseblock bus blocknum n3))
        }
        else Some (flag, n2));
     n4 \<leftarrow>
       (if flag' \<noteq> 0 then do {
          n4 \<leftarrow> ftl_badblock_mark bus blocknum n3;
          map_option snd (ftl_create_lut bus 1 n4)
        }
        else Some n3);
     Some (f1\<lparr>dev := n4\<rparr>)
   }"

text \<open>One round of the read loop: a code or the sectors read, the bytes stored, and the state.\<close>

definition read_round ::
  "'s fmc \<Rightarrow> u32 \<Rightarrow> u16 \<Rightarrow> u32 \<Rightarrow> u32 \<Rightarrow> 's ftl \<Rightarrow> ((u8 + u16) \<times> u8 list \<times> 's ftl) option" where
  "read_round bus sectorno sectorsize sectorcount i f = do {
     lbnno \<leftarrow> sector_block (sectorno + i) sectorsize (dev f);
     p \<leftarrow> ftl_lbn_to_pbn lbnno (dev f);
     let pbnno = (ucast p :: u32);
     if pbnno \<ge> ucast (block_totalnum (dev f)) then Some (Inl 1, [], f)
     else do {
       let main = (ucast (page_mainsize (dev f)) :: u32);
       let blockoffset = block_offset (sectorno + i) sectorsize (dev f);
       let phypageno = page_of (dev f) pbnno (blockoffset div main);
       let pageoffset = blockoffset mod main;
       let temp = (ucast ((main - pageoffset) div ucast sectorsize) :: u16);
       let rsecs = (if ucast temp > sectorcount - i then ucast (sectorcount - i) else temp);
       (flag, bs, n1) \<leftarrow> nand_readpage bus phypageno (ucast pageoffset) (rsecs * sectorsize) (dev f);
       (flag1, bs1, f1) \<leftarrow>
         (if flag = NSTA_ECC1BITERR then do {
            (fl, cs, n2) \<leftarrow> nand_readpage bus phypageno (ucast pageoffset) (rsecs * sectorsize) n1;
            if fl = NSTA_ECC1BITERR then do {
              f2 \<leftarrow> rescue_block bus phypageno (ucast pageoffset) (stored cs bs)
                (ucast rsecs * ucast sectorsize) (f\<lparr>dev := n2\<rparr>);
              Some (0, stored cs bs, f2)
            }
            else Some (fl, stored cs bs, f\<lparr>dev := n2\<rparr>)
          }
          else Some (flag, bs, f\<lparr>dev := n1\<rparr>));
       let flag2 = (if flag1 = NSTA_ECC2BITERR then 0 else flag1);
       Some (if flag2 \<noteq> 0 then Inl 2 else Inr rsecs, bs1, f1)
     }
   }"

text \<open>The bytes stored are collected; each round stores behind the sectors of the rounds before.\<close>

partial_function (option) read_sectors_loop ::
  "'s fmc \<Rightarrow> u32 \<Rightarrow> u16 \<Rightarrow> u32 \<Rightarrow> u32 \<Rightarrow> 's ftl \<Rightarrow> (u8 \<times> u8 list \<times> 's ftl) option" where
  "read_sectors_loop bus sectorno sectorsize sectorcount i f =
     (if i < sectorcount then do {
        (r, bs, f1) \<leftarrow> read_round bus sectorno sectorsize sectorcount i f;
        (case r of
           Inl code \<Rightarrow> Some (code, bs, f1)
         | Inr rsecs \<Rightarrow> do {
             (code, cs, f2) \<leftarrow> read_sectors_loop bus sectorno sectorsize sectorcount (i + (ucast rsecs - 1) + 1) f1;
             Some (code, bs @ cs, f2)
           })
      }
      else Some (0, [], f))"

declare read_sectors_loop.simps [code]

definition ftl_read_sectors :: "'s fmc \<Rightarrow> u32 \<Rightarrow> u16 \<Rightarrow> u32 \<Rightarrow> 's ftl \<Rightarrow> (u8 \<times> u8 list \<times> 's ftl) option" where
  "ftl_read_sectors bus sectorno sectorsize sectorcount f =
     read_sectors_loop bus sectorno sectorsize sectorcount 0 f"

section \<open>Formatting and initialisation\<close>

text \<open>
  The search for bad blocks by erasing, writing and reading, which the configuration leaves
  unused. The table of blocks is a list of the size asked for; a failed allocation is an access
  through a null pointer. The table is not released.
\<close>

fun search_ones :: "'s fmc \<Rightarrow> nat \<Rightarrow> nat \<Rightarrow> u8 list \<Rightarrow> 's nand \<Rightarrow> (u8 list \<times> 's nand) option" where
  "search_ones bus i 0 blktbl n = Some (blktbl, n)"
| "search_ones bus i (Suc k) blktbl n = do {
     (res, n1) \<leftarrow> ftl_blockcompare bus (of_nat i) 0xFFFFFFFF n;
     blktbl' \<leftarrow> arr_set blktbl i (if res \<noteq> 0 then 1 else 0);
     search_ones bus (Suc i) k blktbl'
       (if res \<noteq> 0 then n1 else fill_pages bus (of_nat i) 0 0 (unat (block_pagenum n1)) n1)
   }"

fun search_zeros :: "'s fmc \<Rightarrow> nat \<Rightarrow> nat \<Rightarrow> u8 list \<Rightarrow> u32 \<Rightarrow> 's nand \<Rightarrow> (u8 list \<times> u32 \<times> 's nand) option" where
  "search_zeros bus i 0 blktbl goodblock n = Some (blktbl, goodblock, n)"
| "search_zeros bus i (Suc k) blktbl goodblock n = do {
     b \<leftarrow> arr_get blktbl i;
     if b = 0 then do {
       (res, n1) \<leftarrow> ftl_blockcompare bus (of_nat i) 0 n;
       if res \<noteq> 0 then do {
         blktbl' \<leftarrow> arr_set blktbl i 1;
         search_zeros bus (Suc i) k blktbl' goodblock n1
       }
       else search_zeros bus (Suc i) k blktbl (goodblock + 1) n1
     }
     else search_zeros bus (Suc i) k blktbl goodblock n
   }"

fun search_mark :: "'s fmc \<Rightarrow> nat \<Rightarrow> nat \<Rightarrow> u8 list \<Rightarrow> 's nand \<Rightarrow> 's nand option" where
  "search_mark bus i 0 blktbl n = Some n"
| "search_mark bus i (Suc k) blktbl n = do {
     b \<leftarrow> arr_get blktbl i;
     n1 \<leftarrow> (if b \<noteq> 0 then ftl_badblock_mark bus (of_nat i) n else Some n);
     search_mark bus (Suc i) k blktbl n1
   }"

definition ftl_search_badblock :: "'s fmc \<Rightarrow> u8 list \<Rightarrow> 's ftl \<Rightarrow> (u32 \<times> 's ftl) option" where
  "ftl_search_badblock bus junk f = do {
     let count = unat (block_totalnum (dev f));
     (p, h) \<leftarrow> mymalloc SRAMIN (ucast (block_totalnum (dev f))) (pool f);
     if p = 0 then None
     else do {
       (tbl1, n1) \<leftarrow> search_ones bus 0 count (take count junk) (nand_erasechip bus (dev f));
       (tbl2, goodblock, n2) \<leftarrow> search_zeros bus 0 count tbl1 0 n1;
       n3 \<leftarrow> search_mark bus 0 count tbl2 (nand_erasechip bus n2);
       Some (goodblock, f\<lparr>dev := n3, pool := h\<rparr>)
     }
   }"

text \<open>The two loops of \<open>ftl_format\<close>, for the configuration without the search.\<close>

fun format_erase :: "'s fmc \<Rightarrow> nat \<Rightarrow> nat \<Rightarrow> 's nand \<Rightarrow> 's nand option" where
  "format_erase bus i 0 n = Some n"
| "format_erase bus i (Suc k) n = do {
     (temp, n1) \<leftarrow> ftl_check_badblock bus (of_nat i) n;
     n3 \<leftarrow>
       (if temp = 0 then
          (case nand_eraseblock bus (of_nat i) n1 of (temp', n2) \<Rightarrow>
             if temp' \<noteq> 0 then ftl_badblock_mark bus (of_nat i) n2
             else Some (n2\<lparr>good_blocknum := good_blocknum n2 + 1\<rparr>))
        else Some n1);
     format_erase bus (Suc i) k n3
   }"

fun format_mark :: "'s fmc \<Rightarrow> u32 \<Rightarrow> u32 \<Rightarrow> nat \<Rightarrow> nat \<Rightarrow> 's nand \<Rightarrow> 's nand option" where
  "format_mark bus goodblock lbn i 0 n = Some n"
| "format_mark bus goodblock lbn i (Suc k) n = do {
     (temp, n1) \<leftarrow> ftl_check_badblock bus (of_nat i) n;
     if temp = 0 then do {
       (_, n2) \<leftarrow> nand_writespare bus (page_of n1 (of_nat i) 0) 2 [ucast lbn, ucast (drop_bit 8 lbn)] 2 n1;
       if lbn + 1 = goodblock then Some n2 else format_mark bus goodblock (lbn + 1) (Suc i) k n2
     }
     else format_mark bus goodblock lbn (Suc i) k n1
   }"

definition ftl_format :: "'s fmc \<Rightarrow> 's nand \<Rightarrow> (u8 \<times> 's nand) option" where
  "ftl_format bus n = do {
     let count = unat (block_totalnum n);
     n1 \<leftarrow> format_erase bus 0 count (n\<lparr>good_blocknum := 0\<rparr>);
     if good_blocknum n1 < 100 then Some (1, n1)
     else do {
       let goodblock = (ucast (good_blocknum n1) * 93) div 100;
       n2 \<leftarrow> format_mark bus goodblock 0 0 count n1;
       (temp, n3) \<leftarrow> ftl_create_lut bus 1 n2;
       Some (if temp \<noteq> 0 then 2 else 0, n3)
     }
   }"

text \<open>
  The table is cleared before the pointer is tested: a failed allocation writes through a null
  pointer, so the return that tests for it is never taken.
\<close>

definition ftl_init :: "'s fmc \<Rightarrow> 's ftl \<Rightarrow> (u8 \<times> 's ftl) option" where
  "ftl_init bus f = do {
     let (res, n1) = nand_init bus (dev f);
     if res \<noteq> 0 then Some (1, f\<lparr>dev := n1\<rparr>)
     else do {
       h1 \<leftarrow> (if lut_ptr n1 \<noteq> 0 then myfree SRAMIN (lut_ptr n1) (pool f) else Some (pool f));
       (p, h2) \<leftarrow> mymalloc SRAMIN (ucast (block_totalnum n1) * 2) h1;
       if p = 0 then None
       else do {
         (temp, n2) \<leftarrow> ftl_create_lut bus 1
           (n1\<lparr>lut_ptr := p, lut := replicate (unat (block_totalnum n1)) 0\<rparr>);
         if temp \<noteq> 0 then do {
           (temp', n3) \<leftarrow> ftl_format bus n2;
           Some (if temp' \<noteq> 0 then 2 else 0, f\<lparr>dev := n3, pool := h2\<rparr>)
         }
         else Some (0, f\<lparr>dev := n2, pool := h2\<rparr>)
       }
     }
   }"

end
