(* ===== verification/Nand_Chip.thy ===== *)
theory Nand_Chip
  imports Nand Byte_Store
begin

text \<open>
  What the NAND driver relies on and what it delivers. A view of the hardware names its memory
  cells, the phase of the command the chip is in, and the bytes the code unit of the memory
  controller has seen since it was switched on; the laws below are the documented reactions of
  chip and controller to the sequences the driver sends. On hardware that obeys them the page
  routines read, program, copy and erase the cells they should, and reads repair what the code
  can repair. An executable chip at the end obeys the laws.
\<close>

text \<open>
  Executing a command for some more polls of the status (none: ready); data of a page and column
  going out; a page loaded for a copy; data going into the page register for a page and column.
\<close>

datatype phase =
    Wait nat
  | Out nat nat
  | Loaded nat "nat \<Rightarrow> u8"
  | In nat nat "nat \<Rightarrow> u8"

record 's nand_view =
  cells :: "'s \<Rightarrow> nat \<Rightarrow> nat \<Rightarrow> u8"
  phase :: "'s \<Rightarrow> phase"
  seen :: "'s \<Rightarrow> u8 list option"

definition keeps :: "'s nand_view \<Rightarrow> 's \<Rightarrow> 's \<Rightarrow> phase \<Rightarrow> bool" where
  "keeps v s t ph \<longleftrightarrow> cells v t = cells v s \<and> seen v t = seen v s \<and> phase v t = ph"

section \<open>Laws\<close>

definition ready_law :: "'s fmc \<Rightarrow> 's nand_view \<Rightarrow> bool" where
  "ready_law bus v \<longleftrightarrow> (\<forall>s k. phase v s = Wait k \<or> k = 0 \<and> (\<exists>p c. phase v s = Out p c) \<longrightarrow>
     (\<exists>b t. fmc_in bus (fmc_cmd bus 0x70 s) = (b, t) \<and> (b AND NSTA_READY \<noteq> 0 \<longleftrightarrow> k = 0) \<and>
        keeps v s t (Wait (k - 1))))"

definition read_law :: "'s fmc \<Rightarrow> 's nand_view \<Rightarrow> nat \<Rightarrow> nat \<Rightarrow> bool" where
  "read_law bus v pages cols \<longleftrightarrow> (\<forall>s p c. phase v s = Wait 0 \<longrightarrow> p < pages \<longrightarrow> c < cols \<longrightarrow>
     (\<exists>t. wait_pulse bus (fmc_cmd bus 0x30 (page_address bus (of_nat c) (of_nat p) (fmc_cmd bus 0x00 s))) = (0, t) \<and>
        keeps v s t (Out p c)))"

definition column_law :: "'s fmc \<Rightarrow> 's nand_view \<Rightarrow> nat \<Rightarrow> bool" where
  "column_law bus v cols \<longleftrightarrow> (\<forall>s p c w. phase v s = Out p c \<longrightarrow> unat w < cols \<longrightarrow>
     keeps v s (fmc_cmd bus 0xE0 (fmc_addr bus (ucast (drop_bit 8 w)) (fmc_addr bus (ucast (w :: u16)) (fmc_cmd bus 0x05 s))))
       (Out p (unat w)))"

definition in_law :: "'s fmc \<Rightarrow> 's nand_view \<Rightarrow> nat \<Rightarrow> bool" where
  "in_law bus v cols \<longleftrightarrow> (\<forall>s p c. phase v s = Out p c \<longrightarrow> c < cols \<longrightarrow>
     (\<exists>t. fmc_in bus s = (cells v s p c, t) \<and> cells v t = cells v s \<and> phase v t = Out p (Suc c) \<and>
        seen v t = map_option (\<lambda>bs. bs @ [cells v s p c]) (seen v s)))"

definition in32_law :: "'s fmc \<Rightarrow> 's nand_view \<Rightarrow> nat \<Rightarrow> bool" where
  "in32_law bus v cols \<longleftrightarrow> (\<forall>s p c. phase v s = Out p c \<longrightarrow> c + 4 \<le> cols \<longrightarrow> seen v s = None \<longrightarrow>
     (\<exists>t. fmc_in32 bus s = (word_le (window (cells v s p) c 4), t) \<and> keeps v s t (Out p (c + 4))))"

definition unit_law :: "'s fmc \<Rightarrow> 's nand_view \<Rightarrow> (u8 list \<Rightarrow> u32) \<Rightarrow> bool" where
  "unit_law bus v ecc \<longleftrightarrow>
     (\<forall>s e. let t = fmc_ecc_enable bus e s in
        cells v t = cells v s \<and> phase v t = phase v s \<and> seen v t = (if e then Some [] else None)) \<and>
     (\<forall>s. \<exists>t. wait_fifo bus s = Some t \<and> keeps v s t (phase v s)) \<and>
     (\<forall>s bs. seen v s = Some bs \<longrightarrow> length bs = 512 \<longrightarrow>
        (\<exists>t. fmc_eccr bus s = (ecc bs, t) \<and> keeps v s t (phase v s)))"

definition program_law :: "'s fmc \<Rightarrow> 's nand_view \<Rightarrow> nat \<Rightarrow> nat \<Rightarrow> bool" where
  "program_law bus v pages cols \<longleftrightarrow> (\<forall>s p c. phase v s = Wait 0 \<longrightarrow> p < pages \<longrightarrow> c < cols \<longrightarrow>
     keeps v s (page_address bus (of_nat c) (of_nat p) (fmc_cmd bus 0x80 s)) (In p c (\<lambda>_. 0xFF)))"

definition out_law :: "'s fmc \<Rightarrow> 's nand_view \<Rightarrow> nat \<Rightarrow> bool" where
  "out_law bus v cols \<longleftrightarrow> (\<forall>s p c reg b. phase v s = In p c reg \<longrightarrow> c < cols \<longrightarrow>
     (let t = fmc_out bus b s in cells v t = cells v s \<and> phase v t = In p (Suc c) (reg(c := b)) \<and>
        seen v t = map_option (\<lambda>bs. bs @ [b]) (seen v s)))"

definition out32_law :: "'s fmc \<Rightarrow> 's nand_view \<Rightarrow> nat \<Rightarrow> bool" where
  "out32_law bus v cols \<longleftrightarrow> (\<forall>s p c reg w. phase v s = In p c reg \<longrightarrow> c + 4 \<le> cols \<longrightarrow> seen v s = None \<longrightarrow>
     keeps v s (fmc_out32 bus w s) (In p (c + 4) (overwrite reg c (code_bytes 4 w))))"

definition move_law :: "'s fmc \<Rightarrow> 's nand_view \<Rightarrow> nat \<Rightarrow> bool" where
  "move_law bus v cols \<longleftrightarrow> (\<forall>s p c reg w. phase v s = In p c reg \<longrightarrow> unat w < cols \<longrightarrow>
     keeps v s (fmc_addr bus (ucast (drop_bit 8 w)) (fmc_addr bus (ucast (w :: u16)) (fmc_cmd bus 0x85 s)))
       (In p (unat w) reg))"

text \<open>Programming clears bits only.\<close>

definition confirm_law :: "'s fmc \<Rightarrow> 's nand_view \<Rightarrow> bool" where
  "confirm_law bus v \<longleftrightarrow> (\<forall>s p c reg. phase v s = In p c reg \<longrightarrow>
     (let t = fmc_delay_us bus 200 (fmc_cmd bus 0x10 s) in
        (\<exists>k<0x1FFFFFFF. phase v t = Wait k) \<and> seen v t = seen v s \<and>
        cells v t = (cells v s)(p := \<lambda>x. cells v s p x AND reg x)))"

text \<open>A page can be copied inside its plane: the parity of the block number stays the same.\<close>

definition copy_law :: "'s fmc \<Rightarrow> 's nand_view \<Rightarrow> nat \<Rightarrow> nat \<Rightarrow> nat \<Rightarrow> bool" where
  "copy_law bus v ppb pages cols \<longleftrightarrow>
     (\<forall>s p. phase v s = Wait 0 \<longrightarrow> p < pages \<longrightarrow>
        (\<exists>t. wait_pulse bus (fmc_cmd bus 0x35 (page_address bus 0 (of_nat p) (fmc_cmd bus 0x00 s))) = (0, t) \<and>
           keeps v s t (Loaded p (cells v s p)))) \<and>
     (\<forall>s p reg q c. phase v s = Loaded p reg \<longrightarrow> q < pages \<longrightarrow> c < cols \<longrightarrow>
        (p div ppb) mod 2 = (q div ppb) mod 2 \<longrightarrow>
        keeps v s (page_address bus (of_nat c) (of_nat q) (fmc_cmd bus 0x85 s)) (In q c reg))"

definition erase_law :: "'s fmc \<Rightarrow> 's nand_view \<Rightarrow> nat \<Rightarrow> nat \<Rightarrow> bool" where
  "erase_law bus v ppb pages \<longleftrightarrow> (\<forall>s b. phase v s = Wait 0 \<longrightarrow> b * ppb < pages \<longrightarrow>
     (let row = (of_nat (b * ppb) :: u32);
          t = fmc_delay_ms bus 4 (fmc_cmd bus 0xD0 (fmc_addr bus (ucast (drop_bit 16 row))
                (fmc_addr bus (ucast (drop_bit 8 row)) (fmc_addr bus (ucast row) (fmc_cmd bus 0x60 s))))) in
        (\<exists>k<0x1FFFFFFF. phase v t = Wait k) \<and> seen v t = seen v s \<and>
        cells v t = (\<lambda>p. if p div ppb = b then (\<lambda>_. 0xFF) else cells v s p)))"

text \<open>All laws, for a chip of \<open>pages\<close> pages of \<open>cols\<close> bytes in blocks of \<open>ppb\<close> pages.\<close>

definition nand_chip :: "'s fmc \<Rightarrow> 's nand_view \<Rightarrow> (u8 list \<Rightarrow> u32) \<Rightarrow> nat \<Rightarrow> nat \<Rightarrow> nat \<Rightarrow> bool" where
  "nand_chip bus v ecc ppb pages cols \<longleftrightarrow>
     ready_law bus v \<and> read_law bus v pages cols \<and> column_law bus v cols \<and> in_law bus v cols \<and>
     in32_law bus v cols \<and> unit_law bus v ecc \<and> program_law bus v pages cols \<and> out_law bus v cols \<and>
     out32_law bus v cols \<and> move_law bus v cols \<and> confirm_law bus v \<and> copy_law bus v ppb pages cols \<and>
     erase_law bus v ppb pages"

lemma nand_chipD:
  assumes "nand_chip bus v ecc ppb pages cols"
  shows "ready_law bus v" "read_law bus v pages cols" "column_law bus v cols" "in_law bus v cols"
    "in32_law bus v cols" "unit_law bus v ecc" "program_law bus v pages cols" "out_law bus v cols"
    "out32_law bus v cols" "move_law bus v cols" "confirm_law bus v" "copy_law bus v ppb pages cols"
    "erase_law bus v ppb pages"
  using assms by (simp_all add: nand_chip_def)

text \<open>The two parts the driver knows, with the shape of the driver's structure.\<close>

definition ppb :: "'s nand \<Rightarrow> nat" where "ppb n = unat (block_pagenum n)"
definition msz :: "'s nand \<Rightarrow> nat" where "msz n = unat (page_mainsize n)"

definition known_part :: "'s nand \<Rightarrow> bool" where
  "known_part n \<longleftrightarrow>
     (nand_id n = MT29F16G08ABABA \<and> page_mainsize n = 4096 \<and> page_sparesize n = 224 \<and>
        block_pagenum n = 128 \<and> block_totalnum n = 4096 \<or>
      nand_id n = MT29F4G08ABADA \<and> page_mainsize n = 2048 \<and> page_sparesize n = 64 \<and>
        block_pagenum n = 64 \<and> block_totalnum n = 4096) \<and>
     length (ecc_hdbuf n) = 8 \<and> length (ecc_rdbuf n) = 8"

definition csz :: "'s nand \<Rightarrow> nat" where "csz n = unat (page_mainsize n) + unat (page_sparesize n)"

definition nand_ok :: "'s fmc \<Rightarrow> 's nand_view \<Rightarrow> (u8 list \<Rightarrow> u32) \<Rightarrow> 's nand \<Rightarrow> bool" where
  "nand_ok bus v ecc n \<longleftrightarrow> known_part n \<and> nand_chip bus v ecc (ppb n) (ppb n * 4096) (csz n) \<and>
     phase v (nhw n) = Wait 0 \<and> seen v (nhw n) = None"

text \<open>The state after a routine of the driver: the hardware and the two code buffers moved on.\<close>

definition moved :: "'s nand \<Rightarrow> 's nand \<Rightarrow> bool" where
  "moved n m \<longleftrightarrow> m = n\<lparr>ecc_hdbuf := ecc_hdbuf m, ecc_rdbuf := ecc_rdbuf m, nhw := nhw m\<rparr> \<and>
     length (ecc_hdbuf m) = length (ecc_hdbuf n) \<and> length (ecc_rdbuf m) = length (ecc_rdbuf n)"

lemma moved_refl [simp]: "moved n n"
  by (simp add: moved_def)

lemma moved_nhw [simp]: "moved n (n\<lparr>nhw := s\<rparr>)"
  by (simp add: moved_def)

lemma moved_fields:
  assumes "moved n m"
  shows "page_mainsize m = page_mainsize n" "page_sparesize m = page_sparesize n"
    "page_totalsize m = page_totalsize n" "block_pagenum m = block_pagenum n"
    "block_totalnum m = block_totalnum n" "nand_id m = nand_id n" "lut m = lut n"
    "good_blocknum m = good_blocknum n" "valid_blocknum m = valid_blocknum n"
    "length (ecc_hdbuf m) = length (ecc_hdbuf n)" "length (ecc_rdbuf m) = length (ecc_rdbuf n)"
proof -
  from assms obtain a b c where "m = n\<lparr>ecc_hdbuf := a, ecc_rdbuf := b, nhw := c\<rparr>"
    unfolding moved_def by blast
  then show "page_mainsize m = page_mainsize n" "page_sparesize m = page_sparesize n"
    "page_totalsize m = page_totalsize n" "block_pagenum m = block_pagenum n"
    "block_totalnum m = block_totalnum n" "nand_id m = nand_id n" "lut m = lut n"
    "good_blocknum m = good_blocknum n" "valid_blocknum m = valid_blocknum n"
    by simp_all
  show "length (ecc_hdbuf m) = length (ecc_hdbuf n)" "length (ecc_rdbuf m) = length (ecc_rdbuf n)"
    using assms by (simp_all add: moved_def)
qed

lemma moved_geometry:
  assumes "moved n m"
  shows "ppb m = ppb n" "msz m = msz n" "csz m = csz n" "known_part m = known_part n"
  using moved_fields [OF assms] by (simp_all add: ppb_def msz_def csz_def known_part_def)

lemma moved_trans:
  assumes "moved n m" and "moved m l"
  shows "moved n l"
proof -
  from assms(1) obtain a b c where m: "m = n\<lparr>ecc_hdbuf := a, ecc_rdbuf := b, nhw := c\<rparr>"
    unfolding moved_def by blast
  from assms(2) obtain d e g where l: "l = m\<lparr>ecc_hdbuf := d, ecc_rdbuf := e, nhw := g\<rparr>"
    unfolding moved_def by blast
  have "l = n\<lparr>ecc_hdbuf := d, ecc_rdbuf := e, nhw := g\<rparr>" unfolding l m by simp
  then show ?thesis
    using moved_fields(10,11) [OF assms(1)] moved_fields(10,11) [OF assms(2)] by (simp add: moved_def)
qed

lemma nand_ok_moved:
  assumes "nand_ok bus v ecc n" and "moved n m" and "phase v (nhw m) = Wait 0" and "seen v (nhw m) = None"
  shows "nand_ok bus v ecc m"
  using assms moved_geometry [OF assms(2)] by (simp add: nand_ok_def)

section \<open>The driver on such hardware\<close>

lemma nand_delay_id [simp]: "nand_delay k s = s"
  by (induction k) simp_all

lemma keeps_trans: "keeps v s t ph \<Longrightarrow> keeps v t u ph' \<Longrightarrow> keeps v s u ph'"
  by (simp add: keeps_def)

lemma keepsD:
  assumes "keeps v s t ph"
  shows "cells v t = cells v s" "seen v t = seen v s" "phase v t = ph"
  using assms by (simp_all add: keeps_def)

lemma ready_loop_ok:
  assumes "ready_law bus v" and "phase v s = Wait k \<or> k = 0 \<and> (\<exists>p c. phase v s = Out p c)" and "k < m"
  shows "\<exists>t. ready_loop bus m s = (NSTA_READY, t) \<and> keeps v s t (Wait 0)"
  using assms(2,3)
proof (induction k arbitrary: s m)
  case 0
  then obtain j where m: "m = Suc j" by (cases m) auto
  from 0 assms(1) obtain b t where "fmc_in bus (fmc_cmd bus 0x70 s) = (b, t)" "b AND NSTA_READY \<noteq> 0"
    "keeps v s t (Wait 0)"
    unfolding ready_law_def by (metis diff_0_eq_0)
  then show ?case by (simp add: m nand_readstatus_def)
next
  case (Suc k)
  then obtain j where m: "m = Suc j" by (cases m) auto
  from Suc.prems assms(1) obtain b t where st: "fmc_in bus (fmc_cmd bus 0x70 s) = (b, t)"
    "b AND NSTA_READY = 0" "keeps v s t (Wait k)"
    unfolding ready_law_def by (metis diff_Suc_1 nat.simps(3))
  from Suc.IH [of t j] keepsD(3) [OF st(3)] Suc.prems(2) m
  obtain u where "ready_loop bus j t = (NSTA_READY, u)" "keeps v t u (Wait 0)" by auto
  with st show ?case by (auto simp: m nand_readstatus_def intro: keeps_trans)
qed

lemma wait_for_ready_ok:
  assumes "ready_law bus v" and "phase v s = Wait k \<or> k = 0 \<and> (\<exists>p c. phase v s = Out p c)" and "k < 0x1FFFFFFF"
  shows "\<exists>t. nand_wait_for_ready bus s = (NSTA_READY, t) \<and> keeps v s t (Wait 0)"
  unfolding nand_wait_for_ready_def using assms by (rule ready_loop_ok)

text \<open>Bytes going out and in.\<close>

lemma in_bytes_ok:
  assumes "in_law bus v cols"
  shows "phase v s = Out p c \<Longrightarrow> c + k \<le> cols \<Longrightarrow>
    \<exists>t. in_bytes bus k s = (window (cells v s p) c k, t) \<and> cells v t = cells v s \<and> phase v t = Out p (c + k) \<and>
      seen v t = map_option (\<lambda>bs. bs @ window (cells v s p) c k) (seen v s)"
proof (induction k arbitrary: s c)
  case 0
  then show ?case by (cases "seen v s") (simp_all add: window_def)
next
  case (Suc k)
  from Suc.prems assms obtain t where t: "fmc_in bus s = (cells v s p c, t)" "cells v t = cells v s"
    "phase v t = Out p (Suc c)" "seen v t = map_option (\<lambda>bs. bs @ [cells v s p c]) (seen v s)"
    unfolding in_law_def by (metis add_leD1 add_Suc_right Suc_le_lessD add_Suc)
  from Suc.IH [OF t(3)] Suc.prems(2) obtain u where
    "in_bytes bus k t = (window (cells v s p) (Suc c) k, u)" "cells v u = cells v s" "phase v u = Out p (Suc c + k)"
    "seen v u = map_option (\<lambda>bs. bs @ window (cells v s p) (Suc c) k) (seen v t)"
    unfolding t(2) by auto
  with t show ?case by (cases "seen v s") (simp_all add: window_Suc)
qed

lemma out_bytes_ok:
  assumes "out_law bus v cols"
  shows "phase v s = In p c reg \<Longrightarrow> c + k \<le> cols \<Longrightarrow> k \<le> length bs \<Longrightarrow>
    \<exists>t. out_bytes bus bs k s = Some t \<and> cells v t = cells v s \<and>
      phase v t = In p (c + k) (overwrite reg c (take k bs)) \<and>
      seen v t = map_option (\<lambda>xs. xs @ take k bs) (seen v s)"
proof (induction k arbitrary: s c reg bs)
  case 0
  then show ?case by (cases "seen v s") simp_all
next
  case (Suc k)
  then obtain b cs where bs: "bs = b # cs" by (cases bs) auto
  let ?t = "fmc_out bus b s"
  have t: "cells v ?t = cells v s" "phase v ?t = In p (Suc c) (reg(c := b))"
    "seen v ?t = map_option (\<lambda>xs. xs @ [b]) (seen v s)"
    using assms Suc.prems unfolding out_law_def Let_def by auto
  have reg: "overwrite (reg(c := b)) (Suc c) cs' = overwrite reg c (b # cs')" for cs'
    using overwrite_append [of reg c "[b]" cs'] by (simp add: overwrite_one)
  from Suc.prems(2,3) have "Suc c + k \<le> cols" "k \<le> length cs" by (simp_all add: bs)
  from Suc.IH [OF t(2) this] obtain u where "out_bytes bus cs k ?t = Some u"
    "cells v u = cells v s" "phase v u = In p (Suc c + k) (overwrite reg c (b # take k cs))"
    "seen v u = map_option (\<lambda>xs. xs @ take k cs) (seen v ?t)"
    unfolding reg t(1) by blast
  with t(3) show ?case by (cases "seen v s") (simp_all add: bs)
qed

lemma unit_lawD:
  assumes "unit_law bus v ecc"
  shows "cells v (fmc_ecc_enable bus e s) = cells v s \<and> phase v (fmc_ecc_enable bus e s) = phase v s \<and>
      seen v (fmc_ecc_enable bus e s) = (if e then Some [] else None)"
    and "\<exists>t. wait_fifo bus s = Some t \<and> keeps v s t (phase v s)"
    and "seen v s = Some bs \<Longrightarrow> length bs = 512 \<Longrightarrow> \<exists>t. fmc_eccr bus s = (ecc bs, t) \<and> keeps v s t (phase v s)"
  using assms unfolding unit_law_def Let_def by simp_all

text \<open>The data of a sector of a page, and the place and the value of its stored code.\<close>

definition sector_data :: "(nat \<Rightarrow> u8) \<Rightarrow> nat \<Rightarrow> u8 list" where
  "sector_data F j = window F (512 * j) 512"

definition code_col :: "'s nand \<Rightarrow> nat \<Rightarrow> nat" where
  "code_col n j = msz n + 16 + 4 * j"

definition sector_code :: "'s nand \<Rightarrow> (nat \<Rightarrow> u8) \<Rightarrow> nat \<Rightarrow> u32" where
  "sector_code n F j = word_le (window F (code_col n j) 4)"

lemma length_sector_data [simp]: "length (sector_data F j) = 512"
  by (simp add: sector_data_def)

lemma window_add: "window F a (m + k) = window F a m @ window F (a + m) k"
  by (simp add: window_def upt_add_eq_append [of a "a + m" k, simplified add.assoc] add.assoc)

lemma window_sectors: "window F (512 * j) (512 * k) = concat (map (sector_data F) [j..<j + k])"
proof (induction k arbitrary: j)
  case 0
  then show ?case by (simp add: window_def)
next
  case (Suc k)
  have eq: "[j..<j + Suc k] = j # [Suc j..<Suc j + k]" by (simp add: upt_conv_Cons del: upt_Suc)
  have w: "window F (512 * j) (512 * Suc k) = sector_data F j @ window F (512 * Suc j) (512 * k)"
    using window_add [of F "512 * j" 512 "512 * k"] by (simp add: sector_data_def add.commute)
  show ?case unfolding eq w by (simp only: concat.simps list.map Suc)
qed

lemma in_sectors_ok:
  assumes "in_law bus v cols" and "unit_law bus v ecc"
  shows "phase v s = Out p (512 * j) \<Longrightarrow> seen v s = None \<Longrightarrow> 512 * (j + k) \<le> cols \<Longrightarrow> j + k \<le> length hdbuf \<Longrightarrow>
    \<exists>t h. in_sectors bus k j hdbuf s = Some (window (cells v s p) (512 * j) (512 * k), h, t) \<and>
      keeps v s t (Out p (512 * (j + k))) \<and> length h = length hdbuf \<and> (\<forall>i<j. h ! i = hdbuf ! i) \<and>
      (\<forall>i. j \<le> i \<and> i < j + k \<longrightarrow> h ! i = ecc (sector_data (cells v s p) i))"
proof (induction k arbitrary: s j hdbuf)
  case 0
  then show ?case by (auto simp: window_def keeps_def)
next
  case (Suc k)
  let ?F = "cells v s p"
  let ?s1 = "fmc_ecc_enable bus True s"
  have s1: "cells v ?s1 = cells v s" "phase v ?s1 = Out p (512 * j)" "seen v ?s1 = Some []"
    using unit_lawD(1) [OF assms(2), where e = True and s = s] Suc.prems(1) by simp_all
  from in_bytes_ok [OF assms(1) s1(2), of 512] Suc.prems(3) s1
  obtain s2 where s2: "in_bytes bus 512 ?s1 = (sector_data ?F j, s2)" "cells v s2 = cells v s"
    "phase v s2 = Out p (512 * Suc j)" "seen v s2 = Some (sector_data ?F j)"
    by (auto simp: sector_data_def)
  obtain s3 where s3: "wait_fifo bus s2 = Some s3" "keeps v s2 s3 (phase v s2)"
    using unit_lawD(2) [OF assms(2)] by blast
  have "seen v s3 = Some (sector_data ?F j)" using keepsD(2) [OF s3(2)] s2(4) by simp
  then obtain s4 where s4: "fmc_eccr bus s3 = (ecc (sector_data ?F j), s4)" "keeps v s3 s4 (phase v s3)"
    using unit_lawD(3) [OF assms(2) _ length_sector_data] by blast
  let ?s5 = "fmc_ecc_enable bus False s4"
  have s5: "cells v ?s5 = cells v s4" "phase v ?s5 = phase v s4" "seen v ?s5 = None"
    using unit_lawD(1) [OF assms(2), where e = False and s = s4] by simp_all
  have k5: "keeps v s ?s5 (Out p (512 * Suc j))"
    using s5 keepsD [OF s3(2)] keepsD [OF s4(2)] s2 Suc.prems(2) by (simp add: keeps_def)
  let ?h = "hdbuf[j := ecc (sector_data ?F j)]"
  have "seen v ?s5 = None" "512 * (Suc j + k) \<le> cols" "Suc j + k \<le> length ?h"
    using s5(3) Suc.prems(3,4) by simp_all
  from Suc.IH [OF keepsD(3) [OF k5] this] keepsD(1) [OF k5]
  obtain u h where u: "in_sectors bus k (Suc j) ?h ?s5 = Some (window ?F (512 * Suc j) (512 * k), h, u)"
    "keeps v ?s5 u (Out p (512 * (Suc j + k)))" "length h = length hdbuf" "\<forall>i<Suc j. h ! i = ?h ! i"
    "\<forall>i. Suc j \<le> i \<and> i < Suc j + k \<longrightarrow> h ! i = ecc (sector_data ?F i)" by auto
  have w: "window ?F (512 * j) (512 * Suc k) = sector_data ?F j @ window ?F (512 * Suc j) (512 * k)"
    using window_add [of ?F "512 * j" 512 "512 * k"] by (simp add: sector_data_def add.commute)
  have "in_sectors bus (Suc k) j hdbuf s = Some (window ?F (512 * j) (512 * Suc k), h, u)"
    unfolding w using s2 s3 s4 u(1) Suc.prems(4) by (simp add: NAND_ECC_SECTOR_SIZE_def arr_set_Some)
  moreover have "keeps v s u (Out p (512 * (j + Suc k)))" using keeps_trans [OF k5 u(2)] by simp
  moreover have "\<forall>i<j. h ! i = hdbuf ! i" using u(4) by (simp add: less_Suc_eq)
  moreover have "\<forall>i. j \<le> i \<and> i < j + Suc k \<longrightarrow> h ! i = ecc (sector_data ?F i)"
  proof (intro allI impI)
    fix i assume i: "j \<le> i \<and> i < j + Suc k"
    then consider "i = j" | "Suc j \<le> i \<and> i < Suc j + k" by linarith
    then show "h ! i = ecc (sector_data ?F i)" using u(4,5) Suc.prems(4) by cases simp_all
  qed
  ultimately show ?case using u(3) by blast
qed

lemma in_codes_ok:
  assumes "in_law bus v cols"
  shows "phase v s = Out p (code_col n j) \<Longrightarrow> seen v s = None \<Longrightarrow> code_col n (j + k) \<le> cols \<Longrightarrow> j + k \<le> length rdbuf \<Longrightarrow>
    \<exists>t r. in_codes bus k j rdbuf s = Some (r, t) \<and> keeps v s t (Out p (code_col n (j + k))) \<and>
      length r = length rdbuf \<and> (\<forall>i<j. r ! i = rdbuf ! i) \<and>
      (\<forall>i. j \<le> i \<and> i < j + k \<longrightarrow> r ! i = sector_code n (cells v s p) i)"
proof (induction k arbitrary: s j rdbuf)
  case 0
  then show ?case by (auto simp: keeps_def)
next
  case (Suc k)
  let ?F = "cells v s p"
  have col: "code_col n j + 4 = code_col n (Suc j)" by (simp add: code_col_def)
  from in_bytes_ok [OF assms Suc.prems(1), of 4] Suc.prems(2,3)
  obtain s1 where s1: "in_bytes bus 4 s = (window ?F (code_col n j) 4, s1)" "keeps v s s1 (Out p (code_col n (Suc j)))"
    by (auto simp: code_col_def keeps_def)
  let ?r = "rdbuf[j := sector_code n ?F j]"
  have "seen v s1 = None" "code_col n (Suc j + k) \<le> cols" "Suc j + k \<le> length ?r"
    using keepsD(2) [OF s1(2)] Suc.prems(2-4) by simp_all
  from Suc.IH [OF keepsD(3) [OF s1(2)] this] keepsD(1) [OF s1(2)]
  obtain u r where u: "in_codes bus k (Suc j) ?r s1 = Some (r, u)" "keeps v s1 u (Out p (code_col n (Suc j + k)))"
    "length r = length rdbuf" "\<forall>i<Suc j. r ! i = ?r ! i"
    "\<forall>i. Suc j \<le> i \<and> i < Suc j + k \<longrightarrow> r ! i = sector_code n ?F i" by auto
  have "in_codes bus (Suc k) j rdbuf s = Some (r, u)"
    using s1(1) u(1) Suc.prems(4) by (simp add: arr_set_Some sector_code_def)
  moreover have "keeps v s u (Out p (code_col n (j + Suc k)))" using keeps_trans [OF s1(2) u(2)] by simp
  moreover have "\<forall>i<j. r ! i = rdbuf ! i" using u(4) by (simp add: less_Suc_eq)
  moreover have "\<forall>i. j \<le> i \<and> i < j + Suc k \<longrightarrow> r ! i = sector_code n ?F i"
  proof (intro allI impI)
    fix i assume i: "j \<le> i \<and> i < j + Suc k"
    then consider "i = j" | "Suc j \<le> i \<and> i < Suc j + k" by linarith
    then show "r ! i = sector_code n ?F i" using u(4,5) Suc.prems(4) by cases simp_all
  qed
  ultimately show ?case using u(3) by blast
qed

subsection \<open>Reading\<close>

text \<open>What a read makes of sectors with their stored and computed codes.\<close>

definition decode_sector :: "u8 list \<Rightarrow> u32 \<Rightarrow> u32 \<Rightarrow> u8 \<Rightarrow> (u8 list \<times> u8) option" where
  "decode_sector d r h sta =
     (if r = h then Some (d, sta)
      else map_option (\<lambda>(res, d'). (d', if res \<noteq> 0 then NSTA_ECC2BITERR else NSTA_ECC1BITERR))
             (nand_ecc_correction d r h))"

fun decode_all :: "(u8 list \<times> u32 \<times> u32) list \<Rightarrow> u8 \<Rightarrow> (u8 list \<times> u8) option" where
  "decode_all [] sta = Some ([], sta)"
| "decode_all ((d, r, h) # xs) sta = do {
     (d', sta') \<leftarrow> decode_sector d r h sta;
     (ds, sta'') \<leftarrow> decode_all xs sta';
     Some (d' @ ds, sta'')
   }"

lemma decode_sector_length: "decode_sector d r h sta = Some (d', sta') \<Longrightarrow> length d' = length d"
  by (auto simp: decode_sector_def dest: correction_length split: if_splits)

lemma check_codes_decode:
  assumes "\<And>j. j < length xs \<Longrightarrow> i + start + j < length rds \<and> rds ! (i + start + j) = fst (snd (xs ! j))"
    and "\<And>j. j < length xs \<Longrightarrow> i + start + j < length hds \<and> hds ! (i + start + j) = snd (snd (xs ! j))"
    and "\<forall>x\<in>set xs. length (fst x) = 512" and "length pre = 512 * i"
  shows "check_codes start i (length xs) rds hds (pre @ concat (map fst xs)) sta =
    map_option (\<lambda>(ds, sta). (pre @ ds, sta)) (decode_all xs sta)"
  using assms
proof (induction xs arbitrary: i pre sta)
  case Nil
  then show ?case by simp
next
  case (Cons x xs)
  obtain d r h where x: "x = (d, r, h)" by (cases x) auto
  have d: "length d = 512" using Cons.prems(3) by (simp add: x)
  have r: "arr_get rds (i + start) = Some r" and h: "arr_get hds (i + start) = Some h"
    using Cons.prems(1,2) [of 0] by (simp_all add: x arr_get_Some)
  have IH: "check_codes start (Suc i) (length xs) rds hds ((pre @ d') @ concat (map fst xs)) sta' =
      map_option (\<lambda>(ds, sta). ((pre @ d') @ ds, sta)) (decode_all xs sta')" if "length d' = 512" for d' sta'
  proof (rule Cons.IH)
    fix j assume "j < length xs"
    then show "Suc i + start + j < length rds \<and> rds ! (Suc i + start + j) = fst (snd (xs ! j))"
      "Suc i + start + j < length hds \<and> hds ! (Suc i + start + j) = snd (snd (xs ! j))"
      using Cons.prems(1,2) [of "Suc j"] by simp_all
  qed (use Cons.prems(3,4) that in simp_all)
  show ?case
  proof (cases "r = h")
    case True
    have "check_codes start i (length (x # xs)) rds hds (pre @ concat (map fst (x # xs))) sta =
        check_codes start (Suc i) (length xs) rds hds ((pre @ d) @ concat (map fst xs)) sta"
      using r h True by (simp add: x)
    then show ?thesis unfolding IH [OF d] using True by (cases "decode_all xs sta") (auto simp: x decode_sector_def)
  next
    case False
    define D where "D = pre @ concat (map fst (x # xs))"
    have cut: "drop (NAND_ECC_SECTOR_SIZE * i) D = d @ concat (map fst xs)"
      "take (NAND_ECC_SECTOR_SIZE * i) D = pre"
      using Cons.prems(4) by (simp_all add: D_def x NAND_ECC_SECTOR_SIZE_def)
    have step: "check_codes start i (length (x # xs)) rds hds D sta =
        nand_ecc_correction d r h \<bind> (\<lambda>(res, part). check_codes start (Suc i) (length xs) rds hds
          ((pre @ part) @ concat (map fst xs)) (if res \<noteq> 0 then NSTA_ECC2BITERR else NSTA_ECC1BITERR))"
      using r h False correction_append [OF d, of "concat (map fst xs)" r h]
      by (cases "nand_ecc_correction d r h") (simp_all add: cut split: prod.splits)
    show ?thesis
    proof (cases "nand_ecc_correction d r h")
      case None
      then show ?thesis unfolding D_def [symmetric] step using False by (simp add: x decode_sector_def)
    next
      case (Some y)
      obtain res d' where y: "y = (res, d')" by (cases y) auto
      have d': "length d' = 512" using correction_length Some d unfolding y by metis
      have "check_codes start i (length (x # xs)) rds hds D sta =
          check_codes start (Suc i) (length xs) rds hds ((pre @ d') @ concat (map fst xs))
            (if res \<noteq> 0 then NSTA_ECC2BITERR else NSTA_ECC1BITERR)"
        unfolding step Some y by simp
      then show ?thesis
        unfolding D_def [symmetric] IH [OF d'] using False Some
        by (cases "decode_all xs (if res \<noteq> 0 then NSTA_ECC2BITERR else NSTA_ECC1BITERR)")
          (auto simp: x y decode_sector_def)
    qed
  qed
qed

lemma known_partD:
  assumes "known_part n"
  shows "msz n = 2048 \<and> csz n = 2112 \<and> ppb n = 64 \<and> page_mainsize n = 2048 \<and> page_sparesize n = 64 \<or>
      msz n = 4096 \<and> csz n = 4320 \<and> ppb n = 128 \<and> page_mainsize n = 4096 \<and> page_sparesize n = 224"
    "block_totalnum n = 4096" "length (ecc_hdbuf n) = 8" "length (ecc_rdbuf n) = 8"
  using assms by (auto simp: known_part_def msz_def csz_def ppb_def)

lemma nand_okD:
  assumes "nand_ok bus v ecc n"
  shows "known_part n" "nand_chip bus v ecc (ppb n) (ppb n * 4096) (csz n)"
    "phase v (nhw n) = Wait 0" "seen v (nhw n) = None"
  using assms by (simp_all add: nand_ok_def)

lemma readpage_start:
  assumes "nand_ok bus v ecc n" and "unat pagenum < ppb n * 4096" and "unat colnum < csz n"
  shows "\<exists>t. wait_pulse bus (fmc_cmd bus 0x30 (page_address bus colnum pagenum (fmc_cmd bus 0x00 (nhw n)))) = (0, t) \<and>
    keeps v (nhw n) t (Out (unat pagenum) (unat colnum))"
proof -
  have "read_law bus v (ppb n * 4096) (csz n)" by (rule nand_chipD(2) [OF nand_okD(2) [OF assms(1)]])
  from this [unfolded read_law_def, rule_format, OF nand_okD(3) [OF assms(1)] assms(2,3)]
  show ?thesis by simp
qed

text \<open>Reads whose length is no multiple of a sector are not checked.\<close>

lemma readpage_plain:
  assumes ok: "nand_ok bus v ecc n" and p: "unat pagenum < ppb n * 4096"
    and k: "unat k mod 512 \<noteq> 0" "unat colnum + unat k \<le> csz n"
  shows "\<exists>t. nand_readpage bus pagenum colnum k n =
      Some (0, window (cells v (nhw n) (unat pagenum)) (unat colnum) (unat k), n\<lparr>nhw := t\<rparr>) \<and>
    keeps v (nhw n) t (Wait 0)"
proof -
  note laws = nand_chipD [OF nand_okD(2) [OF ok]]
  have "unat k \<noteq> 0" using k(1) by (metis mod_0)
  then have "unat colnum < csz n" using k(2) by simp
  from readpage_start [OF ok p this]
  obtain s1 where s1: "wait_pulse bus (fmc_cmd bus 0x30 (page_address bus colnum pagenum (fmc_cmd bus 0x00 (nhw n)))) = (0, s1)"
    "keeps v (nhw n) s1 (Out (unat pagenum) (unat colnum))" by blast
  from in_bytes_ok [OF laws(4) keepsD(3) [OF s1(2)] k(2)] keepsD [OF s1(2)] nand_okD(4) [OF ok]
  obtain s2 where s2: "in_bytes bus (unat k) s1 = (window (cells v (nhw n) (unat pagenum)) (unat colnum) (unat k), s2)"
    "keeps v s1 s2 (Out (unat pagenum) (unat colnum + unat k))" by (auto simp: keeps_def)
  from wait_for_ready_ok [OF laws(1), of s2 0] keepsD(3) [OF s2(2)]
  obtain s3 where s3: "nand_wait_for_ready bus s2 = (NSTA_READY, s3)" "keeps v s2 s3 (Wait 0)" by auto
  have "keeps v (nhw n) s3 (Wait 0)" using keeps_trans [OF keeps_trans [OF s1(2) s2(2)] s3(2)] .
  moreover have "nand_readpage bus pagenum colnum k n =
      Some (0, window (cells v (nhw n) (unat pagenum)) (unat colnum) (unat k), n\<lparr>nhw := s3\<rparr>)"
    using s1(1) s2(1) s3(1) k(1) by (simp add: nand_readpage_def NAND_ECC_SECTOR_SIZE_def)
  ultimately show ?thesis by blast
qed

text \<open>The column of a code as the driver computes it.\<close>

lemma code_col_word:
  assumes "known_part n" and "512 * j \<le> msz n"
  shows "unat (page_mainsize n + 0x10 + of_nat j * 4 :: u16) = code_col n j"
proof -
  have "page_mainsize n = of_nat (msz n)" by (simp add: msz_def)
  then have "page_mainsize n + 0x10 + of_nat j * 4 = (of_nat (code_col n j) :: u16)"
    by (simp add: code_col_def)
  moreover have "code_col n j < 65536" using assms known_partD(1) [OF assms(1)] by (auto simp: code_col_def)
  ultimately show ?thesis by (simp add: unat_of_nat_small)
qed

lemma code_col_fits:
  assumes "known_part n" and "512 * j \<le> msz n"
  shows "code_col n j < csz n" "j \<le> 8"
  using assms known_partD(1) [OF assms(1)] by (auto simp: code_col_def)

text \<open>A read of whole sectors delivers what the codes make of them.\<close>

lemma readpage_sectors:
  assumes ok: "nand_ok bus v ecc n" and p: "unat pagenum < ppb n * 4096"
    and m: "0 < m" "512 * (j + m) \<le> msz n"
    and F: "F = cells v (nhw n) (unat pagenum)"
    and dec: "decode_all (map (\<lambda>i. (sector_data F i, sector_code n F i, ecc (sector_data F i))) [j..<j + m]) 0 = Some (ds, sta)"
  shows "\<exists>n'. nand_readpage bus pagenum (of_nat (512 * j)) (of_nat (512 * m)) n = Some (sta, ds, n') \<and>
    moved n n' \<and> keeps v (nhw n) (nhw n') (Wait 0)"
proof -
  note laws = nand_chipD [OF nand_okD(2) [OF ok]]
  note part = nand_okD(1) [OF ok]
  have fits: "code_col n (j + m) < csz n" "j + m \<le> 8" using code_col_fits [OF part m(2)] .
  have sz: "unat (of_nat (512 * j) :: u16) = 512 * j" "unat (of_nat (512 * m) :: u16) = 512 * m"
    by (rule unat_of_nat_small, use fits(2) in simp)+
  have "512 * j < csz n" using m known_partD(1) [OF part] by auto
  then have "unat (of_nat (512 * j) :: u16) < csz n" using sz by simp
  from readpage_start [OF ok p this]
  obtain s1 where s1: "wait_pulse bus (fmc_cmd bus 0x30
      (page_address bus (of_nat (512 * j)) pagenum (fmc_cmd bus 0x00 (nhw n)))) = (0, s1)"
    "keeps v (nhw n) s1 (Out (unat pagenum) (512 * j))" unfolding sz by blast
  have "512 * (j + m) \<le> csz n" using m(2) known_partD(1) [OF part] by auto
  from in_sectors_ok [OF laws(4,6) keepsD(3) [OF s1(2)] _ this, of "ecc_hdbuf n"] keepsD [OF s1(2)]
    nand_okD(4) [OF ok] fits(2) known_partD(3) [OF part]
  obtain s2 h where s2: "in_sectors bus m j (ecc_hdbuf n) s1 = Some (window F (512 * j) (512 * m), h, s2)"
    "keeps v s1 s2 (Out (unat pagenum) (512 * (j + m)))" "length h = 8"
    "\<forall>i. j \<le> i \<and> i < j + m \<longrightarrow> h ! i = ecc (sector_data F i)"
    by (auto simp: F)
  let ?i = "page_mainsize n + 0x10 + of_nat j * 4 :: u16"
  have jm: "512 * j \<le> msz n" using m(2) by simp
  have col: "unat ?i = code_col n j" using code_col_word [OF part jm] .
  let ?s3 = "fmc_cmd bus 0xE0 (fmc_addr bus (ucast (drop_bit 8 ?i)) (fmc_addr bus (ucast ?i) (fmc_cmd bus 0x05 s2)))"
  have "unat ?i < csz n" unfolding col using code_col_fits(1) [OF part jm] .
  from laws(3) [unfolded column_law_def, rule_format, OF keepsD(3) [OF s2(2)] this]
  have s3: "keeps v s2 ?s3 (Out (unat pagenum) (code_col n j))" unfolding col .
  have c3: "cells v ?s3 (unat pagenum) = F" "seen v ?s3 = None"
    using keepsD [OF s1(2)] keepsD [OF s2(2)] keepsD [OF s3] nand_okD(4) [OF ok] by (simp_all add: F)
  from in_codes_ok [OF laws(4) keepsD(3) [OF s3] c3(2), of m "ecc_rdbuf n"] fits known_partD(4) [OF part] c3(1)
  obtain s4 r where s4: "in_codes bus m j (ecc_rdbuf n) ?s3 = Some (r, s4)"
    "keeps v ?s3 s4 (Out (unat pagenum) (code_col n (j + m)))" "length r = 8"
    "\<forall>i. j \<le> i \<and> i < j + m \<longrightarrow> r ! i = sector_code n F i"
    by auto
  let ?xs = "map (\<lambda>i. (sector_data F i, sector_code n F i, ecc (sector_data F i))) [j..<j + m]"
  have "check_codes j 0 (length ?xs) r h ([] @ concat (map fst ?xs)) 0 =
      map_option (\<lambda>(ds, sta). ([] @ ds, sta)) (decode_all ?xs 0)"
    using s2(3,4) s4(3,4) fits(2) by (intro check_codes_decode) auto
  then have chk: "check_codes j 0 m r h (window F (512 * j) (512 * m)) 0 = Some (ds, sta)"
    using dec by (simp add: window_sectors comp_def)
  from wait_for_ready_ok [OF laws(1), of s4 0] keepsD(3) [OF s4(2)]
  obtain s5 where s5: "nand_wait_for_ready bus s4 = (NSTA_READY, s5)" "keeps v s4 s5 (Wait 0)" by auto
  let ?n = "n\<lparr>ecc_hdbuf := h, ecc_rdbuf := r, nhw := s5\<rparr>"
  have e: "unat (of_nat (512 * m) :: u16) mod 512 = 0" "unat (of_nat (512 * m) :: u16) div 512 = m"
    "unat (of_nat (512 * j) :: u16) div 512 = j" unfolding sz by simp_all
  have "nand_readpage bus pagenum (of_nat (512 * j)) (of_nat (512 * m)) n = Some (sta, ds, ?n)"
    using s1(1) s2(1) s4(1) s5(1) chk
    by (simp only: nand_readpage_def NAND_ECC_SECTOR_SIZE_def Let_def e bind.bind_lunit nand_delay_id) simp
  moreover have "keeps v (nhw n) s5 (Wait 0)"
    by (rule keeps_trans [OF keeps_trans [OF keeps_trans [OF keeps_trans [OF s1(2) s2(2)] s3] s4(2)] s5(2)])
  moreover have "moved n ?n" using s2(3) s4(3) known_partD(3,4) [OF part] by (simp add: moved_def)
  ultimately show ?thesis by (intro exI [of _ ?n]) simp
qed

text \<open>Sectors of which at most one bit went wrong since their codes were written.\<close>

lemma flip_changes_code:
  assumes "ecc_law ecc" and "length d = 512" and "q < 4096"
  shows "ecc (flip q d) \<noteq> ecc d"
proof
  assume "ecc (flip q d) = ecc d"
  with position_bits [OF assms] have "(of_nat q :: u16) = 0" "(0xFFF :: u16) XOR of_nat q = 0" by simp_all
  then show False by simp
qed

lemma decode_repairs:
  assumes law: "ecc_law ecc"
    and d: "\<And>i. i \<in> set is \<Longrightarrow> length (d i) = 512 \<and> C i = ecc (d i) \<and> (D i = d i \<or> (\<exists>q<4096. D i = flip q (d i)))"
  shows "decode_all (map (\<lambda>i. (D i, C i, ecc (D i))) is) sta =
    Some (concat (map d is), if \<forall>i\<in>set is. D i = d i then sta else NSTA_ECC1BITERR)"
  using d
proof (induction "is" arbitrary: sta)
  case Nil
  then show ?case by simp
next
  case (Cons i "is")
  have i: "length (d i) = 512" "C i = ecc (d i)" using Cons.prems [of i] by simp_all
  show ?case
  proof (cases "D i = d i")
    case True
    then show ?thesis using Cons.IH [of sta] Cons.prems i by (simp add: decode_sector_def)
  next
    case False
    then obtain q where q: "q < 4096" "D i = flip q (d i)" using Cons.prems [of i] by auto
    then have "decode_sector (D i) (C i) (ecc (D i)) sta = Some (d i, NSTA_ECC1BITERR)"
      using correct_one_bit [OF law i(1) q(1)] flip_changes_code [OF law i(1) q(1)] i(2)
      by (simp add: decode_sector_def)
    then show ?thesis using Cons.IH [of NSTA_ECC1BITERR] Cons.prems False by simp
  qed
qed

subsection \<open>Programming\<close>

text \<open>Sector \<open>i\<close> of a buffer, and the page register after the driver has sent a buffer for a column.\<close>

definition buf_sector :: "u8 list \<Rightarrow> nat \<Rightarrow> u8 list" where
  "buf_sector bs i = take 512 (drop (512 * i) bs)"

definition code_list :: "(u8 list \<Rightarrow> u32) \<Rightarrow> u8 list \<Rightarrow> u8 list" where
  "code_list ecc bs = concat (map (\<lambda>i. code_bytes 4 (ecc (buf_sector bs i))) [0..<length bs div 512])"

definition page_image :: "(u8 list \<Rightarrow> u32) \<Rightarrow> 's nand \<Rightarrow> (nat \<Rightarrow> u8) \<Rightarrow> nat \<Rightarrow> u8 list \<Rightarrow> nat \<Rightarrow> u8" where
  "page_image ecc n reg c bs =
     (if length bs mod 512 \<noteq> 0 then overwrite reg c bs
      else overwrite (overwrite reg c bs) (code_col n (c div 512)) (code_list ecc bs))"

lemma length_code_bytes [simp]: "length (code_bytes k w) = k"
  by (induction k arbitrary: w) simp_all

lemma out_sectors_ok:
  assumes "out_law bus v cols" and "unit_law bus v ecc"
  shows "phase v s = In p (512 * j) reg \<Longrightarrow> seen v s = None \<Longrightarrow> 512 * (j + k) \<le> cols \<Longrightarrow> j + k \<le> length hdbuf \<Longrightarrow>
    512 * k \<le> length bs \<Longrightarrow>
    \<exists>t h. out_sectors bus bs k j hdbuf s = Some (h, t) \<and>
      keeps v s t (In p (512 * (j + k)) (overwrite reg (512 * j) (take (512 * k) bs))) \<and>
      length h = length hdbuf \<and> (\<forall>i<j. h ! i = hdbuf ! i) \<and> (\<forall>i<k. h ! (j + i) = ecc (buf_sector bs i))"
proof (induction k arbitrary: s j reg hdbuf bs)
  case 0
  then show ?case by (simp add: keeps_def)
next
  case (Suc k)
  let ?d = "take 512 bs"
  have d: "length ?d = 512" using Suc.prems(5) by simp
  let ?s1 = "fmc_ecc_enable bus True s"
  have s1: "cells v ?s1 = cells v s" "phase v ?s1 = In p (512 * j) reg" "seen v ?s1 = Some []"
    using unit_lawD(1) [OF assms(2), where e = True and s = s] Suc.prems(1) by simp_all
  from out_bytes_ok [OF assms(1) s1(2), of 512 bs] Suc.prems(3,5) s1
  obtain s2 where s2: "out_bytes bus bs 512 ?s1 = Some s2" "cells v s2 = cells v s"
    "phase v s2 = In p (512 * Suc j) (overwrite reg (512 * j) ?d)" "seen v s2 = Some ?d"
    by auto
  obtain s3 where s3: "wait_fifo bus s2 = Some s3" "keeps v s2 s3 (phase v s2)"
    using unit_lawD(2) [OF assms(2)] by blast
  have "seen v s3 = Some ?d" using keepsD(2) [OF s3(2)] s2(4) by simp
  then obtain s4 where s4: "fmc_eccr bus s3 = (ecc ?d, s4)" "keeps v s3 s4 (phase v s3)"
    using unit_lawD(3) [OF assms(2) _ d] by blast
  let ?s5 = "fmc_ecc_enable bus False s4"
  have s5: "cells v ?s5 = cells v s4" "phase v ?s5 = phase v s4" "seen v ?s5 = None"
    using unit_lawD(1) [OF assms(2), where e = False and s = s4] by simp_all
  have k5: "keeps v s ?s5 (In p (512 * Suc j) (overwrite reg (512 * j) ?d))"
    using s5 keepsD [OF s3(2)] keepsD [OF s4(2)] s2 Suc.prems(2) by (simp add: keeps_def)
  let ?h = "hdbuf[j := ecc ?d]"
  have "seen v ?s5 = None" "512 * (Suc j + k) \<le> cols" "Suc j + k \<le> length ?h" "512 * k \<le> length (drop 512 bs)"
    using s5(3) Suc.prems(3-5) by simp_all
  from Suc.IH [OF keepsD(3) [OF k5] this]
  obtain u h where u: "out_sectors bus (drop 512 bs) k (Suc j) ?h ?s5 = Some (h, u)"
    "keeps v ?s5 u (In p (512 * (Suc j + k))
       (overwrite (overwrite reg (512 * j) ?d) (512 * Suc j) (take (512 * k) (drop 512 bs))))"
    "length h = length hdbuf" "\<forall>i<Suc j. h ! i = ?h ! i"
    "\<forall>i<k. h ! (Suc j + i) = ecc (buf_sector (drop 512 bs) i)" by auto
  have "512 * Suc j = 512 * j + length ?d" unfolding d by simp
  then have ow: "overwrite (overwrite reg (512 * j) ?d) (512 * Suc j) (take (512 * k) (drop 512 bs)) =
      overwrite reg (512 * j) (take (512 * Suc k) bs)"
    using overwrite_append [of reg "512 * j" ?d "take (512 * k) (drop 512 bs)"] by (simp add: take_add add.commute)
  have "out_sectors bus bs (Suc k) j hdbuf s = Some (h, u)"
    using s2 s3 s4 u(1) Suc.prems(4) by (simp add: NAND_ECC_SECTOR_SIZE_def arr_set_Some)
  moreover have "keeps v s u (In p (512 * (j + Suc k)) (overwrite reg (512 * j) (take (512 * Suc k) bs)))"
    using keeps_trans [OF k5 u(2)] unfolding ow by simp
  moreover have "\<forall>i<j. h ! i = hdbuf ! i" using u(4) by (simp add: less_Suc_eq)
  moreover have "\<forall>i<Suc k. h ! (j + i) = ecc (buf_sector bs i)"
  proof (intro allI impI)
    fix i assume i: "i < Suc k"
    show "h ! (j + i) = ecc (buf_sector bs i)"
    proof (cases i)
      case 0
      then show ?thesis using u(4) Suc.prems(4) by (simp add: buf_sector_def)
    next
      case (Suc i')
      have "buf_sector bs i = buf_sector (drop 512 bs) i'" by (simp add: Suc buf_sector_def add.commute)
      then show ?thesis using u(5) i Suc by simp
    qed
  qed
  ultimately show ?case using u(3) by blast
qed

lemma out_codes_ok:
  assumes "out_law bus v cols"
  shows "phase v s = In p (code_col n j) reg \<Longrightarrow> seen v s = None \<Longrightarrow> code_col n (j + k) \<le> cols \<Longrightarrow> j + k \<le> length h \<Longrightarrow>
    \<exists>t. out_codes bus k j h s = Some t \<and> keeps v s t (In p (code_col n (j + k))
      (overwrite reg (code_col n j) (concat (map (\<lambda>i. code_bytes 4 (h ! (j + i))) [0..<k]))))"
proof (induction k arbitrary: s j reg)
  case 0
  then show ?case by (simp add: keeps_def)
next
  case (Suc k)
  let ?b = "code_bytes 4 (h ! j)"
  have col: "code_col n j + 4 = code_col n (Suc j)" by (simp add: code_col_def)
  from out_bytes_ok [OF assms Suc.prems(1), of 4 ?b] Suc.prems(2,3)
  obtain s1 where s1: "out_bytes bus ?b 4 s = Some s1" "keeps v s s1 (In p (code_col n (Suc j)) (overwrite reg (code_col n j) ?b))"
    by (auto simp: code_col_def keeps_def)
  have "seen v s1 = None" "code_col n (Suc j + k) \<le> cols" "Suc j + k \<le> length h"
    using keepsD(2) [OF s1(2)] Suc.prems(2-4) by simp_all
  from Suc.IH [OF keepsD(3) [OF s1(2)] this]
  obtain u where u: "out_codes bus k (Suc j) h s1 = Some u" "keeps v s1 u (In p (code_col n (Suc j + k))
      (overwrite (overwrite reg (code_col n j) ?b) (code_col n (Suc j))
        (concat (map (\<lambda>i. code_bytes 4 (h ! (Suc j + i))) [0..<k]))))" by blast
  have "map (\<lambda>i. code_bytes 4 (h ! (j + i))) [0..<Suc k] = ?b # map (\<lambda>i. code_bytes 4 (h ! (Suc j + i))) [0..<k]"
    by (simp add: map_upt_Suc del: upt_Suc)
  then have ow: "overwrite (overwrite reg (code_col n j) ?b) (code_col n (Suc j))
        (concat (map (\<lambda>i. code_bytes 4 (h ! (Suc j + i))) [0..<k])) =
      overwrite reg (code_col n j) (concat (map (\<lambda>i. code_bytes 4 (h ! (j + i))) [0..<Suc k]))"
    using overwrite_append [of reg "code_col n j" ?b] by (simp add: col [symmetric] del: upt_Suc)
  have "out_codes bus (Suc k) j h s = Some u"
    using s1(1) u(1) Suc.prems(4) by (simp add: arr_get_Some)
  then show ?case using keeps_trans [OF s1(2) u(2)] unfolding ow by simp
qed

text \<open>A run of bytes the driver sends without, or with, codes.\<close>

definition sendable :: "'s nand \<Rightarrow> nat \<Rightarrow> nat \<Rightarrow> bool" where
  "sendable n c k \<longleftrightarrow> (if k mod 512 \<noteq> 0 then c + k \<le> csz n else c mod 512 = 0 \<and> c + k \<le> msz n)"

lemma write_data_ok:
  assumes ok: "nand_ok bus v ecc n" and s: "phase v s = In p (unat c) reg" "seen v s = None"
    and k: "sendable n (unat c) (unat k)" "unat k \<le> length bs"
  shows "\<exists>n' c'. write_data bus c bs k n s = Some n' \<and> moved n n' \<and>
    keeps v s (nhw n') (In p c' (page_image ecc n reg (unat c) (take (unat k) bs)))"
proof (cases "unat k mod 512 = 0")
  case False
  note laws = nand_chipD [OF nand_okD(2) [OF ok]]
  from out_bytes_ok [OF laws(8) s(1), of "unat k" bs] k False s(2)
  obtain t where "out_bytes bus bs (unat k) s = Some t"
    "keeps v s t (In p (unat c + unat k) (overwrite reg (unat c) (take (unat k) bs)))"
    by (auto simp: sendable_def keeps_def)
  then show ?thesis using False k(2)
    by (intro exI [of _ "n\<lparr>nhw := t\<rparr>"] exI [of _ "unat c + unat k"])
      (simp add: write_data_def NAND_ECC_SECTOR_SIZE_def page_image_def min_absorb2)
next
  case True
  note laws = nand_chipD [OF nand_okD(2) [OF ok]] and part = nand_okD(1) [OF ok]
  define j where "j = unat c div 512"
  define m where "m = unat k div 512"
  have c: "unat c = 512 * j" using k(1) True by (auto simp: sendable_def j_def)
  have km: "unat k = 512 * m" using True by (auto simp: m_def)
  have jm: "512 * (j + m) \<le> msz n" using k(1) True by (simp add: sendable_def c km)
  have fits: "code_col n (j + m) < csz n" "j + m \<le> 8" using code_col_fits [OF part jm] .
  have "512 * (j + m) \<le> csz n" using jm known_partD(1) [OF part] by auto
  from out_sectors_ok [OF laws(8,6) s(1) [unfolded c] s(2) this, of "ecc_hdbuf n" bs] fits(2)
    known_partD(3) [OF part] k(2) km
  obtain s1 h where s1: "out_sectors bus bs m j (ecc_hdbuf n) s = Some (h, s1)"
    "keeps v s s1 (In p (512 * (j + m)) (overwrite reg (512 * j) (take (512 * m) bs)))"
    "length h = 8" "\<forall>i<m. h ! (j + i) = ecc (buf_sector bs i)" by auto
  let ?i = "page_mainsize n + 0x10 + of_nat j * 4 :: u16"
  have jm': "512 * j \<le> msz n" using jm by simp
  have col: "unat ?i = code_col n j" using code_col_word [OF part jm'] .
  let ?s2 = "fmc_addr bus (ucast (drop_bit 8 ?i)) (fmc_addr bus (ucast ?i) (fmc_cmd bus 0x85 s1))"
  have "unat ?i < csz n" unfolding col using code_col_fits(1) [OF part jm'] .
  from laws(10) [unfolded move_law_def, rule_format, OF keepsD(3) [OF s1(2)] this]
  have s2: "keeps v s1 ?s2 (In p (code_col n j) (overwrite reg (512 * j) (take (512 * m) bs)))" unfolding col .
  have "seen v ?s2 = None" using keepsD(2) [OF s1(2)] keepsD(2) [OF s2] s(2) by simp
  from out_codes_ok [OF laws(8) keepsD(3) [OF s2] this, of m h] fits s1(3)
  obtain s3 where s3: "out_codes bus m j h ?s2 = Some s3"
    "keeps v ?s2 s3 (In p (code_col n (j + m)) (overwrite (overwrite reg (512 * j) (take (512 * m) bs)) (code_col n j)
      (concat (map (\<lambda>i. code_bytes 4 (h ! (j + i))) [0..<m]))))" by auto
  have "buf_sector (take (512 * m) bs) i = buf_sector bs i" if "i < m" for i
    using that by (simp add: buf_sector_def drop_take min_def)
  then have codes: "concat (map (\<lambda>i. code_bytes 4 (h ! (j + i))) [0..<m]) = code_list ecc (take (512 * m) bs)"
    using s1(4) k(2) km by (auto simp: code_list_def min_absorb2 intro!: arg_cong [of _ _ concat] map_cong)
  let ?n = "n\<lparr>ecc_hdbuf := h, nhw := s3\<rparr>"
  have e: "unat k mod 512 = 0" "unat k div 512 = m" "unat c div 512 = j" using True by (simp_all add: m_def j_def)
  have "write_data bus c bs k n s = Some ?n"
    using s1(1) s3(1)
    by (simp only: write_data_def NAND_ECC_SECTOR_SIZE_def Let_def e nand_delay_id) simp
  moreover have "moved n ?n" using s1(3) known_partD(3) [OF part] by (simp add: moved_def)
  moreover have "keeps v s s3 (In p (code_col n (j + m)) (page_image ecc n reg (unat c) (take (unat k) bs)))"
    using keeps_trans [OF keeps_trans [OF s1(2) s2] s3(2)] k(2) unfolding codes
    by (simp add: page_image_def km c min_absorb2)
  ultimately show ?thesis by (intro exI [of _ ?n] exI [of _ "code_col n (j + m)"]) simp
qed

text \<open>A page after programming: a bit survives where page and register have it.\<close>

definition programmed :: "(nat \<Rightarrow> u8) \<Rightarrow> (nat \<Rightarrow> u8) \<Rightarrow> nat \<Rightarrow> u8" where
  "programmed F reg x = F x AND reg x"

lemma program_confirm_ok:
  assumes "ready_law bus v" and "confirm_law bus v" and "phase v (nhw n) = In p c reg" and "seen v (nhw n) = None"
  shows "\<exists>t. program_confirm bus n = (0, n\<lparr>nhw := t\<rparr>) \<and> phase v t = Wait 0 \<and> seen v t = None \<and>
    cells v t = (cells v (nhw n))(p := programmed (cells v (nhw n) p) reg)"
proof -
  let ?t = "fmc_delay_us bus 200 (fmc_cmd bus 0x10 (nhw n))"
  from assms(2,3) obtain k where t: "k < 0x1FFFFFFF" "phase v ?t = Wait k" "seen v ?t = seen v (nhw n)"
    "cells v ?t = (cells v (nhw n))(p := \<lambda>x. cells v (nhw n) p x AND reg x)"
    unfolding confirm_law_def Let_def by blast
  from wait_for_ready_ok [OF assms(1), of ?t k] t(1,2)
  obtain u where "nand_wait_for_ready bus ?t = (NSTA_READY, u)" "keeps v ?t u (Wait 0)" by auto
  then show ?thesis using t(3,4) assms(4) by (auto simp: program_confirm_def keeps_def programmed_def [abs_def])
qed

lemma writepage_ok:
  assumes ok: "nand_ok bus v ecc n" and p: "unat pagenum < ppb n * 4096"
    and k: "sendable n (unat c) (unat k)" "unat k \<le> length bs" "unat c < csz n"
  shows "\<exists>n'. nand_writepage bus pagenum c bs k n = Some (0, n') \<and> moved n n' \<and> nand_ok bus v ecc n' \<and>
    cells v (nhw n') = (cells v (nhw n))(unat pagenum :=
      programmed (cells v (nhw n) (unat pagenum)) (page_image ecc n (\<lambda>_. 0xFF) (unat c) (take (unat k) bs)))"
proof -
  note laws = nand_chipD [OF nand_okD(2) [OF ok]]
  let ?s = "page_address bus c pagenum (fmc_cmd bus 0x80 (nhw n))"
  from laws(7) [unfolded program_law_def, rule_format, OF nand_okD(3) [OF ok] p k(3)]
  have s: "keeps v (nhw n) ?s (In (unat pagenum) (unat c) (\<lambda>_. 0xFF))" by simp
  have "seen v ?s = None" using keepsD(2) [OF s] nand_okD(4) [OF ok] by simp
  from write_data_ok [OF ok keepsD(3) [OF s] this k(1,2)]
  obtain n1 c' where n1: "write_data bus c bs k n ?s = Some n1" "moved n n1"
    "keeps v ?s (nhw n1) (In (unat pagenum) c' (page_image ecc n (\<lambda>_. 0xFF) (unat c) (take (unat k) bs)))" by blast
  have n1s: "seen v (nhw n1) = None" "cells v (nhw n1) = cells v (nhw n)"
    using keepsD [OF s] keepsD [OF n1(3)] nand_okD(4) [OF ok] by simp_all
  from program_confirm_ok [OF laws(1,11) keepsD(3) [OF n1(3)] n1s(1)] n1s(2)
  obtain t where t: "program_confirm bus n1 = (0, n1\<lparr>nhw := t\<rparr>)" "phase v t = Wait 0" "seen v t = None"
    "cells v t = (cells v (nhw n))(unat pagenum :=
      programmed (cells v (nhw n) (unat pagenum)) (page_image ecc n (\<lambda>_. 0xFF) (unat c) (take (unat k) bs)))" by auto
  have "moved n (n1\<lparr>nhw := t\<rparr>)" by (rule moved_trans [OF n1(2) moved_nhw])
  then show ?thesis
    using n1(1) t nand_ok_moved [OF ok, of "n1\<lparr>nhw := t\<rparr>"]
    by (intro exI [of _ "n1\<lparr>nhw := t\<rparr>"]) (simp add: nand_writepage_def)
qed

subsection \<open>Copying, erasing and comparing\<close>

lemma same_plane_iff:
  assumes "known_part n" and "unat a < ppb n * 4096" and "unat b < ppb n * 4096"
  shows "same_plane a b n = Some ((unat a div ppb n) mod 2 = (unat b div ppb n) mod 2)"
proof -
  have nz: "block_pagenum n \<noteq> 0" using assms(2) by (auto simp: ppb_def)
  have blk: "unat (ucast (w div ucast (block_pagenum n)) :: u16) = unat w div ppb n"
    if "unat w < ppb n * 4096" for w :: u32
  proof -
    have bp: "unat (ucast (block_pagenum n) :: u32) = ppb n"
      by (simp add: ppb_def)
    have "unat w div ppb n < 4096" using that less_mult_imp_div_less [of "unat w" 4096 "ppb n"] by (simp add: mult.commute)
    then have "unat (w div ucast (block_pagenum n)) < 65536" unfolding unat_div_distrib bp by simp
    then show ?thesis by (simp only: unat_ucast_low unat_div_distrib bp)
  qed
  have par: "x mod 2 = y mod 2 \<longleftrightarrow> unat x mod 2 = unat y mod 2" for x y :: u16
    by (simp add: word_unat_eq_iff unat_mod_distrib)
  show ?thesis unfolding same_plane_def Let_def par blk [OF assms(2)] blk [OF assms(3)] using nz by simp
qed

lemma copy_start:
  assumes "nand_ok bus v ecc n" and "unat a < ppb n * 4096"
  shows "\<exists>t. wait_pulse bus (fmc_cmd bus 0x35 (page_address bus 0 a (fmc_cmd bus 0x00 (nhw n)))) = (0, t) \<and>
    keeps v (nhw n) t (Loaded (unat a) (cells v (nhw n) (unat a)))"
proof -
  have "copy_law bus v (ppb n) (ppb n * 4096) (csz n)" by (rule nand_chipD(12) [OF nand_okD(2) [OF assms(1)]])
  from conjunct1 [OF this [unfolded copy_law_def], rule_format, OF nand_okD(3) [OF assms(1)] assms(2)]
  show ?thesis by simp
qed

lemma copy_dest:
  assumes "nand_ok bus v ecc n" and "phase v s = Loaded a reg" and "unat b < ppb n * 4096" and "unat c < csz n"
    and "(a div ppb n) mod 2 = (unat b div ppb n) mod 2"
  shows "keeps v s (page_address bus c b (fmc_cmd bus 0x85 s)) (In (unat b) (unat c) reg)"
proof -
  have "copy_law bus v (ppb n) (ppb n * 4096) (csz n)" by (rule nand_chipD(12) [OF nand_okD(2) [OF assms(1)]])
  from conjunct2 [OF this [unfolded copy_law_def], rule_format, OF assms(2-5)] show ?thesis by simp
qed

lemma copypage_ok:
  assumes ok: "nand_ok bus v ecc n" and ab: "unat a < ppb n * 4096" "unat b < ppb n * 4096"
    and plane: "(unat a div ppb n) mod 2 = (unat b div ppb n) mod 2"
  shows "\<exists>n'. nand_copypage_withoutwrite bus a b n = Some (0, n') \<and> moved n n' \<and> nand_ok bus v ecc n' \<and>
    cells v (nhw n') = (cells v (nhw n))(unat b := programmed (cells v (nhw n) (unat b)) (cells v (nhw n) (unat a)))"
proof -
  note laws = nand_chipD [OF nand_okD(2) [OF ok]]
  from copy_start [OF ok ab(1)] obtain s1 where
    s1: "wait_pulse bus (fmc_cmd bus 0x35 (page_address bus 0 a (fmc_cmd bus 0x00 (nhw n)))) = (0, s1)"
    "keeps v (nhw n) s1 (Loaded (unat a) (cells v (nhw n) (unat a)))" by blast
  let ?s2 = "page_address bus 0 b (fmc_cmd bus 0x85 s1)"
  have "unat (0 :: u16) < csz n" using known_partD(1) [OF nand_okD(1) [OF ok]] by auto
  from copy_dest [OF ok keepsD(3) [OF s1(2)] ab(2) this plane]
  have s2: "keeps v s1 ?s2 (In (unat b) 0 (cells v (nhw n) (unat a)))" by simp
  have c: "cells v ?s2 = cells v (nhw n)" "seen v ?s2 = None"
    using keepsD [OF s1(2)] keepsD [OF s2] nand_okD(4) [OF ok] by simp_all
  from program_confirm_ok [OF laws(1,11), of "n\<lparr>nhw := ?s2\<rparr>"] keepsD(3) [OF s2] c
  obtain t where t: "program_confirm bus (n\<lparr>nhw := ?s2\<rparr>) = (0, n\<lparr>nhw := t\<rparr>)" "phase v t = Wait 0" "seen v t = None"
    "cells v t = (cells v (nhw n))(unat b := programmed (cells v (nhw n) (unat b)) (cells v (nhw n) (unat a)))" by auto
  have "nand_copypage_withoutwrite bus a b n = Some (0, n\<lparr>nhw := t\<rparr>)"
    using s1(1) t(1) same_plane_iff [OF nand_okD(1) [OF ok] ab] plane
    by (simp add: nand_copypage_withoutwrite_def)
  then show ?thesis using t nand_ok_moved [OF ok, of "n\<lparr>nhw := t\<rparr>"] by (intro exI [of _ "n\<lparr>nhw := t\<rparr>"]) simp
qed

lemma copywrite_ok:
  assumes ok: "nand_ok bus v ecc n" and ab: "unat a < ppb n * 4096" "unat b < ppb n * 4096"
    and plane: "(unat a div ppb n) mod 2 = (unat b div ppb n) mod 2"
    and k: "sendable n (unat c) (unat k)" "unat k \<le> length bs" "unat c < csz n"
  shows "\<exists>n'. nand_copypage_withwrite bus a b c bs k n = Some (0, n') \<and> moved n n' \<and> nand_ok bus v ecc n' \<and>
    cells v (nhw n') = (cells v (nhw n))(unat b := programmed (cells v (nhw n) (unat b))
      (page_image ecc n (cells v (nhw n) (unat a)) (unat c) (take (unat k) bs)))"
proof -
  note laws = nand_chipD [OF nand_okD(2) [OF ok]]
  let ?reg = "page_image ecc n (cells v (nhw n) (unat a)) (unat c) (take (unat k) bs)"
  from copy_start [OF ok ab(1)] obtain s1 where
    s1: "wait_pulse bus (fmc_cmd bus 0x35 (page_address bus 0 a (fmc_cmd bus 0x00 (nhw n)))) = (0, s1)"
    "keeps v (nhw n) s1 (Loaded (unat a) (cells v (nhw n) (unat a)))" by blast
  let ?s2 = "page_address bus c b (fmc_cmd bus 0x85 s1)"
  from copy_dest [OF ok keepsD(3) [OF s1(2)] ab(2) k(3) plane]
  have s2: "keeps v s1 ?s2 (In (unat b) (unat c) (cells v (nhw n) (unat a)))" .
  have c: "cells v ?s2 = cells v (nhw n)" "seen v ?s2 = None"
    using keepsD [OF s1(2)] keepsD [OF s2] nand_okD(4) [OF ok] by simp_all
  from write_data_ok [OF ok keepsD(3) [OF s2] c(2) k(1,2)]
  obtain n1 c' where n1: "write_data bus c bs k n ?s2 = Some n1" "moved n n1" "keeps v ?s2 (nhw n1) (In (unat b) c' ?reg)"
    by blast
  have n1s: "seen v (nhw n1) = None" "cells v (nhw n1) = cells v (nhw n)" using c keepsD [OF n1(3)] by simp_all
  from program_confirm_ok [OF laws(1,11) keepsD(3) [OF n1(3)] n1s(1)] n1s(2)
  obtain t where t: "program_confirm bus n1 = (0, n1\<lparr>nhw := t\<rparr>)" "phase v t = Wait 0" "seen v t = None"
    "cells v t = (cells v (nhw n))(unat b := programmed (cells v (nhw n) (unat b)) ?reg)" by auto
  have "moved n (n1\<lparr>nhw := t\<rparr>)" by (rule moved_trans [OF n1(2) moved_nhw])
  moreover have "nand_copypage_withwrite bus a b c bs k n = Some (0, n1\<lparr>nhw := t\<rparr>)"
    using s1(1) n1(1) t(1) same_plane_iff [OF nand_okD(1) [OF ok] ab] plane
    by (simp add: nand_copypage_withwrite_def)
  ultimately show ?thesis
    using t nand_ok_moved [OF ok, of "n1\<lparr>nhw := t\<rparr>"] by (intro exI [of _ "n1\<lparr>nhw := t\<rparr>"]) simp
qed

lemma eraseblock_ok:
  assumes ok: "nand_ok bus v ecc n" and b: "b < 4096"
  shows "\<exists>n'. nand_eraseblock bus (of_nat b) n = (0, n') \<and> moved n n' \<and> nand_ok bus v ecc n' \<and>
    cells v (nhw n') = (\<lambda>p. if p div ppb n = b then (\<lambda>_. 0xFF) else cells v (nhw n) p)"
proof -
  note laws = nand_chipD [OF nand_okD(2) [OF ok]]
  let ?row = "if nand_id n = MT29F16G08ABABA then push_bit 7 (of_nat b :: u32)
      else if nand_id n = MT29F4G08ABADA then push_bit 6 (of_nat b) else of_nat b"
  have row: "?row = of_nat (b * ppb n)"
    using nand_okD(1) [OF ok] by (auto simp: known_part_def ppb_def push_bit_eq_mult MT29F16G08ABABA_def MT29F4G08ABADA_def)
  define r where "r = ?row"
  let ?t = "fmc_delay_ms bus 4 (fmc_cmd bus 0xD0 (fmc_addr bus (ucast (drop_bit 16 r))
                (fmc_addr bus (ucast (drop_bit 8 r)) (fmc_addr bus (ucast r) (fmc_cmd bus 0x60 (nhw n))))))"
  have "b * ppb n < ppb n * 4096" using b known_partD(1) [OF nand_okD(1) [OF ok]] by auto
  from laws(13) [unfolded erase_law_def Let_def, rule_format, OF nand_okD(3) [OF ok] this]
  obtain k where t: "k < 0x1FFFFFFF" "phase v ?t = Wait k" "seen v ?t = None"
    "cells v ?t = (\<lambda>p. if p div ppb n = b then (\<lambda>_. 0xFF) else cells v (nhw n) p)"
    using nand_okD(4) [OF ok] unfolding r_def row by auto
  from wait_for_ready_ok [OF laws(1), of ?t k] t(1,2)
  obtain u where u: "nand_wait_for_ready bus ?t = (NSTA_READY, u)" "keeps v ?t u (Wait 0)" by auto
  have "nand_eraseblock bus (of_nat b) n = (0, n\<lparr>nhw := u\<rparr>)"
    unfolding nand_eraseblock_def r_def [symmetric] using u(1) by (simp add: Let_def)
  then show ?thesis using t(3,4) keepsD [OF u(2)] nand_ok_moved [OF ok, of "n\<lparr>nhw := u\<rparr>"]
    by (intro exI [of _ "n\<lparr>nhw := u\<rparr>"]) simp
qed

text \<open>The number of words at the start of a run that have a value.\<close>

fun equal_words :: "(nat \<Rightarrow> u8) \<Rightarrow> nat \<Rightarrow> u32 \<Rightarrow> nat \<Rightarrow> nat" where
  "equal_words F c cmpval 0 = 0"
| "equal_words F c cmpval (Suc k) =
     (if word_le (window F c 4) \<noteq> cmpval then 0 else Suc (equal_words F (c + 4) cmpval k))"

lemma compare_words_ok:
  assumes "in32_law bus v cols"
  shows "phase v s = Out p c \<Longrightarrow> seen v s = None \<Longrightarrow> c + 4 * k \<le> cols \<Longrightarrow>
    \<exists>t c'. compare_words bus cmpval k s = (equal_words (cells v s p) c cmpval k, t) \<and> keeps v s t (Out p c')"
proof (induction k arbitrary: s c)
  case 0
  then show ?case by (simp add: keeps_def)
next
  case (Suc k)
  from Suc.prems assms obtain t where t: "fmc_in32 bus s = (word_le (window (cells v s p) c 4), t)"
    "keeps v s t (Out p (c + 4))" unfolding in32_law_def by fastforce
  show ?case
  proof (cases "word_le (window (cells v s p) c 4) = cmpval")
    case False
    then show ?thesis using t by auto
  next
    case True
    from Suc.IH [OF keepsD(3) [OF t(2)]] Suc.prems(2,3) keepsD [OF t(2)]
    obtain u c' where "compare_words bus cmpval k t = (equal_words (cells v s p) (c + 4) cmpval k, u)"
      "keeps v t u (Out p c')" by auto
    then show ?thesis using t True by (auto intro: keeps_trans)
  qed
qed

lemma readpagecomp_ok:
  assumes ok: "nand_ok bus v ecc n" and p: "unat pagenum < ppb n * 4096"
    and k: "unat c < csz n" "unat c + 4 * unat k \<le> csz n"
  shows "\<exists>t. nand_readpagecomp bus pagenum c cmpval k n =
      (0, Some (of_nat (equal_words (cells v (nhw n) (unat pagenum)) (unat c) cmpval (unat k))), n\<lparr>nhw := t\<rparr>) \<and>
    keeps v (nhw n) t (Wait 0)"
proof -
  note laws = nand_chipD [OF nand_okD(2) [OF ok]]
  from readpage_start [OF ok p k(1)]
  obtain s1 where s1: "wait_pulse bus (fmc_cmd bus 0x30 (page_address bus c pagenum (fmc_cmd bus 0x00 (nhw n)))) = (0, s1)"
    "keeps v (nhw n) s1 (Out (unat pagenum) (unat c))" by blast
  from compare_words_ok [OF laws(5) keepsD(3) [OF s1(2)] _ k(2)] keepsD [OF s1(2)] nand_okD(4) [OF ok]
  obtain s2 c' where s2: "compare_words bus cmpval (unat k) s1 =
      (equal_words (cells v (nhw n) (unat pagenum)) (unat c) cmpval (unat k), s2)"
    "keeps v s1 s2 (Out (unat pagenum) c')" by fastforce
  from wait_for_ready_ok [OF laws(1), of s2 0] keepsD(3) [OF s2(2)]
  obtain s3 where s3: "nand_wait_for_ready bus s2 = (NSTA_READY, s3)" "keeps v s2 s3 (Wait 0)" by auto
  have "keeps v (nhw n) s3 (Wait 0)" using keeps_trans [OF keeps_trans [OF s1(2) s2(2)] s3(2)] .
  then show ?thesis using s1(1) s2(1) s3(1) by (auto simp: nand_readpagecomp_def)
qed

section \<open>An executable chip\<close>

text \<open>
  A chip with blocks of 64 pages behind a controller that computes the code \<open>hamming\<close>. It keeps
  the last command and the address bytes since then; the ready line falls for one poll after a
  page is fetched.
\<close>

record nsim =
  array :: "nat \<Rightarrow> nat \<Rightarrow> u8"
  doing :: phase
  last_cmd :: u8
  addrs :: "u8 list"
  acc :: "u8 list option"
  edge :: bool

definition addr_col :: "u8 list \<Rightarrow> nat" where
  "addr_col as = unat (as ! 0) + 256 * unat (as ! 1)"

definition addr_row :: "nat \<Rightarrow> u8 list \<Rightarrow> nat" where
  "addr_row i as = unat (as ! i) + 256 * unat (as ! (i + 1)) + 65536 * unat (as ! (i + 2))"

definition nsim_cmd :: "u8 \<Rightarrow> nsim \<Rightarrow> nsim" where
  "nsim_cmd c s0 =
     (let s = s0\<lparr>last_cmd := c\<rparr> in
      if c = 0x30 then s\<lparr>doing := Out (addr_row 2 (addrs s)) (addr_col (addrs s)), edge := True\<rparr>
      else if c = 0x35 then s\<lparr>doing := Loaded (addr_row 2 (addrs s)) (array s (addr_row 2 (addrs s))), edge := True\<rparr>
      else if c = 0xE0 then
        (case doing s of Out p _ \<Rightarrow> s\<lparr>doing := Out p (addr_col (addrs s))\<rparr> | _ \<Rightarrow> s)
      else if c = 0x10 then
        (case doing s of
           In p _ reg \<Rightarrow> s\<lparr>doing := Wait 3, array := (array s)(p := programmed (array s p) reg)\<rparr>
         | _ \<Rightarrow> s)
      else if c = 0xD0 then
        s\<lparr>doing := Wait 5, array := (\<lambda>p. if p div 64 = addr_row 0 (addrs s) div 64 then (\<lambda>_. 0xFF) else array s p)\<rparr>
      else s\<lparr>addrs := []\<rparr>)"

definition nsim_addr :: "u8 \<Rightarrow> nsim \<Rightarrow> nsim" where
  "nsim_addr b s0 =
     (let s = s0\<lparr>addrs := addrs s0 @ [b]\<rparr> in
      if last_cmd s = 0x80 \<and> length (addrs s) = 5
      then s\<lparr>doing := In (addr_row 2 (addrs s)) (addr_col (addrs s)) (\<lambda>_. 0xFF)\<rparr>
      else if last_cmd s = 0x85 then
        (case doing s of
           Loaded p reg \<Rightarrow>
             if length (addrs s) = 5 then s\<lparr>doing := In (addr_row 2 (addrs s)) (addr_col (addrs s)) reg\<rparr> else s
         | In p c reg \<Rightarrow> if length (addrs s) = 2 then s\<lparr>doing := In p (addr_col (addrs s)) reg\<rparr> else s
         | _ \<Rightarrow> s)
      else s)"

definition nsim_out :: "u8 \<Rightarrow> nsim \<Rightarrow> nsim" where
  "nsim_out b s =
     (case doing s of
        In p c reg \<Rightarrow> s\<lparr>doing := In p (Suc c) (reg(c := b)), acc := map_option (\<lambda>bs. bs @ [b]) (acc s)\<rparr>
      | _ \<Rightarrow> s)"

definition nsim_in :: "nsim \<Rightarrow> u8 \<times> nsim" where
  "nsim_in s =
     (if last_cmd s = 0x70 then
        (case doing s of Wait (Suc k) \<Rightarrow> (0, s\<lparr>doing := Wait k\<rparr>) | _ \<Rightarrow> (0x40, s\<lparr>doing := Wait 0\<rparr>))
      else case doing s of
        Out p c \<Rightarrow> (array s p c, s\<lparr>doing := Out p (Suc c), acc := map_option (\<lambda>bs. bs @ [array s p c]) (acc s)\<rparr>)
      | _ \<Rightarrow> (0, s))"

definition nsim_bus :: "nsim fmc" where
  "nsim_bus = \<lparr>fmc_cmd = nsim_cmd, fmc_addr = nsim_addr, fmc_out = nsim_out, fmc_in = nsim_in,
     fmc_out32 = (\<lambda>w s. fold nsim_out (code_bytes 4 w) s),
     fmc_in32 = (\<lambda>s. case doing s of
        Out p c \<Rightarrow> (word_le (window (array s p) c 4), s\<lparr>doing := Out p (c + 4)\<rparr>) | _ \<Rightarrow> (0, s)),
     fmc_rb = (\<lambda>s. if edge s then (0, s\<lparr>edge := False\<rparr>) else (1, s)),
     fmc_ecc_enable = (\<lambda>e s. s\<lparr>acc := (if e then Some [] else None)\<rparr>),
     fmc_fifo_empty = (\<lambda>s. (True, s)),
     fmc_eccr = (\<lambda>s. (case acc s of Some bs \<Rightarrow> hamming bs | None \<Rightarrow> 0, s)),
     fmc_delay_us = (\<lambda>_ s. s), fmc_delay_ms = (\<lambda>_ s. s)\<rparr>"

definition nsim_view :: "nsim nand_view" where
  "nsim_view = \<lparr>cells = array,
     phase = (\<lambda>s. if last_cmd s = 0x70 then (case doing s of Wait k \<Rightarrow> Wait k | _ \<Rightarrow> Wait 0) else doing s),
     seen = acc\<rparr>"

lemmas nsim_defs = nsim_bus_def nsim_view_def nsim_cmd_def nsim_addr_def nsim_in_def nsim_out_def keeps_def

lemma byte_of:
  "unat (ucast (drop_bit k w) :: u8) = unat w div 2 ^ k mod 256"
  "unat (ucast w :: u8) = unat (w :: 'a::len word) mod 256"
proof -
  show low: "unat (ucast x :: u8) = unat x mod 256" for x :: "'a word"
    by (simp add: unsigned_ucast_eq take_bit_eq_mod)
  have "unat (drop_bit k w) = unat w div 2 ^ k"
    by (simp only: drop_bit_eq_div [where 'a = nat, symmetric] unat_drop_bit_eq)
  then show "unat (ucast (drop_bit k w) :: u8) = unat w div 2 ^ k mod 256" unfolding low by simp
qed

lemma bytes_u16: "unat (ucast w :: u8) + 256 * unat (ucast (drop_bit 8 w) :: u8) = unat (w :: u16)"
proof -
  have "unat w div 256 < 256" using unat_u16_less [of w] by simp
  then show ?thesis using div_mult_mod_eq [of "unat w" 256] unfolding byte_of(1) unfolding byte_of(2) by simp
qed

lemma bytes_u32:
  assumes "unat w < 16777216"
  shows "unat (ucast w :: u8) + 256 * unat (ucast (drop_bit 8 w) :: u8) + 65536 * unat (ucast (drop_bit 16 w) :: u8) =
    unat (w :: u32)"
proof -
  have "unat w div 65536 = unat w div 256 div 256" using div_mult2_eq [of "unat w" 256 256] by simp
  moreover have "unat w div 65536 mod 256 = unat w div 65536" using assms by simp
  ultimately have "unat w mod 256 + 256 * (unat w div 256 mod 256) + 65536 * (unat w div 65536 mod 256) = unat w"
    using div_mult_mod_eq [of "unat w" 256] div_mult_mod_eq [of "unat w div 256" 256] by linarith
  moreover have "(2 :: nat) ^ 8 = 256" "(2 :: nat) ^ 16 = 65536" by simp_all
  ultimately show ?thesis unfolding byte_of(1) unfolding byte_of(2) by (simp only:)
qed

definition five :: "u16 \<Rightarrow> u32 \<Rightarrow> u8 list" where
  "five c p = [ucast c, ucast (drop_bit 8 c), ucast p, ucast (drop_bit 8 p), ucast (drop_bit 16 p)]"

lemma addr_bytes:
  "addr_col (five c p) = unat c"
  "unat p < 16777216 \<Longrightarrow> addr_row 2 (five c p) = unat p"
  using bytes_u16 [of c] bytes_u32 [of p]
  by (simp_all only: five_def addr_col_def addr_row_def nth_Cons_0 numeral_2_eq_2 One_nat_def add_Suc_right
    add_0_right nth_Cons_Suc)

lemma five_decode:
  "c < 65536 \<Longrightarrow> addr_col (five (of_nat c) p) = c"
  "q < 16777216 \<Longrightarrow> addr_row 2 (five w (of_nat q)) = q"
  by (simp_all only: addr_bytes unat_of_nat_small [where 'a = 16]) (simp_all add: addr_bytes unat_of_nat_small)

text \<open>Five address bytes after a command that does not act on them.\<close>

lemma nsim_five:
  assumes "last_cmd s \<noteq> 0x80" and "last_cmd s \<noteq> 0x85" and "addrs s = []"
  shows "page_address nsim_bus c p s = s\<lparr>addrs := five c p\<rparr>"
  using assms by (simp add: page_address_def nsim_bus_def nsim_addr_def Let_def five_def)

lemma nsim_pulse:
  assumes "edge s"
  shows "wait_pulse nsim_bus s = (0, s\<lparr>edge := False\<rparr>)"
proof -
  have many: "(0x1FFFFFF :: nat) = Suc 0x1FFFFFE" by simp
  have "nand_waitrb nsim_bus 0 s = (0, s\<lparr>edge := False\<rparr>)"
    "nand_waitrb nsim_bus 1 (s\<lparr>edge := False\<rparr>) = (0, s\<lparr>edge := False\<rparr>)"
    unfolding nand_waitrb_def many waitrb_loop.simps using assms by (simp_all add: nsim_bus_def)
  then show ?thesis by (simp add: wait_pulse_def)
qed

lemma nsim_ready: "ready_law nsim_bus nsim_view"
  unfolding ready_law_def
proof (intro allI impI)
  fix s k
  assume a: "phase nsim_view s = Wait k \<or> k = 0 \<and> (\<exists>p c. phase nsim_view s = Out p c)"
  let ?r = "fmc_in nsim_bus (fmc_cmd nsim_bus 0x70 s)"
  have "(fst ?r AND NSTA_READY \<noteq> 0 \<longleftrightarrow> k = 0) \<and> keeps nsim_view s (snd ?r) (Wait (k - 1))"
    using a by (cases "doing s"; cases k) (auto simp: nsim_defs NSTA_READY_def split: if_splits nat.splits)
  then show "\<exists>b t. ?r = (b, t) \<and> (b AND NSTA_READY \<noteq> 0 \<longleftrightarrow> k = 0) \<and> keeps nsim_view s t (Wait (k - 1))"
    by (metis prod.collapse)
qed

lemma nsim_read: "read_law nsim_bus nsim_view 262144 2112"
  unfolding read_law_def
proof (intro allI impI)
  fix s and p c :: nat
  assume a: "phase nsim_view s = Wait 0" "p < 262144" "c < 2112"
  let ?s = "s\<lparr>last_cmd := 0x30, addrs := five (of_nat c) (of_nat p), doing := Out p c, edge := True\<rparr>"
  have "page_address nsim_bus (of_nat c) (of_nat p) (fmc_cmd nsim_bus 0x00 s) =
      s\<lparr>last_cmd := 0, addrs := five (of_nat c) (of_nat p)\<rparr>"
    by (subst nsim_five) (simp_all add: nsim_bus_def nsim_cmd_def)
  then have "fmc_cmd nsim_bus 0x30 (page_address nsim_bus (of_nat c) (of_nat p) (fmc_cmd nsim_bus 0x00 s)) = ?s"
    using five_decode [of c] five_decode(2) [of p] a by (simp add: nsim_bus_def nsim_cmd_def)
  moreover have "wait_pulse nsim_bus ?s = (0, ?s\<lparr>edge := False\<rparr>)" by (rule nsim_pulse) simp
  ultimately show "\<exists>t. wait_pulse nsim_bus (fmc_cmd nsim_bus 0x30 (page_address nsim_bus (of_nat c) (of_nat p)
      (fmc_cmd nsim_bus 0x00 s))) = (0, t) \<and> keeps nsim_view s t (Out p c)"
    by (intro exI [of _ "?s\<lparr>edge := False\<rparr>"]) (simp add: keeps_def nsim_view_def)
qed

lemma nsim_column: "column_law nsim_bus nsim_view 2112"
  unfolding column_law_def
proof (intro allI impI)
  fix s p c and w :: u16
  assume "phase nsim_view s = Out p c" "unat w < 2112"
  then show "keeps nsim_view s (fmc_cmd nsim_bus 0xE0 (fmc_addr nsim_bus (ucast (drop_bit 8 w))
      (fmc_addr nsim_bus (ucast w) (fmc_cmd nsim_bus 0x05 s)))) (Out p (unat w))"
    using bytes_u16 [of w] by (auto simp: nsim_defs Let_def addr_col_def split: if_splits phase.splits)
qed

lemma nsim_in: "in_law nsim_bus nsim_view 2112"
  by (auto simp: in_law_def nsim_defs split: if_splits phase.splits)

lemma nsim_in32: "in32_law nsim_bus nsim_view 2112"
  by (auto simp: in32_law_def nsim_defs split: if_splits phase.splits)

lemma nsim_unit: "unit_law nsim_bus nsim_view hamming"
proof -
  have "wait_fifo nsim_bus s = Some s" for s by (subst wait_fifo.simps) (simp add: nsim_bus_def)
  then show ?thesis by (auto simp: unit_law_def nsim_defs Let_def)
qed

text \<open>Five address bytes after a command that takes them to the page register.\<close>

lemma nsim_five_program:
  assumes "last_cmd s = 0x80" and "addrs s = []"
  shows "page_address nsim_bus c p s = s\<lparr>addrs := five c p, doing := In (addr_row 2 (five c p)) (unat c) (\<lambda>_. 0xFF)\<rparr>"
  using assms addr_bytes(1) [of c p] by (simp add: page_address_def nsim_bus_def nsim_addr_def Let_def five_def)

lemma nsim_addr_copy:
  assumes "last_cmd s = 0x85" and "doing s = Loaded q reg"
  shows "length (addrs s) < 4 \<Longrightarrow> nsim_addr b s = s\<lparr>addrs := addrs s @ [b]\<rparr>"
    and "length (addrs s) = 4 \<Longrightarrow> nsim_addr b s =
      s\<lparr>addrs := addrs s @ [b], doing := In (addr_row 2 (addrs s @ [b])) (addr_col (addrs s @ [b])) reg\<rparr>"
  using assms by (simp_all add: nsim_addr_def)

lemma nsim_five_copy:
  assumes "last_cmd s = 0x85" and "addrs s = []" and "doing s = Loaded q reg"
  shows "page_address nsim_bus c p s = s\<lparr>addrs := five c p, doing := In (addr_row 2 (five c p)) (unat c) reg\<rparr>"
proof -
  have "fmc_addr nsim_bus = nsim_addr" by (simp add: nsim_bus_def)
  moreover have "addr_col (five c p) = unat c" by (rule addr_bytes)
  ultimately show ?thesis
    using assms by (simp add: page_address_def nsim_addr_copy five_def)
qed

lemma nsim_program: "program_law nsim_bus nsim_view 262144 2112"
  unfolding program_law_def
proof (intro allI impI)
  fix s and p c :: nat
  assume a: "p < 262144" "c < 2112"
  have "unat (of_nat c :: u16) = c" using a by (intro unat_of_nat_small) simp
  moreover have "page_address nsim_bus (of_nat c) (of_nat p) (fmc_cmd nsim_bus 0x80 s) =
      s\<lparr>last_cmd := 0x80, addrs := five (of_nat c) (of_nat p),
        doing := In (addr_row 2 (five (of_nat c) (of_nat p))) (unat (of_nat c :: u16)) (\<lambda>_. 0xFF)\<rparr>"
    by (subst nsim_five_program) (simp_all add: nsim_bus_def nsim_cmd_def)
  ultimately show "keeps nsim_view s (page_address nsim_bus (of_nat c) (of_nat p) (fmc_cmd nsim_bus 0x80 s))
      (In p c (\<lambda>_. 0xFF))"
    using five_decode(2) [of p] a by (simp add: keeps_def nsim_view_def)
qed

lemma nsim_out_law: "out_law nsim_bus nsim_view 2112"
  by (auto simp: out_law_def nsim_defs Let_def split: if_splits phase.splits)

lemma nsim_out_list:
  "last_cmd s \<noteq> 0x70 \<Longrightarrow> doing s = In p c reg \<Longrightarrow> acc s = None \<Longrightarrow>
     fold nsim_out bs s = s\<lparr>doing := In p (c + length bs) (overwrite reg c bs)\<rparr>"
proof (induction bs arbitrary: s c reg)
  case Nil
  then show ?case by simp
next
  case (Cons b bs)
  have "nsim_out b s = s\<lparr>doing := In p (Suc c) (overwrite reg c [b])\<rparr>"
    using Cons.prems by (simp add: nsim_out_def overwrite_one)
  then show ?case using Cons overwrite_append [of reg c "[b]" bs] by simp
qed

lemma nsim_out32: "out32_law nsim_bus nsim_view 2112"
  unfolding out32_law_def
proof (intro allI impI)
  fix s p c reg w
  assume a: "phase nsim_view s = In p c reg" "seen nsim_view s = None"
  then have "last_cmd s \<noteq> 0x70" "doing s = In p c reg" "acc s = None"
    by (auto simp: nsim_view_def split: if_splits phase.splits)
  then show "keeps nsim_view s (fmc_out32 nsim_bus w s) (In p (c + 4) (overwrite reg c (code_bytes 4 w)))"
    by (simp add: nsim_bus_def nsim_out_list keeps_def nsim_view_def)
qed

lemma nsim_move: "move_law nsim_bus nsim_view 2112"
  unfolding move_law_def
proof (intro allI impI)
  fix s p c reg and w :: u16
  assume "phase nsim_view s = In p c reg" "unat w < 2112"
  then show "keeps nsim_view s (fmc_addr nsim_bus (ucast (drop_bit 8 w)) (fmc_addr nsim_bus (ucast w)
      (fmc_cmd nsim_bus 0x85 s))) (In p (unat w) reg)"
    using bytes_u16 [of w] by (auto simp: nsim_defs Let_def addr_col_def split: if_splits phase.splits)
qed

lemma nsim_confirm: "confirm_law nsim_bus nsim_view"
  by (auto simp: confirm_law_def nsim_defs Let_def programmed_def [abs_def] split: if_splits phase.splits)

lemma nsim_copy: "copy_law nsim_bus nsim_view 64 262144 2112"
  unfolding copy_law_def
proof (intro conjI allI impI)
  fix s and p :: nat
  assume a: "phase nsim_view s = Wait 0" "p < 262144"
  let ?s = "s\<lparr>last_cmd := 0x35, addrs := five 0 (of_nat p), doing := Loaded p (array s p), edge := True\<rparr>"
  have "page_address nsim_bus 0 (of_nat p) (fmc_cmd nsim_bus 0x00 s) = s\<lparr>last_cmd := 0, addrs := five 0 (of_nat p)\<rparr>"
    by (subst nsim_five) (simp_all add: nsim_bus_def nsim_cmd_def)
  then have "fmc_cmd nsim_bus 0x35 (page_address nsim_bus 0 (of_nat p) (fmc_cmd nsim_bus 0x00 s)) = ?s"
    using five_decode(2) [of p] a by (simp add: nsim_bus_def nsim_cmd_def)
  moreover have "wait_pulse nsim_bus ?s = (0, ?s\<lparr>edge := False\<rparr>)" by (rule nsim_pulse) simp
  ultimately show "\<exists>t. wait_pulse nsim_bus (fmc_cmd nsim_bus 0x35 (page_address nsim_bus 0 (of_nat p)
      (fmc_cmd nsim_bus 0x00 s))) = (0, t) \<and> keeps nsim_view s t (Loaded p (cells nsim_view s p))"
    by (intro exI [of _ "?s\<lparr>edge := False\<rparr>"]) (simp add: keeps_def nsim_view_def)
next
  fix s p reg and q c :: nat
  assume a: "phase nsim_view s = Loaded p reg" "q < 262144" "c < 2112"
  have d: "doing s = Loaded p reg" using a by (auto simp: nsim_view_def split: if_splits phase.splits)
  have "unat (of_nat c :: u16) = c" using a by (intro unat_of_nat_small) simp
  moreover have "page_address nsim_bus (of_nat c) (of_nat q) (fmc_cmd nsim_bus 0x85 s) =
      s\<lparr>last_cmd := 0x85, addrs := five (of_nat c) (of_nat q),
        doing := In (addr_row 2 (five (of_nat c) (of_nat q))) (unat (of_nat c :: u16)) reg\<rparr>"
    by (subst nsim_five_copy [of _ p reg]) (simp_all add: nsim_bus_def nsim_cmd_def d)
  ultimately show "keeps nsim_view s (page_address nsim_bus (of_nat c) (of_nat q) (fmc_cmd nsim_bus 0x85 s)) (In q c reg)"
    using five_decode(2) [of q] a by (simp add: keeps_def nsim_view_def)
qed

lemma nsim_erase: "erase_law nsim_bus nsim_view 64 262144"
  unfolding erase_law_def
proof (intro allI impI)
  fix s and b :: nat
  assume b: "b * 64 < 262144"
  define row where "row = (of_nat (b * 64) :: u32)"
  have row: "unat row = b * 64" unfolding row_def using b by (intro unat_of_nat_small) simp
  have a: "addr_row 0 [ucast row, ucast (drop_bit 8 row), ucast (drop_bit 16 row)] = b * 64"
    using bytes_u32 [of row] row b by (simp add: addr_row_def)
  let ?t = "fmc_delay_ms nsim_bus 4 (fmc_cmd nsim_bus 0xD0 (fmc_addr nsim_bus (ucast (drop_bit 16 row))
     (fmc_addr nsim_bus (ucast (drop_bit 8 row)) (fmc_addr nsim_bus (ucast row) (fmc_cmd nsim_bus 0x60 s)))))"
  have "?t = s\<lparr>last_cmd := 0xD0, addrs := [ucast row, ucast (drop_bit 8 row), ucast (drop_bit 16 row)],
      doing := Wait 5, array := (\<lambda>p. if p div 64 = b then (\<lambda>_. 0xFF) else array s p)\<rparr>"
    by (simp add: nsim_bus_def nsim_cmd_def nsim_addr_def Let_def a cong: if_cong)
  then show "let row = (of_nat (b * 64) :: u32);
      t = fmc_delay_ms nsim_bus 4 (fmc_cmd nsim_bus 0xD0 (fmc_addr nsim_bus (ucast (drop_bit 16 row))
        (fmc_addr nsim_bus (ucast (drop_bit 8 row)) (fmc_addr nsim_bus (ucast row) (fmc_cmd nsim_bus 0x60 s)))))
     in (\<exists>k<0x1FFFFFFF. phase nsim_view t = Wait k) \<and> seen nsim_view t = seen nsim_view s \<and>
       cells nsim_view t = (\<lambda>p. if p div 64 = b then (\<lambda>_. 0xFF) else cells nsim_view s p)"
    unfolding Let_def row_def [symmetric] by (simp add: nsim_view_def cong: if_cong)
qed

lemma nsim_chip: "nand_chip nsim_bus nsim_view hamming 64 262144 2112"
  using nsim_ready nsim_read nsim_column nsim_in nsim_in32 nsim_unit nsim_program nsim_out_law nsim_out32
    nsim_move nsim_confirm nsim_copy nsim_erase
  by (simp add: nand_chip_def)

end
