(* ===== verification/Nand_Pages.thy ===== *)
theory Nand_Pages
  imports Nand_Chip
begin

text \<open>
  Pages as the layers above the NAND driver see them: sectors of 512 bytes with a code each. What
  a buffer that was sent to the page register leaves in each sector, when the register is blank
  and when it holds a page to be copied; and the properties of the page routines that follow.
\<close>

section \<open>Bytes and windows\<close>

lemma bit_byte: "bit (ucast (w :: u32) :: u8) n \<longleftrightarrow> n < 8 \<and> bit w n"
  by (simp add: bit_ucast_iff)

lemma word_le_code_bytes: "word_le (code_bytes k w) = take_bit (8 * k) w"
proof (induction k arbitrary: w)
  case 0
  then show ?case by simp
next
  case (Suc k)
  show ?case
    by (rule bit_word_eqI)
      (auto simp: Suc bit_or_iff bit_push_bit_iff bit_take_bit_iff bit_drop_bit_eq bit_ucast_iff)
qed

lemma word_le_code [simp]: "word_le (code_bytes 4 w) = (w :: u32)"
  using word_le_code_bytes [of 4 w] by (simp add: take_bit_word_eq_self)

lemma window_of_overwrite:
  "a \<le> b \<Longrightarrow> b + k \<le> a + length bs \<Longrightarrow> window (overwrite F a bs) b k = take k (drop (b - a) bs)"
  by (rule nth_equalityI) (auto simp: overwrite_def)

lemma take_drop_concat:
  "\<forall>x\<in>set xss. length x = l \<Longrightarrow> i < length xss \<Longrightarrow> take l (drop (l * i) (concat xss)) = xss ! i"
proof (induction xss arbitrary: i)
  case Nil
  then show ?case by simp
next
  case (Cons x xss)
  then show ?case by (cases i) (simp_all add: drop_append)
qed

lemma concat_sectors:
  "length bs = 512 * m \<Longrightarrow> concat (map (buf_sector bs) [0..<m]) = bs"
proof -
  have "concat (map (buf_sector bs) [0..<k]) = take (512 * k) bs" for k
    by (induction k) (simp_all add: buf_sector_def take_add [symmetric] add.commute)
  then show "length bs = 512 * m \<Longrightarrow> ?thesis" by simp
qed

lemma length_concat_codes:
  "length (concat (map (\<lambda>i. code_bytes 4 (f i)) [0..<m])) = 4 * m"
  by (induction m) simp_all

section \<open>Sectors of a page register\<close>

lemma image_sector_data:
  assumes "length bs = 512 * m" and "512 * (j + m) \<le> msz n" and "512 * Suc i \<le> msz n"
  shows "sector_data (page_image ecc n F (512 * j) bs) i =
    (if j \<le> i \<and> i < j + m then buf_sector bs (i - j) else sector_data F i)"
proof -
  have codes: "sector_data (page_image ecc n F (512 * j) bs) i = sector_data (overwrite F (512 * j) bs) i"
    unfolding sector_data_def page_image_def using assms by (simp add: window_apart code_col_def)
  show ?thesis
  proof (cases "j \<le> i \<and> i < j + m")
    case True
    then have "sector_data (overwrite F (512 * j) bs) i = take 512 (drop (512 * i - 512 * j) bs)"
      unfolding sector_data_def using assms(1) by (intro window_of_overwrite) auto
    then show ?thesis using True codes by (simp add: buf_sector_def right_diff_distrib')
  next
    case False
    then have "sector_data (overwrite F (512 * j) bs) i = sector_data F i"
      unfolding sector_data_def using assms(1) by (intro window_apart) auto
    then show ?thesis unfolding codes using False by auto
  qed
qed

lemma image_sector_code:
  assumes "length bs = 512 * m" and "512 * (j + m) \<le> msz n"
  shows "sector_code n (page_image ecc n F (512 * j) bs) i =
    (if j \<le> i \<and> i < j + m then ecc (buf_sector bs (i - j)) else sector_code n F i)"
proof -
  let ?G = "overwrite F (512 * j) bs"
  let ?cs = "map (\<lambda>i. code_bytes 4 (ecc (buf_sector bs i))) [0..<m]"
  have img: "page_image ecc n F (512 * j) bs = overwrite ?G (code_col n j) (concat ?cs)"
    using assms(1) by (simp add: page_image_def code_list_def)
  have len: "length (concat ?cs) = 4 * m" by (rule length_concat_codes)
  show ?thesis
  proof (cases "j \<le> i \<and> i < j + m")
    case True
    then have "window (overwrite ?G (code_col n j) (concat ?cs)) (code_col n i) 4 =
        take 4 (drop (code_col n i - code_col n j) (concat ?cs))"
      unfolding code_col_def by (intro window_of_overwrite) (auto simp: len)
    also have "code_col n i - code_col n j = 4 * (i - j)" by (simp add: code_col_def right_diff_distrib')
    also have "take 4 (drop (4 * (i - j)) (concat ?cs)) = ?cs ! (i - j)"
      using True by (intro take_drop_concat) auto
    finally show ?thesis using True unfolding sector_code_def img by auto
  next
    case False
    then have "window (overwrite ?G (code_col n j) (concat ?cs)) (code_col n i) 4 = window ?G (code_col n i) 4"
      by (intro window_apart) (auto simp: len code_col_def)
    also have "window ?G (code_col n i) 4 = window F (code_col n i) 4"
      using assms by (intro window_apart) (auto simp: code_col_def)
    finally show ?thesis using False unfolding sector_code_def img by auto
  qed
qed

text \<open>Outside of the data and the codes a register keeps its contents.\<close>

lemma image_elsewhere:
  assumes "length bs = 512 * m" and "512 * (j + m) \<le> msz n" and "msz n \<le> x" and "x < msz n + 16"
  shows "page_image ecc n F (512 * j) bs x = F x"
proof -
  have "overwrite F (512 * j) bs x = F x" using assms by (intro overwrite_outside) auto
  then show ?thesis using assms by (auto simp: page_image_def overwrite_outside code_col_def)
qed

text \<open>Programming a blank page stores the register.\<close>

definition blank_page :: "nat \<Rightarrow> u8" where "blank_page = (\<lambda>_. 0xFF)"

lemma ff_and' [simp]: "(0xFF :: u8) AND w = w" "w AND 0xFF = (w :: u8)"
proof -
  have ff: "(0xFF :: u8) = - 1" by simp
  show "(0xFF :: u8) AND w = w" "w AND 0xFF = w" unfolding ff by (simp_all only: and.left_neutral and.right_neutral)
qed

lemma programmed_blank [simp]: "programmed blank_page reg = reg" "programmed F blank_page = F"
  by (simp_all add: programmed_def [abs_def] blank_page_def)

section \<open>Properties of the page routines\<close>

text \<open>C7: reading whole sectors of a page delivers the data their codes were computed from, as long as
  at most one bit of each sector was read wrong; the result tells whether a correction took
  place, and the cells are left alone.\<close>

theorem nand_read_repairs:
  assumes "nand_ok bus v ecc n" and "ecc_law ecc" and "unat pagenum < ppb n * 4096"
    and "0 < m" and "512 * (j + m) \<le> msz n" and "F = cells v (nhw n) (unat pagenum)"
    and "\<forall>i. j \<le> i \<and> i < j + m \<longrightarrow> length (d i) = 512 \<and> sector_code n F i = ecc (d i) \<and>
      (sector_data F i = d i \<or> (\<exists>q<4096. sector_data F i = flip q (d i)))"
  shows "\<exists>n'. nand_readpage bus pagenum (of_nat (512 * j)) (of_nat (512 * m)) n =
      Some (if \<forall>i. j \<le> i \<and> i < j + m \<longrightarrow> sector_data F i = d i then 0 else NSTA_ECC1BITERR,
        concat (map d [j..<j + m]), n') \<and>
    nand_ok bus v ecc n' \<and> cells v (nhw n') = cells v (nhw n)"
proof -
  have "decode_all (map (\<lambda>i. (sector_data F i, sector_code n F i, ecc (sector_data F i))) [j..<j + m]) 0 =
      Some (concat (map d [j..<j + m]), if \<forall>i\<in>set [j..<j + m]. sector_data F i = d i then 0 else NSTA_ECC1BITERR)"
    using assms(7) by (intro decode_repairs [OF assms(2)]) auto
  moreover have "(\<forall>i\<in>set [j..<j + m]. sector_data F i = d i) \<longleftrightarrow> (\<forall>i. j \<le> i \<and> i < j + m \<longrightarrow> sector_data F i = d i)"
    by auto
  ultimately have dec: "decode_all (map (\<lambda>i. (sector_data F i, sector_code n F i, ecc (sector_data F i))) [j..<j + m]) 0 =
      Some (concat (map d [j..<j + m]), if \<forall>i. j \<le> i \<and> i < j + m \<longrightarrow> sector_data F i = d i then 0 else NSTA_ECC1BITERR)"
    by (simp only:)
  from readpage_sectors [OF assms(1,3,4,5,6) dec]
  obtain n' where n': "nand_readpage bus pagenum (of_nat (512 * j)) (of_nat (512 * m)) n =
      Some (if \<forall>i. j \<le> i \<and> i < j + m \<longrightarrow> sector_data F i = d i then 0 else NSTA_ECC1BITERR,
        concat (map d [j..<j + m]), n')" "moved n n'" "keeps v (nhw n) (nhw n') (Wait 0)"
    by blast
  have "nand_ok bus v ecc n'"
    using nand_ok_moved [OF assms(1) n'(2) keepsD(3) [OF n'(3)]] keepsD(2) [OF n'(3)] nand_okD(4) [OF assms(1)] by simp
  then show ?thesis using n'(1) keepsD(1) [OF n'(3)] by blast
qed

text \<open>A blank part on the executable chip, and one with a wrong bit in the first sector of page 5.\<close>

definition sim_nand :: "(nat \<Rightarrow> nat \<Rightarrow> u8) \<Rightarrow> nsim nand" where
  "sim_nand A = \<lparr>page_totalsize = 2112, page_mainsize = 2048, page_sparesize = 64, block_pagenum = 64,
     plane_blocknum = 2048, block_totalnum = 4096, good_blocknum = 0, valid_blocknum = 0,
     nand_id = MT29F4G08ABADA, lut_ptr = 0, lut = [], ecc_hdbuf = replicate 8 0, ecc_rdbuf = replicate 8 0,
     nhw = \<lparr>array = A, doing = Wait 0, last_cmd = 0, addrs = [], acc = None, edge = False\<rparr>\<rparr>"

lemma sim_nand_fields [simp]:
  "ppb (sim_nand A) = 64" "msz (sim_nand A) = 2048" "csz (sim_nand A) = 2112" "cells nsim_view (nhw (sim_nand A)) = A"
  by (simp_all add: sim_nand_def ppb_def msz_def csz_def nsim_view_def)

lemma sim_nand_ok: "nand_ok nsim_bus nsim_view hamming (sim_nand A)"
proof -
  have "known_part (sim_nand A)" "phase nsim_view (nhw (sim_nand A)) = Wait 0" "seen nsim_view (nhw (sim_nand A)) = None"
    by (simp_all add: sim_nand_def known_part_def nsim_view_def)
  then show ?thesis using nsim_chip by (simp add: nand_ok_def)
qed

definition spoiled_page :: "nat \<Rightarrow> u8" where
  "spoiled_page = overwrite (page_image hamming (sim_nand (\<lambda>_. blank_page)) blank_page 0 (replicate 512 0x55)) 0
     (flip 7 (replicate 512 0x55))"

lemma spoiled_sector:
  "sector_data spoiled_page 0 = flip 7 (replicate 512 0x55)"
  "sector_code (sim_nand A) spoiled_page 0 = hamming (replicate 512 0x55)"
  "flip 7 (replicate 512 0x55) \<noteq> replicate 512 (0x55 :: u8)"
proof -
  let ?d = "replicate 512 (0x55 :: u8)"
  let ?F = "page_image hamming (sim_nand (\<lambda>_. blank_page)) blank_page 0 ?d"
  show "sector_data spoiled_page 0 = flip 7 ?d"
    using window_overwrite [of ?F 0 "flip 7 ?d"] by (simp add: sector_data_def spoiled_page_def)
  have "sector_code (sim_nand (\<lambda>_. blank_page)) ?F 0 = hamming (buf_sector ?d 0)"
    using image_sector_code [of ?d 1 0 "sim_nand (\<lambda>_. blank_page)" hamming blank_page 0] by simp
  moreover have "window spoiled_page 2064 4 = window ?F 2064 4"
    unfolding spoiled_page_def by (intro window_apart) simp
  ultimately show "sector_code (sim_nand A) spoiled_page 0 = hamming ?d"
    by (simp add: sector_code_def code_col_def buf_sector_def)
  have "flip 7 ?d ! 0 \<noteq> ?d ! 0" by (simp add: flip_def)
  then show "flip 7 ?d \<noteq> ?d" by metis
qed

theorem nand_read_repairs_witness:
  "\<exists>n'. nand_readpage nsim_bus 5 0 512 (sim_nand ((\<lambda>_. blank_page)(5 := spoiled_page))) =
     Some (NSTA_ECC1BITERR, replicate 512 0x55, n')"
proof -
  let ?d = "replicate 512 (0x55 :: u8)" and ?n = "sim_nand ((\<lambda>_. blank_page)(5 := spoiled_page))"
  have range: "0 \<le> i \<and> i < 0 + 1 \<longleftrightarrow> i = 0" for i :: nat by auto
  have one: "\<exists>q<4096. sector_data spoiled_page 0 = flip q ?d"
    unfolding spoiled_sector by (intro exI [of _ 7]) simp
  have "unat (5 :: u32) < ppb ?n * 4096" "512 * (0 + 1) \<le> msz ?n" "spoiled_page = cells nsim_view (nhw ?n) (unat (5 :: u32))"
    by simp_all
  from nand_read_repairs [OF sim_nand_ok hamming_law this(1) _ this(2,3), of "\<lambda>_. ?d"] one
  show ?thesis unfolding range using spoiled_sector by auto
qed

text \<open>A page written to a blank page is read back.\<close>

lemma sendable_sectors:
  assumes "known_part n" and "512 * (j + m) \<le> msz n"
  shows "unat (of_nat (512 * j) :: u16) = 512 * j" "unat (of_nat (512 * m) :: u16) = 512 * m"
    "sendable n (512 * j) (512 * m)"
proof -
  have "j + m \<le> 8" using code_col_fits(2) [OF assms] .
  then show "unat (of_nat (512 * j) :: u16) = 512 * j" "unat (of_nat (512 * m) :: u16) = 512 * m"
    by (intro unat_of_nat_small; simp)+
  show "sendable n (512 * j) (512 * m)" using assms(2) by (simp add: sendable_def)
qed

text \<open>C30: sectors written to a blank page with \<open>nand_writepage\<close> are read back unchanged and without an
  error by \<open>nand_readpage\<close>, and no other page changes.\<close>

theorem nand_page_roundtrip:
  assumes "nand_ok bus v ecc n" and "unat pagenum < ppb n * 4096"
    and "0 < m" and "512 * (j + m) \<le> msz n" and "length bs = 512 * m"
    and "cells v (nhw n) (unat pagenum) = blank_page"
  shows "\<exists>n1 n2. nand_writepage bus pagenum (of_nat (512 * j)) bs (of_nat (512 * m)) n = Some (0, n1) \<and>
    nand_readpage bus pagenum (of_nat (512 * j)) (of_nat (512 * m)) n1 = Some (0, bs, n2) \<and>
    nand_ok bus v ecc n2 \<and> (\<forall>p. p \<noteq> unat pagenum \<longrightarrow> cells v (nhw n2) p = cells v (nhw n) p)"
proof -
  note part = nand_okD(1) [OF assms(1)]
  note u = sendable_sectors [OF part assms(4)]
  have "unat (of_nat (512 * j) :: u16) < csz n" using assms(3,4) known_partD(1) [OF part] unfolding u by auto
  then obtain n1 where n1: "nand_writepage bus pagenum (of_nat (512 * j)) bs (of_nat (512 * m)) n = Some (0, n1)"
    "moved n n1" "nand_ok bus v ecc n1"
    "cells v (nhw n1) = (cells v (nhw n))(unat pagenum := page_image ecc n blank_page (512 * j) bs)"
    using writepage_ok [OF assms(1,2), of "of_nat (512 * j)" "of_nat (512 * m)" bs] u(3) assms(5,6)
    unfolding u by (auto simp: blank_page_def [symmetric])
  define F where "F = cells v (nhw n1) (unat pagenum)"
  have F: "F = page_image ecc n1 blank_page (512 * j) bs" "msz n1 = msz n" "ppb n1 = ppb n"
    using n1(4) moved_geometry [OF n1(2)] by (simp_all add: F_def page_image_def code_col_def)
  have d: "sector_data F i = buf_sector bs (i - j)" "sector_code n1 F i = ecc (buf_sector bs (i - j))"
    if "j \<le> i" "i < j + m" for i
    using that image_sector_data [of bs m j n1 i] image_sector_code [of bs m j n1] assms(4,5) unfolding F by auto
  have good: "decode_all (map (\<lambda>i. (f i, ecc (f i), ecc (f i))) is) 0 = Some (concat (map f is), 0)" for f "is"
    by (induction "is") (simp_all add: decode_sector_def)
  have list: "map (\<lambda>i. (sector_data F i, sector_code n1 F i, ecc (sector_data F i))) [j..<j + m] =
      map (\<lambda>i. (buf_sector bs (i - j), ecc (buf_sector bs (i - j)), ecc (buf_sector bs (i - j)))) [j..<j + m]"
    by (rule map_cong) (auto simp: d)
  have "map (\<lambda>i. buf_sector bs (i - j)) [j..<j + m] = map (buf_sector bs) [0..<m]"
    by (rule nth_equalityI) simp_all
  then have "decode_all (map (\<lambda>i. (sector_data F i, sector_code n1 F i, ecc (sector_data F i))) [j..<j + m]) 0 =
      Some (bs, 0)"
    unfolding list good by (simp add: concat_sectors [OF assms(5)])
  from readpage_sectors [OF n1(3) _ assms(3) _ F_def this, unfolded F(2,3), OF assms(2,4)]
  obtain n2 where n2: "nand_readpage bus pagenum (of_nat (512 * j)) (of_nat (512 * m)) n1 = Some (0, bs, n2)"
    "moved n1 n2" "keeps v (nhw n1) (nhw n2) (Wait 0)" by blast
  have "nand_ok bus v ecc n2"
    using nand_ok_moved [OF n1(3) n2(2) keepsD(3) [OF n2(3)]] keepsD(2) [OF n2(3)] nand_okD(4) [OF n1(3)] by simp
  with n1(1,4) n2(1) keepsD(1) [OF n2(3)] show ?thesis by auto
qed

theorem nand_page_roundtrip_witness:
  "\<exists>n1 n2. nand_writepage nsim_bus 70 512 (replicate 1024 7) 1024 (sim_nand (\<lambda>_. blank_page)) = Some (0, n1) \<and>
     nand_readpage nsim_bus 70 512 1024 n1 = Some (0, replicate 1024 7, n2)"
  using nand_page_roundtrip [of nsim_bus nsim_view hamming "sim_nand (\<lambda>_. blank_page)" 70 2 1 "replicate 1024 7"]
    sim_nand_ok by auto

end
