(* ===== verification/Ftl_Table.thy ===== *)
theory Ftl_Table
  imports Ftl Nand_Pages
begin

text \<open>
  The translation layer's view of the blocks on hardware that obeys the laws of the chip: the
  marks in the spare area of the first two pages of a block. The routines that read them - the
  check for bad blocks, the search for an unused block, the construction of the table - return
  what an enumeration of the blocks gives, and change nothing on the chip.
\<close>

section \<open>Spare bytes\<close>

abbreviation chip :: "'s nand_view \<Rightarrow> 's nand \<Rightarrow> nat \<Rightarrow> nat \<Rightarrow> u8" where
  "chip v n \<equiv> cells v (nhw n)"

lemma unat_page_of:
  assumes "known_part n" and "b < 4096" and "i < ppb n"
  shows "unat (page_of n (of_nat b) (of_nat i)) = b * ppb n + i" and "b * ppb n + i < ppb n * 4096"
proof -
  have le: "b * ppb n + i < ppb n * 4096"
  proof -
    have "b * ppb n + i < Suc b * ppb n" using assms(3) by simp
    also have "\<dots> \<le> 4096 * ppb n" using assms(2) by (intro mult_le_mono1) simp
    finally show ?thesis by (simp add: mult.commute)
  qed
  then show "b * ppb n + i < ppb n * 4096" .
  have "ppb n \<le> 128" using known_partD(1) [OF assms(1)] by auto
  with le have "unat (of_nat (b * ppb n + i) :: u32) = b * ppb n + i" by (intro unat_of_nat_small) simp
  moreover have "page_of n (of_nat b) (of_nat i) = of_nat (b * ppb n + i)"
    by (simp add: page_of_def ppb_def unsigned_of_nat)
  ultimately show "unat (page_of n (of_nat b) (of_nat i)) = b * ppb n + i"
    by (simp only:)
qed

lemma spare_length_ok:
  assumes "known_part n" and "c + k \<le> unat (page_sparesize n)"
  shows "spare_length (of_nat c) (of_nat k) n = of_nat k"
    and "of_nat c + page_mainsize n = (of_nat (msz n + c) :: u16)"
    and "unat (of_nat (msz n + c) :: u16) = msz n + c" and "unat (of_nat k :: u16) = k"
    and "msz n + unat (page_sparesize n) = csz n"
proof -
  have sp: "unat (page_sparesize n) \<le> 224" "msz n \<le> 4096" using known_partD(1) [OF assms(1)] by auto
  then show k: "unat (of_nat k :: u16) = k" "unat (of_nat (msz n + c) :: u16) = msz n + c"
    using assms(2) by (intro unat_of_nat_small; simp)+
  show "of_nat c + page_mainsize n = (of_nat (msz n + c) :: u16)" by (simp add: msz_def)
  show "msz n + unat (page_sparesize n) = csz n" by (simp add: msz_def csz_def)
  have c: "unat (of_nat c :: u16) = c" using sp assms(2) by (intro unat_of_nat_small) simp
  have "unat (page_sparesize n - of_nat c) = unat (page_sparesize n) - c"
    using assms(2) c by (subst unat_sub) (simp_all add: word_le_nat_alt)
  then have "unat (ucast (page_sparesize n - of_nat c) :: u8) = unat (page_sparesize n) - c"
    using sp by (simp add: unsigned_ucast_eq take_bit_nat_eq_self)
  moreover have "\<not> unat (page_sparesize n) - c < k" using assms(2) by linarith
  ultimately show "spare_length (of_nat c) (of_nat k) n = of_nat k"
    using k assms(2) by (simp add: spare_length_def Let_def word_less_nat_alt)
qed

lemma readspare_ok:
  assumes ok: "nand_ok bus v ecc n" and p: "unat pagenum < ppb n * 4096"
    and k: "c + k \<le> unat (page_sparesize n)" "0 < k"
  shows "\<exists>t. nand_readspare bus pagenum (of_nat c) (of_nat k) n =
      Some (0, window (chip v n (unat pagenum)) (msz n + c) k, n\<lparr>nhw := t\<rparr>) \<and> keeps v (nhw n) t (Wait 0)"
proof -
  note s = spare_length_ok [OF nand_okD(1) [OF ok] k(1)]
  have "k \<le> 224" using k(1) known_partD(1) [OF nand_okD(1) [OF ok]] by auto
  then have "unat (of_nat k :: u16) mod 512 \<noteq> 0" using k(2) s(4) by simp
  moreover have "unat (of_nat (msz n + c) :: u16) + unat (of_nat k :: u16) \<le> csz n"
    using s k(1) by simp
  ultimately show ?thesis
    using readpage_plain [OF ok p] unfolding nand_readspare_def s(1,2) by (metis s(3,4))
qed

lemma writespare_ok:
  assumes ok: "nand_ok bus v ecc n" and p: "unat pagenum < ppb n * 4096"
    and bs: "c + length bs \<le> unat (page_sparesize n)" "bs \<noteq> []"
  shows "\<exists>n'. nand_writespare bus pagenum (of_nat c) bs (of_nat (length bs)) n = Some (0, n') \<and> moved n n' \<and>
    nand_ok bus v ecc n' \<and> chip v n' = (chip v n)(unat pagenum :=
      programmed (chip v n (unat pagenum)) (overwrite blank_page (msz n + c) bs))"
proof -
  note s = spare_length_ok [OF nand_okD(1) [OF ok] bs(1)]
  have len: "length bs mod 512 \<noteq> 0" "0 < length bs"
    using bs known_partD(1) [OF nand_okD(1) [OF ok]] by auto
  have "sendable n (msz n + c) (length bs)" "msz n + c < csz n"
    using len bs(1) s(5) by (simp_all add: sendable_def)
  then show ?thesis
    using writepage_ok [OF ok p, of "of_nat (msz n + c)" "of_nat (length bs)" bs] len(1)
    unfolding nand_writespare_def s(1,2,3,4) by (simp add: page_image_def blank_page_def)
qed

text \<open>The same for a page given by its block and offset; a state that only moved on.\<close>

definition looked :: "'s nand_view \<Rightarrow> 's nand \<Rightarrow> 's nand \<Rightarrow> bool" where
  "looked v n m \<longleftrightarrow> moved n m \<and> phase v (nhw m) = Wait 0 \<and> seen v (nhw m) = None \<and> chip v m = chip v n"

lemma looked_ok: "nand_ok bus v ecc n \<Longrightarrow> looked v n m \<Longrightarrow> nand_ok bus v ecc m"
  using nand_ok_moved by (auto simp: looked_def)

lemma looked_trans: "looked v n m \<Longrightarrow> looked v m l \<Longrightarrow> looked v n l"
  by (auto simp: looked_def intro: moved_trans)

lemma looked_refl: "nand_ok bus v ecc n \<Longrightarrow> looked v n n"
  by (simp add: looked_def nand_ok_def)

lemma read_mark:
  assumes "nand_ok bus v ecc n" and "b < 4096" and "i < 2" and "k = 1 \<or> k = 4"
  shows "\<exists>m. nand_readspare bus (page_of n (of_nat b) (of_nat i)) 0 (of_nat k) n =
      Some (0, window (chip v n (b * ppb n + i)) (msz n) k, m) \<and> looked v n m"
proof -
  note part = nand_okD(1) [OF assms(1)]
  have i: "i < ppb n" using known_partD(1) [OF part] assms(3) by auto
  note u = unat_page_of [OF part assms(2) i]
  have "0 + k \<le> unat (page_sparesize n)" using known_partD(1) [OF part] assms(4) by auto
  from readspare_ok [OF assms(1) _ this, of "page_of n (of_nat b) (of_nat i)"] u assms(4)
  obtain t where t: "nand_readspare bus (page_of n (of_nat b) (of_nat i)) 0 (of_nat k) n =
      Some (0, window (chip v n (b * ppb n + i)) (msz n) k, n\<lparr>nhw := t\<rparr>)" "keeps v (nhw n) t (Wait 0)"
    by auto
  moreover have "looked v n (n\<lparr>nhw := t\<rparr>)"
    using keepsD [OF t(2)] nand_okD(4) [OF assms(1)] by (simp add: looked_def)
  ultimately show ?thesis by blast
qed

section \<open>Marks\<close>

definition first_mark :: "'s nand_view \<Rightarrow> 's nand \<Rightarrow> nat \<Rightarrow> u8 list" where
  "first_mark v n b = window (chip v n (b * ppb n)) (msz n) 4"

definition second_mark :: "'s nand_view \<Rightarrow> 's nand \<Rightarrow> nat \<Rightarrow> u8" where
  "second_mark v n b = chip v n (b * ppb n + 1) (msz n)"

definition unused :: "'s nand_view \<Rightarrow> 's nand \<Rightarrow> nat \<Rightarrow> bool" where
  "unused v n b \<longleftrightarrow> first_mark v n b = replicate 4 0xFF"

definition good :: "'s nand_view \<Rightarrow> 's nand \<Rightarrow> nat \<Rightarrow> bool" where
  "good v n b \<longleftrightarrow> first_mark v n b ! 0 = 0xFF \<and> second_mark v n b = 0xFF"

definition lbn_of :: "'s nand_view \<Rightarrow> 's nand \<Rightarrow> nat \<Rightarrow> nat" where
  "lbn_of v n b = unat (first_mark v n b ! 2) + 256 * unat (first_mark v n b ! 3)"

lemma looked_marks:
  assumes "looked v n m"
  shows "first_mark v m = first_mark v n" "second_mark v m = second_mark v n" "unused v m = unused v n"
    "good v m = good v n" "lbn_of v m = lbn_of v n" "page_of m = page_of n" "block_totalnum m = block_totalnum n"
  using assms moved_geometry [of n m] moved_fields [of n m]
  by (simp_all add: looked_def first_mark_def [abs_def] second_mark_def [abs_def] unused_def [abs_def]
      good_def [abs_def] lbn_of_def [abs_def] page_of_def [abs_def])

lemma length_first_mark [simp]: "length (first_mark v n b) = 4"
  by (simp add: first_mark_def)

lemma read_first_mark:
  assumes "nand_ok bus v ecc n" and "b < 4096"
  shows "\<exists>m. nand_readspare bus (page_of n (of_nat b) 0) 0 4 n = Some (0, first_mark v n b, m) \<and> looked v n m"
  using read_mark [OF assms, of 0 4] by (simp add: first_mark_def)

lemma read_first_byte:
  assumes "nand_ok bus v ecc n" and "b < 4096"
  shows "\<exists>m. nand_readspare bus (page_of n (of_nat b) 0) 0 1 n = Some (0, [first_mark v n b ! 0], m) \<and> looked v n m"
  using read_mark [OF assms, of 0 1] by (simp add: first_mark_def window_def)

lemma read_second_mark:
  assumes "nand_ok bus v ecc n" and "b < 4096"
  shows "\<exists>m. nand_readspare bus (page_of n (of_nat b) 1) 0 1 n = Some (0, [second_mark v n b], m) \<and> looked v n m"
  using read_mark [OF assms, of 1 1] by (simp add: second_mark_def window_def)

lemma check_badblock_ok:
  assumes ok: "nand_ok bus v ecc n" and b: "b < 4096"
  shows "\<exists>m. ftl_check_badblock bus (of_nat b) n =
      Some (if first_mark v n b ! 0 \<noteq> 0xFF then 2 else if second_mark v n b \<noteq> 0xFF then 1 else 0, m) \<and> looked v n m"
proof -
  from read_first_byte [OF ok b] obtain n1 where
    n1: "nand_readspare bus (page_of n (of_nat b) 0) 0 1 n = Some (0, [first_mark v n b ! 0], n1)" "looked v n n1" by blast
  from read_second_mark [OF looked_ok [OF ok n1(2)] b] obtain n2 where
    n2: "nand_readspare bus (page_of n (of_nat b) 1) 0 1 n1 = Some (0, [second_mark v n b], n2)" "looked v n1 n2"
    by (auto simp: looked_marks [OF n1(2)])
  show ?thesis
  proof (cases "first_mark v n b ! 0 = 0xFF")
    case True
    then show ?thesis using n1 n2 looked_trans [OF n1(2) n2(2)]
      by (simp add: ftl_check_badblock_def stored_def arr_get_def looked_marks [OF n1(2)])
  next
    case False
    then show ?thesis using n1 by (simp add: ftl_check_badblock_def stored_def arr_get_def)
  qed
qed

section \<open>The search for an unused block\<close>

text \<open>The last unused block of a plane below a bound.\<close>

definition last_unused :: "'s nand_view \<Rightarrow> 's nand \<Rightarrow> nat \<Rightarrow> nat \<Rightarrow> nat option" where
  "last_unused v n q k = find (\<lambda>b. b mod 2 = q \<and> unused v n b) (rev [0..<k])"

lemma looked_last_unused: "looked v n m \<Longrightarrow> last_unused v m = last_unused v n"
  by (simp add: last_unused_def [abs_def] looked_marks)

lemma last_unused_Suc:
  "last_unused v n q (Suc k) = (if k mod 2 = q \<and> unused v n k then Some k else last_unused v n q k)"
  by (simp add: last_unused_def)

lemma last_unused_Some: "last_unused v n q k = Some b \<Longrightarrow> b < k \<and> b mod 2 = q \<and> unused v n b"
  by (induction k) (auto simp: last_unused_Suc last_unused_def split: if_splits)

lemma last_unused_None: "last_unused v n q k = None \<longleftrightarrow> (\<forall>b<k. b mod 2 = q \<longrightarrow> \<not> unused v n b)"
  by (induction k) (auto simp: last_unused_Suc less_Suc_eq, simp add: last_unused_def)

definition block_word :: "nat option \<Rightarrow> u32" where
  "block_word r = (case r of None \<Rightarrow> NO_BLOCK | Some b \<Rightarrow> of_nat b)"

lemma unused_loop_ok:
  assumes "q < 2"
  shows "nand_ok bus v ecc n \<Longrightarrow> k \<le> 4096 \<Longrightarrow> length temp = 4 \<Longrightarrow>
    \<exists>m. unused_loop bus (of_nat q) temp k n = Some (block_word (last_unused v n q k), m) \<and> looked v n m"
proof (induction k arbitrary: n temp)
  case 0
  then show ?case by (simp add: last_unused_def block_word_def looked_refl)
next
  case (Suc k)
  have q: "unat (of_nat q :: u8) = q" using assms by (intro unat_of_nat_small) simp
  show ?case
  proof (cases "k mod 2 = q")
    case False
    then show ?thesis using Suc.IH [OF Suc.prems(1) _ Suc.prems(3)] Suc.prems(2) q
      by (simp add: last_unused_Suc)
  next
    case True
    have k: "k < 4096" using Suc.prems(2) by simp
    from read_first_mark [OF Suc.prems(1) k] obtain n1 where
      n1: "nand_readspare bus (page_of n (of_nat k) 0) 0 4 n = Some (0, first_mark v n k, n1)" "looked v n n1" by blast
    have st: "stored (first_mark v n k) temp = first_mark v n k" using Suc.prems(3) by (simp add: stored_def)
    show ?thesis
    proof (cases "unused v n k")
      case True
      then show ?thesis using n1 \<open>k mod 2 = q\<close> q st
        by (simp add: last_unused_Suc block_word_def unused_def)
    next
      case False
      from Suc.IH [OF looked_ok [OF Suc.prems(1) n1(2)], of "first_mark v n k"] k obtain m where
        "unused_loop bus (of_nat q) (first_mark v n k) k n1 = Some (block_word (last_unused v n q k), m)" "looked v n1 m"
        by (auto simp: last_unused_def looked_marks [OF n1(2)])
      then show ?thesis using n1 False \<open>k mod 2 = q\<close> q st looked_trans [OF n1(2)]
        by (auto simp: last_unused_Suc unused_def)
    qed
  qed
qed

lemma block_word_inject:
  assumes "last_unused v n q k = r" and "k \<le> 4096"
  shows "block_word r = NO_BLOCK \<longleftrightarrow> r = None" and "r = Some b \<Longrightarrow> unat (block_word r) = b"
proof -
  have small: "unat (of_nat b :: u32) = b" if "b < 4096" for b using that by (intro unat_of_nat_small) simp
  show "r = Some b \<Longrightarrow> unat (block_word r) = b"
    using last_unused_Some [of v n q k b] assms small by (simp add: block_word_def)
  have "of_nat b \<noteq> NO_BLOCK" if "r = Some b" for b
  proof -
    have "unat (of_nat b :: u32) < 4096" using last_unused_Some [of v n q k b] assms small that by simp
    then show ?thesis by (auto simp: NO_BLOCK_def)
  qed
  then show "block_word r = NO_BLOCK \<longleftrightarrow> r = None" by (cases r) (simp_all add: block_word_def)
qed

lemma find_unused_ok:
  assumes "nand_ok bus v ecc n" and "q < 2" and "unat s < 4096"
  shows "\<exists>m. ftl_find_unused_block bus s (of_nat q) n = Some (block_word (last_unused v n q (Suc (unat s))), m) \<and> looked v n m"
proof -
  have "unat (s + 1) = Suc (unat s)" using assms(3) by (simp add: unat_word_ariths)
  then show ?thesis
    unfolding ftl_find_unused_block_def using unused_loop_ok [OF assms(2,1), of "Suc (unat s)"] assms(3) by simp
qed

text \<open>The block found in a plane, from the block where the last search ended.\<close>

definition plane_choice :: "'s nand_view \<Rightarrow> 's nand \<Rightarrow> nat \<Rightarrow> nat \<Rightarrow> nat option" where
  "plane_choice v n q start =
     (case last_unused v n q (Suc (min start 4095)) of
        Some b \<Rightarrow> Some b
      | None \<Rightarrow> last_unused v n q 4096)"

lemma last_unused_4096: "last_unused v n q (Suc 4095) = last_unused v n q 4096"
proof -
  have "Suc 4095 = 4096" by simp
  then show ?thesis by (rule arg_cong)
qed

lemma find_same_plane_lemma:
  assumes ok: "nand_ok bus v ecc (dev f)"
  shows "\<exists>f'. ftl_find_same_plane_unused_block bus s f =
      Some (block_word (plane_choice v (dev f) (unat s mod 2) (unat (curblock f))), f') \<and>
    looked v (dev f) (dev f') \<and> pool f' = pool f"
proof -
  define q where "q = unat s mod 2"
  have q: "q < 2" by (simp add: q_def)
  have flag: "ucast (s mod 2) = (of_nat q :: u8)"
  proof -
    have "unat (s mod 2) = q" by (simp add: q_def unat_mod_distrib)
    then have "unat (ucast (s mod 2) :: u8) = unat (of_nat q :: u8)"
      using q by (simp add: unsigned_ucast_eq take_bit_nat_eq_self unat_of_nat_small)
    then show ?thesis by (simp only: word_unat_eq_iff)
  qed
  have last: "ucast (block_totalnum (dev f)) - 1 = (4095 :: u32)"
    using known_partD(2) [OF nand_okD(1) [OF ok]] by simp
  define cur where "cur = (if curblock f > 4095 then 4095 else curblock f)"
  have cur: "unat cur = min (unat (curblock f)) 4095"
    by (simp add: cur_def word_less_nat_alt min_def)
  let ?r = "last_unused v (dev f) q (Suc (unat cur))"
  have cur4: "unat cur < 4096" using cur by simp
  from find_unused_ok [OF ok q cur4] obtain n1 where
    n1: "ftl_find_unused_block bus cur (of_nat q) (dev f) = Some (block_word ?r, n1)" "looked v (dev f) n1" by blast
  have "unat (4095 :: u32) < 4096" by simp
  from find_unused_ok [OF looked_ok [OF ok n1(2)] q this] obtain n2 where
    n2': "ftl_find_unused_block bus 4095 (of_nat q) n1 = Some (block_word (last_unused v n1 q (Suc (unat (4095 :: u32)))), n2)"
      "looked v n1 n2" by blast
  have "unat (4095 :: u32) = 4095" by simp
  then have n2: "ftl_find_unused_block bus 4095 (of_nat q) n1 = Some (block_word (last_unused v (dev f) q 4096), n2)"
      "looked v n1 n2"
    using n2' by (simp_all only: looked_last_unused [OF n1(2)] last_unused_4096)
  have nb: "block_word ?r = NO_BLOCK \<longleftrightarrow> ?r = None"
    using cur4 by (intro block_word_inject(1) [OF refl]) simp
  have choice: "plane_choice v (dev f) q (unat (curblock f)) =
      (case ?r of Some b \<Rightarrow> Some b | None \<Rightarrow> last_unused v (dev f) q 4096)"
    by (simp add: plane_choice_def cur)
  show ?thesis
  proof (cases "?r = None \<and> cur < 4095")
    case True
    then have "plane_choice v (dev f) q (unat (curblock f)) = last_unused v (dev f) q 4096" using choice by simp
    then show ?thesis
      using True n1 n2 nb looked_trans [OF n1(2) n2(2)] unfolding q_def [symmetric]
      by (auto simp: ftl_find_same_plane_unused_block_def Let_def last flag cur_def [symmetric])
  next
    case False
    have "plane_choice v (dev f) q (unat (curblock f)) = ?r"
    proof (cases "?r")
      case None
      with False have "\<not> cur < 4095" by simp
      then have "unat cur = 4095" using cur4 by (simp add: word_less_nat_alt)
      then show ?thesis using None choice last_unused_4096 by (metis option.case(1))
    next
      case (Some b)
      then show ?thesis using choice by simp
    qed
    then show ?thesis
      using False n1 nb unfolding q_def [symmetric]
      by (auto simp: ftl_find_same_plane_unused_block_def Let_def last flag cur_def [symmetric])
  qed
qed

lemma plane_choice_Some:
  assumes "plane_choice v n q start = Some b"
  shows "b < 4096 \<and> b mod 2 = q \<and> unused v n b"
  using assms last_unused_Some [of v n q "Suc (min start 4095)" b] last_unused_Some [of v n q 4096 b]
  by (auto simp: plane_choice_def split: option.splits)

lemma plane_choice_None:
  "plane_choice v n q start = None \<longleftrightarrow> (\<forall>b<4096. b mod 2 = q \<longrightarrow> \<not> unused v n b)"
proof (cases "last_unused v n q (Suc (min start 4095))")
  case None
  then have "plane_choice v n q start = last_unused v n q 4096" by (simp add: plane_choice_def)
  then show ?thesis by (simp only: last_unused_None)
next
  case (Some b)
  then have "b < 4096 \<and> b mod 2 = q \<and> unused v n b" using last_unused_Some [OF Some] by auto
  then show ?thesis using Some by (auto simp: plane_choice_def)
qed

lemma choice_word:
  shows "block_word (plane_choice v n q start) = NO_BLOCK \<longleftrightarrow> plane_choice v n q start = None"
    and "plane_choice v n q start = Some b \<Longrightarrow> unat (block_word (plane_choice v n q start)) = b"
proof -
  have small: "unat (of_nat b :: u32) = b" if "b < 4096" for b using that by (intro unat_of_nat_small) simp
  show "plane_choice v n q start = Some b \<Longrightarrow> unat (block_word (plane_choice v n q start)) = b"
    using plane_choice_Some [of v n q start b] small by (simp add: block_word_def)
  have "of_nat b \<noteq> NO_BLOCK" if "plane_choice v n q start = Some b" for b
  proof -
    have "unat (of_nat b :: u32) < 4096" using plane_choice_Some [OF that] small by simp
    then show ?thesis by (auto simp: NO_BLOCK_def)
  qed
  then show "block_word (plane_choice v n q start) = NO_BLOCK \<longleftrightarrow> plane_choice v n q start = None"
    by (cases "plane_choice v n q start") (simp_all add: block_word_def)
qed

text \<open>C32: the search for an unused block returns a block of the plane of the given block whose mark is
  blank, and reports that there is none exactly when the plane has none, wherever the last search
  ended; it changes no cell.\<close>

theorem ftl_search_complete:
  assumes "nand_ok bus v ecc (dev f)"
  shows "\<exists>w f'. ftl_find_same_plane_unused_block bus s f = Some (w, f') \<and> nand_ok bus v ecc (dev f') \<and>
    chip v (dev f') = chip v (dev f) \<and>
    (if \<exists>b<4096. b mod 2 = unat s mod 2 \<and> unused v (dev f) b
     then unat w < 4096 \<and> unat w mod 2 = unat s mod 2 \<and> unused v (dev f) (unat w)
     else w = NO_BLOCK)"
proof -
  let ?r = "plane_choice v (dev f) (unat s mod 2) (unat (curblock f))"
  from find_same_plane_lemma [OF assms] obtain f' where
    f': "ftl_find_same_plane_unused_block bus s f = Some (block_word ?r, f')" "looked v (dev f) (dev f')" by blast
  have "if \<exists>b<4096. b mod 2 = unat s mod 2 \<and> unused v (dev f) b
     then unat (block_word ?r) < 4096 \<and> unat (block_word ?r) mod 2 = unat s mod 2 \<and>
       unused v (dev f) (unat (block_word ?r))
     else block_word ?r = NO_BLOCK"
  proof (cases "?r")
    case None
    then have "\<not> (\<exists>b<4096. b mod 2 = unat s mod 2 \<and> unused v (dev f) b)" by (auto simp: plane_choice_None)
    then show ?thesis unfolding None by (simp only: if_False block_word_def option.case)
  next
    case (Some b)
    then show ?thesis using plane_choice_Some [OF Some] choice_word(2) [OF Some] by auto
  qed
  then show ?thesis using f' looked_ok [OF assms f'(2)] by (auto simp: looked_def)
qed

definition sim_ftl :: "(nat \<Rightarrow> nat \<Rightarrow> u8) \<Rightarrow> u16 list \<Rightarrow> u16 \<Rightarrow> nsim ftl" where
  "sim_ftl A t valid = \<lparr>dev = sim_nand A\<lparr>lut := t, valid_blocknum := valid\<rparr>, curblock = NO_BLOCK,
     pool = \<lparr>membase = (\<lambda>_. 0x20000000), memmap = (\<lambda>_. []), memrdy = (\<lambda>_. 1), ram = (\<lambda>_. 0)\<rparr>\<rparr>"

lemma nand_ok_table [simp]:
  "nand_ok bus v ecc (n\<lparr>lut := t\<rparr>) = nand_ok bus v ecc n"
  "nand_ok bus v ecc (n\<lparr>good_blocknum := g\<rparr>) = nand_ok bus v ecc n"
  "nand_ok bus v ecc (n\<lparr>valid_blocknum := w\<rparr>) = nand_ok bus v ecc n"
  by (simp_all add: nand_ok_def known_part_def ppb_def csz_def)

lemma marks_table [simp]:
  "first_mark v (n\<lparr>lut := t\<rparr>) = first_mark v n" "second_mark v (n\<lparr>lut := t\<rparr>) = second_mark v n"
  "first_mark v (n\<lparr>good_blocknum := g\<rparr>) = first_mark v n" "second_mark v (n\<lparr>good_blocknum := g\<rparr>) = second_mark v n"
  "first_mark v (n\<lparr>valid_blocknum := w\<rparr>) = first_mark v n" "second_mark v (n\<lparr>valid_blocknum := w\<rparr>) = second_mark v n"
  by (simp_all add: first_mark_def [abs_def] second_mark_def [abs_def] ppb_def msz_def)

lemma geometry_table [simp]:
  "ppb (n\<lparr>lut := t\<rparr>) = ppb n" "msz (n\<lparr>lut := t\<rparr>) = msz n" "csz (n\<lparr>lut := t\<rparr>) = csz n"
  "ppb (n\<lparr>good_blocknum := g\<rparr>) = ppb n" "msz (n\<lparr>good_blocknum := g\<rparr>) = msz n" "csz (n\<lparr>good_blocknum := g\<rparr>) = csz n"
  "ppb (n\<lparr>valid_blocknum := w\<rparr>) = ppb n" "msz (n\<lparr>valid_blocknum := w\<rparr>) = msz n" "csz (n\<lparr>valid_blocknum := w\<rparr>) = csz n"
  by (simp_all add: ppb_def msz_def csz_def)

lemma sim_ftl_ok: "nand_ok nsim_bus nsim_view hamming (dev (sim_ftl A t w))"
  using sim_nand_ok by (simp add: sim_ftl_def)

lemma blank_mark: "i < 4 \<Longrightarrow> first_mark nsim_view (dev (sim_ftl (\<lambda>_. blank_page) t w)) b ! i = 0xFF"
  by (simp add: first_mark_def sim_ftl_def blank_page_def)

theorem ftl_search_complete_witness:
  "\<exists>w f'. ftl_find_same_plane_unused_block nsim_bus 3 (sim_ftl (\<lambda>_. blank_page) [] 0) = Some (w, f') \<and>
     unat w < 4096 \<and> unat w mod 2 = 1"
proof -
  let ?n = "dev (sim_ftl (\<lambda>_. blank_page) [] 0)"
  have "unused nsim_view ?n 1"
    by (intro nth_equalityI [THEN unused_def [THEN iffD2]]) (simp_all add: blank_mark)
  then have "\<exists>b<4096. b mod 2 = unat (3 :: u32) mod 2 \<and> unused nsim_view ?n b" by (intro exI [of _ 1]) simp
  then show ?thesis
    using ftl_search_complete [OF sim_ftl_ok, of 3 "\<lambda>_. blank_page" "[]" 0] by auto
qed

section \<open>The table\<close>

definition accepted :: "'s nand_view \<Rightarrow> 's nand \<Rightarrow> u8 \<Rightarrow> nat \<Rightarrow> bool" where
  "accepted v n mode b \<longleftrightarrow> first_mark v n b ! 0 = 0xFF \<and> (mode \<noteq> 0 \<longrightarrow> second_mark v n b = 0xFF)"

text \<open>The last of the first \<open>k\<close> blocks that is good and is marked with a logical number.\<close>

definition last_named :: "'s nand_view \<Rightarrow> 's nand \<Rightarrow> u8 \<Rightarrow> nat \<Rightarrow> nat \<Rightarrow> nat option" where
  "last_named v n mode k l = find (\<lambda>b. accepted v n mode b \<and> lbn_of v n b = l) (rev [0..<k])"

definition table_entry :: "nat option \<Rightarrow> u16" where
  "table_entry r = (case r of None \<Rightarrow> 0xFFFF | Some b \<Rightarrow> of_nat b)"

definition good_count :: "'s nand_view \<Rightarrow> 's nand \<Rightarrow> u8 \<Rightarrow> nat \<Rightarrow> nat" where
  "good_count v n mode k = length (filter (accepted v n mode) [0..<k])"

lemma last_named_Suc:
  "last_named v n mode (Suc k) l = (if accepted v n mode k \<and> lbn_of v n k = l then Some k else last_named v n mode k l)"
  by (simp add: last_named_def)

lemma last_named_Some:
  "last_named v n mode k l = Some b \<Longrightarrow> b < k \<and> accepted v n mode b \<and> lbn_of v n b = l"
  by (induction k) (auto simp: last_named_Suc last_named_def split: if_splits)

lemma last_named_last:
  "last_named v n mode k l = Some b \<Longrightarrow> b < c \<Longrightarrow> c < k \<Longrightarrow> accepted v n mode c \<Longrightarrow> lbn_of v n c \<noteq> l"
  by (induction k) (auto simp: last_named_Suc last_named_def less_Suc_eq split: if_splits dest: last_named_Some)

lemma last_named_None:
  "last_named v n mode k l = None \<longleftrightarrow> (\<forall>b<k. accepted v n mode b \<longrightarrow> lbn_of v n b \<noteq> l)"
  by (induction k) (auto simp: last_named_Suc less_Suc_eq, simp add: last_named_def)

lemma good_count_Suc: "good_count v n mode (Suc k) = good_count v n mode k + (if accepted v n mode k then 1 else 0)"
  by (simp add: good_count_def)

text \<open>A state that differs in the table and its counters only, after more looks at the chip.\<close>

definition retabled :: "'s nand_view \<Rightarrow> 's nand \<Rightarrow> 's nand \<Rightarrow> bool" where
  "retabled v n m \<longleftrightarrow>
     looked v (n\<lparr>lut := lut m, good_blocknum := good_blocknum m, valid_blocknum := valid_blocknum m\<rparr>) m"

lemma retabled_same:
  assumes "retabled v n m"
  shows "first_mark v m = first_mark v n" "second_mark v m = second_mark v n" "page_of m = page_of n"
    "block_totalnum m = block_totalnum n" "chip v m = chip v n" "ppb m = ppb n" "msz m = msz n"
    "accepted v m = accepted v n" "lbn_of v m = lbn_of v n" "last_named v m = last_named v n"
    "good_count v m = good_count v n" "nand_ok bus v ecc n \<Longrightarrow> nand_ok bus v ecc m"
proof -
  let ?n = "n\<lparr>lut := lut m, good_blocknum := good_blocknum m, valid_blocknum := valid_blocknum m\<rparr>"
  have l: "looked v ?n m" using assms by (simp add: retabled_def)
  show f: "first_mark v m = first_mark v n" "second_mark v m = second_mark v n" "page_of m = page_of n"
    "block_totalnum m = block_totalnum n"
    using looked_marks [OF l] by (simp_all add: page_of_def [abs_def])
  show "chip v m = chip v n" using l by (simp add: looked_def)
  have mv: "moved ?n m" using l by (simp add: looked_def)
  show "ppb m = ppb n" "msz m = msz n" using moved_geometry [OF mv] by simp_all
  show a: "accepted v m = accepted v n" "lbn_of v m = lbn_of v n"
    by (simp_all add: accepted_def [abs_def] lbn_of_def [abs_def] f)
  show "last_named v m = last_named v n" "good_count v m = good_count v n"
    by (simp_all add: last_named_def [abs_def] good_count_def [abs_def] a)
  show "nand_ok bus v ecc n \<Longrightarrow> nand_ok bus v ecc m" using looked_ok [OF _ l] by simp
qed

lemma looked_retabled: "looked v n m \<Longrightarrow> retabled v n m"
proof -
  assume l: "looked v n m"
  then have "lut m = lut n" "good_blocknum m = good_blocknum n" "valid_blocknum m = valid_blocknum n"
    using moved_fields by (auto simp: looked_def)
  then show ?thesis using l by (simp add: retabled_def)
qed

lemma looked_tables:
  assumes "looked v n m"
  shows "looked v (n\<lparr>lut := t, good_blocknum := g, valid_blocknum := w\<rparr>) (m\<lparr>lut := t, good_blocknum := g, valid_blocknum := w\<rparr>)"
proof -
  have mv: "moved n m" using assms by (simp add: looked_def)
  then obtain a b c where "m = n\<lparr>ecc_hdbuf := a, ecc_rdbuf := b, nhw := c\<rparr>" unfolding moved_def by blast
  then have "moved (n\<lparr>lut := t, good_blocknum := g, valid_blocknum := w\<rparr>) (m\<lparr>lut := t, good_blocknum := g, valid_blocknum := w\<rparr>)"
    using moved_fields(10,11) [OF mv] by (simp add: moved_def)
  then show ?thesis using assms by (simp add: looked_def)
qed

lemma retabled_trans:
  assumes "retabled v n m" and "retabled v m l"
  shows "retabled v n l"
proof -
  have "looked v (n\<lparr>lut := lut l, good_blocknum := good_blocknum l, valid_blocknum := valid_blocknum l\<rparr>)
      (m\<lparr>lut := lut l, good_blocknum := good_blocknum l, valid_blocknum := valid_blocknum l\<rparr>)"
    using looked_tables [OF assms(1) [unfolded retabled_def], where t = "lut l" and g = "good_blocknum l" and w = "valid_blocknum l"] by simp
  then show ?thesis using assms(2) looked_trans by (auto simp: retabled_def)
qed

lemma retabled_tables:
  "nand_ok bus v ecc n \<Longrightarrow> retabled v n (n\<lparr>lut := t, good_blocknum := g, valid_blocknum := w\<rparr>)"
  using looked_refl [of bus v ecc "n\<lparr>lut := t, good_blocknum := g, valid_blocknum := w\<rparr>"]
  by (simp add: retabled_def)

text \<open>One block of the scan.\<close>

lemma lut_block_ok:
  assumes ok: "nand_ok bus v ecc n" and i: "i < 4096" and len: "length (lut n) = 4096" "length buf \<le> 4"
  shows "\<exists>buf' m. lut_block bus mode buf (of_nat i) n = Some (buf', m) \<and> length buf' = 4 \<and> retabled v n m \<and>
    lut m = (if accepted v n mode i \<and> lbn_of v n i < 4096 then (lut n)[lbn_of v n i := of_nat i] else lut n) \<and>
    good_blocknum m = good_blocknum n + (if accepted v n mode i then 1 else 0) \<and>
    valid_blocknum m = valid_blocknum n"
proof -
  let ?f = "first_mark v n i"
  from read_first_mark [OF ok i] obtain n1 where
    n1: "nand_readspare bus (page_of n (of_nat i) 0) 0 4 n = Some (0, ?f, n1)" "looked v n n1" by blast
  from read_second_mark [OF looked_ok [OF ok n1(2)] i] obtain n2 where
    n2: "nand_readspare bus (page_of n1 (of_nat i) 1) 0 1 n1 = Some (0, [second_mark v n i], n2)" "looked v n1 n2"
    by (auto simp: looked_marks [OF n1(2)])
  have st: "stored ?f buf = ?f" using len(2) by (simp add: stored_def)
  have f0: "arr_get ?f 0 = Some (?f ! 0)" "arr_get ?f 2 = Some (?f ! 2)" "arr_get ?f 3 = Some (?f ! 3)"
    by (simp_all add: arr_get_Some)
  define second where "second = (?f ! 0 = 0xFF \<and> mode \<noteq> 0)"
  define buf2 where "buf2 = (if second then second_mark v n i # tl ?f else ?f)"
  define n' where "n' = (if second then n2 else n1)"
  have n': "looked v n n'" using n1(2) looked_trans [OF n1(2) n2(2)] by (simp add: n'_def)
  have tl: "tl ?f ! 1 = ?f ! 2" "tl ?f ! 2 = ?f ! 3" by (simp_all add: nth_tl eval_nat_numeral)
  have len2: "length buf2 = 4" by (simp add: buf2_def)
  have b2: "arr_get buf2 0 = Some (buf2 ! 0)" "arr_get buf2 2 = Some (?f ! 2)" "arr_get buf2 3 = Some (?f ! 3)"
    using len2 tl by (auto simp: arr_get_Some buf2_def eval_nat_numeral)
  have acc: "buf2 ! 0 = 0xFF \<longleftrightarrow> accepted v n mode i" by (auto simp: buf2_def second_def accepted_def)
  have drop1: "stored [second_mark v n i] ?f = second_mark v n i # tl ?f" by (simp add: stored_def drop_Suc)
  have mid: "lut_read bus mode buf (of_nat i) n = Some (buf2, n')"
    using n1(1) n2(1) drop1 by (simp add: lut_read_def Let_def st f0 buf2_def n'_def second_def)
  have lbn: "unat (push_bit 8 (ucast (?f ! 3)) + ucast (?f ! 2) :: u32) = lbn_of v n i"
    using unat_u8_less [of "?f ! 2"] unat_u8_less [of "?f ! 3"]
    by (simp add: lbn_of_def push_bit_eq_mult unat_word_ariths)
  have tot: "block_totalnum n' = 4096" "lut n' = lut n" "good_blocknum n' = good_blocknum n"
    "valid_blocknum n' = valid_blocknum n"
    using known_partD(2) [OF nand_okD(1) [OF ok]] looked_marks(7) [OF n'] moved_fields n' by (auto simp: looked_def)
  have ok': "nand_ok bus v ecc n'" by (rule looked_ok [OF ok n'])
  show ?thesis
  proof (cases "accepted v n mode i")
    case False
    then have "lut_block bus mode buf (of_nat i) n = Some (buf2, n')"
      using acc by (simp add: lut_block_def mid b2)
    then show ?thesis using False len2 looked_retabled [OF n'] tot by auto
  next
    case True
    let ?t = "if lbn_of v n i < 4096 then (lut n)[lbn_of v n i := of_nat i] else lut n"
    let ?m = "n'\<lparr>lut := ?t, good_blocknum := good_blocknum n + 1\<rparr>"
    have "lut_block bus mode buf (of_nat i) n = Some (buf2, ?m)"
    proof (cases "lbn_of v n i < 4096")
      case less: True
      have "take_bit 32 i = i" using i by (intro take_bit_nat_eq_self) simp
      then show ?thesis using acc True lbn len(1) less
        by (simp add: lut_block_def mid b2 tot Let_def word_less_nat_alt arr_set_Some unsigned_of_nat)
    next
      case False
      have "n'\<lparr>lut := lut n\<rparr> = n'" unfolding tot(2) [symmetric] by simp
      then show ?thesis using acc True lbn False
        by (simp add: lut_block_def mid b2 tot Let_def word_less_nat_alt)
    qed
    moreover have "retabled v n ?m"
      using retabled_trans [OF looked_retabled [OF n'] retabled_tables [OF ok',
        where t = ?t and g = "good_blocknum n + 1" and w = "valid_blocknum n'"]]
      by simp
    ultimately show ?thesis using True len2 tot by auto
  qed
qed

text \<open>The table after the first \<open>i\<close> blocks, and at the end.\<close>

definition table_upto :: "'s nand_view \<Rightarrow> 's nand \<Rightarrow> u8 \<Rightarrow> nat \<Rightarrow> u16 list" where
  "table_upto v n mode i = map (\<lambda>l. table_entry (last_named v n mode i l)) [0..<4096]"

lemma table_upto_Suc:
  "table_upto v n mode (Suc i) =
     (if accepted v n mode i \<and> lbn_of v n i < 4096 then (table_upto v n mode i)[lbn_of v n i := of_nat i]
      else table_upto v n mode i)"
  by (rule nth_equalityI)
    (auto simp: table_upto_def last_named_Suc nth_list_update table_entry_def simp del: upt_Suc upt_rec_numeral)

lemma lut_scan_ok:
  shows "nand_ok bus v ecc n \<Longrightarrow> i + k = 4096 \<Longrightarrow> length buf \<le> 4 \<Longrightarrow> lut n = table_upto v n mode i \<Longrightarrow>
    good_blocknum n = of_nat (good_count v n mode i) \<Longrightarrow>
    \<exists>m. lut_scan bus mode buf i k n = Some m \<and> retabled v n m \<and> lut m = table_upto v n mode 4096 \<and>
      good_blocknum m = of_nat (good_count v n mode 4096) \<and> valid_blocknum m = valid_blocknum n"
proof (induction k arbitrary: n i buf)
  case 0
  then show ?case using looked_retabled [OF looked_refl] by auto
next
  case (Suc k)
  have i: "i < 4096" using Suc.prems(2) by simp
  have len: "length (lut n) = 4096" unfolding Suc.prems(4) by (simp add: table_upto_def)
  from lut_block_ok [OF Suc.prems(1) i len Suc.prems(3)] obtain buf' m where
    m: "lut_block bus mode buf (of_nat i) n = Some (buf', m)" "length buf' = 4" "retabled v n m"
    "lut m = (if accepted v n mode i \<and> lbn_of v n i < 4096 then (lut n)[lbn_of v n i := of_nat i] else lut n)"
    "good_blocknum m = good_blocknum n + (if accepted v n mode i then 1 else 0)"
    "valid_blocknum m = valid_blocknum n" by blast
  note same = retabled_same [OF m(3)]
  have tbl: "table_upto v m = table_upto v n" by (simp add: table_upto_def [abs_def] same)
  have "lut m = table_upto v m mode (Suc i)" unfolding tbl table_upto_Suc m(4) Suc.prems(4) ..
  moreover have "good_blocknum m = of_nat (good_count v m mode (Suc i))"
    by (simp add: m(5) Suc.prems(5) same good_count_Suc)
  ultimately obtain m' where "lut_scan bus mode buf' (Suc i) k m = Some m'" "retabled v m m'"
    "lut m' = table_upto v n mode 4096" "good_blocknum m' = of_nat (good_count v n mode 4096)"
    "valid_blocknum m' = valid_blocknum n"
    using Suc.IH [OF same(12) [OF Suc.prems(1)], of "Suc i" buf'] Suc.prems(2) m(2,6) unfolding tbl same by auto
  then show ?case using m(1) retabled_trans [OF m(3)] by auto
qed

lemma first_invalid_ok:
  "i + k \<le> length t \<Longrightarrow> first_invalid lim t i k = Some (find (\<lambda>l. lim \<le> t ! l) [i..<i + k])"
proof (induction k arbitrary: i)
  case 0
  then show ?case by simp
next
  case (Suc k)
  have "[i..<i + Suc k] = i # [Suc i..<Suc i + k]" by (simp add: upt_conv_Cons del: upt_Suc)
  then show ?case using Suc by (simp add: arr_get_Some del: upt_Suc)
qed

lemma find_upt_Some: "find P [0..<k] = Some i \<Longrightarrow> i < k \<and> P i \<and> (\<forall>j<i. \<not> P j)"
  by (auto simp: find_Some_iff)

lemma find_upt_None: "find P [0..<k] = None \<Longrightarrow> \<forall>i<k. \<not> P i"
  by (auto simp: find_None_iff)

text \<open>C6: \<open>ftl_create_lut\<close> on good hardware terminates without leaving the table. Afterwards the entry of a
  logical number is the last good block whose spare area carries that number, or 0xFFFF when there
  is none; the counter of good blocks is their number; the number of valid blocks is the first
  logical number without a block; and the result is an error exactly when that is below 100. No
  cell changes.\<close>

theorem ftl_create_lut_correct:
  assumes "nand_ok bus v ecc n" and "length (lut n) = 4096"
  shows "\<exists>n'. ftl_create_lut bus mode n = Some (if valid_blocknum n' < 100 then 2 else 0, n') \<and>
    nand_ok bus v ecc n' \<and> chip v n' = chip v n \<and>
    lut n' = map (\<lambda>l. table_entry (last_named v n mode 4096 l)) [0..<4096] \<and>
    good_blocknum n' = of_nat (length (filter (accepted v n mode) [0..<4096])) \<and>
    (if \<exists>l<4096. 4096 \<le> lut n' ! l
     then unat (valid_blocknum n') < 4096 \<and> 4096 \<le> lut n' ! unat (valid_blocknum n') \<and>
       (\<forall>l<unat (valid_blocknum n'). lut n' ! l < 4096)
     else valid_blocknum n' = valid_blocknum n)"
proof -
  have tot: "block_totalnum n = 4096" by (rule known_partD(2) [OF nand_okD(1) [OF assms(1)]])
  let ?t = "replicate 4096 (0xFFFF :: u16)"
  let ?n = "n\<lparr>lut := ?t, good_blocknum := 0\<rparr>"
  have fill: "arr_fill (lut n) 0 4096 0xFFFF = Some ?t"
    using arr_fill_Some [of 0 4096 "lut n" "0xFFFF"] assms(2) by simp
  have start: "lut ?n = table_upto v ?n mode 0" "good_blocknum ?n = of_nat (good_count v ?n mode 0)"
    by (auto intro!: nth_equalityI simp: table_upto_def last_named_def table_entry_def good_count_def
        simp del: upt_rec_numeral)
  have ok: "nand_ok bus v ecc ?n" using assms(1) by simp
  have "0 + 4096 = (4096 :: nat)" by simp
  from lut_scan_ok [OF ok this _ start, of "[]"] obtain n1 where
    n1: "lut_scan bus mode [] 0 4096 ?n = Some n1" "retabled v ?n n1" "lut n1 = table_upto v ?n mode 4096"
    "good_blocknum n1 = of_nat (good_count v ?n mode 4096)" "valid_blocknum n1 = valid_blocknum n" by auto
  note same = retabled_same [OF n1(2)]
  have marks: "table_upto v ?n = table_upto v n" "good_count v ?n = good_count v n"
    by (simp_all add: table_upto_def [abs_def] last_named_def [abs_def] good_count_def [abs_def] accepted_def [abs_def]
        lbn_of_def [abs_def])
  have len: "length (lut n1) = 4096" unfolding n1(3) by (simp add: table_upto_def)
  define r where "r = find (\<lambda>l. (4096 :: u16) \<le> lut n1 ! l) [0..<4096]"
  have inv: "first_invalid (block_totalnum n1) (lut n1) 0 4096 = Some r"
    using first_invalid_ok [of 0 4096 "lut n1" "4096"] len same(4) tot unfolding r_def by simp
  define n2 where "n2 = (case r of None \<Rightarrow> n1 | Some i \<Rightarrow> n1\<lparr>valid_blocknum := of_nat i\<rparr>)"
  have "ftl_create_lut bus mode n = Some (if valid_blocknum n2 < 100 then 2 else 0, n2)"
    using fill n1(1) inv tot by (simp add: ftl_create_lut_def n2_def)
  moreover have n2: "nand_ok bus v ecc n2" "chip v n2 = chip v n" "lut n2 = lut n1" "good_blocknum n2 = good_blocknum n1"
    using same(12) [OF ok] same(5) by (simp_all add: n2_def split: option.splits)
  moreover have "if \<exists>l<4096. 4096 \<le> lut n2 ! l
     then unat (valid_blocknum n2) < 4096 \<and> 4096 \<le> lut n2 ! unat (valid_blocknum n2) \<and>
       (\<forall>l<unat (valid_blocknum n2). lut n2 ! l < 4096)
     else valid_blocknum n2 = valid_blocknum n"
  proof (cases r)
    case None
    then have none: "(\<exists>l<4096. 4096 \<le> lut n2 ! l) = False" unfolding n2(3) using find_upt_None r_def by metis
    show ?thesis unfolding none if_False using None n1(5) by (simp add: n2_def)
  next
    case (Some i)
    then have i: "i < 4096 \<and> 4096 \<le> lut n1 ! i \<and> (\<forall>j<i. \<not> 4096 \<le> lut n1 ! j)" using find_upt_Some r_def by metis
    then have "unat (valid_blocknum n2) = i" using Some by (simp add: n2_def unat_of_nat_small)
    moreover have "\<exists>l<4096. 4096 \<le> lut n2 ! l" using i n2(3) by auto
    ultimately show ?thesis using i n2(3) by (simp add: not_le)
  qed
  ultimately show ?thesis
    using n1(3,4) unfolding marks table_upto_def good_count_def by (intro exI [of _ n2]) simp
qed

theorem ftl_create_lut_correct_witness:
  "\<exists>n'. ftl_create_lut nsim_bus 1 (dev (sim_ftl (\<lambda>_. blank_page) (replicate 4096 0) 0)) = Some (2, n') \<and>
     valid_blocknum n' = 0"
proof -
  let ?n = "dev (sim_ftl (\<lambda>_. blank_page) (replicate 4096 0) 0)"
  have "length (lut ?n) = 4096" by (simp add: sim_ftl_def)
  from ftl_create_lut_correct [OF sim_ftl_ok this, of 1] obtain n' where
    n': "ftl_create_lut nsim_bus 1 ?n = Some (if valid_blocknum n' < 100 then 2 else 0, n')"
    "lut n' = map (\<lambda>l. table_entry (last_named nsim_view ?n 1 4096 l)) [0..<4096]"
    "if \<exists>l<4096. 4096 \<le> lut n' ! l
     then unat (valid_blocknum n') < 4096 \<and> 4096 \<le> lut n' ! unat (valid_blocknum n') \<and>
       (\<forall>l<unat (valid_blocknum n'). lut n' ! l < 4096)
     else valid_blocknum n' = valid_blocknum ?n" by auto
  have "lbn_of nsim_view ?n b = 65535" for b
    using blank_mark [of 2] blank_mark [of 3] by (simp add: lbn_of_def)
  then have "last_named nsim_view ?n 1 4096 0 = None" by (simp add: last_named_None)
  then have zero: "lut n' ! 0 = 0xFFFF" unfolding n'(2) by (simp add: table_entry_def del: upt_rec_numeral)
  then have "\<exists>l<4096. 4096 \<le> lut n' ! l" by (intro exI [of _ 0]) simp
  with n'(3) have "\<forall>l<unat (valid_blocknum n'). lut n' ! l < 4096" by presburger
  moreover have "\<not> (0xFFFF :: u16) < 4096" by simp
  ultimately have "unat (valid_blocknum n') = 0" using zero by (metis gr0I)
  then have "valid_blocknum n' = 0" by (simp add: unat_eq_0)
  then show ?thesis using n'(1) by auto
qed

end
