(* ===== verification/Ftl_Array.thy ===== *)
theory Ftl_Array
  imports Ftl_Table
begin

text \<open>
  The translation layer as an array of sectors of 512 bytes. An invariant ties the table to the
  chip: every valid logical number names a block of its own whose sectors carry their codes,
  blocks with a blank mark are blank, and each plane has one. Under it reads return the sectors
  last written, and writes - in place on blank sectors, by moving the block otherwise - replace
  exactly the sectors they name and keep the invariant.
\<close>

section \<open>Sectors of pages and blocks\<close>

definition spp :: "'s nand \<Rightarrow> nat" where "spp n = msz n div 512"

lemma known_spp:
  assumes "known_part n"
  shows "msz n = 512 * spp n" "spp n = 4 \<and> ppb n = 64 \<and> msz n = 2048 \<and> csz n = 2112 \<or>
    spp n = 8 \<and> ppb n = 128 \<and> msz n = 4096 \<and> csz n = 4320"
  using known_partD(1) [OF assms] by (auto simp: spp_def)

text \<open>Unprogrammed sectors have a blank code; others carry the code of their data.\<close>

definition sector_ok :: "(u8 list \<Rightarrow> u32) \<Rightarrow> 's nand \<Rightarrow> (nat \<Rightarrow> u8) \<Rightarrow> nat \<Rightarrow> bool" where
  "sector_ok ecc n F q \<longleftrightarrow>
     sector_code n F q = (if sector_data F q = blank_sector then 0xFFFFFFFF else ecc (sector_data F q))"

text \<open>
  Page \<open>G\<close>, at offset \<open>i\<close> of a block, holds the sectors of page \<open>F\<close> except for those of the
  \<open>m\<close> sectors of \<open>bs\<close> that were written to the block from its sector \<open>s\<close> on.
\<close>

definition rewritten :: "(u8 list \<Rightarrow> u32) \<Rightarrow> 's nand \<Rightarrow> nat \<Rightarrow> nat \<Rightarrow> u8 list \<Rightarrow> nat \<Rightarrow> (nat \<Rightarrow> u8) \<Rightarrow> (nat \<Rightarrow> u8) \<Rightarrow> bool" where
  "rewritten ecc n s m bs i F G \<longleftrightarrow>
     (\<forall>q< spp n. (let t = i * spp n + q in
        if s \<le> t \<and> t < s + m
        then sector_data G q = buf_sector bs (t - s) \<and> sector_code n G q = ecc (buf_sector bs (t - s))
        else sector_data G q = sector_data F q \<and> sector_code n G q = sector_code n F q)) \<and>
     (\<forall>x. msz n \<le> x \<and> x < msz n + 16 \<longrightarrow> G x = F x)"

lemma rewritten_same: "(\<And>q. q < spp n \<Longrightarrow> \<not> (s \<le> i * spp n + q \<and> i * spp n + q < s + m)) \<Longrightarrow> rewritten ecc n s m bs i F F"
  by (auto simp: rewritten_def Let_def)

lemma rewritten_none: "rewritten ecc n s 0 bs i F G \<longleftrightarrow> rewritten ecc n s' 0 bs' i F G"
proof -
  have "(s \<le> t \<and> t < s + 0) = False" for s t :: nat by simp
  then show ?thesis by (simp only: rewritten_def Let_def if_False)
qed

lemma buf_sector_take: "512 * Suc i \<le> k \<Longrightarrow> buf_sector (take k bs) i = buf_sector bs i"
  by (simp add: buf_sector_def drop_take)

lemma buf_sector_drop: "buf_sector (drop (512 * k) bs) i = buf_sector bs (k + i)"
  by (simp add: buf_sector_def distrib_left add.commute)

lemma rewritten_image:
  assumes "known_part n" and "j + c \<le> spp n" and "512 * c \<le> length bs"
    and "c = m \<or> j + c = spp n" and "c \<le> m"
  shows "rewritten ecc n (i * spp n + j) m bs i F (page_image ecc n F (512 * j) (take (512 * c) bs))"
proof -
  have len: "length (take (512 * c) bs) = 512 * c" using assms(3) by simp
  have jm: "512 * (j + c) \<le> msz n" using assms(2) known_spp(1) [OF assms(1)] by simp
  have "let t = i * spp n + q in
      if i * spp n + j \<le> t \<and> t < i * spp n + j + m
      then sector_data (page_image ecc n F (512 * j) (take (512 * c) bs)) q = buf_sector bs (t - (i * spp n + j)) \<and>
        sector_code n (page_image ecc n F (512 * j) (take (512 * c) bs)) q = ecc (buf_sector bs (t - (i * spp n + j)))
      else sector_data (page_image ecc n F (512 * j) (take (512 * c) bs)) q = sector_data F q \<and>
        sector_code n (page_image ecc n F (512 * j) (take (512 * c) bs)) q = sector_code n F q" if q: "q < spp n" for q
  proof -
    have "512 * Suc q \<le> msz n" using q known_spp(1) [OF assms(1)] by simp
    note img = image_sector_data [OF len jm this] image_sector_code [OF len jm]
    have in_c: "j \<le> q \<and> q < j + m \<longleftrightarrow> j \<le> q \<and> q < j + c" using assms(4,5) q by auto
    have "buf_sector (take (512 * c) bs) (q - j) = buf_sector bs (q - j)" if "j \<le> q \<and> q < j + c"
      using that by (intro buf_sector_take mult_le_mono2) linarith
    then show ?thesis using in_c by (auto simp: img Let_def)
  qed
  moreover have "page_image ecc n F (512 * j) (take (512 * c) bs) x = F x" if "msz n \<le> x \<and> x < msz n + 16" for x
    using image_elsewhere [OF len jm] that by blast
  ultimately show ?thesis unfolding rewritten_def by blast
qed

section \<open>Copying a block\<close>

lemma chunk_words:
  assumes "known_part n" and "j < spp n" and "512 * m < 2 ^ 32" and "c = min m (spp n - j)"
  shows "(if (of_nat (512 * m) :: u32) > ucast (page_mainsize n) - ucast (of_nat (512 * j) :: u16)
      then page_mainsize n - of_nat (512 * j) else ucast (of_nat (512 * m) :: u32)) = (of_nat (512 * c) :: u16)"
    and "unat (of_nat (512 * c) :: u16) = 512 * c"
    and "(of_nat (512 * m) :: u32) - ucast (of_nat (512 * c) :: u16) = of_nat (512 * (m - c))"
    and "unat (of_nat (512 * j) :: u16) = 512 * j"
proof -
  note g = known_spp [OF assms(1)]
  have small: "512 * j < 65536" "512 * c < 65536" "512 * (spp n - j) < 65536" using g(2) assms(2,4) by auto
  show c: "unat (of_nat (512 * c) :: u16) = 512 * c" using small by (intro unat_of_nat_small) simp
  show j: "unat (of_nat (512 * j) :: u16) = 512 * j" using small by (intro unat_of_nat_small) simp
  have m: "unat (of_nat (512 * m) :: u32) = 512 * m" using assms(3) by (intro unat_of_nat_small) simp
  have main: "unat (page_mainsize n) = 512 * spp n" using g(1) by (simp add: msz_def)
  have le: "512 * j \<le> 512 * spp n" using assms(2) by simp
  have rest16: "page_mainsize n - of_nat (512 * j) = (of_nat (512 * (spp n - j)) :: u16)"
  proof -
    have "unat (page_mainsize n - of_nat (512 * j)) = 512 * spp n - 512 * j"
      using le by (subst unat_sub) (simp_all only: word_le_nat_alt main j)
    also have "\<dots> = unat (of_nat (512 * (spp n - j)) :: u16)"
      using unat_of_nat_small [of "512 * (spp n - j)", where 'a = 16] small(3) by (simp only: right_diff_distrib') simp
    finally show ?thesis by (simp only: word_unat_eq_iff)
  qed
  have rest32: "unat (ucast (page_mainsize n) - ucast (of_nat (512 * j) :: u16) :: u32) = 512 * (spp n - j)"
    using le by (subst unat_sub) (simp_all only: word_le_nat_alt unat_ucast_up main j right_diff_distrib')
  have cut: "ucast (of_nat (512 * m) :: u32) = (of_nat (512 * m) :: u16)" if "512 * m < 65536"
  proof -
    have "unat (ucast (of_nat (512 * m) :: u32) :: u16) = 512 * m" using that m by (subst unat_ucast_low) simp_all
    moreover have "unat (of_nat (512 * m) :: u16) = 512 * m" using that by (intro unat_of_nat_small) simp
    ultimately show ?thesis by (simp only: word_unat_eq_iff)
  qed
  show "(if (of_nat (512 * m) :: u32) > ucast (page_mainsize n) - ucast (of_nat (512 * j) :: u16)
      then page_mainsize n - of_nat (512 * j) else ucast (of_nat (512 * m) :: u32)) = (of_nat (512 * c) :: u16)"
  proof (cases "spp n - j < m")
    case True
    then show ?thesis unfolding word_less_nat_alt rest32 m rest16 assms(4) by simp
  next
    case False
    then have "512 * m < 65536" using small(3) by simp
    with False show ?thesis unfolding word_less_nat_alt rest32 m assms(4) cut [OF \<open>512 * m < 65536\<close>] by simp
  qed
  have "c \<le> m" using assms(4) by simp
  then have "of_nat (512 * (m - c)) = (of_nat (512 * m) - of_nat (512 * c) :: u32)"
    by (simp only: right_diff_distrib' of_nat_diff mult_le_mono2)
  moreover have "ucast (of_nat (512 * c) :: u16) = (of_nat (512 * c) :: u32)"
  proof -
    have "unat (of_nat (512 * c) :: u32) = 512 * c" using small by (intro unat_of_nat_small) simp
    then show ?thesis by (simp only: word_unat_eq_iff unat_ucast_up c)
  qed
  ultimately show "(of_nat (512 * m) :: u32) - ucast (of_nat (512 * c) :: u16) = of_nat (512 * (m - c))"
    by (simp only:)
qed

text \<open>What is left of the written run after a page.\<close>

lemma rewritten_rest:
  assumes "rewritten ecc n (Suc i * spp n) (m - c) (drop (512 * c) bs) x F G"
    and "c = min m (spp n - j)" and "j < spp n" and "Suc i \<le> x"
  shows "rewritten ecc n (i * spp n + j) m bs x F G"
proof -
  have x: "Suc i * spp n \<le> x * spp n" using assms(4) by (intro mult_le_mono1)
  have conv: "(Suc i * spp n \<le> t \<and> t < Suc i * spp n + (m - c)) = (i * spp n + j \<le> t \<and> t < i * spp n + j + m)"
    if t: "t = x * spp n + q" for t q
    using t x assms(2,3) by auto
  have buf: "buf_sector (drop (512 * c) bs) (t - Suc i * spp n) = buf_sector bs (t - (i * spp n + j))"
    if "Suc i * spp n \<le> t \<and> t < Suc i * spp n + (m - c)" for t
  proof -
    have "c + (t - Suc i * spp n) = t - (i * spp n + j)" using that assms(2,3) by auto
    then show ?thesis by (simp only: buf_sector_drop)
  qed
  show ?thesis
    using assms(1) unfolding rewritten_def Let_def by (metis conv buf)
qed

text \<open>
  Copying the pages of block \<open>a\<close> to the blank block \<open>u\<close> from offset \<open>i\<close> on, with \<open>m\<close> sectors left
  to be written from sector \<open>j\<close> of page \<open>max i po\<close> on: first one page, then all.
\<close>

lemma copy_page_ok:
  assumes ok: "nand_ok bus v ecc n" and blocks: "a < 4096" "u < 4096" "a \<noteq> u" "a mod 2 = u mod 2"
    and i: "i < ppb n" and j: "j < spp n" and bs: "512 * m \<le> length bs"
    and fits: "m = 0 \<or> max i po * spp n + j + m \<le> ppb n * spp n"
    and blank: "chip v n (u * ppb n + i) = blank_page"
  defines "writes \<equiv> po \<le> i \<and> m \<noteq> 0"
  defines "c \<equiv> if writes then min m (spp n - j) else 0"
  defines "j' \<equiv> if writes then 0 else j"
  shows "\<exists>n1. copy_pages bus (of_nat a) (of_nat u) (of_nat po) i (Suc k) (of_nat (512 * j), bs, of_nat (512 * m)) n =
      copy_pages bus (of_nat a) (of_nat u) (of_nat po) (Suc i) k
        (of_nat (512 * j'), drop (512 * c) bs, of_nat (512 * (m - c))) n1 \<and>
    moved n n1 \<and> nand_ok bus v ecc n1 \<and>
    chip v n1 = (chip v n)(u * ppb n + i :=
      if writes then page_image ecc n (chip v n (a * ppb n + i)) (512 * j) (take (512 * c) bs)
      else chip v n (a * ppb n + i))"
proof -
  note part = nand_okD(1) [OF ok] and geo = known_spp [OF nand_okD(1) [OF ok]]
  note pa = unat_page_of [OF part blocks(1) i] and pu = unat_page_of [OF part blocks(2) i]
  have dv: "(b * ppb n + i) div ppb n = b" for b using i by simp
  have plane: "unat (page_of n (of_nat a) (of_nat i)) div ppb n mod 2 = unat (page_of n (of_nat u) (of_nat i)) div ppb n mod 2"
    unfolding pa pu dv using blocks(4) .
  have aa: "unat (page_of n (of_nat a) (of_nat i)) < ppb n * 4096" "unat (page_of n (of_nat u) (of_nat i)) < ppb n * 4096"
    using pa pu by simp_all
  have m32: "512 * m < 2 ^ 32"
  proof -
    have "m \<le> ppb n * spp n" using fits by auto
    also have "\<dots> \<le> 1024" using geo(2) by auto
    finally show ?thesis by simp
  qed
  have mw: "unat (of_nat (512 * m) :: u32) = 512 * m" using m32 by (intro unat_of_nat_small) simp
  have test: "(of_nat i :: u32) \<ge> of_nat po \<and> (of_nat (512 * m) :: u32) \<noteq> 0 \<longleftrightarrow> writes"
  proof (cases "m = 0")
    case True
    then show ?thesis by (simp add: writes_def)
  next
    case False
    with fits have "po * spp n \<le> ppb n * spp n" by (metis add_leD1 max.cobounded2 mult_le_mono1 order_trans)
    then have "po \<le> 128" "i < 128" using geo(2) i j by auto
    then have "unat (of_nat i :: u32) = i" "unat (of_nat po :: u32) = po" by (intro unat_of_nat_small; simp)+
    moreover have "(of_nat (512 * m) :: u32) \<noteq> 0" using False mw by (metis mult_is_0 numeral_eq_iff unat_0 zero_neq_numeral)
    ultimately show ?thesis using False by (simp add: word_le_nat_alt writes_def)
  qed
  show ?thesis
  proof (cases writes)
    case False
    from copypage_ok [OF ok aa plane] obtain n1 where
      n1: "nand_copypage_withoutwrite bus (page_of n (of_nat a) (of_nat i)) (page_of n (of_nat u) (of_nat i)) n = Some (0, n1)"
      "moved n n1" "nand_ok bus v ecc n1" "chip v n1 = (chip v n)(u * ppb n + i := chip v n (a * ppb n + i))"
      unfolding pa pu blank programmed_blank by blast
    show ?thesis unfolding copy_pages.simps test using False n1
      by (intro exI [of _ n1]) (simp add: c_def j'_def)
  next
    case True
    have c: "c = min m (spp n - j)" using True by (simp add: c_def)
    note w = chunk_words [OF part j m32 c]
    have "sendable n (512 * j) (512 * c)" using geo(1) j c by (simp add: sendable_def)
    moreover have "512 * c \<le> length bs" "512 * j < csz n" using bs c geo j by auto
    ultimately obtain n1 where
      n1: "nand_copypage_withwrite bus (page_of n (of_nat a) (of_nat i)) (page_of n (of_nat u) (of_nat i))
        (of_nat (512 * j)) bs (of_nat (512 * c)) n = Some (0, n1)"
      "moved n n1" "nand_ok bus v ecc n1"
      "chip v n1 = (chip v n)(u * ppb n + i := page_image ecc n (chip v n (a * ppb n + i)) (512 * j) (take (512 * c) bs))"
      using copywrite_ok [OF ok aa plane, of "of_nat (512 * j)" "of_nat (512 * c)" bs]
      unfolding w(2,4) pa pu blank programmed_blank by blast
    show ?thesis unfolding copy_pages.simps test Let_def w(1) w(2) w(3) using True n1
      by (intro exI [of _ n1]) (simp add: j'_def)
  qed
qed

lemma copy_pages_ok:
  assumes blocks: "a < 4096" "u < 4096" "a \<noteq> u" "a mod 2 = u mod 2"
  shows "nand_ok bus v ecc n \<Longrightarrow> i + k = ppb n \<Longrightarrow> j < spp n \<Longrightarrow> 512 * m \<le> length bs \<Longrightarrow>
    m = 0 \<or> max i po * spp n + j + m \<le> ppb n * spp n \<Longrightarrow>
    (\<forall>x. i \<le> x \<and> x < ppb n \<longrightarrow> chip v n (u * ppb n + x) = blank_page) \<Longrightarrow>
    \<exists>job n'. copy_pages bus (of_nat a) (of_nat u) (of_nat po) i k (of_nat (512 * j), bs, of_nat (512 * m)) n = Some (0, job, n') \<and>
      moved n n' \<and> nand_ok bus v ecc n' \<and>
      (\<forall>p. \<not> (p div ppb n = u \<and> i \<le> p mod ppb n) \<longrightarrow> chip v n' p = chip v n p) \<and>
      (\<forall>x. i \<le> x \<and> x < ppb n \<longrightarrow> rewritten ecc n (max i po * spp n + j) m bs x
         (chip v n (a * ppb n + x)) (chip v n' (u * ppb n + x)))"
proof (induction k arbitrary: n i j m bs)
  case 0
  then show ?case by auto
next
  case (Suc k)
  note ok = Suc.prems(1) and part = nand_okD(1) [OF Suc.prems(1)] and geo = known_spp [OF nand_okD(1) [OF Suc.prems(1)]]
  have i: "i < ppb n" using Suc.prems(2) by simp
  have blank: "chip v n (u * ppb n + i) = blank_page" using Suc.prems(6) i by simp
  let ?F = "chip v n (a * ppb n + i)"
  define writes where "writes = (po \<le> i \<and> m \<noteq> 0)"
  define c where "c = (if writes then min m (spp n - j) else 0)"
  define j' where "j' = (if writes then 0 else j)"
  define G where "G = (if writes then page_image ecc n ?F (512 * j) (take (512 * c) bs) else ?F)"
  from copy_page_ok [OF ok blocks i Suc.prems(3,4,5) blank]
  obtain n1 where n1: "copy_pages bus (of_nat a) (of_nat u) (of_nat po) i (Suc k) (of_nat (512 * j), bs, of_nat (512 * m)) n =
      copy_pages bus (of_nat a) (of_nat u) (of_nat po) (Suc i) k (of_nat (512 * j'), drop (512 * c) bs, of_nat (512 * (m - c))) n1"
    "moved n n1" "nand_ok bus v ecc n1" "chip v n1 = (chip v n)(u * ppb n + i := G)"
    unfolding c_def j'_def G_def writes_def by blast
  note g1 = moved_geometry [OF n1(2)]
  have s1: "spp n1 = spp n" by (simp add: spp_def g1)
  have cm: "c \<le> m" by (simp add: c_def)
  have j': "j' < spp n" using Suc.prems(3) by (simp add: j'_def)
  have fits: "m - c = 0 \<or> max (Suc i) po * spp n + j' + (m - c) \<le> ppb n * spp n"
  proof (cases writes)
    case True
    then have "max i po = i" "max (Suc i) po = Suc i" by (simp_all add: writes_def)
    then show ?thesis using True Suc.prems(3,5) by (auto simp: c_def j'_def writes_def min_def)
  next
    case False
    then have "m = 0 \<or> max (Suc i) po = po \<and> max i po = po" by (auto simp: writes_def)
    then show ?thesis using False Suc.prems(5) by (auto simp: c_def j'_def)
  qed
  have apart: "u * ppb n + x \<noteq> u * ppb n + i" if "Suc i \<le> x" for x using that by simp
  have rest_blank: "\<forall>x. Suc i \<le> x \<and> x < ppb n \<longrightarrow> chip v n1 (u * ppb n + x) = blank_page"
    using Suc.prems(6) by (simp add: n1(4))
  have "512 * (m - c) \<le> length (drop (512 * c) bs)" using Suc.prems(4) cm by (simp add: right_diff_distrib')
  from Suc.IH [OF n1(3), unfolded g1 s1, OF _ j' this fits rest_blank] Suc.prems(2)
  obtain job n' where n': "copy_pages bus (of_nat a) (of_nat u) (of_nat po) (Suc i) k
      (of_nat (512 * j'), drop (512 * c) bs, of_nat (512 * (m - c))) n1 = Some (0, job, n')"
    "moved n1 n'" "nand_ok bus v ecc n'"
    "\<forall>p. \<not> (p div ppb n = u \<and> Suc i \<le> p mod ppb n) \<longrightarrow> chip v n' p = chip v n1 p"
    "\<forall>x. Suc i \<le> x \<and> x < ppb n \<longrightarrow> rewritten ecc n1 (max (Suc i) po * spp n + j') (m - c) (drop (512 * c) bs) x
       (chip v n1 (a * ppb n + x)) (chip v n' (u * ppb n + x))" by auto
  have same: "rewritten ecc n1 = rewritten ecc n"
    by (simp add: rewritten_def [abs_def] s1 sector_code_def code_col_def g1)
  have pos: "(b * ppb n + x) div ppb n = b" "(b * ppb n + x) mod ppb n = x" if "x < ppb n" for b x using that by simp_all
  have other: "chip v n1 (a * ppb n + x) = chip v n (a * ppb n + x)" if "x < ppb n" for x
  proof -
    have "a * ppb n + x \<noteq> u * ppb n + i" using pos(1) [OF that, of a] pos(1) [OF i, of u] blocks(3) by metis
    then show ?thesis by (simp add: n1(4))
  qed
  have "chip v n' p = chip v n p" if "\<not> (p div ppb n = u \<and> i \<le> p mod ppb n)" for p
  proof -
    have "p \<noteq> u * ppb n + i" using that pos [OF i, of u] by auto
    then show ?thesis using n'(4) that by (auto simp: n1(4))
  qed
  moreover have "rewritten ecc n (max i po * spp n + j) m bs x (chip v n (a * ppb n + x)) (chip v n' (u * ppb n + x))"
    if x: "i \<le> x" "x < ppb n" for x
  proof (cases "x = i")
    case True
    have "chip v n' (u * ppb n + i) = G" using n'(4) pos [OF i, of u] by (simp add: n1(4))
    moreover have "rewritten ecc n (max i po * spp n + j) m bs i ?F G"
    proof (cases writes)
      case w: True
      then have "max i po = i" "c = min m (spp n - j)" by (simp_all add: writes_def c_def)
      moreover from this have "j + c \<le> spp n" "512 * c \<le> length bs" "c = m \<or> j + c = spp n" "c \<le> m"
        using Suc.prems(3,4) by (auto simp: min_def)
      note rewritten_image [OF part this, where ecc = ecc and i = i and F = ?F]
      ultimately show ?thesis using w by (simp add: G_def)
    next
      case False
      then have "m = 0 \<or> Suc i \<le> max i po" by (auto simp: writes_def)
      then have "m = 0 \<or> Suc i * spp n \<le> max i po * spp n" using mult_le_mono1 by blast
      then show ?thesis using False by (auto simp: G_def intro!: rewritten_same)
    qed
    ultimately show ?thesis using True by simp
  next
    case False
    then have gt: "Suc i \<le> x" using x by simp
    have r: "rewritten ecc n (max (Suc i) po * spp n + j') (m - c) (drop (512 * c) bs) x
       (chip v n (a * ppb n + x)) (chip v n' (u * ppb n + x))"
      using n'(5) [rule_format, of x] gt x(2) unfolding same other [OF x(2)] by simp
    show ?thesis
    proof (cases writes)
      case w: True
      then have "max i po = i" "max (Suc i) po = Suc i" "c = min m (spp n - j)" "j' = 0"
        by (simp_all add: writes_def c_def j'_def)
      then show ?thesis using rewritten_rest [of ecc n i m c bs x] r Suc.prems(3) gt by simp
    next
      case w: False
      then consider "m = 0" | "max (Suc i) po = max i po" by (auto simp: writes_def)
      then show ?thesis
      proof cases
        case 1
        show ?thesis using r unfolding 1 diff_0_eq_0 by (rule rewritten_none [THEN iffD1])
      next
        case 2
        then show ?thesis using r w by (simp add: c_def j'_def)
      qed
    qed
  qed
  moreover have "copy_pages bus (of_nat a) (of_nat u) (of_nat po) i (Suc k) (of_nat (512 * j), bs, of_nat (512 * m)) n =
      Some (0, job, n')"
    using n1(1) n'(1) by (simp only:)
  ultimately show ?case using n'(3) moved_trans [OF n1(2) n'(2)] by blast
qed

section \<open>The invariant\<close>

definition page_at :: "'s nand_view \<Rightarrow> 's nand \<Rightarrow> nat \<Rightarrow> nat \<Rightarrow> nat \<Rightarrow> u8" where
  "page_at v n b x = chip v n (b * ppb n + x)"

definition sector_at :: "'s nand_view \<Rightarrow> 's nand \<Rightarrow> nat \<Rightarrow> nat \<Rightarrow> u8 list" where
  "sector_at v n b t = sector_data (page_at v n b (t div spp n)) (t mod spp n)"

definition block_ok :: "'s nand_view \<Rightarrow> (u8 list \<Rightarrow> u32) \<Rightarrow> 's nand \<Rightarrow> nat \<Rightarrow> bool" where
  "block_ok v ecc n b \<longleftrightarrow> (\<forall>x q. x < ppb n \<longrightarrow> q < spp n \<longrightarrow> sector_ok ecc n (page_at v n b x) q)"

definition block_blank :: "'s nand_view \<Rightarrow> 's nand \<Rightarrow> nat \<Rightarrow> bool" where
  "block_blank v n b \<longleftrightarrow> (\<forall>x<ppb n. page_at v n b x = blank_page)"

definition table_ok :: "'s nand_view \<Rightarrow> (u8 list \<Rightarrow> u32) \<Rightarrow> 's nand \<Rightarrow> bool" where
  "table_ok v ecc n \<longleftrightarrow>
     length (lut n) = 4096 \<and> unat (valid_blocknum n) \<le> 4096 \<and>
     (\<forall>l<unat (valid_blocknum n). unat (lut n ! l) < 4096 \<and> \<not> unused v n (unat (lut n ! l)) \<and>
        block_ok v ecc n (unat (lut n ! l))) \<and>
     (\<forall>l<unat (valid_blocknum n). \<forall>k<unat (valid_blocknum n). lut n ! l = lut n ! k \<longrightarrow> l = k) \<and>
     (\<forall>b<4096. unused v n b \<longrightarrow> block_blank v n b) \<and>
     (\<forall>q<2. \<exists>b<4096. b mod 2 = q \<and> unused v n b)"

lemma table_okD:
  assumes "table_ok v ecc n"
  shows "length (lut n) = 4096" "unat (valid_blocknum n) \<le> 4096"
    "l < unat (valid_blocknum n) \<Longrightarrow> unat (lut n ! l) < 4096"
    "l < unat (valid_blocknum n) \<Longrightarrow> \<not> unused v n (unat (lut n ! l))"
    "l < unat (valid_blocknum n) \<Longrightarrow> block_ok v ecc n (unat (lut n ! l))"
    "l < unat (valid_blocknum n) \<Longrightarrow> k < unat (valid_blocknum n) \<Longrightarrow> lut n ! l = lut n ! k \<Longrightarrow> l = k"
    "b < 4096 \<Longrightarrow> unused v n b \<Longrightarrow> block_blank v n b"
    "q < 2 \<Longrightarrow> \<exists>b<4096. b mod 2 = q \<and> unused v n b"
  using assms unfolding table_ok_def by blast+

lemma unused_page: "unused v n b \<longleftrightarrow> window (page_at v n b 0) (msz n) 4 = replicate 4 0xFF"
  by (simp add: unused_def first_mark_def page_at_def)

lemma known_ppb: "known_part n \<Longrightarrow> 0 < ppb n" "known_part n \<Longrightarrow> 0 < spp n"
  using known_spp(2) by fastforce+

text \<open>Pages of a state in terms of another of the same shape.\<close>

lemma moved_spp: "moved n m \<Longrightarrow> spp m = spp n"
  by (simp add: spp_def moved_geometry)

lemma moved_sector_ok: "moved n m \<Longrightarrow> sector_ok ecc m = sector_ok ecc n"
  by (simp add: sector_ok_def [abs_def] sector_code_def code_col_def moved_geometry)

lemma moved_rewritten: "moved n m \<Longrightarrow> rewritten ecc m = rewritten ecc n"
  by (simp add: rewritten_def [abs_def] sector_code_def code_col_def moved_geometry moved_spp)

lemma marks_same:
  assumes "moved n m" and "page_at v m b 0 = page_at v n b 0"
  shows "unused v m b = unused v n b"
  using assms by (simp add: unused_page moved_geometry)

lemma block_same:
  assumes "moved n m" and "\<forall>x<ppb n. page_at v m b x = page_at v n b x"
  shows "block_ok v ecc m b = block_ok v ecc n b" "block_blank v m b = block_blank v n b"
  using assms by (simp_all add: block_ok_def block_blank_def moved_geometry moved_spp moved_sector_ok)

lemma page_at_table [simp]:
  "page_at v (n\<lparr>lut := t\<rparr>) = page_at v n" "spp (n\<lparr>lut := t\<rparr>) = spp n"
  by (simp_all add: page_at_def [abs_def] spp_def)

lemma sector_ok_table [simp]: "sector_ok ecc (n\<lparr>lut := t\<rparr>) = sector_ok ecc n"
  by (simp add: sector_ok_def [abs_def] sector_code_def code_col_def)

lemma table_fields [simp]:
  "unused v (n\<lparr>lut := t\<rparr>) = unused v n" "block_ok v ecc (n\<lparr>lut := t\<rparr>) = block_ok v ecc n"
  "block_blank v (n\<lparr>lut := t\<rparr>) = block_blank v n" "sector_at v (n\<lparr>lut := t\<rparr>) = sector_at v n"
  by (simp_all add: unused_def [abs_def] block_ok_def [abs_def] block_blank_def [abs_def] sector_at_def [abs_def])

section \<open>Marks and erasure\<close>

lemma programmed_outside:
  assumes "b + k \<le> a \<or> a + length bs \<le> b"
  shows "window (programmed F (overwrite blank_page a bs)) b k = window F b k"
proof (rule nth_equalityI)
  fix i assume "i < length (window (programmed F (overwrite blank_page a bs)) b k)"
  then have i: "i < k" by simp
  then have "overwrite blank_page a bs (b + i) = 0xFF" using assms by (auto simp: overwrite_def blank_page_def)
  then show "window (programmed F (overwrite blank_page a bs)) b k ! i = window F b k ! i"
    using i by (simp add: programmed_def)
qed simp

text \<open>The mark of a used block.\<close>

definition marked :: "'s nand \<Rightarrow> (nat \<Rightarrow> u8) \<Rightarrow> nat \<Rightarrow> u8" where
  "marked n F = programmed F (overwrite blank_page (msz n + 1) [0xCC])"

lemma marked_sectors:
  assumes "known_part n" and "q < spp n"
  shows "sector_data (marked n F) q = sector_data F q" "sector_code n (marked n F) q = sector_code n F q"
    "sector_ok ecc n (marked n F) q = sector_ok ecc n F q"
proof -
  have "512 * Suc q \<le> 512 * spp n" using assms(2) by (intro mult_le_mono2) simp
  then show d: "sector_data (marked n F) q = sector_data F q"
    unfolding sector_data_def marked_def using known_spp(1) [OF assms(1)] by (intro programmed_outside) simp
  show c: "sector_code n (marked n F) q = sector_code n F q"
    unfolding sector_code_def marked_def by (subst programmed_outside) (simp_all add: code_col_def)
  show "sector_ok ecc n (marked n F) q = sector_ok ecc n F q" by (simp add: sector_ok_def d c)
qed

lemma marked_used: "window (marked n F) (msz n) 4 \<noteq> replicate 4 0xFF"
proof
  assume "window (marked n F) (msz n) 4 = replicate 4 0xFF"
  then have "window (marked n F) (msz n) 4 ! 1 = replicate 4 0xFF ! 1" by simp
  then have "F (msz n + 1) AND 0xCC = 0xFF" by (simp add: marked_def programmed_def overwrite_def)
  then have "bit (F (msz n + 1) AND 0xCC) 0 = bit (0xFF :: u8) 0" by simp
  then show False by (simp add: bit_and_iff)
qed

lemma used_mark_ok:
  assumes ok: "nand_ok bus v ecc n" and b: "b < 4096"
  shows "\<exists>n'. ftl_used_blockmark bus (of_nat b) n = Some (0, n') \<and> moved n n' \<and> nand_ok bus v ecc n' \<and>
    chip v n' = (chip v n)(b * ppb n := marked n (page_at v n b 0))"
proof -
  note part = nand_okD(1) [OF ok]
  note u = unat_page_of [OF part b known_ppb(1) [OF part]]
  have "1 + length [0xCC :: u8] \<le> unat (page_sparesize n)" using known_partD(1) [OF part] by auto
  from writespare_ok [OF ok _ this, of "page_of n (of_nat b) 0"] u
  show ?thesis by (simp add: ftl_used_blockmark_def marked_def page_at_def)
qed

section \<open>Moving a block\<close>

text \<open>
  The chip after block \<open>a\<close> of logical number \<open>l\<close> has been copied to block \<open>u\<close> with \<open>m\<close> sectors
  rewritten, marked and erased.
\<close>

definition block_moved :: "'s nand_view \<Rightarrow> (u8 list \<Rightarrow> u32) \<Rightarrow> nat \<Rightarrow> nat \<Rightarrow> u8 list \<Rightarrow> nat \<Rightarrow> nat \<Rightarrow> 's nand \<Rightarrow> 's nand \<Rightarrow> bool" where
  "block_moved v ecc s m bs a u n n' \<longleftrightarrow> moved n n' \<and>
     (\<forall>b x. b \<noteq> u \<longrightarrow> b \<noteq> a \<longrightarrow> x < ppb n \<longrightarrow> page_at v n' b x = page_at v n b x) \<and>
     (\<forall>x<ppb n. page_at v n' a x = blank_page) \<and>
     (\<forall>x<ppb n. \<exists>G. rewritten ecc n s m bs x (page_at v n a x) G \<and>
        page_at v n' u x = (if x = 0 then marked n G else G))"

lemma rewritten_sector_ok:
  assumes "rewritten ecc n s m bs x F G" and "q < spp n" and "sector_ok ecc n F q"
    and "\<forall>i<m. buf_sector bs i \<noteq> blank_sector"
  shows "sector_ok ecc n G q"
proof (cases "s \<le> x * spp n + q \<and> x * spp n + q < s + m")
  case True
  then have "x * spp n + q - s < m" by auto
  then show ?thesis using True assms unfolding rewritten_def Let_def sector_ok_def by auto
next
  case False
  then show ?thesis using assms(1-3) unfolding rewritten_def Let_def sector_ok_def by auto
qed

lemma block_moved_target:
  assumes "known_part n" and "block_moved v ecc s m bs a u n n'" and "block_ok v ecc n a"
    and "\<forall>i<m. buf_sector bs i \<noteq> blank_sector"
  shows "block_ok v ecc n' u" "\<not> unused v n' u"
    "t < ppb n * spp n \<Longrightarrow> sector_at v n' u t = (if s \<le> t \<and> t < s + m then buf_sector bs (t - s) else sector_at v n a t)"
proof -
  have mv: "moved n n'" using assms(2) by (simp add: block_moved_def)
  have page: "\<exists>G. rewritten ecc n s m bs x (page_at v n a x) G \<and> page_at v n' u x = (if x = 0 then marked n G else G)"
    if "x < ppb n" for x using assms(2) that by (simp add: block_moved_def)
  have "sector_ok ecc n (page_at v n' u x) q" if x: "x < ppb n" and q: "q < spp n" for x q
  proof -
    from page [OF x] obtain G where G: "rewritten ecc n s m bs x (page_at v n a x) G"
      "page_at v n' u x = (if x = 0 then marked n G else G)" by blast
    have "sector_ok ecc n G q"
      using rewritten_sector_ok [OF G(1) q _ assms(4)] assms(3) x q by (simp add: block_ok_def)
    then show ?thesis using G(2) marked_sectors(3) [OF assms(1) q] by simp
  qed
  then show "block_ok v ecc n' u"
    by (simp add: block_ok_def moved_geometry [OF mv] moved_spp [OF mv] moved_sector_ok [OF mv])
  from page [OF known_ppb(1) [OF assms(1)]] obtain G where "page_at v n' u 0 = marked n G" by auto
  then show "\<not> unused v n' u" using marked_used by (simp add: unused_page moved_geometry [OF mv])
  show "sector_at v n' u t = (if s \<le> t \<and> t < s + m then buf_sector bs (t - s) else sector_at v n a t)"
    if t: "t < ppb n * spp n"
  proof -
    have x: "t div spp n < ppb n" using t by (simp add: less_mult_imp_div_less)
    have q: "t mod spp n < spp n" using known_ppb(2) [OF assms(1)] by simp
    from page [OF x] obtain G where G: "rewritten ecc n s m bs (t div spp n) (page_at v n a (t div spp n)) G"
      "page_at v n' u (t div spp n) = (if t div spp n = 0 then marked n G else G)" by blast
    have "sector_at v n' u t = sector_data G (t mod spp n)"
      using G(2) marked_sectors(1) [OF assms(1) q] by (simp add: sector_at_def moved_spp [OF mv])
    then show ?thesis using G(1) q by (simp add: rewritten_def Let_def sector_at_def)
  qed
qed

lemma block_moved_table:
  assumes part: "known_part n" and tab: "table_ok v ecc n" and l: "l < unat (valid_blocknum n)"
    and a: "a = unat (lut n ! l)" and u: "u < 4096" "u \<noteq> a" "u mod 2 = a mod 2" "unused v n u"
    and mvd: "block_moved v ecc s m bs a u n n'"
    and nb: "\<forall>i<m. buf_sector bs i \<noteq> blank_sector"
  defines "n5 \<equiv> n'\<lparr>lut := (lut n)[l := of_nat u]\<rparr>"
  shows "table_ok v ecc n5"
    and "k < unat (valid_blocknum n) \<Longrightarrow> t < ppb n * spp n \<Longrightarrow> sector_at v n5 (unat (lut n5 ! k)) t =
      (if k = l \<and> s \<le> t \<and> t < s + m then buf_sector bs (t - s) else sector_at v n (unat (lut n ! k)) t)"
proof -
  let ?V = "unat (valid_blocknum n)"
  note tabD = table_okD [OF tab]
  have mv: "moved n n'" using mvd by (simp add: block_moved_def)
  note mf = moved_fields [OF mv]
  have uw: "unat (of_nat u :: u16) = u" using u(1) by (intro unat_of_nat_small) simp
  have lV: "l < 4096" using l tabD(2) by simp
  have V5: "unat (valid_blocknum n5) = ?V" by (simp add: n5_def mf)
  have entry: "unat (lut n5 ! k) = (if k = l then u else unat (lut n ! k))" for k
    using lV tabD(1) uw by (simp add: n5_def nth_list_update)
  have elsewhere: "unat (lut n ! k) \<noteq> u \<and> unat (lut n ! k) \<noteq> a" if "k < ?V" "k \<noteq> l" for k
    using tabD(4) [OF that(1)] u(4) tabD(6) [OF that(1) l] that(2) a by (metis word_unat_eq_iff)
  have same: "page_at v n' b x = page_at v n b x" if "b \<noteq> u" "b \<noteq> a" "x < ppb n" for b x
    using mvd that by (simp add: block_moved_def)
  have p0: "0 < ppb n" by (rule known_ppb(1) [OF part])
  have un_same: "unused v n' b = unused v n b" if "b \<noteq> u" "b \<noteq> a" for b
    using marks_same [OF mv same [OF that p0]] .
  have blank_a: "page_at v n' a x = blank_page" if "x < ppb n" for x using mvd that by (simp add: block_moved_def)
  have un_a: "unused v n' a"
    using blank_a [OF p0] by (simp add: unused_page) (rule nth_equalityI; simp add: blank_page_def)
  have aok: "block_ok v ecc n a" "a < 4096" using tabD(3,5) [OF l] a by simp_all
  note tgt = block_moved_target [OF part mvd aok(1) nb]
  show "table_ok v ecc n5"
    unfolding table_ok_def V5
  proof (intro conjI allI impI)
    show "length (lut n5) = 4096" "?V \<le> 4096" using tabD(1,2) by (simp_all add: n5_def)
    show "unat (lut n5 ! k) < 4096" if "k < ?V" for k using that entry u(1) tabD(3) by simp
    show "\<not> unused v n5 (unat (lut n5 ! k))" if "k < ?V" for k
      using that tgt(2) un_same elsewhere [of k] tabD(4) [of k] unfolding entry by (simp add: n5_def)
    show "block_ok v ecc n5 (unat (lut n5 ! k))" if "k < ?V" for k
      using that tgt(1) block_same(1) [OF mv] same elsewhere [of k] tabD(5) [of k] unfolding entry by (simp add: n5_def)
    show "j = k" if "j < ?V" "k < ?V" "lut n5 ! j = lut n5 ! k" for j k
    proof -
      have "unat (lut n5 ! j) = unat (lut n5 ! k)" using that(3) by simp
      then show ?thesis
        using elsewhere [of j] elsewhere [of k] that(1,2) tabD(6) [OF that(1,2)] unfolding entry
        by (auto split: if_splits simp: word_unat_eq_iff)
    qed
    show "block_blank v n5 b" if "b < 4096" "unused v n5 b" for b
    proof (cases "b = a")
      case True
      then show ?thesis using blank_a by (simp add: n5_def block_blank_def moved_geometry [OF mv])
    next
      case False
      have "b \<noteq> u" using that(2) tgt(2) by (auto simp: n5_def)
      then show ?thesis
        using False that un_same tabD(7) [of b] block_same(2) [OF mv] same by (simp add: n5_def)
    qed
    show "\<exists>b<4096. b mod 2 = q \<and> unused v n5 b" if q: "q < 2" for q
    proof (cases "q = a mod 2")
      case True
      then show ?thesis using un_a aok(2) by (auto simp: n5_def)
    next
      case False
      from tabD(8) [OF q] obtain b where b: "b < 4096" "b mod 2 = q" "unused v n b" by blast
      then have "b \<noteq> u" "b \<noteq> a" using False u(3) by auto
      then show ?thesis using b un_same by (auto simp: n5_def)
    qed
  qed
  show "sector_at v n5 (unat (lut n5 ! k)) t =
      (if k = l \<and> s \<le> t \<and> t < s + m then buf_sector bs (t - s) else sector_at v n (unat (lut n ! k)) t)"
    if k: "k < ?V" and t: "t < ppb n * spp n"
  proof (cases "k = l")
    case True
    then show ?thesis using tgt(3) [OF t] a unfolding entry by (simp add: n5_def)
  next
    case False
    have "t div spp n < ppb n" using t by (simp add: less_mult_imp_div_less)
    then have "sector_at v n' (unat (lut n ! k)) t = sector_at v n (unat (lut n ! k)) t"
      using same elsewhere [OF k False] by (simp add: sector_at_def moved_spp [OF mv])
    then show ?thesis using False unfolding entry by (simp add: n5_def)
  qed
qed

lemma lut_replace_ok:
  "i + k \<le> length t \<Longrightarrow> i \<le> l \<Longrightarrow> l < i + k \<Longrightarrow> ucast (t ! l) = source \<Longrightarrow>
     (\<forall>x. i \<le> x \<and> x < l \<longrightarrow> ucast (t ! x) \<noteq> source) \<Longrightarrow>
     lut_replace source fresh i k t = Some (t[l := ucast fresh])"
proof (induction k arbitrary: i)
  case 0
  then show ?case by simp
next
  case (Suc k)
  show ?case
  proof (cases "i = l")
    case True
    then show ?thesis using Suc.prems by (simp add: arr_get_Some arr_set_Some)
  next
    case False
    then have "i < l" "ucast (t ! i) \<noteq> source" using Suc.prems(2,5) by auto
    then show ?thesis using Suc.IH [of "Suc i"] Suc.prems by (simp add: arr_get_Some)
  qed
qed

lemma moved_marked: "moved n m \<Longrightarrow> marked m = marked n"
  by (simp add: marked_def [abs_def] moved_geometry)

definition ftl_ok :: "'s fmc \<Rightarrow> 's nand_view \<Rightarrow> (u8 list \<Rightarrow> u32) \<Rightarrow> 's nand \<Rightarrow> bool" where
  "ftl_ok bus v ecc n \<longleftrightarrow> nand_ok bus v ecc n \<and> table_ok v ecc n"

text \<open>Everything from the copy of the pages to the erasure of the source.\<close>

lemma move_pages_ok:
  assumes ok: "nand_ok bus v ecc n" and blocks: "a < 4096" "u < 4096" "a \<noteq> u" "a mod 2 = u mod 2"
    and j: "j < spp n" and bs: "512 * m \<le> length bs" and fits: "po * spp n + j + m \<le> ppb n * spp n"
    and blank: "block_blank v n u"
  shows "\<exists>job n2 n3 n4. copy_pages bus (of_nat a) (of_nat u) (of_nat po) 0 (ppb n) (of_nat (512 * j), bs, of_nat (512 * m)) n =
      Some (0, job, n2) \<and> ftl_used_blockmark bus (of_nat u) n2 = Some (0, n3) \<and>
    nand_eraseblock bus (of_nat a) n3 = (0, n4) \<and> nand_ok bus v ecc n4 \<and>
    block_moved v ecc (po * spp n + j) m bs a u n n4"
proof -
  note part = nand_okD(1) [OF ok]
  have p0: "0 < ppb n" by (rule known_ppb(1) [OF part])
  have pos: "(b * ppb n + x) div ppb n = b" "(b * ppb n + x) mod ppb n = x" if "x < ppb n" for b x using that by simp_all
  have clear: "\<forall>x. 0 \<le> x \<and> x < ppb n \<longrightarrow> chip v n (u * ppb n + x) = blank_page"
    using blank by (simp add: block_blank_def page_at_def)
  have "0 + ppb n = ppb n" "m = 0 \<or> max 0 po * spp n + j + m \<le> ppb n * spp n" using fits by simp_all
  from copy_pages_ok [OF blocks ok this(1) j bs this(2) clear] obtain job n2 where
    n2: "copy_pages bus (of_nat a) (of_nat u) (of_nat po) 0 (ppb n) (of_nat (512 * j), bs, of_nat (512 * m)) n = Some (0, job, n2)"
    "moved n n2" "nand_ok bus v ecc n2" "\<forall>p. p div ppb n \<noteq> u \<longrightarrow> chip v n2 p = chip v n p"
    "\<forall>x<ppb n. rewritten ecc n (po * spp n + j) m bs x (chip v n (a * ppb n + x)) (chip v n2 (u * ppb n + x))"
    by auto
  note g2 = moved_geometry [OF n2(2)]
  from used_mark_ok [OF n2(3) blocks(2)] obtain n3 where
    n3: "ftl_used_blockmark bus (of_nat u) n2 = Some (0, n3)" "moved n2 n3" "nand_ok bus v ecc n3"
    "chip v n3 = (chip v n2)(u * ppb n := marked n (page_at v n2 u 0))"
    by (auto simp: g2 marked_def)
  have mv3: "moved n n3" by (rule moved_trans [OF n2(2) n3(2)])
  from eraseblock_ok [OF n3(3) blocks(1)] obtain n4 where
    n4: "nand_eraseblock bus (of_nat a) n3 = (0, n4)" "moved n3 n4" "nand_ok bus v ecc n4"
    "chip v n4 = (\<lambda>p. if p div ppb n = a then blank_page else chip v n3 p)"
    unfolding moved_geometry [OF mv3] blank_page_def [symmetric] by blast
  have mv: "moved n n4" by (rule moved_trans [OF mv3 n4(2)])
  note g4 = moved_geometry [OF mv]
  have pg4: "page_at v n4 b x = (if b = a then blank_page else if b = u \<and> x = 0 then marked n (page_at v n2 u 0)
      else chip v n2 (b * ppb n + x))" if x: "x < ppb n" for b x
  proof -
    have "b * ppb n + x = u * ppb n \<longleftrightarrow> b = u \<and> x = 0" using pos [OF x, of b] pos [OF p0, of u] by (metis add.right_neutral)
    then show ?thesis using pos(1) [OF x] by (simp add: page_at_def g4 n4(4) n3(4))
  qed
  have "block_moved v ecc (po * spp n + j) m bs a u n n4"
    unfolding block_moved_def
  proof (intro conjI allI impI)
    show "moved n n4" by (rule mv)
    show "page_at v n4 b x = page_at v n b x" if "b \<noteq> u" "b \<noteq> a" "x < ppb n" for b x
      using that n2(4) pos(1) [OF that(3)] by (simp add: pg4 [OF that(3)] page_at_def [of v n])
    show "page_at v n4 a x = blank_page" if "x < ppb n" for x using that by (simp add: pg4)
    show "\<exists>G. rewritten ecc n (po * spp n + j) m bs x (page_at v n a x) G \<and>
        page_at v n4 u x = (if x = 0 then marked n G else G)" if "x < ppb n" for x
      using that n2(5) blocks(3) by (intro exI [of _ "chip v n2 (u * ppb n + x)"]) (auto simp: pg4 page_at_def [of v n a] page_at_def [of v n2] g2)
  qed
  then show ?thesis using n2(1) n3(1) n4(1,3) by blast
qed

text \<open>Moving the block of a logical number to another block of the plane.\<close>

lemma move_block_ok:
  assumes ok: "ftl_ok bus v ecc (dev f)" and l: "l < unat (valid_blocknum (dev f))"
    and n: "n = dev f" and a: "a = unat (lut n ! l)"
    and po: "po < ppb n" and j: "j < spp n" and bs: "512 * m \<le> length bs"
    and fits: "po * spp n + j + m \<le> ppb n * spp n" and nb: "\<forall>i<m. buf_sector bs i \<noteq> blank_sector"
  shows "\<exists>f'. ftl_copy_and_write_to_block bus (page_of n (of_nat a) (of_nat po)) (of_nat (512 * j)) bs (of_nat (512 * m)) f =
      Some (0, f') \<and> ftl_ok bus v ecc (dev f') \<and> valid_blocknum (dev f') = valid_blocknum n \<and>
    ppb (dev f') = ppb n \<and> spp (dev f') = spp n \<and>
    (\<forall>k<unat (valid_blocknum n). \<forall>t<ppb n * spp n. sector_at v (dev f') (unat (lut (dev f') ! k)) t =
      (if k = l \<and> po * spp n + j \<le> t \<and> t < po * spp n + j + m then buf_sector bs (t - (po * spp n + j))
       else sector_at v n (unat (lut n ! k)) t))"
proof -
  have nok: "nand_ok bus v ecc n" and tab: "table_ok v ecc n" using ok n by (simp_all add: ftl_ok_def)
  note part = nand_okD(1) [OF nok] and tabD = table_okD [OF tab]
  have lV: "l < unat (valid_blocknum n)" using l n by simp
  have a4: "a < 4096" and aun: "\<not> unused v n a" using tabD(3,4) [OF lV] a by simp_all
  have aw: "unat (of_nat a :: u32) = a" using a4 by (intro unat_of_nat_small) simp
  let ?r = "plane_choice v n (unat (of_nat a :: u32) mod 2) (unat (curblock f))"
  from find_same_plane_lemma [of bus v ecc f "of_nat a"] nok n obtain f1 where
    f1: "ftl_find_same_plane_unused_block bus (of_nat a) f = Some (block_word ?r, f1)" "looked v n (dev f1)" by auto
  have "a mod 2 < 2" by simp
  from tabD(8) [OF this] have "?r \<noteq> None" unfolding plane_choice_None aw by blast
  then obtain u where r: "?r = Some u" by blast
  then have u: "u < 4096" "u mod 2 = a mod 2" "unused v n u" using plane_choice_Some [OF r] aw by simp_all
  have au: "a \<noteq> u" using aun u(3) by auto
  have uw: "unat (of_nat u :: u32) = u" using u(1) by (intro unat_of_nat_small) simp
  have word: "block_word ?r = of_nat u" by (simp add: r block_word_def)
  define n1 where "n1 = dev f1"
  have lk: "looked v n n1" using f1(2) by (simp add: n1_def)
  have mv1: "moved n n1" "chip v n1 = chip v n" using lk by (simp_all add: looked_def)
  note g1 = moved_geometry [OF mv1(1)] and m1 = moved_fields [OF mv1(1)]
  have nok1: "nand_ok bus v ecc n1" by (rule looked_ok [OF nok lk])
  have pg1: "page_at v n1 = page_at v n" by (simp add: page_at_def [abs_def] mv1(2) g1)
  have s1: "spp n1 = spp n" by (rule moved_spp [OF mv1(1)])
  have blank: "block_blank v n1 u"
    using tabD(7) [OF u(1,3)] block_same(2) [OF mv1(1)] pg1 by simp
  from move_pages_ok [OF nok1 a4 u(1) au u(2) [symmetric], of j m bs po] j bs fits blank
  obtain job n2 n3 n4 where
    st: "copy_pages bus (of_nat a) (of_nat u) (of_nat po) 0 (ppb n) (of_nat (512 * j), bs, of_nat (512 * m)) n1 = Some (0, job, n2)"
    "ftl_used_blockmark bus (of_nat u) n2 = Some (0, n3)" "nand_eraseblock bus (of_nat a) n3 = (0, n4)"
    "nand_ok bus v ecc n4" "block_moved v ecc (po * spp n + j) m bs a u n1 n4"
    unfolding g1 s1 by blast
  have mvd: "block_moved v ecc (po * spp n + j) m bs a u n n4"
    using st(5) moved_trans [OF mv1(1)]
    unfolding block_moved_def pg1 g1 moved_rewritten [OF mv1(1)] moved_marked [OF mv1(1)] by blast
  have mv4: "moved n n4" using mvd by (simp add: block_moved_def)
  note m4 = moved_fields [OF mv4]
  have lut: "lut_replace (of_nat a) (of_nat u) 0 4096 (lut n) = Some ((lut n)[l := of_nat u])"
  proof -
    have "ucast (lut n ! l) = (of_nat a :: u32)" by (simp add: a word_unat_eq_iff unsigned_of_nat take_bit_nat_eq_self unat_u16_less [THEN order_less_trans])
    moreover have "ucast (lut n ! x) \<noteq> (of_nat a :: u32)" if "x < l" for x
    proof
      assume "ucast (lut n ! x) = (of_nat a :: u32)"
      then have "unat (lut n ! x) = a" using aw by (metis unat_ucast_up(3))
      then have "lut n ! x = lut n ! l" by (simp add: a word_unat_eq_iff)
      then show False using tabD(6) [of x l] that lV by simp
    qed
    moreover have "ucast (of_nat u :: u32) = (of_nat u :: u16)"
    proof -
      have "unat (ucast (of_nat u :: u32) :: u16) = u" using u(1) uw by (subst unat_ucast_low) simp_all
      moreover have "unat (of_nat u :: u16) = u" using u(1) by (intro unat_of_nat_small) simp
      ultimately show ?thesis by (simp only: word_unat_eq_iff)
    qed
    ultimately show ?thesis
      using lut_replace_ok [of 0 4096 "lut n" l "of_nat a" "of_nat u"] tabD(1,2) lV by simp
  qed
  define n5 where "n5 = n4\<lparr>lut := (lut n)[l := of_nat u]\<rparr>"
  have tot: "block_totalnum n1 = 4096" "block_totalnum n4 = 4096" "lut n4 = lut n" "unat (block_pagenum n1) = ppb n"
    using known_partD(2) [OF part] m1 m4 by (simp_all add: ppb_def)
  have pages: "unat (ucast (block_pagenum n) :: u32) = ppb n" by (simp add: ppb_def)
  have p0: "(ucast (block_pagenum n) :: u32) \<noteq> 0" using pages known_ppb(1) [OF part] by (metis gr_implies_not0 unat_0)
  note up = unat_page_of [OF part a4 po]
  have dm: "page_of n (of_nat a) (of_nat po) div ucast (block_pagenum n) = of_nat a"
    "page_of n (of_nat a) (of_nat po) mod ucast (block_pagenum n) = of_nat po"
  proof -
    have pow: "unat (of_nat po :: u32) = po" using po known_spp(2) [OF part] by (intro unat_of_nat_small) auto
    have "unat (page_of n (of_nat a) (of_nat po) div ucast (block_pagenum n)) = a"
      using po by (simp only: unat_div_distrib up(1) pages) simp
    then show "page_of n (of_nat a) (of_nat po) div ucast (block_pagenum n) = of_nat a"
      using aw by (simp only: word_unat_eq_iff)
    have "unat (page_of n (of_nat a) (of_nat po) mod ucast (block_pagenum n)) = po"
      using po by (simp only: unat_mod_distrib up(1) pages) simp
    then show "page_of n (of_nat a) (of_nat po) mod ucast (block_pagenum n) = of_nat po"
      using pow by (simp only: word_unat_eq_iff)
  qed
  have "\<not> (of_nat u :: u32) > 4096" using u(1) uw by (simp add: word_less_nat_alt)
  then have "copy_retry bus (of_nat a) (of_nat po) (of_nat (512 * j), bs, of_nat (512 * m)) f = Some (0, f1\<lparr>dev := n5\<rparr>)"
    using f1(1) st(1-3) tot lut
    by (subst copy_retry.simps) (simp add: word n1_def [symmetric] n5_def del: of_nat_mult)
  then have "ftl_copy_and_write_to_block bus (page_of n (of_nat a) (of_nat po)) (of_nat (512 * j)) bs (of_nat (512 * m)) f =
      Some (0, f1\<lparr>dev := n5\<rparr>)"
    using p0 unfolding ftl_copy_and_write_to_block_def n [symmetric] dm Let_def by (simp del: of_nat_mult)
  moreover note tabl = block_moved_table [OF part tab lV a u(1) au [symmetric] u(2,3) mvd nb, folded n5_def]
  moreover have "nand_ok bus v ecc n5" using st(4) by (simp add: n5_def)
  moreover have "valid_blocknum n5 = valid_blocknum n" "ppb n5 = ppb n" "spp n5 = spp n"
    using m4 moved_geometry [OF mv4] moved_spp [OF mv4] by (simp_all add: n5_def)
  ultimately show ?thesis by (intro exI [of _ "f1\<lparr>dev := n5\<rparr>"]) (simp add: ftl_ok_def)
qed

end
