(* ===== verification/Ftl_Sectors.thy ===== *)
theory Ftl_Sectors
  imports Ftl_Array Byte_Store
begin

text \<open>
  The translation layer as a device of sectors of 512 bytes. Sector numbers are split into a
  logical block, a page of it and a sector of that page; a round of the write loop programs blank
  sectors in place and moves the block otherwise, a round of the read loop returns the sectors up
  to the end of the page. Under the invariant of the table, the two operations obey the contract
  of an array of sectors.
\<close>

section \<open>Blank sectors\<close>

lemma code_bytes_take: "8 * k \<le> m \<Longrightarrow> code_bytes k (take_bit m w) = code_bytes k w"
proof (induction k arbitrary: m w)
  case 0
  then show ?case by simp
next
  case (Suc k)
  have "ucast (take_bit m w) = (ucast w :: u8)"
    using Suc.prems by (intro bit_word_eqI) (auto simp: bit_simps)
  moreover have "drop_bit 8 (take_bit m w) = take_bit (m - 8) (drop_bit 8 w)" by (simp add: drop_bit_take_bit)
  ultimately show ?case using Suc.IH [of "m - 8"] Suc.prems by simp
qed

lemma code_word_le: "length bs \<le> 4 \<Longrightarrow> code_bytes (length bs) (word_le bs) = bs"
proof (induction bs)
  case Nil
  then show ?case by simp
next
  case (Cons b bs)
  have "ucast (ucast b OR push_bit 8 (word_le bs) :: u32) = b"
    by (rule bit_word_eqI) (auto simp: bit_simps)
  moreover have "drop_bit 8 (ucast b OR push_bit 8 (word_le bs) :: u32) = take_bit 24 (word_le bs)"
    by (rule bit_word_eqI) (auto simp: bit_simps dest: bit_imp_le_length)
  ultimately show ?case using Cons by (simp add: code_bytes_take)
qed

lemma word_le_ones: "word_le (window F c 4) = 0xFFFFFFFF \<longleftrightarrow> window F c 4 = replicate 4 0xFF"
proof -
  have four: "replicate 4 (0xFF :: u8) = [0xFF, 0xFF, 0xFF, 0xFF]" by (simp add: eval_nat_numeral)
  have w: "word_le (replicate 4 0xFF) = (0xFFFFFFFF :: u32)" unfolding four by simp
  have "code_bytes 4 (word_le (replicate 4 0xFF)) = replicate 4 (0xFF :: u8)"
    using code_word_le [of "replicate 4 0xFF"] by simp
  then show ?thesis using code_word_le [of "window F c 4"] w by auto
qed

lemma equal_words_ones:
  "equal_words F c 0xFFFFFFFF k = k \<longleftrightarrow> window F c (4 * k) = replicate (4 * k) 0xFF"
proof (induction k arbitrary: c)
  case 0
  then show ?case by (simp add: window_def)
next
  case (Suc k)
  have "window F c (4 * Suc k) = window F c 4 @ window F (c + 4) (4 * k)"
    by (simp add: window_add [symmetric])
  moreover have "replicate (4 * Suc k) (0xFF :: u8) = replicate 4 0xFF @ replicate (4 * k) 0xFF"
    by (simp add: replicate_add [symmetric])
  ultimately have "window F c (4 * Suc k) = replicate (4 * Suc k) 0xFF \<longleftrightarrow>
      window F c 4 = replicate 4 0xFF \<and> window F (c + 4) (4 * k) = replicate (4 * k) 0xFF"
    by (simp only:) (rule append_eq_append_conv, simp)
  moreover have "equal_words F c 0xFFFFFFFF k \<le> k" for c by (induction k arbitrary: c) auto
  ultimately show ?case using Suc [of "c + 4"] word_le_ones [of F c] by auto
qed

lemma blank_run:
  "window F (512 * j) (512 * c) = replicate (512 * c) 0xFF \<longleftrightarrow> (\<forall>q. j \<le> q \<and> q < j + c \<longrightarrow> sector_data F q = blank_sector)"
proof (induction c)
  case 0
  then show ?case by (auto simp: window_def)
next
  case (Suc c)
  have "window F (512 * j) (512 * Suc c) = window F (512 * j) (512 * c) @ sector_data F (j + c)"
    using window_add [of F "512 * j" "512 * c" 512] by (simp add: sector_data_def add.commute)
  moreover have "replicate (512 * Suc c) (0xFF :: u8) = replicate (512 * c) 0xFF @ blank_sector"
    by (simp add: replicate_add [symmetric] blank_sector_def)
  ultimately have "window F (512 * j) (512 * Suc c) = replicate (512 * Suc c) 0xFF \<longleftrightarrow>
      window F (512 * j) (512 * c) = replicate (512 * c) 0xFF \<and> sector_data F (j + c) = blank_sector"
    by (simp only:) (rule append_eq_append_conv, simp)
  then show ?case unfolding Suc by (auto simp: less_Suc_eq)
qed

lemma blank_codes:
  "\<forall>q. j \<le> q \<and> q < j + c \<longrightarrow> sector_code n F q = 0xFFFFFFFF \<Longrightarrow> window F (code_col n j) (4 * c) = replicate (4 * c) 0xFF"
proof -
  have "\<forall>q. j \<le> q \<and> q < j + c \<longrightarrow> sector_code n F q = 0xFFFFFFFF \<Longrightarrow> equal_words F (code_col n j) 0xFFFFFFFF c = c"
  proof (induction c arbitrary: j)
    case 0
    then show ?case by simp
  next
    case (Suc c)
    have "code_col n j + 4 = code_col n (Suc j)" by (simp add: code_col_def)
    then show ?case using Suc.IH [of "Suc j"] Suc.prems by (simp add: sector_code_def)
  qed
  then show "\<forall>q. j \<le> q \<and> q < j + c \<longrightarrow> sector_code n F q = 0xFFFFFFFF \<Longrightarrow> ?thesis" by (simp add: equal_words_ones)
qed

text \<open>Programming sectors whose data and codes are blank stores them.\<close>

lemma window_blank: "window F c k = replicate k 0xFF \<Longrightarrow> c \<le> x \<Longrightarrow> x < c + k \<Longrightarrow> F x = 0xFF"
  using nth_window [of "x - c" k F c] nth_replicate [of "x - c" k "0xFF :: u8"] by (simp add: less_diff_conv2)

lemma programmed_overwrite:
  "(\<And>x. c \<le> x \<Longrightarrow> x < c + length bs \<Longrightarrow> F x = 0xFF) \<Longrightarrow> programmed F (overwrite R c bs) = overwrite (programmed F R) c bs"
  by (rule ext) (auto simp: programmed_def overwrite_def)

lemma image_in_place:
  assumes "length bs = 512 * c"
    and "\<forall>q. j \<le> q \<and> q < j + c \<longrightarrow> sector_data F q = blank_sector \<and> sector_code n F q = 0xFFFFFFFF"
  shows "programmed F (page_image ecc n blank_page (512 * j) bs) = page_image ecc n F (512 * j) bs"
proof -
  have d: "window F (512 * j) (512 * c) = replicate (512 * c) 0xFF" using assms(2) by (simp add: blank_run)
  have k: "window F (code_col n j) (4 * c) = replicate (4 * c) 0xFF" using assms(2) by (intro blank_codes) simp
  have len: "length (code_list ecc bs) = 4 * c" using assms(1) by (simp add: code_list_def length_concat_codes)
  have "programmed F (overwrite (overwrite blank_page (512 * j) bs) (code_col n j) (code_list ecc bs)) =
      overwrite (programmed F (overwrite blank_page (512 * j) bs)) (code_col n j) (code_list ecc bs)"
    by (rule programmed_overwrite, rule window_blank [OF k]) (simp_all add: len)
  also have "programmed F (overwrite blank_page (512 * j) bs) = overwrite (programmed F blank_page) (512 * j) bs"
    by (rule programmed_overwrite, rule window_blank [OF d]) (simp_all add: assms(1))
  finally show ?thesis using assms(1) by (simp add: page_image_def)
qed

section \<open>Changing a block in place\<close>

lemma block_updated:
  assumes tab: "table_ok v ecc n" and l: "l < unat (valid_blocknum n)" and a: "a = unat (lut n ! l)"
    and mv: "moved n n'" and others: "\<forall>b x. b \<noteq> a \<longrightarrow> x < ppb n \<longrightarrow> page_at v n' b x = page_at v n b x"
    and p0: "0 < ppb n" and okp: "\<forall>x q. x < ppb n \<longrightarrow> q < spp n \<longrightarrow> sector_ok ecc n (page_at v n' a x) q"
    and used: "\<not> unused v n' a"
  shows "table_ok v ecc n'"
    and "k < unat (valid_blocknum n) \<Longrightarrow> t < ppb n * spp n \<Longrightarrow>
      sector_at v n' (unat (lut n ! k)) t = (if k = l then sector_at v n' a t else sector_at v n (unat (lut n ! k)) t)"
proof -
  note tabD = table_okD [OF tab] and mf = moved_fields [OF mv]
  have elsewhere: "unat (lut n ! k) \<noteq> a" if "k < unat (valid_blocknum n)" "k \<noteq> l" for k
    using tabD(6) [OF that(1) l] that(2) a by (metis word_unat_eq_iff)
  have un: "unused v n' b = unused v n b" if "b \<noteq> a" for b using marks_same [OF mv others [rule_format, OF that p0]] .
  have bl: "block_ok v ecc n' b = block_ok v ecc n b" "block_blank v n' b = block_blank v n b" if "b \<noteq> a" for b
    using block_same [OF mv, of v b] others that by blast+
  have aok: "block_ok v ecc n' a"
    using okp by (simp add: block_ok_def moved_geometry [OF mv] moved_spp [OF mv] moved_sector_ok [OF mv])
  show "table_ok v ecc n'"
    unfolding table_ok_def mf
  proof (intro conjI allI impI)
    show "length (lut n) = 4096" "unat (valid_blocknum n) \<le> 4096" using tabD(1,2) .
    show "unat (lut n ! k) < 4096" if "k < unat (valid_blocknum n)" for k using tabD(3) [OF that] .
    show "\<not> unused v n' (unat (lut n ! k))" if "k < unat (valid_blocknum n)" for k
      using used un elsewhere [OF that] tabD(4) [OF that] a by (cases "k = l") simp_all
    show "block_ok v ecc n' (unat (lut n ! k))" if "k < unat (valid_blocknum n)" for k
      using aok bl(1) elsewhere [OF that] tabD(5) [OF that] a by (cases "k = l") simp_all
    show "j = k" if "j < unat (valid_blocknum n)" "k < unat (valid_blocknum n)" "lut n ! j = lut n ! k" for j k
      using tabD(6) [OF that] .
    show "block_blank v n' b" if "b < 4096" "unused v n' b" for b
      using that used un bl(2) tabD(7) by (cases "b = a") simp_all
    show "\<exists>b<4096. b mod 2 = q \<and> unused v n' b" if "q < 2" for q
      using tabD(8) [OF that] un tabD(4) [OF l] a by metis
  qed
  show "sector_at v n' (unat (lut n ! k)) t = (if k = l then sector_at v n' a t else sector_at v n (unat (lut n ! k)) t)"
    if "k < unat (valid_blocknum n)" "t < ppb n * spp n"
  proof (cases "k = l")
    case True
    then show ?thesis using a by simp
  next
    case False
    have "t div spp n < ppb n" using that(2) by (simp add: less_mult_imp_div_less)
    then show ?thesis using False others elsewhere [OF that(1) False] by (simp add: sector_at_def moved_spp [OF mv])
  qed
qed

lemma page_at_upd:
  assumes "moved n n'" and "chip v n' = (chip v n)(a * ppb n + po := G)" and "po < ppb n" and "x < ppb n"
  shows "page_at v n' b x = (if b = a \<and> x = po then G else page_at v n b x)"
proof -
  have "(b * ppb n + x) div ppb n = b" "(b * ppb n + x) mod ppb n = x" "(a * ppb n + po) div ppb n = a" "(a * ppb n + po) mod ppb n = po"
    using assms(3,4) by simp_all
  then have "b * ppb n + x = a * ppb n + po \<longleftrightarrow> b = a \<and> x = po" by metis
  then show ?thesis using assms(2) by (simp add: page_at_def moved_geometry [OF assms(1)])
qed

lemma used_mark_table:
  assumes ok: "ftl_ok bus v ecc n" and l: "l < unat (valid_blocknum n)" and a: "a = unat (lut n ! l)"
  shows "\<exists>n'. ftl_used_blockmark bus (of_nat a) n = Some (0, n') \<and> moved n n' \<and> ftl_ok bus v ecc n' \<and>
    (\<forall>k<unat (valid_blocknum n). \<forall>t<ppb n * spp n.
       sector_at v n' (unat (lut n ! k)) t = sector_at v n (unat (lut n ! k)) t)"
proof -
  have nok: "nand_ok bus v ecc n" and tab: "table_ok v ecc n" using ok by (simp_all add: ftl_ok_def)
  note part = nand_okD(1) [OF nok] and tabD = table_okD [OF tab]
  have p0: "0 < ppb n" by (rule known_ppb(1) [OF part])
  have a4: "a < 4096" "block_ok v ecc n a" using tabD(3,5) [OF l] a by simp_all
  from used_mark_ok [OF nok a4(1)] obtain n' where
    n': "ftl_used_blockmark bus (of_nat a) n = Some (0, n')" "moved n n'" "nand_ok bus v ecc n'"
    "chip v n' = (chip v n)(a * ppb n + 0 := marked n (page_at v n a 0))" by auto
  note pg = page_at_upd [OF n'(2,4) p0]
  have ok': "\<forall>x q. x < ppb n \<longrightarrow> q < spp n \<longrightarrow> sector_ok ecc n (page_at v n' a x) q"
    using a4(2) marked_sectors(3) [OF part] by (simp add: pg block_ok_def)
  have used: "\<not> unused v n' a" using pg [OF p0, of a] marked_used by (simp add: unused_page moved_geometry [OF n'(2)])
  have oth: "\<forall>b x. b \<noteq> a \<longrightarrow> x < ppb n \<longrightarrow> page_at v n' b x = page_at v n b x" by (simp add: pg)
  have same: "sector_at v n' a t = sector_at v n a t" if "t < ppb n * spp n" for t
  proof -
    have x: "t div spp n < ppb n" using that by (simp add: less_mult_imp_div_less)
    then show ?thesis using marked_sectors(1) [OF part, of "t mod spp n"] known_ppb(2) [OF part]
      by (simp add: sector_at_def moved_spp [OF n'(2)] pg [OF x])
  qed
  note upd = block_updated [OF tab l a n'(2) oth p0 ok' used]
  have "ftl_ok bus v ecc n'" using n'(3) upd(1) by (simp add: ftl_ok_def)
  moreover have "sector_at v n' (unat (lut n ! k)) t = sector_at v n (unat (lut n ! k)) t"
    if "k < unat (valid_blocknum n)" "t < ppb n * spp n" for k t
    using upd(2) [OF that] same [OF that(2)] a by simp
  ultimately show ?thesis using n'(1,2) by blast
qed

lemma write_in_place:
  assumes ok: "ftl_ok bus v ecc n" and l: "l < unat (valid_blocknum n)" and a: "a = unat (lut n ! l)"
    and po: "po < ppb n" and c: "j + c \<le> spp n" "512 * c \<le> length bs" and j: "j < spp n"
    and nb: "\<forall>i<c. buf_sector bs i \<noteq> blank_sector"
    and blank: "\<forall>q. j \<le> q \<and> q < j + c \<longrightarrow> sector_data (page_at v n a po) q = blank_sector"
  shows "\<exists>n'. nand_writepage bus (page_of n (of_nat a) (of_nat po)) (of_nat (512 * j)) bs (of_nat (512 * c)) n = Some (0, n') \<and>
    moved n n' \<and> ftl_ok bus v ecc n' \<and>
    (\<forall>k<unat (valid_blocknum n). \<forall>t<ppb n * spp n. sector_at v n' (unat (lut n ! k)) t =
      (if k = l \<and> po * spp n + j \<le> t \<and> t < po * spp n + j + c then buf_sector bs (t - (po * spp n + j))
       else sector_at v n (unat (lut n ! k)) t))"
proof -
  have nok: "nand_ok bus v ecc n" and tab: "table_ok v ecc n" using ok by (simp_all add: ftl_ok_def)
  note part = nand_okD(1) [OF nok] and tabD = table_okD [OF tab] and geo = known_spp [OF nand_okD(1) [OF nok]]
  have p0: "0 < ppb n" by (rule known_ppb(1) [OF part])
  have a4: "a < 4096" "block_ok v ecc n a" "\<not> unused v n a" using tabD(3,4,5) [OF l] a by simp_all
  note pa = unat_page_of [OF part a4(1) po]
  define F where "F = page_at v n a po"
  define G where "G = page_image ecc n F (512 * j) (take (512 * c) bs)"
  have jc: "512 * (j + c) \<le> msz n" using c(1) geo(1) by simp
  note w = sendable_sectors [OF part jc]
  have codes: "\<forall>q. j \<le> q \<and> q < j + c \<longrightarrow> sector_data F q = blank_sector \<and> sector_code n F q = 0xFFFFFFFF"
    using a4(2) po c(1) blank by (auto simp: block_ok_def sector_ok_def F_def)
  have "512 * j < csz n" using j geo(2) by auto
  then obtain n' where n': "nand_writepage bus (page_of n (of_nat a) (of_nat po)) (of_nat (512 * j)) bs (of_nat (512 * c)) n = Some (0, n')"
    "moved n n'" "nand_ok bus v ecc n'" "chip v n' = (chip v n)(a * ppb n + po := G)"
    using writepage_ok [OF nok, of "page_of n (of_nat a) (of_nat po)" "of_nat (512 * j)" "of_nat (512 * c)" bs] w c(2) pa(2)
      image_in_place [of "take (512 * c) bs" c j F n ecc] codes
    unfolding w(1,2) pa(1) G_def F_def page_at_def blank_page_def by auto
  note pg = page_at_upd [OF n'(2,4) po]
  have rw: "rewritten ecc n (po * spp n + j) c bs po F G"
    unfolding G_def by (rule rewritten_image [OF part c]) simp_all
  have rest: "rewritten ecc n (po * spp n + j) c bs x (page_at v n a x) (page_at v n' a x)" if x: "x < ppb n" for x
  proof (cases "x = po")
    case True
    then show ?thesis using rw pg [OF po, of a] by (simp add: F_def)
  next
    case False
    have "\<not> (po * spp n + j \<le> x * spp n + q \<and> x * spp n + q < po * spp n + j + c)" if "q < spp n" for q
    proof
      assume h: "po * spp n + j \<le> x * spp n + q \<and> x * spp n + q < po * spp n + j + c"
      have "x * spp n + q < Suc x * spp n" "po * spp n + j + c \<le> Suc po * spp n" using that c(1) by simp_all
      with h have "po * spp n < Suc x * spp n" "x * spp n < Suc po * spp n" by linarith+
      then have "po < Suc x" "x < Suc po" using mult_less_cancel2 by blast+
      with False show False by simp
    qed
    then show ?thesis using False x by (simp add: pg rewritten_same)
  qed
  have ok': "\<forall>x q. x < ppb n \<longrightarrow> q < spp n \<longrightarrow> sector_ok ecc n (page_at v n' a x) q"
    using rewritten_sector_ok [OF rest _ _ nb] a4(2) by (simp add: block_ok_def)
  have "window (page_at v n' a 0) (msz n) 4 = window (page_at v n a 0) (msz n) 4"
    using rest [OF p0] by (intro nth_equalityI) (simp_all add: rewritten_def)
  then have used: "\<not> unused v n' a" using a4(3) by (simp add: unused_page moved_geometry [OF n'(2)])
  have oth: "\<forall>b x. b \<noteq> a \<longrightarrow> x < ppb n \<longrightarrow> page_at v n' b x = page_at v n b x" by (simp add: pg)
  have data: "sector_at v n' a t = (if po * spp n + j \<le> t \<and> t < po * spp n + j + c then buf_sector bs (t - (po * spp n + j))
      else sector_at v n a t)" if "t < ppb n * spp n" for t
  proof -
    have x: "t div spp n < ppb n" using that by (simp add: less_mult_imp_div_less)
    then show ?thesis using rest [OF x] known_ppb(2) [OF part]
      by (simp add: rewritten_def Let_def sector_at_def moved_spp [OF n'(2)])
  qed
  note upd = block_updated [OF tab l a n'(2) oth p0 ok' used]
  have "ftl_ok bus v ecc n'" using n'(3) upd(1) by (simp add: ftl_ok_def)
  moreover have "sector_at v n' (unat (lut n ! k)) t =
      (if k = l \<and> po * spp n + j \<le> t \<and> t < po * spp n + j + c then buf_sector bs (t - (po * spp n + j))
       else sector_at v n (unat (lut n ! k)) t)" if "k < unat (valid_blocknum n)" "t < ppb n * spp n" for k t
    using upd(2) [OF that] data [OF that(2)] a by simp
  ultimately show ?thesis using n'(1,2) by blast
qed

section \<open>Positions of sectors\<close>

definition spb :: "'s nand \<Rightarrow> nat" where "spb n = ppb n * spp n"

lemma known_spb:
  assumes "known_part n"
  shows "spb n = 256 \<or> spb n = 1024" "0 < spb n"
  using known_spp(2) [OF assms] by (auto simp: spb_def)

lemma block_of_sector:
  assumes part: "known_part n" and x: "x < 4096 * spb n"
  shows "sectors_per_block 512 n = of_nat (spb n)"
    and "sector_block (of_nat x) 512 n = Some (of_nat (x div spb n))"
    and "block_offset (of_nat x) 512 n = of_nat (512 * (x mod spb n))"
    and "unat (of_nat (512 * (x mod spb n)) :: u32) = 512 * (x mod spb n)"
    and "unat (of_nat (x div spb n) :: u32) = x div spb n" "x div spb n < 4096"
proof -
  note g = known_spp [OF part] and b = known_spb [OF part]
  show l: "x div spb n < 4096" using x by (simp add: less_mult_imp_div_less)
  then show ul: "unat (of_nat (x div spb n) :: u32) = x div spb n" by (intro unat_of_nat_small) simp
  have r: "x mod spb n < spb n" using b(2) by simp
  show ur: "unat (of_nat (512 * (x mod spb n)) :: u32) = 512 * (x mod spb n)"
    using r b(1) by (intro unat_of_nat_small) auto
  have x32: "unat (of_nat x :: u32) = x" using x b(1) by (intro unat_of_nat_small) auto
  have per: "unat (sectors_per_block 512 n) = spb n"
    using known_partD(1) [OF part] g(2)
    by (auto simp: sectors_per_block_def spb_def ppb_def unat_div_distrib unat_word_ariths)
  then show "sectors_per_block 512 n = of_nat (spb n)" by (rule word_of_unat)
  have nz: "sectors_per_block 512 n \<noteq> 0" using per b(2) by (metis gr_implies_not0 unat_0)
  have "of_nat x div sectors_per_block 512 n = (of_nat (x div spb n) :: u32)"
    by (rule word_of_unat) (simp only: unat_div_distrib x32 per)
  then show "sector_block (of_nat x) 512 n = Some (of_nat (x div spb n))"
    using nz by (simp add: sector_block_def)
  have "unat (block_offset (of_nat x) 512 n) = 512 * (x mod spb n)"
    using ur r b(1) by (auto simp: block_offset_def unat_word_ariths unat_mod_distrib x32 per)
  then show "block_offset (of_nat x) 512 n = of_nat (512 * (x mod spb n))" by (rule word_of_unat)
qed

lemma page_of_sector:
  assumes part: "known_part n" and r: "r < spb n"
  shows "of_nat (512 * r) div ucast (page_mainsize n) = (of_nat (r div spp n) :: u32)"
    and "of_nat (512 * r) mod ucast (page_mainsize n) = (of_nat (512 * (r mod spp n)) :: u32)"
    and "ucast (of_nat (512 * (r mod spp n)) :: u32) = (of_nat (512 * (r mod spp n)) :: u16)"
    and "ucast (page_mainsize n) - of_nat (512 * (r mod spp n)) = (of_nat (512 * (spp n - r mod spp n)) :: u32)"
    and "r div spp n < ppb n" "r mod spp n < spp n"
proof -
  note g = known_spp [OF part]
  have s0: "0 < spp n" by (rule known_ppb(2) [OF part])
  show po: "r div spp n < ppb n" using r by (simp add: spb_def less_mult_imp_div_less)
  show j: "r mod spp n < spp n" using s0 by simp
  have main: "unat (ucast (page_mainsize n) :: u32) = 512 * spp n" using g(1) by (simp add: msz_def)
  have ur: "unat (of_nat (512 * r) :: u32) = 512 * r" using r g(2) by (intro unat_of_nat_small) (auto simp: spb_def)
  show "of_nat (512 * r) div ucast (page_mainsize n) = (of_nat (r div spp n) :: u32)"
    by (rule word_of_unat) (simp only: unat_div_distrib ur main div_mult2_eq [symmetric], simp)
  show "of_nat (512 * r) mod ucast (page_mainsize n) = (of_nat (512 * (r mod spp n)) :: u32)"
    by (rule word_of_unat) (simp only: unat_mod_distrib ur main, simp)
  have uj: "unat (of_nat (512 * (r mod spp n)) :: u32) = 512 * (r mod spp n)"
    using j g(2) by (intro unat_of_nat_small) auto
  show "ucast (of_nat (512 * (r mod spp n)) :: u32) = (of_nat (512 * (r mod spp n)) :: u16)"
    using j g(2) by (intro word_of_unat, subst unat_ucast_low) (auto simp: uj simp del: of_nat_mult)
  have "(of_nat (512 * (r mod spp n)) :: u32) \<le> ucast (page_mainsize n)"
    unfolding word_le_nat_alt main uj using j by simp
  then have "unat (ucast (page_mainsize n) - of_nat (512 * (r mod spp n)) :: u32) = 512 * spp n - 512 * (r mod spp n)"
    by (simp only: unat_sub main uj)
  then show "ucast (page_mainsize n) - of_nat (512 * (r mod spp n)) = (of_nat (512 * (spp n - r mod spp n)) :: u32)"
    by (intro word_of_unat) (simp only: right_diff_distrib')
qed

lemma lbn_to_pbn_ok:
  assumes tab: "table_ok v ecc n" and l: "l < unat (valid_blocknum n)"
  shows "ftl_lbn_to_pbn (of_nat l) n = Some (lut n ! l)"
proof -
  have lu: "unat (of_nat l :: u32) = l" using l table_okD(2) [OF tab] by (intro unat_of_nat_small) simp
  then have "\<not> (of_nat l :: u32) > ucast (valid_blocknum n)" using l by (simp add: word_less_nat_alt)
  then show ?thesis using l table_okD(1,2) [OF tab] lu by (simp add: ftl_lbn_to_pbn_def arr_get_Some)
qed

section \<open>The sectors of the table\<close>

definition ftl_capacity :: "'s nand \<Rightarrow> nat" where
  "ftl_capacity n = unat (valid_blocknum n) * spb n"

definition ftl_content :: "'s nand_view \<Rightarrow> 's nand \<Rightarrow> nat \<Rightarrow> u8 list" where
  "ftl_content v n x = (if x < ftl_capacity n then sector_at v n (unat (lut n ! (x div spb n))) (x mod spb n) else [])"

lemma looked_table:
  assumes "looked v n m"
  shows "page_at v m = page_at v n" "sector_at v m = sector_at v n" "table_ok v ecc m = table_ok v ecc n"
    "lut m = lut n" "ftl_capacity m = ftl_capacity n" "ftl_content v m = ftl_content v n" "spb m = spb n"
proof -
  have mv: "moved n m" and ch: "chip v m = chip v n" using assms by (simp_all add: looked_def)
  note g = moved_geometry [OF mv] moved_spp [OF mv] moved_fields [OF mv]
  show pg: "page_at v m = page_at v n" by (simp add: page_at_def [abs_def] ch g)
  show s: "sector_at v m = sector_at v n" by (simp add: sector_at_def [abs_def] pg g)
  have "unused v m = unused v n" by (simp add: fun_eq_iff marks_same [OF mv] pg)
  moreover have "block_ok v ecc m = block_ok v ecc n" "block_blank v m = block_blank v n"
    by (simp_all add: fun_eq_iff block_same [OF mv] pg)
  ultimately show "table_ok v ecc m = table_ok v ecc n" by (simp add: table_ok_def g)
  show ls: "lut m = lut n" "spb m = spb n" by (simp_all add: g spb_def)
  show "ftl_capacity m = ftl_capacity n" "ftl_content v m = ftl_content v n"
    by (simp_all add: ftl_content_def [abs_def] ftl_capacity_def s g ls cong: if_cong)
qed

lemma looked_ftl: "ftl_ok bus v ecc n \<Longrightarrow> looked v n m \<Longrightarrow> ftl_ok bus v ecc m"
  using looked_ok by (auto simp: ftl_ok_def looked_table)

lemma sector_position:
  assumes ok: "ftl_ok bus v ecc n" and x: "x < ftl_capacity n"
  shows "x div spb n < unat (valid_blocknum n)" "x < 4096 * spb n" "x mod spb n < spb n"
proof -
  have V: "unat (valid_blocknum n) \<le> 4096" using ok table_okD(2) by (auto simp: ftl_ok_def)
  show "x div spb n < unat (valid_blocknum n)" using x by (simp add: ftl_capacity_def less_mult_imp_div_less)
  have "unat (valid_blocknum n) * spb n \<le> 4096 * spb n" using V by (rule mult_le_mono1)
  then show "x < 4096 * spb n" using x unfolding ftl_capacity_def by (rule order_less_le_trans [rotated])
  have "known_part n" using ok nand_okD(1) by (auto simp: ftl_ok_def)
  then have "0 < spb n" by (rule known_spb(2))
  then show "x mod spb n < spb n" by simp
qed

text \<open>A run of sectors up to the end of a page.\<close>

lemma page_run:
  assumes part: "known_part n" and x: "x < ftl_capacity n" and k: "k < c" "x mod spb n mod spp n + c \<le> spp n"
  shows "ftl_content v n (x + k) =
    sector_data (page_at v n (unat (lut n ! (x div spb n))) (x mod spb n div spp n)) (x mod spb n mod spp n + k)"
    and "x + k < ftl_capacity n" "(x + k) div spb n = x div spb n" "(x + k) mod spb n = x mod spb n + k"
proof -
  let ?r = "x mod spb n" and ?l = "x div spb n" and ?s = "spp n"
  have s0: "0 < ?s" and b0: "0 < spb n" using known_ppb(2) [OF part] known_spb(2) [OF part] .
  have r: "?r < spb n" using b0 by simp
  have "Suc (?r div ?s) \<le> ppb n" using r by (simp add: spb_def less_mult_imp_div_less Suc_leI)
  then have "Suc (?r div ?s) * ?s \<le> spb n" by (simp only: spb_def mult_le_mono1)
  moreover have "?r = ?r div ?s * ?s + ?r mod ?s" by simp
  ultimately have rk: "?r + k < spb n" using k by (simp only: mult_Suc)
  have xe: "x + k = ?l * spb n + (?r + k)" by simp
  show d: "(x + k) div spb n = ?l" by (subst xe, subst div_mult_self3) (use rk b0 in simp_all)
  show m: "(x + k) mod spb n = ?r + k" by (subst xe, subst mod_mult_self3) (use rk in simp)
  have "?l < unat (valid_blocknum n)" using x by (simp add: ftl_capacity_def less_mult_imp_div_less)
  then have "Suc ?l * spb n \<le> ftl_capacity n" unfolding ftl_capacity_def by (intro mult_le_mono1) simp
  then show c: "x + k < ftl_capacity n" using xe rk by (simp only: mult_Suc)
  have jk: "?r mod ?s + k < ?s" using k by simp
  have re: "?r + k = ?r div ?s * ?s + (?r mod ?s + k)" by simp
  have "(?r + k) div ?s = ?r div ?s" by (subst re, subst div_mult_self3) (use jk s0 in simp_all)
  moreover have "(?r + k) mod ?s = ?r mod ?s + k" by (subst re, subst mod_mult_self3) (use jk in simp)
  ultimately show "ftl_content v n (x + k) =
      sector_data (page_at v n (unat (lut n ! ?l)) (?r div ?s)) (?r mod ?s + k)"
    using c d m by (simp add: ftl_content_def sector_at_def)
qed

text \<open>Sectors that carry their codes, or are blank, decode to themselves.\<close>

lemma decode_page:
  assumes "ecc_law ecc" and "\<forall>i\<in>set is. sector_ok ecc n F i" and "sta = 0 \<or> sta = NSTA_ECC2BITERR"
  shows "\<exists>sta'. decode_all (map (\<lambda>i. (sector_data F i, sector_code n F i, ecc (sector_data F i))) is) sta =
      Some (concat (map (sector_data F) is), sta') \<and> (sta' = 0 \<or> sta' = NSTA_ECC2BITERR)"
  using assms(2,3)
proof (induction "is" arbitrary: sta)
  case Nil
  then show ?case by simp
next
  case (Cons i "is")
  obtain st where st: "decode_sector (sector_data F i) (sector_code n F i) (ecc (sector_data F i)) sta = Some (sector_data F i, st)"
    "st = 0 \<or> st = NSTA_ECC2BITERR"
  proof (cases "sector_data F i = blank_sector")
    case True
    then have "sector_code n F i = 0xFFFFFFFF" using Cons.prems(1) by (simp add: sector_ok_def)
    then show ?thesis
      using that [of sta] that [of NSTA_ECC2BITERR] True correct_blank [OF assms(1)] Cons.prems(2)
      by (cases "0xFFFFFFFF = ecc blank_sector") (simp_all add: decode_sector_def)
  next
    case False
    then have "sector_code n F i = ecc (sector_data F i)" using Cons.prems(1) by (simp add: sector_ok_def)
    then show ?thesis using that [of sta] Cons.prems(2) by (simp add: decode_sector_def)
  qed
  from Cons.IH [of st] Cons.prems(1) st obtain sta' where
    "decode_all (map (\<lambda>i. (sector_data F i, sector_code n F i, ecc (sector_data F i))) is) st =
      Some (concat (map (sector_data F) is), sta')" "sta' = 0 \<or> sta' = NSTA_ECC2BITERR" by auto
  then show ?case using st(1) by simp
qed

section \<open>Reading\<close>

text \<open>The words a round computes for its position and its length.\<close>

lemma round_words:
  assumes ok: "ftl_ok bus v ecc n" and x: "x < ftl_capacity n"
  defines "l \<equiv> x div spb n" and "r \<equiv> x mod spb n"
  shows "sector_block (of_nat x) 512 n = Some (of_nat l)" "ftl_lbn_to_pbn (of_nat l) n = Some (lut n ! l)"
    and "\<not> ucast (lut n ! l) \<ge> (ucast (block_totalnum n) :: u32)"
    and "ucast (lut n ! l) = (of_nat (unat (lut n ! l)) :: u32)"
    and "block_offset (of_nat x) 512 n = of_nat (512 * r)"
    and "of_nat (512 * r) div ucast (page_mainsize n) = (of_nat (r div spp n) :: u32)"
    and "of_nat (512 * r) mod ucast (page_mainsize n) = (of_nat (512 * (r mod spp n)) :: u32)"
    and "ucast (of_nat (512 * (r mod spp n)) :: u32) = (of_nat (512 * (r mod spp n)) :: u16)"
    and "ucast (page_mainsize n) - of_nat (512 * (r mod spp n)) = (of_nat (512 * (spp n - r mod spp n)) :: u32)"
proof -
  have nok: "nand_ok bus v ecc n" and tab: "table_ok v ecc n" using ok by (simp_all add: ftl_ok_def)
  note part = nand_okD(1) [OF nok] and pos = sector_position [OF ok x]
  note b = block_of_sector [OF part pos(2)] and p = page_of_sector [OF part pos(3)]
  show "sector_block (of_nat x) 512 n = Some (of_nat l)" "block_offset (of_nat x) 512 n = of_nat (512 * r)"
    using b(2,3) by (simp_all only: l_def r_def)
  show "ftl_lbn_to_pbn (of_nat l) n = Some (lut n ! l)" unfolding l_def by (rule lbn_to_pbn_ok [OF tab pos(1)])
  have "unat (lut n ! l) < 4096" unfolding l_def by (rule table_okD(3) [OF tab pos(1)])
  then show "\<not> ucast (lut n ! l) \<ge> (ucast (block_totalnum n) :: u32)"
    using known_partD(2) [OF part] by (simp add: word_le_nat_alt)
  show "ucast (lut n ! l) = (of_nat (unat (lut n ! l)) :: u32)" by (rule word_of_unat) simp
  show "of_nat (512 * r) div ucast (page_mainsize n) = (of_nat (r div spp n) :: u32)"
    "of_nat (512 * r) mod ucast (page_mainsize n) = (of_nat (512 * (r mod spp n)) :: u32)"
    "ucast (of_nat (512 * (r mod spp n)) :: u32) = (of_nat (512 * (r mod spp n)) :: u16)"
    "ucast (page_mainsize n) - of_nat (512 * (r mod spp n)) = (of_nat (512 * (spp n - r mod spp n)) :: u32)"
    unfolding r_def by (rule p)+
qed

lemma read_words:
  assumes "0 < d" and "d \<le> 8" and "0 < rest" and "rest < 2 ^ 32" and "c = min rest d"
  shows "(let temp = (ucast ((of_nat (512 * d) :: u32) div ucast (512 :: u16)) :: u16)
      in if ucast temp > (of_nat rest :: u32) then ucast (of_nat rest :: u32) else temp) = of_nat c"
    and "of_nat c * 512 = (of_nat (512 * c) :: u16)" "unat (of_nat c :: u16) = c"
proof -
  have d32: "unat (of_nat (512 * d) :: u32) = 512 * d" "unat (of_nat d :: u16) = d"
    using assms(2) by (intro unat_of_nat_small; simp)+
  have rest: "unat (of_nat rest :: u32) = rest" using assms(4) by (intro unat_of_nat_small) simp
  show c: "unat (of_nat c :: u16) = c" using assms(2,5) by (intro unat_of_nat_small) simp
  show "of_nat c * 512 = (of_nat (512 * c) :: u16)" by simp
  have t: "ucast ((of_nat (512 * d) :: u32) div ucast (512 :: u16)) = (of_nat d :: u16)"
  proof (rule word_of_unat)
    have "unat ((of_nat (512 * d) :: u32) div ucast (512 :: u16)) = d"
      unfolding unat_div_distrib d32 by simp
    then show "unat (ucast ((of_nat (512 * d) :: u32) div ucast (512 :: u16)) :: u16) = d"
      using assms(2) by (subst unat_ucast_low) simp_all
  qed
  have low: "ucast (of_nat rest :: u32) = (of_nat rest :: u16)" if "rest < d"
    using that assms(2) rest by (intro word_of_unat, subst unat_ucast_low) simp_all
  show "(let temp = (ucast ((of_nat (512 * d) :: u32) div ucast (512 :: u16)) :: u16)
      in if ucast temp > (of_nat rest :: u32) then ucast (of_nat rest :: u32) else temp) = of_nat c"
    unfolding t Let_def using low assms(5) by (auto simp: word_less_nat_alt d32 rest)
qed

lemma read_round_ok:
  assumes law: "ecc_law ecc" and ok: "ftl_ok bus v ecc (dev f)" and x: "x < ftl_capacity (dev f)"
    and pos: "sectorno + i = of_nat x" "sectorcount - i = of_nat rest" and rest: "0 < rest" "rest < 2 ^ 32"
    and c: "c = min rest (spp (dev f) - x mod spb (dev f) mod spp (dev f))"
  shows "\<exists>n'. read_round bus sectorno 512 sectorcount i f =
      Some (Inr (of_nat c), concat (window (ftl_content v (dev f)) x c), f\<lparr>dev := n'\<rparr>) \<and> looked v (dev f) n'"
proof -
  define n where "n = dev f"
  have nok: "nand_ok bus v ecc n" and tab: "table_ok v ecc n" and okn: "ftl_ok bus v ecc n" and xn: "x < ftl_capacity n"
    using ok x by (simp_all add: ftl_ok_def n_def)
  note part = nand_okD(1) [OF nok] and geo = known_spp [OF nand_okD(1) [OF nok]]
  define l r where "l = x div spb n" and "r = x mod spb n"
  define a po j where "a = unat (lut n ! l)" and "po = r div spp n" and "j = r mod spp n"
  note w = round_words [OF okn xn, folded l_def r_def, folded a_def po_def j_def]
  note lp = sector_position [OF okn xn, folded l_def r_def] and pg = page_of_sector(5,6) [OF part, of r, folded po_def j_def]
  have j: "j < spp n" "po < ppb n" using pg lp(3) by simp_all
  have c': "c = min rest (spp n - j)" using c by (simp add: n_def j_def r_def)
  then have jc: "512 * (j + c) \<le> msz n" "0 < c" "j + c \<le> spp n" using rest(1) j(1) geo(1) by auto
  have s8: "0 < spp n - j" "spp n - j \<le> 8" using j(1) geo(2) by auto
  note rw = read_words [OF s8 rest c']
  have a4: "a < 4096" "block_ok v ecc n a" using table_okD(3,5) [OF tab lp(1)] by (simp_all add: a_def)
  note pa = unat_page_of [OF part a4(1) j(2)]
  define F where "F = page_at v n a po"
  have F: "F = cells v (nhw n) (unat (page_of n (of_nat a) (of_nat po)))" by (simp add: F_def page_at_def pa(1))
  have "\<forall>q\<in>set [j..<j + c]. sector_ok ecc n F q" using a4(2) j(2) jc(3) by (simp add: block_ok_def F_def)
  from decode_page [OF law this, of 0] obtain sta where
    dec: "decode_all (map (\<lambda>i. (sector_data F i, sector_code n F i, ecc (sector_data F i))) [j..<j + c]) 0 =
      Some (concat (map (sector_data F) [j..<j + c]), sta)" and sta: "sta = 0 \<or> sta = NSTA_ECC2BITERR" by auto
  have "unat (page_of n (of_nat a) (of_nat po)) < ppb n * 4096" using pa by simp
  from readpage_sectors [OF nok this jc(2,1) F dec] obtain n' where
    n': "nand_readpage bus (page_of n (of_nat a) (of_nat po)) (of_nat (512 * j)) (of_nat (512 * c)) n =
      Some (sta, concat (map (sector_data F) [j..<j + c]), n')" "moved n n'" "keeps v (nhw n) (nhw n') (Wait 0)" by blast
  have lk: "looked v n n'" using n'(2) keepsD [OF n'(3)] nand_okD(4) [OF nok] by (simp add: looked_def)
  have "map (sector_data F) [j..<j + c] = window (ftl_content v n) x c"
  proof (rule nth_equalityI)
    show "map (sector_data F) [j..<j + c] ! k = window (ftl_content v n) x c ! k"
      if "k < length (map (sector_data F) [j..<j + c])" for k
      using page_run(1) [OF part xn, of k c] that jc(3) by (simp add: F_def a_def po_def j_def l_def r_def)
  qed simp
  moreover have "NSTA_ECC1BITERR \<noteq> 0" "NSTA_ECC1BITERR \<noteq> NSTA_ECC2BITERR"
    by (simp_all add: NSTA_ECC1BITERR_def NSTA_ECC2BITERR_def)
  ultimately have "read_round bus sectorno 512 sectorcount i f =
      Some (Inr (of_nat c), concat (window (ftl_content v n) x c), f\<lparr>dev := n'\<rparr>)"
    using n'(1) sta w(3)
    unfolding read_round_def pos n_def [symmetric] w(1) Option.bind.bind_lunit w(2) Let_def w(4-9)
      rw(1) [unfolded Let_def] rw(2)
    by (auto simp del: of_nat_mult)
  then show ?thesis using lk by (auto simp: n_def)
qed

text \<open>The counter of the loops.\<close>

lemma count_words:
  assumes "k < m" and "m < 2 ^ 32"
  shows "(of_nat k :: u32) < of_nat m" "(of_nat m :: u32) - of_nat k = of_nat (m - k)"
proof -
  have "unat (of_nat k :: u32) = k" "unat (of_nat m :: u32) = m" using assms by (intro unat_of_nat_small; simp)+
  then show "(of_nat k :: u32) < of_nat m" using assms(1) by (simp add: word_less_nat_alt)
  show "(of_nat m :: u32) - of_nat k = of_nat (m - k)" using assms(1) by (simp add: of_nat_diff)
qed

lemma round_step: "unat (of_nat c :: u16) = c \<Longrightarrow> of_nat k + (ucast (of_nat c :: u16) - 1) + 1 = (of_nat (k + c) :: u32)"
proof -
  assume c: "unat (of_nat c :: u16) = c"
  have "ucast (of_nat c :: u16) = (of_nat c :: u32)" by (rule word_of_unat) (simp only: unat_ucast_up c)
  then show ?thesis by simp
qed

lemma read_sectors_run:
  assumes law: "ecc_law ecc"
  shows "ftl_ok bus v ecc (dev f) \<Longrightarrow> k \<le> m \<Longrightarrow> m < 2 ^ 32 \<Longrightarrow> a + m \<le> ftl_capacity (dev f) \<Longrightarrow>
    \<exists>n'. read_sectors_loop bus (of_nat a) 512 (of_nat m) (of_nat k) f =
      Some (0, concat (window (ftl_content v (dev f)) (a + k) (m - k)), f\<lparr>dev := n'\<rparr>) \<and> looked v (dev f) n'"
proof (induction "m - k" arbitrary: k f rule: less_induct)
  case less
  show ?case
  proof (cases "k = m")
    case True
    have "nand_ok bus v ecc (dev f)" using less.prems(1) by (simp add: ftl_ok_def)
    then show ?thesis using True looked_refl
      by (subst read_sectors_loop.simps) (auto simp: window_def intro!: exI [of _ "dev f"])
  next
    case False
    then have km: "k < m" using less.prems(2) by simp
    define c where "c = min (m - k) (spp (dev f) - (a + k) mod spb (dev f) mod spp (dev f))"
    have part: "known_part (dev f)" using less.prems(1) nand_okD(1) by (auto simp: ftl_ok_def)
    have "(a + k) mod spb (dev f) mod spp (dev f) < spp (dev f)" using known_ppb(2) [OF part] by simp
    then have c: "0 < c" "c \<le> m - k" "c \<le> 8" using km known_spp(2) [OF part] by (auto simp: c_def)
    have cu: "unat (of_nat c :: u16) = c" using c(3) by (intro unat_of_nat_small) simp
    note cw = count_words [OF km less.prems(3)]
    have "a + k < ftl_capacity (dev f)" "of_nat a + of_nat k = (of_nat (a + k) :: u32)" "0 < m - k" "m - k < 2 ^ 32"
      using km less.prems(3,4) by simp_all
    from read_round_ok [OF law less.prems(1) this(1,2) cw(2) this(3,4) c_def]
    obtain n1 where n1: "read_round bus (of_nat a) 512 (of_nat m) (of_nat k) f =
        Some (Inr (of_nat c), concat (window (ftl_content v (dev f)) (a + k) c), f\<lparr>dev := n1\<rparr>)" "looked v (dev f) n1"
      by blast
    note same = looked_table [OF n1(2)]
    have "m - (k + c) < m - k" using c km by simp
    moreover have "k + c \<le> m" using c(2) km by simp
    ultimately
    obtain n2 where n2: "read_sectors_loop bus (of_nat a) 512 (of_nat m) (of_nat (k + c)) (f\<lparr>dev := n1\<rparr>) =
        Some (0, concat (window (ftl_content v (dev f)) (a + (k + c)) (m - (k + c))), f\<lparr>dev := n2\<rparr>)" "looked v n1 n2"
      using less.hyps [of "k + c" "f\<lparr>dev := n1\<rparr>"] looked_ftl [OF less.prems(1) n1(2)] less.prems(3,4) same(5,6)
      by (auto simp del: of_nat_add)
    have "m - k = c + (m - (k + c))" using c by simp
    then have "window (ftl_content v (dev f)) (a + k) (m - k) =
        window (ftl_content v (dev f)) (a + k) c @ window (ftl_content v (dev f)) (a + (k + c)) (m - (k + c))"
      using window_add [of "ftl_content v (dev f)" "a + k" c "m - (k + c)"] by (simp only: add.assoc)
    then have "read_sectors_loop bus (of_nat a) 512 (of_nat m) (of_nat k) f =
        Some (0, concat (window (ftl_content v (dev f)) (a + k) (m - k)), f\<lparr>dev := n2\<rparr>)"
      unfolding read_sectors_loop.simps [of bus "of_nat a" 512 "of_nat m" "of_nat k" f] n1(1)
      by (simp only: cw(1) if_True Option.bind.bind_lunit prod.case sum.case round_step [OF cu] n2(1) concat_append)
    then show ?thesis using looked_trans [OF n1(2) n2(2)] by blast
  qed
qed

lemma read_sectors_ok:
  assumes "ecc_law ecc" and "ftl_ok bus v ecc (dev f)" and "m < 2 ^ 32" and "a + m \<le> ftl_capacity (dev f)"
  shows "\<exists>n'. ftl_read_sectors bus (of_nat a) 512 (of_nat m) f =
    Some (0, concat (window (ftl_content v (dev f)) a m), f\<lparr>dev := n'\<rparr>) \<and> looked v (dev f) n'"
  using read_sectors_run [OF assms(1,2) _ assms(3,4), of 0] by (simp add: ftl_read_sectors_def)

section \<open>Writing\<close>

lemma cut_words:
  assumes "0 < d" and "d \<le> 1024" and "rest \<le> 65535" and "c = min rest d"
  shows "(if (of_nat rest :: u16) \<ge> of_nat d then of_nat d else of_nat rest) = (of_nat c :: u16)"
    and "ucast (of_nat c :: u16) * ucast (512 :: u16) = (of_nat (512 * c) :: u32)"
    and "unat (of_nat c :: u16) = c" "unat (of_nat (512 * c) :: u32) = 512 * c"
    and "ucast (of_nat rest :: u32) = (of_nat rest :: u16)"
proof -
  have u: "unat (of_nat d :: u16) = d" "unat (of_nat rest :: u16) = rest" "unat (of_nat rest :: u32) = rest"
    using assms(2,3) by (intro unat_of_nat_small; simp)+
  show c: "unat (of_nat c :: u16) = c" using assms(2,4) by (intro unat_of_nat_small) simp
  show c5: "unat (of_nat (512 * c) :: u32) = 512 * c" using assms(2,4) by (intro unat_of_nat_small) simp
  show "(if (of_nat rest :: u16) \<ge> of_nat d then of_nat d else of_nat rest) = (of_nat c :: u16)"
    using assms(4) u by (simp add: word_le_nat_alt)
  have "ucast (of_nat c :: u16) = (of_nat c :: u32)" by (rule word_of_unat) (simp only: unat_ucast_up c)
  then show "ucast (of_nat c :: u16) * ucast (512 :: u16) = (of_nat (512 * c) :: u32)" by simp
  show "ucast (of_nat rest :: u32) = (of_nat rest :: u16)"
    using assms(3) u(3) by (intro word_of_unat, subst unat_ucast_low) simp_all
qed

lemma page_words:
  assumes "d \<le> 8" and "c \<le> d"
  shows "ucast (of_nat (512 * d) :: u32) div (512 :: u16) = of_nat d"
    and "ucast ((of_nat (512 * c) :: u32) div 4) = (of_nat (128 * c) :: u16)"
    and "ucast (of_nat (512 * c) :: u32) = (of_nat (512 * c) :: u16)"
    and "(of_nat (512 * c) :: u32) div 4 = of_nat (128 * c)" "unat (of_nat (128 * c) :: u16) = 128 * c"
proof -
  have u: "unat (of_nat (512 * d) :: u32) = 512 * d" "unat (of_nat (512 * c) :: u32) = 512 * c"
    "unat (of_nat (128 * c) :: u32) = 128 * c" "unat (of_nat d :: u16) = d"
    using assms by (intro unat_of_nat_small; simp)+
  have low: "unat (ucast (of_nat (512 * d) :: u32) :: u16) = 512 * d"
    using assms(1) by (subst unat_ucast_low; simp add: u del: of_nat_mult)
  show "ucast (of_nat (512 * d) :: u32) div (512 :: u16) = of_nat d"
    by (rule word_of_unat) (simp add: unat_div_distrib low u del: of_nat_mult)
  show q: "(of_nat (512 * c) :: u32) div 4 = of_nat (128 * c)"
    by (rule word_of_unat) (simp only: unat_div_distrib u, simp)
  show "unat (of_nat (128 * c) :: u16) = 128 * c" using assms by (intro unat_of_nat_small) simp
  show "ucast ((of_nat (512 * c) :: u32) div 4) = (of_nat (128 * c) :: u16)"
    unfolding q using assms by (intro word_of_unat, subst unat_ucast_low; simp add: u del: of_nat_mult)
  show "ucast (of_nat (512 * c) :: u32) = (of_nat (512 * c) :: u16)"
    using assms by (intro word_of_unat, subst unat_ucast_low; simp add: u del: of_nat_mult)
qed

lemma block_rest_words:
  assumes part: "known_part n" and r: "r < spb n"
  shows "ucast ((ucast (block_pagenum n) * ucast (page_mainsize n) - of_nat (512 * r)) div ucast (512 :: u16) :: u32) =
    (of_nat (spb n - r) :: u16)"
proof -
  note g = known_spp [OF part] and b = known_spb [OF part]
  have all: "unat (ucast (block_pagenum n) * ucast (page_mainsize n) :: u32) = 512 * spb n"
    using known_partD(1) [OF part] g(2) by (auto simp: spb_def ppb_def unat_word_ariths)
  have ur: "unat (of_nat (512 * r) :: u32) = 512 * r" using r b(1) by (intro unat_of_nat_small) auto
  have "(of_nat (512 * r) :: u32) \<le> ucast (block_pagenum n) * ucast (page_mainsize n)"
    unfolding word_le_nat_alt all ur using r by simp
  then have "unat (ucast (block_pagenum n) * ucast (page_mainsize n) - of_nat (512 * r) :: u32) = 512 * spb n - 512 * r"
    by (simp only: unat_sub all ur)
  also have "\<dots> = 512 * (spb n - r)" by simp
  finally have "unat ((ucast (block_pagenum n) * ucast (page_mainsize n) - of_nat (512 * r)) div ucast (512 :: u16) :: u32) = spb n - r"
    by (simp only: unat_div_distrib) simp
  then show ?thesis using b(1) by (intro word_of_unat, subst unat_ucast_low; auto)
qed

text \<open>A run of sectors of a block that was replaced, in terms of the sectors of the table.\<close>

definition placed :: "'s nand_view \<Rightarrow> u8 list \<Rightarrow> nat \<Rightarrow> nat \<Rightarrow> nat \<Rightarrow> 's nand \<Rightarrow> 's nand \<Rightarrow> bool" where
  "placed v bs l r c n n' \<longleftrightarrow> valid_blocknum n' = valid_blocknum n \<and> ppb n' = ppb n \<and> spp n' = spp n \<and>
     (\<forall>k<unat (valid_blocknum n). \<forall>t<ppb n * spp n. sector_at v n' (unat (lut n' ! k)) t =
       (if k = l \<and> r \<le> t \<and> t < r + c then buf_sector bs (t - r) else sector_at v n (unat (lut n ! k)) t))"

lemma placed_content:
  assumes "placed v bs l r c n n'" and "l = x div spb n" and "r = x mod spb n" and "r + c \<le> spb n" and "0 < spb n"
    and "x < ftl_capacity n"
  shows "ftl_capacity n' = ftl_capacity n" "spb n' = spb n"
    "ftl_content v n' = overwrite (ftl_content v n) x (map (buf_sector bs) [0..<c])"
proof -
  show cap: "ftl_capacity n' = ftl_capacity n" "spb n' = spb n"
    using assms(1) by (simp_all add: placed_def ftl_capacity_def spb_def)
  have x: "x = l * spb n + r" using assms(2,3) by simp
  have l: "l < unat (valid_blocknum n)" using assms(2,6) by (simp add: ftl_capacity_def less_mult_imp_div_less)
  have end_: "x + c \<le> ftl_capacity n"
  proof -
    have "Suc l * spb n \<le> ftl_capacity n" unfolding ftl_capacity_def using l by (intro mult_le_mono1) simp
    then show ?thesis using x assms(4) by simp
  qed
  show "ftl_content v n' = overwrite (ftl_content v n) x (map (buf_sector bs) [0..<c])"
  proof
    fix y
    show "ftl_content v n' y = overwrite (ftl_content v n) x (map (buf_sector bs) [0..<c]) y"
    proof (cases "y < ftl_capacity n")
      case True
      have k: "y div spb n < unat (valid_blocknum n)" "y mod spb n < ppb n * spp n"
        using True assms(5) by (simp_all add: ftl_capacity_def less_mult_imp_div_less spb_def)
      have y: "y = y div spb n * spb n + y mod spb n" by simp
      have iff: "y div spb n = l \<and> r \<le> y mod spb n \<and> y mod spb n < r + c \<longleftrightarrow> x \<le> y \<and> y < x + c" (is "?A \<longleftrightarrow> ?B")
      proof
        assume ?A
        then show ?B using x y by (metis add.assoc add_le_mono1 add_strict_left_mono add.commute)
      next
        assume B: ?B
        define t where "t = y - x"
        have "y = l * spb n + (r + t)" "t < c" using B x by (auto simp: t_def)
        moreover from this(2) assms(4) have "r + t < spb n" by linarith
        ultimately have "y div spb n = l" "y mod spb n = r + t" using assms(5) by simp_all
        then show ?A using B by (simp add: t_def) linarith
      qed
      have off: "y mod spb n - r = y - x" if ?B
        using that x y iff by (metis add_diff_cancel_left)
      have "ftl_content v n' y = (if x \<le> y \<and> y < x + c then buf_sector bs (y - x) else ftl_content v n y)"
        using assms(1) k True cap off iff by (auto simp: ftl_content_def placed_def)
      then show ?thesis by (auto simp: overwrite_def)
    next
      case False
      then show ?thesis using end_ cap by (simp add: ftl_content_def overwrite_def)
    qed
  qed
qed

text \<open>The two ways of a round: the sectors are blank, or the block moves.\<close>

lemma write_here:
  assumes ok: "ftl_ok bus v ecc n" and l: "l < unat (valid_blocknum n)" and a: "a = unat (lut n ! l)"
    and po: "po < ppb n" and j: "j < spp n" and c: "j + c \<le> spp n" "512 * c \<le> length bs" "0 < c"
    and nb: "\<forall>i<c. buf_sector bs i \<noteq> blank_sector"
    and eq: "equal_words (page_at v n a po) (512 * j) 0xFFFFFFFF (128 * c) = 128 * c"
  shows "\<exists>n1 n2. nand_writepage bus (page_of n (of_nat a) (of_nat po)) (of_nat (512 * j)) bs (of_nat (512 * c)) n = Some (0, n1) \<and>
    ftl_used_blockmark bus (of_nat a) n1 = Some (0, n2) \<and>
    ftl_ok bus v ecc n1 \<and> placed v bs l (po * spp n + j) c n n1 \<and> ftl_ok bus v ecc n2 \<and> placed v bs l (po * spp n + j) c n n2"
proof -
  have "window (page_at v n a po) (512 * j) (4 * (128 * c)) = replicate (4 * (128 * c)) 0xFF"
    using eq by (simp only: equal_words_ones)
  then have blank: "\<forall>q. j \<le> q \<and> q < j + c \<longrightarrow> sector_data (page_at v n a po) q = blank_sector"
    by (simp only: blank_run [symmetric]) simp
  from write_in_place [OF ok l a po c(1,2) j nb blank] obtain n1 where
    n1: "nand_writepage bus (page_of n (of_nat a) (of_nat po)) (of_nat (512 * j)) bs (of_nat (512 * c)) n = Some (0, n1)"
    "moved n n1" "ftl_ok bus v ecc n1"
    "\<forall>k<unat (valid_blocknum n). \<forall>t<ppb n * spp n. sector_at v n1 (unat (lut n ! k)) t =
      (if k = l \<and> po * spp n + j \<le> t \<and> t < po * spp n + j + c then buf_sector bs (t - (po * spp n + j))
       else sector_at v n (unat (lut n ! k)) t)" by auto
  note m1 = moved_fields [OF n1(2)] moved_geometry [OF n1(2)] moved_spp [OF n1(2)]
  have "l < unat (valid_blocknum n1)" "a = unat (lut n1 ! l)" using l a by (simp_all add: m1)
  from used_mark_table [OF n1(3) this] obtain n2 where
    n2: "ftl_used_blockmark bus (of_nat a) n1 = Some (0, n2)" "moved n1 n2" "ftl_ok bus v ecc n2"
    "\<forall>k<unat (valid_blocknum n1). \<forall>t<ppb n1 * spp n1. sector_at v n2 (unat (lut n1 ! k)) t = sector_at v n1 (unat (lut n1 ! k)) t"
    by auto
  note m2 = moved_fields [OF n2(2)] moved_geometry [OF n2(2)] moved_spp [OF n2(2)]
  have "placed v bs l (po * spp n + j) c n n1" using n1(4) by (simp add: placed_def m1)
  moreover have "placed v bs l (po * spp n + j) c n n2" using n1(4) n2(4) by (simp add: placed_def m1 m2)
  ultimately show ?thesis using n1(1,3) n2(1,3) by blast
qed

lemma write_moving:
  assumes ok: "ftl_ok bus v ecc (dev f)" and l: "l < unat (valid_blocknum (dev f))"
    and n: "n = dev f" and a: "a = unat (lut n ! l)"
    and po: "po < ppb n" and j: "j < spp n" and bs: "512 * m \<le> length bs"
    and fits: "po * spp n + j + m \<le> ppb n * spp n" and nb: "\<forall>i<m. buf_sector bs i \<noteq> blank_sector"
  shows "\<exists>f'. ftl_copy_and_write_to_block bus (page_of n (of_nat a) (of_nat po)) (of_nat (512 * j)) bs (of_nat (512 * m)) f =
      Some (0, f') \<and> ftl_ok bus v ecc (dev f') \<and> placed v bs l (po * spp n + j) m n (dev f')"
  using move_block_ok [OF assms] unfolding placed_def by blast

lemma looked_page_of: "looked v n m \<Longrightarrow> page_of m = page_of n"
  by (auto simp: page_of_def [abs_def] looked_def moved_fields)

lemma placed_looked:
  assumes "looked v n m" and "placed v bs l r c m n'"
  shows "placed v bs l r c n n'"
proof -
  have mv: "moved n m" using assms(1) by (simp add: looked_def)
  note g = moved_fields(9) [OF mv] moved_geometry(1) [OF mv] moved_spp [OF mv]
  show ?thesis using assms(2) unfolding placed_def g looked_table(2,4) [OF assms(1)] .
qed

lemma write_round_ok:
  assumes ok: "ftl_ok bus v ecc (dev f)" and x: "x < ftl_capacity (dev f)"
    and pos: "sectorno + i = of_nat x" "sectorcount - i = of_nat rest" and rest: "0 < rest" "rest \<le> 65535"
    and bs: "512 * rest \<le> length bs" and nb: "\<forall>i<rest. buf_sector bs i \<noteq> blank_sector"
  shows "\<exists>c mk f'. write_round bus bs sectorno 512 sectorcount i markdpbn f =
      Some (Inr (of_nat c, of_nat (512 * c), mk), f') \<and> 0 < c \<and> c \<le> rest \<and> c \<le> 1024 \<and>
    ftl_ok bus v ecc (dev f') \<and> ftl_capacity (dev f') = ftl_capacity (dev f) \<and>
    ftl_content v (dev f') = overwrite (ftl_content v (dev f)) x (map (buf_sector bs) [0..<c])"
proof -
  define n where "n = dev f"
  have nok: "nand_ok bus v ecc n" and tab: "table_ok v ecc n" and okn: "ftl_ok bus v ecc n" and xn: "x < ftl_capacity n"
    using ok x by (simp_all add: ftl_ok_def n_def)
  note part = nand_okD(1) [OF nok] and geo = known_spp [OF nand_okD(1) [OF nok]]
  note b0 = known_spb [OF part]
  define l r where "l = x div spb n" and "r = x mod spb n"
  define a po j where "a = unat (lut n ! l)" and "po = r div spp n" and "j = r mod spp n"
  note w = round_words [OF okn xn, folded l_def r_def, folded a_def po_def j_def]
  note lp = sector_position [OF okn xn, folded l_def r_def] and pg = page_of_sector(5,6) [OF part, of r, folded po_def j_def]
  have j: "j < spp n" "po < ppb n" using pg lp(3) by simp_all
  have r: "po * spp n + j = r" by (simp add: po_def j_def)
  have d: "0 < spp n - j" "spp n - j \<le> 8" "spp n - j \<le> 1024" using j(1) geo(2) by auto
  define c where "c = min rest (spp n - j)"
  have c: "0 < c" "j + c \<le> spp n" "c \<le> rest" "c \<le> spp n - j" "c \<le> 8" using d rest(1) by (auto simp: c_def)
  note cw = cut_words [OF d(1,3) rest(2) c_def] and pw = page_words [OF d(2) c(4)]
  define e where "e = spb n - r"
  have e: "0 < e" "e \<le> 1024" using lp(3) b0(1) by (auto simp: e_def)
  define m where "m = min rest e"
  have m: "0 < m" "m \<le> rest" "m \<le> 1024" "po * spp n + j + m \<le> ppb n * spp n"
    using e rest(1) lp(3) by (auto simp: m_def r e_def spb_def)
  note mw = cut_words [OF e rest(2) m_def]
  have rc: "r + c \<le> spb n"
  proof -
    have "Suc po * spp n \<le> ppb n * spp n" using j(2) by (intro mult_le_mono1) simp
    then show ?thesis using c(2) r by (simp add: spb_def)
  qed
  have a4: "a < 4096" using table_okD(3) [OF tab lp(1)] by (simp add: a_def)
  note pa = unat_page_of [OF part a4 j(2)]
  define F where "F = page_at v n a po"
  define q where "q = equal_words F (512 * j) 0xFFFFFFFF (128 * c)"
  have jw: "unat (of_nat (512 * j) :: u16) = 512 * j" using j(1) geo(2) by (intro unat_of_nat_small) auto
  have "unat (of_nat (512 * j) :: u16) < csz n" "unat (of_nat (512 * j) :: u16) + 4 * unat (of_nat (128 * c) :: u16) \<le> csz n"
    unfolding jw pw(5) using j c(2) geo(2) by auto
  from readpagecomp_ok [OF nok _ this, of "page_of n (of_nat a) (of_nat po)" "0xFFFFFFFF"] pa
  obtain t where t: "nand_readpagecomp bus (page_of n (of_nat a) (of_nat po)) (of_nat (512 * j)) 0xFFFFFFFF (of_nat (128 * c)) n =
      (0, Some (of_nat q), n\<lparr>nhw := t\<rparr>)" "keeps v (nhw n) t (Wait 0)"
    unfolding jw pw(5) by (auto simp: q_def F_def page_at_def simp del: of_nat_mult)
  define n1 where "n1 = n\<lparr>nhw := t\<rparr>"
  have lk: "looked v n n1" using keepsD [OF t(2)] nand_okD(4) [OF nok] by (simp add: n1_def looked_def)
  note same = looked_table [OF lk]
  have g1: "ppb n1 = ppb n" "spp n1 = spp n" "valid_blocknum n1 = valid_blocknum n" "block_pagenum n1 = block_pagenum n"
    using lk by (simp_all add: looked_def moved_geometry moved_spp moved_fields)
  have ok1: "ftl_ok bus v ecc n1" by (rule looked_ftl [OF okn lk])
  have q_le: "q \<le> 128 * c"
  proof -
    have "equal_words F y 0xFFFFFFFF k \<le> k" for y k by (induction k arbitrary: y) auto
    then show ?thesis by (simp add: q_def)
  qed
  have full: "ucast (of_nat q :: u16) = (of_nat (128 * c) :: u32) \<longleftrightarrow> q = 128 * c"
  proof -
    have "unat (of_nat q :: u16) = q" using q_le c(5) by (intro unat_of_nat_small) simp
    moreover have "unat (of_nat (128 * c) :: u32) = 128 * c" using c(5) by (intro unat_of_nat_small) simp
    ultimately show ?thesis by (simp only: word_unat_eq_iff unat_ucast_up)
  qed
  have round: "write_round bus bs sectorno 512 sectorcount i markdpbn f = do {
      (flag1, n2) \<leftarrow> (if q = 128 * c
         then nand_writepage bus (page_of n (of_nat a) (of_nat po)) (of_nat (512 * j)) bs (of_nat (512 * c)) n1
         else Some (1, n1));
      (flag2, markdpbn', n3) \<leftarrow>
        (if flag1 = 0 \<and> markdpbn \<noteq> of_nat a
         then map_option (\<lambda>(fl, n3). (fl, of_nat a, n3)) (ftl_used_blockmark bus (of_nat a) n2)
         else Some (flag1, markdpbn, n2));
      if flag2 \<noteq> 0 then do {
        let temp2 = ucast ((ucast (block_pagenum n3) * ucast (page_mainsize n) - of_nat (512 * r)) div ucast (512 :: u16) :: u32);
        let wsecs2 = (if of_nat rest \<ge> temp2 then temp2 else of_nat rest :: u16);
        let wlen2 = (ucast wsecs2 * ucast (512 :: u16) :: u32);
        (flag3, f4) \<leftarrow> ftl_copy_and_write_to_block bus (page_of n (of_nat a) (of_nat po)) (of_nat (512 * j)) bs wlen2 (f\<lparr>dev := n3\<rparr>);
        Some (if flag3 \<noteq> 0 then Inl 3 else Inr (wsecs2, wlen2, markdpbn'), f4)
      }
      else Some (Inr (of_nat c, of_nat (512 * c), markdpbn'), f\<lparr>dev := n3\<rparr>)
    }"
    unfolding write_round_def pos n_def [symmetric] w(1) Option.bind.bind_lunit w(2) Let_def w(4-9)
      cw(5) pw(1) cw(1,2) pw(2) pw(3)
    by (simp only: w(3) [unfolded w(4)] if_False t(1) prod.case option.case pw(4) full simp_thms n1_def [symmetric])
  note po1 = looked_page_of [OF lk]
  have goal: "\<exists>c mk f'. Some (Inr (of_nat k, of_nat (512 * k), mk'), f1) = Some (Inr (of_nat c, of_nat (512 * c), mk), f') \<and>
      0 < c \<and> c \<le> rest \<and> c \<le> 1024 \<and> ftl_ok bus v ecc (dev f') \<and> ftl_capacity (dev f') = ftl_capacity (dev f) \<and>
      ftl_content v (dev f') = overwrite (ftl_content v (dev f)) x (map (buf_sector bs) [0..<c])"
    if "placed v bs l r k n1 (dev f1)" "ftl_ok bus v ecc (dev f1)" "0 < k" "k \<le> rest" "k \<le> 1024" "r + k \<le> spb n"
    for k mk' and f1 :: "'a ftl"
    using placed_content [OF placed_looked [OF lk that(1)] l_def r_def that(6) b0(2) xn] that(2-5)
    unfolding n_def [symmetric] by blast
  have l1: "l < unat (valid_blocknum n1)" "a = unat (lut n1 ! l)" using lp(1) by (simp_all add: g1 same a_def)
  show ?thesis
  proof (cases "q = 128 * c")
    case True
    then have "equal_words (page_at v n1 a po) (512 * j) 0xFFFFFFFF (128 * c) = 128 * c" by (simp add: same q_def F_def)
    moreover have "512 * c \<le> length bs" "\<forall>i<c. buf_sector bs i \<noteq> blank_sector" using bs nb c(3) by auto
    ultimately obtain n2 n3 where n2: "nand_writepage bus (page_of n (of_nat a) (of_nat po)) (of_nat (512 * j)) bs (of_nat (512 * c)) n1 = Some (0, n2)"
      "ftl_used_blockmark bus (of_nat a) n2 = Some (0, n3)"
      "ftl_ok bus v ecc n2" "placed v bs l r c n1 n2" "ftl_ok bus v ecc n3" "placed v bs l r c n1 n3"
      using write_here [OF ok1 l1, of po j c bs] j c(1,2) unfolding g1 po1 r by blast
    have fin: "write_round bus bs sectorno 512 sectorcount i markdpbn f =
        Some (Inr (of_nat c, of_nat (512 * c), if markdpbn \<noteq> of_nat a then of_nat a else markdpbn),
          f\<lparr>dev := if markdpbn \<noteq> of_nat a then n3 else n2\<rparr>)"
      using True n2(1,2) unfolding round by (simp del: of_nat_mult)
    show ?thesis unfolding fin by (rule goal) (use n2(3-6) c(1,3,5) rc in simp_all)
  next
    case False
    have "ftl_ok bus v ecc (dev (f\<lparr>dev := n1\<rparr>))" "l < unat (valid_blocknum (dev (f\<lparr>dev := n1\<rparr>)))"
      "n1 = dev (f\<lparr>dev := n1\<rparr>)" using ok1 l1(1) by simp_all
    moreover have "512 * m \<le> length bs" "\<forall>i<m. buf_sector bs i \<noteq> blank_sector" using bs nb m(2) by auto
    ultimately obtain f' where f': "ftl_copy_and_write_to_block bus (page_of n (of_nat a) (of_nat po)) (of_nat (512 * j)) bs
        (of_nat (512 * m)) (f\<lparr>dev := n1\<rparr>) = Some (0, f')" "ftl_ok bus v ecc (dev f')" "placed v bs l r m n1 (dev f')"
      using write_moving [of bus v ecc "f\<lparr>dev := n1\<rparr>" l n1 a po j m bs] l1(2) j m(4) unfolding g1 po1 r by blast
    have fin: "write_round bus bs sectorno 512 sectorcount i markdpbn f = Some (Inr (of_nat m, of_nat (512 * m), markdpbn), f')"
      unfolding round
      by (simp only: False if_False if_True Option.bind.bind_lunit prod.case Let_def one_neq_zero simp_thms g1
        block_rest_words [OF part lp(3)] e_def [symmetric] mw(1,2) f'(1))
    show ?thesis unfolding fin by (rule goal) (use f'(2,3) m(1-3) m(4) in \<open>simp_all add: r spb_def\<close>)
  qed
qed

lemma overwrite_sectors:
  "overwrite (overwrite g x (map (buf_sector bs) [0..<c])) (x + c) (map (buf_sector (drop (512 * c) bs)) [0..<d]) =
    overwrite g x (map (buf_sector bs) [0..<c + d])"
proof -
  have "map (buf_sector bs) [0..<c] @ map (buf_sector (drop (512 * c) bs)) [0..<d] = map (buf_sector bs) [0..<c + d]"
    by (rule nth_equalityI) (auto simp: nth_append buf_sector_drop simp del: upt_rec_numeral)
  then show ?thesis using overwrite_append [of g x "map (buf_sector bs) [0..<c]"] by simp
qed

lemma write_sectors_run:
  shows "ftl_ok bus v ecc (dev f) \<Longrightarrow> k \<le> m \<Longrightarrow> m \<le> 65535 \<Longrightarrow> a + m \<le> ftl_capacity (dev f) \<Longrightarrow>
    512 * (m - k) \<le> length bs \<Longrightarrow> \<forall>i<m - k. buf_sector bs i \<noteq> blank_sector \<Longrightarrow>
    \<exists>f'. write_sectors_loop bus bs (of_nat a) 512 (of_nat m) (of_nat k) mk f = Some (0, f') \<and>
      ftl_ok bus v ecc (dev f') \<and> ftl_capacity (dev f') = ftl_capacity (dev f) \<and>
      ftl_content v (dev f') = overwrite (ftl_content v (dev f)) (a + k) (map (buf_sector bs) [0..<m - k])"
proof (induction "m - k" arbitrary: k f bs mk rule: less_induct)
  case less
  show ?case
  proof (cases "k = m")
    case True
    then show ?thesis using less.prems(1) by (subst write_sectors_loop.simps) simp
  next
    case False
    then have km: "k < m" using less.prems(2) by simp
    have m32: "m < 2 ^ 32" using less.prems(3) by simp
    note cw = count_words [OF km m32]
    have "a + k < ftl_capacity (dev f)" "of_nat a + of_nat k = (of_nat (a + k) :: u32)" "0 < m - k" "m - k \<le> 65535"
      using km less.prems(3,4) by simp_all
    from write_round_ok [OF less.prems(1) this(1,2) cw(2) this(3,4) less.prems(5,6)]
    obtain c mk' f1 where f1: "write_round bus bs (of_nat a) 512 (of_nat m) (of_nat k) mk f =
        Some (Inr (of_nat c, of_nat (512 * c), mk'), f1)" "0 < c" "c \<le> m - k" "c \<le> 1024"
      "ftl_ok bus v ecc (dev f1)" "ftl_capacity (dev f1) = ftl_capacity (dev f)"
      "ftl_content v (dev f1) = overwrite (ftl_content v (dev f)) (a + k) (map (buf_sector bs) [0..<c])"
      by blast
    have cu: "unat (of_nat c :: u16) = c" "unat (of_nat (512 * c) :: u32) = 512 * c"
      using f1(4) by (intro unat_of_nat_small; simp)+
    have "m - (k + c) < m - k" "k + c \<le> m" using f1(2,3) km by simp_all
    moreover have "512 * (m - (k + c)) \<le> length (drop (512 * c) bs)" using less.prems(5) f1(3) by simp
    moreover have "\<forall>i<m - (k + c). buf_sector (drop (512 * c) bs) i \<noteq> blank_sector"
      using less.prems(6) by (simp add: buf_sector_drop)
    ultimately obtain f2 where f2: "write_sectors_loop bus (drop (512 * c) bs) (of_nat a) 512 (of_nat m) (of_nat (k + c)) mk' f1 = Some (0, f2)"
      "ftl_ok bus v ecc (dev f2)" "ftl_capacity (dev f2) = ftl_capacity (dev f)"
      "ftl_content v (dev f2) = overwrite (ftl_content v (dev f1)) (a + (k + c)) (map (buf_sector (drop (512 * c) bs)) [0..<m - (k + c)])"
      using less.hyps [of "k + c" f1 "drop (512 * c) bs" mk'] f1(5,6) less.prems(3,4) by (auto simp del: of_nat_add)
    have "m - k = c + (m - (k + c))" using f1(3) km by simp
    then have "ftl_content v (dev f2) = overwrite (ftl_content v (dev f)) (a + k) (map (buf_sector bs) [0..<m - k])"
      unfolding f2(4) f1(7) add.assoc [symmetric] overwrite_sectors by simp
    moreover have "write_sectors_loop bus bs (of_nat a) 512 (of_nat m) (of_nat k) mk f = Some (0, f2)"
      unfolding write_sectors_loop.simps [of bus bs "of_nat a" 512 "of_nat m" "of_nat k"] f1(1)
      by (simp only: cw(1) if_True Option.bind.bind_lunit prod.case sum.case round_step [OF cu(1)] cu(2) f2(1))
    ultimately show ?thesis using f2(2,3) by blast
  qed
qed

lemma write_sectors_ok:
  assumes "ftl_ok bus v ecc (dev f)" and "m \<le> 65535" and "a + m \<le> ftl_capacity (dev f)" and "512 * m \<le> length bs"
    and "\<forall>i<m. buf_sector bs i \<noteq> blank_sector"
  shows "\<exists>f'. ftl_write_sectors bus bs (of_nat a) 512 (of_nat m) f = Some (0, f') \<and> ftl_ok bus v ecc (dev f') \<and>
    ftl_capacity (dev f') = ftl_capacity (dev f) \<and>
    ftl_content v (dev f') = overwrite (ftl_content v (dev f)) a (map (buf_sector bs) [0..<m])"
  using write_sectors_run [OF assms(1) _ assms(2,3), of 0 bs NO_BLOCK] assms(4,5) by (simp add: ftl_write_sectors_def)

section \<open>An array of sectors\<close>

definition ftl_valid :: "'s fmc \<Rightarrow> 's nand_view \<Rightarrow> (u8 list \<Rightarrow> u32) \<Rightarrow> 's ftl \<Rightarrow> bool" where
  "ftl_valid bus v ecc f \<longleftrightarrow> ecc_law ecc \<and> ftl_ok bus v ecc (dev f)"

definition sector_fetch :: "'s fmc \<Rightarrow> nat \<Rightarrow> nat \<Rightarrow> 's ftl \<Rightarrow> (u8 list list \<times> 's ftl) option" where
  "sector_fetch bus a m f = (case ftl_read_sectors bus (of_nat a) 512 (of_nat m) f of
     Some (res, bs, f') \<Rightarrow> if res = 0 then Some (map (buf_sector bs) [0..<m], f') else None
   | None \<Rightarrow> None)"

definition sector_store :: "'s fmc \<Rightarrow> nat \<Rightarrow> u8 list list \<Rightarrow> 's ftl \<Rightarrow> 's ftl option" where
  "sector_store bus a ds f = (case ftl_write_sectors bus (concat ds) (of_nat a) 512 (of_nat (length ds)) f of
     Some (res, f') \<Rightarrow> if res = 0 then Some f' else None
   | None \<Rightarrow> None)"

definition sector_storable :: "u8 list \<Rightarrow> bool" where
  "sector_storable d \<longleftrightarrow> length d = 512 \<and> d \<noteq> blank_sector"

lemma sectors_of_concat:
  assumes "\<forall>d\<in>set ds. length d = 512"
  shows "length (concat ds) = 512 * length ds" "i < length ds \<Longrightarrow> buf_sector (concat ds) i = ds ! i"
    "map (buf_sector (concat ds)) [0..<length ds] = ds"
proof -
  show "length (concat ds) = 512 * length ds" using assms by (induction ds) simp_all
  show n: "buf_sector (concat ds) i = ds ! i" if "i < length ds" for i
    using take_drop_concat [where i = i and xss = ds and l = 512] assms that by (simp add: buf_sector_def)
  show "map (buf_sector (concat ds)) [0..<length ds] = ds" by (rule nth_equalityI) (simp_all add: n)
qed

lemma content_length:
  assumes "x + k \<le> ftl_capacity n"
  shows "\<forall>d\<in>set (window (ftl_content v n) x k). length d = 512"
  using assms by (auto simp: window_def ftl_content_def sector_at_def)

interpretation ftl: array_store "ftl_valid bus v ecc" "\<lambda>f. ftl_capacity (dev f)" "\<lambda>f. ftl_content v (dev f)"
  "sector_fetch bus" "sector_store bus" 65535 sector_storable for bus v ecc
proof
  fix s :: "'a ftl" and n a :: nat
  assume h: "ftl_valid bus v ecc s" "0 < n" "n \<le> 65535" "a + n \<le> ftl_capacity (dev s)"
  then obtain n' where n': "ftl_read_sectors bus (of_nat a) 512 (of_nat n) s =
      Some (0, concat (window (ftl_content v (dev s)) a n), s\<lparr>dev := n'\<rparr>)" "looked v (dev s) n'"
    using read_sectors_ok [of ecc bus v s n a] by (auto simp: ftl_valid_def)
  have "map (buf_sector (concat (window (ftl_content v (dev s)) a n))) [0..<n] = window (ftl_content v (dev s)) a n"
    using sectors_of_concat(3) [OF content_length [OF h(4)], of v] by simp
  then have "sector_fetch bus a n s = Some (window (ftl_content v (dev s)) a n, s\<lparr>dev := n'\<rparr>)"
    by (simp add: sector_fetch_def n'(1))
  then show "\<exists>s'. sector_fetch bus a n s = Some (window (ftl_content v (dev s)) a n, s') \<and> ftl_valid bus v ecc s' \<and>
      ftl_capacity (dev s') = ftl_capacity (dev s) \<and> ftl_content v (dev s') = ftl_content v (dev s)"
    using h(1) looked_ftl n'(2) looked_table [OF n'(2)] by (auto simp: ftl_valid_def)
next
  fix s :: "'a ftl" and bs :: "u8 list list" and a :: nat
  assume h: "ftl_valid bus v ecc s" "bs \<noteq> []" "length bs \<le> 65535" "a + length bs \<le> ftl_capacity (dev s)"
    "list_all sector_storable bs"
  have len: "\<forall>d\<in>set bs. length d = 512" using h(5) by (simp add: list_all_iff sector_storable_def)
  note cat = sectors_of_concat [OF len]
  have "\<forall>i<length bs. buf_sector (concat bs) i \<noteq> blank_sector"
    using cat(2) h(5) by (simp add: list_all_length sector_storable_def)
  then obtain f' where "ftl_write_sectors bus (concat bs) (of_nat a) 512 (of_nat (length bs)) s = Some (0, f')"
    "ftl_ok bus v ecc (dev f')" "ftl_capacity (dev f') = ftl_capacity (dev s)"
    "ftl_content v (dev f') = overwrite (ftl_content v (dev s)) a bs"
    using write_sectors_ok [of bus v ecc s "length bs" a "concat bs"] h(1,3,4) cat(1,3) by (auto simp: ftl_valid_def)
  then show "\<exists>s'. sector_store bus a bs s = Some s' \<and> ftl_valid bus v ecc s' \<and>
      ftl_capacity (dev s') = ftl_capacity (dev s) \<and> ftl_content v (dev s') = overwrite (ftl_content v (dev s)) a bs"
    using h(1) by (simp add: sector_store_def ftl_valid_def)
qed

section \<open>Properties of the translation layer\<close>

text \<open>C1: on a chip that obeys its laws, reading and writing sectors through the translation layer is
  reading and writing an array: whatever the sequence of requests, every read delivers the sectors
  last written at their numbers, and the table, the codes and the spare blocks stay in order, so
  that the next request finds the same conditions. Sectors of all ones are excluded.\<close>

theorem ftl_is_array:
  assumes "ecc_law ecc" and "ftl_ok bus v ecc (dev f)"
    and "list_all (request_ok 65535 (ftl_capacity (dev f))) rs" and "list_all (stores_only sector_storable) rs"
  shows "\<exists>f'. device_session (sector_fetch bus) (sector_store bus) rs f =
      Some (fst (array_session rs (ftl_content v (dev f))), f') \<and>
    ftl_ok bus v ecc (dev f') \<and> ftl_content v (dev f') = snd (array_session rs (ftl_content v (dev f)))"
  using ftl.session_law [of bus v ecc f rs] assms by (auto simp: ftl_valid_def)

text \<open>A chip with one block in use, marked and otherwise blank, under the logical number 0.\<close>

definition one_block :: "nat \<Rightarrow> nat \<Rightarrow> u8" where
  "one_block = (\<lambda>_. blank_page)(0 := overwrite blank_page 2049 [0xCC])"

abbreviation one_block_ftl :: "nsim ftl" where
  "one_block_ftl \<equiv> sim_ftl one_block (replicate 4096 0) 1"

lemma one_block_fields:
  "ppb (dev one_block_ftl) = 64" "msz (dev one_block_ftl) = 2048" "spp (dev one_block_ftl) = 4" "spb (dev one_block_ftl) = 256"
  "lut (dev one_block_ftl) = replicate 4096 0" "valid_blocknum (dev one_block_ftl) = 1"
  "chip nsim_view (dev one_block_ftl) = one_block" "ftl_capacity (dev one_block_ftl) = 256"
  by (simp_all add: sim_ftl_def spp_def spb_def ftl_capacity_def)

lemma one_block_sector:
  assumes "q < 4"
  shows "sector_data (one_block p) q = blank_sector" "sector_code (dev one_block_ftl) (one_block p) q = 0xFFFFFFFF"
proof -
  have far: "512 * q + 512 \<le> 2049" using assms by simp
  have "window (one_block p) (512 * q) 512 = window blank_page (512 * q) 512"
    unfolding one_block_def using window_apart [of "512 * q" 512 2049 "[0xCC]" blank_page] far by auto
  moreover have "window blank_page b k = replicate k 0xFF" for b k by (rule nth_equalityI) (simp_all add: blank_page_def)
  ultimately show "sector_data (one_block p) q = blank_sector" by (simp add: sector_data_def blank_sector_def)
  have "window (one_block p) (2064 + 4 * q) 4 = window blank_page (2064 + 4 * q) 4"
    unfolding one_block_def using window_apart [of "2064 + 4 * q" 4 2049 "[0xCC]" blank_page] by auto
  also have "\<dots> = replicate 4 0xFF" by (rule nth_equalityI) (simp_all add: blank_page_def)
  finally show "sector_code (dev one_block_ftl) (one_block p) q = 0xFFFFFFFF"
    using word_le_ones [of "one_block p" "2064 + 4 * q"] by (simp add: sector_code_def code_col_def one_block_fields)
qed

lemma one_block_ok: "ftl_ok nsim_bus nsim_view hamming (dev one_block_ftl)"
proof -
  let ?n = "dev one_block_ftl"
  have pg: "page_at nsim_view ?n b x = one_block (b * 64 + x)" for b x by (simp add: page_at_def one_block_fields)
  have un: "unused nsim_view ?n b" if "b \<noteq> 0" for b
    unfolding unused_page pg by (rule nth_equalityI) (use that in \<open>simp_all add: one_block_def one_block_fields blank_page_def\<close>)
  have used: "\<not> unused nsim_view ?n 0"
  proof
    assume "unused nsim_view ?n 0"
    then have "window (one_block 0) 2048 4 ! 1 = replicate 4 (0xFF :: u8) ! 1" unfolding unused_page pg by (simp add: one_block_fields)
    then show False by (simp add: one_block_def overwrite_def)
  qed
  have blank: "block_blank nsim_view ?n b" if "unused nsim_view ?n b" for b
  proof -
    have "b \<noteq> 0" using that used by metis
    then show ?thesis unfolding block_blank_def pg by (auto simp: one_block_def)
  qed
  have ok: "block_ok nsim_view hamming ?n 0"
    unfolding block_ok_def pg sector_ok_def one_block_fields using one_block_sector by simp
  have spare: "\<exists>b<4096. b mod 2 = q \<and> unused nsim_view ?n b" if "q < 2" for q :: nat
    using un [of "q + 2"] that by (intro exI [of _ "q + 2"]) auto
  have entry: "lut ?n ! 0 = 0" by (simp add: one_block_fields del: replicate.simps)
  have "table_ok nsim_view hamming ?n"
    unfolding table_ok_def one_block_fields using entry used ok blank spare by (simp add: one_block_fields)
  then show ?thesis using sim_ftl_ok by (simp add: ftl_ok_def)
qed

lemma other_byte: "b \<noteq> 0xFF \<Longrightarrow> replicate 512 b \<noteq> blank_sector"
  using nth_replicate [of 0 512 b] nth_replicate [of 0 512 "0xFF :: u8"] unfolding blank_sector_def by (metis zero_less_numeral)

theorem ftl_is_array_witness:
  "\<exists>f'. device_session (sector_fetch nsim_bus) (sector_store nsim_bus)
     [Store 3 [replicate 512 0x5A], Fetch 3 2, Store 3 [replicate 512 0x33], Fetch 2 2] one_block_ftl =
     Some ([[replicate 512 0x5A, blank_sector], [blank_sector, replicate 512 0x33]], f')"
proof -
  let ?rs = "[Store 3 [replicate 512 0x5A], Fetch 3 2, Store 3 [replicate 512 0x33], Fetch 2 2] :: u8 list request list"
  let ?c = "ftl_content nsim_view (dev one_block_ftl)"
  have blank: "?c x = blank_sector" if "x < 256" for x
    using that one_block_sector by (simp add: ftl_content_def sector_at_def page_at_def one_block_fields)
  have two: "window g x 2 = [g x, g (Suc x)]" for g :: "nat \<Rightarrow> u8 list" and x by (simp add: window_def eval_nat_numeral)
  have "fst (array_session ?rs ?c) = [[replicate 512 0x5A, blank_sector], [blank_sector, replicate 512 0x33]]"
    using blank [of 2] blank [of 4] by (simp add: two overwrite_one)
  moreover have "list_all (request_ok 65535 (ftl_capacity (dev one_block_ftl))) ?rs" by (simp add: one_block_fields)
  moreover have "list_all (stores_only sector_storable) ?rs" by (simp add: sector_storable_def other_byte)
  ultimately show ?thesis using ftl_is_array [OF hamming_law one_block_ok, of ?rs] by auto
qed

end
