(* ===== verification/Sdcard.thy ===== *)
theory Sdcard
  imports Byte_Store
begin

text \<open>
  The SD card driver \<open>sdio_sdcard.c\<close> over the card routines of the HAL and the interrupt mask, which
  are parameters. The loops that wait for the card are partial functions. A law describes a card
  that may fail a number of times and that stays busy for a number of polls.
\<close>

record card_info =
  LogBlockNbr :: u32
  LogBlockSize :: u32

record sd_settings =
  ClockEdge :: u32
  ClockBypass :: u32
  ClockPowerSave :: u32
  BusWide :: u32
  HardwareFlowControl :: u32
  ClockDiv :: u32

text \<open>
  What the driver uses of the HAL: \<open>HAL_SD_ReadBlocks\<close> delivers the bytes it stores to the buffer,
  \<open>HAL_SD_GetCardInfo\<close> the fields the program reads.
\<close>

record 's sd_hal =
  HAL_SD_Init :: "sd_settings \<Rightarrow> 's \<Rightarrow> u8 \<times> 's"
  HAL_SD_GetCardInfo :: "'s \<Rightarrow> u8 \<times> card_info \<times> 's"
  HAL_SD_ConfigWideBusOperation :: "u32 \<Rightarrow> 's \<Rightarrow> u8 \<times> 's"
  HAL_SD_ReadBlocks :: "u32 \<Rightarrow> u32 \<Rightarrow> u32 \<Rightarrow> 's \<Rightarrow> u8 \<times> u8 list \<times> 's"
  HAL_SD_WriteBlocks :: "u8 list \<Rightarrow> u32 \<Rightarrow> u32 \<Rightarrow> u32 \<Rightarrow> 's \<Rightarrow> u8 \<times> 's"
  HAL_SD_GetCardState :: "'s \<Rightarrow> u32 \<times> 's"
  sys_intx_disable :: "'s \<Rightarrow> 's"
  sys_intx_enable :: "'s \<Rightarrow> 's"

record 's sdcard =
  g_sd_card_info_handle :: card_info
  sd_hw :: 's

definition HAL_OK :: u8 where "HAL_OK = 0"
definition HAL_SD_CARD_TRANSFER :: u32 where "HAL_SD_CARD_TRANSFER = 4"
definition SDIO_BUS_WIDE_4B :: u32 where "SDIO_BUS_WIDE_4B = 0x800"
definition SD_TIMEOUT :: u32 where "SD_TIMEOUT = 100000000"
definition SD_TRANSFER_OK :: u8 where "SD_TRANSFER_OK = 0"
definition SD_TRANSFER_BUSY :: u8 where "SD_TRANSFER_BUSY = 1"

definition sd_settings :: sd_settings where
  "sd_settings = \<lparr>ClockEdge = 0, ClockBypass = 0, ClockPowerSave = 0, BusWide = 0, HardwareFlowControl = 0, ClockDiv = 1\<rparr>"

definition sd_init :: "'s sd_hal \<Rightarrow> 's sdcard \<Rightarrow> u8 \<times> 's sdcard" where
  "sd_init hal c =
     (let (SD_Error, s1) = HAL_SD_Init hal sd_settings (sd_hw c)
      in if SD_Error \<noteq> HAL_OK then (1, c\<lparr>sd_hw := s1\<rparr>)
         else
           let (_, info, s2) = HAL_SD_GetCardInfo hal s1;
               (SD_Error2, s3) = HAL_SD_ConfigWideBusOperation hal SDIO_BUS_WIDE_4B s2
           in (if SD_Error2 \<noteq> HAL_OK then 2 else 0, c\<lparr>g_sd_card_info_handle := info, sd_hw := s3\<rparr>))"

definition get_sd_card_info :: "'s sd_hal \<Rightarrow> 's \<Rightarrow> u8 \<times> card_info \<times> 's" where
  "get_sd_card_info hal s = HAL_SD_GetCardInfo hal s"

definition get_sd_card_state :: "'s sd_hal \<Rightarrow> 's \<Rightarrow> u8 \<times> 's" where
  "get_sd_card_state hal s =
     (case HAL_SD_GetCardState hal s of (st, s1) \<Rightarrow> (if st = HAL_SD_CARD_TRANSFER then SD_TRANSFER_OK else SD_TRANSFER_BUSY, s1))"

text \<open>
  The loop that waits for the end of a transfer. The time-out only changes the result: the loop
  goes on until the card is ready.
\<close>

partial_function (option) sd_wait :: "'s sd_hal \<Rightarrow> u8 \<Rightarrow> u32 \<Rightarrow> 's \<Rightarrow> (u8 \<times> 's) option" where
  "sd_wait hal sta timeout s =
     (case get_sd_card_state hal s of (st, s1) \<Rightarrow>
        if st = SD_TRANSFER_OK then Some (sta, s1)
        else sd_wait hal (if timeout = 0 then SD_TRANSFER_BUSY else sta) (timeout - 1) s1)"

declare sd_wait.simps [code]

definition sd_read_disk :: "'s sd_hal \<Rightarrow> u32 \<Rightarrow> u32 \<Rightarrow> 's \<Rightarrow> (u8 \<times> u8 list \<times> 's) option" where
  "sd_read_disk hal saddr cnt s = do {
     let (sta, bs, s1) = HAL_SD_ReadBlocks hal saddr cnt SD_TIMEOUT (sys_intx_disable hal s);
     (sta', s2) \<leftarrow> sd_wait hal sta SD_TIMEOUT s1;
     Some (sta', bs, sys_intx_enable hal s2)
   }"

definition sd_write_disk :: "'s sd_hal \<Rightarrow> u8 list \<Rightarrow> u32 \<Rightarrow> u32 \<Rightarrow> 's \<Rightarrow> (u8 \<times> 's) option" where
  "sd_write_disk hal pbuf saddr cnt s = do {
     let (sta, s1) = HAL_SD_WriteBlocks hal pbuf saddr cnt SD_TIMEOUT (sys_intx_disable hal s);
     (sta', s2) \<leftarrow> sd_wait hal sta SD_TIMEOUT s1;
     Some (sta', sys_intx_enable hal s2)
   }"

section \<open>A card\<close>

text \<open>
  A view of the hardware: the blocks of the card, how many of the next transfers fail, and for how
  many polls the card is still busy.
\<close>

record 's sd_view =
  blocks :: "'s \<Rightarrow> nat \<Rightarrow> u8 list"
  faults :: "'s \<Rightarrow> nat"
  pending :: "'s \<Rightarrow> nat"

definition sd_same :: "'s sd_view \<Rightarrow> 's \<Rightarrow> 's \<Rightarrow> bool" where
  "sd_same v s t \<longleftrightarrow> blocks v t = blocks v s \<and> faults v t = faults v s"

definition sd_state_law :: "'s sd_hal \<Rightarrow> 's sd_view \<Rightarrow> bool" where
  "sd_state_law hal v \<longleftrightarrow>
     (\<forall>s. case HAL_SD_GetCardState hal s of (st, t) \<Rightarrow>
        (st = HAL_SD_CARD_TRANSFER \<longleftrightarrow> pending v s = 0) \<and> pending v t = pending v s - 1 \<and> sd_same v s t)"

text \<open>The mask and the initialisation leave the blocks alone; a restart fails or not.\<close>

definition sd_calm_law :: "'s sd_hal \<Rightarrow> 's sd_view \<Rightarrow> bool" where
  "sd_calm_law hal v \<longleftrightarrow>
     (\<forall>s. sd_same v s (sys_intx_disable hal s) \<and> pending v (sys_intx_disable hal s) = pending v s \<and>
        sd_same v s (sys_intx_enable hal s) \<and> pending v (sys_intx_enable hal s) = pending v s \<and>
        (\<forall>x. sd_same v s (snd (HAL_SD_Init hal x s))) \<and>
        sd_same v s (snd (snd (HAL_SD_GetCardInfo hal s))) \<and>
        (\<forall>w. sd_same v s (snd (HAL_SD_ConfigWideBusOperation hal w s))))"

text \<open>
  A transfer inside the card: one that fails says so, one that does not delivers or stores the
  blocks. A failed write leaves anything in the blocks it was to write. Either way the card is busy
  for less than the time-out.
\<close>

definition sd_read_law :: "'s sd_hal \<Rightarrow> 's sd_view \<Rightarrow> nat \<Rightarrow> bool" where
  "sd_read_law hal v cap \<longleftrightarrow>
     (\<forall>s a n. 0 < n \<longrightarrow> a + n \<le> cap \<longrightarrow>
        (case HAL_SD_ReadBlocks hal (of_nat a) (of_nat n) SD_TIMEOUT s of (sta, bs, t) \<Rightarrow>
           blocks v t = blocks v s \<and> pending v t \<le> unat SD_TIMEOUT \<and> faults v t = faults v s - 1 \<and>
           (if faults v s = 0 then sta = HAL_OK \<and> bs = concat (window (blocks v s) a n)
            else sta \<noteq> HAL_OK \<and> length bs \<le> 512 * n)))"

definition sd_write_law :: "'s sd_hal \<Rightarrow> 's sd_view \<Rightarrow> nat \<Rightarrow> bool" where
  "sd_write_law hal v cap \<longleftrightarrow>
     (\<forall>s a ds bs. ds \<noteq> [] \<longrightarrow> a + length ds \<le> cap \<longrightarrow> (\<forall>d\<in>set ds. length d = 512) \<longrightarrow>
        (case HAL_SD_WriteBlocks hal (concat ds @ bs) (of_nat a) (of_nat (length ds)) SD_TIMEOUT s of (sta, t) \<Rightarrow>
           pending v t \<le> unat SD_TIMEOUT \<and> faults v t = faults v s - 1 \<and>
           (\<forall>x. length (blocks v s x) = 512 \<longrightarrow> length (blocks v t x) = 512) \<and>
           (if faults v s = 0 then sta = HAL_OK \<and> blocks v t = overwrite (blocks v s) a ds
            else sta \<noteq> HAL_OK \<and> (\<forall>x. x < a \<or> a + length ds \<le> x \<longrightarrow> blocks v t x = blocks v s x))))"

definition sd_card :: "'s sd_hal \<Rightarrow> 's sd_view \<Rightarrow> nat \<Rightarrow> bool" where
  "sd_card hal v cap \<longleftrightarrow> cap < 2 ^ 32 \<and> sd_state_law hal v \<and> sd_calm_law hal v \<and> sd_read_law hal v cap \<and> sd_write_law hal v cap"

lemma sd_cardD:
  assumes "sd_card hal v cap"
  shows "cap < 2 ^ 32" "sd_state_law hal v" "sd_calm_law hal v" "sd_read_law hal v cap" "sd_write_law hal v cap"
  using assms by (simp_all add: sd_card_def)

lemma sd_same_trans: "sd_same v s t \<Longrightarrow> sd_same v t u \<Longrightarrow> sd_same v s u"
  by (simp add: sd_same_def)

lemma sd_init_same:
  assumes "sd_calm_law hal v"
  shows "sd_same v (sd_hw c) (sd_hw (snd (sd_init hal c)))"
proof -
  obtain e s1 where s1: "HAL_SD_Init hal sd_settings (sd_hw c) = (e, s1)" by fastforce
  obtain r i s2 where s2: "HAL_SD_GetCardInfo hal s1 = (r, i, s2)" by (metis prod.exhaust)
  obtain e' s3 where s3: "HAL_SD_ConfigWideBusOperation hal SDIO_BUS_WIDE_4B s2 = (e', s3)" by fastforce
  have "sd_same v (sd_hw c) (snd (HAL_SD_Init hal sd_settings (sd_hw c)))" "sd_same v s1 (snd (snd (HAL_SD_GetCardInfo hal s1)))"
    "sd_same v s2 (snd (HAL_SD_ConfigWideBusOperation hal SDIO_BUS_WIDE_4B s2))"
    using assms unfolding sd_calm_law_def by blast+
  then have "sd_same v (sd_hw c) s1" "sd_same v s1 s2" "sd_same v s2 s3" unfolding s1 s2 s3 by simp_all
  then show ?thesis by (simp add: sd_init_def s1 s2 s3 Let_def sd_same_def)
qed

text \<open>The wait ends when the card is ready; the result stays within the time-out.\<close>

lemma sd_wait_ok:
  assumes law: "sd_state_law hal v"
  shows "pending v s \<le> unat timeout \<Longrightarrow> \<exists>t. sd_wait hal sta timeout s = Some (sta, t) \<and> sd_same v s t"
proof (induction "pending v s" arbitrary: s timeout)
  case 0
  obtain st t where t: "HAL_SD_GetCardState hal s = (st, t)" by fastforce
  then have "st = HAL_SD_CARD_TRANSFER" "sd_same v s t" using law 0 by (auto simp: sd_state_law_def split: prod.splits)
  then show ?case by (subst sd_wait.simps) (simp add: get_sd_card_state_def t)
next
  case (Suc k)
  obtain st t where t: "HAL_SD_GetCardState hal s = (st, t)" by fastforce
  then have st: "st \<noteq> HAL_SD_CARD_TRANSFER" "pending v t = k" "sd_same v s t"
    using law Suc.hyps(2) unfolding sd_state_law_def by (auto split: prod.splits)
  have "timeout \<noteq> 0" using Suc.hyps(2) Suc.prems by auto
  then have "unat (timeout - 1) = unat timeout - 1" by (rule unat_minus_one)
  then have "pending v t \<le> unat (timeout - 1)" using Suc.prems Suc.hyps(2) st(2) by simp
  from Suc.hyps(1) [OF st(2) [symmetric] this] obtain u where
    "sd_wait hal sta (timeout - 1) t = Some (sta, u)" "sd_same v t u" by blast
  moreover have "SD_TRANSFER_BUSY \<noteq> SD_TRANSFER_OK" by (simp add: SD_TRANSFER_BUSY_def SD_TRANSFER_OK_def)
  ultimately have "sd_wait hal sta timeout s = Some (sta, u)" "sd_same v s u"
    using st(1) \<open>timeout \<noteq> 0\<close> sd_same_trans [OF st(3), of u]
    unfolding sd_wait.simps [of hal sta timeout s] by (simp_all add: get_sd_card_state_def t)
  then show ?case by blast
qed

lemma sd_read_ok:
  assumes card: "sd_card hal v cap" and "0 < n" and "a + n \<le> cap"
  shows "\<exists>sta bs t. sd_read_disk hal (of_nat a) (of_nat n) s = Some (sta, bs, t) \<and>
    blocks v t = blocks v s \<and> faults v t = faults v s - 1 \<and>
    (if faults v s = 0 then sta = 0 \<and> bs = concat (window (blocks v s) a n) else sta \<noteq> 0 \<and> length bs \<le> 512 * n)"
proof -
  note laws = sd_cardD [OF card]
  let ?s = "sys_intx_disable hal s"
  have s: "sd_same v s ?s" using laws(3) by (simp add: sd_calm_law_def)
  obtain sta bs t where t: "HAL_SD_ReadBlocks hal (of_nat a) (of_nat n) SD_TIMEOUT ?s = (sta, bs, t)" by (metis prod.exhaust)
  have tl: "blocks v t = blocks v ?s" "pending v t \<le> unat SD_TIMEOUT" "faults v t = faults v ?s - 1"
    "if faults v ?s = 0 then sta = HAL_OK \<and> bs = concat (window (blocks v ?s) a n) else sta \<noteq> HAL_OK \<and> length bs \<le> 512 * n"
    using laws(4) assms(2,3) t unfolding sd_read_law_def by (force split: prod.splits)+
  from sd_wait_ok [OF laws(2) tl(2), of sta] obtain u where
    u: "sd_wait hal sta SD_TIMEOUT t = Some (sta, u)" "sd_same v t u" by blast
  have "sd_same v u (sys_intx_enable hal u)" using laws(3) by (simp add: sd_calm_law_def)
  then show ?thesis
    using s t tl u by (auto simp: sd_read_disk_def sd_same_def HAL_OK_def split: if_splits)
qed

lemma sd_write_ok:
  assumes card: "sd_card hal v cap" and "ds \<noteq> []" and "a + length ds \<le> cap" and "\<forall>d\<in>set ds. length d = 512"
  shows "\<exists>sta t. sd_write_disk hal (concat ds @ bs) (of_nat a) (of_nat (length ds)) s = Some (sta, t) \<and>
    faults v t = faults v s - 1 \<and> (\<forall>x. length (blocks v s x) = 512 \<longrightarrow> length (blocks v t x) = 512) \<and>
    (if faults v s = 0 then sta = 0 \<and> blocks v t = overwrite (blocks v s) a ds
     else sta \<noteq> 0 \<and> (\<forall>x. x < a \<or> a + length ds \<le> x \<longrightarrow> blocks v t x = blocks v s x))"
proof -
  note laws = sd_cardD [OF card]
  let ?s = "sys_intx_disable hal s"
  have s: "sd_same v s ?s" using laws(3) by (simp add: sd_calm_law_def)
  obtain sta t where t: "HAL_SD_WriteBlocks hal (concat ds @ bs) (of_nat a) (of_nat (length ds)) SD_TIMEOUT ?s = (sta, t)" by fastforce
  have tl: "pending v t \<le> unat SD_TIMEOUT" "faults v t = faults v ?s - 1"
    "\<forall>x. length (blocks v ?s x) = 512 \<longrightarrow> length (blocks v t x) = 512"
    "if faults v ?s = 0 then sta = HAL_OK \<and> blocks v t = overwrite (blocks v ?s) a ds
     else sta \<noteq> HAL_OK \<and> (\<forall>x. x < a \<or> a + length ds \<le> x \<longrightarrow> blocks v t x = blocks v ?s x)"
    using laws(5) assms(2-4) t unfolding sd_write_law_def by (force split: prod.splits)+
  from sd_wait_ok [OF laws(2) tl(1), of sta] obtain u where
    u: "sd_wait hal sta SD_TIMEOUT t = Some (sta, u)" "sd_same v t u" by blast
  have "sd_same v u (sys_intx_enable hal u)" using laws(3) by (simp add: sd_calm_law_def)
  then show ?thesis
    using s t tl u by (auto simp: sd_write_disk_def sd_same_def HAL_OK_def split: if_splits)
qed

end
