(* ===== verification/Disk.thy ===== *)
theory Disk
  imports Norflash Ftl_Sectors Sdcard
begin

text \<open>
  The disk layer \<open>diskio.c\<close> between the file system and the three drives: the SD card, the first part
  of the NOR flash, and the NAND flash behind the translation layer.
\<close>

record ('n, 'f, 's) board =
  spi5_dev :: "'n spi5"
  fmc_dev :: "'f fmc"
  sdio_dev :: "'s sd_hal"

record ('n, 'f, 's) disks =
  flash_disk :: "'n norflash"
  nand_disk :: "'f ftl"
  sd_disk :: "'s sdcard"

definition SD_CARD :: u8 where "SD_CARD = 0"
definition EX_FLASH :: u8 where "EX_FLASH = 1"
definition EX_NAND :: u8 where "EX_NAND = 2"
definition SPI_FLASH_SECTOR_SIZE :: u32 where "SPI_FLASH_SECTOR_SIZE = 512"
definition SPI_FLASH_SECTOR_COUNT :: u32 where "SPI_FLASH_SECTOR_COUNT = 25 * 1024 * 2"
definition SPI_FLASH_BLOCK_SIZE :: u32 where "SPI_FLASH_BLOCK_SIZE = 8"
definition SPI_FLASH_FATFS_BASE :: u32 where "SPI_FLASH_FATFS_BASE = 0"

datatype dresult = RES_OK | RES_ERROR | RES_WRPRT | RES_NOTRDY | RES_PARERR

definition STA_NOINIT :: u8 where "STA_NOINIT = 1"

definition disk_status :: "u8 \<Rightarrow> u8" where "disk_status pdrv = 0"

definition disk_initialize ::
  "('n, 'f, 's) board \<Rightarrow> u8 \<Rightarrow> ('n, 'f, 's) disks \<Rightarrow> u8 \<times> ('n, 'f, 's) disks" where
  "disk_initialize b pdrv d =
     (let (res, d') =
        (if pdrv = SD_CARD then
           case sd_init (sdio_dev b) (sd_disk d) of (res, c) \<Rightarrow> (res, d\<lparr>sd_disk := c\<rparr>)
         else if pdrv = EX_FLASH then (0, d\<lparr>flash_disk := norflash_init (spi5_dev b) (flash_disk d)\<rparr>)
         else if pdrv = EX_NAND then
           case nand_init (fmc_dev b) (dev (nand_disk d)) of (res, n) \<Rightarrow> (res, d\<lparr>nand_disk := (nand_disk d)\<lparr>dev := n\<rparr>\<rparr>)
         else (1, d))
      in (if res \<noteq> 0 then STA_NOINIT else 0, d'))"

section \<open>Reading\<close>

text \<open>The repetition of a failed transfer; the bytes are those stored to the buffer so far.\<close>

partial_function (option) sd_read_again ::
  "'s sd_hal \<Rightarrow> u32 \<Rightarrow> u32 \<Rightarrow> u8 \<Rightarrow> u8 list \<Rightarrow> 's sdcard \<Rightarrow> (u8 list \<times> 's sdcard) option" where
  "sd_read_again hal sector count res bs c =
     (if res = 0 then Some (bs, c)
      else do {
        let c1 = snd (sd_init hal c);
        (res', cs, s) \<leftarrow> sd_read_disk hal sector count (sd_hw c1);
        sd_read_again hal sector count res' (stored cs bs) (c1\<lparr>sd_hw := s\<rparr>)
      })"

declare sd_read_again.simps [code]

fun nor_read_sectors :: "'n spi5 \<Rightarrow> nat \<Rightarrow> u32 \<Rightarrow> 'n norflash \<Rightarrow> u8 list \<times> 'n norflash" where
  "nor_read_sectors spi 0 sector n = ([], n)"
| "nor_read_sectors spi (Suc k) sector n =
     (let (bs, s) = norflash_read spi (g_norflash_type n)
            (SPI_FLASH_FATFS_BASE + sector * SPI_FLASH_SECTOR_SIZE) (ucast SPI_FLASH_SECTOR_SIZE) (hw n);
          (cs, n') = nor_read_sectors spi k (sector + 1) (n\<lparr>hw := s\<rparr>)
      in (bs @ cs, n'))"

definition disk_read ::
  "('n, 'f, 's) board \<Rightarrow> u8 \<Rightarrow> u32 \<Rightarrow> u32 \<Rightarrow> ('n, 'f, 's) disks \<Rightarrow> (dresult \<times> u8 list \<times> ('n, 'f, 's) disks) option" where
  "disk_read b pdrv sector count d =
     (if count = 0 then Some (RES_PARERR, [], d)
      else if pdrv = SD_CARD then do {
        (res, bs, s) \<leftarrow> sd_read_disk (sdio_dev b) sector count (sd_hw (sd_disk d));
        (cs, c) \<leftarrow> sd_read_again (sdio_dev b) sector count res bs ((sd_disk d)\<lparr>sd_hw := s\<rparr>);
        Some (RES_OK, cs, d\<lparr>sd_disk := c\<rparr>)
      }
      else if pdrv = EX_FLASH then
        (let (bs, n) = nor_read_sectors (spi5_dev b) (unat count) sector (flash_disk d)
         in Some (RES_OK, bs, d\<lparr>flash_disk := n\<rparr>))
      else if pdrv = EX_NAND then do {
        (res, bs, f) \<leftarrow> ftl_read_sectors (fmc_dev b) sector 512 count (nand_disk d);
        Some (if res = 0 then RES_OK else RES_ERROR, bs, d\<lparr>nand_disk := f\<rparr>)
      }
      else Some (RES_ERROR, [], d))"

section \<open>Writing\<close>

partial_function (option) sd_write_again ::
  "'s sd_hal \<Rightarrow> u8 list \<Rightarrow> u32 \<Rightarrow> u32 \<Rightarrow> u8 \<Rightarrow> 's sdcard \<Rightarrow> 's sdcard option" where
  "sd_write_again hal buff sector count res c =
     (if res = 0 then Some c
      else do {
        let c1 = snd (sd_init hal c);
        (res', s) \<leftarrow> sd_write_disk hal buff sector count (sd_hw c1);
        sd_write_again hal buff sector count res' (c1\<lparr>sd_hw := s\<rparr>)
      })"

declare sd_write_again.simps [code]

fun nor_write_sectors :: "'n spi5 \<Rightarrow> nat \<Rightarrow> u8 list \<Rightarrow> u32 \<Rightarrow> 'n norflash \<Rightarrow> 'n norflash option" where
  "nor_write_sectors spi 0 buff sector n = Some n"
| "nor_write_sectors spi (Suc k) buff sector n = do {
     n' \<leftarrow> norflash_write spi buff (SPI_FLASH_FATFS_BASE + sector * SPI_FLASH_SECTOR_SIZE) (ucast SPI_FLASH_SECTOR_SIZE) n;
     nor_write_sectors spi k (drop (unat SPI_FLASH_SECTOR_SIZE) buff) (sector + 1) n'
   }"

definition disk_write ::
  "('n, 'f, 's) board \<Rightarrow> u8 \<Rightarrow> u8 list \<Rightarrow> u32 \<Rightarrow> u32 \<Rightarrow> ('n, 'f, 's) disks \<Rightarrow> (dresult \<times> ('n, 'f, 's) disks) option" where
  "disk_write b pdrv buff sector count d =
     (if count = 0 then Some (RES_PARERR, d)
      else if pdrv = SD_CARD then do {
        (res, s) \<leftarrow> sd_write_disk (sdio_dev b) buff sector count (sd_hw (sd_disk d));
        c \<leftarrow> sd_write_again (sdio_dev b) buff sector count res ((sd_disk d)\<lparr>sd_hw := s\<rparr>);
        Some (RES_OK, d\<lparr>sd_disk := c\<rparr>)
      }
      else if pdrv = EX_FLASH then do {
        n \<leftarrow> nor_write_sectors (spi5_dev b) (unat count) buff sector (flash_disk d);
        Some (RES_OK, d\<lparr>flash_disk := n\<rparr>)
      }
      else if pdrv = EX_NAND then do {
        (res, f) \<leftarrow> ftl_write_sectors (fmc_dev b) buff sector 512 count (nand_disk d);
        Some (if res = 0 then RES_OK else RES_ERROR, d\<lparr>nand_disk := f\<rparr>)
      }
      else Some (RES_ERROR, d))"

section \<open>Parameters of the drives\<close>

datatype ioctl = CTRL_SYNC | GET_SECTOR_COUNT | GET_SECTOR_SIZE | GET_BLOCK_SIZE | Other_ctrl

definition ioctl_of :: "u8 \<Rightarrow> ioctl" where
  "ioctl_of cmd = (if cmd = 0 then CTRL_SYNC else if cmd = 1 then GET_SECTOR_COUNT
     else if cmd = 2 then GET_SECTOR_SIZE else if cmd = 3 then GET_BLOCK_SIZE else Other_ctrl)"

text \<open>
  The product of three numbers of 16 bits is computed with the sign: \<open>None\<close> when it overflows.
\<close>

definition int_product :: "int \<Rightarrow> int \<Rightarrow> int option" where
  "int_product x y = (if x * y < 2 ^ 31 then Some (x * y) else None)"

definition nand_sectors :: "'f nand \<Rightarrow> u32 option" where
  "nand_sectors n = do {
     p \<leftarrow> int_product (uint (valid_blocknum n)) (uint (block_pagenum n));
     q \<leftarrow> int_product p (uint (page_mainsize n));
     Some (word_of_int (q div 512))
   }"

text \<open>The result and the bytes stored through the pointer: two for a WORD, four for a DWORD.\<close>

definition disk_ioctl :: "u8 \<Rightarrow> u8 \<Rightarrow> ('n, 'f, 's) disks \<Rightarrow> (dresult \<times> u8 list) option" where
  "disk_ioctl pdrv cmd d =
     (if pdrv = SD_CARD then
        (case ioctl_of cmd of
           CTRL_SYNC \<Rightarrow> Some (RES_OK, [])
         | GET_SECTOR_SIZE \<Rightarrow> Some (RES_OK, code_bytes 4 512)
         | GET_BLOCK_SIZE \<Rightarrow> Some (RES_OK, code_bytes 2 (LogBlockSize (g_sd_card_info_handle (sd_disk d))))
         | GET_SECTOR_COUNT \<Rightarrow> Some (RES_OK, code_bytes 4 (LogBlockNbr (g_sd_card_info_handle (sd_disk d))))
         | Other_ctrl \<Rightarrow> Some (RES_PARERR, []))
      else if pdrv = EX_FLASH then
        (case ioctl_of cmd of
           CTRL_SYNC \<Rightarrow> Some (RES_OK, [])
         | GET_SECTOR_SIZE \<Rightarrow> Some (RES_OK, code_bytes 2 SPI_FLASH_SECTOR_SIZE)
         | GET_BLOCK_SIZE \<Rightarrow> Some (RES_OK, code_bytes 2 SPI_FLASH_BLOCK_SIZE)
         | GET_SECTOR_COUNT \<Rightarrow> Some (RES_OK, code_bytes 4 SPI_FLASH_SECTOR_COUNT)
         | Other_ctrl \<Rightarrow> Some (RES_PARERR, []))
      else if pdrv = EX_NAND then
        (case ioctl_of cmd of
           CTRL_SYNC \<Rightarrow> Some (RES_OK, [])
         | GET_SECTOR_SIZE \<Rightarrow> Some (RES_OK, code_bytes 2 512)
         | GET_BLOCK_SIZE \<Rightarrow> Some (RES_OK, code_bytes 2 (ucast (page_mainsize (dev (nand_disk d)) div 512)))
         | GET_SECTOR_COUNT \<Rightarrow> map_option (\<lambda>n. (RES_OK, code_bytes 4 n)) (nand_sectors (dev (nand_disk d)))
         | Other_ctrl \<Rightarrow> Some (RES_PARERR, []))
      else Some (RES_ERROR, []))"

end
