(* ===== verification/Disk_Arrays.thy ===== *)
theory Disk_Arrays
  imports Disk
begin

text \<open>
  The three drives of the disk layer as arrays of sectors of 512 bytes, independent of one another:
  the laws of the SPI flash, of the NAND chip and of the card, and the theorems on their drivers,
  give the contract of a family of stores. Transfers of the card that fail are repeated until one
  succeeds.
\<close>

record ('n, 'f, 's) board_view =
  flash_view :: "'n chip_view"
  flash_size :: nat
  fmc_view :: "'f nand_view"
  code_unit :: "u8 list \<Rightarrow> u32"
  card_view :: "'s sd_view"
  card_size :: nat

section \<open>Repeated transfers\<close>

lemma sd_read_again_ok:
  assumes card: "sd_card hal v cap" and n: "0 < n" "a + n \<le> cap"
    and sec: "\<forall>x. a \<le> x \<and> x < a + n \<longrightarrow> length (B x) = 512"
  shows "blocks v (sd_hw c) = B \<Longrightarrow> length bs \<le> 512 * n \<Longrightarrow> (res = 0 \<longrightarrow> bs = concat (window B a n)) \<Longrightarrow>
    \<exists>c'. sd_read_again hal (of_nat a) (of_nat n) res bs c = Some (concat (window B a n), c') \<and> blocks v (sd_hw c') = B"
proof (induction "faults v (sd_hw c)" arbitrary: c bs res rule: less_induct)
  case less
  show ?case
  proof (cases "res = 0")
    case True
    then show ?thesis using less.prems by (subst sd_read_again.simps) simp
  next
    case False
    let ?c = "snd (sd_init hal c)"
    have s: "blocks v (sd_hw ?c) = B" "faults v (sd_hw ?c) = faults v (sd_hw c)"
      using sd_init_same [OF sd_cardD(3) [OF card], of c] less.prems(1) by (simp_all add: sd_same_def)
    have len: "length (concat (window B a n)) = 512 * n"
      using sectors_of_concat(1) [of "window B a n"] sec by (auto simp: window_def)
    from sd_read_ok [OF card n, of "sd_hw ?c"] obtain sta cs t where
      r: "sd_read_disk hal (of_nat a) (of_nat n) (sd_hw ?c) = Some (sta, cs, t)" "blocks v t = B"
      "faults v t = faults v (sd_hw c) - 1"
      "if faults v (sd_hw c) = 0 then sta = 0 \<and> cs = concat (window B a n) else sta \<noteq> 0 \<and> length cs \<le> 512 * n"
      unfolding s by blast
    let ?c1 = "?c\<lparr>sd_hw := t\<rparr>"
    have step: "sd_read_again hal (of_nat a) (of_nat n) res bs c = sd_read_again hal (of_nat a) (of_nat n) sta (stored cs bs) ?c1"
      using False r(1) by (subst sd_read_again.simps) (simp add: Let_def)
    show ?thesis
    proof (cases "faults v (sd_hw c) = 0")
      case True
      then have ok: "sta = 0" "cs = concat (window B a n)" using r(4) by simp_all
      then have "stored cs bs = concat (window B a n)" using len less.prems(2) by (simp add: stored_def)
      then show ?thesis unfolding step using ok(1) r(2) by (subst sd_read_again.simps) simp
    next
      case False
      have "length (stored cs bs) \<le> 512 * n" using r(4) False less.prems(2) by (auto simp: stored_def)
      moreover have "sta = 0 \<longrightarrow> stored cs bs = concat (window B a n)" using r(4) False by simp
      ultimately show ?thesis unfolding step using False r(2,3) by (intro less.hyps) simp_all
    qed
  qed
qed

lemma sd_write_again_ok:
  assumes card: "sd_card hal v cap" and ds: "ds \<noteq> []" "a + length ds \<le> cap" "\<forall>d\<in>set ds. length d = 512"
  shows "\<forall>x. x < a \<or> a + length ds \<le> x \<longrightarrow> blocks v (sd_hw c) x = B x \<Longrightarrow>
    (res = 0 \<longrightarrow> blocks v (sd_hw c) = overwrite B a ds) \<Longrightarrow>
    \<exists>c'. sd_write_again hal (concat ds) (of_nat a) (of_nat (length ds)) res c = Some c' \<and> blocks v (sd_hw c') = overwrite B a ds"
proof (induction "faults v (sd_hw c)" arbitrary: c res rule: less_induct)
  case less
  show ?case
  proof (cases "res = 0")
    case True
    then show ?thesis using less.prems by (subst sd_write_again.simps) simp
  next
    case False
    let ?c = "snd (sd_init hal c)"
    have s: "blocks v (sd_hw ?c) = blocks v (sd_hw c)" "faults v (sd_hw ?c) = faults v (sd_hw c)"
      using sd_init_same [OF sd_cardD(3) [OF card], of c] by (simp_all add: sd_same_def)
    from sd_write_ok [OF card ds, of "[]" "sd_hw ?c"] obtain sta t where
      r: "sd_write_disk hal (concat ds) (of_nat a) (of_nat (length ds)) (sd_hw ?c) = Some (sta, t)"
      "faults v t = faults v (sd_hw c) - 1"
      "if faults v (sd_hw c) = 0 then sta = 0 \<and> blocks v t = overwrite (blocks v (sd_hw c)) a ds
       else sta \<noteq> 0 \<and> (\<forall>x. x < a \<or> a + length ds \<le> x \<longrightarrow> blocks v t x = blocks v (sd_hw c) x)"
      unfolding s by auto
    let ?c1 = "?c\<lparr>sd_hw := t\<rparr>"
    have step: "sd_write_again hal (concat ds) (of_nat a) (of_nat (length ds)) res c =
        sd_write_again hal (concat ds) (of_nat a) (of_nat (length ds)) sta ?c1"
      using False r(1) by (subst sd_write_again.simps) (simp add: Let_def)
    show ?thesis
    proof (cases "faults v (sd_hw c) = 0")
      case True
      then have "sta = 0" "blocks v t = overwrite B a ds"
        using r(3) less.prems(1) by (auto simp: overwrite_def fun_eq_iff)
      then show ?thesis unfolding step by (subst sd_write_again.simps) simp
    next
      case False
      then show ?thesis unfolding step using r(2,3) less.prems(1) by (intro less.hyps) auto
    qed
  qed
qed

section \<open>Sectors of the SPI flash\<close>

definition nor_sector :: "(nat \<Rightarrow> u8) \<Rightarrow> nat \<Rightarrow> u8 list" where
  "nor_sector f x = window f (512 * x) 512"

lemma length_nor_sector [simp]: "length (nor_sector f x) = 512"
  by (simp add: nor_sector_def)

lemma sector_address: "SPI_FLASH_FATFS_BASE + of_nat a * SPI_FLASH_SECTOR_SIZE = of_nat (512 * a)"
  "ucast SPI_FLASH_SECTOR_SIZE = (512 :: u16)" "unat SPI_FLASH_SECTOR_SIZE = 512"
  by (simp_all add: SPI_FLASH_FATFS_BASE_def SPI_FLASH_SECTOR_SIZE_def)

lemma nor_sector_overwrite:
  assumes "\<forall>d\<in>set ds. length d = 512"
  shows "nor_sector (overwrite f (512 * a) (concat ds)) = overwrite (nor_sector f) a ds"
proof
  fix x
  note cat = sectors_of_concat [OF assms]
  show "nor_sector (overwrite f (512 * a) (concat ds)) x = overwrite (nor_sector f) a ds x"
  proof (cases "a \<le> x \<and> x < a + length ds")
    case True
    then have "512 * Suc x \<le> 512 * (a + length ds)" by (intro mult_le_mono2) simp
    then have "window (overwrite f (512 * a) (concat ds)) (512 * x) 512 = take 512 (drop (512 * x - 512 * a) (concat ds))"
      using True cat(1) by (intro window_of_overwrite) auto
    also have "512 * x - 512 * a = 512 * (x - a)" by simp
    finally have "nor_sector (overwrite f (512 * a) (concat ds)) x = ds ! (x - a)"
      using True cat(2) [of "x - a"] by (auto simp: nor_sector_def buf_sector_def)
    then show ?thesis using True by (simp add: overwrite_def)
  next
    case False
    then have "Suc x \<le> a \<or> a + length ds \<le> x" by auto
    then have "512 * x + 512 \<le> 512 * a \<or> 512 * a + length (concat ds) \<le> 512 * x"
      unfolding cat(1) by auto
    then have "nor_sector (overwrite f (512 * a) (concat ds)) x = nor_sector f x"
      unfolding nor_sector_def by (rule window_apart)
    then show ?thesis using False by (auto simp: overwrite_def)
  qed
qed

lemma nor_read_sectors_ok:
  assumes chip: "nor_chip spi v type cap"
  shows "busy v (hw n) = 0 \<Longrightarrow> g_norflash_type n = type \<Longrightarrow> 512 * (a + k) \<le> cap \<Longrightarrow>
    \<exists>s. nor_read_sectors spi k (of_nat a) n = (concat (window (nor_sector (flash v (hw n))) a k), n\<lparr>hw := s\<rparr>) \<and>
      busy v s = 0 \<and> flash v s = flash v (hw n)"
proof (induction k arbitrary: a n)
  case 0
  then show ?case by (intro exI [of _ "hw n"]) (simp add: window_def)
next
  case (Suc k)
  have u: "unat (512 :: u16) = 512" by simp
  from read_ok [OF chip Suc.prems(1), of "512 * a" 512] Suc.prems(3) obtain s where
    s: "norflash_read spi type (of_nat (512 * a)) 512 (hw n) = (nor_sector (flash v (hw n)) a, s)" "busy v s = 0"
    "flash v s = flash v (hw n)" unfolding u nor_sector_def by auto
  from Suc.IH [of "n\<lparr>hw := s\<rparr>" "Suc a"] Suc.prems(2,3) s obtain t where
    t: "nor_read_sectors spi k (of_nat a + 1) (n\<lparr>hw := s\<rparr>) =
      (concat (window (nor_sector (flash v (hw n))) (Suc a) k), n\<lparr>hw := t\<rparr>)" "busy v t = 0" "flash v t = flash v (hw n)"
    by (auto simp: add.commute)
  then show ?case using s(1) Suc.prems(2)
    by (intro exI [of _ t]) (simp add: sector_address window_Suc split_beta del: of_nat_mult)
qed

lemma nor_write_sectors_ok:
  assumes chip: "nor_chip spi v type cap"
  shows "busy v (hw n) = 0 \<Longrightarrow> g_norflash_type n = type \<Longrightarrow> 512 * (a + k) \<le> cap \<Longrightarrow> 512 * k \<le> length bs \<Longrightarrow>
    \<exists>n'. nor_write_sectors spi k bs (of_nat a) n = Some n' \<and> busy v (hw n') = 0 \<and> g_norflash_type n' = type \<and>
      flash v (hw n') = overwrite (flash v (hw n)) (512 * a) (take (512 * k) bs)"
proof (induction k arbitrary: a n bs)
  case 0
  then show ?case by simp
next
  case (Suc k)
  have u: "(of_nat 512 :: u16) = 512" by simp
  from norflash_write_part [of spi v n cap 512 "512 * a" bs, unfolded u] chip Suc.prems obtain n1 where
    n1: "norflash_write spi bs (of_nat (512 * a)) 512 n = Some n1" "busy v (hw n1) = 0" "g_norflash_type n1 = type"
    "flash v (hw n1) = overwrite (flash v (hw n)) (512 * a) (take 512 bs)" by auto
  have "512 * (Suc a + k) \<le> cap" "512 * k \<le> length (drop 512 bs)" using Suc.prems(3,4) by simp_all
  from Suc.IH [OF n1(2,3) this] obtain n2 where
    n2: "nor_write_sectors spi k (drop 512 bs) (of_nat a + 1) n1 = Some n2" "busy v (hw n2) = 0" "g_norflash_type n2 = type"
    "flash v (hw n2) = overwrite (flash v (hw n1)) (512 * a + 512) (take (512 * k) (drop 512 bs))"
    by (auto simp: add.commute)
  have "length (take 512 bs) = 512" "take 512 bs @ take (512 * k) (drop 512 bs) = take (512 * Suc k) bs"
    using Suc.prems(4) by (simp_all add: take_add [symmetric])
  then have "flash v (hw n2) = overwrite (flash v (hw n)) (512 * a) (take (512 * Suc k) bs)"
    using n2(4) n1(4) overwrite_append [of "flash v (hw n)" "512 * a" "take 512 bs" "take (512 * k) (drop 512 bs)"] by simp
  moreover have "nor_write_sectors spi (Suc k) bs (of_nat a) n = Some n2"
    unfolding nor_write_sectors.simps sector_address n1(1) Option.bind.bind_lunit using n2(1) .
  ultimately show ?case using n2(2,3) by blast
qed

section \<open>The drives\<close>

definition disk_capacity :: "('n, 'f, 's) board_view \<Rightarrow> u8 \<Rightarrow> ('n, 'f, 's) disks \<Rightarrow> nat" where
  "disk_capacity w p d =
     (if p = SD_CARD then card_size w else if p = EX_FLASH then unat SPI_FLASH_SECTOR_COUNT
      else if p = EX_NAND then ftl_capacity (dev (nand_disk d)) else 0)"

definition disk_content :: "('n, 'f, 's) board_view \<Rightarrow> u8 \<Rightarrow> ('n, 'f, 's) disks \<Rightarrow> nat \<Rightarrow> u8 list" where
  "disk_content w p d =
     (if p = SD_CARD then blocks (card_view w) (sd_hw (sd_disk d))
      else if p = EX_FLASH then nor_sector (flash (flash_view w) (hw (flash_disk d)))
      else if p = EX_NAND then ftl_content (fmc_view w) (dev (nand_disk d)) else (\<lambda>_. []))"

definition disk_valid :: "('n, 'f, 's) board \<Rightarrow> ('n, 'f, 's) board_view \<Rightarrow> ('n, 'f, 's) disks \<Rightarrow> bool" where
  "disk_valid b w d \<longleftrightarrow>
     nor_chip (spi5_dev b) (flash_view w) (g_norflash_type (flash_disk d)) (flash_size w) \<and>
     busy (flash_view w) (hw (flash_disk d)) = 0 \<and> 512 * unat SPI_FLASH_SECTOR_COUNT \<le> flash_size w \<and>
     ftl_valid (fmc_dev b) (fmc_view w) (code_unit w) (nand_disk d) \<and>
     sd_card (sdio_dev b) (card_view w) (card_size w) \<and>
     (\<forall>x<card_size w. length (blocks (card_view w) (sd_hw (sd_disk d)) x) = 512)"

definition disk_storable :: "u8 \<Rightarrow> u8 list \<Rightarrow> bool" where
  "disk_storable p s \<longleftrightarrow> length s = 512 \<and> (p = EX_NAND \<longrightarrow> s \<noteq> blank_sector)"

definition disk_fetch ::
  "('n, 'f, 's) board \<Rightarrow> u8 \<Rightarrow> nat \<Rightarrow> nat \<Rightarrow> ('n, 'f, 's) disks \<Rightarrow> (u8 list list \<times> ('n, 'f, 's) disks) option" where
  "disk_fetch b p a m d = (case disk_read b p (of_nat a) (of_nat m) d of
     Some (res, bs, d') \<Rightarrow> if res = RES_OK then Some (map (buf_sector bs) [0..<m], d') else None
   | None \<Rightarrow> None)"

definition disk_store ::
  "('n, 'f, 's) board \<Rightarrow> u8 \<Rightarrow> nat \<Rightarrow> u8 list list \<Rightarrow> ('n, 'f, 's) disks \<Rightarrow> ('n, 'f, 's) disks option" where
  "disk_store b p a ds d = (case disk_write b p (concat ds) (of_nat a) (of_nat (length ds)) d of
     Some (res, d') \<Rightarrow> if res = RES_OK then Some d' else None
   | None \<Rightarrow> None)"

lemma drive_numbers [simp]:
  "SD_CARD \<noteq> EX_FLASH" "SD_CARD \<noteq> EX_NAND" "EX_FLASH \<noteq> EX_NAND" "EX_FLASH \<noteq> SD_CARD" "EX_NAND \<noteq> SD_CARD" "EX_NAND \<noteq> EX_FLASH"
  by (simp_all add: SD_CARD_def EX_FLASH_def EX_NAND_def)

lemma disk_read_ok:
  assumes ok: "disk_valid b w d" and n: "0 < n" "n < 2 ^ 32" and a: "a + n \<le> disk_capacity w p d"
  shows "\<exists>d'. disk_read b p (of_nat a) (of_nat n) d = Some (RES_OK, concat (window (disk_content w p d) a n), d') \<and>
    disk_valid b w d' \<and> (\<forall>q. disk_capacity w q d' = disk_capacity w q d \<and> disk_content w q d' = disk_content w q d)"
proof -
  note v = ok [unfolded disk_valid_def]
  have nu: "unat (of_nat n :: u32) = n" using n(2) by (intro unat_of_nat_small) simp
  have nz: "(of_nat n :: u32) \<noteq> 0" using n(1) nu by (metis neq0_conv unat_0)
  consider "p = SD_CARD" | "p = EX_FLASH" | "p = EX_NAND" using a n(1) by (auto simp: disk_capacity_def split: if_splits)
  then show ?thesis
  proof cases
    case 1
    let ?B = "blocks (card_view w) (sd_hw (sd_disk d))"
    have card: "sd_card (sdio_dev b) (card_view w) (card_size w)" using v by simp
    have a': "a + n \<le> card_size w" using a 1 by (simp add: disk_capacity_def)
    have sec: "\<forall>x. a \<le> x \<and> x < a + n \<longrightarrow> length (?B x) = 512" using v a' by simp
    from sd_read_ok [OF card n(1) a', of "sd_hw (sd_disk d)"] obtain res bs t where
      t: "sd_read_disk (sdio_dev b) (of_nat a) (of_nat n) (sd_hw (sd_disk d)) = Some (res, bs, t)" "blocks (card_view w) t = ?B"
      "if faults (card_view w) (sd_hw (sd_disk d)) = 0 then res = 0 \<and> bs = concat (window ?B a n) else res \<noteq> 0 \<and> length bs \<le> 512 * n"
      by blast
    have "length (concat (window ?B a n)) = 512 * n"
      using sectors_of_concat(1) [of "window ?B a n"] sec by (auto simp: window_def)
    then have "length bs \<le> 512 * n" "res = 0 \<longrightarrow> bs = concat (window ?B a n)" using t(3) by (auto split: if_splits)
    from sd_read_again_ok [OF card n(1) a' sec _ this, of "(sd_disk d)\<lparr>sd_hw := t\<rparr>"] t(2) obtain c where
      c: "sd_read_again (sdio_dev b) (of_nat a) (of_nat n) res bs ((sd_disk d)\<lparr>sd_hw := t\<rparr>) = Some (concat (window ?B a n), c)"
      "blocks (card_view w) (sd_hw c) = ?B" by auto
    have "disk_read b p (of_nat a) (of_nat n) d = Some (RES_OK, concat (window (disk_content w p d) a n), d\<lparr>sd_disk := c\<rparr>)"
      using nz 1 t(1) c(1) by (simp add: disk_read_def disk_content_def)
    then show ?thesis using v c(2)
      by (auto simp: disk_valid_def disk_capacity_def disk_content_def)
  next
    case 2
    have chip: "nor_chip (spi5_dev b) (flash_view w) (g_norflash_type (flash_disk d)) (flash_size w)"
      and idle: "busy (flash_view w) (hw (flash_disk d)) = 0" using v by simp_all
    have "512 * (a + n) \<le> 512 * unat SPI_FLASH_SECTOR_COUNT"
      using a 2 by (intro mult_le_mono2) (simp add: disk_capacity_def)
    also have "\<dots> \<le> flash_size w" using v by simp
    finally obtain s where s: "nor_read_sectors (spi5_dev b) n (of_nat a) (flash_disk d) =
        (concat (window (nor_sector (flash (flash_view w) (hw (flash_disk d)))) a n), (flash_disk d)\<lparr>hw := s\<rparr>)"
      "busy (flash_view w) s = 0" "flash (flash_view w) s = flash (flash_view w) (hw (flash_disk d))"
      using nor_read_sectors_ok [OF chip idle] by blast
    then have "disk_read b p (of_nat a) (of_nat n) d =
        Some (RES_OK, concat (window (disk_content w p d) a n), d\<lparr>flash_disk := (flash_disk d)\<lparr>hw := s\<rparr>\<rparr>)"
      using nz 2 nu by (simp add: disk_read_def disk_content_def)
    then show ?thesis using v s(2,3)
      by (auto simp: disk_valid_def disk_capacity_def disk_content_def)
  next
    case 3
    have f: "ecc_law (code_unit w)" "ftl_ok (fmc_dev b) (fmc_view w) (code_unit w) (dev (nand_disk d))"
      using v by (simp_all add: ftl_valid_def)
    have "a + n \<le> ftl_capacity (dev (nand_disk d))" using a 3 by (simp add: disk_capacity_def)
    from read_sectors_ok [OF f n(2) this] obtain n' where
      n': "ftl_read_sectors (fmc_dev b) (of_nat a) 512 (of_nat n) (nand_disk d) =
        Some (0, concat (window (ftl_content (fmc_view w) (dev (nand_disk d))) a n), (nand_disk d)\<lparr>dev := n'\<rparr>)"
      "looked (fmc_view w) (dev (nand_disk d)) n'" by blast
    then have "disk_read b p (of_nat a) (of_nat n) d =
        Some (RES_OK, concat (window (disk_content w p d) a n), d\<lparr>nand_disk := (nand_disk d)\<lparr>dev := n'\<rparr>\<rparr>)"
      using nz 3 by (simp add: disk_read_def disk_content_def)
    then show ?thesis using v looked_table [OF n'(2)] looked_ftl [OF f(2) n'(2)]
      by (auto simp: disk_valid_def disk_capacity_def disk_content_def ftl_valid_def)
  qed
qed

lemma overwrite_lengths:
  "\<forall>x<cap. length (B x) = 512 \<Longrightarrow> \<forall>d\<in>set ds. length d = 512 \<Longrightarrow> \<forall>x<cap. length (overwrite B a ds x) = 512"
  by (auto simp: overwrite_def)

lemma disk_write_ok:
  assumes ok: "disk_valid b w d" and ds: "ds \<noteq> []" "length ds \<le> 65535" and a: "a + length ds \<le> disk_capacity w p d"
    and st: "list_all (disk_storable p) ds"
  shows "\<exists>d'. disk_write b p (concat ds) (of_nat a) (of_nat (length ds)) d = Some (RES_OK, d') \<and> disk_valid b w d' \<and>
    (\<forall>q. disk_capacity w q d' = disk_capacity w q d \<and>
      disk_content w q d' = (if q = p then overwrite (disk_content w p d) a ds else disk_content w q d))"
proof -
  note v = ok [unfolded disk_valid_def]
  let ?n = "length ds"
  have nu: "unat (of_nat ?n :: u32) = ?n" using ds(2) by (intro unat_of_nat_small) simp
  have nz: "(of_nat ?n :: u32) \<noteq> 0" using ds(1) nu by (metis length_0_conv unat_0)
  have len: "\<forall>s\<in>set ds. length s = 512" using st by (simp add: list_all_iff disk_storable_def)
  note cat = sectors_of_concat [OF len]
  have "0 < length ds" using ds(1) by simp
  then consider "p = SD_CARD" | "p = EX_FLASH" | "p = EX_NAND" using a by (auto simp: disk_capacity_def split: if_splits)
  then show ?thesis
  proof cases
    case 1
    let ?B = "blocks (card_view w) (sd_hw (sd_disk d))"
    have card: "sd_card (sdio_dev b) (card_view w) (card_size w)" using v by simp
    have a': "a + ?n \<le> card_size w" using a 1 by (simp add: disk_capacity_def)
    from sd_write_ok [OF card ds(1) a' len, of "[]" "sd_hw (sd_disk d)"] obtain res t where
      t: "sd_write_disk (sdio_dev b) (concat ds) (of_nat a) (of_nat ?n) (sd_hw (sd_disk d)) = Some (res, t)"
      "if faults (card_view w) (sd_hw (sd_disk d)) = 0 then res = 0 \<and> blocks (card_view w) t = overwrite ?B a ds
       else res \<noteq> 0 \<and> (\<forall>x. x < a \<or> a + ?n \<le> x \<longrightarrow> blocks (card_view w) t x = ?B x)" by auto
    have "\<forall>x. x < a \<or> a + ?n \<le> x \<longrightarrow> blocks (card_view w) t x = ?B x" "res = 0 \<longrightarrow> blocks (card_view w) t = overwrite ?B a ds"
      using t(2) by (auto simp: overwrite_def split: if_splits)
    with sd_write_again_ok [OF card ds(1) a' len, of "(sd_disk d)\<lparr>sd_hw := t\<rparr>" ?B res] obtain c where
      c: "sd_write_again (sdio_dev b) (concat ds) (of_nat a) (of_nat ?n) res ((sd_disk d)\<lparr>sd_hw := t\<rparr>) = Some c"
      "blocks (card_view w) (sd_hw c) = overwrite ?B a ds" by auto
    have "disk_write b p (concat ds) (of_nat a) (of_nat ?n) d = Some (RES_OK, d\<lparr>sd_disk := c\<rparr>)"
      using nz 1 t(1) c(1) by (simp add: disk_write_def)
    then show ?thesis using v c(2) 1 overwrite_lengths [OF _ len, of "card_size w" ?B a]
      by (auto simp: disk_valid_def disk_capacity_def disk_content_def)
  next
    case 2
    let ?f = "flash (flash_view w) (hw (flash_disk d))"
    have chip: "nor_chip (spi5_dev b) (flash_view w) (g_norflash_type (flash_disk d)) (flash_size w)"
      and idle: "busy (flash_view w) (hw (flash_disk d)) = 0" using v by simp_all
    have "512 * (a + ?n) \<le> 512 * unat SPI_FLASH_SECTOR_COUNT"
      using a 2 by (intro mult_le_mono2) (simp add: disk_capacity_def)
    also have "\<dots> \<le> flash_size w" using v by simp
    finally obtain n where n: "nor_write_sectors (spi5_dev b) ?n (concat ds) (of_nat a) (flash_disk d) = Some n"
      "busy (flash_view w) (hw n) = 0" "g_norflash_type n = g_norflash_type (flash_disk d)"
      "flash (flash_view w) (hw n) = overwrite ?f (512 * a) (concat ds)"
      using nor_write_sectors_ok [OF chip idle, of a ?n "concat ds"] cat(1) by auto
    have "disk_write b p (concat ds) (of_nat a) (of_nat ?n) d = Some (RES_OK, d\<lparr>flash_disk := n\<rparr>)"
      using nz 2 nu n(1) by (simp add: disk_write_def)
    then show ?thesis using v n(2-4) 2 nor_sector_overwrite [OF len, of ?f a]
      by (auto simp: disk_valid_def disk_capacity_def disk_content_def)
  next
    case 3
    have f: "ecc_law (code_unit w)" "ftl_ok (fmc_dev b) (fmc_view w) (code_unit w) (dev (nand_disk d))"
      using v by (simp_all add: ftl_valid_def)
    have "a + ?n \<le> ftl_capacity (dev (nand_disk d))" using a 3 by (simp add: disk_capacity_def)
    moreover have "\<forall>i<?n. buf_sector (concat ds) i \<noteq> blank_sector"
      using cat(2) st 3 by (simp add: list_all_length disk_storable_def)
    ultimately obtain f' where
      f': "ftl_write_sectors (fmc_dev b) (concat ds) (of_nat a) 512 (of_nat ?n) (nand_disk d) = Some (0, f')"
      "ftl_ok (fmc_dev b) (fmc_view w) (code_unit w) (dev f')" "ftl_capacity (dev f') = ftl_capacity (dev (nand_disk d))"
      "ftl_content (fmc_view w) (dev f') = overwrite (ftl_content (fmc_view w) (dev (nand_disk d))) a ds"
      using write_sectors_ok [OF f(2) ds(2), of a "concat ds"] cat(1,3) by auto
    have "disk_write b p (concat ds) (of_nat a) (of_nat ?n) d = Some (RES_OK, d\<lparr>nand_disk := f'\<rparr>)"
      using nz 3 f'(1) by (simp add: disk_write_def)
    then show ?thesis using v f'(2-4) f(1) 3
      by (auto simp: disk_valid_def disk_capacity_def disk_content_def ftl_valid_def)
  qed
qed

interpretation disk: store_family "disk_valid b w" "disk_capacity w" "disk_content w" "disk_fetch b" "disk_store b" 65535 disk_storable
  for b w
proof
  fix s :: "('a, 'b, 'c) disks" and n a :: nat and d :: u8
  assume h: "disk_valid b w s" "0 < n" "n \<le> 65535" "a + n \<le> disk_capacity w d s"
  have "n < 2 ^ 32" using h(3) by simp
  from disk_read_ok [OF h(1,2) this h(4)] obtain s' where
    s': "disk_read b d (of_nat a) (of_nat n) s = Some (RES_OK, concat (window (disk_content w d s) a n), s')" "disk_valid b w s'"
    "\<forall>q. disk_capacity w q s' = disk_capacity w q s \<and> disk_content w q s' = disk_content w q s" by blast
  have "\<forall>x\<in>set (window (disk_content w d s) a n). length x = 512"
  proof
    fix x assume "x \<in> set (window (disk_content w d s) a n)"
    then obtain y where y: "y < a + n" "x = disk_content w d s y" by (auto simp: window_def)
    then have "y < disk_capacity w d s" using h(4) by simp
    with y(2) show "length x = 512" using h(1) content_length [of y 1 "dev (nand_disk s)" "fmc_view w"]
      by (auto simp: disk_capacity_def disk_content_def disk_valid_def window_def split: if_splits)
  qed
  then have "map (buf_sector (concat (window (disk_content w d s) a n))) [0..<n] = window (disk_content w d s) a n"
    using sectors_of_concat(3) [of "window (disk_content w d s) a n"] by simp
  then show "\<exists>s'. disk_fetch b d a n s = Some (window (disk_content w d s) a n, s') \<and> disk_valid b w s' \<and>
      (\<forall>e. disk_capacity w e s' = disk_capacity w e s \<and> disk_content w e s' = disk_content w e s)"
    using s' by (simp add: disk_fetch_def)
next
  fix s :: "('a, 'b, 'c) disks" and bs :: "u8 list list" and a :: nat and d :: u8
  assume h: "disk_valid b w s" "bs \<noteq> []" "length bs \<le> 65535" "a + length bs \<le> disk_capacity w d s" "list_all (disk_storable d) bs"
  from disk_write_ok [OF h] obtain s' where
    "disk_write b d (concat bs) (of_nat a) (of_nat (length bs)) s = Some (RES_OK, s')" "disk_valid b w s'"
    "\<forall>q. disk_capacity w q s' = disk_capacity w q s \<and>
      disk_content w q s' = (if q = d then overwrite (disk_content w d s) a bs else disk_content w q s)" by blast
  then show "\<exists>s'. disk_store b d a bs s = Some s' \<and> disk_valid b w s' \<and>
      (\<forall>e. disk_capacity w e s' = disk_capacity w e s \<and>
        disk_content w e s' = (if e = d then overwrite (disk_content w d s) a bs else disk_content w e s))"
    by (simp add: disk_store_def)
qed

section \<open>An executable card\<close>

text \<open>
  A card with a number of blocks that fails a number of transfers; a failed write spoils its first
  block. After each transfer the card is busy for three polls.
\<close>

record ssim =
  ssim_blocks :: "nat \<Rightarrow> u8 list"
  ssim_faults :: nat
  ssim_busy :: nat

definition ssim_view :: "ssim sd_view" where
  "ssim_view = \<lparr>blocks = ssim_blocks, faults = ssim_faults, pending = ssim_busy\<rparr>"

definition ssim_hal :: "u32 \<Rightarrow> ssim sd_hal" where
  "ssim_hal nblk = \<lparr>
     HAL_SD_Init = (\<lambda>_ s. (HAL_OK, s)),
     HAL_SD_GetCardInfo = (\<lambda>s. (HAL_OK, \<lparr>LogBlockNbr = nblk, LogBlockSize = 512\<rparr>, s)),
     HAL_SD_ConfigWideBusOperation = (\<lambda>_ s. (HAL_OK, s)),
     HAL_SD_ReadBlocks = (\<lambda>a n _ s.
       if ssim_faults s = 0 then (HAL_OK, concat (window (ssim_blocks s) (unat a) (unat n)), s\<lparr>ssim_busy := 3\<rparr>)
       else (1, [], s\<lparr>ssim_faults := ssim_faults s - 1, ssim_busy := 3\<rparr>)),
     HAL_SD_WriteBlocks = (\<lambda>bs a n _ s.
       if ssim_faults s = 0
       then (HAL_OK, s\<lparr>ssim_blocks := overwrite (ssim_blocks s) (unat a) (map (buf_sector bs) [0..<unat n]), ssim_busy := 3\<rparr>)
       else (1, s\<lparr>ssim_blocks := (ssim_blocks s)(unat a := replicate 512 0), ssim_faults := ssim_faults s - 1, ssim_busy := 3\<rparr>)),
     HAL_SD_GetCardState = (\<lambda>s. (if ssim_busy s = 0 then HAL_SD_CARD_TRANSFER else 7, s\<lparr>ssim_busy := ssim_busy s - 1\<rparr>)),
     sys_intx_disable = id, sys_intx_enable = id\<rparr>"

lemma buf_sector_append: "512 * Suc i \<le> length bs \<Longrightarrow> buf_sector (bs @ cs) i = buf_sector bs i"
  by (simp add: buf_sector_def)

lemma ssim_card: "sd_card (ssim_hal nblk) ssim_view (unat nblk)"
proof -
  have b: "unat SD_TIMEOUT = 100000000" by (simp add: SD_TIMEOUT_def)
  have ne: "(7 :: u32) \<noteq> HAL_SD_CARD_TRANSFER" "(1 :: u8) \<noteq> HAL_OK" by (simp_all add: HAL_SD_CARD_TRANSFER_def HAL_OK_def)
  have small: "unat (of_nat a :: u32) = a" if "a \<le> unat nblk" for a
    using that unat_u32_less [of nblk] by (intro unat_of_nat_small) simp
  have "sd_state_law (ssim_hal nblk) ssim_view" "sd_calm_law (ssim_hal nblk) ssim_view"
    using ne by (auto simp: sd_state_law_def sd_calm_law_def sd_same_def ssim_hal_def ssim_view_def)
  moreover have "sd_read_law (ssim_hal nblk) ssim_view (unat nblk)"
    using ne by (auto simp: sd_read_law_def ssim_hal_def ssim_view_def b small)
  moreover have "sd_write_law (ssim_hal nblk) ssim_view (unat nblk)"
    unfolding sd_write_law_def
  proof (intro allI impI)
    fix s a and ds :: "u8 list list" and bs
    assume h: "ds \<noteq> []" "a + length ds \<le> unat nblk" "\<forall>d\<in>set ds. length d = 512"
    note cat = sectors_of_concat [OF h(3)]
    have "buf_sector (concat ds @ bs) i = ds ! i" if "i < length ds" for i
      using that cat(1) cat(2) [of i] by (subst buf_sector_append) auto
    then have "map (buf_sector (concat ds @ bs)) [0..<length ds] = ds" by (intro nth_equalityI) simp_all
    then show "case HAL_SD_WriteBlocks (ssim_hal nblk) (concat ds @ bs) (of_nat a) (of_nat (length ds)) SD_TIMEOUT s of (sta, t) \<Rightarrow>
        pending ssim_view t \<le> unat SD_TIMEOUT \<and> faults ssim_view t = faults ssim_view s - 1 \<and>
        (\<forall>x. length (blocks ssim_view s x) = 512 \<longrightarrow> length (blocks ssim_view t x) = 512) \<and>
        (if faults ssim_view s = 0 then sta = HAL_OK \<and> blocks ssim_view t = overwrite (blocks ssim_view s) a ds
         else sta \<noteq> HAL_OK \<and> (\<forall>x. x < a \<or> a + length ds \<le> x \<longrightarrow> blocks ssim_view t x = blocks ssim_view s x))"
      using h ne small [of a] small [of "length ds"]
      by (auto simp: ssim_hal_def ssim_view_def b overwrite_def)
  qed
  ultimately show ?thesis using unat_u32_less [of nblk] by (simp add: sd_card_def)
qed

text \<open>The board with the three executable devices: a card that is about to fail twice.\<close>

definition sim_board :: "(sim, nsim, ssim) board" where
  "sim_board = \<lparr>spi5_dev = sim_dev, fmc_dev = nsim_bus, sdio_dev = ssim_hal 1000\<rparr>"

definition sim_board_view :: "(sim, nsim, ssim) board_view" where
  "sim_board_view = \<lparr>flash_view = sim_view, flash_size = 2 ^ 25, fmc_view = nsim_view, code_unit = hamming,
     card_view = ssim_view, card_size = 1000\<rparr>"

definition sim_disks :: "(sim, nsim, ssim) disks" where
  "sim_disks = \<lparr>flash_disk = blank_flash, nand_disk = one_block_ftl,
     sd_disk = \<lparr>g_sd_card_info_handle = \<lparr>LogBlockNbr = 1000, LogBlockSize = 512\<rparr>,
       sd_hw = \<lparr>ssim_blocks = (\<lambda>_. replicate 512 0), ssim_faults = 2, ssim_busy = 0\<rparr>\<rparr>\<rparr>"

lemma sim_disks_valid: "disk_valid sim_board sim_board_view sim_disks"
  unfolding disk_valid_def ftl_valid_def
  using sim_nor_chip ssim_card [of 1000] one_block_ok hamming_law
  by (simp add: sim_board_def sim_board_view_def sim_disks_def blank_flash_def sim_view_def ssim_view_def SPI_FLASH_SECTOR_COUNT_def)

lemma sim_disks_capacity: "disk_capacity sim_board_view SD_CARD sim_disks = 1000"
  "disk_capacity sim_board_view EX_FLASH sim_disks = 51200" "disk_capacity sim_board_view EX_NAND sim_disks = 256"
  by (simp_all add: disk_capacity_def sim_board_view_def sim_disks_def one_block_fields SPI_FLASH_SECTOR_COUNT_def)

section \<open>Properties of the disk layer\<close>

text \<open>C11: through the disk layer the SD card, the SPI flash and the NAND flash are three independent
  arrays of sectors: any sequence of reads and writes to them, each of between 1 and 65535 sectors
  inside its drive, succeeds and gives the answers of the arrays, also when finitely many transfers of
  the card fail and are repeated. The sectors written have 512 bytes, and those written to the NAND
  flash are not all ones: the layer takes such a sector for one that was never written.\<close>

theorem drives_are_arrays:
  assumes "disk_valid b w d"
    and "\<forall>(p, r)\<in>set rs. request_ok 65535 (disk_capacity w p d) r \<and> stores_only (disk_storable p) r"
  shows "\<exists>d'. family_session (disk_fetch b) (disk_store b) rs d = Some (fst (arrays_session rs (\<lambda>p. disk_content w p d)), d') \<and>
    disk_valid b w d' \<and> (\<lambda>p. disk_content w p d') = snd (arrays_session rs (\<lambda>p. disk_content w p d))"
  using assms by (rule disk.family_law)

theorem drives_are_arrays_witness:
  "\<exists>d'. family_session (disk_fetch sim_board) (disk_store sim_board)
     [(EX_NAND, Store 3 [replicate 512 1]), (EX_FLASH, Store 3 [replicate 512 2]), (SD_CARD, Store 3 [replicate 512 3]),
      (EX_NAND, Fetch 3 1), (EX_FLASH, Fetch 3 1), (SD_CARD, Fetch 2 2)] sim_disks =
     Some ([[replicate 512 1], [replicate 512 2], [replicate 512 0, replicate 512 3]], d')"
proof -
  let ?rs = "[(EX_NAND, Store 3 [replicate 512 1]), (EX_FLASH, Store 3 [replicate 512 2]), (SD_CARD, Store 3 [replicate 512 3]),
      (EX_NAND, Fetch 3 1), (EX_FLASH, Fetch 3 1), (SD_CARD, Fetch 2 2)] :: (u8 \<times> u8 list request) list"
  let ?c = "\<lambda>p. disk_content sim_board_view p sim_disks"
  have one: "window g x (Suc 0) = [g x]" "window g x 2 = [g x, g (Suc x)]" for g :: "nat \<Rightarrow> u8 list" and x
    by (simp_all add: window_def eval_nat_numeral)
  have "?c SD_CARD 2 = replicate 512 0" by (simp add: disk_content_def sim_board_view_def sim_disks_def ssim_view_def)
  then have "fst (arrays_session ?rs ?c) = [[replicate 512 1], [replicate 512 2], [replicate 512 0, replicate 512 3]]"
    by (simp add: one overwrite_one)
  moreover have "\<forall>(p, r)\<in>set ?rs. request_ok 65535 (disk_capacity sim_board_view p sim_disks) r \<and> stores_only (disk_storable p) r"
    by (simp add: sim_disks_capacity disk_storable_def other_byte)
  ultimately show ?thesis using drives_are_arrays [OF sim_disks_valid, of ?rs] by auto
qed

text \<open>The blank blocks the table keeps in reserve bound the number of logical blocks.\<close>

lemma valid_bound:
  assumes "table_ok v ecc n"
  shows "unat (valid_blocknum n) \<le> 4094"
proof -
  note tabD = table_okD [OF assms]
  have "\<exists>b<4096. b mod 2 = 0 \<and> unused v n b" "\<exists>b<4096. b mod 2 = 1 \<and> unused v n b" by (rule tabD(8), simp)+
  then obtain b0 b1 where b: "b0 < 4096" "b0 mod 2 = 0" "unused v n b0" "b1 < 4096" "b1 mod 2 = 1" "unused v n b1" by auto
  then have ne: "b0 \<noteq> b1" by auto
  have "inj_on (\<lambda>l. unat (lut n ! l)) {..<unat (valid_blocknum n)}"
    using tabD(6) by (auto simp: inj_on_def word_unat_eq_iff)
  moreover have "(\<lambda>l. unat (lut n ! l)) ` {..<unat (valid_blocknum n)} \<subseteq> {..<4096} - {b0, b1}"
    using tabD(3,4) b(3,6) by auto
  ultimately have "card {..<unat (valid_blocknum n)} \<le> card ({..<4096 :: nat} - {b0, b1})"
    by (rule card_inj_on_le) simp
  then show ?thesis using b ne by (simp add: card_Diff_subset)
qed

lemma nand_sectors_ok:
  assumes "ftl_ok bus v ecc n"
  shows "nand_sectors n = Some (of_nat (ftl_capacity n))"
proof -
  have part: "known_part n" and V: "unat (valid_blocknum n) \<le> 4094"
    using assms nand_okD(1) valid_bound by (auto simp: ftl_ok_def)
  define V where "V = unat (valid_blocknum n)"
  let ?v = "int V"
  have b: "uint (block_pagenum n) = int (ppb n)" "uint (page_mainsize n) = int (512 * spp n)" "uint (valid_blocknum n) = ?v"
    using arg_cong [OF known_spp(1) [OF part], of int] by (simp_all add: ppb_def msz_def V_def)
  have "?v * int (ppb n) * int (512 * spp n) = 512 * int (ftl_capacity n)"
    by (simp add: ftl_capacity_def spb_def V_def)
  moreover have "?v * int (ppb n) < 2 ^ 31 \<and> ?v * int (ppb n) * int (512 * spp n) < 2 ^ 31"
    using known_spp(2) [OF part] V [folded V_def] by auto
  ultimately show ?thesis unfolding nand_sectors_def int_product_def b by (simp add: ac_simps)
qed

text \<open>the number of sectors that the disk layer reports to the file system for a drive is the
  number that it can read and write; the product does not overflow.\<close>

theorem sector_count_reported:
  assumes "disk_valid b w d" and "p = SD_CARD \<or> p = EX_FLASH \<or> p = EX_NAND"
    and "LogBlockNbr (g_sd_card_info_handle (sd_disk d)) = of_nat (card_size w)"
  shows "disk_ioctl p 1 d = Some (RES_OK, code_bytes 4 (of_nat (disk_capacity w p d)))"
proof -
  have "ftl_ok (fmc_dev b) (fmc_view w) (code_unit w) (dev (nand_disk d))"
    using assms(1) by (simp add: disk_valid_def ftl_valid_def)
  from nand_sectors_ok [OF this] show ?thesis
    using assms(2,3) by (auto simp: disk_ioctl_def ioctl_of_def disk_capacity_def)
qed

theorem sector_count_reported_witness:
  "disk_ioctl EX_NAND 1 sim_disks = Some (RES_OK, [0, 1, 0, 0])"
proof -
  have "LogBlockNbr (g_sd_card_info_handle (sd_disk sim_disks)) = of_nat (card_size sim_board_view)"
    by (simp add: sim_disks_def sim_board_view_def)
  from sector_count_reported [OF sim_disks_valid _ this, of EX_NAND]
  have "disk_ioctl EX_NAND 1 sim_disks = Some (RES_OK, code_bytes 4 256)" by (simp add: sim_disks_capacity)
  moreover have four: "(4 :: nat) = Suc (Suc (Suc (Suc 0)))" by simp
  have "code_bytes 4 256 = [0, 1, 0, 0]" unfolding four code_bytes.simps by simp
  ultimately show ?thesis by simp
qed

end
