(* ===== verification/Usb_Storage.thy ===== *)
theory Usb_Storage
  imports Disk_Arrays
begin

text \<open>
  The storage callbacks of the USB mass storage class, \<open>usbd_storage.c\<close>: the three logical units are
  the drives of the disk layer, reached without it. What a PC writes is what the file system reads.
\<close>

text \<open>The callbacks' state: the drives, the flags of the connection, the lines printed.\<close>

record ('n, 'f, 's) usb =
  drives :: "('n, 'f, 's) disks"
  g_usb_state_reg :: u8
  printed :: "(string \<times> int list) list"

definition USB_STORAGE_FLASH_BASE :: u32 where "USB_STORAGE_FLASH_BASE = 0"
definition STORAGE_LUN_NBR :: u8 where "STORAGE_LUN_NBR = 3"

definition STORAGE_Init_FS :: "('n, 'f, 's) board \<Rightarrow> u8 \<Rightarrow> ('n, 'f, 's) usb \<Rightarrow> (u8 \<times> ('n, 'f, 's) usb) option" where
  "STORAGE_Init_FS b lun u =
     (let d = drives u in
      if lun = 0 then Some (0, u\<lparr>drives := d\<lparr>flash_disk := norflash_init (spi5_dev b) (flash_disk d)\<rparr>\<rparr>)
      else if lun = 1 then map_option (\<lambda>(res, f). (res, u\<lparr>drives := d\<lparr>nand_disk := f\<rparr>\<rparr>)) (ftl_init (fmc_dev b) (nand_disk d))
      else if lun = 2 then
        (case sd_init (sdio_dev b) (sd_disk d) of (res, c) \<Rightarrow> Some (res, u\<lparr>drives := d\<lparr>sd_disk := c\<rparr>\<rparr>))
      else Some (0, u))"

text \<open>The card's data are read again; the result is the card with them.\<close>

definition refresh_card :: "'s sd_hal \<Rightarrow> 's sdcard \<Rightarrow> 's sdcard" where
  "refresh_card hal c = (case HAL_SD_GetCardInfo hal (sd_hw c) of (_, info, s) \<Rightarrow> c\<lparr>g_sd_card_info_handle := info, sd_hw := s\<rparr>)"

text \<open>The number of blocks and their size, nothing for a unit there is not.\<close>

definition STORAGE_GetCapacity_FS ::
  "('n, 'f, 's) board \<Rightarrow> u8 \<Rightarrow> ('n, 'f, 's) usb \<Rightarrow> (u8 \<times> (u32 \<times> u16) option \<times> ('n, 'f, 's) usb) option" where
  "STORAGE_GetCapacity_FS b lun u =
     (let d = drives u in
      if lun = 0 then Some (0, Some (1024 * 1024 * 25 div 512, 512), u)
      else if lun = 1 then map_option (\<lambda>n. (0, Some (n, 512), u)) (nand_sectors (dev (nand_disk d)))
      else if lun = 2 then
        (let c = refresh_card (sdio_dev b) (sd_disk d); info = g_sd_card_info_handle c
         in Some (0, Some (LogBlockNbr info - 1, ucast (LogBlockSize info)), u\<lparr>drives := d\<lparr>sd_disk := c\<rparr>\<rparr>))
      else Some (0, None, u))"

definition STORAGE_IsReady_FS :: "u8 \<Rightarrow> ('n, 'f, 's) usb \<Rightarrow> u8 \<times> ('n, 'f, 's) usb" where
  "STORAGE_IsReady_FS lun u = (0, u\<lparr>g_usb_state_reg := g_usb_state_reg u OR 0x10\<rparr>)"

definition STORAGE_IsWriteProtected_FS :: "u8 \<Rightarrow> u8" where
  "STORAGE_IsWriteProtected_FS lun = 0"

text \<open>A read reports success whatever the driver returned; the error only sets a flag.\<close>

definition STORAGE_Read_FS ::
  "('n, 'f, 's) board \<Rightarrow> u8 \<Rightarrow> u32 \<Rightarrow> u16 \<Rightarrow> ('n, 'f, 's) usb \<Rightarrow> (u8 \<times> u8 list \<times> ('n, 'f, 's) usb) option" where
  "STORAGE_Read_FS b lun blk_addr blk_len u0 = do {
     let u = u0\<lparr>g_usb_state_reg := g_usb_state_reg u0 OR 0x02\<rparr>;
     let d = drives u;
     (res, bs, d') \<leftarrow>
       (if lun = 0 then
          (case norflash_read (spi5_dev b) (g_norflash_type (flash_disk d)) (USB_STORAGE_FLASH_BASE + blk_addr * 512)
                  (blk_len * 512) (hw (flash_disk d)) of
             (bs, s) \<Rightarrow> Some (0, bs, d\<lparr>flash_disk := (flash_disk d)\<lparr>hw := s\<rparr>\<rparr>))
        else if lun = 1 then
          map_option (\<lambda>(res, bs, f). (res, bs, d\<lparr>nand_disk := f\<rparr>))
            (ftl_read_sectors (fmc_dev b) blk_addr 512 (ucast blk_len) (nand_disk d))
        else if lun = 2 then
          map_option (\<lambda>(res, bs, s). (res, bs, d\<lparr>sd_disk := (sd_disk d)\<lparr>sd_hw := s\<rparr>\<rparr>))
            (sd_read_disk (sdio_dev b) blk_addr (ucast blk_len) (sd_hw (sd_disk d)))
        else Some (0, [], d));
     Some (0, bs,
       if res \<noteq> 0
       then u\<lparr>drives := d', printed := printed u @ [(''rerr:%d,%d'', [uint lun, sint res])],
              g_usb_state_reg := g_usb_state_reg u OR 0x08\<rparr>
       else u\<lparr>drives := d'\<rparr>)
   }"

definition STORAGE_Write_FS ::
  "('n, 'f, 's) board \<Rightarrow> u8 \<Rightarrow> u8 list \<Rightarrow> u32 \<Rightarrow> u16 \<Rightarrow> ('n, 'f, 's) usb \<Rightarrow> (u8 \<times> ('n, 'f, 's) usb) option" where
  "STORAGE_Write_FS b lun buf blk_addr blk_len u0 = do {
     let u = u0\<lparr>g_usb_state_reg := g_usb_state_reg u0 OR 0x01\<rparr>;
     let d = drives u;
     (res, d') \<leftarrow>
       (if lun = 0 then
          map_option (\<lambda>n. (0, d\<lparr>flash_disk := n\<rparr>))
            (norflash_write (spi5_dev b) buf (USB_STORAGE_FLASH_BASE + blk_addr * 512) (blk_len * 512) (flash_disk d))
        else if lun = 1 then
          map_option (\<lambda>(res, f). (res, d\<lparr>nand_disk := f\<rparr>))
            (ftl_write_sectors (fmc_dev b) buf blk_addr 512 (ucast blk_len) (nand_disk d))
        else if lun = 2 then
          map_option (\<lambda>(res, s). (res, d\<lparr>sd_disk := (sd_disk d)\<lparr>sd_hw := s\<rparr>\<rparr>))
            (sd_write_disk (sdio_dev b) buf blk_addr (ucast blk_len) (sd_hw (sd_disk d)))
        else Some (0, d));
     Some (res,
       if res \<noteq> 0
       then u\<lparr>drives := d', printed := printed u @ [(''werr:%d,%d'', [uint lun, sint res])],
              g_usb_state_reg := g_usb_state_reg u OR 0x04\<rparr>
       else u\<lparr>drives := d'\<rparr>)
   }"

definition STORAGE_GetMaxLun_FS :: "('n, 'f, 's) board \<Rightarrow> ('n, 'f, 's) usb \<Rightarrow> u8 \<times> ('n, 'f, 's) usb" where
  "STORAGE_GetMaxLun_FS b u =
     (let c = refresh_card (sdio_dev b) (sd_disk (drives u))
      in (if LogBlockNbr (g_sd_card_info_handle c) \<noteq> 0 then STORAGE_LUN_NBR - 1 else STORAGE_LUN_NBR - 2,
          u\<lparr>drives := (drives u)\<lparr>sd_disk := c\<rparr>\<rparr>))"

section \<open>Units and drives\<close>

definition drive_of :: "u8 \<Rightarrow> u8" where
  "drive_of lun = (if lun = 0 then EX_FLASH else if lun = 1 then EX_NAND else SD_CARD)"

text \<open>The most blocks of a transfer: the length for the SPI flash is a number of bytes in 16 bits.\<close>

definition usb_limit :: "u8 \<Rightarrow> nat" where
  "usb_limit lun = (if lun = 0 then 127 else 65535)"

lemma usb_words:
  assumes "n \<le> usb_limit lun"
  shows "lun = 0 \<Longrightarrow> (of_nat n * 512 :: u16) = of_nat (512 * n)" "ucast (of_nat n :: u16) = (of_nat n :: u32)"
    "USB_STORAGE_FLASH_BASE + of_nat a * 512 = of_nat (512 * a)"
proof -
  have "n \<le> 65535" using assms by (simp add: usb_limit_def split: if_splits)
  then have "unat (of_nat n :: u16) = n" by (intro unat_of_nat_small) simp
  then show "ucast (of_nat n :: u16) = (of_nat n :: u32)" by (intro word_of_unat) (simp only: unat_ucast_up)
qed (simp_all add: USB_STORAGE_FLASH_BASE_def)

lemma usb_write_ok:
  assumes ok: "disk_valid b w (drives u)" and lun: "lun = 0 \<or> lun = 1 \<or> lun = 2" and ds: "ds \<noteq> []" "length ds \<le> usb_limit lun"
    and a: "a + length ds \<le> disk_capacity w (drive_of lun) (drives u)" and st: "list_all (disk_storable (drive_of lun)) ds"
    and calm: "faults (card_view w) (sd_hw (sd_disk (drives u))) = 0"
  shows "\<exists>u'. STORAGE_Write_FS b lun (concat ds) (of_nat a) (of_nat (length ds)) u = Some (0, u') \<and> disk_valid b w (drives u') \<and>
    (\<forall>q. disk_capacity w q (drives u') = disk_capacity w q (drives u) \<and>
      disk_content w q (drives u') =
        (if q = drive_of lun then overwrite (disk_content w q (drives u)) a ds else disk_content w q (drives u)))"
proof -
  define d where "d = drives u"
  note v = ok [folded d_def, unfolded disk_valid_def]
  have n16: "length ds \<le> 65535" using ds(2) by (simp add: usb_limit_def split: if_splits)
  have len: "\<forall>s\<in>set ds. length s = 512" using st by (simp add: list_all_iff disk_storable_def)
  note cat = sectors_of_concat [OF len] and words = usb_words [OF ds(2)]
  consider "lun = 0" | "lun = 1" | "lun = 2" using lun by blast
  then show ?thesis
  proof cases
    case 1
    have drv: "drive_of lun = EX_FLASH" using 1 by (simp add: drive_of_def)
    let ?f = "flash (flash_view w) (hw (flash_disk d))"
    have chip: "nor_chip (spi5_dev b) (flash_view w) (g_norflash_type (flash_disk d)) (flash_size w)"
      and idle: "busy (flash_view w) (hw (flash_disk d)) = 0" using v by simp_all
    have "512 * (a + length ds) \<le> 512 * unat SPI_FLASH_SECTOR_COUNT"
      using a drv by (intro mult_le_mono2) (simp add: disk_capacity_def)
    also have "\<dots> \<le> flash_size w" using v by simp
    finally have fits: "512 * a + 512 * length ds \<le> flash_size w" by simp
    have "0 < 512 * length ds" "512 * length ds < 65536" using ds 1 by (simp_all add: usb_limit_def)
    from norflash_write_part [OF chip idle this fits, of "concat ds"] cat(1) obtain n where
      n: "norflash_write (spi5_dev b) (concat ds) (of_nat (512 * a)) (of_nat (512 * length ds)) (flash_disk d) = Some n"
      "busy (flash_view w) (hw n) = 0" "g_norflash_type n = g_norflash_type (flash_disk d)"
      "flash (flash_view w) (hw n) = overwrite ?f (512 * a) (concat ds)" by auto
    have "STORAGE_Write_FS b lun (concat ds) (of_nat a) (of_nat (length ds)) u =
        Some (0, u\<lparr>g_usb_state_reg := g_usb_state_reg u OR 0x01, drives := d\<lparr>flash_disk := n\<rparr>\<rparr>)"
      using 1 n(1) unfolding STORAGE_Write_FS_def words(1) [OF 1] words(3) by (simp add: d_def del: of_nat_mult)
    then show ?thesis using v n(2-4) nor_sector_overwrite [OF len, of ?f a] unfolding d_def [symmetric]
      by (auto simp: disk_valid_def disk_capacity_def disk_content_def drv)
  next
    case 2
    have drv: "drive_of lun = EX_NAND" using 2 by (simp add: drive_of_def)
    have f: "ecc_law (code_unit w)" "ftl_ok (fmc_dev b) (fmc_view w) (code_unit w) (dev (nand_disk d))"
      using v by (simp_all add: ftl_valid_def)
    have "a + length ds \<le> ftl_capacity (dev (nand_disk d))" using a drv by (simp add: disk_capacity_def d_def)
    moreover have "\<forall>i<length ds. buf_sector (concat ds) i \<noteq> blank_sector"
      using cat(2) st drv by (simp add: list_all_length disk_storable_def)
    ultimately obtain f' where
      f': "ftl_write_sectors (fmc_dev b) (concat ds) (of_nat a) 512 (of_nat (length ds)) (nand_disk d) = Some (0, f')"
      "ftl_ok (fmc_dev b) (fmc_view w) (code_unit w) (dev f')" "ftl_capacity (dev f') = ftl_capacity (dev (nand_disk d))"
      "ftl_content (fmc_view w) (dev f') = overwrite (ftl_content (fmc_view w) (dev (nand_disk d))) a ds"
      using write_sectors_ok [OF f(2) n16, of a "concat ds"] cat(1,3) by auto
    have "STORAGE_Write_FS b lun (concat ds) (of_nat a) (of_nat (length ds)) u =
        Some (0, u\<lparr>g_usb_state_reg := g_usb_state_reg u OR 0x01, drives := d\<lparr>nand_disk := f'\<rparr>\<rparr>)"
      using 2 f'(1) unfolding STORAGE_Write_FS_def words(2) by (simp add: d_def)
    then show ?thesis using v f'(2-4) f(1) unfolding d_def [symmetric]
      by (auto simp: disk_valid_def disk_capacity_def disk_content_def ftl_valid_def drv)
  next
    case 3
    have drv: "drive_of lun = SD_CARD" using 3 by (simp add: drive_of_def)
    let ?B = "blocks (card_view w) (sd_hw (sd_disk d))"
    have card: "sd_card (sdio_dev b) (card_view w) (card_size w)" using v by simp
    have a': "a + length ds \<le> card_size w" using a drv by (simp add: disk_capacity_def)
    from sd_write_ok [OF card ds(1) a' len, of "[]" "sd_hw (sd_disk d)"] calm obtain t where
      t: "sd_write_disk (sdio_dev b) (concat ds) (of_nat a) (of_nat (length ds)) (sd_hw (sd_disk d)) = Some (0, t)"
      "blocks (card_view w) t = overwrite ?B a ds" by (auto simp: d_def)
    have "STORAGE_Write_FS b lun (concat ds) (of_nat a) (of_nat (length ds)) u =
        Some (0, u\<lparr>g_usb_state_reg := g_usb_state_reg u OR 0x01, drives := d\<lparr>sd_disk := (sd_disk d)\<lparr>sd_hw := t\<rparr>\<rparr>\<rparr>)"
      using 3 t(1) unfolding STORAGE_Write_FS_def words(2) by (simp add: d_def Let_def)
    then show ?thesis using v t(2) overwrite_lengths [OF _ len, of "card_size w" ?B a] unfolding d_def [symmetric]
      by (auto simp: disk_valid_def disk_capacity_def disk_content_def drv)
  qed
qed

text \<open>C12: sectors that a PC writes to a logical unit over USB, at least one and inside the unit, are the
  ones the file system then reads from the drive behind it, and the other sectors of that drive and the other drives keep their
  contents. This holds when no transfer of the SD card fails, for unlike the disk layer the USB layer does
  not try again, and when no sector of all ones is written to the NAND flash. One transfer has at most 127
  sectors for the SPI flash and at most 65535 for the other drives.\<close>

theorem usb_writes_reach_files:
  assumes "disk_valid b w (drives u)" and "lun = 0 \<or> lun = 1 \<or> lun = 2" and "ds \<noteq> []" and "length ds \<le> usb_limit lun"
    and "a + length ds \<le> disk_capacity w (drive_of lun) (drives u)" and "list_all (disk_storable (drive_of lun)) ds"
    and "faults (card_view w) (sd_hw (sd_disk (drives u))) = 0"
  shows "\<exists>u' d'. STORAGE_Write_FS b lun (concat ds) (of_nat a) (of_nat (length ds)) u = Some (0, u') \<and>
    disk_read b (drive_of lun) (of_nat a) (of_nat (length ds)) (drives u') = Some (RES_OK, concat ds, d') \<and>
    (\<forall>q. disk_content w q d' =
      (if q = drive_of lun then overwrite (disk_content w q (drives u)) a ds else disk_content w q (drives u)))"
proof -
  from usb_write_ok [OF assms] obtain u' where
    u': "STORAGE_Write_FS b lun (concat ds) (of_nat a) (of_nat (length ds)) u = Some (0, u')" "disk_valid b w (drives u')"
    "\<forall>q. disk_capacity w q (drives u') = disk_capacity w q (drives u) \<and>
      disk_content w q (drives u') =
        (if q = drive_of lun then overwrite (disk_content w q (drives u)) a ds else disk_content w q (drives u))" by blast
  have "length ds < 2 ^ 32" using assms(4) by (simp add: usb_limit_def split: if_splits)
  moreover have "0 < length ds" using assms(3) by simp
  ultimately obtain d' where
    "disk_read b (drive_of lun) (of_nat a) (of_nat (length ds)) (drives u') = Some (RES_OK, concat ds, d')"
    "\<forall>q. disk_content w q d' = disk_content w q (drives u')"
    using disk_read_ok [OF u'(2), of "length ds" a "drive_of lun"] u'(3) assms(5) by auto
  then show ?thesis using u'(1,3) by auto
qed

definition sim_usb :: "(sim, nsim, ssim) usb" where
  "sim_usb = \<lparr>drives = sim_disks\<lparr>sd_disk := (sd_disk sim_disks)\<lparr>sd_hw := (sd_hw (sd_disk sim_disks))\<lparr>ssim_faults := 0\<rparr>\<rparr>\<rparr>,
     g_usb_state_reg = 0, printed = []\<rparr>"

lemma sim_usb_valid: "disk_valid sim_board sim_board_view (drives sim_usb)"
  using sim_disks_valid by (simp add: disk_valid_def sim_usb_def sim_board_view_def ssim_view_def)

theorem usb_writes_reach_files_witness:
  "\<exists>u' d'. STORAGE_Write_FS sim_board 2 (replicate 512 7) 5 1 sim_usb = Some (0, u') \<and>
    disk_read sim_board SD_CARD 5 1 (drives u') = Some (RES_OK, replicate 512 7, d')"
proof -
  have "faults (card_view sim_board_view) (sd_hw (sd_disk (drives sim_usb))) = 0"
    by (simp add: sim_board_view_def sim_usb_def ssim_view_def)
  moreover have "list_all (disk_storable (drive_of 2)) [replicate 512 7]" by (simp add: disk_storable_def drive_of_def)
  moreover have "5 + length [replicate 512 (7 :: u8)] \<le> disk_capacity sim_board_view (drive_of 2) (drives sim_usb)"
    by (simp add: disk_capacity_def sim_board_view_def drive_of_def)
  ultimately show ?thesis
    using usb_writes_reach_files [OF sim_usb_valid, of 2 "[replicate 512 7]" 5]
    by (auto simp: usb_limit_def drive_of_def)
qed

end
