(* ===== verification/Delay.thy ===== *)
theory Delay
  imports Apollo_Prelude
begin

text \<open>
  The delay routines \<open>delay.c\<close> of the configuration without an operating system. They watch the
  system timer, a counter that runs down from its reload value and starts again. The two registers
  are the parameter; the loop that watches the counter is a partial function.
\<close>

record 's systick =
  SysTick_LOAD :: "'s \<Rightarrow> u32 \<times> 's"
  SysTick_VAL :: "'s \<Rightarrow> u32 \<times> 's"
  HAL_SYSTICK_CLKSourceConfig :: "u32 \<Rightarrow> 's \<Rightarrow> 's"

record 's delay =
  g_fac_us :: u32
  tick_hw :: 's

definition SYSTICK_CLKSOURCE_HCLK :: u32 where "SYSTICK_CLKSOURCE_HCLK = 4"

definition delay_init :: "'s systick \<Rightarrow> u16 \<Rightarrow> 's delay \<Rightarrow> 's delay" where
  "delay_init tick sysclk d =
     \<lparr>g_fac_us = ucast sysclk, tick_hw = HAL_SYSTICK_CLKSourceConfig tick SYSTICK_CLKSOURCE_HCLK (tick_hw d)\<rparr>"

text \<open>The ticks between two values of the counter.\<close>

definition ticks_between :: "u32 \<Rightarrow> u32 \<Rightarrow> u32 \<Rightarrow> u32" where
  "ticks_between reload told tnow = (if tnow < told then told - tnow else reload - tnow + told)"

partial_function (option) delay_loop :: "'s systick \<Rightarrow> u32 \<Rightarrow> u32 \<Rightarrow> u32 \<Rightarrow> u32 \<Rightarrow> 's \<Rightarrow> 's option" where
  "delay_loop tick reload ticks told tcnt s =
     (case SysTick_VAL tick s of (tnow, s1) \<Rightarrow>
        if tnow \<noteq> told
        then (let tcnt' = tcnt + ticks_between reload told tnow
              in if tcnt' \<ge> ticks then Some s1 else delay_loop tick reload ticks tnow tcnt' s1)
        else delay_loop tick reload ticks told tcnt s1)"

declare delay_loop.simps [code]

definition delay_us :: "'s systick \<Rightarrow> u32 \<Rightarrow> 's delay \<Rightarrow> 's delay option" where
  "delay_us tick nus d =
     (let (reload, s1) = SysTick_LOAD tick (tick_hw d);
          ticks = nus * g_fac_us d;
          (told, s2) = SysTick_VAL tick s1
      in map_option (\<lambda>s. d\<lparr>tick_hw := s\<rparr>) (delay_loop tick reload ticks told 0 s2))"

fun delay_repeat :: "'s systick \<Rightarrow> nat \<Rightarrow> 's delay \<Rightarrow> 's delay option" where
  "delay_repeat tick 0 d = Some d"
| "delay_repeat tick (Suc k) d = do { d1 \<leftarrow> delay_us tick (65 * 1000) d; delay_repeat tick k d1 }"

definition delay_ms :: "'s systick \<Rightarrow> u16 \<Rightarrow> 's delay \<Rightarrow> 's delay option" where
  "delay_ms tick nms d = do {
     let repeat = (ucast (nms div 65) :: u32);
     let remain = (ucast (nms mod 65) :: u32);
     d1 \<leftarrow> delay_repeat tick (unat repeat) d;
     if remain \<noteq> 0 then delay_us tick (remain * 1000) d1 else Some d1
   }"

definition HAL_Delay :: "'s systick \<Rightarrow> u32 \<Rightarrow> 's delay \<Rightarrow> 's delay option" where
  "HAL_Delay tick Delay d = delay_ms tick (ucast Delay) d"

section \<open>A running counter\<close>

text \<open>
  The time in ticks of the clock. The counter runs from \<open>L\<close> down to zero and then starts at \<open>L\<close>
  again; an access takes some time, at most \<open>D\<close> ticks.
\<close>

definition counter :: "nat \<Rightarrow> nat \<Rightarrow> nat" where
  "counter L t = L - t mod Suc L"

definition tick_law :: "'s systick \<Rightarrow> ('s \<Rightarrow> nat) \<Rightarrow> nat \<Rightarrow> nat \<Rightarrow> bool" where
  "tick_law tick time L D \<longleftrightarrow> 0 < D \<and> D \<le> L \<and> L < 2 ^ 24 \<and>
     (\<forall>s. case SysTick_LOAD tick s of (v, t) \<Rightarrow> v = of_nat L \<and> time s < time t \<and> time t \<le> time s + D) \<and>
     (\<forall>s. case SysTick_VAL tick s of (v, t) \<Rightarrow> v = of_nat (counter L (time t)) \<and> time s < time t \<and> time t \<le> time s + D)"

text \<open>What the loop counts between two times: the ticks less one for each restart.\<close>

definition restarts :: "nat \<Rightarrow> nat \<Rightarrow> nat \<Rightarrow> nat" where
  "restarts L t0 t = t div Suc L - t0 div Suc L"

definition counted :: "nat \<Rightarrow> nat \<Rightarrow> nat \<Rightarrow> nat" where
  "counted L t0 t = (t - t0) - restarts L t0 t"

lemma restarts_time:
  assumes "t0 \<le> t" and "0 < restarts L t0 t"
  shows "Suc L * (restarts L t0 t - 1) + 1 \<le> t - t0"
proof -
  define P q q0 W where "P = Suc L" and "q = t div P" and "q0 = t0 div P" and "W = restarts L t0 t - 1"
  have q: "q = q0 + W + 1" using assms(2) by (simp add: q_def q0_def W_def P_def restarts_def)
  have "t = P * q + t mod P" "t0 = P * q0 + t0 mod P" by (simp_all add: q_def q0_def)
  moreover have "t0 mod P < P" by (simp add: P_def)
  moreover have "P * q = P * q0 + P * W + P" by (simp add: q distrib_left)
  ultimately have "P * W + 1 \<le> t - t0" by linarith
  then show ?thesis by (simp only: P_def W_def)
qed

lemma restarts_bound:
  assumes "t0 \<le> t"
  shows "restarts L t0 t \<le> t - t0" "0 < L \<Longrightarrow> t - t0 \<le> 2 * counted L t0 t + 1" "0 < L \<Longrightarrow> restarts L t0 t \<le> (counted L t0 t + 1) div L + 1"
proof -
  define W where "W = restarts L t0 t"
  consider "W = 0" | "Suc L * (W - 1) + 1 \<le> t - t0" "0 < W" using restarts_time [OF assms, of L] by (auto simp: W_def)
  then have "W \<le> t - t0 \<and> (0 < L \<longrightarrow> t - t0 \<le> 2 * (t - t0 - W) + 1 \<and> W \<le> (t - t0 - W + 1) div L + 1)"
  proof cases
    case 1
    then show ?thesis by simp
  next
    case 2
    then have "L * (W - 1) + W \<le> t - t0" by (cases W) simp_all
    moreover have "W - 1 \<le> L * (W - 1)" if "0 < L" using that by simp
    moreover have "W - 1 \<le> (t - t0 - W + 1) div L" if "0 < L"
    proof -
      have "L * (W - 1) \<le> t - t0 - W + 1" using \<open>L * (W - 1) + W \<le> t - t0\<close> by simp
      then have "L * (W - 1) div L \<le> (t - t0 - W + 1) div L" by (rule div_le_mono)
      then show ?thesis using that by simp
    qed
    ultimately show ?thesis using 2(2) by (intro conjI impI) linarith+
  qed
  then show "restarts L t0 t \<le> t - t0" "0 < L \<Longrightarrow> t - t0 \<le> 2 * counted L t0 t + 1" "0 < L \<Longrightarrow> restarts L t0 t \<le> (counted L t0 t + 1) div L + 1"
    by (simp_all add: W_def counted_def)
qed

text \<open>One step of the loop counts the ticks since the last, less one when the counter restarted.\<close>

lemma counter_step:
  assumes "t1 < t2" and "t2 \<le> t1 + L" and "L < 2 ^ 24"
  shows "(of_nat (counter L t2) :: u32) \<noteq> of_nat (counter L t1)"
    and "unat (ticks_between (of_nat L) (of_nat (counter L t1)) (of_nat (counter L t2))) = counted L t1 t2"
proof -
  define P where "P = Suc L"
  have P0: "0 < P" by (simp add: P_def)
  have u: "unat (of_nat (counter L t) :: u32) = L - t mod P" for t
    using assms(3) by (subst unat_of_nat_small) (simp_all add: counter_def P_def)
  have Lu: "unat (of_nat L :: u32) = L" using assms(3) by (intro unat_of_nat_small) simp
  have m: "t1 mod P \<le> L" "t2 mod P \<le> L" by (simp_all add: P_def less_Suc_eq_le [symmetric])
  define q1 q2 r1 r2 where q: "q1 = t1 div P" "q2 = t2 div P" "r1 = t1 mod P" "r2 = t2 mod P"
  have e: "t1 = P * q1 + r1" "t2 = P * q2 + r2" by (simp_all add: q)
  have "q1 \<le> q2" unfolding q using assms(1) by (intro div_le_mono) simp
  moreover have "q2 \<le> (t1 + P) div P" unfolding q using assms(2) by (intro div_le_mono) (simp add: P_def)
  moreover have "(t1 + P) div P = q1 + 1" using P0 unfolding q by (subst div_add_self2) simp_all
  ultimately consider "q2 = q1" | "q2 = Suc q1" by linarith
  then have cases: "q2 = q1 \<and> r2 = r1 + (t2 - t1) \<or> q2 = Suc q1 \<and> r2 + P = r1 + (t2 - t1)"
    by cases (use e assms(1) in \<open>auto simp: distrib_left\<close>)
  have r: "r1 \<le> L" "r2 \<le> L" using m by (simp_all add: q)
  have ne: "L - r2 \<noteq> L - r1" using cases assms(1,2) r P_def by linarith
  then show "(of_nat (counter L t2) :: u32) \<noteq> of_nat (counter L t1)"
    using u [of t1] u [of t2] unfolding q by metis
  have less: "(of_nat (counter L t2) :: u32) < of_nat (counter L t1) \<longleftrightarrow> q2 = q1"
    unfolding word_less_nat_alt u q(3,4) [symmetric] using cases assms(1,2) r by (auto simp: P_def)
  show "unat (ticks_between (of_nat L) (of_nat (counter L t1)) (of_nat (counter L t2))) = counted L t1 t2"
    using cases
  proof
    assume c: "q2 = q1 \<and> r2 = r1 + (t2 - t1)"
    then have "unat ((of_nat (counter L t1) :: u32) - of_nat (counter L t2)) = (L - r1) - (L - r2)"
      using less by (subst unat_sub) (simp_all add: u q word_le_nat_alt word_less_nat_alt)
    then show ?thesis
      using less c m by (simp add: ticks_between_def counted_def restarts_def q P_def)
  next
    assume c: "q2 = Suc q1 \<and> r2 + P = r1 + (t2 - t1)"
    have "unat ((of_nat L :: u32) - of_nat (counter L t2)) = L - (L - r2)"
      by (subst unat_sub) (simp_all add: u q word_le_nat_alt Lu)
    then have d: "unat ((of_nat L :: u32) - of_nat (counter L t2)) = r2" using m by (simp add: q)
    have "unat ((of_nat L :: u32) - of_nat (counter L t2) + of_nat (counter L t1)) = r2 + (L - r1)"
      using assms(3) m by (subst unat_add_lem [THEN iffD1]) (simp_all add: d u q)
    moreover have "r2 + (L - r1) = t2 - t1 - 1" using c m unfolding P_def q by linarith
    ultimately show ?thesis
      using less c by (simp add: ticks_between_def counted_def restarts_def q P_def)
  qed
qed

lemma counted_add:
  assumes "t0 \<le> t1" and "t1 \<le> t2"
  shows "counted L t0 t2 = counted L t0 t1 + counted L t1 t2"
proof -
  obtain b c where bc: "t1 div Suc L = t0 div Suc L + b" "t2 div Suc L = t1 div Suc L + c"
    using assms by (metis div_le_mono le_Suc_ex)
  obtain x y where xy: "t1 = t0 + x" "t2 = t1 + y" using assms by (metis le_Suc_ex)
  have "restarts L t0 t1 = b" "restarts L t1 t2 = c" "restarts L t0 t2 = b + c" by (simp_all add: restarts_def bc)
  moreover have "restarts L t0 t1 \<le> x" "restarts L t1 t2 \<le> y"
    using restarts_bound(1) [OF assms(1), of L] restarts_bound(1) [OF assms(2), of L] by (simp_all add: xy)
  moreover have "t1 - t0 = x" "t2 - t1 = y" "t2 - t0 = x + y" by (simp_all add: xy)
  ultimately show ?thesis by (simp only: counted_def)
qed

text \<open>The loop ends as soon as the count has reached the ticks asked for.\<close>

lemma delay_loop_ok:
  assumes law: "tick_law tick time L D" and ticks: "unat ticks + L < 2 ^ 32"
  shows "t0 \<le> time s \<Longrightarrow> told = of_nat (counter L (time s)) \<Longrightarrow> unat tcnt = counted L t0 (time s) \<Longrightarrow>
    counted L t0 (time s) \<le> unat ticks \<Longrightarrow>
    \<exists>s'. delay_loop tick (of_nat L) ticks told tcnt s = Some s' \<and> time s < time s' \<and>
      unat ticks \<le> counted L t0 (time s') \<and> counted L t0 (time s') \<le> unat ticks + D"
proof (induction "2 * unat ticks + 2 - (time s - t0)" arbitrary: s told tcnt rule: less_induct)
  case less
  have L: "0 < L" "D \<le> L" "L < 2 ^ 24" using law by (auto simp: tick_law_def)
  obtain tnow s1 where r: "SysTick_VAL tick s = (tnow, s1)" by fastforce
  then have s1: "tnow = of_nat (counter L (time s1))" "time s < time s1" "time s1 \<le> time s + D"
    using law unfolding tick_law_def by (auto split: prod.splits)
  note step = counter_step [OF s1(2) _ L(3)]
  have far: "time s1 \<le> time s + L" using s1(3) L(2) by simp
  let ?c = "tcnt + ticks_between (of_nat L) told tnow"
  have add: "counted L t0 (time s1) = counted L t0 (time s) + counted L (time s) (time s1)"
    by (rule counted_add [OF less.prems(1)]) (use s1(2) in simp)
  have le: "counted L (time s) (time s1) \<le> D" using s1(2,3) unfolding counted_def by linarith
  have sum: "unat tcnt + unat (ticks_between (of_nat L) told tnow) = counted L t0 (time s1)"
    using step(2) [OF far] unfolding add less.prems(2,3) s1(1) by simp
  have "unat tcnt + unat (ticks_between (of_nat L) told tnow) < 2 ^ LENGTH(32)"
    using sum add le less.prems(4) ticks L(2) by simp
  then have c: "unat ?c = counted L t0 (time s1)" using sum by (simp only: unat_add_lem [THEN iffD1])
  have ne: "tnow \<noteq> told" using step(1) [OF far] s1(1) less.prems(2) by simp
  show ?case
  proof (cases "?c \<ge> ticks")
    case True
    then have "delay_loop tick (of_nat L) ticks told tcnt s = Some s1"
      unfolding delay_loop.simps [of tick "of_nat L" ticks told tcnt s] by (simp add: r ne Let_def)
    moreover have "unat ticks \<le> counted L t0 (time s1)" using True c by (simp add: word_le_nat_alt)
    moreover have "counted L t0 (time s1) \<le> unat ticks + D" using add le less.prems(4) by simp
    ultimately show ?thesis using s1(2) by blast
  next
    case False
    then have small: "counted L t0 (time s1) < unat ticks" using c by (simp add: word_le_nat_alt)
    have "t0 \<le> time s1" using less.prems(1) s1(2) by simp
    from restarts_bound(2) [OF this L(1)] small have "time s1 - t0 < 2 * unat ticks + 2" by linarith
    then have dec: "2 * unat ticks + 2 - (time s1 - t0) < 2 * unat ticks + 2 - (time s - t0)"
      using less.prems(1) s1(2) by linarith
    have "counted L t0 (time s1) \<le> unat ticks" using small by simp
    from less.hyps [OF dec \<open>t0 \<le> time s1\<close> s1(1) c this] obtain s' where
      "delay_loop tick (of_nat L) ticks tnow ?c s1 = Some s'" "time s1 < time s'"
      "unat ticks \<le> counted L t0 (time s')" "counted L t0 (time s') \<le> unat ticks + D" by blast
    moreover from this(1) have "delay_loop tick (of_nat L) ticks told tcnt s = Some s'"
      unfolding delay_loop.simps [of tick "of_nat L" ticks told tcnt s] r prod.case Let_def
      by (simp only: ne False if_False if_True simp_thms)
    ultimately show ?thesis using s1(2) by (intro exI [of _ s']) simp
  qed
qed

lemma delay_us_ok:
  assumes law: "tick_law tick time L D" and ticks: "unat nus * unat (g_fac_us d) + L < 2 ^ 32"
  defines "T \<equiv> unat nus * unat (g_fac_us d)"
  shows "\<exists>d'. delay_us tick nus d = Some d' \<and> g_fac_us d' = g_fac_us d \<and>
    time (tick_hw d) + T \<le> time (tick_hw d') \<and>
    time (tick_hw d') \<le> time (tick_hw d) + T + 3 * D + (T + D + 1) div L + 1"
proof -
  obtain reload s1 where s1: "SysTick_LOAD tick (tick_hw d) = (reload, s1)" by fastforce
  obtain told s2 where s2: "SysTick_VAL tick s1 = (told, s2)" by fastforce
  have v: "reload = of_nat L" "time (tick_hw d) < time s1" "time s1 \<le> time (tick_hw d) + D"
    "told = of_nat (counter L (time s2))" "time s1 < time s2" "time s2 \<le> time s1 + D"
    using law s1 s2 unfolding tick_law_def by (force split: prod.splits)+
  have L: "0 < L" using law by (auto simp: tick_law_def)
  have tk: "unat (nus * g_fac_us d) = T" using ticks by (subst unat_mult_lem [THEN iffD1]) (simp_all add: T_def)
  have "unat (nus * g_fac_us d) + L < 2 ^ 32" using ticks tk by (simp add: T_def)
  from delay_loop_ok [OF law this, of "time s2" s2 told 0] v(4) obtain s' where
    s': "delay_loop tick (of_nat L) (nus * g_fac_us d) told 0 s2 = Some s'" "time s2 < time s'"
    "T \<le> counted L (time s2) (time s')" "counted L (time s2) (time s') \<le> T + D"
    unfolding tk by (auto simp: counted_def restarts_def)
  have run: "delay_us tick nus d = Some (d\<lparr>tick_hw := s'\<rparr>)"
    using s'(1) v(1) by (simp add: delay_us_def s1 s2)
  have up: "time s2 \<le> time s'" using s'(2) by simp
  note rb = restarts_bound [OF up, of L]
  have "restarts L (time s2) (time s') \<le> (T + D + 1) div L + 1"
    using rb(3) [OF L] div_le_mono [of "counted L (time s2) (time s') + 1" "T + D + 1" L] s'(4) by simp
  moreover have "time s' - time s2 = counted L (time s2) (time s') + restarts L (time s2) (time s')"
    using rb(1) by (simp add: counted_def)
  ultimately have "time s' \<le> time (tick_hw d) + T + 3 * D + (T + D + 1) div L + 1"
    using s'(4) v(3,6) up by linarith
  moreover have "time (tick_hw d) + T \<le> time s'" using s'(3) v(2,5) rb(1) up unfolding counted_def by linarith
  ultimately show ?thesis using run by simp
qed

lemma delay_repeat_ok:
  assumes law: "tick_law tick time L D"
  shows "65000 * unat (g_fac_us d) + L < 2 ^ 32 \<Longrightarrow>
    \<exists>d'. delay_repeat tick k d = Some d' \<and> g_fac_us d' = g_fac_us d \<and>
      time (tick_hw d) + k * (65000 * unat (g_fac_us d)) \<le> time (tick_hw d')"
proof (induction k arbitrary: d)
  case 0
  then show ?case by simp
next
  case (Suc k)
  have "unat (65 * 1000 :: u32) = 65000" by simp
  with delay_us_ok [OF law, of "65 * 1000" d] Suc.prems obtain d1 where
    d1: "delay_us tick (65 * 1000) d = Some d1" "g_fac_us d1 = g_fac_us d"
    "time (tick_hw d) + 65000 * unat (g_fac_us d) \<le> time (tick_hw d1)" by auto
  from Suc.IH [of d1] Suc.prems d1(2) obtain d2 where
    "delay_repeat tick k d1 = Some d2" "g_fac_us d2 = g_fac_us d"
    "time (tick_hw d1) + k * (65000 * unat (g_fac_us d)) \<le> time (tick_hw d2)" by auto
  then show ?case using d1 by simp
qed

text \<open>C37: \<open>delay_ms\<close> returns, whatever the counter's value and reload are when it is called, and not before
  the milliseconds asked for have passed.\<close>

theorem delay_ms_waits:
  assumes "tick_law tick time L D" and "65000 * unat (g_fac_us d) + L < 2 ^ 32"
  shows "\<exists>d'. delay_ms tick nms d = Some d' \<and>
    time (tick_hw d) + unat nms * 1000 * unat (g_fac_us d) \<le> time (tick_hw d')"
proof -
  define f where "f = unat (g_fac_us d)"
  have w: "unat (ucast (nms div 65) :: u32) = unat nms div 65" "unat (ucast (nms mod 65) :: u32) = unat nms mod 65"
    by (simp_all add: unat_div_distrib unat_mod_distrib)
  from delay_repeat_ok [OF assms, of "unat nms div 65"] obtain d1 where
    d1: "delay_repeat tick (unat nms div 65) d = Some d1" "g_fac_us d1 = g_fac_us d"
    "time (tick_hw d) + unat nms div 65 * (65000 * f) \<le> time (tick_hw d1)" by (auto simp: f_def)
  have split: "unat nms * 1000 * f = unat nms div 65 * (65000 * f) + unat nms mod 65 * 1000 * f"
  proof -
    have "unat nms * 1000 = (unat nms div 65 * 65 + unat nms mod 65) * 1000" by simp
    then show ?thesis by (simp only: add_mult_distrib mult.assoc)
  qed
  show ?thesis
  proof (cases "unat nms mod 65 = 0")
    case True
    then have "(ucast (nms mod 65) :: u32) = 0" using w(2) by (simp add: unat_eq_zero)
    then have "delay_ms tick nms d = Some d1" using d1(1) w(1) by (simp add: delay_ms_def)
    moreover have "unat nms mod 65 * 1000 * f = 0" using True by simp
    then have "time (tick_hw d) + unat nms * 1000 * f \<le> time (tick_hw d1)" using d1(3) split by linarith
    ultimately show ?thesis unfolding f_def by blast
  next
    case False
    then have nz: "(ucast (nms mod 65) :: u32) \<noteq> 0" using w(2) by (metis unat_0)
    have le: "unat nms mod 65 \<le> 64" by (simp add: less_Suc_eq_le [symmetric])
    have k: "unat (1000 :: u32) = 1000" by simp
    have "unat (ucast (nms mod 65) :: u32) * unat (1000 :: u32) < 2 ^ LENGTH(32)" unfolding w(2) k using le by simp
    from unat_mult_lem [THEN iffD1, OF this] have r: "unat (ucast (nms mod 65) * 1000 :: u32) = unat nms mod 65 * 1000"
      unfolding w(2) k .
    from le have "unat (ucast (nms mod 65) * 1000 :: u32) * unat (g_fac_us d1) + L < 2 ^ 32"
      using assms(2) mult_le_mono1 [of "unat nms mod 65 * 1000" 65000 "unat (g_fac_us d)"] unfolding r d1(2) by linarith
    from delay_us_ok [OF assms(1) this] obtain d2 where
      "delay_us tick (ucast (nms mod 65) * 1000) d1 = Some d2"
      "time (tick_hw d1) + unat nms mod 65 * 1000 * f \<le> time (tick_hw d2)" unfolding r d1(2) f_def by blast
    then show ?thesis using d1(1,3) nz w(1) split by (simp add: delay_ms_def f_def)
  qed
qed

text \<open>A timer whose accesses take two ticks, at 180 ticks a microsecond.\<close>

definition sim_tick :: "nat systick" where
  "sim_tick = \<lparr>SysTick_LOAD = (\<lambda>t. (179999, t + 2)), SysTick_VAL = (\<lambda>t. (of_nat (counter 179999 (t + 2)), t + 2)),
     HAL_SYSTICK_CLKSourceConfig = (\<lambda>_ t. t)\<rparr>"

lemma sim_tick_law: "tick_law sim_tick id 179999 2"
  by (simp add: tick_law_def sim_tick_def)

theorem delay_ms_waits_witness:
  "\<exists>d'. delay_ms sim_tick 100 (delay_init sim_tick 180 \<lparr>g_fac_us = 0, tick_hw = 12345\<rparr>) = Some d' \<and>
    12345 + 18000000 \<le> tick_hw d'"
proof -
  let ?d = "delay_init sim_tick 180 \<lparr>g_fac_us = 0, tick_hw = 12345\<rparr>"
  have d: "g_fac_us ?d = 180" "tick_hw ?d = 12345" by (simp_all add: delay_init_def sim_tick_def)
  from delay_ms_waits [OF sim_tick_law, of ?d 100] show ?thesis unfolding d by simp
qed

end
