(* ===== verification/Ltdc.thy ===== *)
theory Ltdc
  imports Apollo_Prelude
begin

text \<open>
  The driver \<open>ltdc.c\<close> of panels with an RGB interface. The picture is in a frame buffer in memory;
  points are stored by the processor and rectangles by the graphics accelerator (DMA2D). The
  memory, the registers of the accelerator and the HAL are parameters.
\<close>

section \<open>The state of the display\<close>

record lcd_dev =
  lcd_width :: u16
  lcd_height :: u16
  lcd_id :: u16
  lcd_dir :: u8
  wramcmd :: u16
  setxcmd :: u16
  setycmd :: u16

record ltdc_dev =
  pwidth :: u32
  pheight :: u32
  hsw :: u16
  vsw :: u16
  hbp :: u16
  vbp :: u16
  hfp :: u16
  vfp :: u16
  activelayer :: u8
  ltdc_dir :: u8
  ltdc_width :: u16
  ltdc_height :: u16
  pixsize :: u32

record 's screen =
  lcddev :: lcd_dev
  lcdltdc :: ltdc_dev
  g_ltdc_framebuf :: "u32 list"
  g_back_color :: u32
  lcd_hw :: 's

section \<open>The hardware\<close>

datatype dma2d_reg = DMA2D_CR | DMA2D_ISR | DMA2D_IFCR | DMA2D_FGMAR | DMA2D_FGOR | DMA2D_FGPFCCR
  | DMA2D_OPFCCR | DMA2D_OCOLR | DMA2D_OMAR | DMA2D_OOR | DMA2D_NLR

datatype panel_pin = PG6 | PI2 | PI7

record ltdc_timing =
  PCPolarity :: u32
  HorizontalSync :: u32
  VerticalSync :: u32
  AccumulatedHBP :: u32
  AccumulatedVBP :: u32
  AccumulatedActiveW :: u32
  AccumulatedActiveH :: u32
  TotalWidth :: u32
  TotalHeigh :: u32

record layer_cfg =
  WindowX0 :: u32
  WindowX1 :: u32
  WindowY0 :: u32
  WindowY1 :: u32
  PixelFormat :: u32
  Alpha :: u32
  Alpha0 :: u32
  BlendingFactor1 :: u32
  BlendingFactor2 :: u32
  FBStartAdress :: u32
  ImageWidth :: u32
  ImageHeight :: u32
  Backcolor :: "u8 \<times> u8 \<times> u8"

record 's ltdc_hw =
  load16 :: "u32 \<Rightarrow> 's \<Rightarrow> u16 \<times> 's"
  store16 :: "u32 \<Rightarrow> u16 \<Rightarrow> 's \<Rightarrow> 's"
  dma2d_get :: "dma2d_reg \<Rightarrow> 's \<Rightarrow> u32 \<times> 's"
  dma2d_set :: "dma2d_reg \<Rightarrow> u32 \<Rightarrow> 's \<Rightarrow> 's"
  dma2d_clock :: "'s \<Rightarrow> 's"
  panel_pins_init :: "'s \<Rightarrow> 's"
  panel_pin_read :: "panel_pin \<Rightarrow> 's \<Rightarrow> u8 \<times> 's"
  ltdc_enable :: "bool \<Rightarrow> 's \<Rightarrow> 's"
  ltdc_layer_enable :: "u8 \<Rightarrow> bool \<Rightarrow> 's \<Rightarrow> 's"
  ltdc_reload_config :: "'s \<Rightarrow> 's"
  ltdc_backlight :: "bool \<Rightarrow> 's \<Rightarrow> 's"
  HAL_RCCEx_PeriphCLKConfig :: "u32 \<Rightarrow> u32 \<Rightarrow> u32 \<Rightarrow> 's \<Rightarrow> u8 \<times> 's"
  HAL_LTDC_Init :: "ltdc_timing \<Rightarrow> 's \<Rightarrow> 's"
  HAL_LTDC_ConfigLayer :: "layer_cfg \<Rightarrow> u8 \<Rightarrow> 's \<Rightarrow> 's"
  HAL_LTDC_SetWindowPosition :: "u16 \<Rightarrow> u16 \<Rightarrow> u8 \<Rightarrow> 's \<Rightarrow> 's"
  HAL_LTDC_SetWindowSize :: "u16 \<Rightarrow> u16 \<Rightarrow> u8 \<Rightarrow> 's \<Rightarrow> 's"

definition on_hw :: "('s \<Rightarrow> 's) \<Rightarrow> 's screen \<Rightarrow> 's screen" where
  "on_hw f s = s\<lparr>lcd_hw := f (lcd_hw s)\<rparr>"

definition LTDC_PIXFORMAT :: u32 where "LTDC_PIXFORMAT = 2"
definition DMA2D_R2M :: u32 where "DMA2D_R2M = 0x30000"
definition DMA2D_CR_START :: u32 where "DMA2D_CR_START = 1"
definition DMA2D_FLAG_TC :: u32 where "DMA2D_FLAG_TC = 2"

section \<open>Layers, direction, points\<close>

definition ltdc_switch :: "'s ltdc_hw \<Rightarrow> u8 \<Rightarrow> 's screen \<Rightarrow> 's screen" where
  "ltdc_switch h sw = on_hw (ltdc_enable h (sw \<noteq> 0))"

definition ltdc_layer_switch :: "'s ltdc_hw \<Rightarrow> u8 \<Rightarrow> u8 \<Rightarrow> 's screen \<Rightarrow> 's screen" where
  "ltdc_layer_switch h layerx sw = on_hw (\<lambda>s. ltdc_reload_config h (ltdc_layer_enable h layerx (sw \<noteq> 0) s))"

definition ltdc_select_layer :: "u8 \<Rightarrow> 's screen \<Rightarrow> 's screen" where
  "ltdc_select_layer layerx s = s\<lparr>lcdltdc := (lcdltdc s)\<lparr>activelayer := layerx\<rparr>\<rparr>"

definition ltdc_display_dir :: "u8 \<Rightarrow> 's screen \<Rightarrow> 's screen" where
  "ltdc_display_dir dir s =
     (let d = (lcdltdc s)\<lparr>ltdc_dir := dir\<rparr>
      in s\<lparr>lcdltdc :=
         if dir = 0 then d\<lparr>ltdc_width := ucast (pheight d), ltdc_height := ucast (pwidth d)\<rparr>
         else if dir = 1 then d\<lparr>ltdc_width := ucast (pwidth d), ltdc_height := ucast (pheight d)\<rparr>
         else d\<rparr>)"

text \<open>The address of a point, and of the first point of a rectangle of the panel.\<close>

definition panel_addr :: "ltdc_dev \<Rightarrow> u32 \<Rightarrow> u32 \<Rightarrow> u32 \<Rightarrow> u32" where
  "panel_addr d fb px py = fb + pixsize d * (pwidth d * py + px)"

definition point_addr :: "ltdc_dev \<Rightarrow> u32 \<Rightarrow> u16 \<Rightarrow> u16 \<Rightarrow> u32" where
  "point_addr d fb x y =
     (if ltdc_dir d \<noteq> 0 then panel_addr d fb (ucast x) (ucast y)
      else panel_addr d fb (ucast y) (pheight d - ucast x - 1))"

definition ltdc_draw_point :: "'s ltdc_hw \<Rightarrow> u16 \<Rightarrow> u16 \<Rightarrow> u32 \<Rightarrow> 's screen \<Rightarrow> 's screen option" where
  "ltdc_draw_point h x y color s = do {
     fb \<leftarrow> arr_get (g_ltdc_framebuf s) (unat (activelayer (lcdltdc s)));
     Some (on_hw (store16 h (point_addr (lcdltdc s) fb x y) (ucast color)) s)
   }"

definition ltdc_read_point :: "'s ltdc_hw \<Rightarrow> u16 \<Rightarrow> u16 \<Rightarrow> 's screen \<Rightarrow> (u32 \<times> 's screen) option" where
  "ltdc_read_point h x y s = do {
     fb \<leftarrow> arr_get (g_ltdc_framebuf s) (unat (activelayer (lcdltdc s)));
     let (c, t) = load16 h (point_addr (lcdltdc s) fb x y) (lcd_hw s);
     Some (ucast c, s\<lparr>lcd_hw := t\<rparr>)
   }"

section \<open>Rectangles\<close>

text \<open>The loop that waits for the end of a transfer gives up after \<open>0x200000\<close> looks at the flag.\<close>

fun dma2d_wait :: "'s ltdc_hw \<Rightarrow> nat \<Rightarrow> 's \<Rightarrow> 's" where
  "dma2d_wait h 0 s = s"
| "dma2d_wait h (Suc rounds) s =
     (case dma2d_get h DMA2D_ISR s of (v, t) \<Rightarrow> if v AND DMA2D_FLAG_TC \<noteq> 0 then t else dma2d_wait h rounds t)"

definition dma2d_change :: "'s ltdc_hw \<Rightarrow> dma2d_reg \<Rightarrow> (u32 \<Rightarrow> u32) \<Rightarrow> 's \<Rightarrow> 's" where
  "dma2d_change h r f s = (case dma2d_get h r s of (v, t) \<Rightarrow> dma2d_set h r (f v) t)"

text \<open>The rectangle in coordinates of the panel: first column and row, last column and row.\<close>

definition fill_rectangle :: "ltdc_dev \<Rightarrow> u16 \<Rightarrow> u16 \<Rightarrow> u16 \<Rightarrow> u16 \<Rightarrow> u32 \<times> u32 \<times> u32 \<times> u32" where
  "fill_rectangle d sx sy ex ey =
     (if ltdc_dir d \<noteq> 0 then (ucast sx, ucast sy, ucast ex, ucast ey)
      else
        let ex' = (if ucast ex \<ge> pheight d then ucast (pheight d - 1) else ex);
            sx' = (if ucast sx \<ge> pheight d then ucast (pheight d - 1) else sx)
        in (ucast sy, pheight d - ucast ex' - 1, ucast ey, pheight d - ucast sx' - 1))"

definition ltdc_fill :: "'s ltdc_hw \<Rightarrow> u16 \<Rightarrow> u16 \<Rightarrow> u16 \<Rightarrow> u16 \<Rightarrow> u32 \<Rightarrow> 's screen \<Rightarrow> 's screen option" where
  "ltdc_fill h sx sy ex ey color s = do {
     fb \<leftarrow> arr_get (g_ltdc_framebuf s) (unat (activelayer (lcdltdc s)));
     let d = lcdltdc s;
     let (psx, psy, pex, pey) = fill_rectangle d sx sy ex ey;
     let offline = (ucast (pwidth d - (pex - psx + 1)) :: u16);
     let addr = panel_addr d fb psx psy;
     let s1 = dma2d_clock h (lcd_hw s);
     let s2 = dma2d_change h DMA2D_CR (\<lambda>v. v AND NOT DMA2D_CR_START) s1;
     let s3 = dma2d_set h DMA2D_CR DMA2D_R2M s2;
     let s4 = dma2d_set h DMA2D_OPFCCR LTDC_PIXFORMAT s3;
     let s5 = dma2d_set h DMA2D_OOR (ucast offline) s4;
     let s6 = dma2d_set h DMA2D_OMAR addr s5;
     let s7 = dma2d_set h DMA2D_NLR ((pey - psy + 1) OR push_bit 16 (pex - psx + 1)) s6;
     let s8 = dma2d_set h DMA2D_OCOLR color s7;
     let s9 = dma2d_change h DMA2D_CR (\<lambda>v. v OR DMA2D_CR_START) s8;
     let s10 = dma2d_wait h 0x200000 s9;
     Some (s\<lparr>lcd_hw := dma2d_change h DMA2D_IFCR (\<lambda>v. v OR DMA2D_FLAG_TC) s10\<rparr>)
   }"

definition color_rectangle :: "ltdc_dev \<Rightarrow> u16 \<Rightarrow> u16 \<Rightarrow> u16 \<Rightarrow> u16 \<Rightarrow> u32 \<times> u32 \<times> u32 \<times> u32" where
  "color_rectangle d sx sy ex ey =
     (if ltdc_dir d \<noteq> 0 then (ucast sx, ucast sy, ucast ex, ucast ey)
      else (ucast sy, pheight d - ucast ex - 1, ucast ey, pheight d - ucast sx - 1))"

definition ltdc_color_fill :: "'s ltdc_hw \<Rightarrow> u16 \<Rightarrow> u16 \<Rightarrow> u16 \<Rightarrow> u16 \<Rightarrow> u32 \<Rightarrow> 's screen \<Rightarrow> 's screen option" where
  "ltdc_color_fill h sx sy ex ey color s = do {
     fb \<leftarrow> arr_get (g_ltdc_framebuf s) (unat (activelayer (lcdltdc s)));
     let d = lcdltdc s;
     let (psx, psy, pex, pey) = color_rectangle d sx sy ex ey;
     let offline = (ucast (pwidth d - (pex - psx + 1)) :: u16);
     let addr = panel_addr d fb psx psy;
     let s1 = dma2d_clock h (lcd_hw s);
     let s2 = dma2d_set h DMA2D_CR 0 s1;
     let s3 = dma2d_set h DMA2D_FGPFCCR LTDC_PIXFORMAT s2;
     let s4 = dma2d_set h DMA2D_FGOR 0 s3;
     let s5 = dma2d_set h DMA2D_OOR (ucast offline) s4;
     let s6 = dma2d_change h DMA2D_CR (\<lambda>v. v AND NOT 1) s5;
     let s7 = dma2d_set h DMA2D_FGMAR color s6;
     let s8 = dma2d_set h DMA2D_OMAR addr s7;
     let s9 = dma2d_set h DMA2D_NLR ((pey - psy + 1) OR push_bit 16 (pex - psx + 1)) s8;
     let s10 = dma2d_change h DMA2D_CR (\<lambda>v. v OR 1) s9;
     let s11 = dma2d_wait h 0x200000 s10;
     Some (s\<lparr>lcd_hw := dma2d_change h DMA2D_IFCR (\<lambda>v. v OR 2) s11\<rparr>)
   }"

definition ltdc_clear :: "'s ltdc_hw \<Rightarrow> u32 \<Rightarrow> 's screen \<Rightarrow> 's screen option" where
  "ltdc_clear h color s = ltdc_fill h 0 0 (ltdc_width (lcdltdc s) - 1) (ltdc_height (lcdltdc s) - 1) color s"

section \<open>Initialisation\<close>

definition RCC_PLLSAIDIVR_4 :: u32 where "RCC_PLLSAIDIVR_4 = 0x10000"
definition RCC_PLLSAIDIVR_8 :: u32 where "RCC_PLLSAIDIVR_8 = 0x20000"
definition LTDC_PCPOLARITY_IPC :: u32 where "LTDC_PCPOLARITY_IPC = 0"
definition LTDC_PCPOLARITY_IIPC :: u32 where "LTDC_PCPOLARITY_IIPC = 0x10000000"

definition ltdc_clk_set :: "'s ltdc_hw \<Rightarrow> u32 \<Rightarrow> u32 \<Rightarrow> u32 \<Rightarrow> 's \<Rightarrow> u8 \<times> 's" where
  "ltdc_clk_set h pllsain pllsair pllsaidivr s =
     (case HAL_RCCEx_PeriphCLKConfig h pllsain pllsair pllsaidivr s of (r, t) \<Rightarrow> (if r = 0 then 0 else 1, t))"

definition ltdc_layer_window_config :: "'s ltdc_hw \<Rightarrow> u8 \<Rightarrow> u16 \<Rightarrow> u16 \<Rightarrow> u16 \<Rightarrow> u16 \<Rightarrow> 's \<Rightarrow> 's" where
  "ltdc_layer_window_config h layerx sx sy width height s =
     HAL_LTDC_SetWindowSize h width height layerx (HAL_LTDC_SetWindowPosition h sx sy layerx s)"

text \<open>The cast of the colour binds tighter than the shift, so red and green come out as zero.\<close>

definition layer_backcolor :: "u32 \<Rightarrow> u8 \<times> u8 \<times> u8" where
  "layer_backcolor bkcolor =
     (drop_bit 16 (ucast (bkcolor AND 0x00FF0000)), drop_bit 8 (ucast (bkcolor AND 0x0000FF00)), ucast bkcolor AND 0xFF)"

definition ltdc_layer_parameter_config ::
  "'s ltdc_hw \<Rightarrow> u8 \<Rightarrow> u32 \<Rightarrow> u8 \<Rightarrow> u8 \<Rightarrow> u8 \<Rightarrow> u8 \<Rightarrow> u8 \<Rightarrow> u32 \<Rightarrow> ltdc_dev \<Rightarrow> 's \<Rightarrow> 's" where
  "ltdc_layer_parameter_config h layerx bufaddr pixformat alpha alpha0 bfac1 bfac2 bkcolor d s =
     HAL_LTDC_ConfigLayer h
       \<lparr>WindowX0 = 0, WindowX1 = pwidth d, WindowY0 = 0, WindowY1 = pheight d, PixelFormat = ucast pixformat,
        Alpha = ucast alpha, Alpha0 = ucast alpha0, BlendingFactor1 = push_bit 8 (ucast bfac1), BlendingFactor2 = ucast bfac2,
        FBStartAdress = bufaddr, ImageWidth = pwidth d, ImageHeight = pheight d, Backcolor = layer_backcolor bkcolor\<rparr>
       layerx s"

definition panel_of_index :: "u8 \<Rightarrow> u16" where
  "panel_of_index idx =
     (if idx = 0 then 0x4342 else if idx = 1 then 0x7084 else if idx = 2 then 0x7016
      else if idx = 3 then 0x7018 else if idx = 4 then 0x4384 else if idx = 5 then 0x1018 else 0)"

definition ltdc_panelid_read :: "'s ltdc_hw \<Rightarrow> 's \<Rightarrow> u16 \<times> 's" where
  "ltdc_panelid_read h s =
     (let (m0, s1) = panel_pin_read h PG6 (panel_pins_init h s);
          (m1, s2) = panel_pin_read h PI2 s1;
          (m2, s3) = panel_pin_read h PI7 s2
      in (panel_of_index (m0 OR push_bit 1 m1 OR push_bit 2 m2), s3))"

text \<open>The size and the timing of a panel, and its clock: nothing is set for a panel that is not known.\<close>

definition panel_parameters :: "u16 \<Rightarrow> ltdc_dev \<Rightarrow> ltdc_dev \<times> (u32 \<times> u32 \<times> u32) option" where
  "panel_parameters ltdcid d =
     (if ltdcid = 0x4342 then
        (d\<lparr>pwidth := 480, pheight := 272, hsw := 1, vsw := 1, hbp := 40, vbp := 8, hfp := 5, vfp := 8\<rparr>, Some (288, 4, RCC_PLLSAIDIVR_8))
      else if ltdcid = 0x7084 then
        (d\<lparr>pwidth := 800, pheight := 480, hsw := 1, vsw := 1, hbp := 46, vbp := 23, hfp := 210, vfp := 22\<rparr>, Some (396, 3, RCC_PLLSAIDIVR_4))
      else if ltdcid = 0x7016 then
        (d\<lparr>pwidth := 1024, pheight := 600, hsw := 20, vsw := 3, hbp := 140, vbp := 20, hfp := 160, vfp := 12\<rparr>, Some (360, 2, RCC_PLLSAIDIVR_4))
      else if ltdcid = 0x7018 then (d\<lparr>pwidth := 1280, pheight := 800\<rparr>, None)
      else if ltdcid = 0x4384 then
        (d\<lparr>pwidth := 800, pheight := 480, hbp := 88, hfp := 40, hsw := 48, vbp := 32, vfp := 13, vsw := 3\<rparr>, Some (396, 3, RCC_PLLSAIDIVR_4))
      else if ltdcid = 0x1018 then
        (d\<lparr>pwidth := 1280, pheight := 800, hbp := 140, hfp := 10, hsw := 10, vbp := 10, vfp := 10, vsw := 3\<rparr>, Some (360, 2, RCC_PLLSAIDIVR_4))
      else (d, None))"

definition panel_timing :: "u16 \<Rightarrow> ltdc_dev \<Rightarrow> ltdc_timing" where
  "panel_timing ltdcid d =
     (let hs = ucast (hsw d); vs = ucast (vsw d); hb = ucast (hbp d); vb = ucast (vbp d); hf = ucast (hfp d); vf = ucast (vfp d)
      in \<lparr>PCPolarity = if ltdcid = 0x1018 then LTDC_PCPOLARITY_IIPC else LTDC_PCPOLARITY_IPC,
          HorizontalSync = hs - 1, VerticalSync = vs - 1, AccumulatedHBP = hs + hb - 1, AccumulatedVBP = vs + vb - 1,
          AccumulatedActiveW = hs + hb + pwidth d - 1, AccumulatedActiveH = vs + vb + pheight d - 1,
          TotalWidth = hs + hb + pwidth d + hf - 1, TotalHeigh = vs + vb + pheight d + vf - 1\<rparr>)"

text \<open>\<open>ltdc_lcd_framebuf\<close> is the address of the array of points.\<close>

definition LTDC_FRAME_BUF_ADDR :: u32 where "LTDC_FRAME_BUF_ADDR = 0xC0000000"

definition ltdc_init :: "'s ltdc_hw \<Rightarrow> 's screen \<Rightarrow> 's screen option" where
  "ltdc_init h s = do {
     let (ltdcid, s1) = ltdc_panelid_read h (lcd_hw s);
     let (d, clk) = panel_parameters ltdcid (lcdltdc s);
     let s2 = (case clk of None \<Rightarrow> s1 | Some (n, r, q) \<Rightarrow> snd (ltdc_clk_set h n r q s1));
     let dev = (lcddev s)\<lparr>lcd_width := ucast (pwidth d), lcd_height := ucast (pheight d)\<rparr>;
     fbs \<leftarrow> arr_set (g_ltdc_framebuf s) 0 LTDC_FRAME_BUF_ADDR;
     let d2 = d\<lparr>pixsize := 2\<rparr>;
     let s3 = HAL_LTDC_Init h (panel_timing ltdcid d2) s2;
     let s4 = ltdc_layer_parameter_config h 0 LTDC_FRAME_BUF_ADDR (ucast LTDC_PIXFORMAT) 255 0 6 7 0 d2 s3;
     let s5 = ltdc_layer_window_config h 0 0 0 (ucast (pwidth d2)) (ucast (pheight d2)) s4;
     let t = ltdc_select_layer 0 (s\<lparr>lcddev := dev, lcdltdc := d2, g_ltdc_framebuf := fbs, lcd_hw := s5\<rparr>);
     ltdc_clear h 0xFFFFFFFF (on_hw (ltdc_backlight h True) t)
   }"

end
