(* ===== verification/Lcd_Ex.thy ===== *)
theory Lcd_Ex
  imports Apollo_Prelude
begin

text \<open>
  The initialisation sequences of \<open>lcd_ex.c\<close> for the five display controllers: what is written to
  the index register and to the data register, and the waits, in the order of the code.
\<close>

datatype panel_step = Reg u16 | Ram u16 | Wait_ms u16 | Wait_us u32

definition lcd_ex_st7789_reginit :: "panel_step list" where
  "lcd_ex_st7789_reginit =
   [Reg 0x11, Wait_ms 120, Reg 0x36, Ram 0x0, Reg 0x3A, Ram 0x5, Reg 0xB2, Ram 0xC, Ram 0xC, Ram 0x0, Ram 0x33,
    Ram 0x33, Reg 0xB7, Ram 0x35, Reg 0xBB, Ram 0x32, Reg 0xC0, Ram 0xC, Reg 0xC2, Ram 0x1, Reg 0xC3, Ram 0x10,
    Reg 0xC4, Ram 0x20, Reg 0xC6, Ram 0xF, Reg 0xD0, Ram 0xA4, Ram 0xA1, Reg 0xE0, Ram 0xD0, Ram 0x0, Ram 0x2,
    Ram 0x7, Ram 0xA, Ram 0x28, Ram 0x32, Ram 0x44, Ram 0x42, Ram 0x6, Ram 0xE, Ram 0x12, Ram 0x14, Ram 0x17,
    Reg 0xE1, Ram 0xD0, Ram 0x0, Ram 0x2, Ram 0x7, Ram 0xA, Ram 0x28, Ram 0x31, Ram 0x54, Ram 0x47, Ram 0xE,
    Ram 0x1C, Ram 0x17, Ram 0x1B, Ram 0x1E, Reg 0x2A, Ram 0x0, Ram 0x0, Ram 0x0, Ram 0xEF, Reg 0x2B, Ram 0x0,
    Ram 0x0, Ram 0x1, Ram 0x3F, Reg 0x29]"

definition lcd_ex_ili9341_reginit :: "panel_step list" where
  "lcd_ex_ili9341_reginit =
   [Reg 0xCF, Ram 0x0, Ram 0xC1, Ram 0x30, Reg 0xED, Ram 0x64, Ram 0x3, Ram 0x12, Ram 0x81, Reg 0xE8, Ram 0x85,
    Ram 0x10, Ram 0x7A, Reg 0xCB, Ram 0x39, Ram 0x2C, Ram 0x0, Ram 0x34, Ram 0x2, Reg 0xF7, Ram 0x20, Reg 0xEA,
    Ram 0x0, Ram 0x0, Reg 0xC0, Ram 0x1B, Reg 0xC1, Ram 0x1, Reg 0xC5, Ram 0x30, Ram 0x30, Reg 0xC7, Ram 0xB7,
    Reg 0x36, Ram 0x48, Reg 0x3A, Ram 0x55, Reg 0xB1, Ram 0x0, Ram 0x1A, Reg 0xB6, Ram 0xA, Ram 0xA2, Reg 0xF2,
    Ram 0x0, Reg 0x26, Ram 0x1, Reg 0xE0, Ram 0xF, Ram 0x2A, Ram 0x28, Ram 0x8, Ram 0xE, Ram 0x8, Ram 0x54,
    Ram 0xA9, Ram 0x43, Ram 0xA, Ram 0xF, Ram 0x0, Ram 0x0, Ram 0x0, Ram 0x0, Reg 0xE1, Ram 0x0, Ram 0x15,
    Ram 0x17, Ram 0x7, Ram 0x11, Ram 0x6, Ram 0x2B, Ram 0x56, Ram 0x3C, Ram 0x5, Ram 0x10, Ram 0xF, Ram 0x3F,
    Ram 0x3F, Ram 0xF, Reg 0x2B, Ram 0x0, Ram 0x0, Ram 0x1, Ram 0x3F, Reg 0x2A, Ram 0x0, Ram 0x0, Ram 0x0,
    Ram 0xEF, Reg 0x11, Wait_ms 120, Reg 0x29]"

definition lcd_ex_nt35310_reginit :: "panel_step list" where
  "lcd_ex_nt35310_reginit =
   [Reg 0xED, Ram 0x1, Ram 0xFE, Reg 0xEE, Ram 0xDE, Ram 0x21, Reg 0xF1, Ram 0x1, Reg 0xDF, Ram 0x10, Reg 0xC4,
    Ram 0x8F, Reg 0xC6, Ram 0x0, Ram 0xE2, Ram 0xE2, Ram 0xE2, Reg 0xBF, Ram 0xAA, Reg 0xB0, Ram 0xD, Ram 0x0,
    Ram 0xD, Ram 0x0, Ram 0x11, Ram 0x0, Ram 0x19, Ram 0x0, Ram 0x21, Ram 0x0, Ram 0x2D, Ram 0x0, Ram 0x3D,
    Ram 0x0, Ram 0x5D, Ram 0x0, Ram 0x5D, Ram 0x0, Reg 0xB1, Ram 0x80, Ram 0x0, Ram 0x8B, Ram 0x0, Ram 0x96,
    Ram 0x0, Reg 0xB2, Ram 0x0, Ram 0x0, Ram 0x2, Ram 0x0, Ram 0x3, Ram 0x0, Reg 0xB3, Ram 0x0, Ram 0x0,
    Ram 0x0, Ram 0x0, Ram 0x0, Ram 0x0, Ram 0x0, Ram 0x0, Ram 0x0, Ram 0x0, Ram 0x0, Ram 0x0, Ram 0x0, Ram 0x0,
    Ram 0x0, Ram 0x0, Ram 0x0, Ram 0x0, Ram 0x0, Ram 0x0, Ram 0x0, Ram 0x0, Ram 0x0, Ram 0x0, Reg 0xB4,
    Ram 0x8B, Ram 0x0, Ram 0x96, Ram 0x0, Ram 0xA1, Ram 0x0, Reg 0xB5, Ram 0x2, Ram 0x0, Ram 0x3, Ram 0x0,
    Ram 0x4, Ram 0x0, Reg 0xB6, Ram 0x0, Ram 0x0, Reg 0xB7, Ram 0x0, Ram 0x0, Ram 0x3F, Ram 0x0, Ram 0x5E,
    Ram 0x0, Ram 0x64, Ram 0x0, Ram 0x8C, Ram 0x0, Ram 0xAC, Ram 0x0, Ram 0xDC, Ram 0x0, Ram 0x70, Ram 0x0,
    Ram 0x90, Ram 0x0, Ram 0xEB, Ram 0x0, Ram 0xDC, Ram 0x0, Reg 0xB8, Ram 0x0, Ram 0x0, Ram 0x0, Ram 0x0,
    Ram 0x0, Ram 0x0, Ram 0x0, Ram 0x0, Reg 0xBA, Ram 0x24, Ram 0x0, Ram 0x0, Ram 0x0, Reg 0xC1, Ram 0x20,
    Ram 0x0, Ram 0x54, Ram 0x0, Ram 0xFF, Ram 0x0, Reg 0xC2, Ram 0xA, Ram 0x0, Ram 0x4, Ram 0x0, Reg 0xC3,
    Ram 0x3C, Ram 0x0, Ram 0x3A, Ram 0x0, Ram 0x39, Ram 0x0, Ram 0x37, Ram 0x0, Ram 0x3C, Ram 0x0, Ram 0x36,
    Ram 0x0, Ram 0x32, Ram 0x0, Ram 0x2F, Ram 0x0, Ram 0x2C, Ram 0x0, Ram 0x29, Ram 0x0, Ram 0x26, Ram 0x0,
    Ram 0x24, Ram 0x0, Ram 0x24, Ram 0x0, Ram 0x23, Ram 0x0, Ram 0x3C, Ram 0x0, Ram 0x36, Ram 0x0, Ram 0x32,
    Ram 0x0, Ram 0x2F, Ram 0x0, Ram 0x2C, Ram 0x0, Ram 0x29, Ram 0x0, Ram 0x26, Ram 0x0, Ram 0x24, Ram 0x0,
    Ram 0x24, Ram 0x0, Ram 0x23, Ram 0x0, Reg 0xC4, Ram 0x62, Ram 0x0, Ram 0x5, Ram 0x0, Ram 0x84, Ram 0x0,
    Ram 0xF0, Ram 0x0, Ram 0x18, Ram 0x0, Ram 0xA4, Ram 0x0, Ram 0x18, Ram 0x0, Ram 0x50, Ram 0x0, Ram 0xC,
    Ram 0x0, Ram 0x17, Ram 0x0, Ram 0x95, Ram 0x0, Ram 0xF3, Ram 0x0, Ram 0xE6, Ram 0x0, Reg 0xC5, Ram 0x32,
    Ram 0x0, Ram 0x44, Ram 0x0, Ram 0x65, Ram 0x0, Ram 0x76, Ram 0x0, Ram 0x88, Ram 0x0, Reg 0xC6, Ram 0x20,
    Ram 0x0, Ram 0x17, Ram 0x0, Ram 0x1, Ram 0x0, Reg 0xC7, Ram 0x0, Ram 0x0, Ram 0x0, Ram 0x0, Reg 0xC8,
    Ram 0x0, Ram 0x0, Ram 0x0, Ram 0x0, Reg 0xC9, Ram 0x0, Ram 0x0, Ram 0x0, Ram 0x0, Ram 0x0, Ram 0x0,
    Ram 0x0, Ram 0x0, Ram 0x0, Ram 0x0, Ram 0x0, Ram 0x0, Ram 0x0, Ram 0x0, Ram 0x0, Ram 0x0, Reg 0xE0,
    Ram 0x16, Ram 0x0, Ram 0x1C, Ram 0x0, Ram 0x21, Ram 0x0, Ram 0x36, Ram 0x0, Ram 0x46, Ram 0x0, Ram 0x52,
    Ram 0x0, Ram 0x64, Ram 0x0, Ram 0x7A, Ram 0x0, Ram 0x8B, Ram 0x0, Ram 0x99, Ram 0x0, Ram 0xA8, Ram 0x0,
    Ram 0xB9, Ram 0x0, Ram 0xC4, Ram 0x0, Ram 0xCA, Ram 0x0, Ram 0xD2, Ram 0x0, Ram 0xD9, Ram 0x0, Ram 0xE0,
    Ram 0x0, Ram 0xF3, Ram 0x0, Reg 0xE1, Ram 0x16, Ram 0x0, Ram 0x1C, Ram 0x0, Ram 0x22, Ram 0x0, Ram 0x36,
    Ram 0x0, Ram 0x45, Ram 0x0, Ram 0x52, Ram 0x0, Ram 0x64, Ram 0x0, Ram 0x7A, Ram 0x0, Ram 0x8B, Ram 0x0,
    Ram 0x99, Ram 0x0, Ram 0xA8, Ram 0x0, Ram 0xB9, Ram 0x0, Ram 0xC4, Ram 0x0, Ram 0xCA, Ram 0x0, Ram 0xD2,
    Ram 0x0, Ram 0xD8, Ram 0x0, Ram 0xE0, Ram 0x0, Ram 0xF3, Ram 0x0, Reg 0xE2, Ram 0x5, Ram 0x0, Ram 0xB,
    Ram 0x0, Ram 0x1B, Ram 0x0, Ram 0x34, Ram 0x0, Ram 0x44, Ram 0x0, Ram 0x4F, Ram 0x0, Ram 0x61, Ram 0x0,
    Ram 0x79, Ram 0x0, Ram 0x88, Ram 0x0, Ram 0x97, Ram 0x0, Ram 0xA6, Ram 0x0, Ram 0xB7, Ram 0x0, Ram 0xC2,
    Ram 0x0, Ram 0xC7, Ram 0x0, Ram 0xD1, Ram 0x0, Ram 0xD6, Ram 0x0, Ram 0xDD, Ram 0x0, Ram 0xF3, Ram 0x0,
    Reg 0xE3, Ram 0x5, Ram 0x0, Ram 0xA, Ram 0x0, Ram 0x1C, Ram 0x0, Ram 0x33, Ram 0x0, Ram 0x44, Ram 0x0,
    Ram 0x50, Ram 0x0, Ram 0x62, Ram 0x0, Ram 0x78, Ram 0x0, Ram 0x88, Ram 0x0, Ram 0x97, Ram 0x0, Ram 0xA6,
    Ram 0x0, Ram 0xB7, Ram 0x0, Ram 0xC2, Ram 0x0, Ram 0xC7, Ram 0x0, Ram 0xD1, Ram 0x0, Ram 0xD5, Ram 0x0,
    Ram 0xDD, Ram 0x0, Ram 0xF3, Ram 0x0, Reg 0xE4, Ram 0x1, Ram 0x0, Ram 0x1, Ram 0x0, Ram 0x2, Ram 0x0,
    Ram 0x2A, Ram 0x0, Ram 0x3C, Ram 0x0, Ram 0x4B, Ram 0x0, Ram 0x5D, Ram 0x0, Ram 0x74, Ram 0x0, Ram 0x84,
    Ram 0x0, Ram 0x93, Ram 0x0, Ram 0xA2, Ram 0x0, Ram 0xB3, Ram 0x0, Ram 0xBE, Ram 0x0, Ram 0xC4, Ram 0x0,
    Ram 0xCD, Ram 0x0, Ram 0xD3, Ram 0x0, Ram 0xDD, Ram 0x0, Ram 0xF3, Ram 0x0, Reg 0xE5, Ram 0x0, Ram 0x0,
    Ram 0x0, Ram 0x0, Ram 0x2, Ram 0x0, Ram 0x29, Ram 0x0, Ram 0x3C, Ram 0x0, Ram 0x4B, Ram 0x0, Ram 0x5D,
    Ram 0x0, Ram 0x74, Ram 0x0, Ram 0x84, Ram 0x0, Ram 0x93, Ram 0x0, Ram 0xA2, Ram 0x0, Ram 0xB3, Ram 0x0,
    Ram 0xBE, Ram 0x0, Ram 0xC4, Ram 0x0, Ram 0xCD, Ram 0x0, Ram 0xD3, Ram 0x0, Ram 0xDC, Ram 0x0, Ram 0xF3,
    Ram 0x0, Reg 0xE6, Ram 0x11, Ram 0x0, Ram 0x34, Ram 0x0, Ram 0x56, Ram 0x0, Ram 0x76, Ram 0x0, Ram 0x77,
    Ram 0x0, Ram 0x66, Ram 0x0, Ram 0x88, Ram 0x0, Ram 0x99, Ram 0x0, Ram 0xBB, Ram 0x0, Ram 0x99, Ram 0x0,
    Ram 0x66, Ram 0x0, Ram 0x55, Ram 0x0, Ram 0x55, Ram 0x0, Ram 0x45, Ram 0x0, Ram 0x43, Ram 0x0, Ram 0x44,
    Ram 0x0, Reg 0xE7, Ram 0x32, Ram 0x0, Ram 0x55, Ram 0x0, Ram 0x76, Ram 0x0, Ram 0x66, Ram 0x0, Ram 0x67,
    Ram 0x0, Ram 0x67, Ram 0x0, Ram 0x87, Ram 0x0, Ram 0x99, Ram 0x0, Ram 0xBB, Ram 0x0, Ram 0x99, Ram 0x0,
    Ram 0x77, Ram 0x0, Ram 0x44, Ram 0x0, Ram 0x56, Ram 0x0, Ram 0x23, Ram 0x0, Ram 0x33, Ram 0x0, Ram 0x45,
    Ram 0x0, Reg 0xE8, Ram 0x0, Ram 0x0, Ram 0x99, Ram 0x0, Ram 0x87, Ram 0x0, Ram 0x88, Ram 0x0, Ram 0x77,
    Ram 0x0, Ram 0x66, Ram 0x0, Ram 0x88, Ram 0x0, Ram 0xAA, Ram 0x0, Ram 0xBB, Ram 0x0, Ram 0x99, Ram 0x0,
    Ram 0x66, Ram 0x0, Ram 0x55, Ram 0x0, Ram 0x55, Ram 0x0, Ram 0x44, Ram 0x0, Ram 0x44, Ram 0x0, Ram 0x55,
    Ram 0x0, Reg 0xE9, Ram 0xAA, Ram 0x0, Ram 0x0, Ram 0x0, Reg 0x0, Ram 0xAA, Reg 0xCF, Ram 0x0, Ram 0x0,
    Ram 0x0, Ram 0x0, Ram 0x0, Ram 0x0, Ram 0x0, Ram 0x0, Ram 0x0, Ram 0x0, Ram 0x0, Ram 0x0, Ram 0x0, Ram 0x0,
    Ram 0x0, Ram 0x0, Ram 0x0, Reg 0xF0, Ram 0x0, Ram 0x50, Ram 0x0, Ram 0x0, Ram 0x0, Reg 0xF3, Ram 0x0,
    Reg 0xF9, Ram 0x6, Ram 0x10, Ram 0x29, Ram 0x0, Reg 0x3A, Ram 0x55, Reg 0x11, Wait_ms 100, Reg 0x29,
    Reg 0x35, Ram 0x0, Reg 0x51, Ram 0xFF, Reg 0x53, Ram 0x2C, Reg 0x55, Ram 0x82, Reg 0x2C]"

definition lcd_ex_nt35510_reginit :: "panel_step list" where
  "lcd_ex_nt35510_reginit =
   [Reg 0xF000, Ram 0x55, Reg 0xF001, Ram 0xAA, Reg 0xF002, Ram 0x52, Reg 0xF003, Ram 0x8, Reg 0xF004, Ram 0x1,
    Reg 0xB000, Ram 0xD, Reg 0xB001, Ram 0xD, Reg 0xB002, Ram 0xD, Reg 0xB600, Ram 0x34, Reg 0xB601, Ram 0x34,
    Reg 0xB602, Ram 0x34, Reg 0xB100, Ram 0xD, Reg 0xB101, Ram 0xD, Reg 0xB102, Ram 0xD, Reg 0xB700, Ram 0x34,
    Reg 0xB701, Ram 0x34, Reg 0xB702, Ram 0x34, Reg 0xB200, Ram 0x0, Reg 0xB201, Ram 0x0, Reg 0xB202, Ram 0x0,
    Reg 0xB800, Ram 0x24, Reg 0xB801, Ram 0x24, Reg 0xB802, Ram 0x24, Reg 0xBF00, Ram 0x1, Reg 0xB300, Ram 0xF,
    Reg 0xB301, Ram 0xF, Reg 0xB302, Ram 0xF, Reg 0xB900, Ram 0x34, Reg 0xB901, Ram 0x34, Reg 0xB902, Ram 0x34,
    Reg 0xB500, Ram 0x8, Reg 0xB501, Ram 0x8, Reg 0xB502, Ram 0x8, Reg 0xC200, Ram 0x3, Reg 0xBA00, Ram 0x24,
    Reg 0xBA01, Ram 0x24, Reg 0xBA02, Ram 0x24, Reg 0xBC00, Ram 0x0, Reg 0xBC01, Ram 0x78, Reg 0xBC02, Ram 0x0,
    Reg 0xBD00, Ram 0x0, Reg 0xBD01, Ram 0x78, Reg 0xBD02, Ram 0x0, Reg 0xBE00, Ram 0x0, Reg 0xBE01, Ram 0x64,
    Reg 0xD100, Ram 0x0, Reg 0xD101, Ram 0x33, Reg 0xD102, Ram 0x0, Reg 0xD103, Ram 0x34, Reg 0xD104, Ram 0x0,
    Reg 0xD105, Ram 0x3A, Reg 0xD106, Ram 0x0, Reg 0xD107, Ram 0x4A, Reg 0xD108, Ram 0x0, Reg 0xD109, Ram 0x5C,
    Reg 0xD10A, Ram 0x0, Reg 0xD10B, Ram 0x81, Reg 0xD10C, Ram 0x0, Reg 0xD10D, Ram 0xA6, Reg 0xD10E, Ram 0x0,
    Reg 0xD10F, Ram 0xE5, Reg 0xD110, Ram 0x1, Reg 0xD111, Ram 0x13, Reg 0xD112, Ram 0x1, Reg 0xD113, Ram 0x54,
    Reg 0xD114, Ram 0x1, Reg 0xD115, Ram 0x82, Reg 0xD116, Ram 0x1, Reg 0xD117, Ram 0xCA, Reg 0xD118, Ram 0x2,
    Reg 0xD119, Ram 0x0, Reg 0xD11A, Ram 0x2, Reg 0xD11B, Ram 0x1, Reg 0xD11C, Ram 0x2, Reg 0xD11D, Ram 0x34,
    Reg 0xD11E, Ram 0x2, Reg 0xD11F, Ram 0x67, Reg 0xD120, Ram 0x2, Reg 0xD121, Ram 0x84, Reg 0xD122, Ram 0x2,
    Reg 0xD123, Ram 0xA4, Reg 0xD124, Ram 0x2, Reg 0xD125, Ram 0xB7, Reg 0xD126, Ram 0x2, Reg 0xD127, Ram 0xCF,
    Reg 0xD128, Ram 0x2, Reg 0xD129, Ram 0xDE, Reg 0xD12A, Ram 0x2, Reg 0xD12B, Ram 0xF2, Reg 0xD12C, Ram 0x2,
    Reg 0xD12D, Ram 0xFE, Reg 0xD12E, Ram 0x3, Reg 0xD12F, Ram 0x10, Reg 0xD130, Ram 0x3, Reg 0xD131, Ram 0x33,
    Reg 0xD132, Ram 0x3, Reg 0xD133, Ram 0x6D, Reg 0xD200, Ram 0x0, Reg 0xD201, Ram 0x33, Reg 0xD202, Ram 0x0,
    Reg 0xD203, Ram 0x34, Reg 0xD204, Ram 0x0, Reg 0xD205, Ram 0x3A, Reg 0xD206, Ram 0x0, Reg 0xD207, Ram 0x4A,
    Reg 0xD208, Ram 0x0, Reg 0xD209, Ram 0x5C, Reg 0xD20A, Ram 0x0, Reg 0xD20B, Ram 0x81, Reg 0xD20C, Ram 0x0,
    Reg 0xD20D, Ram 0xA6, Reg 0xD20E, Ram 0x0, Reg 0xD20F, Ram 0xE5, Reg 0xD210, Ram 0x1, Reg 0xD211, Ram 0x13,
    Reg 0xD212, Ram 0x1, Reg 0xD213, Ram 0x54, Reg 0xD214, Ram 0x1, Reg 0xD215, Ram 0x82, Reg 0xD216, Ram 0x1,
    Reg 0xD217, Ram 0xCA, Reg 0xD218, Ram 0x2, Reg 0xD219, Ram 0x0, Reg 0xD21A, Ram 0x2, Reg 0xD21B, Ram 0x1,
    Reg 0xD21C, Ram 0x2, Reg 0xD21D, Ram 0x34, Reg 0xD21E, Ram 0x2, Reg 0xD21F, Ram 0x67, Reg 0xD220, Ram 0x2,
    Reg 0xD221, Ram 0x84, Reg 0xD222, Ram 0x2, Reg 0xD223, Ram 0xA4, Reg 0xD224, Ram 0x2, Reg 0xD225, Ram 0xB7,
    Reg 0xD226, Ram 0x2, Reg 0xD227, Ram 0xCF, Reg 0xD228, Ram 0x2, Reg 0xD229, Ram 0xDE, Reg 0xD22A, Ram 0x2,
    Reg 0xD22B, Ram 0xF2, Reg 0xD22C, Ram 0x2, Reg 0xD22D, Ram 0xFE, Reg 0xD22E, Ram 0x3, Reg 0xD22F, Ram 0x10,
    Reg 0xD230, Ram 0x3, Reg 0xD231, Ram 0x33, Reg 0xD232, Ram 0x3, Reg 0xD233, Ram 0x6D, Reg 0xD300, Ram 0x0,
    Reg 0xD301, Ram 0x33, Reg 0xD302, Ram 0x0, Reg 0xD303, Ram 0x34, Reg 0xD304, Ram 0x0, Reg 0xD305, Ram 0x3A,
    Reg 0xD306, Ram 0x0, Reg 0xD307, Ram 0x4A, Reg 0xD308, Ram 0x0, Reg 0xD309, Ram 0x5C, Reg 0xD30A, Ram 0x0,
    Reg 0xD30B, Ram 0x81, Reg 0xD30C, Ram 0x0, Reg 0xD30D, Ram 0xA6, Reg 0xD30E, Ram 0x0, Reg 0xD30F, Ram 0xE5,
    Reg 0xD310, Ram 0x1, Reg 0xD311, Ram 0x13, Reg 0xD312, Ram 0x1, Reg 0xD313, Ram 0x54, Reg 0xD314, Ram 0x1,
    Reg 0xD315, Ram 0x82, Reg 0xD316, Ram 0x1, Reg 0xD317, Ram 0xCA, Reg 0xD318, Ram 0x2, Reg 0xD319, Ram 0x0,
    Reg 0xD31A, Ram 0x2, Reg 0xD31B, Ram 0x1, Reg 0xD31C, Ram 0x2, Reg 0xD31D, Ram 0x34, Reg 0xD31E, Ram 0x2,
    Reg 0xD31F, Ram 0x67, Reg 0xD320, Ram 0x2, Reg 0xD321, Ram 0x84, Reg 0xD322, Ram 0x2, Reg 0xD323, Ram 0xA4,
    Reg 0xD324, Ram 0x2, Reg 0xD325, Ram 0xB7, Reg 0xD326, Ram 0x2, Reg 0xD327, Ram 0xCF, Reg 0xD328, Ram 0x2,
    Reg 0xD329, Ram 0xDE, Reg 0xD32A, Ram 0x2, Reg 0xD32B, Ram 0xF2, Reg 0xD32C, Ram 0x2, Reg 0xD32D, Ram 0xFE,
    Reg 0xD32E, Ram 0x3, Reg 0xD32F, Ram 0x10, Reg 0xD330, Ram 0x3, Reg 0xD331, Ram 0x33, Reg 0xD332, Ram 0x3,
    Reg 0xD333, Ram 0x6D, Reg 0xD400, Ram 0x0, Reg 0xD401, Ram 0x33, Reg 0xD402, Ram 0x0, Reg 0xD403, Ram 0x34,
    Reg 0xD404, Ram 0x0, Reg 0xD405, Ram 0x3A, Reg 0xD406, Ram 0x0, Reg 0xD407, Ram 0x4A, Reg 0xD408, Ram 0x0,
    Reg 0xD409, Ram 0x5C, Reg 0xD40A, Ram 0x0, Reg 0xD40B, Ram 0x81, Reg 0xD40C, Ram 0x0, Reg 0xD40D, Ram 0xA6,
    Reg 0xD40E, Ram 0x0, Reg 0xD40F, Ram 0xE5, Reg 0xD410, Ram 0x1, Reg 0xD411, Ram 0x13, Reg 0xD412, Ram 0x1,
    Reg 0xD413, Ram 0x54, Reg 0xD414, Ram 0x1, Reg 0xD415, Ram 0x82, Reg 0xD416, Ram 0x1, Reg 0xD417, Ram 0xCA,
    Reg 0xD418, Ram 0x2, Reg 0xD419, Ram 0x0, Reg 0xD41A, Ram 0x2, Reg 0xD41B, Ram 0x1, Reg 0xD41C, Ram 0x2,
    Reg 0xD41D, Ram 0x34, Reg 0xD41E, Ram 0x2, Reg 0xD41F, Ram 0x67, Reg 0xD420, Ram 0x2, Reg 0xD421, Ram 0x84,
    Reg 0xD422, Ram 0x2, Reg 0xD423, Ram 0xA4, Reg 0xD424, Ram 0x2, Reg 0xD425, Ram 0xB7, Reg 0xD426, Ram 0x2,
    Reg 0xD427, Ram 0xCF, Reg 0xD428, Ram 0x2, Reg 0xD429, Ram 0xDE, Reg 0xD42A, Ram 0x2, Reg 0xD42B, Ram 0xF2,
    Reg 0xD42C, Ram 0x2, Reg 0xD42D, Ram 0xFE, Reg 0xD42E, Ram 0x3, Reg 0xD42F, Ram 0x10, Reg 0xD430, Ram 0x3,
    Reg 0xD431, Ram 0x33, Reg 0xD432, Ram 0x3, Reg 0xD433, Ram 0x6D, Reg 0xD500, Ram 0x0, Reg 0xD501, Ram 0x33,
    Reg 0xD502, Ram 0x0, Reg 0xD503, Ram 0x34, Reg 0xD504, Ram 0x0, Reg 0xD505, Ram 0x3A, Reg 0xD506, Ram 0x0,
    Reg 0xD507, Ram 0x4A, Reg 0xD508, Ram 0x0, Reg 0xD509, Ram 0x5C, Reg 0xD50A, Ram 0x0, Reg 0xD50B, Ram 0x81,
    Reg 0xD50C, Ram 0x0, Reg 0xD50D, Ram 0xA6, Reg 0xD50E, Ram 0x0, Reg 0xD50F, Ram 0xE5, Reg 0xD510, Ram 0x1,
    Reg 0xD511, Ram 0x13, Reg 0xD512, Ram 0x1, Reg 0xD513, Ram 0x54, Reg 0xD514, Ram 0x1, Reg 0xD515, Ram 0x82,
    Reg 0xD516, Ram 0x1, Reg 0xD517, Ram 0xCA, Reg 0xD518, Ram 0x2, Reg 0xD519, Ram 0x0, Reg 0xD51A, Ram 0x2,
    Reg 0xD51B, Ram 0x1, Reg 0xD51C, Ram 0x2, Reg 0xD51D, Ram 0x34, Reg 0xD51E, Ram 0x2, Reg 0xD51F, Ram 0x67,
    Reg 0xD520, Ram 0x2, Reg 0xD521, Ram 0x84, Reg 0xD522, Ram 0x2, Reg 0xD523, Ram 0xA4, Reg 0xD524, Ram 0x2,
    Reg 0xD525, Ram 0xB7, Reg 0xD526, Ram 0x2, Reg 0xD527, Ram 0xCF, Reg 0xD528, Ram 0x2, Reg 0xD529, Ram 0xDE,
    Reg 0xD52A, Ram 0x2, Reg 0xD52B, Ram 0xF2, Reg 0xD52C, Ram 0x2, Reg 0xD52D, Ram 0xFE, Reg 0xD52E, Ram 0x3,
    Reg 0xD52F, Ram 0x10, Reg 0xD530, Ram 0x3, Reg 0xD531, Ram 0x33, Reg 0xD532, Ram 0x3, Reg 0xD533, Ram 0x6D,
    Reg 0xD600, Ram 0x0, Reg 0xD601, Ram 0x33, Reg 0xD602, Ram 0x0, Reg 0xD603, Ram 0x34, Reg 0xD604, Ram 0x0,
    Reg 0xD605, Ram 0x3A, Reg 0xD606, Ram 0x0, Reg 0xD607, Ram 0x4A, Reg 0xD608, Ram 0x0, Reg 0xD609, Ram 0x5C,
    Reg 0xD60A, Ram 0x0, Reg 0xD60B, Ram 0x81, Reg 0xD60C, Ram 0x0, Reg 0xD60D, Ram 0xA6, Reg 0xD60E, Ram 0x0,
    Reg 0xD60F, Ram 0xE5, Reg 0xD610, Ram 0x1, Reg 0xD611, Ram 0x13, Reg 0xD612, Ram 0x1, Reg 0xD613, Ram 0x54,
    Reg 0xD614, Ram 0x1, Reg 0xD615, Ram 0x82, Reg 0xD616, Ram 0x1, Reg 0xD617, Ram 0xCA, Reg 0xD618, Ram 0x2,
    Reg 0xD619, Ram 0x0, Reg 0xD61A, Ram 0x2, Reg 0xD61B, Ram 0x1, Reg 0xD61C, Ram 0x2, Reg 0xD61D, Ram 0x34,
    Reg 0xD61E, Ram 0x2, Reg 0xD61F, Ram 0x67, Reg 0xD620, Ram 0x2, Reg 0xD621, Ram 0x84, Reg 0xD622, Ram 0x2,
    Reg 0xD623, Ram 0xA4, Reg 0xD624, Ram 0x2, Reg 0xD625, Ram 0xB7, Reg 0xD626, Ram 0x2, Reg 0xD627, Ram 0xCF,
    Reg 0xD628, Ram 0x2, Reg 0xD629, Ram 0xDE, Reg 0xD62A, Ram 0x2, Reg 0xD62B, Ram 0xF2, Reg 0xD62C, Ram 0x2,
    Reg 0xD62D, Ram 0xFE, Reg 0xD62E, Ram 0x3, Reg 0xD62F, Ram 0x10, Reg 0xD630, Ram 0x3, Reg 0xD631, Ram 0x33,
    Reg 0xD632, Ram 0x3, Reg 0xD633, Ram 0x6D, Reg 0xF000, Ram 0x55, Reg 0xF001, Ram 0xAA, Reg 0xF002,
    Ram 0x52, Reg 0xF003, Ram 0x8, Reg 0xF004, Ram 0x0, Reg 0xB100, Ram 0xCC, Reg 0xB101, Ram 0x0, Reg 0xB600,
    Ram 0x5, Reg 0xB700, Ram 0x70, Reg 0xB701, Ram 0x70, Reg 0xB800, Ram 0x1, Reg 0xB801, Ram 0x3, Reg 0xB802,
    Ram 0x3, Reg 0xB803, Ram 0x3, Reg 0xBC00, Ram 0x2, Reg 0xBC01, Ram 0x0, Reg 0xBC02, Ram 0x0, Reg 0xC900,
    Ram 0xD0, Reg 0xC901, Ram 0x2, Reg 0xC902, Ram 0x50, Reg 0xC903, Ram 0x50, Reg 0xC904, Ram 0x50,
    Reg 0x3500, Ram 0x0, Reg 0x3A00, Ram 0x55, Reg 0x1100, Wait_us 120, Reg 0x2900]"

definition lcd_ex_ssd1963_reginit :: "panel_step list" where
  "lcd_ex_ssd1963_reginit =
   [Reg 0xE2, Ram 0x1D, Ram 0x2, Ram 0x4, Wait_us 100, Reg 0xE0, Ram 0x1, Wait_ms 10, Reg 0xE0, Ram 0x3,
    Wait_ms 12, Reg 0x1, Wait_ms 10, Reg 0xE6, Ram 0x2F, Ram 0xFF, Ram 0xFF, Reg 0xB0, Ram 0x20, Ram 0x0,
    Ram 0x3, Ram 0x1, Ram 0x0, Reg 0xB4, Ram 0x4, Ram 0x0, Ram 0x2E, Ram 0x0, Ram 0x0, Ram 0x0, Ram 0x0,
    Reg 0xB6, Ram 0x2, Ram 0x0, Ram 0x17, Ram 0x15, Ram 0x0, Ram 0x0, Reg 0xF0, Ram 0x3, Reg 0x29, Reg 0xD0,
    Ram 0x0, Reg 0xBE, Ram 0x5, Ram 0xFE, Ram 0x1, Ram 0x0, Ram 0x0, Ram 0x0, Reg 0xB8, Ram 0x3, Ram 0x1,
    Reg 0xBA, Ram 0x1]"

end
