(* ===== verification/Lcd.thy ===== *)
theory Lcd
  imports Ltdc Lcd_Ex
begin

text \<open>
  The display driver \<open>lcd.c\<close>: it draws on a panel with an RGB interface through \<open>ltdc.c\<close>, and on a
  panel with a controller of its own through an index register and a data register.
\<close>

record 's lcd_port =
  rgb :: "'s ltdc_hw"
  LCD_REG_set :: "u16 \<Rightarrow> 's \<Rightarrow> 's"
  LCD_RAM_set :: "u16 \<Rightarrow> 's \<Rightarrow> 's"
  LCD_RAM_get :: "'s \<Rightarrow> u16 \<times> 's"
  lcd_delay_ms :: "u16 \<Rightarrow> 's \<Rightarrow> 's"
  lcd_delay_us :: "u32 \<Rightarrow> 's \<Rightarrow> 's"
  lcd_sram_init :: "u32 \<times> u32 \<Rightarrow> u32 \<times> u32 \<Rightarrow> 's \<Rightarrow> 's"
  lcd_write_timing :: "u32 \<times> u32 \<Rightarrow> 's \<Rightarrow> 's"
  LCD_BL :: "bool \<Rightarrow> 's \<Rightarrow> 's"

section \<open>Access to the controller\<close>

definition lcd_wr_data :: "'s lcd_port \<Rightarrow> u16 \<Rightarrow> 's \<Rightarrow> 's" where
  "lcd_wr_data h data = LCD_RAM_set h data"

definition lcd_wr_regno :: "'s lcd_port \<Rightarrow> u16 \<Rightarrow> 's \<Rightarrow> 's" where
  "lcd_wr_regno h regno = LCD_REG_set h regno"

definition lcd_write_reg :: "'s lcd_port \<Rightarrow> u16 \<Rightarrow> u16 \<Rightarrow> 's \<Rightarrow> 's" where
  "lcd_write_reg h regno data s = LCD_RAM_set h data (LCD_REG_set h regno s)"

definition lcd_rd_data :: "'s lcd_port \<Rightarrow> 's \<Rightarrow> u16 \<times> 's" where
  "lcd_rd_data h = LCD_RAM_get h"

text \<open>A sequence of writes and waits.\<close>

fun bus :: "'s lcd_port \<Rightarrow> panel_step list \<Rightarrow> 's \<Rightarrow> 's" where
  "bus h [] s = s"
| "bus h (Reg v # xs) s = bus h xs (lcd_wr_regno h v s)"
| "bus h (Ram v # xs) s = bus h xs (lcd_wr_data h v s)"
| "bus h (Wait_ms n # xs) s = bus h xs (lcd_delay_ms h n s)"
| "bus h (Wait_us n # xs) s = bus h xs (lcd_delay_us h n s)"

definition lcd_write_ram_prepare :: "'s lcd_port \<Rightarrow> 's screen \<Rightarrow> 's screen" where
  "lcd_write_ram_prepare h s = on_hw (LCD_REG_set h (wramcmd (lcddev s))) s"

definition is_rgb :: "'s screen \<Rightarrow> bool" where
  "is_rgb s \<longleftrightarrow> pwidth (lcdltdc s) \<noteq> 0"

section \<open>Cursor, window, direction\<close>

text \<open>High and low byte of a size less one, computed with the sign.\<close>

definition last_hi :: "u16 \<Rightarrow> u16" where "last_hi w = word_of_int ((uint w - 1) div 256)"
definition last_lo :: "u16 \<Rightarrow> u16" where "last_lo w = word_of_int ((uint w - 1) mod 256)"

definition hi8 :: "u16 \<Rightarrow> u16" where "hi8 w = drop_bit 8 w"
definition lo8 :: "u16 \<Rightarrow> u16" where "lo8 w = w AND 0xFF"

definition lcd_set_cursor :: "'s lcd_port \<Rightarrow> u16 \<Rightarrow> u16 \<Rightarrow> 's screen \<Rightarrow> 's screen" where
  "lcd_set_cursor h x y s =
     (let d = lcddev s; sx = setxcmd d; sy = setycmd d in
      on_hw (bus h
        (if lcd_id d = 0x1963 then
           (if lcd_dir d = 0 then
              (let x = lcd_width d - 1 - x in [Reg sx, Ram 0, Ram 0, Ram (hi8 x), Ram (lo8 x)])
            else [Reg sx, Ram (hi8 x), Ram (lo8 x), Ram (last_hi (lcd_width d)), Ram (last_lo (lcd_width d))]) @
           [Reg sy, Ram (hi8 y), Ram (lo8 y), Ram (last_hi (lcd_height d)), Ram (last_lo (lcd_height d))]
         else if lcd_id d = 0x5510 then
           [Reg sx, Ram (hi8 x), Reg (sx + 1), Ram (lo8 x), Reg sy, Ram (hi8 y), Reg (sy + 1), Ram (lo8 y)]
         else
           [Reg sx, Ram (hi8 x), Ram (lo8 x), Reg sy, Ram (hi8 y), Ram (lo8 y)])) s)"

definition turned_dir :: "u8 \<Rightarrow> u8" where
  "turned_dir dir =
     (if dir = 0 then 6 else if dir = 1 then 7 else if dir = 2 then 4 else if dir = 3 then 5
      else if dir = 4 then 1 else if dir = 5 then 0 else if dir = 6 then 3 else if dir = 7 then 2 else dir)"

definition scan_bits :: "u8 \<Rightarrow> u16" where
  "scan_bits dir =
     (if dir = 1 then 0x80 else if dir = 2 then 0x40 else if dir = 3 then 0xC0 else if dir = 4 then 0x20
      else if dir = 5 then 0x60 else if dir = 6 then 0xA0 else if dir = 7 then 0xE0 else 0)"

definition swap_size :: "lcd_dev \<Rightarrow> lcd_dev" where
  "swap_size d = d\<lparr>lcd_width := lcd_height d, lcd_height := lcd_width d\<rparr>"

definition lcd_scan_dir :: "'s lcd_port \<Rightarrow> u8 \<Rightarrow> 's screen \<Rightarrow> 's screen" where
  "lcd_scan_dir h dir0 s =
     (let d = lcddev s;
          dir = (if lcd_dir d = 1 \<and> lcd_id d \<noteq> 0x1963 \<or> lcd_dir d = 0 \<and> lcd_id d = 0x1963 then turned_dir dir0 else dir0);
          dirreg = (if lcd_id d = 0x5510 then 0x3600 else 0x36);
          regval = scan_bits dir OR (if lcd_id d = 0x9341 \<or> lcd_id d = 0x7789 then 0x08 else 0);
          d2 = (if lcd_id d \<noteq> 0x1963 then
                  (if regval AND 0x20 \<noteq> 0 then if lcd_width d < lcd_height d then swap_size d else d
                   else if lcd_width d > lcd_height d then swap_size d else d)
                else d);
          sx = setxcmd d2; sy = setycmd d2; w = lcd_width d2; ht = lcd_height d2
      in on_hw (\<lambda>t. bus h
           (if lcd_id d = 0x5510 then
              [Reg sx, Ram 0, Reg (sx + 1), Ram 0, Reg (sx + 2), Ram (last_hi w), Reg (sx + 3), Ram (last_lo w),
               Reg sy, Ram 0, Reg (sy + 1), Ram 0, Reg (sy + 2), Ram (last_hi ht), Reg (sy + 3), Ram (last_lo ht)]
            else
              [Reg sx, Ram 0, Ram 0, Ram (last_hi w), Ram (last_lo w), Reg sy, Ram 0, Ram 0, Ram (last_hi ht), Ram (last_lo ht)])
           (lcd_write_reg h dirreg regval t)) (s\<lparr>lcddev := d2\<rparr>))"

text \<open>The commands and the size of a controller in a direction.\<close>

definition controller_setup :: "u8 \<Rightarrow> lcd_dev \<Rightarrow> lcd_dev" where
  "controller_setup dir d =
     (if dir = 0 then
        (let d1 = d\<lparr>lcd_width := 240, lcd_height := 320\<rparr>;
             d2 = (if lcd_id d = 0x5510 then d1\<lparr>wramcmd := 0x2C00, setxcmd := 0x2A00, setycmd := 0x2B00, lcd_width := 480, lcd_height := 800\<rparr>
                   else if lcd_id d = 0x1963 then d1\<lparr>wramcmd := 0x2C, setxcmd := 0x2B, setycmd := 0x2A, lcd_width := 480, lcd_height := 800\<rparr>
                   else d1\<lparr>wramcmd := 0x2C, setxcmd := 0x2A, setycmd := 0x2B\<rparr>)
         in if lcd_id d = 0x5310 then d2\<lparr>lcd_width := 320, lcd_height := 480\<rparr> else d2)
      else
        (let d1 = d\<lparr>lcd_width := 320, lcd_height := 240\<rparr>;
             d2 = (if lcd_id d = 0x5510 then d1\<lparr>wramcmd := 0x2C00, setxcmd := 0x2A00, setycmd := 0x2B00, lcd_width := 800, lcd_height := 480\<rparr>
                   else if lcd_id d = 0x1963 then d1\<lparr>wramcmd := 0x2C, setxcmd := 0x2A, setycmd := 0x2B, lcd_width := 800, lcd_height := 480\<rparr>
                   else d1\<lparr>wramcmd := 0x2C, setxcmd := 0x2A, setycmd := 0x2B\<rparr>)
         in if lcd_id d = 0x5310 then d2\<lparr>lcd_width := 480, lcd_height := 320\<rparr> else d2))"

definition DFT_SCAN_DIR :: u8 where "DFT_SCAN_DIR = 0"

definition lcd_display_dir :: "'s lcd_port \<Rightarrow> u8 \<Rightarrow> 's screen \<Rightarrow> 's screen" where
  "lcd_display_dir h dir s0 =
     (let s = s0\<lparr>lcddev := (lcddev s0)\<lparr>lcd_dir := dir\<rparr>\<rparr>
      in if is_rgb s then
           (let t = ltdc_display_dir dir s
            in t\<lparr>lcddev := (lcddev t)\<lparr>lcd_width := ltdc_width (lcdltdc t), lcd_height := ltdc_height (lcdltdc t)\<rparr>\<rparr>)
         else lcd_scan_dir h DFT_SCAN_DIR (s\<lparr>lcddev := controller_setup dir (lcddev s)\<rparr>))"

text \<open>High and low byte of a sum less one, computed with the sign.\<close>

definition sum_hi :: "u16 \<Rightarrow> u16 \<Rightarrow> u16" where "sum_hi a b = word_of_int ((uint a + uint b - 1) div 256)"
definition sum_lo :: "u16 \<Rightarrow> u16 \<Rightarrow> u16" where "sum_lo a b = word_of_int ((uint a + uint b - 1) mod 256)"

definition lcd_set_window :: "'s lcd_port \<Rightarrow> u16 \<Rightarrow> u16 \<Rightarrow> u16 \<Rightarrow> u16 \<Rightarrow> 's screen \<Rightarrow> 's screen" where
  "lcd_set_window h sx sy width height s =
     (let d = lcddev s; xc = setxcmd d; yc = setycmd d; tw = sx + width - 1; th = sy + height - 1 in
      if is_rgb s then s
      else on_hw (bus h
        (if lcd_id d = 0x1963 \<and> lcd_dir d \<noteq> 1 then
           (let sx1 = lcd_width d - width - sx
            in [Reg xc, Ram (hi8 sx1), Ram (lo8 sx1), Ram (sum_hi sx1 width), Ram (sum_lo sx1 width),
                Reg yc, Ram (hi8 sy), Ram (lo8 sy), Ram (hi8 th), Ram (lo8 th)])
         else if lcd_id d = 0x5510 then
           [Reg xc, Ram (hi8 sx), Reg (xc + 1), Ram (lo8 sx), Reg (xc + 2), Ram (hi8 tw), Reg (xc + 3), Ram (lo8 tw),
            Reg yc, Ram (hi8 sy), Reg (yc + 1), Ram (lo8 sy), Reg (yc + 2), Ram (hi8 th), Reg (yc + 3), Ram (lo8 th)]
         else
           [Reg xc, Ram (hi8 sx), Ram (lo8 sx), Ram (hi8 tw), Ram (lo8 tw),
            Reg yc, Ram (hi8 sy), Ram (lo8 sy), Ram (hi8 th), Ram (lo8 th)])) s)"

section \<open>Points\<close>

definition lcd_draw_point :: "'s lcd_port \<Rightarrow> u16 \<Rightarrow> u16 \<Rightarrow> u32 \<Rightarrow> 's screen \<Rightarrow> 's screen option" where
  "lcd_draw_point h x y color s =
     (if is_rgb s then ltdc_draw_point (rgb h) x y color s
      else Some (on_hw (LCD_RAM_set h (ucast color)) (lcd_write_ram_prepare h (lcd_set_cursor h x y s))))"

text \<open>The colour of a point from the two values that a controller answers with.\<close>

definition join_color :: "u16 \<Rightarrow> u16 \<Rightarrow> u32" where
  "join_color r b =
     (let g = push_bit 8 (r AND 0xFF)
      in ucast (push_bit 11 (drop_bit 11 r) OR push_bit 5 (drop_bit 10 g) OR drop_bit 11 b))"

definition lcd_read_point :: "'s lcd_port \<Rightarrow> u16 \<Rightarrow> u16 \<Rightarrow> 's screen \<Rightarrow> (u32 \<times> 's screen) option" where
  "lcd_read_point h x y s =
     (if x \<ge> lcd_width (lcddev s) \<or> y \<ge> lcd_height (lcddev s) then Some (0, s)
      else if is_rgb s then ltdc_read_point (rgb h) x y s
      else
        let pid = lcd_id (lcddev s);
            t = on_hw (lcd_wr_regno h (if pid = 0x5510 then 0x2E00 else 0x2E)) (lcd_set_cursor h x y s);
            (r, s1) = lcd_rd_data h (lcd_hw t)
        in if pid = 0x1963 then Some (ucast r, t\<lparr>lcd_hw := s1\<rparr>)
           else
             let (r, s2) = lcd_rd_data h s1;
                 (b, s3) = lcd_rd_data h s2
             in Some (join_color r b, t\<lparr>lcd_hw := s3\<rparr>))"

definition lcd_display_on :: "'s lcd_port \<Rightarrow> 's screen \<Rightarrow> 's screen" where
  "lcd_display_on h s =
     (if is_rgb s then ltdc_switch (rgb h) 1 s
      else on_hw (lcd_wr_regno h (if lcd_id (lcddev s) = 0x5510 then 0x2900 else 0x29)) s)"

definition lcd_display_off :: "'s lcd_port \<Rightarrow> 's screen \<Rightarrow> 's screen" where
  "lcd_display_off h s =
     (if is_rgb s then ltdc_switch (rgb h) 0 s
      else on_hw (lcd_wr_regno h (if lcd_id (lcddev s) = 0x5510 then 0x2800 else 0x28)) s)"

section \<open>Areas\<close>

fun write_points :: "'s lcd_port \<Rightarrow> nat \<Rightarrow> u16 \<Rightarrow> 's \<Rightarrow> 's" where
  "write_points h 0 color s = s"
| "write_points h (Suc n) color s = write_points h n color (LCD_RAM_set h color s)"

definition lcd_clear :: "'s lcd_port \<Rightarrow> u16 \<Rightarrow> 's screen \<Rightarrow> 's screen option" where
  "lcd_clear h color s =
     (if is_rgb s then ltdc_clear (rgb h) (ucast color) s
      else
        let totalpoint = ucast (lcd_width (lcddev s)) * (ucast (lcd_height (lcddev s)) :: u32)
        in Some (on_hw (write_points h (unat totalpoint) color) (lcd_write_ram_prepare h (lcd_set_cursor h 0 0 s))))"

text \<open>
  The loop over the rows of a rectangle. The row counts in 16 bits, so with the last row \<open>0xFFFF\<close>
  the loop does not end.
\<close>

partial_function (option) fill_rows :: "'s lcd_port \<Rightarrow> u16 \<Rightarrow> u16 \<Rightarrow> u16 \<Rightarrow> u16 \<Rightarrow> u16 \<Rightarrow> 's screen \<Rightarrow> 's screen option" where
  "fill_rows h sx xlen ey color i s =
     (if i \<le> ey
      then fill_rows h sx xlen ey color (i + 1)
             (on_hw (write_points h (unat xlen) color) (lcd_write_ram_prepare h (lcd_set_cursor h sx i s)))
      else Some s)"

declare fill_rows.simps [code]

definition lcd_fill :: "'s lcd_port \<Rightarrow> u16 \<Rightarrow> u16 \<Rightarrow> u16 \<Rightarrow> u16 \<Rightarrow> u32 \<Rightarrow> 's screen \<Rightarrow> 's screen option" where
  "lcd_fill h sx sy ex ey color s =
     (if is_rgb s then ltdc_fill (rgb h) sx sy ex ey color s
      else fill_rows h sx (ex - sx + 1) ey (ucast color) sy s)"

text \<open>
  The points of a row of a block of colours, read from memory one by one. An index into the block
  that does not fit the signed type is \<open>None\<close>.
\<close>

fun copy_points :: "'s lcd_port \<Rightarrow> nat \<Rightarrow> u32 \<Rightarrow> 's \<Rightarrow> 's" where
  "copy_points h 0 a s = s"
| "copy_points h (Suc n) a s = (case load16 (rgb h) a s of (c, t) \<Rightarrow> copy_points h n (a + 2) (LCD_RAM_set h c t))"

fun copy_rows :: "'s lcd_port \<Rightarrow> nat \<Rightarrow> u16 \<Rightarrow> u16 \<Rightarrow> u16 \<Rightarrow> u32 \<Rightarrow> 's screen \<Rightarrow> 's screen" where
  "copy_rows h 0 sx y width a s = s"
| "copy_rows h (Suc n) sx y width a s =
     copy_rows h n sx (y + 1) width (a + 2 * ucast width)
       (on_hw (copy_points h (unat width) a) (lcd_write_ram_prepare h (lcd_set_cursor h sx y s)))"

definition lcd_color_fill :: "'s lcd_port \<Rightarrow> u16 \<Rightarrow> u16 \<Rightarrow> u16 \<Rightarrow> u16 \<Rightarrow> u32 \<Rightarrow> 's screen \<Rightarrow> 's screen option" where
  "lcd_color_fill h sx sy ex ey color s =
     (if is_rgb s then ltdc_color_fill (rgb h) sx sy ex ey color s
      else
        let width = ex - sx + 1; height = ey - sy + 1
        in if unat height * unat width \<le> 2 ^ 31 then Some (copy_rows h (unat height) sx sy width color s) else None)"

section \<open>Initialisation\<close>

text \<open>The fourth value read after a command, joined with the third.\<close>

definition read_id :: "'s lcd_port \<Rightarrow> u16 \<Rightarrow> 's \<Rightarrow> u16 \<times> 's" where
  "read_id h cmd s =
     (let (_, s1) = lcd_rd_data h (lcd_wr_regno h cmd s);
          (_, s2) = lcd_rd_data h s1;
          (a, s3) = lcd_rd_data h s2;
          (b, s4) = lcd_rd_data h s3
      in (push_bit 8 a OR b, s4))"

definition probe_5510 :: "'s lcd_port \<Rightarrow> 's \<Rightarrow> u16 \<times> 's" where
  "probe_5510 h s =
     (let s1 = bus h [Reg 0xF000, Ram 0x55, Reg 0xF001, Ram 0xAA, Reg 0xF002, Ram 0x52, Reg 0xF003, Ram 0x08, Reg 0xF004, Ram 0x01] s;
          (a, s2) = lcd_rd_data h (lcd_wr_regno h 0xC500 s1);
          (b, s3) = lcd_rd_data h (lcd_wr_regno h 0xC501 s2)
      in (push_bit 8 a OR b, lcd_delay_ms h 5 s3))"

definition probe_1963 :: "'s lcd_port \<Rightarrow> 's \<Rightarrow> u16 \<times> 's" where
  "probe_1963 h s =
     (let (_, s1) = lcd_rd_data h (lcd_wr_regno h 0xA1 s);
          (a, s2) = lcd_rd_data h s1;
          (b, s3) = lcd_rd_data h s2;
          pid = push_bit 8 a OR b
      in (if pid = 0x5761 then 0x1963 else pid, s3))"

text \<open>The controllers are tried one after the other.\<close>

definition probe :: "'s lcd_port \<Rightarrow> 's \<Rightarrow> u16 \<times> 's" where
  "probe h s =
     (let (id1, s1) = read_id h 0xD3 s in
      if id1 = 0x9341 then (id1, s1)
      else
        let (pid, s2) = read_id h 0x04 s1; id2 = (if pid = 0x8552 then 0x7789 else pid) in
        if id2 = 0x7789 then (id2, s2)
        else
          let (id3, s3) = read_id h 0xD4 s2 in
          if id3 = 0x5310 then (id3, s3)
          else
            let (id4, s4) = probe_5510 h s3 in
            if id4 = 0x5510 then (id4, s4) else probe_1963 h s4)"

text \<open>
  The duty cycle of the backlight is the level times 2.55 in floating point; the level is 100 in the
  only call and the product, \<open>254.99...\<close>, is cut off.
\<close>

definition lcd_ssd_backlight_full :: "panel_step list" where
  "lcd_ssd_backlight_full = [Reg 0xBE, Ram 0x05, Ram 254, Ram 0x01, Ram 0xFF, Ram 0x00, Ram 0x00]"

definition reginit :: "u16 \<Rightarrow> panel_step list" where
  "reginit pid =
     (if pid = 0x7789 then lcd_ex_st7789_reginit else if pid = 0x9341 then lcd_ex_ili9341_reginit
      else if pid = 0x5310 then lcd_ex_nt35310_reginit else if pid = 0x5510 then lcd_ex_nt35510_reginit
      else if pid = 0x1963 then lcd_ex_ssd1963_reginit @ lcd_ssd_backlight_full else [])"

definition WHITE :: u16 where "WHITE = 0xFFFF"

definition lcd_init :: "'s lcd_port \<Rightarrow> 's screen \<Rightarrow> 's screen option" where
  "lcd_init h s = do {
     let (id0, s0) = ltdc_panelid_read (rgb h) (lcd_hw s);
     let t = s\<lparr>lcddev := (lcddev s)\<lparr>lcd_id := id0\<rparr>, lcd_hw := s0\<rparr>;
     t1 \<leftarrow> (if id0 \<noteq> 0 then ltdc_init (rgb h) t
       else
         let s1 = lcd_delay_ms h 50 (lcd_sram_init h (0x0F, 0x46) (0x0F, 0x0F) s0);
             (pid, s2) = probe h s1
         in Some (t\<lparr>lcddev := (lcddev t)\<lparr>lcd_id := pid\<rparr>, lcd_hw := bus h (reginit pid) s2\<rparr>));
     let pid = lcd_id (lcddev t1);
     let t2 = (if pid = 0x9341 \<or> pid = 0x1963 \<or> pid = 0x7789 then on_hw (lcd_write_timing h (4, 4)) t1 else t1);
     let t3 = (if pid = 0x5310 \<or> pid = 0x5510 then on_hw (lcd_write_timing h (3, 3)) t2 else t2);
     lcd_clear h WHITE (on_hw (LCD_BL h True) (lcd_display_dir h 0 t3))
   }"

end
