(* ===== verification/Canvas.thy ===== *)
theory Canvas
  imports Apollo_Prelude
begin

text \<open>
  What a display promises to the routines that draw on it: inside its bounds, a point that is drawn
  takes its colour and nothing else changes. A routine that draws is described by the points it
  draws, in order.
\<close>

type_synonym image = "nat \<times> nat \<Rightarrow> u16"
type_synonym dot = "u16 \<times> u16 \<times> u32"

fun draws :: "(u16 \<Rightarrow> u16 \<Rightarrow> u32 \<Rightarrow> 's \<Rightarrow> 's option) \<Rightarrow> dot list \<Rightarrow> 's \<Rightarrow> 's option" where
  "draws draw [] s = Some s"
| "draws draw ((x, y, c) # ps) s = do { t \<leftarrow> draw x y c s; draws draw ps t }"

fun plot :: "dot list \<Rightarrow> image \<Rightarrow> image" where
  "plot [] im = im"
| "plot ((x, y, c) # ps) im = plot ps (im((unat x, unat y) := ucast c))"

abbreviation dots :: "u32 \<Rightarrow> (u16 \<times> u16) list \<Rightarrow> dot list" where
  "dots c ps \<equiv> map (\<lambda>(x, y). (x, y, c)) ps"

definition inside :: "nat \<Rightarrow> nat \<Rightarrow> dot \<Rightarrow> bool" where
  "inside w h p = (case p of (x, y, c) \<Rightarrow> unat x < w \<and> unat y < h)"

lemma inside_iff [simp]: "inside w h (x, y, c) \<longleftrightarrow> unat x < w \<and> unat y < h"
  by (simp add: inside_def)

lemma draws_append: "draws draw (ps @ qs) s = Option.bind (draws draw ps s) (draws draw qs)"
  by (induction draw ps s rule: draws.induct) (auto split: Option.bind_splits)

lemma plot_append: "plot (ps @ qs) im = plot qs (plot ps im)"
proof (induction ps arbitrary: im)
  case (Cons p ps)
  then show ?case by (cases p) (simp del: fun_upd_apply)
qed simp

lemma plot_outside: "(\<forall>(x, y, c)\<in>set ps. (unat x, unat y) \<noteq> p) \<Longrightarrow> plot ps im p = im p"
  by (induction ps im rule: plot.induct) auto

lemma plot_dots: "plot (dots c ps) im p = (if p \<in> (\<lambda>(x, y). (unat x, unat y)) ` set ps then ucast c else im p)"
proof (induction ps arbitrary: im)
  case (Cons q qs)
  then show ?case by (cases q) auto
qed simp

lemma plot_at:
  assumes "i < length ps" "ps ! i = (x, y, c)" "\<forall>j<length ps. i < j \<longrightarrow> (case ps ! j of (x', y', _) \<Rightarrow> (x', y') \<noteq> (x, y))"
  shows "plot ps im (unat x, unat y) = ucast c"
proof -
  have ps: "ps = take i ps @ (x, y, c) # drop (Suc i) ps" using assms(1,2) by (metis id_take_nth_drop)
  have "\<forall>(x', y', c')\<in>set (drop (Suc i) ps). (unat x', unat y') \<noteq> (unat x, unat y)"
  proof
    fix q assume "q \<in> set (drop (Suc i) ps)"
    then obtain k where "k < length (drop (Suc i) ps)" "drop (Suc i) ps ! k = q" by (auto simp: in_set_conv_nth)
    then have "Suc i + k < length ps" "ps ! (Suc i + k) = q" by auto
    with assms(3) have "case q of (x', y', _) \<Rightarrow> (x', y') \<noteq> (x, y)" by (metis less_add_Suc1 add_Suc)
    then show "case q of (x', y', c') \<Rightarrow> (unat x', unat y') \<noteq> (unat x, unat y)"
      by (auto simp: word_unat_eq_iff)
  qed
  then have "plot (drop (Suc i) ps) im' (unat x, unat y) = im' (unat x, unat y)" for im' by (rule plot_outside)
  then show ?thesis by (subst ps) (simp add: plot_append)
qed

text \<open>The rectangle with two corners.\<close>

definition paint_rect :: "nat \<Rightarrow> nat \<Rightarrow> nat \<Rightarrow> nat \<Rightarrow> u16 \<Rightarrow> image \<Rightarrow> image" where
  "paint_rect sx sy ex ey c im = (\<lambda>(x, y). if sx \<le> x \<and> x \<le> ex \<and> sy \<le> y \<and> y \<le> ey then c else im (x, y))"

locale canvas =
  fixes ok :: "'s \<Rightarrow> bool"
    and frame :: "'s \<Rightarrow> 'f"
    and wd :: "'f \<Rightarrow> nat"
    and ht :: "'f \<Rightarrow> nat"
    and look :: "'s \<Rightarrow> image"
    and draw :: "u16 \<Rightarrow> u16 \<Rightarrow> u32 \<Rightarrow> 's \<Rightarrow> 's option"
  assumes draw: "ok s \<Longrightarrow> unat x < wd (frame s) \<Longrightarrow> unat y < ht (frame s) \<Longrightarrow>
      \<exists>t. draw x y c s = Some t \<and> ok t \<and> frame t = frame s \<and> look t = (look s)((unat x, unat y) := ucast c)"
begin

lemma draws_ok:
  assumes "ok s" "list_all (inside (wd (frame s)) (ht (frame s))) ps"
  shows "\<exists>t. draws draw ps s = Some t \<and> ok t \<and> frame t = frame s \<and> look t = plot ps (look s)"
  using assms
proof (induction ps arbitrary: s)
  case (Cons p ps)
  obtain x y c where p: "p = (x, y, c)" by (cases p)
  then have "unat x < wd (frame s)" "unat y < ht (frame s)" using Cons.prems(2) by auto
  from draw [OF Cons.prems(1) this, of c] obtain t where t: "draw x y c s = Some t" "ok t" "frame t = frame s"
    "look t = (look s)((unat x, unat y) := ucast c)" by blast
  then have "list_all (inside (wd (frame t)) (ht (frame t))) ps" using Cons.prems(2) by simp
  from Cons.IH [OF t(2) this] t p show ?case by (simp del: fun_upd_apply)
qed simp

end

text \<open>A display that fills rectangles as well: strokes are points or rectangles.\<close>

datatype stroke = Dot u16 u16 u32 | Box u16 u16 u16 u16 u32

fun paint1 where
  "paint1 draw fill (Dot x y c) s = draw x y c s"
| "paint1 draw fill (Box sx sy ex ey c) s = fill sx sy ex ey c s"

fun paints where
  "paints draw fill [] s = Some s"
| "paints draw fill (p # ps) s = Option.bind (paint1 draw fill p s) (paints draw fill ps)"

fun painted1 :: "stroke \<Rightarrow> image \<Rightarrow> image" where
  "painted1 (Dot x y c) im = im((unat x, unat y) := ucast c)"
| "painted1 (Box sx sy ex ey c) im = paint_rect (unat sx) (unat sy) (unat ex) (unat ey) (ucast c) im"

fun painted :: "stroke list \<Rightarrow> image \<Rightarrow> image" where
  "painted [] im = im"
| "painted (p # ps) im = painted ps (painted1 p im)"

fun stroke_inside :: "nat \<Rightarrow> nat \<Rightarrow> stroke \<Rightarrow> bool" where
  "stroke_inside w h (Dot x y c) \<longleftrightarrow> unat x < w \<and> unat y < h"
| "stroke_inside w h (Box sx sy ex ey c) \<longleftrightarrow> sx \<le> ex \<and> sy \<le> ey \<and> unat ex < w \<and> unat ey < h"

locale canvas_fill = canvas ok frame wd ht look draw
  for ok :: "'s \<Rightarrow> bool"
    and frame :: "'s \<Rightarrow> 'f"
    and wd :: "'f \<Rightarrow> nat"
    and ht :: "'f \<Rightarrow> nat"
    and look :: "'s \<Rightarrow> image"
    and draw :: "u16 \<Rightarrow> u16 \<Rightarrow> u32 \<Rightarrow> 's \<Rightarrow> 's option" +
  fixes fill :: "u16 \<Rightarrow> u16 \<Rightarrow> u16 \<Rightarrow> u16 \<Rightarrow> u32 \<Rightarrow> 's \<Rightarrow> 's option"
  assumes fill: "ok s \<Longrightarrow> sx \<le> ex \<Longrightarrow> sy \<le> ey \<Longrightarrow> unat ex < wd (frame s) \<Longrightarrow> unat ey < ht (frame s) \<Longrightarrow>
      \<exists>t. fill sx sy ex ey c s = Some t \<and> ok t \<and> frame t = frame s \<and>
        look t = paint_rect (unat sx) (unat sy) (unat ex) (unat ey) (ucast c) (look s)"
begin

text \<open>Points and rectangles in any order.\<close>

lemma paints_ok:
  assumes "ok s" "list_all (stroke_inside (wd (frame s)) (ht (frame s))) ops"
  shows "\<exists>t. paints draw fill ops s = Some t \<and> ok t \<and> frame t = frame s \<and> look t = painted ops (look s)"
  using assms
proof (induction ops arbitrary: s)
  case (Cons p ops)
  have "\<exists>t. paint1 draw fill p s = Some t \<and> ok t \<and> frame t = frame s \<and> look t = painted1 p (look s)"
    using Cons.prems draw [of s] fill [of s] by (cases p) (simp_all del: fun_upd_apply)
  then obtain t where t: "paint1 draw fill p s = Some t" "ok t" "frame t = frame s" "look t = painted1 p (look s)" by blast
  then have "list_all (stroke_inside (wd (frame t)) (ht (frame t))) ops" using Cons.prems(2) by simp
  from Cons.IH [OF t(2) this] t show ?case by (simp del: fun_upd_apply)
qed simp

end

end
