(* ===== verification/Ltdc_Canvas.thy ===== *)
theory Ltdc_Canvas
  imports Ltdc Canvas
begin

text \<open>
  The frame buffer as a picture: the laws of memory and accelerator, and what points and rectangles
  do to the picture in both directions of the display.
\<close>

section \<open>The accelerator\<close>

text \<open>
  Its registers, the memory, and the state of a transfer: how many looks at the flag until it is
  finished. A cell of the memory is a point of 16 bits at an even address.
\<close>

record dma2d =
  cells :: "u32 \<Rightarrow> u16"
  reg :: "dma2d_reg \<Rightarrow> u32"
  running :: bool
  polls :: nat
  complete :: bool

definition pixels_per_line :: "(dma2d_reg \<Rightarrow> u32) \<Rightarrow> nat" where
  "pixels_per_line r = unat (drop_bit 16 (r DMA2D_NLR) AND 0x3FFF)"

definition number_of_lines :: "(dma2d_reg \<Rightarrow> u32) \<Rightarrow> nat" where
  "number_of_lines r = unat (r DMA2D_NLR AND 0xFFFF)"

text \<open>Row and column of an address in the output, when it is in it.\<close>

definition output_cell :: "(dma2d_reg \<Rightarrow> u32) \<Rightarrow> u32 \<Rightarrow> (nat \<times> nat) option" where
  "output_cell r a =
     (let off = unat (a - r DMA2D_OMAR); w = pixels_per_line r + unat (r DMA2D_OOR AND 0x3FFF);
          row = off div 2 div w; col = off div 2 mod w
      in if even off \<and> row < number_of_lines r \<and> col < pixels_per_line r then Some (row, col) else None)"

definition source_addr :: "(dma2d_reg \<Rightarrow> u32) \<Rightarrow> nat \<Rightarrow> nat \<Rightarrow> u32" where
  "source_addr r row col = r DMA2D_FGMAR + 2 * of_nat ((pixels_per_line r + unat (r DMA2D_FGOR AND 0x3FFF)) * row + col)"

text \<open>
  A configuration with something to transfer, points of 16 bits, a known mode, and a source that is
  apart from the output.
\<close>

definition fill_mode :: "(dma2d_reg \<Rightarrow> u32) \<Rightarrow> bool" where
  "fill_mode r \<longleftrightarrow> r DMA2D_CR AND 0x30000 = DMA2D_R2M \<and> r DMA2D_OPFCCR AND 7 = LTDC_PIXFORMAT"

definition copy_mode :: "(dma2d_reg \<Rightarrow> u32) \<Rightarrow> bool" where
  "copy_mode r \<longleftrightarrow> r DMA2D_CR AND 0x30000 = 0 \<and> r DMA2D_FGPFCCR AND 15 = LTDC_PIXFORMAT \<and> even (r DMA2D_FGMAR) \<and>
     (\<forall>row<number_of_lines r. \<forall>col<pixels_per_line r. output_cell r (source_addr r row col) = None)"

definition transfer_ok :: "(dma2d_reg \<Rightarrow> u32) \<Rightarrow> bool" where
  "transfer_ok r \<longleftrightarrow> 0 < pixels_per_line r \<and> 0 < number_of_lines r \<and> even (r DMA2D_OMAR) \<and> (fill_mode r \<or> copy_mode r)"

definition transferred :: "(dma2d_reg \<Rightarrow> u32) \<Rightarrow> (u32 \<Rightarrow> u16) \<Rightarrow> u32 \<Rightarrow> u16" where
  "transferred r m a =
     (case output_cell r a of
        None \<Rightarrow> m a
      | Some (row, col) \<Rightarrow> if fill_mode r then ucast (r DMA2D_OCOLR) else m (source_addr r row col))"

definition dma2d_start :: "nat \<Rightarrow> dma2d \<Rightarrow> dma2d" where
  "dma2d_start n d = d\<lparr>cells := transferred (reg d) (cells d), running := True, polls := n\<rparr>"

definition dma2d_poll :: "dma2d \<Rightarrow> dma2d" where
  "dma2d_poll d =
     (if running d then if polls d = 0 then d\<lparr>running := False, complete := True\<rparr> else d\<lparr>polls := polls d - 1\<rparr> else d)"

definition dma2d_write :: "dma2d_reg \<Rightarrow> u32 \<Rightarrow> dma2d \<Rightarrow> dma2d" where
  "dma2d_write r v d =
     (if r = DMA2D_IFCR \<and> v AND DMA2D_FLAG_TC \<noteq> 0 then d\<lparr>complete := False\<rparr> else d\<lparr>reg := (reg d)(r := v)\<rparr>)"

section \<open>The laws\<close>

text \<open>
  A view shows the accelerator and the memory in a state of the hardware. Starting a transfer that
  is set up well does it, and the flag comes in time.
\<close>

definition memory_law :: "'s ltdc_hw \<Rightarrow> ('s \<Rightarrow> dma2d) \<Rightarrow> bool" where
  "memory_law h v \<longleftrightarrow>
     (\<forall>s a. even a \<longrightarrow> fst (load16 h a s) = cells (v s) a \<and> v (snd (load16 h a s)) = v s) \<and>
     (\<forall>s a x. even a \<longrightarrow> v (store16 h a x s) = (v s)\<lparr>cells := (cells (v s))(a := x)\<rparr>)"

definition dma2d_law :: "'s ltdc_hw \<Rightarrow> ('s \<Rightarrow> dma2d) \<Rightarrow> bool" where
  "dma2d_law h v \<longleftrightarrow>
     (\<forall>s. v (dma2d_clock h s) = v s) \<and>
     (\<forall>s r. r \<noteq> DMA2D_ISR \<longrightarrow> v (snd (dma2d_get h r s)) = v s \<and> (r \<noteq> DMA2D_IFCR \<longrightarrow> fst (dma2d_get h r s) = reg (v s) r)) \<and>
     (\<forall>s. v (snd (dma2d_get h DMA2D_ISR s)) = dma2d_poll (v s) \<and>
        (fst (dma2d_get h DMA2D_ISR s) AND DMA2D_FLAG_TC \<noteq> 0 \<longleftrightarrow> complete (dma2d_poll (v s)))) \<and>
     (\<forall>s r x. r \<noteq> DMA2D_CR \<or> x AND DMA2D_CR_START = 0 \<longrightarrow> v (dma2d_set h r x s) = dma2d_write r x (v s)) \<and>
     (\<forall>s x. x AND DMA2D_CR_START \<noteq> 0 \<and> \<not> running (v s) \<and> transfer_ok ((reg (v s))(DMA2D_CR := x)) \<longrightarrow>
        (\<exists>n<0x200000. v (dma2d_set h DMA2D_CR x s) = dma2d_start n ((v s)\<lparr>reg := (reg (v s))(DMA2D_CR := x)\<rparr>)))"

lemma dma2d_wait_ok:
  assumes law: "dma2d_law h v"
  shows "running (v s) \<Longrightarrow> \<not> complete (v s) \<Longrightarrow> polls (v s) < n \<Longrightarrow>
     v (dma2d_wait h n s) = (v s)\<lparr>running := False, complete := True, polls := 0\<rparr>"
proof (induction n arbitrary: s)
  case (Suc n)
  obtain x t where g: "dma2d_get h DMA2D_ISR s = (x, t)" by fastforce
  have t: "v t = dma2d_poll (v s)" "(x AND DMA2D_FLAG_TC \<noteq> 0) = complete (dma2d_poll (v s))"
    using law g unfolding dma2d_law_def by (metis snd_conv, metis fst_conv)
  show ?case
  proof (cases "polls (v s)")
    case 0
    then show ?thesis using t g Suc.prems by (simp add: dma2d_poll_def)
  next
    case (Suc k)
    then have "v t = (v s)\<lparr>polls := k\<rparr>" using t Suc.prems by (simp add: dma2d_poll_def)
    moreover from this have "v (dma2d_wait h n t) = (v t)\<lparr>running := False, complete := True, polls := 0\<rparr>"
      using Suc Suc.prems by (intro Suc.IH) simp_all
    ultimately show ?thesis using t g Suc Suc.prems by (simp add: dma2d_poll_def)
  qed
qed simp

lemma dma2d_get_set:
  assumes law: "dma2d_law h v"
  shows "r \<noteq> DMA2D_ISR \<Longrightarrow> r \<noteq> DMA2D_IFCR \<Longrightarrow> (r \<noteq> DMA2D_CR \<or> f (reg (v s) r) AND DMA2D_CR_START = 0) \<Longrightarrow>
      v (dma2d_change h r f s) = dma2d_write r (f (reg (v s) r)) (v s)"
    "r \<noteq> DMA2D_CR \<or> x AND DMA2D_CR_START = 0 \<Longrightarrow> v (dma2d_set h r x s) = dma2d_write r x (v s)"
    "v (dma2d_clock h s) = v s"
    "v (dma2d_change h DMA2D_IFCR (\<lambda>y. y OR DMA2D_FLAG_TC) s) = (v s)\<lparr>complete := False\<rparr>"
proof -
  obtain y t where g: "dma2d_get h r s = (y, t)" by fastforce
  show "r \<noteq> DMA2D_ISR \<Longrightarrow> r \<noteq> DMA2D_IFCR \<Longrightarrow> (r \<noteq> DMA2D_CR \<or> f (reg (v s) r) AND DMA2D_CR_START = 0) \<Longrightarrow>
      v (dma2d_change h r f s) = dma2d_write r (f (reg (v s) r)) (v s)"
    using law g unfolding dma2d_law_def dma2d_change_def by (smt (verit) fst_conv snd_conv case_prod_conv)
  show "r \<noteq> DMA2D_CR \<or> x AND DMA2D_CR_START = 0 \<Longrightarrow> v (dma2d_set h r x s) = dma2d_write r x (v s)" "v (dma2d_clock h s) = v s"
    using law unfolding dma2d_law_def by blast+
  obtain z t where g: "dma2d_get h DMA2D_IFCR s = (z, t)" by fastforce
  have "v t = v s" using law g unfolding dma2d_law_def by (metis dma2d_reg.distinct(23) dma2d_reg.simps snd_conv)
  moreover have "v (dma2d_set h DMA2D_IFCR x t) = dma2d_write DMA2D_IFCR x (v t)" for x
    using law unfolding dma2d_law_def by blast
  moreover have "(z OR DMA2D_FLAG_TC) AND DMA2D_FLAG_TC \<noteq> 0" by (simp add: bit.conj_disj_distrib2 DMA2D_FLAG_TC_def)
  ultimately show "v (dma2d_change h DMA2D_IFCR (\<lambda>y. y OR DMA2D_FLAG_TC) s) = (v s)\<lparr>complete := False\<rparr>"
    using g by (simp add: dma2d_change_def dma2d_write_def)
qed

lemma dma2d_stop:
  assumes "dma2d_law h v"
  shows "v (dma2d_change h DMA2D_CR (\<lambda>y. y AND NOT 1) s) = dma2d_write DMA2D_CR (reg (v s) DMA2D_CR AND NOT 1) (v s)"
proof -
  have "(x AND NOT 1) AND (1 :: u32) = 0" for x by (rule bit_eqI) (auto simp: bit_simps)
  then show ?thesis using dma2d_get_set(1) [OF assms, of DMA2D_CR "\<lambda>y. y AND NOT 1" s] by (simp add: DMA2D_CR_START_def)
qed

section \<open>The picture\<close>

text \<open>The number of the cell of a point in the frame buffer.\<close>

definition cell_of :: "ltdc_dev \<Rightarrow> nat \<Rightarrow> nat \<Rightarrow> nat" where
  "cell_of d x y =
     (if ltdc_dir d \<noteq> 0 then unat (pwidth d) * y + x
      else unat (pwidth d) * (unat (pheight d) - x - 1) + y)"

definition panel_ok :: "ltdc_dev \<Rightarrow> u32 \<Rightarrow> bool" where
  "panel_ok d fb \<longleftrightarrow> pixsize d = 2 \<and> 0 < unat (pwidth d) \<and> unat (pwidth d) < 2 ^ 14 \<and> 0 < unat (pheight d) \<and>
     unat (pheight d) < 2 ^ 16 \<and> unat (pwidth d) * unat (pheight d) \<le> 1280 * 800 \<and> even fb \<and> unat fb + 2 * 1280 * 800 \<le> 2 ^ 32 \<and>
     (ltdc_dir d = 0 \<and> unat (ltdc_width d) = unat (pheight d) \<and> unat (ltdc_height d) = unat (pwidth d) \<or>
      ltdc_dir d = 1 \<and> unat (ltdc_width d) = unat (pwidth d) \<and> unat (ltdc_height d) = unat (pheight d))"

lemma cell_bound:
  assumes "panel_ok d fb" "x < unat (ltdc_width d)" "y < unat (ltdc_height d)"
  shows "cell_of d x y < unat (pwidth d) * unat (pheight d)"
proof -
  have *: "a < w \<Longrightarrow> b < h \<Longrightarrow> w * b + a < w * h" for a b w h :: nat
    by (metis add_strict_left_mono less_le_trans mult_Suc_right add.commute mult_le_mono2 Suc_leI)
  show ?thesis using assms * [of _ "unat (pwidth d)" _ "unat (pheight d)"] by (auto simp: cell_of_def panel_ok_def)
qed

lemma cell_inj:
  assumes ok: "panel_ok d fb" and p: "x < unat (ltdc_width d)" "y < unat (ltdc_height d)"
    and q: "x' < unat (ltdc_width d)" "y' < unat (ltdc_height d)"
  shows "cell_of d x y = cell_of d x' y' \<longleftrightarrow> x = x' \<and> y = y'"
proof -
  have *: "w * b + a = w * b' + a' \<longleftrightarrow> a = a' \<and> b = b'" if "a < w" "a' < w" for a a' b b' w :: nat
  proof
    assume e: "w * b + a = w * b' + a'"
    then have "(w * b + a) mod w = (w * b' + a') mod w" "(w * b + a) div w = (w * b' + a') div w" by simp_all
    then show "a = a' \<and> b = b'" using that by simp
  qed simp
  show ?thesis using assms * [of _ "unat (pwidth d)"] by (auto simp: cell_of_def panel_ok_def)
qed

lemma panel_addr_cell: "pixsize d = 2 \<Longrightarrow> panel_addr d fb px py = fb + 2 * of_nat (unat (pwidth d) * unat py + unat px)"
  by (simp add: panel_addr_def)

lemma unat_from_end: "unat x < unat w \<Longrightarrow> unat (w - ucast x - 1) = unat w - unat x - 1" for x :: u16 and w :: u32
proof -
  assume x: "unat x < unat w"
  then have le: "(ucast x :: u32) \<le> w" "1 \<le> w - ucast x" by (simp_all add: word_le_nat_alt unat_sub)
  then show ?thesis by (simp add: unat_sub)
qed

lemma point_addr_cell:
  assumes ok: "panel_ok d fb" and "unat x < unat (ltdc_width d)"
  shows "point_addr d fb x y = fb + 2 * of_nat (cell_of d (unat x) (unat y))"
proof -
  have px: "pixsize d = 2" using ok by (simp add: panel_ok_def)
  show ?thesis
  proof (cases "ltdc_dir d = 0")
    case True
    then have "unat x < unat (pheight d)" using ok assms(2) by (simp add: panel_ok_def)
    then show ?thesis using True by (simp add: point_addr_def cell_of_def panel_addr_cell [OF px] unat_from_end)
  qed (simp add: point_addr_def cell_of_def panel_addr_cell [OF px])
qed

lemma cell_addr_inj:
  assumes "unat fb + 2 * n \<le> 2 ^ 32" "i < n" "j < n"
  shows "(fb + 2 * of_nat i :: u32) = fb + 2 * of_nat j \<longleftrightarrow> i = j"
proof -
  have "(2 * of_nat i :: u32) = of_nat (2 * i)" "(2 * of_nat j :: u32) = of_nat (2 * j)" by simp_all
  moreover have "(of_nat (2 * i) = (of_nat (2 * j) :: u32)) = (2 * i = 2 * j)"
    using assms by (intro word_of_nat_inj_small) simp_all
  ultimately show ?thesis by simp
qed

section \<open>The output of a transfer\<close>

lemma even_addr: "even fb \<Longrightarrow> even (fb + 2 * of_nat k :: u32)"
  by simp

lemma output_cell_form:
  assumes r: "output_cell r a = Some (row, col)" and W: "pixels_per_line r + unat (r DMA2D_OOR AND 0x3FFF) = W"
  shows "a = r DMA2D_OMAR + 2 * of_nat (W * row + col)" "row < number_of_lines r" "col < pixels_per_line r"
proof -
  define off where "off = unat (a - r DMA2D_OMAR)"
  have o: "even off" "row = off div 2 div W" "col = off div 2 mod W" "row < number_of_lines r" "col < pixels_per_line r"
    using r W by (auto simp: output_cell_def Let_def off_def split: if_splits)
  then have "2 * (W * row + col) = off" by simp
  then have "(of_nat (2 * (W * row + col)) :: u32) = of_nat off" by (simp only:)
  moreover have "(of_nat off :: u32) = a - r DMA2D_OMAR" by (simp add: off_def)
  moreover have "(of_nat (2 * (W * row + col)) :: u32) = 2 * of_nat (W * row + col)" by (simp only: of_nat_mult of_nat_numeral)
  ultimately have "a - r DMA2D_OMAR = 2 * of_nat (W * row + col)" by (simp only:)
  then show "a = r DMA2D_OMAR + 2 * of_nat (W * row + col)" by (simp add: algebra_simps)
  show "row < number_of_lines r" "col < pixels_per_line r" by (fact o(4) o(5))+
qed

lemma output_cell_at:
  assumes W: "pixels_per_line r + unat (r DMA2D_OOR AND 0x3FFF) = W" and om: "r DMA2D_OMAR = fb + 2 * of_nat (W * psy + psx)"
    and pl: "pixels_per_line r = pex - psx + 1" and nl: "number_of_lines r = pey - psy + 1"
    and b: "psx \<le> pex" "pex < W" "psy \<le> pey" "pey < H" "W * H \<le> 1024000" and p: "px < W" "py < H"
  shows "output_cell r (fb + 2 * of_nat (W * py + px)) =
    (if psx \<le> px \<and> px \<le> pex \<and> psy \<le> py \<and> py \<le> pey then Some (py - psy, px - psx) else None)"
proof -
  define k k0 where kk: "k = W * py + px" "k0 = W * psy + psx"
  have row: "W * a + c < W * H" if "a < H" "c < W" for a c :: nat
    using that by (metis add_strict_left_mono less_le_trans mult_Suc_right add.commute mult_le_mono2 Suc_leI)
  have lt: "k < W * H" "k0 < W * H" unfolding kk using b p by (auto intro!: row)
  have out: "output_cell r (fb + 2 * of_nat k) =
      (let j = (if k0 \<le> k then k - k0 else 2 ^ 31 - (k0 - k))
       in if j div W < pey - psy + 1 \<and> j mod W < pex - psx + 1 then Some (j div W, j mod W) else None)"
  proof -
    define j where "j = (if k0 \<le> k then k - k0 else 2 ^ 31 - (k0 - k))"
    have "fb + 2 * of_nat k - r DMA2D_OMAR = of_nat (2 * j)"
    proof (cases "k0 \<le> k")
      case False
      have "(of_nat (2 * j) :: u32) = of_nat (2 ^ 32 - 2 * (k0 - k))" using False by (simp add: j_def right_diff_distrib')
      also have "\<dots> = of_nat (2 ^ 32) - of_nat (2 * (k0 - k))" using lt b by (subst of_nat_diff) simp_all
      also have "(of_nat (2 ^ 32) :: u32) = 0" by (rule word_of_nat_eq_0_iff [THEN iffD2]) simp
      also have "0 - (of_nat (2 * (k0 - k)) :: u32) = 2 * of_nat k - 2 * of_nat k0"
        using False by (simp add: of_nat_diff algebra_simps)
      finally show ?thesis using om by (simp add: kk)
    next
      case True
      then show ?thesis using om by (simp add: kk j_def of_nat_diff right_diff_distrib')
    qed
    moreover have "unat (of_nat (2 * j) :: u32) = 2 * j"
      by (rule unat_of_nat_small) (use lt b in \<open>auto simp: j_def\<close>)
    moreover have "Suc (pex - psx + unat (r DMA2D_OOR AND 0x3FFF)) = W" using W pl by simp
    ultimately show ?thesis
      unfolding output_cell_def Let_def nl pl j_def [symmetric] by (simp del: of_nat_mult)
  qed
  consider (right) "psy \<le> py" "psx \<le> px" | (left) "psy < py" "px < psx" | (before) "py < psy \<or> py = psy \<and> px < psx"
    by linarith
  then show ?thesis
  proof cases
    case right
    obtain u where u: "py = psy + u" using right(1) le_Suc_ex by blast
    have k: "k0 \<le> k" "k - k0 = W * (py - psy) + (px - psx)" using right(2) by (simp_all add: kk u algebra_simps)
    have "px - psx < W" using p by simp
    then have "(k - k0) div W = py - psy" "(k - k0) mod W = px - psx" unfolding k(2) by (simp_all del: diff_is_0_eq)
    then show ?thesis unfolding kk(1) [symmetric] out using right k(1) b by (simp add: Let_def) linarith
  next
    case left
    obtain u where u: "py = psy + u + 1" using left(1) less_imp_Suc_add by fastforce
    have k: "k0 \<le> k" "k - k0 = W * u + (W + px - psx)" using left(2) p b by (simp_all add: kk u algebra_simps)
    have "W + px - psx < W" "\<not> W + px - psx < pex - psx + 1" using left(2) b by simp_all
    moreover from this(1) have "(k - k0) mod W = W + px - psx" unfolding k(2) by simp
    ultimately show ?thesis unfolding kk(1) [symmetric] out using left k(1) by (simp add: Let_def)
  next
    case before
    have "k < k0"
    proof (cases "py < psy")
      case True
      then have "W * Suc py \<le> W * psy" by (intro mult_le_mono2) simp
      then show ?thesis using p by (simp add: kk)
    qed (use before in \<open>simp add: kk\<close>)
    moreover have "W * (pey - psy + 1) \<le> W * H" using b by (intro mult_le_mono2) simp
    moreover from this have "W * (pey - psy + 1) \<le> 2 ^ 31 - (k0 - k)" using lt b by simp
    moreover have "0 < W" using p by simp
    ultimately have "\<not> (2 ^ 31 - (k0 - k)) div W < pey - psy + 1" by (metis div_le_mono leD nonzero_mult_div_cancel_left gr_implies_not0)
    then show ?thesis unfolding kk(1) [symmetric] out using before \<open>k < k0\<close> by (auto simp: Let_def)
  qed
qed

lemma dma2d_run:
  assumes law: "dma2d_law h v" and idle: "\<not> running (v s)" "\<not> complete (v s)" and m: "reg (v s) DMA2D_CR AND 1 = 0"
    and r: "r = (reg (v s))(DMA2D_CR := reg (v s) DMA2D_CR OR 1)" "transfer_ok r"
  shows "v (dma2d_change h DMA2D_IFCR (\<lambda>y. y OR DMA2D_FLAG_TC)
       (dma2d_wait h 0x200000 (dma2d_change h DMA2D_CR (\<lambda>y. y OR 1) s))) =
     (v s)\<lparr>cells := transferred r (cells (v s)), reg := r, polls := 0\<rparr>"
proof -
  obtain x t where g: "dma2d_get h DMA2D_CR s = (x, t)" by fastforce
  then have x: "x = reg (v s) DMA2D_CR" "v t = v s" using law unfolding dma2d_law_def by (metis dma2d_reg.distinct(1,3) fst_conv snd_conv)+
  have "(x OR 1) AND DMA2D_CR_START \<noteq> 0" by (simp add: DMA2D_CR_START_def bit.conj_disj_distrib2)
  then obtain n where n: "n < 0x200000" "v (dma2d_set h DMA2D_CR (x OR 1) t) = dma2d_start n ((v t)\<lparr>reg := (reg (v t))(DMA2D_CR := x OR 1)\<rparr>)"
    using law [unfolded dma2d_law_def, THEN conjunct2, THEN conjunct2, THEN conjunct2, THEN conjunct2, rule_format, of "x OR 1" t] idle r x
    by auto
  define u where "u = dma2d_change h DMA2D_CR (\<lambda>y. y OR 1) s"
  have u: "v u = dma2d_start n ((v s)\<lparr>reg := r\<rparr>)" using n(2) g x r(1) by (simp add: u_def dma2d_change_def)
  then have "v (dma2d_wait h 0x200000 u) = (v u)\<lparr>running := False, complete := True, polls := 0\<rparr>"
    using n(1) idle by (intro dma2d_wait_ok [OF law]) (simp_all add: dma2d_start_def)
  with u show ?thesis using idle by (simp add: dma2d_get_set [OF law] u_def [symmetric] dma2d_start_def)
qed

section \<open>Operations on the picture\<close>

definition in_picture :: "ltdc_dev \<Rightarrow> u32 \<Rightarrow> u32 \<Rightarrow> bool" where
  "in_picture d fb a \<longleftrightarrow> even (unat (a - fb)) \<and> unat (a - fb) div 2 < unat (pwidth d) * unat (pheight d)"

definition picture :: "ltdc_dev \<Rightarrow> u32 \<Rightarrow> (u32 \<Rightarrow> u16) \<Rightarrow> image" where
  "picture d fb m = (\<lambda>(x, y). if x < unat (ltdc_width d) \<and> y < unat (ltdc_height d) then m (fb + 2 * of_nat (cell_of d x y)) else 0)"

definition around :: "ltdc_dev \<Rightarrow> u32 \<Rightarrow> (u32 \<Rightarrow> u16) \<Rightarrow> u32 \<Rightarrow> u16" where
  "around d fb m a = (if in_picture d fb a then 0 else m a)"

lemma picture_size: "panel_ok d fb \<Longrightarrow> unat fb + 2 * (unat (pwidth d) * unat (pheight d)) \<le> 2 ^ 32"
  by (simp add: panel_ok_def)

lemma in_picture_cell: "panel_ok d fb \<Longrightarrow> k < unat (pwidth d) * unat (pheight d) \<Longrightarrow> in_picture d fb (fb + 2 * of_nat k)"
proof -
  assume ok: "panel_ok d fb" and k: "k < unat (pwidth d) * unat (pheight d)"
  have "(2 * of_nat k :: u32) = of_nat (2 * k)" by simp
  moreover have "unat (of_nat (2 * k) :: u32) = 2 * k"
    by (rule unat_of_nat_small) (use picture_size [OF ok] k in simp)
  ultimately show ?thesis using k by (simp add: in_picture_def del: of_nat_mult)
qed

lemma picture_upd:
  assumes ok: "panel_ok d fb" and p: "x < unat (ltdc_width d)" "y < unat (ltdc_height d)"
  shows "picture d fb (m(fb + 2 * of_nat (cell_of d x y) := c)) = (picture d fb m)((x, y) := c)"
    "around d fb (m(fb + 2 * of_nat (cell_of d x y) := c)) = around d fb m"
proof -
  show "picture d fb (m(fb + 2 * of_nat (cell_of d x y) := c)) = (picture d fb m)((x, y) := c)"
    using p cell_inj [OF ok _ _ p] cell_addr_inj [OF picture_size [OF ok] cell_bound [OF ok] cell_bound [OF ok p]]
    by (auto simp: picture_def fun_eq_iff)
  show "around d fb (m(fb + 2 * of_nat (cell_of d x y) := c)) = around d fb m"
    using in_picture_cell [OF ok cell_bound [OF ok p]] by (auto simp: around_def)
qed

text \<open>
  The panel is set up, its first layer is selected, the size that the program uses is that of the
  panel in its direction, and the accelerator is at rest.
\<close>

definition fb_of :: "'s screen \<Rightarrow> u32" where
  "fb_of s = hd (g_ltdc_framebuf s)"

definition ltdc_ok :: "('s \<Rightarrow> dma2d) \<Rightarrow> 's screen \<Rightarrow> bool" where
  "ltdc_ok v s \<longleftrightarrow> g_ltdc_framebuf s \<noteq> [] \<and> activelayer (lcdltdc s) = 0 \<and> panel_ok (lcdltdc s) (fb_of s) \<and>
     lcd_width (lcddev s) = ltdc_width (lcdltdc s) \<and> lcd_height (lcddev s) = ltdc_height (lcdltdc s) \<and>
     \<not> running (v (lcd_hw s)) \<and> \<not> complete (v (lcd_hw s))"

text \<open>What no drawing changes: the variables and the memory around the picture.\<close>

type_synonym lcd_frame = "lcd_dev \<times> ltdc_dev \<times> u32 list \<times> u32 \<times> (u32 \<Rightarrow> u16)"

definition ltdc_frame :: "('s \<Rightarrow> dma2d) \<Rightarrow> 's screen \<Rightarrow> lcd_frame" where
  "ltdc_frame v s = (lcddev s, lcdltdc s, g_ltdc_framebuf s, g_back_color s, around (lcdltdc s) (fb_of s) (cells (v (lcd_hw s))))"

definition ltdc_look :: "('s \<Rightarrow> dma2d) \<Rightarrow> 's screen \<Rightarrow> image" where
  "ltdc_look v s = picture (lcdltdc s) (fb_of s) (cells (v (lcd_hw s)))"

definition frame_width :: "lcd_frame \<Rightarrow> nat" where "frame_width f = unat (lcd_width (fst f))"
definition frame_height :: "lcd_frame \<Rightarrow> nat" where "frame_height f = unat (lcd_height (fst f))"

lemmas ltdc_view = ltdc_ok_def ltdc_frame_def ltdc_look_def frame_width_def frame_height_def fb_of_def

lemma active_fb: "ltdc_ok v s \<Longrightarrow> arr_get (g_ltdc_framebuf s) (unat (activelayer (lcdltdc s))) = Some (fb_of s)"
  by (cases "g_ltdc_framebuf s") (simp_all add: ltdc_ok_def fb_of_def arr_get_def)

lemma point_in_picture:
  assumes "ltdc_ok v s" "unat x < frame_width (ltdc_frame v s)" "unat y < frame_height (ltdc_frame v s)"
  shows "panel_ok (lcdltdc s) (fb_of s)" "unat x < unat (ltdc_width (lcdltdc s))" "unat y < unat (ltdc_height (lcdltdc s))"
    "point_addr (lcdltdc s) (fb_of s) x y = fb_of s + 2 * of_nat (cell_of (lcdltdc s) (unat x) (unat y))"
    "even (point_addr (lcdltdc s) (fb_of s) x y)"
proof -
  show *: "panel_ok (lcdltdc s) (fb_of s)" "unat x < unat (ltdc_width (lcdltdc s))" "unat y < unat (ltdc_height (lcdltdc s))"
    using assms by (simp_all add: ltdc_view)
  show "point_addr (lcdltdc s) (fb_of s) x y = fb_of s + 2 * of_nat (cell_of (lcdltdc s) (unat x) (unat y))"
    by (rule point_addr_cell [OF * (1,2)])
  then show "even (point_addr (lcdltdc s) (fb_of s) x y)" using *(1) by (simp add: panel_ok_def)
qed

lemma ltdc_change:
  assumes "ltdc_ok v s" "\<not> running (v u)" "\<not> complete (v u)"
    "around (lcdltdc s) (fb_of s) (cells (v u)) = around (lcdltdc s) (fb_of s) (cells (v (lcd_hw s)))"
  shows "ltdc_ok v (s\<lparr>lcd_hw := u\<rparr>)" "ltdc_frame v (s\<lparr>lcd_hw := u\<rparr>) = ltdc_frame v s"
    "ltdc_look v (s\<lparr>lcd_hw := u\<rparr>) = picture (lcdltdc s) (fb_of s) (cells (v u))"
  using assms by (simp_all add: ltdc_view)

lemma ltdc_idle: "ltdc_ok v s \<Longrightarrow> \<not> running (v (lcd_hw s))" "ltdc_ok v s \<Longrightarrow> \<not> complete (v (lcd_hw s))"
  by (simp_all add: ltdc_ok_def)

lemma ltdc_draw_ok:
  assumes law: "memory_law h v" and ok: "ltdc_ok v s"
    and p: "unat x < frame_width (ltdc_frame v s)" "unat y < frame_height (ltdc_frame v s)"
  shows "\<exists>t. ltdc_draw_point h x y c s = Some t \<and> ltdc_ok v t \<and> ltdc_frame v t = ltdc_frame v s \<and>
     ltdc_look v t = (ltdc_look v s)((unat x, unat y) := ucast c)"
proof -
  note pt = point_in_picture [OF ok p]
  have v: "v (store16 h (point_addr (lcdltdc s) (fb_of s) x y) (ucast c) (lcd_hw s)) =
      (v (lcd_hw s))\<lparr>cells := (cells (v (lcd_hw s)))(point_addr (lcdltdc s) (fb_of s) x y := ucast c)\<rparr>"
    using law pt(5) by (simp add: memory_law_def)
  have "ltdc_draw_point h x y c s = Some (s\<lparr>lcd_hw := store16 h (point_addr (lcdltdc s) (fb_of s) x y) (ucast c) (lcd_hw s)\<rparr>)"
    by (simp add: ltdc_draw_point_def active_fb [OF ok] on_hw_def)
  then show ?thesis
    using ltdc_change [OF ok, of "store16 h (point_addr (lcdltdc s) (fb_of s) x y) (ucast c) (lcd_hw s)"] ltdc_idle [OF ok] v
      picture_upd [OF pt(1,2,3)] unfolding pt(4) by (simp add: ltdc_look_def)
qed

lemma ltdc_read_ok:
  assumes law: "memory_law h v" and ok: "ltdc_ok v s"
    and p: "unat x < frame_width (ltdc_frame v s)" "unat y < frame_height (ltdc_frame v s)"
  shows "\<exists>t. ltdc_read_point h x y s = Some (ucast (ltdc_look v s (unat x, unat y)), t) \<and>
     ltdc_ok v t \<and> ltdc_frame v t = ltdc_frame v s \<and> ltdc_look v t = ltdc_look v s"
proof -
  note pt = point_in_picture [OF ok p]
  obtain c u where l: "load16 h (point_addr (lcdltdc s) (fb_of s) x y) (lcd_hw s) = (c, u)" by fastforce
  have "c = cells (v (lcd_hw s)) (point_addr (lcdltdc s) (fb_of s) x y)" "v u = v (lcd_hw s)"
    using law l pt(5) unfolding memory_law_def by (metis fst_conv, metis snd_conv)
  then have "ltdc_read_point h x y s = Some (ucast (ltdc_look v s (unat x, unat y)), s\<lparr>lcd_hw := u\<rparr>)"
    using l pt by (simp add: ltdc_read_point_def active_fb [OF ok] ltdc_look_def picture_def)
  then show ?thesis using ltdc_change [OF ok, of u] ltdc_idle [OF ok] \<open>v u = v (lcd_hw s)\<close> by (simp add: ltdc_look_def)
qed

section \<open>Rectangles\<close>

lemma and_mask_small: "unat a < 2 ^ n \<Longrightarrow> a AND mask n = a" for a :: u32
  by (simp flip: take_bit_eq_mask) (simp add: word_unat_eq_iff unsigned_take_bit_eq take_bit_nat_eq_self)

lemma drop_small: "unat a < 2 ^ n \<Longrightarrow> drop_bit n a = 0" for a :: u32
  by (simp only: word_unat_eq_iff unat_drop_bit_eq drop_bit_eq_div [of n "unat a"]) simp

lemma lines_register:
  assumes "unat a < 2 ^ 16" "unat b < 2 ^ 14"
  shows "(a OR push_bit 16 b) AND 0xFFFF = (a :: u32)" "drop_bit 16 (a OR push_bit 16 b) AND 0x3FFF = b"
proof -
  have m: "(0xFFFF :: u32) = mask 16" "(0x3FFF :: u32) = mask 14" by (simp_all add: mask_eq_exp_minus_1)
  have "(a OR push_bit 16 b) AND mask 16 = (a AND mask 16) OR (push_bit 16 b AND mask 16)" by (simp add: bit.conj_disj_distrib2)
  also have "push_bit 16 b AND mask 16 = 0" by (simp flip: take_bit_eq_mask add: take_bit_push_bit)
  finally show "(a OR push_bit 16 b) AND 0xFFFF = a" using assms(1) unfolding m by (simp add: and_mask_small)
  have "unat b * 2 ^ 16 < 2 ^ 32" using assms(2) by simp
  then have "drop_bit 16 (push_bit 16 b) = b"
    by (simp add: word_unat_eq_iff unat_drop_bit_eq drop_bit_eq_div [where ?'a = nat] unsigned_push_bit_eq
        push_bit_eq_mult [where ?'a = nat] take_bit_nat_eq_self)
  then have "drop_bit 16 (a OR push_bit 16 b) = b" using assms(1) by (simp add: drop_small)
  then show "drop_bit 16 (a OR push_bit 16 b) AND 0x3FFF = b" using assms(2) unfolding m by (simp add: and_mask_small)
qed

text \<open>The rectangle on the panel, as numbers.\<close>

definition panel_rect :: "ltdc_dev \<Rightarrow> nat \<Rightarrow> nat \<Rightarrow> nat \<Rightarrow> nat \<Rightarrow> nat \<times> nat \<times> nat \<times> nat" where
  "panel_rect d sx sy ex ey =
     (if ltdc_dir d \<noteq> 0 then (sx, sy, ex, ey)
      else (sy, unat (pheight d) - ex - 1, ey, unat (pheight d) - sx - 1))"

lemma rectangles_ok:
  assumes ok: "panel_ok d fb" and b: "sx \<le> ex" "sy \<le> ey" "unat ex < unat (ltdc_width d)" "unat ey < unat (ltdc_height d)"
    and r: "panel_rect d (unat sx) (unat sy) (unat ex) (unat ey) = (psx, psy, pex, pey)"
  shows "color_rectangle d sx sy ex ey = (of_nat psx, of_nat psy, of_nat pex, of_nat pey)"
    "fill_rectangle d sx sy ex ey = (of_nat psx, of_nat psy, of_nat pex, of_nat pey)"
    "psx \<le> pex" "pex < unat (pwidth d)" "psy \<le> pey" "pey < unat (pheight d)"
proof -
  have le: "unat sx \<le> unat ex" "unat sy \<le> unat ey" using b by (simp_all add: word_le_nat_alt)
  show "psx \<le> pex" "pex < unat (pwidth d)" "psy \<le> pey" "pey < unat (pheight d)"
    using r ok b(3,4) le by (auto simp: panel_rect_def panel_ok_def split: if_splits)
  have rowe: "pheight d - ucast w - 1 = of_nat (unat (pheight d) - unat w - 1)" if "unat w < unat (pheight d)" for w :: u16
    by (rule word_of_unat) (rule unat_from_end [OF that])
  have e: "unat ex < unat (pheight d)" "unat sx < unat (pheight d)" if "ltdc_dir d = 0"
    using that ok b(3) le by (simp_all add: panel_ok_def)
  show c: "color_rectangle d sx sy ex ey = (of_nat psx, of_nat psy, of_nat pex, of_nat pey)"
    using r rowe [OF e(1)] rowe [OF e(2)] by (auto simp: color_rectangle_def panel_rect_def simp del: of_nat_diff split: if_splits)
  have "\<not> ucast ex \<ge> pheight d" "\<not> ucast sx \<ge> pheight d" if "ltdc_dir d = 0"
    using e [OF that] by (simp_all add: word_le_nat_alt)
  then have "fill_rectangle d sx sy ex ey = color_rectangle d sx sy ex ey"
    by (simp add: fill_rectangle_def color_rectangle_def)
  with c show "fill_rectangle d sx sy ex ey = (of_nat psx, of_nat psy, of_nat pex, of_nat pey)" by simp
qed

text \<open>Row and column of a point in the transfer.\<close>

definition transfer_point :: "ltdc_dev \<Rightarrow> nat \<Rightarrow> nat \<Rightarrow> nat \<Rightarrow> nat \<Rightarrow> nat \<Rightarrow> nat \<times> nat" where
  "transfer_point d sx sy ex x y = (if ltdc_dir d \<noteq> 0 then (y - sy, x - sx) else (ex - x, y - sy))"

lemma output_in_picture:
  assumes ok: "panel_ok d fb" and b: "psx \<le> pex" "pex < unat (pwidth d)" "psy \<le> pey" "pey < unat (pheight d)"
    and W: "pixels_per_line r + unat (r DMA2D_OOR AND 0x3FFF) = unat (pwidth d)"
    and om: "r DMA2D_OMAR = fb + 2 * of_nat (unat (pwidth d) * psy + psx)"
    and pl: "pixels_per_line r = pex - psx + 1" and nl: "number_of_lines r = pey - psy + 1"
    and a: "output_cell r a = Some p"
  shows "in_picture d fb a"
proof -
  let ?W = "unat (pwidth d)" and ?H = "unat (pheight d)"
  obtain row col where p: "output_cell r a = Some (row, col)" using a by (cases p) simp
  note f = output_cell_form [OF p W]
  have "psy + row < ?H" "psx + col < ?W" using f(2,3) b unfolding pl nl by simp_all
  then have "?W * (psy + row) + (psx + col) < ?W * ?H"
    by (metis add_strict_left_mono less_le_trans mult_Suc_right add.commute mult_le_mono2 Suc_leI)
  moreover have "a = fb + 2 * of_nat (?W * (psy + row) + (psx + col))"
    unfolding f(1) om by (simp add: algebra_simps)
  ultimately show ?thesis using in_picture_cell [OF ok] by (simp only:)
qed

lemma transfer_picture:
  assumes ok: "panel_ok d fb" and rect: "panel_rect d sx sy ex ey = (psx, psy, pex, pey)"
    and b: "psx \<le> pex" "pex < unat (pwidth d)" "psy \<le> pey" "pey < unat (pheight d)" and ex: "sx \<le> ex" "ex < unat (ltdc_width d)"
    and W: "pixels_per_line r + unat (r DMA2D_OOR AND 0x3FFF) = unat (pwidth d)"
    and om: "r DMA2D_OMAR = fb + 2 * of_nat (unat (pwidth d) * psy + psx)"
    and pl: "pixels_per_line r = pex - psx + 1" and nl: "number_of_lines r = pey - psy + 1"
    and val: "\<And>row col. (if fill_mode r then ucast (r DMA2D_OCOLR) else m (source_addr r row col)) = g (row, col)"
  shows "picture d fb (transferred r m) = (\<lambda>(x, y).
      if sx \<le> x \<and> x \<le> ex \<and> sy \<le> y \<and> y \<le> ey \<and> y < unat (ltdc_height d) then g (transfer_point d sx sy ex x y) else picture d fb m (x, y))"
    "around d fb (transferred r m) = around d fb m"
proof -
  let ?W = "unat (pwidth d)" and ?H = "unat (pheight d)"
  have size: "?W * ?H \<le> 1024000" using ok by (simp add: panel_ok_def)
  note out = output_cell_at [OF W om pl nl b size]
  have T: "transferred r m a = (case output_cell r a of None \<Rightarrow> m a | Some p \<Rightarrow> g p)" for a
    using val by (auto simp: transferred_def split: option.splits)
  have oc: "output_cell r (fb + 2 * of_nat (cell_of d x y)) =
      (if sx \<le> x \<and> x \<le> ex \<and> sy \<le> y \<and> y \<le> ey then Some (transfer_point d sx sy ex x y) else None)"
    if p: "x < unat (ltdc_width d)" "y < unat (ltdc_height d)" for x y
  proof (cases "ltdc_dir d = 0")
    case True
    then have "x < ?H" "y < ?W" "ex < ?H" "psx = sy" "psy = ?H - ex - 1" "pex = ey" "pey = ?H - sx - 1"
      using p ok rect ex by (simp_all add: panel_ok_def panel_rect_def)
    then show ?thesis using True out [of y "?H - x - 1"] ex by (auto simp: cell_of_def transfer_point_def)
  next
    case False
    then have "x < ?W" "y < ?H" "psx = sx" "psy = sy" "pex = ex" "pey = ey" using p ok rect by (auto simp: panel_ok_def panel_rect_def)
    then show ?thesis using False out [of x y] by (simp add: cell_of_def transfer_point_def)
  qed
  show "picture d fb (transferred r m) = (\<lambda>(x, y).
      if sx \<le> x \<and> x \<le> ex \<and> sy \<le> y \<and> y \<le> ey \<and> y < unat (ltdc_height d) then g (transfer_point d sx sy ex x y) else picture d fb m (x, y))"
    using ex by (auto simp: picture_def fun_eq_iff T oc)
  show "around d fb (transferred r m) = around d fb m"
  proof
    fix a
    show "around d fb (transferred r m) a = around d fb m a"
    proof (cases "output_cell r a")
      case (Some p)
      then show ?thesis using output_in_picture [OF ok b W om pl nl] by (simp add: around_def)
    qed (simp add: around_def T)
  qed
qed

text \<open>The registers of a rectangle.\<close>

lemma rect_registers:
  assumes ok: "panel_ok d fb" and b: "psx \<le> pex" "pex < unat (pwidth d)" "psy \<le> pey" "pey < unat (pheight d)"
    and nlr: "r DMA2D_NLR = ((of_nat pey - of_nat psy + 1) OR push_bit 16 (of_nat pex - of_nat psx + 1))"
    and oor: "r DMA2D_OOR = ucast (ucast (pwidth d - (of_nat pex - of_nat psx + 1)) :: u16)"
    and om: "r DMA2D_OMAR = panel_addr d fb (of_nat psx) (of_nat psy)"
  shows "pixels_per_line r = pex - psx + 1" "number_of_lines r = pey - psy + 1"
    "pixels_per_line r + unat (r DMA2D_OOR AND 0x3FFF) = unat (pwidth d)"
    "r DMA2D_OMAR = fb + 2 * of_nat (unat (pwidth d) * psy + psx)" "even (r DMA2D_OMAR)"
proof -
  have W: "unat (pwidth d) < 2 ^ 14" "unat (pheight d) < 2 ^ 16" "pixsize d = 2" "even fb" using ok by (simp_all add: panel_ok_def)
  have s: "(of_nat pey - of_nat psy + 1 :: u32) = of_nat (pey - psy + 1)" "(of_nat pex - of_nat psx + 1 :: u32) = of_nat (pex - psx + 1)"
    using b by (simp_all add: of_nat_diff)
  have u: "unat (of_nat (pey - psy + 1) :: u32) = pey - psy + 1" "unat (of_nat (pex - psx + 1) :: u32) = pex - psx + 1"
    "unat (of_nat psx :: u32) = psx" "unat (of_nat psy :: u32) = psy"
    by (rule unat_of_nat_small, use b W in simp)+
  have "unat (of_nat (pey - psy + 1) :: u32) < 2 ^ 16" "unat (of_nat (pex - psx + 1) :: u32) < 2 ^ 14" unfolding u using b W by simp_all
  note l = lines_register [OF this]
  show pl: "pixels_per_line r = pex - psx + 1" and "number_of_lines r = pey - psy + 1"
    unfolding pixels_per_line_def number_of_lines_def nlr s l u by simp_all
  have le: "of_nat (pex - psx + 1) \<le> pwidth d" unfolding word_le_nat_alt u using b by simp
  have "unat (pwidth d - of_nat (pex - psx + 1)) = unat (pwidth d) - (pex - psx + 1)" using unat_sub [OF le] unfolding u .
  then have o: "unat (r DMA2D_OOR) = unat (pwidth d) - (pex - psx + 1)"
    unfolding oor s using W by (simp add: unat_ucast_low del: of_nat_Suc of_nat_add)
  have "unat (r DMA2D_OOR) < 2 ^ 14" unfolding o using W(1) by linarith
  from and_mask_small [OF this] have "r DMA2D_OOR AND 0x3FFF = r DMA2D_OOR" by (simp add: mask_eq_exp_minus_1)
  then show "pixels_per_line r + unat (r DMA2D_OOR AND 0x3FFF) = unat (pwidth d)" using o b unfolding pl by simp
  show "r DMA2D_OMAR = fb + 2 * of_nat (unat (pwidth d) * psy + psx)" unfolding om panel_addr_cell [OF W(3)] u ..
  then show "even (r DMA2D_OMAR)" using W(4) by simp
qed

lemma ltdc_fill_ok:
  assumes law: "dma2d_law h v" and ok: "ltdc_ok v s" and b: "sx \<le> ex" "sy \<le> ey"
    and e: "unat ex < frame_width (ltdc_frame v s)" "unat ey < frame_height (ltdc_frame v s)"
  shows "\<exists>t. ltdc_fill h sx sy ex ey c s = Some t \<and> ltdc_ok v t \<and> ltdc_frame v t = ltdc_frame v s \<and>
     ltdc_look v t = paint_rect (unat sx) (unat sy) (unat ex) (unat ey) (ucast c) (ltdc_look v s)"
proof -
  define d fb where d: "d = lcdltdc s" "fb = fb_of s"
  have p: "panel_ok d fb" and w: "unat ex < unat (ltdc_width d)" "unat ey < unat (ltdc_height d)"
    using ok e by (simp_all add: ltdc_view d)
  obtain psx psy pex pey where r: "panel_rect d (unat sx) (unat sy) (unat ex) (unat ey) = (psx, psy, pex, pey)"
    by (metis prod_cases4)
  note rect = rectangles_ok [OF p b w r]
  define u where "u = dma2d_set h DMA2D_OCOLR c (dma2d_set h DMA2D_NLR ((of_nat pey - of_nat psy + 1) OR push_bit 16 (of_nat pex - of_nat psx + 1))
    (dma2d_set h DMA2D_OMAR (panel_addr d fb (of_nat psx) (of_nat psy))
      (dma2d_set h DMA2D_OOR (ucast (ucast (pwidth d - (of_nat pex - of_nat psx + 1)) :: u16)) (dma2d_set h DMA2D_OPFCCR LTDC_PIXFORMAT
         (dma2d_set h DMA2D_CR DMA2D_R2M (dma2d_change h DMA2D_CR (\<lambda>v. v AND NOT DMA2D_CR_START) (dma2d_clock h (lcd_hw s))))))))"
  define f where "f = dma2d_change h DMA2D_IFCR (\<lambda>y. y OR DMA2D_FLAG_TC) (dma2d_wait h 0x200000 (dma2d_change h DMA2D_CR (\<lambda>y. y OR 1) u))"
  have res: "ltdc_fill h sx sy ex ey c s = Some (s\<lparr>lcd_hw := f\<rparr>)"
    using active_fb [OF ok] by (simp add: ltdc_fill_def rect(2) f_def u_def DMA2D_CR_START_def Let_def flip: d)
  define R where "R = (reg (v (lcd_hw s)))(DMA2D_CR := DMA2D_R2M, DMA2D_OPFCCR := LTDC_PIXFORMAT,
    DMA2D_OOR := ucast (ucast (pwidth d - (of_nat pex - of_nat psx + 1)) :: u16), DMA2D_OMAR := panel_addr d fb (of_nat psx) (of_nat psy),
    DMA2D_NLR := ((of_nat pey - of_nat psy + 1) OR push_bit 16 (of_nat pex - of_nat psx + 1)), DMA2D_OCOLR := c)"
  have u: "v u = (v (lcd_hw s))\<lparr>reg := R\<rparr>"
    unfolding u_def R_def DMA2D_CR_START_def
    by (simp add: dma2d_get_set [OF law] dma2d_stop [OF law, simplified] dma2d_write_def DMA2D_CR_START_def DMA2D_R2M_def)
  define R1 where "R1 = R(DMA2D_CR := R DMA2D_CR OR 1)"
  have R1: "R1 DMA2D_NLR = ((of_nat pey - of_nat psy + 1) OR push_bit 16 (of_nat pex - of_nat psx + 1))"
    "R1 DMA2D_OOR = ucast (ucast (pwidth d - (of_nat pex - of_nat psx + 1)) :: u16)"
    "R1 DMA2D_OMAR = panel_addr d fb (of_nat psx) (of_nat psy)"
    and oc: "R1 DMA2D_OCOLR = c" by (simp_all add: R1_def R_def)
  note regs = rect_registers [OF p rect(3-6) R1]
  have fm: "fill_mode R1" by (simp add: R1_def R_def fill_mode_def DMA2D_R2M_def LTDC_PIXFORMAT_def)
  then have "transfer_ok R1" using regs by (simp add: transfer_ok_def)
  then have "v f = (v u)\<lparr>cells := transferred R1 (cells (v u)), reg := R1, polls := 0\<rparr>"
    unfolding f_def using u ltdc_idle [OF ok]
    by (intro dma2d_run [OF law]) (simp_all add: R1_def, simp add: R_def DMA2D_R2M_def)
  then have f: "\<not> running (v f)" "\<not> complete (v f)" "cells (v f) = transferred R1 (cells (v (lcd_hw s)))"
    using u ltdc_idle [OF ok] by simp_all
  have "unat sx \<le> unat ex" using b by (simp add: word_le_nat_alt)
  note tp = transfer_picture [OF p r rect(3-6) this w(1) regs(3,4,1,2), of _ "\<lambda>_. ucast c"]
  have "picture d fb (cells (v f)) = paint_rect (unat sx) (unat sy) (unat ex) (unat ey) (ucast c) (picture d fb (cells (v (lcd_hw s))))"
    "around d fb (cells (v f)) = around d fb (cells (v (lcd_hw s)))"
    unfolding f(3) using w(2) by (simp_all add: tp fm oc paint_rect_def fun_eq_iff)
  then show ?thesis using ltdc_change [OF ok f(1,2)] res unfolding d by (simp add: ltdc_look_def)
qed

text \<open>
  A block of colours in memory. Its lines are taken as lines of the panel, so with the display in
  its second direction the block comes out turned by a right angle.
\<close>

definition block_index :: "ltdc_dev \<Rightarrow> nat \<Rightarrow> nat \<Rightarrow> nat \<Rightarrow> nat \<Rightarrow> nat \<Rightarrow> nat \<Rightarrow> nat" where
  "block_index d sx sy ex ey x y =
     (if ltdc_dir d \<noteq> 0 then (ex - sx + 1) * (y - sy) + (x - sx) else (ey - sy + 1) * (ex - x) + (y - sy))"

lemma block_index_bound:
  assumes "sx \<le> x" "x \<le> ex" "sy \<le> y" "y \<le> ey"
  shows "block_index d sx sy ex ey x y < (ex - sx + 1) * (ey - sy + 1)"
proof -
  have *: "a < w \<Longrightarrow> b < h \<Longrightarrow> w * b + a < w * h" for a b w h :: nat
    by (metis add_strict_left_mono less_le_trans mult_Suc_right add.commute mult_le_mono2 Suc_leI)
  have "block_index d sx sy ex ey x y < (if ltdc_dir d \<noteq> 0 then (ex - sx + 1) * (ey - sy + 1) else (ey - sy + 1) * (ex - sx + 1))"
    unfolding block_index_def using assms by (simp only: if_distrib [of "(<) _"] split: if_split) (intro conjI impI *; simp)
  then show ?thesis by (simp add: mult.commute split: if_splits)
qed

lemma ltdc_color_fill_ok:
  assumes law: "dma2d_law h v" and ok: "ltdc_ok v s" and b: "sx \<le> ex" "sy \<le> ey"
    and e: "unat ex < frame_width (ltdc_frame v s)" "unat ey < frame_height (ltdc_frame v s)"
    and src: "even color" "\<forall>k<(unat ex - unat sx + 1) * (unat ey - unat sy + 1). \<not> in_picture (lcdltdc s) (fb_of s) (color + 2 * of_nat k)"
  shows "\<exists>t. ltdc_color_fill h sx sy ex ey color s = Some t \<and> ltdc_ok v t \<and> ltdc_frame v t = ltdc_frame v s \<and>
     ltdc_look v t = (\<lambda>(x, y).
       if unat sx \<le> x \<and> x \<le> unat ex \<and> unat sy \<le> y \<and> y \<le> unat ey
       then cells (v (lcd_hw s)) (color + 2 * of_nat (block_index (lcdltdc s) (unat sx) (unat sy) (unat ex) (unat ey) x y))
       else ltdc_look v s (x, y))"
proof -
  define d fb where d: "d = lcdltdc s" "fb = fb_of s"
  have p: "panel_ok d fb" and w: "unat ex < unat (ltdc_width d)" "unat ey < unat (ltdc_height d)"
    using ok e by (simp_all add: ltdc_view d)
  obtain psx psy pex pey where r: "panel_rect d (unat sx) (unat sy) (unat ex) (unat ey) = (psx, psy, pex, pey)"
    by (metis prod_cases4)
  note rect = rectangles_ok [OF p b w r]
  define u where "u = dma2d_set h DMA2D_NLR ((of_nat pey - of_nat psy + 1) OR push_bit 16 (of_nat pex - of_nat psx + 1))
    (dma2d_set h DMA2D_OMAR (panel_addr d fb (of_nat psx) (of_nat psy)) (dma2d_set h DMA2D_FGMAR color
      (dma2d_change h DMA2D_CR (\<lambda>v. v AND NOT 1) (dma2d_set h DMA2D_OOR (ucast (ucast (pwidth d - (of_nat pex - of_nat psx + 1)) :: u16))
        (dma2d_set h DMA2D_FGOR 0 (dma2d_set h DMA2D_FGPFCCR LTDC_PIXFORMAT (dma2d_set h DMA2D_CR 0 (dma2d_clock h (lcd_hw s)))))))))"
  define f where "f = dma2d_change h DMA2D_IFCR (\<lambda>y. y OR DMA2D_FLAG_TC) (dma2d_wait h 0x200000 (dma2d_change h DMA2D_CR (\<lambda>y. y OR 1) u))"
  have res: "ltdc_color_fill h sx sy ex ey color s = Some (s\<lparr>lcd_hw := f\<rparr>)"
    using active_fb [OF ok] by (simp add: ltdc_color_fill_def rect(1) f_def u_def DMA2D_FLAG_TC_def Let_def flip: d)
  define R where "R = (reg (v (lcd_hw s)))(DMA2D_CR := 0, DMA2D_FGPFCCR := LTDC_PIXFORMAT, DMA2D_FGOR := 0,
    DMA2D_OOR := ucast (ucast (pwidth d - (of_nat pex - of_nat psx + 1)) :: u16), DMA2D_FGMAR := color,
    DMA2D_OMAR := panel_addr d fb (of_nat psx) (of_nat psy),
    DMA2D_NLR := ((of_nat pey - of_nat psy + 1) OR push_bit 16 (of_nat pex - of_nat psx + 1)))"
  have u: "v u = (v (lcd_hw s))\<lparr>reg := R\<rparr>"
    unfolding u_def R_def
    by (simp add: dma2d_get_set [OF law] dma2d_stop [OF law, simplified] dma2d_write_def DMA2D_CR_START_def fun_upd_def)
       (simp add: fun_eq_iff)
  define R1 where "R1 = R(DMA2D_CR := R DMA2D_CR OR 1)"
  have R1: "R1 DMA2D_NLR = ((of_nat pey - of_nat psy + 1) OR push_bit 16 (of_nat pex - of_nat psx + 1))"
    "R1 DMA2D_OOR = ucast (ucast (pwidth d - (of_nat pex - of_nat psx + 1)) :: u16)"
    "R1 DMA2D_OMAR = panel_addr d fb (of_nat psx) (of_nat psy)" by (simp_all add: R1_def R_def)
  note regs = rect_registers [OF p rect(3-6) R1]
  have fm: "\<not> fill_mode R1" by (simp add: R1_def R_def fill_mode_def DMA2D_R2M_def)
  have sa: "source_addr R1 row col = color + 2 * of_nat ((pex - psx + 1) * row + col)" for row col
    unfolding source_addr_def regs(1) by (simp add: R1_def R_def)
  define w' h' where wh: "w' = unat ex - unat sx + 1" "h' = unat ey - unat sy + 1"
  have le: "unat sx \<le> unat ex" "unat sy \<le> unat ey" using b by (simp_all add: word_le_nat_alt)
  have dims: "if ltdc_dir d \<noteq> 0 then pex - psx + 1 = w' \<and> pey - psy + 1 = h' else pex - psx + 1 = h' \<and> pey - psy + 1 = w'"
    using r p w le by (auto simp: panel_rect_def panel_ok_def wh split: if_splits)
  have "output_cell R1 (source_addr R1 row col) = None" if "row < number_of_lines R1" "col < pixels_per_line R1" for row col
  proof (rule ccontr)
    assume "output_cell R1 (source_addr R1 row col) \<noteq> None"
    then have "in_picture d fb (color + 2 * of_nat ((pex - psx + 1) * row + col))"
      using output_in_picture [OF p rect(3-6) regs(3,4,1,2)] sa by (metis option.exhaust)
    moreover have "(pex - psx + 1) * row + col < (pex - psx + 1) * (pey - psy + 1)"
      using that unfolding regs by (metis add_strict_left_mono less_le_trans mult_Suc_right add.commute mult_le_mono2 Suc_leI)
    moreover have "(pex - psx + 1) * (pey - psy + 1) = w' * h'" using dims by (metis mult.commute)
    ultimately show False using src(2) unfolding wh d by (metis (no_types))
  qed
  then have "copy_mode R1" using src(1) by (simp add: copy_mode_def) (simp add: R1_def R_def LTDC_PIXFORMAT_def)
  then have "transfer_ok R1" using regs by (simp add: transfer_ok_def)
  then have "v f = (v u)\<lparr>cells := transferred R1 (cells (v u)), reg := R1, polls := 0\<rparr>"
    unfolding f_def using u ltdc_idle [OF ok] by (intro dma2d_run [OF law]) (simp_all add: R1_def, simp add: R_def)
  then have f: "\<not> running (v f)" "\<not> complete (v f)" "cells (v f) = transferred R1 (cells (v (lcd_hw s)))"
    using u ltdc_idle [OF ok] by simp_all
  note tp = transfer_picture [OF p r rect(3-6) le(1) w(1) regs(3,4,1,2), of "cells (v (lcd_hw s))"
      "\<lambda>p. cells (v (lcd_hw s)) (color + 2 * of_nat ((pex - psx + 1) * fst p + snd p))"]
  have bi: "(pex - psx + 1) * fst (transfer_point d (unat sx) (unat sy) (unat ex) x y) + snd (transfer_point d (unat sx) (unat sy) (unat ex) x y) =
      block_index d (unat sx) (unat sy) (unat ex) (unat ey) x y" for x y
    using dims by (simp add: block_index_def transfer_point_def wh split: if_splits)
  have "picture d fb (cells (v f)) = (\<lambda>(x, y).
       if unat sx \<le> x \<and> x \<le> unat ex \<and> unat sy \<le> y \<and> y \<le> unat ey
       then cells (v (lcd_hw s)) (color + 2 * of_nat (block_index d (unat sx) (unat sy) (unat ex) (unat ey) x y))
       else picture d fb (cells (v (lcd_hw s))) (x, y))"
    "around d fb (cells (v f)) = around d fb (cells (v (lcd_hw s)))"
    unfolding f(3) using w(2) by (auto simp only: tp fm sa bi if_False fst_conv snd_conv fun_eq_iff split: prod.split if_split)
  then show ?thesis using ltdc_change [OF ok f(1,2)] res unfolding d ltdc_look_def by simp
qed

end
