(* ===== verification/Lcd_Canvas.thy ===== *)
theory Lcd_Canvas
  imports Lcd Ltdc_Canvas
begin

text \<open>
  Both kinds of panel as a picture. The controllers are described by the commands the driver gives
  them: those of the ILI9341 family, the NT35510 with a command for every byte, and the SSD1963, whose
  rows are counted from the other side when the panel is upright. On all of them drawing points and
  filling rectangles does what it says.
\<close>

section \<open>A display controller\<close>

text \<open>
  How a controller takes the window: both ends of a range after one command, a command for each byte of
  them, or the range of the columns of the picture counted down from the last one.
\<close>

datatype addressing = Plain | Wide | Mirrored nat

text \<open>
  The selected command with its parameters so far, the window, the place of the next point and the
  picture, whose points are named by the coordinates of the current direction.
\<close>

record panel =
  addressing :: addressing
  index :: u16
  args :: "u16 list"
  win_sc :: nat
  win_ec :: nat
  win_sp :: nat
  win_ep :: nat
  next_x :: nat
  next_y :: nat
  gram :: image

definition coord :: "u16 \<Rightarrow> u16 \<Rightarrow> nat" where
  "coord a b = 256 * unat (lo8 a) + unat (lo8 b)"

definition ram_cmd :: "addressing \<Rightarrow> u16" where
  "ram_cmd m = (case m of Wide \<Rightarrow> 0x2C00 | _ \<Rightarrow> 0x2C)"

definition panel_reg :: "u16 \<Rightarrow> panel \<Rightarrow> panel" where
  "panel_reg c p =
     (let q = p\<lparr>index := c, args := []\<rparr> in if c = ram_cmd (addressing p) then q\<lparr>next_x := win_sc p, next_y := win_sp p\<rparr> else q)"

definition panel_point :: "u16 \<Rightarrow> panel \<Rightarrow> panel" where
  "panel_point c p =
     (let q = p\<lparr>gram := (gram p)((next_x p, next_y p) := c)\<rparr>
      in if next_x p = win_ec p
         then q\<lparr>next_x := win_sc p, next_y := if next_y p = win_ep p then win_sp p else next_y p + 1\<rparr>
         else q\<lparr>next_x := next_x p + 1\<rparr>)"

text \<open>The ends of a range from the parameters of a command.\<close>

definition range_args :: "u16 list \<Rightarrow> (nat \<Rightarrow> panel \<Rightarrow> panel) \<Rightarrow> (nat \<Rightarrow> panel \<Rightarrow> panel) \<Rightarrow> panel \<Rightarrow> panel" where
  "range_args xs from to p =
     (if length xs = 2 then from (coord (xs ! 0) (xs ! 1)) p
      else if length xs = 4 then to (coord (xs ! 2) (xs ! 3)) p else p)"

definition panel_args :: "u16 list \<Rightarrow> panel \<Rightarrow> panel" where
  "panel_args xs p =
     (if index p = 0x2A then range_args xs (\<lambda>a p. p\<lparr>win_sc := a\<rparr>) (\<lambda>a p. p\<lparr>win_ec := a\<rparr>) p
      else if index p = 0x2B then range_args xs (\<lambda>a p. p\<lparr>win_sp := a\<rparr>) (\<lambda>a p. p\<lparr>win_ep := a\<rparr>) p
      else p)"

definition panel_mirrored_args :: "nat \<Rightarrow> u16 list \<Rightarrow> panel \<Rightarrow> panel" where
  "panel_mirrored_args l xs p =
     (if index p = 0x2B then range_args xs (\<lambda>a p. p\<lparr>win_ec := l - a\<rparr>) (\<lambda>a p. p\<lparr>win_sc := l - a\<rparr>) p
      else if index p = 0x2A then range_args xs (\<lambda>a p. p\<lparr>win_sp := a\<rparr>) (\<lambda>a p. p\<lparr>win_ep := a\<rparr>) p
      else p)"

definition high_byte :: "u16 \<Rightarrow> nat \<Rightarrow> nat" where
  "high_byte v n = 256 * unat (lo8 v) + n mod 256"

definition low_byte :: "u16 \<Rightarrow> nat \<Rightarrow> nat" where
  "low_byte v n = 256 * (n div 256) + unat (lo8 v)"

definition panel_wide_arg :: "u16 \<Rightarrow> panel \<Rightarrow> panel" where
  "panel_wide_arg v p =
     (if index p = 0x2A00 then p\<lparr>win_sc := high_byte v (win_sc p)\<rparr>
      else if index p = 0x2A01 then p\<lparr>win_sc := low_byte v (win_sc p)\<rparr>
      else if index p = 0x2A02 then p\<lparr>win_ec := high_byte v (win_ec p)\<rparr>
      else if index p = 0x2A03 then p\<lparr>win_ec := low_byte v (win_ec p)\<rparr>
      else if index p = 0x2B00 then p\<lparr>win_sp := high_byte v (win_sp p)\<rparr>
      else if index p = 0x2B01 then p\<lparr>win_sp := low_byte v (win_sp p)\<rparr>
      else if index p = 0x2B02 then p\<lparr>win_ep := high_byte v (win_ep p)\<rparr>
      else if index p = 0x2B03 then p\<lparr>win_ep := low_byte v (win_ep p)\<rparr>
      else p)"

definition panel_ram :: "u16 \<Rightarrow> panel \<Rightarrow> panel" where
  "panel_ram v p =
     (if index p = ram_cmd (addressing p) then panel_point v p
      else
        let xs = args p @ [v]; q = p\<lparr>args := xs\<rparr> in
        case addressing p of Plain \<Rightarrow> panel_args xs q | Wide \<Rightarrow> panel_wide_arg v q | Mirrored l \<Rightarrow> panel_mirrored_args l xs q)"

definition panel_law :: "'s lcd_port \<Rightarrow> ('s \<Rightarrow> panel) \<Rightarrow> bool" where
  "panel_law h v \<longleftrightarrow> (\<forall>s x. v (LCD_REG_set h x s) = panel_reg x (v s)) \<and> (\<forall>s x. v (LCD_RAM_set h x s) = panel_ram x (v s))"

lemma coord_bytes: "coord (hi8 x) (lo8 x) = unat x"
proof -
  have "unat (drop_bit 8 x AND 0xFF) = unat x div 256" "unat ((x AND 0xFF) AND 0xFF) = unat x mod 256"
  proof -
    have m: "(0xFF :: u16) = mask 8" by (simp add: mask_eq_exp_minus_1)
    have "drop_bit 8 x AND mask 8 = drop_bit 8 x" by (rule bit_word_eqI) (auto simp: bit_simps dest: bit_imp_le_length)
    moreover have "unat (drop_bit 8 x) = unat x div 256" by (simp only: unat_drop_bit_eq drop_bit_eq_div [of 8 "unat x"]) simp
    ultimately show "unat (drop_bit 8 x AND 0xFF) = unat x div 256" unfolding m by simp
    have "unat (x AND mask 8) = unat x mod 256"
      by (simp add: unsigned_take_bit_eq take_bit_eq_mod [of 8 "unat x"] flip: take_bit_eq_mask)
    then show "unat ((x AND 0xFF) AND 0xFF) = unat x mod 256" unfolding m by (simp add: and.assoc)
  qed
  then show ?thesis unfolding coord_def lo8_def hi8_def by simp
qed

lemma lo8_small: "k < 256 \<Longrightarrow> unat (lo8 (of_nat k)) = k"
proof -
  assume k: "k < 256"
  have m: "(0xFF :: u16) = mask 8" by (simp add: mask_eq_exp_minus_1)
  have u: "unat (of_nat k :: u16) = k" using k by (intro unat_of_nat_small) simp
  have "unat (of_nat k AND mask 8 :: u16) = take_bit 8 (unat (of_nat k :: u16))"
    by (simp only: unsigned_take_bit_eq flip: take_bit_eq_mask)
  then show ?thesis using k unfolding lo8_def m u by (simp add: take_bit_nat_eq_self)
qed

lemma coord_last:
  assumes "0 < unat w"
  shows "coord (last_hi w) (last_lo w) = unat w - 1"
proof -
  define n where "n = unat w - 1"
  have "uint w - 1 = int n" using assms by (simp add: n_def of_nat_diff)
  moreover have "int n div 256 = int (n div 256)" "int n mod 256 = int (n mod 256)" by (simp_all add: zdiv_int zmod_int)
  ultimately have "last_hi w = of_nat (n div 256)" "last_lo w = of_nat (n mod 256)"
    unfolding last_hi_def last_lo_def by (simp_all only: of_int_of_nat_eq)
  moreover have "n div 256 < 256" using unat_u16_less [of w] by (simp add: n_def less_mult_imp_div_less)
  ultimately have "coord (last_hi w) (last_lo w) = n" by (simp add: coord_def lo8_small)
  then show ?thesis by (simp add: n_def)
qed

text \<open>The driver's settings for a controller, and the window over the whole picture.\<close>

definition mcu_ok :: "('s \<Rightarrow> panel) \<Rightarrow> 's screen \<Rightarrow> bool" where
  "mcu_ok v s \<longleftrightarrow>
     (let d = lcddev s; p = v (lcd_hw s) in
      addressing p = (if lcd_id d = 0x1963 \<and> lcd_dir d = 0 then Mirrored (unat (lcd_width d) - 1) else if lcd_id d = 0x5510 then Wide else Plain) \<and>
      setxcmd d = (case addressing p of Plain \<Rightarrow> 0x2A | Wide \<Rightarrow> 0x2A00 | Mirrored l \<Rightarrow> 0x2B) \<and>
      setycmd d = (case addressing p of Plain \<Rightarrow> 0x2B | Wide \<Rightarrow> 0x2B00 | Mirrored l \<Rightarrow> 0x2A) \<and>
      wramcmd d = ram_cmd (addressing p) \<and>
      win_ec p + 1 = unat (lcd_width d) \<and> win_ep p + 1 = unat (lcd_height d))"

text \<open>The next point written goes to the cursor.\<close>

definition at_point :: "nat \<Rightarrow> nat \<Rightarrow> panel \<Rightarrow> panel" where
  "at_point x y p = p\<lparr>index := ram_cmd (addressing p), args := [], win_sc := x, win_sp := y, next_x := x, next_y := y\<rparr>"

definition goto_point :: "'s lcd_port \<Rightarrow> u16 \<Rightarrow> u16 \<Rightarrow> 's screen \<Rightarrow> 's screen" where
  "goto_point h x y s = lcd_write_ram_prepare h (lcd_set_cursor h x y s)"

lemma wide_bytes: "low_byte (lo8 x) (high_byte (hi8 x) n) = unat x"
proof -
  have "unat (lo8 x) < 256" for x :: u16
    using word_and_le1 [of x "0xFF"] by (simp add: lo8_def word_le_nat_alt)
  then have "low_byte (lo8 x) (high_byte (hi8 x) n) = coord (hi8 x) (lo8 x)"
    by (simp add: low_byte_def high_byte_def coord_def lo8_def and.assoc)
  then show ?thesis by (simp add: coord_bytes)
qed

lemma goto_point_ok:
  assumes law: "panel_law h v" and ok: "mcu_ok v s" and x: "unat x < unat (lcd_width (lcddev s))"
  shows "\<exists>u. goto_point h x y s = s\<lparr>lcd_hw := u\<rparr> \<and> v u = at_point (unat x) (unat y) (v (lcd_hw s))"
proof -
  have l: "v (LCD_REG_set h c t) = panel_reg c (v t)" "v (LCD_RAM_set h c t) = panel_ram c (v t)" for c t
    using law by (simp_all add: panel_law_def)
  let ?d = "lcddev s" and ?p = "v (lcd_hw s)"
  note go = goto_point_def lcd_set_cursor_def lcd_write_ram_prepare_def on_hw_def Let_def lcd_wr_regno_def lcd_wr_data_def
  note pl = panel_reg_def panel_ram_def panel_args_def panel_mirrored_args_def panel_wide_arg_def range_args_def ram_cmd_def at_point_def
  have ends: "win_ec ?p = unat (lcd_width ?d) - 1" "win_ep ?p = unat (lcd_height ?d) - 1" "0 < unat (lcd_width ?d)" "0 < unat (lcd_height ?d)"
    using ok by (auto simp: mcu_ok_def Let_def)
  have "goto_point h x y s = s\<lparr>lcd_hw := lcd_hw (goto_point h x y s)\<rparr>" by (simp add: go)
  moreover have "v (lcd_hw (goto_point h x y s)) = at_point (unat x) (unat y) ?p"
  proof (cases "lcd_id ?d = 0x1963")
    case f: True
    show ?thesis
    proof (cases "lcd_dir ?d = 0")
      case True
      have a: "addressing ?p = Mirrored (unat (lcd_width ?d) - 1)" "setxcmd ?d = 0x2B" "setycmd ?d = 0x2A" "wramcmd ?d = 0x2C"
        using ok f True by (simp_all add: mcu_ok_def Let_def ram_cmd_def)
      have "unat (lcd_width ?d - 1 - x) = unat (lcd_width ?d) - 1 - unat x"
      proof -
        have w1: "unat (lcd_width ?d - 1) = unat (lcd_width ?d) - 1" using ends(3) by (simp add: unat_sub word_le_nat_alt)
        then show ?thesis using x by (simp add: unat_sub word_le_nat_alt)
      qed
      then have m: "unat (lcd_width ?d) - 1 - coord (hi8 (lcd_width ?d - 1 - x)) (lo8 (lcd_width ?d - 1 - x)) = unat x"
        using x by (simp add: coord_bytes)
      have z: "coord 0 0 = 0" by (simp add: coord_def lo8_def)
      show ?thesis
        by (rule panel.equality) (use f True m in \<open>simp_all add: go l pl a coord_bytes coord_last ends z\<close>)
    next
      case False
      have a: "addressing ?p = Plain" "setxcmd ?d = 0x2A" "setycmd ?d = 0x2B" "wramcmd ?d = 0x2C"
        using ok f False by (simp_all add: mcu_ok_def Let_def ram_cmd_def)
      show ?thesis
        by (rule panel.equality) (use f False in \<open>simp_all add: go l pl a coord_bytes coord_last ends\<close>)
    qed
  next
    case f: False
    show ?thesis
    proof (cases "lcd_id ?d = 0x5510")
      case True
      have a: "addressing ?p = Wide" "setxcmd ?d = 0x2A00" "setycmd ?d = 0x2B00" "wramcmd ?d = 0x2C00"
        using ok True by (simp_all add: mcu_ok_def Let_def ram_cmd_def)
      show ?thesis using f True by (simp add: go l pl a wide_bytes)
    next
      case False
      have a: "addressing ?p = Plain" "setxcmd ?d = 0x2A" "setycmd ?d = 0x2B" "wramcmd ?d = 0x2C"
        using ok f False by (simp_all add: mcu_ok_def Let_def ram_cmd_def)
      show ?thesis using f False by (simp add: go l pl a coord_bytes)
    qed
  qed
  ultimately show ?thesis by blast
qed

section \<open>Rows of points\<close>

lemma write_points_row:
  assumes law: "panel_law h v"
  shows "index (v s) = ram_cmd (addressing (v s)) \<Longrightarrow> next_x (v s) + n \<le> win_ec (v s) + 1 \<Longrightarrow>
    \<exists>x y. v (write_points h n c s) = (v s)\<lparr>next_x := x, next_y := y,
      gram := (\<lambda>(a, b). if b = next_y (v s) \<and> next_x (v s) \<le> a \<and> a < next_x (v s) + n then c else gram (v s) (a, b))\<rparr>"
proof (induction n arbitrary: s)
  case 0
  have "(\<lambda>(a, b). if b = next_y (v s) \<and> next_x (v s) \<le> a \<and> a < next_x (v s) + 0 then c else gram (v s) (a, b)) = gram (v s)"
    by (auto simp: fun_eq_iff)
  then have "v (write_points h 0 c s) = (v s)\<lparr>next_x := next_x (v s), next_y := next_y (v s),
      gram := (\<lambda>(a, b). if b = next_y (v s) \<and> next_x (v s) \<le> a \<and> a < next_x (v s) + 0 then c else gram (v s) (a, b))\<rparr>" by simp
  then show ?case by blast
next
  case (Suc n)
  define t where "t = LCD_RAM_set h c s"
  have t: "v t = panel_point c (v s)" using law Suc.prems(1) by (simp add: t_def panel_law_def panel_ram_def)
  show ?case
  proof (cases n)
    case 0
    then have "v (write_points h (Suc n) c s) = panel_point c (v s)" using t by (simp add: t_def)
    then show ?thesis unfolding panel_point_def Let_def using 0
      by (cases "v s") (auto simp: fun_eq_iff intro!: exI)
  next
    case (Suc m)
    have e: "next_x (v s) \<noteq> win_ec (v s)" using Suc Suc.prems(2) by simp
    then have p: "v t = (v s)\<lparr>gram := (gram (v s))((next_x (v s), next_y (v s)) := c), next_x := next_x (v s) + 1\<rparr>"
      using t by (simp add: panel_point_def)
    then have "index (v t) = ram_cmd (addressing (v t))" "next_x (v t) + n \<le> win_ec (v t) + 1" using Suc.prems by simp_all
    from Suc.IH [OF this] obtain x y where r: "v (write_points h n c t) = (v t)\<lparr>next_x := x, next_y := y,
      gram := (\<lambda>(a, b). if b = next_y (v t) \<and> next_x (v t) \<le> a \<and> a < next_x (v t) + n then c else gram (v t) (a, b))\<rparr>" by blast
    have g: "(\<lambda>(a, b). if b = next_y (v t) \<and> next_x (v t) \<le> a \<and> a < next_x (v t) + n then c else gram (v t) (a, b)) =
      (\<lambda>(a, b). if b = next_y (v s) \<and> next_x (v s) \<le> a \<and> a < next_x (v s) + Suc n then c else gram (v s) (a, b))"
      unfolding p by (auto simp: fun_eq_iff)
    show ?thesis using r unfolding g by (simp add: p t_def [symmetric])  (rule exI [of _ x], rule exI [of _ y], simp)
  qed
qed

section \<open>Points and rectangles on a controller\<close>

definition mcu_look :: "('s \<Rightarrow> panel) \<Rightarrow> 's screen \<Rightarrow> image" where
  "mcu_look v s = (\<lambda>(x, y). if x < unat (lcd_width (lcddev s)) \<and> y < unat (lcd_height (lcddev s)) then gram (v (lcd_hw s)) (x, y) else 0)"

definition mcu_frame :: "'s screen \<Rightarrow> lcd_frame" where
  "mcu_frame s = (lcddev s, lcdltdc s, g_ltdc_framebuf s, g_back_color s, \<lambda>_. 0)"

lemma mcu_change:
  assumes "mcu_ok v s" "addressing (v u) = addressing (v (lcd_hw s))" "win_ec (v u) = win_ec (v (lcd_hw s))" "win_ep (v u) = win_ep (v (lcd_hw s))"
  shows "mcu_ok v (s\<lparr>lcd_hw := u\<rparr>)" "mcu_frame (s\<lparr>lcd_hw := u\<rparr>) = mcu_frame s"
    "mcu_look v (s\<lparr>lcd_hw := u\<rparr>) =
       (\<lambda>(x, y). if x < unat (lcd_width (lcddev s)) \<and> y < unat (lcd_height (lcddev s)) then gram (v u) (x, y) else 0)"
  using assms by (simp_all add: mcu_ok_def mcu_frame_def mcu_look_def fun_eq_iff Let_def)

text \<open>A row of points at the cursor.\<close>

lemma row_ok:
  assumes law: "panel_law h v" and ok: "mcu_ok v s" and y: "unat y < unat (lcd_height (lcddev s))"
    and n: "unat x + n \<le> unat (lcd_width (lcddev s))" "0 < n"
  shows "\<exists>t. on_hw (write_points h n c) (goto_point h x y s) = t \<and> mcu_ok v t \<and> mcu_frame t = mcu_frame s \<and>
    mcu_look v t = (\<lambda>(a, b). if b = unat y \<and> unat x \<le> a \<and> a < unat x + n then c else mcu_look v s (a, b))"
proof -
  obtain u where u: "goto_point h x y s = s\<lparr>lcd_hw := u\<rparr>" "v u = at_point (unat x) (unat y) (v (lcd_hw s))"
    using goto_point_ok [OF law ok, of x y] n by auto
  have "index (v u) = ram_cmd (addressing (v u))" "next_x (v u) + n \<le> win_ec (v u) + 1"
    using u(2) n ok by (simp_all add: at_point_def mcu_ok_def Let_def)
  from write_points_row [OF law this, of c] obtain a b where w: "v (write_points h n c u) = (v u)\<lparr>next_x := a, next_y := b,
      gram := (\<lambda>(a, b). if b = next_y (v u) \<and> next_x (v u) \<le> a \<and> a < next_x (v u) + n then c else gram (v u) (a, b))\<rparr>" by blast
  have t: "on_hw (write_points h n c) (goto_point h x y s) = s\<lparr>lcd_hw := write_points h n c u\<rparr>"
    using u(1) by (simp add: on_hw_def)
  have "addressing (v (write_points h n c u)) = addressing (v (lcd_hw s))" "win_ec (v (write_points h n c u)) = win_ec (v (lcd_hw s))" "win_ep (v (write_points h n c u)) = win_ep (v (lcd_hw s))"
    using w u(2) by (simp_all add: at_point_def)
  note ch = mcu_change [OF ok this]
  have "mcu_look v (s\<lparr>lcd_hw := write_points h n c u\<rparr>) =
      (\<lambda>(a, b). if b = unat y \<and> unat x \<le> a \<and> a < unat x + n then c else mcu_look v s (a, b))"
    unfolding ch(3) mcu_look_def using w u(2) y n(1) by (auto simp: fun_eq_iff at_point_def)
  then show ?thesis using ch(1,2) t by blast
qed

lemma mcu_draw_ok:
  assumes law: "panel_law h v" and ok: "mcu_ok v s" and rgb: "\<not> is_rgb s"
    and p: "unat x < frame_width (mcu_frame s)" "unat y < frame_height (mcu_frame s)"
  shows "\<exists>t. lcd_draw_point h x y c s = Some t \<and> mcu_ok v t \<and> mcu_frame t = mcu_frame s \<and>
    mcu_look v t = (mcu_look v s)((unat x, unat y) := ucast c)"
proof -
  have "unat y < unat (lcd_height (lcddev s))" "unat x + 1 \<le> unat (lcd_width (lcddev s))"
    using p by (simp_all add: mcu_frame_def frame_width_def frame_height_def)
  from row_ok [OF law ok this zero_less_one, of "ucast c"] obtain t where t: "on_hw (write_points h 1 (ucast c)) (goto_point h x y s) = t"
    "mcu_ok v t" "mcu_frame t = mcu_frame s"
    "mcu_look v t = (\<lambda>(a, b). if b = unat y \<and> unat x \<le> a \<and> a < unat x + 1 then ucast c else mcu_look v s (a, b))" by blast
  have "write_points h 1 (ucast c) = LCD_RAM_set h (ucast c)" by (simp add: fun_eq_iff)
  then have "lcd_draw_point h x y c s = Some t" using rgb t(1) by (simp add: lcd_draw_point_def goto_point_def)
  moreover have "mcu_look v t = (mcu_look v s)((unat x, unat y) := ucast c)" unfolding t(4) by (auto simp: fun_eq_iff)
  ultimately show ?thesis using t(2,3) by blast
qed

lemma fill_rows_ok:
  assumes law: "panel_law h v" and e: "unat ex < unat (lcd_width (lcddev s))" "unat ey < unat (lcd_height (lcddev s))" and sx: "sx \<le> ex"
  shows "mcu_ok v s \<Longrightarrow> unat i \<le> unat ey + 1 \<Longrightarrow>
    \<exists>t. fill_rows h sx (ex - sx + 1) ey c i s = Some t \<and> mcu_ok v t \<and> mcu_frame t = mcu_frame s \<and>
      mcu_look v t = paint_rect (unat sx) (unat i) (unat ex) (unat ey) c (mcu_look v s)"
  using e
proof (induction "unat ey + 1 - unat i" arbitrary: i s)
  case 0
  then have "\<not> i \<le> ey" by (simp add: word_le_nat_alt)
  then have "fill_rows h sx (ex - sx + 1) ey c i s = Some s" by (simp add: fill_rows.simps [of h sx "ex - sx + 1" ey c i s])
  moreover have "mcu_look v s = paint_rect (unat sx) (unat i) (unat ex) (unat ey) c (mcu_look v s)"
    using 0 by (auto simp: paint_rect_def fun_eq_iff)
  ultimately show ?case using 0 by auto
next
  case (Suc k)
  have le: "i \<le> ey" and lt: "unat i < unat (lcd_height (lcddev s))" using Suc.hyps(2) Suc.prems by (simp_all add: word_le_nat_alt)
  have sxn: "unat sx \<le> unat ex" using sx by (simp add: word_le_nat_alt)
  have ex16: "unat ex < 65535" "unat ey < 65535"
    using Suc.prems(3,4) unat_u16_less [of "lcd_width (lcddev s)"] unat_u16_less [of "lcd_height (lcddev s)"] by simp_all
  have w: "unat (ex - sx + 1) = unat ex - unat sx + 1"
    using sx ex16 by (simp add: unat_sub unat_add_lem [THEN iffD1])
  have "unat sx + (unat ex - unat sx + 1) \<le> unat (lcd_width (lcddev s))" using Suc.prems(3) sxn by simp
  from row_ok [OF law Suc.prems(1) lt this, of c] zero_less_Suc [of "unat ex - unat sx"] obtain t where t: "on_hw (write_points h (unat (ex - sx + 1)) c) (goto_point h sx i s) = t"
    "mcu_ok v t" "mcu_frame t = mcu_frame s"
    "mcu_look v t = (\<lambda>(a, b). if b = unat i \<and> unat sx \<le> a \<and> a < unat sx + (unat ex - unat sx + 1) then c else mcu_look v s (a, b))"
    unfolding w Suc_eq_plus1 by blast
  have i1: "unat (i + 1) = unat i + 1" using le ex16 by (simp add: word_le_nat_alt unat_add_lem [THEN iffD1])
  have "lcddev t = lcddev s" using t(3) by (simp add: mcu_frame_def)
  then have "\<exists>r. fill_rows h sx (ex - sx + 1) ey c (i + 1) t = Some r \<and> mcu_ok v r \<and> mcu_frame r = mcu_frame t \<and>
      mcu_look v r = paint_rect (unat sx) (unat (i + 1)) (unat ex) (unat ey) c (mcu_look v t)"
    using Suc.prems Suc.hyps(2) i1 le t(2) by (intro Suc.hyps(1)) (simp_all add: word_le_nat_alt)
  moreover have "fill_rows h sx (ex - sx + 1) ey c i s = fill_rows h sx (ex - sx + 1) ey c (i + 1) t"
    using le t(1) by (simp add: fill_rows.simps [of h sx "ex - sx + 1" ey c i s] goto_point_def)
  moreover have "paint_rect (unat sx) (unat (i + 1)) (unat ex) (unat ey) c (mcu_look v t) =
      paint_rect (unat sx) (unat i) (unat ex) (unat ey) c (mcu_look v s)"
    unfolding t(4) i1 using le sxn by (auto simp: paint_rect_def fun_eq_iff word_le_nat_alt)
  ultimately show ?case using t(3) by simp
qed

lemma mcu_fill_ok:
  assumes law: "panel_law h v" and ok: "mcu_ok v s" and rgb: "\<not> is_rgb s" and b: "sx \<le> ex" "sy \<le> ey"
    and e: "unat ex < frame_width (mcu_frame s)" "unat ey < frame_height (mcu_frame s)"
  shows "\<exists>t. lcd_fill h sx sy ex ey c s = Some t \<and> mcu_ok v t \<and> mcu_frame t = mcu_frame s \<and>
    mcu_look v t = paint_rect (unat sx) (unat sy) (unat ex) (unat ey) (ucast c) (mcu_look v s)"
proof -
  have "unat ex < unat (lcd_width (lcddev s))" "unat ey < unat (lcd_height (lcddev s))" "unat sy \<le> unat ey + 1"
    using b e by (simp_all add: mcu_frame_def frame_width_def frame_height_def word_le_nat_alt)
  from fill_rows_ok [OF law this(1,2) b(1) ok this(3)] rgb show ?thesis by (simp add: lcd_fill_def)
qed

section \<open>Either kind of panel\<close>

record 's lcd_view =
  accelerator :: "'s \<Rightarrow> dma2d"
  controller :: "'s \<Rightarrow> panel"

definition lcd_law :: "'s lcd_port \<Rightarrow> 's lcd_view \<Rightarrow> bool" where
  "lcd_law h v \<longleftrightarrow> memory_law (rgb h) (accelerator v) \<and> dma2d_law (rgb h) (accelerator v) \<and> panel_law h (controller v)"

definition lcd_ok :: "'s lcd_view \<Rightarrow> 's screen \<Rightarrow> bool" where
  "lcd_ok v s \<longleftrightarrow> (if is_rgb s then ltdc_ok (accelerator v) s else mcu_ok (controller v) s)"

definition lcd_frame :: "'s lcd_view \<Rightarrow> 's screen \<Rightarrow> lcd_frame" where
  "lcd_frame v s = (if is_rgb s then ltdc_frame (accelerator v) s else mcu_frame s)"

definition lcd_look :: "'s lcd_view \<Rightarrow> 's screen \<Rightarrow> image" where
  "lcd_look v s = (if is_rgb s then ltdc_look (accelerator v) s else mcu_look (controller v) s)"

lemma same_kind:
  "ltdc_frame a t = ltdc_frame a s \<Longrightarrow> is_rgb t = is_rgb s"
  "mcu_frame t = mcu_frame s \<Longrightarrow> is_rgb t = is_rgb s"
  by (simp_all add: ltdc_frame_def mcu_frame_def is_rgb_def)

interpretation lcd: canvas_fill "\<lambda>s. lcd_law h v \<and> lcd_ok v s" "lcd_frame v" frame_width frame_height "lcd_look v"
  "lcd_draw_point h" "lcd_fill h" for h v
proof unfold_locales
  fix s and x y :: u16 and c :: u32
  assume ok: "lcd_law h v \<and> lcd_ok v s" and p: "unat x < frame_width (lcd_frame v s)" "unat y < frame_height (lcd_frame v s)"
  show "\<exists>t. lcd_draw_point h x y c s = Some t \<and> (lcd_law h v \<and> lcd_ok v t) \<and> lcd_frame v t = lcd_frame v s \<and>
      lcd_look v t = (lcd_look v s)((unat x, unat y) := ucast c)"
  proof (cases "is_rgb s")
    case True
    then obtain t where "ltdc_draw_point (rgb h) x y c s = Some t" "ltdc_ok (accelerator v) t"
      "ltdc_frame (accelerator v) t = ltdc_frame (accelerator v) s"
      "ltdc_look (accelerator v) t = (ltdc_look (accelerator v) s)((unat x, unat y) := ucast c)"
      using ltdc_draw_ok [of "rgb h" "accelerator v" s x y c] ok p by (auto simp: lcd_law_def lcd_ok_def lcd_frame_def)
    then show ?thesis using True ok same_kind(1) [of "accelerator v" t s]
      by (simp add: lcd_draw_point_def lcd_ok_def lcd_frame_def lcd_look_def)
  next
    case False
    then obtain t where "lcd_draw_point h x y c s = Some t" "mcu_ok (controller v) t" "mcu_frame t = mcu_frame s"
      "mcu_look (controller v) t = (mcu_look (controller v) s)((unat x, unat y) := ucast c)"
      using mcu_draw_ok [of h "controller v" s x y c] ok p by (auto simp: lcd_law_def lcd_ok_def lcd_frame_def)
    then show ?thesis using False ok same_kind(2) [of t s] by (simp add: lcd_ok_def lcd_frame_def lcd_look_def)
  qed
next
  fix s and sx ex sy ey :: u16 and c :: u32
  assume ok: "lcd_law h v \<and> lcd_ok v s" and b: "sx \<le> ex" "sy \<le> ey"
    and p: "unat ex < frame_width (lcd_frame v s)" "unat ey < frame_height (lcd_frame v s)"
  show "\<exists>t. lcd_fill h sx sy ex ey c s = Some t \<and> (lcd_law h v \<and> lcd_ok v t) \<and> lcd_frame v t = lcd_frame v s \<and>
      lcd_look v t = paint_rect (unat sx) (unat sy) (unat ex) (unat ey) (ucast c) (lcd_look v s)"
  proof (cases "is_rgb s")
    case True
    then obtain t where "ltdc_fill (rgb h) sx sy ex ey c s = Some t" "ltdc_ok (accelerator v) t"
      "ltdc_frame (accelerator v) t = ltdc_frame (accelerator v) s"
      "ltdc_look (accelerator v) t = paint_rect (unat sx) (unat sy) (unat ex) (unat ey) (ucast c) (ltdc_look (accelerator v) s)"
      using ltdc_fill_ok [of "rgb h" "accelerator v" s sx ex sy ey c] ok p b by (auto simp: lcd_law_def lcd_ok_def lcd_frame_def)
    then show ?thesis using True ok same_kind(1) [of "accelerator v" t s]
      by (simp add: lcd_fill_def lcd_ok_def lcd_frame_def lcd_look_def)
  next
    case False
    then obtain t where "lcd_fill h sx sy ex ey c s = Some t" "mcu_ok (controller v) t" "mcu_frame t = mcu_frame s"
      "mcu_look (controller v) t = paint_rect (unat sx) (unat sy) (unat ex) (unat ey) (ucast c) (mcu_look (controller v) s)"
      using mcu_fill_ok [of h "controller v" s sx ex sy ey c] ok p b by (auto simp: lcd_law_def lcd_ok_def lcd_frame_def)
    then show ?thesis using False ok same_kind(2) [of t s] by (simp add: lcd_ok_def lcd_frame_def lcd_look_def)
  qed
qed

lemma lcd_frame_size: "frame_width (lcd_frame v s) = unat (lcd_width (lcddev s))" "frame_height (lcd_frame v s) = unat (lcd_height (lcddev s))"
  by (simp_all add: lcd_frame_def ltdc_frame_def mcu_frame_def frame_width_def frame_height_def)

section \<open>An executable display\<close>

text \<open>A panel whose transfers are over after three looks at the flag.\<close>

record lsim =
  accel :: dma2d
  ctrl :: panel

definition lsim_view :: "lsim lcd_view" where
  "lsim_view = \<lparr>accelerator = accel, controller = ctrl\<rparr>"

definition lsim_set :: "dma2d_reg \<Rightarrow> u32 \<Rightarrow> lsim \<Rightarrow> lsim" where
  "lsim_set r x s =
     (let d = accel s in
      s\<lparr>accel := if r = DMA2D_CR \<and> x AND DMA2D_CR_START \<noteq> 0 then dma2d_start 3 (d\<lparr>reg := (reg d)(r := x)\<rparr>) else dma2d_write r x d\<rparr>)"

definition lsim_get :: "dma2d_reg \<Rightarrow> lsim \<Rightarrow> u32 \<times> lsim" where
  "lsim_get r s =
     (if r = DMA2D_ISR then let d = dma2d_poll (accel s) in (if complete d then DMA2D_FLAG_TC else 0, s\<lparr>accel := d\<rparr>)
      else (reg (accel s) r, s))"

definition lsim_rgb :: "lsim ltdc_hw" where
  "lsim_rgb =
     \<lparr>load16 = (\<lambda>a s. (cells (accel s) a, s)),
      store16 = (\<lambda>a x s. s\<lparr>accel := (accel s)\<lparr>cells := (cells (accel s))(a := x)\<rparr>\<rparr>),
      dma2d_get = lsim_get, dma2d_set = lsim_set, dma2d_clock = (\<lambda>s. s), panel_pins_init = (\<lambda>s. s),
      panel_pin_read = (\<lambda>p s. (0, s)), ltdc_enable = (\<lambda>b s. s), ltdc_layer_enable = (\<lambda>l b s. s), ltdc_reload_config = (\<lambda>s. s),
      ltdc_backlight = (\<lambda>b s. s), HAL_RCCEx_PeriphCLKConfig = (\<lambda>n r q s. (0, s)), HAL_LTDC_Init = (\<lambda>t s. s),
      HAL_LTDC_ConfigLayer = (\<lambda>l n s. s), HAL_LTDC_SetWindowPosition = (\<lambda>x y n s. s), HAL_LTDC_SetWindowSize = (\<lambda>x y n s. s)\<rparr>"

definition lsim_port :: "lsim lcd_port" where
  "lsim_port =
     \<lparr>rgb = lsim_rgb, LCD_REG_set = (\<lambda>x s. s\<lparr>ctrl := panel_reg x (ctrl s)\<rparr>), LCD_RAM_set = (\<lambda>x s. s\<lparr>ctrl := panel_ram x (ctrl s)\<rparr>),
      LCD_RAM_get = (\<lambda>s. (0, s)), lcd_delay_ms = (\<lambda>n s. s), lcd_delay_us = (\<lambda>n s. s), lcd_sram_init = (\<lambda>r w s. s),
      lcd_write_timing = (\<lambda>w s. s), LCD_BL = (\<lambda>b s. s)\<rparr>"

lemma lsim_law: "lcd_law lsim_port lsim_view"
proof -
  have "memory_law lsim_rgb accel" by (simp add: memory_law_def lsim_rgb_def)
  moreover have "dma2d_law lsim_rgb accel"
    unfolding dma2d_law_def lsim_rgb_def
    by (auto simp: lsim_get_def lsim_set_def Let_def DMA2D_FLAG_TC_def intro!: exI [of _ 3])
  moreover have "panel_law lsim_port ctrl" by (simp add: panel_law_def lsim_port_def)
  ultimately show ?thesis by (simp add: lcd_law_def lsim_port_def lsim_view_def)
qed

definition lsim0 :: lsim where
  "lsim0 = \<lparr>accel = \<lparr>cells = (\<lambda>_. 0), reg = (\<lambda>_. 0), running = False, polls = 0, complete = False\<rparr>,
     ctrl = \<lparr>addressing = Plain, index = 0, args = [], win_sc = 0, win_ec = 239, win_sp = 0, win_ep = 319, next_x = 0, next_y = 0, gram = (\<lambda>_. 0)\<rparr>\<rparr>"

text \<open>A panel of 480 by 272 points, upright, and one with a controller.\<close>

definition rgb_screen :: "lsim screen" where
  "rgb_screen =
     \<lparr>lcddev = \<lparr>lcd_width = 272, lcd_height = 480, lcd_id = 0x4342, lcd_dir = 0, wramcmd = 0, setxcmd = 0, setycmd = 0\<rparr>,
      lcdltdc = \<lparr>pwidth = 480, pheight = 272, hsw = 1, vsw = 1, hbp = 40, vbp = 8, hfp = 5, vfp = 8, activelayer = 0, ltdc_dir = 0,
        ltdc_width = 272, ltdc_height = 480, pixsize = 2\<rparr>,
      g_ltdc_framebuf = [LTDC_FRAME_BUF_ADDR, 0], g_back_color = 0xFFFFFFFF, lcd_hw = lsim0\<rparr>"

definition mcu_screen :: "lsim screen" where
  "mcu_screen =
     \<lparr>lcddev = \<lparr>lcd_width = 240, lcd_height = 320, lcd_id = 0x9341, lcd_dir = 0, wramcmd = 0x2C, setxcmd = 0x2A, setycmd = 0x2B\<rparr>,
      lcdltdc = \<lparr>pwidth = 0, pheight = 0, hsw = 0, vsw = 0, hbp = 0, vbp = 0, hfp = 0, vfp = 0, activelayer = 0, ltdc_dir = 0,
        ltdc_width = 0, ltdc_height = 0, pixsize = 0\<rparr>,
      g_ltdc_framebuf = [0, 0], g_back_color = 0xFFFFFFFF, lcd_hw = lsim0\<rparr>"

lemma screens_ok: "lcd_ok lsim_view rgb_screen" "lcd_ok lsim_view mcu_screen" "is_rgb rgb_screen" "\<not> is_rgb mcu_screen"
  by (simp_all add: lcd_ok_def is_rgb_def rgb_screen_def mcu_screen_def ltdc_ok_def fb_of_def panel_ok_def LTDC_FRAME_BUF_ADDR_def
      lsim_view_def lsim0_def mcu_ok_def ram_cmd_def Let_def)

text \<open>The two controllers that take the window in their own way.\<close>

definition big_screen :: "u16 \<Rightarrow> addressing \<Rightarrow> u16 \<Rightarrow> u16 \<Rightarrow> u16 \<Rightarrow> lsim screen" where
  "big_screen pid m ram sx sy = mcu_screen
     \<lparr>lcddev := \<lparr>lcd_width = 480, lcd_height = 800, lcd_id = pid, lcd_dir = 0, wramcmd = ram, setxcmd = sx, setycmd = sy\<rparr>,
      lcd_hw := lsim0\<lparr>ctrl := (ctrl lsim0)\<lparr>addressing := m, win_ec := 479, win_ep := 799\<rparr>\<rparr>\<rparr>"

definition nt35510_screen :: "lsim screen" where
  "nt35510_screen = big_screen 0x5510 Wide 0x2C00 0x2A00 0x2B00"

definition ssd1963_screen :: "lsim screen" where
  "ssd1963_screen = big_screen 0x1963 (Mirrored 479) 0x2C 0x2B 0x2A"

lemma big_screens_ok: "lcd_ok lsim_view nt35510_screen" "lcd_ok lsim_view ssd1963_screen"
  by (simp_all add: nt35510_screen_def ssd1963_screen_def big_screen_def lcd_ok_def is_rgb_def mcu_screen_def
      lsim_view_def lsim0_def mcu_ok_def ram_cmd_def Let_def)

text \<open>C13: On an RGB panel, and on a panel with a controller of the ILI9341 family, an NT35510 or an SSD1963
  whose commands and window are set for the direction, points and rectangles drawn in any order,
  inside the bounds, give the picture they describe: the last stroke over a point decides its
  colour, the points that no stroke covers keep theirs, and nothing else changes, neither the
  variables of the display nor, on an RGB panel, the memory around the picture.
\<close>

theorem lcd_paints_picture:
  assumes "lcd_law h v" "lcd_ok v s"
    "list_all (stroke_inside (unat (lcd_width (lcddev s))) (unat (lcd_height (lcddev s)))) ops"
  shows "\<exists>t. paints (lcd_draw_point h) (lcd_fill h) ops s = Some t \<and> lcd_ok v t \<and> lcd_frame v t = lcd_frame v s \<and>
    lcd_look v t = painted ops (lcd_look v s)"
  using lcd.paints_ok [of h v s ops] assms by (simp add: lcd_frame_size)

lemma lcd_paints_picture_witness:
  "(\<exists>t. paints (lcd_draw_point lsim_port) (lcd_fill lsim_port) [Box 10 20 30 40 0xF800, Dot 15 479 0x1F] rgb_screen = Some t \<and>
     lcd_look lsim_view t (30, 40) = 0xF800 \<and> lcd_look lsim_view t (15, 479) = 0x1F \<and> lcd_look lsim_view t (31, 40) = 0) \<and>
   (\<exists>t. paints (lcd_draw_point lsim_port) (lcd_fill lsim_port) [Dot 12 21 0x1F, Box 10 20 30 40 0xF800] mcu_screen = Some t \<and>
     lcd_look lsim_view t (12, 21) = 0xF800) \<and>
   (\<exists>t. paints (lcd_draw_point lsim_port) (lcd_fill lsim_port) [Dot 300 700 0x1F] nt35510_screen = Some t \<and>
     lcd_look lsim_view t (300, 700) = 0x1F) \<and>
   (\<exists>t. paints (lcd_draw_point lsim_port) (lcd_fill lsim_port) [Dot 300 700 0x1F] ssd1963_screen = Some t \<and>
     lcd_look lsim_view t (300, 700) = 0x1F)"
proof (intro conjI)
  have "lcd_look lsim_view rgb_screen (31, 40) = 0"
    by (simp add: lcd_look_def screens_ok ltdc_look_def picture_def) (simp add: rgb_screen_def lsim0_def lsim_view_def)
  then show "\<exists>t. paints (lcd_draw_point lsim_port) (lcd_fill lsim_port) [Box 10 20 30 40 0xF800, Dot 15 479 0x1F] rgb_screen = Some t \<and>
     lcd_look lsim_view t (30, 40) = 0xF800 \<and> lcd_look lsim_view t (15, 479) = 0x1F \<and> lcd_look lsim_view t (31, 40) = 0"
    using lcd_paints_picture [OF lsim_law screens_ok(1), of "[Box 10 20 30 40 0xF800, Dot 15 479 0x1F]"]
    by (auto simp: rgb_screen_def paint_rect_def)
  show "\<exists>t. paints (lcd_draw_point lsim_port) (lcd_fill lsim_port) [Dot 12 21 0x1F, Box 10 20 30 40 0xF800] mcu_screen = Some t \<and>
     lcd_look lsim_view t (12, 21) = 0xF800"
    using lcd_paints_picture [OF lsim_law screens_ok(2), of "[Dot 12 21 0x1F, Box 10 20 30 40 0xF800]"]
    by (auto simp: mcu_screen_def paint_rect_def)
  show "\<exists>t. paints (lcd_draw_point lsim_port) (lcd_fill lsim_port) [Dot 300 700 0x1F] nt35510_screen = Some t \<and>
     lcd_look lsim_view t (300, 700) = 0x1F"
    using lcd_paints_picture [OF lsim_law big_screens_ok(1), of "[Dot 300 700 0x1F]"]
    by (auto simp: nt35510_screen_def big_screen_def)
  show "\<exists>t. paints (lcd_draw_point lsim_port) (lcd_fill lsim_port) [Dot 300 700 0x1F] ssd1963_screen = Some t \<and>
     lcd_look lsim_view t (300, 700) = 0x1F"
    using lcd_paints_picture [OF lsim_law big_screens_ok(2), of "[Dot 300 700 0x1F]"]
    by (auto simp: ssd1963_screen_def big_screen_def)
qed

end
