(* ===== verification/Lcd_Draw.thy ===== *)
theory Lcd_Draw
  imports Lcd_Canvas
begin

text \<open>
  Lines, rectangles, circles and discs of \<open>lcd.c\<close>, and the points they draw.
\<close>

section \<open>The routines\<close>

text \<open>
  The loop of a line. Its counter has 16 bits, the bound is a signed sum: when the longer side is
  65534 or more, the loop does not end.
\<close>

partial_function (option) line_loop ::
  "'s lcd_port \<Rightarrow> u16 \<Rightarrow> int \<Rightarrow> int \<Rightarrow> int \<Rightarrow> int \<Rightarrow> int \<Rightarrow> u16 \<Rightarrow> int \<Rightarrow> int \<Rightarrow> int \<Rightarrow> int \<Rightarrow> 's screen \<Rightarrow> 's screen option" where
  "line_loop h color incx incy delta_x delta_y distance t xerr yerr row col s =
     (if uint t \<le> distance + 1 then do {
        s1 \<leftarrow> lcd_draw_point h (word_of_int row) (word_of_int col) (ucast color) s;
        let xe = xerr + delta_x;
        let ye = yerr + delta_y;
        line_loop h color incx incy delta_x delta_y distance (t + 1)
          (if xe > distance then xe - distance else xe) (if ye > distance then ye - distance else ye)
          (if xe > distance then row + incx else row) (if ye > distance then col + incy else col) s1
      }
      else Some s)"

declare line_loop.simps [code]

definition lcd_draw_line :: "'s lcd_port \<Rightarrow> u16 \<Rightarrow> u16 \<Rightarrow> u16 \<Rightarrow> u16 \<Rightarrow> u16 \<Rightarrow> 's screen \<Rightarrow> 's screen option" where
  "lcd_draw_line h x1 y1 x2 y2 color s =
     (let delta_x = uint x2 - uint x1;
          delta_y = uint y2 - uint y1;
          (incx, dx) = (if delta_x > 0 then (1, delta_x) else if delta_x = 0 then (0, delta_x) else (-1, - delta_x));
          (incy, dy) = (if delta_y > 0 then (1, delta_y) else if delta_y = 0 then (0, delta_y) else (-1, - delta_y));
          distance = (if dx > dy then dx else dy)
      in line_loop h color incx incy dx dy distance 0 0 0 (uint x1) (uint y1) s)"

definition lcd_draw_hline :: "'s lcd_port \<Rightarrow> u16 \<Rightarrow> u16 \<Rightarrow> u16 \<Rightarrow> u16 \<Rightarrow> 's screen \<Rightarrow> 's screen option" where
  "lcd_draw_hline h x y len color s =
     (if len = 0 \<or> x > lcd_width (lcddev s) \<or> y > lcd_height (lcddev s) then Some s
      else lcd_fill h x y (x + len - 1) y (ucast color) s)"

definition lcd_draw_rectangle :: "'s lcd_port \<Rightarrow> u16 \<Rightarrow> u16 \<Rightarrow> u16 \<Rightarrow> u16 \<Rightarrow> u16 \<Rightarrow> 's screen \<Rightarrow> 's screen option" where
  "lcd_draw_rectangle h x1 y1 x2 y2 color s = do {
     s1 \<leftarrow> lcd_draw_line h x1 y1 x2 y1 color s;
     s2 \<leftarrow> lcd_draw_line h x1 y1 x1 y2 color s1;
     s3 \<leftarrow> lcd_draw_line h x1 y2 x2 y2 color s2;
     lcd_draw_line h x2 y1 x2 y2 color s3
   }"

text \<open>The eight points of a round of the circle, in the order of the code.\<close>

definition octants :: "u16 \<Rightarrow> u16 \<Rightarrow> int \<Rightarrow> int \<Rightarrow> (u16 \<times> u16) list" where
  "octants x0 y0 a b =
     (let p = (\<lambda>x y. (word_of_int (uint x0 + x), word_of_int (uint y0 + y)))
      in [p a (- b), p b (- a), p b a, p a b, p (- a) b, p (- b) a, p (- a) (- b), p (- b) (- a)])"

function circle_loop :: "'s lcd_port \<Rightarrow> u16 \<Rightarrow> u16 \<Rightarrow> u16 \<Rightarrow> int \<Rightarrow> int \<Rightarrow> int \<Rightarrow> 's screen \<Rightarrow> 's screen option" where
  "circle_loop h x0 y0 color a b di s =
     (if a \<le> b then do {
        s1 \<leftarrow> draws (lcd_draw_point h) (dots (ucast color) (octants x0 y0 a b)) s;
        let a1 = a + 1;
        if di < 0 then circle_loop h x0 y0 color a1 b (di + (4 * a1 + 6)) s1
        else circle_loop h x0 y0 color a1 (b - 1) (di + (10 + 4 * (a1 - b))) s1
      }
      else Some s)"
  by pat_completeness auto
termination by (relation "measure (\<lambda>(h, x0, y0, color, a, b, di, s). nat (b + 1 - a))") auto

definition lcd_draw_circle :: "'s lcd_port \<Rightarrow> u16 \<Rightarrow> u16 \<Rightarrow> u8 \<Rightarrow> u16 \<Rightarrow> 's screen \<Rightarrow> 's screen option" where
  "lcd_draw_circle h x0 y0 r color s = circle_loop h x0 y0 color 0 (uint r) (3 - 2 * uint r) s"

text \<open>A round of the disc: \<open>i\<close> is the distance of its rows from the centre, the rounds are counted.\<close>

fun disc_loop :: "'s lcd_port \<Rightarrow> u16 \<Rightarrow> u16 \<Rightarrow> u16 \<Rightarrow> u32 \<Rightarrow> u32 \<Rightarrow> nat \<Rightarrow> u32 \<Rightarrow> u32 \<Rightarrow> 's screen \<Rightarrow> 's screen option" where
  "disc_loop h x y color imax sqmax 0 i xr s = Some s"
| "disc_loop h x y color imax sqmax (Suc n) i xr s = do {
     (s2, xr2) \<leftarrow>
       (if i * i + xr * xr > sqmax then do {
          s1 \<leftarrow>
            (if xr > imax then do {
               t \<leftarrow> lcd_draw_hline h (ucast (ucast x - i + 1)) (ucast (ucast y + xr)) (ucast (2 * (i - 1))) color s;
               lcd_draw_hline h (ucast (ucast x - i + 1)) (ucast (ucast y - xr)) (ucast (2 * (i - 1))) color t
             }
             else Some s);
          Some (s1, xr - 1)
        }
        else Some (s, xr));
     s3 \<leftarrow> lcd_draw_hline h (ucast (ucast x - xr2)) (ucast (ucast y + i)) (ucast (2 * xr2)) color s2;
     s4 \<leftarrow> lcd_draw_hline h (ucast (ucast x - xr2)) (ucast (ucast y - i)) (ucast (2 * xr2)) color s3;
     disc_loop h x y color imax sqmax n (i + 1) xr2 s4
   }"

definition lcd_fill_circle :: "'s lcd_port \<Rightarrow> u16 \<Rightarrow> u16 \<Rightarrow> u16 \<Rightarrow> u16 \<Rightarrow> 's screen \<Rightarrow> 's screen option" where
  "lcd_fill_circle h x y r color s = do {
     let imax = ucast r * 707 div 1000 + (1 :: u32);
     let sqmax = ucast r * ucast r + (ucast r :: u32) div 2;
     s1 \<leftarrow> lcd_draw_hline h (x - r) y (2 * r) color s;
     disc_loop h x y color imax sqmax (unat imax) 1 (ucast r) s1
   }"

declare circle_loop.simps [simp del]

section \<open>Lines\<close>

text \<open>How far a coordinate has come after \<open>t\<close> rounds, when it goes \<open>d\<close> in \<open>D\<close>.\<close>

definition steps :: "nat \<Rightarrow> nat \<Rightarrow> nat \<Rightarrow> nat" where
  "steps D d t = (t * d - 1) div D"

lemma steps_0 [simp]: "steps D d 0 = 0" "steps D 0 t = 0"
  by (simp_all add: steps_def)

lemma steps_Suc:
  assumes "d \<le> D"
  shows "steps D d (Suc t) = steps D d t + (if D < t * d - D * steps D d t + d then 1 else 0)" "D * steps D d t \<le> t * d"
proof -
  show le: "D * steps D d t \<le> t * d"
    unfolding steps_def by (rule order_trans [OF times_div_less_eq_dividend]) simp
  show "steps D d (Suc t) = steps D d t + (if D < t * d - D * steps D d t + d then 1 else 0)"
  proof (cases "d = 0 \<or> t = 0")
    case True
    then show ?thesis using assms by (cases "d = D"; cases D) (auto simp: steps_def)
  next
    case False
    define q r where qr: "q = (t * d - 1) div D" "r = (t * d - 1) mod D"
    have td: "t * d = D * q + r + 1" using False by (simp add: qr)
    have r: "r < D" using assms False by (simp add: qr)
    have "Suc t * d - 1 = D * q + (r + d)" using td by simp
    then have s: "steps D d (Suc t) = q + (r + d) div D" using r by (simp add: steps_def)
    have "(r + d) div D = (if D \<le> r + d then 1 else 0)"
      using r assms by (auto simp: div_nat_eqI intro: div_nat_eqI)
    moreover have st: "steps D d t = q" by (simp add: qr(1) steps_def)
    moreover have "t * d - D * q = r + 1" using td by simp
    ultimately show ?thesis using s by simp
  qed
qed

lemma steps_div: "0 < d \<Longrightarrow> d \<le> D \<Longrightarrow> (D * d + d - Suc 0) div D = d"
  by (rule div_nat_eqI) simp_all

lemma steps_bound: "d \<le> D \<Longrightarrow> t \<le> Suc D \<Longrightarrow> steps D d t \<le> d"
proof -
  assume a: "d \<le> D" "t \<le> Suc D"
  show "steps D d t \<le> d"
  proof (cases "d = 0")
    case False
    have "t * d - 1 \<le> Suc D * d - 1" using a(2) by (intro diff_le_mono mult_le_mono1)
    also have "\<dots> = D * d + (d - 1)" using False by simp
    finally have "steps D d t \<le> (D * d + (d - 1)) div D" unfolding steps_def by (rule div_le_mono)
    also have "\<dots> = d" using a False by (simp add: steps_div)
    finally show ?thesis .
  qed simp
qed

lemma steps_last: "d \<le> D \<Longrightarrow> steps D d (Suc D) = d"
proof -
  assume a: "d \<le> D"
  show "steps D d (Suc D) = d"
  proof (cases "d = 0")
    case False
    have "Suc D * d - 1 = D * d + (d - 1)" using False by simp
    then show ?thesis using a False by (simp add: steps_def steps_div)
  qed simp
qed

text \<open>A coordinate on the way from \<open>a\<close> to \<open>b\<close>.\<close>

definition along :: "nat \<Rightarrow> nat \<Rightarrow> nat \<Rightarrow> nat \<Rightarrow> nat" where
  "along D a b t = (if a \<le> b then a + steps D (b - a) t else a - steps D (a - b) t)"

definition span :: "nat \<Rightarrow> nat \<Rightarrow> nat" where
  "span a b = (if a \<le> b then b - a else a - b)"

definition line_at :: "nat \<Rightarrow> nat \<Rightarrow> nat \<Rightarrow> nat \<Rightarrow> nat \<Rightarrow> nat \<times> nat" where
  "line_at x1 y1 x2 y2 t = (let D = max (span x1 x2) (span y1 y2) in (along D x1 x2 t, along D y1 y2 t))"

definition line_points :: "nat \<Rightarrow> nat \<Rightarrow> nat \<Rightarrow> nat \<Rightarrow> (nat \<times> nat) set" where
  "line_points x1 y1 x2 y2 = line_at x1 y1 x2 y2 ` {..Suc (max (span x1 x2) (span y1 y2))}"

lemma along_between:
  assumes "span a b \<le> D" "t \<le> Suc D"
  shows "min a b \<le> along D a b t" "along D a b t \<le> max a b"
  using assms steps_bound [of "b - a" D t] steps_bound [of "a - b" D t] by (auto simp: along_def span_def split: if_splits)

lemma along_ends: "along D a b 0 = a" "span a b \<le> D \<Longrightarrow> along D a b (Suc D) = b"
  by (auto simp: along_def span_def steps_last split: if_splits)

lemma span_less: "a < n \<Longrightarrow> b < n \<Longrightarrow> span a b < n"
  by (auto simp: span_def)

text \<open>The signed error term and the coordinate of the code in round \<open>t\<close>.\<close>

definition err :: "nat \<Rightarrow> nat \<Rightarrow> nat \<Rightarrow> int" where
  "err D d t = int (t * d) - int (D * steps D d t)"

definition dir :: "nat \<Rightarrow> nat \<Rightarrow> int" where
  "dir a b = (if a < b then 1 else if a = b then 0 else -1)"

lemma err_next:
  assumes "span a b \<le> D" "t \<le> D"
  shows "(if err D (span a b) t + int (span a b) > int D then err D (span a b) t + int (span a b) - int D
      else err D (span a b) t + int (span a b)) = err D (span a b) (Suc t)"
    "(if err D (span a b) t + int (span a b) > int D then int (along D a b t) + dir a b else int (along D a b t)) = int (along D a b (Suc t))"
proof -
  define d where "d = span a b"
  have le: "D * steps D d t \<le> t * d" by (rule steps_Suc(2)) (use assms in \<open>simp add: d_def\<close>)
  have S: "steps D d (Suc t) = steps D d t + (if D < t * d - D * steps D d t + d then 1 else 0)"
    by (rule steps_Suc(1)) (use assms in \<open>simp add: d_def\<close>)
  have e: "err D d t = int (t * d - D * steps D d t)" using le by (simp only: err_def of_nat_diff)
  have c: "err D d t + int d > int D \<longleftrightarrow> D < t * d - D * steps D d t + d" unfolding e by linarith
  show "(if err D (span a b) t + int (span a b) > int D then err D (span a b) t + int (span a b) - int D
      else err D (span a b) t + int (span a b)) = err D (span a b) (Suc t)"
    unfolding d_def [symmetric] c by (simp add: err_def S algebra_simps)
  show "(if err D (span a b) t + int (span a b) > int D then int (along D a b t) + dir a b else int (along D a b t)) = int (along D a b (Suc t))"
    unfolding d_def [symmetric] c using S steps_bound [of d D "Suc t"] assms by (auto simp: along_def dir_def d_def span_def) arith
qed

lemma line_loop_end: "uint t > D + 1 \<Longrightarrow> line_loop h c ix iy dx dy D t xe ye row col s = Some s"
  by (subst line_loop.simps) simp

lemma line_loop_draws:
  assumes D: "D = max (span x1 x2) (span y1 y2)" "D < 65534"
  shows "t \<le> D + 2 \<Longrightarrow>
    line_loop h c (dir x1 x2) (dir y1 y2) (int (span x1 x2)) (int (span y1 y2)) (int D) (of_nat t) (err D (span x1 x2) t) (err D (span y1 y2) t)
      (int (along D x1 x2 t)) (int (along D y1 y2 t)) s =
    draws (lcd_draw_point h) (dots (ucast c) (map (\<lambda>i. (of_nat (along D x1 x2 i), of_nat (along D y1 y2 i))) [t..<D + 2])) s"
proof (induction "D + 2 - t" arbitrary: t s)
  case 0
  then have "t = D + 2" by simp
  moreover have "uint (of_nat (D + 2) :: u16) = int (D + 2)" using D(2) unfolding uint_nat by (subst unat_of_nat_small) simp_all
  ultimately show ?case by (simp add: line_loop_end del: of_nat_add)
next
  case (Suc k)
  then have t: "t \<le> D + 1" "k = D + 2 - Suc t" "Suc t \<le> D + 2" by simp_all
  have u: "uint (of_nat t :: u16) = int t" unfolding uint_nat using t D(2) by (subst unat_of_nat_small) simp_all
  have up: "[t..<D + 2] = t # [Suc t..<D + 2]" using t by (simp add: upt_rec)
  have w: "(of_nat t + 1 :: u16) = of_nat (Suc t)" by simp
  show ?case
  proof (cases "t \<le> D")
    case True
    have le: "span x1 x2 \<le> D" "span y1 y2 \<le> D" by (simp_all add: D(1))
    note e = err_next [OF le(1) True] err_next [OF le(2) True]
    have c: "int t \<le> int D + 1" using t(1) by simp
    show ?thesis
      by (subst line_loop.simps) (simp only: u c Let_def e w Suc.hyps(1) [OF t(2,3)] up list.map prod.case draws.simps of_int_of_nat_eq if_True)
  next
    case False
    then have e: "t = D + 1" using t by simp
    have c: "int t \<le> int D + 1" "int t + 1 > int D + 1" using e by simp_all
    have v: "uint (of_nat t + 1 :: u16) = int t + 1" using t D(2) unfolding w uint_nat by (subst unat_of_nat_small) simp_all
    have n: "[Suc t..<D + 2] = []" "draws (lcd_draw_point h) [] = Some" using e by (simp_all add: fun_eq_iff)
    show ?thesis
      by (subst line_loop.simps) (simp only: u c v line_loop_end Let_def up n list.map prod.case draws.simps of_int_of_nat_eq if_True bind_runit)
  qed
qed

lemma dir_span:
  "(if int b - int a > 0 then (1, int b - int a) else if int b - int a = 0 then (0, int b - int a)
      else (-1, - (int b - int a))) = (dir a b, int (span a b))"
  by (simp add: dir_def span_def of_nat_diff)

lemma lcd_draw_line_draws:
  assumes D: "D = max (span (unat x1) (unat x2)) (span (unat y1) (unat y2))" "D < 65534"
  shows "lcd_draw_line h x1 y1 x2 y2 c s = draws (lcd_draw_point h) (dots (ucast c)
    (map (\<lambda>i. (of_nat (along D (unat x1) (unat x2) i), of_nat (along D (unat y1) (unat y2) i))) [0..<D + 2])) s"
proof -
  have d: "(if uint b - uint a > 0 then (1, uint b - uint a) else if uint b - uint a = 0 then (0, uint b - uint a)
      else (-1, - (uint b - uint a))) = (dir (unat a) (unat b), int (span (unat a) (unat b)))" for a b :: u16
    unfolding uint_nat by (rule dir_span)
  have m: "(if int a > int b then int a else int b) = int (max a b)" for a b by simp
  have z: "(of_nat 0 :: u16) = 0" "err D e 0 = 0" "int (along D (unat a) b 0) = uint a" for e b and a :: u16
    by (simp_all add: err_def along_ends)
  show ?thesis
    using line_loop_draws [OF D, of 0 h c s]
    unfolding lcd_draw_line_def d Let_def prod.case m D(1) [symmetric] z by blast
qed

text \<open>The shape of a line.\<close>

lemma offset: "span a b \<le> D \<Longrightarrow> t \<le> Suc D \<Longrightarrow> int (along D a b t) - int a = dir a b * int (steps D (span a b) t)"
  "int b - int a = dir a b * int (span a b)"
  using steps_bound [of "a - b" D t] by (auto simp: along_def span_def dir_def of_nat_diff)

lemma steps_full: "0 < t \<Longrightarrow> t \<le> Suc D \<Longrightarrow> steps D D t = t - 1"
proof -
  assume t: "0 < t" "t \<le> Suc D"
  show "steps D D t = t - 1"
  proof (cases "D = 0")
    case False
    have "t * D - 1 = D * (t - 1) + (D - 1)" using t False by (cases t) (simp_all add: algebra_simps)
    then have "steps D D t = (D * (t - 1) + (D - 1)) div D" by (simp only: steps_def)
    also have "\<dots> = t - 1" using False by (intro div_nat_eqI) simp_all
    finally show ?thesis .
  qed (use t in \<open>simp add: steps_def\<close>)
qed

lemma steps_near:
  assumes "d \<le> D" "0 < t" "t \<le> Suc D"
  shows "\<bar>int (t - 1) * int d - int (steps D d t) * int D\<bar> < max 1 (int D)"
proof (cases "d = 0")
  case False
  define q r where qr: "q = (t * d - 1) div D" "r = (t * d - 1) mod D"
  have td: "t * d = D * q + r + 1" and rD: "r < D" using assms False by (simp_all add: qr)
  from arg_cong [OF td, of int] have "int t * int d = int D * int q + int r + 1" by simp
  moreover have "steps D d t = q" by (simp add: steps_def qr)
  moreover have "int (t - 1) * int d = int t * int d - int d" using assms(2) by (simp add: of_nat_diff algebra_simps)
  ultimately show ?thesis using rD assms(1) False by (simp add: algebra_simps)
qed simp

lemma line_cross:
  assumes D: "D = max (span x1 x2) (span y1 y2)" and t: "t \<le> Suc D" and p: "line_at x1 y1 x2 y2 t = (x, y)"
  shows "\<bar>(int x - int x1) * (int y2 - int y1) - (int y - int y1) * (int x2 - int x1)\<bar> < max 1 (int D)"
proof (cases "t = 0")
  case True
  then show ?thesis using p by (simp add: line_at_def along_ends)
next
  case False
  define mx my where m: "mx = int (steps D (span x1 x2) t)" "my = int (steps D (span y1 y2) t)"
  have le: "span x1 x2 \<le> D" "span y1 y2 \<le> D" using D by simp_all
  have x: "x = along D x1 x2 t" "y = along D y1 y2 t" using p by (simp_all add: line_at_def D Let_def)
  have "\<bar>mx * int (span y1 y2) - my * int (span x1 x2)\<bar> < max 1 (int D)"
  proof (cases "span x1 x2 = D")
    case True
    then show ?thesis using steps_near [OF le(2) _ t] False steps_full [OF _ t] by (simp add: m)
  next
    case F: False
    then have "span y1 y2 = D" using D by linarith
    then show ?thesis using steps_near [OF le(1) _ t] False steps_full [OF _ t] by (simp add: m abs_minus_commute)
  qed
  moreover have "(int x - int x1) * (int y2 - int y1) - (int y - int y1) * (int x2 - int x1) =
      dir x1 x2 * dir y1 y2 * (mx * int (span y1 y2) - my * int (span x1 x2))"
    unfolding x offset(1) [OF le(1) t] offset(1) [OF le(2) t] offset(2) [of x2 x1] offset(2) [of y2 y1] m by (simp add: algebra_simps)
  moreover have "\<bar>dir x1 x2 * dir y1 y2 * z\<bar> \<le> \<bar>z\<bar>" for z by (simp add: dir_def abs_mult)
  ultimately show ?thesis by (metis le_less_trans)
qed

lemma along_step: "span a b \<le> D \<Longrightarrow> t \<le> D \<Longrightarrow> \<bar>int (along D a b (Suc t)) - int (along D a b t)\<bar> \<le> 1"
  using err_next(2) [of a b D t] by (auto simp: dir_def split: if_splits)

lemma line_drawn:
  fixes x1 y1 x2 y2 :: u16
  assumes "lcd_law h v" "lcd_ok v s"
    and b: "unat x1 < unat (lcd_width (lcddev s))" "unat y1 < unat (lcd_height (lcddev s))"
      "unat x2 < unat (lcd_width (lcddev s))" "unat y2 < unat (lcd_height (lcddev s))"
    and D: "D = max (span (unat x1) (unat x2)) (span (unat y1) (unat y2))" "D < 65534"
    and L: "L = line_at (unat x1) (unat y1) (unat x2) (unat y2)"
  shows "\<exists>t. lcd_draw_line h x1 y1 x2 y2 c s = Some t \<and> lcd_ok v t \<and> lcd_frame v t = lcd_frame v s \<and>
      lcd_look v t = (\<lambda>p. if p \<in> L ` {..Suc D} then c else lcd_look v s p)"
    "L 0 = (unat x1, unat y1)" "L (Suc D) = (unat x2, unat y2)"
    "\<forall>t\<le>D. \<bar>int (fst (L (Suc t))) - int (fst (L t))\<bar> \<le> 1 \<and> \<bar>int (snd (L (Suc t))) - int (snd (L t))\<bar> \<le> 1"
    "\<forall>(x, y)\<in>L ` {..Suc D}. min (unat x1) (unat x2) \<le> x \<and> x \<le> max (unat x1) (unat x2) \<and>
       min (unat y1) (unat y2) \<le> y \<and> y \<le> max (unat y1) (unat y2) \<and>
       \<bar>(int x - uint x1) * (uint y2 - uint y1) - (int y - uint y1) * (uint x2 - uint x1)\<bar> < max 1 (int D)"
proof -
  have le: "span (unat x1) (unat x2) \<le> D" "span (unat y1) (unat y2) \<le> D" using D by simp_all
  have at: "L t = (along D (unat x1) (unat x2) t, along D (unat y1) (unat y2) t)" for t
    by (simp add: L line_at_def D(1) Let_def)
  show "L 0 = (unat x1, unat y1)" "L (Suc D) = (unat x2, unat y2)" by (simp_all add: at along_ends le)
  show "\<forall>t\<le>D. \<bar>int (fst (L (Suc t))) - int (fst (L t))\<bar> \<le> 1 \<and> \<bar>int (snd (L (Suc t))) - int (snd (L t))\<bar> \<le> 1"
    by (simp add: at along_step le)
  show "\<forall>(x, y)\<in>L ` {..Suc D}. min (unat x1) (unat x2) \<le> x \<and> x \<le> max (unat x1) (unat x2) \<and>
       min (unat y1) (unat y2) \<le> y \<and> y \<le> max (unat y1) (unat y2) \<and>
       \<bar>(int x - uint x1) * (uint y2 - uint y1) - (int y - uint y1) * (uint x2 - uint x1)\<bar> < max 1 (int D)"
    using along_between [OF le(1)] along_between [OF le(2)] line_cross [OF D(1)] unfolding uint_nat L
    by (auto simp: at [unfolded L])
  let ?q = "\<lambda>i. (of_nat (along D (unat x1) (unat x2) i) :: u16, of_nat (along D (unat y1) (unat y2) i) :: u16)"
  have u: "unat (of_nat (along D (unat x1) (unat x2) i) :: u16) = along D (unat x1) (unat x2) i"
    "unat (of_nat (along D (unat y1) (unat y2) i) :: u16) = along D (unat y1) (unat y2) i"
    "along D (unat x1) (unat x2) i < unat (lcd_width (lcddev s))" "along D (unat y1) (unat y2) i < unat (lcd_height (lcddev s))"
    if "i < D + 2" for i
  proof -
    show *: "along D (unat x1) (unat x2) i < unat (lcd_width (lcddev s))" "along D (unat y1) (unat y2) i < unat (lcd_height (lcddev s))"
      using along_between(2) [OF le(1), of i] along_between(2) [OF le(2), of i] b that by (auto simp: max_def split: if_splits)
    show "unat (of_nat (along D (unat x1) (unat x2) i) :: u16) = along D (unat x1) (unat x2) i"
      "unat (of_nat (along D (unat y1) (unat y2) i) :: u16) = along D (unat y1) (unat y2) i"
      by (rule unat_of_nat_small, use * unat_u16_less [of "lcd_width (lcddev s)"] unat_u16_less [of "lcd_height (lcddev s)"] in simp)+
  qed
  have "list_all (inside (frame_width (lcd_frame v s)) (frame_height (lcd_frame v s))) (dots (ucast c) (map ?q [0..<D + 2]))"
    using u by (simp add: list_all_iff lcd_frame_size del: upt_Suc)
  with lcd.draws_ok [of h v s] assms(1,2) obtain t where
    t: "draws (lcd_draw_point h) (dots (ucast c) (map ?q [0..<D + 2])) s = Some t" "lcd_ok v t" "lcd_frame v t = lcd_frame v s"
      "lcd_look v t = plot (dots (ucast c) (map ?q [0..<D + 2])) (lcd_look v s)" by blast
  have "(\<lambda>(x, y). (unat x, unat y)) ` set (map ?q [0..<D + 2]) = (\<lambda>i. (unat (fst (?q i)), unat (snd (?q i)))) ` {..Suc D}"
    by (auto simp: image_image lessThan_Suc_atMost [symmetric] atLeast0LessThan simp del: upt_Suc)
  also have "\<dots> = L ` {..Suc D}" by (rule image_cong) (simp_all add: at u)
  finally have "lcd_look v t = (\<lambda>p. if p \<in> L ` {..Suc D} then c else lcd_look v s p)"
    unfolding t(4) fun_eq_iff plot_dots by (simp add: ucast_up_ucast_id is_up_def)
  then show "\<exists>t. lcd_draw_line h x1 y1 x2 y2 c s = Some t \<and> lcd_ok v t \<and> lcd_frame v t = lcd_frame v s \<and>
      lcd_look v t = (\<lambda>p. if p \<in> L ` {..Suc D} then c else lcd_look v s p)"
    unfolding lcd_draw_line_draws [OF D] using t(1-3) by blast
qed

text \<open>C14: A line drawn between two points of the display colours exactly the points of \<open>line_points\<close> and
  changes nothing else. The line starts and ends at the two points, goes on by at most one in each
  coordinate from round to round, stays in the rectangle between them, and no point of it is a whole
  point away from the ideal line, measured along the shorter side. The routine returns for every
  distance below 65534, however the line is directed.\<close>

theorem lcd_draw_line_correct:
  fixes x1 y1 x2 y2 :: u16
  assumes "lcd_law h v" "lcd_ok v s"
    and "unat x1 < unat (lcd_width (lcddev s))" "unat y1 < unat (lcd_height (lcddev s))"
      "unat x2 < unat (lcd_width (lcddev s))" "unat y2 < unat (lcd_height (lcddev s))"
    and "D = max (span (unat x1) (unat x2)) (span (unat y1) (unat y2))" "D < 65534"
    and "L = line_at (unat x1) (unat y1) (unat x2) (unat y2)"
  shows "(\<exists>t. lcd_draw_line h x1 y1 x2 y2 c s = Some t \<and> lcd_ok v t \<and> lcd_frame v t = lcd_frame v s \<and>
      lcd_look v t = (\<lambda>p. if p \<in> L ` {..Suc D} then c else lcd_look v s p)) \<and>
    L 0 = (unat x1, unat y1) \<and> L (Suc D) = (unat x2, unat y2) \<and>
    (\<forall>t\<le>D. \<bar>int (fst (L (Suc t))) - int (fst (L t))\<bar> \<le> 1 \<and> \<bar>int (snd (L (Suc t))) - int (snd (L t))\<bar> \<le> 1) \<and>
    (\<forall>(x, y)\<in>L ` {..Suc D}. min (unat x1) (unat x2) \<le> x \<and> x \<le> max (unat x1) (unat x2) \<and>
       min (unat y1) (unat y2) \<le> y \<and> y \<le> max (unat y1) (unat y2) \<and>
       \<bar>(int x - uint x1) * (uint y2 - uint y1) - (int y - uint y1) * (uint x2 - uint x1)\<bar> < max 1 (int D))"
  using line_drawn [OF assms] by blast

lemma lcd_draw_line_correct_witness:
  "\<exists>t. lcd_draw_line lsim_port 10 8 3 5 0xF800 mcu_screen = Some t \<and> lcd_look lsim_view t (3, 5) = 0xF800 \<and>
    lcd_look lsim_view t (7, 7) = 0xF800 \<and> lcd_look lsim_view t (7, 8) = 0"
proof -
  have s: "span 10 3 = 7" "span 8 5 = 3" by (simp_all add: span_def)
  have "(3, 5) \<in> line_at 10 8 3 5 ` {..Suc 7}" by (rule image_eqI [of _ _ 8]) (simp_all add: line_at_def s along_def steps_def)
  moreover have "(7, 7) \<in> line_at 10 8 3 5 ` {..Suc 7}" by (rule image_eqI [of _ _ 4]) (simp_all add: line_at_def s along_def steps_def)
  moreover have "(7, 8) \<notin> line_at 10 8 3 5 ` {..Suc 7}"
  proof -
    have "{..Suc 7} = {0, 1, 2, 3, 4, 5, 6, 7, 8 :: nat}" by auto
    then show ?thesis by (simp add: line_at_def s along_def steps_def)
  qed
  moreover have "lcd_look lsim_view mcu_screen (7, 8) = 0"
    by (simp add: lcd_look_def screens_ok mcu_look_def) (simp add: mcu_screen_def lsim0_def lsim_view_def)
  ultimately show ?thesis
    using lcd_draw_line_correct [OF lsim_law screens_ok(2), of 10 8 3 5 7 "line_at 10 8 3 5" "0xF800"] s
    by (auto simp: mcu_screen_def)
qed

section \<open>Circles\<close>

text \<open>The rounds of the loop: column and row of the point in the second octant.\<close>

function circle_rounds :: "int \<Rightarrow> int \<Rightarrow> int \<Rightarrow> (int \<times> int) list" where
  "circle_rounds a b di =
     (if a \<le> b
      then (a, b) # (if di < 0 then circle_rounds (a + 1) b (di + (4 * (a + 1) + 6))
                     else circle_rounds (a + 1) (b - 1) (di + (10 + 4 * (a + 1 - b))))
      else [])"
  by pat_completeness auto
termination by (relation "measure (\<lambda>(a, b, di). nat (b + 1 - a))") auto

declare circle_rounds.simps [simp del]

lemma circle_loop_draws:
  "circle_loop h x0 y0 c a b di s =
     draws (lcd_draw_point h) (dots (ucast c) (concat (map (\<lambda>(a, b). octants x0 y0 a b) (circle_rounds a b di)))) s"
proof (induction h x0 y0 c a b di s rule: circle_loop.induct)
  case (1 h x0 y0 c a b di s)
  show ?case
  proof (cases "draws (lcd_draw_point h) (dots (ucast c) (octants x0 y0 a b)) s")
    case None
    then show ?thesis by (subst circle_loop.simps, subst circle_rounds.simps) (simp add: draws_append)
  next
    case (Some t)
    then show ?thesis using 1 by (subst circle_loop.simps, subst circle_rounds.simps) (simp add: draws_append Let_def)
  qed
qed

text \<open>The decision variable measures how far the point is from the circle.\<close>

lemma circle_rounds_near:
  "di = 2 * (a * a + b * b - r * r) + 8 * a - 2 * b + 3 \<Longrightarrow> 0 \<le> a \<Longrightarrow> (a \<le> b \<longrightarrow> - b - 2 * a \<le> a * a + b * b - r * r \<and> a * a + b * b - r * r \<le> b) \<Longrightarrow>
    b \<le> r \<Longrightarrow> (u, w) \<in> set (circle_rounds a b di) \<Longrightarrow>
    0 \<le> u \<and> u \<le> w \<and> w \<le> r \<and> - w - 2 * u \<le> u * u + w * w - r * r \<and> u * u + w * w - r * r \<le> w"
proof (induction a b di rule: circle_rounds.induct)
  case (1 a b di)
  then have le: "a \<le> b" by (subst (asm) circle_rounds.simps) (auto split: if_splits)
  have e: "- b - 2 * a \<le> a * a + b * b - r * r" "a * a + b * b - r * r \<le> b" using 1(5) le by auto
  show ?case
  proof (cases "di < 0")
    case True
    have "(u, w) = (a, b) \<or> (u, w) \<in> set (circle_rounds (a + 1) b (di + (4 * (a + 1) + 6)))"
      using 1(7) le True by (subst (asm) circle_rounds.simps) auto
    then show ?thesis
    proof
      assume m: "(u, w) \<in> set (circle_rounds (a + 1) b (di + (4 * (a + 1) + 6)))"
      show ?thesis by (rule 1(1) [OF le True _ _ _ _ m]) (use True 1(3-6) e in \<open>auto simp: algebra_simps\<close>)
    qed (use le e 1(4,6) in auto)
  next
    case False
    have "(u, w) = (a, b) \<or> (u, w) \<in> set (circle_rounds (a + 1) (b - 1) (di + (10 + 4 * (a + 1 - b))))"
      using 1(7) le False by (subst (asm) circle_rounds.simps) auto
    then show ?thesis
    proof
      assume m: "(u, w) \<in> set (circle_rounds (a + 1) (b - 1) (di + (10 + 4 * (a + 1 - b))))"
      show ?thesis by (rule 1(2) [OF le False _ _ _ _ m]) (use False 1(3-6) e in \<open>auto simp: algebra_simps\<close>)
    qed (use le e 1(4,6) in auto)
  qed
qed

definition next_round :: "int \<times> int \<Rightarrow> int \<times> int \<Rightarrow> bool" where
  "next_round p q \<longleftrightarrow> fst q = fst p + 1 \<and> (snd q = snd p \<or> snd q = snd p - 1)"

lemma circle_rounds_chain:
  "(a \<le> b \<longrightarrow> circle_rounds a b di \<noteq> [] \<and> hd (circle_rounds a b di) = (a, b) \<and> snd (last (circle_rounds a b di)) \<le> fst (last (circle_rounds a b di)) + 1) \<and>
   successively next_round (circle_rounds a b di)"
proof (induction a b di rule: circle_rounds.induct)
  case (1 a b di)
  show ?case
  proof (cases "a \<le> b")
    case le: True
    define b' di' where n: "b' = (if di < 0 then b else b - 1)" "di' = (if di < 0 then di + (4 * (a + 1) + 6) else di + (10 + 4 * (a + 1 - b)))"
    have r: "circle_rounds a b di = (a, b) # circle_rounds (a + 1) b' di'" using le n by (subst circle_rounds.simps) simp
    have IH: "(a + 1 \<le> b' \<longrightarrow> circle_rounds (a + 1) b' di' \<noteq> [] \<and> hd (circle_rounds (a + 1) b' di') = (a + 1, b') \<and>
        snd (last (circle_rounds (a + 1) b' di')) \<le> fst (last (circle_rounds (a + 1) b' di')) + 1) \<and>
        successively next_round (circle_rounds (a + 1) b' di')"
      using 1 le n by (cases "di < 0") simp_all
    show ?thesis
    proof (cases "a + 1 \<le> b'")
      case True
      then show ?thesis using IH unfolding r by (auto simp: successively_Cons next_round_def n)
    next
      case False
      then have "circle_rounds (a + 1) b' di' = []" "b \<le> a + 1" using n by (simp_all add: circle_rounds.simps split: if_splits)
      then show ?thesis unfolding r by simp
    qed
  qed (simp add: circle_rounds.simps)
qed

text \<open>The points of a circle with a list of rounds.\<close>

definition circle_points :: "nat \<Rightarrow> nat \<Rightarrow> (int \<times> int) list \<Rightarrow> (nat \<times> nat) set" where
  "circle_points x0 y0 rs = {(x, y). (\<exists>(a, b)\<in>set rs.
     \<bar>int x - int x0\<bar> = a \<and> \<bar>int y - int y0\<bar> = b \<or> \<bar>int x - int x0\<bar> = b \<and> \<bar>int y - int y0\<bar> = a)}"

lemma unat_shift: "0 \<le> k \<Longrightarrow> k < 2 ^ 16 \<Longrightarrow> int (unat (word_of_int k :: u16)) = k"
  by (simp add: uint_word_of_int)

lemma octants_points:
  fixes x0 y0 :: u16
  assumes ab: "0 \<le> a" "a \<le> b" and x: "b \<le> uint x0" "uint x0 + b < int w" "int w \<le> 2 ^ 16" and y: "b \<le> uint y0" "uint y0 + b < int h" "int h \<le> 2 ^ 16"
  shows "list_all (inside w h) (dots c (octants x0 y0 a b))"
    "(\<lambda>(x, y). (unat x, unat y)) ` set (octants x0 y0 a b) = circle_points (unat x0) (unat y0) [(a, b)]"
proof -
  define P where "P = (\<lambda>z0 :: u16. \<lambda>z. word_of_int (uint z0 + z) :: u16)"
  have ux: "int (unat (P x0 z)) = uint x0 + z" if "\<bar>z\<bar> \<le> b" for z unfolding P_def by (rule unat_shift) (use x that in linarith)+
  have uy: "int (unat (P y0 z)) = uint y0 + z" if "\<bar>z\<bar> \<le> b" for z unfolding P_def by (rule unat_shift) (use y that in linarith)+
  have nx: "unat (P x0 z) < w" if "\<bar>z\<bar> \<le> b" for z using ux [OF that] x that by linarith
  have ny: "unat (P y0 z) < h" if "\<bar>z\<bar> \<le> b" for z using uy [OF that] y that by linarith
  have o: "octants x0 y0 a b = map (\<lambda>(u, v). (P x0 u, P y0 v))
      [(a, - b), (b, - a), (b, a), (a, b), (- a, b), (- b, a), (- a, - b), (- b, - a)]"
    by (simp add: octants_def P_def Let_def)
  show "list_all (inside w h) (dots c (octants x0 y0 a b))" unfolding o using ab by (simp add: nx ny)
  have eqx: "unat (P x0 z) = k \<longleftrightarrow> int k - uint x0 = z" if "\<bar>z\<bar> \<le> b" for z k using ux [OF that] by linarith
  have eqy: "unat (P y0 z) = k \<longleftrightarrow> int k - uint y0 = z" if "\<bar>z\<bar> \<le> b" for z k using uy [OF that] by linarith
  have "(i, j) \<in> (\<lambda>(x, y). (unat x, unat y)) ` set (octants x0 y0 a b) \<longleftrightarrow> (i, j) \<in> circle_points (unat x0) (unat y0) [(a, b)]" for i j
  proof -
    have "(i, j) \<in> (\<lambda>(x, y). (unat x, unat y)) ` set (octants x0 y0 a b) \<longleftrightarrow>
      (\<exists>(u, v)\<in>{(a, - b), (b, - a), (b, a), (a, b), (- a, b), (- b, a), (- a, - b), (- b, - a)}. unat (P x0 u) = i \<and> unat (P y0 v) = j)"
      unfolding o by auto
    also have "\<dots> \<longleftrightarrow> (\<exists>(u, v)\<in>{(a, - b), (b, - a), (b, a), (a, b), (- a, b), (- b, a), (- a, - b), (- b, - a)}. int i - uint x0 = u \<and> int j - uint y0 = v)"
      using ab by (simp add: eqx eqy)
    also have "\<dots> \<longleftrightarrow> (i, j) \<in> circle_points (unat x0) (unat y0) [(a, b)]"
    proof -
      have "(\<bar>z\<bar> = d) = (z = d \<or> z = - d)" if "0 \<le> d" for z d :: int using that by arith
      then show ?thesis using ab by (simp add: circle_points_def) blast
    qed
    finally show ?thesis .
  qed
  then show "(\<lambda>(x, y). (unat x, unat y)) ` set (octants x0 y0 a b) = circle_points (unat x0) (unat y0) [(a, b)]"
    by (intro set_eqI) (metis surj_pair)
qed

lemma circle_points_rounds: "circle_points x y rs = (\<Union>p\<in>set rs. circle_points x y [p])"
  by (auto simp: circle_points_def)

text \<open>C15: A circle inside the display is closed and round, and nothing but it is drawn. The loop ends;
  its rounds start at the top, go one column further each and down by at most one row, until row and
  column meet; each point lies between the radii with squares \<open>r\<^sup>2 - 3 r\<close> and \<open>r\<^sup>2 + r\<close>, and is drawn
  in all eight octants.\<close>

theorem lcd_draw_circle_correct:
  fixes x0 y0 :: u16 and r :: u8
  assumes "lcd_law h v" "lcd_ok v s" and "uint r \<le> uint x0" "uint x0 + uint r < uint (lcd_width (lcddev s))"
    "uint r \<le> uint y0" "uint y0 + uint r < uint (lcd_height (lcddev s))"
  shows "\<exists>t rs. lcd_draw_circle h x0 y0 r c s = Some t \<and> lcd_ok v t \<and> lcd_frame v t = lcd_frame v s \<and>
    lcd_look v t = (\<lambda>p. if p \<in> circle_points (unat x0) (unat y0) rs then c else lcd_look v s p) \<and>
    rs \<noteq> [] \<and> hd rs = (0, uint r) \<and> successively next_round rs \<and> snd (last rs) \<le> fst (last rs) + 1 \<and>
    (\<forall>(a, b)\<in>set rs. 0 \<le> a \<and> a \<le> b \<and> (uint r)\<^sup>2 - 3 * uint r \<le> a\<^sup>2 + b\<^sup>2 \<and> a\<^sup>2 + b\<^sup>2 \<le> (uint r)\<^sup>2 + uint r)"
proof -
  define rs where "rs = circle_rounds 0 (uint r) (3 - 2 * uint r)"
  define ps where "ps = concat (map (\<lambda>(a, b). octants x0 y0 a b) rs)"
  have near: "0 \<le> a \<and> a \<le> b \<and> b \<le> uint r \<and> - b - 2 * a \<le> a * a + b * b - uint r * uint r \<and> a * a + b * b - uint r * uint r \<le> b"
    if "(a, b) \<in> set rs" for a b
    by (rule circle_rounds_near [OF _ _ _ _ that [unfolded rs_def]]) simp_all
  have chain: "rs \<noteq> []" "hd rs = (0, uint r)" "snd (last rs) \<le> fst (last rs) + 1" "successively next_round rs"
    using circle_rounds_chain [of 0 "uint r" "3 - 2 * uint r"] by (simp_all add: rs_def)
  have oct: "list_all (inside (unat (lcd_width (lcddev s))) (unat (lcd_height (lcddev s)))) (dots (ucast c) (octants x0 y0 a b))"
    "(\<lambda>(x, y). (unat x, unat y)) ` set (octants x0 y0 a b) = circle_points (unat x0) (unat y0) [(a, b)]" if "(a, b) \<in> set rs" for a b
  proof -
    have "0 \<le> a" "a \<le> b" "b \<le> uint x0" "uint x0 + b < int (unat (lcd_width (lcddev s)))" "int (unat (lcd_width (lcddev s))) \<le> 2 ^ 16"
      "b \<le> uint y0" "uint y0 + b < int (unat (lcd_height (lcddev s)))" "int (unat (lcd_height (lcddev s))) \<le> 2 ^ 16"
      using near [OF that] assms(3-6) uint_lt2p [of "lcd_width (lcddev s)"] uint_lt2p [of "lcd_height (lcddev s)"] by simp_all
    note o = octants_points [OF this]
    show "list_all (inside (unat (lcd_width (lcddev s))) (unat (lcd_height (lcddev s)))) (dots (ucast c) (octants x0 y0 a b))"
      "(\<lambda>(x, y). (unat x, unat y)) ` set (octants x0 y0 a b) = circle_points (unat x0) (unat y0) [(a, b)]" by (fact o)+
  qed
  have "list_all (inside (frame_width (lcd_frame v s)) (frame_height (lcd_frame v s))) (dots (ucast c) ps)"
    unfolding lcd_frame_size ps_def list_all_iff using oct(1) by (fastforce simp: list_all_iff)
  with lcd.draws_ok [of h v s] assms(1,2) obtain t where
    t: "draws (lcd_draw_point h) (dots (ucast c) ps) s = Some t" "lcd_ok v t" "lcd_frame v t = lcd_frame v s"
      "lcd_look v t = plot (dots (ucast c) ps) (lcd_look v s)" by blast
  have "(\<lambda>(x, y). (unat x, unat y)) ` set ps = (\<Union>(a, b)\<in>set rs. (\<lambda>(x, y). (unat x, unat y)) ` set (octants x0 y0 a b))"
    unfolding ps_def by force
  also have "\<dots> = circle_points (unat x0) (unat y0) rs"
    unfolding circle_points_rounds [of _ _ rs]
  proof (intro SUP_cong refl)
    fix p assume p: "p \<in> set rs"
    obtain a b where ab: "p = (a, b)" by (cases p)
    show "(case p of (a, b) \<Rightarrow> (\<lambda>(x, y). (unat x, unat y)) ` set (octants x0 y0 a b)) =
      circle_points (unat x0) (unat y0) [p]" unfolding ab prod.case by (rule oct(2) [OF p [unfolded ab]])
  qed
  finally have "lcd_look v t = (\<lambda>p. if p \<in> circle_points (unat x0) (unat y0) rs then c else lcd_look v s p)"
    unfolding t(4) fun_eq_iff plot_dots by (simp add: ucast_up_ucast_id is_up_def)
  moreover have "lcd_draw_circle h x0 y0 r c s = Some t"
    using t(1) by (simp add: lcd_draw_circle_def circle_loop_draws rs_def ps_def)
  moreover have "\<forall>(a, b)\<in>set rs. 0 \<le> a \<and> a \<le> b \<and> (uint r)\<^sup>2 - 3 * uint r \<le> a\<^sup>2 + b\<^sup>2 \<and> a\<^sup>2 + b\<^sup>2 \<le> (uint r)\<^sup>2 + uint r"
    using near unfolding power2_eq_square by fastforce
  ultimately show ?thesis using t(2,3) chain by blast
qed

lemma lcd_draw_circle_correct_witness:
  "\<exists>t. lcd_draw_circle lsim_port 100 50 10 0x1F mcu_screen = Some t \<and> lcd_look lsim_view t (100, 60) = 0x1F"
proof -
  obtain t rs where "lcd_draw_circle lsim_port 100 50 10 0x1F mcu_screen = Some t" "rs \<noteq> []" "hd rs = (0, 10)"
    "lcd_look lsim_view t = (\<lambda>p. if p \<in> circle_points 100 50 rs then 0x1F else lcd_look lsim_view mcu_screen p)"
    using lcd_draw_circle_correct [OF lsim_law screens_ok(2), of 10 100 50 "0x1F"] by (auto simp: mcu_screen_def)
  moreover from this have "(0, 10) \<in> set rs" by (metis hd_in_set)
  then have "(100, 60) \<in> circle_points 100 50 rs" by (force simp: circle_points_def)
  ultimately show ?thesis by auto
qed

end
