(* ===== verification/Lcd_Font.thy ===== *)
theory Lcd_Font
  imports Apollo_Prelude
begin

text \<open>
  The four tables of ASCII glyphs of \<open>lcdfont.h\<close>: the characters from the blank to the tilde. A glyph
  is a list of columns from the left, each column has its bits from the top. The rows of
  \<open>asc2_3216\<close> have 128 bytes, of which the initialisers give 64.
\<close>

definition asc2_1206 :: "u8 list list" where
  "asc2_1206 = [
    [0, 0, 0, 0, 0, 0, 0, 0, 0, 0, 0, 0],
    [0, 0, 0, 0, 0x3F, 0x40, 0, 0, 0, 0, 0, 0],
    [0, 0, 0x30, 0, 0x40, 0, 0x30, 0, 0x40, 0, 0, 0],
    [9, 0, 0x0B, 0xC0, 0x3D, 0, 0x0B, 0xC0, 0x3D, 0, 9, 0],
    [0x18, 0xC0, 0x24, 0x40, 0x7F, 0xE0, 0x22, 0x40, 0x31, 0x80, 0, 0],
    [0x18, 0, 0x24, 0xC0, 0x1B, 0, 0x0D, 0x80, 0x32, 0x40, 1, 0x80],
    [3, 0x80, 0x1C, 0x40, 0x27, 0x40, 0x1C, 0x80, 7, 0x40, 0, 0x40],
    [0x10, 0, 0x60, 0, 0, 0, 0, 0, 0, 0, 0, 0],
    [0, 0, 0, 0, 0, 0, 0x1F, 0x80, 0x20, 0x40, 0x40, 0x20],
    [0, 0, 0x40, 0x20, 0x20, 0x40, 0x1F, 0x80, 0, 0, 0, 0],
    [9, 0, 6, 0, 0x1F, 0x80, 6, 0, 9, 0, 0, 0],
    [4, 0, 4, 0, 0x3F, 0x80, 4, 0, 4, 0, 0, 0],
    [0, 0x10, 0, 0x60, 0, 0, 0, 0, 0, 0, 0, 0],
    [4, 0, 4, 0, 4, 0, 4, 0, 4, 0, 0, 0],
    [0, 0, 0, 0x40, 0, 0, 0, 0, 0, 0, 0, 0],
    [0, 0x20, 1, 0xC0, 6, 0, 0x38, 0, 0x40, 0, 0, 0],
    [0x1F, 0x80, 0x20, 0x40, 0x20, 0x40, 0x20, 0x40, 0x1F, 0x80, 0, 0],
    [0, 0, 0x10, 0x40, 0x3F, 0xC0, 0, 0x40, 0, 0, 0, 0],
    [0x18, 0xC0, 0x21, 0x40, 0x22, 0x40, 0x24, 0x40, 0x18, 0x40, 0, 0],
    [0x10, 0x80, 0x20, 0x40, 0x24, 0x40, 0x24, 0x40, 0x1B, 0x80, 0, 0],
    [2, 0, 0x0D, 0, 0x11, 0, 0x3F, 0xC0, 1, 0x40, 0, 0],
    [0x3C, 0x80, 0x24, 0x40, 0x24, 0x40, 0x24, 0x40, 0x23, 0x80, 0, 0],
    [0x1F, 0x80, 0x24, 0x40, 0x24, 0x40, 0x34, 0x40, 3, 0x80, 0, 0],
    [0x30, 0, 0x20, 0, 0x27, 0xC0, 0x38, 0, 0x20, 0, 0, 0],
    [0x1B, 0x80, 0x24, 0x40, 0x24, 0x40, 0x24, 0x40, 0x1B, 0x80, 0, 0],
    [0x1C, 0, 0x22, 0xC0, 0x22, 0x40, 0x22, 0x40, 0x1F, 0x80, 0, 0],
    [0, 0, 0, 0, 8, 0x40, 0, 0, 0, 0, 0, 0],
    [0, 0, 0, 0, 4, 0x60, 0, 0, 0, 0, 0, 0],
    [0, 0, 4, 0, 0x0A, 0, 0x11, 0, 0x20, 0x80, 0x40, 0x40],
    [9, 0, 9, 0, 9, 0, 9, 0, 9, 0, 0, 0],
    [0, 0, 0x40, 0x40, 0x20, 0x80, 0x11, 0, 0x0A, 0, 4, 0],
    [0x18, 0, 0x20, 0, 0x23, 0x40, 0x24, 0, 0x18, 0, 0, 0],
    [0x1F, 0x80, 0x20, 0x40, 0x27, 0x40, 0x29, 0x40, 0x1F, 0x40, 0, 0],
    [0, 0x40, 7, 0xC0, 0x39, 0, 0x0F, 0, 1, 0xC0, 0, 0x40],
    [0x20, 0x40, 0x3F, 0xC0, 0x24, 0x40, 0x24, 0x40, 0x1B, 0x80, 0, 0],
    [0x1F, 0x80, 0x20, 0x40, 0x20, 0x40, 0x20, 0x40, 0x30, 0x80, 0, 0],
    [0x20, 0x40, 0x3F, 0xC0, 0x20, 0x40, 0x20, 0x40, 0x1F, 0x80, 0, 0],
    [0x20, 0x40, 0x3F, 0xC0, 0x24, 0x40, 0x2E, 0x40, 0x30, 0xC0, 0, 0],
    [0x20, 0x40, 0x3F, 0xC0, 0x24, 0x40, 0x2E, 0, 0x30, 0, 0, 0],
    [0x0F, 0, 0x10, 0x80, 0x20, 0x40, 0x22, 0x40, 0x33, 0x80, 2, 0],
    [0x20, 0x40, 0x3F, 0xC0, 4, 0, 4, 0, 0x3F, 0xC0, 0x20, 0x40],
    [0x20, 0x40, 0x20, 0x40, 0x3F, 0xC0, 0x20, 0x40, 0x20, 0x40, 0, 0],
    [0, 0x60, 0x20, 0x20, 0x20, 0x20, 0x3F, 0xC0, 0x20, 0, 0x20, 0],
    [0x20, 0x40, 0x3F, 0xC0, 0x24, 0x40, 0x0B, 0, 0x30, 0xC0, 0x20, 0x40],
    [0x20, 0x40, 0x3F, 0xC0, 0x20, 0x40, 0, 0x40, 0, 0x40, 0, 0xC0],
    [0x3F, 0xC0, 0x3C, 0, 3, 0xC0, 0x3C, 0, 0x3F, 0xC0, 0, 0],
    [0x20, 0x40, 0x3F, 0xC0, 0x0C, 0x40, 0x23, 0, 0x3F, 0xC0, 0x20, 0],
    [0x1F, 0x80, 0x20, 0x40, 0x20, 0x40, 0x20, 0x40, 0x1F, 0x80, 0, 0],
    [0x20, 0x40, 0x3F, 0xC0, 0x24, 0x40, 0x24, 0, 0x18, 0, 0, 0],
    [0x1F, 0x80, 0x21, 0x40, 0x21, 0x40, 0x20, 0xE0, 0x1F, 0xA0, 0, 0],
    [0x20, 0x40, 0x3F, 0xC0, 0x24, 0x40, 0x26, 0, 0x19, 0xC0, 0, 0x40],
    [0x18, 0xC0, 0x24, 0x40, 0x24, 0x40, 0x22, 0x40, 0x31, 0x80, 0, 0],
    [0x30, 0, 0x20, 0x40, 0x3F, 0xC0, 0x20, 0x40, 0x30, 0, 0, 0],
    [0x20, 0, 0x3F, 0x80, 0, 0x40, 0, 0x40, 0x3F, 0x80, 0x20, 0],
    [0x20, 0, 0x3E, 0, 1, 0xC0, 7, 0, 0x38, 0, 0x20, 0],
    [0x38, 0, 7, 0xC0, 0x3C, 0, 7, 0xC0, 0x38, 0, 0, 0],
    [0x20, 0x40, 0x39, 0xC0, 6, 0, 0x39, 0xC0, 0x20, 0x40, 0, 0],
    [0x20, 0, 0x38, 0x40, 7, 0xC0, 0x38, 0x40, 0x20, 0, 0, 0],
    [0x30, 0x40, 0x21, 0xC0, 0x26, 0x40, 0x38, 0x40, 0x20, 0xC0, 0, 0],
    [0, 0, 0, 0, 0x7F, 0xE0, 0x40, 0x20, 0x40, 0x20, 0, 0],
    [0, 0, 0x70, 0, 0x0C, 0, 3, 0x80, 0, 0x40, 0, 0],
    [0, 0, 0x40, 0x20, 0x40, 0x20, 0x7F, 0xE0, 0, 0, 0, 0],
    [0, 0, 0x20, 0, 0x40, 0, 0x20, 0, 0, 0, 0, 0],
    [0, 0x10, 0, 0x10, 0, 0x10, 0, 0x10, 0, 0x10, 0, 0x10],
    [0, 0, 0, 0, 0x40, 0, 0, 0, 0, 0, 0, 0],
    [0, 0, 2, 0x80, 5, 0x40, 5, 0x40, 3, 0xC0, 0, 0x40],
    [0x20, 0, 0x3F, 0xC0, 4, 0x40, 4, 0x40, 3, 0x80, 0, 0],
    [0, 0, 3, 0x80, 4, 0x40, 4, 0x40, 6, 0x40, 0, 0],
    [0, 0, 3, 0x80, 4, 0x40, 0x24, 0x40, 0x3F, 0xC0, 0, 0x40],
    [0, 0, 3, 0x80, 5, 0x40, 5, 0x40, 3, 0x40, 0, 0],
    [0, 0, 4, 0x40, 0x1F, 0xC0, 0x24, 0x40, 0x24, 0x40, 0x20, 0],
    [0, 0, 2, 0xE0, 5, 0x50, 5, 0x50, 6, 0x50, 4, 0x20],
    [0x20, 0x40, 0x3F, 0xC0, 4, 0x40, 4, 0, 3, 0xC0, 0, 0x40],
    [0, 0, 4, 0x40, 0x27, 0xC0, 0, 0x40, 0, 0, 0, 0],
    [0, 0x10, 0, 0x10, 4, 0x10, 0x27, 0xE0, 0, 0, 0, 0],
    [0x20, 0x40, 0x3F, 0xC0, 1, 0x40, 7, 0, 4, 0xC0, 4, 0x40],
    [0x20, 0x40, 0x20, 0x40, 0x3F, 0xC0, 0, 0x40, 0, 0x40, 0, 0],
    [7, 0xC0, 4, 0, 7, 0xC0, 4, 0, 3, 0xC0, 0, 0],
    [4, 0x40, 7, 0xC0, 4, 0x40, 4, 0, 3, 0xC0, 0, 0x40],
    [0, 0, 3, 0x80, 4, 0x40, 4, 0x40, 3, 0x80, 0, 0],
    [4, 0x10, 7, 0xF0, 4, 0x50, 4, 0x40, 3, 0x80, 0, 0],
    [0, 0, 3, 0x80, 4, 0x40, 4, 0x50, 7, 0xF0, 0, 0x10],
    [4, 0x40, 7, 0xC0, 2, 0x40, 4, 0, 4, 0, 0, 0],
    [0, 0, 6, 0x40, 5, 0x40, 5, 0x40, 4, 0xC0, 0, 0],
    [0, 0, 4, 0, 0x1F, 0x80, 4, 0x40, 0, 0x40, 0, 0],
    [4, 0, 7, 0x80, 0, 0x40, 4, 0x40, 7, 0xC0, 0, 0x40],
    [4, 0, 7, 0, 4, 0xC0, 1, 0x80, 6, 0, 4, 0],
    [6, 0, 1, 0xC0, 7, 0, 1, 0xC0, 6, 0, 0, 0],
    [4, 0x40, 6, 0xC0, 1, 0, 6, 0xC0, 4, 0x40, 0, 0],
    [4, 0x10, 7, 0x10, 4, 0xE0, 1, 0x80, 6, 0, 4, 0],
    [0, 0, 4, 0x40, 5, 0xC0, 6, 0x40, 4, 0x40, 0, 0],
    [0, 0, 0, 0, 4, 0, 0x7B, 0xE0, 0x40, 0x20, 0, 0],
    [0, 0, 0, 0, 0, 0, 0xFF, 0xF0, 0, 0, 0, 0],
    [0, 0, 0x40, 0x20, 0x7B, 0xE0, 4, 0, 0, 0, 0, 0],
    [0x40, 0, 0x80, 0, 0x40, 0, 0x20, 0, 0x20, 0, 0x40, 0]]"

definition asc2_1608 :: "u8 list list" where
  "asc2_1608 = [
    [0, 0, 0, 0, 0, 0, 0, 0, 0, 0, 0, 0, 0, 0, 0, 0],
    [0, 0, 0, 0, 0, 0, 0x1F, 0xCC, 0, 0x0C, 0, 0, 0, 0, 0, 0],
    [0, 0, 8, 0, 0x30, 0, 0x60, 0, 8, 0, 0x30, 0, 0x60, 0, 0, 0],
    [2, 0x20, 3, 0xFC, 0x1E, 0x20, 2, 0x20, 3, 0xFC, 0x1E, 0x20, 2, 0x20, 0, 0],
    [0, 0, 0x0E, 0x18, 0x11, 4, 0x3F, 0xFF, 0x10, 0x84, 0x0C, 0x78, 0, 0, 0, 0],
    [0x0F, 0, 0x10, 0x84, 0x0F, 0x38, 0, 0xC0, 7, 0x78, 0x18, 0x84, 0, 0x78, 0, 0],
    [0, 0x78, 0x0F, 0x84, 0x10, 0xC4, 0x11, 0x24, 0x0E, 0x98, 0, 0xE4, 0, 0x84, 0, 8],
    [8, 0, 0x68, 0, 0x70, 0, 0, 0, 0, 0, 0, 0, 0, 0, 0, 0],
    [0, 0, 0, 0, 0, 0, 7, 0xE0, 0x18, 0x18, 0x20, 4, 0x40, 2, 0, 0],
    [0, 0, 0x40, 2, 0x20, 4, 0x18, 0x18, 7, 0xE0, 0, 0, 0, 0, 0, 0],
    [2, 0x40, 2, 0x40, 1, 0x80, 0x0F, 0xF0, 1, 0x80, 2, 0x40, 2, 0x40, 0, 0],
    [0, 0x80, 0, 0x80, 0, 0x80, 0x0F, 0xF8, 0, 0x80, 0, 0x80, 0, 0x80, 0, 0],
    [0, 1, 0, 0x0D, 0, 0x0E, 0, 0, 0, 0, 0, 0, 0, 0, 0, 0],
    [0, 0, 0, 0x80, 0, 0x80, 0, 0x80, 0, 0x80, 0, 0x80, 0, 0x80, 0, 0x80],
    [0, 0, 0, 0x0C, 0, 0x0C, 0, 0, 0, 0, 0, 0, 0, 0, 0, 0],
    [0, 0, 0, 6, 0, 0x18, 0, 0x60, 1, 0x80, 6, 0, 0x18, 0, 0x20, 0],
    [0, 0, 7, 0xF0, 8, 8, 0x10, 4, 0x10, 4, 8, 8, 7, 0xF0, 0, 0],
    [0, 0, 8, 4, 8, 4, 0x1F, 0xFC, 0, 4, 0, 4, 0, 0, 0, 0],
    [0, 0, 0x0E, 0x0C, 0x10, 0x14, 0x10, 0x24, 0x10, 0x44, 0x11, 0x84, 0x0E, 0x0C, 0, 0],
    [0, 0, 0x0C, 0x18, 0x10, 4, 0x11, 4, 0x11, 4, 0x12, 0x88, 0x0C, 0x70, 0, 0],
    [0, 0, 0, 0xE0, 3, 0x20, 4, 0x24, 8, 0x24, 0x1F, 0xFC, 0, 0x24, 0, 0],
    [0, 0, 0x1F, 0x98, 0x10, 0x84, 0x11, 4, 0x11, 4, 0x10, 0x88, 0x10, 0x70, 0, 0],
    [0, 0, 7, 0xF0, 8, 0x88, 0x11, 4, 0x11, 4, 0x18, 0x88, 0, 0x70, 0, 0],
    [0, 0, 0x1C, 0, 0x10, 0, 0x10, 0xFC, 0x13, 0, 0x1C, 0, 0x10, 0, 0, 0],
    [0, 0, 0x0E, 0x38, 0x11, 0x44, 0x10, 0x84, 0x10, 0x84, 0x11, 0x44, 0x0E, 0x38, 0, 0],
    [0, 0, 7, 0, 8, 0x8C, 0x10, 0x44, 0x10, 0x44, 8, 0x88, 7, 0xF0, 0, 0],
    [0, 0, 0, 0, 0, 0, 3, 0x0C, 3, 0x0C, 0, 0, 0, 0, 0, 0],
    [0, 0, 0, 0, 0, 1, 1, 6, 0, 0, 0, 0, 0, 0, 0, 0],
    [0, 0, 0, 0x80, 1, 0x40, 2, 0x20, 4, 0x10, 8, 8, 0x10, 4, 0, 0],
    [2, 0x20, 2, 0x20, 2, 0x20, 2, 0x20, 2, 0x20, 2, 0x20, 2, 0x20, 0, 0],
    [0, 0, 0x10, 4, 8, 8, 4, 0x10, 2, 0x20, 1, 0x40, 0, 0x80, 0, 0],
    [0, 0, 0x0E, 0, 0x12, 0, 0x10, 0x0C, 0x10, 0x6C, 0x10, 0x80, 0x0F, 0, 0, 0],
    [3, 0xE0, 0x0C, 0x18, 0x13, 0xE4, 0x14, 0x24, 0x17, 0xC4, 8, 0x28, 7, 0xD0, 0, 0],
    [0, 4, 0, 0x3C, 3, 0xC4, 0x1C, 0x40, 7, 0x40, 0, 0xE4, 0, 0x1C, 0, 4],
    [0x10, 4, 0x1F, 0xFC, 0x11, 4, 0x11, 4, 0x11, 4, 0x0E, 0x88, 0, 0x70, 0, 0],
    [3, 0xE0, 0x0C, 0x18, 0x10, 4, 0x10, 4, 0x10, 4, 0x10, 8, 0x1C, 0x10, 0, 0],
    [0x10, 4, 0x1F, 0xFC, 0x10, 4, 0x10, 4, 0x10, 4, 8, 8, 7, 0xF0, 0, 0],
    [0x10, 4, 0x1F, 0xFC, 0x11, 4, 0x11, 4, 0x17, 0xC4, 0x10, 4, 8, 0x18, 0, 0],
    [0x10, 4, 0x1F, 0xFC, 0x11, 4, 0x11, 0, 0x17, 0xC0, 0x10, 0, 8, 0, 0, 0],
    [3, 0xE0, 0x0C, 0x18, 0x10, 4, 0x10, 4, 0x10, 0x44, 0x1C, 0x78, 0, 0x40, 0, 0],
    [0x10, 4, 0x1F, 0xFC, 0x10, 0x84, 0, 0x80, 0, 0x80, 0x10, 0x84, 0x1F, 0xFC, 0x10, 4],
    [0, 0, 0x10, 4, 0x10, 4, 0x1F, 0xFC, 0x10, 4, 0x10, 4, 0, 0, 0, 0],
    [0, 3, 0, 1, 0x10, 1, 0x10, 1, 0x1F, 0xFE, 0x10, 0, 0x10, 0, 0, 0],
    [0x10, 4, 0x1F, 0xFC, 0x11, 4, 3, 0x80, 0x14, 0x64, 0x18, 0x1C, 0x10, 4, 0, 0],
    [0x10, 4, 0x1F, 0xFC, 0x10, 4, 0, 4, 0, 4, 0, 4, 0, 0x0C, 0, 0],
    [0x10, 4, 0x1F, 0xFC, 0x1F, 0, 0, 0xFC, 0x1F, 0, 0x1F, 0xFC, 0x10, 4, 0, 0],
    [0x10, 4, 0x1F, 0xFC, 0x0C, 4, 3, 0, 0, 0xE0, 0x10, 0x18, 0x1F, 0xFC, 0x10, 0],
    [7, 0xF0, 8, 8, 0x10, 4, 0x10, 4, 0x10, 4, 8, 8, 7, 0xF0, 0, 0],
    [0x10, 4, 0x1F, 0xFC, 0x10, 0x84, 0x10, 0x80, 0x10, 0x80, 0x10, 0x80, 0x0F, 0, 0, 0],
    [7, 0xF0, 8, 0x18, 0x10, 0x24, 0x10, 0x24, 0x10, 0x1C, 8, 0x0A, 7, 0xF2, 0, 0],
    [0x10, 4, 0x1F, 0xFC, 0x11, 4, 0x11, 0, 0x11, 0xC0, 0x11, 0x30, 0x0E, 0x0C, 0, 4],
    [0, 0, 0x0E, 0x1C, 0x11, 4, 0x10, 0x84, 0x10, 0x84, 0x10, 0x44, 0x1C, 0x38, 0, 0],
    [0x18, 0, 0x10, 0, 0x10, 4, 0x1F, 0xFC, 0x10, 4, 0x10, 0, 0x18, 0, 0, 0],
    [0x10, 0, 0x1F, 0xF8, 0x10, 4, 0, 4, 0, 4, 0x10, 4, 0x1F, 0xF8, 0x10, 0],
    [0x10, 0, 0x1E, 0, 0x11, 0xE0, 0, 0x1C, 0, 0x70, 0x13, 0x80, 0x1C, 0, 0x10, 0],
    [0x1F, 0xC0, 0x10, 0x3C, 0, 0xE0, 0x1F, 0, 0, 0xE0, 0x10, 0x3C, 0x1F, 0xC0, 0, 0],
    [0x10, 4, 0x18, 0x0C, 0x16, 0x34, 1, 0xC0, 1, 0xC0, 0x16, 0x34, 0x18, 0x0C, 0x10, 4],
    [0x10, 0, 0x1C, 0, 0x13, 4, 0, 0xFC, 0x13, 4, 0x1C, 0, 0x10, 0, 0, 0],
    [8, 4, 0x10, 0x1C, 0x10, 0x64, 0x10, 0x84, 0x13, 4, 0x1C, 4, 0x10, 0x18, 0, 0],
    [0, 0, 0, 0, 0, 0, 0x7F, 0xFE, 0x40, 2, 0x40, 2, 0x40, 2, 0, 0],
    [0, 0, 0x30, 0, 0x0C, 0, 3, 0x80, 0, 0x60, 0, 0x1C, 0, 3, 0, 0],
    [0, 0, 0x40, 2, 0x40, 2, 0x40, 2, 0x7F, 0xFE, 0, 0, 0, 0, 0, 0],
    [0, 0, 0, 0, 0x20, 0, 0x40, 0, 0x40, 0, 0x40, 0, 0x20, 0, 0, 0],
    [0, 1, 0, 1, 0, 1, 0, 1, 0, 1, 0, 1, 0, 1, 0, 1],
    [0, 0, 0x40, 0, 0x40, 0, 0x20, 0, 0, 0, 0, 0, 0, 0, 0, 0],
    [0, 0, 0, 0x98, 1, 0x24, 1, 0x44, 1, 0x44, 1, 0x44, 0, 0xFC, 0, 4],
    [0x10, 0, 0x1F, 0xFC, 0, 0x88, 1, 4, 1, 4, 0, 0x88, 0, 0x70, 0, 0],
    [0, 0, 0, 0x70, 0, 0x88, 1, 4, 1, 4, 1, 4, 0, 0x88, 0, 0],
    [0, 0, 0, 0x70, 0, 0x88, 1, 4, 1, 4, 0x11, 8, 0x1F, 0xFC, 0, 4],
    [0, 0, 0, 0xF8, 1, 0x44, 1, 0x44, 1, 0x44, 1, 0x44, 0, 0xC8, 0, 0],
    [0, 0, 1, 4, 1, 4, 0x0F, 0xFC, 0x11, 4, 0x11, 4, 0x11, 0, 0x18, 0],
    [0, 0, 0, 0xD6, 1, 0x29, 1, 0x29, 1, 0x29, 1, 0xC9, 1, 6, 0, 0],
    [0x10, 4, 0x1F, 0xFC, 0, 0x84, 1, 0, 1, 0, 1, 4, 0, 0xFC, 0, 4],
    [0, 0, 1, 4, 0x19, 4, 0x19, 0xFC, 0, 4, 0, 4, 0, 0, 0, 0],
    [0, 0, 0, 3, 0, 1, 1, 1, 0x19, 1, 0x19, 0xFE, 0, 0, 0, 0],
    [0x10, 4, 0x1F, 0xFC, 0, 0x24, 0, 0x40, 1, 0xB4, 1, 0x0C, 1, 4, 0, 0],
    [0, 0, 0x10, 4, 0x10, 4, 0x1F, 0xFC, 0, 4, 0, 4, 0, 0, 0, 0],
    [1, 4, 1, 0xFC, 1, 4, 1, 0, 1, 0xFC, 1, 4, 1, 0, 0, 0xFC],
    [1, 4, 1, 0xFC, 0, 0x84, 1, 0, 1, 0, 1, 4, 0, 0xFC, 0, 4],
    [0, 0, 0, 0xF8, 1, 4, 1, 4, 1, 4, 1, 4, 0, 0xF8, 0, 0],
    [1, 1, 1, 0xFF, 0, 0x85, 1, 4, 1, 4, 0, 0x88, 0, 0x70, 0, 0],
    [0, 0, 0, 0x70, 0, 0x88, 1, 4, 1, 4, 1, 5, 1, 0xFF, 0, 1],
    [1, 4, 1, 4, 1, 0xFC, 0, 0x84, 1, 4, 1, 0, 1, 0x80, 0, 0],
    [0, 0, 0, 0xCC, 1, 0x24, 1, 0x24, 1, 0x24, 1, 0x24, 1, 0x98, 0, 0],
    [0, 0, 1, 0, 1, 0, 7, 0xF8, 1, 4, 1, 4, 0, 0, 0, 0],
    [1, 0, 1, 0xF8, 0, 4, 0, 4, 0, 4, 1, 8, 1, 0xFC, 0, 4],
    [1, 0, 1, 0x80, 1, 0x70, 0, 0x0C, 0, 0x10, 1, 0x60, 1, 0x80, 1, 0],
    [1, 0xF0, 1, 0x0C, 0, 0x30, 1, 0xC0, 0, 0x30, 1, 0x0C, 1, 0xF0, 1, 0],
    [0, 0, 1, 4, 1, 0x8C, 0, 0x74, 1, 0x70, 1, 0x8C, 1, 4, 0, 0],
    [1, 1, 1, 0x81, 1, 0x71, 0, 0x0E, 0, 0x18, 1, 0x60, 1, 0x80, 1, 0],
    [0, 0, 1, 0x84, 1, 0x0C, 1, 0x34, 1, 0x44, 1, 0x84, 1, 0x0C, 0, 0],
    [0, 0, 0, 0, 0, 0, 0, 0, 1, 0, 0x3E, 0xFC, 0x40, 2, 0x40, 2],
    [0, 0, 0, 0, 0, 0, 0, 0, 0xFF, 0xFF, 0, 0, 0, 0, 0, 0],
    [0, 0, 0x40, 2, 0x40, 2, 0x3E, 0xFC, 1, 0, 0, 0, 0, 0, 0, 0],
    [0, 0, 0x60, 0, 0x80, 0, 0x80, 0, 0x40, 0, 0x40, 0, 0x20, 0, 0x20, 0]]"

definition asc2_2412 :: "u8 list list" where
  "asc2_2412 = [
    [0, 0, 0, 0, 0, 0, 0, 0, 0, 0, 0, 0, 0, 0, 0, 0, 0, 0, 0, 0, 0, 0, 0, 0, 0, 0, 0, 0, 0, 0, 0, 0, 0, 0, 0, 0],
    [0, 0, 0, 0, 0, 0, 0, 0, 0, 0, 0, 0, 0, 0, 0, 0x0F, 0x80, 0x38, 0x0F, 0xFE, 0x38, 0x0F, 0x80, 0x38, 0, 0, 0, 0,
     0, 0, 0, 0, 0, 0, 0, 0],
    [0, 0, 0, 0, 0, 0, 1, 0, 0, 6, 0, 0, 0x0C, 0, 0, 0x38, 0, 0, 0x31, 0, 0, 6, 0, 0, 0x0C, 0, 0, 0x38, 0, 0, 0x30,
     0, 0, 0, 0, 0],
    [0, 0, 0, 0, 0x61, 0x80, 0, 0x67, 0xF8, 7, 0xF9, 0x80, 0, 0x61, 0x80, 0, 0x61, 0x80, 0, 0x61, 0x80, 0, 0x61,
     0x80, 0, 0x67, 0xF8, 7, 0xF9, 0x80, 0, 0x61, 0x80, 0, 0, 0],
    [0, 0, 0, 0, 0, 0, 1, 0xC0, 0xE0, 3, 0xE0, 0xF0, 6, 0x30, 8, 4, 0x18, 8, 0x1F, 0xFF, 0xFE, 4, 0x0E, 8, 7, 0x87,
     0xF0, 3, 0x81, 0xE0, 0, 0, 0, 0, 0, 0],
    [1, 0xF0, 0, 6, 0x0C, 0, 4, 4, 8, 6, 0x0C, 0x70, 1, 0xF9, 0xC0, 0, 0x0E, 0, 0, 0x3B, 0xE0, 0, 0xEC, 0x18, 7, 8,
     8, 4, 0x0C, 0x18, 0, 3, 0xE0, 0, 0, 0],
    [0, 1, 0xE0, 0, 7, 0xF0, 3, 0xF8, 0x18, 4, 0x1C, 8, 4, 0x17, 8, 7, 0xE1, 0xD0, 3, 0xC0, 0xE0, 0, 0x23, 0xB0, 0,
     0x3C, 8, 0, 0x20, 8, 0, 0, 0x10, 0, 0, 0],
    [0, 0, 0, 1, 0, 0, 0x31, 0, 0, 0x32, 0, 0, 0x1C, 0, 0, 0, 0, 0, 0, 0, 0, 0, 0, 0, 0, 0, 0, 0, 0, 0, 0, 0, 0, 0,
     0, 0],
    [0, 0, 0, 0, 0, 0, 0, 0, 0, 0, 0, 0, 0, 0, 0, 0, 0x7F, 0, 1, 0xFF, 0xC0, 7, 0x80, 0xF0, 0x0C, 0, 0x18, 0x10, 0,
     4, 0x20, 0, 2, 0, 0, 0],
    [0, 0, 0, 0x20, 0, 2, 0x10, 0, 4, 0x0C, 0, 0x18, 7, 0x80, 0xF0, 1, 0xFF, 0xC0, 0, 0x7F, 0, 0, 0, 0, 0, 0, 0, 0,
     0, 0, 0, 0, 0, 0, 0, 0],
    [0, 0, 0, 0, 0x42, 0, 0, 0x66, 0, 0, 0x66, 0, 0, 0x3C, 0, 0, 0x18, 0, 3, 0xFF, 0xC0, 0, 0x18, 0, 0, 0x3C, 0, 0,
     0x66, 0, 0, 0x66, 0, 0, 0x42, 0],
    [0, 0, 0, 0, 8, 0, 0, 8, 0, 0, 8, 0, 0, 8, 0, 0, 8, 0, 1, 0xFF, 0xC0, 0, 8, 0, 0, 8, 0, 0, 8, 0, 0, 8, 0, 0, 8, 0],
    [0, 0, 0, 0, 0, 1, 0, 0, 0x31, 0, 0, 0x32, 0, 0, 0x1C, 0, 0, 0, 0, 0, 0, 0, 0, 0, 0, 0, 0, 0, 0, 0, 0, 0, 0, 0,
     0, 0],
    [0, 0, 0, 0, 8, 0, 0, 8, 0, 0, 8, 0, 0, 8, 0, 0, 8, 0, 0, 8, 0, 0, 8, 0, 0, 8, 0, 0, 8, 0, 0, 8, 0, 0, 0, 0],
    [0, 0, 0, 0, 0, 0, 0, 0, 0x38, 0, 0, 0x38, 0, 0, 0x38, 0, 0, 0, 0, 0, 0, 0, 0, 0, 0, 0, 0, 0, 0, 0, 0, 0, 0, 0,
     0, 0],
    [0, 0, 0, 0, 0, 6, 0, 0, 0x1C, 0, 0, 0x70, 0, 1, 0x80, 0, 0x0E, 0, 0, 0x38, 0, 0, 0xC0, 0, 7, 0, 0, 0x1C, 0, 0,
     0x30, 0, 0, 0, 0, 0],
    [0, 0, 0, 0, 0x7F, 0x80, 1, 0xFF, 0xE0, 3, 0x80, 0x70, 6, 0, 0x18, 4, 0, 8, 4, 0, 8, 6, 0, 0x18, 3, 0x80, 0x70,
     1, 0xFF, 0xE0, 0, 0x7F, 0x80, 0, 0, 0],
    [0, 0, 0, 0, 0, 0, 1, 0, 8, 1, 0, 8, 1, 0, 8, 3, 0xFF, 0xF8, 7, 0xFF, 0xF8, 0, 0, 8, 0, 0, 8, 0, 0, 8, 0, 0, 0,
     0, 0, 0],
    [0, 0, 0, 1, 0xC0, 0x38, 2, 0xC0, 0x58, 4, 0, 0x98, 4, 1, 0x18, 4, 2, 0x18, 4, 4, 0x18, 6, 0x1C, 0x18, 3, 0xF8,
     0x18, 1, 0xE0, 0xF8, 0, 0, 0, 0, 0, 0],
    [0, 0, 0, 1, 0xC0, 0xE0, 3, 0xC0, 0xF0, 4, 0, 8, 4, 8, 8, 4, 8, 8, 6, 0x18, 8, 3, 0xF4, 0x18, 1, 0xE7, 0xF0, 0,
     1, 0xE0, 0, 0, 0, 0, 0, 0],
    [0, 0, 0, 0, 3, 0, 0, 0x0D, 0, 0, 0x11, 0, 0, 0x61, 0, 0, 0x81, 8, 3, 1, 8, 7, 0xFF, 0xF8, 0x0F, 0xFF, 0xF8, 0,
     1, 8, 0, 1, 8, 0, 0, 0],
    [0, 0, 0, 0, 0, 0xE0, 7, 0xFC, 0xD0, 6, 8, 8, 6, 0x10, 8, 6, 0x10, 8, 6, 0x10, 8, 6, 0x18, 0x38, 6, 0x0F, 0xF0,
     6, 7, 0xC0, 0, 0, 0, 0, 0, 0],
    [0, 0, 0, 0, 0x3F, 0x80, 1, 0xFF, 0xE0, 3, 0x84, 0x30, 2, 8, 0x18, 4, 0x10, 8, 4, 0x10, 8, 4, 0x10, 8, 7, 0x18,
     0x10, 3, 0x0F, 0xF0, 0, 7, 0xC0, 0, 0, 0],
    [0, 0, 0, 0, 0, 0, 3, 0xC0, 0, 7, 0, 0, 6, 0, 0, 6, 0, 0xF8, 6, 7, 0xF8, 6, 0x18, 0, 6, 0xE0, 0, 7, 0, 0, 6, 0,
     0, 0, 0, 0],
    [0, 0, 0, 1, 0xE1, 0xE0, 3, 0xF7, 0xF0, 6, 0x34, 0x10, 4, 0x18, 8, 4, 0x18, 8, 4, 0x0C, 8, 4, 0x0C, 8, 6, 0x16,
     0x18, 3, 0xF3, 0xF0, 1, 0xC1, 0xE0, 0, 0, 0],
    [0, 0, 0, 0, 0xF8, 0, 3, 0xFC, 0x30, 3, 6, 0x38, 4, 2, 8, 4, 2, 8, 4, 2, 8, 4, 4, 0x10, 3, 8, 0xF0, 1, 0xFF,
     0xC0, 0, 0x7F, 0, 0, 0, 0],
    [0, 0, 0, 0, 0, 0, 0, 0, 0, 0, 0, 0, 0, 0, 0, 0, 0x70, 0x38, 0, 0x70, 0x38, 0, 0x70, 0x38, 0, 0, 0, 0, 0, 0, 0,
     0, 0, 0, 0, 0],
    [0, 0, 0, 0, 0, 0, 0, 0, 0, 0, 0, 0, 0, 0, 0, 0, 0x30, 0x1A, 0, 0x30, 0x1C, 0, 0, 0, 0, 0, 0, 0, 0, 0, 0, 0, 0,
     0, 0, 0],
    [0, 0, 0, 0, 0, 0, 0, 8, 0, 0, 0x14, 0, 0, 0x22, 0, 0, 0x41, 0, 0, 0x80, 0x80, 1, 0, 0x40, 2, 0, 0x20, 4, 0,
     0x10, 8, 0, 8, 0, 0, 0],
    [0, 0, 0, 0, 0x21, 0, 0, 0x21, 0, 0, 0x21, 0, 0, 0x21, 0, 0, 0x21, 0, 0, 0x21, 0, 0, 0x21, 0, 0, 0x21, 0, 0,
     0x21, 0, 0, 0x21, 0, 0, 0, 0],
    [0, 0, 0, 0, 0, 0, 8, 0, 8, 4, 0, 0x10, 2, 0, 0x20, 1, 0, 0x40, 0, 0x80, 0x80, 0, 0x41, 0, 0, 0x22, 0, 0, 0x14,
     0, 0, 8, 0, 0, 0, 0],
    [0, 0, 0, 3, 0xC0, 0, 4, 0xC0, 0, 4, 0, 0, 8, 0, 0x38, 8, 0x0F, 0x38, 8, 8, 0x38, 8, 0x10, 0, 0x0C, 0x30, 0, 7,
     0xE0, 0, 3, 0xC0, 0, 0, 0, 0],
    [0, 0, 0, 0, 0x3F, 0x80, 0, 0xFF, 0xE0, 3, 0x80, 0x70, 2, 0x0F, 0x10, 6, 0x70, 0x88, 4, 0xC0, 0x88, 4, 0x83, 8,
     4, 0x7F, 0x88, 2, 0xC0, 0x90, 3, 1, 0x20, 0, 0xFE, 0x40],
    [0, 0, 8, 0, 0, 0x18, 0, 1, 0xF8, 0, 0x3E, 8, 1, 0xC2, 0, 7, 2, 0, 7, 0xE2, 0, 0, 0xFE, 0, 0, 0x1F, 0xC8, 0, 1,
     0xF8, 0, 0, 0x38, 0, 0, 8],
    [4, 0, 8, 7, 0xFF, 0xF8, 7, 0xFF, 0xF8, 4, 8, 8, 4, 8, 8, 4, 8, 8, 4, 8, 8, 6, 0x18, 8, 3, 0xF4, 0x18, 1, 0xE7,
     0xF0, 0, 1, 0xE0, 0, 0, 0],
    [0, 0, 0, 0, 0x3F, 0x80, 1, 0xFF, 0xE0, 3, 0x80, 0x70, 2, 0, 0x18, 4, 0, 8, 4, 0, 8, 4, 0, 8, 4, 0, 0x10, 6, 0,
     0x20, 7, 0x80, 0xC0, 0, 0, 0],
    [4, 0, 8, 7, 0xFF, 0xF8, 7, 0xFF, 0xF8, 4, 0, 8, 4, 0, 8, 4, 0, 8, 4, 0, 0x18, 2, 0, 0x10, 3, 0x80, 0x70, 1,
     0xFF, 0xE0, 0, 0x7F, 0x80, 0, 0, 0],
    [4, 0, 8, 7, 0xFF, 0xF8, 7, 0xFF, 0xF8, 4, 8, 8, 4, 8, 8, 4, 8, 8, 4, 8, 8, 4, 0x3E, 8, 4, 0, 8, 6, 0, 0x18, 1,
     0, 0x60, 0, 0, 0],
    [4, 0, 8, 7, 0xFF, 0xF8, 7, 0xFF, 0xF8, 4, 8, 8, 4, 8, 0, 4, 8, 0, 4, 8, 0, 4, 0x3E, 0, 6, 0, 0, 6, 0, 0, 1,
     0x80, 0, 0, 0, 0],
    [0, 0, 0, 0, 0x3F, 0x80, 1, 0xFF, 0xE0, 3, 0x80, 0x70, 6, 0, 0x18, 4, 0, 8, 4, 2, 8, 4, 2, 8, 2, 3, 0xF0, 7,
     0x83, 0xF0, 0, 2, 0, 0, 2, 0],
    [4, 0, 8, 7, 0xFF, 0xF8, 7, 0xFF, 0xF8, 4, 8, 8, 0, 8, 0, 0, 8, 0, 0, 8, 0, 0, 8, 0, 4, 8, 8, 7, 0xFF, 0xF8, 7,
     0xFF, 0xF8, 4, 0, 8],
    [0, 0, 0, 0, 0, 0, 4, 0, 8, 4, 0, 8, 4, 0, 8, 7, 0xFF, 0xF8, 7, 0xFF, 0xF8, 4, 0, 8, 4, 0, 8, 4, 0, 8, 0, 0, 0,
     0, 0, 0],
    [0, 0, 0, 0, 0, 6, 0, 0, 7, 0, 0, 1, 4, 0, 1, 4, 0, 1, 4, 0, 3, 7, 0xFF, 0xFE, 7, 0xFF, 0xFC, 4, 0, 0, 4, 0, 0,
     4, 0, 0],
    [4, 0, 8, 7, 0xFF, 0xF8, 7, 0xFF, 0xF8, 4, 0x0C, 8, 0, 0x18, 0, 0, 0x3E, 0, 4, 0xC7, 0x80, 5, 3, 0xC8, 6, 0,
     0xF8, 4, 0, 0x38, 4, 0, 0x18, 0, 0, 8],
    [4, 0, 8, 7, 0xFF, 0xF8, 7, 0xFF, 0xF8, 4, 0, 8, 0, 0, 8, 0, 0, 8, 0, 0, 8, 0, 0, 8, 0, 0, 8, 0, 0, 0x18, 0, 0,
     0x60, 0, 0, 0],
    [4, 0, 8, 7, 0xFF, 0xF8, 7, 0x80, 8, 7, 0xFC, 0, 0, 0x7F, 0xC0, 0, 3, 0xF8, 0, 7, 0xC0, 0, 0x78, 0, 7, 0x80, 8,
     7, 0xFF, 0xF8, 7, 0xFF, 0xF8, 4, 0, 8],
    [4, 0, 8, 7, 0xFF, 0xF8, 7, 0, 8, 3, 0xC0, 0, 0, 0xE0, 0, 0, 0x38, 0, 0, 0x1E, 0, 0, 7, 0, 0, 1, 0xC0, 4, 0,
     0xF0, 7, 0xFF, 0xF8, 4, 0, 0],
    [0, 0, 0, 0, 0x7F, 0x80, 1, 0xFF, 0xE0, 3, 0x80, 0x70, 6, 0, 0x18, 4, 0, 8, 4, 0, 8, 6, 0, 0x18, 3, 0, 0x30, 1,
     0xFF, 0xE0, 0, 0x7F, 0x80, 0, 0, 0],
    [4, 0, 8, 7, 0xFF, 0xF8, 7, 0xFF, 0xF8, 4, 4, 8, 4, 4, 0, 4, 4, 0, 4, 4, 0, 4, 4, 0, 6, 0x0C, 0, 3, 0xF8, 0, 1,
     0xF0, 0, 0, 0, 0],
    [0, 0, 0, 0, 0x7F, 0x80, 1, 0xFF, 0xE0, 3, 0x80, 0x70, 6, 0, 0x88, 4, 0, 0x88, 4, 0, 0xC8, 6, 0, 0x3C, 3, 0,
     0x3E, 1, 0xFF, 0xE6, 0, 0x7F, 0x84, 0, 0, 0],
    [4, 0, 8, 7, 0xFF, 0xF8, 7, 0xFF, 0xF8, 4, 8, 8, 4, 8, 0, 4, 0x0C, 0, 4, 0x0F, 0, 4, 0x0B, 0xC0, 6, 0x10, 0xF0,
     3, 0xF0, 0x38, 1, 0xE0, 8, 0, 0, 8],
    [0, 0, 0, 1, 0xE0, 0xF8, 3, 0xF0, 0x30, 6, 0x30, 0x10, 4, 0x18, 8, 4, 0x18, 8, 4, 0x0C, 8, 4, 0x0C, 8, 2, 6,
     0x18, 2, 7, 0xF0, 7, 0x81, 0xE0, 0, 0, 0],
    [1, 0x80, 0, 6, 0, 0, 4, 0, 0, 4, 0, 0, 4, 0, 8, 7, 0xFF, 0xF8, 7, 0xFF, 0xF8, 4, 0, 8, 4, 0, 0, 4, 0, 0, 6, 0,
     0, 1, 0x80, 0],
    [4, 0, 0, 7, 0xFF, 0xE0, 7, 0xFF, 0xF0, 4, 0, 0x18, 0, 0, 8, 0, 0, 8, 0, 0, 8, 0, 0, 8, 0, 0, 8, 4, 0, 0x10, 7,
     0xFF, 0xE0, 4, 0, 0],
    [4, 0, 0, 6, 0, 0, 7, 0xE0, 0, 7, 0xFE, 0, 4, 0x1F, 0xE0, 0, 1, 0xF8, 0, 0, 0x38, 0, 1, 0xE0, 4, 0x3E, 0, 7,
     0xC0, 0, 6, 0, 0, 4, 0, 0],
    [4, 0, 0, 7, 0xE0, 0, 7, 0xFF, 0xC0, 4, 0x1F, 0xF8, 0, 7, 0xC0, 7, 0xF8, 0, 7, 0xFF, 0x80, 4, 0x3F, 0xF8, 0, 7,
     0xC0, 4, 0xF8, 0, 7, 0, 0, 4, 0, 0],
    [0, 0, 0, 4, 0, 8, 6, 0, 0x18, 7, 0xC0, 0x78, 5, 0xF1, 0xC8, 0, 0x3E, 0, 0, 0x1F, 0x80, 4, 0x63, 0xE8, 7, 0x80,
     0xF8, 6, 0, 0x18, 4, 0, 8, 0, 0, 0],
    [4, 0, 0, 6, 0, 0, 7, 0x80, 0, 7, 0xE0, 8, 4, 0x7C, 8, 0, 0x1F, 0xF8, 0, 7, 0xF8, 0, 0x18, 8, 4, 0xE0, 8, 7, 0,
     0, 6, 0, 0, 4, 0, 0],
    [0, 0, 0, 1, 0, 8, 6, 0, 0x38, 4, 0, 0xF8, 4, 3, 0xE8, 4, 0x0F, 8, 4, 0x7C, 8, 5, 0xF0, 8, 7, 0xC0, 8, 7, 0,
     0x18, 4, 0, 0x60, 0, 0, 0],
    [0, 0, 0, 0, 0, 0, 0, 0, 0, 0, 0, 0, 0, 0, 0, 0x3F, 0xFF, 0xFE, 0x20, 0, 2, 0x20, 0, 2, 0x20, 0, 2, 0x20, 0, 2,
     0x20, 0, 2, 0, 0, 0],
    [0, 0, 0, 0, 0, 0, 8, 0, 0, 7, 0, 0, 0, 0xC0, 0, 0, 0x38, 0, 0, 6, 0, 0, 1, 0xC0, 0, 0, 0x30, 0, 0, 0x0E, 0, 0,
     1, 0, 0, 0],
    [0, 0, 0, 0, 0, 0, 0x20, 0, 2, 0x20, 0, 2, 0x20, 0, 2, 0x20, 0, 2, 0x20, 0, 2, 0x3F, 0xFF, 0xFE, 0, 0, 0, 0, 0,
     0, 0, 0, 0, 0, 0, 0],
    [0, 0, 0, 0, 0, 0, 0, 0, 0, 8, 0, 0, 0x10, 0, 0, 0x30, 0, 0, 0x20, 0, 0, 0x30, 0, 0, 0x10, 0, 0, 8, 0, 0, 0, 0,
     0, 0, 0, 0],
    [0, 0, 1, 0, 0, 1, 0, 0, 1, 0, 0, 1, 0, 0, 1, 0, 0, 1, 0, 0, 1, 0, 0, 1, 0, 0, 1, 0, 0, 1, 0, 0, 1, 0, 0, 1],
    [0, 0, 0, 0, 0, 0, 0, 0, 0, 0x20, 0, 0, 0x20, 0, 0, 0x10, 0, 0, 0x10, 0, 0, 0, 0, 0, 0, 0, 0, 0, 0, 0, 0, 0, 0,
     0, 0, 0],
    [0, 0, 0, 0, 0, 0xF0, 0, 0x19, 0xF8, 0, 0x1B, 0x18, 0, 0x22, 8, 0, 0x26, 8, 0, 0x24, 8, 0, 0x24, 0x10, 0, 0x3F,
     0xF8, 0, 0x1F, 0xF8, 0, 0, 8, 0, 0, 0x18],
    [0, 0, 0, 4, 0, 0, 7, 0xFF, 0xF8, 0x0F, 0xFF, 0xF0, 0, 0x18, 0x18, 0, 0x10, 8, 0, 0x20, 8, 0, 0x20, 8, 0, 0x30,
     0x18, 0, 0x1F, 0xF0, 0, 0x0F, 0xC0, 0, 0, 0],
    [0, 0, 0, 0, 7, 0xC0, 0, 0x1F, 0xF0, 0, 0x18, 0x30, 0, 0x20, 8, 0, 0x20, 8, 0, 0x20, 8, 0, 0x3C, 8, 0, 0x1C,
     0x10, 0, 0, 0x60, 0, 0, 0, 0, 0, 0],
    [0, 0, 0, 0, 7, 0xC0, 0, 0x1F, 0xF0, 0, 0x38, 0x18, 0, 0x20, 8, 0, 0x20, 8, 0, 0x20, 8, 4, 0x10, 0x10, 7, 0xFF,
     0xF8, 0x0F, 0xFF, 0xF0, 0, 0, 0x10, 0, 0, 0],
    [0, 0, 0, 0, 0, 0, 0, 7, 0xC0, 0, 0x1F, 0xF0, 0, 0x12, 0x30, 0, 0x22, 0x18, 0, 0x22, 8, 0, 0x22, 8, 0, 0x32, 8,
     0, 0x1E, 0x10, 0, 0x0E, 0x20, 0, 0, 0],
    [0, 0, 0, 0, 0x20, 0, 0, 0x20, 8, 0, 0x20, 8, 1, 0xFF, 0xF8, 3, 0xFF, 0xF8, 6, 0x20, 8, 4, 0x20, 8, 4, 0x20, 8,
     7, 0x20, 0, 3, 0, 0, 0, 0, 0],
    [0, 0, 0, 0, 0, 0x0E, 0, 0x0E, 0x6E, 0, 0x1F, 0xF3, 0, 0x31, 0xB1, 0, 0x20, 0xB1, 0, 0x20, 0xB1, 0, 0x31, 0x91,
     0, 0x1F, 0x13, 0, 0x2E, 0x1E, 0, 0x20, 0x0E, 0, 0x30, 0],
    [0, 0, 0, 4, 0, 8, 7, 0xFF, 0xF8, 0x0F, 0xFF, 0xF8, 0, 0x10, 8, 0, 0x20, 0, 0, 0x20, 0, 0, 0x20, 8, 0, 0x3F,
     0xF8, 0, 0x1F, 0xF8, 0, 0, 8, 0, 0, 0],
    [0, 0, 0, 0, 0, 0, 0, 0x20, 8, 0, 0x20, 8, 0, 0x20, 8, 6, 0x3F, 0xF8, 6, 0x3F, 0xF8, 0, 0, 8, 0, 0, 8, 0, 0, 8,
     0, 0, 0, 0, 0, 0],
    [0, 0, 0, 0, 0, 0, 0, 0, 3, 0, 0, 3, 0, 0x20, 1, 0, 0x20, 1, 0, 0x20, 3, 6, 0x3F, 0xFE, 6, 0x3F, 0xFC, 0, 0, 0,
     0, 0, 0, 0, 0, 0],
    [0, 0, 0, 4, 0, 8, 7, 0xFF, 0xF8, 0x0F, 0xFF, 0xF8, 0, 1, 0x88, 0, 3, 0, 0, 0x2F, 0xC0, 0, 0x38, 0xF8, 0, 0x20,
     0x38, 0, 0x20, 8, 0, 0, 8, 0, 0, 0],
    [0, 0, 0, 0, 0, 0, 4, 0, 8, 4, 0, 8, 4, 0, 8, 7, 0xFF, 0xF8, 0x0F, 0xFF, 0xF8, 0, 0, 8, 0, 0, 8, 0, 0, 8, 0, 0,
     0, 0, 0, 0],
    [0, 0x20, 8, 0, 0x3F, 0xF8, 0, 0x3F, 0xF8, 0, 0x10, 8, 0, 0x20, 0, 0, 0x3F, 0xF8, 0, 0x3F, 0xF8, 0, 0x10, 8, 0,
     0x20, 0, 0, 0x3F, 0xF8, 0, 0x3F, 0xF8, 0, 0, 8],
    [0, 0, 0, 0, 0x20, 8, 0, 0x3F, 0xF8, 0, 0x3F, 0xF8, 0, 0x10, 8, 0, 0x10, 0, 0, 0x20, 0, 0, 0x20, 8, 0, 0x3F,
     0xF8, 0, 0x1F, 0xF8, 0, 0, 8, 0, 0, 0],
    [0, 0, 0, 0, 7, 0xC0, 0, 0x0F, 0xF0, 0, 0x18, 0x30, 0, 0x30, 8, 0, 0x20, 8, 0, 0x20, 8, 0, 0x30, 8, 0, 0x18,
     0x30, 0, 0x0F, 0xF0, 0, 7, 0xC0, 0, 0, 0],
    [0, 0, 0, 0, 0x20, 1, 0, 0x3F, 0xFF, 0, 0x3F, 0xFF, 0, 0x10, 0x11, 0, 0x20, 9, 0, 0x20, 8, 0, 0x20, 8, 0, 0x30,
     0x38, 0, 0x1F, 0xF0, 0, 0x0F, 0xC0, 0, 0, 0],
    [0, 0, 0, 0, 7, 0xC0, 0, 0x1F, 0xF0, 0, 0x38, 0x18, 0, 0x20, 8, 0, 0x20, 8, 0, 0x20, 9, 0, 0x10, 0x11, 0, 0x1F,
     0xFF, 0, 0x3F, 0xFF, 0, 0, 1, 0, 0, 0],
    [0, 0x20, 8, 0, 0x20, 8, 0, 0x20, 8, 0, 0x3F, 0xF8, 0, 0x3F, 0xF8, 0, 8, 8, 0, 0x10, 8, 0, 0x20, 8, 0, 0x20, 0,
     0, 0x30, 0, 0, 0x30, 0, 0, 0, 0],
    [0, 0, 0, 0, 0, 0, 0, 0x0C, 0x78, 0, 0x1E, 0x18, 0, 0x33, 8, 0, 0x23, 8, 0, 0x21, 8, 0, 0x21, 0x88, 0, 0x21,
     0x98, 0, 0x30, 0xF0, 0, 0x38, 0x60, 0, 0, 0],
    [0, 0, 0, 0, 0x20, 0, 0, 0x20, 0, 0, 0x20, 0, 0, 0xFF, 0xF0, 3, 0xFF, 0xF8, 0, 0x20, 8, 0, 0x20, 8, 0, 0x20, 8,
     0, 0, 0x30, 0, 0, 0, 0, 0, 0],
    [0, 0, 0, 0, 0x20, 0, 0, 0x3F, 0xF0, 0, 0x7F, 0xF8, 0, 0, 0x18, 0, 0, 8, 0, 0, 8, 0, 0x20, 0x10, 0, 0x3F, 0xF8,
     0, 0x7F, 0xF0, 0, 0, 0x10, 0, 0, 0],
    [0, 0, 0, 0, 0x20, 0, 0, 0x30, 0, 0, 0x3C, 0, 0, 0x3F, 0x80, 0, 0x23, 0xF0, 0, 0, 0x78, 0, 0, 0x70, 0, 0x23,
     0x80, 0, 0x3C, 0, 0, 0x30, 0, 0, 0x20, 0],
    [0, 0x20, 0, 0, 0x3C, 0, 0, 0x3F, 0xE0, 0, 0x23, 0xF8, 0, 0, 0xE0, 0, 0x27, 0, 0, 0x3E, 0, 0, 0x3F, 0xE0, 0,
     0x21, 0xF8, 0, 1, 0xE0, 0, 0x3E, 0, 0, 0x20, 0],
    [0, 0, 0, 0, 0x20, 8, 0, 0x20, 8, 0, 0x38, 0x38, 0, 0x3E, 0x68, 0, 0x27, 0x80, 0, 3, 0xC8, 0, 0x2C, 0xF8, 0,
     0x38, 0x38, 0, 0x20, 0x18, 0, 0x20, 8, 0, 0, 0],
    [0, 0, 0, 0, 0x20, 0, 0, 0x30, 3, 0, 0x3C, 1, 0, 0x3F, 0x83, 0, 0x23, 0xEC, 0, 0, 0x70, 0, 0x23, 0x80, 0, 0x3C,
     0, 0, 0x20, 0, 0, 0x20, 0, 0, 0, 0],
    [0, 0, 0, 0, 0, 0, 0, 0x38, 8, 0, 0x20, 0x38, 0, 0x20, 0xF8, 0, 0x23, 0xE8, 0, 0x2F, 0x88, 0, 0x3E, 8, 0, 0x38,
     8, 0, 0x20, 0x18, 0, 0, 0x70, 0, 0, 0],
    [0, 0, 0, 0, 0, 0, 0, 0, 0, 0, 0, 0, 0, 0, 0, 0, 8, 0, 0, 0x14, 0, 0x1F, 0xF7, 0xFC, 0x30, 0, 6, 0x20, 0, 2, 0,
     0, 0, 0, 0, 0],
    [0, 0, 0, 0, 0, 0, 0, 0, 0, 0, 0, 0, 0, 0, 0, 0, 0, 0, 0xFF, 0xFF, 0xFF, 0, 0, 0, 0, 0, 0, 0, 0, 0, 0, 0, 0, 0,
     0, 0],
    [0, 0, 0, 0, 0, 0, 0x20, 0, 2, 0x30, 0, 6, 0x1F, 0xF7, 0xFC, 0, 0x14, 0, 0, 8, 0, 0, 0, 0, 0, 0, 0, 0, 0, 0, 0,
     0, 0, 0, 0, 0],
    [0, 0, 0, 0x18, 0, 0, 0x60, 0, 0, 0x40, 0, 0, 0x40, 0, 0, 0x20, 0, 0, 0x10, 0, 0, 8, 0, 0, 4, 0, 0, 4, 0, 0,
     0x0C, 0, 0, 0x10, 0, 0]]"

definition asc2_3216 :: "u8 list list" where
  "asc2_3216 = map (\<lambda>g. g @ replicate 64 0)
    [
    [0, 0, 0, 0, 0, 0, 0, 0, 0, 0, 0, 0, 0, 0, 0, 0, 0, 0, 0, 0, 0, 0, 0, 0, 0, 0, 0, 0, 0, 0, 0, 0, 0, 0, 0, 0, 0,
     0, 0, 0, 0, 0, 0, 0, 0, 0, 0, 0, 0, 0, 0, 0, 0, 0, 0, 0, 0, 0, 0, 0, 0, 0, 0, 0],
    [0, 0, 0, 0, 0, 0, 0, 0, 0, 0, 0, 0, 0, 0, 0, 0, 0, 0, 0, 0, 0, 0, 0, 0, 7, 0xF0, 0, 0xC0, 7, 0xFF, 0xE1, 0xE0,
     7, 0xF0, 1, 0xE0, 0, 0, 0, 0xC0, 0, 0, 0, 0, 0, 0, 0, 0, 0, 0, 0, 0, 0, 0, 0, 0, 0, 0, 0, 0, 0, 0, 0, 0],
    [0, 0, 0, 0, 0, 0, 0, 0, 0, 0x20, 0, 0, 1, 0xC0, 0, 0, 7, 0x80, 0, 0, 0x1F, 0, 0, 0, 0x1E, 0, 0, 0, 0x1C, 0x20,
     0, 0, 1, 0xC0, 0, 0, 7, 0x80, 0, 0, 0x1F, 0, 0, 0, 0x1E, 0, 0, 0, 0x1C, 0, 0, 0, 0, 0, 0, 0, 0, 0, 0, 0, 0, 0,
     0, 0],
    [0, 0, 0, 0, 0, 0x18, 0x0C, 0, 0, 0x18, 0x0C, 0, 0, 0x18, 0x0F, 0xE0, 0, 0x1F, 0xFC, 0, 3, 0xF8, 0x0C, 0, 0,
     0x18, 0x0C, 0, 0, 0x18, 0x0C, 0, 0, 0x18, 0x0C, 0, 0, 0x18, 0x0C, 0, 0, 0x18, 0x0F, 0xE0, 0, 0x1F, 0xFC, 0, 3,
     0xF8, 0x0C, 0, 0, 0x18, 0x0C, 0, 0, 0x18, 0x0C, 0, 0, 0, 0, 0],
    [0, 0, 0, 0, 0, 0, 0, 0, 0, 0, 7, 0x80, 0, 0x78, 7, 0xC0, 0, 0xFC, 6, 0x40, 1, 0x0E, 0, 0x20, 3, 7, 0, 0x20, 2,
     3, 0x80, 0x20, 0x0F, 0xFF, 0xFF, 0xFC, 2, 1, 0xC0, 0x20, 2, 0, 0xE0, 0x60, 1, 0x30, 0x70, 0x40, 1, 0xF0, 0x3F,
     0x80, 0, 0xF0, 0x1F, 0, 0, 0, 0, 0, 0, 0, 0, 0],
    [0, 0xFE, 0, 0, 1, 0xFF, 0, 0, 3, 1, 0x80, 0, 2, 0, 0x80, 0x60, 3, 1, 0x81, 0xC0, 1, 0xFF, 7, 0, 0, 0xFE, 0x18,
     0, 0, 0, 0xE0, 0, 0, 3, 0xBF, 0, 0, 0x0C, 0xFF, 0xC0, 0, 0x71, 0x80, 0x60, 1, 0xC1, 0, 0x20, 3, 1, 0x80, 0x60,
     0, 0, 0xFF, 0xC0, 0, 0, 0x3F, 0, 0, 0, 0, 0],
    [0, 0, 0x1F, 0, 0, 0, 0x7F, 0xC0, 0, 0xFC, 0xC0, 0xC0, 1, 0xFF, 0x80, 0x60, 3, 3, 0xE0, 0x20, 2, 2, 0x78, 0x20,
     2, 6, 0x1E, 0x20, 3, 0xFC, 7, 0x40, 1, 0xF0, 3, 0x80, 0, 1, 3, 0xC0, 0, 1, 0x1C, 0x60, 0, 1, 0xE0, 0x20, 0, 1,
     0, 0x20, 0, 1, 0, 0x40, 0, 0, 1, 0x80, 0, 0, 0, 0],
    [0, 0, 0, 0, 0, 0x20, 0, 0, 0x1C, 0x60, 0, 0, 0x1C, 0x40, 0, 0, 0x1F, 0x80, 0, 0, 0x0F, 0, 0, 0, 0, 0, 0, 0, 0,
     0, 0, 0, 0, 0, 0, 0, 0, 0, 0, 0, 0, 0, 0, 0, 0, 0, 0, 0, 0, 0, 0, 0, 0, 0, 0, 0, 0, 0, 0, 0, 0, 0, 0, 0],
    [0, 0, 0, 0, 0, 0, 0, 0, 0, 0, 0, 0, 0, 0, 0, 0, 0, 0, 0, 0, 0, 0, 0, 0, 0, 0, 0, 0, 0, 7, 0xF8, 0, 0, 0x3F,
     0xFF, 0, 0, 0x78, 7, 0xC0, 1, 0xC0, 0, 0xE0, 3, 0, 0, 0x30, 4, 0, 0, 8, 8, 0, 0, 4, 0x10, 0, 0, 2, 0, 0, 0, 0],
    [0, 0, 0, 0, 0x10, 0, 0, 2, 8, 0, 0, 4, 4, 0, 0, 8, 3, 0, 0, 0x30, 1, 0xC0, 0, 0xE0, 0, 0x78, 7, 0xC0, 0, 0x3F,
     0xFF, 0, 0, 7, 0xF8, 0, 0, 0, 0, 0, 0, 0, 0, 0, 0, 0, 0, 0, 0, 0, 0, 0, 0, 0, 0, 0, 0, 0, 0, 0, 0, 0, 0, 0],
    [0, 0, 0, 0, 0, 0, 0, 0, 0, 0x0C, 0x18, 0, 0, 0x0E, 0x38, 0, 0, 0x0E, 0x38, 0, 0, 6, 0x30, 0, 0, 3, 0x60, 0, 0,
     0x61, 0x43, 0x80, 0, 0xFF, 0xFF, 0x80, 0, 0x61, 0x43, 0, 0, 3, 0x60, 0, 0, 6, 0x30, 0, 0, 0x0E, 0x38, 0, 0,
     0x0E, 0x38, 0, 0, 0x0C, 0x18, 0, 0, 0, 0, 0],
    [0, 0, 0, 0, 0, 0, 0, 0, 0, 0, 0x80, 0, 0, 0, 0x80, 0, 0, 0, 0x80, 0, 0, 0, 0x80, 0, 0, 0, 0x80, 0, 0, 0, 0x80,
     0, 0, 0x7F, 0xFF, 0, 0, 0, 0x80, 0, 0, 0, 0x80, 0, 0, 0, 0x80, 0, 0, 0, 0x80, 0, 0, 0, 0x80, 0, 0, 0, 0x80, 0,
     0, 0, 0, 0],
    [0, 0, 0, 0, 0, 0, 0, 1, 0, 0, 0, 0xE3, 0, 0, 0, 0xE2, 0, 0, 0, 0xFC, 0, 0, 0, 0x78, 0, 0, 0, 0, 0, 0, 0, 0, 0,
     0, 0, 0, 0, 0, 0, 0, 0, 0, 0, 0, 0, 0, 0, 0, 0, 0, 0, 0, 0, 0, 0, 0, 0, 0, 0, 0, 0, 0, 0, 0],
    [0, 0, 0, 0, 0, 0, 0x80, 0, 0, 0, 0x80, 0, 0, 0, 0x80, 0, 0, 0, 0x80, 0, 0, 0, 0x80, 0, 0, 0, 0x80, 0, 0, 0,
     0x80, 0, 0, 0, 0x80, 0, 0, 0, 0x80, 0, 0, 0, 0x80, 0, 0, 0, 0x80, 0, 0, 0, 0x80, 0, 0, 0, 0x80, 0, 0, 0, 0x80,
     0, 0, 0, 0, 0],
    [0, 0, 0, 0, 0, 0, 0, 0, 0, 0, 0, 0xC0, 0, 0, 1, 0xE0, 0, 0, 1, 0xE0, 0, 0, 0, 0xC0, 0, 0, 0, 0, 0, 0, 0, 0, 0,
     0, 0, 0, 0, 0, 0, 0, 0, 0, 0, 0, 0, 0, 0, 0, 0, 0, 0, 0, 0, 0, 0, 0, 0, 0, 0, 0, 0, 0, 0, 0],
    [0, 0, 0, 0, 0, 0, 0, 0x0C, 0, 0, 0, 0x38, 0, 0, 0, 0xE0, 0, 0, 3, 0x80, 0, 0, 0x0E, 0, 0, 0, 0x38, 0, 0, 0,
     0xE0, 0, 0, 3, 0x80, 0, 0, 0x0E, 0, 0, 0, 0x38, 0, 0, 0, 0xE0, 0, 0, 3, 0x80, 0, 0, 0x0E, 0, 0, 0, 0x18, 0, 0,
     0, 0, 0, 0, 0],
    [0, 0, 0, 0, 0, 0, 0, 0, 0, 0x0F, 0xF8, 0, 0, 0x7F, 0xFF, 0, 0, 0xF0, 7, 0x80, 1, 0x80, 0, 0xC0, 3, 0, 0, 0x60,
     2, 0, 0, 0x20, 2, 0, 0, 0x20, 2, 0, 0, 0x20, 3, 0, 0, 0x60, 1, 0x80, 0, 0xC0, 0, 0xE0, 3, 0x80, 0, 0x7F, 0xFF,
     0, 0, 0x0F, 0xF8, 0, 0, 0, 0, 0],
    [0, 0, 0, 0, 0, 0, 0, 0, 0, 0, 0, 0, 0, 0x80, 0, 0x20, 0, 0x80, 0, 0x20, 0, 0x80, 0, 0x20, 0, 0x80, 0, 0x60, 1,
     0xFF, 0xFF, 0xE0, 3, 0xFF, 0xFF, 0xE0, 0, 0, 0, 0x60, 0, 0, 0, 0x20, 0, 0, 0, 0x20, 0, 0, 0, 0x20, 0, 0, 0, 0,
     0, 0, 0, 0, 0, 0, 0, 0],
    [0, 0, 0, 0, 0, 0, 0, 0, 0, 0x78, 0, 0xE0, 0, 0x98, 1, 0x60, 1, 0, 2, 0x60, 2, 0, 4, 0x60, 2, 0, 8, 0x60, 2, 0,
     0x10, 0x60, 2, 0, 0x20, 0x60, 2, 0, 0x40, 0x60, 3, 0, 0x80, 0x60, 1, 0x83, 0, 0x60, 1, 0xFE, 0, 0xE0, 0, 0x7C,
     7, 0x80, 0, 0, 0, 0, 0, 0, 0, 0],
    [0, 0, 0, 0, 0, 0, 0, 0, 0, 0xF0, 7, 0x80, 1, 0xF0, 7, 0xC0, 1, 0, 0, 0x40, 2, 0, 0, 0x20, 2, 1, 0, 0x20, 2, 1,
     0, 0x20, 2, 1, 0, 0x20, 3, 3, 0x80, 0x20, 1, 0x86, 0x80, 0x40, 1, 0xFC, 0xC0, 0xC0, 0, 0x78, 0x7F, 0x80, 0, 0,
     0x1E, 0, 0, 0, 0, 0, 0, 0, 0, 0],
    [0, 0, 0, 0, 0, 0, 8, 0, 0, 0, 0x38, 0, 0, 0, 0x48, 0, 0, 1, 0x88, 0, 0, 6, 8, 0, 0, 0x0C, 8, 0x10, 0, 0x30, 8,
     0x10, 0, 0x40, 8, 0x10, 1, 0xFF, 0xFF, 0xF0, 3, 0xFF, 0xFF, 0xF0, 3, 0xFF, 0xFF, 0xF0, 0, 0, 8, 0x10, 0, 0, 8,
     0x10, 0, 0, 8, 0x10, 0, 0, 0, 0],
    [0, 0, 0, 0, 0, 0, 0, 0, 0, 0, 7, 0x80, 0, 0x1F, 0x86, 0x40, 3, 0xE1, 0, 0x20, 3, 2, 0, 0x20, 3, 4, 0, 0x20, 3,
     4, 0, 0x20, 3, 4, 0, 0x20, 3, 4, 0, 0x20, 3, 6, 0, 0x40, 3, 3, 1, 0xC0, 3, 1, 0xFF, 0x80, 3, 0, 0x7E, 0, 0, 0,
     0, 0, 0, 0, 0, 0],
    [0, 0, 0, 0, 0, 0, 0, 0, 0, 7, 0xFC, 0, 0, 0x3F, 0xFF, 0, 0, 0x70, 0xC3, 0x80, 0, 0x81, 0x80, 0xC0, 1, 1, 0,
     0x60, 3, 2, 0, 0x20, 2, 2, 0, 0x20, 2, 2, 0, 0x20, 2, 2, 0, 0x20, 2, 3, 0, 0x40, 1, 0xC1, 0x80, 0xC0, 0, 0xC0,
     0xFF, 0x80, 0, 0, 0x7E, 0, 0, 0, 0, 0],
    [0, 0, 0, 0, 0, 0, 0, 0, 0, 0xF0, 0, 0, 3, 0xC0, 0, 0, 3, 0x80, 0, 0, 3, 0, 0, 0, 3, 0, 7, 0xE0, 3, 0, 0x3F,
     0xE0, 3, 1, 0xC0, 0, 3, 6, 0, 0, 3, 0x18, 0, 0, 3, 0x60, 0, 0, 3, 0x80, 0, 0, 3, 0, 0, 0, 0, 0, 0, 0, 0, 0, 0, 0],
    [0, 0, 0, 0, 0, 0, 0x1F, 0, 0, 0x78, 0x3F, 0x80, 0, 0xFC, 0x60, 0xC0, 1, 0x8E, 0xC0, 0x40, 3, 7, 0x80, 0x20, 2,
     3, 0, 0x20, 2, 1, 0x80, 0x20, 2, 1, 0x80, 0x20, 2, 1, 0xC0, 0x20, 3, 1, 0xE0, 0x40, 1, 0x86, 0x70, 0xC0, 0,
     0xFC, 0x3F, 0x80, 0, 0x78, 0x1F, 0, 0, 0, 0, 0, 0, 0, 0, 0],
    [0, 0, 0, 0, 0, 0x3F, 0, 0, 0, 0xFF, 0x81, 0xC0, 1, 0xC0, 0xC1, 0xC0, 1, 0, 0x60, 0x20, 2, 0, 0x20, 0x20, 2, 0,
     0x20, 0x20, 2, 0, 0x20, 0x20, 2, 0, 0x20, 0x60, 2, 0, 0x40, 0xC0, 1, 0, 0xC1, 0x80, 0, 0xC1, 0x8F, 0, 0, 0x7F,
     0xFE, 0, 0, 0x1F, 0xF0, 0, 0, 0, 0, 0, 0, 0, 0, 0],
    [0, 0, 0, 0, 0, 0, 0, 0, 0, 0, 0, 0, 0, 0, 0, 0, 0, 0, 0, 0, 0, 0, 0, 0, 0, 3, 0, 0xC0, 0, 7, 0x81, 0xE0, 0, 7,
     0x81, 0xE0, 0, 3, 0, 0xC0, 0, 0, 0, 0, 0, 0, 0, 0, 0, 0, 0, 0, 0, 0, 0, 0, 0, 0, 0, 0, 0, 0, 0, 0],
    [0, 0, 0, 0, 0, 0, 0, 0, 0, 0, 0, 0, 0, 0, 0, 0, 0, 0, 0, 0, 0, 0, 0, 0, 0, 6, 0, 0x66, 0, 6, 0, 0x78, 0, 0, 0,
     0, 0, 0, 0, 0, 0, 0, 0, 0, 0, 0, 0, 0, 0, 0, 0, 0, 0, 0, 0, 0, 0, 0, 0, 0, 0, 0, 0, 0],
    [0, 0, 0, 0, 0, 0, 0, 0, 0, 0, 0x80, 0, 0, 1, 0xC0, 0, 0, 3, 0x60, 0, 0, 6, 0x30, 0, 0, 0x0C, 0x18, 0, 0, 0x18,
     0x0C, 0, 0, 0x30, 6, 0, 0, 0x60, 3, 0, 0, 0xC0, 1, 0x80, 1, 0, 0, 0x40, 2, 0, 0, 0x20, 4, 0, 0, 0x10, 0, 0, 0,
     0, 0, 0, 0, 0],
    [0, 0, 0, 0, 0, 4, 0x10, 0, 0, 4, 0x10, 0, 0, 4, 0x10, 0, 0, 4, 0x10, 0, 0, 4, 0x10, 0, 0, 4, 0x10, 0, 0, 4,
     0x10, 0, 0, 4, 0x10, 0, 0, 4, 0x10, 0, 0, 4, 0x10, 0, 0, 4, 0x10, 0, 0, 4, 0x10, 0, 0, 4, 0x10, 0, 0, 4, 0x10,
     0, 0, 0, 0, 0],
    [0, 0, 0, 0, 0, 0, 0, 0, 4, 0, 0, 0x10, 2, 0, 0, 0x20, 1, 0, 0, 0x40, 0, 0xC0, 1, 0x80, 0, 0x60, 3, 0, 0, 0x30,
     6, 0, 0, 0x18, 0x0C, 0, 0, 0x0C, 0x18, 0, 0, 6, 0x30, 0, 0, 3, 0x60, 0, 0, 1, 0xC0, 0, 0, 0, 0x80, 0, 0, 0, 0,
     0, 0, 0, 0, 0],
    [0, 0, 0, 0, 0, 0, 0, 0, 0, 0x78, 0, 0, 1, 0xF8, 0, 0, 2, 0x38, 0, 0, 2, 0, 0, 0, 4, 0, 0, 0xC0, 4, 0, 0x79,
     0xE0, 4, 0, 0x81, 0xE0, 4, 1, 0, 0xC0, 4, 3, 0, 0, 2, 2, 0, 0, 3, 6, 0, 0, 1, 0xFC, 0, 0, 0, 0xF8, 0, 0, 0, 0,
     0, 0],
    [0, 0, 0, 0, 0, 0x0F, 0xF8, 0, 0, 0x3F, 0xFE, 0, 0, 0x70, 7, 0x80, 0, 0xC0, 0, 0xC0, 1, 1, 0xF8, 0x40, 3, 7,
     0xFC, 0x20, 2, 0x1E, 4, 0x20, 2, 0x30, 8, 0x20, 2, 0x20, 0x30, 0x20, 2, 0x3F, 0xFC, 0x20, 1, 0x3F, 4, 0x40, 1,
     0x80, 0x0C, 0xC0, 0, 0xE0, 0x31, 0x80, 0, 0x1F, 0xC2, 0, 0, 0, 0, 0],
    [0, 0, 0, 0x20, 0, 0, 0, 0x60, 0, 0, 3, 0xE0, 0, 0, 0x3E, 0x20, 0, 3, 0xE0, 0x20, 0, 0x3E, 0x20, 0, 3, 0xE0,
     0x20, 0, 3, 0x80, 0x20, 0, 7, 0xFC, 0x20, 0, 0, 0x3F, 0xE0, 0, 0, 3, 0xFE, 0x20, 0, 0, 0x3F, 0xE0, 0, 0, 1,
     0xE0, 0, 0, 0, 0x20, 0, 0, 0, 0x20, 0, 0, 0, 0],
    [0, 0, 0, 0, 2, 0, 0, 0x20, 2, 0, 0, 0x20, 3, 0xFF, 0xFF, 0xE0, 3, 0xFF, 0xFF, 0xE0, 2, 1, 0, 0x20, 2, 1, 0,
     0x20, 2, 1, 0, 0x20, 2, 1, 0, 0x20, 2, 1, 0, 0x20, 3, 3, 0, 0x20, 1, 0x86, 0x80, 0x60, 1, 0xFC, 0xC0, 0xC0, 0,
     0xF8, 0x7F, 0x80, 0, 0, 0x1F, 0, 0, 0, 0, 0],
    [0, 0, 0, 0, 0, 7, 0xF8, 0, 0, 0x3F, 0xFF, 0, 0, 0x70, 7, 0x80, 0, 0xC0, 0, 0xC0, 1, 0, 0, 0x40, 3, 0, 0, 0x20,
     2, 0, 0, 0x20, 2, 0, 0, 0x20, 2, 0, 0, 0x20, 2, 0, 0, 0x20, 1, 0, 0, 0x40, 1, 0x80, 0, 0xC0, 3, 0xC0, 1, 0x80,
     0, 0x30, 6, 0, 0, 0, 0, 0],
    [0, 0, 0, 0, 2, 0, 0, 0x20, 2, 0, 0, 0x20, 3, 0xFF, 0xFF, 0xE0, 3, 0xFF, 0xFF, 0xE0, 2, 0, 0, 0x20, 2, 0, 0,
     0x20, 2, 0, 0, 0x20, 2, 0, 0, 0x20, 3, 0, 0, 0x60, 1, 0, 0, 0x40, 1, 0x80, 0, 0xC0, 0, 0xF0, 7, 0x80, 0, 0x7F,
     0xFE, 0, 0, 0x0F, 0xF8, 0, 0, 0, 0, 0],
    [0, 0, 0, 0, 2, 0, 0, 0x20, 2, 0, 0, 0x20, 3, 0xFF, 0xFF, 0xE0, 3, 0xFF, 0xFF, 0xE0, 2, 1, 0, 0x20, 2, 1, 0,
     0x20, 2, 1, 0, 0x20, 2, 1, 0, 0x20, 2, 1, 0, 0x20, 2, 3, 0x80, 0x20, 2, 0x0F, 0xE0, 0x20, 3, 0, 0, 0x60, 3,
     0xC0, 0, 0xE0, 0, 0x60, 3, 0, 0, 0, 0, 0],
    [0, 0, 0, 0, 2, 0, 0, 0x20, 2, 0, 0, 0x20, 3, 0xFF, 0xFF, 0xE0, 3, 0xFF, 0xFF, 0xE0, 2, 1, 0, 0x20, 2, 1, 0,
     0x20, 2, 1, 0, 0, 2, 1, 0, 0, 2, 1, 0, 0, 2, 1, 0, 0, 2, 3, 0x80, 0, 3, 0x0F, 0xE0, 0, 3, 0, 0, 0, 3, 0xC0, 0,
     0, 0, 0x60, 0, 0],
    [0, 0, 0, 0, 0, 7, 0xF8, 0, 0, 0x3F, 0xFE, 0, 0, 0x70, 7, 0x80, 1, 0xC0, 1, 0xC0, 1, 0, 0, 0x40, 3, 0, 0, 0x20,
     2, 0, 0, 0x20, 2, 0, 0, 0x20, 2, 0, 0, 0x20, 1, 0, 0x20, 0x20, 1, 0, 0x20, 0x40, 3, 0xC0, 0x3F, 0x80, 0, 0x30,
     0x3F, 0x80, 0, 0, 0x20, 0, 0, 0, 0x20, 0],
    [2, 0, 0, 0x20, 2, 0, 0, 0x20, 3, 0xFF, 0xFF, 0xE0, 3, 0xFF, 0xFF, 0xE0, 2, 0, 0x80, 0x20, 2, 0, 0x80, 0x20, 0,
     0, 0x80, 0, 0, 0, 0x80, 0, 0, 0, 0x80, 0, 2, 0, 0x80, 0x20, 2, 0, 0x80, 0x20, 3, 0xFF, 0xFF, 0xE0, 3, 0xFF,
     0xFF, 0xE0, 2, 0, 0, 0x20, 2, 0, 0, 0x20, 0, 0, 0, 0],
    [0, 0, 0, 0, 0, 0, 0, 0, 0, 0, 0, 0, 2, 0, 0, 0x20, 2, 0, 0, 0x20, 2, 0, 0, 0x20, 2, 0, 0, 0x20, 3, 0xFF, 0xFF,
     0xE0, 3, 0xFF, 0xFF, 0xE0, 2, 0, 0, 0x20, 2, 0, 0, 0x20, 2, 0, 0, 0x20, 2, 0, 0, 0x20, 0, 0, 0, 0, 0, 0, 0, 0,
     0, 0, 0, 0],
    [0, 0, 0, 0, 0, 0, 0, 0x0E, 0, 0, 0, 0x0F, 0, 0, 0, 0x0F, 0, 0, 0, 1, 2, 0, 0, 1, 2, 0, 0, 1, 2, 0, 0, 3, 2, 0,
     0, 6, 3, 0xFF, 0xFF, 0xFC, 3, 0xFF, 0xFF, 0xF8, 2, 0, 0, 0, 2, 0, 0, 0, 2, 0, 0, 0, 2, 0, 0, 0, 0, 0, 0, 0],
    [0, 0, 0, 0, 2, 0, 0, 0x20, 2, 0, 0, 0x20, 3, 0xFF, 0xFF, 0xE0, 3, 0xFF, 0xFF, 0xE0, 2, 0, 0xC0, 0x20, 2, 1, 0,
     0x20, 0, 7, 0x80, 0, 0, 0x0F, 0xE0, 0, 0, 0x30, 0xF8, 0, 2, 0x60, 0x3E, 0x20, 3, 0x80, 0x0F, 0x20, 3, 0, 3,
     0xE0, 2, 0, 0, 0xE0, 2, 0, 0, 0x20, 0, 0, 0, 0x20],
    [0, 0, 0, 0, 2, 0, 0, 0x20, 2, 0, 0, 0x20, 3, 0xFF, 0xFF, 0xE0, 3, 0xFF, 0xFF, 0xE0, 2, 0, 0, 0x20, 2, 0, 0,
     0x20, 0, 0, 0, 0x20, 0, 0, 0, 0x20, 0, 0, 0, 0x20, 0, 0, 0, 0x20, 0, 0, 0, 0x20, 0, 0, 0, 0x60, 0, 0, 0, 0xE0,
     0, 0, 3, 0, 0, 0, 0, 0],
    [2, 0, 0, 0x20, 2, 0, 0, 0x20, 3, 0xFF, 0xFF, 0xE0, 3, 0xE0, 0, 0x20, 3, 0xFF, 0, 0x20, 0, 0x1F, 0xF0, 0, 0, 1,
     0xFF, 0x80, 0, 0, 0x0F, 0xE0, 0, 0, 0x1E, 0, 0, 3, 0xE0, 0, 0, 0x3E, 0, 0x20, 3, 0xE0, 0, 0x20, 3, 0xFF, 0xFF,
     0xE0, 3, 0xFF, 0xFF, 0xE0, 2, 0, 0, 0x20, 2, 0, 0, 0x20],
    [2, 0, 0, 0x20, 2, 0, 0, 0x20, 3, 0xFF, 0xFF, 0xE0, 3, 0x80, 0, 0x20, 3, 0xF0, 0, 0x20, 0, 0xFC, 0, 0, 0, 0x1F,
     0, 0, 0, 7, 0xC0, 0, 0, 1, 0xF0, 0, 0, 0, 0x7C, 0, 2, 0, 0x1F, 0x80, 2, 0, 7, 0xE0, 3, 0xFF, 0xFF, 0xE0, 2, 0,
     0, 0, 2, 0, 0, 0, 0, 0, 0, 0],
    [0, 0, 0, 0, 0, 0x0F, 0xF8, 0, 0, 0x3F, 0xFE, 0, 0, 0xF0, 7, 0x80, 1, 0x80, 0, 0xC0, 1, 0, 0, 0x40, 2, 0, 0,
     0x20, 2, 0, 0, 0x20, 2, 0, 0, 0x20, 2, 0, 0, 0x20, 1, 0, 0, 0x40, 1, 0x80, 0, 0xC0, 0, 0xF0, 3, 0x80, 0, 0x3F,
     0xFE, 0, 0, 0x0F, 0xF8, 0, 0, 0, 0, 0],
    [0, 0, 0, 0, 2, 0, 0, 0x20, 2, 0, 0, 0x20, 3, 0xFF, 0xFF, 0xE0, 3, 0xFF, 0xFF, 0xE0, 2, 0, 0x80, 0x20, 2, 0,
     0x80, 0x20, 2, 0, 0x80, 0, 2, 0, 0x80, 0, 2, 0, 0x80, 0, 2, 0, 0x80, 0, 3, 1, 0x80, 0, 1, 0x83, 0, 0, 0, 0xFE,
     0, 0, 0, 0x7C, 0, 0, 0, 0, 0, 0],
    [0, 0, 0, 0, 0, 0x0F, 0xF8, 0, 0, 0x7F, 0xFF, 0, 0, 0xF0, 3, 0x80, 1, 0x80, 1, 0xC0, 1, 0, 6, 0x40, 2, 0, 4,
     0x20, 2, 0, 4, 0x20, 2, 0, 6, 0x20, 2, 0, 3, 0xE0, 1, 0, 0, 0xF8, 1, 0x80, 0, 0x5C, 0, 0xE0, 3, 0x8C, 0, 0x3F,
     0xFF, 0x0C, 0, 0x0F, 0xFC, 0x18, 0, 0, 0, 0],
    [0, 0, 0, 0, 2, 0, 0, 0x20, 2, 0, 0, 0x20, 3, 0xFF, 0xFF, 0xE0, 3, 0xFF, 0xFF, 0xE0, 2, 1, 0, 0x20, 2, 1, 0,
     0x20, 2, 1, 0x80, 0, 2, 1, 0xE0, 0, 2, 1, 0xFC, 0, 3, 3, 0x3F, 0x80, 1, 0x86, 7, 0xE0, 1, 0xFC, 0, 0xE0, 0,
     0xF8, 0, 0x20, 0, 0, 0, 0x20, 0, 0, 0, 0],
    [0, 0, 0, 0, 0, 0, 0, 0, 0, 0x78, 6, 0, 0, 0xFE, 1, 0xE0, 1, 0x86, 0, 0xC0, 3, 3, 0, 0x40, 2, 3, 0, 0x20, 2, 1,
     0x80, 0x20, 2, 1, 0x80, 0x20, 2, 1, 0xC0, 0x20, 2, 0, 0xC0, 0x20, 1, 0, 0xE0, 0x60, 1, 0x80, 0x70, 0xC0, 3,
     0xE0, 0x3F, 0x80, 0, 0, 0x1F, 0, 0, 0, 0, 0],
    [0, 0, 0, 0, 0, 0x60, 0, 0, 3, 0x80, 0, 0, 3, 0, 0, 0, 2, 0, 0, 0, 2, 0, 0, 0x20, 2, 0, 0, 0x20, 3, 0xFF, 0xFF,
     0xE0, 3, 0xFF, 0xFF, 0xE0, 2, 0, 0, 0x20, 2, 0, 0, 0x20, 2, 0, 0, 0, 2, 0, 0, 0, 3, 0x80, 0, 0, 0, 0xE0, 0, 0,
     0, 0, 0, 0],
    [2, 0, 0, 0, 2, 0, 0, 0, 3, 0xFF, 0xFF, 0, 3, 0xFF, 0xFF, 0xC0, 2, 0, 0, 0x40, 2, 0, 0, 0x60, 0, 0, 0, 0x20, 0,
     0, 0, 0x20, 0, 0, 0, 0x20, 0, 0, 0, 0x20, 2, 0, 0, 0x40, 2, 0, 0, 0x80, 3, 0xFF, 0xFF, 0, 2, 0, 0, 0, 2, 0, 0,
     0, 0, 0, 0, 0],
    [0, 0, 0, 0, 2, 0, 0, 0, 2, 0, 0, 0, 3, 0xC0, 0, 0, 3, 0xFC, 0, 0, 2, 0x3F, 0xC0, 0, 0, 3, 0xF8, 0, 0, 0, 0x7F,
     0x80, 0, 0, 7, 0xE0, 0, 0, 7, 0x80, 0, 0, 0x78, 0, 2, 3, 0xC0, 0, 2, 0x3C, 0, 0, 3, 0xC0, 0, 0, 2, 0, 0, 0, 2,
     0, 0, 0],
    [2, 0, 0, 0, 3, 0xC0, 0, 0, 3, 0xFF, 0x80, 0, 2, 0x3F, 0xFE, 0, 2, 0, 0x7F, 0xE0, 0, 0, 0x0F, 0, 2, 0, 0xF0, 0,
     3, 0xEF, 0, 0, 3, 0xFF, 0x80, 0, 2, 0x0F, 0xFE, 0, 0, 0, 0x3F, 0xE0, 0, 0, 0x1F, 0, 2, 7, 0xE0, 0, 3, 0xF8, 0,
     0, 3, 0, 0, 0, 2, 0, 0, 0],
    [0, 0, 0, 0, 2, 0, 0, 0x20, 2, 0, 0, 0x20, 3, 0x80, 0, 0xE0, 3, 0xF0, 3, 0x20, 2, 0xFC, 0x0C, 0x20, 2, 0x1F,
     0x30, 0, 0, 7, 0xC0, 0, 0, 7, 0xF0, 0, 2, 0x18, 0x7C, 0, 2, 0x60, 0x1F, 0x20, 3, 0x80, 3, 0xE0, 2, 0, 0, 0xE0,
     2, 0, 0, 0x20, 0, 0, 0, 0x20, 0, 0, 0, 0],
    [0, 0, 0, 0, 2, 0, 0, 0, 3, 0, 0, 0, 3, 0xC0, 0, 0, 3, 0xF8, 0, 0, 2, 0x3E, 0, 0x20, 2, 0x0F, 0xC0, 0x20, 0, 1,
     0xFF, 0xE0, 0, 0, 0x7F, 0xE0, 0, 3, 0x80, 0x20, 2, 0x1C, 0, 0x20, 2, 0x70, 0, 0, 3, 0x80, 0, 0, 2, 0, 0, 0, 2,
     0, 0, 0, 0, 0, 0, 0],
    [0, 0, 0, 0, 0, 0, 0, 0x20, 0, 0x60, 0, 0xE0, 3, 0x80, 3, 0xE0, 3, 0, 0x0F, 0xA0, 2, 0, 0x3E, 0x20, 2, 0, 0xF8,
     0x20, 2, 3, 0xE0, 0x20, 2, 0x0F, 0x80, 0x20, 2, 0x3E, 0, 0x20, 2, 0x78, 0, 0x20, 3, 0xE0, 0, 0x60, 3, 0x80, 0,
     0xE0, 2, 0, 3, 0, 0, 0, 0, 0, 0, 0, 0, 0],
    [0, 0, 0, 0, 0, 0, 0, 0, 0, 0, 0, 0, 0, 0, 0, 0, 0, 0, 0, 0, 0, 0, 0, 0, 0x1F, 0xFF, 0xFF, 0xFC, 0x10, 0, 0, 4,
     0x10, 0, 0, 4, 0x10, 0, 0, 4, 0x10, 0, 0, 4, 0x10, 0, 0, 4, 0x10, 0, 0, 4, 0x10, 0, 0, 4, 0, 0, 0, 0, 0, 0, 0, 0],
    [0, 0, 0, 0, 0, 0, 0, 0, 0, 0, 0, 0, 7, 0, 0, 0, 3, 0xC0, 0, 0, 0, 0x78, 0, 0, 0, 0x1E, 0, 0, 0, 3, 0xC0, 0, 0,
     0, 0xF0, 0, 0, 0, 0x1E, 0, 0, 0, 7, 0x80, 0, 0, 0, 0xF0, 0, 0, 0, 0x3C, 0, 0, 0, 6, 0, 0, 0, 0, 0, 0, 0, 0],
    [0, 0, 0, 0, 0, 0, 0, 0, 0x10, 0, 0, 4, 0x10, 0, 0, 4, 0x10, 0, 0, 4, 0x10, 0, 0, 4, 0x10, 0, 0, 4, 0x10, 0, 0,
     4, 0x10, 0, 0, 4, 0x1F, 0xFF, 0xFF, 0xFC, 0, 0, 0, 0, 0, 0, 0, 0, 0, 0, 0, 0, 0, 0, 0, 0, 0, 0, 0, 0, 0, 0, 0, 0],
    [0, 0, 0, 0, 0, 0, 0, 0, 0, 0, 0, 0, 0, 0, 0, 0, 2, 0, 0, 0, 4, 0, 0, 0, 8, 0, 0, 0, 0x18, 0, 0, 0, 0x10, 0, 0,
     0, 0x18, 0, 0, 0, 0x18, 0, 0, 0, 4, 0, 0, 0, 2, 0, 0, 0, 0, 0, 0, 0, 0, 0, 0, 0, 0, 0, 0, 0],
    [0, 0, 0, 1, 0, 0, 0, 1, 0, 0, 0, 1, 0, 0, 0, 1, 0, 0, 0, 1, 0, 0, 0, 1, 0, 0, 0, 1, 0, 0, 0, 1, 0, 0, 0, 1, 0,
     0, 0, 1, 0, 0, 0, 1, 0, 0, 0, 1, 0, 0, 0, 1, 0, 0, 0, 1, 0, 0, 0, 1, 0, 0, 0, 1],
    [0, 0, 0, 0, 0, 0, 0, 0, 0, 0, 0, 0, 0x10, 0, 0, 0, 0x10, 0, 0, 0, 0x10, 0, 0, 0, 0x18, 0, 0, 0, 8, 0, 0, 0, 4,
     0, 0, 0, 0, 0, 0, 0, 0, 0, 0, 0, 0, 0, 0, 0, 0, 0, 0, 0, 0, 0, 0, 0, 0, 0, 0, 0, 0, 0, 0, 0],
    [0, 0, 0, 0, 0, 0, 3, 0x80, 0, 1, 0x8F, 0xC0, 0, 3, 0x8C, 0x60, 0, 6, 0x18, 0x20, 0, 4, 0x10, 0x20, 0, 4, 0x10,
     0x20, 0, 4, 0x20, 0x20, 0, 4, 0x20, 0x40, 0, 6, 0x20, 0x40, 0, 3, 0xFF, 0xC0, 0, 1, 0xFF, 0xE0, 0, 0, 0, 0x20,
     0, 0, 0, 0x20, 0, 0, 0, 0xC0, 0, 0, 0, 0],
    [0, 0, 0, 0, 2, 0, 0, 0, 2, 0, 0, 0, 3, 0xFF, 0xFF, 0xE0, 7, 0xFF, 0xFF, 0xC0, 0, 1, 0x80, 0xC0, 0, 2, 0, 0x60,
     0, 2, 0, 0x20, 0, 4, 0, 0x20, 0, 4, 0, 0x20, 0, 4, 0, 0x20, 0, 6, 0, 0x40, 0, 3, 0, 0xC0, 0, 1, 0xFF, 0x80, 0,
     0, 0xFE, 0, 0, 0, 0, 0],
    [0, 0, 0, 0, 0, 0, 0, 0, 0, 0, 0x7E, 0, 0, 1, 0xFF, 0x80, 0, 3, 0x81, 0xC0, 0, 2, 0, 0x40, 0, 6, 0, 0x20, 0, 4,
     0, 0x20, 0, 4, 0, 0x20, 0, 4, 0, 0x20, 0, 6, 0, 0x20, 0, 3, 0xC0, 0x40, 0, 1, 0xC0, 0x80, 0, 0, 3, 0, 0, 0, 0,
     0, 0, 0, 0, 0],
    [0, 0, 0, 0, 0, 0, 0, 0, 0, 0, 0x7E, 0, 0, 1, 0xFF, 0x80, 0, 3, 0x80, 0xC0, 0, 6, 0, 0x60, 0, 4, 0, 0x20, 0, 4,
     0, 0x20, 0, 4, 0, 0x20, 2, 4, 0, 0x40, 2, 2, 0, 0x80, 3, 0xFF, 0xFF, 0xE0, 7, 0xFF, 0xFF, 0xC0, 0, 0, 0, 0x40,
     0, 0, 0, 0x40, 0, 0, 0, 0],
    [0, 0, 0, 0, 0, 0, 0, 0, 0, 0, 0x7E, 0, 0, 1, 0xFF, 0x80, 0, 3, 0x11, 0xC0, 0, 2, 0x10, 0x40, 0, 4, 0x10, 0x60,
     0, 4, 0x10, 0x20, 0, 4, 0x10, 0x20, 0, 4, 0x10, 0x20, 0, 6, 0x10, 0x20, 0, 3, 0x10, 0x40, 0, 1, 0xF0, 0xC0, 0,
     0, 0x71, 0, 0, 0, 0, 0, 0, 0, 0, 0],
    [0, 0, 0, 0, 0, 0, 0, 0, 0, 4, 0, 0, 0, 4, 0, 0x20, 0, 4, 0, 0x20, 0, 4, 0, 0x20, 0, 0x7F, 0xFF, 0xE0, 1, 0xFF,
     0xFF, 0xE0, 1, 4, 0, 0x20, 3, 4, 0, 0x20, 2, 4, 0, 0x20, 2, 4, 0, 0x20, 2, 4, 0, 0, 2, 0, 0, 0, 1, 0xC0, 0, 0,
     1, 0xC0, 0, 0],
    [0, 0, 0, 0, 0, 0, 0, 0, 0, 0, 0, 0x1C, 0, 0, 0xE3, 0x3E, 0, 3, 0xFF, 0xC2, 0, 2, 0x0C, 0xC3, 0, 4, 4, 0xC1, 0,
     4, 4, 0xC1, 0, 4, 4, 0xC1, 0, 4, 4, 0xC1, 0, 6, 0x0C, 0xC1, 0, 3, 0xF8, 0xC3, 0, 5, 0xF0, 0x62, 0, 6, 0, 0x7E,
     0, 6, 0, 0x3C, 0, 0, 0, 0],
    [0, 0, 0, 0, 2, 0, 0, 0x20, 2, 0, 0, 0x20, 3, 0xFF, 0xFF, 0xE0, 7, 0xFF, 0xFF, 0xE0, 0, 1, 0, 0x20, 0, 2, 0,
     0x20, 0, 6, 0, 0, 0, 4, 0, 0, 0, 4, 0, 0, 0, 4, 0, 0x20, 0, 6, 0, 0x20, 0, 3, 0xFF, 0xE0, 0, 1, 0xFF, 0xE0, 0,
     0, 0, 0x20, 0, 0, 0, 0x20],
    [0, 0, 0, 0, 0, 0, 0, 0, 0, 0, 0, 0, 0, 4, 0, 0x20, 0, 4, 0, 0x20, 0, 4, 0, 0x20, 0, 4, 0, 0x20, 3, 0x87, 0xFF,
     0xE0, 3, 0x8F, 0xFF, 0xE0, 3, 0x80, 0, 0x20, 0, 0, 0, 0x20, 0, 0, 0, 0x20, 0, 0, 0, 0x20, 0, 0, 0, 0, 0, 0, 0,
     0, 0, 0, 0, 0],
    [0, 0, 0, 0, 0, 0, 0, 0, 0, 0, 0, 0, 0, 0, 0, 6, 0, 0, 0, 7, 0, 0, 0, 1, 0, 0, 0, 1, 0, 4, 0, 1, 0, 4, 0, 1, 0,
     4, 0, 3, 0, 4, 0, 6, 3, 0x87, 0xFF, 0xFC, 3, 0x8F, 0xFF, 0xF8, 3, 0x80, 0, 0, 0, 0, 0, 0, 0, 0, 0, 0],
    [0, 0, 0, 0, 2, 0, 0, 0x20, 2, 0, 0, 0x20, 3, 0xFF, 0xFF, 0xE0, 7, 0xFF, 0xFF, 0xE0, 0, 0, 8, 0x20, 0, 0, 0x10,
     0x20, 0, 0, 0x30, 0, 0, 0, 0xFC, 0, 0, 5, 0x8E, 0, 0, 7, 7, 0xA0, 0, 6, 1, 0xE0, 0, 4, 0, 0xE0, 0, 4, 0, 0x20,
     0, 0, 0, 0x20, 0, 0, 0, 0],
    [0, 0, 0, 0, 0, 0, 0, 0, 0, 0, 0, 0, 2, 0, 0, 0x20, 2, 0, 0, 0x20, 2, 0, 0, 0x20, 2, 0, 0, 0x20, 3, 0xFF, 0xFF,
     0xE0, 7, 0xFF, 0xFF, 0xE0, 0, 0, 0, 0x20, 0, 0, 0, 0x20, 0, 0, 0, 0x20, 0, 0, 0, 0x20, 0, 0, 0, 0, 0, 0, 0, 0,
     0, 0, 0, 0],
    [0, 0, 0, 0, 0, 4, 0, 0x20, 0, 7, 0xFF, 0xE0, 0, 0x0F, 0xFF, 0xE0, 0, 2, 0, 0x20, 0, 4, 0, 0, 0, 4, 0, 0x20, 0,
     7, 0xFF, 0xE0, 0, 3, 0xFF, 0xE0, 0, 2, 0, 0x20, 0, 4, 0, 0, 0, 4, 0, 0x20, 0, 7, 0xFF, 0xE0, 0, 3, 0xFF, 0xE0,
     0, 0, 0, 0x20, 0, 0, 0, 0],
    [0, 0, 0, 0, 0, 4, 0, 0x20, 0, 4, 0, 0x20, 0, 7, 0xFF, 0xE0, 0, 0x0F, 0xFF, 0xE0, 0, 1, 0, 0x20, 0, 2, 0, 0x20,
     0, 2, 0, 0, 0, 4, 0, 0, 0, 4, 0, 0, 0, 4, 0, 0x20, 0, 6, 0, 0x20, 0, 3, 0xFF, 0xE0, 0, 1, 0xFF, 0xE0, 0, 0, 0,
     0x20, 0, 0, 0, 0x20],
    [0, 0, 0, 0, 0, 0, 0, 0, 0, 0, 0x7E, 0, 0, 0, 0xFF, 0x80, 0, 3, 0x81, 0xC0, 0, 2, 0, 0x40, 0, 6, 0, 0x20, 0, 4,
     0, 0x20, 0, 4, 0, 0x20, 0, 4, 0, 0x20, 0, 6, 0, 0x20, 0, 2, 0, 0x40, 0, 3, 0x81, 0xC0, 0, 1, 0xFF, 0x80, 0, 0,
     0x7E, 0, 0, 0, 0, 0],
    [0, 0, 0, 0, 0, 4, 0, 1, 0, 4, 0, 1, 0, 7, 0xFF, 0xFF, 0, 0x0F, 0xFF, 0xFF, 0, 1, 0, 0xC1, 0, 2, 0, 0x41, 0, 4,
     0, 0x20, 0, 4, 0, 0x20, 0, 4, 0, 0x20, 0, 4, 0, 0x20, 0, 6, 0, 0x40, 0, 3, 1, 0xC0, 0, 1, 0xFF, 0x80, 0, 0,
     0x7E, 0, 0, 0, 0, 0],
    [0, 0, 0, 0, 0, 0, 0, 0, 0, 0, 0x7E, 0, 0, 1, 0xFF, 0x80, 0, 3, 0x80, 0xC0, 0, 2, 0, 0x60, 0, 4, 0, 0x20, 0, 4,
     0, 0x20, 0, 4, 0, 0x20, 0, 4, 0, 0x20, 0, 2, 0, 0x41, 0, 3, 0, 0xC1, 0, 3, 0xFF, 0xFF, 0, 7, 0xFF, 0xFF, 0, 0,
     0, 1, 0, 0, 0, 1],
    [0, 0, 0, 0, 0, 4, 0, 0x20, 0, 4, 0, 0x20, 0, 4, 0, 0x20, 0, 4, 0, 0x20, 0, 0x0F, 0xFF, 0xE0, 0, 0x0F, 0xFF,
     0xE0, 0, 0, 0xC0, 0x20, 0, 1, 0, 0x20, 0, 2, 0, 0x20, 0, 6, 0, 0x20, 0, 4, 0, 0, 0, 4, 0, 0, 0, 7, 0, 0, 0, 3,
     0, 0, 0, 0, 0, 0],
    [0, 0, 0, 0, 0, 0, 0, 0, 0, 0, 3, 0xE0, 0, 1, 0xC0, 0xE0, 0, 3, 0xE0, 0x40, 0, 6, 0x30, 0x20, 0, 4, 0x30, 0x20,
     0, 4, 0x18, 0x20, 0, 4, 0x18, 0x20, 0, 4, 0x18, 0x20, 0, 4, 0x0C, 0x20, 0, 2, 0x0C, 0x60, 0, 3, 7, 0xC0, 0, 7,
     0x83, 0x80, 0, 0, 0, 0, 0, 0, 0, 0],
    [0, 0, 0, 0, 0, 0, 0, 0, 0, 4, 0, 0, 0, 4, 0, 0, 0, 4, 0, 0, 0, 0x0C, 0, 0, 0, 0x1F, 0xFF, 0x80, 0, 0xFF, 0xFF,
     0xC0, 0, 4, 0, 0x60, 0, 4, 0, 0x20, 0, 4, 0, 0x20, 0, 4, 0, 0x20, 0, 4, 0, 0x40, 0, 0, 1, 0x80, 0, 0, 0, 0, 0,
     0, 0, 0],
    [0, 0, 0, 0, 0, 4, 0, 0, 0, 4, 0, 0, 0, 7, 0xFF, 0x80, 0, 0x0F, 0xFF, 0xC0, 0, 0, 0, 0x60, 0, 0, 0, 0x20, 0, 0,
     0, 0x20, 0, 0, 0, 0x20, 0, 0, 0, 0x20, 0, 4, 0, 0x40, 0, 4, 0, 0x80, 0, 7, 0xFF, 0xE0, 0, 0x0F, 0xFF, 0xC0, 0,
     0, 0, 0x40, 0, 0, 0, 0x40],
    [0, 0, 0, 0, 0, 4, 0, 0, 0, 4, 0, 0, 0, 7, 0x80, 0, 0, 7, 0xF0, 0, 0, 4, 0xFE, 0, 0, 4, 0x1F, 0xC0, 0, 0, 3,
     0xE0, 0, 0, 3, 0x80, 0, 0, 0x1C, 0, 0, 4, 0x60, 0, 0, 7, 0x80, 0, 0, 6, 0, 0, 0, 4, 0, 0, 0, 0, 0, 0, 0, 0, 0, 0],
    [0, 4, 0, 0, 0, 6, 0, 0, 0, 7, 0xC0, 0, 0, 7, 0xFC, 0, 0, 4, 0x3F, 0x80, 0, 0, 3, 0xE0, 0, 4, 0x0F, 0x80, 0, 6,
     0xF0, 0, 0, 7, 0xF0, 0, 0, 7, 0xFF, 0x80, 0, 4, 0x0F, 0xE0, 0, 0, 3, 0x80, 0, 4, 0x3C, 0, 0, 7, 0xC0, 0, 0, 6,
     0, 0, 0, 4, 0, 0],
    [0, 0, 0, 0, 0, 0, 0, 0x20, 0, 4, 0, 0x20, 0, 4, 0, 0x60, 0, 7, 0, 0xE0, 0, 7, 0x83, 0x20, 0, 7, 0xE6, 0, 0, 4,
     0xF8, 0, 0, 0, 0x3C, 0, 0, 4, 0x5E, 0x20, 0, 5, 0x87, 0xA0, 0, 6, 1, 0xE0, 0, 4, 0, 0x60, 0, 4, 0, 0x20, 0, 0,
     0, 0x20, 0, 0, 0, 0],
    [0, 0, 0, 0, 0, 4, 0, 0, 0, 4, 0, 3, 0, 7, 0, 3, 0, 7, 0xE0, 1, 0, 4, 0xF8, 1, 0, 4, 0x1F, 2, 0, 0, 7, 0xFC, 0,
     0, 0, 0xE0, 0, 0, 7, 0, 0, 4, 0x38, 0, 0, 7, 0xC0, 0, 0, 6, 0, 0, 0, 4, 0, 0, 0, 4, 0, 0, 0, 0, 0, 0],
    [0, 0, 0, 0, 0, 0, 0, 0, 0, 7, 0x80, 0x60, 0, 6, 0, 0xE0, 0, 4, 3, 0xE0, 0, 4, 7, 0xA0, 0, 4, 0x0E, 0x20, 0, 4,
     0x3C, 0x20, 0, 4, 0x70, 0x20, 0, 5, 0xE0, 0x20, 0, 7, 0x80, 0x20, 0, 7, 0, 0x60, 0, 4, 0, 0xE0, 0, 0, 3, 0x80,
     0, 0, 0, 0, 0, 0, 0, 0],
    [0, 0, 0, 0, 0, 0, 0, 0, 0, 0, 0, 0, 0, 0, 0, 0, 0, 0, 0, 0, 0, 0, 0, 0, 0, 0, 0, 0, 0, 0, 0x80, 0, 0, 0, 0x80,
     0, 0, 1, 0x40, 0, 7, 0xFE, 0x3F, 0xF8, 8, 0, 0, 4, 0x10, 0, 0, 2, 0x10, 0, 0, 2, 0, 0, 0, 0, 0, 0, 0, 0],
    [0, 0, 0, 0, 0, 0, 0, 0, 0, 0, 0, 0, 0, 0, 0, 0, 0, 0, 0, 0, 0, 0, 0, 0, 0, 0, 0, 0, 0, 0, 0, 0, 0xFF, 0xFF,
     0xFF, 0xFF, 0, 0, 0, 0, 0, 0, 0, 0, 0, 0, 0, 0, 0, 0, 0, 0, 0, 0, 0, 0, 0, 0, 0, 0, 0, 0, 0, 0],
    [0, 0, 0, 0, 0, 0, 0, 0, 0x10, 0, 0, 2, 0x10, 0, 0, 2, 8, 0, 0, 4, 7, 0xFE, 0x3F, 0xF8, 0, 1, 0x40, 0, 0, 0,
     0x80, 0, 0, 0, 0x80, 0, 0, 0, 0, 0, 0, 0, 0, 0, 0, 0, 0, 0, 0, 0, 0, 0, 0, 0, 0, 0, 0, 0, 0, 0, 0, 0, 0, 0],
    [0, 0, 0, 0, 0x18, 0, 0, 0, 0x30, 0, 0, 0, 0x40, 0, 0, 0, 0x40, 0, 0, 0, 0x40, 0, 0, 0, 0x20, 0, 0, 0, 0x30, 0,
     0, 0, 8, 0, 0, 0, 4, 0, 0, 0, 2, 0, 0, 0, 2, 0, 0, 0, 2, 0, 0, 0, 0x0C, 0, 0, 0, 0x18, 0, 0, 0, 0, 0, 0, 0]]"

lemma font_sizes:
  "length asc2_1206 = 95" "length asc2_1608 = 95" "length asc2_2412 = 95" "length asc2_3216 = 95"
  by (simp_all add: asc2_1206_def asc2_1608_def asc2_2412_def asc2_3216_def)

lemma glyph_sizes:
  "list_all (\<lambda>g. length g = 12) asc2_1206" "list_all (\<lambda>g. length g = 16) asc2_1608"
  "list_all (\<lambda>g. length g = 36) asc2_2412" "list_all (\<lambda>g. length g = 128) asc2_3216"
  by (simp_all add: asc2_1206_def asc2_1608_def asc2_2412_def asc2_3216_def)

end
