(* ===== verification/Lcd_Text.thy ===== *)
theory Lcd_Text
  imports Lcd_Draw Lcd_Font
begin

text \<open>
  Characters, numbers and strings of \<open>lcd.c\<close>: what a character leaves on the display, the digits of
  a number, the cells of a string.
\<close>

section \<open>The routines\<close>

definition glyph_bytes :: "u8 \<Rightarrow> u8" where
  "glyph_bytes sz = (sz div 8 + (if sz mod 8 \<noteq> 0 then 1 else 0)) * (sz div 2)"

text \<open>The row of the table; \<open>chr\<close> is unsigned on the target, as are the differences to the blank.\<close>

definition ascii_glyph :: "u8 \<Rightarrow> u8 \<Rightarrow> u8 list option" where
  "ascii_glyph sz chr =
     (if sz = 12 then arr_get asc2_1206 (unat chr)
      else if sz = 16 then arr_get asc2_1608 (unat chr)
      else if sz = 24 then arr_get asc2_2412 (unat chr)
      else arr_get asc2_3216 (unat chr))"

definition char_dot :: "'s lcd_port \<Rightarrow> u8 \<Rightarrow> u16 \<Rightarrow> u8 \<Rightarrow> u16 \<Rightarrow> u16 \<Rightarrow> 's screen \<Rightarrow> 's screen option" where
  "char_dot h mode color temp x y s =
     (if temp AND 0x80 \<noteq> 0 then lcd_draw_point h x y (ucast color) s
      else if mode = 0 then lcd_draw_point h x y (g_back_color s) s
      else Some s)"

text \<open>The bits of a byte, from the highest. \<open>None\<close> as the position stands for a \<open>return\<close>.\<close>

fun char_bits :: "'s lcd_port \<Rightarrow> u8 \<Rightarrow> u16 \<Rightarrow> u8 \<Rightarrow> u16 \<Rightarrow> nat \<Rightarrow> u8 \<Rightarrow> u16 \<Rightarrow> u16 \<Rightarrow> 's screen
    \<Rightarrow> ((u16 \<times> u16) option \<times> 's screen) option" where
  "char_bits h mode color sz y0 0 temp x y s = Some (Some (x, y), s)"
| "char_bits h mode color sz y0 (Suc n) temp x y s = do {
     s1 \<leftarrow> char_dot h mode color temp x y s;
     if y + 1 \<ge> lcd_height (lcddev s1) then Some (None, s1)
     else if uint (y + 1) - uint y0 = uint sz then
       (if x + 1 \<ge> lcd_width (lcddev s1) then Some (None, s1) else Some (Some (x + 1, y0), s1))
     else char_bits h mode color sz y0 n (push_bit 1 temp) x (y + 1) s1
   }"

fun char_bytes :: "'s lcd_port \<Rightarrow> u8 \<Rightarrow> u16 \<Rightarrow> u8 \<Rightarrow> u16 \<Rightarrow> u8 list \<Rightarrow> nat \<Rightarrow> nat \<Rightarrow> u16 \<Rightarrow> u16 \<Rightarrow> 's screen \<Rightarrow> 's screen option" where
  "char_bytes h mode color sz y0 pfont 0 t x y s = Some s"
| "char_bytes h mode color sz y0 pfont (Suc n) t x y s = do {
     temp \<leftarrow> arr_get pfont t;
     (r, s1) \<leftarrow> char_bits h mode color sz y0 8 temp x y s;
     (case r of None \<Rightarrow> Some s1 | Some (x1, y1) \<Rightarrow> char_bytes h mode color sz y0 pfont n (t + 1) x1 y1 s1)
   }"

definition lcd_show_char :: "'s lcd_port \<Rightarrow> u16 \<Rightarrow> u16 \<Rightarrow> u8 \<Rightarrow> u8 \<Rightarrow> u8 \<Rightarrow> u16 \<Rightarrow> 's screen \<Rightarrow> 's screen option" where
  "lcd_show_char h x y chr sz mode color s =
     (if sz \<noteq> 12 \<and> sz \<noteq> 16 \<and> sz \<noteq> 24 \<and> sz \<noteq> 32 then Some s
      else do {
        pfont \<leftarrow> ascii_glyph sz (chr - 32);
        char_bytes h mode color sz y pfont (unat (glyph_bytes sz)) 0 x y s
      })"

fun lcd_pow :: "u8 \<Rightarrow> nat \<Rightarrow> u32" where
  "lcd_pow m 0 = 1"
| "lcd_pow m (Suc n) = lcd_pow m n * ucast m"

definition digit_at :: "u32 \<Rightarrow> u8 \<Rightarrow> u8 \<Rightarrow> u8 option" where
  "digit_at num len t =
     (let p = lcd_pow 10 (unat (len - t - 1)) in if p = 0 then None else Some (ucast (num div p mod 10)))"

text \<open>The rounds of the numbers: \<open>n\<close> digits are left, \<open>enshow\<close> tells that one was not zero.\<close>

fun num_loop :: "'s lcd_port \<Rightarrow> u16 \<Rightarrow> u16 \<Rightarrow> u32 \<Rightarrow> u8 \<Rightarrow> u8 \<Rightarrow> u16 \<Rightarrow> nat \<Rightarrow> u8 \<Rightarrow> u8 \<Rightarrow> 's screen \<Rightarrow> 's screen option" where
  "num_loop h x y num len sz color 0 t enshow s = Some s"
| "num_loop h x y num len sz color (Suc n) t enshow s = do {
     temp \<leftarrow> digit_at num len t;
     let x1 = x + ucast (sz div 2) * ucast t;
     if enshow = 0 \<and> uint t < uint len - 1 \<and> temp = 0 then do {
       s1 \<leftarrow> lcd_show_char h x1 y 32 sz 0 color s;
       num_loop h x y num len sz color n (t + 1) enshow s1
     }
     else do {
       s1 \<leftarrow> lcd_show_char h x1 y (temp + 48) sz 0 color s;
       num_loop h x y num len sz color n (t + 1) (if enshow = 0 \<and> uint t < uint len - 1 then 1 else enshow) s1
     }
   }"

definition lcd_show_num :: "'s lcd_port \<Rightarrow> u16 \<Rightarrow> u16 \<Rightarrow> u32 \<Rightarrow> u8 \<Rightarrow> u8 \<Rightarrow> u16 \<Rightarrow> 's screen \<Rightarrow> 's screen option" where
  "lcd_show_num h x y num len sz color s = num_loop h x y num len sz color (unat len) 0 0 s"

fun xnum_loop :: "'s lcd_port \<Rightarrow> u16 \<Rightarrow> u16 \<Rightarrow> u32 \<Rightarrow> u8 \<Rightarrow> u8 \<Rightarrow> u8 \<Rightarrow> u16 \<Rightarrow> nat \<Rightarrow> u8 \<Rightarrow> u8 \<Rightarrow> 's screen \<Rightarrow> 's screen option" where
  "xnum_loop h x y num len sz mode color 0 t enshow s = Some s"
| "xnum_loop h x y num len sz mode color (Suc n) t enshow s = do {
     temp \<leftarrow> digit_at num len t;
     let x1 = x + ucast (sz div 2) * ucast t;
     if enshow = 0 \<and> uint t < uint len - 1 \<and> temp = 0 then do {
       s1 \<leftarrow>
         (if mode AND 0x80 \<noteq> 0 then lcd_show_char h x1 y 48 sz (mode AND 1) color s
          else lcd_show_char h x1 y 32 sz (mode AND 1) color s);
       xnum_loop h x y num len sz mode color n (t + 1) enshow s1
     }
     else do {
       s1 \<leftarrow> lcd_show_char h x1 y (temp + 48) sz (mode AND 1) color s;
       xnum_loop h x y num len sz mode color n (t + 1) (if enshow = 0 \<and> uint t < uint len - 1 then 1 else enshow) s1
     }
   }"

definition lcd_show_xnum ::
  "'s lcd_port \<Rightarrow> u16 \<Rightarrow> u16 \<Rightarrow> u32 \<Rightarrow> u8 \<Rightarrow> u8 \<Rightarrow> u8 \<Rightarrow> u16 \<Rightarrow> 's screen \<Rightarrow> 's screen option" where
  "lcd_show_xnum h x y num len sz mode color s = xnum_loop h x y num len sz mode color (unat len) 0 0 s"

text \<open>The string is the part of memory from \<open>p\<close> on: to read past it is an error.\<close>

fun string_loop :: "'s lcd_port \<Rightarrow> u16 \<Rightarrow> u16 \<Rightarrow> u8 \<Rightarrow> u8 \<Rightarrow> u16 \<Rightarrow> u16 \<Rightarrow> u16 \<Rightarrow> u8 list \<Rightarrow> 's screen \<Rightarrow> 's screen option" where
  "string_loop h width height sz x0 color x y [] s = None"
| "string_loop h width height sz x0 color x y (c # p) s =
     (if c \<le> 126 \<and> c \<ge> 32 then
        let (x1, y1) = (if x \<ge> width then (ucast x0, y + ucast sz) else (x, y))
        in if y1 \<ge> height then Some s
           else do {
             s1 \<leftarrow> lcd_show_char h x1 y1 c sz 0 color s;
             string_loop h width height sz x0 color (x1 + ucast (sz div 2)) y1 p s1
           }
      else Some s)"

definition lcd_show_string ::
  "'s lcd_port \<Rightarrow> u16 \<Rightarrow> u16 \<Rightarrow> u16 \<Rightarrow> u16 \<Rightarrow> u8 \<Rightarrow> u8 list \<Rightarrow> u16 \<Rightarrow> 's screen \<Rightarrow> 's screen option" where
  "lcd_show_string h x y width height sz p color s =
     string_loop h (width + x) (height + y) sz (ucast x) color x y p s"

section \<open>What a character leaves on the display\<close>

text \<open>Whether a glyph of \<open>n\<close> rows has a dot in column \<open>a\<close> and row \<open>b\<close>: each column starts a byte.\<close>

definition glyph_on :: "u8 list \<Rightarrow> nat \<Rightarrow> nat \<Rightarrow> nat \<Rightarrow> bool" where
  "glyph_on g n a b = bit (g ! (a * ((n + 7) div 8) + b div 8)) (7 - b mod 8)"

definition ink :: "bool \<Rightarrow> bool \<Rightarrow> u16 \<Rightarrow> u16 \<Rightarrow> u16 \<Rightarrow> u16" where
  "ink dot over c back old = (if dot then c else if over then old else back)"

text \<open>
  The picture after the columns before \<open>q\<close> and the rows before \<open>j\<close> of column \<open>q\<close> were drawn, when
  \<open>l\<close> rows of the glyph are drawn at all. Where the glyph has no dot, the background is drawn unless
  the mode is to overlay.
\<close>

definition printed :: "u8 list \<Rightarrow> nat \<Rightarrow> bool \<Rightarrow> u16 \<Rightarrow> u16 \<Rightarrow> nat \<Rightarrow> nat \<Rightarrow> nat \<Rightarrow> nat \<Rightarrow> nat \<Rightarrow> image \<Rightarrow> image" where
  "printed g n over c back x y l q j im = (\<lambda>(a, b).
     if x \<le> a \<and> y \<le> b \<and> b < y + l \<and> (a < x + q \<or> a = x + q \<and> b < y + j)
     then ink (glyph_on g n (a - x) (b - y)) over c back (im (a, b))
     else im (a, b))"

lemma same_frame:
  assumes "lcd_frame v t = lcd_frame v s"
  shows "lcddev t = lcddev s" "g_back_color t = g_back_color s"
  using assms by (auto simp: lcd_frame_def ltdc_frame_def mcu_frame_def split: if_splits)

lemma char_dot_ok:
  assumes "lcd_law h v" "lcd_ok v s" "unat x < unat (lcd_width (lcddev s))" "unat y < unat (lcd_height (lcddev s))"
  shows "\<exists>t. char_dot h mode c temp x y s = Some t \<and> lcd_ok v t \<and> lcd_frame v t = lcd_frame v s \<and>
    lcd_look v t = (lcd_look v s)((unat x, unat y) :=
      ink (bit temp 7) (mode \<noteq> 0) c (ucast (g_back_color s)) (lcd_look v s (unat x, unat y)))"
proof -
  have d: "\<exists>t. lcd_draw_point h x y e s = Some t \<and> lcd_ok v t \<and> lcd_frame v t = lcd_frame v s \<and>
    lcd_look v t = (lcd_look v s)((unat x, unat y) := ucast e)" for e
    using lcd.draw [of h v s x y e] assms by (auto simp: lcd_frame_size simp del: fun_upd_apply)
  note and_0x80 [of temp]
  then show ?thesis
    using d [of "ucast c"] d [of "g_back_color s"] assms(2)
    by (simp add: char_dot_def ink_def ucast_up_ucast_id is_up_def del: fun_upd_apply)
qed

text \<open>A byte of a column: it holds the rows from \<open>j\<close> on.\<close>

lemma char_bits_ok:
  assumes law: "lcd_law h v" and x: "unat x < unat (lcd_width (lcddev s0))" and y0: "unat y0 < unat (lcd_height (lcddev s0))"
    and l: "l = min (unat sz) (unat (lcd_height (lcddev s0)) - unat y0)"
  shows "lcd_ok v s \<Longrightarrow> lcd_frame v s = lcd_frame v s0 \<Longrightarrow> unat y = unat y0 + j \<Longrightarrow> j < l \<Longrightarrow>
    (\<And>i. i < m \<Longrightarrow> bit temp (7 - i) = f (j + i)) \<Longrightarrow> m \<le> 8 \<Longrightarrow>
    \<exists>t. char_bits h mode c sz y0 m temp x y s =
        Some (if j + m < l then Some (x, y0 + of_nat (j + m))
              else if unat y0 + l = unat (lcd_height (lcddev s0)) \<or> unat x + 1 \<ge> unat (lcd_width (lcddev s0)) then None
              else Some (x + 1, y0), t) \<and>
      lcd_ok v t \<and> lcd_frame v t = lcd_frame v s0 \<and>
      lcd_look v t = (\<lambda>(a, b). if a = unat x \<and> unat y0 + j \<le> b \<and> b < unat y0 + min (j + m) l
        then ink (f (b - unat y0)) (mode \<noteq> 0) c (ucast (g_back_color s0)) (lcd_look v s (a, b))
        else lcd_look v s (a, b))"
proof (induction m arbitrary: j temp y s)
  case 0
  then have "y = y0 + of_nat j" using word_of_unat [OF 0(3)] by simp
  moreover have "\<not> (unat y0 + j \<le> b \<and> b < unat y0 + min (j + 0) l)" for b by linarith
  ultimately show ?case using 0(1,2,4) by (simp only: char_bits.simps if_False simp_thms) simp
next
  case (Suc m)
  note dev = same_frame [OF Suc.prems(2)]
  have H: "unat y0 + j < unat (lcd_height (lcddev s0))" using Suc.prems(4) y0 unfolding l by linarith
  have "unat y < unat (lcd_height (lcddev s))" using H Suc.prems(3) dev by simp
  from char_dot_ok [OF law Suc.prems(1) _ this, of x mode c temp] x dev obtain s1 where
    s1: "char_dot h mode c temp x y s = Some s1" "lcd_ok v s1" "lcd_frame v s1 = lcd_frame v s"
      "lcd_look v s1 = (lcd_look v s)((unat x, unat y) :=
        ink (bit temp 7) (mode \<noteq> 0) c (ucast (g_back_color s0)) (lcd_look v s (unat x, unat y)))"
    by (auto simp del: fun_upd_apply)
  have dev1: "lcddev s1 = lcddev s0" using same_frame(1) [OF s1(3)] dev by simp
  have b7: "bit temp 7 = f j" using Suc.prems(5) [of 0] by simp
  have y1: "unat (y + 1) = unat y0 + j + 1"
    using H Suc.prems(3) unat_u16_less [of "lcd_height (lcddev s0)"] by (simp add: unat_add_lem [THEN iffD1])
  have bot: "y + 1 \<ge> lcd_height (lcddev s1) \<longleftrightarrow> unat y0 + j + 1 = unat (lcd_height (lcddev s0))"
    using H y1 dev1 by (auto simp: word_le_nat_alt)
  have col: "uint (y + 1) - uint y0 = uint sz \<longleftrightarrow> j + 1 = unat sz"
    unfolding uint_nat y1 by linarith
  have xb: "x + 1 \<ge> lcd_width (lcddev s1) \<longleftrightarrow> unat x + 1 \<ge> unat (lcd_width (lcddev s0))"
    using x dev1 unat_u16_less [of "lcd_width (lcddev s0)"] by (simp add: word_le_nat_alt unat_add_lem [THEN iffD1])
  show ?case
  proof (cases "j + 1 < l")
    case True
    then have nb: "\<not> y + 1 \<ge> lcd_height (lcddev s1)" "uint (y + 1) - uint y0 \<noteq> uint sz" unfolding bot col using l by linarith+
    have bits: "bit (push_bit 1 temp) (7 - i) = f (j + 1 + i)" if "i < m" for i
      using Suc.prems(5) [of "Suc i"] that Suc.prems(6) unfolding bit_push_bit_iff by simp linarith
    have pre: "lcd_frame v s1 = lcd_frame v s0" "unat (y + 1) = unat y0 + (j + 1)" "m \<le> 8" using s1(3) Suc.prems y1 by simp_all
    obtain t where t: "char_bits h mode c sz y0 m (push_bit 1 temp) x (y + 1) s1 =
        Some (if j + 1 + m < l then Some (x, y0 + of_nat (j + 1 + m))
              else if unat y0 + l = unat (lcd_height (lcddev s0)) \<or> unat x + 1 \<ge> unat (lcd_width (lcddev s0)) then None
              else Some (x + 1, y0), t)" "lcd_ok v t" "lcd_frame v t = lcd_frame v s0"
      "lcd_look v t = (\<lambda>(a, b). if a = unat x \<and> unat y0 + (j + 1) \<le> b \<and> b < unat y0 + min (j + 1 + m) l
        then ink (f (b - unat y0)) (mode \<noteq> 0) c (ucast (g_back_color s0)) (lcd_look v s1 (a, b))
        else lcd_look v s1 (a, b))"
      using Suc.IH [OF s1(2) pre(1,2) True bits pre(3)] by blast
    have "lcd_look v t = (\<lambda>(a, b). if a = unat x \<and> unat y0 + j \<le> b \<and> b < unat y0 + min (j + Suc m) l
        then ink (f (b - unat y0)) (mode \<noteq> 0) c (ucast (g_back_color s0)) (lcd_look v s (a, b))
        else lcd_look v s (a, b))"
      (is "?lhs = ?rhs")
    proof
      fix p :: "nat \<times> nat"
      obtain a b where p: "p = (a, b)" by (cases p)
      show "?lhs p = ?rhs p"
        unfolding t(4) s1(4) b7 Suc.prems(3) p using True by (cases "b = unat y0 + j") auto
    qed
    then show ?thesis using s1(1) nb t by simp
  next
    case False
    then have jl: "j + 1 = l" using Suc.prems(4) by simp
    have look: "lcd_look v s1 = (\<lambda>(a, b). if a = unat x \<and> unat y0 + j \<le> b \<and> b < unat y0 + min (j + Suc m) l
        then ink (f (b - unat y0)) (mode \<noteq> 0) c (ucast (g_back_color s0)) (lcd_look v s (a, b))
        else lcd_look v s (a, b))"
      unfolding s1(4) b7 Suc.prems(3) using jl by (auto simp: fun_eq_iff)
    have "(y + 1 \<ge> lcd_height (lcddev s1)) = (unat y0 + l = unat (lcd_height (lcddev s0)))" unfolding bot jl [symmetric] by simp
    moreover have "uint (y + 1) - uint y0 = uint sz" if "unat y0 + l \<noteq> unat (lcd_height (lcddev s0))"
      unfolding col using that l jl y0 by (simp add: min_def split: if_splits)
    ultimately have "char_bits h mode c sz y0 (Suc m) temp x y s =
        Some (if j + Suc m < l then Some (x, y0 + of_nat (j + Suc m))
              else if unat y0 + l = unat (lcd_height (lcddev s0)) \<or> unat x + 1 \<ge> unat (lcd_width (lcddev s0)) then None
              else Some (x + 1, y0), s1)"
      using s1(1) xb jl by simp
    then show ?thesis using s1(2,3) look Suc.prems(2) by simp
  qed
qed

lemma printed_start: "printed g n over c back x y l 0 0 im = im"
  by (auto simp: printed_def fun_eq_iff)

lemma printed_column: "l \<le> j \<Longrightarrow> printed g n over c back x y l q j im = printed g n over c back x y l (Suc q) 0 im"
  unfolding printed_def fun_eq_iff by (auto intro!: if_cong)

lemma printed_rows:
  assumes "j \<le> j'"
  shows "(\<lambda>(a, b). if a = x + q \<and> y + j \<le> b \<and> b < y + min j' l
      then ink (glyph_on g n q (b - y)) over c back (printed g n over c back x y l q j im (a, b))
      else printed g n over c back x y l q j im (a, b)) = printed g n over c back x y l q j' im" (is "?lhs = ?rhs")
proof
  fix p :: "nat \<times> nat"
  obtain a b where p: "p = (a, b)" by (cases p)
  have min: "b < y + min j' l \<longleftrightarrow> b < y + j' \<and> b < y + l" by linarith
  show "?lhs p = ?rhs p"
    unfolding p printed_def prod.case min using assms
    by (cases "a = x + q"; cases "b < y + j"; cases "b < y + j'"; cases "b < y + l"; simp)
qed

text \<open>The position in the glyph moves on by a byte.\<close>

lemma next_byte:
  fixes j n :: nat
  assumes "j mod 8 = 0" "j < n" "n \<le> j + 8"
  shows "j div 8 + 1 = (n + 7) div 8"
proof -
  obtain k where k: "j = 8 * k" using assms(1) by (auto simp: mod_eq_0_iff_dvd)
  have "(n + 7) div 8 = Suc k" by (rule div_nat_eqI) (use assms k in auto)
  then show ?thesis using k by simp
qed

lemma char_bytes_ok:
  assumes law: "lcd_law h v" and x0: "unat x0 < unat (lcd_width (lcddev s0))" and y0: "unat y0 < unat (lcd_height (lcddev s0))"
    and n: "n = unat sz" "2 \<le> n" and l: "l = min n (unat (lcd_height (lcddev s0)) - unat y0)"
    and cols: "cols = (if unat y0 + n < unat (lcd_height (lcddev s0)) then min (n div 2) (unat (lcd_width (lcddev s0)) - unat x0) else 1)"
    and g: "n div 2 * ((n + 7) div 8) \<le> length g"
  shows "lcd_ok v s \<Longrightarrow> lcd_frame v s = lcd_frame v s0 \<Longrightarrow>
    lcd_look v s = printed g n (mode \<noteq> 0) c (ucast (g_back_color s0)) (unat x0) (unat y0) l q j im \<Longrightarrow>
    t + m = n div 2 * ((n + 7) div 8) \<Longrightarrow> t = q * ((n + 7) div 8) + j div 8 \<Longrightarrow> j mod 8 = 0 \<Longrightarrow>
    q < cols \<and> j < l \<or> q = cols \<and> j = 0 \<and> cols = n div 2 \<Longrightarrow>
    unat x = unat x0 + q \<Longrightarrow> unat y = unat y0 + j \<Longrightarrow>
    \<exists>r. char_bytes h mode c sz y0 g m t x y s = Some r \<and> lcd_ok v r \<and> lcd_frame v r = lcd_frame v s0 \<and>
      lcd_look v r = printed g n (mode \<noteq> 0) c (ucast (g_back_color s0)) (unat x0) (unat y0) l cols 0 im"
proof (induction m arbitrary: t q j x y s)
  case 0
  have "\<not> (q < cols \<and> j < l)"
  proof
    assume a: "q < cols \<and> j < l"
    then have "Suc q \<le> n div 2" and "j < n" using cols n l by (auto split: if_splits)
    have "Suc q * ((n + 7) div 8) \<le> n div 2 * ((n + 7) div 8)" using \<open>Suc q \<le> n div 2\<close> by (rule mult_le_mono1)
    moreover have "j div 8 < (n + 7) div 8" using \<open>j < n\<close> by arith
    ultimately show False using 0(4,5) by simp
  qed
  then show ?case using 0 by auto
next
  case (Suc m)
  let ?W = "unat (lcd_width (lcddev s0))" and ?H = "unat (lcd_height (lcddev s0))" and ?B = "(n + 7) div 8"
  let ?pic = "\<lambda>q j. printed g n (mode \<noteq> 0) c (ucast (g_back_color s0)) (unat x0) (unat y0) l q j im"
  have qj: "q < cols" "j < l" using Suc.prems(4,5,7) by auto
  have x: "unat x < ?W" and jn: "j < n" using qj cols l Suc.prems(8) x0 by (auto split: if_splits)
  have tl: "t < length g" using Suc.prems(4) g by simp
  have bits: "bit (g ! t) (7 - i) = glyph_on g n q (j + i)" if "i < 8" for i
  proof -
    obtain k where "j = 8 * k" using Suc.prems(6) by (auto simp: mod_eq_0_iff_dvd)
    then have "(j + i) div 8 = j div 8" "(j + i) mod 8 = i" using that by simp_all
    then show ?thesis by (simp add: glyph_on_def Suc.prems(5))
  qed
  have l': "l = min (unat sz) (?H - unat y0)" using l n by simp
  obtain s1 where s1: "char_bits h mode c sz y0 8 (g ! t) x y s =
        Some (if j + 8 < l then Some (x, y0 + of_nat (j + 8)) else if unat y0 + l = ?H \<or> unat x + 1 \<ge> ?W then None
              else Some (x + 1, y0), s1)" "lcd_ok v s1" "lcd_frame v s1 = lcd_frame v s0"
      "lcd_look v s1 = (\<lambda>(a, b). if a = unat x \<and> unat y0 + j \<le> b \<and> b < unat y0 + min (j + 8) l
        then ink (glyph_on g n q (b - unat y0)) (mode \<noteq> 0) c (ucast (g_back_color s0)) (lcd_look v s (a, b))
        else lcd_look v s (a, b))"
    using char_bits_ok [OF law x y0 l' Suc.prems(1,2,9) qj(2) bits order_refl, where mode = mode and c = c] by blast
  have look: "lcd_look v s1 = ?pic q (j + 8)"
    unfolding s1(4) Suc.prems(3) Suc.prems(8) by (rule printed_rows) simp
  show ?case
  proof (cases "j + 8 < l")
    case True
    have le: "unat y0 + (j + 8) < 65536" using True l unat_u16_less [of "lcd_height (lcddev s0)"] by linarith
    then have "unat (of_nat (j + 8) :: u16) = j + 8" by (intro unat_of_nat_small) simp
    then have "unat (y0 + of_nat (j + 8)) = unat y0 + (j + 8)"
      using le unat_add_lem [of y0 "of_nat (j + 8)"] by (simp del: of_nat_add)
    then have "\<exists>r. char_bytes h mode c sz y0 g m (t + 1) x (y0 + of_nat (j + 8)) s1 = Some r \<and> lcd_ok v r \<and>
        lcd_frame v r = lcd_frame v s0 \<and> lcd_look v r = ?pic cols 0"
      using True qj Suc.prems s1 look by (intro Suc.IH [of _ q "j + 8"]) simp_all
    then show ?thesis using s1(1) True tl by (simp add: arr_get_Some)
  next
    case False
    then have look: "lcd_look v s1 = ?pic (Suc q) 0" using look printed_column by (metis not_less)
    show ?thesis
    proof (cases "unat y0 + l = ?H \<or> unat x + 1 \<ge> ?W")
      case True
      have "Suc q = cols"
      proof (cases "unat y0 + n < ?H")
        case True
        then have "unat x + 1 \<ge> ?W" using \<open>unat y0 + l = ?H \<or> unat x + 1 \<ge> ?W\<close> l by auto
        then show ?thesis using True cols qj(1) Suc.prems(8) by (simp add: min_def split: if_splits)
      qed (use cols qj(1) in simp)
      then show ?thesis using s1 True \<open>\<not> j + 8 < l\<close> tl look by (simp add: arr_get_Some)
    next
      case nb: False
      then have ln: "l = n" "unat y0 + n < ?H" using l y0 by (auto simp: min_def split: if_splits)
      have B: "j div 8 + 1 = ?B" by (rule next_byte [OF Suc.prems(6) jn]) (use False ln in simp)
      have "unat (x + 1) = unat x0 + Suc q"
        using nb Suc.prems(8) unat_u16_less [of "lcd_width (lcddev s0)"] by (simp add: unat_add_lem [THEN iffD1])
      moreover have "Suc q < cols \<or> Suc q = cols \<and> cols = n div 2"
        using qj(1) cols ln nb Suc.prems(8) by (auto simp: min_def split: if_splits)
      ultimately have "\<exists>r. char_bytes h mode c sz y0 g m (t + 1) (x + 1) y0 s1 = Some r \<and> lcd_ok v r \<and>
          lcd_frame v r = lcd_frame v s0 \<and> lcd_look v r = ?pic cols 0"
        using Suc.prems(4,5) s1(2,3) look B ln n by (intro Suc.IH [of _ "Suc q" 0]) auto
      then show ?thesis using s1(1) nb False tl by (simp add: arr_get_Some)
    qed
  qed
qed

lemma glyph_found:
  assumes "32 \<le> chr" "chr \<le> 126"
  shows "ascii_glyph 12 (chr - 32) = Some (asc2_1206 ! (unat chr - 32)) \<and> length (asc2_1206 ! (unat chr - 32)) = 12"
    "ascii_glyph 16 (chr - 32) = Some (asc2_1608 ! (unat chr - 32)) \<and> length (asc2_1608 ! (unat chr - 32)) = 16"
    "ascii_glyph 24 (chr - 32) = Some (asc2_2412 ! (unat chr - 32)) \<and> length (asc2_2412 ! (unat chr - 32)) = 36"
    "ascii_glyph 32 (chr - 32) = Some (asc2_3216 ! (unat chr - 32)) \<and> length (asc2_3216 ! (unat chr - 32)) = 128"
proof -
  have "unat (chr - 32) = unat chr - 32" using assms by (simp add: unat_sub word_le_nat_alt)
  moreover have "unat chr - 32 < 95" using assms by (simp add: word_le_nat_alt)
  ultimately show "ascii_glyph 12 (chr - 32) = Some (asc2_1206 ! (unat chr - 32)) \<and> length (asc2_1206 ! (unat chr - 32)) = 12"
    "ascii_glyph 16 (chr - 32) = Some (asc2_1608 ! (unat chr - 32)) \<and> length (asc2_1608 ! (unat chr - 32)) = 16"
    "ascii_glyph 24 (chr - 32) = Some (asc2_2412 ! (unat chr - 32)) \<and> length (asc2_2412 ! (unat chr - 32)) = 36"
    "ascii_glyph 32 (chr - 32) = Some (asc2_3216 ! (unat chr - 32)) \<and> length (asc2_3216 ! (unat chr - 32)) = 128"
    using glyph_sizes font_sizes by (simp_all add: ascii_glyph_def arr_get_Some list_all_length)
qed

definition font_size :: "u8 \<Rightarrow> bool" where
  "font_size sz \<longleftrightarrow> sz = 12 \<or> sz = 16 \<or> sz = 24 \<or> sz = 32"

lemma glyph_bytes_values: "glyph_bytes 12 = 12" "glyph_bytes 16 = 16" "glyph_bytes 24 = 36" "glyph_bytes 32 = 64"
  by code_simp+

lemma font_glyph:
  assumes "font_size sz" "32 \<le> chr" "chr \<le> 126"
  shows "\<exists>g. ascii_glyph sz (chr - 32) = Some g \<and> unat sz div 2 * ((unat sz + 7) div 8) \<le> length g"
    "unat (glyph_bytes sz) = unat sz div 2 * ((unat sz + 7) div 8)" "12 \<le> unat sz"
  using assms(1) glyph_found [OF assms(2,3)] by (auto simp: font_size_def glyph_bytes_values)

lemma char_shown:
  fixes x y :: u16
  assumes "lcd_law h v" "lcd_ok v s" "font_size sz" "32 \<le> chr" "chr \<le> 126"
    and "unat x < unat (lcd_width (lcddev s))" "unat y < unat (lcd_height (lcddev s))"
    and n: "n = unat sz" and l: "l = min n (unat (lcd_height (lcddev s)) - unat y)"
    and cols: "cols = (if unat y + n < unat (lcd_height (lcddev s)) then min (n div 2) (unat (lcd_width (lcddev s)) - unat x) else 1)"
    and g: "ascii_glyph sz (chr - 32) = Some g"
  shows "\<exists>t. lcd_show_char h x y chr sz mode c s = Some t \<and> lcd_ok v t \<and> lcd_frame v t = lcd_frame v s \<and>
    lcd_look v t = printed g n (mode \<noteq> 0) c (ucast (g_back_color s)) (unat x) (unat y) l cols 0 (lcd_look v s)"
proof -
  note f = font_glyph [OF assms(3-5)]
  have len: "n div 2 * ((n + 7) div 8) \<le> length g" using f(1) g n by auto
  have "0 < cols \<and> 0 < l" using cols l n f(3) assms(6,7) by auto
  then have pos: "0 < cols \<and> 0 < l \<or> 0 = cols \<and> (0 :: nat) = 0 \<and> cols = n div 2" by simp
  have two: "2 \<le> n" using n f(3) by simp
  have start: "0 + unat (glyph_bytes sz) = n div 2 * ((n + 7) div 8)" using f(2) n by simp
  have "lcd_show_char h x y chr sz mode c s = char_bytes h mode c sz y g (unat (glyph_bytes sz)) 0 x y s"
    using assms(3) g by (auto simp: lcd_show_char_def font_size_def)
  then show ?thesis
    using char_bytes_ok [OF assms(1,6,7) n two l cols len assms(2) refl printed_start [symmetric] start _ _ pos, where mode = mode and c = c]
    by simp
qed

text \<open>C16: A character that ends above the last row of the display shows its glyph: the dots of the
  glyph in the colour, the rest of its box in the background colour, or as it was when the mode is to
  overlay. At the right edge the glyph is cut off. Outside the box nothing changes.\<close>

theorem lcd_show_char_correct:
  fixes x y :: u16
  assumes "lcd_law h v" "lcd_ok v s" "font_size sz" "32 \<le> chr" "chr \<le> 126"
    and "unat x < unat (lcd_width (lcddev s))" "unat y + unat sz < unat (lcd_height (lcddev s))"
  shows "\<exists>g t. ascii_glyph sz (chr - 32) = Some g \<and> lcd_show_char h x y chr sz mode c s = Some t \<and> lcd_ok v t \<and>
    lcd_frame v t = lcd_frame v s \<and>
    lcd_look v t = (\<lambda>(a, b).
      if unat x \<le> a \<and> a < unat x + unat sz div 2 \<and> a < unat (lcd_width (lcddev s)) \<and> unat y \<le> b \<and> b < unat y + unat sz
      then if glyph_on g (unat sz) (a - unat x) (b - unat y) then c
        else if mode = 0 then ucast (g_back_color s) else lcd_look v s (a, b)
      else lcd_look v s (a, b))"
proof -
  obtain g where g: "ascii_glyph sz (chr - 32) = Some g" using font_glyph(1) [OF assms(3-5)] by blast
  have y: "unat y < unat (lcd_height (lcddev s))" and l: "unat sz = min (unat sz) (unat (lcd_height (lcddev s)) - unat y)"
    using assms(7) by simp_all
  let ?cols = "min (unat sz div 2) (unat (lcd_width (lcddev s)) - unat x)"
  have cols: "?cols = (if unat y + unat sz < unat (lcd_height (lcddev s)) then ?cols else 1)" using assms(7) by simp
  obtain t where t: "lcd_show_char h x y chr sz mode c s = Some t" "lcd_ok v t" "lcd_frame v t = lcd_frame v s"
    "lcd_look v t = printed g (unat sz) (mode \<noteq> 0) c (ucast (g_back_color s)) (unat x) (unat y) (unat sz) ?cols 0 (lcd_look v s)"
    using char_shown [OF assms(1-6) y refl l cols g] by blast
  have box: "unat x \<le> a \<and> unat y \<le> b \<and> b < unat y + unat sz \<and> (a < unat x + ?cols \<or> a = unat x + ?cols \<and> b < unat y + 0) \<longleftrightarrow>
      unat x \<le> a \<and> a < unat x + unat sz div 2 \<and> a < unat (lcd_width (lcddev s)) \<and> unat y \<le> b \<and> b < unat y + unat sz" for a b
    using assms(6) by linarith
  have "lcd_look v t = (\<lambda>(a, b).
      if unat x \<le> a \<and> a < unat x + unat sz div 2 \<and> a < unat (lcd_width (lcddev s)) \<and> unat y \<le> b \<and> b < unat y + unat sz
      then if glyph_on g (unat sz) (a - unat x) (b - unat y) then c
        else if mode = 0 then ucast (g_back_color s) else lcd_look v s (a, b)
      else lcd_look v s (a, b))"
    unfolding t(4) printed_def ink_def box by (cases "mode = 0") (simp_all only: simp_thms if_True if_False)
  then show ?thesis using g t(1-3) by blast
qed

lemma lcd_show_char_correct_witness:
  "\<exists>t. lcd_show_char lsim_port 10 20 65 12 0 0x1F rgb_screen = Some t \<and> lcd_look lsim_view t (12, 22) = 0x1F \<and>
    lcd_look lsim_view t (12, 26) = 0xFFFF \<and> lcd_look lsim_view t (16, 22) = lcd_look lsim_view rgb_screen (16, 22)"
proof -
  have sz: "font_size 12" "unat (12 :: u8) = 12" by (simp_all add: font_size_def)
  have g: "ascii_glyph 12 (65 - 32) = Some [0, 0x40, 7, 0xC0, 0x39, 0, 0xF, 0, 1, 0xC0, 0, 0x40]"
    by (simp add: ascii_glyph_def arr_get_def asc2_1206_def)
  have p: "unat (10 :: u16) < unat (lcd_width (lcddev rgb_screen))"
    "unat (20 :: u16) + unat (12 :: u8) < unat (lcd_height (lcddev rgb_screen))" "g_back_color rgb_screen = 0xFFFFFFFF"
    "lcd_width (lcddev rgb_screen) = 272"
    by (simp_all add: rgb_screen_def)
  have "(32 :: u8) \<le> 65" "(65 :: u8) \<le> 126" by simp_all
  from lcd_show_char_correct [OF lsim_law screens_ok(1) sz(1) this p(1,2), of 0 "0x1F"] show ?thesis
    unfolding g option.inject by - (elim exE conjE, hypsubst, intro exI conjI, assumption, simp_all add: p glyph_on_def bit_numeral_rec)
qed

text \<open>A character whose box reaches the last row of the display, or goes below it, loses all its
  columns but the first, although a box that ends with the last row fits the display.\<close>

theorem lcd_show_char_bottom:
  fixes x y :: u16
  assumes "lcd_law h v" "lcd_ok v s" "font_size sz" "32 \<le> chr" "chr \<le> 126"
    and "unat x < unat (lcd_width (lcddev s))" "unat y < unat (lcd_height (lcddev s))"
      "unat (lcd_height (lcddev s)) \<le> unat y + unat sz"
  shows "\<exists>t. lcd_show_char h x y chr sz mode c s = Some t \<and> lcd_ok v t \<and>
    (\<forall>a b. a \<noteq> unat x \<longrightarrow> lcd_look v t (a, b) = lcd_look v s (a, b))"
proof -
  obtain g where g: "ascii_glyph sz (chr - 32) = Some g" using font_glyph(1) [OF assms(3-5)] by blast
  have cols: "1 = (if unat y + unat sz < unat (lcd_height (lcddev s)) then min (unat sz div 2) (unat (lcd_width (lcddev s)) - unat x) else 1)"
    using assms(8) by simp
  obtain t where t: "lcd_show_char h x y chr sz mode c s = Some t" "lcd_ok v t"
    "lcd_look v t = printed g (unat sz) (mode \<noteq> 0) c (ucast (g_back_color s)) (unat x) (unat y)
      (min (unat sz) (unat (lcd_height (lcddev s)) - unat y)) 1 0 (lcd_look v s)"
    using char_shown [OF assms(1-7) refl refl cols g] by blast
  then show ?thesis by (auto simp: printed_def)
qed

lemma lcd_show_char_bottom_witness:
  "\<exists>t. lcd_show_char lsim_port 100 308 65 12 0 0x1F mcu_screen = Some t \<and>
    lcd_look lsim_view t (102, 314) = lcd_look lsim_view mcu_screen (102, 314)"
proof -
  have "font_size 12" by (simp add: font_size_def)
  from lcd_show_char_bottom [OF lsim_law screens_ok(2) this, of 65 100 308 0 "0x1F"] show ?thesis
    by (auto simp: mcu_screen_def)
qed

section \<open>Numbers\<close>

text \<open>Characters in a row, the first of them at place \<open>t\<close>.\<close>

fun put_chars :: "'s lcd_port \<Rightarrow> u16 \<Rightarrow> u16 \<Rightarrow> u8 \<Rightarrow> u8 \<Rightarrow> u16 \<Rightarrow> u8 \<Rightarrow> u8 list \<Rightarrow> 's screen \<Rightarrow> 's screen option" where
  "put_chars h x y sz mode c t [] s = Some s"
| "put_chars h x y sz mode c t (e # es) s = do {
     s1 \<leftarrow> lcd_show_char h (x + ucast (sz div 2) * ucast t) y e sz mode c s;
     put_chars h x y sz mode c (t + 1) es s1
   }"

definition digit_char :: "nat \<Rightarrow> u8" where
  "digit_char d = of_nat d + 48"

text \<open>Zeros before the first other digit are filled up, but for the last place.\<close>

fun filled :: "u8 \<Rightarrow> nat list \<Rightarrow> u8 list" where
  "filled f [] = []"
| "filled f (d # ds) = (if d = 0 \<and> ds \<noteq> [] then f # filled f ds else map digit_char (d # ds))"

definition number_of :: "nat list \<Rightarrow> nat" where
  "number_of = foldl (\<lambda>v d. 10 * v + d) 0"

definition digits_of :: "nat \<Rightarrow> nat \<Rightarrow> nat list" where
  "digits_of num len = map (\<lambda>i. num div 10 ^ (len - Suc i) mod 10) [0..<len]"

lemma number_of_append: "number_of (ds @ [d]) = 10 * number_of ds + d"
  by (simp add: number_of_def)

lemma digits_of_Suc: "digits_of num (Suc len) = digits_of (num div 10) len @ [num mod 10]"
proof -
  have "num div 10 ^ (Suc len - Suc i) mod 10 = num div 10 div 10 ^ (len - Suc i) mod 10" if "i < len" for i
  proof -
    have "Suc len - Suc i = Suc (len - Suc i)" using that by simp
    then show ?thesis by (simp only: power_Suc div_mult2_eq)
  qed
  then show ?thesis by (simp add: digits_of_def)
qed

lemma number_of_digits: "number_of (digits_of num len) = num mod 10 ^ len"
proof (induction len arbitrary: num)
  case 0
  then show ?case by (simp add: digits_of_def number_of_def)
next
  case (Suc len)
  then show ?case
    by (simp add: digits_of_Suc number_of_append mod_mult2_eq mult.commute)
qed

lemma number_of_zeros: "number_of (replicate k 0 @ ds) = number_of ds"
  by (induction k) (simp_all add: number_of_def)

lemma filled_form:
  "\<exists>k es. ds = replicate k 0 @ es \<and> (\<forall>f. filled f ds = replicate k f @ map digit_char es) \<and>
     (ds \<noteq> [] \<longrightarrow> es \<noteq> []) \<and> (1 < length es \<longrightarrow> hd es \<noteq> 0)"
proof (induction ds)
  case Nil
  then show ?case by simp
next
  case (Cons d ds)
  show ?case
  proof (cases "d = 0 \<and> ds \<noteq> []")
    case True
    from Cons obtain k es where "ds = replicate k 0 @ es" "\<forall>f. filled f ds = replicate k f @ map digit_char es"
      "ds \<noteq> [] \<longrightarrow> es \<noteq> []" "1 < length es \<longrightarrow> hd es \<noteq> 0" by blast
    with True show ?thesis by (intro exI [of _ "Suc k"] exI [of _ es]) simp
  next
    case False
    then show ?thesis by (intro exI [of _ 0] exI [of _ "d # ds"]) auto
  qed
qed

lemma digits_of_less: "d \<in> set (digits_of num len) \<Longrightarrow> d < 10"
  by (auto simp: digits_of_def)

lemma lcd_pow_power: "lcd_pow m n = ucast m ^ n"
  by (induction n) (simp_all add: mult.commute)

lemma digit_at_place:
  assumes "unat t < unat len" "unat len \<le> 10"
  shows "\<exists>d. digit_at num len t = Some d \<and> d = of_nat (unat num div 10 ^ (unat len - Suc (unat t)) mod 10)"
proof -
  define k where "k = unat len - Suc (unat t)"
  have k: "unat (len - t - 1) = k" using assms(1) by (simp add: k_def unat_sub word_le_nat_alt unat_minus_one unat_sub_if_size)
  have "(10 :: nat) ^ k \<le> 10 ^ 9" by (rule power_increasing) (use assms(2) k_def in simp_all)
  then have "unat (of_nat (10 ^ k) :: u32) = 10 ^ k" by (intro unat_of_nat_small) simp
  then have p: "unat (lcd_pow 10 k) = 10 ^ k" by (simp add: lcd_pow_power)
  have "unat (num div lcd_pow 10 k mod 10) = unat num div 10 ^ k mod 10" by (simp add: unat_mod unat_div p)
  then have "(ucast (num div lcd_pow 10 k mod 10) :: u8) = of_nat (unat num div 10 ^ k mod 10)"
    by (metis of_nat_unat)
  moreover have "lcd_pow 10 k \<noteq> 0" using p by auto
  ultimately show ?thesis unfolding digit_at_def k k_def [symmetric] Let_def by simp
qed

lemma num_is_xnum: "num_loop h x y num len sz c n t e = xnum_loop h x y num len sz 0 c n t e"
proof (induction n arbitrary: t e)
  case (Suc n)
  show ?case by (rule ext) (simp add: Suc Let_def cong: if_cong)
qed (simp add: fun_eq_iff)

lemma xnum_shows:
  assumes len: "unat len \<le> 10" and f: "f = (if mode AND 0x80 \<noteq> 0 then 48 else 32)"
  shows "n + unat t = unat len \<Longrightarrow> xnum_loop h x y num len sz mode c n t e s =
    put_chars h x y sz (mode AND 1) c t
      ((if e = 0 then filled f else map digit_char) (drop (unat t) (digits_of (unat num) (unat len)))) s"
proof (induction n arbitrary: t e s)
  case 0
  then show ?case by (simp add: digits_of_def)
next
  case (Suc n)
  let ?ds = "digits_of (unat num) (unat len)"
  have t: "unat t < unat len" using Suc.prems by simp
  from digit_at_place [OF t len, of num] obtain d where
    d: "digit_at num len t = Some (of_nat d)" "d = unat num div 10 ^ (unat len - Suc (unat t)) mod 10" by blast
  have d10: "(of_nat d :: u8) = 0 \<longleftrightarrow> d = 0" using d(2) word_of_nat_inj_small [of d 0, where 'a = 8] by simp
  have t1: "unat (t + 1) = Suc (unat t)" using t len by (simp add: unat_add_lem [THEN iffD1])
  have rest: "drop (unat t) ?ds = d # drop (Suc (unat t)) ?ds"
    using t d(2) by (subst Cons_nth_drop_Suc [symmetric]) (simp_all add: digits_of_def)
  have last: "drop (Suc (unat t)) ?ds = [] \<longleftrightarrow> \<not> uint t < uint len - 1"
    using t by (simp add: digits_of_def) (unfold uint_nat, linarith)
  have IH: "xnum_loop h x y num len sz mode c n (t + 1) e' = put_chars h x y sz (mode AND 1) c (t + 1)
      ((if e' = 0 then filled f else map digit_char) (drop (Suc (unat t)) ?ds))" for e'
    using Suc.IH [of "t + 1" e'] Suc.prems unfolding t1 by (simp add: fun_eq_iff)
  show ?case
    unfolding rest using d(1) d10 last
    by (cases "drop (Suc (unat t)) ?ds = []") (simp_all add: IH f digit_char_def [of d] Let_def cong: if_cong)
qed

text \<open>A number of at most ten places is shown with its decimal digits, right-aligned in its places,
  without leading zeros: the places before the first digit hold blanks, or zeros when
  \<open>lcd_show_xnum\<close> is told so. Digits that have no place are left out from the left.\<close>

theorem lcd_show_num_digits:
  assumes "0 < len" "len \<le> 10"
  shows "\<exists>k ds. k + length ds = unat len \<and> ds \<noteq> [] \<and> (\<forall>d\<in>set ds. d < 10) \<and> (1 < length ds \<longrightarrow> hd ds \<noteq> 0) \<and>
    number_of ds = unat num mod 10 ^ unat len \<and>
    lcd_show_num h x y num len sz c s = put_chars h x y sz 0 c 0 (replicate k 32 @ map digit_char ds) s \<and>
    lcd_show_xnum h x y num len sz mode c s = put_chars h x y sz (mode AND 1) c 0
      (replicate k (if mode AND 0x80 \<noteq> 0 then 48 else 32) @ map digit_char ds) s"
proof -
  have len: "unat len \<le> 10" "0 < unat len" using assms by (simp_all add: word_le_nat_alt unat_gt_0)
  let ?ds = "digits_of (unat num) (unat len)"
  let ?f = "if mode AND 0x80 \<noteq> 0 then 48 else 32 :: u8"
  obtain k es where es: "?ds = replicate k 0 @ es" "\<And>f. filled f ?ds = replicate k f @ map digit_char es"
    "?ds \<noteq> [] \<longrightarrow> es \<noteq> []" "1 < length es \<longrightarrow> hd es \<noteq> 0"
    using filled_form [of ?ds] by blast
  have nonempty: "?ds \<noteq> []" "length ?ds = unat len" using len by (simp_all add: digits_of_def)
  have "\<forall>d\<in>set es. d < 10" using es(1) using digits_of_less [of _ "unat num" "unat len"] by simp
  moreover have "number_of es = unat num mod 10 ^ unat len"
    using number_of_digits [of "unat num" "unat len"] unfolding es(1) number_of_zeros .
  moreover have "k + length es = unat len" using nonempty(2) unfolding es(1) by simp
  moreover have "lcd_show_num h x y num len sz c s = put_chars h x y sz 0 c 0 (filled 32 ?ds) s"
    using xnum_shows [OF len(1) refl, where n = "unat len" and t = 0 and mode = 0 and e = 0] by (simp add: lcd_show_num_def num_is_xnum)
  moreover have "lcd_show_xnum h x y num len sz mode c s = put_chars h x y sz (mode AND 1) c 0 (filled ?f ?ds) s"
    using xnum_shows [OF len(1) refl, where n = "unat len" and t = 0 and mode = mode and e = 0]
    unfolding lcd_show_xnum_def by (cases "mode AND 0x80 = 0") simp_all
  ultimately show ?thesis unfolding es(2) using es(3,4) nonempty(1) by blast
qed

lemma lcd_show_num_digits_witness:
  "\<exists>k ds. k + length ds = 4 \<and> number_of ds = 42 \<and>
    lcd_show_num lsim_port 10 20 42 4 16 0x1F rgb_screen =
      put_chars lsim_port 10 20 16 0 0x1F 0 (replicate k 32 @ map digit_char ds) rgb_screen"
  using lcd_show_num_digits [of 4 42 lsim_port 10 20 16 "0x1F" rgb_screen 0] by auto

text \<open>
  More than ten places: the power of ten wraps round. The first of eleven places of 4294967295 shows
  a 3, and from 33 places on the power is zero and the code divides by it.
\<close>

lemma digit_eleven: "digit_at 0xFFFFFFFF 11 0 = Some 3"
  by code_simp

lemma lcd_show_num_limit:
  assumes "33 \<le> len"
  shows "lcd_show_num h x y num len sz c s = None" "lcd_show_xnum h x y num len sz mode c s = None"
proof -
  have len: "33 \<le> unat len" using assms by (simp add: word_le_nat_alt)
  have "unat (len - 0 - 1) = unat len - 1" using len unat_minus_one [of len] by (cases "len = 0") simp_all
  then have "unat (len - 0 - 1) = 32 + (unat len - 33)" using len by simp
  then obtain k where k: "unat (len - 0 - 1) = 32 + k" by blast
  have "(ucast (10 :: u8) :: u32) ^ 32 = 0" by code_simp
  then have "lcd_pow 10 (unat (len - 0 - 1)) = 0" unfolding k lcd_pow_power power_add by (simp only: mult_zero_left)
  then have "digit_at num len 0 = None" unfolding digit_at_def Let_def by simp
  moreover obtain n where "unat len = Suc n" using len by (cases "unat len") simp_all
  ultimately show "lcd_show_num h x y num len sz c s = None" "lcd_show_xnum h x y num len sz mode c s = None"
    by (simp_all add: lcd_show_num_def lcd_show_xnum_def)
qed

section \<open>Strings\<close>

fun put_cells :: "'s lcd_port \<Rightarrow> u8 \<Rightarrow> u16 \<Rightarrow> ((nat \<times> nat) \<times> u8) list \<Rightarrow> 's screen \<Rightarrow> 's screen option" where
  "put_cells h sz c [] s = Some s"
| "put_cells h sz c (((x, y), e) # es) s = do {
     s1 \<leftarrow> lcd_show_char h (of_nat x) (of_nat y) e sz 0 c s;
     put_cells h sz c es s1
   }"

text \<open>The number of cells that begin in a stretch of \<open>d\<close> points.\<close>

definition cells_in :: "nat \<Rightarrow> nat \<Rightarrow> nat" where
  "cells_in wid d = (d + wid - 1) div wid"

lemma cells_in_iff: "0 < wid \<Longrightarrow> k < cells_in wid d \<longleftrightarrow> k * wid < d"
  unfolding cells_in_def by (auto simp: less_eq_div_iff_mult_less_eq Suc_le_eq [symmetric] algebra_simps)

text \<open>
  Where the character \<open>i\<close> of a string goes: the first line begins at \<open>x\<close>, the other lines at \<open>start\<close>,
  and a line goes on to the column before \<open>edge\<close>.
\<close>

definition string_cell :: "nat \<Rightarrow> nat \<Rightarrow> nat \<Rightarrow> nat \<Rightarrow> nat \<Rightarrow> nat \<Rightarrow> nat \<Rightarrow> nat \<times> nat" where
  "string_cell wid sz x start edge y i =
     (let n = cells_in wid (edge - x); m = cells_in wid (edge - start); j = i - n
      in if i < n then (x + i * wid, y) else (start + j mod m * wid, y + (j div m + 1) * sz))"

lemma string_cell_0: "0 < wid \<Longrightarrow> x < edge \<Longrightarrow> string_cell wid sz x start edge y 0 = (x, y)"
  by (simp add: string_cell_def Let_def cells_in_iff)

lemma string_cell_Suc:
  assumes "0 < wid" "x < edge" "start < edge" "string_cell wid sz x start edge y i = (a, b)"
  shows "a < edge" "string_cell wid sz x start edge y (Suc i) = (if edge \<le> a + wid then (start, b + sz) else (a + wid, b))"
proof -
  define n m where nm: "n = cells_in wid (edge - x)" "m = cells_in wid (edge - start)"
  have n: "k < n \<longleftrightarrow> x + k * wid < edge" and m: "k < m \<longleftrightarrow> start + k * wid < edge" for k
    using cells_in_iff [OF assms(1), of k "edge - x"] cells_in_iff [OF assms(1), of k "edge - start"] assms(2,3)
    by (auto simp: nm)
  have pos: "0 < n" "0 < m" using n [of 0] m [of 0] assms(2,3) by simp_all
  have "a < edge \<and> string_cell wid sz x start edge y (Suc i) = (if edge \<le> a + wid then (start, b + sz) else (a + wid, b))"
  proof (cases "i < n")
    case True
    then have ab: "a = x + i * wid" "b = y" using assms(4) by (simp_all add: string_cell_def nm [symmetric])
    have "a < edge" using True ab n by simp
    moreover have "Suc i < n \<longleftrightarrow> \<not> edge \<le> a + wid" using n [of "Suc i"] ab by (simp add: not_le ac_simps)
    ultimately show ?thesis using True ab by (auto simp: string_cell_def nm [symmetric] not_less_eq less_Suc_eq)
  next
    case False
    let ?j = "i - n"
    have ab: "a = start + ?j mod m * wid" "b = y + (?j div m + 1) * sz"
      using assms(4) False by (simp_all add: string_cell_def nm [symmetric] Let_def)
    have "a < edge" using m [of "?j mod m"] pos ab by simp
    moreover have "Suc (?j mod m) < m \<longleftrightarrow> \<not> edge \<le> a + wid" using m [of "Suc (?j mod m)"] ab by (simp add: not_le ac_simps)
    moreover have "Suc i - n = Suc ?j" using False by simp
    ultimately show ?thesis using False ab pos mod_less_divisor [OF pos(2), of ?j]
      by (auto simp: string_cell_def nm [symmetric] Let_def mod_Suc div_Suc algebra_simps less_Suc_eq)
  qed
  then show "a < edge" "string_cell wid sz x start edge y (Suc i) = (if edge \<le> a + wid then (start, b + sz) else (a + wid, b))"
    by simp_all
qed

lemma string_cell_bounds:
  assumes "0 < wid" "x < edge" "start < edge"
  shows "fst (string_cell wid sz x start edge y i) < edge"
  using string_cell_Suc(1) [OF assms] by (metis prod.collapse)

lemma string_loop_cells:
  assumes half: "unat (sz div 2) = wid" "0 < wid" and edge: "edge = unat width" "edge + wid < 65536"
    and y: "unat height + unat sz < 65536"
    and x: "x < edge" "start = unat x0" "start < edge"
  shows "list_all (\<lambda>c. 32 \<le> c \<and> c \<le> 126) cs \<Longrightarrow> \<not> (32 \<le> e \<and> e \<le> 126) \<Longrightarrow>
    (if edge \<le> unat xx then (start, unat yy + unat sz) else (unat xx, unat yy)) = string_cell wid (unat sz) x start edge y i \<Longrightarrow>
    unat yy \<le> unat height \<Longrightarrow>
    string_loop h width height sz x0 c xx yy (cs @ e # p) s =
      put_cells h sz c (map (\<lambda>k. (string_cell wid (unat sz) x start edge y (i + k), cs ! k))
        (takeWhile (\<lambda>k. snd (string_cell wid (unat sz) x start edge y (i + k)) < unat height) [0..<length cs])) s"
proof (induction cs arbitrary: xx yy i s)
  case Nil
  then show ?case by auto
next
  case (Cons d cs)
  let ?cell = "string_cell wid (unat sz) x start edge y"
  define x1 y1 where xy: "x1 = (if xx \<ge> width then ucast x0 else xx)" "y1 = (if xx \<ge> width then yy + ucast sz else yy)"
  have "unat (yy + ucast sz) = unat yy + unat sz"
    using y Cons.prems(4) by (subst unat_add_lem [THEN iffD1]) simp_all
  then have cell: "?cell i = (unat x1, unat y1)" using Cons.prems(3) x edge by (auto simp: xy word_le_nat_alt)
  have step: "string_loop h width height sz x0 c xx yy ((d # cs) @ e # p) s =
    (if y1 \<ge> height then Some s
     else do { s1 \<leftarrow> lcd_show_char h x1 y1 d sz 0 c s; string_loop h width height sz x0 c (x1 + ucast (sz div 2)) y1 (cs @ e # p) s1 })"
    using Cons.prems(1) by (simp add: xy Let_def)
  show ?case
  proof (cases "y1 \<ge> height")
    case True
    then have "\<not> snd (?cell (i + 0)) < unat height" using cell by (simp add: word_le_nat_alt)
    then have "takeWhile (\<lambda>k. snd (?cell (i + k)) < unat height) [0..<length (d # cs)] = []"
      by (simp add: upt_conv_Cons del: upt_Suc)
    then show ?thesis unfolding step using True by simp
  next
    case False
    then have lt: "unat y1 < unat height" by (simp add: word_le_nat_alt)
    have "unat x1 < edge" using string_cell_Suc(1) [OF half(2) x(1,3) cell] .
    then have "unat (x1 + ucast (sz div 2)) = unat x1 + wid"
      using edge half(1) by (subst unat_add_lem [THEN iffD1]) simp_all
    then have nxt: "(if edge \<le> unat (x1 + ucast (sz div 2)) then (start, unat y1 + unat sz) else (unat (x1 + ucast (sz div 2)), unat y1)) = ?cell (Suc i)"
      using string_cell_Suc(2) [OF half(2) x(1,3) cell] by simp
    have IH: "string_loop h width height sz x0 c (x1 + ucast (sz div 2)) y1 (cs @ e # p) =
        put_cells h sz c (map (\<lambda>k. (?cell (Suc i + k), cs ! k)) (takeWhile (\<lambda>k. snd (?cell (Suc i + k)) < unat height) [0..<length cs]))"
      by (rule ext, rule Cons.IH) (use Cons.prems(1,2) nxt lt in simp_all)
    have "takeWhile (\<lambda>k. snd (?cell (i + k)) < unat height) [0..<length (d # cs)] =
        0 # map Suc (takeWhile (\<lambda>k. snd (?cell (Suc i + k)) < unat height) [0..<length cs])"
      using lt cell by (simp add: upt_conv_Cons map_Suc_upt [symmetric] takeWhile_map comp_def del: upt_Suc)
    then show ?thesis unfolding step using False cell by (simp add: IH comp_def)
  qed
qed

text \<open>A string is shown up to its first character that is not printable, in cells of half the font size,
  line below line, until a line would begin below the height. A line holds the cells that begin inside
  the width. The first line begins at \<open>x\<close>; the others begin at the low byte of \<open>x\<close>, because the code
  keeps it in eight bits: right of column 255 they do not stand below the first.\<close>

theorem lcd_show_string_layout:
  assumes "list_all (\<lambda>c. 32 \<le> c \<and> c \<le> 126) cs" "\<not> (32 \<le> e \<and> e \<le> 126)"
    and "0 < unat w" "font_size sz"
    and "unat x + unat w + unat sz < 65536" "unat y + unat ht + unat sz < 65536"
    and "cell = string_cell (unat sz div 2) (unat sz) (unat x) (unat x mod 256) (unat x + unat w) (unat y)"
  shows "lcd_show_string h x y w ht sz (cs @ e # p) c s =
      put_cells h sz c (map (\<lambda>i. (cell i, cs ! i)) (takeWhile (\<lambda>i. snd (cell i) < unat y + unat ht) [0..<length cs])) s \<and>
    cell 0 = (unat x, unat y) \<and> cell (cells_in (unat sz div 2) (unat w)) = (unat x mod 256, unat y + unat sz)"
proof -
  have sz: "0 < unat sz div 2" "unat (sz div 2) = unat sz div 2" using assms(4) by (auto simp: font_size_def unat_div)
  have w: "unat (w + x) = unat x + unat w" "unat (ht + y) = unat y + unat ht"
    using assms(5,6) unat_add_lem [of w x] unat_add_lem [of ht y] by simp_all
  have st: "unat (ucast x :: u8) = unat x mod 256" by (simp add: unsigned_ucast_eq take_bit_eq_mod)
  have e: "unat x + unat w + unat sz div 2 < 65536" using assms(5) by linarith
  have lt: "unat x < unat x + unat w" "unat x mod 256 < unat x + unat w"
    using assms(3) mod_less_eq_dividend [of "unat x" 256] by linarith+
  have c0: "cell 0 = (unat x, unat y)" unfolding assms(7) by (rule string_cell_0 [OF sz(1) lt(1)])
  have "0 < cells_in (unat sz div 2) (unat w)" using cells_in_iff [OF sz(1), of 0 "unat w"] assms(3) by simp
  then have "cell (cells_in (unat sz div 2) (unat w)) = (unat x mod 256, unat y + unat sz)"
    by (simp add: assms(7) string_cell_def Let_def)
  moreover have "lcd_show_string h x y w ht sz (cs @ e # p) c s =
      put_cells h sz c (map (\<lambda>i. (cell i, cs ! i)) (takeWhile (\<lambda>i. snd (cell i) < unat y + unat ht) [0..<length cs])) s"
    using string_loop_cells [OF sz(2,1) w(1) [symmetric] e, of "ht + y" "unat x" "unat x mod 256" "ucast x" cs e x y "unat y" 0 h c p s]
      assms(1,2,6) c0 lt st
    unfolding lcd_show_string_def w(2) assms(7) by simp
  ultimately show ?thesis using c0 by simp
qed

lemma lcd_show_string_layout_witness:
  "lcd_show_string lsim_port 260 20 12 40 12 [65, 66, 67, 0] 0x1F rgb_screen =
     put_cells lsim_port 12 0x1F [((260, 20), 65), ((266, 20), 66), ((4, 32), 67)] rgb_screen"
proof -
  have "font_size 12" by (simp add: font_size_def)
  from lcd_show_string_layout [of "[65, 66, 67]" 0 12 12 260 20 40 _ lsim_port "[]" "0x1F" rgb_screen, OF _ _ _ this _ _ refl]
  show ?thesis by (simp add: string_cell_def cells_in_def Let_def upt_rec)
qed

end
