(* ===== verification/Gbk_Text.thy ===== *)
theory Gbk_Text
  imports Malloc Norflash Lcd_Text
begin

text \<open>
  Chinese text, \<open>text.c\<close>, and the check for its fonts, \<open>fonts.c\<close>: glyphs are read from the NOR flash
  into a block of the heap and drawn from there. The state has the heap with its memory, the flash,
  the display and the directory of the fonts.
\<close>

section \<open>State\<close>

record font_info =
  fontok :: u8
  ugbkaddr :: u32
  ugbksize :: u32
  f12addr :: u32
  gbk12size :: u32
  f16addr :: u32
  gbk16size :: u32
  f24addr :: u32
  gbk24size :: u32
  f32addr :: u32
  gbk32size :: u32

record ('n, 's) text_env =
  text_heap :: heap
  text_nor :: "'n norflash"
  text_screen :: "'s screen"
  ftinfo :: font_info

definition set_ram :: "mem \<Rightarrow> ('n, 's) text_env \<Rightarrow> ('n, 's) text_env" where
  "set_ram m s = s\<lparr>text_heap := (text_heap s)\<lparr>ram := m\<rparr>\<rparr>"

section \<open>Glyphs\<close>

definition mat_bytes :: "u8 \<Rightarrow> u8" where
  "mat_bytes sz = (sz div 8 + (if sz mod 8 \<noteq> 0 then 1 else 0)) * sz"

definition mat_read :: "'n spi5 \<Rightarrow> u32 \<Rightarrow> u32 \<Rightarrow> u8 \<Rightarrow> ('n, 's) text_env \<Rightarrow> ('n, 's) text_env" where
  "mat_read spi mat addr csize s =
     (let (bs, w) = norflash_read spi (g_norflash_type (text_nor s)) addr (ucast csize) (hw (text_nor s))
      in set_ram (mem_store (ram (text_heap s)) mat bs) (s\<lparr>text_nor := (text_nor s)\<lparr>hw := w\<rparr>\<rparr>))"

text \<open>\<open>code\<close> is the memory from the character on.\<close>

definition text_get_hz_mat :: "'n spi5 \<Rightarrow> u8 list \<Rightarrow> u32 \<Rightarrow> u8 \<Rightarrow> ('n, 's) text_env \<Rightarrow> ('n, 's) text_env option" where
  "text_get_hz_mat spi code mat sz s = do {
     let csize = mat_bytes sz;
     qh \<leftarrow> arr_get code 0;
     ql \<leftarrow> arr_get code 1;
     if qh < 0x81 \<or> ql < 0x40 \<or> ql = 0xFF \<or> qh = 0xFF
     then Some (set_ram (my_mem_set (ram (text_heap s)) mat 0 (unat csize)) s)
     else
       let ql1 = (if ql < 0x7F then ql - 0x40 else ql - 0x41);
           foffset = (190 * ucast (qh - 0x81) + ucast ql1) * ucast csize :: 64 word
       in Some (if sz = 12 then mat_read spi mat (ucast (foffset + ucast (f12addr (ftinfo s)))) csize s
                else if sz = 16 then mat_read spi mat (ucast (foffset + ucast (f16addr (ftinfo s)))) csize s
                else if sz = 24 then mat_read spi mat (ucast (foffset + ucast (f24addr (ftinfo s)))) csize s
                else if sz = 32 then mat_read spi mat (ucast (foffset + ucast (f32addr (ftinfo s)))) csize s
                else s)
   }"

fun font_bits :: "'s lcd_port \<Rightarrow> u8 \<Rightarrow> u16 \<Rightarrow> u8 \<Rightarrow> u16 \<Rightarrow> nat \<Rightarrow> u8 \<Rightarrow> u16 \<Rightarrow> u16 \<Rightarrow> 's screen
    \<Rightarrow> ((u16 \<times> u16) \<times> 's screen) option" where
  "font_bits h mode color sz y0 0 temp x y s = Some ((x, y), s)"
| "font_bits h mode color sz y0 (Suc n) temp x y s = do {
     s1 \<leftarrow> char_dot h mode color temp x y s;
     if uint (y + 1) - uint y0 = uint sz then Some ((x + 1, y0), s1)
     else font_bits h mode color sz y0 n (push_bit 1 temp) x (y + 1) s1
   }"

fun font_bytes :: "'s lcd_port \<Rightarrow> u8 \<Rightarrow> u16 \<Rightarrow> u8 \<Rightarrow> u16 \<Rightarrow> mem \<Rightarrow> u32 \<Rightarrow> nat \<Rightarrow> u8 \<Rightarrow> u16 \<Rightarrow> u16 \<Rightarrow> 's screen \<Rightarrow> 's screen option" where
  "font_bytes h mode color sz y0 m dzk 0 t x y s = Some s"
| "font_bytes h mode color sz y0 m dzk (Suc n) t x y s = do {
     ((x1, y1), s1) \<leftarrow> font_bits h mode color sz y0 8 (m (dzk + ucast t)) x y s;
     font_bytes h mode color sz y0 m dzk n (t + 1) x1 y1 s1
   }"

definition text_show_font ::
  "'n spi5 \<Rightarrow> 's lcd_port \<Rightarrow> u16 \<Rightarrow> u16 \<Rightarrow> u8 list \<Rightarrow> u8 \<Rightarrow> u8 \<Rightarrow> u16 \<Rightarrow> ('n, 's) text_env \<Rightarrow> ('n, 's) text_env option" where
  "text_show_font spi h x y font sz mode color s =
     (if sz \<noteq> 12 \<and> sz \<noteq> 16 \<and> sz \<noteq> 24 \<and> sz \<noteq> 32 then Some s
      else do {
        (dzk, p) \<leftarrow> mymalloc SRAMIN (ucast sz) (text_heap s);
        let s1 = s\<lparr>text_heap := p\<rparr>;
        if dzk = 0 then Some s1
        else do {
          s2 \<leftarrow> text_get_hz_mat spi font dzk sz s1;
          scr \<leftarrow> font_bytes h mode color sz y (ram (text_heap s2)) dzk (unat (mat_bytes sz)) 0 x y (text_screen s2);
          q \<leftarrow> myfree SRAMIN dzk (text_heap s2);
          Some (s2\<lparr>text_heap := q, text_screen := scr\<rparr>)
        }
      })"

section \<open>Strings\<close>

text \<open>
  The positions are compared as signed integers. \<open>p\<close> is the memory from \<open>pstr\<close> on, \<open>bHz\<close> tells
  that the character at hand is known to be Chinese.
\<close>

definition line_feed :: "u16 \<Rightarrow> u16 \<Rightarrow> u8 \<Rightarrow> u8 \<Rightarrow> u16 \<Rightarrow> u16 \<Rightarrow> u16 \<times> u16" where
  "line_feed x0 width sz wid x y =
     (if uint x > uint x0 + uint width - uint wid then (x0, y + ucast sz) else (x, y))"

function text_loop ::
  "'n spi5 \<Rightarrow> 's lcd_port \<Rightarrow> u16 \<Rightarrow> u16 \<Rightarrow> u16 \<Rightarrow> u16 \<Rightarrow> u8 \<Rightarrow> u8 \<Rightarrow> u16 \<Rightarrow> u8 \<Rightarrow> u16 \<Rightarrow> u16 \<Rightarrow> u8 list \<Rightarrow> ('n, 's) text_env
    \<Rightarrow> ('n, 's) text_env option" where
  "text_loop spi h x0 y0 width height sz mode color bHz x y [] s = None"
| "text_loop spi h x0 y0 width height sz mode color bHz x y (c # p) s =
     (if c = 0 then Some s
      else if bHz = 0 then
        if c > 0x80 then text_loop spi h x0 y0 width height sz mode color 1 x y (c # p) s
        else
          let (x1, y1) = line_feed x0 width sz (sz div 2) x y
          in if uint y1 > uint y0 + uint height - uint sz then Some s
             else if c = 13
             then text_loop spi h x0 y0 width height sz mode color 0 (x0 + ucast (sz div 2)) (y1 + ucast sz) (drop 1 p) s
             else do {
               scr \<leftarrow> lcd_show_char h x1 y1 c sz mode color (text_screen s);
               text_loop spi h x0 y0 width height sz mode color 0 (x1 + ucast (sz div 2)) y1 p (s\<lparr>text_screen := scr\<rparr>)
             }
      else
        let (x1, y1) = line_feed x0 width sz sz x y
        in if uint y1 > uint y0 + uint height - uint sz then Some s
           else do {
             s1 \<leftarrow> text_show_font spi h x1 y1 (c # p) sz mode color s;
             text_loop spi h x0 y0 width height sz mode color 0 (x1 + ucast sz) y1 (drop 1 p) s1
           })"
  by pat_completeness auto
termination
  by (relation "measure (\<lambda>(spi, h, x0, y0, width, height, sz, mode, color, bHz, x, y, p, s). 2 * length p + (if bHz = 0 then 1 else 0))")
    auto

definition text_show_string ::
  "'n spi5 \<Rightarrow> 's lcd_port \<Rightarrow> u16 \<Rightarrow> u16 \<Rightarrow> u16 \<Rightarrow> u16 \<Rightarrow> u8 list \<Rightarrow> u8 \<Rightarrow> u8 \<Rightarrow> u16 \<Rightarrow> ('n, 's) text_env
    \<Rightarrow> ('n, 's) text_env option" where
  "text_show_string spi h x y width height str sz mode color s =
     text_loop spi h x y width height sz mode color 0 x y str s"

definition text_show_string_middle ::
  "'n spi5 \<Rightarrow> 's lcd_port \<Rightarrow> u16 \<Rightarrow> u16 \<Rightarrow> u8 list \<Rightarrow> u8 \<Rightarrow> u16 \<Rightarrow> u16 \<Rightarrow> ('n, 's) text_env \<Rightarrow> ('n, 's) text_env option" where
  "text_show_string_middle spi h x y str sz width color s =
     (if 0 \<notin> set str then None
      else
        let d = lcddev (text_screen s);
            strlenth = of_nat (length (takeWhile (\<lambda>c. c \<noteq> 0) str)) * ucast (sz div 2)
        in if strlenth > width then text_show_string spi h x y (lcd_width d) (lcd_height d) str sz 1 color s
           else text_show_string spi h ((width - strlenth) div 2 + x) y (lcd_width d) (lcd_height d) str sz 1 color s)"

section \<open>The directory of the fonts\<close>

definition FONTINFOADDR :: u32 where "FONTINFOADDR = 25 * 1024 * 1024"

text \<open>The packed structure: a byte and ten words, lowest byte first.\<close>

definition le32 :: "u8 list \<Rightarrow> nat \<Rightarrow> u32" where
  "le32 bs i = ucast (bs ! i) OR push_bit 8 (ucast (bs ! (i + 1))) OR push_bit 16 (ucast (bs ! (i + 2))) OR
     push_bit 24 (ucast (bs ! (i + 3)))"

definition info_of_bytes :: "u8 list \<Rightarrow> font_info" where
  "info_of_bytes bs =
     \<lparr>fontok = bs ! 0, ugbkaddr = le32 bs 1, ugbksize = le32 bs 5, f12addr = le32 bs 9, gbk12size = le32 bs 13,
      f16addr = le32 bs 17, gbk16size = le32 bs 21, f24addr = le32 bs 25, gbk24size = le32 bs 29, f32addr = le32 bs 33,
      gbk32size = le32 bs 37\<rparr>"

text \<open>The tries that are left; a pause of 20 ms follows each that fails.\<close>

fun info_tries :: "'n spi5 \<Rightarrow> (u16 \<Rightarrow> 'n \<Rightarrow> 'n) \<Rightarrow> nat \<Rightarrow> ('n, 's) text_env \<Rightarrow> ('n, 's) text_env" where
  "info_tries spi delay 0 s = s"
| "info_tries spi delay (Suc n) s =
     (let (bs, w) = norflash_read spi (g_norflash_type (text_nor s)) FONTINFOADDR 41 (hw (text_nor s));
          s1 = s\<lparr>ftinfo := info_of_bytes bs, text_nor := (text_nor s)\<lparr>hw := w\<rparr>\<rparr>
      in if fontok (ftinfo s1) = 0xAA then s1
         else info_tries spi delay n (s1\<lparr>text_nor := (text_nor s1)\<lparr>hw := delay 20 (hw (text_nor s1))\<rparr>\<rparr>))"

definition fonts_init :: "'n spi5 \<Rightarrow> (u16 \<Rightarrow> 'n \<Rightarrow> 'n) \<Rightarrow> ('n, 's) text_env \<Rightarrow> u8 \<times> ('n, 's) text_env" where
  "fonts_init spi delay s =
     (let s1 = info_tries spi delay 10 s
      in (if fontok (ftinfo s1) \<noteq> 0xAA then 1 else 0, s1))"

declare text_loop.simps [simp del]

section \<open>What a glyph leaves on the display\<close>

text \<open>The dots of a byte: the code of \<open>font_bits\<close> without its bookkeeping.\<close>

fun column :: "'s lcd_port \<Rightarrow> u8 \<Rightarrow> u16 \<Rightarrow> nat \<Rightarrow> u8 \<Rightarrow> u16 \<Rightarrow> u16 \<Rightarrow> 's screen \<Rightarrow> 's screen option" where
  "column h mode c 0 temp x y s = Some s"
| "column h mode c (Suc n) temp x y s = do {
     s1 \<leftarrow> char_dot h mode c temp x y s;
     column h mode c n (push_bit 1 temp) x (y + 1) s1
   }"

lemma bits_shift:
  assumes "\<And>i. i < Suc m \<Longrightarrow> bit temp (7 - i) = f i" "Suc m \<le> 8" "i < m"
  shows "bit (push_bit 1 temp :: u8) (7 - i) = f (Suc i)"
  using assms(1) [of "Suc i"] assms(2,3) unfolding bit_push_bit_iff by simp linarith

lemma column_ok:
  assumes law: "lcd_law h v" and x: "unat x < unat (lcd_width (lcddev s0))"
  shows "lcd_ok v s \<Longrightarrow> lcd_frame v s = lcd_frame v s0 \<Longrightarrow> unat y + m \<le> unat (lcd_height (lcddev s0)) \<Longrightarrow>
    (\<And>i. i < m \<Longrightarrow> bit temp (7 - i) = f i) \<Longrightarrow> m \<le> 8 \<Longrightarrow>
    \<exists>t. column h mode c m temp x y s = Some t \<and> lcd_ok v t \<and> lcd_frame v t = lcd_frame v s0 \<and>
      lcd_look v t = (\<lambda>(a, b). if a = unat x \<and> unat y \<le> b \<and> b < unat y + m
        then ink (f (b - unat y)) (mode \<noteq> 0) c (ucast (g_back_color s0)) (lcd_look v s (a, b))
        else lcd_look v s (a, b))"
proof (induction m arbitrary: temp f y s)
  case 0
  have "\<not> (unat y \<le> b \<and> b < unat y + 0)" for b by linarith
  then show ?case using 0(1,2) by (simp only: column.simps if_False simp_thms) simp
next
  case (Suc m)
  note dev = same_frame [OF Suc.prems(2)]
  have "unat y < unat (lcd_height (lcddev s))" using Suc.prems(3) dev by simp
  from char_dot_ok [OF law Suc.prems(1) _ this, of x mode c temp] x dev obtain s1 where
    s1: "char_dot h mode c temp x y s = Some s1" "lcd_ok v s1" "lcd_frame v s1 = lcd_frame v s"
      "lcd_look v s1 = (lcd_look v s)((unat x, unat y) :=
        ink (bit temp 7) (mode \<noteq> 0) c (ucast (g_back_color s0)) (lcd_look v s (unat x, unat y)))"
    by (auto simp del: fun_upd_apply)
  have b7: "bit temp 7 = f 0" using Suc.prems(4) [of 0] by simp
  have bits: "bit (push_bit 1 temp) (7 - i) = f (Suc i)" if "i < m" for i
    by (rule bits_shift [OF Suc.prems(4,5) that])
  have pre: "lcd_frame v s1 = lcd_frame v s0" "m \<le> 8" using s1(3) Suc.prems by simp_all
  show ?case
  proof (cases "m = 0")
    case True
    have "lcd_look v s1 = (\<lambda>(a, b). if a = unat x \<and> unat y \<le> b \<and> b < unat y + Suc m
        then ink (f (b - unat y)) (mode \<noteq> 0) c (ucast (g_back_color s0)) (lcd_look v s (a, b)) else lcd_look v s (a, b))"
      unfolding s1(4) b7 True by (auto simp: fun_eq_iff)
    then show ?thesis using s1(1,2) pre True by simp
  next
    case False
    then have y1: "unat (y + 1) = unat y + 1"
      using Suc.prems(3) unat_u16_less [of "lcd_height (lcddev s0)"] by (simp add: unat_add_lem [THEN iffD1])
    then have "unat (y + 1) + m \<le> unat (lcd_height (lcddev s0))" using Suc.prems(3) by simp
    from Suc.IH [OF s1(2) pre(1) this bits pre(2)] obtain t where t: "column h mode c m (push_bit 1 temp) x (y + 1) s1 = Some t"
      "lcd_ok v t" "lcd_frame v t = lcd_frame v s0"
      "lcd_look v t = (\<lambda>(a, b). if a = unat x \<and> unat (y + 1) \<le> b \<and> b < unat (y + 1) + m
        then ink (f (Suc (b - unat (y + 1)))) (mode \<noteq> 0) c (ucast (g_back_color s0)) (lcd_look v s1 (a, b))
        else lcd_look v s1 (a, b))" by blast
    have "lcd_look v t = (\<lambda>(a, b). if a = unat x \<and> unat y \<le> b \<and> b < unat y + Suc m
        then ink (f (b - unat y)) (mode \<noteq> 0) c (ucast (g_back_color s0)) (lcd_look v s (a, b)) else lcd_look v s (a, b))"
      (is "?lhs = ?rhs")
    proof
      fix p :: "nat \<times> nat"
      obtain a b where p: "p = (a, b)" by (cases p)
      show "?lhs p = ?rhs p"
        unfolding t(4) s1(4) b7 y1 p by (cases "b = unat y") (auto simp: Suc_diff_Suc)
    qed
    then show ?thesis using s1(1) t by simp
  qed
qed

lemma font_bits_column:
  "unat y = unat y0 + j \<Longrightarrow> j < unat sz \<Longrightarrow> unat y0 + unat sz < 65536 \<Longrightarrow>
    font_bits h mode c sz y0 m temp x y s =
      map_option (Pair (if j + m < unat sz then (x, y0 + of_nat (j + m)) else (x + 1, y0)))
        (column h mode c (min m (unat sz - j)) temp x y s)"
proof (induction m arbitrary: j temp y s)
  case 0
  then have "y = y0 + of_nat j" using word_of_unat [OF 0(1)] by simp
  then show ?case using 0(2) by simp
next
  case (Suc m)
  have y1: "unat (y + 1) = unat y0 + (j + 1)" using Suc.prems by (simp add: unat_add_lem [THEN iffD1])
  have col: "uint (y + 1) - uint y0 = uint sz \<longleftrightarrow> j + 1 = unat sz" unfolding uint_nat y1 by linarith
  have min: "min (Suc m) (unat sz - j) = Suc (min m (unat sz - (j + 1)))" using Suc.prems(2) by simp
  show ?case
  proof (cases "j + 1 = unat sz")
    case True
    then have "min m (unat sz - (j + 1)) = 0" by simp
    then show ?thesis using True col unfolding min by (cases "char_dot h mode c temp x y s") simp_all
  next
    case False
    then have "j + 1 < unat sz" using Suc.prems(2) by simp
    note IH = Suc.IH [OF y1 this Suc.prems(3)]
    show ?thesis using False col unfolding min by (cases "char_dot h mode c temp x y s") (simp_all add: IH del: of_nat_add of_nat_Suc)
  qed
qed

lemma font_bytes_ok:
  assumes law: "lcd_law h v" and n: "n = unat sz" "0 < n"
    and x0: "unat x0 + n \<le> unat (lcd_width (lcddev s0))" and y0: "unat y0 + n \<le> unat (lcd_height (lcddev s0))"
    and g: "length g = n * ((n + 7) div 8)" "length g < 256" "\<And>i. i < length g \<Longrightarrow> mm (dzk + of_nat i) = g ! i"
  shows "lcd_ok v s \<Longrightarrow> lcd_frame v s = lcd_frame v s0 \<Longrightarrow>
    lcd_look v s = printed g n (mode \<noteq> 0) c (ucast (g_back_color s0)) (unat x0) (unat y0) n q j im \<Longrightarrow>
    t + m = length g \<Longrightarrow> t = q * ((n + 7) div 8) + j div 8 \<Longrightarrow> j mod 8 = 0 \<Longrightarrow> j < n \<Longrightarrow>
    unat x = unat x0 + q \<Longrightarrow> unat y = unat y0 + j \<Longrightarrow>
    \<exists>r. font_bytes h mode c sz y0 mm dzk m (of_nat t) x y s = Some r \<and> lcd_ok v r \<and> lcd_frame v r = lcd_frame v s0 \<and>
      lcd_look v r = printed g n (mode \<noteq> 0) c (ucast (g_back_color s0)) (unat x0) (unat y0) n n 0 im"
proof (induction m arbitrary: t q j x y s)
  case 0
  let ?B = "(n + 7) div 8"
  have jB: "j div 8 < ?B" using \<open>j < n\<close> by arith
  have "\<not> q < n"
  proof
    assume "q < n"
    then have "Suc q * ?B \<le> n * ?B" by (intro mult_le_mono1) simp
    then show False using 0(4,5) jB g(1) by simp
  qed
  moreover have "\<not> n < q"
  proof
    assume "n < q"
    then have "Suc n * ?B \<le> q * ?B" by (intro mult_le_mono1) simp
    then show False using 0(4,5) jB g(1) by simp
  qed
  ultimately have "q = n" "j div 8 = 0" using 0(4,5) g(1) by simp_all
  then have "q = n" "j = 0" using 0(6) by auto
  then show ?case using 0 by simp
next
  case (Suc m)
  let ?B = "(n + 7) div 8"
  let ?pic = "\<lambda>q j. printed g n (mode \<noteq> 0) c (ucast (g_back_color s0)) (unat x0) (unat y0) n q j im"
  have tl: "t < length g" using Suc.prems(4) by simp
  have q: "q < n"
  proof (rule ccontr)
    assume "\<not> q < n"
    then have "n * ?B \<le> q * ?B" by (intro mult_le_mono1) simp
    then show False using tl Suc.prems(5) g(1) by linarith
  qed
  have x: "unat x < unat (lcd_width (lcddev s0))" using q x0 Suc.prems(8) by simp
  have tw: "ucast (of_nat t :: u8) = (of_nat t :: u32)"
  proof -
    have "unat (of_nat t :: u8) = t" using tl g(2) by (intro unat_of_nat_small) simp
    then show ?thesis by (metis of_nat_unat)
  qed
  obtain k where k: "j = 8 * k" using Suc.prems(6) by (auto simp: mod_eq_0_iff_dvd)
  have bits: "bit (g ! t) (7 - i) = glyph_on g n q (j + i)" if "i < 8" for i
  proof -
    have "(j + i) div 8 = j div 8" "(j + i) mod 8 = i" using that k by simp_all
    then show ?thesis by (simp add: glyph_on_def Suc.prems(5))
  qed
  define l where "l = min 8 (n - j)"
  have "unat y + l \<le> unat (lcd_height (lcddev s0))" using y0 Suc.prems(7,9) l_def by simp
  moreover have "bit (g ! t) (7 - i) = glyph_on g n q (j + i)" if "i < l" for i using bits that l_def by simp
  moreover have "l \<le> 8" by (simp add: l_def)
  ultimately obtain s1 where s1: "column h mode c l (g ! t) x y s = Some s1" "lcd_ok v s1" "lcd_frame v s1 = lcd_frame v s0"
    "lcd_look v s1 = (\<lambda>(a, b). if a = unat x \<and> unat y \<le> b \<and> b < unat y + l
        then ink (glyph_on g n q (j + (b - unat y))) (mode \<noteq> 0) c (ucast (g_back_color s0)) (lcd_look v s (a, b))
        else lcd_look v s (a, b))"
    using column_ok [OF law x Suc.prems(1,2), where y = y and m = l and temp = "g ! t" and f = "\<lambda>i. glyph_on g n q (j + i)" and mode = mode and c = c]
    by blast
  have "lcd_look v s1 = (\<lambda>(a, b). if a = unat x0 + q \<and> unat y0 + j \<le> b \<and> b < unat y0 + min (j + 8) n
        then ink (glyph_on g n q (b - unat y0)) (mode \<noteq> 0) c (ucast (g_back_color s0)) (lcd_look v s (a, b))
        else lcd_look v s (a, b))"
  proof -
    have "unat y + l = unat y0 + min (j + 8) n" using Suc.prems(7,9) l_def by simp
    then show ?thesis unfolding s1(4) Suc.prems(8) Suc.prems(9) by (auto simp: fun_eq_iff)
  qed
  then have look: "lcd_look v s1 = ?pic q (j + 8)" unfolding Suc.prems(3) printed_rows [OF le_add1] .
  have H16: "unat y0 + unat sz < 65536" using y0 n unat_u16_less [of "lcd_height (lcddev s0)"] by simp
  have fb: "font_bits h mode c sz y0 8 (g ! t) x y s = Some (if j + 8 < n then (x, y0 + of_nat (j + 8)) else (x + 1, y0), s1)"
    using font_bits_column [OF Suc.prems(9) Suc.prems(7) [unfolded n] H16, of h mode c 8 "g ! t" x s] s1(1)
    unfolding l_def n by (simp del: of_nat_add)
  have step: "font_bytes h mode c sz y0 mm dzk (Suc m) (of_nat t) x y s =
    (if j + 8 < n then font_bytes h mode c sz y0 mm dzk m (of_nat (t + 1)) x (y0 + of_nat (j + 8)) s1
     else font_bytes h mode c sz y0 mm dzk m (of_nat (t + 1)) (x + 1) y0 s1)"
    using fb g(3) [OF tl] tw by (simp add: add.commute)
  show ?case
  proof (cases "j + 8 < n")
    case True
    then have le: "unat y0 + (j + 8) < 65536" using H16 n by simp
    then have "unat (of_nat (j + 8) :: u16) = j + 8" by (intro unat_of_nat_small) simp
    then have y: "unat (y0 + of_nat (j + 8)) = unat y0 + (j + 8)"
      using le unat_add_lem [of y0 "of_nat (j + 8)"] by (simp del: of_nat_add)
    have "t + 1 + m = length g" "t + 1 = q * ?B + (j + 8) div 8" "(j + 8) mod 8 = 0" using Suc.prems(4-6) by simp_all
    from Suc.IH [OF s1(2,3) look this True Suc.prems(8) y] show ?thesis unfolding step using True by simp
  next
    case False
    have B: "j div 8 + 1 = ?B" by (rule next_byte [OF Suc.prems(6,7)]) (use False in simp)
    have look: "lcd_look v s1 = ?pic (Suc q) 0" using look printed_column False by (metis not_less)
    have x1: "unat (x + 1) = unat x0 + Suc q"
      using q x0 Suc.prems(8) unat_u16_less [of "lcd_width (lcddev s0)"] by (simp add: unat_add_lem [THEN iffD1])
    have "t + 1 + m = length g" "t + 1 = Suc q * ?B + 0 div 8" using Suc.prems(4,5) B by simp_all
    from Suc.IH [OF s1(2,3) look this _ n(2) x1] show ?thesis unfolding step using False by simp
  qed
qed

section \<open>Stores to the memory\<close>

lemma mem_set_store: "my_mem_set m a c n = mem_store m a (replicate n c)"
  by (induction n arbitrary: m a) simp_all

section \<open>The glyph of a code\<close>

definition hz_code :: "u8 \<Rightarrow> u8 \<Rightarrow> bool" where
  "hz_code qh ql \<longleftrightarrow> 0x81 \<le> qh \<and> qh \<noteq> 0xFF \<and> 0x40 \<le> ql \<and> ql \<noteq> 0xFF"

text \<open>The rows of the code table have 190 places: the second byte leaves out 0x7F.\<close>

definition hz_index :: "u8 \<Rightarrow> u8 \<Rightarrow> nat" where
  "hz_index qh ql = 190 * (unat qh - 0x81) + (if unat ql < 0x7F then unat ql - 0x40 else unat ql - 0x41)"

definition font_base :: "font_info \<Rightarrow> u8 \<Rightarrow> u32" where
  "font_base info sz = (if sz = 12 then f12addr info else if sz = 16 then f16addr info else if sz = 24 then f24addr info else f32addr info)"

definition glyph_place :: "font_info \<Rightarrow> u8 \<Rightarrow> u8 \<Rightarrow> u8 \<Rightarrow> nat" where
  "glyph_place info sz qh ql = unat (font_base info sz) + hz_index qh ql * unat (mat_bytes sz)"

definition hz_glyph :: "(nat \<Rightarrow> u8) \<Rightarrow> font_info \<Rightarrow> u8 \<Rightarrow> u8 \<Rightarrow> u8 \<Rightarrow> u8 list" where
  "hz_glyph f info sz qh ql =
     (if hz_code qh ql then window f (glyph_place info sz qh ql) (unat (mat_bytes sz)) else replicate (unat (mat_bytes sz)) 0)"

lemma mat_bytes_values: "mat_bytes 12 = 24" "mat_bytes 16 = 32" "mat_bytes 24 = 72" "mat_bytes 32 = 128"
  by code_simp+

lemma mat_bytes_size:
  assumes "font_size sz"
  shows "unat (mat_bytes sz) = unat sz * ((unat sz + 7) div 8)" "unat (mat_bytes sz) < 256" "0 < unat sz" "0 < unat (mat_bytes sz)"
  using assms by (auto simp: font_size_def mat_bytes_values)

lemma length_hz_glyph [simp]: "length (hz_glyph f info sz qh ql) = unat (mat_bytes sz)"
  by (simp add: hz_glyph_def)

lemma glyph_address:
  fixes qh ql :: u8
  assumes "hz_code qh ql"
  shows "(ucast ((190 * ucast (qh - 0x81) + ucast (if ql < 0x7F then ql - 0x40 else ql - 0x41)) * ucast c + ucast (b :: u32) :: 64 word) :: u32)
    = of_nat (unat b + hz_index qh ql * unat (c :: u8))"
proof -
  have q: "unat (qh - 0x81) = unat qh - 0x81" using assms by (simp add: hz_code_def unat_sub word_le_nat_alt)
  have l: "unat (if ql < 0x7F then ql - 0x40 else ql - 0x41) = (if unat ql < 0x7F then unat ql - 0x40 else unat ql - 0x41)"
    using assms by (auto simp: hz_code_def unat_sub word_le_nat_alt word_less_nat_alt)
  have up: "(ucast w :: 64 word) = of_nat (unat w)" for w :: "'a :: len word" by simp
  define N where "N = hz_index qh ql * unat c + unat b"
  have "(190 * ucast (qh - 0x81) + ucast (if ql < 0x7F then ql - 0x40 else ql - 0x41)) * ucast c + ucast b = (of_nat N :: 64 word)"
    unfolding up q l N_def hz_index_def by (simp only: of_nat_add of_nat_mult of_nat_numeral)
  moreover have "(ucast (of_nat N :: 64 word) :: u32) = of_nat N"
    by (simp add: unsigned_of_nat word_of_nat_eq_iff take_bit_nat_def mod_mod_cancel)
  ultimately show ?thesis by (simp add: N_def add.commute)
qed

lemma hz_mat_ok:
  assumes chip: "nor_chip spi nv (g_norflash_type (text_nor s)) cap" "busy nv (hw (text_nor s)) = 0"
    and sz: "font_size sz" and fit: "hz_code qh ql \<Longrightarrow> glyph_place (ftinfo s) sz qh ql + unat (mat_bytes sz) \<le> cap"
    and g: "g = hz_glyph (flash nv (hw (text_nor s))) (ftinfo s) sz qh ql"
  shows "\<exists>w. text_get_hz_mat spi (qh # ql # rest) mat sz s =
      Some (set_ram (mem_store (ram (text_heap s)) mat g) (s\<lparr>text_nor := (text_nor s)\<lparr>hw := w\<rparr>\<rparr>)) \<and>
    busy nv w = 0 \<and> flash nv w = flash nv (hw (text_nor s))"
proof (cases "hz_code qh ql")
  case False
  then have "qh < 0x81 \<or> ql < 0x40 \<or> ql = 0xFF \<or> qh = 0xFF" by (auto simp: hz_code_def not_le)
  then show ?thesis
    using False chip(2) by (intro exI [of _ "hw (text_nor s)"]) (auto simp: text_get_hz_mat_def arr_get_def g hz_glyph_def mem_set_store set_ram_def)
next
  case True
  then have valid: "\<not> (qh < 0x81 \<or> ql < 0x40 \<or> ql = 0xFF \<or> qh = 0xFF)" by (auto simp: hz_code_def not_le)
  let ?P = "glyph_place (ftinfo s) sz qh ql"
  have "?P + unat (ucast (mat_bytes sz) :: u16) \<le> cap" using fit [OF True] by simp
  from read_ok [OF chip this] obtain w where
    w: "norflash_read spi (g_norflash_type (text_nor s)) (of_nat ?P) (ucast (mat_bytes sz)) (hw (text_nor s)) = (g, w)"
      "busy nv w = 0" "flash nv w = flash nv (hw (text_nor s))"
    using True by (auto simp: g hz_glyph_def)
  then have rd: "mat_read spi mat (of_nat ?P) (mat_bytes sz) s =
      set_ram (mem_store (ram (text_heap s)) mat g) (s\<lparr>text_nor := (text_nor s)\<lparr>hw := w\<rparr>\<rparr>)"
    by (simp add: mat_read_def)
  have "text_get_hz_mat spi (qh # ql # rest) mat sz s = Some (mat_read spi mat (of_nat ?P) (mat_bytes sz) s)"
    using sz valid glyph_address [OF True, of "mat_bytes sz" "font_base (ftinfo s) sz"]
    unfolding glyph_place_def text_get_hz_mat_def by (auto simp: arr_get_def font_size_def font_base_def Let_def)
  then show ?thesis using rd w(2,3) by auto
qed

section \<open>A character is shown\<close>

definition text_ready :: "'s lcd_port \<Rightarrow> 's lcd_view \<Rightarrow> 'n spi5 \<Rightarrow> 'n chip_view \<Rightarrow> nat \<Rightarrow> ('n, 's) text_env \<Rightarrow> bool" where
  "text_ready h v spi nv cap s \<longleftrightarrow> lcd_law h v \<and> lcd_ok v (text_screen s) \<and>
     nor_chip spi nv (g_norflash_type (text_nor s)) cap \<and> busy nv (hw (text_nor s)) = 0 \<and>
     heap_inv (text_heap s) \<and> memrdy (text_heap s) SRAMIN \<noteq> 0 \<and> pool_placed SRAMIN (text_heap s)"

definition text_flash :: "'n chip_view \<Rightarrow> ('n, 's) text_env \<Rightarrow> nat \<Rightarrow> u8" where
  "text_flash nv s = flash nv (hw (text_nor s))"

lemma mem_store_glyph:
  "i < unat (mat_bytes sz) \<Longrightarrow> mem_store m a (hz_glyph f info sz qh ql) (a + of_nat i) = hz_glyph f info sz qh ql ! i"
  using unat_u8_less [of "mat_bytes sz"] by (intro mem_store_nth) simp_all

lemma font_shown:
  fixes x y :: u16
  assumes ready: "text_ready h v spi nv cap s" and sz: "font_size sz"
    and fit: "hz_code qh ql \<longrightarrow> glyph_place (ftinfo s) sz qh ql + unat (mat_bytes sz) \<le> cap"
    and x: "unat x + unat sz \<le> unat (lcd_width (lcddev (text_screen s)))"
    and y: "unat y + unat sz \<le> unat (lcd_height (lcddev (text_screen s)))"
    and alloc: "mymalloc SRAMIN (ucast sz) (text_heap s) = Some (dzk, p)" "dzk \<noteq> 0"
    and g: "g = hz_glyph (text_flash nv s) (ftinfo s) sz qh ql"
  shows "\<exists>t. text_show_font spi h x y (qh # ql # rest) sz mode c s = Some t \<and> text_ready h v spi nv cap t \<and>
    text_flash nv t = text_flash nv s \<and> ftinfo t = ftinfo s \<and> lcd_frame v (text_screen t) = lcd_frame v (text_screen s) \<and>
    lcd_look v (text_screen t) = printed g (unat sz) (mode \<noteq> 0) c (ucast (g_back_color (text_screen s)))
      (unat x) (unat y) (unat sz) (unat sz) 0 (lcd_look v (text_screen s)) \<and>
    text_heap t = (text_heap s)\<lparr>ram := mem_store (ram (text_heap s)) dzk g\<rparr>"
proof -
  let ?s1 = "s\<lparr>text_heap := p\<rparr>"
  note r = ready [unfolded text_ready_def]
  note m = mat_bytes_size [OF sz]
  obtain w where w: "text_get_hz_mat spi (qh # ql # rest) dzk sz ?s1 =
      Some (set_ram (mem_store (ram p) dzk g) (?s1\<lparr>text_nor := (text_nor s)\<lparr>hw := w\<rparr>\<rparr>))"
    "busy nv w = 0" "flash nv w = flash nv (hw (text_nor s))"
    using hz_mat_ok [of spi nv ?s1 cap sz qh ql g rest dzk] r sz fit g by (auto simp: text_flash_def)
  let ?m = "mem_store (ram p) dzk g"
  have gl: "length g = unat sz * ((unat sz + 7) div 8)" "length g < 256" using m g by simp_all
  have bytes: "?m (dzk + of_nat i) = g ! i" if "i < length g" for i
    using that unfolding g length_hz_glyph by (rule mem_store_glyph)
  have "0 + unat (mat_bytes sz) = length g" using g by simp
  from font_bytes_ok [OF _ refl m(3) x y gl bytes _ refl printed_start [symmetric] this _ _ m(3), of h v x y, where mode = mode and c = c] r
  obtain scr where scr: "font_bytes h mode c sz y ?m dzk (unat (mat_bytes sz)) 0 x y (text_screen s) = Some scr"
    "lcd_ok v scr" "lcd_frame v scr = lcd_frame v (text_screen s)"
    "lcd_look v scr = printed g (unat sz) (mode \<noteq> 0) c (ucast (g_back_color (text_screen s)))
      (unat x) (unat y) (unat sz) (unat sz) 0 (lcd_look v (text_screen s))"
    by auto
  obtain k n where blk: "ram p = ram (text_heap s)" "\<And>m. myfree SRAMIN dzk (p\<lparr>ram := m\<rparr>) = Some ((text_heap s)\<lparr>ram := m\<rparr>)"
    using mymalloc_block [OF _ _ _ alloc] r by metis
  let ?t = "?s1\<lparr>text_nor := (text_nor s)\<lparr>hw := w\<rparr>, text_heap := (text_heap s)\<lparr>ram := ?m\<rparr>, text_screen := scr\<rparr>"
  have "text_show_font spi h x y (qh # ql # rest) sz mode c s = Some ?t"
    using sz alloc w(1) scr(1) blk(2) [of ?m] by (auto simp: text_show_font_def font_size_def set_ram_def)
  moreover have "text_ready h v spi nv cap ?t"
    using r w(2) scr(2) by (simp add: text_ready_def pool_placed_def)
  ultimately show ?thesis using scr(3,4) w(3) blk(1) by (intro exI [of _ ?t]) (simp add: text_flash_def)
qed

lemma printed_box:
  "printed g n over c back x y n q 0 im =
    (\<lambda>(a, b). if x \<le> a \<and> a < x + q \<and> y \<le> b \<and> b < y + n then ink (glyph_on g n (a - x) (b - y)) over c back (im (a, b)) else im (a, b))"
proof
  fix p :: "nat \<times> nat"
  obtain a b where p: "p = (a, b)" by (cases p)
  have "x \<le> a \<and> y \<le> b \<and> b < y + n \<and> (a < x + q \<or> a = x + q \<and> b < y + 0) \<longleftrightarrow> x \<le> a \<and> a < x + q \<and> y \<le> b \<and> b < y + n"
    by linarith
  then show "printed g n over c back x y n q 0 im p =
    (case p of (a, b) \<Rightarrow> if x \<le> a \<and> a < x + q \<and> y \<le> b \<and> b < y + n then ink (glyph_on g n (a - x) (b - y)) over c back (im (a, b)) else im (a, b))"
    unfolding p printed_def prod.case by simp
qed

text \<open>The glyph stored to a block leaves the other blocks alone when it fits the block.\<close>

lemma glyph_in_block:
  assumes inv: "heap_inv s" "memrdy s b \<noteq> 0" "pool_placed b s" and alloc: "mymalloc b sz s = Some (dzk, p)" "dzk \<noteq> 0"
    and bs: "length bs \<le> 64" and kn: "(k, n) \<in> live b s" and i: "i < n * 64"
  shows "mem_store m dzk bs (membase s b + of_nat (k * 64) + of_nat i) = m (membase s b + of_nat (k * 64) + of_nat i)"
proof (rule mem_store_other)
  fix j assume j: "j < length bs"
  obtain r l where rl: "dzk = membase s b + of_nat (r * 64)" "r + l \<le> unat (memtblsize b)" "0 < l"
    "\<forall>y\<in>live b s. blocks_apart (r, l) y"
    using mymalloc_block [OF inv alloc] by metis
  have kb: "k + n \<le> unat (memtblsize b)" using live_used [OF inv(1) kn] by metis
  have apart: "blocks_apart (k, n) (r, l)" using rl(4) kn by (auto simp: blocks_apart_sym [of "(k, n)"])
  have jl: "j < l * 64" using j bs rl(3) by (cases l) simp_all
  show "membase s b + of_nat (k * 64) + of_nat i \<noteq> dzk + of_nat j"
    unfolding rl(1) by (rule pool_block_neq [OF inv(3) apart i jl kb rl(2)])
qed

section \<open>Text in a box\<close>

text \<open>
  What the display can show, up to the terminator: printable characters, two bytes for a Chinese
  character, and a carriage return with the byte after it, which is skipped.
\<close>

fun text_legal :: "u8 list \<Rightarrow> bool" where
  "text_legal [] = False"
| "text_legal (c # p) =
     (if c = 0 then True
      else if c > 0x80 \<or> c = 13 then p \<noteq> [] \<and> text_legal (drop 1 p)
      else 32 \<le> c \<and> c \<le> 126 \<and> text_legal p)"

text \<open>Nothing outside a box has changed.\<close>

definition box_only :: "nat \<Rightarrow> nat \<Rightarrow> nat \<Rightarrow> nat \<Rightarrow> image \<Rightarrow> image \<Rightarrow> bool" where
  "box_only x y w ht im im' \<longleftrightarrow> (\<forall>a b. \<not> (x \<le> a \<and> a < x + w \<and> y \<le> b \<and> b < y + ht) \<longrightarrow> im' (a, b) = im (a, b))"

lemma box_only_refl: "box_only x y w ht im im"
  by (simp add: box_only_def)

lemma box_only_trans: "box_only x y w ht im im1 \<Longrightarrow> box_only x y w ht im1 im2 \<Longrightarrow> box_only x y w ht im im2"
  by (simp add: box_only_def)

lemma printed_in_box:
  assumes "x \<le> a" "a + q \<le> x + w" "y \<le> b" "b + l \<le> y + ht"
  shows "box_only x y w ht im (printed g n over c back a b l q 0 im)"
  using assms by (auto simp: box_only_def printed_def)

text \<open>What the steps of the loop keep.\<close>

definition text_kept :: "'s lcd_port \<Rightarrow> 's lcd_view \<Rightarrow> 'n spi5 \<Rightarrow> 'n chip_view \<Rightarrow> nat \<Rightarrow> ('n, 's) text_env \<Rightarrow> ('n, 's) text_env \<Rightarrow> bool" where
  "text_kept h v spi nv cap s t \<longleftrightarrow> text_ready h v spi nv cap t \<and> ftinfo t = ftinfo s \<and>
     lcd_frame v (text_screen t) = lcd_frame v (text_screen s) \<and> memmap (text_heap t) = memmap (text_heap s)"

lemma font_in_box:
  fixes x y :: u16
  assumes ready: "text_ready h v spi nv cap s" and sz: "font_size sz"
    and fit: "hz_code qh ql \<longrightarrow> glyph_place (ftinfo s) sz qh ql + unat (mat_bytes sz) \<le> cap"
    and x: "unat x + unat sz \<le> unat (lcd_width (lcddev (text_screen s)))" "x0 \<le> unat x" "unat x + unat sz \<le> x0 + wd"
    and y: "unat y + unat sz \<le> unat (lcd_height (lcddev (text_screen s)))" "y0 \<le> unat y" "unat y + unat sz \<le> y0 + ht"
  shows "\<exists>t. text_show_font spi h x y (qh # ql # rest) sz mode c s = Some t \<and> text_kept h v spi nv cap s t \<and>
    box_only x0 y0 wd ht (lcd_look v (text_screen s)) (lcd_look v (text_screen t))"
proof -
  obtain dzk p where al: "mymalloc SRAMIN (ucast sz) (text_heap s) = Some (dzk, p)" "dzk = 0 \<longrightarrow> p = text_heap s"
    using mymalloc_fails [of "text_heap s" SRAMIN "ucast sz"] ready by (auto simp: text_ready_def)
  show ?thesis
  proof (cases "dzk = 0")
    case True
    then have "text_show_font spi h x y (qh # ql # rest) sz mode c s = Some s"
      using al sz by (auto simp: text_show_font_def font_size_def)
    then show ?thesis using ready by (simp add: text_kept_def box_only_refl)
  next
    case False
    from font_shown [OF ready sz fit x(1) y(1) al(1) this refl, of rest mode c] obtain t where
      "text_show_font spi h x y (qh # ql # rest) sz mode c s = Some t" "text_ready h v spi nv cap t"
      "ftinfo t = ftinfo s" "lcd_frame v (text_screen t) = lcd_frame v (text_screen s)"
      "lcd_look v (text_screen t) = printed (hz_glyph (text_flash nv s) (ftinfo s) sz qh ql) (unat sz) (mode \<noteq> 0) c
        (ucast (g_back_color (text_screen s))) (unat x) (unat y) (unat sz) (unat sz) 0 (lcd_look v (text_screen s))"
      "memmap (text_heap t) = memmap (text_heap s)" by auto
    then show ?thesis using printed_in_box [OF x(2,3) y(2,3)] by (intro exI [of _ t]) (simp add: text_kept_def)
  qed
qed

lemma char_in_box:
  fixes x y :: u16
  assumes ready: "text_ready h v spi nv cap s" and sz: "font_size sz" and chr: "32 \<le> chr" "chr \<le> 126"
    and x: "unat x + unat sz div 2 \<le> unat (lcd_width (lcddev (text_screen s)))" "x0 \<le> unat x" "unat x + unat sz div 2 \<le> x0 + wd"
    and y: "unat y + unat sz \<le> unat (lcd_height (lcddev (text_screen s)))" "y0 \<le> unat y" "unat y + unat sz \<le> y0 + ht"
  shows "\<exists>scr. lcd_show_char h x y chr sz mode c (text_screen s) = Some scr \<and> text_kept h v spi nv cap s (s\<lparr>text_screen := scr\<rparr>) \<and>
    box_only x0 y0 wd ht (lcd_look v (text_screen s)) (lcd_look v scr)"
proof -
  have r: "lcd_law h v" "lcd_ok v (text_screen s)" using ready by (simp_all add: text_ready_def)
  obtain g where g: "ascii_glyph sz (chr - 32) = Some g" using font_glyph(1) [OF sz chr] by blast
  have n: "12 \<le> unat sz" by (rule font_glyph(3) [OF sz chr])
  have lt: "unat x < unat (lcd_width (lcddev (text_screen s)))" "unat y < unat (lcd_height (lcddev (text_screen s)))"
    using n x(1) y(1) by simp_all
  define cols where "cols = (if unat y + unat sz < unat (lcd_height (lcddev (text_screen s)))
    then min (unat sz div 2) (unat (lcd_width (lcddev (text_screen s))) - unat x) else 1)"
  define l where "l = min (unat sz) (unat (lcd_height (lcddev (text_screen s))) - unat y)"
  obtain scr where scr: "lcd_show_char h x y chr sz mode c (text_screen s) = Some scr" "lcd_ok v scr"
    "lcd_frame v scr = lcd_frame v (text_screen s)"
    "lcd_look v scr = printed g (unat sz) (mode \<noteq> 0) c (ucast (g_back_color (text_screen s))) (unat x) (unat y) l cols 0 (lcd_look v (text_screen s))"
    using char_shown [OF r sz chr lt refl l_def cols_def g] by blast
  have "unat x + cols \<le> x0 + wd" "unat y + l \<le> y0 + ht" using x(3) y(3) n by (auto simp: cols_def l_def)
  then have "box_only x0 y0 wd ht (lcd_look v (text_screen s)) (lcd_look v scr)"
    unfolding scr(4) using x(2) y(2) by (intro printed_in_box)
  then show ?thesis using scr ready by (simp add: text_kept_def text_ready_def)
qed

text \<open>Where the next character goes: still in the box sideways, and in it downwards or the text is over.\<close>

lemma line_feed_box:
  assumes w: "unat wid \<le> unat width" "unat sz \<le> unat height"
    and box: "unat x0 + unat width < 65536" "unat y0 + unat height + unat sz < 65536"
    and xy: "unat x0 \<le> unat x" "unat y0 \<le> unat y" "unat y \<le> unat y0 + unat height"
    and lf: "line_feed x0 width sz wid x y = (x1, y1)"
  shows "unat x0 \<le> unat x1 \<and> unat x1 + unat wid \<le> unat x0 + unat width \<and> unat y0 \<le> unat y1"
    "\<not> uint y1 > uint y0 + uint height - uint sz \<Longrightarrow> unat y1 + unat sz \<le> unat y0 + unat height"
proof -
  have "unat (y + ucast sz) = unat y + unat sz" using box(2) xy(3) by (subst unat_add_lem [THEN iffD1]) simp_all
  moreover have "uint x > uint x0 + uint width - uint wid \<longleftrightarrow> unat x + unat wid > unat x0 + unat width"
    unfolding uint_nat by linarith
  ultimately show "unat x0 \<le> unat x1 \<and> unat x1 + unat wid \<le> unat x0 + unat width \<and> unat y0 \<le> unat y1"
    using lf w xy by (auto simp: line_feed_def split: if_splits)
  show "\<not> uint y1 > uint y0 + uint height - uint sz \<Longrightarrow> unat y1 + unat sz \<le> unat y0 + unat height"
    unfolding uint_nat by linarith
qed

lemma text_loop_in_box:
  assumes sz: "font_size sz" and w: "unat sz \<le> unat width" "unat sz \<le> unat height"
    and box: "unat x0 + unat width \<le> unat (lcd_width (lcddev (text_screen s0)))"
      "unat y0 + unat height \<le> unat (lcd_height (lcddev (text_screen s0)))" "unat y0 + unat height + unat sz < 65536"
    and fit: "\<And>qh ql. hz_code qh ql \<longrightarrow> glyph_place (ftinfo s0) sz qh ql + unat (mat_bytes sz) \<le> cap"
  shows "text_legal p \<Longrightarrow> text_kept h v spi nv cap s0 s \<Longrightarrow>
    unat x0 \<le> unat x \<Longrightarrow> unat x \<le> unat x0 + unat width \<Longrightarrow> unat y0 \<le> unat y \<Longrightarrow> unat y \<le> unat y0 + unat height \<Longrightarrow>
    \<exists>t. text_loop spi h x0 y0 width height sz mode c 0 x y p s = Some t \<and> text_kept h v spi nv cap s0 t \<and>
      box_only (unat x0) (unat y0) (unat width) (unat height) (lcd_look v (text_screen s)) (lcd_look v (text_screen t))"
proof (induction p arbitrary: x y s rule: text_legal.induct)
  case 1
  then show ?case by simp
next
  case (2 e p)
  let ?only = "box_only (unat x0) (unat y0) (unat width) (unat height)"
  have kept: "text_ready h v spi nv cap s" "ftinfo s = ftinfo s0" "lcddev (text_screen s) = lcddev (text_screen s0)"
    using 2(4) same_frame(1) by (auto simp: text_kept_def)
  have W: "unat x0 + unat width < 65536" using box(1) unat_u16_less [of "lcd_width (lcddev (text_screen s0))"] by simp
  have half: "unat (sz div 2) = unat sz div 2" "0 < unat sz div 2" using sz by (auto simp: font_size_def unat_div)
  consider (stop) "e = 0" | (hanzi) "e > 0x80" "e \<noteq> 0" | (feed) "e = 13" | (ascii) "e \<noteq> 0" "\<not> e > 0x80" "e \<noteq> 13" by fastforce
  then show ?case
  proof cases
    case stop
    then show ?thesis using 2(4) by (simp add: text_loop.simps box_only_refl)
  next
    case hanzi
    obtain x1 y1 where lf: "line_feed x0 width sz sz x y = (x1, y1)" by fastforce
    note b = line_feed_box [OF w W box(3) 2(5,7,8) lf]
    obtain d q where p: "p = d # q" using 2(3) hanzi by (cases p) auto
    have step: "text_loop spi h x0 y0 width height sz mode c 0 x y (e # p) s =
      (if uint y1 > uint y0 + uint height - uint sz then Some s
       else do { s1 \<leftarrow> text_show_font spi h x1 y1 (e # p) sz mode c s;
         text_loop spi h x0 y0 width height sz mode c 0 (x1 + ucast sz) y1 (drop 1 p) s1 })"
      using hanzi by (simp add: text_loop.simps(2) lf)
    show ?thesis
    proof (cases "uint y1 > uint y0 + uint height - uint sz")
      case True
      then show ?thesis unfolding step using 2(4) by (simp add: box_only_refl)
    next
      case False
      note y1 = b(2) [OF False]
      from font_in_box [OF kept(1) sz, of e d x1 "unat x0" "unat width" y1 "unat y0" "unat height" q mode c] obtain s1 where
        s1: "text_show_font spi h x1 y1 (e # p) sz mode c s = Some s1" "text_kept h v spi nv cap s s1"
          "?only (lcd_look v (text_screen s)) (lcd_look v (text_screen s1))"
        using b(1) y1 fit kept(2,3) box(1,2) p by auto
      have k1: "text_kept h v spi nv cap s0 s1" using s1(2) 2(4) by (simp add: text_kept_def)
      have "unat (x1 + ucast sz) = unat x1 + unat sz" using b(1) W by (subst unat_add_lem [THEN iffD1]) simp_all
      then obtain t where "text_loop spi h x0 y0 width height sz mode c 0 (x1 + ucast sz) y1 (drop 1 p) s1 = Some t"
        "text_kept h v spi nv cap s0 t" "?only (lcd_look v (text_screen s1)) (lcd_look v (text_screen t))"
        using 2(1) [OF hanzi(2) _ _ k1, of "x1 + ucast sz" y1] 2(3) hanzi b(1) y1 by auto
      then show ?thesis unfolding step using False s1(1) box_only_trans [OF s1(3)] by auto
    qed
  next
    case feed
    obtain x1 y1 where lf: "line_feed x0 width sz (sz div 2) x y = (x1, y1)" by fastforce
    have wh: "unat (sz div 2) \<le> unat width" using w(1) half(1) by simp
    note b = line_feed_box [OF wh w(2) W box(3) 2(5,7,8) lf]
    have step: "text_loop spi h x0 y0 width height sz mode c 0 x y (e # p) s =
      (if uint y1 > uint y0 + uint height - uint sz then Some s
       else text_loop spi h x0 y0 width height sz mode c 0 (x0 + ucast (sz div 2)) (y1 + ucast sz) (drop 1 p) s)"
      using feed by (simp add: text_loop.simps(2) lf)
    show ?thesis
    proof (cases "uint y1 > uint y0 + uint height - uint sz")
      case True
      then show ?thesis unfolding step using 2(4) by (simp add: box_only_refl)
    next
      case False
      note y1 = b(2) [OF False]
      have "unat (x0 + ucast (sz div 2)) = unat x0 + unat sz div 2" "unat (y1 + ucast sz) = unat y1 + unat sz"
        using W wh half(1) y1 box(3) by (subst unat_add_lem [THEN iffD1]; simp)+
      then show ?thesis unfolding step
        using 2(1) [OF _ _ _ 2(4), of "x0 + ucast (sz div 2)" "y1 + ucast sz"] 2(3) feed b(1) y1 False wh half(1) by auto
    qed
  next
    case ascii
    obtain x1 y1 where lf: "line_feed x0 width sz (sz div 2) x y = (x1, y1)" by fastforce
    have wh: "unat (sz div 2) \<le> unat width" using w(1) half(1) by simp
    note b = line_feed_box [OF wh w(2) W box(3) 2(5,7,8) lf]
    have e: "32 \<le> e" "e \<le> 126" "text_legal p" using 2(3) ascii by simp_all
    have step: "text_loop spi h x0 y0 width height sz mode c 0 x y (e # p) s =
      (if uint y1 > uint y0 + uint height - uint sz then Some s
       else do { scr \<leftarrow> lcd_show_char h x1 y1 e sz mode c (text_screen s);
         text_loop spi h x0 y0 width height sz mode c 0 (x1 + ucast (sz div 2)) y1 p (s\<lparr>text_screen := scr\<rparr>) })"
      using ascii by (simp add: text_loop.simps(2) lf)
    show ?thesis
    proof (cases "uint y1 > uint y0 + uint height - uint sz")
      case True
      then show ?thesis unfolding step using 2(4) by (simp add: box_only_refl)
    next
      case False
      note y1 = b(2) [OF False]
      from char_in_box [OF kept(1) sz e(1,2), of x1 "unat x0" "unat width" y1 "unat y0" "unat height" mode c] obtain scr where
        s1: "lcd_show_char h x1 y1 e sz mode c (text_screen s) = Some scr" "text_kept h v spi nv cap s (s\<lparr>text_screen := scr\<rparr>)"
          "?only (lcd_look v (text_screen s)) (lcd_look v scr)"
        using b(1) y1 kept(3) box(1,2) half(1) by auto
      have k1: "text_kept h v spi nv cap s0 (s\<lparr>text_screen := scr\<rparr>)" using s1(2) 2(4) by (simp add: text_kept_def)
      have "unat (x1 + ucast (sz div 2)) = unat x1 + unat (sz div 2)" using b(1) W by (subst unat_add_lem [THEN iffD1]) simp_all
      then obtain t where "text_loop spi h x0 y0 width height sz mode c 0 (x1 + ucast (sz div 2)) y1 p (s\<lparr>text_screen := scr\<rparr>) = Some t"
        "text_kept h v spi nv cap s0 t" "?only (lcd_look v scr) (lcd_look v (text_screen t))"
        using 2(2) [OF _ _ e(3) k1, of "x1 + ucast (sz div 2)" y1] ascii b(1) y1 by auto
      then show ?thesis unfolding step using False s1(1) box_only_trans [OF s1(3)] by auto
    qed
  qed
qed

section \<open>A board to evaluate on\<close>

definition demo_text :: "heap \<Rightarrow> (sim, lsim) text_env" where
  "demo_text p =
     \<lparr>text_heap = p, text_nor = blank_flash, text_screen = mcu_screen,
      ftinfo = \<lparr>fontok = 0xAA, ugbkaddr = 0x1900029, ugbksize = 0x2AA00, f12addr = 0x192AA29, gbk12size = 0x8C400,
        f16addr = 0x19B6E29, gbk16size = 0xBB000, f24addr = 0x1A71E29, gbk24size = 0x1A4F00, f32addr = 0x1C16D29, gbk32size = 0x2EC000\<rparr>\<rparr>"

lemma demo_screen [simp]: "text_screen (demo_text p) = mcu_screen" "g_back_color mcu_screen = 0xFFFFFFFF"
  by (simp_all add: demo_text_def mcu_screen_def)

lemma demo_text_ready:
  "heap_inv p \<Longrightarrow> memrdy p SRAMIN \<noteq> 0 \<Longrightarrow> pool_placed SRAMIN p \<Longrightarrow> text_ready lsim_port lsim_view sim_dev sim_view (2 ^ 25) (demo_text p)"
  using sim_nor_chip lsim_law screens_ok(2)
  by (simp add: text_ready_def demo_text_def blank_flash_def sim_view_def)

lemma demo_one_block:
  "\<exists>p. mymalloc SRAMIN 16 demo_heap = Some (0x1000C7C0, p)"
  "\<exists>p. mymalloc SRAMIN 32 (heap_alloc SRAMIN 100 demo_heap) = Some (0x1000C740, p)"
proof -
  have "table_scan (replicate 800 0) 1 0 (Suc 799) = Some 799" unfolding table_scan.simps Let_def by simp
  moreover have "ready SRAMIN demo_heap = demo_heap" "memmap demo_heap SRAMIN = replicate 800 0"
    by (simp_all add: ready_def unat_memtblsize)
  ultimately show "\<exists>p. mymalloc SRAMIN 16 demo_heap = Some (0x1000C7C0, p)"
    using arr_fill_Some [of 799 1 "replicate 800 (0 :: u32)" 1]
    by (simp add: mymalloc_def my_mem_malloc_unfold nmemb_of_def unat_memtblsize)
  let ?s = "heap_alloc SRAMIN 100 demo_heap"
  have "table_scan (replicate 798 0 @ [2, 2]) 1 0 (Suc (Suc (Suc 797))) = Some 797"
    unfolding table_scan.simps Let_def by (simp add: nth_append)
  moreover have "ready SRAMIN ?s = ?s" "memmap ?s SRAMIN = replicate 798 0 @ [2, 2]" "membase ?s SRAMIN = 0x10000000"
    by (simp_all add: demo_alloc ready_def numeral_2_eq_2)
  ultimately show "\<exists>p. mymalloc SRAMIN 32 ?s = Some (0x1000C740, p)"
    using arr_fill_Some [of 797 1 "replicate 798 (0 :: u32) @ [2, 2]" 1]
    by (simp add: mymalloc_def my_mem_malloc_unfold nmemb_of_def unat_memtblsize)
qed

section \<open>Properties\<close>

text \<open>C17: A Chinese character inside the display shows the glyph that its code has in the font in the
  flash, or an empty box when the code is none; flash, directory and table of the heap are as before.
  The bytes of the glyph pass through the memory at the block that the heap hands out: for the sizes
  12 and 16 they fit it, and every block of another owner keeps its contents.\<close>

theorem text_show_font_correct:
  fixes x y :: u16
  assumes "text_ready h v spi nv cap s" "font_size sz"
    and "hz_code qh ql \<longrightarrow> glyph_place (ftinfo s) sz qh ql + unat (mat_bytes sz) \<le> cap"
    and "unat x + unat sz \<le> unat (lcd_width (lcddev (text_screen s)))"
    and "unat y + unat sz \<le> unat (lcd_height (lcddev (text_screen s)))"
    and "mymalloc SRAMIN (ucast sz) (text_heap s) = Some (dzk, p)" "dzk \<noteq> 0"
    and "g = hz_glyph (text_flash nv s) (ftinfo s) sz qh ql"
  shows "\<exists>t. text_show_font spi h x y (qh # ql # rest) sz mode c s = Some t \<and> text_ready h v spi nv cap t \<and>
    text_flash nv t = text_flash nv s \<and> ftinfo t = ftinfo s \<and> lcd_frame v (text_screen t) = lcd_frame v (text_screen s) \<and>
    lcd_look v (text_screen t) = (\<lambda>(a, b).
      if unat x \<le> a \<and> a < unat x + unat sz \<and> unat y \<le> b \<and> b < unat y + unat sz
      then ink (glyph_on g (unat sz) (a - unat x) (b - unat y)) (mode \<noteq> 0) c (ucast (g_back_color (text_screen s)))
        (lcd_look v (text_screen s) (a, b))
      else lcd_look v (text_screen s) (a, b)) \<and>
    memmap (text_heap t) = memmap (text_heap s) \<and> live SRAMIN (text_heap t) = live SRAMIN (text_heap s) \<and>
    (sz \<le> 16 \<longrightarrow> (\<forall>(k, n)\<in>live SRAMIN (text_heap s). \<forall>i<n * 64.
       ram (text_heap t) (membase (text_heap s) SRAMIN + of_nat (k * 64) + of_nat i) =
       ram (text_heap s) (membase (text_heap s) SRAMIN + of_nat (k * 64) + of_nat i)))"
proof -
  obtain t where t: "text_show_font spi h x y (qh # ql # rest) sz mode c s = Some t" "text_ready h v spi nv cap t"
    "text_flash nv t = text_flash nv s" "ftinfo t = ftinfo s" "lcd_frame v (text_screen t) = lcd_frame v (text_screen s)"
    "lcd_look v (text_screen t) = printed g (unat sz) (mode \<noteq> 0) c (ucast (g_back_color (text_screen s)))
      (unat x) (unat y) (unat sz) (unat sz) 0 (lcd_look v (text_screen s))"
    "text_heap t = (text_heap s)\<lparr>ram := mem_store (ram (text_heap s)) dzk g\<rparr>"
    using font_shown [OF assms] by blast
  have "length g \<le> 64" if "sz \<le> 16"
    using that assms(2,8) by (auto simp: font_size_def mat_bytes_values)
  then have "sz \<le> 16 \<longrightarrow> (\<forall>(k, n)\<in>live SRAMIN (text_heap s). \<forall>i<n * 64.
       ram (text_heap t) (membase (text_heap s) SRAMIN + of_nat (k * 64) + of_nat i) =
       ram (text_heap s) (membase (text_heap s) SRAMIN + of_nat (k * 64) + of_nat i))"
    using glyph_in_block [OF _ _ _ assms(6,7)] assms(1) by (auto simp: t(7) text_ready_def)
  then show ?thesis using t unfolding printed_box by (intro exI [of _ t]) simp
qed

lemma text_show_font_correct_witness:
  "\<exists>t. text_show_font sim_dev lsim_port 100 50 [0xB0, 0xA1, 0] 16 0 0x1F (demo_text demo_heap) = Some t \<and>
    lcd_look lsim_view (text_screen t) (115, 64) = 0x1F"
proof -
  obtain p where p: "mymalloc SRAMIN (ucast (16 :: u8)) (text_heap (demo_text demo_heap)) = Some (0x1000C7C0, p)"
    using demo_one_block(1) by (auto simp: demo_text_def)
  note ready = demo_text_ready [OF demo_heap_inv demo_ready]
  have sz: "font_size 16" by (simp add: font_size_def)
  have fit: "hz_code 0xB0 0xA1 \<longrightarrow> glyph_place (ftinfo (demo_text demo_heap)) 16 0xB0 0xA1 + unat (mat_bytes 16) \<le> 2 ^ 25"
    by (simp add: glyph_place_def hz_index_def font_base_def mat_bytes_values demo_text_def)
  have x: "unat (100 :: u16) + unat (16 :: u8) \<le> unat (lcd_width (lcddev (text_screen (demo_text demo_heap))))"
    and y: "unat (50 :: u16) + unat (16 :: u8) \<le> unat (lcd_height (lcddev (text_screen (demo_text demo_heap))))"
    by (simp_all add: demo_text_def mcu_screen_def)
  have nz: "(0x1000C7C0 :: u32) \<noteq> 0" by simp
  have "text_flash sim_view (demo_text demo_heap) = (\<lambda>_. 0x5A)"
    by (simp add: text_flash_def demo_text_def blank_flash_def sim_view_def)
  then have "glyph_on (hz_glyph (text_flash sim_view (demo_text demo_heap)) (ftinfo (demo_text demo_heap)) 16 0xB0 0xA1) 16 15 14"
    by (simp add: glyph_on_def hz_glyph_def hz_code_def mat_bytes_values window_def bit_numeral_rec)
  with text_show_font_correct [OF ready sz fit x y p nz refl, where mode = 0 and c = "0x1F" and rest = "[0]"] show ?thesis
    by - (elim exE conjE, intro exI conjI, assumption, simp add: ink_def)
qed

text \<open>C19: The block is allocated for as many bytes as the font has rows, but the glyph has three times
  as many for the size 24, which is 72 bytes, and four times as many for the size 32, which is 128 bytes.
  Both are longer than the 64 bytes that were handed out: when the next 64 bytes belong to another owner,
  their contents are overwritten with the rest of the glyph, although they stay allocated.\<close>

theorem text_font_overflow:
  fixes x y :: u16
  assumes "text_ready h v spi nv cap s" "font_size sz" "24 \<le> sz"
    and "hz_code qh ql \<longrightarrow> glyph_place (ftinfo s) sz qh ql + unat (mat_bytes sz) \<le> cap"
    and "unat x + unat sz \<le> unat (lcd_width (lcddev (text_screen s)))"
    and "unat y + unat sz \<le> unat (lcd_height (lcddev (text_screen s)))"
    and "mymalloc SRAMIN (ucast sz) (text_heap s) = Some (dzk, p)" "dzk \<noteq> 0"
    and "g = hz_glyph (text_flash nv s) (ftinfo s) sz qh ql"
    and "(k, n) \<in> live SRAMIN (text_heap s)" "membase (text_heap s) SRAMIN + of_nat (k * 64) = dzk + 64"
  shows "\<exists>t. text_show_font spi h x y (qh # ql # rest) sz mode c s = Some t \<and>
    (k, n) \<in> live SRAMIN (text_heap t) \<and> length g = (if sz = 24 then 72 else 128) \<and>
    (\<forall>i<length g - 64. ram (text_heap t) (membase (text_heap s) SRAMIN + of_nat (k * 64) + of_nat i) = g ! (64 + i))"
proof -
  obtain t where t: "text_show_font spi h x y (qh # ql # rest) sz mode c s = Some t"
    "text_heap t = (text_heap s)\<lparr>ram := mem_store (ram (text_heap s)) dzk g\<rparr>"
    using font_shown [OF assms(1,2,4-9)] by blast
  have len: "length g = (if sz = 24 then 72 else 128)"
    using assms(2,3,9) by (auto simp: font_size_def mat_bytes_values)
  have "mem_store (ram (text_heap s)) dzk g (dzk + 64 + of_nat i) = g ! (64 + i)" if "i < length g - 64" for i
    using mem_store_glyph [of "64 + i" sz "ram (text_heap s)" dzk "text_flash nv s" "ftinfo s" qh ql] that assms(9)
    by (simp add: add.assoc)
  then show ?thesis using t len assms(10,11) by (intro exI [of _ t]) simp
qed

lemma text_font_overflow_witness:
  "\<exists>t. text_show_font sim_dev lsim_port 100 50 [0xB0, 0xA1, 0] 32 0 0x1F (demo_text (heap_alloc SRAMIN 100 demo_heap)) = Some t \<and>
    (798, 2) \<in> live SRAMIN (text_heap t) \<and>
    ram (heap_alloc SRAMIN 100 demo_heap) 0x1000C780 = 0 \<and> ram (text_heap t) 0x1000C780 = 0x5A"
proof -
  let ?h = "heap_alloc SRAMIN 100 demo_heap"
  obtain p where p: "mymalloc SRAMIN (ucast (32 :: u8)) (text_heap (demo_text ?h)) = Some (0x1000C740, p)"
    using demo_one_block(2) by (auto simp: demo_text_def)
  have "pool_placed SRAMIN ?h" "memrdy ?h SRAMIN \<noteq> 0" "membase ?h SRAMIN = 0x10000000" "ram ?h 0x1000C780 = 0"
    using demo_ready by (simp_all add: demo_alloc pool_placed_def)
  note h = this
  note ready = demo_text_ready [OF heap_alloc_inv [OF demo_heap_inv] h(2,1)]
  have sz: "font_size 32" "(24 :: u8) \<le> 32" by (simp_all add: font_size_def)
  have fit: "hz_code 0xB0 0xA1 \<longrightarrow> glyph_place (ftinfo (demo_text ?h)) 32 0xB0 0xA1 + unat (mat_bytes 32) \<le> 2 ^ 25"
    by (simp add: glyph_place_def hz_index_def font_base_def mat_bytes_values demo_text_def)
  have x: "unat (100 :: u16) + unat (32 :: u8) \<le> unat (lcd_width (lcddev (text_screen (demo_text ?h))))"
    and y: "unat (50 :: u16) + unat (32 :: u8) \<le> unat (lcd_height (lcddev (text_screen (demo_text ?h))))"
    by (simp_all add: demo_text_def mcu_screen_def)
  have nz: "(0x1000C740 :: u32) \<noteq> 0" by simp
  have blk: "(798, 2) \<in> live SRAMIN (text_heap (demo_text ?h))"
    "membase (text_heap (demo_text ?h)) SRAMIN + of_nat (798 * 64) = 0x1000C740 + 64"
    using demo_alloc_live h(3) by (simp_all add: demo_text_def)
  have "text_flash sim_view (demo_text ?h) = (\<lambda>_. 0x5A)"
    by (simp add: text_flash_def demo_text_def blank_flash_def sim_view_def)
  then have "hz_glyph (text_flash sim_view (demo_text ?h)) (ftinfo (demo_text ?h)) 32 0xB0 0xA1 ! (64 + 0) = 0x5A"
    by (simp add: hz_glyph_def hz_code_def mat_bytes_values window_def)
  with text_font_overflow [OF ready sz fit x y p nz refl blk, where mode = 0 and c = "0x1F" and rest = "[0]"] h(4) blk(2)
  show ?thesis by - (elim exE conjE, intro exI conjI, assumption+, drule spec [of _ 0], simp)
qed

lemma hz_index_bound: "hz_code qh ql \<Longrightarrow> hz_index qh ql < 23940"
proof -
  assume "hz_code qh ql"
  then have "unat qh \<noteq> 255" "unat ql \<noteq> 255" "unat qh < 256" "unat ql < 256"
    using unat_u8_less [of qh] unat_u8_less [of ql] word_of_unat [of qh 255] word_of_unat [of ql 255] by (auto simp: hz_code_def)
  then have a: "190 * (unat qh - 0x81) \<le> 23750" and b: "unat ql - 0x41 \<le> 189" by simp_all
  have "unat ql < 0x7F \<Longrightarrow> unat ql - 0x40 \<le> 189" by simp
  with b have "(if unat ql < 0x7F then unat ql - 0x40 else unat ql - 0x41) \<le> 189" by simp
  from add_mono [OF a this] show ?thesis by (simp only: hz_index_def)
qed

text \<open>C18: Text of printable characters, Chinese characters and line ends, put into a box of the display
  that has room for one character, stays in the box, whatever its length: the routine returns, and no
  point outside the box changes. It does so also when the heap has no block left; then the Chinese
  characters are missing.\<close>

theorem text_stays_in_box:
  fixes x y width height :: u16
  assumes "text_ready h v spi nv cap s" "font_size sz" "text_legal str"
    and "unat sz \<le> unat width" "unat sz \<le> unat height"
    and "unat x + unat width \<le> unat (lcd_width (lcddev (text_screen s)))"
    and "unat y + unat height \<le> unat (lcd_height (lcddev (text_screen s)))" "unat y + unat height + unat sz < 65536"
    and "\<forall>qh ql. hz_code qh ql \<longrightarrow> glyph_place (ftinfo s) sz qh ql + unat (mat_bytes sz) \<le> cap"
  shows "\<exists>t. text_show_string spi h x y width height str sz mode c s = Some t \<and> text_ready h v spi nv cap t \<and>
    memmap (text_heap t) = memmap (text_heap s) \<and>
    (\<forall>a b. \<not> (unat x \<le> a \<and> a < unat x + unat width \<and> unat y \<le> b \<and> b < unat y + unat height) \<longrightarrow>
       lcd_look v (text_screen t) (a, b) = lcd_look v (text_screen s) (a, b))"
proof -
  have "text_kept h v spi nv cap s s" using assms(1) by (simp add: text_kept_def)
  from text_loop_in_box [OF assms(2,4,5,6,7,8) _ assms(3) this, where x = x and y = y and mode = mode and c = c] assms(9)
  show ?thesis by (auto simp: text_show_string_def text_kept_def box_only_def)
qed

lemma text_stays_in_box_witness:
  "\<exists>t. text_show_string sim_dev lsim_port 100 50 40 32 [65, 0xB0, 0xA1, 13, 10, 66, 67, 68, 69, 0] 16 0 0x1F (demo_text demo_heap) = Some t \<and>
    lcd_look lsim_view (text_screen t) (140, 60) = lcd_look lsim_view mcu_screen (140, 60)"
proof -
  have "glyph_place (ftinfo (demo_text demo_heap)) 16 qh ql + unat (mat_bytes 16) \<le> 2 ^ 25" if "hz_code qh ql" for qh ql
    using hz_index_bound [OF that] by (simp add: glyph_place_def font_base_def mat_bytes_values demo_text_def)
  moreover have "font_size 16" "text_legal [65, 0xB0, 0xA1, 13, 10, 66, 67, 68, 69, 0]" by (simp_all add: font_size_def)
  ultimately show ?thesis
    using text_stays_in_box [OF demo_text_ready [OF demo_heap_inv demo_ready], of 16 "[65, 0xB0, 0xA1, 13, 10, 66, 67, 68, 69, 0]" 40 32 100 50 0 "0x1F"]
    by (auto simp: mcu_screen_def demo_text_def)
qed

text \<open>A control character other than the carriage return, or a code from 127 to 128, has no glyph: the
  code takes the bytes of one from outside the tables of the font. A lone newline is such a character.\<close>

theorem text_control_character:
  fixes x y width height :: u16
  assumes "font_size sz" "e \<noteq> 0" "e \<noteq> 13" "e < 32 \<or> 127 \<le> e" "e \<le> 0x80"
    and "unat sz \<le> unat width" "unat sz \<le> unat height"
  shows "text_show_string spi h x y width height (e # str) sz mode c s = None"
proof -
  have sz: "unat (sz div 2) = unat sz div 2" using assms(1) by (auto simp: font_size_def unat_div)
  have "\<not> uint x > uint x + uint width - uint (sz div 2)" "\<not> uint y > uint y + uint height - uint sz"
    unfolding uint_nat sz using assms(6,7) by linarith+
  then have "text_show_string spi h x y width height (e # str) sz mode c s =
    (case lcd_show_char h x y e sz mode c (text_screen s) of None \<Rightarrow> None
     | Some scr \<Rightarrow> text_loop spi h x y width height sz mode c 0 (x + ucast (sz div 2)) y str (s\<lparr>text_screen := scr\<rparr>))"
    using assms(2,3,5) by (auto simp: text_show_string_def text_loop.simps(2) line_feed_def split: option.split)
  moreover have "95 \<le> unat (e - 32)"
  proof (cases "e < 32")
    case True
    then have "unat (e - 32) = 256 + unat e - 32" by (simp add: unat_sub_if_size word_less_nat_alt word_size)
    then show ?thesis by simp
  next
    case False
    then show ?thesis using assms(4) by (simp add: unat_sub word_le_nat_alt not_less word_less_nat_alt)
  qed
  then have "ascii_glyph sz (e - 32) = None"
    using font_sizes by (simp add: ascii_glyph_def arr_get_def)
  then have "lcd_show_char h x y e sz mode c (text_screen s) = None"
    using assms(1) by (auto simp: lcd_show_char_def font_size_def)
  ultimately show ?thesis by simp
qed

lemma text_control_character_witness:
  "text_show_string sim_dev lsim_port 100 50 40 32 [10, 65, 0] 16 0 0x1F (demo_text demo_heap) = None"
  by (rule text_control_character) (simp_all add: font_size_def)

section \<open>The other routines\<close>

text \<open>\<open>text_show_string_middle\<close> puts a text that is not wider than the given width in its middle.\<close>

lemma text_middle:
  fixes x y width :: u16
  assumes "0 \<in> set str" "length (takeWhile (\<lambda>c. c \<noteq> 0) str) * (unat sz div 2) \<le> unat width"
  shows "text_show_string_middle spi h x y str sz width c s =
    text_show_string spi h (x + of_nat ((unat width - length (takeWhile (\<lambda>c. c \<noteq> 0) str) * (unat sz div 2)) div 2)) y
      (lcd_width (lcddev (text_screen s))) (lcd_height (lcddev (text_screen s))) str sz 1 c s"
proof -
  let ?n = "length (takeWhile (\<lambda>c. c \<noteq> 0) str)"
  let ?l = "of_nat ?n * ucast (sz div 2) :: u16"
  have "(ucast (sz div 2) :: u16) = of_nat (unat (sz div 2))" by simp
  then have "?l = of_nat (?n * (unat sz div 2))" unfolding of_nat_mult unat_div by simp
  moreover have "?n * (unat sz div 2) < 65536" using assms(2) unat_u16_less [of width] by simp
  ultimately have l: "unat ?l = ?n * (unat sz div 2)" using unat_of_nat_small [of "?n * (unat sz div 2)", where 'a = 16] by simp
  then have "\<not> ?l > width" using assms(2) by (simp add: word_less_nat_alt)
  moreover have "(width - ?l) div 2 = of_nat ((unat width - ?n * (unat sz div 2)) div 2)"
    by (rule word_of_unat) (use assms(2) l in \<open>simp add: unat_div unat_sub word_le_nat_alt\<close>)
  ultimately show ?thesis using assms(1) by (simp add: text_show_string_middle_def add.commute Let_def)
qed

text \<open>The start finds the fonts when the directory in the flash is marked, and gives up after ten tries.\<close>

lemma fonts_found:
  assumes "nor_chip spi nv (g_norflash_type (text_nor s)) cap" "busy nv (hw (text_nor s)) = 0" "25 * 1024 * 1024 + 41 \<le> cap"
    and "text_flash nv s (25 * 1024 * 1024) = 0xAA"
  shows "fst (fonts_init spi delay s) = 0"
proof -
  have "unat FONTINFOADDR = 25 * 1024 * 1024" by (simp add: FONTINFOADDR_def)
  then have a: "of_nat (25 * 1024 * 1024) = FONTINFOADDR" by (metis of_nat_unat ucast_id)
  have "25 * 1024 * 1024 + unat (41 :: u16) \<le> cap" using assms(3) by simp
  from read_ok [OF assms(1,2) this] obtain w where
    "norflash_read spi (g_norflash_type (text_nor s)) FONTINFOADDR 41 (hw (text_nor s)) =
      (window (text_flash nv s) (25 * 1024 * 1024) 41, w)" unfolding a by (auto simp: text_flash_def)
  moreover have "window (text_flash nv s) (25 * 1024 * 1024) 41 ! 0 = 0xAA" using assms(4) by (simp add: window_def)
  ultimately have "fontok (ftinfo (info_tries spi delay (Suc n) s)) = 0xAA" for n
    by (simp add: info_of_bytes_def)
  from this [of 9] show ?thesis by (simp add: fonts_init_def Let_def)
qed

end
