(* ===== verification/Gbk_Codes.thy ===== *)
theory Gbk_Codes
  imports Gbk_Text
begin

text \<open>
  The conversion of file names, \<open>myffunicode.c\<close>: Unicode and GBK through the two sorted halves of a
  table in the NOR flash, and capital letters through compressed tables.
\<close>

section \<open>Tables in the flash\<close>

text \<open>An entry is a pair of 16-bit numbers, lowest byte first.\<close>

definition le16 :: "u8 list \<Rightarrow> nat \<Rightarrow> u16" where
  "le16 bs i = ucast (bs ! i) OR push_bit 8 (ucast (bs ! (i + 1)))"

definition read_pair :: "'n spi5 \<Rightarrow> u16 \<Rightarrow> u32 \<Rightarrow> 'n \<Rightarrow> (u16 \<times> u16) \<times> 'n" where
  "read_pair spi type addr w = (case norflash_read spi type addr 4 w of (bs, w1) \<Rightarrow> ((le16 bs 0, le16 bs 2), w1))"

text \<open>The bisection with \<open>n\<close> rounds left between \<open>li\<close> and \<open>hi\<close>, in the table at \<open>base\<close>.\<close>

fun bisect :: "'n spi5 \<Rightarrow> u16 \<Rightarrow> u32 \<Rightarrow> u32 \<Rightarrow> nat \<Rightarrow> u32 \<Rightarrow> u32 \<Rightarrow> 'n \<Rightarrow> u16 \<times> 'n" where
  "bisect spi type base key 0 li hi w = (0, w)"
| "bisect spi type base key (Suc n) li hi w =
     (let i = li + (hi - li) div 2;
          ((t0, t1), w1) = read_pair spi type (base + i * 4) w
      in if key = ucast t0 then (t1, w1)
         else if key > ucast t0 then bisect spi type base key n i hi w1
         else bisect spi type base key n li i w1)"

definition ff_uni2oem :: "'n spi5 \<Rightarrow> u16 \<Rightarrow> font_info \<Rightarrow> u32 \<Rightarrow> u16 \<Rightarrow> 'n \<Rightarrow> u16 \<times> 'n" where
  "ff_uni2oem spi type info uni cp w =
     (if uni < 0x80 then (ucast uni, w)
      else bisect spi type (ugbkaddr info) uni 16 0 (ugbksize info div 2 div 4 - 1) w)"

definition ff_oem2uni :: "'n spi5 \<Rightarrow> u16 \<Rightarrow> font_info \<Rightarrow> u16 \<Rightarrow> u16 \<Rightarrow> 'n \<Rightarrow> u16 \<times> 'n" where
  "ff_oem2uni spi type info oem cp w =
     (if oem < 0x80 then (oem, w)
      else bisect spi type (ugbkaddr info + ugbksize info div 2) (ucast oem) 16 0 (ugbksize info div 2 div 4 - 1) w)"

section \<open>Capital letters\<close>

text \<open>Blocks of a first letter, a command with a length, and for command 0 a table; zero ends them.\<close>

definition cvt1 :: "u16 list" where
  "cvt1 =
    [0x0061, 0x031A, 0x00E0, 0x0317, 0x00F8, 0x0307, 0x00FF, 0x0001, 0x0178, 0x0100, 0x0130, 0x0132, 0x0106,
     0x0139, 0x0110, 0x014A, 0x012E, 0x0179, 0x0106, 0x0180, 0x004D, 0x0243, 0x0181, 0x0182, 0x0182, 0x0184,
     0x0184, 0x0186, 0x0187, 0x0187, 0x0189, 0x018A, 0x018B, 0x018B, 0x018D, 0x018E, 0x018F, 0x0190, 0x0191,
     0x0191, 0x0193, 0x0194, 0x01F6, 0x0196, 0x0197, 0x0198, 0x0198, 0x023D, 0x019B, 0x019C, 0x019D, 0x0220,
     0x019F, 0x01A0, 0x01A0, 0x01A2, 0x01A2, 0x01A4, 0x01A4, 0x01A6, 0x01A7, 0x01A7, 0x01A9, 0x01AA, 0x01AB,
     0x01AC, 0x01AC, 0x01AE, 0x01AF, 0x01AF, 0x01B1, 0x01B2, 0x01B3, 0x01B3, 0x01B5, 0x01B5, 0x01B7, 0x01B8,
     0x01B8, 0x01BA, 0x01BB, 0x01BC, 0x01BC, 0x01BE, 0x01F7, 0x01C0, 0x01C1, 0x01C2, 0x01C3, 0x01C4, 0x01C5,
     0x01C4, 0x01C7, 0x01C8, 0x01C7, 0x01CA, 0x01CB, 0x01CA, 0x01CD, 0x0110, 0x01DD, 0x0001, 0x018E, 0x01DE,
     0x0112, 0x01F3, 0x0003, 0x01F1, 0x01F4, 0x01F4, 0x01F8, 0x0128, 0x0222, 0x0112, 0x023A, 0x0009, 0x2C65,
     0x023B, 0x023B, 0x023D, 0x2C66, 0x023F, 0x0240, 0x0241, 0x0241, 0x0246, 0x010A, 0x0253, 0x0040, 0x0181,
     0x0186, 0x0255, 0x0189, 0x018A, 0x0258, 0x018F, 0x025A, 0x0190, 0x025C, 0x025D, 0x025E, 0x025F, 0x0193,
     0x0261, 0x0262, 0x0194, 0x0264, 0x0265, 0x0266, 0x0267, 0x0197, 0x0196, 0x026A, 0x2C62, 0x026C, 0x026D,
     0x026E, 0x019C, 0x0270, 0x0271, 0x019D, 0x0273, 0x0274, 0x019F, 0x0276, 0x0277, 0x0278, 0x0279, 0x027A,
     0x027B, 0x027C, 0x2C64, 0x027E, 0x027F, 0x01A6, 0x0281, 0x0282, 0x01A9, 0x0284, 0x0285, 0x0286, 0x0287,
     0x01AE, 0x0244, 0x01B1, 0x01B2, 0x0245, 0x028D, 0x028E, 0x028F, 0x0290, 0x0291, 0x01B7, 0x037B, 0x0003,
     0x03FD, 0x03FE, 0x03FF, 0x03AC, 0x0004, 0x0386, 0x0388, 0x0389, 0x038A, 0x03B1, 0x0311, 0x03C2, 0x0002,
     0x03A3, 0x03A3, 0x03C4, 0x0308, 0x03CC, 0x0003, 0x038C, 0x038E, 0x038F, 0x03D8, 0x0118, 0x03F2, 0x000A,
     0x03F9, 0x03F3, 0x03F4, 0x03F5, 0x03F6, 0x03F7, 0x03F7, 0x03F9, 0x03FA, 0x03FA, 0x0430, 0x0320, 0x0450,
     0x0710, 0x0460, 0x0122, 0x048A, 0x0136, 0x04C1, 0x010E, 0x04CF, 0x0001, 0x04C0, 0x04D0, 0x0144, 0x0561,
     0x0426, 0x0000]"

definition cvt2 :: "u16 list" where
  "cvt2 =
    [0x1D7D, 0x0001, 0x2C63, 0x1E00, 0x0196, 0x1EA0, 0x015A, 0x1F00, 0x0608, 0x1F10, 0x0606, 0x1F20, 0x0608,
     0x1F30, 0x0608, 0x1F40, 0x0606, 0x1F51, 0x0007, 0x1F59, 0x1F52, 0x1F5B, 0x1F54, 0x1F5D, 0x1F56, 0x1F5F,
     0x1F60, 0x0608, 0x1F70, 0x000E, 0x1FBA, 0x1FBB, 0x1FC8, 0x1FC9, 0x1FCA, 0x1FCB, 0x1FDA, 0x1FDB, 0x1FF8,
     0x1FF9, 0x1FEA, 0x1FEB, 0x1FFA, 0x1FFB, 0x1F80, 0x0608, 0x1F90, 0x0608, 0x1FA0, 0x0608, 0x1FB0, 0x0004,
     0x1FB8, 0x1FB9, 0x1FB2, 0x1FBC, 0x1FCC, 0x0001, 0x1FC3, 0x1FD0, 0x0602, 0x1FE0, 0x0602, 0x1FE5, 0x0001,
     0x1FEC, 0x1FF3, 0x0001, 0x1FFC, 0x214E, 0x0001, 0x2132, 0x2170, 0x0210, 0x2184, 0x0001, 0x2183, 0x24D0,
     0x051A, 0x2C30, 0x042F, 0x2C60, 0x0102, 0x2C67, 0x0106, 0x2C75, 0x0102, 0x2C80, 0x0164, 0x2D00, 0x0826,
     0xFF41, 0x031A, 0x0000]"

definition case_cmd :: "u16 \<Rightarrow> u16 list \<Rightarrow> u16 \<Rightarrow> u16 \<Rightarrow> u16 option" where
  "case_cmd cmd p bc uc =
     (if cmd = 0 then arr_get p (unat (uc - bc))
      else Some (
        if cmd = 1 then uc - ((uc - bc) AND 1)
        else if cmd = 2 then uc - 16
        else if cmd = 3 then uc - 32
        else if cmd = 4 then uc - 48
        else if cmd = 5 then uc - 26
        else if cmd = 6 then uc + 8
        else if cmd = 7 then uc - 80
        else if cmd = 8 then uc - 0x1C60
        else uc))"

function case_blocks :: "u16 \<Rightarrow> u16 list \<Rightarrow> u16 option" where
  "case_blocks uc p = do {
     bc \<leftarrow> arr_get p 0;
     if bc = 0 \<or> uc < bc then Some uc
     else do {
       nc0 \<leftarrow> arr_get p 1;
       let cmd = drop_bit 8 nc0;
       let nc = nc0 AND 0xFF;
       if uint uc < uint bc + uint nc then case_cmd cmd (drop 2 p) bc uc
       else case_blocks uc (drop (if cmd = 0 then 2 + unat nc else 2) p)
     }
   }"
  by pat_completeness auto
termination
  by (relation "measure (\<lambda>(uc, p). length p)") (auto simp: arr_get_def split: if_splits)

declare case_blocks.simps [simp del]

definition ff_wtoupper :: "u32 \<Rightarrow> u32 option" where
  "ff_wtoupper uni =
     (if uni < 0x10000 then
        let uc = ucast uni :: u16
        in map_option ucast (case_blocks uc (if uc < 0x1000 then cvt1 else cvt2))
      else Some uni)"

section \<open>The bisection\<close>

text \<open>Entry \<open>i\<close> of a table at \<open>a\<close> in the flash, and a table whose keys grow.\<close>

definition entry :: "(nat \<Rightarrow> u8) \<Rightarrow> nat \<Rightarrow> nat \<Rightarrow> u16 \<times> u16" where
  "entry f a i = (let bs = window f (a + 4 * i) 4 in (le16 bs 0, le16 bs 2))"

definition growing :: "(nat \<Rightarrow> u8) \<Rightarrow> nat \<Rightarrow> nat \<Rightarrow> bool" where
  "growing f a n \<longleftrightarrow> (\<forall>i<n. \<forall>j<n. i < j \<longrightarrow> fst (entry f a i) < fst (entry f a j))"

lemma read_entry:
  assumes chip: "nor_chip spi v type cap" "busy v w = 0" and fit: "a + 4 * (i + 1) \<le> cap"
  obtains w' where "read_pair spi type (of_nat a + of_nat i * 4) w = (entry (flash v w) a i, w')" "busy v w' = 0" "flash v w' = flash v w"
proof -
  have "a + 4 * i + unat (4 :: u16) \<le> cap" using fit by simp
  from read_ok [OF chip this] obtain w' where w': "norflash_read spi type (of_nat (a + 4 * i)) 4 w = (window (flash v w) (a + 4 * i) 4, w')"
    "busy v w' = 0" "flash v w' = flash v w" by auto
  have "of_nat a + of_nat i * 4 = (of_nat (a + 4 * i) :: u32)" by (simp add: mult.commute)
  then have "read_pair spi type (of_nat a + of_nat i * 4) w = (entry (flash v w) a i, w')"
    unfolding \<open>of_nat a + of_nat i * 4 = _\<close> read_pair_def w'(1) entry_def Let_def by simp
  then show thesis using that w'(2,3) by blast
qed

lemma middle_word:
  assumes "li \<le> hi" "hi < 2 ^ 32"
  shows "of_nat li + (of_nat hi - of_nat li) div 2 = (of_nat (li + (hi - li) div 2) :: u32)"
proof -
  have "(of_nat hi - of_nat li :: u32) = of_nat (hi - li)" using assms(1) by (simp add: of_nat_diff)
  moreover have "(of_nat (hi - li) :: u32) div 2 = of_nat ((hi - li) div 2)"
    using assms by (intro word_unat_eq_iff [THEN iffD2]) (simp add: unat_div unat_of_nat_small del: of_nat_diff)
  ultimately show ?thesis by simp
qed

text \<open>The bisection up to \<open>m\<close>, which stands for any list of later positions.\<close>

lemma bisect_step:
  assumes chip: "nor_chip spi v type cap" "busy v w = 0" and fit: "a + 4 * hi \<le> cap" and i: "i = li + (hi - li) div 2" "i < hi \<or> i = li" "li < m" "m < 2 ^ 32" "hi \<le> m"
    and "li \<le> hi" "a + 4 * m \<le> cap"
  obtains w' where "bisect spi type (of_nat a) key (Suc n) (of_nat li) (of_nat hi) w =
      (if key = ucast (fst (entry (flash v w) a i)) then (snd (entry (flash v w) a i), w')
       else if key > ucast (fst (entry (flash v w) a i)) then bisect spi type (of_nat a) key n (of_nat i) (of_nat hi) w'
       else bisect spi type (of_nat a) key n (of_nat li) (of_nat i) w')" "busy v w' = 0" "flash v w' = flash v w"
proof -
  have "i < m" using assms(5-8) by auto
  then have "a + 4 * (i + 1) \<le> cap" using assms(10) by simp
  from read_entry [OF chip this] obtain w' where
    "read_pair spi type (of_nat a + of_nat i * 4) w = (entry (flash v w) a i, w')" "busy v w' = 0" "flash v w' = flash v w" by blast
  moreover have "of_nat li + (of_nat hi - of_nat li) div 2 = (of_nat i :: u32)"
    unfolding i(1) by (rule middle_word) (use assms in simp_all)
  ultimately show thesis using that [of w'] by (simp add: Let_def split: prod.split)
qed

lemma bisect_finds:
  assumes chip: "nor_chip spi v type cap" and m: "m < 2 ^ 32" "a + 4 * m \<le> cap" and grow: "growing f a m" and j: "j < m"
  shows "busy v w = 0 \<Longrightarrow> flash v w = f \<Longrightarrow> li \<le> lo \<Longrightarrow> lo \<le> Suc li \<Longrightarrow> lo \<le> j \<Longrightarrow> j < hi \<Longrightarrow> hi \<le> m \<Longrightarrow> hi - lo < 2 ^ n \<Longrightarrow>
    \<exists>w'. bisect spi type (of_nat a) (ucast (fst (entry f a j))) n (of_nat li) (of_nat hi) w = (snd (entry f a j), w') \<and>
      busy v w' = 0 \<and> flash v w' = f"
proof (induction n arbitrary: li lo hi w)
  case 0
  then show ?case by simp
next
  case (Suc n)
  let ?k = "ucast (fst (entry f a j)) :: u32"
  define i where "i = li + (hi - li) div 2"
  have i: "i < hi" "li < m" "li \<le> hi" "a + 4 * hi \<le> cap" using Suc.prems m j by (simp_all add: i_def)
  obtain w' where step: "bisect spi type (of_nat a) ?k (Suc n) (of_nat li) (of_nat hi) w =
      (if ?k = ucast (fst (entry f a i)) then (snd (entry f a i), w')
       else if ?k > ucast (fst (entry f a i)) then bisect spi type (of_nat a) ?k n (of_nat i) (of_nat hi) w'
       else bisect spi type (of_nat a) ?k n (of_nat li) (of_nat i) w')" "busy v w' = 0" "flash v w' = f"
    using bisect_step [OF chip Suc.prems(1) i(4) i_def _ i(2) m(1) Suc.prems(7) i(3) m(2), of ?k n] i(1) Suc.prems(2) by metis
  consider "j = i" | "i < j" | "j < i" by linarith
  then show ?case
  proof cases
    case 1
    then show ?thesis using step by simp
  next
    case 2
    then have "fst (entry f a i) < fst (entry f a j)" using grow j by (simp add: growing_def)
    then have lt: "ucast (fst (entry f a i)) < ?k" "?k \<noteq> ucast (fst (entry f a i))" by (simp_all add: word_less_nat_alt unat_ucast_up word_unat_eq_iff)
    have "hi - Suc i < 2 ^ n" using Suc.prems(3,4,8) i_def by simp
    from Suc.IH [OF step(2,3) _ _ _ Suc.prems(6,7) this, of i] 2 show ?thesis using lt step(1) by simp
  next
    case 3
    then have "fst (entry f a j) < fst (entry f a i)" using grow j i(1) Suc.prems(7) by (simp add: growing_def)
    then have lt: "\<not> ucast (fst (entry f a i)) < ?k" "?k \<noteq> ucast (fst (entry f a i))" by (auto simp: word_less_nat_alt unat_ucast_up word_unat_eq_iff)
    have "i - lo < 2 ^ n" "i \<le> m" using Suc.prems(3,4,7,8) i_def i(1) by simp_all
    from Suc.IH [OF step(2,3) Suc.prems(3,4,5) 3 this(2,1)] show ?thesis using lt step(1) by simp
  qed
qed

lemma bisect_misses:
  assumes chip: "nor_chip spi v type cap" and m: "m < 2 ^ 32" "a + 4 * m \<le> cap" and no: "\<forall>i<m. key \<noteq> ucast (fst (entry f a i))"
  shows "busy v w = 0 \<Longrightarrow> flash v w = f \<Longrightarrow> li \<le> hi \<Longrightarrow> li < m \<Longrightarrow> hi \<le> m \<Longrightarrow>
    \<exists>w'. bisect spi type (of_nat a) key n (of_nat li) (of_nat hi) w = (0, w') \<and> busy v w' = 0 \<and> flash v w' = f"
proof (induction n arbitrary: li hi w)
  case (Suc n)
  define i where "i = li + (hi - li) div 2"
  have i: "i < hi \<or> i = li" "i < m" "li \<le> i" "i \<le> hi" "a + 4 * hi \<le> cap" using Suc.prems m by (auto simp: i_def)
  obtain w' where step: "bisect spi type (of_nat a) key (Suc n) (of_nat li) (of_nat hi) w =
      (if key = ucast (fst (entry f a i)) then (snd (entry f a i), w')
       else if key > ucast (fst (entry f a i)) then bisect spi type (of_nat a) key n (of_nat i) (of_nat hi) w'
       else bisect spi type (of_nat a) key n (of_nat li) (of_nat i) w')" "busy v w' = 0" "flash v w' = f"
    using bisect_step [OF chip Suc.prems(1) i(5) i_def i(1) Suc.prems(4) m(1) Suc.prems(5) Suc.prems(3) m(2), of key n] Suc.prems(2) by metis
  have "key \<noteq> ucast (fst (entry f a i))" using no i(2) by blast
  then show ?case
    using step Suc.IH [OF step(2,3), of i hi] Suc.IH [OF step(2,3), of li i] i Suc.prems by simp
qed auto

text \<open>What the code means to look up, by linear search: all entries but the last.\<close>

definition code_search :: "(nat \<Rightarrow> u8) \<Rightarrow> nat \<Rightarrow> nat \<Rightarrow> u32 \<Rightarrow> u16" where
  "code_search f a n key =
     (if key < 0x80 then ucast key
      else case find (\<lambda>i. key = ucast (fst (entry f a i))) [0..<n - 1] of None \<Rightarrow> 0 | Some i \<Rightarrow> snd (entry f a i))"

lemma half_words:
  assumes "2 \<le> n" "n \<le> 65536"
  shows "of_nat (8 * n) div 2 div 4 - 1 = (of_nat (n - 1) :: u32)" "of_nat (8 * n) div 2 = (of_nat (4 * n) :: u32)"
proof -
  have u: "unat (of_nat (8 * n) :: u32) = 8 * n" using assms(2) by (intro unat_of_nat_small) simp
  have u4: "unat (of_nat (4 * n) :: u32) = 4 * n" using assms(2) by (intro unat_of_nat_small) simp
  show h: "of_nat (8 * n) div 2 = (of_nat (4 * n) :: u32)"
    by (rule word_unat_eq_iff [THEN iffD2]) (simp only: unat_div u u4 unat_numeral, simp)
  have "of_nat (4 * n) div 4 = (of_nat n :: u32)"
    using assms(2) by (intro word_unat_eq_iff [THEN iffD2]) (simp only: unat_div u4, simp add: unat_of_nat_small)
  then show "of_nat (8 * n) div 2 div 4 - 1 = (of_nat (n - 1) :: u32)" using h assms(1) by (simp add: of_nat_diff)
qed

lemma bisect_search:
  assumes chip: "nor_chip spi v type cap" "busy v w = 0" "flash v w = f" and n: "2 \<le> n" "n \<le> 65536" and fit: "a + 4 * n \<le> cap"
    and grow: "growing f a n" and key: "\<not> key < 0x80"
  shows "\<exists>w'. bisect spi type (of_nat a) key 16 0 (of_nat (n - 1)) w = (code_search f a n key, w') \<and> busy v w' = 0 \<and> flash v w' = f"
proof -
  have m: "n - 1 < 2 ^ 32" "a + 4 * (n - 1) \<le> cap" "0 < n - 1" using n fit by simp_all
  have g: "growing f a (n - 1)" using grow by (simp add: growing_def)
  show ?thesis
  proof (cases "find (\<lambda>i. key = ucast (fst (entry f a i))) [0..<n - 1]")
    case None
    then have "\<forall>i<n - 1. key \<noteq> ucast (fst (entry f a i))" by (simp add: find_None_iff)
    from bisect_misses [OF chip(1) m(1,2) this chip(2,3), of 0 "n - 1" 16] m(3) None key show ?thesis
      by (simp add: code_search_def)
  next
    case (Some j)
    then have j: "j < n - 1" "key = ucast (fst (entry f a j))" by (auto simp: find_Some_iff)
    have "n - 1 - 0 < 2 ^ 16" using n by simp
    from bisect_finds [OF chip(1) m(1,2) g j(1) chip(2,3) order_refl _ _ j(1) order_refl this]
    show ?thesis using Some key j by (simp add: code_search_def)
  qed
qed

lemma up_down: "ucast (ucast (x :: u16) :: u32) = x"
  by (rule bit_word_eqI) (auto simp: bit_ucast_iff)

section \<open>Blocks of letters\<close>

text \<open>The tables of commands are complete: every table of letters is there and a zero ends them.\<close>

fun blocks_ok :: "nat \<Rightarrow> u16 list \<Rightarrow> bool" where
  "blocks_ok 0 p = False"
| "blocks_ok (Suc k) p =
     (case p of
        [] \<Rightarrow> False
      | [bc] \<Rightarrow> bc = 0
      | bc # nc # q \<Rightarrow> bc = 0 \<or>
          (if drop_bit 8 nc = 0 then unat (nc AND 0xFF) \<le> length q \<and> blocks_ok k (drop (unat (nc AND 0xFF)) q) else blocks_ok k q))"

lemma cvt_ok: "blocks_ok 60 cvt1" "blocks_ok 60 cvt2"
  by code_simp+

lemma case_blocks_cons:
  "case_blocks uc (bc # nc # q) =
     (if bc = 0 \<or> uc < bc then Some uc
      else if uint uc < uint bc + uint (nc AND 0xFF) then case_cmd (drop_bit 8 nc) q bc uc
      else case_blocks uc (if drop_bit 8 nc = 0 then drop (unat (nc AND 0xFF)) q else q))"
  unfolding case_blocks.simps [of uc "bc # nc # q"]
  by (simp only: arr_get_def length_Cons zero_less_Suc if_True nth_Cons_0 bind.simps Let_def One_nat_def Suc_less_eq nth_Cons_Suc
      numeral_2_eq_2 drop_Suc_Cons drop_0 add_Suc add_0 if_distrib [of "\<lambda>k. drop k _"])

lemma case_blocks_some:
  "blocks_ok k p \<Longrightarrow> \<exists>r. case_blocks uc p = Some r"
proof (induction k arbitrary: p)
  case (Suc k)
  show ?case
  proof (cases p rule: remdups_adj.cases)
    case (3 bc nc q)
    let ?n = "nc AND 0xFF"
    have off: "unat (uc - bc) < unat ?n" if "\<not> uc < bc" "uint uc < uint bc + uint ?n"
    proof -
      have "unat (uc - bc) = unat uc - unat bc" using that(1) by (simp add: unat_sub_if' word_less_nat_alt not_less)
      moreover have "unat uc < unat bc + unat ?n" using that(2) unfolding uint_nat by linarith
      ultimately show ?thesis using that(1) by (simp add: word_less_nat_alt)
    qed
    show ?thesis
    proof (cases "bc = 0 \<or> uc < bc")
      case True
      then show ?thesis by (simp add: 3 case_blocks_cons)
    next
      case False
      then have ok: "if drop_bit 8 nc = 0 then unat ?n \<le> length q \<and> blocks_ok k (drop (unat ?n) q) else blocks_ok k q"
        using Suc.prems by (simp add: 3)
      show ?thesis
      proof (cases "uint uc < uint bc + uint ?n")
        case True
        have "drop_bit 8 nc = 0 \<Longrightarrow> unat (uc - bc) < length q" using off ok True False by (simp add: less_le_trans)
        then show ?thesis using False True by (simp add: 3 case_blocks_cons case_cmd_def arr_get_def)
      next
        case out: False
        then show ?thesis using False Suc.IH ok by (simp add: 3 case_blocks_cons split: if_splits)
      qed
    qed
  qed (use Suc.prems in \<open>auto simp: case_blocks.simps arr_get_def\<close>)
qed simp

text \<open>The letters of ASCII; the first two blocks decide.\<close>

lemma case_blocks_ascii:
  assumes "uc < 0x80"
  shows "case_blocks uc cvt1 = Some (if 0x61 \<le> uc \<and> uc < 0x7B then uc - 0x20 else uc)"
proof -
  obtain q where q: "cvt1 = 0x61 # 0x031A # 0xE0 # 0x0317 # q" by (simp add: cvt1_def)
  have "uint uc < uint (0x61 :: u16) + uint ((0x031A :: u16) AND 0xFF) \<longleftrightarrow> uc < 0x7B"
    by (simp add: word_less_def)
  moreover have "uc < 0xE0" by (rule order_less_trans [OF assms]) simp
  moreover have "drop_bit 8 (0x031A :: u16) = 3" by simp
  ultimately show ?thesis unfolding q
    by (simp add: case_blocks_cons case_cmd_def not_le linorder_not_less del: drop_bit_numeral_bit0 drop_bit_numeral_bit1) (meson leD)
qed

text \<open>Every number has an image: nothing is read outside the tables.\<close>

lemma wtoupper_some: "\<exists>r. ff_wtoupper uni = Some r"
proof (cases "uni < 0x10000")
  case True
  define uc where "uc = (ucast uni :: u16)"
  obtain r where "case_blocks uc (if uc < 0x1000 then cvt1 else cvt2) = Some r"
    using case_blocks_some [OF cvt_ok(1), of uc] case_blocks_some [OF cvt_ok(2), of uc] by (cases "uc < 0x1000") auto
  then show ?thesis using True by (simp add: ff_wtoupper_def uc_def)
qed (simp add: ff_wtoupper_def)

section \<open>Properties\<close>

text \<open>C26: The file of codes is two tables of \<open>n\<close> entries, one after the other, the first sorted by Unicode
  character and the second by GBK code, and both growing strictly, as the format of the file asks for.
  Then both conversions of a character find in the flash what a search from the front through the entries
  of their table finds, as long as a table has at least two and at most 65536 entries: sixteen rounds are
  enough, and the flash keeps its contents. The last entry of a table never counts, so its character is
  unknown.\<close>

theorem gbk_bisection_is_search:
  assumes "nor_chip spi v type cap" "busy v w = 0" "2 \<le> n" "n \<le> 65536" "a + 8 * n \<le> cap"
    and "ugbkaddr info = of_nat a" "ugbksize info = of_nat (8 * n)"
    and "growing (flash v w) a n" "growing (flash v w) (a + 4 * n) n"
  shows "(\<exists>w'. ff_uni2oem spi type info uni cp w = (code_search (flash v w) a n uni, w') \<and> busy v w' = 0 \<and> flash v w' = flash v w) \<and>
    (\<exists>w'. ff_oem2uni spi type info oem cp w = (code_search (flash v w) (a + 4 * n) n (ucast oem), w') \<and> busy v w' = 0 \<and>
       flash v w' = flash v w)"
proof
  have fit: "a + 4 * n \<le> cap" "a + 4 * n + 4 * n \<le> cap" using assms(5) by simp_all
  note hw = half_words [OF assms(3,4)]
  show "\<exists>w'. ff_uni2oem spi type info uni cp w = (code_search (flash v w) a n uni, w') \<and> busy v w' = 0 \<and> flash v w' = flash v w"
    using bisect_search [OF assms(1,2) refl assms(3,4) fit(1) assms(8), of uni] assms(2)
    unfolding ff_uni2oem_def assms(6,7) hw(1) by (auto simp: code_search_def)
  have "of_nat a + of_nat (4 * n) = (of_nat (a + 4 * n) :: u32)" by simp
  note hw = hw this
  have "(ucast oem < (0x80 :: u32)) = (oem < 0x80)" by (simp add: word_less_nat_alt unat_ucast_up)
  then show "\<exists>w'. ff_oem2uni spi type info oem cp w = (code_search (flash v w) (a + 4 * n) n (ucast oem), w') \<and> busy v w' = 0 \<and>
       flash v w' = flash v w"
    using bisect_search [OF assms(1,2) refl assms(3,4) fit(2) assms(9), of "ucast oem"] assms(2)
    unfolding ff_oem2uni_def assms(6,7) hw(1) unfolding hw(2) hw(3) by (auto simp: code_search_def up_down)
qed

text \<open>A flash with a table of three characters.\<close>

definition demo_codes :: "u8 list" where
  "demo_codes = [0xB7, 0, 0xA4, 0xA1, 0x2D, 0x4E, 0xD0, 0xD6, 0xFD, 0x56, 0xFA, 0xB9,
     0xA4, 0xA1, 0xB7, 0, 0xFA, 0xB9, 0xFD, 0x56, 0xD0, 0xD6, 0x2D, 0x4E]"

definition code_flash :: sim where
  "code_flash = \<lparr>rx = [], sim.cells = (\<lambda>k. if k < 24 then demo_codes ! k else 0xFF), latch = False, left = 0\<rparr>"

definition code_info :: font_info where
  "code_info = \<lparr>fontok = 0xAA, ugbkaddr = 0, ugbksize = 24, f12addr = 0, gbk12size = 0, f16addr = 0, gbk16size = 0,
     f24addr = 0, gbk24size = 0, f32addr = 0, gbk32size = 0\<rparr>"

lemma demo_entries:
  "entry (sim.cells code_flash) 0 0 = (0xB7, 0xA1A4)" "entry (sim.cells code_flash) 0 (Suc 0) = (0x4E2D, 0xD6D0)" "entry (sim.cells code_flash) 0 2 = (0x56FD, 0xB9FA)"
  "entry (sim.cells code_flash) 12 0 = (0xA1A4, 0xB7)" "entry (sim.cells code_flash) 12 (Suc 0) = (0xB9FA, 0x56FD)" "entry (sim.cells code_flash) 12 2 = (0xD6D0, 0x4E2D)"
  by (simp_all add: entry_def window_def code_flash_def demo_codes_def upt_rec le16_def)

lemma growing_three:
  assumes "fst (entry f a 0) < fst (entry f a (Suc 0))" "fst (entry f a (Suc 0)) < fst (entry f a 2)"
  shows "growing f a 3"
  unfolding growing_def
proof (intro allI impI)
  fix i j :: nat assume "i < 3" "j < 3" "i < j"
  then have "i = 0 \<and> j = Suc 0 \<or> i = Suc 0 \<and> j = 2 \<or> i = 0 \<and> j = 2" by linarith
  then show "fst (entry f a i) < fst (entry f a j)" using assms order_less_trans [OF assms] by auto
qed

lemma gbk_bisection_is_search_witness:
  "(\<exists>w. ff_uni2oem sim_dev W25Q256 code_info 0x4E2D 936 code_flash = (0xD6D0, w)) \<and>
   (\<exists>w. ff_uni2oem sim_dev W25Q256 code_info 0x56FD 936 code_flash = (0, w)) \<and>
   (\<exists>w. ff_oem2uni sim_dev W25Q256 code_info 0xB9FA 936 code_flash = (0x56FD, w))"
proof -
  have g: "growing (sim.cells code_flash) 0 3" "growing (sim.cells code_flash) 12 3"
    by (rule growing_three; simp add: demo_entries)+
  have s: "code_search (sim.cells code_flash) 0 3 0x4E2D = 0xD6D0" "code_search (sim.cells code_flash) 0 3 0x56FD = 0"
    "code_search (sim.cells code_flash) 12 3 0xB9FA = 0x56FD"
    by (simp_all add: code_search_def upt_rec demo_entries)
  have h: "busy sim_view code_flash = 0" "flash sim_view code_flash = sim.cells code_flash"
    by (simp_all add: sim_view_def code_flash_def)
  have c: "ugbkaddr code_info = of_nat 0" "ugbksize code_info = of_nat (8 * 3)" "growing (flash sim_view code_flash) 0 3"
    "growing (flash sim_view code_flash) (0 + 4 * 3) 3" using g h(2) by (simp_all add: code_info_def)
  have n: "(0 :: nat) + 8 * 3 \<le> 2 ^ 25" "(2 :: nat) \<le> 3" "(3 :: nat) \<le> 65536" by simp_all
  note th = gbk_bisection_is_search [OF sim_nor_chip h(1) n(2,3,1) c, unfolded h(2)]
  have o: "ucast (0xB9FA :: u16) = (0xB9FA :: u32)" "0 + 4 * 3 = (12 :: nat)" by simp_all
  show ?thesis
    using th [where uni = "0x4E2D", THEN conjunct1] th [where uni = "0x56FD", THEN conjunct1] th [where oem = "0xB9FA", THEN conjunct2]
    unfolding o s by blast
qed

end
