(* ===== verification/Wavplay.thy ===== *)
theory Wavplay
  imports Malloc "HOL-Library.Signed_Division"
begin

text \<open>
  The player of WAV files, \<open>wavplay.c\<close>: the header is taken apart, the samples go from the file to
  one of two buffers while the other is sent to the codec. The file system is a parameter.
\<close>

section \<open>State\<close>

record 'f fat =
  f_open :: "u8 list \<Rightarrow> 'f \<Rightarrow> u8 \<times> 'f"
  f_read :: "u32 \<Rightarrow> 'f \<Rightarrow> u8 \<times> u8 list \<times> 'f"
  f_lseek :: "u32 \<Rightarrow> 'f \<Rightarrow> 'f"
  f_close :: "'f \<Rightarrow> 'f"
  f_tell :: "'f \<Rightarrow> 64 word"
  sizeof_FIL :: u32

record wavctrl =
  audioformat :: u16
  nchannels :: u16
  blockalign :: u16
  datasize :: u32
  totsec :: u32
  cursec :: u32
  bitrate :: u32
  samplerate :: u32
  bps :: u16
  datastart :: u32

definition WAV_SAI_TX_DMA_BUFSIZE :: nat where "WAV_SAI_TX_DMA_BUFSIZE = 8192"

section \<open>The header\<close>

text \<open>Fields of the packed chunks, lowest byte first. The offsets come from the file: a field outside
  the buffer is an error.\<close>

definition get16 :: "u8 list \<Rightarrow> u32 \<Rightarrow> u16 option" where
  "get16 buf i = do {
     a \<leftarrow> arr_get buf (unat i);
     b \<leftarrow> arr_get buf (unat i + 1);
     Some (ucast a OR push_bit 8 (ucast b))
   }"

definition get32 :: "u8 list \<Rightarrow> u32 \<Rightarrow> u32 option" where
  "get32 buf i = do {
     a \<leftarrow> arr_get buf (unat i);
     b \<leftarrow> arr_get buf (unat i + 1);
     c \<leftarrow> arr_get buf (unat i + 2);
     d \<leftarrow> arr_get buf (unat i + 3);
     Some (ucast a OR push_bit 8 (ucast b) OR push_bit 16 (ucast c) OR push_bit 24 (ucast d))
   }"

definition wav_parse :: "u8 list \<Rightarrow> wavctrl \<Rightarrow> (u8 \<times> wavctrl) option" where
  "wav_parse buf w = do {
     format \<leftarrow> get32 buf 8;
     if format = 0x45564157 then do {
       fmtsize \<leftarrow> get32 buf 16;
       fact \<leftarrow> get32 buf (12 + 8 + fmtsize);
       start \<leftarrow>
         (if fact = 0x74636166 \<or> fact = 0x5453494C then do {
            factsize \<leftarrow> get32 buf (12 + 8 + fmtsize + 4);
            Some (12 + 8 + fmtsize + 8 + factsize)
          }
          else Some (12 + 8 + fmtsize));
       let w1 = w\<lparr>datastart := start\<rparr>;
       chunk \<leftarrow> get32 buf start;
       if chunk = 0x61746164 then do {
         af \<leftarrow> get16 buf 20;
         nc \<leftarrow> get16 buf 22;
         sr \<leftarrow> get32 buf 24;
         br \<leftarrow> get32 buf 28;
         ba \<leftarrow> get16 buf 32;
         bits \<leftarrow> get16 buf 34;
         ds \<leftarrow> get32 buf (start + 4);
         Some (0, w1\<lparr>audioformat := af, nchannels := nc, samplerate := sr, bitrate := br * 8, blockalign := ba,
           bps := bits, datasize := ds, datastart := start + 8\<rparr>)
       }
       else Some (3, w1)
     }
     else Some (2, w)
   }"

record 'f wav_env =
  wav_heap :: heap
  wav_file :: 'f

definition wav_decode_init :: "'f fat \<Rightarrow> u8 list \<Rightarrow> wavctrl \<Rightarrow> 'f wav_env \<Rightarrow> (u8 \<times> wavctrl \<times> 'f wav_env) option" where
  "wav_decode_init fat fname wavx s = do {
     (ftemp, h1) \<leftarrow> mymalloc SRAMIN (sizeof_FIL fat) (wav_heap s);
     (buf, h2) \<leftarrow> mymalloc SRAMIN 512 h1;
     (res, w, h3, f) \<leftarrow>
       (if ftemp \<noteq> 0 \<and> buf \<noteq> 0 then
          case f_open fat fname (wav_file s) of (r, f1) \<Rightarrow>
            if r = 0 then
              case f_read fat 512 f1 of (_, bs, f2) \<Rightarrow> do {
                let m = mem_store (ram h2) buf bs;
                (r', w) \<leftarrow> wav_parse (mem_bytes m buf 512) wavx;
                Some (r', w, h2\<lparr>ram := m\<rparr>, f2)
              }
            else Some (1, wavx, h2, f1)
        else Some (0, wavx, h2, wav_file s));
     let f' = f_close fat f;
     h4 \<leftarrow> myfree SRAMIN ftemp h3;
     h5 \<leftarrow> myfree SRAMIN buf h4;
     Some (0, w, s\<lparr>wav_heap := h5, wav_file := f'\<rparr>)
   }"

section \<open>The samples\<close>

text \<open>Bytes that were read overwrite the start of a buffer.\<close>

definition put_bytes :: "u8 list \<Rightarrow> u8 list \<Rightarrow> u8 list" where
  "put_bytes bs buf = bs @ drop (length bs) buf"

text \<open>Samples of 24 bits: four bytes of the buffer take three bytes of \<open>p\<close>.\<close>

function fill24 :: "u8 list \<Rightarrow> nat \<Rightarrow> u16 \<Rightarrow> u16 \<Rightarrow> u8 list \<Rightarrow> u8 list option" where
  "fill24 p k siz i buf =
     (if unat i < unat siz then do {
        p0 \<leftarrow> arr_get p k;
        p1 \<leftarrow> arr_get p (k + 1);
        p2 \<leftarrow> arr_get p (k + 2);
        b1 \<leftarrow> arr_set buf (unat i) p1;
        b2 \<leftarrow> arr_set b1 (unat (i + 1)) p2;
        b3 \<leftarrow> arr_set b2 (unat (i + 3)) p0;
        fill24 p (k + 3) siz (i + 4) b3
      }
      else Some buf)"
  by pat_completeness auto
termination
  by (relation "measure (\<lambda>(p, k, siz, i, buf). length p - k)") (auto simp: arr_get_def split: if_splits)

declare fill24.simps [simp del]

fun zero_from :: "nat \<Rightarrow> nat \<Rightarrow> u8 list \<Rightarrow> u8 list option" where
  "zero_from i 0 buf = Some buf"
| "zero_from i (Suc n) buf = do { b \<leftarrow> arr_set buf i 0; zero_from (i + 1) n b }"

text \<open>The bytes read are in \<open>tbuf\<close> for 24 bits, else in the buffer; the number of bytes comes back.\<close>

definition wav_buffill ::
  "'f fat \<Rightarrow> u16 \<Rightarrow> u8 \<Rightarrow> u8 list \<Rightarrow> u8 list \<Rightarrow> 'f \<Rightarrow> (u32 \<times> u8 list \<times> u8 list \<times> 'f) option" where
  "wav_buffill fat siz bits buf tbuf f =
     (if bits = 24 then
        let readlen = siz div 4 * 3
        in case f_read fat (ucast readlen) f of (_, bs, f1) \<Rightarrow> do {
             let t = put_bytes bs tbuf;
             b \<leftarrow> fill24 t 0 siz 0 buf;
             Some (of_nat (length bs) * 4 div 3, b, t, f1)
           }
      else
        case f_read fat (ucast siz) f of (_, bs, f1) \<Rightarrow> do {
          let b = put_bytes bs buf;
          let bread = length bs;
          b1 \<leftarrow> (if bread < unat siz then zero_from bread (unat siz - bread - bread) b else Some b);
          Some (of_nat bread, b1, tbuf, f1)
        })"

definition wav_get_curtime :: "'f fat \<Rightarrow> 'f \<Rightarrow> wavctrl \<Rightarrow> wavctrl option" where
  "wav_get_curtime fat fx w =
     (if bitrate w div 8 = 0 \<or> datasize w = 0 then None
      else
        let tot = datasize w div (bitrate w div 8);
            fpos = sint (f_tell fat fx - ucast (datastart w))
        in Some (w\<lparr>totsec := tot, cursec := word_of_int ((fpos * uint tot) sdiv uint (datasize w))\<rparr>))"

section \<open>Bytes of a header\<close>

definition put16 :: "u16 \<Rightarrow> u8 list" where
  "put16 w = [ucast w, ucast (drop_bit 8 w)]"

definition put32 :: "u32 \<Rightarrow> u8 list" where
  "put32 w = [ucast w, ucast (drop_bit 8 w), ucast (drop_bit 16 w), ucast (drop_bit 24 w)]"

lemma length_put [simp]: "length (put16 v) = 2" "length (put32 w) = 4"
  by (simp_all add: put16_def put32_def)

lemma join16: "ucast (ucast w :: u8) OR push_bit 8 (ucast (ucast (drop_bit 8 w) :: u8)) = (w :: u16)"
  by (rule bit_word_eqI) (auto simp: bit_or_iff bit_push_bit_iff bit_ucast_iff bit_drop_bit_eq)

lemma join32:
  "ucast (ucast w :: u8) OR push_bit 8 (ucast (ucast (drop_bit 8 w) :: u8)) OR
     push_bit 16 (ucast (ucast (drop_bit 16 w) :: u8)) OR push_bit 24 (ucast (ucast (drop_bit 24 w) :: u8)) = (w :: u32)"
  (is "?l = w")
proof (rule bit_word_eqI)
  fix n assume n: "n < LENGTH(32)"
  consider "n < 8" | "8 \<le> n" "n < 16" | "16 \<le> n" "n < 24" | "24 \<le> n" by linarith
  then show "bit ?l n = bit w n"
    by cases (use n in \<open>auto simp: bit_or_iff bit_push_bit_iff bit_ucast_iff bit_drop_bit_eq\<close>)
qed

lemma get32_at:
  assumes "drop (unat i) buf = put32 w @ post"
  shows "get32 buf i = Some w"
proof -
  have at: "arr_get buf (unat i + k) = Some ((put32 w @ post) ! k)" if "k < 4" for k
  proof -
    have "unat i + k < length buf" using arg_cong [OF assms, of length] that by simp
    then show ?thesis using assms [symmetric] that by (simp add: arr_get_def)
  qed
  show ?thesis using at [of 0] at [of 1] at [of 2] at [of 3] join32 [of w] by (simp add: get32_def put32_def)
qed

lemma get16_at:
  assumes "drop (unat i) buf = put16 w @ post"
  shows "get16 buf i = Some w"
proof -
  have at: "arr_get buf (unat i + k) = Some ((put16 w @ post) ! k)" if "k < 2" for k
  proof -
    have "unat i + k < length buf" using arg_cong [OF assms, of length] that by simp
    then show ?thesis using assms [symmetric] that by (simp add: arr_get_def)
  qed
  show ?thesis using at [of 0] at [of 1] join16 [of w] by (simp add: get16_def put16_def)
qed

text \<open>A file as the format prescribes it: an optional chunk stands between format and data.\<close>

definition chunk :: "u32 \<Rightarrow> u8 list \<Rightarrow> u8 list" where
  "chunk name body = put32 name @ put32 (of_nat (length body)) @ body"

definition fmt_body :: "wavctrl \<Rightarrow> u32 \<Rightarrow> u8 list \<Rightarrow> u8 list" where
  "fmt_body w rate ext =
     put16 (audioformat w) @ put16 (nchannels w) @ put32 (samplerate w) @ put32 rate @ put16 (blockalign w) @ put16 (bps w) @ ext"

definition wav_header :: "wavctrl \<Rightarrow> u32 \<Rightarrow> u8 list \<Rightarrow> (u32 \<times> u8 list) list \<Rightarrow> u8 list" where
  "wav_header w rate ext extra =
     put32 0x46464952 @ put32 (datasize w) @ put32 0x45564157 @ chunk 0x20746D66 (fmt_body w rate ext) @
     concat (map (\<lambda>(i, b). chunk i b) extra) @ put32 0x61746164 @ put32 (datasize w)"

definition extra_chunk :: "(u32 \<times> u8 list) list \<Rightarrow> bool" where
  "extra_chunk extra \<longleftrightarrow> extra = [] \<or> (\<exists>i b. extra = [(i, b)] \<and> (i = 0x74636166 \<or> i = 0x5453494C))"

lemma length_fmt_body: "length (fmt_body w rate ext) = 16 + length ext"
  by (simp add: fmt_body_def)

lemma wav_parse_header:
  assumes extra: "extra_chunk extra" and len: "length (wav_header w rate ext extra) \<le> 512"
  shows "wav_parse (wav_header w rate ext extra @ post) v =
    Some (0, w\<lparr>totsec := totsec v, cursec := cursec v, bitrate := rate * 8,
      datastart := of_nat (length (wav_header w rate ext extra))\<rparr>)"
proof -
  let ?h = "wav_header w rate ext extra" and ?buf = "wav_header w rate ext extra @ post"
  let ?tail = "concat (map (\<lambda>(i, b). chunk i b) extra) @ put32 0x61746164 @ put32 (datasize w) @ post"
  define n where "n = 16 + length ext"
  have n: "n < 512" using len by (simp add: n_def wav_header_def chunk_def length_fmt_body)
  note parts = wav_header_def chunk_def fmt_body_def n_def
  have f8: "get32 ?buf 8 = Some 0x45564157" by (rule get32_at) (simp add: parts)
  have f16: "get32 ?buf 16 = Some (of_nat n)" by (rule get32_at) (simp add: parts)
  have body: "get16 ?buf 20 = Some (audioformat w)" "get16 ?buf 22 = Some (nchannels w)" "get32 ?buf 24 = Some (samplerate w)"
    "get32 ?buf 28 = Some rate" "get16 ?buf 32 = Some (blockalign w)" "get16 ?buf 34 = Some (bps w)"
    by (rule get32_at get16_at, simp add: parts)+
  have un: "unat (of_nat n :: u32) = n" using n by (intro unat_of_nat_small) simp
  have tail: "drop (20 + n) ?buf = ?tail" by (simp add: parts)
  have at: "get32 ?buf (12 + 8 + of_nat n + k) = Some x" if "drop (unat k) ?tail = put32 x @ q" "unat k < 1024" for k x q
  proof (rule get32_at)
    have "unat (12 + 8 + of_nat n + k) = 20 + n + unat k" using n un that(2) by (simp add: unat_word_ariths)
    moreover have "drop (20 + n + unat k) ?buf = drop (unat k) ?tail" unfolding tail [symmetric] drop_drop by (simp only: add.commute)
    ultimately show "drop (unat (12 + 8 + of_nat n + k)) ?buf = put32 x @ q" using that(1) by (simp only:)
  qed
  show ?thesis
  proof (cases "extra = []")
    case True
    have hl: "length ?h = 28 + n" by (simp add: True parts)
    have "get32 ?buf (12 + 8 + of_nat n) = Some 0x61746164" using at [of 0 "0x61746164"] by (simp add: True)
    moreover have "get32 ?buf (12 + 8 + of_nat n + 4) = Some (datasize w)" using at [of 4 "datasize w"] by (simp add: True)
    moreover have "12 + 8 + of_nat n + 8 = (of_nat (length ?h) :: u32)" unfolding hl by simp
    ultimately show ?thesis using f8 f16 body unfolding wav_parse_def by (simp add: Let_def)
  next
    case False
    then obtain i b where ib: "extra = [(i, b)]" "i = 0x74636166 \<or> i = 0x5453494C" using extra by (auto simp: extra_chunk_def)
    have hl: "length ?h = 36 + n + length b" by (simp add: ib parts)
    then have bl: "length b < 512" "8 + length b < 512" using len by simp_all
    then have ub: "unat (8 + of_nat (length b) :: u32) = 8 + length b" "unat (12 + of_nat (length b) :: u32) = 12 + length b" by (simp_all add: unat_word_ariths unat_of_nat_small)
    have "get32 ?buf (12 + 8 + of_nat n) = Some i" using at [of 0 i] by (simp add: ib(1) chunk_def)
    moreover have "get32 ?buf (12 + 8 + of_nat n + 4) = Some (of_nat (length b))"
      using at [of 4 "of_nat (length b)"] by (simp add: ib(1) chunk_def)
    moreover have "get32 ?buf (12 + 8 + of_nat n + 8 + of_nat (length b)) = Some 0x61746164"
      using at [of "8 + of_nat (length b)" "0x61746164"] ub bl by (simp add: ib(1) chunk_def add.assoc)
    moreover have "get32 ?buf (12 + 8 + of_nat n + 8 + of_nat (length b) + 4) = Some (datasize w)"
      using at [of "8 + of_nat (length b) + 4" "datasize w"] ub bl by (simp add: ib(1) chunk_def add.assoc)
    moreover have "12 + 8 + of_nat n + 8 + of_nat (length b) + 8 = (of_nat (length ?h) :: u32)" unfolding hl by simp
    ultimately show ?thesis using f8 f16 body ib(2) unfolding wav_parse_def by (simp add: Let_def)
  qed
qed

section \<open>Samples in a buffer\<close>

lemma zero_from_nth:
  "i + n \<le> length buf \<Longrightarrow> \<exists>b. zero_from i n buf = Some b \<and> length b = length buf \<and>
     (\<forall>j<length buf. b ! j = (if i \<le> j \<and> j < i + n then 0 else buf ! j))"
proof (induction n arbitrary: i buf)
  case 0
  then show ?case by auto
next
  case (Suc n)
  have "i + 1 + n \<le> length (buf[i := 0])" using Suc.prems by simp
  from Suc.IH [OF this] obtain b where "zero_from (i + 1) n (buf[i := 0]) = Some b" "length b = length buf"
    "\<forall>j<length buf. b ! j = (if i + 1 \<le> j \<and> j < i + 1 + n then 0 else buf[i := 0] ! j)" by auto
  then show ?case using Suc.prems by (auto simp: arr_set_def nth_list_update)
qed

text \<open>Byte \<open>j\<close> of a buffer with samples of 24 bits: the third byte of four keeps what it was.\<close>

definition spread :: "u8 list \<Rightarrow> nat \<Rightarrow> u8" where
  "spread p j = p ! (3 * (j div 4) + (if j mod 4 = 3 then 0 else j mod 4 + 1))"

lemma spread_at: "spread p (4 * k) = p ! (3 * k + 1)" "spread p (Suc (4 * k)) = p ! (3 * k + 2)" "spread p (4 * k + 3) = p ! (3 * k)"
proof -
  have "Suc (4 * k) div 4 = k" "Suc (4 * k) mod 4 = 1" "(4 * k + 3) div 4 = k" "(4 * k + 3) mod 4 = 3" by presburger+
  then show "spread p (4 * k) = p ! (3 * k + 1)" "spread p (Suc (4 * k)) = p ! (3 * k + 2)" "spread p (4 * k + 3) = p ! (3 * k)"
    by (simp_all add: spread_def)
qed

lemma fill24_nth:
  assumes siz: "unat siz = 4 * q" and p: "3 * q \<le> length p"
  shows "4 * q \<le> length buf \<Longrightarrow> unat i = 4 * k \<Longrightarrow> k \<le> q \<Longrightarrow>
    \<exists>b. fill24 p (3 * k) siz i buf = Some b \<and> length b = length buf \<and>
      (\<forall>j<length buf. b ! j = (if 4 * k \<le> j \<and> j < 4 * q \<and> j mod 4 \<noteq> 2 then spread p j else buf ! j))"
proof (induction "q - k" arbitrary: k i buf)
  case 0
  then have "k = q" by simp
  then show ?case using 0 siz by (subst fill24.simps) auto
next
  case (Suc m)
  have kq: "k < q" using Suc.hyps(2) by simp
  have q16: "4 * q < 65536" using siz unat_u16_less [of siz] by simp
  have i: "unat (i + 1) = 4 * k + 1" "unat (i + 3) = 4 * k + 3" "unat (i + 4) = 4 * Suc k"
    using kq q16 Suc.prems(2) by (simp_all add: unat_add_lem [THEN iffD1])
  define b3 where "b3 = buf[4 * k := p ! (3 * k + 1), 4 * k + 1 := p ! (3 * k + 2), 4 * k + 3 := p ! (3 * k)]"
  have step: "fill24 p (3 * k) siz i buf = fill24 p (3 * Suc k) siz (i + 4) b3"
    using kq i p siz Suc.prems(1,2) by (subst fill24.simps) (simp add: arr_get_def arr_set_def b3_def add.commute)
  have len: "length b3 = length buf" by (simp add: b3_def)
  have "4 * q \<le> length b3" "m = q - Suc k" "Suc k \<le> q" using Suc.hyps(2) Suc.prems(1) kq len by simp_all
  from Suc.hyps(1) [OF this(2,1) i(3) this(3)] obtain b where
    b: "fill24 p (3 * Suc k) siz (i + 4) b3 = Some b" "length b = length buf"
      "\<forall>j<length buf. b ! j = (if 4 * Suc k \<le> j \<and> j < 4 * q \<and> j mod 4 \<noteq> 2 then spread p j else b3 ! j)"
    using len by auto
  have "b ! j = (if 4 * k \<le> j \<and> j < 4 * q \<and> j mod 4 \<noteq> 2 then spread p j else buf ! j)" if j: "j < length buf" for j
  proof -
    have nth: "b3 ! j = (if j = 4 * k + 3 then p ! (3 * k) else if j = 4 * k + 1 then p ! (3 * k + 2)
        else if j = 4 * k then p ! (3 * k + 1) else buf ! j)"
      using j by (auto simp: b3_def nth_list_update)
    consider "j < 4 * k" | "j = 4 * k" | "j = 4 * k + 1" | "j = 4 * k + 2" | "j = 4 * k + 3" | "4 * Suc k \<le> j" by fastforce
    moreover have "Suc (Suc (4 * k)) mod 4 = 2" by presburger
    ultimately show ?thesis
      by cases (use b(3) j nth kq in \<open>simp_all add: spread_at\<close>)
  qed
  then show ?case unfolding step using b(1,2) by blast
qed

section \<open>The header of a file\<close>

lemma decode_step:
  assumes inv: "heap_ok SRAMIN (wav_heap s)"
    and m1: "mymalloc SRAMIN (sizeof_FIL fat) (wav_heap s) = Some (p, h1)" "p \<noteq> 0"
    and m2: "mymalloc SRAMIN 512 h1 = Some (q, h2)" "q \<noteq> 0"
    and open_f: "f_open fat fname (wav_file s) = (e, f1)"
    and read_f: "e = 0 \<Longrightarrow> f_read fat 512 f1 = (r, bs, f2)" "e = 0 \<Longrightarrow> length bs \<le> 512"
    and parse: "\<And>m. e = 0 \<Longrightarrow> wav_parse (bs @ drop (length bs) (mem_bytes m q 512)) v = Some (r', w)"
    and bad: "e \<noteq> 0 \<Longrightarrow> w = v \<and> f2 = f1"
  shows "\<exists>h. wav_decode_init fat fname v s = Some (0, w, s\<lparr>wav_heap := h, wav_file := f_close fat f2\<rparr>) \<and>
    heap_ok SRAMIN h \<and> live SRAMIN h = live SRAMIN (wav_heap s)"
proof -
  let ?m = "if e = 0 then mem_store (ram h2) q bs else ram h2"
  obtain h3 h4 where h: "myfree SRAMIN p (h2\<lparr>ram := ?m\<rparr>) = Some h3" "myfree SRAMIN q h3 = Some h4" "heap_ok SRAMIN h4"
    "live SRAMIN h4 = live SRAMIN (wav_heap s)"
    by (rule two_blocks [OF inv m1(1) m2(1)])
  have "wav_decode_init fat fname v s = Some (0, w, s\<lparr>wav_heap := h4, wav_file := f_close fat f2\<rparr>)"
  proof (cases "e = 0")
    case True
    have "wav_parse (mem_bytes (mem_store (ram h2) q bs) q 512) v = Some (r', w)"
      using parse [OF True] read_f(2) [OF True] by (simp add: mem_bytes_store)
    then show ?thesis using True m1 m2 open_f read_f(1) h by (simp add: wav_decode_init_def Let_def)
  next
    case False
    then have "h2\<lparr>ram := ?m\<rparr> = h2" by simp
    then show ?thesis using False m1 m2 open_f h bad by (simp add: wav_decode_init_def Let_def)
  qed
  then show ?thesis using h(3,4) by blast
qed

lemma get32_append: "get32 bs i = Some x \<Longrightarrow> get32 (bs @ rest) i = Some x"
  by (auto simp: get32_def arr_get_def nth_append split: if_splits Option.bind_splits)

text \<open>A file system whose open file is the list of the bytes to come.\<close>

definition list_fat :: "u8 list fat" where
  "list_fat = \<lparr>f_open = (\<lambda>n f. (0, f)), f_read = (\<lambda>n f. (0, take (unat n) f, drop (unat n) f)),
     f_lseek = (\<lambda>n f. drop (unat n) f), f_close = (\<lambda>f. f), f_tell = (\<lambda>f. 0), sizeof_FIL = 64\<rparr>"

lemma demo_two_blocks:
  "\<exists>h1 h2. mymalloc SRAMIN 64 demo_heap = Some (0x1000C7C0, h1) \<and> mymalloc SRAMIN 512 h1 = Some (0x1000C5C0, h2)"
proof -
  have "table_scan (replicate 800 0) 1 0 (Suc 799) = Some 799" unfolding table_scan.simps Let_def by simp
  moreover have "ready SRAMIN demo_heap = demo_heap" "memmap demo_heap SRAMIN = replicate 800 0"
    by (simp_all add: ready_def unat_memtblsize)
  ultimately have 1: "mymalloc SRAMIN 64 demo_heap =
      Some (0x1000C7C0, demo_heap\<lparr>memmap := (memmap demo_heap)(SRAMIN := replicate 799 0 @ [1])\<rparr>)"
    using arr_fill_Some [of 799 1 "replicate 800 (0 :: u32)" 1]
    by (simp add: mymalloc_def my_mem_malloc_unfold nmemb_of_def unat_memtblsize)
  let ?h = "demo_heap\<lparr>memmap := (memmap demo_heap)(SRAMIN := replicate 799 0 @ [1])\<rparr>"
  have "table_scan (replicate 799 0 @ [1]) 8 0 (Suc (Suc (Suc (Suc (Suc (Suc (Suc (Suc (Suc 791))))))))) = Some 791"
    unfolding table_scan.simps Let_def by (simp add: nth_append)
  moreover have "ready SRAMIN ?h = ?h" by (simp add: ready_def)
  ultimately have "\<exists>h2. mymalloc SRAMIN 512 ?h = Some (0x1000C5C0, h2)"
    using arr_fill_Some [of 791 8 "replicate 799 (0 :: u32) @ [1]" 8]
    by (simp add: mymalloc_def my_mem_malloc_unfold nmemb_of_def unat_memtblsize)
  with 1 show ?thesis by blast
qed

definition demo_wav :: wavctrl where
  "demo_wav = \<lparr>audioformat = 1, nchannels = 2, blockalign = 4, datasize = 1000, totsec = 0, cursec = 0, bitrate = 0,
     samplerate = 44100, bps = 16, datastart = 0\<rparr>"

section \<open>Properties\<close>

text \<open>C21: The header of a WAV file is taken apart as the format puts it together, with any extension of
  the format chunk and with a fact or LIST chunk before the data, as long as the header lies in the
  first 512 bytes: the fields come out, the start of the data is the length of the header, and the
  blocks used for it are given back.\<close>

theorem wav_header_decoded:
  assumes "heap_ok SRAMIN (wav_heap s)"
    and "mymalloc SRAMIN (sizeof_FIL fat) (wav_heap s) = Some (p, h1)" "p \<noteq> 0"
    and "mymalloc SRAMIN 512 h1 = Some (q, h2)" "q \<noteq> 0"
    and "f_open fat fname (wav_file s) = (0, f1)"
    and "f_read fat 512 f1 = (r, take 512 (wav_header w rate ext extra @ samples), f2)"
    and "extra_chunk extra" "length (wav_header w rate ext extra) \<le> 512"
  shows "\<exists>h. wav_decode_init fat fname v s =
      Some (0, w\<lparr>totsec := totsec v, cursec := cursec v, bitrate := rate * 8,
        datastart := of_nat (length (wav_header w rate ext extra))\<rparr>, s\<lparr>wav_heap := h, wav_file := f_close fat f2\<rparr>) \<and>
    heap_ok SRAMIN h \<and> live SRAMIN h = live SRAMIN (wav_heap s)"
proof (rule decode_step [OF assms(1-6)])
  let ?h = "wav_header w rate ext extra"
  show "f_read fat 512 f1 = (r, ?h @ take (512 - length ?h) samples, f2)"
    using assms(7,9) by (simp add: take_append)
  show "length (?h @ take (512 - length ?h) samples) \<le> 512" using assms(9) by simp
  show "wav_parse ((?h @ take (512 - length ?h) samples) @ drop (length (?h @ take (512 - length ?h) samples)) (mem_bytes m q 512)) v =
      Some (0, w\<lparr>totsec := totsec v, cursec := cursec v, bitrate := rate * 8, datastart := of_nat (length ?h)\<rparr>)" for m
    using wav_parse_header [OF assms(8,9)] by (metis append_assoc)
qed simp

lemma wav_header_decoded_witness:
  "\<exists>h. wav_decode_init list_fat [] demo_wav \<lparr>wav_heap = demo_heap, wav_file = wav_header demo_wav 176400 [] [(0x5453494C, [1, 2])] @ replicate 1000 0\<rparr> =
     Some (0, demo_wav\<lparr>bitrate := 1411200, datastart := 54\<rparr>,
       \<lparr>wav_heap = h, wav_file = replicate 542 0\<rparr>) \<and> live SRAMIN h = {}"
proof -
  obtain h1 h2 where h: "mymalloc SRAMIN (sizeof_FIL list_fat) demo_heap = Some (0x1000C7C0, h1)" "mymalloc SRAMIN 512 h1 = Some (0x1000C5C0, h2)"
    using demo_two_blocks by (auto simp: list_fat_def)
  let ?hd = "wav_header demo_wav 176400 [] [(0x5453494C, [1, 2])]"
  have len: "length ?hd = 54" by (simp add: wav_header_def chunk_def length_fmt_body)
  have "extra_chunk [(0x5453494C, [1, 2])]" by (simp add: extra_chunk_def)
  note x = this
  let ?s = "\<lparr>wav_heap = demo_heap, wav_file = ?hd @ replicate 1000 0\<rparr>"
  have "heap_ok SRAMIN (wav_heap ?s)"
    "mymalloc SRAMIN (sizeof_FIL list_fat) (wav_heap ?s) = Some (0x1000C7C0, h1)" "(0x1000C7C0 :: u32) \<noteq> 0"
    using demo_heap_ok h(1) by simp_all
  note heap = this
  have fil: "f_open list_fat [] (wav_file ?s) = (0, ?hd @ replicate 1000 0)"
    "f_read list_fat 512 (?hd @ replicate 1000 0) = (0, take 512 (?hd @ replicate 1000 0), replicate 542 0)"
    "length ?hd \<le> 512" "(0x1000C5C0 :: u32) \<noteq> 0"
    using len by (simp_all add: list_fat_def)
  from wav_header_decoded [OF heap h(2) fil(4,1,2) x fil(3), of demo_wav] len
  show ?thesis by (auto simp: list_fat_def demo_live)
qed

text \<open>A file that cannot be opened, or whose format is not WAVE, is reported as decoded: the result
  is 0 as for a good file, and the control data keep what an earlier file left there.\<close>

theorem wav_errors_lost:
  assumes "heap_ok SRAMIN (wav_heap s)"
    and "mymalloc SRAMIN (sizeof_FIL fat) (wav_heap s) = Some (p, h1)" "p \<noteq> 0"
    and "mymalloc SRAMIN 512 h1 = Some (q, h2)" "q \<noteq> 0"
    and "f_open fat fname (wav_file s) = (e, f1)"
    and "if e = 0 then f_read fat 512 f1 = (r, bs, f2) \<and> length bs \<le> 512 \<and> get32 bs 8 = Some x \<and> x \<noteq> 0x45564157 else f2 = f1"
  shows "\<exists>h. wav_decode_init fat fname v s = Some (0, v, s\<lparr>wav_heap := h, wav_file := f_close fat f2\<rparr>) \<and>
    heap_ok SRAMIN h \<and> live SRAMIN h = live SRAMIN (wav_heap s)"
proof (rule decode_step [OF assms(1-6)])
  show "f_read fat 512 f1 = (r, bs, f2)" "length bs \<le> 512" if "e = 0" using assms(7) that by simp_all
  show "wav_parse (bs @ drop (length bs) (mem_bytes m q 512)) v = Some (2, v)" if "e = 0" for m
    using assms(7) that get32_append [of bs 8 x] by (simp add: wav_parse_def)
qed (use assms(7) in simp)

lemma wav_errors_lost_witness:
  "\<exists>h. wav_decode_init list_fat [] demo_wav \<lparr>wav_heap = demo_heap, wav_file = replicate 20 7\<rparr> =
    Some (0, demo_wav, \<lparr>wav_heap = h, wav_file = []\<rparr>)"
proof -
  obtain h1 h2 where h: "mymalloc SRAMIN (sizeof_FIL list_fat) demo_heap = Some (0x1000C7C0, h1)" "mymalloc SRAMIN 512 h1 = Some (0x1000C5C0, h2)"
    using demo_two_blocks by (auto simp: list_fat_def)
  let ?s = "\<lparr>wav_heap = demo_heap, wav_file = replicate 20 (7 :: u8)\<rparr>"
  have "heap_ok SRAMIN (wav_heap ?s)"
    "mymalloc SRAMIN (sizeof_FIL list_fat) (wav_heap ?s) = Some (0x1000C7C0, h1)" "(0x1000C7C0 :: u32) \<noteq> 0"
    using demo_heap_ok h(1) by simp_all
  note heap = this
  have "f_open list_fat [] (wav_file ?s) = (0, replicate 20 7)" "(0x1000C5C0 :: u32) \<noteq> 0"
    "if (0 :: u8) = 0 then f_read list_fat 512 (replicate 20 7) = (0, replicate 20 7, []) \<and> length (replicate 20 (7 :: u8)) \<le> 512 \<and>
       get32 (replicate 20 7) 8 = Some 0x7070707 \<and> (0x7070707 :: u32) \<noteq> 0x45564157 else [] = replicate 20 (7 :: u8)"
    by (simp_all add: list_fat_def get32_def arr_get_def)
  from wav_errors_lost [OF heap h(2) this(2,1,3), of demo_wav] show ?thesis by (auto simp: list_fat_def)
qed

text \<open>At the end of the file a buffer for 16 bits is not filled up with silence: only the bytes from
  the end of the data to as far from the end of the buffer are cleared. When less than half is missing
  nothing is cleared, otherwise as many bytes as were read remain at the end; what remains are the
  samples that were played last time.\<close>

theorem wav_buffill_end:
  assumes "bits \<noteq> 24" "length buf = unat siz" "f_read fat (ucast siz) f = (r, bs, f1)" "length bs < unat siz"
  shows "\<exists>b. wav_buffill fat siz bits buf tbuf f = Some (of_nat (length bs), b, tbuf, f1) \<and> length b = unat siz \<and>
    take (length bs) b = bs \<and>
    (\<forall>j. length bs \<le> j \<longrightarrow> j < unat siz \<longrightarrow> b ! j = (if j < unat siz - length bs then 0 else buf ! j))"
proof -
  have "length bs + (unat siz - length bs - length bs) \<le> length (put_bytes bs buf)"
    using assms(2,4) by (simp add: put_bytes_def)
  from zero_from_nth [OF this] obtain b where b: "zero_from (length bs) (unat siz - length bs - length bs) (put_bytes bs buf) = Some b"
    "length b = length (put_bytes bs buf)"
    "\<forall>j<length (put_bytes bs buf). b ! j = (if length bs \<le> j \<and> j < length bs + (unat siz - length bs - length bs) then 0 else put_bytes bs buf ! j)"
    by blast
  have len: "length (put_bytes bs buf) = unat siz" using assms(2,4) by (simp add: put_bytes_def)
  have pb: "put_bytes bs buf ! j = (if j < length bs then bs ! j else buf ! j)" if "j < unat siz" for j
    using that assms(2) by (simp add: put_bytes_def nth_append)
  have "take (length bs) b = bs"
    using b(2,3) len assms(4) pb by (intro nth_equalityI) simp_all
  moreover have "b ! j = (if j < unat siz - length bs then 0 else buf ! j)" if "length bs \<le> j" "j < unat siz" for j
    using that b(3) len pb by auto
  moreover have "wav_buffill fat siz bits buf tbuf f = Some (of_nat (length bs), b, tbuf, f1)"
    using assms(1,3,4) b(1) by (simp add: wav_buffill_def)
  ultimately show ?thesis using b(2) len by auto
qed

lemma wav_buffill_end_witness:
  "\<exists>b. wav_buffill list_fat 8 16 [1, 2, 3, 4, 5, 6, 7, 8] [] [50, 51, 52] = Some (3, b, [], []) \<and>
    b ! 2 = 52 \<and> b ! 4 = 0 \<and> b ! 5 = 6 \<and> b ! 7 = 8"
proof -
  obtain b where b: "wav_buffill list_fat 8 16 [1, 2, 3, 4, 5, 6, 7, 8] [] [50, 51, 52] = Some (of_nat (length [50, 51, 52 :: u8]), b, [], [])"
    "take (length [50, 51, 52 :: u8]) b = [50, 51, 52]"
    "\<forall>j. length [50, 51, 52 :: u8] \<le> j \<longrightarrow> j < unat (8 :: u16) \<longrightarrow> b ! j = (if j < unat (8 :: u16) - length [50, 51, 52 :: u8] then 0 else [1, 2, 3, 4, 5, 6, 7, 8] ! j)"
    using wav_buffill_end [of 16 "[1, 2, 3, 4, 5, 6, 7, 8]" 8 list_fat "[50, 51, 52]" 0 "[50, 51, 52]" "[]" "[]"] by (auto simp: list_fat_def)
  have "b ! 2 = take 3 b ! 2" by simp
  moreover have "take 3 b = [50, 51, 52]" using b(2) by (simp add: numeral_3_eq_3)
  ultimately show ?thesis using b(1,3) by simp
qed

text \<open>Samples of 24 bits: the lower byte of each goes to the last place of its four bytes, the third place
  keeps what it was, and what the file had not enough bytes for comes from the buffer of the last call.\<close>

lemma wav_buffill_24:
  assumes "unat siz = 4 * q" "length buf = 4 * q" "3 * q \<le> length tbuf"
    and "f_read fat (ucast (siz div 4 * 3)) f = (r, bs, f1)" "length bs \<le> 3 * q"
  shows "\<exists>b. wav_buffill fat siz 24 buf tbuf f = Some (of_nat (length bs) * 4 div 3, b, put_bytes bs tbuf, f1) \<and> length b = 4 * q \<and>
    (\<forall>j<4 * q. b ! j = (if j mod 4 = 2 then buf ! j else spread (put_bytes bs tbuf) j))"
proof -
  have "3 * q \<le> length (put_bytes bs tbuf)" using assms(3,5) by (simp add: put_bytes_def)
  from fill24_nth [OF assms(1) this, of buf 0 0] assms(2) obtain b where
    "fill24 (put_bytes bs tbuf) 0 siz 0 buf = Some b" "length b = 4 * q"
    "\<forall>j<4 * q. b ! j = (if j mod 4 = 2 then buf ! j else spread (put_bytes bs tbuf) j)" by auto
  then show ?thesis using assms(4) by (simp add: wav_buffill_def Let_def)
qed

text \<open>Inside the data the time that is shown does not run past the length of the song.\<close>

lemma curtime_bounded:
  assumes "bitrate w div 8 \<noteq> 0" "datasize w \<noteq> 0" "uint (datastart w) \<le> uint (f_tell fat fx)"
    and "uint (f_tell fat fx) \<le> uint (datastart w) + uint (datasize w)"
  shows "\<exists>w'. wav_get_curtime fat fx w = Some w' \<and> totsec w' = datasize w div (bitrate w div 8) \<and>
    uint (cursec w') = (uint (f_tell fat fx) - uint (datastart w)) * uint (totsec w') div uint (datasize w) \<and> cursec w' \<le> totsec w'"
proof -
  define D T Z where dtz: "D = uint (f_tell fat fx) - uint (datastart w)" "T = uint (datasize w div (bitrate w div 8))" "Z = uint (datasize w)"
  have D: "0 \<le> D" "D \<le> Z" "0 < Z" "Z < 4294967296" "0 \<le> T" "T < 4294967296"
    using assms(3,4) uint_lt2p [of "datasize w"] uint_lt2p [of "datasize w div (bitrate w div 8)"]
      uint_nonnegative [of "datasize w"] assms(2) [folded uint_0_iff] unfolding dtz
    by simp_all
  have t: "take_bit 64 (uint (datastart w)) = uint (datastart w)"
    using uint_lt2p [of "datastart w"] by (intro take_bit_int_eq_self) simp_all
  then have "ucast (datastart w) \<le> f_tell fat fx" using assms(3) by (simp add: word_le_def unsigned_ucast_eq)
  then have "uint (f_tell fat fx - ucast (datastart w)) = D" unfolding dtz
    using t by (simp add: uint_sub_lem [THEN iffD1] word_le_def unsigned_ucast_eq)
  then have fpos: "sint (f_tell fat fx - ucast (datastart w)) = D" using D by (simp add: sint_uint signed_take_bit_int_eq_self)
  have DT: "D * T div Z \<le> T"
  proof -
    have "D * T \<le> T * Z" using mult_right_mono [OF D(2) D(5)] by (simp add: mult.commute)
    then have "D * T div Z \<le> T * Z div Z" using D(3) by (intro zdiv_mono1) simp_all
    then show ?thesis using D(3) by simp
  qed
  have "0 \<le> D * T div Z" using D by (simp add: div_int_pos_iff)
  then have u: "uint (word_of_int (D * T div Z) :: u32) = D * T div Z" using DT D(6) by (simp add: uint_word_of_int)
  have "(D * T) sdiv Z = D * T div Z" using D by (simp add: signed_divide_int_def sgn_if)
  then have "wav_get_curtime fat fx w = Some (w\<lparr>totsec := datasize w div (bitrate w div 8), cursec := word_of_int (D * T div Z)\<rparr>)"
    using assms(1,2) fpos by (simp add: wav_get_curtime_def dtz Let_def)
  then show ?thesis using u DT by (simp add: dtz word_le_def)
qed

end
