(* ===== verification/Wav_Player.thy ===== *)
theory Wav_Player
  imports Wavplay Key
begin

text \<open>
  Playing a WAV file: \<open>wav_play_song\<close> of \<open>wavplay.c\<close> with its two buffers, and the interrupt of the
  transfer to the codec, \<open>wav_sai_dma_tx_callback\<close>. The loop of the program and the interrupt are
  the two events of a machine; what went to the codec is a list of buffers.
\<close>

section \<open>State\<close>

text \<open>The codec and the serial interface are configured by calls whose order is recorded.\<close>

datatype codec_call = Es8388_sai_cfg nat nat | Sai1_saia_init nat | Sai1_samplerate_set u32 | Sai1_tx_dma_init nat nat

datatype phase = Waiting | Claimed | Scanning | Debounce pins | Ended u8

record 'f player =
  env :: "'f wav_env"
  wavctl :: wavctrl
  file_p :: u32
  saibuf1_p :: u32
  saibuf2_p :: u32
  tbuf_p :: u32
  saibuf1 :: "u8 list"
  saibuf2 :: "u8 list"
  tbuf :: "u8 list"
  status :: u8
  wavtransferend :: u8
  wavwitchbuf :: u8
  fillnum :: u32
  tick :: u8
  led0 :: bool
  key_up :: bool
  ct :: bool
  dma_set :: bool
  dma_on :: bool
  codec :: "codec_call list"
  shown :: "(u32 \<times> u32 \<times> u32) list"
  played :: "u8 list list"
  phase :: phase

section \<open>Buffers and interrupt\<close>

definition audio_start :: "'f player \<Rightarrow> 'f player" where
  "audio_start s = s\<lparr>status := 3, dma_on := True\<rparr>"

definition audio_stop :: "'f player \<Rightarrow> 'f player" where
  "audio_stop s = s\<lparr>status := 0, dma_on := False\<rparr>"

definition fill_buf1 :: "'f fat \<Rightarrow> 'f player \<Rightarrow> 'f player option" where
  "fill_buf1 fat s = do {
     (n, b, t, f) \<leftarrow> wav_buffill fat (of_nat WAV_SAI_TX_DMA_BUFSIZE) (ucast (bps (wavctl s))) (saibuf1 s) (tbuf s) (wav_file (env s));
     Some (s\<lparr>fillnum := n, saibuf1 := b, tbuf := t, env := (env s)\<lparr>wav_file := f\<rparr>\<rparr>)
   }"

definition fill_buf2 :: "'f fat \<Rightarrow> 'f player \<Rightarrow> 'f player option" where
  "fill_buf2 fat s = do {
     (n, b, t, f) \<leftarrow> wav_buffill fat (of_nat WAV_SAI_TX_DMA_BUFSIZE) (ucast (bps (wavctl s))) (saibuf2 s) (tbuf s) (wav_file (env s));
     Some (s\<lparr>fillnum := n, saibuf2 := b, tbuf := t, env := (env s)\<lparr>wav_file := f\<rparr>\<rparr>)
   }"

text \<open>The bit \<open>CT\<close> names the buffer the transfer goes on with.\<close>

definition wav_sai_dma_tx_callback :: "'f player \<Rightarrow> 'f player option" where
  "wav_sai_dma_tx_callback s =
     (if ct s then do {
        b \<leftarrow> (if status s AND 1 = 0 then zero_from 0 WAV_SAI_TX_DMA_BUFSIZE (saibuf1 s) else Some (saibuf1 s));
        Some (s\<lparr>wavwitchbuf := 0, saibuf1 := b, wavtransferend := 1\<rparr>)
      }
      else do {
        b \<leftarrow> (if status s AND 1 = 0 then zero_from 0 WAV_SAI_TX_DMA_BUFSIZE (saibuf2 s) else Some (saibuf2 s));
        Some (s\<lparr>wavwitchbuf := 1, saibuf2 := b, wavtransferend := 1\<rparr>)
      })"

text \<open>The hardware sends the current buffer, changes over to the other one and raises the interrupt.\<close>

definition transfer_complete :: "'f player \<Rightarrow> 'f player option" where
  "transfer_complete s =
     (if dma_on s \<and> dma_set s then
        wav_sai_dma_tx_callback (s\<lparr>played := played s @ [if ct s then saibuf2 s else saibuf1 s], ct := \<not> ct s\<rparr>)
      else Some s)"

section \<open>The loop\<close>

text \<open>
  The loop of the program in the pieces between which the interrupt can come: waiting for the flag, the
  pass that has taken the flag and fills a buffer, the scan of the keys up to its delay, and what follows
  the delay. A paused song goes on scanning. The levels of the pins are the input of a step.
\<close>

definition fill_played :: "'f fat \<Rightarrow> 'f player \<Rightarrow> 'f player option" where
  "fill_played fat s = (if wavwitchbuf s \<noteq> 0 then fill_buf2 fat s else fill_buf1 fat s)"

definition claim_step :: "'f fat \<Rightarrow> 'f player \<Rightarrow> 'f player option" where
  "claim_step fat s =
     (if fillnum s \<noteq> of_nat WAV_SAI_TX_DMA_BUFSIZE then Some (audio_stop (s\<lparr>phase := Ended KEY0_PRES\<rparr>))
      else do { s1 \<leftarrow> fill_played fat s; Some (s1\<lparr>phase := Scanning\<rparr>) })"

definition key_done :: "'f fat \<Rightarrow> u8 \<Rightarrow> bool \<Rightarrow> 'f player \<Rightarrow> 'f player option" where
  "key_done fat key up s =
     (let s1 = s\<lparr>key_up := up,
            status := (if key = WKUP_PRES then (if status s AND 1 \<noteq> 0 then status s AND NOT 1 else status s OR 1) else status s)\<rparr>
      in if key = KEY2_PRES \<or> key = KEY0_PRES then Some (audio_stop (s1\<lparr>phase := Ended key\<rparr>))
         else do {
           w \<leftarrow> wav_get_curtime fat (wav_file (env s1)) (wavctl s1);
           let t = tick s1 + 1;
           Some (s1\<lparr>wavctl := w, shown := shown s1 @ [(totsec w, cursec w, bitrate w)],
             tick := (if t = 20 then 0 else t), led0 := (if t = 20 then \<not> led0 s1 else led0 s1),
             phase := (if status s1 AND 1 = 0 then Scanning else Waiting)\<rparr>)
         })"

definition main_step :: "'f fat \<Rightarrow> pins \<Rightarrow> 'f player \<Rightarrow> 'f player option" where
  "main_step fat p s =
     (case phase s of
        Waiting \<Rightarrow> Some (if wavtransferend s = 0 then s else s\<lparr>wavtransferend := 0, phase := Claimed\<rparr>)
      | Claimed \<Rightarrow> claim_step fat s
      | Scanning \<Rightarrow>
          if key_up s \<and> (\<not> key0 p \<or> \<not> key1 p \<or> \<not> key2 p \<or> wk_up p) then Some (s\<lparr>phase := Debounce p\<rparr>)
          else (case key_scan False p p (key_up s) of (key, up) \<Rightarrow> key_done fat key up s)
      | Debounce p0 \<Rightarrow> (case key_scan False p0 p (key_up s) of (key, up) \<Rightarrow> key_done fat key up s)
      | Ended r \<Rightarrow> Some s)"

datatype event = Transfer_complete | Step pins

definition song_step :: "'f fat \<Rightarrow> 'f player \<Rightarrow> event \<Rightarrow> 'f player option" where
  "song_step fat s e = (case e of Transfer_complete \<Rightarrow> transfer_complete s | Step p \<Rightarrow> main_step fat p s)"

section \<open>The song\<close>

definition song_config :: "'f player \<Rightarrow> 'f player" where
  "song_config s =
     (if bps (wavctl s) = 16 then
        s\<lparr>codec := codec s @ [Es8388_sai_cfg 0 3, Sai1_saia_init 16, Sai1_samplerate_set (samplerate (wavctl s)),
            Sai1_tx_dma_init (WAV_SAI_TX_DMA_BUFSIZE div 2) 1], ct := False, dma_set := True\<rparr>
      else if bps (wavctl s) = 24 then
        s\<lparr>codec := codec s @ [Es8388_sai_cfg 0 0, Sai1_saia_init 24, Sai1_samplerate_set (samplerate (wavctl s)),
            Sai1_tx_dma_init (WAV_SAI_TX_DMA_BUFSIZE div 4) 2], ct := False, dma_set := True\<rparr>
      else s)"

definition song_open :: "'f fat \<Rightarrow> u8 list \<Rightarrow> 'f player \<Rightarrow> 'f player option" where
  "song_open fat fname s = do {
     (res, w, e) \<leftarrow> wav_decode_init fat fname (wavctl s) (env s);
     let s1 = s\<lparr>wavctl := w, env := e\<rparr>;
     if res = 0 then do {
       let s2 = audio_stop (song_config s1);
       let m = ram (wav_heap e);
       case f_open fat fname (wav_file e) of (r, f) \<Rightarrow>
         if r = 0 then do {
           s3 \<leftarrow> fill_buf1 fat (s2\<lparr>env := e\<lparr>wav_file := f_lseek fat (datastart w) f\<rparr>,
             saibuf1 := mem_bytes m (saibuf1_p s) WAV_SAI_TX_DMA_BUFSIZE, saibuf2 := mem_bytes m (saibuf2_p s) WAV_SAI_TX_DMA_BUFSIZE,
             tbuf := mem_bytes m (tbuf_p s) WAV_SAI_TX_DMA_BUFSIZE\<rparr>);
           s4 \<leftarrow> fill_buf2 fat s3;
           Some (audio_start (s4\<lparr>phase := Waiting\<rparr>))
         }
         else Some (s2\<lparr>env := e\<lparr>wav_file := f\<rparr>, phase := Ended 0xFF\<rparr>)
     }
     else Some (s1\<lparr>phase := Ended 0xFF\<rparr>)
   }"

definition song_begin :: "'f fat \<Rightarrow> u8 list \<Rightarrow> 'f player \<Rightarrow> 'f player option" where
  "song_begin fat fname s = do {
     (p, h1) \<leftarrow> mymalloc SRAMIN (sizeof_FIL fat) (wav_heap (env s));
     (b1, h2) \<leftarrow> mymalloc SRAMIN (of_nat WAV_SAI_TX_DMA_BUFSIZE) h1;
     (b2, h3) \<leftarrow> mymalloc SRAMIN (of_nat WAV_SAI_TX_DMA_BUFSIZE) h2;
     (t, h4) \<leftarrow> mymalloc SRAMIN (of_nat WAV_SAI_TX_DMA_BUFSIZE) h3;
     let s1 = s\<lparr>env := (env s)\<lparr>wav_heap := h4\<rparr>, file_p := p, saibuf1_p := b1, saibuf2_p := b2, tbuf_p := t, tick := 0\<rparr>;
     if p \<noteq> 0 \<and> b1 \<noteq> 0 \<and> b2 \<noteq> 0 \<and> t \<noteq> 0 then song_open fat fname s1
     else Some (s1\<lparr>phase := Ended 0xFF\<rparr>)
   }"

definition song_end :: "'f player \<Rightarrow> 'f player option" where
  "song_end s = do {
     h1 \<leftarrow> myfree SRAMIN (tbuf_p s) (wav_heap (env s));
     h2 \<leftarrow> myfree SRAMIN (saibuf1_p s) h1;
     h3 \<leftarrow> myfree SRAMIN (saibuf2_p s) h2;
     h4 \<leftarrow> myfree SRAMIN (file_p s) h3;
     Some (s\<lparr>env := (env s)\<lparr>wav_heap := h4\<rparr>\<rparr>)
   }"

text \<open>The result is missing when the song is still being played after the events.\<close>

definition wav_play_song :: "'f fat \<Rightarrow> u8 list \<Rightarrow> event list \<Rightarrow> 'f player \<Rightarrow> (u8 option \<times> 'f player) option" where
  "wav_play_song fat fname es s = do {
     s1 \<leftarrow> song_begin fat fname s;
     s2 \<leftarrow> run_events (song_step fat) s1 es;
     (case phase s2 of
        Ended r \<Rightarrow> do { s3 \<leftarrow> song_end s2; Some (Some r, s3) }
      | _ \<Rightarrow> Some (None, s2))
   }"

section \<open>What the codec gets\<close>

definition silence :: "u8 list" where
  "silence = replicate WAV_SAI_TX_DMA_BUFSIZE 0"



section \<open>A source of full buffers\<close>

definition full_buffers :: "'f fat \<Rightarrow> (nat \<Rightarrow> u8 list) \<Rightarrow> (nat \<Rightarrow> 'f) \<Rightarrow> nat \<Rightarrow> bool" where
  "full_buffers fat stream fs n \<longleftrightarrow>
     (\<forall>k<n. (\<exists>r. f_read fat (of_nat WAV_SAI_TX_DMA_BUFSIZE) (fs k) = (r, stream k, fs (Suc k))) \<and>
       length (stream k) = WAV_SAI_TX_DMA_BUFSIZE)"

lemma buffill_full:
  assumes "full_buffers fat stream fs n" "k < n" "bits \<noteq> 24" "length buf = WAV_SAI_TX_DMA_BUFSIZE"
  shows "wav_buffill fat (of_nat WAV_SAI_TX_DMA_BUFSIZE) bits buf tb (fs k) = Some (of_nat WAV_SAI_TX_DMA_BUFSIZE, stream k, tb, fs (Suc k))"
proof -
  obtain r where "f_read fat (of_nat WAV_SAI_TX_DMA_BUFSIZE) (fs k) = (r, stream k, fs (Suc k))"
    "length (stream k) = WAV_SAI_TX_DMA_BUFSIZE"
    using assms(1,2) by (auto simp: full_buffers_def)
  then show ?thesis using assms(3,4) by (simp add: wav_buffill_def put_bytes_def WAV_SAI_TX_DMA_BUFSIZE_def)
qed

lemma zero_all: "length buf = n \<Longrightarrow> zero_from 0 n buf = Some (replicate n 0)"
  using zero_from_nth [of 0 n buf] by (auto intro!: nth_equalityI)

lemma curtime_some:
  assumes "bitrate w div 8 \<noteq> 0" "datasize w \<noteq> 0"
  obtains w' where "wav_get_curtime fat f w = Some w'" "bitrate w' = bitrate w" "datasize w' = datasize w" "bps w' = bps w"
  using assms by (simp add: wav_get_curtime_def Let_def)

section \<open>The invariant\<close>

definition cur_buf :: "'f player \<Rightarrow> u8 list" where
  "cur_buf s = (if ct s then saibuf2 s else saibuf1 s)"

definition other_buf :: "'f player \<Rightarrow> u8 list" where
  "other_buf s = (if ct s then saibuf1 s else saibuf2 s)"

fun scanning :: "phase \<Rightarrow> bool" where
  "scanning Scanning = True"
| "scanning (Debounce p) = True"
| "scanning ph = False"

text \<open>The buffer the interrupt named last is still to be filled.\<close>

definition due :: "'f player \<Rightarrow> bool" where
  "due s \<longleftrightarrow> wavtransferend s \<noteq> 0 \<or> phase s = Claimed"



text \<open>
  An interrupt is late when the buffer that the one before has named is not filled yet, unless the song is
  paused. When all is calm none comes between the filling of a buffer and the end of the scan of the keys.
\<close>

definition late :: "bool \<Rightarrow> 'f player \<Rightarrow> event \<Rightarrow> bool" where
  "late calm s e \<longleftrightarrow> e = Transfer_complete \<and> status s AND 1 \<noteq> 0 \<and> (due s \<or> calm \<and> scanning (phase s))"

fun in_time :: "bool \<Rightarrow> 'f fat \<Rightarrow> 'f player \<Rightarrow> event list \<Rightarrow> bool" where
  "in_time calm fat s [] = True"
| "in_time calm fat s (e # es) = (\<not> late calm s e \<and> (case song_step fat s e of None \<Rightarrow> True | Some s' \<Rightarrow> in_time calm fat s' es))"

lemma transfer_steady:
  assumes "dma_on s" "dma_set s" "status s AND 1 \<noteq> 0"
  shows "transfer_complete s = Some (s\<lparr>played := played s @ [cur_buf s], ct := \<not> ct s, wavwitchbuf := (if ct s then 1 else 0), wavtransferend := 1\<rparr>)"
  using assms by (simp add: transfer_complete_def wav_sai_dma_tx_callback_def cur_buf_def)

lemma transfer_paused:
  assumes "dma_on s" "dma_set s" "status s AND 1 = 0" "length (saibuf1 s) = WAV_SAI_TX_DMA_BUFSIZE" "length (saibuf2 s) = WAV_SAI_TX_DMA_BUFSIZE"
  shows "transfer_complete s = Some (s\<lparr>played := played s @ [cur_buf s], ct := \<not> ct s, wavwitchbuf := (if ct s then 1 else 0), wavtransferend := 1,
    saibuf1 := (if ct s then saibuf1 s else silence), saibuf2 := (if ct s then silence else saibuf2 s)\<rparr>)"
  using assms by (simp add: transfer_complete_def wav_sai_dma_tx_callback_def cur_buf_def silence_def zero_all)


text \<open>The status bit after the pause key, whose words are no others than these.\<close>

lemma status_bit: "(st AND NOT 1) AND 1 = (0 :: u8)" "(st OR 1) AND 1 = (1 :: u8)"
  by (rule bit_word_eqI, auto simp: bit_simps)+










section \<open>The start of a song\<close>

text \<open>A WAV file of 16 bits that was decoded and opened, and the file position after its header.\<close>

definition opens_song :: "'f fat \<Rightarrow> u8 list \<Rightarrow> 'f player \<Rightarrow> wavctrl \<Rightarrow> 'f wav_env \<Rightarrow> 'f \<Rightarrow> bool" where
  "opens_song fat fname s w e f \<longleftrightarrow>
     wav_decode_init fat fname (wavctl s) (env s) = Some (0, w, e) \<and> bps w = 16 \<and> bitrate w div 8 \<noteq> 0 \<and> datasize w \<noteq> 0 \<and>
     (\<exists>f0. f_open fat fname (wav_file e) = (0, f0) \<and> f_lseek fat (datastart w) f0 = f)"

lemma song_opened:
  assumes op: "opens_song fat fname s w e (fs 0)" and full: "full_buffers fat stream fs n" "2 \<le> n"
  shows "\<exists>s0. song_open fat fname s = Some s0 \<and> phase s0 = Waiting \<and> \<not> ct s0 \<and> wav_file (env s0) = fs 2 \<and> saibuf1 s0 = stream 0 \<and>
    saibuf2 s0 = stream 1 \<and> played s0 = played s \<and> wavtransferend s0 = wavtransferend s \<and> wavwitchbuf s0 = wavwitchbuf s \<and>
    fillnum s0 = of_nat WAV_SAI_TX_DMA_BUFSIZE \<and> wavctl s0 = w \<and> status s0 = 3 \<and> dma_on s0 \<and> dma_set s0 \<and> key_up s0 = key_up s"
proof -
  have n: "0 < n" "Suc 0 < n" using full(2) by simp_all
  have b1: "wav_buffill fat (of_nat WAV_SAI_TX_DMA_BUFSIZE) 16 buf tb (fs 0) = Some (of_nat WAV_SAI_TX_DMA_BUFSIZE, stream 0, tb, fs (Suc 0))"
    if "length buf = WAV_SAI_TX_DMA_BUFSIZE" for buf tb using buffill_full [OF full(1) n(1) _ that] by simp
  have b2: "wav_buffill fat (of_nat WAV_SAI_TX_DMA_BUFSIZE) 16 buf tb (fs (Suc 0)) = Some (of_nat WAV_SAI_TX_DMA_BUFSIZE, stream 1, tb, fs 2)"
    if "length buf = WAV_SAI_TX_DMA_BUFSIZE" for buf tb using buffill_full [OF full(1) n(2) _ that, of 16 tb] by (simp flip: numeral_2_eq_2)
  obtain f0 where dec: "wav_decode_init fat fname (wavctl s) (env s) = Some (0, w, e)" "bps w = 16"
    "f_open fat fname (wav_file e) = (0, f0)" "f_lseek fat (datastart w) f0 = fs 0"
    using op by (auto simp: opens_song_def)
  show ?thesis unfolding song_open_def dec
    by (simp add: dec song_config_def fill_buf1_def fill_buf2_def audio_start_def audio_stop_def b1 b2 Let_def)
qed


section \<open>The memory of a song\<close>

lemma decode_keeps:
  assumes ok: "heap_ok SRAMIN (wav_heap s)" and dec: "wav_decode_init fat fname v s = Some (r, w, s')"
  shows "heap_ok SRAMIN (wav_heap s') \<and> live SRAMIN (wav_heap s') = live SRAMIN (wav_heap s) \<and> membase (wav_heap s') = membase (wav_heap s)"
proof -
  obtain p h1 q h2 where m: "mymalloc SRAMIN (sizeof_FIL fat) (wav_heap s) = Some (p, h1)" "mymalloc SRAMIN 512 h1 = Some (q, h2)"
    using dec by (auto simp: wav_decode_init_def split: Option.bind_splits)
  have w: "\<exists>m h3. myfree SRAMIN u (h2\<lparr>ram := m\<rparr>) = Some h3 \<and> myfree SRAMIN v h3 = Some x"
    if "myfree SRAMIN u h2 = Some y" "myfree SRAMIN v y = Some x" for u v x y
    using that by (intro exI [of _ "ram h2"]) simp
  have w': "\<exists>m h3. myfree SRAMIN u (h2\<lparr>ram := m\<rparr>) = Some h3 \<and> myfree SRAMIN v h3 = Some x"
    if "myfree SRAMIN u (h2\<lparr>ram := m'\<rparr>) = Some y" "myfree SRAMIN v y = Some x" for u v x y m'
    using that by blast
  have "\<exists>m h3. myfree SRAMIN p (h2\<lparr>ram := m\<rparr>) = Some h3 \<and> myfree SRAMIN q h3 = Some (wav_heap s')"
    using dec m by (auto simp: wav_decode_init_def Let_def intro: w w' split: Option.bind_splits if_splits prod.splits)
  then obtain m h3 where f: "myfree SRAMIN p (h2\<lparr>ram := m\<rparr>) = Some h3" "myfree SRAMIN q h3 = Some (wav_heap s')" by blast
  show ?thesis by (rule two_blocks [OF ok m, where m = m]) (use f in simp)
qed

text \<open>What the loop and the interrupt do not touch.\<close>

definition song_frame :: "'f player \<Rightarrow> 'f player \<Rightarrow> bool" where
  "song_frame s t \<longleftrightarrow> wav_heap (env t) = wav_heap (env s) \<and> file_p t = file_p s \<and> saibuf1_p t = saibuf1_p s \<and>
     saibuf2_p t = saibuf2_p s \<and> tbuf_p t = tbuf_p s"

lemma song_frame_refl: "song_frame s s"
  by (simp add: song_frame_def)

lemma fill_frame: "fill_buf1 fat s = Some t \<Longrightarrow> song_frame s t" "fill_buf2 fat s = Some t \<Longrightarrow> song_frame s t"
  by (auto simp: fill_buf1_def fill_buf2_def song_frame_def split: Option.bind_splits)

lemma song_frame_trans: "song_frame s t \<Longrightarrow> song_frame t u \<Longrightarrow> song_frame s u"
  by (simp add: song_frame_def)

lemma key_done_frame: "key_done fat key up s = Some t \<Longrightarrow> song_frame s t"
  by (auto simp: key_done_def audio_stop_def song_frame_def Let_def split: Option.bind_splits if_splits)

lemma claim_frame: "claim_step fat s = Some t \<Longrightarrow> song_frame s t"
  by (auto simp: claim_step_def fill_played_def audio_stop_def song_frame_def
      dest!: fill_frame split: Option.bind_splits if_splits)

lemma main_frame:
  assumes "main_step fat p s = Some t"
  shows "song_frame s t"
proof (cases "phase s")
  case Claimed
  then show ?thesis using assms claim_frame by (simp add: main_step_def)
qed (use assms in \<open>auto simp: main_step_def song_frame_def
      dest!: key_done_frame [unfolded song_frame_def] split: if_splits prod.splits\<close>)

lemma step_frame: "song_step fat s e = Some t \<Longrightarrow> song_frame s t"
  by (cases e) (auto simp: song_step_def transfer_complete_def wav_sai_dma_tx_callback_def song_frame_def
      dest: main_frame [unfolded song_frame_def] split: if_splits Option.bind_splits)

lemma run_song_frame: "run_events (song_step fat) s es = Some t \<Longrightarrow> song_frame s t"
proof (induction es arbitrary: s)
  case (Cons e es)
  then obtain s1 where "song_step fat s e = Some s1" "run_events (song_step fat) s1 es = Some t" by (auto split: option.splits)
  with Cons.IH [of s1] step_frame [of fat s e s1] show ?case by (auto simp: song_frame_def)
qed (simp add: song_frame_refl)

lemma open_keeps:
  assumes ok: "heap_ok SRAMIN (wav_heap (env s))" and op: "song_open fat fname s = Some t"
  shows "heap_ok SRAMIN (wav_heap (env t)) \<and> live SRAMIN (wav_heap (env t)) = live SRAMIN (wav_heap (env s)) \<and>
    membase (wav_heap (env t)) = membase (wav_heap (env s)) \<and> file_p t = file_p s \<and> saibuf1_p t = saibuf1_p s \<and>
    saibuf2_p t = saibuf2_p s \<and> tbuf_p t = tbuf_p s"
proof -
  obtain res w e where d: "wav_decode_init fat fname (wavctl s) (env s) = Some (res, w, e)"
    using op by (auto simp: song_open_def split: Option.bind_splits)
  have "song_frame (s\<lparr>env := e\<rparr>) t"
    using op d
    by (auto simp: song_open_def song_config_def song_frame_def audio_start_def audio_stop_def Let_def
        dest!: fill_frame split: Option.bind_splits prod.splits if_splits)
  then show ?thesis using decode_keeps [OF ok d] by (simp add: song_frame_def)
qed

lemma song_end_frees:
  assumes ok: "heap_ok SRAMIN (wav_heap (env s))" and beg: "song_begin fat fname s = Some s1" and fr: "song_frame s1 s2"
  shows "\<exists>s'. song_end s2 = Some s' \<and> heap_ok SRAMIN (wav_heap (env s')) \<and> live SRAMIN (wav_heap (env s')) = live SRAMIN (wav_heap (env s))"
proof -
  let ?h = "wav_heap (env s)" and ?n = "of_nat WAV_SAI_TX_DMA_BUFSIZE"
  obtain p h1 b1 h2 b2 h3 t h4 where m: "mymalloc SRAMIN (sizeof_FIL fat) ?h = Some (p, h1)" "mymalloc SRAMIN ?n h1 = Some (b1, h2)"
    "mymalloc SRAMIN ?n h2 = Some (b2, h3)" "mymalloc SRAMIN ?n h3 = Some (t, h4)"
    using beg by (auto simp: song_begin_def split: Option.bind_splits)
  obtain x1 where x1: "p = block_ptr ?h SRAMIN x1" "heap_ok SRAMIN h1" "membase h1 = membase ?h"
    "live SRAMIN h1 = set_option x1 \<union> live SRAMIN ?h" "set_option x1 \<inter> live SRAMIN ?h = {}" by (rule mymalloc_own [OF ok m(1)])
  obtain x2 where x2: "b1 = block_ptr h1 SRAMIN x2" "heap_ok SRAMIN h2" "membase h2 = membase h1"
    "live SRAMIN h2 = set_option x2 \<union> live SRAMIN h1" "set_option x2 \<inter> live SRAMIN h1 = {}" by (rule mymalloc_own [OF x1(2) m(2)])
  obtain x3 where x3: "b2 = block_ptr h2 SRAMIN x3" "heap_ok SRAMIN h3" "membase h3 = membase h2"
    "live SRAMIN h3 = set_option x3 \<union> live SRAMIN h2" "set_option x3 \<inter> live SRAMIN h2 = {}" by (rule mymalloc_own [OF x2(2) m(3)])
  obtain x4 where x4: "t = block_ptr h3 SRAMIN x4" "heap_ok SRAMIN h4" "membase h4 = membase h3"
    "live SRAMIN h4 = set_option x4 \<union> live SRAMIN h3" "set_option x4 \<inter> live SRAMIN h3 = {}" by (rule mymalloc_own [OF x3(2) m(4)])
  let ?s0 = "s\<lparr>env := (env s)\<lparr>wav_heap := h4\<rparr>, file_p := p, saibuf1_p := b1, saibuf2_p := b2, tbuf_p := t, tick := 0\<rparr>"
  let ?hs = "wav_heap (env s1)"
  have s1: "heap_ok SRAMIN ?hs" "live SRAMIN ?hs = live SRAMIN h4" "membase ?hs = membase ?h"
    and s1p: "file_p s1 = p" "saibuf1_p s1 = b1" "saibuf2_p s1 = b2" "tbuf_p s1 = t"
    using beg m open_keeps [of ?s0 fat fname s1] x4(2,3) x1(3) x2(3) x3(3)
    by (auto simp: song_begin_def Let_def split: if_splits)
  have "\<exists>h'. myfree_all SRAMIN [t, b1, b2, p] ?hs = Some h' \<and> heap_ok SRAMIN h' \<and> membase h' = membase ?hs \<and> ram h' = ram ?hs \<and>
      live SRAMIN h' = live SRAMIN ?hs - (\<Union>x\<in>set [x4, x2, x3, x1]. set_option x)"
  proof (rule myfree_all_own [OF s1(1)])
    show "distinct (filter (\<lambda>x. x \<noteq> None) [x4, x2, x3, x1])" using x1(5) x2(4,5) x3(4,5) x4(4,5) x1(4) by auto
    show "[t, b1, b2, p] = map (block_ptr ?hs SRAMIN) [x4, x2, x3, x1]"
      using x1(1,3) x2(1,3) x3(1,3) x4(1,3) s1(3)
      by (simp add: block_ptr_cong [of ?hs ?h] block_ptr_cong [of h1 ?h] block_ptr_cong [of h2 ?h] block_ptr_cong [of h3 ?h])
  qed (use s1 x1 x2 x3 x4 in auto)
  then obtain h' where h': "myfree_all SRAMIN [t, b1, b2, p] ?hs = Some h'" "heap_ok SRAMIN h'"
    "live SRAMIN h' = live SRAMIN ?hs - (\<Union>x\<in>set [x4, x2, x3, x1]. set_option x)" by blast
  have "live SRAMIN ?hs - (\<Union>x\<in>set [x4, x2, x3, x1]. set_option x) = live SRAMIN ?h"
    using s1(2) x1(4,5) x2(4,5) x3(4,5) x4(4,5) by auto
  moreover have "song_end s2 = Some (s2\<lparr>env := (env s2)\<lparr>wav_heap := h'\<rparr>\<rparr>)"
    using h'(1) fr s1p by (auto simp: song_end_def song_frame_def split: Option.bind_splits)
  ultimately show ?thesis using h'(2,3) by simp
qed

text \<open>A file that cannot be opened: the song ends at once with \<open>0xFF\<close>, also when memory is short.\<close>

lemma mymalloc_total:
  assumes "heap_ok b h"
  shows "\<exists>p h'. mymalloc b z h = Some (p, h') \<and> heap_ok b h'"
proof -
  obtain p h' where m: "mymalloc b z h = Some (p, h')"
    using mymalloc_fails [of h b z] assms unfolding heap_ok_def by blast
  then show ?thesis using mymalloc_own [OF assms m] by blast
qed

lemma decode_unopened:
  assumes ok: "heap_ok SRAMIN (wav_heap s)" and bad: "\<And>f. fst (f_open fat fname f) \<noteq> 0"
  shows "\<exists>w e. wav_decode_init fat fname v s = Some (0, w, e)"
proof -
  obtain p h1 q h2 where m: "mymalloc SRAMIN (sizeof_FIL fat) (wav_heap s) = Some (p, h1)" "mymalloc SRAMIN 512 h1 = Some (q, h2)"
    using mymalloc_total ok by metis
  obtain h3 h4 where h: "myfree SRAMIN p (h2\<lparr>ram := ram h2\<rparr>) = Some h3" "myfree SRAMIN q h3 = Some h4"
    by (rule two_blocks [OF ok m])
  obtain r f where o: "f_open fat fname (wav_file s) = (r, f)" by fastforce
  then have "r \<noteq> 0" using bad [of "wav_file s"] by simp
  then show ?thesis using m h o by (auto simp: wav_decode_init_def Let_def)
qed

lemma ended_stays:
  "phase s = Ended r \<Longrightarrow> \<not> dma_on s \<Longrightarrow> run_events (song_step fat) s es = Some s"
proof (induction es)
  case (Cons e es)
  then have "song_step fat s e = Some s" by (cases e) (simp_all add: song_step_def transfer_complete_def main_step_def)
  with Cons show ?case by simp
qed simp

lemma song_unopened:
  assumes ok: "heap_ok SRAMIN (wav_heap (env s))" and bad: "\<And>f. fst (f_open fat fname f) \<noteq> 0" and off: "\<not> dma_on s"
  shows "\<exists>s'. wav_play_song fat fname es s = Some (Some 0xFF, s')"
proof -
  let ?h = "wav_heap (env s)" and ?n = "of_nat WAV_SAI_TX_DMA_BUFSIZE"
  obtain p h1 b1 h2 b2 h3 t h4 where m: "mymalloc SRAMIN (sizeof_FIL fat) ?h = Some (p, h1)" "mymalloc SRAMIN ?n h1 = Some (b1, h2)"
    "mymalloc SRAMIN ?n h2 = Some (b2, h3)" "mymalloc SRAMIN ?n h3 = Some (t, h4)" and ok4: "heap_ok SRAMIN h4"
    using mymalloc_total ok by metis
  let ?s0 = "s\<lparr>env := (env s)\<lparr>wav_heap := h4\<rparr>, file_p := p, saibuf1_p := b1, saibuf2_p := b2, tbuf_p := t, tick := 0\<rparr>"
  obtain w e where d: "wav_decode_init fat fname (wavctl ?s0) (env ?s0) = Some (0, w, e)"
    using decode_unopened [of "env ?s0" fat fname "wavctl ?s0"] ok4 bad by auto
  obtain r f where o: "f_open fat fname (wav_file e) = (r, f)" by fastforce
  then have "r \<noteq> 0" using bad [of "wav_file e"] by simp
  obtain s1 where s1: "song_begin fat fname s = Some s1" "phase s1 = Ended 0xFF" "\<not> dma_on s1"
  proof (cases "p \<noteq> 0 \<and> b1 \<noteq> 0 \<and> b2 \<noteq> 0 \<and> t \<noteq> 0")
    case True
    then show thesis using m d o \<open>r \<noteq> 0\<close> that
      by (simp add: song_begin_def song_open_def Let_def song_config_def audio_stop_def)
  next
    case False
    have "song_begin fat fname s = (if p \<noteq> 0 \<and> b1 \<noteq> 0 \<and> b2 \<noteq> 0 \<and> t \<noteq> 0 then song_open fat fname ?s0 else Some (?s0\<lparr>phase := Ended 0xFF\<rparr>))"
      using m by (simp add: song_begin_def Let_def)
    then show thesis using that [of "?s0\<lparr>phase := Ended 0xFF\<rparr>"] off unfolding if_not_P [OF False] by simp
  qed
  obtain s' where "song_end s1 = Some s'" using song_end_frees [OF ok s1(1) song_frame_refl] by blast
  then show ?thesis using s1 ended_stays [OF s1(2,3), of fat es] by (simp add: wav_play_song_def)
qed

section \<open>Playing without keys\<close>

lemma scan_idle:
  assumes "phase s = Scanning" "pressed p = 0" "status s AND 1 \<noteq> 0" "bitrate (wavctl s) div 8 \<noteq> 0" "datasize (wavctl s) \<noteq> 0"
  obtains w x t l where "main_step fat p s = Some (s\<lparr>key_up := True, wavctl := w, shown := x, tick := t, led0 := l, phase := Waiting\<rparr>)"
    "bitrate w = bitrate (wavctl s)" "datasize w = datasize (wavctl s)" "bps w = bps (wavctl s)"
proof -
  obtain w where w: "wav_get_curtime fat (wav_file (env s)) (wavctl s) = Some w" "bitrate w = bitrate (wavctl s)"
    "datasize w = datasize (wavctl s)" "bps w = bps (wavctl s)" by (rule curtime_some [OF assms(4,5)])
  have "key_scan False p p (key_up s) = (0, True)" "key0 p \<and> key1 p \<and> key2 p \<and> \<not> wk_up p"
    using assms(2) by (simp_all add: key_scan_halves pressed_zero)
  moreover have "(0 :: u8) \<noteq> KEY0_PRES" "(0 :: u8) \<noteq> KEY2_PRES" "(0 :: u8) \<noteq> WKUP_PRES"
    by (simp_all add: KEY0_PRES_def KEY2_PRES_def WKUP_PRES_def)
  ultimately have eq: "main_step fat p s = Some (s\<lparr>key_up := True, wavctl := w, shown := shown s @ [(totsec w, cursec w, bitrate w)],
      tick := (if tick s + 1 = 20 then 0 else tick s + 1), led0 := (if tick s + 1 = 20 then \<not> led0 s else led0 s), phase := Waiting\<rparr>)"
    using w(1) assms(1,3) by (simp add: main_step_def key_done_def Let_def cong: if_cong)
  show thesis by (rule that [OF eq w(2-4)])
qed

lemma buffill_short:
  assumes "f_read fat (of_nat WAV_SAI_TX_DMA_BUFSIZE) f = (r, bs, f')" "length bs < WAV_SAI_TX_DMA_BUFSIZE" "bits \<noteq> 24"
    "length buf = WAV_SAI_TX_DMA_BUFSIZE"
  shows "\<exists>b. wav_buffill fat (of_nat WAV_SAI_TX_DMA_BUFSIZE) bits buf tb f = Some (of_nat (length bs), b, tb, f') \<and>
    length b = WAV_SAI_TX_DMA_BUFSIZE \<and> of_nat (length bs) \<noteq> (of_nat WAV_SAI_TX_DMA_BUFSIZE :: u32)"
proof -
  have "length bs + (8192 - length bs - length bs) \<le> length (put_bytes bs buf)"
    using assms(2,4) by (simp add: put_bytes_def WAV_SAI_TX_DMA_BUFSIZE_def)
  from zero_from_nth [OF this] obtain b where "zero_from (length bs) (8192 - length bs - length bs) (put_bytes bs buf) = Some b"
    "length b = length (put_bytes bs buf)" by blast
  moreover have "unat (of_nat (length bs) :: u32) \<noteq> unat (of_nat WAV_SAI_TX_DMA_BUFSIZE :: u32)"
    using assms(2) by (simp add: unat_of_nat_small WAV_SAI_TX_DMA_BUFSIZE_def)
  ultimately show ?thesis using assms
    by (auto simp: wav_buffill_def put_bytes_def WAV_SAI_TX_DMA_BUFSIZE_def)
qed

text \<open>Buffer \<open>k\<close> is being played; the one after it is complete, or the file had no more for it.\<close>

definition steady :: "(nat \<Rightarrow> u8 list) \<Rightarrow> (nat \<Rightarrow> 'f) \<Rightarrow> nat \<Rightarrow> nat \<Rightarrow> 'f player \<Rightarrow> bool" where
  "steady stream fs n k s \<longleftrightarrow>
     phase s = Waiting \<and> wavtransferend s = 0 \<and> status s AND 1 \<noteq> 0 \<and> dma_on s \<and> dma_set s \<and> ucast (bps (wavctl s)) \<noteq> (24 :: u8) \<and>
     bitrate (wavctl s) div 8 \<noteq> 0 \<and> datasize (wavctl s) \<noteq> 0 \<and>
     length (saibuf1 s) = WAV_SAI_TX_DMA_BUFSIZE \<and> length (saibuf2 s) = WAV_SAI_TX_DMA_BUFSIZE \<and>
     played s = map stream [0..<k] \<and> cur_buf s = stream k \<and>
     (if k + 1 < n then fillnum s = of_nat WAV_SAI_TX_DMA_BUFSIZE \<and> other_buf s = stream (k + 1) \<and> wav_file (env s) = fs (k + 2)
      else fillnum s \<noteq> of_nat WAV_SAI_TX_DMA_BUFSIZE)"

abbreviation idle_round :: "pins \<Rightarrow> event list" where
  "idle_round p \<equiv> [Transfer_complete, Step p, Step p, Step p]"

text \<open>The buffer that was played is filled with the next bytes of the file, or with what is left.\<close>

lemma fill_steady:
  assumes full: "full_buffers fat stream fs n" and short: "f_read fat (of_nat WAV_SAI_TX_DMA_BUFSIZE) (fs n) = (r, bs, f')"
      "length bs < WAV_SAI_TX_DMA_BUFSIZE"
    and m: "m \<le> n" and bits: "bits \<noteq> 24" and len: "length buf = WAV_SAI_TX_DMA_BUFSIZE"
  obtains b num f where "wav_buffill fat (of_nat WAV_SAI_TX_DMA_BUFSIZE) bits buf tb (fs m) = Some (num, b, tb, f)"
    "length b = WAV_SAI_TX_DMA_BUFSIZE" "m < n \<Longrightarrow> num = of_nat WAV_SAI_TX_DMA_BUFSIZE \<and> b = stream m \<and> f = fs (Suc m)"
    "m = n \<Longrightarrow> num \<noteq> of_nat WAV_SAI_TX_DMA_BUFSIZE"
proof (cases "m < n")
  case True
  then have "length (stream m) = WAV_SAI_TX_DMA_BUFSIZE" using full by (simp add: full_buffers_def)
  then show thesis using that [OF buffill_full [OF full True bits len]] True by simp
next
  case False
  with m have "m = n" by simp
  obtain b where b: "wav_buffill fat (of_nat WAV_SAI_TX_DMA_BUFSIZE) bits buf tb (fs n) = Some (of_nat (length bs), b, tb, f')"
    "length b = WAV_SAI_TX_DMA_BUFSIZE" "of_nat (length bs) \<noteq> (of_nat WAV_SAI_TX_DMA_BUFSIZE :: u32)"
    using buffill_short [OF short bits len] by blast
  show thesis by (rule that [of "of_nat (length bs)" b f']) (use b \<open>m = n\<close> in simp_all)
qed

lemma round_steady:
  assumes st: "steady stream fs n k s" and full: "full_buffers fat stream fs n"
    and short: "f_read fat (of_nat WAV_SAI_TX_DMA_BUFSIZE) (fs n) = (r, bs, f')" "length bs < WAV_SAI_TX_DMA_BUFSIZE"
    and k: "k + 1 < n" and p: "pressed p = 0"
  shows "\<exists>s'. run_events (song_step fat) s (idle_round p) = Some s' \<and> steady stream fs n (Suc k) s'"
proof -
  let ?s = "s\<lparr>played := played s @ [cur_buf s], ct := \<not> ct s, wavwitchbuf := (if ct s then 1 else 0), wavtransferend := 1\<rparr>"
  let ?t = "?s\<lparr>wavtransferend := 0, phase := Claimed\<rparr>"
  note s = st [unfolded steady_def]
  have tc: "transfer_complete s = Some ?s" by (rule transfer_steady) (use s in simp_all)
  have cl: "main_step fat p ?s = Some ?t" using s by (simp add: main_step_def)
  let ?buf = "if ct s then saibuf2 s else saibuf1 s"
  have len: "length ?buf = WAV_SAI_TX_DMA_BUFSIZE" and bits: "ucast (bps (wavctl s)) \<noteq> (24 :: u8)" and fk: "wav_file (env s) = fs (k + 2)"
    using s k by simp_all
  obtain b num f where b: "wav_buffill fat (of_nat WAV_SAI_TX_DMA_BUFSIZE) (ucast (bps (wavctl s))) ?buf (tbuf s) (fs (k + 2)) = Some (num, b, tbuf s, f)"
    "length b = WAV_SAI_TX_DMA_BUFSIZE" "k + 2 < n \<Longrightarrow> num = of_nat WAV_SAI_TX_DMA_BUFSIZE \<and> b = stream (k + 2) \<and> f = fs (Suc (k + 2))"
    "k + 2 = n \<Longrightarrow> num \<noteq> of_nat WAV_SAI_TX_DMA_BUFSIZE"
    by (rule fill_steady [OF full short _ bits len, of "k + 2" "tbuf s"]) (use k in auto)
  define u where "u = ?t\<lparr>fillnum := num, saibuf1 := (if ct s then saibuf1 s else b), saibuf2 := (if ct s then b else saibuf2 s),
    tbuf := tbuf s, env := (env s)\<lparr>wav_file := f\<rparr>, phase := Scanning\<rparr>"
  have fill: "main_step fat p ?t = Some u"
    using b(1) fk s k by (cases "ct s") (simp_all add: main_step_def claim_step_def fill_played_def fill_buf1_def fill_buf2_def u_def)
  have un: "phase u = Scanning" "status u AND 1 \<noteq> 0" "bitrate (wavctl u) div 8 \<noteq> 0" "datasize (wavctl u) \<noteq> 0" using s by (simp_all add: u_def)
  obtain w x t l where v: "main_step fat p u = Some (u\<lparr>key_up := True, wavctl := w, shown := x, tick := t, led0 := l, phase := Waiting\<rparr>)"
    "bitrate w = bitrate (wavctl u)" "datasize w = datasize (wavctl u)" "bps w = bps (wavctl u)" by (rule scan_idle [OF un(1) p un(2-4)])
  let ?v = "u\<lparr>key_up := True, wavctl := w, shown := x, tick := t, led0 := l, phase := Waiting\<rparr>"
  have "run_events (song_step fat) s (idle_round p) = Some ?v" using tc cl fill v(1) by (simp add: song_step_def)
  moreover have "steady stream fs n (Suc k) ?v"
    using s k b(2-4) v(2-4) by (auto simp: steady_def u_def cur_buf_def other_buf_def split: if_splits)
  ultimately show ?thesis by blast
qed

lemma last_round:
  assumes st: "steady stream fs n k s" and k: "k + 1 = n"
  shows "\<exists>s'. run_events (song_step fat) s (idle_round p) = Some s' \<and> phase s' = Ended KEY0_PRES \<and> played s' = map stream [0..<n]"
proof -
  note s = st [unfolded steady_def]
  have "transfer_complete s = Some (s\<lparr>played := played s @ [cur_buf s], ct := \<not> ct s, wavwitchbuf := (if ct s then 1 else 0), wavtransferend := 1\<rparr>)"
    by (rule transfer_steady) (use s in simp_all)
  then show ?thesis using s k by (auto simp: song_step_def main_step_def claim_step_def audio_stop_def)
qed

lemma rounds_steady:
  assumes full: "full_buffers fat stream fs n"
    and short: "f_read fat (of_nat WAV_SAI_TX_DMA_BUFSIZE) (fs n) = (r, bs, f')" "length bs < WAV_SAI_TX_DMA_BUFSIZE" and p: "pressed p = 0"
  shows "steady stream fs n k s \<Longrightarrow> k < n \<Longrightarrow>
    \<exists>s'. run_events (song_step fat) s (concat (replicate (n - k) (idle_round p))) = Some s' \<and> phase s' = Ended KEY0_PRES \<and>
      played s' = map stream [0..<n]"
proof (induction "n - k" arbitrary: k s)
  case (Suc d)
  show ?case
  proof (cases "k + 1 = n")
    case True
    then have "n - k = 1" by simp
    then show ?thesis using last_round [OF Suc.prems(1) True, of fat p] by simp
  next
    case False
    then have k: "k + 1 < n" using Suc.prems(2) by simp
    obtain s1 where s1: "run_events (song_step fat) s (idle_round p) = Some s1" "steady stream fs n (Suc k) s1"
      using round_steady [OF Suc.prems(1) full short k p] by blast
    have nk: "n - k = Suc (n - Suc k)" using k by simp
    have split: "concat (replicate (n - k) (idle_round p)) = idle_round p @ concat (replicate (n - Suc k) (idle_round p))"
      by (simp add: nk)
    have "d = n - Suc k" "Suc k < n" using Suc.hyps(2) k by simp_all
    from Suc.hyps(1) [OF this(1) s1(2) this(2)] show ?thesis unfolding split run_events_append s1(1) by simp
  qed
qed simp

text \<open>A pass that finds the flag set: it fills the buffer that is named by it.\<close>

definition refillable :: "'f player \<Rightarrow> bool" where
  "refillable s \<longleftrightarrow> phase s = Waiting \<and> fillnum s = of_nat WAV_SAI_TX_DMA_BUFSIZE \<and>
     length (saibuf1 s) = WAV_SAI_TX_DMA_BUFSIZE \<and> length (saibuf2 s) = WAV_SAI_TX_DMA_BUFSIZE \<and>
     status s AND 1 \<noteq> 0 \<and> dma_on s \<and> dma_set s \<and> bps (wavctl s) = 16 \<and> bitrate (wavctl s) div 8 \<noteq> 0 \<and> datasize (wavctl s) \<noteq> 0"

lemma fill_named:
  assumes full: "full_buffers fat stream fs n" "k < n" and u: "refillable u" and at: "wav_file (env u) = fs k" and fl: "wavtransferend u \<noteq> 0"
  shows "run_events (song_step fat) u [Step p, Step p] = Some (u\<lparr>wavtransferend := 0, phase := Scanning,
    saibuf1 := (if wavwitchbuf u = 0 then stream k else saibuf1 u), saibuf2 := (if wavwitchbuf u = 0 then saibuf2 u else stream k),
    env := (env u)\<lparr>wav_file := fs (Suc k)\<rparr>\<rparr>)"
proof -
  note u = u [unfolded refillable_def]
  have "length (saibuf1 u) = WAV_SAI_TX_DMA_BUFSIZE" "length (saibuf2 u) = WAV_SAI_TX_DMA_BUFSIZE" using u by simp_all
  note fill = buffill_full [OF full _ this(1), of 16 "tbuf u"] buffill_full [OF full _ this(2), of 16 "tbuf u"]
  show ?thesis using u at fl fill
    by (simp add: song_step_def main_step_def claim_step_def fill_played_def fill_buf1_def fill_buf2_def)
qed


section \<open>A file to play\<close>

text \<open>A file system whose file is a list of bytes and a position.\<close>

definition disk_fat :: "(u8 list \<times> nat) fat" where
  "disk_fat = \<lparr>f_open = (\<lambda>n (c, i). (0, c, 0)), f_read = (\<lambda>n (c, i). (0, take (unat n) (drop i c), c, i + unat n)),
     f_lseek = (\<lambda>n (c, i). (c, unat n)), f_close = (\<lambda>f. f), f_tell = (\<lambda>(c, i). of_nat i), sizeof_FIL = 64\<rparr>"

definition demo_stream :: "nat \<Rightarrow> u8 list" where
  "demo_stream k = replicate WAV_SAI_TX_DMA_BUFSIZE (of_nat k + 1)"

definition demo_content :: "u8 list" where
  "demo_content = wav_header demo_wav 176400 [] [] @ concat (map demo_stream [0..<5])"

definition demo_pos :: "nat \<Rightarrow> u8 list \<times> nat" where
  "demo_pos k = (demo_content, 44 + k * WAV_SAI_TX_DMA_BUFSIZE)"

definition demo_player :: "u8 \<Rightarrow> (u8 list \<times> nat) player" where
  "demo_player flag = \<lparr>env = \<lparr>wav_heap = demo_heap, wav_file = (demo_content, 0)\<rparr>, wavctl = demo_wav, file_p = 0, saibuf1_p = 0, saibuf2_p = 0,
     tbuf_p = 0, saibuf1 = [], saibuf2 = [], tbuf = [], status = 0, wavtransferend = flag, wavwitchbuf = 0, fillnum = 0, tick = 0, led0 = True,
     key_up = True, ct = False, dma_set = False, dma_on = False, codec = [], shown = [], played = [], phase = Waiting\<rparr>"

lemma demo_header: "length (wav_header demo_wav 176400 [] []) = 44"
  by (simp add: wav_header_def chunk_def length_fmt_body)

lemma drop_streams: "drop (k * WAV_SAI_TX_DMA_BUFSIZE) (concat (map demo_stream [i..<i + (k + m)])) = concat (map demo_stream [i + k..<i + (k + m)])"
proof (induction k arbitrary: i)
  case (Suc k)
  have "[i..<i + (Suc k + m)] = i # [Suc i..<Suc i + (k + m)]" by (subst upt_conv_Cons) simp_all
  then show ?case using Suc.IH [of "Suc i"] by (simp add: demo_stream_def)
qed simp

lemma drop_demo:
  assumes "k \<le> 5"
  shows "drop (44 + k * WAV_SAI_TX_DMA_BUFSIZE) demo_content = concat (map demo_stream [k..<5])"
proof -
  obtain m where m: "5 = k + m" using assms le_Suc_ex by blast
  have "drop (44 + k * WAV_SAI_TX_DMA_BUFSIZE) demo_content = drop (k * WAV_SAI_TX_DMA_BUFSIZE) (concat (map demo_stream [0..<5]))"
    by (simp add: demo_content_def demo_header)
  also have "\<dots> = concat (map demo_stream [k..<5])" using drop_streams [of k 0 m] by (simp flip: m)
  finally show ?thesis .
qed

lemma demo_read:
  assumes "k \<le> 5"
  shows "f_read disk_fat (of_nat WAV_SAI_TX_DMA_BUFSIZE) (demo_pos k) = (0, take WAV_SAI_TX_DMA_BUFSIZE (concat (map demo_stream [k..<5])), demo_pos (Suc k))"
proof -
  have "unat (of_nat WAV_SAI_TX_DMA_BUFSIZE :: u32) = WAV_SAI_TX_DMA_BUFSIZE" by (simp add: WAV_SAI_TX_DMA_BUFSIZE_def)
  then show ?thesis using drop_demo [OF assms] by (simp add: disk_fat_def demo_pos_def)
qed

lemma demo_full: "full_buffers disk_fat demo_stream demo_pos 5"
  unfolding full_buffers_def
proof (intro allI impI conjI)
  fix k :: nat assume "k < 5"
  then have "[k..<5] = k # [Suc k..<5]" by (rule upt_conv_Cons)
  then show "\<exists>r. f_read disk_fat (of_nat WAV_SAI_TX_DMA_BUFSIZE) (demo_pos k) = (r, demo_stream k, demo_pos (Suc k))"
    using demo_read [of k] \<open>k < 5\<close> by (simp add: demo_stream_def)
qed (simp add: demo_stream_def)

lemma demo_short: "f_read disk_fat (of_nat WAV_SAI_TX_DMA_BUFSIZE) (demo_pos 5) = (0, [], demo_pos 6)"
  using demo_read [of 5] by simp

lemma demo_opens: "\<exists>w e. opens_song disk_fat [] (demo_player flag) w e (demo_pos 0)"
proof -
  let ?s = "\<lparr>wav_heap = demo_heap, wav_file = (demo_content, 0 :: nat)\<rparr>" and ?h = "wav_header demo_wav 176400 [] []"
  let ?w = "demo_wav\<lparr>totsec := totsec demo_wav, cursec := cursec demo_wav, bitrate := 176400 * 8, datastart := of_nat (length ?h)\<rparr>"
  let ?bs = "?h @ take 468 (concat (map demo_stream [0..<5]))"
  obtain h1 h2 where h: "mymalloc SRAMIN (sizeof_FIL disk_fat) (wav_heap ?s) = Some (0x1000C7C0, h1)" "mymalloc SRAMIN 512 h1 = Some (0x1000C5C0, h2)"
    using demo_two_blocks by (auto simp: disk_fat_def)
  have x: "extra_chunk []" and len: "length ?h \<le> 512" by (simp_all add: extra_chunk_def demo_header)
  have bs: "take 512 demo_content = ?bs" by (simp add: demo_content_def demo_header take_append)
  have "\<exists>h. wav_decode_init disk_fat [] demo_wav ?s = Some (0, ?w, ?s\<lparr>wav_heap := h, wav_file := f_close disk_fat (demo_content, 512)\<rparr>) \<and>
      heap_ok SRAMIN h \<and> live SRAMIN h = live SRAMIN (wav_heap ?s)"
  proof (rule decode_step [OF _ h(1) _ h(2)])
    show "f_open disk_fat [] (wav_file ?s) = (0, demo_content, 0)" by (simp add: disk_fat_def)
    show "f_read disk_fat 512 (demo_content, 0) = (0, ?bs, demo_content, 512)" using bs by (simp add: disk_fat_def)
    show "length ?bs \<le> 512" by (simp add: demo_header)
    show "wav_parse (?bs @ drop (length ?bs) (mem_bytes m 0x1000C5C0 512)) demo_wav = Some (0, ?w)" for m
      using wav_parse_header [OF x len] by (metis append_assoc)
  qed (simp_all add: demo_heap_ok)
  then obtain h where h: "wav_decode_init disk_fat [] demo_wav ?s = Some (0, ?w, ?s\<lparr>wav_heap := h, wav_file := f_close disk_fat (demo_content, 512)\<rparr>)"
    by blast
  have "opens_song disk_fat [] (demo_player flag) ?w (?s\<lparr>wav_heap := h, wav_file := f_close disk_fat (demo_content, 512)\<rparr>) (demo_pos 0)"
    unfolding opens_song_def
  proof (intro conjI exI)
    show "wav_decode_init disk_fat [] (wavctl (demo_player flag)) (env (demo_player flag)) =
        Some (0, ?w, ?s\<lparr>wav_heap := h, wav_file := f_close disk_fat (demo_content, 512)\<rparr>)"
      using h by (simp add: demo_player_def)
    show "f_open disk_fat [] (wav_file (?s\<lparr>wav_heap := h, wav_file := f_close disk_fat (demo_content, 512)\<rparr>)) = (0, demo_content, 0)"
      by (simp add: disk_fat_def)
    show "f_lseek disk_fat (datastart ?w) (demo_content, 0) = demo_pos 0" by (simp add: disk_fat_def demo_pos_def demo_header)
  qed (simp_all add: demo_wav_def)
  then show ?thesis by blast
qed

definition idle_pins :: pins where
  "idle_pins = \<lparr>key0 = True, key1 = True, key2 = True, wk_up = False\<rparr>"

lemma idle_pins: "pressed idle_pins = 0"
  by (simp add: pressed_def idle_pins_def)

section \<open>Properties\<close>



abbreviation pause_events :: "pins \<Rightarrow> pins \<Rightarrow> event list" where
  "pause_events p q \<equiv> [Transfer_complete, Step p, Step p, Step q, Transfer_complete, Step q, Transfer_complete, Transfer_complete]"

text \<open>C31: A pause can repeat a buffer. In a file of 16 bits with at least three full buffers, played with the
  flag of the interrupt clear and no key down at the start, when the interrupt comes in the delay of the
  scan that sees the pause key, the song is paused only after the interrupt has looked at the status: the buffer that was just sent
  is not silenced, the next interrupt silences the other one, and the one after that sends the old buffer
  again. All these interrupts are in time.\<close>

theorem wav_pause_repeats:
  assumes "opens_song fat fname s w e (fs 0)" "full_buffers fat stream fs n" "3 \<le> n"
    and "wavtransferend s = 0" "played s = []" "key_up s" "pressed q = WKUP_PRES"
  shows "\<exists>s0 s'. song_open fat fname s = Some s0 \<and> in_time False fat s0 (pause_events p q) \<and> run_events (song_step fat) s0 (pause_events p q) = Some s' \<and>
    phase s' = Scanning \<and> played s' = [stream 0, stream 1, stream 2, stream 1]"
proof -
  have n: "2 \<le> n" "2 < n" using assms(3) by simp_all
  obtain s0 where s0: "song_open fat fname s = Some s0" "phase s0 = Waiting" "\<not> ct s0" "wav_file (env s0) = fs 2" "saibuf1 s0 = stream 0"
    "saibuf2 s0 = stream 1" "played s0 = []" "wavtransferend s0 = 0" "fillnum s0 = of_nat WAV_SAI_TX_DMA_BUFSIZE"
    "wavctl s0 = w" "status s0 = 3" "dma_on s0" "dma_set s0" "key_up s0"
    using song_opened [OF assms(1,2) n(1)] assms(4-6) by auto
  have w: "bps w = 16" "bitrate w div 8 \<noteq> 0" "datasize w \<noteq> 0" using assms(1) by (simp_all add: opens_song_def)
  have len: "length (stream k) = WAV_SAI_TX_DMA_BUFSIZE" if "k < n" for k using assms(2) that by (simp add: full_buffers_def)
  let ?s1 = "s0\<lparr>played := [stream 0], ct := True, wavwitchbuf := 0, wavtransferend := 1\<rparr>"
  have t1: "transfer_complete s0 = Some ?s1" using transfer_steady [of s0] s0 by (simp add: cur_buf_def)
  have r: "refillable ?s1" using s0 w len [of 0] len [of 1] n by (simp add: refillable_def)
  let ?s3 = "s0\<lparr>played := [stream 0], ct := True, wavwitchbuf := 0, wavtransferend := 0, phase := Scanning, saibuf1 := stream 2,
    env := (env s0)\<lparr>wav_file := fs 3\<rparr>\<rparr>"
  have "run_events (song_step fat) ?s1 [Step p, Step p] = Some ?s3"
    using fill_named [OF assms(2) n(2) r, of p] s0 by (simp add: numeral_3_eq_3 numeral_2_eq_2)
  then obtain s2 where s2: "main_step fat p ?s1 = Some s2" "main_step fat p s2 = Some ?s3" "s2 = ?s1\<lparr>wavtransferend := 0, phase := Claimed\<rparr>"
    using s0(2) by (auto simp: song_step_def main_step_def split: option.splits)
  let ?s4 = "?s3\<lparr>phase := Debounce q\<rparr>"
  have q: "\<not> key0 q \<or> \<not> key1 q \<or> \<not> key2 q \<or> wk_up q" "pressed q \<noteq> 0"
    using assms(7) pressed_zero [of q] by (auto simp: WKUP_PRES_def)
  have t4: "main_step fat q ?s3 = Some ?s4" using q s0 by (simp add: main_step_def)
  let ?s5 = "?s4\<lparr>played := [stream 0, stream 1], ct := False, wavwitchbuf := 1, wavtransferend := 1\<rparr>"
  have t5: "transfer_complete ?s4 = Some ?s5" using transfer_steady [of ?s4] s0 by (simp add: cur_buf_def)
  obtain v where v: "wav_get_curtime fat (fs 3) w = Some v" by (rule curtime_some [OF w(2,3), of fat "fs 3"]) blast
  have keys: "WKUP_PRES \<noteq> KEY2_PRES" "WKUP_PRES \<noteq> KEY0_PRES" by (simp_all add: KEY0_PRES_def KEY2_PRES_def WKUP_PRES_def)
  have "key_scan False q q True = (WKUP_PRES, False)" using q(2) assms(7) by (simp add: key_scan_halves)
  then obtain x t l where t6: "main_step fat q ?s5 = Some (?s5\<lparr>key_up := False, status := 2, wavctl := v, shown := x, tick := t, led0 := l, phase := Scanning\<rparr>)"
    using s0 v keys by (simp add: main_step_def key_done_def Let_def)
  let ?s6 = "?s5\<lparr>key_up := False, status := 2, wavctl := v, shown := x, tick := t, led0 := l, phase := Scanning\<rparr>"
  have l6: "length (saibuf1 ?s6) = WAV_SAI_TX_DMA_BUFSIZE" "length (saibuf2 ?s6) = WAV_SAI_TX_DMA_BUFSIZE" using s0 len n by simp_all
  let ?s7 = "?s6\<lparr>played := [stream 0, stream 1, stream 2], ct := True, wavwitchbuf := 0, wavtransferend := 1, saibuf1 := silence\<rparr>"
  have t7: "transfer_complete ?s6 = Some ?s7" using transfer_paused [OF _ _ _ l6] s0 by (simp add: cur_buf_def)
  have l7: "length (saibuf1 ?s7) = WAV_SAI_TX_DMA_BUFSIZE" "length (saibuf2 ?s7) = WAV_SAI_TX_DMA_BUFSIZE" using l6 by (simp_all add: silence_def)
  let ?s8 = "?s7\<lparr>played := [stream 0, stream 1, stream 2, stream 1], ct := False, wavwitchbuf := 1, saibuf2 := silence\<rparr>"
  have t8: "transfer_complete ?s7 = Some ?s8" using transfer_paused [OF _ _ _ l7] s0 by (simp add: cur_buf_def)
  note steps = song_step_def t1 [simplified] s2(1,2) [unfolded s2(3), simplified] t4 [simplified] t5 [simplified] t6 [simplified] t7 [simplified] t8 [simplified]
  have "in_time False fat s0 (pause_events p q)" using s0 by (simp add: steps late_def due_def)
  moreover have "run_events (song_step fat) s0 (pause_events p q) = Some ?s8" by (simp add: steps)
  ultimately show ?thesis using s0(1) by auto
qed

definition pause_pins :: pins where
  "pause_pins = \<lparr>key0 = True, key1 = True, key2 = True, wk_up = True\<rparr>"

lemma wav_pause_repeats_witness:
  "\<exists>s0 s'. song_open disk_fat [] (demo_player 0) = Some s0 \<and>
     run_events (song_step disk_fat) s0 (pause_events idle_pins pause_pins) = Some s' \<and>
     played s' = [demo_stream 0, demo_stream 1, demo_stream 2, demo_stream 1]"
proof -
  obtain w e where o: "opens_song disk_fat [] (demo_player 0) w e (demo_pos 0)" using demo_opens by blast
  have d: "wavtransferend (demo_player 0) = 0" "played (demo_player 0) = []" "key_up (demo_player 0)" "(3 :: nat) \<le> 5"
    "pressed pause_pins = WKUP_PRES" by (simp_all add: demo_player_def pressed_def pause_pins_def)
  show ?thesis using wav_pause_repeats [OF o demo_full d(4,1,2,3,5), of idle_pins] by blast
qed

text \<open>C24: A song gives back the four blocks it takes, whichever way it ends: with the file, with a key, with a
  file that cannot be opened, or because some of the blocks could not be had. A file that cannot be
  opened does end it, when no transfer was left running before, with the result \<open>0xFF\<close> and not with \<open>KEY1_PRES\<close>, which the comment of the function
  names for this case.\<close>

theorem wav_song_gives_back:
  assumes "heap_ok SRAMIN (wav_heap (env s))"
  shows "(wav_play_song fat fname es s = Some (Some r, s') \<longrightarrow>
      heap_ok SRAMIN (wav_heap (env s')) \<and> live SRAMIN (wav_heap (env s')) = live SRAMIN (wav_heap (env s))) \<and>
    ((\<forall>f. fst (f_open fat fname f) \<noteq> 0) \<longrightarrow> \<not> dma_on s \<longrightarrow> (\<exists>t. wav_play_song fat fname es s = Some (Some 0xFF, t)))"
proof (intro conjI impI)
  assume "wav_play_song fat fname es s = Some (Some r, s')"
  then obtain s1 s2 where run: "song_begin fat fname s = Some s1" "run_events (song_step fat) s1 es = Some s2" "song_end s2 = Some s'"
    by (auto simp: wav_play_song_def split: Option.bind_splits phase.splits)
  from song_end_frees [OF assms run(1) run_song_frame [OF run(2)]] run(3)
  show "heap_ok SRAMIN (wav_heap (env s'))" "live SRAMIN (wav_heap (env s')) = live SRAMIN (wav_heap (env s))" by auto
qed (use song_unopened [OF assms] in blast)

lemma wav_song_gives_back_witness:
  "\<exists>t. wav_play_song (disk_fat\<lparr>f_open := \<lambda>n f. (4, f)\<rparr>) [] [] (demo_player 0) = Some (Some 0xFF, t) \<and> live SRAMIN (wav_heap (env t)) = {}"
proof -
  have d: "heap_ok SRAMIN (wav_heap (env (demo_player 0)))" "live SRAMIN (wav_heap (env (demo_player 0))) = {}" "\<not> dma_on (demo_player 0)"
    by (simp_all add: demo_player_def demo_heap_ok demo_live)
  have "\<forall>f. fst (f_open (disk_fat\<lparr>f_open := \<lambda>n f. (4, f)\<rparr>) [] f) \<noteq> 0" by simp
  then obtain t where "wav_play_song (disk_fat\<lparr>f_open := \<lambda>n f. (4, f)\<rparr>) [] [] (demo_player 0) = Some (Some 0xFF, t)"
    using wav_song_gives_back [OF d(1), of "disk_fat\<lparr>f_open := \<lambda>n f. (4, f)\<rparr>" "[]" "[]"] d(3) by blast
  then show ?thesis using wav_song_gives_back [OF d(1), of "disk_fat\<lparr>f_open := \<lambda>n f. (4, f)\<rparr>" "[]" "[]" "0xFF" t] d(2) by auto
qed

text \<open>C22: The end of a song of 16 bits without keys, which starts with the flag of the interrupt clear, for a file
  that decodes, with a bit rate and some data, and consists
  of \<open>n\<close> full buffers, at least two, and an incomplete one: when each interrupt is followed by the pass that
  it is for, the song ends by itself after \<open>n\<close> interrupts, the codec has got the full buffers in order, and
  the incomplete buffer is not played although it was filled.\<close>

theorem wav_tail_not_played:
  assumes "opens_song fat fname s w e (fs 0)" "full_buffers fat stream fs n" "2 \<le> n"
    and "wavtransferend s = 0" "played s = []" "pressed p = 0"
    and "f_read fat (of_nat WAV_SAI_TX_DMA_BUFSIZE) (fs n) = (r, bs, f')" "length bs < WAV_SAI_TX_DMA_BUFSIZE"
  shows "\<exists>s0 s'. song_open fat fname s = Some s0 \<and>
    run_events (song_step fat) s0 (concat (replicate n [Transfer_complete, Step p, Step p, Step p])) = Some s' \<and>
    phase s' = Ended KEY0_PRES \<and> played s' = map stream [0..<n]"
proof -
  obtain s0 where s0: "song_open fat fname s = Some s0" "phase s0 = Waiting" "\<not> ct s0" "wav_file (env s0) = fs 2" "saibuf1 s0 = stream 0"
    "saibuf2 s0 = stream 1" "played s0 = []" "wavtransferend s0 = 0" "fillnum s0 = of_nat WAV_SAI_TX_DMA_BUFSIZE" "wavctl s0 = w"
    "status s0 = 3" "dma_on s0" "dma_set s0"
    using song_opened [OF assms(1-3)] assms(4,5) by auto
  have "length (stream 0) = WAV_SAI_TX_DMA_BUFSIZE" "length (stream 1) = WAV_SAI_TX_DMA_BUFSIZE"
    using assms(2,3) by (simp_all add: full_buffers_def)
  moreover have "bps w = 16" "bitrate w div 8 \<noteq> 0" "datasize w \<noteq> 0" using assms(1) by (simp_all add: opens_song_def)
  ultimately have "steady stream fs n 0 s0"
    using s0 assms(3) by (simp add: steady_def cur_buf_def other_buf_def numeral_2_eq_2 [symmetric])
  from rounds_steady [OF assms(2,7,8,6) this] assms(3) s0(1) show ?thesis by simp
qed

lemma wav_tail_not_played_witness:
  "\<exists>s0 s'. song_open disk_fat [] (demo_player 0) = Some s0 \<and>
     run_events (song_step disk_fat) s0 (concat (replicate 5 [Transfer_complete, Step idle_pins, Step idle_pins, Step idle_pins])) = Some s' \<and>
     phase s' = Ended KEY0_PRES \<and> played s' = map demo_stream [0..<5]"
proof -
  obtain w e where o: "opens_song disk_fat [] (demo_player 0) w e (demo_pos 0)" using demo_opens by blast
  have d: "wavtransferend (demo_player 0) = 0" "played (demo_player 0) = []" "(2 :: nat) \<le> 5" "length ([] :: u8 list) < WAV_SAI_TX_DMA_BUFSIZE"
    by (simp_all add: demo_player_def WAV_SAI_TX_DMA_BUFSIZE_def)
  show ?thesis by (rule wav_tail_not_played [OF o demo_full d(3,1,2) idle_pins demo_short d(4)])
qed



end
