(* ===== verification/C_Strings.thy ===== *)
theory C_Strings
  imports Malloc
begin

text \<open>
  Strings in memory, as the C library works on them: copying, appending and finding the end, and where a
  string lies - outside of the pool of the allocator, or in a block that its holder keeps. The functions
  of the library have no bound; what they write beyond a block is the business of the lemmas.
\<close>

section \<open>The functions of the library\<close>

text \<open>\<open>strcpy\<close>, and the end of a string, where \<open>strcat\<close> goes on.\<close>

partial_function (option) str_copy :: "mem \<Rightarrow> u32 \<Rightarrow> u32 \<Rightarrow> mem option" where
  "str_copy m dst src = (if m src = 0 then Some (m(dst := 0)) else str_copy (m(dst := m src)) (dst + 1) (src + 1))"

partial_function (option) str_end :: "mem \<Rightarrow> u32 \<Rightarrow> u32 option" where
  "str_end m p = (if m p = 0 then Some p else str_end m (p + 1))"

section \<open>Names in memory\<close>

definition name_at :: "mem \<Rightarrow> u32 \<Rightarrow> u8 list \<Rightarrow> bool" where
  "name_at m p s \<longleftrightarrow> 0 \<notin> set s \<and> mem_bytes m p (length s) = s \<and> m (p + of_nat (length s)) = 0"

lemma name_at_Cons: "name_at m p (c # s) \<longleftrightarrow> c \<noteq> 0 \<and> m p = c \<and> name_at m (p + 1) s"
  by (auto simp: name_at_def mem_bytes_Suc add.assoc)

lemma name_at_append: "name_at m p (s @ t) \<Longrightarrow> name_at m (p + of_nat (length s)) t"
proof (induction s arbitrary: p)
  case (Cons c s)
  then show ?case using Cons.IH [of "p + 1"] by (simp add: name_at_Cons add.assoc)
qed simp

lemma name_at_nth: "name_at m p s \<Longrightarrow> i < length s \<Longrightarrow> m (p + of_nat i) = s ! i"
  unfolding name_at_def by (metis nth_mem_bytes)

text \<open>The addresses of the pool, and names outside it, which nothing that is stored to a block changes.\<close>

definition pool_has :: "heap \<Rightarrow> u32 \<Rightarrow> bool" where
  "pool_has p a \<longleftrightarrow> unat (membase p SRAMIN) \<le> unat a \<and> unat a < unat (membase p SRAMIN) + unat (memsize SRAMIN)"

definition same_outside :: "heap \<Rightarrow> mem \<Rightarrow> mem \<Rightarrow> bool" where
  "same_outside p m m' \<longleftrightarrow> (\<forall>a. \<not> pool_has p a \<longrightarrow> m' a = m a)"

definition name_outside :: "heap \<Rightarrow> u32 \<Rightarrow> u8 list \<Rightarrow> bool" where
  "name_outside p src s \<longleftrightarrow> name_at (ram p) src s \<and> (\<forall>j\<le>length s. \<not> pool_has p (src + of_nat j))"

lemma pool_has_cong: "membase p SRAMIN = membase q SRAMIN \<Longrightarrow> pool_has p = pool_has q"
  by (simp add: pool_has_def fun_eq_iff)

lemma same_outside_trans: "same_outside p m m' \<Longrightarrow> same_outside p m' m'' \<Longrightarrow> same_outside p m m''"
  by (simp add: same_outside_def)

lemma name_at_iff: "name_at m p s \<longleftrightarrow> 0 \<notin> set s \<and> (\<forall>i<length s. m (p + of_nat i) = s ! i) \<and> m (p + of_nat (length s)) = 0"
proof -
  have "mem_bytes m p (length s) = s \<longleftrightarrow> (\<forall>i<length s. m (p + of_nat i) = s ! i)"
    by (metis length_mem_bytes nth_equalityI nth_mem_bytes)
  then show ?thesis by (simp add: name_at_def)
qed

lemma name_at_same: "name_at m src s \<Longrightarrow> \<forall>j\<le>length s. m' (src + of_nat j) = m (src + of_nat j) \<Longrightarrow> name_at m' src s"
  by (simp add: name_at_iff)

lemma name_kept:
  assumes "name_outside p src s" "same_outside p (ram p) m"
  shows "name_outside (p\<lparr>ram := m\<rparr>) src s"
proof -
  have "pool_has (p\<lparr>ram := m\<rparr>) = pool_has p" by (rule pool_has_cong) simp
  then show ?thesis using assms name_at_same [of "ram p" src s m] by (simp add: name_outside_def same_outside_def)
qed

lemma block_in_pool:
  assumes "heap_ok SRAMIN p" "mymalloc SRAMIN sz p = Some (a, q)" "a \<noteq> 0" "i < unat sz"
  shows "pool_has p (a + of_nat i)"
proof -
  obtain k n where kn: "a = membase p SRAMIN + of_nat (k * 64)" "k + n \<le> unat (memtblsize SRAMIN)" "unat sz \<le> n * 64"
    using mymalloc_block [of p SRAMIN sz a q] assms by (metis heap_ok_def)
  have "k * 64 + i < unat (memsize SRAMIN)" using kn(2,3) assms(4) unfolding unat_memsize by simp
  then show ?thesis
    using unat_pool_addr [of SRAMIN p "k * 64 + i"] assms(1) by (simp add: pool_has_def heap_ok_def kn(1) add.assoc)
qed

lemma store_same_outside:
  assumes "\<And>i. i < length bs \<Longrightarrow> pool_has p (a + of_nat i)"
  shows "same_outside p m (mem_store m a bs)"
  unfolding same_outside_def
proof (intro allI impI)
  fix x assume "\<not> pool_has p x"
  then show "mem_store m a bs x = m x" using assms by (intro mem_store_other) auto
qed

lemma str_copy_at:
  "name_at m src s \<Longrightarrow> \<forall>i\<le>length s. \<forall>j\<le>length s. dst + of_nat i \<noteq> src + of_nat j \<Longrightarrow>
     str_copy m dst src = Some (mem_store m dst (s @ [0]))"
proof (induction s arbitrary: m dst src)
  case Nil
  then show ?case by (subst str_copy.simps) (simp add: name_at_def)
next
  case (Cons c s)
  have d: "dst + of_nat i \<noteq> src + of_nat j" if "i \<le> Suc (length s)" "j \<le> Suc (length s)" for i j using Cons.prems(2) that by simp
  have c: "c \<noteq> 0" "m src = c" "name_at m (src + 1) s" using Cons.prems(1) by (simp_all add: name_at_Cons)
  have "dst \<noteq> src + 1 + of_nat j" if "j \<le> length s" for j using d [of 0 "Suc j"] that by (simp add: add.assoc)
  then have "name_at (m(dst := c)) (src + 1) s" by (intro name_at_same [OF c(3)]) auto
  moreover have "\<forall>i\<le>length s. \<forall>j\<le>length s. dst + 1 + of_nat i \<noteq> src + 1 + of_nat j"
  proof (intro allI impI)
    fix i j assume "i \<le> length s" "j \<le> length s"
    then show "dst + 1 + of_nat i \<noteq> src + 1 + of_nat j" using d [of "Suc i" "Suc j"] by (simp add: add.assoc)
  qed
  ultimately have "str_copy (m(dst := c)) (dst + 1) (src + 1) = Some (mem_store (m(dst := c)) (dst + 1) (s @ [0]))"
    by (rule Cons.IH)
  then show ?case using c by (subst str_copy.simps) (simp del: fun_upd_apply)
qed

lemma str_end_at: "name_at m p s \<Longrightarrow> str_end m p = Some (p + of_nat (length s))"
proof (induction s arbitrary: p)
  case Nil
  then show ?case by (subst str_end.simps) (simp add: name_at_def)
next
  case (Cons c s)
  then show ?case by (subst str_end.simps) (simp add: name_at_Cons add.assoc)
qed

lemma name_stored: "0 \<notin> set s \<Longrightarrow> length s < 2 ^ 32 \<Longrightarrow> name_at (mem_store m p (s @ [0])) p s"
proof -
  assume s: "0 \<notin> set s" "length s < 2 ^ 32"
  have "mem_store m p (s @ [0]) (p + of_nat i) = (s @ [0]) ! i" if "i \<le> length s" for i
    by (rule mem_store_nth) (use s that in simp_all)
  then show ?thesis using s(1) by (simp add: name_at_iff nth_append)
qed

text \<open>A literal appended to a string.\<close>

lemma name_appended:
  assumes s: "name_at m p s" and t: "0 \<notin> set t" and len: "length s + length t < 2 ^ 32"
  shows "name_at (mem_store m (p + of_nat (length s)) (t @ [0])) p (s @ t)"
proof -
  let ?q = "p + of_nat (length s)"
  have "p + of_nat i \<noteq> ?q + of_nat j" if "i < length s" "j < length (t @ [0])" for i j
    using word_of_nat_inj_small [of i "length s + j", where 'a = 32] that len by (simp add: add.assoc)
  then have front: "mem_store m ?q (t @ [0]) (p + of_nat i) = s ! i" if "i < length s" for i
    using that s mem_store_other [of "t @ [0]" "p + of_nat i" ?q m] by (simp add: name_at_iff)
  have tail: "name_at (mem_store m ?q (t @ [0])) ?q t" by (rule name_stored) (use t len in simp_all)
  have "mem_store m ?q (t @ [0]) (p + of_nat i) = (s @ t) ! i" if "i < length (s @ t)" for i
  proof (cases "i < length s")
    case True
    then show ?thesis using front by (simp add: nth_append)
  next
    case False
    then have e: "p + of_nat i = ?q + of_nat (i - length s)" "i - length s < length t" using that by (simp_all add: of_nat_diff)
    then have "mem_store m ?q (t @ [0]) (?q + of_nat (i - length s)) = t ! (i - length s)" using tail by (simp only: name_at_iff)
    then show ?thesis unfolding e(1) using False by (simp add: nth_append)
  qed
  then show ?thesis using tail s t by (simp add: name_at_iff add.assoc)
qed


end
