(* ===== verification/Exfuns.thy ===== *)
theory Exfuns
  imports C_Strings
begin

text \<open>
  The extensions of the file system, \<open>exfuns.c\<close>: the type of a file from its name, the last part of a
  path, and the copy of a file. Names are in memory; the file system is a parameter whose files are
  known by the address of their object.
\<close>

section \<open>The type of a file\<close>

definition exfuns_char_upper :: "u8 \<Rightarrow> u8" where
  "exfuns_char_upper c = (if c < 0x41 then c else if c \<ge> 0x61 then c - 0x20 else c)"

definition ascii :: "string \<Rightarrow> u8 list" where
  "ascii s = map (\<lambda>c. of_nat (of_char c)) s"

text \<open>Elements of the table that are not given are null pointers.\<close>

definition FILE_TYPE_TBL :: "u8 list option list list" where
  "FILE_TYPE_TBL = map (\<lambda>r. map (Some \<circ> ascii) r @ replicate (7 - length r) None)
     [[''BIN''], [''LRC''], [''NES'', ''SMS''], [''TXT'', ''C'', ''H''],
      [''WAV'', ''MP3'', ''OGG'', ''FLAC'', ''AAC'', ''WMA'', ''MID''],
      [''BMP'', ''JPG'', ''JPEG'', ''GIF''], [''AVI'']]"

text \<open>The end of the name: the counter with \<open>k\<close> rounds left.\<close>

fun end_of_name :: "mem \<Rightarrow> nat \<Rightarrow> u8 \<Rightarrow> u32 \<Rightarrow> u8 \<times> u32" where
  "end_of_name m 0 i p = (i, p)"
| "end_of_name m (Suc k) i p = (if m p = 0 then (i + 1, p) else end_of_name m k (i + 1) (p + 1))"

fun find_dot :: "mem \<Rightarrow> nat \<Rightarrow> u32 \<Rightarrow> u32 option" where
  "find_dot m 0 p = None"
| "find_dot m (Suc k) p = (if m (p - 1) = 0x2E then Some p else find_dot m k (p - 1))"

text \<open>\<open>strcpy\<close> into an array, and the comparison of a string with one in an array.\<close>

fun strcpy_to :: "mem \<Rightarrow> u32 \<Rightarrow> nat \<Rightarrow> u8 list \<Rightarrow> u8 list option" where
  "strcpy_to m p i [] = None"
| "strcpy_to m p i (b # bs) = (if m p = 0 then Some (0 # bs) else map_option (Cons (m p)) (strcpy_to m (p + 1) (i + 1) bs))"

fun same_string :: "u8 list \<Rightarrow> u8 list \<Rightarrow> bool option" where
  "same_string s [] = None"
| "same_string [] (t # ts) = Some (t = 0)"
| "same_string (c # s) (t # ts) = (if c \<noteq> t then Some False else if c = 0 then Some True else same_string s ts)"

fun same_at :: "mem \<Rightarrow> u32 \<Rightarrow> u8 list \<Rightarrow> bool option" where
  "same_at m p [] = None"
| "same_at m p (t # ts) = (if m p \<noteq> t then Some False else if t = 0 then Some True else same_at m (p + 1) ts)"

fun type_in_row :: "mem \<Rightarrow> u8 list \<Rightarrow> u8 list option list \<Rightarrow> u8 \<Rightarrow> u8 option option" where
  "type_in_row m tbuf [] j = Some None"
| "type_in_row m tbuf (e # es) j =
     (if (case e of None \<Rightarrow> m 0 | Some [] \<Rightarrow> 0 | Some (c # _) \<Rightarrow> c) = 0 then Some None
      else do {
        same \<leftarrow> (case e of None \<Rightarrow> same_at m 0 tbuf | Some s \<Rightarrow> same_string s tbuf);
        if same then Some (Some j) else type_in_row m tbuf es (j + 1)
      })"

fun type_in_rows :: "mem \<Rightarrow> u8 list \<Rightarrow> u8 list option list list \<Rightarrow> u8 \<Rightarrow> u8 option" where
  "type_in_rows m tbuf [] i = Some 0xFF"
| "type_in_rows m tbuf (r # rs) i = do {
     found \<leftarrow> type_in_row m tbuf r 0;
     (case found of Some j \<Rightarrow> Some (push_bit 4 i OR j) | None \<Rightarrow> type_in_rows m tbuf rs (i + 1))
   }"

text \<open>\<open>tbuf0\<close> is what the array on the stack holds before.\<close>

definition exfuns_file_type :: "mem \<Rightarrow> u8 list \<Rightarrow> u32 \<Rightarrow> u8 option" where
  "exfuns_file_type m tbuf0 fname =
     (case end_of_name m 250 0 fname of (i, p) \<Rightarrow>
        if i = 250 then Some 0xFF
        else
          case find_dot m 5 p of
            None \<Rightarrow> Some 0xFF
          | Some attr \<Rightarrow> do {
              tbuf \<leftarrow> strcpy_to m attr 0 tbuf0;
              type_in_rows m (map exfuns_char_upper (take 4 tbuf) @ drop 4 tbuf) FILE_TYPE_TBL 0
            })"

section \<open>The last part of a path\<close>

partial_function (option) path_end :: "mem \<Rightarrow> u32 \<Rightarrow> u16 \<Rightarrow> (u32 \<times> u16) option" where
  "path_end m p temp = (if m p \<noteq> 0 then path_end m (p + 1) (temp + 1) else Some (p, temp))"

partial_function (option) path_slash :: "mem \<Rightarrow> u32 \<Rightarrow> u32 option" where
  "path_slash m p = (if m p \<noteq> 0x5C \<and> m p \<noteq> 0x2F then path_slash m (p - 1) else Some (p + 1))"

definition exfuns_get_src_dname :: "mem \<Rightarrow> u32 \<Rightarrow> u32 option" where
  "exfuns_get_src_dname m pname = do {
     (p, temp) \<leftarrow> path_end m pname 0;
     if temp < 4 then Some 0 else path_slash m p
   }"

section \<open>The copy of a file\<close>

record 'f fatfs =
  x_open :: "u32 \<Rightarrow> u32 \<Rightarrow> u8 \<Rightarrow> mem \<Rightarrow> 'f \<Rightarrow> u8 \<times> 'f"
  x_read :: "u32 \<Rightarrow> u32 \<Rightarrow> 'f \<Rightarrow> u8 \<times> u8 list \<times> 'f"
  x_write :: "u32 \<Rightarrow> u8 list \<Rightarrow> 'f \<Rightarrow> u8 \<times> u32 \<times> 'f"
  x_close :: "u32 \<Rightarrow> 'f \<Rightarrow> 'f"
  x_objsize :: "u32 \<Rightarrow> 'f \<Rightarrow> 64 word"
  x_sizeof_FIL :: u32

definition FA_READ :: u8 where "FA_READ = 1"
definition FA_WRITE :: u8 where "FA_WRITE = 2"
definition FA_OPEN_EXISTING :: u8 where "FA_OPEN_EXISTING = 0"
definition FA_CREATE_NEW :: u8 where "FA_CREATE_NEW = 4"
definition FA_CREATE_ALWAYS :: u8 where "FA_CREATE_ALWAYS = 8"

text \<open>The heap with the memory, the files, and the state of the function that shows the progress.\<close>

record ('f, 'u) copy_env =
  c_heap :: heap
  c_files :: 'f
  c_user :: 'u

text \<open>The progress in percent; a division by zero is an error.\<close>

definition copy_pct :: "64 word \<Rightarrow> u32 \<Rightarrow> 64 word option" where
  "copy_pct lcpdsize totsize = (if totsize = 0 then None else Some (lcpdsize * 100 div ucast totsize))"

definition call_msg :: "(u32 \<Rightarrow> u8 \<Rightarrow> u8 \<Rightarrow> 'u \<Rightarrow> u8 \<times> 'u) \<Rightarrow> u32 \<Rightarrow> u8 \<Rightarrow> u8 \<Rightarrow> ('f, 'u) copy_env \<Rightarrow> u8 \<times> ('f, 'u) copy_env" where
  "call_msg fcpymsg psrc pct mode s = (case fcpymsg psrc pct mode (c_user s) of (r, u) \<Rightarrow> (r, s\<lparr>c_user := u\<rparr>))"

partial_function (option) copy_loop ::
  "'f fatfs \<Rightarrow> (u32 \<Rightarrow> u8 \<Rightarrow> u8 \<Rightarrow> 'u \<Rightarrow> u8 \<times> 'u) \<Rightarrow> u32 \<Rightarrow> u32 \<Rightarrow> u32 \<Rightarrow> u32 \<Rightarrow> u32 \<Rightarrow> 64 word \<Rightarrow> u8 \<Rightarrow> ('f, 'u) copy_env
    \<Rightarrow> (u8 \<times> ('f, 'u) copy_env) option" where
  "copy_loop F fcpymsg psrc fsrc fdst fbuf totsize lcpdsize curpct s =
     (case x_read F fsrc 8192 (c_files s) of (res, bs, f1) \<Rightarrow>
        let br = (of_nat (length bs) :: u16);
            h1 = (c_heap s)\<lparr>ram := mem_store (ram (c_heap s)) fbuf bs\<rparr>;
            s1 = s\<lparr>c_files := f1, c_heap := h1\<rparr>
        in if res \<noteq> 0 \<or> br = 0 then Some (res, s1)
           else
             case x_write F fdst (mem_bytes (ram h1) fbuf (unat br)) f1 of (res2, bw32, f2) \<Rightarrow>
               let bw = (ucast bw32 :: u16);
                   s2 = s1\<lparr>c_files := f2\<rparr>;
                   lcpd = lcpdsize + ucast bw
               in Option.bind (copy_pct lcpd totsize) (\<lambda>pct.
                    if ucast curpct \<noteq> pct then
                      case call_msg fcpymsg psrc (ucast pct) 2 s2 of (stop, s3) \<Rightarrow>
                        if stop \<noteq> 0 then Some (0xFF, s3)
                        else if res2 \<noteq> 0 \<or> bw < br then Some (res2, s3)
                        else copy_loop F fcpymsg psrc fsrc fdst fbuf totsize lcpd (ucast pct) s3
                    else if res2 \<noteq> 0 \<or> bw < br then Some (res2, s2)
                    else copy_loop F fcpymsg psrc fsrc fdst fbuf totsize lcpd curpct s2))"

definition copy_files ::
  "'f fatfs \<Rightarrow> (u32 \<Rightarrow> u8 \<Rightarrow> u8 \<Rightarrow> 'u \<Rightarrow> u8 \<times> 'u) \<Rightarrow> u32 \<Rightarrow> u32 \<Rightarrow> u32 \<Rightarrow> u32 \<Rightarrow> u8 \<Rightarrow> u32 \<Rightarrow> u32 \<Rightarrow> u32 \<Rightarrow> ('f, 'u) copy_env
    \<Rightarrow> (u8 \<times> ('f, 'u) copy_env) option" where
  "copy_files F fcpymsg psrc pdst totsize cpdsize fwmode fsrc fdst fbuf s =
     (let mode = (if fwmode = 0 then FA_CREATE_NEW else FA_CREATE_ALWAYS);
          m = ram (c_heap s);
          (res1, f1) = x_open F fsrc psrc (FA_READ OR FA_OPEN_EXISTING) m (c_files s);
          (res, f2) = (if res1 = 0 then x_open F fdst pdst (FA_WRITE OR mode) m f1 else (res1, f1));
          s1 = s\<lparr>c_files := f2\<rparr>
      in if res \<noteq> 0 then Some (res, s1)
         else do {
           (tot, lcpd, pct) \<leftarrow>
             (if totsize = 0 then Some (ucast (x_objsize F fsrc f2), 0, 0)
              else map_option (\<lambda>pct. (totsize, ucast cpdsize, pct)) (copy_pct (ucast cpdsize) totsize));
           (case call_msg fcpymsg psrc (ucast pct) 2 s1 of (_, s2) \<Rightarrow> do {
              (r, s3) \<leftarrow> copy_loop F fcpymsg psrc fsrc fdst fbuf tot lcpd (ucast pct) s2;
              Some (r, s3\<lparr>c_files := x_close F fdst (x_close F fsrc (c_files s3))\<rparr>)
            })
         })"

definition exfuns_file_copy ::
  "'f fatfs \<Rightarrow> (u32 \<Rightarrow> u8 \<Rightarrow> u8 \<Rightarrow> 'u \<Rightarrow> u8 \<times> 'u) \<Rightarrow> u32 \<Rightarrow> u32 \<Rightarrow> u32 \<Rightarrow> u32 \<Rightarrow> u8 \<Rightarrow> ('f, 'u) copy_env
    \<Rightarrow> (u8 \<times> ('f, 'u) copy_env) option" where
  "exfuns_file_copy F fcpymsg psrc pdst totsize cpdsize fwmode s = do {
     (fsrc, h1) \<leftarrow> mymalloc SRAMIN (x_sizeof_FIL F) (c_heap s);
     (fdst, h2) \<leftarrow> mymalloc SRAMIN (x_sizeof_FIL F) h1;
     (fbuf, h3) \<leftarrow> mymalloc SRAMIN 8192 h2;
     let s1 = s\<lparr>c_heap := h3\<rparr>;
     (res, s2) \<leftarrow>
       (if fsrc = 0 \<or> fdst = 0 \<or> fbuf = 0 then Some (100, s1)
        else copy_files F fcpymsg psrc pdst totsize cpdsize fwmode fsrc fdst fbuf s1);
     h4 \<leftarrow> myfree SRAMIN fsrc (c_heap s2);
     h5 \<leftarrow> myfree SRAMIN fdst h4;
     h6 \<leftarrow> myfree SRAMIN fbuf h5;
     Some (res, s2\<lparr>c_heap := h6\<rparr>)
   }"

section \<open>The parts of a name\<close>

lemma end_of_name_at:
  "name_at m p s \<Longrightarrow> length s < k \<Longrightarrow> end_of_name m k i p = (i + of_nat (length s) + 1, p + of_nat (length s))"
proof (induction s arbitrary: k i p)
  case Nil
  then show ?case by (cases k) (auto simp: name_at_def)
next
  case (Cons c s)
  then obtain k' where k: "k = Suc k'" by (cases k) auto
  show ?case using Cons.IH [of "p + 1" k' "i + 1"] Cons.prems by (simp add: k name_at_Cons add.assoc add.commute)
qed

text \<open>The dot is found behind the characters of the extension, which has none.\<close>

lemma find_dot_at:
  "length ext < k \<Longrightarrow> 0x2E \<notin> set ext \<Longrightarrow> m p = 0x2E \<Longrightarrow> mem_bytes m (p + 1) (length ext) = ext \<Longrightarrow>
     find_dot m k (p + 1 + of_nat (length ext)) = Some (p + 1)"
proof (induction ext arbitrary: k rule: rev_induct)
  case Nil
  then show ?case by (cases k) auto
next
  case (snoc c ext)
  then obtain k' where k: "k = Suc k'" by (cases k) auto
  have split: "mem_bytes m (p + 1) (length ext) = ext" "m (p + 1 + of_nat (length ext)) = c"
    using snoc.prems(4) by (simp_all add: mem_bytes_def)
  show ?case using snoc.IH [of k'] snoc.prems split by (simp add: k add.assoc add.commute add.left_commute)
qed

lemma strcpy_at:
  "name_at m p s \<Longrightarrow> length s < length bs \<Longrightarrow> strcpy_to m p i bs = Some (s @ 0 # drop (Suc (length s)) bs)"
proof (induction s arbitrary: p i bs)
  case Nil
  then show ?case by (cases bs) (auto simp: name_at_def)
next
  case (Cons c s)
  then show ?case using Cons.IH [of "p + 1"] by (cases bs) (auto simp: name_at_Cons)
qed

lemma upper_zero: "exfuns_char_upper c = 0 \<longleftrightarrow> c = 0"
proof -
  have "c - 0x20 \<noteq> 0" if "0x61 \<le> c" using that by (auto simp: right_minus_eq)
  then show ?thesis by (auto simp: exfuns_char_upper_def)
qed

lemma same_string_eq:
  "0 \<notin> set s \<Longrightarrow> 0 \<notin> set u \<Longrightarrow> same_string s (u @ 0 # r) = Some (s = u)"
proof (induction s arbitrary: u)
  case Nil
  then show ?case by (cases u) auto
next
  case (Cons c s)
  then show ?case by (cases u) auto
qed

text \<open>The types of the extensions, and the lookup of an extension in capital letters.\<close>

definition file_types :: "(u8 list \<times> u8) list" where
  "file_types = map (\<lambda>(s, c). (ascii s, c))
     [(''BIN'', 0x00), (''LRC'', 0x10), (''NES'', 0x20), (''SMS'', 0x21), (''TXT'', 0x30), (''C'', 0x31), (''H'', 0x32),
      (''WAV'', 0x40), (''MP3'', 0x41), (''OGG'', 0x42), (''FLAC'', 0x43), (''AAC'', 0x44), (''WMA'', 0x45), (''MID'', 0x46),
      (''BMP'', 0x50), (''JPG'', 0x51), (''JPEG'', 0x52), (''GIF'', 0x53), (''AVI'', 0x60)]"

definition type_of_ext :: "u8 list \<Rightarrow> u8" where
  "type_of_ext u = (case map_of file_types u of None \<Rightarrow> 0xFF | Some c \<Rightarrow> c)"

lemma type_in_row_step:
  "type_in_row m t (Some (c # s) # es) j =
     (if c = 0 then Some None else Option.bind (same_string (c # s) t) (\<lambda>same. if same then Some (Some j) else type_in_row m t es (j + 1)))"
  "m 0 = 0 \<Longrightarrow> type_in_row m t (None # es) j = Some None"
  by simp_all

lemma type_in_no_row: "m 0 = 0 \<Longrightarrow> type_in_row m t (replicate n None) j = Some None"
  by (cases n) simp_all

lemma type_in_table:
  assumes "m 0 = 0" "0 \<notin> set u"
  shows "type_in_rows m (u @ 0 # r) FILE_TYPE_TBL 0 = Some (type_of_ext u)"
proof -
  have same: "same_string (c # s) (u @ 0 # r) = Some (u = c # s)" if "0 \<notin> set (c # s)" for c s
    using same_string_eq [OF that assms(2), of r] by auto
  show ?thesis
    using assms(1) unfolding type_of_ext_def FILE_TYPE_TBL_def file_types_def
    by (simp add: ascii_def same type_in_row_step type_in_no_row del: type_in_row.simps(2) same_string.simps)
qed

lemma file_type_at:
  assumes n: "name_at m p (stem @ 0x2E # ext)" and len: "length (stem @ 0x2E # ext) < 249" and ext: "0x2E \<notin> set ext" "length ext \<le> 4"
    and tbuf: "length tbuf0 = 5" and null: "m 0 = 0"
  shows "exfuns_file_type m tbuf0 p = Some (type_of_ext (map exfuns_char_upper ext))"
proof -
  let ?s = "stem @ 0x2E # ext" and ?q = "p + of_nat (length stem)"
  have "of_nat (length ?s) + 1 = (of_nat (Suc (length ?s)) :: u8)" by simp
  moreover have "(of_nat (Suc (length ?s)) :: u8) \<noteq> 250"
  proof
    assume "(of_nat (Suc (length ?s)) :: u8) = 250"
    then have "unat (of_nat (Suc (length ?s)) :: u8) = 250" by simp
    moreover have "unat (of_nat (Suc (length ?s)) :: u8) = Suc (length ?s)" using len by (intro unat_of_nat_small) simp
    ultimately show False using len by simp
  qed
  ultimately obtain i where e: "end_of_name m 250 0 p = (i, p + of_nat (length ?s))" "i \<noteq> 250"
    using end_of_name_at [OF n, of 250 0] len by (auto simp: add.commute)
  have dot: "name_at m ?q (0x2E # ext)" by (rule name_at_append [OF n])
  then have d: "m ?q = 0x2E" "name_at m (?q + 1) ext" by (simp_all add: name_at_Cons)
  have "find_dot m 5 (?q + 1 + of_nat (length ext)) = Some (?q + 1)"
    using find_dot_at [of ext 5 m ?q] ext d by (simp add: name_at_def)
  then have f: "find_dot m 5 (p + of_nat (length ?s)) = Some (?q + 1)" by (simp add: add.assoc add.left_commute)
  let ?t = "ext @ 0 # drop (Suc (length ext)) tbuf0"
  have c: "strcpy_to m (?q + 1) 0 tbuf0 = Some ?t" using strcpy_at [OF d(2)] ext(2) tbuf by simp
  obtain r where r: "map exfuns_char_upper (take 4 ?t) @ drop 4 ?t = map exfuns_char_upper ext @ 0 # r"
  proof (cases "length ext = 4")
    case True
    then show thesis using that [of "drop 5 tbuf0"] by simp
  next
    case False
    then obtain k where "4 - length ext = Suc k" using ext(2) by (cases "4 - length ext") auto
    then show thesis using that ext(2) upper_zero [of 0] by simp
  qed
  have "0 \<notin> set (map exfuns_char_upper ext)" using d(2) upper_zero by (auto simp: name_at_def)
  from type_in_table [of m "map exfuns_char_upper ext" r, OF null this] show ?thesis
    by (simp only: exfuns_file_type_def e f c r prod.case option.case bind.simps if_False e(2))
qed

section \<open>The last part of a path\<close>

lemma path_end_at:
  "name_at m p s \<Longrightarrow> path_end m p t = Some (p + of_nat (length s), t + of_nat (length s))"
proof (induction s arbitrary: p t)
  case Nil
  then show ?case by (subst path_end.simps) (simp add: name_at_def)
next
  case (Cons c s)
  then show ?case by (subst path_end.simps) (simp add: name_at_Cons add.assoc)
qed

lemma path_slash_back:
  "mem_bytes m q (length s) = s \<Longrightarrow> 0x5C \<notin> set s \<Longrightarrow> 0x2F \<notin> set s \<Longrightarrow> m (q - 1) = 0x2F \<or> m (q - 1) = 0x5C \<Longrightarrow>
     m (q + of_nat (length s)) \<noteq> 0x5C \<and> m (q + of_nat (length s)) \<noteq> 0x2F \<Longrightarrow>
     path_slash m (q + of_nat (length s)) = Some q"
proof (induction s rule: rev_induct)
  case Nil
  show ?case using Nil.prems by (subst path_slash.simps) (auto simp: path_slash.simps [of m "q - 1"])
next
  case (snoc c s)
  have split: "mem_bytes m q (length s) = s" "m (q + of_nat (length s)) = c" using snoc.prems(1) by (simp_all add: mem_bytes_def)
  then have "path_slash m (q + of_nat (length s)) = Some q" using snoc.IH snoc.prems by simp
  then show ?case using snoc.prems(5) by (subst path_slash.simps) (simp add: add.commute)
qed

lemma src_dname_at:
  assumes "name_at m p (dir @ c # s)" "c = 0x2F \<or> c = 0x5C" "0x5C \<notin> set s" "0x2F \<notin> set s"
    and "4 \<le> length (dir @ c # s)" "length (dir @ c # s) < 65536"
  shows "exfuns_get_src_dname m p = Some (p + of_nat (length dir) + 1)"
proof -
  let ?q = "p + of_nat (length dir) + 1"
  have "\<not> (of_nat (length (dir @ c # s)) :: u16) < 4"
    using assms(5,6) by (simp add: word_less_nat_alt unat_of_nat_small del: of_nat_Suc length_append)
  moreover have d: "m (?q - 1) = c" "name_at m ?q s"
    using name_at_append [OF assms(1)] by (simp_all add: name_at_Cons)
  then have "path_slash m (?q + of_nat (length s)) = Some ?q"
    using path_slash_back [of m ?q s] assms(2-4) by (auto simp: name_at_def)
  then have "path_slash m (p + of_nat (length (dir @ c # s))) = Some ?q" by (simp add: add.assoc add.left_commute)
  ultimately show ?thesis using path_end_at [OF assms(1), of 0] by (simp add: exfuns_get_src_dname_def del: length_append of_nat_add)
qed

section \<open>A copy\<close>

text \<open>What is known of two open files: the bytes still to be read from the one, the bytes of the other and the
  bytes for which the volume has room. A write that finds no room writes less and reports no error.\<close>

record 'f copy_view =
  rest :: "'f \<Rightarrow> u8 list"
  out :: "'f \<Rightarrow> u8 list"
  room :: "'f \<Rightarrow> nat"

definition copy_law :: "'f fatfs \<Rightarrow> u32 \<Rightarrow> u32 \<Rightarrow> 'f copy_view \<Rightarrow> bool" where
  "copy_law F p q v \<longleftrightarrow>
     (\<forall>f. \<exists>f'. x_read F p 8192 f = (0, take 8192 (rest v f), f') \<and> rest v f' = drop 8192 (rest v f) \<and> out v f' = out v f \<and>
        room v f' = room v f) \<and>
     (\<forall>f bs. length bs \<le> 8192 \<longrightarrow>
        (\<exists>f'. x_write F q bs f = (0, of_nat (min (length bs) (room v f)), f') \<and> out v f' = out v f @ take (room v f) bs \<and>
           room v f' = room v f - length bs \<and> rest v f' = rest v f)) \<and>
     (\<forall>f. out v (x_close F q (x_close F p f)) = out v f)"

lemma min_words:
  assumes "n \<le> 8192"
  shows "unat (of_nat n :: u16) = n" "ucast (of_nat (min n k) :: u32) = (of_nat (min n k) :: u16)"
    "of_nat (min n k) < (of_nat n :: u16) \<longleftrightarrow> k < n"
proof -
  show u: "unat (of_nat n :: u16) = n" using assms by (intro unat_of_nat_small) simp
  have k: "unat (of_nat (min n k) :: u16) = min n k" "unat (of_nat (min n k) :: u32) = min n k"
    using assms by (intro unat_of_nat_small; simp)+
  then show "of_nat (min n k) < (of_nat n :: u16) \<longleftrightarrow> k < n" using u by (simp add: word_less_nat_alt min_def)
  show "ucast (of_nat (min n k) :: u32) = (of_nat (min n k) :: u16)"
    by (rule word_unat_eq_iff [THEN iffD2]) (use k assms in \<open>simp add: unsigned_ucast_eq take_bit_nat_eq_self\<close>)
qed

lemma copy_loop_copies:
  assumes law: "copy_law F fsrc fdst v" and msg: "\<And>n p b u. fst (fcpymsg n p b u) = 0"
  shows "totsize \<noteq> 0 \<or> rest v (c_files s) = [] \<Longrightarrow>
    \<exists>s'. copy_loop F fcpymsg psrc fsrc fdst fbuf totsize lcpdsize curpct s = Some (0, s') \<and>
      out v (c_files s') = out v (c_files s) @ take (room v (c_files s)) (rest v (c_files s)) \<and>
      (\<exists>m. c_heap s' = (c_heap s)\<lparr>ram := m\<rparr>)"
proof (induction "length (rest v (c_files s))" arbitrary: s lcpdsize curpct rule: less_induct)
  case less
  let ?f = "c_files s" and ?bs = "take 8192 (rest v (c_files s))"
  obtain f1 where rd: "x_read F fsrc 8192 ?f = (0, ?bs, f1)" "rest v f1 = drop 8192 (rest v ?f)" "out v f1 = out v ?f" "room v f1 = room v ?f"
    using law unfolding copy_law_def by blast
  define h1 where "h1 = (c_heap s)\<lparr>ram := mem_store (ram (c_heap s)) fbuf ?bs\<rparr>"
  note n = min_words [of "length ?bs"]
  have mem: "mem_bytes (ram h1) fbuf (length ?bs) = ?bs" unfolding h1_def by (simp add: mem_bytes_store)
  show ?case
  proof (cases "rest v ?f = []")
    case True
    have "\<exists>m. c_heap s = (c_heap s)\<lparr>ram := m\<rparr>" by (rule exI [of _ "ram (c_heap s)"]) simp
    then show ?thesis using rd True by (subst copy_loop.simps) (simp add: Let_def)
  next
    case False
    then have tot: "totsize \<noteq> 0" and br: "(of_nat (length ?bs) :: u16) \<noteq> 0"
      using less.prems n(1) by (auto simp: word_unat_eq_iff)
    obtain f2 where wr: "x_write F fdst ?bs f1 = (0, of_nat (min (length ?bs) (room v ?f)), f2)" "out v f2 = out v ?f @ take (room v ?f) ?bs"
      "room v f2 = room v ?f - length ?bs" "rest v f2 = drop 8192 (rest v ?f)"
      using law [unfolded copy_law_def, THEN conjunct2, THEN conjunct1, rule_format, of ?bs f1] rd by auto
    let ?s2 = "s\<lparr>c_heap := h1, c_files := f2\<rparr>"
    let ?l = "lcpdsize + ucast (ucast (of_nat (min (length ?bs) (room v ?f)) :: u32) :: u16)"
    obtain pct where pct: "copy_pct ?l totsize = Some pct" using tot by (simp add: copy_pct_def)
    obtain s3 c where s3: "copy_loop F fcpymsg psrc fsrc fdst fbuf totsize lcpdsize curpct s =
        (if room v ?f < length ?bs then Some (0, s3) else copy_loop F fcpymsg psrc fsrc fdst fbuf totsize ?l c s3)"
      "c_files s3 = f2" "c_heap s3 = h1"
    proof (cases "ucast curpct \<noteq> pct")
      case True
      obtain u where u: "fcpymsg psrc (ucast pct) 2 (c_user s) = (0, u)" using msg [of psrc "ucast pct" 2 "c_user s"] by (metis prod.collapse)
      have "copy_loop F fcpymsg psrc fsrc fdst fbuf totsize lcpdsize curpct s =
          (if room v ?f < length ?bs then Some (0, ?s2\<lparr>c_user := u\<rparr>)
           else copy_loop F fcpymsg psrc fsrc fdst fbuf totsize ?l (ucast pct) (?s2\<lparr>c_user := u\<rparr>))"
        using rd br mem wr pct True u n by (subst copy_loop.simps) (simp add: Let_def call_msg_def flip: h1_def)
      then show thesis using that by simp
    next
      case False
      have "copy_loop F fcpymsg psrc fsrc fdst fbuf totsize lcpdsize curpct s =
          (if room v ?f < length ?bs then Some (0, ?s2) else copy_loop F fcpymsg psrc fsrc fdst fbuf totsize ?l curpct ?s2)"
        using rd br mem wr pct False n by (subst copy_loop.simps) (simp add: Let_def flip: h1_def)
      then show thesis using that by simp
    qed
    show ?thesis
    proof (cases "room v ?f < length ?bs")
      case True
      then have "min (room v ?f) 8192 = room v ?f" by (simp add: min_def split: if_splits)
      then have "take (room v ?f) ?bs = take (room v ?f) (rest v ?f)" by (simp only: take_take)
      then show ?thesis using s3 True wr(2) by (auto simp: h1_def)
    next
      case False
      have "length (rest v (c_files s3)) < length (rest v ?f)" using s3(2) wr(4) \<open>rest v ?f \<noteq> []\<close> by simp
      from less.hyps [OF this] tot obtain s' where
        s': "copy_loop F fcpymsg psrc fsrc fdst fbuf totsize ?l c s3 = Some (0, s')"
          "out v (c_files s') = out v f2 @ take (room v f2) (rest v f2)" "\<exists>m. c_heap s' = (c_heap s3)\<lparr>ram := m\<rparr>"
        using s3(2) by metis
      have "out v f2 @ take (room v f2) (rest v f2) = out v ?f @ take (room v ?f) (rest v ?f)"
      proof -
        have "take (room v ?f) (rest v ?f) = take (room v ?f) (?bs @ drop 8192 (rest v ?f))" by simp
        then show ?thesis using wr(2-4) by (simp only: take_append append_assoc)
      qed
      then show ?thesis using s' s3 False by (auto simp: h1_def)
    qed
  qed
qed

section \<open>Properties\<close>

text \<open>C28: The type of a file depends on the extension alone, the up to four characters after the last dot in
  capital letters, and is the one of the table; other extensions have none. This holds for names of up
  to 248 characters when the byte at address 0 is zero: the rows of the table end in null pointers,
  which are dereferenced.\<close>

theorem file_type_by_extension:
  assumes "name_at m p (stem @ 0x2E # ext)" "length (stem @ 0x2E # ext) < 249" "0x2E \<notin> set ext" "length ext \<le> 4"
    and "length tbuf0 = 5" "m 0 = 0"
  shows "exfuns_file_type m tbuf0 p = Some (type_of_ext (map exfuns_char_upper ext))"
  using file_type_at [OF assms] .

lemma file_type_by_extension_witness:
  "exfuns_file_type (mem_store (\<lambda>_. 0) 0x20000000 (ascii ''0:/MUSIC/a.b.Wav'' @ [0])) [1, 2, 3, 4, 5] 0x20000000 = Some 0x40"
proof -
  let ?stem = "ascii ''0:/MUSIC/a.b''" and ?ext = "ascii ''Wav''"
  let ?m = "mem_store (\<lambda>_. 0) 0x20000000 (ascii ''0:/MUSIC/a.b.Wav'' @ [0])"
  have n: "ascii ''0:/MUSIC/a.b.Wav'' = ?stem @ 0x2E # ?ext" by (simp add: ascii_def)
  have "name_at ?m 0x20000000 (ascii ''0:/MUSIC/a.b.Wav'')" by (rule name_stored) (simp_all add: ascii_def)
  then have "name_at ?m 0x20000000 (?stem @ 0x2E # ?ext)" by (simp only: n [symmetric])
  moreover have "length (?stem @ 0x2E # ?ext) < 249" "0x2E \<notin> set ?ext" "length ?ext \<le> 4" by (simp_all add: ascii_def)
  moreover have "?m 0 = 0" by (simp add: ascii_def)
  ultimately have "exfuns_file_type ?m [1, 2, 3, 4, 5] 0x20000000 = Some (type_of_ext (map exfuns_char_upper ?ext))"
    by (intro file_type_by_extension) simp_all
  moreover have "type_of_ext (map exfuns_char_upper ?ext) = 0x40"
    by (simp add: type_of_ext_def file_types_def ascii_def exfuns_char_upper_def)
  ultimately show ?thesis by simp
qed

text \<open>C27: The copy of a single file writes the bytes of the source in their order, all of them when the volume
  has room and the first ones when it has not. It returns 0 in both cases: a disk that is full is not
  reported. The loop ends, the three blocks are given back, and no progress is computed with a size of
  zero.\<close>

theorem file_copy_copies:
  assumes "heap_ok SRAMIN (c_heap s)"
    and "mymalloc SRAMIN (x_sizeof_FIL F) (c_heap s) = Some (fsrc, h1)" "mymalloc SRAMIN (x_sizeof_FIL F) h1 = Some (fdst, h2)"
    and "mymalloc SRAMIN 8192 h2 = Some (fbuf, h3)" "fsrc \<noteq> 0" "fdst \<noteq> 0" "fbuf \<noteq> 0"
    and "x_open F fsrc psrc 1 (ram h3) (c_files s) = (0, f1)"
    and "x_open F fdst pdst (if fwmode = 0 then 6 else 10) (ram h3) f1 = (0, f2)"
    and "copy_law F fsrc fdst v" "x_objsize F fsrc f2 = of_nat (length (rest v f2))" "length (rest v f2) < 2 ^ 32" "out v f2 = []"
    and "\<forall>n p b u. fst (fcpymsg n p b u) = 0"
  shows "\<exists>s'. exfuns_file_copy F fcpymsg psrc pdst 0 cpdsize fwmode s = Some (0, s') \<and>
    out v (c_files s') = take (room v f2) (rest v f2) \<and> heap_ok SRAMIN (c_heap s') \<and> live SRAMIN (c_heap s') = live SRAMIN (c_heap s)"
proof -
  let ?s1 = "s\<lparr>c_heap := h3, c_files := f2\<rparr>"
  have msg: "fst (fcpymsg n p b u) = 0" for n p b u using assms(14) by blast
  obtain u where u: "fcpymsg psrc 0 2 (c_user s) = (0, u)" using msg [of psrc 0 2 "c_user s"] by (metis prod.collapse)
  let ?s2 = "?s1\<lparr>c_user := u\<rparr>"
  define tot where "tot = (ucast (of_nat (length (rest v f2)) :: 64 word) :: u32)"
  have "unat tot = length (rest v f2)" using assms(12) by (simp add: tot_def unsigned_ucast_eq unat_of_nat_small take_bit_nat_eq_self)
  then have "tot \<noteq> 0 \<or> rest v (c_files ?s2) = []" by auto
  from copy_loop_copies [where fcpymsg = fcpymsg and psrc = psrc and fbuf = fbuf and lcpdsize = 0 and curpct = 0, OF assms(10) msg this] obtain s3 m where
    s3: "copy_loop F fcpymsg psrc fsrc fdst fbuf tot 0 0 ?s2 = Some (0, s3)" "out v (c_files s3) = take (room v f2) (rest v f2)"
      "c_heap s3 = h3\<lparr>ram := m\<rparr>" using assms(13) by auto
  have flags: "FA_READ OR FA_OPEN_EXISTING = 1" "FA_WRITE OR FA_CREATE_NEW = 6" "FA_WRITE OR FA_CREATE_ALWAYS = 10"
    by (simp_all add: FA_READ_def FA_WRITE_def FA_OPEN_EXISTING_def FA_CREATE_NEW_def FA_CREATE_ALWAYS_def)
  have files: "copy_files F fcpymsg psrc pdst 0 cpdsize fwmode fsrc fdst fbuf (s\<lparr>c_heap := h3\<rparr>) =
      Some (0, s3\<lparr>c_files := x_close F fdst (x_close F fsrc (c_files s3))\<rparr>)"
    by (cases "fwmode = 0")
      (use assms(8,9,11) s3(1) u in \<open>simp_all add: copy_files_def flags Let_def call_msg_def flip: tot_def\<close>)
  have close: "out v (x_close F fdst (x_close F fsrc (c_files s3))) = out v (c_files s3)" using assms(10) by (simp add: copy_law_def)
  obtain g1 g2 h' where h': "myfree SRAMIN fsrc (h3\<lparr>ram := m\<rparr>) = Some g1" "myfree SRAMIN fdst g1 = Some g2" "myfree SRAMIN fbuf g2 = Some h'"
    "heap_ok SRAMIN h'" "live SRAMIN h' = live SRAMIN (c_heap s)" by (rule three_blocks [OF assms(1-4)])
  have "exfuns_file_copy F fcpymsg psrc pdst 0 cpdsize fwmode s =
      Some (0, s3\<lparr>c_files := x_close F fdst (x_close F fsrc (c_files s3)), c_heap := h'\<rparr>)"
    unfolding exfuns_file_copy_def assms(2-4) bind.simps prod.case Let_def using assms(5-7) by (simp add: files s3(3) h'(1-3))
  then show ?thesis using h'(4,5) s3(2) close by simp
qed

text \<open>Two files and a volume with room for some bytes.\<close>

definition demo_files :: "(u8 list \<times> u8 list \<times> nat) fatfs" where
  "demo_files = \<lparr>x_open = (\<lambda>p n mode m f. (0, f)),
     x_read = (\<lambda>p n (r, w, k). (0, take (unat n) r, drop (unat n) r, w, k)),
     x_write = (\<lambda>p bs (r, w, k). (0, of_nat (min (length bs) k), r, w @ take k bs, k - length bs)),
     x_close = (\<lambda>p f. f), x_objsize = (\<lambda>p (r, w, k). of_nat (length r)), x_sizeof_FIL = 64\<rparr>"

definition demo_files_view :: "(u8 list \<times> u8 list \<times> nat) copy_view" where
  "demo_files_view = \<lparr>rest = fst, out = fst \<circ> snd, room = snd \<circ> snd\<rparr>"

lemma demo_copy_law: "copy_law demo_files p q demo_files_view"
  by (simp add: copy_law_def demo_files_def demo_files_view_def)

lemma mymalloc_room:
  assumes ok: "heap_ok b h" and sz: "sz \<noteq> 0" and run: "zero_run (memmap h b) r (unat (nmemb_of b sz))"
  shows "\<exists>p h'. mymalloc b sz h = Some (p, h') \<and> p \<noteq> 0"
proof -
  have inv: "heap_inv h" "memrdy h b \<noteq> 0" "pool_placed b h" using ok by (simp_all add: heap_ok_def)
  then have r: "ready b h = h" by (simp add: ready_def)
  from inv(1) show ?thesis
  proof (cases rule: malloc_cases [where b = b and sz = sz])
    case fail
    then show ?thesis using sz run r by auto
  next
    case (found a c n)
    have "0 < n" using found(5) by (simp add: seg_ok_def)
    then have lt: "length (render a) * 64 < unat (memsize b)" using found(6) unfolding unat_memsize by linarith
    have "membase h b + of_nat (length (render a) * 64) \<noteq> 0" using pool_addr_nonzero [OF inv(3) lt] .
    then show ?thesis using block_offset_valid [OF found(6)] by (simp add: mymalloc_def found(7) r)
  qed
qed

lemma demo_three_blocks:
  "\<exists>h1 h2 p h3. mymalloc SRAMIN 64 demo_heap = Some (0x1000C7C0, h1) \<and> mymalloc SRAMIN 64 h1 = Some (0x1000C780, h2) \<and>
     mymalloc SRAMIN 8192 h2 = Some (p, h3) \<and> p \<noteq> 0"
proof -
  have "table_scan (replicate 800 0) 1 0 (Suc 799) = Some 799" unfolding table_scan.simps Let_def by simp
  moreover have "ready SRAMIN demo_heap = demo_heap" "memmap demo_heap SRAMIN = replicate 800 0"
    by (simp_all add: ready_def unat_memtblsize)
  ultimately have 1: "mymalloc SRAMIN 64 demo_heap =
      Some (0x1000C7C0, demo_heap\<lparr>memmap := (memmap demo_heap)(SRAMIN := replicate 799 0 @ [1])\<rparr>)"
    using arr_fill_Some [of 799 1 "replicate 800 (0 :: u32)" 1]
    by (simp add: mymalloc_def my_mem_malloc_unfold nmemb_of_def unat_memtblsize)
  let ?h = "demo_heap\<lparr>memmap := (memmap demo_heap)(SRAMIN := replicate 799 0 @ [1])\<rparr>"
  have "table_scan (replicate 799 0 @ [1]) 1 0 (Suc (Suc 798)) = Some 798"
    unfolding table_scan.simps Let_def by (simp add: nth_append)
  moreover have "ready SRAMIN ?h = ?h" by (simp add: ready_def)
  ultimately have 2: "mymalloc SRAMIN 64 ?h = Some (0x1000C780, ?h\<lparr>memmap := (memmap ?h)(SRAMIN := replicate 798 0 @ [1, 1])\<rparr>)"
    using arr_fill_Some [of 798 1 "replicate 799 (0 :: u32) @ [1]" 1]
    by (simp add: mymalloc_def my_mem_malloc_unfold nmemb_of_def unat_memtblsize)
  let ?k = "?h\<lparr>memmap := (memmap ?h)(SRAMIN := replicate 798 0 @ [1, 1])\<rparr>"
  have "heap_ok SRAMIN ?h" by (rule mymalloc_own [OF demo_heap_ok 1])
  then have ok: "heap_ok SRAMIN ?k" by (rule mymalloc_own [OF _ 2])
  have "unat (nmemb_of SRAMIN 8192) = 128" by (simp add: nmemb_of_def)
  then have "zero_run (memmap ?k SRAMIN) 0 (unat (nmemb_of SRAMIN 8192))" by (simp add: zero_run_def nth_append)
  from mymalloc_room [OF ok _ this] 1 2 show ?thesis by fastforce
qed

lemma file_copy_copies_witness:
  "\<exists>s'. exfuns_file_copy demo_files (\<lambda>n p b u. (0, u)) 0 0 0 0 1 \<lparr>c_heap = demo_heap, c_files = ([1, 2, 3], [], 2) :: u8 list \<times> u8 list \<times> nat, c_user = ()\<rparr> = Some (0, s') \<and>
    fst (snd (c_files s')) = [1, 2]"
proof -
  obtain h1 h2 p h3 where h: "mymalloc SRAMIN (x_sizeof_FIL demo_files) demo_heap = Some (0x1000C7C0, h1)"
    "mymalloc SRAMIN (x_sizeof_FIL demo_files) h1 = Some (0x1000C780, h2)" "mymalloc SRAMIN 8192 h2 = Some (p, h3)" "p \<noteq> 0"
    using demo_three_blocks by (auto simp: demo_files_def)
  let ?s = "\<lparr>c_heap = demo_heap, c_files = ([1, 2, 3], [], 2) :: u8 list \<times> u8 list \<times> nat, c_user = ()\<rparr>"
  have "\<exists>s'. exfuns_file_copy demo_files (\<lambda>n p b u. (0, u)) 0 0 0 0 1 ?s = Some (0, s') \<and>
      out demo_files_view (c_files s') = take (room demo_files_view (c_files ?s)) (rest demo_files_view (c_files ?s)) \<and>
      heap_ok SRAMIN (c_heap s') \<and> live SRAMIN (c_heap s') = live SRAMIN (c_heap ?s)"
    by (rule file_copy_copies [where F = demo_files and fsrc = "0x1000C7C0" and ?h1.0 = h1 and fdst = "0x1000C780" and ?h2.0 = h2 and fbuf = p
        and ?h3.0 = h3 and ?f1.0 = "c_files ?s" and ?f2.0 = "c_files ?s"])
      (use h demo_heap_ok demo_copy_law in \<open>simp_all add: demo_files_def demo_files_view_def\<close>)
  then show ?thesis by (auto simp: demo_files_view_def)
qed

end
