(* ===== verification/Fonts.thy ===== *)
theory Fonts
  imports Gbk_Text Exfuns
begin

text \<open>
  The update of the fonts, \<open>fonts.c\<close>: five files are copied to the region of the NOR flash behind the
  drive, and the directory of their places is written in front of them. The state is the one of the
  text routines with the file system. The arithmetic of the percentage that is shown, in single
  precision, is a parameter.
\<close>

section \<open>The update\<close>

record ('n, 's, 'f) font_env = "('n, 's) text_env" +
  font_files :: 'f

definition FONTSECSIZE :: u16 where "FONTSECSIZE = 1539"

definition FONT_GBK_PATH :: "u8 list list" where
  "FONT_GBK_PATH = map ascii
     [''/SYSTEM/FONT/UNIGBK.BIN'', ''/SYSTEM/FONT/GBK12.FON'', ''/SYSTEM/FONT/GBK16.FON'', ''/SYSTEM/FONT/GBK24.FON'',
      ''/SYSTEM/FONT/GBK32.FON'']"

definition FONT_UPDATE_REMIND_TBL :: "u8 list list" where
  "FONT_UPDATE_REMIND_TBL = map ascii
     [''Updating UNIGBK.BIN'', ''Updating GBK12.FON '', ''Updating GBK16.FON '', ''Updating GBK24.FON '', ''Updating GBK32.FON '']"

definition font_path :: "u32 \<Rightarrow> u32 \<Rightarrow> nat \<Rightarrow> mem \<Rightarrow> mem option" where
  "font_path pname src i m = do {
     m1 \<leftarrow> str_copy m pname src;
     e \<leftarrow> str_end m1 pname;
     p \<leftarrow> arr_get FONT_GBK_PATH i;
     Some (mem_store m1 e (p @ [0]))
   }"

text \<open>The percentage, or nothing when it is 255 and the code takes it for shown.\<close>

type_synonym percentage = "u32 \<Rightarrow> u32 \<Rightarrow> u8 option"

definition fonts_progress_show :: "'s lcd_port \<Rightarrow> percentage \<Rightarrow> u16 \<Rightarrow> u16 \<Rightarrow> u8 \<Rightarrow> u32 \<Rightarrow> u32 \<Rightarrow> u16 \<Rightarrow> 's screen \<Rightarrow> 's screen option" where
  "fonts_progress_show h percent x y sz totsize pos color s =
     (case percent totsize pos of
        None \<Rightarrow> Some s
      | Some t \<Rightarrow> do {
          s1 \<leftarrow> lcd_show_string h (x + ucast (3 * ucast sz div 2 :: u32)) y 240 320 sz (ascii ''%'' @ [0]) color s;
          lcd_show_num h x y (if t > 100 then 100 else ucast t) 3 sz color s1
        })"

definition show_progress ::
  "'s lcd_port \<Rightarrow> percentage \<Rightarrow> u16 \<Rightarrow> u16 \<Rightarrow> u8 \<Rightarrow> u32 \<Rightarrow> u32 \<Rightarrow> u16 \<Rightarrow> ('n, 's, 'f) font_env \<Rightarrow> ('n, 's, 'f) font_env option" where
  "show_progress h percent x y sz totsize pos color s =
     map_option (\<lambda>t. s\<lparr>text_screen := t\<rparr>) (fonts_progress_show h percent x y sz totsize pos color (text_screen s))"

text \<open>The place of a font, and its entry of the directory.\<close>

definition font_place :: "u8 \<Rightarrow> u32 \<Rightarrow> font_info \<Rightarrow> u32 \<times> font_info" where
  "font_place fx sz info =
     (if fx = 0 then (FONTINFOADDR + 41, info\<lparr>ugbkaddr := FONTINFOADDR + 41, ugbksize := sz\<rparr>)
      else if fx = 1 then let a = ugbkaddr info + ugbksize info in (a, info\<lparr>f12addr := a, gbk12size := sz\<rparr>)
      else if fx = 2 then let a = f12addr info + gbk12size info in (a, info\<lparr>f16addr := a, gbk16size := sz\<rparr>)
      else if fx = 3 then let a = f16addr info + gbk16size info in (a, info\<lparr>f24addr := a, gbk24size := sz\<rparr>)
      else if fx = 4 then let a = f24addr info + gbk24size info in (a, info\<lparr>f32addr := a, gbk32size := sz\<rparr>)
      else (0, info))"

partial_function (option) fontx_loop ::
  "'n spi5 \<Rightarrow> 's lcd_port \<Rightarrow> 'f fatfs \<Rightarrow> percentage \<Rightarrow> u16 \<Rightarrow> u16 \<Rightarrow> u8 \<Rightarrow> u16 \<Rightarrow> u32 \<Rightarrow> u32 \<Rightarrow> u32 \<Rightarrow> u32 \<Rightarrow>
     ('n, 's, 'f) font_env \<Rightarrow> (u8 \<times> ('n, 's, 'f) font_env) option" where
  "fontx_loop spi h F percent x y sz color fftemp tempbuf flashaddr offx s =
     (case x_read F fftemp 4096 (font_files s) of (res, bs, f1) \<Rightarrow>
        let m = mem_store (ram (text_heap s)) tempbuf bs;
            s1 = s\<lparr>font_files := f1, text_heap := (text_heap s)\<lparr>ram := m\<rparr>\<rparr>;
            bread = (of_nat (length bs) :: u16)
        in if res \<noteq> 0 then Some (res, s1)
           else
             Option.bind (norflash_write spi (mem_bytes m tempbuf (unat bread)) (offx + flashaddr) bread (text_nor s1)) (\<lambda>n.
             Option.bind (show_progress h percent x y sz (ucast (x_objsize F fftemp f1)) (offx + ucast bread) color (s1\<lparr>text_nor := n\<rparr>)) (\<lambda>s2.
               if bread \<noteq> 4096 then Some (res, s2)
               else fontx_loop spi h F percent x y sz color fftemp tempbuf flashaddr (offx + ucast bread) s2)))"

definition fonts_update_fontx ::
  "'n spi5 \<Rightarrow> 's lcd_port \<Rightarrow> 'f fatfs \<Rightarrow> percentage \<Rightarrow> u16 \<Rightarrow> u16 \<Rightarrow> u8 \<Rightarrow> u32 \<Rightarrow> u8 \<Rightarrow> u16 \<Rightarrow>
     ('n, 's, 'f) font_env \<Rightarrow> (u8 \<times> ('n, 's, 'f) font_env) option" where
  "fonts_update_fontx spi h F percent x y sz fpath fx color s = do {
     (fftemp, h1) \<leftarrow> mymalloc SRAMIN (x_sizeof_FIL F) (text_heap s);
     (tempbuf, h2) \<leftarrow> mymalloc SRAMIN 4096 h1;
     let (res, f1) = x_open F fftemp fpath FA_READ (ram h2) (font_files s);
     let rval = (if res \<noteq> 0 then 2 else if tempbuf = 0 then 1 else if fftemp = 0 then 1 else 0 :: u8);
     let s1 = s\<lparr>text_heap := h2, font_files := f1\<rparr>;
     (res', s2) \<leftarrow>
       (if rval = 0 then do {
          let (flashaddr, info) = font_place fx (ucast (x_objsize F fftemp f1)) (ftinfo s1);
          (r, t) \<leftarrow> fontx_loop spi h F percent x y sz color fftemp tempbuf flashaddr 0 (s1\<lparr>ftinfo := info\<rparr>);
          Some (r, t\<lparr>font_files := x_close F fftemp (font_files t)\<rparr>)
        }
        else Some (res, s1));
     h3 \<leftarrow> myfree SRAMIN fftemp (text_heap s2);
     h4 \<leftarrow> myfree SRAMIN tempbuf h3;
     Some (res', s2\<lparr>text_heap := h4\<rparr>)
   }"

text \<open>The files are opened one after the other; 0x80 when one cannot be.\<close>

fun open_all :: "'f fatfs \<Rightarrow> u32 \<Rightarrow> u32 \<Rightarrow> u32 \<Rightarrow> nat \<Rightarrow> nat \<Rightarrow> ('n, 's, 'f) font_env \<Rightarrow> (u8 \<times> ('n, 's, 'f) font_env) option" where
  "open_all F fftemp pname src i 0 s = Some (0, s)"
| "open_all F fftemp pname src i (Suc k) s = do {
     m \<leftarrow> font_path pname src i (ram (text_heap s));
     let (res, f1) = x_open F fftemp pname FA_READ m (font_files s);
     let s1 = s\<lparr>text_heap := (text_heap s)\<lparr>ram := m\<rparr>, font_files := f1\<rparr>;
     if res \<noteq> 0 then Some (0x80, s1) else open_all F fftemp pname src (Suc i) k s1
   }"

text \<open>The first word of the buffer that is not blank.\<close>

fun first_used :: "mem \<Rightarrow> u32 \<Rightarrow> nat \<Rightarrow> nat \<Rightarrow> nat" where
  "first_used m buf j 0 = j"
| "first_used m buf j (Suc k) =
     (if le32 (mem_bytes m (buf + of_nat (4 * j)) 4) 0 \<noteq> 0xFFFFFFFF then j else first_used m buf (Suc j) k)"

fun erase_loop ::
  "'n spi5 \<Rightarrow> 's lcd_port \<Rightarrow> percentage \<Rightarrow> u16 \<Rightarrow> u16 \<Rightarrow> u8 \<Rightarrow> u16 \<Rightarrow> u32 \<Rightarrow> u16 \<Rightarrow> nat \<Rightarrow> ('n, 's, 'f) font_env
    \<Rightarrow> ('n, 's, 'f) font_env option" where
  "erase_loop spi h percent x y sz color buf i 0 s = Some s"
| "erase_loop spi h percent x y sz color buf i (Suc k) s = do {
     s1 \<leftarrow> show_progress h percent (x + ucast (20 * ucast sz div 2 :: u32)) y sz (ucast FONTSECSIZE) (ucast i) color s;
     let sec = FONTINFOADDR div 4096 + ucast i;
     let (bs, w) = norflash_read spi (g_norflash_type (text_nor s1)) (sec * 4096) 4096 (hw (text_nor s1));
     let m = mem_store (ram (text_heap s1)) buf bs;
     w1 \<leftarrow> (if first_used m buf 0 1024 \<noteq> 1024 then norflash_erase_sector spi (g_norflash_type (text_nor s1)) sec w else Some w);
     erase_loop spi h percent x y sz color buf (i + 1) k
       (s1\<lparr>text_heap := (text_heap s1)\<lparr>ram := m\<rparr>, text_nor := (text_nor s1)\<lparr>hw := w1\<rparr>\<rparr>)
   }"

definition show_text :: "'s lcd_port \<Rightarrow> u16 \<Rightarrow> u16 \<Rightarrow> u8 \<Rightarrow> u8 list \<Rightarrow> u16 \<Rightarrow> ('n, 's, 'f) font_env \<Rightarrow> ('n, 's, 'f) font_env option" where
  "show_text h x y sz str color s =
     map_option (\<lambda>t. s\<lparr>text_screen := t\<rparr>) (lcd_show_string h x y 240 320 sz (str @ [0]) color (text_screen s))"

fun update_all ::
  "'n spi5 \<Rightarrow> 's lcd_port \<Rightarrow> 'f fatfs \<Rightarrow> percentage \<Rightarrow> u16 \<Rightarrow> u16 \<Rightarrow> u8 \<Rightarrow> u32 \<Rightarrow> u16 \<Rightarrow> u32 \<Rightarrow> nat \<Rightarrow> nat \<Rightarrow> ('n, 's, 'f) font_env
    \<Rightarrow> (u8 \<times> ('n, 's, 'f) font_env) option" where
  "update_all spi h F percent x y sz src color pname i 0 s = Some (0, s)"
| "update_all spi h F percent x y sz src color pname i (Suc k) s = do {
     msg \<leftarrow> arr_get FONT_UPDATE_REMIND_TBL i;
     s1 \<leftarrow> show_text h x y sz msg color s;
     m \<leftarrow> font_path pname src i (ram (text_heap s1));
     (res, s2) \<leftarrow> fonts_update_fontx spi h F percent (x + ucast (20 * ucast sz div 2 :: u32)) y sz pname (of_nat i) color
       (s1\<lparr>text_heap := (text_heap s1)\<lparr>ram := m\<rparr>\<rparr>);
     if res \<noteq> 0 then Some (1 + of_nat i, s2)
     else update_all spi h F percent x y sz src color pname (Suc i) k s2
   }"

definition put32 :: "u32 \<Rightarrow> u8 list" where
  "put32 w = [ucast w, ucast (drop_bit 8 w), ucast (drop_bit 16 w), ucast (drop_bit 24 w)]"

definition bytes_of_info :: "font_info \<Rightarrow> u8 list" where
  "bytes_of_info i = fontok i # put32 (ugbkaddr i) @ put32 (ugbksize i) @ put32 (f12addr i) @ put32 (gbk12size i) @
     put32 (f16addr i) @ put32 (gbk16size i) @ put32 (f24addr i) @ put32 (gbk24size i) @ put32 (f32addr i) @ put32 (gbk32size i)"

definition update_files ::
  "'n spi5 \<Rightarrow> 's lcd_port \<Rightarrow> 'f fatfs \<Rightarrow> percentage \<Rightarrow> u16 \<Rightarrow> u16 \<Rightarrow> u8 \<Rightarrow> u32 \<Rightarrow> u16 \<Rightarrow> u32 \<Rightarrow> u32 \<Rightarrow> ('n, 's, 'f) font_env
    \<Rightarrow> (u8 \<times> ('n, 's, 'f) font_env) option" where
  "update_files spi h F percent x y sz src color pname buf s = do {
     s1 \<leftarrow> show_text h x y sz (ascii ''Erasing sectors... '') color s;
     s2 \<leftarrow> erase_loop spi h percent x y sz color buf 0 (unat FONTSECSIZE) s1;
     (res, s3) \<leftarrow> update_all spi h F percent x y sz src color pname 0 5 s2;
     if res \<noteq> 0 then Some (res, s3)
     else do {
       let s4 = s3\<lparr>ftinfo := (ftinfo s3)\<lparr>fontok := 0xAA\<rparr>\<rparr>;
       n \<leftarrow> norflash_write spi (bytes_of_info (ftinfo s4)) FONTINFOADDR 41 (text_nor s4);
       Some (0, s4\<lparr>text_nor := n\<rparr>)
     }
   }"

definition fonts_update_font ::
  "'n spi5 \<Rightarrow> 's lcd_port \<Rightarrow> 'f fatfs \<Rightarrow> percentage \<Rightarrow> u16 \<Rightarrow> u16 \<Rightarrow> u8 \<Rightarrow> u32 \<Rightarrow> u16 \<Rightarrow> ('n, 's, 'f) font_env
    \<Rightarrow> (u8 \<times> ('n, 's, 'f) font_env) option" where
  "fonts_update_font spi h F percent x y sz src color s = do {
     let s0 = s\<lparr>ftinfo := (ftinfo s)\<lparr>fontok := 0xFF\<rparr>\<rparr>;
     (pname, h1) \<leftarrow> mymalloc SRAMIN 100 (text_heap s0);
     (buf, h2) \<leftarrow> mymalloc SRAMIN 4096 h1;
     (fftemp, h3) \<leftarrow> mymalloc SRAMIN (x_sizeof_FIL F) h2;
     let s1 = s0\<lparr>text_heap := h3\<rparr>;
     if buf = 0 \<or> pname = 0 \<or> fftemp = 0 then do {
       h4 \<leftarrow> myfree SRAMIN fftemp (text_heap s1);
       h5 \<leftarrow> myfree SRAMIN pname h4;
       h6 \<leftarrow> myfree SRAMIN buf h5;
       Some (5, s1\<lparr>text_heap := h6\<rparr>)
     }
     else do {
       (rval, s2) \<leftarrow> open_all F fftemp pname src 0 5 s1;
       h4 \<leftarrow> myfree SRAMIN fftemp (text_heap s2);
       let s3 = s2\<lparr>text_heap := h4\<rparr>;
       (res, s4) \<leftarrow> (if rval = 0 then update_files spi h F percent x y sz src color pname buf s3 else Some (rval, s3));
       h5 \<leftarrow> myfree SRAMIN (if rval = 0 \<and> res \<noteq> 0 then buf else pname) (text_heap s4);
       h6 \<leftarrow> myfree SRAMIN (if rval = 0 \<and> res \<noteq> 0 then pname else buf) h5;
       Some (res, s4\<lparr>text_heap := h6\<rparr>)
     }
   }"

section \<open>The path of a font\<close>

lemma font_path_length: "i < 5 \<Longrightarrow> length (FONT_GBK_PATH ! i) \<le> 24 \<and> 0 \<notin> set (FONT_GBK_PATH ! i)"
proof -
  have "\<forall>p\<in>set FONT_GBK_PATH. length p \<le> 24 \<and> 0 \<notin> set p" "length FONT_GBK_PATH = 5" by code_simp+
  then show "i < 5 \<Longrightarrow> length (FONT_GBK_PATH ! i) \<le> 24 \<and> 0 \<notin> set (FONT_GBK_PATH ! i)" by auto
qed

text \<open>The path of a file, in the block for it.\<close>

lemma font_path_at:
  assumes src: "name_outside p src s" "length s + 25 \<le> 100" and i: "i < 5"
    and blk: "\<And>j. j < 100 \<Longrightarrow> pool_has p (pname + of_nat j)"
  obtains m where "font_path pname src i (ram p) = Some m" "name_at m pname (s @ FONT_GBK_PATH ! i)" "same_outside p (ram p) m"
proof -
  let ?t = "FONT_GBK_PATH ! i"
  let ?m1 = "mem_store (ram p) pname (s @ [0])"
  let ?m2 = "mem_store ?m1 (pname + of_nat (length s)) (?t @ [0])"
  note t = font_path_length [OF i]
  have n: "name_at (ram p) src s" "\<And>j. j \<le> length s \<Longrightarrow> \<not> pool_has p (src + of_nat j)" using src(1) by (simp_all add: name_outside_def)
  have "pname + of_nat a \<noteq> src + of_nat b" if "a \<le> length s" "b \<le> length s" for a b
    using blk [of a] n(2) [OF that(2)] that(1) src(2) by auto
  then have c: "str_copy (ram p) pname src = Some ?m1" by (intro str_copy_at [OF n(1)]) blast
  have s: "name_at ?m1 pname s" by (rule name_stored) (use n(1) src(2) in \<open>simp_all add: name_at_def\<close>)
  have "arr_get FONT_GBK_PATH i = Some ?t" using i by (simp add: arr_get_def FONT_GBK_PATH_def)
  then have f: "font_path pname src i (ram p) = Some ?m2" using c str_end_at [OF s] by (simp add: font_path_def)
  have "name_at ?m2 pname (s @ ?t)" by (rule name_appended [OF s]) (use t src(2) in simp_all)
  moreover have "same_outside p (ram p) ?m1" by (rule store_same_outside) (rule blk, use src(2) in simp)
  moreover have "same_outside p ?m1 ?m2"
  proof (rule store_same_outside)
    fix j assume "j < length (?t @ [0])"
    then show "pool_has p (pname + of_nat (length s) + of_nat j)" using blk [of "length s + j"] t src(2) by (simp add: add.assoc)
  qed
  ultimately show thesis using that [OF f] same_outside_trans by blast
qed

section \<open>Messages\<close>

text \<open>The messages begin at a point; the progress is shown behind them.\<close>

definition messages_fit :: "u8 \<Rightarrow> u16 \<Rightarrow> u16 \<Rightarrow> u16 \<Rightarrow> u16 \<Rightarrow> bool" where
  "messages_fit sz x y width height \<longleftrightarrow> font_size sz \<and> unat x + 12 * unat sz \<le> unat width \<and> unat y + 2 * unat sz \<le> unat height \<and>
     unat x < 64000 \<and> unat y < 64000"

lemma put_cells_ok:
  assumes law: "lcd_law h v" and sz: "font_size sz"
  shows "lcd_ok v s \<Longrightarrow> \<forall>((a, b), c)\<in>set es. a < unat (lcd_width (lcddev s)) \<and> b < unat (lcd_height (lcddev s)) \<and> 32 \<le> c \<and> c \<le> 126 \<Longrightarrow>
    \<exists>t. put_cells h sz color es s = Some t \<and> lcd_ok v t \<and> lcddev t = lcddev s"
proof (induction es arbitrary: s)
  case (Cons e es)
  obtain a b c where e: "e = ((a, b), c)" by (metis prod.collapse)
  have ab: "a < unat (lcd_width (lcddev s))" "b < unat (lcd_height (lcddev s))" "32 \<le> c" "c \<le> 126" using Cons.prems(2) e by simp_all
  have u: "unat (of_nat a :: u16) = a" "unat (of_nat b :: u16) = b"
    by (intro unat_of_nat_small; use ab unat_u16_less [of "lcd_width (lcddev s)"] unat_u16_less [of "lcd_height (lcddev s)"] in simp)+
  obtain g where g: "ascii_glyph sz (c - 32) = Some g" using font_glyph(1) [OF sz ab(3,4)] by blast
  obtain s1 where s1: "lcd_show_char h (of_nat a) (of_nat b) c sz 0 color s = Some s1" "lcd_ok v s1" "lcd_frame v s1 = lcd_frame v s"
    using char_shown [OF law Cons.prems(1) sz ab(3,4) _ _ refl refl refl g, of "of_nat a" "of_nat b"] ab u by auto
  from Cons.IH [OF s1(2)] Cons.prems(2) same_frame(1) [OF s1(3)] show ?case using s1 e by auto
qed simp

lemma put_chars_ok:
  assumes law: "lcd_law h v" and sz: "font_size sz"
  shows "lcd_ok v s \<Longrightarrow> \<forall>c\<in>set es. 32 \<le> c \<and> c \<le> 126 \<Longrightarrow> unat t + length es < 256 \<Longrightarrow>
    unat x + (unat t + length es) * (unat sz div 2) \<le> unat (lcd_width (lcddev s)) \<Longrightarrow> unat y < unat (lcd_height (lcddev s)) \<Longrightarrow>
    \<exists>s'. put_chars h x y sz 0 color t es s = Some s' \<and> lcd_ok v s' \<and> lcddev s' = lcddev s"
proof (induction es arbitrary: s t)
  case (Cons c es)
  have wid: "0 < unat sz div 2" "unat (sz div 2) = unat sz div 2" using sz by (auto simp: font_size_def unat_div)
  let ?x = "x + ucast (sz div 2) * ucast t"
  have w: "unat sz div 2 * unat t + unat x < unat (lcd_width (lcddev s))" using Cons.prems(4) wid(1) by (simp add: algebra_simps)
  then have b: "unat sz div 2 * unat t + unat x < 65536" using unat_u16_less [of "lcd_width (lcddev s)"] by simp
  then have "unat (ucast (sz div 2) * ucast t :: u16) = unat sz div 2 * unat t" using wid(2) by (simp add: unat_mult_lem [THEN iffD1])
  then have x: "unat ?x = unat x + unat sz div 2 * unat t" using b by (subst unat_add_lem [THEN iffD1]) simp_all
  have c: "32 \<le> c" "c \<le> 126" using Cons.prems(2) by simp_all
  obtain g where g: "ascii_glyph sz (c - 32) = Some g" using font_glyph(1) [OF sz c] by blast
  obtain s1 where s1: "lcd_show_char h ?x y c sz 0 color s = Some s1" "lcd_ok v s1" "lcd_frame v s1 = lcd_frame v s"
    using char_shown [OF law Cons.prems(1) sz c _ Cons.prems(5) refl refl refl g, of ?x] w unfolding x by (auto simp: add.commute)
  have "unat (t + 1) = Suc (unat t)" using Cons.prems(3) by (subst unat_add_lem [THEN iffD1]) simp_all
  then show ?case using Cons.IH [OF s1(2), of "t + 1"] Cons.prems same_frame(1) [OF s1(3)] s1(1) by simp
qed simp

lemma message_cell:
  assumes "0 < wid" "wid \<le> 16" "i < 19" "start \<le> x"
  shows "fst (string_cell wid sz x start (x + 240) y i) \<le> x + i * wid \<and> snd (string_cell wid sz x start (x + 240) y i) \<le> y + sz"
proof -
  let ?n = "cells_in wid 240" and ?m = "cells_in wid (x + 240 - start)"
  have n: "14 < ?n" "14 < ?m" using assms by (simp_all add: cells_in_iff)
  show ?thesis
  proof (cases "i < ?n")
    case True
    then show ?thesis by (simp add: string_cell_def Let_def)
  next
    case False
    have j: "i - ?n < ?m" using n assms(3) by linarith
    have "start + (i - ?n) * wid \<le> x + i * wid" using assms(4) by (intro add_mono mult_right_mono) simp_all
    then show ?thesis using False j by (simp add: string_cell_def Let_def)
  qed
qed

lemma message_ok:
  fixes x y :: u16
  assumes law: "lcd_law h v" and ok: "lcd_ok v s" and sz: "font_size sz"
    and x: "unat x + length cs * (unat sz div 2) \<le> unat (lcd_width (lcddev s))" "unat x < 65000"
    and y: "unat y + unat sz < unat (lcd_height (lcddev s))" "unat y < 65000"
    and cs: "list_all (\<lambda>c. 32 \<le> c \<and> c \<le> 126) cs" "length cs \<le> 19"
  shows "\<exists>t. lcd_show_string h x y 240 320 sz (cs @ [0]) c s = Some t \<and> lcd_ok v t \<and> lcddev t = lcddev s"
proof -
  let ?wid = "unat sz div 2"
  define cell where "cell = string_cell ?wid (unat sz) (unat x) (unat x mod 256) (unat x + unat (240 :: u16)) (unat y)"
  have wid: "0 < ?wid" "?wid \<le> 16" "unat sz \<le> 32" using sz by (auto simp: font_size_def)
  have small: "unat x + unat (240 :: u16) + unat sz < 65536" "unat y + unat (320 :: u16) + unat sz < 65536" using x y wid by simp_all
  have at: "fst (cell i) \<le> unat x + i * ?wid \<and> snd (cell i) \<le> unat y + unat sz" if "i < 19" for i
    using message_cell [OF wid(1,2) that, of "unat x mod 256" "unat x" "unat sz" "unat y"] by (simp add: cell_def)
  let ?es = "map (\<lambda>i. (cell i, cs ! i)) (takeWhile (\<lambda>i. snd (cell i) < unat y + unat (320 :: u16)) [0..<length cs])"
  have "\<not> (32 \<le> (0 :: u8) \<and> (0 :: u8) \<le> 126)" "0 < unat (240 :: u16)" by simp_all
  from lcd_show_string_layout [OF cs(1) this sz small cell_def, of h "[]" c s]
  have eq: "lcd_show_string h x y 240 320 sz (cs @ [0]) c s = put_cells h sz c ?es s" by simp
  have "\<forall>((a, b), d)\<in>set ?es. a < unat (lcd_width (lcddev s)) \<and> b < unat (lcd_height (lcddev s)) \<and> 32 \<le> d \<and> d \<le> 126"
  proof
    fix e assume "e \<in> set ?es"
    then obtain i where i: "e = (cell i, cs ! i)" "i < length cs" by (auto dest!: set_takeWhileD)
    have "i * ?wid < length cs * ?wid" using i(2) wid(1) by simp
    then have "fst (cell i) < unat (lcd_width (lcddev s))" "snd (cell i) < unat (lcd_height (lcddev s))"
      using at [of i] i(2) cs(2) x(1) y(1) by linarith+
    moreover have "32 \<le> cs ! i \<and> cs ! i \<le> 126" using cs(1) i(2) by (simp add: list_all_length)
    ultimately show "(\<lambda>((a, b), d). a < unat (lcd_width (lcddev s)) \<and> b < unat (lcd_height (lcddev s)) \<and> 32 \<le> d \<and> d \<le> 126) e"
      using i(1) by (cases "cell i") simp
  qed
  from put_cells_ok [OF law sz ok this, of c] show ?thesis by (simp only: eq)
qed

lemma progress_ok:
  fixes x y :: u16
  assumes law: "lcd_law h v" and ok: "lcd_ok v s" and sz: "font_size sz"
    and x: "unat x + 2 * unat sz \<le> unat (lcd_width (lcddev s))" "unat x < 64500"
    and y: "unat y + unat sz < unat (lcd_height (lcddev s))" "unat y < 65000"
  shows "\<exists>t. fonts_progress_show h percent x y sz totsize pos color s = Some t \<and> lcd_ok v t \<and> lcddev t = lcddev s"
proof (cases "percent totsize pos")
  case None
  then show ?thesis using ok by (simp add: fonts_progress_show_def)
next
  case (Some q)
  let ?x = "x + ucast (3 * ucast sz div 2 :: u32)"
  have s32: "12 \<le> unat sz" "unat sz \<le> 32" using sz by (auto simp: font_size_def)
  have "unat (3 * ucast sz :: u32) = 3 * unat sz" using s32 by (simp add: unat_mult_lem [THEN iffD1])
  then have "unat (ucast (3 * ucast sz div 2 :: u32) :: u16) = 3 * unat sz div 2"
    using s32 by (simp add: unsigned_ucast_eq unat_div take_bit_nat_eq_self)
  then have ux: "unat ?x = unat x + 3 * unat sz div 2" using x(2) s32 by (subst unat_add_lem [THEN iffD1]) simp_all
  have px: "unat x + 3 * unat sz div 2 + unat sz div 2 \<le> unat (lcd_width (lcddev s))" "unat x + 3 * unat sz div 2 < 65000"
    using x s32 by linarith+
  have pc: "list_all (\<lambda>c. 32 \<le> c \<and> c \<le> 126) (ascii ''%'')" by (simp add: ascii_def)
  obtain t where t: "lcd_show_string h ?x y 240 320 sz (ascii ''%'' @ [0]) color s = Some t" "lcd_ok v t" "lcddev t = lcddev s"
    using message_ok [OF law ok sz _ _ y pc, of ?x color] px unfolding ux by (auto simp: ascii_def)
  let ?n = "if q > 100 then 100 else ucast q :: u32"
  obtain k ds where n: "k + length ds = 3" "\<forall>d\<in>set ds. d < 10"
    "lcd_show_num h x y ?n 3 sz color t = put_chars h x y sz 0 color 0 (replicate k 32 @ map digit_char ds) t"
    using lcd_show_num_digits [of 3 ?n h x y sz color t 0] by auto
  have d: "32 \<le> digit_char d \<and> digit_char d \<le> 126" if "d < 10" for d
  proof -
    have "unat (of_nat (d + 48) :: u8) = d + 48" using that by (intro unat_of_nat_small) simp
    then show ?thesis using that by (simp add: digit_char_def word_le_nat_alt)
  qed
  have "\<forall>c\<in>set (replicate k 32 @ map digit_char ds). 32 \<le> c \<and> c \<le> 126" using n(2) d by auto
  moreover have "unat (0 :: u8) + length (replicate k 32 @ map digit_char ds) = 3" using n(1) by simp
  moreover have "3 * (unat sz div 2) \<le> 2 * unat sz" by linarith
  ultimately obtain s' where "put_chars h x y sz 0 color 0 (replicate k 32 @ map digit_char ds) t = Some s'" "lcd_ok v s'" "lcddev s' = lcddev t"
    using put_chars_ok [OF law sz t(2), of "replicate k 32 @ map digit_char ds" 0 x y color] x y t(3) by auto
  then show ?thesis using t n(3) Some by (simp add: fonts_progress_show_def)
qed

end
