(* ===== verification/Font_Update.thy ===== *)
theory Font_Update
  imports Fonts
begin

text \<open>
  What an update of the fonts leaves behind: blank sectors, the files in the flash, the directory in
  front of them, a heap as before.
\<close>

section \<open>The parts of the update\<close>

definition heap_same :: "heap \<Rightarrow> heap \<Rightarrow> bool" where
  "heap_same p q \<longleftrightarrow> (\<exists>m. q = p\<lparr>ram := m\<rparr> \<and> same_outside p (ram p) m)"

lemma heap_sameI: "same_outside p (ram p) m \<Longrightarrow> heap_same p (p\<lparr>ram := m\<rparr>)"
  by (auto simp: heap_same_def)

lemma heap_same_refl [simp]: "heap_same p p"
  by (auto simp: heap_same_def same_outside_def intro: exI [of _ "ram p"])

lemma same_outside_ram [simp]: "same_outside (p\<lparr>ram := m\<rparr>) = same_outside p"
  by (simp add: same_outside_def pool_has_def fun_eq_iff)

lemma heap_same_trans: "heap_same p q \<Longrightarrow> heap_same q r \<Longrightarrow> heap_same p r"
proof -
  assume "heap_same p q" "heap_same q r"
  then obtain m m' where "q = p\<lparr>ram := m\<rparr>" "same_outside p (ram p) m" "r = q\<lparr>ram := m'\<rparr>" "same_outside p m m'"
    by (auto simp: heap_same_def)
  then show ?thesis using heap_sameI [of p m'] same_outside_trans [of p "ram p" m m'] by simp
qed

lemma heap_sameD:
  assumes "heap_same p q"
  shows "heap_ok SRAMIN q = heap_ok SRAMIN p" "pool_has q = pool_has p" "name_outside p src str \<Longrightarrow> name_outside q src str"
    "live SRAMIN q = live SRAMIN p" "q = p\<lparr>ram := ram q\<rparr>"
  using assms name_kept [of p src str] by (auto simp: heap_same_def pool_has_def fun_eq_iff live_def)

definition font_ready ::
  "'s lcd_port \<Rightarrow> 's lcd_view \<Rightarrow> 'n spi5 \<Rightarrow> 'n chip_view \<Rightarrow> nat \<Rightarrow> u8 \<Rightarrow> u16 \<Rightarrow> u16 \<Rightarrow> ('n, 's, 'f) font_env \<Rightarrow> bool" where
  "font_ready h v spi nv cap sz x y s \<longleftrightarrow> lcd_law h v \<and> lcd_ok v (text_screen s) \<and>
     messages_fit sz x y (lcd_width (lcddev (text_screen s))) (lcd_height (lcddev (text_screen s))) \<and>
     nor_chip spi nv (g_norflash_type (text_nor s)) cap \<and> busy nv (hw (text_nor s)) = 0 \<and> heap_ok SRAMIN (text_heap s)"

lemma show_text_ok:
  assumes "font_ready h v spi nv cap sz x y s" "list_all (\<lambda>c. 32 \<le> c \<and> c \<le> 126) str" "length str \<le> 19"
  obtains t where "show_text h x y sz str color s = Some (s\<lparr>text_screen := t\<rparr>)" "font_ready h v spi nv cap sz x y (s\<lparr>text_screen := t\<rparr>)"
proof -
  have f: "font_size sz" "0 < unat sz" using assms(1) by (auto simp: font_ready_def messages_fit_def font_size_def)
  have "length str * (unat sz div 2) \<le> 19 * (unat sz div 2)" using assms(3) by (intro mult_right_mono) simp_all
  then have "length str * (unat sz div 2) \<le> 12 * unat sz" by linarith
  then obtain t where "lcd_show_string h x y 240 320 sz (str @ [0]) color (text_screen s) = Some t" "lcd_ok v t" "lcddev t = lcddev (text_screen s)"
    using message_ok [of h v "text_screen s" sz x str y color] assms f by (auto simp: font_ready_def messages_fit_def)
  then show thesis using that [of t] assms(1) by (simp add: show_text_def font_ready_def)
qed

lemma show_progress_ok:
  fixes x y :: u16
  assumes "font_ready h v spi nv cap sz x y s"
  obtains t where "show_progress h percent (x + ucast (20 * ucast sz div 2 :: u32)) y sz totsize pos color s = Some (s\<lparr>text_screen := t\<rparr>)"
    "font_ready h v spi nv cap sz x y (s\<lparr>text_screen := t\<rparr>)"
proof -
  let ?x = "x + ucast (20 * ucast sz div 2 :: u32)"
  have f: "font_size sz" "12 \<le> unat sz" "unat sz \<le> 32" using assms by (auto simp: font_ready_def messages_fit_def font_size_def)
  have "unat (20 * ucast sz :: u32) = 20 * unat sz" using f by (simp add: unat_mult_lem [THEN iffD1])
  then have "unat (ucast (20 * ucast sz div 2 :: u32) :: u16) = 10 * unat sz"
    using f by (simp add: unsigned_ucast_eq unat_div take_bit_nat_eq_self)
  moreover have "unat x < 64000" using assms by (simp add: font_ready_def messages_fit_def)
  ultimately have "unat ?x = unat x + 10 * unat sz" using f by (subst unat_add_lem [THEN iffD1]) simp_all
  then obtain t where "fonts_progress_show h percent ?x y sz totsize pos color (text_screen s) = Some t" "lcd_ok v t"
    "lcddev t = lcddev (text_screen s)"
    using progress_ok [of h v "text_screen s" sz ?x y percent totsize pos color] assms f
    by (auto simp: font_ready_def messages_fit_def)
  then show thesis using that [of t] assms by (simp add: show_progress_def font_ready_def)
qed

lemma bit_le32:
  "bit (le32 bs i) n \<longleftrightarrow> n < 8 \<and> bit (bs ! i) n \<or> 8 \<le> n \<and> n < 16 \<and> bit (bs ! (i + 1)) (n - 8) \<or>
     16 \<le> n \<and> n < 24 \<and> bit (bs ! (i + 2)) (n - 16) \<or> 24 \<le> n \<and> n < 32 \<and> bit (bs ! (i + 3)) (n - 24)"
proof -
  have b: "bit (b :: u8) k \<Longrightarrow> k < 8" for b k using bit_imp_le_length [of b k] by simp
  show ?thesis unfolding le32_def by (auto simp: bit_simps dest: b)
qed

lemma le32_ones: "le32 bs i = 0xFFFFFFFF \<Longrightarrow> j < 4 \<Longrightarrow> bs ! (i + j) = 0xFF"
proof (rule bit_word_eqI)
  fix n assume le: "le32 bs i = 0xFFFFFFFF" and j: "j < 4" and n: "n < LENGTH(8)"
  have ones: "(0xFFFFFFFF :: u32) = mask 32" by (simp add: mask_eq_exp_minus_1)
  have "bit (le32 bs i) (8 * j + n)" unfolding le ones using j n by (simp add: bit_mask_iff del: mask_numeral)
  moreover have "j = 0 \<or> j = 1 \<or> j = 2 \<or> j = 3" using j by linarith
  ultimately have "bit (bs ! (i + j)) n" using n by (elim disjE) (auto simp: bit_le32)
  moreover have ff: "(0xFF :: u8) = mask 8" by (simp add: mask_eq_exp_minus_1)
  ultimately show "bit (bs ! (i + j)) n = bit (0xFF :: u8) n" unfolding ff using n by (simp add: bit_mask_iff del: mask_numeral)
qed

lemma first_used_blank:
  "first_used m buf j k = j + k \<Longrightarrow> i < 4 * k \<Longrightarrow> m (buf + of_nat (4 * j + i)) = 0xFF"
proof (induction k arbitrary: j i)
  case (Suc k)
  let ?w = "mem_bytes m (buf + of_nat (4 * j)) 4"
  have w: "le32 ?w 0 = 0xFFFFFFFF" "first_used m buf (Suc j) k = Suc j + k" using Suc.prems(1) by (auto split: if_splits)
  show ?case
  proof (cases "i < 4")
    case True
    then show ?thesis using le32_ones [OF w(1), of i] by (simp add: nth_mem_bytes add.assoc)
  next
    case False
    then have "4 * Suc j + (i - 4) = 4 * j + i" "i - 4 < 4 * k" using Suc.prems(2) by simp_all
    then show ?thesis using Suc.IH [OF w(2), of "i - 4"] by simp
  qed
qed simp

text \<open>The region of the fonts, 1539 sectors from sector 6400 on, is blank after the loop.\<close>

definition blanked :: "(nat \<Rightarrow> u8) \<Rightarrow> nat \<Rightarrow> nat \<Rightarrow> nat \<Rightarrow> u8" where
  "blanked f a n z = (if a \<le> z \<and> z < a + n then 0xFF else f z)"

lemma blanked_more: "blanked (blanked f a m) (a + m) n = blanked f a (m + n)"
  by (auto simp: blanked_def fun_eq_iff)

lemma blanked_none: "blanked f a 0 = f"
  by (auto simp: blanked_def fun_eq_iff)

lemma erase_loop_ok:
  "font_ready h v spi nv cap sz x y s \<Longrightarrow> i + k \<le> 1539 \<Longrightarrow> 7939 * 4096 \<le> cap \<Longrightarrow> \<forall>j<4096. pool_has (text_heap s) (buf + of_nat j) \<Longrightarrow>
    \<exists>t. erase_loop spi h percent x y sz color buf (of_nat i) k s = Some t \<and> font_ready h v spi nv cap sz x y t \<and>
      heap_same (text_heap s) (text_heap t) \<and> ftinfo t = ftinfo s \<and> font_files t = font_files s \<and>
      flash nv (hw (text_nor t)) = blanked (flash nv (hw (text_nor s))) ((6400 + i) * 4096) (k * 4096)"
proof (induction k arbitrary: i s)
  case 0
  then show ?case using blanked_none by auto
next
  case (Suc k)
  let ?f = "flash nv (hw (text_nor s))" and ?a = "(6400 + i) * 4096" and ?type = "g_norflash_type (text_nor s)"
  have chip: "nor_chip spi nv ?type cap" "busy nv (hw (text_nor s)) = 0" using Suc.prems(1) by (simp_all add: font_ready_def)
  obtain t where t: "show_progress h percent (x + ucast (20 * ucast sz div 2 :: u32)) y sz (ucast FONTSECSIZE) (ucast (of_nat i :: u16)) color s =
      Some (s\<lparr>text_screen := t\<rparr>)" "font_ready h v spi nv cap sz x y (s\<lparr>text_screen := t\<rparr>)"
    by (rule show_progress_ok [OF Suc.prems(1)])
  have "unat (of_nat i :: u16) = i" using Suc.prems(2) by (intro unat_of_nat_small) simp
  then have "(ucast (of_nat i :: u16) :: u32) = of_nat i" by (metis of_nat_unat)
  then have sec: "FONTINFOADDR div 4096 + ucast (of_nat i :: u16) = (of_nat (6400 + i) :: u32)" by (simp add: FONTINFOADDR_def)
  have addr: "(of_nat (6400 + i) :: u32) * 4096 = of_nat ?a" by simp
  have fit: "?a + unat (4096 :: u16) \<le> cap" using Suc.prems(2,3) by simp
  from read_ok [OF chip fit] obtain w where w: "norflash_read spi ?type (of_nat ?a) 4096 (hw (text_nor s)) = (window ?f ?a 4096, w)"
    "busy nv w = 0" "flash nv w = ?f" by auto
  let ?m = "mem_store (ram (text_heap s)) buf (window ?f ?a 4096)"
  have "?a < cap" using fit by simp
  from erase_sector_ok [OF chip(1) w(2) this] obtain w2 where w2: "norflash_erase_sector spi ?type (of_nat (6400 + i)) w = Some w2"
    "busy nv w2 = 0" "flash nv w2 = erased ?f ?a" by (auto simp: w(3))
  have suc: "of_nat i + 1 = (of_nat (Suc i) :: u16)" by (simp add: add.commute)
  note run = erase_loop.simps(2) [of spi h percent x y sz color buf "of_nat i" k s, unfolded t(1) sec addr suc bind.simps Let_def]
  define s1 where "s1 = (\<lambda>w1. s\<lparr>text_screen := t, text_heap := (text_heap s)\<lparr>ram := ?m\<rparr>, text_nor := (text_nor s)\<lparr>hw := w1\<rparr>\<rparr>)"
  obtain w1 where w1: "busy nv w1 = 0" "flash nv w1 = blanked ?f ?a 4096" and
    step: "erase_loop spi h percent x y sz color buf (of_nat i) (Suc k) s = erase_loop spi h percent x y sz color buf (of_nat (Suc i)) k (s1 w1)"
  proof (cases "first_used ?m buf 0 1024 = 1024")
    case True
    have blank: "?f (?a + j) = 0xFF" if "j < 4096" for j
    proof -
      have "?m (buf + of_nat j) = 0xFF" using first_used_blank [of ?m buf 0 1024 j] True that by simp
      then show ?thesis using mem_store_nth [of "window ?f ?a 4096" j "ram (text_heap s)" buf] that by simp
    qed
    have "?f z = 0xFF" if "?a \<le> z" "z < ?a + 4096" for z using blank [of "z - ?a"] that by simp
    then have "blanked ?f ?a 4096 = ?f" by (auto simp: blanked_def fun_eq_iff)
    then show ?thesis using that [of w] True w run by (simp add: s1_def del: of_nat_add of_nat_mult of_nat_Suc)
  next
    case False
    have "erased ?f ?a = blanked ?f ?a 4096" by (simp add: erased_def blanked_def fun_eq_iff)
    then show ?thesis using that [of w2] False w w2 run by (simp add: s1_def del: of_nat_add of_nat_mult of_nat_Suc)
  qed
  let ?s = "s1 w1"
  have s1: "text_heap ?s = (text_heap s)\<lparr>ram := ?m\<rparr>" "text_nor ?s = (text_nor s)\<lparr>hw := w1\<rparr>" "text_screen ?s = t" "ftinfo ?s = ftinfo s"
    "font_files ?s = font_files s" by (simp_all add: s1_def)
  have heap: "heap_same (text_heap s) (text_heap ?s)"
    unfolding s1 using Suc.prems(4) by (auto intro!: heap_sameI store_same_outside)
  have "font_ready h v spi nv cap sz x y ?s" using t(2) w1(1) heap_sameD(1) [OF heap] by (simp add: font_ready_def s1)
  moreover have "\<forall>j<4096. pool_has (text_heap ?s) (buf + of_nat j)" using Suc.prems(4) unfolding heap_sameD(2) [OF heap] .
  ultimately obtain u where u: "erase_loop spi h percent x y sz color buf (of_nat (Suc i)) k ?s = Some u" "font_ready h v spi nv cap sz x y u"
    "heap_same (text_heap ?s) (text_heap u)" "ftinfo u = ftinfo s" "font_files u = font_files s"
    "flash nv (hw (text_nor u)) = blanked (flash nv w1) ((6400 + Suc i) * 4096) (k * 4096)"
    using Suc.IH [of ?s "Suc i"] Suc.prems(2,3) by (auto simp: s1)
  have "flash nv (hw (text_nor u)) = blanked ?f ?a (Suc k * 4096)"
    using u(6) w1(2) blanked_more [of ?f ?a 4096 "k * 4096"] by (simp add: algebra_simps)
  then show ?case using step u heap_same_trans [OF heap u(3)] by auto
qed

text \<open>The files that are stored, and of an open file its bytes and those still to be read.\<close>

record 'f font_view =
  stored :: "'f \<Rightarrow> u8 list \<Rightarrow> u8 list option"
  whole :: "'f \<Rightarrow> u32 \<Rightarrow> u8 list"
  unread :: "'f \<Rightarrow> u32 \<Rightarrow> u8 list"

definition open_law :: "'f fatfs \<Rightarrow> 'f font_view \<Rightarrow> bool" where
  "open_law F fv \<longleftrightarrow>
     (\<forall>p n m f path. name_at m n path \<longrightarrow> length path < 256 \<longrightarrow>
        (case stored fv f path of
           None \<Rightarrow> fst (x_open F p n FA_READ m f) \<noteq> 0 \<and> stored fv (snd (x_open F p n FA_READ m f)) = stored fv f
         | Some c \<Rightarrow> \<exists>f'. x_open F p n FA_READ m f = (0, f') \<and> stored fv f' = stored fv f \<and> whole fv f' p = c \<and> unread fv f' p = c))"

definition read_file_law :: "'f fatfs \<Rightarrow> 'f font_view \<Rightarrow> bool" where
  "read_file_law F fv \<longleftrightarrow>
     (\<forall>p f. \<exists>f'. x_read F p 4096 f = (0, take 4096 (unread fv f p), f') \<and> stored fv f' = stored fv f \<and>
        whole fv f' p = whole fv f p \<and> unread fv f' p = drop 4096 (unread fv f p)) \<and>
     (\<forall>p f. stored fv (x_close F p f) = stored fv f) \<and> (\<forall>p f. x_objsize F p f = of_nat (length (whole fv f p)))"

lemma fontx_loop_ok:
  fixes offx :: u32
  assumes law: "read_file_law F fv"
  shows "font_ready h v spi nv cap sz x y s \<Longrightarrow> length (unread fv (font_files s) fil) mod 4096 \<noteq> 0 \<Longrightarrow>
    \<forall>j<4096. pool_has (text_heap s) (buf + of_nat j) \<Longrightarrow> offx + flashaddr = of_nat a \<Longrightarrow>
    a + length (unread fv (font_files s) fil) \<le> cap \<Longrightarrow>
    \<exists>t. fontx_loop spi h F percent (x + ucast (20 * ucast sz div 2 :: u32)) y sz color fil buf flashaddr offx s = Some (0, t) \<and>
      font_ready h v spi nv cap sz x y t \<and> heap_same (text_heap s) (text_heap t) \<and> ftinfo t = ftinfo s \<and>
      stored fv (font_files t) = stored fv (font_files s) \<and>
      flash nv (hw (text_nor t)) = overwrite (flash nv (hw (text_nor s))) a (unread fv (font_files s) fil)"
proof (induction "length (unread fv (font_files s) fil)" arbitrary: s offx a rule: less_induct)
  case less
  let ?r = "unread fv (font_files s) fil"
  let ?bs = "take 4096 ?r"
  let ?n = "length ?bs"
  have chip: "nor_chip spi nv (g_norflash_type (text_nor s)) cap" "busy nv (hw (text_nor s)) = 0"
    using less.prems(1) by (simp_all add: font_ready_def)
  obtain f1 where f1: "x_read F fil 4096 (font_files s) = (0, ?bs, f1)" "stored fv f1 = stored fv (font_files s)"
    "unread fv f1 fil = drop 4096 ?r" using law unfolding read_file_law_def by blast
  have ne: "?r \<noteq> []" using less.prems(2) by auto
  then have bs: "?bs \<noteq> []" "?n < 65536" "a + ?n \<le> cap" using less.prems(5) by auto
  have un: "unat (of_nat ?n :: u16) = ?n" using bs(2) by (intro unat_of_nat_small) simp
  then have wide: "(ucast (of_nat ?n :: u16) :: u32) = of_nat ?n" by (metis of_nat_unat)
  let ?m = "mem_store (ram (text_heap s)) buf ?bs"
  have mem: "mem_bytes ?m buf (unat (of_nat ?n :: u16)) = ?bs" unfolding un by (simp add: mem_bytes_store)
  from norflash_write_ok [OF chip bs] obtain n' where n': "norflash_write spi ?bs (of_nat a) (of_nat ?n) (text_nor s) = Some n'"
    "busy nv (hw n') = 0" "g_norflash_type n' = g_norflash_type (text_nor s)"
    "flash nv (hw n') = overwrite (flash nv (hw (text_nor s))) a ?bs" by blast
  let ?s2 = "s\<lparr>font_files := f1, text_heap := (text_heap s)\<lparr>ram := ?m\<rparr>, text_nor := n'\<rparr>"
  have heap: "heap_same (text_heap s) ((text_heap s)\<lparr>ram := ?m\<rparr>)"
    using less.prems(3) by (auto intro!: heap_sameI store_same_outside)
  have r2: "font_ready h v spi nv cap sz x y ?s2" using less.prems(1) n'(2,3) heap_sameD(1) [OF heap] by (simp add: font_ready_def)
  obtain t where t: "show_progress h percent (x + ucast (20 * ucast sz div 2 :: u32)) y sz (ucast (x_objsize F fil f1)) (offx + ucast (of_nat ?n :: u16)) color ?s2 =
      Some (?s2\<lparr>text_screen := t\<rparr>)" "font_ready h v spi nv cap sz x y (?s2\<lparr>text_screen := t\<rparr>)"
    by (rule show_progress_ok [OF r2])
  define s3 where "s3 = ?s2\<lparr>text_screen := t\<rparr>"
  have s3: "font_files s3 = f1" "text_heap s3 = (text_heap s)\<lparr>ram := ?m\<rparr>" "text_nor s3 = n'" "ftinfo s3 = ftinfo s"
    "font_ready h v spi nv cap sz x y s3" using t(2) by (simp_all add: s3_def)
  have step: "fontx_loop spi h F percent (x + ucast (20 * ucast sz div 2 :: u32)) y sz color fil buf flashaddr offx s =
      (if (of_nat ?n :: u16) \<noteq> 4096 then Some (0, s3)
       else fontx_loop spi h F percent (x + ucast (20 * ucast sz div 2 :: u32)) y sz color fil buf flashaddr (offx + ucast (of_nat ?n :: u16)) s3)"
    using f1(1) n'(1) t(1) by (subst fontx_loop.simps) (simp add: mem less.prems(4) s3_def del: length_take)
  note step = step [unfolded wide]
  show ?case
  proof (cases "4096 < length ?r")
    case False
    then have "length ?r < 4096" using less.prems(2) by (cases "length ?r = 4096") auto
    then have "?bs = ?r" "(of_nat ?n :: u16) \<noteq> 4096" using un by (auto simp: word_unat_eq_iff)
    then show ?thesis using step n'(4) s3 heap f1(2) by simp
  next
    case True
    then have n: "?n = 4096" by simp
    have "length ?r - 4096 \<noteq> 0" using True by simp
    have rest: "length (unread fv (font_files s3) fil) = length ?r - 4096" using s3(1) f1(3) by simp
    have "length (unread fv (font_files s3) fil) < length ?r" unfolding rest using True by simp
    moreover have "length (unread fv (font_files s3) fil) mod 4096 \<noteq> 0" unfolding rest using True less.prems(2) by (simp add: le_mod_geq)
    moreover have "\<forall>j<4096. pool_has (text_heap s3) (buf + of_nat j)" using less.prems(3) heap_sameD(2) [OF heap] s3(2) by simp
    moreover have "offx + of_nat ?n + flashaddr = of_nat (a + 4096)" unfolding n using less.prems(4) by (simp add: ac_simps)
    moreover have "a + 4096 + length (unread fv (font_files s3) fil) \<le> cap" unfolding rest using True less.prems(5) by simp
    ultimately obtain u where u: "fontx_loop spi h F percent (x + ucast (20 * ucast sz div 2 :: u32)) y sz color fil buf flashaddr (offx + of_nat ?n) s3 = Some (0, u)"
      "font_ready h v spi nv cap sz x y u" "heap_same (text_heap s3) (text_heap u)" "ftinfo u = ftinfo s3"
      "stored fv (font_files u) = stored fv f1" "flash nv (hw (text_nor u)) = overwrite (flash nv (hw n')) (a + 4096) (drop 4096 ?r)"
      using less.hyps [of s3 "offx + of_nat ?n" "a + 4096"] s3(1,3,5) f1(3) by auto
    have "flash nv (hw (text_nor u)) = overwrite (flash nv (hw (text_nor s))) a ?r"
      unfolding u(6) n'(4) using overwrite_append [of _ a ?bs "drop 4096 ?r"] n by simp
    then show ?thesis using step u n f1(2) s3(2,4) heap_same_trans [OF heap] by simp
  qed
qed

lemma open_found:
  assumes "open_law F fv" "name_at m n path" "length path < 256" "stored fv f path = Some c"
  shows "\<exists>f'. x_open F p n FA_READ m f = (0, f') \<and> stored fv f' = stored fv f \<and> whole fv f' p = c \<and> unread fv f' p = c"
  using assms(1) [unfolded open_law_def, rule_format, OF assms(2,3), of p f] assms(4) by simp

text \<open>One font: its file is in the flash, its place in the directory, and the heap is as before.\<close>

lemma fontx_ok:
  assumes ready: "font_ready h v spi nv cap sz x y s" and law: "open_law F fv" "read_file_law F fv"
    and name: "name_at (ram (text_heap s)) pname path" "length path < 256" and sto: "stored fv (font_files s) path = Some c" "length c mod 4096 \<noteq> 0"
    and m: "mymalloc SRAMIN (x_sizeof_FIL F) (text_heap s) = Some (fil, h1)" "mymalloc SRAMIN 4096 h1 = Some (buf, h2)"
    and nz: "fil \<noteq> 0" "buf \<noteq> 0"
    and place: "font_place fx (of_nat (length c)) (ftinfo s) = (of_nat a, info)" "a + length c \<le> cap"
  shows "\<exists>t. fonts_update_fontx spi h F percent (x + ucast (20 * ucast sz div 2 :: u32)) y sz pname fx color s = Some (0, t) \<and>
    font_ready h v spi nv cap sz x y t \<and> heap_same (text_heap s) (text_heap t) \<and> ftinfo t = info \<and>
    stored fv (font_files t) = stored fv (font_files s) \<and>
    flash nv (hw (text_nor t)) = overwrite (flash nv (hw (text_nor s))) a c"
proof -
  have ok: "heap_ok SRAMIN (text_heap s)" using ready by (simp add: font_ready_def)
  obtain x1 where h1: "heap_ok SRAMIN h1" "membase h1 = membase (text_heap s)" "ram h1 = ram (text_heap s)" by (rule mymalloc_own [OF ok m(1)])
  obtain x2 where h2: "heap_ok SRAMIN h2" "membase h2 = membase h1" "ram h2 = ram h1" by (rule mymalloc_own [OF h1(1) m(2)])
  have ph: "pool_has h1 = pool_has (text_heap s)" "pool_has h2 = pool_has (text_heap s)" using h1(2) h2(2) by (simp_all add: pool_has_def fun_eq_iff)
  have "name_at (ram h2) pname path" using name(1) h1(3) h2(3) by simp
  then obtain f1 where f1: "x_open F fil pname FA_READ (ram h2) (font_files s) = (0, f1)" "stored fv f1 = stored fv (font_files s)"
    "whole fv f1 fil = c" "unread fv f1 fil = c" using open_found [OF law(1) _ name(2) sto(1)] by blast
  have "(ucast (of_nat (length c) :: 64 word) :: u32) = of_nat (length c)"
    by (simp add: word_unat_eq_iff unsigned_ucast_eq unat_of_nat take_bit_eq_mod mod_mod_cancel)
  then have sizec: "(ucast (x_objsize F fil f1) :: u32) = of_nat (length c)" using law(2) f1(3) by (simp add: read_file_law_def)
  let ?s1 = "s\<lparr>text_heap := h2, font_files := f1, ftinfo := info\<rparr>"
  have "font_ready h v spi nv cap sz x y ?s1" using ready h2(1) by (simp add: font_ready_def)
  moreover have "\<forall>j<4096. pool_has (text_heap ?s1) (buf + of_nat j)" using block_in_pool [OF h1(1) m(2) nz(2)] ph by simp
  moreover have "0 + (of_nat a :: u32) = of_nat a" by simp
  ultimately obtain u where u: "fontx_loop spi h F percent (x + ucast (20 * ucast sz div 2 :: u32)) y sz color fil buf (of_nat a) 0 ?s1 = Some (0, u)"
    "font_ready h v spi nv cap sz x y u" "heap_same h2 (text_heap u)" "ftinfo u = info" "stored fv (font_files u) = stored fv f1"
    "flash nv (hw (text_nor u)) = overwrite (flash nv (hw (text_nor s))) a c"
    using fontx_loop_ok [OF law(2), of h v spi nv cap sz x y ?s1 fil buf 0 "of_nat a" a percent color] sto(2) place(2) f1(4) by auto
  obtain m where m': "text_heap u = h2\<lparr>ram := m\<rparr>" "same_outside h2 (ram h2) m" using u(3) by (auto simp: heap_same_def)
  obtain h3 where fr: "myfree SRAMIN fil (h2\<lparr>ram := m\<rparr>) = Some h3" "myfree SRAMIN buf h3 = Some ((text_heap s)\<lparr>ram := m\<rparr>)"
    by (rule two_blocks_exact [OF ok m])
  let ?t = "u\<lparr>font_files := x_close F fil (font_files u), text_heap := (text_heap s)\<lparr>ram := m\<rparr>\<rparr>"
  have "fonts_update_fontx spi h F percent (x + ucast (20 * ucast sz div 2 :: u32)) y sz pname fx color s = Some (0, ?t)"
    using m nz f1(1) place(1) u(1) fr m'(1) by (simp add: fonts_update_fontx_def Let_def sizec)
  moreover have "heap_same (text_heap s) ((text_heap s)\<lparr>ram := m\<rparr>)"
    using m'(2) ph(2) h1(3) h2(3) by (intro heap_sameI) (simp add: same_outside_def)
  moreover have "stored fv (font_files ?t) = stored fv (font_files s)" using law(2) u(5) f1(2) by (simp add: read_file_law_def)
  moreover have "font_ready h v spi nv cap sz x y ?t" using u(2) ok by (simp add: font_ready_def)
  ultimately show ?thesis using u(4,6) by auto
qed

text \<open>Without memory for the buffer nothing is written, and the result is 0 all the same.\<close>

lemma fontx_no_memory:
  assumes "mymalloc SRAMIN (x_sizeof_FIL F) (text_heap s) = Some (fil, h1)" "mymalloc SRAMIN 4096 h1 = Some (0, h2)"
    and "x_open F fil pname FA_READ (ram h2) (font_files s) = (0, f1)" "myfree SRAMIN fil h2 = Some h3"
  shows "fonts_update_fontx spi h F percent x y sz pname fx color s = Some (0, s\<lparr>text_heap := h3, font_files := f1\<rparr>)"
  using assms by (simp add: fonts_update_fontx_def myfree_def [of SRAMIN 0])

section \<open>The directory\<close>

text \<open>Where the fonts are put, one behind the other, and what the directory says of each.\<close>

definition font_start :: "u8 list list \<Rightarrow> nat \<Rightarrow> nat" where
  "font_start cs i = 25 * 1024 * 1024 + 41 + length (concat (take i cs))"

definition font_entry :: "nat \<Rightarrow> font_info \<Rightarrow> u32 \<times> u32" where
  "font_entry i info =
     (if i = 0 then (ugbkaddr info, ugbksize info) else if i = 1 then (f12addr info, gbk12size info)
      else if i = 2 then (f16addr info, gbk16size info) else if i = 3 then (f24addr info, gbk24size info)
      else (f32addr info, gbk32size info))"

definition listed :: "u8 list list \<Rightarrow> nat \<Rightarrow> font_info \<Rightarrow> bool" where
  "listed cs i info \<longleftrightarrow> (\<forall>j<i. font_entry j info = (of_nat (font_start cs j), of_nat (length (cs ! j))))"

lemma below_five: "i < 5 \<longleftrightarrow> i = 0 \<or> i = 1 \<or> i = 2 \<or> i = 3 \<or> i = (4 :: nat)"
  by linarith

lemma font_place_entry:
  assumes "i < 5"
  obtains info' where "font_place (of_nat i) n info =
      (if i = 0 then FONTINFOADDR + 41 else fst (font_entry (i - 1) info) + snd (font_entry (i - 1) info), info')"
    "font_entry i info' = (if i = 0 then FONTINFOADDR + 41 else fst (font_entry (i - 1) info) + snd (font_entry (i - 1) info), n)"
    "\<And>j. j < i \<Longrightarrow> font_entry j info' = font_entry j info" "fontok info' = fontok info"
proof -
  let ?info = "snd (font_place (of_nat i) n info)"
  have "font_place (of_nat i) n info =
      (if i = 0 then FONTINFOADDR + 41 else fst (font_entry (i - 1) info) + snd (font_entry (i - 1) info), ?info)"
    "font_entry i ?info = (if i = 0 then FONTINFOADDR + 41 else fst (font_entry (i - 1) info) + snd (font_entry (i - 1) info), n)"
    "fontok ?info = fontok info"
    using assms unfolding below_five by (elim disjE; simp add: font_place_def font_entry_def Let_def)+
  moreover have "font_entry j ?info = font_entry j info" if "j < i" for j
    using assms that unfolding below_five by (elim disjE; simp add: font_place_def font_entry_def Let_def)
  ultimately show thesis using that by blast
qed

lemma font_start_Suc: "i < length cs \<Longrightarrow> font_start cs (Suc i) = font_start cs i + length (cs ! i)"
  by (simp add: font_start_def take_Suc_conv_app_nth)

lemma listed_next:
  assumes "listed cs i info" "i < 5" "length cs = 5"
  obtains info' where "font_place (of_nat i) (of_nat (length (cs ! i))) info = (of_nat (font_start cs i), info')" "listed cs (Suc i) info'"
    "fontok info' = fontok info"
proof -
  obtain info' where i: "font_place (of_nat i) (of_nat (length (cs ! i))) info =
      (if i = 0 then FONTINFOADDR + 41 else fst (font_entry (i - 1) info) + snd (font_entry (i - 1) info), info')"
    "font_entry i info' = (if i = 0 then FONTINFOADDR + 41 else fst (font_entry (i - 1) info) + snd (font_entry (i - 1) info), of_nat (length (cs ! i)))"
    "\<And>j. j < i \<Longrightarrow> font_entry j info' = font_entry j info" "fontok info' = fontok info"
    using font_place_entry [OF assms(2), of "of_nat (length (cs ! i))" info] by blast
  have a: "(if i = 0 then FONTINFOADDR + 41 else fst (font_entry (i - 1) info) + snd (font_entry (i - 1) info)) = of_nat (font_start cs i)"
  proof (cases i)
    case 0
    then show ?thesis by (simp add: FONTINFOADDR_def font_start_def)
  next
    case (Suc j)
    then show ?thesis using assms font_start_Suc [of j cs] by (simp add: listed_def)
  qed
  have "listed cs (Suc i) info'" using assms(1) i(2,3) unfolding a by (auto simp: listed_def less_Suc_eq)
  then show thesis using that i(1,4) unfolding a by blast
qed

section \<open>The fonts, one after the other\<close>

text \<open>Memory for a file and the buffer.\<close>

definition has_room :: "'f fatfs \<Rightarrow> heap \<Rightarrow> bool" where
  "has_room F p \<longleftrightarrow> (\<exists>fil q buf r. mymalloc SRAMIN (x_sizeof_FIL F) p = Some (fil, q) \<and> mymalloc SRAMIN 4096 q = Some (buf, r) \<and>
     fil \<noteq> 0 \<and> buf \<noteq> 0)"

lemma has_room_ram: "has_room F p \<Longrightarrow> has_room F (p\<lparr>ram := m\<rparr>)"
  unfolding has_room_def mymalloc_ram
proof (elim exE conjE)
  fix fil q buf r
  assume "mymalloc SRAMIN (x_sizeof_FIL F) p = Some (fil, q)" "mymalloc SRAMIN 4096 q = Some (buf, r)" "fil \<noteq> 0" "buf \<noteq> 0"
  then show "\<exists>fil q buf r. map_option (\<lambda>(a, q). (a, q\<lparr>ram := m\<rparr>)) (mymalloc SRAMIN (x_sizeof_FIL F) p) = Some (fil, q) \<and>
      mymalloc SRAMIN 4096 q = Some (buf, r) \<and> fil \<noteq> 0 \<and> buf \<noteq> 0"
    using mymalloc_ram [where p = q and m = m and sz = 4096 and b = SRAMIN] by auto
qed

lemma remind_messages: "i < 5 \<Longrightarrow> \<exists>msg. arr_get FONT_UPDATE_REMIND_TBL i = Some msg \<and> list_all (\<lambda>c. 32 \<le> c \<and> c \<le> 126) msg \<and> length msg \<le> 19"
proof -
  have "\<forall>p\<in>set FONT_UPDATE_REMIND_TBL. list_all (\<lambda>c. 32 \<le> c \<and> c \<le> 126) p \<and> length p \<le> 19" "length FONT_UPDATE_REMIND_TBL = 5"
    by code_simp+
  then show "i < 5 \<Longrightarrow> \<exists>msg. arr_get FONT_UPDATE_REMIND_TBL i = Some msg \<and> list_all (\<lambda>c. 32 \<le> c \<and> c \<le> 126) msg \<and> length msg \<le> 19"
    by (simp add: arr_get_def)
qed

lemma update_all_ok:
  assumes law: "open_law F fv" "read_file_law F fv" and str: "length str + 25 \<le> 100" and five: "length cs = 5"
    and fit: "font_start cs 5 \<le> cap" and odd: "\<forall>c\<in>set cs. length c mod 4096 \<noteq> 0"
  shows "font_ready h v spi nv cap sz x y s \<Longrightarrow> i + k = 5 \<Longrightarrow> name_outside (text_heap s) src str \<Longrightarrow>
    \<forall>j<100. pool_has (text_heap s) (pname + of_nat j) \<Longrightarrow> has_room F (text_heap s) \<Longrightarrow> listed cs i (ftinfo s) \<Longrightarrow>
    \<forall>j<5. stored fv (font_files s) (str @ FONT_GBK_PATH ! j) = Some (cs ! j) \<Longrightarrow>
    \<exists>t. update_all spi h F percent x y sz src color pname i k s = Some (0, t) \<and> font_ready h v spi nv cap sz x y t \<and>
      heap_same (text_heap s) (text_heap t) \<and> listed cs 5 (ftinfo t) \<and> fontok (ftinfo t) = fontok (ftinfo s) \<and>
      flash nv (hw (text_nor t)) = overwrite (flash nv (hw (text_nor s))) (font_start cs i) (concat (drop i cs))"
proof (induction k arbitrary: i s)
  case 0
  then show ?case using five by simp
next
  case (Suc k)
  have i: "i < 5" using Suc.prems(2) by simp
  let ?c = "cs ! i"
  obtain msg where msg: "arr_get FONT_UPDATE_REMIND_TBL i = Some msg" "list_all (\<lambda>c. 32 \<le> c \<and> c \<le> 126) msg" "length msg \<le> 19"
    using remind_messages [OF i] by blast
  obtain scr where scr: "show_text h x y sz msg color s = Some (s\<lparr>text_screen := scr\<rparr>)" "font_ready h v spi nv cap sz x y (s\<lparr>text_screen := scr\<rparr>)"
    by (rule show_text_ok [OF Suc.prems(1) msg(2,3)])
  obtain m where m: "font_path pname src i (ram (text_heap s)) = Some m" "name_at m pname (str @ FONT_GBK_PATH ! i)"
    "same_outside (text_heap s) (ram (text_heap s)) m"
    using font_path_at [OF Suc.prems(3) str i] Suc.prems(4) by blast
  let ?s1 = "s\<lparr>text_screen := scr, text_heap := (text_heap s)\<lparr>ram := m\<rparr>\<rparr>"
  have heap: "heap_same (text_heap s) (text_heap ?s1)" using heap_sameI [OF m(3)] by simp
  have r1: "font_ready h v spi nv cap sz x y ?s1" using scr(2) heap_sameD(1) [OF heap] by (simp add: font_ready_def)
  obtain fil h1 buf h2 where room: "mymalloc SRAMIN (x_sizeof_FIL F) (text_heap ?s1) = Some (fil, h1)" "mymalloc SRAMIN 4096 h1 = Some (buf, h2)"
    "fil \<noteq> 0" "buf \<noteq> 0" using has_room_ram [OF Suc.prems(5), of m] by (auto simp: has_room_def)
  obtain info where info: "font_place (of_nat i) (of_nat (length ?c)) (ftinfo s) = (of_nat (font_start cs i), info)" "listed cs (Suc i) info"
    "fontok info = fontok (ftinfo s)" by (rule listed_next [OF Suc.prems(6) i five])
  have st: "stored fv (font_files s) (str @ FONT_GBK_PATH ! i) = Some ?c" "length ?c mod 4096 \<noteq> 0"
    using Suc.prems(7) i odd five by auto
  have start: "font_start cs i + length ?c = font_start cs (Suc i)" using font_start_Suc [of i cs] i five by simp
  have "length (concat (take (Suc i) cs)) \<le> length (concat (take 5 cs))"
    using concat_append [of "take (Suc i) cs" "drop (Suc i) cs"] five by (metis append_take_drop_id length_append le_add1 order_refl take_all)
  then have "font_start cs (Suc i) \<le> cap" using fit unfolding font_start_def by linarith
  then have "font_start cs i + length ?c \<le> cap" unfolding start .
  note fitc = this
  have "length (str @ FONT_GBK_PATH ! i) < 256" using font_path_length [OF i] str by simp
  from fontx_ok [OF r1 law _ this _ st(2) room _ fitc, of pname "of_nat i" info percent color] m(2) st(1) info(1)
  obtain t where t: "fonts_update_fontx spi h F percent (x + ucast (20 * ucast sz div 2 :: u32)) y sz pname (of_nat i) color ?s1 = Some (0, t)"
    "font_ready h v spi nv cap sz x y t" "heap_same (text_heap ?s1) (text_heap t)" "ftinfo t = info"
    "stored fv (font_files t) = stored fv (font_files s)"
    "flash nv (hw (text_nor t)) = overwrite (flash nv (hw (text_nor s))) (font_start cs i) ?c" by auto
  have ht: "heap_same (text_heap s) (text_heap t)" by (rule heap_same_trans [OF heap t(3)])
  have "has_room F (text_heap t)" using has_room_ram [OF Suc.prems(5)] heap_sameD(5) [OF ht] by metis
  moreover have "\<forall>j<100. pool_has (text_heap t) (pname + of_nat j)" using Suc.prems(4) heap_sameD(2) [OF ht] by simp
  ultimately obtain u where u: "update_all spi h F percent x y sz src color pname (Suc i) k t = Some (0, u)" "font_ready h v spi nv cap sz x y u"
    "heap_same (text_heap t) (text_heap u)" "listed cs 5 (ftinfo u)" "fontok (ftinfo u) = fontok info"
    "flash nv (hw (text_nor u)) = overwrite (flash nv (hw (text_nor t))) (font_start cs (Suc i)) (concat (drop (Suc i) cs))"
    using Suc.IH [OF t(2), of "Suc i"] Suc.prems(2,3,7) heap_sameD(3) [OF ht] info(2) t(4,5) by auto
  have "concat (drop i cs) = ?c @ concat (drop (Suc i) cs)" using i five by (simp flip: Cons_nth_drop_Suc)
  then have "flash nv (hw (text_nor u)) = overwrite (flash nv (hw (text_nor s))) (font_start cs i) (concat (drop i cs))"
    unfolding u(6) t(6) start [symmetric] overwrite_append by simp
  then show ?case using msg(1) scr(1) m(1) t(1) u heap_same_trans [OF ht u(3)] info(3) by simp
qed

text \<open>The bytes of the directory.\<close>

lemma length_put32 [simp]: "length (put32 w) = 4"
  by (simp add: put32_def)

lemma le32_put32: "le32 (pre @ put32 w @ post) (length pre) = w"
proof (rule bit_word_eqI)
  fix n assume "n < LENGTH(32)"
  then have "n < 8 \<or> 8 \<le> n \<and> n < 16 \<or> 16 \<le> n \<and> n < 24 \<or> 24 \<le> n \<and> n < 32" by auto
  then show "bit (le32 (pre @ put32 w @ post) (length pre)) n = bit w n"
    by (elim disjE) (auto simp: bit_le32 put32_def nth_append bit_simps)
qed

lemma length_concat_put32: "length (concat (map put32 ws)) = 4 * length ws"
  by (induction ws) simp_all

lemma le32_words:
  assumes "k < length ws"
  shows "le32 (b # concat (map put32 ws)) (1 + 4 * k) = ws ! k"
proof -
  let ?pre = "b # concat (map put32 (take k ws))"
  have "ws = take k ws @ ws ! k # drop (Suc k) ws" using assms by (rule id_take_nth_drop)
  then have "b # concat (map put32 ws) = ?pre @ put32 (ws ! k) @ concat (map put32 (drop (Suc k) ws))"
    by (metis append_Cons concat.simps(2) concat_append list.map(2) map_append)
  moreover have "length ?pre = 1 + 4 * k" using assms by (simp add: length_concat_put32)
  ultimately show ?thesis using le32_put32 [of ?pre "ws ! k"] by metis
qed

definition info_words :: "font_info \<Rightarrow> u32 list" where
  "info_words i = [ugbkaddr i, ugbksize i, f12addr i, gbk12size i, f16addr i, gbk16size i, f24addr i, gbk24size i, f32addr i, gbk32size i]"

lemma bytes_of_info_words: "bytes_of_info i = fontok i # concat (map put32 (info_words i))"
  by (simp add: bytes_of_info_def info_words_def)

lemma info_of_bytes_of: "info_of_bytes (bytes_of_info i) = i"
proof -
  have "le32 (bytes_of_info i) (1 + 4 * k) = info_words i ! k" if "k < 10" for k
    unfolding bytes_of_info_words by (rule le32_words) (use that in \<open>simp add: info_words_def\<close>)
  from this [of 0] this [of 1] this [of 2] this [of 3] this [of 4] this [of 5] this [of 6] this [of 7] this [of 8] this [of 9]
  show ?thesis by (simp add: info_of_bytes_def info_words_def) (simp add: bytes_of_info_def)
qed

lemma length_bytes_of_info: "length (bytes_of_info i) = 41"
  by (simp add: bytes_of_info_def)

lemma fonts_init_reads:
  assumes "nor_chip spi nv (g_norflash_type (text_nor u)) cap" "busy nv (hw (text_nor u)) = 0" "25 * 1024 * 1024 + 41 \<le> cap"
    and "window (flash nv (hw (text_nor u))) (25 * 1024 * 1024) 41 = bytes_of_info i" "fontok i = 0xAA"
  shows "fst (fonts_init spi delay u) = 0 \<and> ftinfo (snd (fonts_init spi delay u)) = i"
proof -
  have a: "of_nat (25 * 1024 * 1024) = FONTINFOADDR" by (simp add: FONTINFOADDR_def)
  have "25 * 1024 * 1024 + unat (41 :: u16) \<le> cap" using assms(3) by simp
  from read_ok [OF assms(1,2) this] obtain w where
    "norflash_read spi (g_norflash_type (text_nor u)) FONTINFOADDR 41 (hw (text_nor u)) = (bytes_of_info i, w)"
    unfolding a using assms(4) by auto
  then have "info_tries spi delay (Suc n) u = u\<lparr>ftinfo := i, text_nor := (text_nor u)\<lparr>hw := w\<rparr>\<rparr>" for n
    using assms(5) by (simp add: info_of_bytes_of)
  from this [of 9] show ?thesis using assms(5) by (simp add: fonts_init_def Let_def)
qed

text \<open>The search for the files.\<close>

lemma open_all_ok:
  assumes law: "open_law F fv" and str: "length str + 25 \<le> 100"
  shows "name_outside (text_heap s) src str \<Longrightarrow> \<forall>j<100. pool_has (text_heap s) (pname + of_nat j) \<Longrightarrow> i + k = 5 \<Longrightarrow>
    \<exists>m f. open_all F fil pname src i k s =
        Some (if \<forall>j. i \<le> j \<and> j < 5 \<longrightarrow> stored fv (font_files s) (str @ FONT_GBK_PATH ! j) \<noteq> None then 0 else 0x80,
          s\<lparr>text_heap := (text_heap s)\<lparr>ram := m\<rparr>, font_files := f\<rparr>) \<and>
      same_outside (text_heap s) (ram (text_heap s)) m \<and> stored fv f = stored fv (font_files s)"
proof (induction k arbitrary: i s)
  case 0
  then have "\<not> (i \<le> j \<and> j < 5)" for j by simp
  then show ?case by (intro exI [of _ "ram (text_heap s)"] exI [of _ "font_files s"]) (auto simp: same_outside_def)
next
  case (Suc k)
  have i: "i < 5" using Suc.prems(3) by simp
  let ?path = "str @ FONT_GBK_PATH ! i"
  obtain m where m: "font_path pname src i (ram (text_heap s)) = Some m" "name_at m pname ?path" "same_outside (text_heap s) (ram (text_heap s)) m"
    using font_path_at [OF Suc.prems(1) str i] Suc.prems(2) by blast
  have len: "length ?path < 256" using font_path_length [OF i] str by simp
  have all: "(\<forall>j. i \<le> j \<and> j < 5 \<longrightarrow> P j) \<longleftrightarrow> P i \<and> (\<forall>j. Suc i \<le> j \<and> j < 5 \<longrightarrow> P j)" for P
    using i by (metis Suc_leD Suc_leI le_neq_implies_less order_refl)
  show ?case
  proof (cases "stored fv (font_files s) ?path")
    case None
    obtain r f where o: "x_open F fil pname FA_READ m (font_files s) = (r, f)" by fastforce
    have "r \<noteq> 0" "stored fv f = stored fv (font_files s)"
      using law [unfolded open_law_def, rule_format, OF m(2) len, of fil "font_files s"] None o by simp_all
    moreover have "\<not> (\<forall>j. i \<le> j \<and> j < 5 \<longrightarrow> stored fv (font_files s) (str @ FONT_GBK_PATH ! j) \<noteq> None)" using None i by blast
    ultimately show ?thesis using m o by (intro exI [of _ m] exI [of _ f]) simp
  next
    case (Some c)
    obtain f where o: "x_open F fil pname FA_READ m (font_files s) = (0, f)" "stored fv f = stored fv (font_files s)"
      using open_found [OF law m(2) len Some] by blast
    let ?s = "s\<lparr>text_heap := (text_heap s)\<lparr>ram := m\<rparr>, font_files := f\<rparr>"
    have heap: "heap_same (text_heap s) (text_heap ?s)" using heap_sameI [OF m(3)] by simp
    have "name_outside (text_heap ?s) src str" using heap_sameD(3) [OF heap Suc.prems(1)] .
    moreover have "\<forall>j<100. pool_has (text_heap ?s) (pname + of_nat j)" using Suc.prems(2) heap_sameD(2) [OF heap] by simp
    moreover have "Suc i + k = 5" using Suc.prems(3) by simp
    ultimately obtain m' f' where u: "open_all F fil pname src (Suc i) k ?s =
        Some (if \<forall>j. Suc i \<le> j \<and> j < 5 \<longrightarrow> stored fv f (str @ FONT_GBK_PATH ! j) \<noteq> None then 0 else 0x80,
          ?s\<lparr>text_heap := (text_heap ?s)\<lparr>ram := m'\<rparr>, font_files := f'\<rparr>)"
      "same_outside (text_heap ?s) (ram (text_heap ?s)) m'" "stored fv f' = stored fv f"
      using Suc.IH [of ?s "Suc i"] by auto
    have "open_all F fil pname src i (Suc k) s =
        Some (if \<forall>j. i \<le> j \<and> j < 5 \<longrightarrow> stored fv (font_files s) (str @ FONT_GBK_PATH ! j) \<noteq> None then 0 else 0x80,
          s\<lparr>text_heap := (text_heap s)\<lparr>ram := m'\<rparr>, font_files := f'\<rparr>)"
      using m(1) o u(1) Some by (simp only: all) simp
    then show ?thesis using u(2,3) o(2) same_outside_trans [OF m(3)] by auto
  qed
qed

text \<open>The flash after an update: blank sectors, the fonts, the directory.\<close>

definition updated :: "(nat \<Rightarrow> u8) \<Rightarrow> u8 list list \<Rightarrow> font_info \<Rightarrow> nat \<Rightarrow> u8" where
  "updated f cs info =
     overwrite (overwrite (blanked f (6400 * 4096) (1539 * 4096)) (font_start cs 0) (concat cs)) (25 * 1024 * 1024) (bytes_of_info info)"

lemma update_files_ok:
  assumes law: "open_law F fv" "read_file_law F fv" and str: "length str + 25 \<le> 100" and cs: "length cs = 5"
    "\<forall>c\<in>set cs. length c mod 4096 \<noteq> 0" "font_start cs 5 \<le> cap" "7939 * 4096 \<le> cap"
    and ready: "font_ready h v spi nv cap sz x y s" and src: "name_outside (text_heap s) src str"
    and blk: "\<forall>j<100. pool_has (text_heap s) (pname + of_nat j)" "\<forall>j<4096. pool_has (text_heap s) (buf + of_nat j)"
    and room: "has_room F (text_heap s)" and st: "\<forall>j<5. stored fv (font_files s) (str @ FONT_GBK_PATH ! j) = Some (cs ! j)"
  shows "\<exists>t. update_files spi h F percent x y sz src color pname buf s = Some (0, t) \<and> font_ready h v spi nv cap sz x y t \<and>
    heap_same (text_heap s) (text_heap t) \<and> listed cs 5 (ftinfo t) \<and> fontok (ftinfo t) = 0xAA \<and>
    flash nv (hw (text_nor t)) = updated (flash nv (hw (text_nor s))) cs (ftinfo t)"
proof -
  have "list_all (\<lambda>c. 32 \<le> c \<and> c \<le> 126) (ascii ''Erasing sectors... '')" "length (ascii ''Erasing sectors... '') \<le> 19" by code_simp+
  from show_text_ok [OF ready this, of color] obtain scr where
    scr: "show_text h x y sz (ascii ''Erasing sectors... '') color s = Some (s\<lparr>text_screen := scr\<rparr>)"
      "font_ready h v spi nv cap sz x y (s\<lparr>text_screen := scr\<rparr>)" by blast
  have "0 + 1539 \<le> (1539 :: nat)" by simp
  from erase_loop_ok [OF scr(2) this cs(4), of buf percent color] blk(2) obtain t1 where
    t1: "erase_loop spi h percent x y sz color buf 0 (unat FONTSECSIZE) (s\<lparr>text_screen := scr\<rparr>) = Some t1" "font_ready h v spi nv cap sz x y t1"
      "heap_same (text_heap s) (text_heap t1)" "ftinfo t1 = ftinfo s" "font_files t1 = font_files s"
      "flash nv (hw (text_nor t1)) = blanked (flash nv (hw (text_nor s))) (6400 * 4096) (1539 * 4096)" by (auto simp: FONTSECSIZE_def)
  have "has_room F (text_heap t1)" using has_room_ram [OF room] heap_sameD(5) [OF t1(3)] by metis
  moreover have "\<forall>j<100. pool_has (text_heap t1) (pname + of_nat j)" using blk(1) heap_sameD(2) [OF t1(3)] by simp
  moreover have "listed cs 0 (ftinfo t1)" "0 + 5 = (5 :: nat)" by (simp_all add: listed_def)
  ultimately obtain t2 where t2: "update_all spi h F percent x y sz src color pname 0 5 t1 = Some (0, t2)" "font_ready h v spi nv cap sz x y t2"
      "heap_same (text_heap t1) (text_heap t2)" "listed cs 5 (ftinfo t2)"
      "flash nv (hw (text_nor t2)) = overwrite (flash nv (hw (text_nor t1))) (font_start cs 0) (concat cs)"
    using update_all_ok [OF law str cs(1,3,2) t1(2), of 0 5 src pname percent color] heap_sameD(3) [OF t1(3) src] st t1(5) by auto
  let ?info = "(ftinfo t2)\<lparr>fontok := 0xAA\<rparr>"
  have chip: "nor_chip spi nv (g_norflash_type (text_nor t2)) cap" "busy nv (hw (text_nor t2)) = 0" using t2(2) by (simp_all add: font_ready_def)
  have "bytes_of_info ?info \<noteq> []" by (simp add: bytes_of_info_def)
  moreover have "length (bytes_of_info ?info) < 65536" "25 * 1024 * 1024 + length (bytes_of_info ?info) \<le> cap"
    using cs(4) by (simp_all add: length_bytes_of_info)
  ultimately obtain n where n: "norflash_write spi (bytes_of_info ?info) (of_nat (25 * 1024 * 1024)) (of_nat (length (bytes_of_info ?info))) (text_nor t2) = Some n"
    "busy nv (hw n) = 0" "g_norflash_type n = g_norflash_type (text_nor t2)"
    "flash nv (hw n) = overwrite (flash nv (hw (text_nor t2))) (25 * 1024 * 1024) (bytes_of_info ?info)"
    using norflash_write_ok [OF chip] by blast
  have addr: "of_nat (25 * 1024 * 1024) = FONTINFOADDR" "(of_nat (length (bytes_of_info ?info)) :: u16) = 41"
    by (simp_all add: FONTINFOADDR_def length_bytes_of_info)
  let ?t = "t2\<lparr>ftinfo := ?info, text_nor := n\<rparr>"
  have "update_files spi h F percent x y sz src color pname buf s = Some (0, ?t)"
    using scr(1) t1(1) t2(1) n(1) unfolding addr by (simp add: update_files_def)
  moreover have "font_ready h v spi nv cap sz x y ?t" using t2(2) n(2,3) by (simp add: font_ready_def)
  moreover have "font_entry j ?info = font_entry j (ftinfo t2)" for j by (simp add: font_entry_def)
  then have "listed cs 5 ?info" using t2(4) by (simp add: listed_def)
  moreover have "flash nv (hw n) = updated (flash nv (hw (text_nor s))) cs ?info" unfolding updated_def n(4) t2(5) t1(6) ..
  ultimately show ?thesis using heap_same_trans [OF t1(3) t2(3)] by (intro exI [of _ ?t]) simp
qed

lemma window_part: "window (overwrite f a (xs @ ys @ zs)) (a + length xs) (length ys) = ys"
  by (rule nth_equalityI) (simp_all add: overwrite_def nth_append)

lemma updated_fonts:
  assumes "length cs = 5" "i < 5"
  shows "window (updated f cs info) (font_start cs i) (length (cs ! i)) = cs ! i"
proof -
  let ?g = "blanked f (6400 * 4096) (1539 * 4096)"
  have c: "concat cs = concat (take i cs) @ cs ! i @ concat (drop (Suc i) cs)"
    using id_take_nth_drop [of i cs] assms by (metis concat.simps(2) concat_append)
  have s: "font_start cs i = font_start cs 0 + length (concat (take i cs))" by (simp add: font_start_def)
  have "window (updated f cs info) (font_start cs i) (length (cs ! i)) =
      window (overwrite ?g (font_start cs 0) (concat cs)) (font_start cs i) (length (cs ! i))"
    unfolding updated_def by (rule window_apart) (simp add: length_bytes_of_info font_start_def)
  then show ?thesis unfolding c s window_part .
qed

lemma updated_outside:
  assumes "font_start cs 5 \<le> 7939 * 4096" "length cs = 5" "a < 25 * 1024 * 1024 \<or> 7939 * 4096 \<le> a"
  shows "updated f cs info a = f a"
proof -
  have "font_start cs 0 + length (concat cs) \<le> 7939 * 4096" using assms(1,2) by (simp add: font_start_def)
  then show ?thesis using assms(3) by (auto simp: updated_def overwrite_def blanked_def length_bytes_of_info font_start_def)
qed

lemma updated_start:
  assumes "nor_chip spi nv (g_norflash_type (text_nor u)) cap" "busy nv (hw (text_nor u)) = 0" "7939 * 4096 \<le> cap"
    and "flash nv (hw (text_nor u)) = updated f cs info" "fontok info = 0xAA"
  shows "fst (fonts_init spi delay u) = 0 \<and> ftinfo (snd (fonts_init spi delay u)) = info"
proof (rule fonts_init_reads [OF assms(1,2) _ _ assms(5)])
  show "25 * 1024 * 1024 + 41 \<le> cap" using assms(3) by simp
  show "window (flash nv (hw (text_nor u))) (25 * 1024 * 1024) 41 = bytes_of_info info"
    unfolding assms(4) updated_def using window_overwrite by (metis length_bytes_of_info)
qed

text \<open>The glyphs that the text routines find are those of the files.\<close>

definition font_file :: "u8 \<Rightarrow> nat" where
  "font_file sz = (if sz = 12 then 1 else if sz = 16 then 2 else if sz = 24 then 3 else 4)"

lemma installed_glyph:
  assumes "listed cs 5 info" "length cs = 5" "font_start cs 5 \<le> 7939 * 4096" "font_size sz" "hz_code qh ql"
    and "(hz_index qh ql + 1) * unat (mat_bytes sz) \<le> length (cs ! font_file sz)"
    and "window f (font_start cs (font_file sz)) (length (cs ! font_file sz)) = cs ! font_file sz"
  shows "hz_glyph f info sz qh ql = take (unat (mat_bytes sz)) (drop (hz_index qh ql * unat (mat_bytes sz)) (cs ! font_file sz))"
proof -
  let ?i = "font_file sz" and ?n = "unat (mat_bytes sz)" and ?k = "hz_index qh ql * unat (mat_bytes sz)"
  have i: "?i < 5" "font_base info sz = fst (font_entry ?i info)"
    using assms(4) by (auto simp: font_size_def font_file_def font_base_def font_entry_def)
  have "length (concat (take ?i cs)) \<le> length (concat (take 5 cs))"
    using concat_append [of "take ?i cs" "drop ?i cs"] assms(2) by (metis append_take_drop_id length_append le_add1 order_refl take_all)
  then have "font_start cs ?i < 2 ^ 32" using assms(3) unfolding font_start_def by simp
  moreover have "font_base info sz = of_nat (font_start cs ?i)" using i assms(1) by (simp add: listed_def)
  ultimately have b: "unat (font_base info sz) = font_start cs ?i" by (simp add: unat_of_nat_small)
  have k: "?k + ?n \<le> length (cs ! ?i)" using assms(6) by (simp add: distrib_right)
  have "take ?n (drop ?k (cs ! ?i)) = take ?n (drop ?k (window f (font_start cs ?i) (length (cs ! ?i))))" by (simp only: assms(7))
  also have "\<dots> = window f (font_start cs ?i + ?k) ?n" using k by (simp add: window_drop window_take)
  finally show ?thesis using assms(5) by (simp add: hz_glyph_def glyph_place_def b)
qed

text \<open>The start of an update: three blocks, the search for the files, and the block for the file object back.\<close>

definition finish_update :: "u8 \<Rightarrow> u32 \<Rightarrow> u32 \<Rightarrow> u8 \<times> ('n, 's, 'f) font_env \<Rightarrow> (u8 \<times> ('n, 's, 'f) font_env) option" where
  "finish_update rval pname buf rs = (case rs of (res, s4) \<Rightarrow> do {
     h5 \<leftarrow> myfree SRAMIN (if rval = 0 \<and> res \<noteq> 0 then buf else pname) (text_heap s4);
     h6 \<leftarrow> myfree SRAMIN (if rval = 0 \<and> res \<noteq> 0 then pname else buf) h5;
     Some (res, s4\<lparr>text_heap := h6\<rparr>)
   })"

lemma update_begins:
  fixes s :: "('n, 's, 'f) font_env"
  assumes law: "open_law F fv" and ok: "heap_ok SRAMIN (text_heap s)" and src: "name_outside (text_heap s) src str" "length str \<le> 75"
    and m: "mymalloc SRAMIN 100 (text_heap s) = Some (pname, h1)" "mymalloc SRAMIN 4096 h1 = Some (buf, h2)" "pname \<noteq> 0" "buf \<noteq> 0" "has_room F h2"
  obtains m f r and s2 :: "('n, 's, 'f) font_env" where
    "s2 = s\<lparr>ftinfo := (ftinfo s)\<lparr>fontok := 0xFF\<rparr>, font_files := f, text_heap := h2\<lparr>ram := m\<rparr>\<rparr>"
    "r = (if \<forall>j<5. stored fv (font_files s) (str @ FONT_GBK_PATH ! j) \<noteq> None then 0 else 0x80)"
    "fonts_update_font spi h F percent x y sz src color s =
       Option.bind (if r = 0 then update_files spi h F percent x y sz src color pname buf s2 else Some (r, s2)) (finish_update r pname buf)"
    "stored fv f = stored fv (font_files s)" "heap_ok SRAMIN (text_heap s2)" "name_outside (text_heap s2) src str" "has_room F (text_heap s2)"
    "\<forall>j<100. pool_has (text_heap s2) (pname + of_nat j)" "\<forall>j<4096. pool_has (text_heap s2) (buf + of_nat j)"
    "\<And>m'. \<exists>h4. myfree SRAMIN pname (h2\<lparr>ram := m'\<rparr>) = Some h4 \<and> myfree SRAMIN buf h4 = Some ((text_heap s)\<lparr>ram := m'\<rparr>)"
proof -
  obtain x1 where h1: "heap_ok SRAMIN h1" "membase h1 = membase (text_heap s)" "ram h1 = ram (text_heap s)" by (rule mymalloc_own [OF ok m(1)])
  obtain x2 where h2: "heap_ok SRAMIN h2" "membase h2 = membase h1" "ram h2 = ram h1" by (rule mymalloc_own [OF h1(1) m(2)])
  obtain fil h3 where fil: "mymalloc SRAMIN (x_sizeof_FIL F) h2 = Some (fil, h3)" "fil \<noteq> 0" using m(5) by (auto simp: has_room_def)
  obtain x3 where h3: "heap_ok SRAMIN h3" "membase h3 = membase h2" "ram h3 = ram h2" by (rule mymalloc_own [OF h2(1) fil(1)])
  have ph: "pool_has h1 = pool_has (text_heap s)" "pool_has h2 = pool_has (text_heap s)" "pool_has h3 = pool_has (text_heap s)"
    using h1(2) h2(2) h3(2) by (simp_all add: pool_has_def fun_eq_iff)
  have blk: "\<forall>j<100. pool_has h2 (pname + of_nat j)" "\<forall>j<4096. pool_has h2 (buf + of_nat j)"
    using block_in_pool [OF ok m(1,3)] block_in_pool [OF h1(1) m(2,4)] ph by simp_all
  have src2: "name_outside h2 src str" "name_outside h3 src str" using src(1) h1 h2 h3 ph by (simp_all add: name_outside_def)
  let ?s1 = "s\<lparr>ftinfo := (ftinfo s)\<lparr>fontok := 0xFF\<rparr>, text_heap := h3\<rparr>"
  define r :: u8 where "r = (if \<forall>j<5. stored fv (font_files s) (str @ FONT_GBK_PATH ! j) \<noteq> None then 0 else 0x80)"
  have "length str + 25 \<le> 100" "0 + 5 = (5 :: nat)" using src(2) by simp_all
  then obtain mm f where o: "open_all F fil pname src 0 5 ?s1 = Some (r, ?s1\<lparr>text_heap := h3\<lparr>ram := mm\<rparr>, font_files := f\<rparr>)"
      "same_outside h3 (ram h3) mm" "stored fv f = stored fv (font_files s)"
    using open_all_ok [OF law, of str ?s1 src pname 0 5 fil] src2(2) blk(1) ph by (auto simp: r_def)
  have fr: "myfree SRAMIN fil (h3\<lparr>ram := mm\<rparr>) = Some (h2\<lparr>ram := mm\<rparr>)" using mymalloc_block [OF _ _ _ fil] h2(1) by (metis heap_ok_def)
  let ?s2 = "s\<lparr>ftinfo := (ftinfo s)\<lparr>fontok := 0xFF\<rparr>, font_files := f, text_heap := h2\<lparr>ram := mm\<rparr>\<rparr>"
  have heap: "heap_same h2 (h2\<lparr>ram := mm\<rparr>)" using o(2) h3(3) ph by (intro heap_sameI) (simp add: same_outside_def)
  have "fonts_update_font spi h F percent x y sz src color s =
      Option.bind (if r = 0 then update_files spi h F percent x y sz src color pname buf ?s2 else Some (r, ?s2)) (finish_update r pname buf)"
    using m(1-4) fil o(1) fr by (simp add: fonts_update_font_def finish_update_def [abs_def] Let_def)
  moreover have "\<exists>h4. myfree SRAMIN pname (h2\<lparr>ram := m'\<rparr>) = Some h4 \<and> myfree SRAMIN buf h4 = Some ((text_heap s)\<lparr>ram := m'\<rparr>)" for m'
    by (rule two_blocks_exact [OF ok m(1,2), of m']) blast
  ultimately show thesis
    using that [OF refl r_def _ o(3)] heap_sameD(2,3) [OF heap] h2(1) src2(1) has_room_ram [OF m(5), of mm] blk by simp
qed

section \<open>Properties\<close>

text \<open>C25: An update of the fonts copies the five files to the flash, one behind the other, and lists them in
  the directory in front of them, so that the start finds them. Everything before the region of the
  fonts and behind it stays as it was, and the heap too. This holds when the files are there and fit the
  region, none has a multiple of 4096 bytes, and the memory is enough for two buffers and two files.\<close>

theorem fonts_update_installs:
  assumes "open_law F fv" "read_file_law F fv" "font_ready h v spi nv cap sz x y s"
    and "name_outside (text_heap s) src str" "length str \<le> 75"
    and "\<forall>j<5. stored fv (font_files s) (str @ FONT_GBK_PATH ! j) = Some (cs ! j)" "length cs = 5" "\<forall>c\<in>set cs. length c mod 4096 \<noteq> 0"
    and "font_start cs 5 \<le> 7939 * 4096" "7939 * 4096 \<le> cap"
    and "mymalloc SRAMIN 100 (text_heap s) = Some (pname, h1)" "mymalloc SRAMIN 4096 h1 = Some (buf, h2)" "pname \<noteq> 0" "buf \<noteq> 0" "has_room F h2"
  shows "\<exists>t m. fonts_update_font spi h F percent x y sz src color s = Some (0, t) \<and> text_heap t = (text_heap s)\<lparr>ram := m\<rparr> \<and>
    listed cs 5 (ftinfo t) \<and> (\<forall>i<5. window (flash nv (hw (text_nor t))) (font_start cs i) (length (cs ! i)) = cs ! i) \<and>
    (\<forall>z qh ql. font_size z \<and> hz_code qh ql \<and> (hz_index qh ql + 1) * unat (mat_bytes z) \<le> length (cs ! font_file z) \<longrightarrow>
       hz_glyph (flash nv (hw (text_nor t))) (ftinfo t) z qh ql =
         take (unat (mat_bytes z)) (drop (hz_index qh ql * unat (mat_bytes z)) (cs ! font_file z))) \<and>
    (\<forall>a. a < 25 * 1024 * 1024 \<or> 7939 * 4096 \<le> a \<longrightarrow> flash nv (hw (text_nor t)) a = flash nv (hw (text_nor s)) a) \<and>
    (\<forall>u delay. text_nor u = text_nor t \<longrightarrow> fst (fonts_init spi delay u) = 0 \<and> ftinfo (snd (fonts_init spi delay u)) = ftinfo t)"
proof -
  have ok: "heap_ok SRAMIN (text_heap s)" using assms(3) by (simp add: font_ready_def)
  obtain m f r s2 where b: "s2 = s\<lparr>ftinfo := (ftinfo s)\<lparr>fontok := 0xFF\<rparr>, font_files := f, text_heap := h2\<lparr>ram := m\<rparr>\<rparr>"
    "r = (if \<forall>j<5. stored fv (font_files s) (str @ FONT_GBK_PATH ! j) \<noteq> None then 0 else 0x80)"
    "fonts_update_font spi h F percent x y sz src color s =
       Option.bind (if r = 0 then update_files spi h F percent x y sz src color pname buf s2 else Some (r, s2)) (finish_update r pname buf)"
    "stored fv f = stored fv (font_files s)" "heap_ok SRAMIN (text_heap s2)" "name_outside (text_heap s2) src str" "has_room F (text_heap s2)"
    "\<forall>j<100. pool_has (text_heap s2) (pname + of_nat j)" "\<forall>j<4096. pool_has (text_heap s2) (buf + of_nat j)"
    and fr: "\<And>m'. \<exists>h4. myfree SRAMIN pname (h2\<lparr>ram := m'\<rparr>) = Some h4 \<and> myfree SRAMIN buf h4 = Some ((text_heap s)\<lparr>ram := m'\<rparr>)"
    by (rule update_begins [OF assms(1) ok assms(4,5,11-15), of spi h percent x y sz color]) (rule that)
  have "length str + 25 \<le> 100" "font_start cs 5 \<le> cap" "font_ready h v spi nv cap sz x y s2" "r = 0"
    using assms(3,5,6,9,10) b(1,2,5) by (simp_all add: font_ready_def)
  then obtain t where t: "update_files spi h F percent x y sz src color pname buf s2 = Some (0, t)" "font_ready h v spi nv cap sz x y t"
      "heap_same (text_heap s2) (text_heap t)" "listed cs 5 (ftinfo t)" "fontok (ftinfo t) = 0xAA"
      "flash nv (hw (text_nor t)) = updated (flash nv (hw (text_nor s))) cs (ftinfo t)"
    using update_files_ok [OF assms(1,2) _ assms(7,8) _ assms(10) _ b(6,8,9,7), of h v spi nv sz x y percent color] assms(6) b(1,4) by auto
  obtain m' where m': "text_heap t = h2\<lparr>ram := m'\<rparr>" using t(3) b(1) by (auto simp: heap_same_def)
  let ?t = "t\<lparr>text_heap := (text_heap s)\<lparr>ram := m'\<rparr>\<rparr>"
  have "fonts_update_font spi h F percent x y sz src color s = Some (0, ?t)"
    unfolding b(3) using \<open>r = 0\<close> t(1) m' fr [of m'] by (auto simp: finish_update_def)
  then show ?thesis
  proof (intro exI [of _ ?t] exI [of _ m'] conjI allI impI)
    show "text_heap ?t = (text_heap s)\<lparr>ram := m'\<rparr>" by simp
    show "listed cs 5 (ftinfo ?t)" using t(4) by simp
    show "i < 5 \<Longrightarrow> window (flash nv (hw (text_nor ?t))) (font_start cs i) (length (cs ! i)) = cs ! i" for i
      using updated_fonts [OF assms(7)] by (simp add: t(6))
    fix z qh ql assume "font_size z \<and> hz_code qh ql \<and> (hz_index qh ql + 1) * unat (mat_bytes z) \<le> length (cs ! font_file z)"
    then show "hz_glyph (flash nv (hw (text_nor ?t))) (ftinfo ?t) z qh ql =
        take (unat (mat_bytes z)) (drop (hz_index qh ql * unat (mat_bytes z)) (cs ! font_file z))"
      using installed_glyph [OF t(4) assms(7,9)] updated_fonts [OF assms(7)] by (simp add: t(6) font_file_def)
  next
    show "a < 25 * 1024 * 1024 \<or> 7939 * 4096 \<le> a \<Longrightarrow> flash nv (hw (text_nor ?t)) a = flash nv (hw (text_nor s)) a" for a
      using updated_outside [OF assms(9,7)] by (simp add: t(6))
    fix u :: "(_, _) text_env" and delay assume u: "text_nor u = text_nor ?t"
    have "fst (fonts_init spi delay u) = 0 \<and> ftinfo (snd (fonts_init spi delay u)) = ftinfo t"
      by (rule updated_start [OF _ _ assms(10) _ t(5)]) (use u t(2,6) in \<open>simp_all add: font_ready_def\<close>)
    then show "fst (fonts_init spi delay u) = 0" "ftinfo (snd (fonts_init spi delay u)) = ftinfo ?t" by simp_all
  qed simp
qed

text \<open>When a file is missing nothing is erased or written.\<close>

lemma fonts_update_missing:
  assumes "open_law F fv" "font_ready h v spi nv cap sz x y s"
    and "name_outside (text_heap s) src str" "length str \<le> 75"
    and "i < 5" "stored fv (font_files s) (str @ FONT_GBK_PATH ! i) = None"
    and "mymalloc SRAMIN 100 (text_heap s) = Some (pname, h1)" "mymalloc SRAMIN 4096 h1 = Some (buf, h2)" "pname \<noteq> 0" "buf \<noteq> 0" "has_room F h2"
  shows "\<exists>t m. fonts_update_font spi h F percent x y sz src color s = Some (0x80, t) \<and> text_heap t = (text_heap s)\<lparr>ram := m\<rparr> \<and>
    text_nor t = text_nor s \<and> text_screen t = text_screen s"
proof -
  have ok: "heap_ok SRAMIN (text_heap s)" using assms(2) by (simp add: font_ready_def)
  obtain m f r s2 where b: "s2 = s\<lparr>ftinfo := (ftinfo s)\<lparr>fontok := 0xFF\<rparr>, font_files := f, text_heap := h2\<lparr>ram := m\<rparr>\<rparr>"
    "r = (if \<forall>j<5. stored fv (font_files s) (str @ FONT_GBK_PATH ! j) \<noteq> None then 0 else 0x80)"
    "fonts_update_font spi h F percent x y sz src color s =
       Option.bind (if r = 0 then update_files spi h F percent x y sz src color pname buf s2 else Some (r, s2)) (finish_update r pname buf)"
    and fr: "\<And>m'. \<exists>h4. myfree SRAMIN pname (h2\<lparr>ram := m'\<rparr>) = Some h4 \<and> myfree SRAMIN buf h4 = Some ((text_heap s)\<lparr>ram := m'\<rparr>)"
    by (rule update_begins [OF assms(1) ok assms(3,4,7-11), of spi h percent x y sz color]) (rule that)
  have "r = 0x80" unfolding b(2) using assms(5,6) by auto
  then have "fonts_update_font spi h F percent x y sz src color s = Some (0x80, s2\<lparr>text_heap := (text_heap s)\<lparr>ram := m\<rparr>\<rparr>)"
    unfolding b(3) using fr [of m] by (auto simp: finish_update_def b(1))
  then show ?thesis by (intro exI [of _ "s2\<lparr>text_heap := (text_heap s)\<lparr>ram := m\<rparr>\<rparr>"] exI [of _ m]) (simp add: b(1))
qed

section \<open>An update in a small world\<close>

text \<open>A file system that keeps its files as lists, with five files of one byte.\<close>

type_synonym list_files = "(u8 list \<Rightarrow> u8 list option) \<times> (u32 \<Rightarrow> u8 list) \<times> (u32 \<Rightarrow> u8 list)"

definition list_fat :: "list_files fatfs" where
  "list_fat = \<lparr>x_open = (\<lambda>p n mode m (st, w, r). case st (takeWhile (\<lambda>c. c \<noteq> 0) (mem_bytes m n 256)) of
       None \<Rightarrow> (4, st, w, r) | Some c \<Rightarrow> (0, st, w(p := c), r(p := c))),
     x_read = (\<lambda>p n (st, w, r). (0, take (unat n) (r p), st, w, r(p := drop (unat n) (r p)))),
     x_write = (\<lambda>p bs f. (0, 0, f)), x_close = (\<lambda>p f. f), x_objsize = (\<lambda>p (st, w, r). of_nat (length (w p))), x_sizeof_FIL = 64\<rparr>"

definition list_view :: "list_files font_view" where
  "list_view = \<lparr>stored = fst, whole = fst \<circ> snd, unread = snd \<circ> snd\<rparr>"

lemma read_name:
  assumes "name_at m n path" "length path < 256"
  shows "takeWhile (\<lambda>c. c \<noteq> 0) (mem_bytes m n 256) = path"
proof -
  have "takeWhile (\<lambda>c. c \<noteq> 0) (mem_bytes m n 256) = take (length path) (mem_bytes m n 256)"
    using assms by (intro takeWhile_eq_take_P_nth) (auto simp: nth_mem_bytes name_at_iff dest: nth_mem)
  also have "\<dots> = path" using assms by (intro nth_equalityI) (simp_all add: nth_mem_bytes name_at_iff)
  finally show ?thesis .
qed

lemma list_fat_laws: "open_law list_fat list_view" "read_file_law list_fat list_view"
  by (auto simp: open_law_def read_file_law_def list_fat_def list_view_def read_name split: option.split)

definition demo_fonts :: "u8 list list" where
  "demo_fonts = [[1], [2], [3], [4], [5]]"

definition demo_update :: "(sim, lsim, list_files) font_env" where
  "demo_update = text_env.extend (demo_text (demo_heap\<lparr>ram := mem_store (\<lambda>_. 0) 0x08010000 (ascii ''0:'' @ [0])\<rparr>))
     (font_env.fields (map_of (zip (map ((@) (ascii ''0:'')) FONT_GBK_PATH) demo_fonts), \<lambda>_. [], \<lambda>_. []))"

text \<open>Memory that is used from the top: the next block is the highest that is free.\<close>

definition free_below :: "nat \<Rightarrow> heap \<Rightarrow> bool" where
  "free_below k p \<longleftrightarrow> k \<le> 800 \<and> (\<forall>i<k. memmap p SRAMIN ! i = 0) \<and> (\<forall>i. k \<le> i \<and> i < 800 \<longrightarrow> memmap p SRAMIN ! i \<noteq> 0)"

lemma scan_skip:
  assumes "\<forall>i. k \<le> i \<and> i < k + d \<longrightarrow> tbl ! i \<noteq> 0" "nm \<noteq> 0"
  shows "table_scan tbl nm 0 (k + d) = table_scan tbl nm 0 k"
  using assms(1)
proof (induction d)
  case (Suc d)
  then have "tbl ! (k + d) \<noteq> 0" "nm \<noteq> 0" using assms(2) by simp_all
  then show ?case using Suc by (simp add: Let_def)
qed simp

lemma scan_count:
  "\<forall>i\<le>k + d. tbl ! i = 0 \<Longrightarrow> c + Suc d = n \<Longrightarrow> n < 2 ^ 32 \<Longrightarrow> table_scan tbl (of_nat n) (of_nat c) (Suc (k + d)) = Some k"
proof (induction d arbitrary: c)
  case 0
  have "of_nat c + 1 = (of_nat n :: u32)" using 0(2) by (auto simp: add.commute)
  then show ?case using 0(1) by (simp add: Let_def)
next
  case (Suc d)
  have "of_nat c + 1 = (of_nat (Suc c) :: u32)" by (simp add: add.commute)
  moreover have "(of_nat (Suc c) :: u32) \<noteq> of_nat n"
    using Suc.prems(2,3) word_of_nat_inj_small [of "Suc c" n, where 'a = 32] by auto
  moreover have "table_scan tbl (of_nat n) (of_nat (Suc c)) (Suc (k + d)) = Some k" by (rule Suc.IH) (use Suc.prems in auto)
  ultimately show ?case using Suc.prems(1) by (simp add: Let_def del: of_nat_Suc)
qed

lemma mymalloc_top:
  assumes ok: "heap_ok SRAMIN p" and free: "free_below (k + n) p" and n: "n = unat (nmemb_of SRAMIN sz)" "sz \<noteq> 0"
  obtains a q where "mymalloc SRAMIN sz p = Some (a, q)" "a \<noteq> 0" "heap_ok SRAMIN q" "free_below k q"
proof -
  have 0: "0 < n" using nmemb_of_pos [OF n(2)] n(1) by (simp add: unat_gt_0)
  have tbl: "length (memmap p SRAMIN) = 800" using heap_inv_length [of p SRAMIN] ok by (simp add: heap_ok_def unat_memtblsize)
  have r: "ready SRAMIN p = p" using ok by (simp add: heap_ok_def ready_def)
  have k: "k + n \<le> 800" "n < 2 ^ 32" using free by (simp_all add: free_below_def)
  have nm: "nmemb_of SRAMIN sz = of_nat n" "(of_nat n :: u32) \<noteq> 0" using n(1) 0 by (simp_all add: word_unat_eq_iff)
  have "table_scan (memmap p SRAMIN) (of_nat n) 0 (k + n + (800 - (k + n))) = table_scan (memmap p SRAMIN) (of_nat n) 0 (k + n)"
    by (rule scan_skip) (use free nm(2) in \<open>auto simp: free_below_def\<close>)
  also have "\<dots> = Some k"
    using scan_count [of k "n - 1" "memmap p SRAMIN" 0 n] free 0 k(2) by (simp add: free_below_def)
  finally have scan: "table_scan (memmap p SRAMIN) (of_nat n) 0 800 = Some k" using k(1) by simp
  have un: "unat (of_nat n :: u32) = n" using k(2) by (intro unat_of_nat_small) simp
  let ?t = "take k (memmap p SRAMIN) @ replicate n (of_nat n) @ drop (k + n) (memmap p SRAMIN)"
  let ?q = "p\<lparr>memmap := (memmap p)(SRAMIN := ?t)\<rparr>"
  have fill: "arr_fill (memmap p SRAMIN) k n (of_nat n) = Some ?t" by (rule arr_fill_Some) (use k tbl in simp)
  have "my_mem_malloc SRAMIN sz p = Some (of_nat k * 64, ?q)"
    using my_mem_malloc_unfold [OF n(2), of SRAMIN p] unfolding r unat_memtblsize by (simp add: tbl scan fill nm(1) un)
  moreover have "(of_nat k * 64 :: u32) \<noteq> 0xFFFFFFFF" using block_offset_valid [of k n SRAMIN] k(1) by (simp add: unat_memtblsize)
  ultimately have m: "mymalloc SRAMIN sz p = Some (membase p SRAMIN + of_nat (k * 64), ?q)" by (simp add: mymalloc_def)
  have "k * 64 < unat (memsize SRAMIN)" using k(1) 0 unfolding unat_memsize by (simp add: unat_memtblsize)
  then have nz: "membase p SRAMIN + of_nat (k * 64) \<noteq> 0" by (rule pool_addr_nonzero [rotated]) (use ok in \<open>simp add: heap_ok_def\<close>)
  have "free_below k ?q" using free tbl nm(2) k(1) by (auto simp: free_below_def nth_append)
  moreover have "heap_ok SRAMIN ?q" by (rule mymalloc_own [OF ok m])
  ultimately show thesis using that [OF m nz] by blast
qed

lemma demo_update_fields [simp]:
  "text_heap demo_update = demo_heap\<lparr>ram := mem_store (\<lambda>_. 0) 0x08010000 (ascii ''0:'' @ [0])\<rparr>" "text_screen demo_update = mcu_screen"
  "text_nor demo_update = blank_flash"
  "font_files demo_update = (map_of (zip (map ((@) (ascii ''0:'')) FONT_GBK_PATH) demo_fonts), \<lambda>_. [], \<lambda>_. [])"
  by (simp_all add: demo_update_def text_env.extend_def font_env.fields_def demo_text_def)

lemma demo_update_ready: "font_ready lsim_port lsim_view sim_dev sim_view (2 ^ 25) 16 10 20 demo_update"
  using sim_nor_chip lsim_law screens_ok(2) demo_heap_ok
  by (simp add: font_ready_def messages_fit_def font_size_def blank_flash_def sim_view_def mcu_screen_def)

lemma demo_update_files: "\<forall>j<5. stored list_view (font_files demo_update) (ascii ''0:'' @ FONT_GBK_PATH ! j) = Some (demo_fonts ! j)"
proof -
  have "list_all (\<lambda>j. map_of (zip (map ((@) (ascii ''0:'')) FONT_GBK_PATH) demo_fonts) (ascii ''0:'' @ FONT_GBK_PATH ! j) = Some (demo_fonts ! j)) [0..<5]"
    by code_simp
  then show ?thesis by (simp add: list_view_def list_all_iff)
qed

lemma demo_update_name: "name_outside (text_heap demo_update) 0x08010000 (ascii ''0:'')"
proof -
  have "length (ascii ''0:'') = 2" "0 \<notin> set (ascii ''0:'')" by code_simp+
  moreover have "\<not> pool_has (text_heap demo_update) (0x08010000 + of_nat j)" if "j \<le> 2" for j
  proof -
    have "unat (0x08010000 + of_nat j :: u32) = 0x08010000 + j" using that by (subst unat_add_lem [THEN iffD1]) (simp_all add: unat_of_nat_small)
    then show ?thesis using that by (simp add: pool_has_def)
  qed
  ultimately show ?thesis using name_stored [of "ascii ''0:''"] by (simp add: name_outside_def)
qed

lemma demo_update_memory:
  obtains pname h1 buf h2 where "mymalloc SRAMIN 100 (text_heap demo_update) = Some (pname, h1)" "mymalloc SRAMIN 4096 h1 = Some (buf, h2)"
    "pname \<noteq> 0" "buf \<noteq> 0" "has_room list_fat h2"
proof -
  have n: "2 = unat (nmemb_of SRAMIN 100)" "64 = unat (nmemb_of SRAMIN 4096)" "1 = unat (nmemb_of SRAMIN 64)" by (simp_all add: nmemb_of_def)
  have ok: "heap_ok SRAMIN (text_heap demo_update)" using demo_heap_ok by simp
  have free: "free_below (798 + 2) (text_heap demo_update)" by (simp add: free_below_def unat_memtblsize)
  have sum: "(798 :: nat) = 734 + 64" "(734 :: nat) = 733 + 1" "(733 :: nat) = 669 + 64" by simp_all
  obtain a h1 where 1: "mymalloc SRAMIN 100 (text_heap demo_update) = Some (a, h1)" "a \<noteq> 0" "heap_ok SRAMIN h1" "free_below 798 h1"
    by (rule mymalloc_top [OF ok free n(1)]) simp
  obtain b h2 where 2: "mymalloc SRAMIN 4096 h1 = Some (b, h2)" "b \<noteq> 0" "heap_ok SRAMIN h2" "free_below 734 h2"
    by (rule mymalloc_top [OF 1(3) 1(4) [unfolded sum(1)] n(2)]) simp
  obtain c h3 where 3: "mymalloc SRAMIN 64 h2 = Some (c, h3)" "c \<noteq> 0" "heap_ok SRAMIN h3" "free_below 733 h3"
    by (rule mymalloc_top [OF 2(3) 2(4) [unfolded sum(2)] n(3)]) simp
  obtain d h4 where 4: "mymalloc SRAMIN 4096 h3 = Some (d, h4)" "d \<noteq> 0"
    by (rule mymalloc_top [OF 3(3) 3(4) [unfolded sum(3)] n(2)]) simp
  have "x_sizeof_FIL list_fat = 64" by (simp add: list_fat_def)
  then have "has_room list_fat h2" using 3 4 by (auto simp: has_room_def)
  then show thesis using that 1 2 by blast
qed

lemma fonts_update_installs_witness:
  "\<exists>t m. fonts_update_font sim_dev lsim_port list_fat (\<lambda>_ _. Some 50) 10 20 16 0x08010000 0x1F demo_update = Some (0, t) \<and>
     text_heap t = (text_heap demo_update)\<lparr>ram := m\<rparr> \<and> window (flash sim_view (hw (text_nor t))) 26214443 1 = [3]"
proof -
  obtain pname h1 buf h2 where m: "mymalloc SRAMIN 100 (text_heap demo_update) = Some (pname, h1)" "mymalloc SRAMIN 4096 h1 = Some (buf, h2)"
    "pname \<noteq> 0" "buf \<noteq> 0" "has_room list_fat h2" by (rule demo_update_memory)
  have "length (ascii ''0:'') \<le> 75" "length demo_fonts = 5" "\<forall>c\<in>set demo_fonts. length c mod 4096 \<noteq> 0" by code_simp+
  moreover have "font_start demo_fonts 5 \<le> 7939 * 4096" "7939 * 4096 \<le> (2 :: nat) ^ 25" by (simp_all add: font_start_def demo_fonts_def)
  ultimately obtain t m' where t: "fonts_update_font sim_dev lsim_port list_fat (\<lambda>_ _. Some 50) 10 20 16 0x08010000 0x1F demo_update = Some (0, t)"
    "text_heap t = (text_heap demo_update)\<lparr>ram := m'\<rparr>"
    "\<forall>i<5. window (flash sim_view (hw (text_nor t))) (font_start demo_fonts i) (length (demo_fonts ! i)) = demo_fonts ! i"
    using fonts_update_installs [OF list_fat_laws demo_update_ready demo_update_name _ demo_update_files _ _ _ _ m, of "\<lambda>_ _. Some 50" "0x1F"] by blast
  then show ?thesis using spec [OF t(3), of 2] by (auto simp: font_start_def demo_fonts_def)
qed

end
