(* ===== verification/Spec2Isabelle.thy ===== *)
theory Spec2Isabelle
  imports Heap_Clients Usmart Remote Key Pcf8574 Usb_Storage Delay Gbk_Text Gbk_Codes Wav_Player Exfuns Font_Update
begin

text \<open>
  A model of the firmware of the Apollo board (STM32F429). The program is a bare-metal
  application: a heap of its own, a command shell on the serial line, drivers for the storage
  chips and input devices of the board, and a translation layer that makes a disk of the NAND
  flash. It runs on the vendor's HAL.

  \<^bold>\<open>Theories and sources.\<close>
  \<^item> \<open>Apollo_Prelude\<close>: words at their C width, arrays with bounds (\<open>arr_get\<close>, \<open>arr_set\<close>: an access
    outside is \<open>None\<close>), the facts on both that the theories share.
  \<^item> \<open>Alloc_Interface\<close>, \<open>Malloc\<close>: the block allocator, \<open>src/Middlewares/MALLOC/malloc.c\<close>. The state is
    the record of the pools, their tables of blocks and the memory. The interface states what a
    client may rely on; the allocator interprets it. \<open>Heap_Clients\<close> are its clients as they see it:
    they hold pointers and sizes and know nothing of the table.
  \<^item> \<open>Usmart_Str\<close>, \<open>Usmart\<close>: the shell, \<open>src/Middlewares/USMART/\<close>: text routines, recognition of a
    call, its execution with the called function as a parameter, system commands, run time.
  \<^item> \<open>Event_Machine\<close>: machines driven by events, with an interface for invariants over runs.
    \<open>Usart\<close> (\<open>src/Drivers/SYSTEM/usart/usart.c\<close>), \<open>Remote\<close> (\<open>src/Drivers/BSP/REMOTE/remote.c\<close>)
    and \<open>Key\<close> (\<open>src/Drivers/BSP/KEY/key.c\<close>) are its interrupt handlers and pollers.
  \<^item> \<open>Byte_Store\<close>: what a storage device promises: it answers requests like an array. The interface
    \<open>array_store\<close> is for any elements, \<open>byte_store\<close> for bytes. Three providers interpret it: the NOR
    flash, the EEPROM and the translation layer (with sectors of 512 bytes as elements).
    \<open>store_family\<close> is the interface of several arrays in one state, which the disk layer provides.
  \<^item> \<open>Norflash\<close>: \<open>src/Drivers/BSP/NORFLASH/norflash.c\<close> over the SPI byte exchange.
  \<^item> \<open>Iic\<close>, \<open>At24cxx\<close>, \<open>Pcf8574\<close>: the bit-level bus master \<open>src/Drivers/BSP/IIC/myiic.c\<close> and its two
    users \<open>24CXX/24cxx.c\<close> and \<open>PCF8574/pcf8574.c\<close>.
  \<^item> \<open>Nand_Ecc\<close>, \<open>Nand\<close>: \<open>src/Drivers/BSP/NAND/nand.c\<close>. \<open>Nand_Chip\<close> states the laws of the controller
    with a chip behind it and what each routine does under them, and builds an executable chip that
    obeys them. \<open>Nand_Pages\<close> has the properties of whole pages.
  \<^item> \<open>Ftl\<close>: \<open>src/Drivers/BSP/NAND/ftl.c\<close>. \<open>Ftl_Table\<close> has the search for blocks and the construction of
    the table, \<open>Ftl_Array\<close> the copy of a block with rewritten sectors, \<open>Ftl_Sectors\<close> the loops over
    sectors and the refinement of an array of sectors.
  \<^item> \<open>Sdcard\<close>: \<open>src/Drivers/BSP/SDIO/sdio_sdcard.c\<close> over the card routines of the HAL.
  \<^item> \<open>Disk\<close>: \<open>src/Middlewares/FATFS/source/diskio.c\<close>, which puts the card, the first 25 MB of the NOR
    flash and the translation layer behind the interface of the file system. \<open>Disk_Arrays\<close> shows that
    the three drives are arrays of sectors, apart from each other.
  \<^item> \<open>Usb_Storage\<close>: \<open>src/Middlewares/USB/USB_APP/usbd_storage.c\<close>, the callbacks through which a PC
    reaches the same drives.
  \<^item> \<open>Delay\<close>: \<open>src/Drivers/SYSTEM/delay/delay.c\<close>, the busy waits on the system timer.
  \<^item> \<open>Canvas\<close>: what a display promises to the routines that draw. \<open>Ltdc\<close> is the driver of RGB panels,
    \<open>src/Drivers/BSP/LCD/ltdc.c\<close>, and \<open>Ltdc_Canvas\<close> the frame buffer and the graphics accelerator as
    a picture. \<open>Lcd_Ex\<close> has the initialisation sequences of \<open>lcd_ex.c\<close>, \<open>Lcd\<close> the part of \<open>lcd.c\<close> that
    talks to the panel, \<open>Lcd_Canvas\<close> RGB panels and all the controllers \<open>lcd_set_cursor\<close> tells
    apart (the ILI9341 family, NT35510, SSD1963) as a picture, \<open>Lcd_Draw\<close> its lines,
    rectangles, circles and discs, \<open>Lcd_Text\<close> its characters, numbers and strings, with the glyphs of
    \<open>lcdfont.h\<close> in \<open>Lcd_Font\<close>.
  \<^item> \<open>Gbk_Text\<close>: \<open>src/Middlewares/TEXT/text.c\<close>, Chinese text: glyphs come from the NOR flash through a
    block of the heap to the display; and the start of \<open>fonts.c\<close>, the check for the fonts.
    \<open>Gbk_Codes\<close>: \<open>src/Middlewares/FATFS/exfuns/myffunicode.c\<close>, the conversion of file names between
    Unicode and GBK through tables in the same flash.
  \<^item> \<open>Wavplay\<close>, \<open>Wav_Player\<close>: \<open>src/Middlewares/AUDIOCODEC/wav/wavplay.c\<close>, the player of WAV files. The
    file system is a parameter (\<open>fat\<close>); \<open>Wavplay\<close> has the header and the filling of a buffer,
    \<open>Wav_Player\<close> the two buffers, the interrupt of their transfer and the loop of the player as events
    of a machine over the heap and the key scanner. The interrupt can come between any two steps of the
    loop, also in the delay of the key scan.
  \<^item> \<open>C_Strings\<close>: strings in the memory of the heap, which file names and paths are.
  \<^item> \<open>Exfuns\<close>: \<open>src/Middlewares/FATFS/exfuns/exfuns.c\<close>, types of files, the last part of a path and
    the copy of a file, over the heap and a file system as parameter.
  \<^item> \<open>Fonts\<close>, \<open>Font_Update\<close>: \<open>src/Middlewares/TEXT/fonts.c\<close>, the update of the fonts in the NOR flash from
    files. It joins the heap, the file system, the flash and the display.

  \<^bold>\<open>Modelling.\<close> A C function is a definition of its name; a loop is a recursive definition beside
  it. State that the C code keeps in globals is a record passed through. An access outside an
  array, a division by zero or a read of an object that was never stored to is \<open>None\<close>; the theorems
  of the form \<open>f x = Some y\<close> therefore also say that the code stays inside its arrays. Integers have
  their width in C. Loops that wait for hardware or depend on it are partial functions, and that
  they return is part of the theorems. A loop whose number of rounds is fixed when it starts
  recurses on that number.

  \<^bold>\<open>Hardware.\<close> What is behind the HAL is a record of functions on a state of the hardware: lines of
  the bus, byte exchange, memory controller, time. The laws a driver relies on are named
  definitions or interfaces, and each has an executable instance (\<open>nsim_bus\<close> for the NAND chip and
  similar ones for the other drivers), on which the witnesses evaluate. The unit of the controller
  that computes the code of a sector is described by the parity of the numbers of the bits that are
  set (\<open>hamming\<close>).

  \<^bold>\<open>What is shown.\<close> The allocator hands out blocks that are disjoint and inside their pool, finds
  the last run that fits, and the pointers its clients hold name separate ranges of the pool. The shell runs a recognised
  call with its arguments in order. The receiver delivers exactly the lines on the wire, the
  infrared decoder the frame sent. Bytes written to the NOR flash and the EEPROM are read back and
  nothing else changes, page ends and shared sectors included. The code of a NAND sector corrects
  any single wrong bit; a page is read back as written. The table of the translation layer lists
  for each logical number the last good block that carries it; under the invariant \<open>ftl_ok\<close> (blocks
  of their own, sectors with their codes or blank, a spare block in each plane) any sequence of
  reads and writes of sectors behaves like an array, whether the layer writes in place or moves a
  block, and keeps the invariant. The disk layer answers the file system like three separate arrays
  of sectors, also when card transfers fail and are repeated, and what a PC writes over USB is what
  the file system reads. A delay returns, and not before its time. A panel of any
  kind shows what is painted on it and changes nowhere else; lines and circles colour the points they
  are made of, characters show their glyphs, numbers their digits,
  and text stays in its box. The header of a WAV file is taken apart as it was put together, the two
  buffers of the player lose no samples while the interrupts are in time, however often it is
  paused, though a pause may repeat a buffer, and a song gives back its memory. The bisection of the name tables is a search, the copy of
  a file has its bytes, and after an update of the fonts the text routines find the glyphs of the files. Where the code does not do what
  it means to, the behaviour is a theorem too (too many parameters, a buffer repeated by a pause,
  release inside a block, characters at the bottom of the display, glyphs longer than their block,
  the end of a song and a flag left behind by the song before).

  \<^bold>\<open>Not modelled.\<close> The HAL, CMSIS, lwIP, FatFs (but for its disk layer) and the USB stack (but for
  its storage callbacks) are third-party. Set-up of pins,
  clocks and peripherals only calls the HAL. The sequences of register values for panels, sensors
  and the audio codec are tables. \<open>printf\<close> diagnostics are left out except in the shell, where the
  output is the result.
\<close>

end
